(* ===== verification/Prelude.thy ===== *)
theory Prelude
  imports Main "HOL-Library.Word"
begin

unbundle bit_operations_syntax

text \<open>
  Shared vocabulary of the development: the C integer types as words, the result of an
  operation that can fail, the outcome of the allocator as an explicit script, C string
  primitives on character lists, and the generic facts on lists and words that several
  components use.
\<close>

section \<open>Collections of facts\<close>

named_theorems invar_intros \<open>operations keep the invariant of their component\<close>
named_theorems frame_simps \<open>fields an operation does not touch\<close>

section \<open>C integer types\<close>

type_synonym u8 = "8 word"
type_synonym u16 = "16 word"
type_synonym u32 = "32 word"
type_synonym u64 = "64 word"

section \<open>Results\<close>

text \<open>\<^verbatim>\<open>enum ud3tn_result\<close> of \<^verbatim>\<open>include/ud3tn/result.h\<close>.\<close>

datatype ud3tn_result = UD3TN_OK | UD3TN_FAIL

text \<open>\<^verbatim>\<open>enum parser_status\<close> of \<^verbatim>\<open>include/ud3tn/parser.h\<close>, shared by the stream parsers.\<close>

datatype parser_status = PARSER_STATUS_GOOD | PARSER_STATUS_DONE | PARSER_STATUS_ERROR

section \<open>Allocation\<close>

text \<open>
  The C allocator may refuse any request. A function that allocates takes a script: one
  Boolean per request, consumed in the order of the \<^verbatim>\<open>malloc\<close> (or \<^verbatim>\<open>strdup\<close>) calls;
  the exhausted script stands for an allocator that grants every further request. A
  statement for all scripts covers every pattern of allocation failures.
\<close>

type_synonym alloc_script = "bool list"

fun malloc_ok :: "alloc_script \<Rightarrow> bool" where
  "malloc_ok [] = True"
| "malloc_ok (b # bs) = b"

fun malloc_rest :: "alloc_script \<Rightarrow> alloc_script" where
  "malloc_rest [] = []"
| "malloc_rest (b # bs) = bs"

section \<open>Faults\<close>

text \<open>
  What ends a C run abnormally. An operation that can fault returns a sum: \<^term>\<open>Inl\<close> of the
  fault or \<^term>\<open>Inr\<close> of its result; \<open>bindE\<close> runs the continuation only on a result.
  \<open>AssertFailed\<close> is the \<^verbatim>\<open>ASSERT\<close> of \<^verbatim>\<open>include/ud3tn/common.h\<close>, active in every build;
  \<open>Aborted\<close> is a call of \<^verbatim>\<open>abort\<close>.
\<close>

datatype fault = NullDeref | OutOfBounds | UseAfterFree | AssertFailed | Aborted

definition bindE :: "'e + 'a \<Rightarrow> ('a \<Rightarrow> 'e + 'b) \<Rightarrow> 'e + 'b" where
  "bindE m f = (case m of Inl e \<Rightarrow> Inl e | Inr x \<Rightarrow> f x)"

lemma bindE_simps [simp]: "bindE (Inl e) f = Inl e" "bindE (Inr x) f = f x"
  by (simp_all add: bindE_def)

lemma bindE_Inr_iff: "bindE m f = Inr y \<longleftrightarrow> (\<exists>x. m = Inr x \<and> f x = Inr y)"
  by (cases m) auto

lemma bindE_assoc: "bindE (bindE m f) g = bindE m (\<lambda>x. bindE (f x) g)"
  by (cases m) auto

lemma bindE_cong [fundef_cong]:
  "m = m' \<Longrightarrow> (\<And>x. m' = Inr x \<Longrightarrow> f x = f' x) \<Longrightarrow> bindE m f = bindE m' f'"
  by (cases m') auto

definition deref :: "'a option \<Rightarrow> fault + 'a" where
  "deref p = (case p of None \<Rightarrow> Inl NullDeref | Some x \<Rightarrow> Inr x)"

lemma deref_simps [simp]: "deref None = Inl NullDeref" "deref (Some x) = Inr x"
  by (simp_all add: deref_def)

lemma deref_Inr_iff: "deref p = Inr x \<longleftrightarrow> p = Some x"
  by (cases p) auto

section \<open>C memory\<close>

text \<open>
  \<^verbatim>\<open>memcpy\<close> into an allocated region at an offset, and \<^verbatim>\<open>strlen\<close> of the string a region holds: leaving
  the region, or finding no terminator in it, is a fault.
\<close>

definition memcpy_at :: "u8 list option \<Rightarrow> nat \<Rightarrow> u8 list \<Rightarrow> fault + u8 list" where
  "memcpy_at dst off data = bindE (deref dst) (\<lambda>buf.
     if off + length data \<le> length buf then Inr (take off buf @ data @ drop (off + length data) buf) else Inl OutOfBounds)"

definition read_mem :: "u8 list option \<Rightarrow> nat \<Rightarrow> fault + u8 list" where
  "read_mem src n = bindE (deref src) (\<lambda>buf. if n \<le> length buf then Inr (take n buf) else Inl OutOfBounds)"

definition c_strlen :: "u8 list \<Rightarrow> fault + nat" where
  "c_strlen buf = (if 0 \<in> set buf then Inr (length (takeWhile (\<lambda>c. c \<noteq> 0) buf)) else Inl OutOfBounds)"

lemma memcpy_at_Some: "off + length data \<le> length buf \<Longrightarrow>
    memcpy_at (Some buf) off data = Inr (take off buf @ data @ drop (off + length data) buf)"
  by (simp add: memcpy_at_def)

lemma read_mem_Some: "n \<le> length buf \<Longrightarrow> read_mem (Some buf) n = Inr (take n buf)"
  by (simp add: read_mem_def)

lemma c_strlen_terminated: "0 \<notin> set cs \<Longrightarrow> c_strlen (cs @ 0 # rest) = Inr (length cs)"
  by (auto simp: c_strlen_def takeWhile_tail takeWhile_append)

section \<open>C strings\<close>

text \<open>\<^verbatim>\<open>strstr\<close>: the position of the first occurrence of a string in another.\<close>

fun strstr :: "string \<Rightarrow> string \<Rightarrow> nat option" where
  "strstr [] n = (if n = [] then Some 0 else None)"
| "strstr (c # cs) n = (if take (length n) (c # cs) = n then Some 0 else map_option Suc (strstr cs n))"

lemma strstr_Some: "strstr h n = Some k \<Longrightarrow> k \<le> length h \<and> take (length n) (drop k h) = n"
  by (induction h n arbitrary: k rule: strstr.induct) (auto split: if_splits)

lemma strstr_None: "strstr h n = None \<Longrightarrow> take (length n) (drop k h) \<noteq> n"
proof (induction h n arbitrary: k rule: strstr.induct)
  case (2 c cs n)
  then show ?case by (cases k) (auto split: if_splits)
qed auto

lemma strstr_first: "strstr h n = Some k \<Longrightarrow> j < k \<Longrightarrow> take (length n) (drop j h) \<noteq> n"
proof (induction h n arbitrary: k j rule: strstr.induct)
  case (2 c cs n)
  then show ?case by (cases j) (auto split: if_splits)
qed (auto split: if_splits)

text \<open>The bytes of a string and the string of bytes; the terminator is not part of a string.\<close>

definition string_bytes :: "string \<Rightarrow> u8 list" where
  "string_bytes s = map of_char s"

definition bytes_string :: "u8 list \<Rightarrow> string" where
  "bytes_string bs = map (\<lambda>b. char_of (unat b)) bs"

definition c_string :: "string \<Rightarrow> bool" where
  "c_string s \<longleftrightarrow> CHR 0x00 \<notin> set s"

lemma unat_of_char: "unat (of_char c :: u8) = of_char c"
proof -
  have "(of_char c :: u8) = of_nat (of_char c)" by (simp only: of_nat_of_char)
  moreover have "(of_char c :: nat) < 256" by simp
  ultimately show ?thesis by (simp only: unsigned_of_nat) (simp add: take_bit_nat_eq_self)
qed

lemma bytes_string_inverse [simp]: "bytes_string (string_bytes s) = s"
  by (induction s) (simp_all add: bytes_string_def string_bytes_def unat_of_char)

lemma length_string_bytes [simp]: "length (string_bytes s) = length s" "length (bytes_string bs) = length bs"
  by (simp_all add: string_bytes_def bytes_string_def)

lemma string_bytes_append [simp]: "string_bytes (s @ t) = string_bytes s @ string_bytes t"
  by (simp add: string_bytes_def)

lemma string_bytes_nonzero: "c_string s \<Longrightarrow> 0 \<notin> set (string_bytes s)"
proof -
  assume s: "c_string s"
  have "c = CHR 0x00" if "(0 :: u8) = of_char c" for c
  proof -
    have "of_char c = (of_char (CHR 0x00) :: nat)" using that unat_of_char[of c] by simp
    then show ?thesis by (rule of_char_eqI)
  qed
  then show ?thesis using s by (auto simp: string_bytes_def c_string_def)
qed

section \<open>Byte sinks\<close>

text \<open>
  The serializers hand their output to a callback, call by call. \<open>writes\<close> is a sequence of such calls. A byte sink is a callback
  that appends as long as there is room: \<open>app\<close> is the state after the bytes were written, \<open>room\<close> tells whether so many more fit.
\<close>

fun writes :: "('p \<Rightarrow> u8 list \<Rightarrow> fault + 'p) \<Rightarrow> 'p \<Rightarrow> u8 list list \<Rightarrow> fault + 'p" where
  "writes sink p [] = Inr p"
| "writes sink p (d # ds) = bindE (sink p d) (\<lambda>q. writes sink q ds)"

locale byte_sink =
  fixes sink :: "'p \<Rightarrow> u8 list \<Rightarrow> fault + 'p"
    and app :: "'p \<Rightarrow> u8 list \<Rightarrow> 'p"
    and room :: "'p \<Rightarrow> nat \<Rightarrow> bool"
  assumes write_app: "room p (length d) \<Longrightarrow> sink p d = Inr (app p d)"
    and app_app: "room p (length d + length e) \<Longrightarrow> app (app p d) e = app p (d @ e)"
    and app_Nil: "app p [] = p"
    and room_app: "room p (length d + n) \<Longrightarrow> room (app p d) n"
    and room_mono: "room p n \<Longrightarrow> k \<le> n \<Longrightarrow> room p k"
begin

lemma writes_app: "room p (length (concat ds)) \<Longrightarrow> writes sink p ds = Inr (app p (concat ds))"
proof (induction ds arbitrary: p)
  case (Cons d ds)
  have "sink p d = Inr (app p d)" using room_mono[OF Cons.prems, of "length d"] by (intro write_app) simp
  moreover have "writes sink (app p d) ds = Inr (app (app p d) (concat ds))"
    using Cons.prems by (intro Cons.IH room_app) simp
  ultimately show ?case using Cons.prems by (simp add: app_app)
qed (simp add: app_Nil)

end

text \<open>A reliable byte stream, without bounds: what was written so far.\<close>

definition stream_write :: "u8 list \<Rightarrow> u8 list \<Rightarrow> fault + u8 list" where
  "stream_write out d = Inr (out @ d)"

interpretation stream_sink: byte_sink stream_write "\<lambda>out d. out @ d" "\<lambda>out n. True"
  by unfold_locales (simp_all add: stream_write_def)

section \<open>Words\<close>

lemma unat_ucast_up:
  "LENGTH('a) \<le> LENGTH('b) \<Longrightarrow> unat (ucast (w::'a::len word) :: 'b::len word) = unat w"
proof -
  assume "LENGTH('a) \<le> LENGTH('b)"
  then have "unat w < 2 ^ LENGTH('b)"
    by (meson one_le_numeral order_less_le_trans power_increasing unsigned_less)
  then show ?thesis
    by (simp add: unsigned_ucast_eq take_bit_nat_eq_self)
qed

lemma ucast_ucast_up:
  "LENGTH('a) \<le> LENGTH('b) \<Longrightarrow> ucast (ucast (w::'a::len word) :: 'b::len word) = w"
  by (rule bit_word_eqI) (auto simp: bit_simps)

lemma unat_u8_less_256: "unat (b::u8) < 256"
  by (rule order_less_le_trans[OF unsigned_less]) simp

lemma byte_masks:
  "(0xff :: 'a::len word) = mask 8"
  "(0xff00 :: 'a word) = push_bit 8 (mask 8)"
  by (simp_all add: mask_eq_exp_minus_1 push_bit_eq_mult)

lemma unat_drop_bit: "unat (drop_bit n (w::'a::len word)) = unat w div 2 ^ n"
  by (simp only: unsigned_drop_bit_eq) (simp add: drop_bit_eq_div take_bit_nat_eq_self unsigned_less)

lemma unat_inc_less: "(a :: 'a::len word) < b \<Longrightarrow> unat (a + 1) = unat a + 1"
proof -
  assume "a < b"
  then have "unat a < unat b" by (simp add: word_less_nat_alt)
  moreover have "unat b < 2 ^ LENGTH('a)" by (rule unsigned_less)
  ultimately have "unat a + 1 < 2 ^ LENGTH('a)" by linarith
  then show ?thesis by (simp add: unat_word_ariths)
qed

lemma inc_le_less: "(a :: 'a::len word) < b \<Longrightarrow> a + 1 \<le> b"
  using unat_inc_less[of a b] by (simp add: word_less_nat_alt word_le_nat_alt)

end
