(* ===== verification/Crc.thy ===== *)
theory Crc
  imports Prelude
begin

unbundle bit_operations_syntax

text \<open>
  The checksums of \<^verbatim>\<open>components/ud3tn/crc.c\<close>: the three lookup tables as they stand in the
  source, the one-shot functions, the streaming interface, and a bit-serial reference (a
  shift register fed with the polynomial the comments of the file name). The lemmas show
  that the tables are those of the polynomials, that the table-driven routines compute the
  bit-serial checksums, that streaming and one-shot agree, and that a change confined to
  one byte is always detected.
\<close>

section \<open>Lookup tables\<close>

definition crc16_x25_table :: "u32 list" where
  "crc16_x25_table = [
   0x0000, 0x1189, 0x2312, 0x329b, 0x4624, 0x57ad, 0x6536, 0x74bf,
   0x8c48, 0x9dc1, 0xaf5a, 0xbed3, 0xca6c, 0xdbe5, 0xe97e, 0xf8f7,
   0x1081, 0x0108, 0x3393, 0x221a, 0x56a5, 0x472c, 0x75b7, 0x643e,
   0x9cc9, 0x8d40, 0xbfdb, 0xae52, 0xdaed, 0xcb64, 0xf9ff, 0xe876,
   0x2102, 0x308b, 0x0210, 0x1399, 0x6726, 0x76af, 0x4434, 0x55bd,
   0xad4a, 0xbcc3, 0x8e58, 0x9fd1, 0xeb6e, 0xfae7, 0xc87c, 0xd9f5,
   0x3183, 0x200a, 0x1291, 0x0318, 0x77a7, 0x662e, 0x54b5, 0x453c,
   0xbdcb, 0xac42, 0x9ed9, 0x8f50, 0xfbef, 0xea66, 0xd8fd, 0xc974,
   0x4204, 0x538d, 0x6116, 0x709f, 0x0420, 0x15a9, 0x2732, 0x36bb,
   0xce4c, 0xdfc5, 0xed5e, 0xfcd7, 0x8868, 0x99e1, 0xab7a, 0xbaf3,
   0x5285, 0x430c, 0x7197, 0x601e, 0x14a1, 0x0528, 0x37b3, 0x263a,
   0xdecd, 0xcf44, 0xfddf, 0xec56, 0x98e9, 0x8960, 0xbbfb, 0xaa72,
   0x6306, 0x728f, 0x4014, 0x519d, 0x2522, 0x34ab, 0x0630, 0x17b9,
   0xef4e, 0xfec7, 0xcc5c, 0xddd5, 0xa96a, 0xb8e3, 0x8a78, 0x9bf1,
   0x7387, 0x620e, 0x5095, 0x411c, 0x35a3, 0x242a, 0x16b1, 0x0738,
   0xffcf, 0xee46, 0xdcdd, 0xcd54, 0xb9eb, 0xa862, 0x9af9, 0x8b70,
   0x8408, 0x9581, 0xa71a, 0xb693, 0xc22c, 0xd3a5, 0xe13e, 0xf0b7,
   0x0840, 0x19c9, 0x2b52, 0x3adb, 0x4e64, 0x5fed, 0x6d76, 0x7cff,
   0x9489, 0x8500, 0xb79b, 0xa612, 0xd2ad, 0xc324, 0xf1bf, 0xe036,
   0x18c1, 0x0948, 0x3bd3, 0x2a5a, 0x5ee5, 0x4f6c, 0x7df7, 0x6c7e,
   0xa50a, 0xb483, 0x8618, 0x9791, 0xe32e, 0xf2a7, 0xc03c, 0xd1b5,
   0x2942, 0x38cb, 0x0a50, 0x1bd9, 0x6f66, 0x7eef, 0x4c74, 0x5dfd,
   0xb58b, 0xa402, 0x9699, 0x8710, 0xf3af, 0xe226, 0xd0bd, 0xc134,
   0x39c3, 0x284a, 0x1ad1, 0x0b58, 0x7fe7, 0x6e6e, 0x5cf5, 0x4d7c,
   0xc60c, 0xd785, 0xe51e, 0xf497, 0x8028, 0x91a1, 0xa33a, 0xb2b3,
   0x4a44, 0x5bcd, 0x6956, 0x78df, 0x0c60, 0x1de9, 0x2f72, 0x3efb,
   0xd68d, 0xc704, 0xf59f, 0xe416, 0x90a9, 0x8120, 0xb3bb, 0xa232,
   0x5ac5, 0x4b4c, 0x79d7, 0x685e, 0x1ce1, 0x0d68, 0x3ff3, 0x2e7a,
   0xe70e, 0xf687, 0xc41c, 0xd595, 0xa12a, 0xb0a3, 0x8238, 0x93b1,
   0x6b46, 0x7acf, 0x4854, 0x59dd, 0x2d62, 0x3ceb, 0x0e70, 0x1ff9,
   0xf78f, 0xe606, 0xd49d, 0xc514, 0xb1ab, 0xa022, 0x92b9, 0x8330,
   0x7bc7, 0x6a4e, 0x58d5, 0x495c, 0x3de3, 0x2c6a, 0x1ef1, 0x0f78]"

definition crc16_ccitt_false_table :: "u16 list" where
  "crc16_ccitt_false_table = [
   0x0000, 0x1021, 0x2042, 0x3063, 0x4084, 0x50a5, 0x60c6, 0x70e7,
   0x8108, 0x9129, 0xa14a, 0xb16b, 0xc18c, 0xd1ad, 0xe1ce, 0xf1ef,
   0x1231, 0x0210, 0x3273, 0x2252, 0x52b5, 0x4294, 0x72f7, 0x62d6,
   0x9339, 0x8318, 0xb37b, 0xa35a, 0xd3bd, 0xc39c, 0xf3ff, 0xe3de,
   0x2462, 0x3443, 0x0420, 0x1401, 0x64e6, 0x74c7, 0x44a4, 0x5485,
   0xa56a, 0xb54b, 0x8528, 0x9509, 0xe5ee, 0xf5cf, 0xc5ac, 0xd58d,
   0x3653, 0x2672, 0x1611, 0x0630, 0x76d7, 0x66f6, 0x5695, 0x46b4,
   0xb75b, 0xa77a, 0x9719, 0x8738, 0xf7df, 0xe7fe, 0xd79d, 0xc7bc,
   0x48c4, 0x58e5, 0x6886, 0x78a7, 0x0840, 0x1861, 0x2802, 0x3823,
   0xc9cc, 0xd9ed, 0xe98e, 0xf9af, 0x8948, 0x9969, 0xa90a, 0xb92b,
   0x5af5, 0x4ad4, 0x7ab7, 0x6a96, 0x1a71, 0x0a50, 0x3a33, 0x2a12,
   0xdbfd, 0xcbdc, 0xfbbf, 0xeb9e, 0x9b79, 0x8b58, 0xbb3b, 0xab1a,
   0x6ca6, 0x7c87, 0x4ce4, 0x5cc5, 0x2c22, 0x3c03, 0x0c60, 0x1c41,
   0xedae, 0xfd8f, 0xcdec, 0xddcd, 0xad2a, 0xbd0b, 0x8d68, 0x9d49,
   0x7e97, 0x6eb6, 0x5ed5, 0x4ef4, 0x3e13, 0x2e32, 0x1e51, 0x0e70,
   0xff9f, 0xefbe, 0xdfdd, 0xcffc, 0xbf1b, 0xaf3a, 0x9f59, 0x8f78,
   0x9188, 0x81a9, 0xb1ca, 0xa1eb, 0xd10c, 0xc12d, 0xf14e, 0xe16f,
   0x1080, 0x00a1, 0x30c2, 0x20e3, 0x5004, 0x4025, 0x7046, 0x6067,
   0x83b9, 0x9398, 0xa3fb, 0xb3da, 0xc33d, 0xd31c, 0xe37f, 0xf35e,
   0x02b1, 0x1290, 0x22f3, 0x32d2, 0x4235, 0x5214, 0x6277, 0x7256,
   0xb5ea, 0xa5cb, 0x95a8, 0x8589, 0xf56e, 0xe54f, 0xd52c, 0xc50d,
   0x34e2, 0x24c3, 0x14a0, 0x0481, 0x7466, 0x6447, 0x5424, 0x4405,
   0xa7db, 0xb7fa, 0x8799, 0x97b8, 0xe75f, 0xf77e, 0xc71d, 0xd73c,
   0x26d3, 0x36f2, 0x0691, 0x16b0, 0x6657, 0x7676, 0x4615, 0x5634,
   0xd94c, 0xc96d, 0xf90e, 0xe92f, 0x99c8, 0x89e9, 0xb98a, 0xa9ab,
   0x5844, 0x4865, 0x7806, 0x6827, 0x18c0, 0x08e1, 0x3882, 0x28a3,
   0xcb7d, 0xdb5c, 0xeb3f, 0xfb1e, 0x8bf9, 0x9bd8, 0xabbb, 0xbb9a,
   0x4a75, 0x5a54, 0x6a37, 0x7a16, 0x0af1, 0x1ad0, 0x2ab3, 0x3a92,
   0xfd2e, 0xed0f, 0xdd6c, 0xcd4d, 0xbdaa, 0xad8b, 0x9de8, 0x8dc9,
   0x7c26, 0x6c07, 0x5c64, 0x4c45, 0x3ca2, 0x2c83, 0x1ce0, 0x0cc1,
   0xef1f, 0xff3e, 0xcf5d, 0xdf7c, 0xaf9b, 0xbfba, 0x8fd9, 0x9ff8,
   0x6e17, 0x7e36, 0x4e55, 0x5e74, 0x2e93, 0x3eb2, 0x0ed1, 0x1ef0]"

definition crc32_table :: "u32 list" where
  "crc32_table = [
   0x00000000, 0xf26b8303, 0xe13b70f7, 0x1350f3f4, 0xc79a971f, 0x35f1141c, 0x26a1e7e8, 0xd4ca64eb,
   0x8ad958cf, 0x78b2dbcc, 0x6be22838, 0x9989ab3b, 0x4d43cfd0, 0xbf284cd3, 0xac78bf27, 0x5e133c24,
   0x105ec76f, 0xe235446c, 0xf165b798, 0x030e349b, 0xd7c45070, 0x25afd373, 0x36ff2087, 0xc494a384,
   0x9a879fa0, 0x68ec1ca3, 0x7bbcef57, 0x89d76c54, 0x5d1d08bf, 0xaf768bbc, 0xbc267848, 0x4e4dfb4b,
   0x20bd8ede, 0xd2d60ddd, 0xc186fe29, 0x33ed7d2a, 0xe72719c1, 0x154c9ac2, 0x061c6936, 0xf477ea35,
   0xaa64d611, 0x580f5512, 0x4b5fa6e6, 0xb93425e5, 0x6dfe410e, 0x9f95c20d, 0x8cc531f9, 0x7eaeb2fa,
   0x30e349b1, 0xc288cab2, 0xd1d83946, 0x23b3ba45, 0xf779deae, 0x05125dad, 0x1642ae59, 0xe4292d5a,
   0xba3a117e, 0x4851927d, 0x5b016189, 0xa96ae28a, 0x7da08661, 0x8fcb0562, 0x9c9bf696, 0x6ef07595,
   0x417b1dbc, 0xb3109ebf, 0xa0406d4b, 0x522bee48, 0x86e18aa3, 0x748a09a0, 0x67dafa54, 0x95b17957,
   0xcba24573, 0x39c9c670, 0x2a993584, 0xd8f2b687, 0x0c38d26c, 0xfe53516f, 0xed03a29b, 0x1f682198,
   0x5125dad3, 0xa34e59d0, 0xb01eaa24, 0x42752927, 0x96bf4dcc, 0x64d4cecf, 0x77843d3b, 0x85efbe38,
   0xdbfc821c, 0x2997011f, 0x3ac7f2eb, 0xc8ac71e8, 0x1c661503, 0xee0d9600, 0xfd5d65f4, 0x0f36e6f7,
   0x61c69362, 0x93ad1061, 0x80fde395, 0x72966096, 0xa65c047d, 0x5437877e, 0x4767748a, 0xb50cf789,
   0xeb1fcbad, 0x197448ae, 0x0a24bb5a, 0xf84f3859, 0x2c855cb2, 0xdeeedfb1, 0xcdbe2c45, 0x3fd5af46,
   0x7198540d, 0x83f3d70e, 0x90a324fa, 0x62c8a7f9, 0xb602c312, 0x44694011, 0x5739b3e5, 0xa55230e6,
   0xfb410cc2, 0x092a8fc1, 0x1a7a7c35, 0xe811ff36, 0x3cdb9bdd, 0xceb018de, 0xdde0eb2a, 0x2f8b6829,
   0x82f63b78, 0x709db87b, 0x63cd4b8f, 0x91a6c88c, 0x456cac67, 0xb7072f64, 0xa457dc90, 0x563c5f93,
   0x082f63b7, 0xfa44e0b4, 0xe9141340, 0x1b7f9043, 0xcfb5f4a8, 0x3dde77ab, 0x2e8e845f, 0xdce5075c,
   0x92a8fc17, 0x60c37f14, 0x73938ce0, 0x81f80fe3, 0x55326b08, 0xa759e80b, 0xb4091bff, 0x466298fc,
   0x1871a4d8, 0xea1a27db, 0xf94ad42f, 0x0b21572c, 0xdfeb33c7, 0x2d80b0c4, 0x3ed04330, 0xccbbc033,
   0xa24bb5a6, 0x502036a5, 0x4370c551, 0xb11b4652, 0x65d122b9, 0x97baa1ba, 0x84ea524e, 0x7681d14d,
   0x2892ed69, 0xdaf96e6a, 0xc9a99d9e, 0x3bc21e9d, 0xef087a76, 0x1d63f975, 0x0e330a81, 0xfc588982,
   0xb21572c9, 0x407ef1ca, 0x532e023e, 0xa145813d, 0x758fe5d6, 0x87e466d5, 0x94b49521, 0x66df1622,
   0x38cc2a06, 0xcaa7a905, 0xd9f75af1, 0x2b9cd9f2, 0xff56bd19, 0x0d3d3e1a, 0x1e6dcdee, 0xec064eed,
   0xc38d26c4, 0x31e6a5c7, 0x22b65633, 0xd0ddd530, 0x0417b1db, 0xf67c32d8, 0xe52cc12c, 0x1747422f,
   0x49547e0b, 0xbb3ffd08, 0xa86f0efc, 0x5a048dff, 0x8ecee914, 0x7ca56a17, 0x6ff599e3, 0x9d9e1ae0,
   0xd3d3e1ab, 0x21b862a8, 0x32e8915c, 0xc083125f, 0x144976b4, 0xe622f5b7, 0xf5720643, 0x07198540,
   0x590ab964, 0xab613a67, 0xb831c993, 0x4a5a4a90, 0x9e902e7b, 0x6cfbad78, 0x7fab5e8c, 0x8dc0dd8f,
   0xe330a81a, 0x115b2b19, 0x020bd8ed, 0xf0605bee, 0x24aa3f05, 0xd6c1bc06, 0xc5914ff2, 0x37faccf1,
   0x69e9f0d5, 0x9b8273d6, 0x88d28022, 0x7ab90321, 0xae7367ca, 0x5c18e4c9, 0x4f48173d, 0xbd23943e,
   0xf36e6f75, 0x0105ec76, 0x12551f82, 0xe03e9c81, 0x34f4f86a, 0xc69f7b69, 0xd5cf889d, 0x27a40b9e,
   0x79b737ba, 0x8bdcb4b9, 0x988c474d, 0x6ae7c44e, 0xbe2da0a5, 0x4c4623a6, 0x5f16d052, 0xad7d5351]"

section \<open>Streaming interface\<close>

datatype crc_version = CRC16_X25 | CRC16_CCITT_FALSE | CRC32

text \<open>
  The two function pointers of \<^verbatim>\<open>struct crc_stream\<close> update nothing but the checksum, so
  they are functions on it.
\<close>

record crc_stream =
  feed :: "u32 \<Rightarrow> u8 \<Rightarrow> u32"
  feed_eof :: "u32 \<Rightarrow> u32"
  checksum :: u32

definition crc16_x25_feed :: "u32 \<Rightarrow> u8 \<Rightarrow> u32" where
  "crc16_x25_feed c b =
     (let index = (ucast (c AND 0xff) :: u8) XOR b
      in drop_bit 8 c XOR crc16_x25_table ! unat index)"

definition crc16_x25_feed_eof :: "u32 \<Rightarrow> u32" where
  "crc16_x25_feed_eof c = c XOR 0xffff"

definition crc16_ccitt_false_feed :: "u32 \<Rightarrow> u8 \<Rightarrow> u32" where
  "crc16_ccitt_false_feed c b =
     (let index = (ucast ((drop_bit 8 c XOR ucast b) AND 0x00ff) :: u8);
          c' = push_bit 8 c AND 0xff00
      in c' XOR ucast (crc16_ccitt_false_table ! unat index))"

definition crc16_ccitt_false_feed_eof :: "u32 \<Rightarrow> u32" where
  "crc16_ccitt_false_feed_eof c = c"

definition crc32_feed :: "u32 \<Rightarrow> u8 \<Rightarrow> u32" where
  "crc32_feed c b =
     (let index = (ucast (c AND 0xff) :: u8) XOR b
      in drop_bit 8 c XOR crc32_table ! unat index)"

definition crc32_feed_eof :: "u32 \<Rightarrow> u32" where
  "crc32_feed_eof c = c XOR 0xffffffff"

fun crc_feed_bytes :: "crc_stream \<Rightarrow> u8 list \<Rightarrow> crc_stream" where
  "crc_feed_bytes crc [] = crc"
| "crc_feed_bytes crc (b # bs) =
     crc_feed_bytes (crc\<lparr>checksum := feed crc (checksum crc) b\<rparr>) bs"

fun crc_init :: "crc_version \<Rightarrow> crc_stream" where
  "crc_init CRC16_X25 =
     \<lparr>feed = crc16_x25_feed, feed_eof = crc16_x25_feed_eof, checksum = 0xffff\<rparr>"
| "crc_init CRC16_CCITT_FALSE =
     \<lparr>feed = crc16_ccitt_false_feed, feed_eof = crc16_ccitt_false_feed_eof, checksum = 0xffff\<rparr>"
| "crc_init CRC32 =
     \<lparr>feed = crc32_feed, feed_eof = crc32_feed_eof, checksum = 0xffffffff\<rparr>"

section \<open>One-shot functions\<close>

fun crc16_x25_loop :: "u16 \<Rightarrow> u8 list \<Rightarrow> u16" where
  "crc16_x25_loop crc [] = crc"
| "crc16_x25_loop crc (b # bs) =
     crc16_x25_loop
       (drop_bit 8 crc XOR ucast (crc16_x25_table ! unat ((crc AND 0xff) XOR ucast b))) bs"

definition crc16_x25 :: "u8 list \<Rightarrow> u16" where
  "crc16_x25 data = crc16_x25_loop 0xffff data XOR 0xffff"

fun crc16_ccitt_false_loop :: "u16 \<Rightarrow> u8 list \<Rightarrow> u16" where
  "crc16_ccitt_false_loop crc [] = crc"
| "crc16_ccitt_false_loop crc (b # bs) =
     (let index = (drop_bit 8 crc XOR ucast b) AND 0x00ff;
          crc' = push_bit 8 crc AND 0xff00
      in crc16_ccitt_false_loop (crc' XOR crc16_ccitt_false_table ! unat index) bs)"

definition crc16_ccitt_false :: "u8 list \<Rightarrow> u16" where
  "crc16_ccitt_false data = crc16_ccitt_false_loop 0xffff data"

fun crc32_loop :: "u32 \<Rightarrow> u8 list \<Rightarrow> u32" where
  "crc32_loop crc [] = crc"
| "crc32_loop crc (b # bs) =
     crc32_loop (drop_bit 8 crc XOR crc32_table ! unat ((crc AND 0xff) XOR ucast b)) bs"

definition crc32 :: "u8 list \<Rightarrow> u32" where
  "crc32 data = crc32_loop 0xffffffff data XOR 0xffffffff"

section \<open>Bit-serial reference\<close>

text \<open>
  One clock of a reflected (least significant bit first) and of a plain (most significant
  bit first) shift register, and the register after a whole byte string.
\<close>

definition lsb_step :: "'a::len word \<Rightarrow> 'a word \<Rightarrow> 'a word" where
  "lsb_step poly c = (if bit c 0 then drop_bit 1 c XOR poly else drop_bit 1 c)"

definition msb_step :: "'a::len word \<Rightarrow> 'a word \<Rightarrow> 'a word" where
  "msb_step poly c = 
     (if bit c (LENGTH('a) - 1) then push_bit 1 c XOR poly else push_bit 1 c)"

definition lsb_byte :: "'a::len word \<Rightarrow> 'a word \<Rightarrow> u8 \<Rightarrow> 'a word" where
  "lsb_byte poly c b = (lsb_step poly ^^ 8) (c XOR ucast b)"

definition msb_byte :: "u16 \<Rightarrow> u16 \<Rightarrow> u8 \<Rightarrow> u16" where
  "msb_byte poly c b = (msb_step poly ^^ 8) (c XOR push_bit 8 (ucast b))"

section \<open>The shift registers are linear\<close>

lemma funpow_8: "(f ^^ 8) x = f (f (f (f (f (f (f (f x)))))))"
  by (simp add: eval_nat_numeral)

lemma lsb_step_xor: "lsb_step p (a XOR b) = lsb_step p a XOR lsb_step p b"
  by (auto simp: lsb_step_def bit_xor_iff ac_simps)

lemma msb_step_xor: "msb_step p (a XOR b) = msb_step p a XOR msb_step p b"
  by (auto simp: msb_step_def bit_xor_iff ac_simps push_bit_xor)

lemma lsb_steps_xor: "(lsb_step p ^^ n) (a XOR b) = (lsb_step p ^^ n) a XOR (lsb_step p ^^ n) b"
  by (induction n arbitrary: a b) (simp_all add: lsb_step_xor)

lemma msb_steps_xor: "(msb_step p ^^ n) (a XOR b) = (msb_step p ^^ n) a XOR (msb_step p ^^ n) b"
  by (induction n arbitrary: a b) (simp_all add: msb_step_xor)

lemma lsb_steps_shift: "(\<And>i. i < n \<Longrightarrow> \<not> bit c i) \<Longrightarrow> (lsb_step p ^^ n) c = drop_bit n c"
  by (induction n) (auto simp: lsb_step_def bit_drop_bit_eq)

lemma msb_steps_shift:
  fixes c :: "'a::len word"
  assumes "\<And>i. LENGTH('a) - n \<le> i \<Longrightarrow> \<not> bit c i" and "n \<le> LENGTH('a)"
  shows "(msb_step p ^^ n) c = push_bit n c"
  using assms
proof (induction n)
  case 0
  then show ?case by simp
next
  case (Suc n)
  then have "(msb_step p ^^ n) c = push_bit n c" by simp
  moreover have "\<not> bit (push_bit n c) (LENGTH('a) - 1)"
    using Suc.prems by (simp add: bit_push_bit_iff)
  ultimately show ?case by (simp add: msb_step_def[of _ "push_bit n c"] ac_simps)
qed

section \<open>The tables are those of the polynomials\<close>

lemma lsb_step_numeral:
  "lsb_step p (numeral n) =
     (if bit (numeral n :: 'a::len word) 0 then drop_bit 1 (numeral n) XOR p else drop_bit 1 (numeral n))"
  "lsb_step p 1 = drop_bit 1 1 XOR (p::'a::len word)"
  "lsb_step p 0 = 0"
  by (simp_all add: lsb_step_def bit_0)

lemma msb_step_numeral:
  "msb_step (p::'a::len word) (numeral n) =
     (if bit (numeral n :: 'a word) (LENGTH('a) - 1)
      then push_bit 1 (numeral n) XOR p else push_bit 1 (numeral n))"
  "msb_step p 0 = 0"
  by (simp_all add: msb_step_def)

lemma upt_256: "[0..<256] = 0 # 1 # [2..<256]"
  by (simp add: upt_conv_Cons numeral_2_eq_2)

lemmas table_eval = funpow_8 lsb_step_numeral msb_step_numeral upt_256 bit_0 upt_rec_numeral

lemma crc32_table_eq:
  "crc32_table = map (\<lambda>i. (lsb_step 0x82F63B78 ^^ 8) (word_of_nat i)) [0..<256]"
  by (simp add: crc32_table_def table_eval)

lemma crc16_x25_table_eq:
  "crc16_x25_table = map (\<lambda>i. (lsb_step 0x8408 ^^ 8) (word_of_nat i)) [0..<256]"
  by (simp add: crc16_x25_table_def table_eval)

lemma crc16_ccitt_false_table_eq:
  "crc16_ccitt_false_table =
     map (\<lambda>i. (msb_step 0x1021 ^^ 8) (push_bit 8 (word_of_nat i))) [0..<256]"
  by (simp add: crc16_ccitt_false_table_def table_eval)

lemma table_entries:
  "crc32_table ! unat (i::u8) = (lsb_step 0x82F63B78 ^^ 8) (ucast i)"
  "crc16_x25_table ! unat i = (lsb_step 0x8408 ^^ 8) (ucast i)"
  "crc16_ccitt_false_table ! unat i = (msb_step 0x1021 ^^ 8) (push_bit 8 (ucast i))"
  using unat_u8_less_256[of i]
  by (simp_all add: crc32_table_eq crc16_x25_table_eq crc16_ccitt_false_table_eq)

section \<open>A table step is eight clocks of the register\<close>

lemma lsb_byte_split:
  fixes c :: "'a::len word"
  shows "lsb_byte p c b =
    drop_bit 8 c XOR (lsb_step p ^^ 8) (ucast (ucast (c AND 0xff) XOR b :: u8))"
proof -
  have "c XOR ucast b = push_bit 8 (drop_bit 8 c) XOR ucast (ucast (c AND 0xff) XOR b :: u8)"
    by (rule bit_word_eqI, rename_tac n, case_tac "n < 8") (auto simp: bit_simps byte_masks)
  moreover have "(lsb_step p ^^ 8) (push_bit 8 (drop_bit 8 c)) = drop_bit 8 (push_bit 8 (drop_bit 8 c))"
    by (rule lsb_steps_shift) (simp add: bit_simps)
  moreover have "drop_bit 8 (push_bit 8 (drop_bit 8 c)) = drop_bit 8 c"
    by (rule bit_word_eqI) (auto simp: bit_simps dest: bit_imp_le_length)
  ultimately show ?thesis
    by (simp add: lsb_byte_def lsb_steps_xor)
qed

lemma msb_byte_split:
  "msb_byte p c b =
    (push_bit 8 c AND 0xff00) XOR (msb_step p ^^ 8) (push_bit 8 (ucast (ucast (drop_bit 8 c) XOR b :: u8)))"
proof -
  have "c XOR push_bit 8 (ucast b) = (c AND 0xff) XOR push_bit 8 (ucast (ucast (drop_bit 8 c) XOR b :: u8))"
    by (rule bit_word_eqI, rename_tac n, case_tac "n < 8") (auto simp: bit_simps byte_masks)
  moreover have "(msb_step p ^^ 8) (c AND 0xff) = push_bit 8 (c AND 0xff)"
    by (rule msb_steps_shift) (auto simp: bit_simps byte_masks)
  moreover have "push_bit 8 (c AND 0xff) = push_bit 8 c AND 0xff00"
    by (rule bit_word_eqI, rename_tac n, case_tac "n < 8") (auto simp: bit_simps byte_masks)
  ultimately show ?thesis
    by (simp add: msb_byte_def msb_steps_xor)
qed

section \<open>Table-driven and bit-serial checksums agree\<close>


lemma lsb_step_ucast:
  "lsb_step (0x8408::u32) (ucast (c::u16)) = ucast (lsb_step (0x8408::u16) c)"
proof -
  have "drop_bit 1 (ucast c :: u32) = ucast (drop_bit 1 c)"
    by (rule bit_word_eqI) (auto simp: bit_simps dest: bit_imp_le_length)
  then show ?thesis
    by (auto simp: lsb_step_def bit_unsigned_iff unsigned_xor_eq)
qed

lemma lsb_steps_ucast:
  "(lsb_step (0x8408::u32) ^^ n) (ucast (c::u16)) = ucast ((lsb_step (0x8408::u16) ^^ n) c)"
  by (induction n) (simp_all add: lsb_step_ucast)

lemma x25_entry_16:
  "ucast (crc16_x25_table ! unat (i::u8)) = (lsb_step (0x8408::u16) ^^ 8) (ucast i)"
proof -
  have "(ucast i :: u32) = ucast (ucast i :: u16)"
    by (rule bit_word_eqI) (auto simp: bit_simps dest: bit_imp_le_length)
  then show ?thesis
    by (simp add: table_entries lsb_steps_ucast ucast_ucast_up)
qed

text \<open>The index computed in 16 or 32 bits is the 8-bit index.\<close>

lemma index_lsb:
  fixes c :: "'a::len word"
  assumes "8 \<le> LENGTH('a)"
  shows "unat ((c AND 0xff) XOR ucast (b::u8)) = unat (ucast (c AND 0xff) XOR b :: u8)"
proof -
  have "(c AND 0xff) XOR ucast b = ucast (ucast (c AND 0xff) XOR b :: u8)"
    by (rule bit_word_eqI) (auto simp: bit_simps byte_masks dest: bit_imp_le_length)
  then show ?thesis using assms by (simp add: unat_ucast_up)
qed

lemma index_msb:
  fixes c :: "'a::len word"
  assumes "8 \<le> LENGTH('a)"
  shows "unat ((drop_bit 8 c XOR ucast (b::u8)) AND 0x00ff) = unat (ucast (drop_bit 8 c) XOR b :: u8)"
proof -
  have "(drop_bit 8 c XOR ucast b) AND 0x00ff = ucast (ucast (drop_bit 8 c) XOR b :: u8)"
    by (rule bit_word_eqI) (auto simp: bit_simps byte_masks dest: bit_imp_le_length)
  then show ?thesis using assms by (simp add: unat_ucast_up)
qed

lemma crc32_loop_bitwise: "crc32_loop c data = foldl (lsb_byte 0x82F63B78) c data"
  by (induction c data rule: crc32_loop.induct)
    (simp_all add: index_lsb table_entries lsb_byte_split)

lemma crc16_x25_loop_bitwise: "crc16_x25_loop c data = foldl (lsb_byte 0x8408) c data"
  by (induction c data rule: crc16_x25_loop.induct)
    (simp_all add: index_lsb x25_entry_16 lsb_byte_split)

lemma crc16_ccitt_false_loop_bitwise:
  "crc16_ccitt_false_loop c data = foldl (msb_byte 0x1021) c data"
  by (induction c data rule: crc16_ccitt_false_loop.induct)
    (simp_all add: index_msb table_entries msb_byte_split Let_def)

section \<open>Streams and information loss\<close>

lemma crc_feed_bytes_foldl:
  "crc_feed_bytes crc data = crc\<lparr>checksum := foldl (feed crc) (checksum crc) data\<rparr>"
  by (induction crc data rule: crc_feed_bytes.induct) simp_all

lemma crc32_feed_eq: "crc32_feed = lsb_byte 0x82F63B78"
  by (intro ext) (simp add: crc32_feed_def table_entries lsb_byte_split)

lemma lsb_byte_ucast: "lsb_byte (0x8408::u32) (ucast (c::u16)) b = ucast (lsb_byte (0x8408::u16) c b)"
proof -
  have "(ucast c XOR ucast b :: u32) = ucast (c XOR ucast b)"
    by (rule bit_word_eqI) (auto simp: bit_simps dest: bit_imp_le_length)
  then show ?thesis by (simp add: lsb_byte_def lsb_steps_ucast)
qed

lemma crc16_x25_feed_eq: "crc16_x25_feed (ucast (c::u16)) b = ucast (lsb_byte 0x8408 c b)"
  by (simp add: crc16_x25_feed_def table_entries lsb_byte_split[of "0x8408::u32", symmetric] lsb_byte_ucast)

lemma crc16_ccitt_false_feed_eq:
  "crc16_ccitt_false_feed (ucast (c::u16)) b = ucast (msb_byte 0x1021 c b)"
proof -
  have 1: "(ucast ((drop_bit 8 (ucast c :: u32) XOR ucast b) AND 255) :: u8) = ucast (drop_bit 8 c) XOR b"
    by (rule bit_word_eqI) (auto simp: bit_simps byte_masks dest: bit_imp_le_length)
  have 2: "push_bit 8 (ucast c :: u32) AND 0xff00 = ucast (push_bit 8 c AND 0xff00)"
    by (rule bit_word_eqI) (auto simp: bit_simps byte_masks dest: bit_imp_le_length)
  show ?thesis
    by (simp add: crc16_ccitt_false_feed_def 1 2 Let_def table_entries msb_byte_split unsigned_xor_eq)
qed

lemma foldl_simulation:
  "(\<And>c b. f (h c) b = h (g c b)) \<Longrightarrow> foldl f (h c) data = h (foldl g c data)"
  by (induction data arbitrary: c) simp_all

lemma lsb_step_zero:
  fixes p :: "'a::len word"
  assumes p: "bit p (LENGTH('a) - 1)" and 0: "lsb_step p x = 0"
  shows "x = 0"
proof (cases "bit x 0")
  case True
  then have "drop_bit 1 x XOR p = 0" using 0 by (simp add: lsb_step_def)
  then have "\<not> bit (drop_bit 1 x XOR p) (LENGTH('a) - 1)" by simp
  with p show ?thesis by (auto simp: bit_xor_iff bit_drop_bit_eq dest: bit_imp_le_length)
next
  case False
  then have d: "drop_bit 1 x = 0" using 0 by (simp add: lsb_step_def)
  have "\<not> bit x n" for n
  proof (cases n)
    case 0 with False show ?thesis by simp
  next
    case (Suc m)
    have "bit (drop_bit 1 x) m = bit x (Suc m)" by (simp add: bit_drop_bit_eq)
    with d Suc show ?thesis by simp
  qed
  then show ?thesis by (simp add: bit_eq_iff)
qed

lemma msb_step_zero:
  fixes p :: "'a::len word"
  assumes p: "bit p 0" and 0: "msb_step p x = 0"
  shows "x = 0"
proof (cases "bit x (LENGTH('a) - 1)")
  case True
  then have "push_bit 1 x XOR p = 0" using 0 by (simp add: msb_step_def)
  then have "\<not> bit (push_bit 1 x XOR p) 0" by simp
  with p show ?thesis by (simp only: bit_xor_iff) (auto simp: bit_0)
next
  case False
  then have d: "push_bit 1 x = 0" using 0 by (simp add: msb_step_def)
  have "\<not> bit x n" if n: "n < LENGTH('a)" for n
  proof (cases "Suc n < LENGTH('a)")
    case True
    then have "bit (push_bit 1 x) (Suc n) = bit x n" by (simp only: bit_push_bit_iff) simp
    with d show ?thesis by simp
  next
    case c: False
    with n have "n = LENGTH('a) - 1" by simp
    with False show ?thesis by simp
  qed
  then show ?thesis by (intro bit_word_eqI) simp
qed

lemma xor_eq_0_iff_word: "a XOR b = 0 \<longleftrightarrow> a = (b::'a::len word)"
  by (metis bit.xor_self xor.assoc xor.right_neutral xor.left_neutral)

lemma inj_lsb_steps:
  fixes p :: "'a::len word"
  assumes "bit p (LENGTH('a) - 1)"
  shows "inj (lsb_step p ^^ n)"
proof -
  have "inj (lsb_step p)"
    by (rule injI) (metis assms lsb_step_xor lsb_step_zero xor_eq_0_iff_word)
  then show ?thesis by (rule inj_fn)
qed

lemma inj_msb_steps:
  fixes p :: "'a::len word"
  assumes "bit p 0"
  shows "inj (msb_step p ^^ n)"
proof -
  have "inj (msb_step p)"
    by (rule injI) (metis assms msb_step_xor msb_step_zero xor_eq_0_iff_word)
  then show ?thesis by (rule inj_fn)
qed

lemma xor_cancel_word:
  "a XOR c = b XOR c \<longleftrightarrow> a = (b::'a::len word)"
  "c XOR a = c XOR b \<longleftrightarrow> a = b"
  by (metis xor.assoc bit.xor_self xor.right_neutral xor.commute)+

lemma ucast_byte_inj:
  "8 \<le> LENGTH('a) \<Longrightarrow> (ucast (b::u8) :: 'a::len word) = ucast b' \<longleftrightarrow> b = b'"
  using ucast_ucast_up[where 'a = 8 and 'b = 'a] by (metis len_num0 len_bit0 len_num1 numeral_Bit0 One_nat_def mult_2 numeral_One one_add_one)

lemma lsb_byte_inj:
  fixes p :: "'a::len word"
  assumes "bit p (LENGTH('a) - 1)" and "8 \<le> LENGTH('a)"
  shows "lsb_byte p c b = lsb_byte p c' b \<longleftrightarrow> c = c'"
    and "lsb_byte p c b = lsb_byte p c b' \<longleftrightarrow> b = b'"
  by (simp_all add: lsb_byte_def inj_eq[OF inj_lsb_steps[OF assms(1)]] xor_cancel_word
      ucast_byte_inj[OF assms(2)])

lemma push_byte_inj: "push_bit 8 (ucast (b::u8) :: u16) = push_bit 8 (ucast b') \<longleftrightarrow> b = b'"
proof
  assume "push_bit 8 (ucast b :: u16) = push_bit 8 (ucast b')"
  then have "ucast (drop_bit 8 (push_bit 8 (ucast b :: u16))) = (ucast (drop_bit 8 (push_bit 8 (ucast b' :: u16))) :: u8)"
    by simp
  moreover have "ucast (drop_bit 8 (push_bit 8 (ucast x :: u16))) = x" for x :: u8
    by (rule bit_word_eqI) (auto simp: bit_simps)
  ultimately show "b = b'" by simp
qed simp

lemma msb_byte_inj:
  assumes "bit p 0"
  shows "msb_byte p c b = msb_byte p c' b \<longleftrightarrow> c = c'"
    and "msb_byte p c b = msb_byte p c b' \<longleftrightarrow> b = b'"
  by (simp_all add: msb_byte_def inj_eq[OF inj_msb_steps[OF assms]] xor_cancel_word push_byte_inj)

section \<open>A register that loses no information\<close>

locale checksum_register =
  fixes byte_step :: "'c \<Rightarrow> u8 \<Rightarrow> 'c"
  assumes state_inj: "byte_step c b = byte_step c' b \<longleftrightarrow> c = c'"
    and byte_inj: "byte_step c b = byte_step c b' \<longleftrightarrow> b = b'"
begin

lemma run_inj: "foldl byte_step c data = foldl byte_step c' data \<longleftrightarrow> c = c'"
  by (induction data arbitrary: c c') (simp_all add: state_inj)

lemma byte_change_detected:
  "foldl byte_step c (pre @ x # post) = foldl byte_step c (pre @ y # post) \<longleftrightarrow> x = y"
  by (simp add: run_inj byte_inj)

end

interpretation crc32_reg: checksum_register "lsb_byte (0x82F63B78 :: u32)"
  by unfold_locales (rule lsb_byte_inj; simp)+

interpretation x25_reg: checksum_register "lsb_byte (0x8408 :: u16)"
  by unfold_locales (rule lsb_byte_inj; simp)+

interpretation ccitt_reg: checksum_register "msb_byte (0x1021 :: u16)"
  by unfold_locales (rule msb_byte_inj; simp)+


section \<open>Properties\<close>

text \<open>
  C18. The table-driven checksums are the bit-serial ones: for every byte string,
  \<^verbatim>\<open>crc32\<close>, \<^verbatim>\<open>crc16_x25\<close> and \<^verbatim>\<open>crc16_ccitt_false\<close> return what a shift register
  for the polynomial, initial value, reflection and final XOR named in the comments of
  \<^verbatim>\<open>crc.c\<close> returns.
\<close>

theorem crc_implements_polynomials:
  "crc32 data = foldl (lsb_byte (word_reverse 0x1edc6f41)) 0xffffffff data XOR 0xffffffff \<and>
   crc16_x25 data = foldl (lsb_byte (word_reverse 0x1021)) 0xffff data XOR 0xffff \<and>
   crc16_ccitt_false data = foldl (msb_byte 0x1021) 0xffff data"
proof -
  have "word_reverse (0x1edc6f41 :: u32) = 0x82F63B78" and "word_reverse (0x1021 :: u16) = 0x8408"
    by code_simp+
  then show ?thesis
    by (simp add: crc32_def crc16_x25_def crc16_ccitt_false_def crc32_loop_bitwise
        crc16_x25_loop_bitwise crc16_ccitt_false_loop_bitwise)
qed

text \<open>
  Feeding a stream in any number of pieces and finishing it gives the one-shot
  checksum of the concatenation, for each of the three algorithms \<^verbatim>\<open>crc_init\<close> selects.
\<close>

theorem crc_stream_eq_oneshot:
  "(let s = crc_feed_bytes (crc_feed_bytes (crc_init v) xs) ys
    in feed_eof s (checksum s)) =
   (case v of CRC16_X25 \<Rightarrow> ucast (crc16_x25 (xs @ ys))
    | CRC16_CCITT_FALSE \<Rightarrow> ucast (crc16_ccitt_false (xs @ ys))
    | CRC32 \<Rightarrow> crc32 (xs @ ys))"
proof (cases v)
  case CRC16_X25
  have "foldl crc16_x25_feed (ucast (0xffff::u16)) (xs @ ys) = ucast (crc16_x25_loop 0xffff (xs @ ys))"
    unfolding crc16_x25_loop_bitwise by (rule foldl_simulation) (rule crc16_x25_feed_eq)
  with CRC16_X25 show ?thesis
    by (simp add: crc_feed_bytes_foldl crc16_x25_def crc16_x25_feed_eof_def unsigned_xor_eq)
next
  case CRC16_CCITT_FALSE
  have "foldl crc16_ccitt_false_feed (ucast (0xffff::u16)) (xs @ ys) =
      ucast (crc16_ccitt_false_loop 0xffff (xs @ ys))"
    unfolding crc16_ccitt_false_loop_bitwise
    by (rule foldl_simulation) (rule crc16_ccitt_false_feed_eq)
  with CRC16_CCITT_FALSE show ?thesis
    by (simp add: crc_feed_bytes_foldl crc16_ccitt_false_def crc16_ccitt_false_feed_eof_def)
next
  case CRC32
  then show ?thesis
    by (simp add: crc_feed_bytes_foldl crc32_def crc32_feed_eof_def crc32_loop_bitwise crc32_feed_eq)
qed

text \<open>
  A transmission error confined to a single byte never goes unnoticed: two byte
  strings that differ in one position have different checksums.
\<close>

theorem crc_detects_byte_change:
  "(crc32 (pre @ x # post) = crc32 (pre @ y # post) \<longleftrightarrow> x = y) \<and>
   (crc16_x25 (pre @ x # post) = crc16_x25 (pre @ y # post) \<longleftrightarrow> x = y) \<and>
   (crc16_ccitt_false (pre @ x # post) = crc16_ccitt_false (pre @ y # post) \<longleftrightarrow> x = y)"
  unfolding crc32_def crc16_x25_def crc16_ccitt_false_def crc32_loop_bitwise
    crc16_x25_loop_bitwise crc16_ccitt_false_loop_bitwise xor_cancel_word
  by (simp only: crc32_reg.byte_change_detected x25_reg.byte_change_detected
      ccitt_reg.byte_change_detected)

end
