(* ===== verification/Sdnv.thy ===== *)
theory Sdnv
  imports Prelude
begin

unbundle bit_operations_syntax

text \<open>
  Self-delimiting numeric values of RFC 5050, \<^verbatim>\<open>components/bundle6/sdnv.c\<close>: the
  byte-by-byte reader with its overflow checks, the size functions and the writer, at the
  four widths the code instantiates its macros for. The laws the four widths share are
  stated once, in the locale \<open>sdnv_width\<close>, and interpreted on each of them.
\<close>

section \<open>Reader\<close>

datatype sdnv_status = SDNV_IN_PROGRESS | SDNV_DONE | SDNV_ERROR

datatype sdnv_error = SDNV_ERROR_NONE | SDNV_ERROR_OVERFLOW | SDNV_ERROR_ALREADY_DONE

record sdnv_state =
  status :: sdnv_status
  error :: sdnv_error
  bytes_parsed :: u8

definition sdnv_reset :: sdnv_state where
  "sdnv_reset = \<lparr>status = SDNV_IN_PROGRESS, error = SDNV_ERROR_NONE, bytes_parsed = 0\<rparr>"

definition sdnv_validate_byte_u32 :: "sdnv_state \<Rightarrow> u32 \<Rightarrow> bool" where
  "sdnv_validate_byte_u32 st v \<longleftrightarrow>
     bytes_parsed st < 4 \<or> bytes_parsed st = 4 \<and> v \<le> 0x1FFFFFF"

definition sdnv_validate_byte_u8 :: "sdnv_state \<Rightarrow> u8 \<Rightarrow> bool" where
  "sdnv_validate_byte_u8 st v \<longleftrightarrow>
     bytes_parsed st < 1 \<or> bytes_parsed st = 1 \<and> v \<le> 0x1"

definition sdnv_validate_byte_u16 :: "sdnv_state \<Rightarrow> u16 \<Rightarrow> bool" where
  "sdnv_validate_byte_u16 st v \<longleftrightarrow>
     bytes_parsed st < 2 \<or> bytes_parsed st = 2 \<and> v \<le> 0x1FF"

definition sdnv_validate_byte_u64 :: "sdnv_state \<Rightarrow> u64 \<Rightarrow> bool" where
  "sdnv_validate_byte_u64 st v \<longleftrightarrow>
     bytes_parsed st < 9 \<or> bytes_parsed st = 9 \<and> v \<le> 0x1FFFFFFFFFFFFFF"

text \<open>The macro \<^verbatim>\<open>sdnv_read_generic\<close>, with its validation function as a parameter.\<close>

definition sdnv_read_generic ::
  "(sdnv_state \<Rightarrow> 'a::len word \<Rightarrow> bool) \<Rightarrow> sdnv_state \<Rightarrow> 'a word \<Rightarrow> u8 \<Rightarrow> sdnv_state \<times> 'a word" where
  "sdnv_read_generic validate st v byte =
     (if \<not> validate st v
      then (st\<lparr>error := SDNV_ERROR_OVERFLOW, status := SDNV_ERROR\<rparr>, v)
      else if status st = SDNV_DONE
      then (st\<lparr>error := SDNV_ERROR_ALREADY_DONE, status := SDNV_ERROR\<rparr>, v)
      else
        let v1 = (if bytes_parsed st = 0 then 0 else push_bit 7 v);
            v2 = v1 OR ucast (byte AND 0x7F);
            st1 = (if byte AND 0x80 = 0 then st\<lparr>status := SDNV_DONE\<rparr> else st)
        in (st1\<lparr>bytes_parsed := bytes_parsed st1 + 1\<rparr>, v2))"

definition sdnv_read_u8 :: "sdnv_state \<Rightarrow> u8 \<Rightarrow> u8 \<Rightarrow> sdnv_state \<times> u8" where
  "sdnv_read_u8 = sdnv_read_generic sdnv_validate_byte_u8"

definition sdnv_read_u16 :: "sdnv_state \<Rightarrow> u16 \<Rightarrow> u8 \<Rightarrow> sdnv_state \<times> u16" where
  "sdnv_read_u16 = sdnv_read_generic sdnv_validate_byte_u16"

definition sdnv_read_u32 :: "sdnv_state \<Rightarrow> u32 \<Rightarrow> u8 \<Rightarrow> sdnv_state \<times> u32" where
  "sdnv_read_u32 = sdnv_read_generic sdnv_validate_byte_u32"

definition sdnv_read_u64 :: "sdnv_state \<Rightarrow> u64 \<Rightarrow> u8 \<Rightarrow> sdnv_state \<times> u64" where
  "sdnv_read_u64 = sdnv_read_generic sdnv_validate_byte_u64"

section \<open>Sizes\<close>

definition sdnv_get_size_u8 :: "u8 \<Rightarrow> nat" where
  "sdnv_get_size_u8 v = (if v AND 0x80 = 0 then 1 else 2)"

definition sdnv_get_size_u16 :: "u16 \<Rightarrow> nat" where
  "sdnv_get_size_u16 v =
     (if v AND 0xFF80 = 0 then 1
      else if v AND 0xC000 = 0 then 2
      else 3)"

definition sdnv_get_size_u32 :: "u32 \<Rightarrow> nat" where
  "sdnv_get_size_u32 v =
     (if v AND 0xFFFFFF80 = 0 then 1
      else if v AND 0xFFFFC000 = 0 then 2
      else if v AND 0xFFE00000 = 0 then 3
      else if v AND 0xF0000000 = 0 then 4
      else 5)"

definition sdnv_get_size_u64 :: "u64 \<Rightarrow> nat" where
  "sdnv_get_size_u64 v =
     (if v AND 0xFFFFFFFFFFFFFF80 = 0 then 1
      else if v AND 0xFFFFFFFFFFFFC000 = 0 then 2
      else if v AND 0xFFFFFFFFFFE00000 = 0 then 3
      else if v AND 0xFFFFFFFFF0000000 = 0 then 4
      else if v AND 0xFFFFFFF800000000 = 0 then 5
      else if v AND 0xFFFFFC0000000000 = 0 then 6
      else if v AND 0xFFFE000000000000 = 0 then 7
      else if v AND 0xFF00000000000000 = 0 then 8
      else if v AND 0x8000000000000000 = 0 then 9
      else 10)"

section \<open>Writer\<close>

text \<open>
  The loop of \<^verbatim>\<open>sdnv_write_generic\<close> runs from the last byte of the buffer to the first;
  \<open>acc\<close> holds the bytes already written, in buffer order. The function returns the
  \<open>n\<close> bytes of the buffer it fills.
\<close>

fun sdnv_write_loop :: "nat \<Rightarrow> 'a::len word \<Rightarrow> u8 list \<Rightarrow> u8 list" where
  "sdnv_write_loop 0 v acc = acc"
| "sdnv_write_loop (Suc n) v acc =
     sdnv_write_loop n (drop_bit 7 v) (ucast ((v AND 0x7F) OR 0x80) # acc)"

definition sdnv_write_generic :: "nat \<Rightarrow> 'a::len word \<Rightarrow> u8 list" where
  "sdnv_write_generic n v =
     (let bs = sdnv_write_loop n v [] in bs[n - 1 := bs ! (n - 1) AND 0x7F])"

definition sdnv_write_u8 :: "u8 \<Rightarrow> u8 list \<times> nat" where
  "sdnv_write_u8 v = (let n = sdnv_get_size_u8 v in (sdnv_write_generic n v, n))"

definition sdnv_write_u16 :: "u16 \<Rightarrow> u8 list \<times> nat" where
  "sdnv_write_u16 v = (let n = sdnv_get_size_u16 v in (sdnv_write_generic n v, n))"

definition sdnv_write_u32 :: "u32 \<Rightarrow> u8 list \<times> nat" where
  "sdnv_write_u32 v = (let n = sdnv_get_size_u32 v in (sdnv_write_generic n v, n))"

definition sdnv_write_u64 :: "u64 \<Rightarrow> u8 list \<times> nat" where
  "sdnv_write_u64 v = (let n = sdnv_get_size_u64 v in (sdnv_write_generic n v, n))"

section \<open>Specification\<close>

text \<open>The number a byte string denotes, and a reader run over a whole byte string.\<close>

definition sdnv_value :: "u8 list \<Rightarrow> nat" where
  "sdnv_value bs = foldl (\<lambda>n b. n * 128 + unat (b AND 0x7F)) 0 bs"

definition sdnv_marked :: "u8 \<Rightarrow> bool" where
  "sdnv_marked b \<longleftrightarrow> b AND 0x80 \<noteq> 0"

definition sdnv_well_formed :: "u8 list \<Rightarrow> bool" where
  "sdnv_well_formed bs \<longleftrightarrow> bs \<noteq> [] \<and> list_all sdnv_marked (butlast bs) \<and> \<not> sdnv_marked (last bs)"

definition sdnv_run ::
  "(sdnv_state \<Rightarrow> 'v \<Rightarrow> u8 \<Rightarrow> sdnv_state \<times> 'v) \<Rightarrow> 'v \<Rightarrow> u8 list \<Rightarrow> sdnv_state \<times> 'v" where
  "sdnv_run read v0 bs = foldl (\<lambda>(st, v) b. read st v b) (sdnv_reset, v0) bs"

lemma sdnv_value_snoc: "sdnv_value (bs @ [b]) = sdnv_value bs * 128 + unat (b AND 0x7F)"
  by (simp add: sdnv_value_def)

lemma sdnv_value_Nil: "sdnv_value [] = 0"
  by (simp add: sdnv_value_def)

lemma sdnv_value_single: "sdnv_value [b] = unat (b AND 0x7F)"
  by (simp add: sdnv_value_def)

lemma sdnv_run_single: "sdnv_run read v0 [b] = read sdnv_reset v0 b"
  by (simp add: sdnv_run_def)

lemma sdnv_run_snoc:
  "sdnv_run read v0 (bs @ [b]) = (case sdnv_run read v0 bs of (st, v) \<Rightarrow> read st v b)"
  by (simp add: sdnv_run_def split: prod.split)

lemma sdnv_run_Nil: "sdnv_run read v0 [] = (sdnv_reset, v0)"
  by (simp add: sdnv_run_def)

lemma seven_mask: "(0x7F :: 'a::len word) = mask 7"
  by (simp add: mask_eq_exp_minus_1)

lemma unat_and_7F: "unat ((b::u8) AND 0x7F) < 128"
proof -
  have "b AND 0x7F = take_bit 7 b"
    by (simp add: take_bit_eq_mask mask_eq_exp_minus_1)
  then show ?thesis by (simp add: unsigned_take_bit_eq take_bit_nat_def)
qed

lemma sdnv_value_bound: "sdnv_value bs < 2 ^ (7 * length bs)"
proof (induction bs rule: rev_induct)
  case Nil
  then show ?case by (simp add: sdnv_value_Nil)
next
  case (snoc b bs)
  have "sdnv_value bs * 128 + unat (b AND 0x7F) < (sdnv_value bs + 1) * 128"
    using unat_and_7F[of b] by simp
  also have "\<dots> \<le> 2 ^ (7 * length bs) * 128"
    using snoc by simp
  also have "\<dots> = 2 ^ (7 * length (bs @ [b]))"
    by (simp add: power_add)
  finally show ?case by (simp add: sdnv_value_snoc)
qed

lemma shift_in_group:
  fixes v :: "'a::len word"
  assumes w: "7 \<le> LENGTH('a)" and v: "unat v < 2 ^ (LENGTH('a) - 7)"
  shows "unat (push_bit 7 v OR ucast ((b::u8) AND 0x7F)) = unat v * 128 + unat (b AND 0x7F)"
proof -
  let ?b = "ucast (b AND 0x7F) :: 'a word"
  have L: "(2::nat) ^ LENGTH('a) = 2 ^ (LENGTH('a) - 7) * 128"
    using w power_add[of "2::nat" "LENGTH('a) - 7" 7] by simp
  then have "unat (b AND 0x7F) < 2 ^ LENGTH('a)"
    using unat_and_7F[of b] by (metis less_le_trans mult_le_mono1 nat_mult_1 one_le_numeral one_le_power)
  then have ub: "unat ?b = unat (b AND 0x7F)"
    by (simp add: unsigned_ucast_eq take_bit_nat_eq_self)
  have sum: "unat v * 128 + unat (b AND 0x7F) < 2 ^ LENGTH('a)"
    using v unat_and_7F[of b] by (simp add: L)
  then have uv: "unat (push_bit 7 v) = unat v * 128"
    by (simp only: unsigned_push_bit_eq) (simp add: take_bit_nat_eq_self push_bit_eq_mult)
  have "push_bit 7 v AND ?b = 0"
    by (rule bit_word_eqI) (auto simp: bit_simps seven_mask)
  then have "push_bit 7 v OR ?b = push_bit 7 v + ?b"
    by (simp add: disjunctive_add_eq_or)
  then show ?thesis using sum uv ub by (simp add: unat_word_ariths)
qed

lemma and_not_mask_eq_0:
  fixes w :: "'a::len word"
  assumes "k \<le> LENGTH('a)"
  shows "w AND NOT (mask k) = 0 \<longleftrightarrow> unat w < 2 ^ k"
proof -
  have "w AND NOT (mask k) = 0 \<longleftrightarrow> take_bit k w = w"
    by (auto simp: bit_eq_iff bit_simps) 
  also have "\<dots> \<longleftrightarrow> unat w < 2 ^ k"
    by (metis assms take_bit_nat_eq_self_iff unsigned_take_bit_eq unsigned_word_eqI)
  finally show ?thesis .
qed

lemma size_masks:
  "(0x80::u8) = NOT (mask 7)"
  "(0xFF80::u16) = NOT (mask 7)" "(0xC000::u16) = NOT (mask 14)"
  "(0xFFFFFF80::u32) = NOT (mask 7)" "(0xFFFFC000::u32) = NOT (mask 14)"
  "(0xFFE00000::u32) = NOT (mask 21)" "(0xF0000000::u32) = NOT (mask 28)"
  "(0xFFFFFFFFFFFFFF80::u64) = NOT (mask 7)" "(0xFFFFFFFFFFFFC000::u64) = NOT (mask 14)"
  "(0xFFFFFFFFFFE00000::u64) = NOT (mask 21)" "(0xFFFFFFFFF0000000::u64) = NOT (mask 28)"
  "(0xFFFFFFF800000000::u64) = NOT (mask 35)" "(0xFFFFFC0000000000::u64) = NOT (mask 42)"
  "(0xFFFE000000000000::u64) = NOT (mask 49)" "(0xFF00000000000000::u64) = NOT (mask 56)"
  "(0x8000000000000000::u64) = NOT (mask 63)"
  by (simp_all add: mask_eq_exp_minus_1)

lemma sdnv_get_size_unat:
  "sdnv_get_size_u8 w8 = (if unat w8 < 2^7 then 1 else 2)"
  "sdnv_get_size_u16 w16 = (if unat w16 < 2^7 then 1 else if unat w16 < 2^14 then 2 else 3)"
  "sdnv_get_size_u32 w32 =
     (if unat w32 < 2^7 then 1 else if unat w32 < 2^14 then 2 else if unat w32 < 2^21 then 3
      else if unat w32 < 2^28 then 4 else 5)"
  "sdnv_get_size_u64 w64 =
     (if unat w64 < 2^7 then 1 else if unat w64 < 2^14 then 2 else if unat w64 < 2^21 then 3
      else if unat w64 < 2^28 then 4 else if unat w64 < 2^35 then 5 else if unat w64 < 2^42 then 6
      else if unat w64 < 2^49 then 7 else if unat w64 < 2^56 then 8 else if unat w64 < 2^63 then 9
      else 10)"
  unfolding sdnv_get_size_u8_def sdnv_get_size_u16_def sdnv_get_size_u32_def sdnv_get_size_u64_def
    size_masks by (simp_all add: and_not_mask_eq_0)

section \<open>The bytes the writer produces\<close>

lemma bit_0x80: "8 \<le> LENGTH('a::len) \<Longrightarrow> bit (0x80 :: 'a word) n \<longleftrightarrow> n = 7"
proof -
  assume "8 \<le> LENGTH('a)"
  moreover have "(0x80 :: 'a word) = 2 ^ 7" by simp
  ultimately show ?thesis by (simp only: bit_exp_iff) auto
qed

lemma written_byte:
  fixes v :: "'a::len word"
  assumes "8 \<le> LENGTH('a)"
  defines "b \<equiv> ucast ((v AND 0x7F) OR 0x80) :: u8"
  shows "sdnv_marked b" and "unat (b AND 0x7F) = unat v mod 128" and "\<not> sdnv_marked (b AND 0x7F)"
proof -
  have "bit b 7" using assms by (simp add: b_def bit_simps bit_0x80)
  then have "bit (b AND 0x80) 7" by (simp add: bit_and_iff bit_0x80)
  then show "sdnv_marked b" unfolding sdnv_marked_def by (metis bit_0_eq bot_apply bot_bool_def)
  have B: "bit (0x80 :: int) n \<longleftrightarrow> n = 7" for n
    using bit_exp_iff[of 7 n, where 'a = int] by simp
  have "b AND 0x7F = ucast (take_bit 7 v)"
    using assms(1) by (intro bit_word_eqI) (auto simp: b_def bit_and_iff bit_or_iff bit_unsigned_iff
        bit_take_bit_iff seven_mask bit_mask_iff B)
  moreover have "unat (ucast (take_bit 7 v) :: u8) = unat v mod 128"
    by (simp add: unsigned_ucast_eq unsigned_take_bit_eq take_bit_nat_def min_def mod_mod_cancel)
  ultimately show "unat (b AND 0x7F) = unat v mod 128" by simp
  have "(b AND 0x7F) AND 0x80 = 0"
    by (rule bit_word_eqI) (auto simp: bit_simps seven_mask B)
  then show "\<not> sdnv_marked (b AND 0x7F)" by (simp add: sdnv_marked_def)
qed

lemma sdnv_write_loop_acc: "sdnv_write_loop n v acc = sdnv_write_loop n v [] @ acc"
  by (induction n arbitrary: v acc) (simp, metis append_Cons append_Nil append_assoc sdnv_write_loop.simps(2))

lemma sdnv_write_loop_Suc:
  "sdnv_write_loop (Suc n) v [] = sdnv_write_loop n (drop_bit 7 v) [] @ [ucast ((v AND 0x7F) OR 0x80)]"
  by (subst sdnv_write_loop.simps, subst sdnv_write_loop_acc) (rule refl)

lemma length_sdnv_write_loop [simp]: "length (sdnv_write_loop n v []) = n"
  by (induction n arbitrary: v) (simp_all add: sdnv_write_loop_Suc del: sdnv_write_loop.simps(2))

lemma sdnv_write_loop_marked:
  "8 \<le> LENGTH('a) \<Longrightarrow> list_all sdnv_marked (sdnv_write_loop n (v::'a::len word) [])"
  by (induction n arbitrary: v)
    (simp_all add: sdnv_write_loop_Suc written_byte(1) del: sdnv_write_loop.simps(2))

lemma sdnv_write_loop_value:
  "8 \<le> LENGTH('a) \<Longrightarrow> sdnv_value (sdnv_write_loop n (v::'a::len word) []) = unat v mod 128 ^ n"
proof (induction n arbitrary: v)
  case 0
  then show ?case by (simp add: sdnv_value_Nil)
next
  case (Suc n)
  have "unat (drop_bit 7 v) = unat v div 128"
    by (simp add: unat_drop_bit)
  with Suc show ?case
    by (simp add: sdnv_write_loop_Suc sdnv_value_snoc written_byte(2) mod_mult2_eq
        del: sdnv_write_loop.simps(2))
qed

lemma sdnv_write_generic_Suc:
  "sdnv_write_generic (Suc m) v =
     sdnv_write_loop m (drop_bit 7 v) [] @ [ucast ((v AND 0x7F) OR 0x80) AND 0x7F]"
  by (simp add: sdnv_write_generic_def sdnv_write_loop_Suc list_update_append nth_append
      del: sdnv_write_loop.simps(2))

lemma sdnv_write_generic_ok:
  fixes v :: "'a::len word"
  assumes "8 \<le> LENGTH('a)" and "0 < n" and "unat v < 2 ^ (7 * n)"
  shows "length (sdnv_write_generic n v) = n"
    and "sdnv_well_formed (sdnv_write_generic n v)"
    and "sdnv_value (sdnv_write_generic n v) = unat v"
proof -
  obtain m where n: "n = Suc m" using assms(2) by (cases n) auto
  show "length (sdnv_write_generic n v) = n"
    by (simp add: n sdnv_write_generic_Suc)
  show "sdnv_well_formed (sdnv_write_generic n v)"
    using assms(1)
    by (simp add: n sdnv_write_generic_Suc sdnv_well_formed_def sdnv_write_loop_marked written_byte(3))
  have "unat (drop_bit 7 v) = unat v div 128"
    by (simp add: unat_drop_bit)
  moreover have "(2::nat) ^ (7 * n) = 128 * 128 ^ m"
    unfolding n power_mult by simp
  ultimately show "sdnv_value (sdnv_write_generic n v) = unat v"
    using assms by (simp add: n sdnv_write_generic_Suc sdnv_value_snoc written_byte(2)
        sdnv_write_loop_value less_mult_imp_div_less)
qed

section \<open>The contract the four widths share\<close>

text \<open>
  \<open>max_bytes\<close> is the length of the longest encoding of the width. The validation function
  admits a byte as long as the value read so far can be shifted by seven bits; the size
  function returns the length of the shortest encoding.
\<close>

locale sdnv_width =
  fixes validate :: "sdnv_state \<Rightarrow> 'a::len word \<Rightarrow> bool"
    and get_size :: "'a word \<Rightarrow> nat"
    and max_bytes :: nat
  assumes validate_iff: "validate st v \<longleftrightarrow>
      unat (bytes_parsed st) < max_bytes - 1 \<or>
      unat (bytes_parsed st) = max_bytes - 1 \<and> unat v < 2 ^ (LENGTH('a) - 7)"
    and max_bytes: "1 < max_bytes" "max_bytes < 256" "7 * (max_bytes - 1) \<le> LENGTH('a)"
    and width: "8 \<le> LENGTH('a)"
    and size_pos: "0 < get_size v"
    and size_le: "get_size v \<le> max_bytes"
    and size_enough: "unat v < 2 ^ (7 * get_size v)"
    and size_least: "1 < get_size v \<Longrightarrow> 2 ^ (7 * (get_size v - 1)) \<le> unat v"
begin

abbreviation "read \<equiv> sdnv_read_generic validate"

lemma width_ge_7: "7 \<le> LENGTH('a)"
  using width by simp

text \<open>One byte, seen from a state in which all went well so far.\<close>

lemma read_step:
  assumes "status st = SDNV_IN_PROGRESS" "unat (bytes_parsed st) < max_bytes"
    and room: "unat (bytes_parsed st) = max_bytes - 1 \<Longrightarrow> unat v < 2 ^ (LENGTH('a) - 7)"
    and small: "unat v < 2 ^ (7 * unat (bytes_parsed st)) \<or> bytes_parsed st = 0"
  shows "\<exists>v'. read st v b =
      (st\<lparr>status := (if sdnv_marked b then SDNV_IN_PROGRESS else SDNV_DONE),
          bytes_parsed := bytes_parsed st + 1\<rparr>, v') \<and>
    unat v' = (if bytes_parsed st = 0 then 0 else unat v * 128) + unat (b AND 0x7F)"
proof -
  have valid: "validate st v"
    using assms(2) room by (auto simp: validate_iff)
  show ?thesis
  proof (cases "bytes_parsed st = 0")
    case True
    then have "unat (ucast (b AND 0x7F) :: 'a word) = unat (b AND 0x7F)"
      using shift_in_group[OF width_ge_7, of 0 b] by simp
    with True valid assms(1) show ?thesis
      by (auto simp: sdnv_read_generic_def sdnv_marked_def)
  next
    case False
    have "7 * unat (bytes_parsed st) \<le> LENGTH('a) - 7 \<or> unat (bytes_parsed st) = max_bytes - 1"
      using assms(2) max_bytes(3) by linarith
    then have "unat v < 2 ^ (LENGTH('a) - 7)"
      using small False room by (metis one_le_numeral order_less_le_trans power_increasing)
    from shift_in_group[OF width_ge_7 this, of b] False valid assms(1) show ?thesis
      by (auto simp: sdnv_read_generic_def sdnv_marked_def)
  qed
qed

text \<open>What the reader knows after any byte string it did not reject.\<close>

lemma run_sound:
  assumes "sdnv_run read v0 bs = (st, v)" and "error st = SDNV_ERROR_NONE"
  shows "status st \<noteq> SDNV_ERROR \<and> unat (bytes_parsed st) = length bs \<and> length bs \<le> max_bytes \<and>
    (bs \<noteq> [] \<longrightarrow> unat v = sdnv_value bs) \<and> list_all sdnv_marked (butlast bs) \<and>
    (status st = SDNV_DONE \<longleftrightarrow> bs \<noteq> [] \<and> \<not> sdnv_marked (last bs))"
  using assms
proof (induction bs arbitrary: st v rule: rev_induct)
  case Nil
  then show ?case by (auto simp: sdnv_run_Nil sdnv_reset_def)
next
  case (snoc b bs)
  obtain st1 v1 where run: "sdnv_run read v0 bs = (st1, v1)"
    by (cases "sdnv_run read v0 bs")
  with snoc.prems have step: "read st1 v1 b = (st, v)"
    by (simp add: sdnv_run_snoc)
  with snoc.prems(2) have "error st1 = SDNV_ERROR_NONE" and ok: "validate st1 v1" "status st1 \<noteq> SDNV_DONE"
    by (auto simp: sdnv_read_generic_def Let_def split: if_splits)
  note IH = snoc.IH[OF run this(1)]
  with ok have prog: "status st1 = SDNV_IN_PROGRESS" and marked: "list_all sdnv_marked bs"
    by (cases "status st1"; cases bs rule: rev_cases; simp)+
  have "unat (bytes_parsed st1) < max_bytes"
    using ok(1) max_bytes by (auto simp: validate_iff)
  moreover have "unat (bytes_parsed st1) = max_bytes - 1 \<Longrightarrow> unat v1 < 2 ^ (LENGTH('a) - 7)"
    using ok(1) by (auto simp: validate_iff)
  moreover have "unat v1 < 2 ^ (7 * unat (bytes_parsed st1)) \<or> bytes_parsed st1 = 0"
    using IH sdnv_value_bound[of bs] by (cases bs) (auto simp: unsigned_eq_0_iff)
  ultimately obtain v' where
    "read st1 v1 b = (st1\<lparr>status := (if sdnv_marked b then SDNV_IN_PROGRESS else SDNV_DONE),
          bytes_parsed := bytes_parsed st1 + 1\<rparr>, v')"
    and v': "unat v' = (if bytes_parsed st1 = 0 then 0 else unat v1 * 128) + unat (b AND 0x7F)"
    using read_step[OF prog] by blast
  then have st: "st = st1\<lparr>status := (if sdnv_marked b then SDNV_IN_PROGRESS else SDNV_DONE),
          bytes_parsed := bytes_parsed st1 + 1\<rparr>" and "v = v'"
    using step by simp_all
  have "unat (bytes_parsed st1 + 1) = length bs + 1"
    using IH max_bytes \<open>unat (bytes_parsed st1) < max_bytes\<close> by (simp add: unat_word_ariths)
  moreover have "unat v = sdnv_value (bs @ [b])"
    using v' \<open>v = v'\<close> IH
    by (cases "bs = []") (auto simp: sdnv_value_snoc sdnv_value_single unsigned_eq_0_iff)
  ultimately show ?case
    using st marked IH \<open>unat (bytes_parsed st1) < max_bytes\<close> by auto
qed

lemma run_prefix:
  assumes "list_all sdnv_marked bs" and "length bs < max_bytes"
  shows "\<exists>v. sdnv_run read v0 bs =
      (\<lparr>status = SDNV_IN_PROGRESS, error = SDNV_ERROR_NONE, bytes_parsed = word_of_nat (length bs)\<rparr>, v) \<and>
    (bs \<noteq> [] \<longrightarrow> unat v = sdnv_value bs)"
  using assms
proof (induction bs rule: rev_induct)
  case Nil
  then show ?case by (simp add: sdnv_run_Nil sdnv_reset_def)
next
  case (snoc b bs)
  then obtain v where run: "sdnv_run read v0 bs =
      (\<lparr>status = SDNV_IN_PROGRESS, error = SDNV_ERROR_NONE, bytes_parsed = word_of_nat (length bs)\<rparr>, v)"
      (is "_ = (?st, v)")
    and v: "bs \<noteq> [] \<Longrightarrow> unat v = sdnv_value bs"
    by auto
  have len: "unat (word_of_nat (length bs) :: u8) = length bs"
    using snoc.prems(2) max_bytes(2) by (simp add: unsigned_of_nat take_bit_nat_eq_self)
  have "unat v < 2 ^ (7 * length bs) \<or> bs = []"
    using v sdnv_value_bound[of bs] by auto
  then have "\<exists>v'. read ?st v b = (?st\<lparr>status := (if sdnv_marked b then SDNV_IN_PROGRESS else SDNV_DONE),
          bytes_parsed := bytes_parsed ?st + 1\<rparr>, v') \<and>
      unat v' = (if bytes_parsed ?st = 0 then 0 else unat v * 128) + unat (b AND 0x7F)"
    using snoc.prems(2) len by (intro read_step) auto
  then obtain v' where "read ?st v b = (?st\<lparr>status := (if sdnv_marked b then SDNV_IN_PROGRESS else SDNV_DONE),
          bytes_parsed := bytes_parsed ?st + 1\<rparr>, v')"
    and "unat v' = (if bytes_parsed ?st = 0 then 0 else unat v * 128) + unat (b AND 0x7F)"
    by blast
  then show ?case
    using run v snoc.prems len
    by (cases "bs = []")
      (auto simp: sdnv_run_snoc sdnv_run_single sdnv_run_Nil sdnv_value_snoc sdnv_value_single add.commute
        simp flip: unsigned_eq_0_iff)
qed

lemma run_complete:
  assumes "sdnv_well_formed bs" and len: "length bs \<le> max_bytes" and val: "sdnv_value bs < 2 ^ LENGTH('a)"
  shows "sdnv_run read v0 bs =
    (\<lparr>status = SDNV_DONE, error = SDNV_ERROR_NONE, bytes_parsed = word_of_nat (length bs)\<rparr>,
     word_of_nat (sdnv_value bs))"
proof -
  obtain xs b where bs: "bs = xs @ [b]" and m: "list_all sdnv_marked xs" "\<not> sdnv_marked b"
    using assms(1) by (cases bs rule: rev_cases) (auto simp: sdnv_well_formed_def)
  with len obtain v where run: "sdnv_run read v0 xs =
      (\<lparr>status = SDNV_IN_PROGRESS, error = SDNV_ERROR_NONE, bytes_parsed = word_of_nat (length xs)\<rparr>, v)"
      (is "_ = (?st, v)")
    and v: "xs \<noteq> [] \<Longrightarrow> unat v = sdnv_value xs"
    using run_prefix[of xs v0] by auto
  have n: "unat (word_of_nat (length xs) :: u8) = length xs"
    using len bs max_bytes(2) by (simp add: unsigned_of_nat take_bit_nat_eq_self)
  have L: "(2::nat) ^ LENGTH('a) = 2 ^ (LENGTH('a) - 7) * 128"
    using width_ge_7 power_add[of "2::nat" "LENGTH('a) - 7" 7] by simp
  have "sdnv_value xs < 2 ^ (LENGTH('a) - 7)"
    using val by (simp add: bs sdnv_value_snoc L)
  then have "\<exists>v'. read ?st v b = (?st\<lparr>status := (if sdnv_marked b then SDNV_IN_PROGRESS else SDNV_DONE),
          bytes_parsed := bytes_parsed ?st + 1\<rparr>, v') \<and>
      unat v' = (if bytes_parsed ?st = 0 then 0 else unat v * 128) + unat (b AND 0x7F)"
    using len bs n v sdnv_value_bound[of xs] max_bytes(1)
    by (intro read_step) (cases "xs = []"; auto)+
  then obtain v' where step: "read ?st v b = (?st\<lparr>status := SDNV_DONE, bytes_parsed := bytes_parsed ?st + 1\<rparr>, v')"
    and v': "unat v' = (if bytes_parsed ?st = 0 then 0 else unat v * 128) + unat (b AND 0x7F)"
    using m(2) by auto
  have "unat v' = sdnv_value bs"
    using v v' n by (cases "xs = []") (auto simp: bs sdnv_value_snoc sdnv_value_single simp flip: unsigned_eq_0_iff)
  then have "v' = word_of_nat (sdnv_value bs)"
    by (simp flip: \<open>unat v' = sdnv_value bs\<close>)
  with run step show ?thesis
    by (simp add: bs sdnv_run_snoc add.commute)
qed

lemma write_read:
  "sdnv_run read v0 (sdnv_write_generic (get_size v) v) =
    (\<lparr>status = SDNV_DONE, error = SDNV_ERROR_NONE, bytes_parsed = word_of_nat (get_size v)\<rparr>, v)"
  using run_complete[of "sdnv_write_generic (get_size v) v" v0]
    sdnv_write_generic_ok[OF width size_pos size_enough, of v]
  by (simp add: size_le unsigned_less)

text \<open>An accepted encoding of a number is at least as long as the one the writer chooses.\<close>

lemma write_shortest:
  assumes "sdnv_run read v0 bs = (st, v)" "error st = SDNV_ERROR_NONE" "status st = SDNV_DONE"
  shows "get_size v \<le> length bs"
proof (rule ccontr)
  assume "\<not> get_size v \<le> length bs"
  then have lt: "length bs \<le> get_size v - 1" and "1 < get_size v"
    using run_sound[OF assms(1,2)] assms(3) by (cases bs; auto)+
  have "unat v < 2 ^ (7 * length bs)"
    using run_sound[OF assms(1,2)] assms(3) sdnv_value_bound[of bs] by auto
  also have "\<dots> \<le> 2 ^ (7 * (get_size v - 1))"
    using lt by (intro power_increasing) auto
  finally show False using size_least[OF \<open>1 < get_size v\<close>] by simp
qed

end

lemmas sdnv_validate_defs =
  sdnv_validate_byte_u8_def sdnv_validate_byte_u16_def
  sdnv_validate_byte_u32_def sdnv_validate_byte_u64_def

lemma unat_max:
  "unat (w8::u8) < 2^8" "unat (w16::u16) < 2^16" "unat (w32::u32) < 2^32" "unat (w64::u64) < 2^64"
  by (rule order_less_le_trans[OF unsigned_less], simp)+

lemmas sdnv_width_simps =
  sdnv_validate_defs sdnv_get_size_unat word_le_nat_alt word_less_nat_alt
  word_unat_eq_iff[of "bytes_parsed _"]

interpretation sdnv8: sdnv_width sdnv_validate_byte_u8 sdnv_get_size_u8 2
  by unfold_locales (auto simp: sdnv_width_simps intro: order_less_le_trans[OF unat_max(1)])

interpretation sdnv16: sdnv_width sdnv_validate_byte_u16 sdnv_get_size_u16 3
  by unfold_locales (auto simp: sdnv_width_simps intro: order_less_le_trans[OF unat_max(2)])

interpretation sdnv32: sdnv_width sdnv_validate_byte_u32 sdnv_get_size_u32 5
  by unfold_locales (auto simp: sdnv_width_simps intro: order_less_le_trans[OF unat_max(3)])

interpretation sdnv64: sdnv_width sdnv_validate_byte_u64 sdnv_get_size_u64 10
  by unfold_locales (auto simp: sdnv_width_simps intro: order_less_le_trans[OF unat_max(4)])

section \<open>Properties\<close>

lemmas sdnv_read_defs = sdnv_read_u8_def sdnv_read_u16_def sdnv_read_u32_def sdnv_read_u64_def
lemmas sdnv_write_defs = sdnv_write_u8_def sdnv_write_u16_def sdnv_write_u32_def sdnv_write_u64_def

text \<open>
  C27. Write then read is the identity at every width: a fresh reader fed with the bytes the
  writer produced is done, without error, exactly after the returned number of bytes, and
  holds the value that was written, whatever the value variable held before.
\<close>

theorem sdnv_roundtrip:
  "sdnv_run sdnv_read_u8 a (fst (sdnv_write_u8 v8)) =
     (\<lparr>status = SDNV_DONE, error = SDNV_ERROR_NONE, bytes_parsed = word_of_nat (snd (sdnv_write_u8 v8))\<rparr>, v8) \<and>
   sdnv_run sdnv_read_u16 b (fst (sdnv_write_u16 v16)) =
     (\<lparr>status = SDNV_DONE, error = SDNV_ERROR_NONE, bytes_parsed = word_of_nat (snd (sdnv_write_u16 v16))\<rparr>, v16) \<and>
   sdnv_run sdnv_read_u32 c (fst (sdnv_write_u32 v32)) =
     (\<lparr>status = SDNV_DONE, error = SDNV_ERROR_NONE, bytes_parsed = word_of_nat (snd (sdnv_write_u32 v32))\<rparr>, v32) \<and>
   sdnv_run sdnv_read_u64 d (fst (sdnv_write_u64 v64)) =
     (\<lparr>status = SDNV_DONE, error = SDNV_ERROR_NONE, bytes_parsed = word_of_nat (snd (sdnv_write_u64 v64))\<rparr>, v64)"
  by (simp add: sdnv_read_defs sdnv_write_defs Let_def
      sdnv8.write_read sdnv16.write_read sdnv32.write_read sdnv64.write_read)

text \<open>
  C30. The reader never wraps around: whenever the 64-bit reader reports a finished value
  without error, the bytes form one complete SDNV, the value equals the number they
  denote, and they are at most ten; the same holds for the 32-bit reader with five bytes.
\<close>

theorem sdnv_read_no_overflow:
  "(sdnv_run sdnv_read_u64 d bs = (st, v) \<and> error st = SDNV_ERROR_NONE \<and> status st = SDNV_DONE \<longrightarrow>
      unat v = sdnv_value bs \<and> sdnv_well_formed bs \<and> length bs \<le> 10 \<and> sdnv_get_size_u64 v \<le> length bs) \<and>
   (sdnv_run sdnv_read_u32 c bs = (st', v') \<and> error st' = SDNV_ERROR_NONE \<and> status st' = SDNV_DONE \<longrightarrow>
      unat v' = sdnv_value bs \<and> sdnv_well_formed bs \<and> length bs \<le> 5 \<and> sdnv_get_size_u32 v' \<le> length bs)"
  unfolding sdnv_read_defs sdnv_well_formed_def
  using sdnv64.run_sound[of d bs st v] sdnv64.write_shortest[of d bs st v]
    sdnv32.run_sound[of c bs st' v'] sdnv32.write_shortest[of c bs st' v']
  by auto

theorem sdnv_read_no_overflow_witness:
  "\<exists>st v. sdnv_run sdnv_read_u64 0 [0x83, 0x00] = (st, v) \<and> error st = SDNV_ERROR_NONE \<and>
     status st = SDNV_DONE \<and> unat v = 384 \<and> sdnv_get_size_u64 v \<le> length [0x83::u8, 0x00]"
proof -
  obtain st v where run: "sdnv_run sdnv_read_u64 0 [0x83, 0x00] = (st, v)"
    by (cases "sdnv_run sdnv_read_u64 0 [0x83, 0x00]")
  then have "error st = SDNV_ERROR_NONE" "status st = SDNV_DONE"
    by (auto simp: sdnv_run_def sdnv_read_u64_def sdnv_read_generic_def sdnv_reset_def sdnv_validate_byte_u64_def)
  with run sdnv_read_no_overflow[of 0 "[0x83, 0x00]" st v] show ?thesis
    by (auto simp: sdnv_value_def)
qed

end
