(* ===== verification/Bundle.thy ===== *)
theory Bundle
  imports Prelude
begin

unbundle bit_operations_syntax

text \<open>
  The bundle data model of \<^verbatim>\<open>include/ud3tn/bundle.h\<close> and the version-independent
  operations of \<^verbatim>\<open>components/ud3tn/bundle.c\<close>: reset, copies, blocks and block lists,
  routing priority, expiration time, unique identifiers and application data units.
  The enumerations that are bit masks, and the block type (the parsers store every byte
  value in it), are words with named constants. A block list is a list; the pointer
  \<^verbatim>\<open>payload_block\<close> of a bundle, which points to the data of one entry of its block list, is
  the position of that entry. Endpoint identifiers are optional strings, \<^term>\<open>None\<close> being
  \<^verbatim>\<open>NULL\<close>.
\<close>

section \<open>Data\<close>

definition BUNDLE_INVALID_ID :: u16 where "BUNDLE_INVALID_ID = 0"

type_synonym eid = string

definition HAS_FLAG :: "'a::len word \<Rightarrow> 'a word \<Rightarrow> bool" where
  "HAS_FLAG v f \<longleftrightarrow> v AND f \<noteq> 0"

text \<open>\<^verbatim>\<open>enum bundle_proc_flags\<close>\<close>

definition BUNDLE_FLAG_NONE :: u32 where "BUNDLE_FLAG_NONE = 0x000000"
definition BUNDLE_FLAG_IS_FRAGMENT :: u32 where "BUNDLE_FLAG_IS_FRAGMENT = 0x000001"
definition BUNDLE_FLAG_ADMINISTRATIVE_RECORD :: u32 where "BUNDLE_FLAG_ADMINISTRATIVE_RECORD = 0x000002"
definition BUNDLE_FLAG_MUST_NOT_BE_FRAGMENTED :: u32 where "BUNDLE_FLAG_MUST_NOT_BE_FRAGMENTED = 0x000004"
definition BUNDLE_FLAG_ACKNOWLEDGEMENT_REQUESTED :: u32 where "BUNDLE_FLAG_ACKNOWLEDGEMENT_REQUESTED = 0x000020"
definition BUNDLE_FLAG_REPORT_STATUS_TIME :: u32 where "BUNDLE_FLAG_REPORT_STATUS_TIME = 0x000040"
definition BUNDLE_FLAG_REPORT_RECEPTION :: u32 where "BUNDLE_FLAG_REPORT_RECEPTION = 0x004000"
definition BUNDLE_FLAG_REPORT_FORWARDING :: u32 where "BUNDLE_FLAG_REPORT_FORWARDING = 0x010000"
definition BUNDLE_FLAG_REPORT_DELIVERY :: u32 where "BUNDLE_FLAG_REPORT_DELIVERY = 0x020000"
definition BUNDLE_FLAG_REPORT_DELETION :: u32 where "BUNDLE_FLAG_REPORT_DELETION = 0x040000"
definition BUNDLE_V6_FLAG_CUSTODY_TRANSFER_REQUESTED :: u32 where "BUNDLE_V6_FLAG_CUSTODY_TRANSFER_REQUESTED = 0x000008"
definition BUNDLE_V6_FLAG_SINGLETON_ENDPOINT :: u32 where "BUNDLE_V6_FLAG_SINGLETON_ENDPOINT = 0x000010"
definition BUNDLE_V6_FLAG_NORMAL_PRIORITY :: u32 where "BUNDLE_V6_FLAG_NORMAL_PRIORITY = 0x000080"
definition BUNDLE_V6_FLAG_EXPEDITED_PRIORITY :: u32 where "BUNDLE_V6_FLAG_EXPEDITED_PRIORITY = 0x000100"
definition BUNDLE_V6_FLAG_REPORT_CUSTODY_ACCEPTANCE :: u32 where "BUNDLE_V6_FLAG_REPORT_CUSTODY_ACCEPTANCE = 0x008000"

lemmas bundle_proc_flags_defs =
  BUNDLE_FLAG_NONE_def BUNDLE_FLAG_IS_FRAGMENT_def BUNDLE_FLAG_ADMINISTRATIVE_RECORD_def
  BUNDLE_FLAG_MUST_NOT_BE_FRAGMENTED_def BUNDLE_FLAG_ACKNOWLEDGEMENT_REQUESTED_def
  BUNDLE_FLAG_REPORT_STATUS_TIME_def BUNDLE_FLAG_REPORT_RECEPTION_def BUNDLE_FLAG_REPORT_FORWARDING_def
  BUNDLE_FLAG_REPORT_DELIVERY_def BUNDLE_FLAG_REPORT_DELETION_def
  BUNDLE_V6_FLAG_CUSTODY_TRANSFER_REQUESTED_def BUNDLE_V6_FLAG_SINGLETON_ENDPOINT_def
  BUNDLE_V6_FLAG_NORMAL_PRIORITY_def BUNDLE_V6_FLAG_EXPEDITED_PRIORITY_def
  BUNDLE_V6_FLAG_REPORT_CUSTODY_ACCEPTANCE_def

definition BP_V7_FLAGS :: u32 where
  "BP_V7_FLAGS = BUNDLE_FLAG_IS_FRAGMENT OR BUNDLE_FLAG_ADMINISTRATIVE_RECORD
    OR BUNDLE_FLAG_MUST_NOT_BE_FRAGMENTED OR BUNDLE_FLAG_ACKNOWLEDGEMENT_REQUESTED
    OR BUNDLE_FLAG_REPORT_STATUS_TIME OR BUNDLE_FLAG_REPORT_RECEPTION
    OR BUNDLE_FLAG_REPORT_FORWARDING OR BUNDLE_FLAG_REPORT_DELIVERY OR BUNDLE_FLAG_REPORT_DELETION"

datatype bundle_crc_type = BUNDLE_CRC_TYPE_NONE | BUNDLE_CRC_TYPE_16 | BUNDLE_CRC_TYPE_32

definition DEFAULT_CRC_TYPE :: bundle_crc_type where "DEFAULT_CRC_TYPE = BUNDLE_CRC_TYPE_16"

text \<open>\<^verbatim>\<open>enum bundle_retention_constraints\<close>\<close>

definition BUNDLE_RET_CONSTRAINT_NONE :: u32 where "BUNDLE_RET_CONSTRAINT_NONE = 0x00"
definition BUNDLE_RET_CONSTRAINT_DISPATCH_PENDING :: u32 where "BUNDLE_RET_CONSTRAINT_DISPATCH_PENDING = 0x01"
definition BUNDLE_RET_CONSTRAINT_FORWARD_PENDING :: u32 where "BUNDLE_RET_CONSTRAINT_FORWARD_PENDING = 0x02"
definition BUNDLE_RET_CONSTRAINT_CUSTODY_ACCEPTED :: u32 where "BUNDLE_RET_CONSTRAINT_CUSTODY_ACCEPTED = 0x04"
definition BUNDLE_RET_CONSTRAINT_REASSEMBLY_PENDING :: u32 where "BUNDLE_RET_CONSTRAINT_REASSEMBLY_PENDING = 0x08"
definition BUNDLE_RET_CONSTRAINT_FLAG_OWN :: u32 where "BUNDLE_RET_CONSTRAINT_FLAG_OWN = 0x80"

lemmas bundle_retention_constraints_defs =
  BUNDLE_RET_CONSTRAINT_NONE_def BUNDLE_RET_CONSTRAINT_DISPATCH_PENDING_def
  BUNDLE_RET_CONSTRAINT_FORWARD_PENDING_def BUNDLE_RET_CONSTRAINT_CUSTODY_ACCEPTED_def
  BUNDLE_RET_CONSTRAINT_REASSEMBLY_PENDING_def BUNDLE_RET_CONSTRAINT_FLAG_OWN_def

text \<open>\<^verbatim>\<open>enum bundle_block_type\<close> and \<^verbatim>\<open>enum bundle_block_flags\<close>\<close>

definition BUNDLE_BLOCK_TYPE_PAYLOAD :: u32 where "BUNDLE_BLOCK_TYPE_PAYLOAD = 1"
definition BUNDLE_BLOCK_TYPE_PREVIOUS_NODE :: u32 where "BUNDLE_BLOCK_TYPE_PREVIOUS_NODE = 6"
definition BUNDLE_BLOCK_TYPE_BUNDLE_AGE :: u32 where "BUNDLE_BLOCK_TYPE_BUNDLE_AGE = 7"
definition BUNDLE_BLOCK_TYPE_HOP_COUNT :: u32 where "BUNDLE_BLOCK_TYPE_HOP_COUNT = 10"
definition BUNDLE_BLOCK_TYPE_MAX :: u32 where "BUNDLE_BLOCK_TYPE_MAX = 255"

definition BUNDLE_BLOCK_FLAG_NONE :: u32 where "BUNDLE_BLOCK_FLAG_NONE = 0x00"
definition BUNDLE_BLOCK_FLAG_MUST_BE_REPLICATED :: u32 where "BUNDLE_BLOCK_FLAG_MUST_BE_REPLICATED = 0x01"
definition BUNDLE_BLOCK_FLAG_REPORT_IF_UNPROC :: u32 where "BUNDLE_BLOCK_FLAG_REPORT_IF_UNPROC = 0x02"
definition BUNDLE_BLOCK_FLAG_DELETE_BUNDLE_IF_UNPROC :: u32 where "BUNDLE_BLOCK_FLAG_DELETE_BUNDLE_IF_UNPROC = 0x04"
definition BUNDLE_V6_BLOCK_FLAG_LAST_BLOCK :: u32 where "BUNDLE_V6_BLOCK_FLAG_LAST_BLOCK = 0x08"
definition BUNDLE_BLOCK_FLAG_DISCARD_IF_UNPROC :: u32 where "BUNDLE_BLOCK_FLAG_DISCARD_IF_UNPROC = 0x10"
definition BUNDLE_V6_BLOCK_FLAG_FWD_UNPROC :: u32 where "BUNDLE_V6_BLOCK_FLAG_FWD_UNPROC = 0x20"
definition BUNDLE_V6_BLOCK_FLAG_HAS_EID_REF_FIELD :: u32 where "BUNDLE_V6_BLOCK_FLAG_HAS_EID_REF_FIELD = 0x40"

lemmas bundle_block_defs =
  BUNDLE_BLOCK_TYPE_PAYLOAD_def BUNDLE_BLOCK_TYPE_PREVIOUS_NODE_def BUNDLE_BLOCK_TYPE_BUNDLE_AGE_def
  BUNDLE_BLOCK_TYPE_HOP_COUNT_def BUNDLE_BLOCK_TYPE_MAX_def
  BUNDLE_BLOCK_FLAG_NONE_def BUNDLE_BLOCK_FLAG_MUST_BE_REPLICATED_def BUNDLE_BLOCK_FLAG_REPORT_IF_UNPROC_def
  BUNDLE_BLOCK_FLAG_DELETE_BUNDLE_IF_UNPROC_def BUNDLE_V6_BLOCK_FLAG_LAST_BLOCK_def
  BUNDLE_BLOCK_FLAG_DISCARD_IF_UNPROC_def BUNDLE_V6_BLOCK_FLAG_FWD_UNPROC_def
  BUNDLE_V6_BLOCK_FLAG_HAS_EID_REF_FIELD_def

text \<open>The structures; a block's list of referenced endpoints is a list of C strings.\<close>

record bundle_block =
  blk_type :: u32
  blk_number :: u8
  blk_flags :: u32
  blk_length :: u32
  blk_data :: "u8 list option"
  blk_eid_refs :: "eid option list"
  blk_crc_type :: bundle_crc_type
  blk_crc :: u32

record bundle_hop_count =
  hop_limit :: u16
  hop_count :: u16

record bundle_t =
  bundle_id :: u16
  protocol_version :: u8
  proc_flags :: u32
  ret_constraints :: u32
  crc_type :: bundle_crc_type
  destination :: "eid option"
  source :: "eid option"
  report_to :: "eid option"
  current_custodian :: "eid option"
  creation_timestamp_ms :: u64
  sequence_number :: u64
  lifetime_ms :: u64
  bundle_crc :: u32
  fragment_offset :: u32
  total_adu_length :: u32
  primary_block_length :: u16
  blocks :: "bundle_block list"
  payload_block :: "nat option"

record bundle_unique_identifier =
  uid_protocol_version :: u8
  uid_source :: "eid option"
  uid_creation_timestamp_ms :: u64
  uid_sequence_number :: u64
  uid_fragment_offset :: u32
  uid_payload_length :: u32

datatype bundle_routing_priority = BUNDLE_RPRIO_LOW | BUNDLE_RPRIO_NORMAL | BUNDLE_RPRIO_HIGH

record bundle_adu =
  adu_protocol_version :: u8
  adu_proc_flags :: u32
  adu_source :: "eid option"
  adu_destination :: "eid option"
  adu_payload :: "u8 list option"
  adu_length :: u64

definition bundle_is_fragmented :: "bundle_t \<Rightarrow> bool" where
  "bundle_is_fragmented b \<longleftrightarrow> HAS_FLAG (proc_flags b) BUNDLE_FLAG_IS_FRAGMENT"

definition bundle_must_not_fragment :: "bundle_t \<Rightarrow> bool" where
  "bundle_must_not_fragment b \<longleftrightarrow> HAS_FLAG (proc_flags b) BUNDLE_FLAG_MUST_NOT_BE_FRAGMENTED"

definition bundle_block_must_be_replicated :: "bundle_block \<Rightarrow> bool" where
  "bundle_block_must_be_replicated blk \<longleftrightarrow> HAS_FLAG (blk_flags blk) BUNDLE_BLOCK_FLAG_MUST_BE_REPLICATED"

text \<open>Reading through the \<^verbatim>\<open>payload_block\<close> pointer; \<^term>\<open>None\<close> is the null pointer.\<close>

definition payload_of :: "bundle_t \<Rightarrow> bundle_block option" where
  "payload_of b = (case payload_block b of
     None \<Rightarrow> None
   | Some i \<Rightarrow> if i < length (blocks b) then Some (blocks b ! i) else None)"

section \<open>Creation, reset and copies\<close>

definition bundle_reset_internal :: "bundle_t \<Rightarrow> bundle_t" where
  "bundle_reset_internal b = b\<lparr>bundle_id := BUNDLE_INVALID_ID, protocol_version := 6,
     proc_flags := BUNDLE_FLAG_NONE, ret_constraints := BUNDLE_RET_CONSTRAINT_NONE,
     destination := None, source := None, report_to := None, current_custodian := None,
     crc_type := DEFAULT_CRC_TYPE, creation_timestamp_ms := 0, sequence_number := 0,
     lifetime_ms := 0, fragment_offset := 0, total_adu_length := 0, primary_block_length := 0,
     blocks := [], payload_block := None\<rparr>"

text \<open>The memory \<^verbatim>\<open>malloc\<close> hands out has arbitrary contents, the argument \<open>junk\<close>.\<close>

definition bundle_init :: "bundle_t \<Rightarrow> alloc_script \<Rightarrow> bundle_t option \<times> alloc_script" where
  "bundle_init junk as = (if malloc_ok as then Some (bundle_reset_internal junk) else None, malloc_rest as)"

definition bundle_free_dynamic_parts :: "bundle_t \<Rightarrow> bundle_t" where
  "bundle_free_dynamic_parts b = b\<lparr>blocks := []\<rparr>"

definition bundle_reset :: "bundle_t \<Rightarrow> bundle_t" where
  "bundle_reset b = bundle_reset_internal (bundle_free_dynamic_parts b)"

text \<open>\<^verbatim>\<open>bundle_drop\<close> insists that nothing holds the bundle any more before it frees it.\<close>

definition bundle_drop :: "bundle_t \<Rightarrow> fault + unit" where
  "bundle_drop b = (if ret_constraints b = BUNDLE_RET_CONSTRAINT_NONE then Inr () else Inl AssertFailed)"

fun strdup :: "eid \<Rightarrow> alloc_script \<Rightarrow> eid option \<times> alloc_script" where
  "strdup s as = (if malloc_ok as then Some s else None, malloc_rest as)"

fun strdup_eid :: "eid option \<Rightarrow> alloc_script \<Rightarrow> eid option \<times> alloc_script" where
  "strdup_eid None as = (None, as)"
| "strdup_eid (Some s) as = strdup s as"

definition bundle_copy_headers :: "bundle_t \<Rightarrow> alloc_script \<Rightarrow> bundle_t \<times> alloc_script" where
  "bundle_copy_headers from as =
    (let (dst, as1) = strdup_eid (destination from) as;
         (src, as2) = strdup_eid (source from) as1;
         (rep, as3) = strdup_eid (report_to from) as2;
         (cus, as4) = strdup_eid (current_custodian from) as3
     in (from\<lparr>destination := dst, source := src, report_to := rep, current_custodian := cus,
              blocks := [], payload_block := None\<rparr>, as4))"

section \<open>Blocks and block lists\<close>

definition bundle_block_create ::
  "bundle_block \<Rightarrow> u32 \<Rightarrow> alloc_script \<Rightarrow> bundle_block option \<times> alloc_script" where
  "bundle_block_create junk t as =
    (if malloc_ok as then
       Some (junk\<lparr>blk_type := t, blk_number := (if t = BUNDLE_BLOCK_TYPE_PAYLOAD then 1 else 0),
                  blk_flags := BUNDLE_BLOCK_FLAG_NONE, blk_eid_refs := [],
                  blk_crc_type := BUNDLE_CRC_TYPE_NONE, blk_length := 0, blk_data := None\<rparr>)
     else None, malloc_rest as)"

text \<open>A list entry holds exactly one block: creating one either wraps the block or fails.\<close>

definition bundle_block_entry_create ::
  "bundle_block option \<Rightarrow> alloc_script \<Rightarrow> bundle_block option \<times> alloc_script" where
  "bundle_block_entry_create b as = (case b of
     None \<Rightarrow> (None, as)
   | Some blk \<Rightarrow> (if malloc_ok as then Some blk else None, malloc_rest as))"

text \<open>
  The copy loop over the referenced endpoints pushes every copy in front of the ones made
  before and does not check the allocation of the list cell. \<^verbatim>\<open>strdup\<close> of a null string is a
  fault.
\<close>

fun eid_refs_dup ::
  "eid option list \<Rightarrow> eid option list \<Rightarrow> alloc_script \<Rightarrow> fault + (eid option list \<times> alloc_script)" where
  "eid_refs_dup [] acc as = Inr (acc, as)"
| "eid_refs_dup (r # rs) acc as =
    (if \<not> malloc_ok as then Inl NullDeref
     else bindE (deref r) (\<lambda>s. let (s', as') = strdup s (malloc_rest as)
                                in eid_refs_dup rs (s' # acc) as'))"

definition memcpy_from :: "u8 list option \<Rightarrow> nat \<Rightarrow> nat \<Rightarrow> fault + u8 list" where
  "memcpy_from src off n =
    (if n = 0 then Inr []
     else bindE (deref src) (\<lambda>d. if off + n \<le> length d then Inr (take n (drop off d)) else Inl OutOfBounds))"

definition bundle_block_dup ::
  "bundle_block \<Rightarrow> alloc_script \<Rightarrow> fault + (bundle_block option \<times> alloc_script)" where
  "bundle_block_dup b as =
    (if \<not> malloc_ok as then Inr (None, malloc_rest as)
     else bindE (eid_refs_dup (blk_eid_refs b) [] (malloc_rest as)) (\<lambda>(refs, as1).
       if \<not> malloc_ok as1 then Inr (None, malloc_rest as1)
       else bindE (memcpy_from (blk_data b) 0 (unat (blk_length b))) (\<lambda>d.
         Inr (Some (b\<lparr>blk_eid_refs := refs, blk_data := Some d\<rparr>), malloc_rest as1))))"

definition bundle_block_entry_dup ::
  "bundle_block \<Rightarrow> alloc_script \<Rightarrow> fault + (bundle_block option \<times> alloc_script)" where
  "bundle_block_entry_dup e as = bindE (bundle_block_dup e as) (\<lambda>(dup, as1).
     case dup of None \<Rightarrow> Inr (None, as1)
     | Some d \<Rightarrow> Inr (bundle_block_entry_create (Some d) as1))"

text \<open>\<^verbatim>\<open>bundle_block_list_dup\<close> with the copies made so far as accumulator; a failed
  entry frees them all and returns \<^verbatim>\<open>NULL\<close>, here \<^term>\<open>None\<close>.\<close>

fun bundle_block_list_dup_loop ::
  "bundle_block list \<Rightarrow> bundle_block list \<Rightarrow> alloc_script \<Rightarrow> fault + (bundle_block list option \<times> alloc_script)" where
  "bundle_block_list_dup_loop [] dup as = Inr (Some dup, as)"
| "bundle_block_list_dup_loop (e # es) dup as = bindE (bundle_block_entry_dup e as) (\<lambda>(r, as1).
     case r of None \<Rightarrow> Inr (None, as1)
     | Some d \<Rightarrow> bundle_block_list_dup_loop es (dup @ [d]) as1)"

definition bundle_block_list_dup ::
  "bundle_block list \<Rightarrow> alloc_script \<Rightarrow> fault + (bundle_block list option \<times> alloc_script)" where
  "bundle_block_list_dup es as = bundle_block_list_dup_loop es [] as"

text \<open>
  The loop of \<^verbatim>\<open>bundle_dup\<close> that looks for the payload block. Its body has no step to the
  next entry, and neither has the definition: not returning is the value \<^term>\<open>None\<close>.
\<close>

partial_function (option) dup_find_payload :: "bundle_block list \<Rightarrow> nat \<Rightarrow> nat option option" where
  [code]: "dup_find_payload bs cur =
    (if \<not> cur < length bs then Some None
     else if blk_type (bs ! cur) = BUNDLE_BLOCK_TYPE_PAYLOAD then Some (Some cur)
     else dup_find_payload bs cur)"

text \<open>
  A result of \<^verbatim>\<open>bundle_dup\<close>: \<^term>\<open>None\<close> when the call does not return. A bundle whose search
  finds nothing keeps the \<^verbatim>\<open>payload_block\<close> pointer of the original.
\<close>

definition bundle_dup :: "bundle_t \<Rightarrow> alloc_script \<Rightarrow> (fault + (bundle_t option \<times> alloc_script)) option" where
  "bundle_dup b as =
    (if \<not> malloc_ok as then Some (Inr (None, malloc_rest as)) else
     let (src, as1) = strdup_eid (source b) (malloc_rest as);
         (dst, as2) = strdup_eid (destination b) as1;
         (rep, as3) = strdup_eid (report_to b) as2;
         (cus, as4) = strdup_eid (current_custodian b) as3
     in case bundle_block_list_dup (blocks b) as4 of
          Inl f \<Rightarrow> Some (Inl f)
        | Inr (None, as5) \<Rightarrow> Some (Inr (None, as5))
        | Inr (Some bs, as5) \<Rightarrow>
            (case dup_find_payload bs 0 of
               None \<Rightarrow> None
             | Some p \<Rightarrow> Some (Inr (Some (b\<lparr>source := src, destination := dst, report_to := rep,
                 current_custodian := cus, blocks := bs,
                 payload_block := (case p of None \<Rightarrow> payload_block b | Some i \<Rightarrow> Some i)\<rparr>), as5))))"

section \<open>Priority, expiration and identity\<close>

definition bundle_get_routing_priority :: "bundle_t \<Rightarrow> bundle_routing_priority" where
  "bundle_get_routing_priority b =
    (if HAS_FLAG (ret_constraints b) BUNDLE_RET_CONSTRAINT_FLAG_OWN
        \<or> HAS_FLAG (ret_constraints b) BUNDLE_RET_CONSTRAINT_CUSTODY_ACCEPTED
        \<or> (protocol_version b = 6 \<and> HAS_FLAG (proc_flags b) BUNDLE_V6_FLAG_EXPEDITED_PRIORITY)
     then BUNDLE_RPRIO_HIGH
     else if protocol_version b = 7 \<or> HAS_FLAG (proc_flags b) BUNDLE_V6_FLAG_NORMAL_PRIORITY
     then BUNDLE_RPRIO_NORMAL
     else BUNDLE_RPRIO_LOW)"

text \<open>The clock is read only for a bundle without creation time.\<close>

definition bundle_get_expiration_time_s :: "u64 \<Rightarrow> bundle_t \<Rightarrow> u64" where
  "bundle_get_expiration_time_s now b =
    (if creation_timestamp_ms b \<noteq> 0 then (creation_timestamp_ms b + 500) div 1000 else now)
      + (lifetime_ms b + 500) div 1000"

definition bundle_get_unique_identifier ::
  "bundle_t \<Rightarrow> alloc_script \<Rightarrow> fault + (bundle_unique_identifier \<times> alloc_script)" where
  "bundle_get_unique_identifier b as =
    bindE (deref (source b)) (\<lambda>s. bindE (deref (payload_of b)) (\<lambda>p.
      let (s', as') = strdup s as in
      Inr (\<lparr>uid_protocol_version = protocol_version b, uid_source = s',
            uid_creation_timestamp_ms = creation_timestamp_ms b,
            uid_sequence_number = sequence_number b,
            uid_fragment_offset = fragment_offset b,
            uid_payload_length = blk_length p\<rparr>, as')))"

text \<open>
  The comparisons short-circuit: \<^verbatim>\<open>strcmp\<close> and the payload pointer are reached only when the
  conjuncts before them hold.
\<close>

definition strcmp_eq :: "eid option \<Rightarrow> eid option \<Rightarrow> fault + bool" where
  "strcmp_eq p q = bindE (deref p) (\<lambda>s. bindE (deref q) (\<lambda>t. Inr (s = t)))"

definition bundle_is_equal_parent :: "bundle_t \<Rightarrow> bundle_unique_identifier \<Rightarrow> fault + bool" where
  "bundle_is_equal_parent b i =
    (if protocol_version b \<noteq> uid_protocol_version i then Inr False
     else bindE (strcmp_eq (source b) (uid_source i)) (\<lambda>r.
       Inr (r \<and> creation_timestamp_ms b = uid_creation_timestamp_ms i
              \<and> sequence_number b = uid_sequence_number i)))"

definition bundle_is_equal :: "bundle_t \<Rightarrow> bundle_unique_identifier \<Rightarrow> fault + bool" where
  "bundle_is_equal b i = bindE (bundle_is_equal_parent b i) (\<lambda>r.
     if \<not> r \<or> fragment_offset b \<noteq> uid_fragment_offset i then Inr False
     else bindE (deref (payload_of b)) (\<lambda>p. Inr (blk_length p = uid_payload_length i)))"

section \<open>Application data units\<close>

definition bundle_adu_init :: "bundle_t \<Rightarrow> alloc_script \<Rightarrow> fault + (bundle_adu \<times> alloc_script)" where
  "bundle_adu_init b as =
    bindE (deref (source b)) (\<lambda>s. bindE (deref (destination b)) (\<lambda>d.
      let (s', as1) = strdup s as; (d', as2) = strdup d as1 in
      Inr (\<lparr>adu_protocol_version = protocol_version b,
            adu_proc_flags = proc_flags b AND NOT BUNDLE_FLAG_IS_FRAGMENT,
            adu_source = s', adu_destination = d', adu_payload = None, adu_length = 0\<rparr>, as2)))"

definition bundle_to_adu :: "bundle_t \<Rightarrow> alloc_script \<Rightarrow> fault + (bundle_adu \<times> bundle_t \<times> alloc_script)" where
  "bundle_to_adu b as = bindE (bundle_adu_init b as) (\<lambda>(adu, as1).
     case payload_block b of
       None \<Rightarrow> Inl NullDeref
     | Some i \<Rightarrow> bindE (deref (payload_of b)) (\<lambda>p.
         Inr (adu\<lparr>adu_payload := blk_data p, adu_length := ucast (blk_length p)\<rparr>,
              b\<lparr>blocks := (blocks b)[i := p\<lparr>blk_data := None, blk_length := 0\<rparr>]\<rparr>, as1)))"

section \<open>Well-formed bundles\<close>

text \<open>A block has its data, as long as it says, and no null endpoint reference.\<close>

definition wf_block :: "bundle_block \<Rightarrow> bool" where
  "wf_block b \<longleftrightarrow> map_option length (blk_data b) = Some (unat (blk_length b)) \<and> None \<notin> set (blk_eid_refs b)"

text \<open>The bundles the rest of the program handles: EIDs present, blocks well-formed, and the payload
  pointer on the first block of the payload type.\<close>

definition wf_bundle :: "bundle_t \<Rightarrow> bool" where
  "wf_bundle b \<longleftrightarrow> source b \<noteq> None \<and> destination b \<noteq> None \<and> list_all wf_block (blocks b)
     \<and> (\<exists>i < length (blocks b). payload_block b = Some i \<and> blk_type (blocks b ! i) = BUNDLE_BLOCK_TYPE_PAYLOAD)"

lemma wf_bundle_payload:
  assumes "wf_bundle b"
  obtains i p where "payload_block b = Some i" "i < length (blocks b)" "blocks b ! i = p"
    "payload_of b = Some p" "blk_type p = BUNDLE_BLOCK_TYPE_PAYLOAD" "wf_block p"
  using assms by (auto simp: wf_bundle_def payload_of_def list_all_length)

section \<open>Copies\<close>

lemma eid_refs_dup_granted:
  "None \<notin> set rs \<Longrightarrow> eid_refs_dup rs acc [] = Inr (rev rs @ acc, [])"
  by (induction rs arbitrary: acc) (auto simp: neq_commute[of None])

definition dup_block :: "bundle_block \<Rightarrow> bundle_block" where
  "dup_block b = b\<lparr>blk_eid_refs := rev (blk_eid_refs b)\<rparr>"

lemma memcpy_whole:
  "wf_block b \<Longrightarrow> \<exists>d. blk_data b = Some d \<and> memcpy_from (blk_data b) 0 (unat (blk_length b)) = Inr d"
  by (auto simp: wf_block_def memcpy_from_def)

lemma bundle_block_dup_granted:
  "wf_block b \<Longrightarrow> bundle_block_dup b [] = Inr (Some (dup_block b), [])"
  using memcpy_whole[of b]
  by (auto simp: bundle_block_dup_def eid_refs_dup_granted wf_block_def dup_block_def)

lemma bundle_block_dup_cases:
  "wf_block b \<Longrightarrow> blk_eid_refs b = [] \<Longrightarrow> \<exists>as' r. bundle_block_dup b as = Inr (r, as') \<and> (r = None \<or> r = Some b)"
  using memcpy_whole[of b] by (auto simp: bundle_block_dup_def)

lemma bundle_block_entry_dup_granted:
  "wf_block b \<Longrightarrow> bundle_block_entry_dup b [] = Inr (Some (dup_block b), [])"
  by (simp add: bundle_block_entry_dup_def bundle_block_dup_granted bundle_block_entry_create_def)

lemma bundle_block_entry_dup_cases:
  "wf_block b \<Longrightarrow> blk_eid_refs b = [] \<Longrightarrow>
   \<exists>as' r. bundle_block_entry_dup b as = Inr (r, as') \<and> (r = None \<or> r = Some b)"
  using bundle_block_dup_cases[of b as]
  by (fastforce simp: bundle_block_entry_dup_def bundle_block_entry_create_def)

lemma bundle_block_list_dup_loop_granted:
  "list_all wf_block bs \<Longrightarrow>
   bundle_block_list_dup_loop bs dup [] = Inr (Some (dup @ map dup_block bs), [])"
  by (induction bs arbitrary: dup) (auto simp: bundle_block_entry_dup_granted)

lemma bundle_block_list_dup_loop_cases:
  "list_all wf_block bs \<Longrightarrow> list_all (\<lambda>b. blk_eid_refs b = []) bs \<Longrightarrow>
   \<exists>as' r. bundle_block_list_dup_loop bs dup as = Inr (r, as') \<and> (r = None \<or> r = Some (dup @ bs))"
proof (induction bs arbitrary: dup as)
  case (Cons b bs)
  obtain as' r where "bundle_block_entry_dup b as = Inr (r, as')" "r = None \<or> r = Some b"
    using bundle_block_entry_dup_cases[of b as] Cons.prems by auto
  then show ?case using Cons.IH[of "dup @ [b]" as'] Cons.prems by auto
qed simp

lemma dup_block_id [simp]: "blk_eid_refs b = [] \<Longrightarrow> dup_block b = b"
  by (simp add: dup_block_def)

lemma blk_type_dup_block [simp]: "blk_type (dup_block b) = blk_type b"
  by (simp add: dup_block_def)

text \<open>
  Copying a block list: when the allocator grants every request the copy has the same
  blocks in the same order, with the endpoint references of each block in reverse order; for
  blocks without endpoint references, under every pattern of allocation failures, the copy is
  complete and equal or the call returns \<^verbatim>\<open>NULL\<close>, and it never faults.
\<close>

lemma bundle_block_list_dup_correct:
  assumes "list_all wf_block bs"
  shows "bundle_block_list_dup bs [] = Inr (Some (map dup_block bs), [])
    \<and> (list_all (\<lambda>b. blk_eid_refs b = []) bs \<longrightarrow>
        (\<exists>as' r. bundle_block_list_dup bs as = Inr (r, as') \<and> (r = None \<or> r = Some bs)))"
  using assms bundle_block_list_dup_loop_granted[of bs "[]"] bundle_block_list_dup_loop_cases[of bs "[]" as]
  by (simp add: bundle_block_list_dup_def)

definition sample_block :: bundle_block where
  "sample_block = \<lparr>blk_type = 1, blk_number = 1, blk_flags = 0, blk_length = 2, blk_data = Some [7, 9],
     blk_eid_refs = [], blk_crc_type = BUNDLE_CRC_TYPE_NONE, blk_crc = 0\<rparr>"

lemma wf_sample_block [simp]: "wf_block sample_block" "blk_eid_refs sample_block = []"
  by (simp_all add: wf_block_def sample_block_def)

lemma bundle_block_list_dup_correct_witness:
  "bundle_block_list_dup [sample_block, sample_block] [] = Inr (Some (map dup_block [sample_block, sample_block]), [])
    \<and> (\<exists>as' r. bundle_block_list_dup [sample_block, sample_block] [True, True, False] = Inr (r, as')
           \<and> (r = None \<or> r = Some [sample_block, sample_block]))"
  using bundle_block_list_dup_correct[of "[sample_block, sample_block]" "[True, True, False]"] by simp

lemma dup_find_payload_first:
  assumes "dup_find_payload bs cur = Some r"
  shows "if cur < length bs then blk_type (bs ! cur) = BUNDLE_BLOCK_TYPE_PAYLOAD \<and> r = Some cur else r = None"
  by (rule dup_find_payload.raw_induct[OF _ assms]) (auto split: if_splits)

lemma dup_find_payload_eq:
  "dup_find_payload bs 0 =
    (case bs of [] \<Rightarrow> Some None
     | b # _ \<Rightarrow> if blk_type b = BUNDLE_BLOCK_TYPE_PAYLOAD then Some (Some 0) else None)"
proof (cases bs)
  case Nil
  then show ?thesis by (subst dup_find_payload.simps) simp
next
  case (Cons b bs')
  show ?thesis
  proof (cases "blk_type b = BUNDLE_BLOCK_TYPE_PAYLOAD")
    case True
    then show ?thesis using Cons by (subst dup_find_payload.simps) simp
  next
    case False
    then have "dup_find_payload bs 0 \<noteq> Some r" for r
      using dup_find_payload_first[of bs 0 r] Cons by auto
    then show ?thesis using False Cons by (cases "dup_find_payload bs 0") auto
  qed
qed


definition sample_bundle :: bundle_t where
  "sample_bundle = \<lparr>bundle_id = 0, protocol_version = 7, proc_flags = 0, ret_constraints = 0,
     crc_type = BUNDLE_CRC_TYPE_16, destination = Some ''dtn:b'', source = Some ''dtn:a'',
     report_to = None, current_custodian = None, creation_timestamp_ms = 5000,
     sequence_number = 1, lifetime_ms = 60000, bundle_crc = 0, fragment_offset = 0,
     total_adu_length = 0, primary_block_length = 0, blocks = [sample_block], payload_block = Some 0\<rparr>"

lemma wf_sample_bundle [simp]: "wf_bundle sample_bundle"
  by (simp add: wf_bundle_def sample_bundle_def) (simp add: sample_block_def bundle_block_defs)


section \<open>Identity and expiration\<close>

lemma HAS_FLAG_clear:
  "\<not> HAS_FLAG (x AND NOT g) g" "f AND g = 0 \<Longrightarrow> HAS_FLAG (x AND NOT g) f = HAS_FLAG x f"
proof -
  show "\<not> HAS_FLAG (x AND NOT g) g"
    by (simp add: HAS_FLAG_def and.assoc)
  assume "f AND g = 0"
  then have "\<not> (bit f n \<and> bit g n)" for n
    by (metis bit_and_iff bit_0_eq bot_apply bot_bool_def)
  then have "(x AND NOT g) AND f = x AND f"
    by (intro bit_word_eqI) (auto simp: bit_simps)
  then show "HAS_FLAG (x AND NOT g) f = HAS_FLAG x f"
    by (simp add: HAS_FLAG_def)
qed

lemma bundle_is_equal_parent_wf:
  "source b \<noteq> None \<Longrightarrow> uid_source i \<noteq> None \<Longrightarrow>
   bundle_is_equal_parent b i = Inr (protocol_version b = uid_protocol_version i \<and> source b = uid_source i
     \<and> creation_timestamp_ms b = uid_creation_timestamp_ms i \<and> sequence_number b = uid_sequence_number i)"
  by (auto simp: bundle_is_equal_parent_def strcmp_eq_def)

lemma wf_bundle_source: "wf_bundle b \<Longrightarrow> \<exists>s. source b = Some s"
  by (auto simp: wf_bundle_def)

lemma bundle_is_equal_wf:
  assumes "wf_bundle b" "uid_source i \<noteq> None"
  shows "bundle_is_equal b i = Inr (protocol_version b = uid_protocol_version i \<and> source b = uid_source i
     \<and> creation_timestamp_ms b = uid_creation_timestamp_ms i \<and> sequence_number b = uid_sequence_number i
     \<and> fragment_offset b = uid_fragment_offset i
     \<and> map_option blk_length (payload_of b) = Some (uid_payload_length i))"
proof -
  obtain p where "payload_of b = Some p" by (rule wf_bundle_payload[OF assms(1)])
  then show ?thesis
    using assms(2) wf_bundle_source[OF assms(1)] by (auto simp: bundle_is_equal_def bundle_is_equal_parent_wf)
qed

text \<open>
  The unique identifier of a bundle identifies it: taking it of a well-formed bundle
  succeeds, and another well-formed bundle matches it exactly when the two bundles agree in
  version, source, creation time, sequence number, fragment offset and payload length.
\<close>

theorem unique_identifier_identifies:
  assumes "wf_bundle b" "wf_bundle c"
  shows "\<exists>i. bundle_get_unique_identifier b [] = Inr (i, []) \<and>
    bundle_is_equal c i = Inr (protocol_version c = protocol_version b \<and> source c = source b
      \<and> creation_timestamp_ms c = creation_timestamp_ms b \<and> sequence_number c = sequence_number b
      \<and> fragment_offset c = fragment_offset b
      \<and> map_option blk_length (payload_of c) = map_option blk_length (payload_of b))"
proof -
  obtain s where "source b = Some s" using wf_bundle_source[OF assms(1)] ..
  moreover obtain p where "payload_of b = Some p" by (rule wf_bundle_payload[OF assms(1)])
  ultimately show ?thesis
    using assms(2) by (simp add: bundle_get_unique_identifier_def bundle_is_equal_wf)
qed

theorem unique_identifier_identifies_witness:
  "\<exists>i. bundle_get_unique_identifier sample_bundle [] = Inr (i, []) \<and>
    bundle_is_equal sample_bundle i = Inr (protocol_version sample_bundle = protocol_version sample_bundle
      \<and> source sample_bundle = source sample_bundle
      \<and> creation_timestamp_ms sample_bundle = creation_timestamp_ms sample_bundle
      \<and> sequence_number sample_bundle = sequence_number sample_bundle
      \<and> fragment_offset sample_bundle = fragment_offset sample_bundle
      \<and> map_option blk_length (payload_of sample_bundle) = map_option blk_length (payload_of sample_bundle))"
  by (rule unique_identifier_identifies) simp_all

text \<open>
  Handing the payload to an application moves it: for a well-formed bundle the ADU carries
  the payload bytes and their exact length, source and destination, and the processing flags
  without the fragment flag; the bundle keeps everything but its payload data, which is gone.
\<close>

lemma bundle_to_adu_moves_payload:
  assumes "wf_bundle b"
  shows "\<exists>adu b' d. bundle_to_adu b [] = Inr (adu, b', []) \<and> map_option blk_data (payload_of b) = Some (Some d)
    \<and> adu_payload adu = Some d \<and> unat (adu_length adu) = length d
    \<and> adu_source adu = source b \<and> adu_destination adu = destination b
    \<and> \<not> HAS_FLAG (adu_proc_flags adu) BUNDLE_FLAG_IS_FRAGMENT
    \<and> (\<forall>f. f AND BUNDLE_FLAG_IS_FRAGMENT = 0 \<longrightarrow> HAS_FLAG (adu_proc_flags adu) f = HAS_FLAG (proc_flags b) f)
    \<and> map_option blk_data (payload_of b') = Some None \<and> map_option blk_length (payload_of b') = Some 0
    \<and> b'\<lparr>blocks := blocks b\<rparr> = b \<and> map blk_type (blocks b') = map blk_type (blocks b)"
proof -
  obtain i p where p: "payload_block b = Some i" "i < length (blocks b)" "blocks b ! i = p"
    "payload_of b = Some p" "wf_block p"
    using wf_bundle_payload[OF assms] by metis
  then obtain d where d: "blk_data p = Some d" "length d = unat (blk_length p)"
    by (auto simp: wf_block_def)
  obtain s t where st: "source b = Some s" "destination b = Some t"
    using assms by (auto simp: wf_bundle_def)
  let ?adu = "\<lparr>adu_protocol_version = protocol_version b,
    adu_proc_flags = proc_flags b AND NOT BUNDLE_FLAG_IS_FRAGMENT, adu_source = Some s,
    adu_destination = Some t, adu_payload = Some d, adu_length = ucast (blk_length p)\<rparr>"
  let ?b = "b\<lparr>blocks := (blocks b)[i := p\<lparr>blk_data := None, blk_length := 0\<rparr>]\<rparr>"
  have "bundle_to_adu b [] = Inr (?adu, ?b, [])"
    using p d st by (simp add: bundle_to_adu_def bundle_adu_init_def)
  moreover have "payload_of ?b = Some (p\<lparr>blk_data := None, blk_length := 0\<rparr>)"
    using p by (simp add: payload_of_def)
  moreover have "map blk_type (blocks ?b) = map blk_type (blocks b)"
    using p by (auto simp: map_update list_update_same_conv)
  ultimately show ?thesis
    using p(4) d st HAS_FLAG_clear(1)[of "proc_flags b" BUNDLE_FLAG_IS_FRAGMENT]
      HAS_FLAG_clear(2)[of _ BUNDLE_FLAG_IS_FRAGMENT "proc_flags b"]
    by (intro exI[of _ ?adu] exI[of _ ?b] exI[of _ d]) (simp add: unat_ucast_up)
qed

lemma bundle_to_adu_moves_payload_witness:
  "\<exists>adu b' d. bundle_to_adu sample_bundle [] = Inr (adu, b', [])
    \<and> map_option blk_data (payload_of sample_bundle) = Some (Some d)
    \<and> adu_payload adu = Some d \<and> unat (adu_length adu) = length d
    \<and> adu_source adu = source sample_bundle \<and> adu_destination adu = destination sample_bundle
    \<and> b'\<lparr>blocks := blocks sample_bundle\<rparr> = sample_bundle"
  using bundle_to_adu_moves_payload[OF wf_sample_bundle] by blast

text \<open>
  The expiration time does not wrap as long as the creation time and the lifetime leave
  half a second below the range of 64 bits and a bundle without creation time is judged at a
  clock below half the range: it is the rounded
  creation time, or the clock for a bundle without one, plus the rounded lifetime.
\<close>

lemma expiration_time_no_wrap:
  assumes "unat (creation_timestamp_ms b) + 500 < 2 ^ 64" "unat (lifetime_ms b) + 500 < 2 ^ 64"
    and "unat now < 2 ^ 63"
  shows "unat (bundle_get_expiration_time_s now b) =
    (if creation_timestamp_ms b = 0 then unat now else (unat (creation_timestamp_ms b) + 500) div 1000)
      + (unat (lifetime_ms b) + 500) div 1000"
proof -
  have r: "unat ((x + 500) div 1000 :: u64) = (unat x + 500) div 1000" if "unat x + 500 < 2 ^ 64" for x :: u64
    using that by (simp add: unat_div unat_add_lem[THEN iffD1])
  have b: "(unat x + 500) div 1000 < 2 ^ 62" for x :: u64
    using unsigned_less[of x, where ?'a = nat] by simp
  show ?thesis
    using r[OF assms(1)] r[OF assms(2)] b[of "creation_timestamp_ms b"] b[of "lifetime_ms b"] assms(3)
    by (simp add: bundle_get_expiration_time_s_def unat_add_lem[THEN iffD1])
qed

lemma expiration_time_no_wrap_witness:
  "unat (bundle_get_expiration_time_s 9 sample_bundle) =
    (if creation_timestamp_ms sample_bundle = 0 then unat (9::u64)
     else (unat (creation_timestamp_ms sample_bundle) + 500) div 1000)
      + (unat (lifetime_ms sample_bundle) + 500) div 1000"
  by (rule expiration_time_no_wrap) (simp_all add: sample_bundle_def)

end
