(* ===== verification/Storage.thy ===== *)
theory Storage
  imports Bundle
begin

text \<open>
  The bundle store of \<^verbatim>\<open>components/ud3tn/bundle_storage_manager.c\<close>: an AVL tree of bundles
  keyed by bundle id, with the counter that hands out ids and the number of stored payload bytes.

  A node's two \<^verbatim>\<open>successor\<close> pointers are its two subtrees. The parent pointers are the path from
  a node to the root: a slot \<^verbatim>\<open>struct node **\<close> is a path of frames (innermost first) together
  with the subtree in the slot, and \<^verbatim>\<open>get_parent_fwd_ptr\<close> is the step from a slot to the slot of
  its parent, which puts the subtree back into the first frame. The cached height is stored in
  eight signed bits, as in the source. Bundles are reached by pointers into a heap, since other
  components keep and change them while they are stored. The binary semaphore around every
  operation makes each of them one step.
\<close>

section \<open>Nodes and slots\<close>

type_synonym bundleid_t = u16
type_synonym bptr = nat
type_synonym bundle_heap = "bptr \<Rightarrow> bundle_t option"

datatype storage_node =
  NULL
| Node bundleid_t bptr int storage_node storage_node

datatype frame =
  InLeft bundleid_t bptr int storage_node
| InRight bundleid_t bptr int storage_node

fun fill :: "frame \<Rightarrow> storage_node \<Rightarrow> storage_node" where
  "fill (InLeft k b h r) t = Node k b h t r"
| "fill (InRight k b h l) t = Node k b h l t"

fun root_of :: "frame list \<Rightarrow> storage_node \<Rightarrow> storage_node" where
  "root_of [] t = t"
| "root_of (f # fs) t = root_of fs (fill f t)"

definition int8 :: "int \<Rightarrow> int" where
  "int8 x = (x + 128) mod 256 - 128"

fun height :: "storage_node \<Rightarrow> int" where
  "height NULL = 0"
| "height (Node k b h l r) = h"

fun get_balance :: "storage_node \<Rightarrow> int" where
  "get_balance NULL = 0"
| "get_balance (Node k b h l r) = height l - height r"

definition recalc_height :: "bundleid_t \<Rightarrow> bptr \<Rightarrow> storage_node \<Rightarrow> storage_node \<Rightarrow> storage_node" where
  "recalc_height k b l r = Node k b (int8 (1 + max (height l) (height r))) l r"

definition create_node :: "bundleid_t \<Rightarrow> bptr \<Rightarrow> alloc_script \<Rightarrow> storage_node \<times> alloc_script" where
  "create_node k b as = (if malloc_ok as then Node k b 1 NULL NULL else NULL, malloc_rest as)"

section \<open>Rotation and rebalancing\<close>

fun rotate_right :: "storage_node \<Rightarrow> fault + storage_node" where
  "rotate_right (Node k b h (Node k' b' h' t1 t2) r) = Inr (recalc_height k' b' t1 (recalc_height k b t2 r))"
| "rotate_right _ = Inl AssertFailed"

fun rotate_left :: "storage_node \<Rightarrow> fault + storage_node" where
  "rotate_left (Node k b h l (Node k' b' h' t2 t3)) = Inr (recalc_height k' b' (recalc_height k b l t2) t3)"
| "rotate_left _ = Inl AssertFailed"

text \<open>One round of the loop of \<^verbatim>\<open>rebalance_from_nodeptr\<close> on the node in the slot.\<close>

fun rebalance_node :: "storage_node \<Rightarrow> fault + storage_node" where
  "rebalance_node NULL = Inr NULL"
| "rebalance_node (Node k b h l r) =
    (let n = recalc_height k b l r; balance = get_balance n in
     if \<not> (-2 \<le> balance \<and> balance \<le> 2) then Inl AssertFailed
     else bindE
       (if balance = -2 then
          bindE (if get_balance r > 0 then rotate_right r else Inr r)
            (\<lambda>r'. rotate_left (Node k b (height n) l r'))
        else if balance = 2 then
          bindE (if get_balance l < 0 then rotate_left l else Inr l)
            (\<lambda>l'. rotate_right (Node k b (height n) l' r))
        else Inr n)
       (\<lambda>n'. if -1 \<le> get_balance n' \<and> get_balance n' \<le> 1 then Inr n' else Inl AssertFailed))"

fun rebalance_from_nodeptr :: "frame list \<Rightarrow> storage_node \<Rightarrow> fault + storage_node" where
  "rebalance_from_nodeptr fs NULL = Inr (root_of fs NULL)"
| "rebalance_from_nodeptr [] (Node k b h l r) = rebalance_node (Node k b h l r)"
| "rebalance_from_nodeptr (f # fs) (Node k b h l r) =
    bindE (rebalance_node (Node k b h l r)) (\<lambda>n. rebalance_from_nodeptr fs (fill f n))"

section \<open>Searching\<close>

text \<open>
  \<^verbatim>\<open>find_nodeptr\<close>: the slot of the node with the id, or with \<open>ins\<close> the slot of the node
  a new one is to be hung under.
\<close>

fun find_slot :: "bundleid_t \<Rightarrow> bool \<Rightarrow> frame list \<Rightarrow> storage_node \<Rightarrow> (frame list \<times> storage_node) option" where
  "find_slot k ins fs NULL = None"
| "find_slot k ins fs (Node k' b h l r) =
    (if k < k' then
       (case l of NULL \<Rightarrow> if ins then Some (fs, Node k' b h l r) else None
        | Node _ _ _ _ _ \<Rightarrow> find_slot k ins (InLeft k' b h r # fs) l)
     else if k > k' then
       (case r of NULL \<Rightarrow> if ins then Some (fs, Node k' b h l r) else None
        | Node _ _ _ _ _ \<Rightarrow> find_slot k ins (InRight k' b h l # fs) r)
     else Some (fs, Node k' b h l r))"

definition find_nodeptr :: "bundleid_t \<Rightarrow> bool \<Rightarrow> storage_node \<Rightarrow> (frame list \<times> storage_node) option" where
  "find_nodeptr k ins tree = find_slot k ins [] tree"

section \<open>Insertion and deletion\<close>

text \<open>\<^verbatim>\<open>add_node\<close>: whether a node was added, and the new tree.\<close>

definition add_node ::
  "bundleid_t \<Rightarrow> bptr \<Rightarrow> storage_node \<Rightarrow> alloc_script \<Rightarrow> fault + (bool \<times> storage_node \<times> alloc_script)" where
  "add_node k b tree as =
    (if tree = NULL then
       (let (n, as') = create_node k b as in Inr (n \<noteq> NULL, n, as'))
     else (case find_nodeptr k True tree of
       None \<Rightarrow> Inl NullDeref
     | Some (fs, NULL) \<Rightarrow> Inl AssertFailed
     | Some (fs, Node k' b' h l r) \<Rightarrow>
         (let (new, as') = create_node k b as in
          if new = NULL then Inr (False, tree, as')
          else if k \<le> k' then
            (if l \<noteq> NULL then Inl AssertFailed
             else bindE (rebalance_from_nodeptr fs (Node k' b' h new r)) (\<lambda>t. Inr (True, t, as')))
          else
            (if r \<noteq> NULL then Inl AssertFailed
             else bindE (rebalance_from_nodeptr fs (Node k' b' h l new)) (\<lambda>t. Inr (True, t, as'))))))"

text \<open>The walks to the rightmost and to the leftmost node of a subtree, with the frames passed.\<close>

fun rightmost :: "frame list \<Rightarrow> storage_node \<Rightarrow> frame list \<times> storage_node" where
  "rightmost fs NULL = (fs, NULL)"
| "rightmost fs (Node k b h l r) =
    (case r of NULL \<Rightarrow> (fs, Node k b h l r)
     | Node _ _ _ _ _ \<Rightarrow> rightmost (InRight k b h l # fs) r)"

fun leftmost :: "frame list \<Rightarrow> storage_node \<Rightarrow> frame list \<times> storage_node" where
  "leftmost fs NULL = (fs, NULL)"
| "leftmost fs (Node k b h l r) =
    (case l of NULL \<Rightarrow> (fs, Node k b h l r)
     | Node _ _ _ _ _ \<Rightarrow> leftmost (InLeft k b h r # fs) l)"

text \<open>\<^verbatim>\<open>recalc_height(replacement->parent)\<close> after the replacement has been cut out below it.\<close>

fun refit :: "frame \<Rightarrow> storage_node \<Rightarrow> storage_node" where
  "refit (InLeft k b h r) t = recalc_height k b t r"
| "refit (InRight k b h l) t = recalc_height k b l t"

text \<open>
  \<^verbatim>\<open>delete_node_at_ptr\<close> on the slot \<open>fs\<close> of the node to delete: the new tree. A leaf is
  removed and the tree rebalanced from its parent; an only child takes the place of its parent;
  with two children the in-order neighbour from the higher side takes the place, and the tree is
  rebalanced from where that neighbour was cut out.
\<close>

definition delete_node_at_ptr :: "frame list \<Rightarrow> storage_node \<Rightarrow> fault + storage_node" where
  "delete_node_at_ptr fs del = (case del of
     NULL \<Rightarrow> Inl NullDeref
   | Node k b h NULL NULL \<Rightarrow>
       (case fs of [] \<Rightarrow> Inr NULL | f # fs' \<Rightarrow> rebalance_from_nodeptr fs' (fill f NULL))
   | Node k b h l NULL \<Rightarrow> rebalance_from_nodeptr fs l
   | Node k b h NULL r \<Rightarrow> rebalance_from_nodeptr fs r
   | Node k b h l r \<Rightarrow>
       (if height l \<ge> height r then
          (case rightmost [] l of
             (_, NULL) \<Rightarrow> Inl NullDeref
           | ([], Node k' b' h' l' r') \<Rightarrow> rebalance_from_nodeptr fs (Node k' b' h' l' r)
           | (f # gs, Node k' b' h' l' r') \<Rightarrow>
               rebalance_from_nodeptr (gs @ InLeft k' b' h' r # fs) (refit f l'))
        else
          (case leftmost [] r of
             (_, NULL) \<Rightarrow> Inl NullDeref
           | ([], Node k' b' h' l' r') \<Rightarrow> rebalance_from_nodeptr fs (Node k' b' h' l r')
           | (f # gs, Node k' b' h' l' r') \<Rightarrow>
               rebalance_from_nodeptr (gs @ InRight k' b' h' l # fs) (refit f r'))))"

section \<open>The store\<close>

record storage =
  storage_tree :: storage_node
  next_id :: bundleid_t
  bundle_bytes :: u32

definition storage_init :: storage where
  "storage_init = \<lparr>storage_tree = NULL, next_id = BUNDLE_INVALID_ID + 1, bundle_bytes = 0\<rparr>"

text \<open>
  The search for a free id: \<open>id\<close> is the candidate and \<open>nxt\<close> the value of \<^verbatim>\<open>next_id\<close>. With
  all 65535 ids in use the loop does not end: the value is \<^term>\<open>None\<close>.
\<close>

partial_function (option) find_free_id ::
  "storage_node \<Rightarrow> bundleid_t \<Rightarrow> bundleid_t \<Rightarrow> (bundleid_t \<times> bundleid_t) option" where
  [code]: "find_free_id tree i nxt =
    (if i = BUNDLE_INVALID_ID \<or> find_nodeptr i False tree \<noteq> None
     then find_free_id tree nxt (nxt + 1) else Some (i, nxt))"

definition heap_read :: "bundle_heap \<Rightarrow> bptr \<Rightarrow> fault + bundle_t" where
  "heap_read hp p = (case hp p of None \<Rightarrow> Inl UseAfterFree | Some b \<Rightarrow> Inr b)"

definition payload_bytes :: "bundle_t \<Rightarrow> u32" where
  "payload_bytes b = (case payload_of b of None \<Rightarrow> 0 | Some p \<Rightarrow> blk_length p)"

text \<open>The outer \<^term>\<open>None\<close> is a call that does not return.\<close>

definition bundle_storage_add ::
  "bptr \<Rightarrow> bundle_heap \<Rightarrow> storage \<Rightarrow> alloc_script
    \<Rightarrow> (fault + (bundleid_t \<times> bundle_heap \<times> storage \<times> alloc_script)) option" where
  "bundle_storage_add p hp st as = (case heap_read hp p of
     Inl e \<Rightarrow> Some (Inl e)
   | Inr b \<Rightarrow>
      (if bundle_id b \<noteq> BUNDLE_INVALID_ID then Some (Inl AssertFailed) else
       case find_free_id (storage_tree st) (next_id st) (next_id st + 1) of
         None \<Rightarrow> None
       | Some (i, nxt) \<Rightarrow> Some (bindE (add_node i p (storage_tree st) as) (\<lambda>(added, tree, as').
           if added then
             Inr (i, hp(p \<mapsto> b\<lparr>bundle_id := i\<rparr>),
                  st\<lparr>storage_tree := tree, next_id := nxt, bundle_bytes := bundle_bytes st + payload_bytes b\<rparr>, as')
           else Inr (BUNDLE_INVALID_ID, hp, st\<lparr>storage_tree := tree, next_id := nxt\<rparr>, as')))))"

definition bundle_storage_contains :: "bundleid_t \<Rightarrow> storage \<Rightarrow> bool" where
  "bundle_storage_contains i st \<longleftrightarrow>
     i \<noteq> BUNDLE_INVALID_ID \<and> find_nodeptr i False (storage_tree st) \<noteq> None"

definition bundle_storage_get :: "bundleid_t \<Rightarrow> storage \<Rightarrow> bptr option" where
  "bundle_storage_get i st =
    (if i = BUNDLE_INVALID_ID then None
     else case find_nodeptr i False (storage_tree st) of
       Some (fs, Node k b h l r) \<Rightarrow> Some b
     | _ \<Rightarrow> None)"

definition bundle_storage_delete ::
  "bundleid_t \<Rightarrow> bundle_heap \<Rightarrow> storage \<Rightarrow> fault + (bool \<times> storage)" where
  "bundle_storage_delete i hp st =
    (if i = BUNDLE_INVALID_ID then Inr (False, st)
     else case find_nodeptr i False (storage_tree st) of
       None \<Rightarrow> Inr (False, st)
     | Some (fs, NULL) \<Rightarrow> Inl NullDeref
     | Some (fs, Node k p h l r) \<Rightarrow>
         bindE (heap_read hp p) (\<lambda>b.
           if bundle_bytes st < payload_bytes b then Inl AssertFailed
           else bindE (delete_node_at_ptr fs (Node k p h l r)) (\<lambda>tree.
             Inr (True, st\<lparr>storage_tree := tree, bundle_bytes := bundle_bytes st - payload_bytes b\<rparr>))))"

text \<open>Persistent storage is disabled in the source: the call looks the id up and reports failure.\<close>

definition bundle_storage_persist :: "bundleid_t \<Rightarrow> storage \<Rightarrow> bool" where
  "bundle_storage_persist i st = False"

definition bundle_storage_get_usage :: "storage \<Rightarrow> u32" where
  "bundle_storage_get_usage st = bundle_bytes st"

definition bundle_storage_get_next_id :: "storage \<Rightarrow> bundleid_t" where
  "bundle_storage_get_next_id st = next_id st"

section \<open>AVL trees with paths\<close>

fun ht :: "storage_node \<Rightarrow> nat" where
  "ht NULL = 0"
| "ht (Node k b h l r) = 1 + max (ht l) (ht r)"

fun entries :: "storage_node \<Rightarrow> (bundleid_t \<times> bptr) list" where
  "entries NULL = []"
| "entries (Node k b h l r) = entries l @ (k, b) # entries r"

text \<open>Balanced everywhere, with every cached height the real one.\<close>

fun avl :: "storage_node \<Rightarrow> bool" where
  "avl NULL \<longleftrightarrow> True"
| "avl (Node k b h l r) \<longleftrightarrow> avl l \<and> avl r \<and> ht l \<le> ht r + 1 \<and> ht r \<le> ht l + 1 \<and> h = 1 + max (int (ht l)) (int (ht r))"

text \<open>
  A path that makes a balanced tree with every balanced subtree of height \<open>h\<close> in its slot. The
  bound on the whole height keeps the cached heights within eight bits.
\<close>

fun path_ok :: "frame list \<Rightarrow> nat \<Rightarrow> bool" where
  "path_ok [] h \<longleftrightarrow> h \<le> 100"
| "path_ok (InLeft k b c r # fs) h \<longleftrightarrow> avl r \<and> h \<le> ht r + 1 \<and> ht r \<le> h + 1 \<and> path_ok fs (1 + max h (ht r))"
| "path_ok (InRight k b c l # fs) h \<longleftrightarrow> avl l \<and> h \<le> ht l + 1 \<and> ht l \<le> h + 1 \<and> path_ok fs (1 + max (ht l) h)"

fun lctx :: "frame list \<Rightarrow> (bundleid_t \<times> bptr) list" where
  "lctx [] = []"
| "lctx (InLeft k b c r # fs) = lctx fs"
| "lctx (InRight k b c l # fs) = lctx fs @ entries l @ [(k, b)]"

fun rctx :: "frame list \<Rightarrow> (bundleid_t \<times> bptr) list" where
  "rctx [] = []"
| "rctx (InLeft k b c r # fs) = (k, b) # entries r @ rctx fs"
| "rctx (InRight k b c l # fs) = rctx fs"

lemma entries_root_of: "entries (root_of fs t) = lctx fs @ entries t @ rctx fs"
proof (induction fs arbitrary: t)
  case (Cons f fs)
  then show ?case by (cases f) auto
qed simp

lemma ctx_append: "lctx (gs @ fs) = lctx fs @ lctx gs \<and> rctx (gs @ fs) = rctx gs @ rctx fs"
proof (induction gs)
  case (Cons g gs)
  then show ?case by (cases g) auto
qed simp

lemma root_of_append: "root_of (gs @ fs) t = root_of fs (root_of gs t)"
  by (induction gs arbitrary: t) auto

lemma height_avl [simp]: "avl t \<Longrightarrow> height t = int (ht t)"
  by (cases t) auto

lemma ht_0_iff [simp]: "ht t = 0 \<longleftrightarrow> t = NULL"
  by (cases t) auto

lemma int8_small [simp]: "-128 \<le> x \<Longrightarrow> x \<le> 127 \<Longrightarrow> int8 x = x"
  by (simp add: int8_def)

lemma path_ok_le: "path_ok fs h \<Longrightarrow> h \<le> 100"
proof (induction fs arbitrary: h)
  case (Cons f fs)
  then show ?case by (cases f) fastforce+
qed simp

lemma avl_fill: "avl (fill f t) \<Longrightarrow> path_ok fs (ht (fill f t)) \<Longrightarrow> avl t \<and> path_ok (f # fs) (ht t)"
  by (cases f) auto

lemma avl_root_of:
  "avl (root_of gs t) \<Longrightarrow> path_ok fs (ht (root_of gs t)) \<Longrightarrow> avl t \<and> path_ok (gs @ fs) (ht t)"
proof (induction gs arbitrary: t)
  case (Cons g gs)
  then have "avl (fill g t)" "path_ok (gs @ fs) (ht (fill g t))" by auto
  then show ?case using avl_fill[of g t "gs @ fs"] by simp
qed simp

section \<open>Rebalancing keeps the entries and restores the balance\<close>

lemma recalc_avl:
  "avl l \<Longrightarrow> avl r \<Longrightarrow> ht l \<le> 110 \<Longrightarrow> ht r \<le> 110 \<Longrightarrow>
   recalc_height k b l r = Node k b (1 + max (int (ht l)) (int (ht r))) l r"
  by (simp add: recalc_height_def)

lemma entries_recalc [simp]: "entries (recalc_height k b l r) = entries l @ (k, b) # entries r"
  and ht_recalc [simp]: "ht (recalc_height k b l r) = 1 + max (ht l) (ht r)"
  by (simp_all add: recalc_height_def)

lemma rebalance_node_balanced:
  assumes "avl l" "avl r" "ht l \<le> ht r + 1" "ht r \<le> ht l + 1" "ht l \<le> 105" "ht r \<le> 105"
  shows "rebalance_node (Node k b h l r) = Inr (Node k b (1 + max (int (ht l)) (int (ht r))) l r)"
  using assms by (auto simp: recalc_avl Let_def)

lemma rebalance_node_right_high:
  assumes "avl l" "avl r" "ht r = ht l + 2" "ht r \<le> 105"
  shows "\<exists>n. rebalance_node (Node k b h l r) = Inr n \<and> avl n \<and> entries n = entries l @ (k, b) # entries r
    \<and> (ht n = ht r \<or> ht n = ht r + 1)"
proof -
  obtain k' b' h' rl rr where r: "r = Node k' b' h' rl rr" using assms(3) by (cases r) auto
  show ?thesis
  proof (cases "ht rl > ht rr")
    case True
    then obtain k2 b2 h2 x y where rl: "rl = Node k2 b2 h2 x y" by (cases rl) auto
    show ?thesis using assms True unfolding r rl by (auto simp: recalc_avl Let_def)
  next
    case False
    then show ?thesis using assms unfolding r by (auto simp: recalc_avl Let_def)
  qed
qed

lemma rebalance_node_left_high:
  assumes "avl l" "avl r" "ht l = ht r + 2" "ht l \<le> 105"
  shows "\<exists>n. rebalance_node (Node k b h l r) = Inr n \<and> avl n \<and> entries n = entries l @ (k, b) # entries r
    \<and> (ht n = ht l \<or> ht n = ht l + 1)"
proof -
  obtain k' b' h' ll lr where l: "l = Node k' b' h' ll lr" using assms(3) by (cases l) auto
  show ?thesis
  proof (cases "ht lr > ht ll")
    case True
    then obtain k2 b2 h2 x y where lr: "lr = Node k2 b2 h2 x y" by (cases lr) auto
    show ?thesis using assms True unfolding l lr by (auto simp: recalc_avl Let_def)
  next
    case False
    then show ?thesis using assms unfolding l by (auto simp: recalc_avl Let_def)
  qed
qed

lemma rebalance_node_step:
  assumes "avl l" "avl r" "ht l \<le> ht r + 2" "ht r \<le> ht l + 2" "ht l \<le> 105" "ht r \<le> 105"
  shows "\<exists>n. rebalance_node (Node k b h l r) = Inr n \<and> avl n \<and> entries n = entries l @ (k, b) # entries r
    \<and> (if ht l \<le> ht r + 1 \<and> ht r \<le> ht l + 1 then ht n = 1 + max (ht l) (ht r)
       else ht n = max (ht l) (ht r) \<or> ht n = 1 + max (ht l) (ht r))"
proof -
  consider "ht l \<le> ht r + 1" "ht r \<le> ht l + 1" | "ht r = ht l + 2" | "ht l = ht r + 2"
    using assms by linarith
  then show ?thesis
  proof cases
    case 1
    then show ?thesis using assms rebalance_node_balanced[of l r k b h] by auto
  next
    case 2
    then show ?thesis using assms rebalance_node_right_high[of l r k b h] by auto
  next
    case 3
    then show ?thesis using assms rebalance_node_left_high[of l r k b h] by auto
  qed
qed

text \<open>Putting a subtree into a slot and rebalancing from the parent of the slot upwards.\<close>

fun climb :: "frame list \<Rightarrow> storage_node \<Rightarrow> fault + storage_node" where
  "climb [] t = Inr t"
| "climb (f # fs) t = bindE (rebalance_node (fill f t)) (climb fs)"

lemma fill_Node: "\<exists>k b h l r. fill f t = Node k b h l r"
  by (cases f) auto

lemma rebalance_from_climb: "rebalance_from_nodeptr fs (fill f t) = climb (f # fs) t"
proof (induction fs arbitrary: f t)
  case Nil
  obtain k b h l r where "fill f t = Node k b h l r" using fill_Node by blast
  then show ?case by (cases "rebalance_node (fill f t)") auto
next
  case (Cons g fs)
  obtain k b h l r where "fill f t = Node k b h l r" using fill_Node by blast
  then show ?case using Cons by (cases "rebalance_node (fill f t)") (auto simp del: climb.simps simp: climb.simps(2)[of f])
qed

lemma rebalance_from_Node:
  "rebalance_from_nodeptr fs (Node k b h l r) = bindE (rebalance_node (Node k b h l r)) (climb fs)"
proof (cases fs)
  case Nil
  then show ?thesis by (cases "rebalance_node (Node k b h l r)") auto
next
  case (Cons g gs)
  then show ?thesis by (simp add: rebalance_from_climb del: climb.simps rebalance_node.simps)
qed

lemma climb_balanced:
  assumes "path_ok fs h" "avl t" "ht t \<le> h + 1" "h \<le> ht t + 1"
  shows "\<exists>t'. climb fs t = Inr t' \<and> avl t' \<and> entries t' = lctx fs @ entries t @ rctx fs"
  using assms
proof (induction fs arbitrary: h t)
  case (Cons f fs)
  have h: "h \<le> 100" using path_ok_le[OF Cons.prems(1)] .
  show ?case
  proof (cases f)
    case (InLeft k b c r)
    have r: "avl r" "h \<le> ht r + 1" "ht r \<le> h + 1" "path_ok fs (1 + max h (ht r))"
      using Cons.prems(1) InLeft by auto
    then obtain n where n: "rebalance_node (fill f t) = Inr n" "avl n" "entries n = entries t @ (k, b) # entries r"
      "if ht t \<le> ht r + 1 \<and> ht r \<le> ht t + 1 then ht n = 1 + max (ht t) (ht r)
       else ht n = max (ht t) (ht r) \<or> ht n = 1 + max (ht t) (ht r)"
      using rebalance_node_step[of t r k b c] Cons.prems h InLeft by auto
    have "ht n \<le> (1 + max h (ht r)) + 1" "1 + max h (ht r) \<le> ht n + 1"
      using n(4) r Cons.prems by (auto split: if_splits)
    then show ?thesis using Cons.IH[OF r(4) n(2)] n(1,3) InLeft by (auto simp del: rebalance_node.simps)
  next
    case (InRight k b c l)
    have l: "avl l" "h \<le> ht l + 1" "ht l \<le> h + 1" "path_ok fs (1 + max (ht l) h)"
      using Cons.prems(1) InRight by auto
    then obtain n where n: "rebalance_node (fill f t) = Inr n" "avl n" "entries n = entries l @ (k, b) # entries t"
      "if ht l \<le> ht t + 1 \<and> ht t \<le> ht l + 1 then ht n = 1 + max (ht l) (ht t)
       else ht n = max (ht l) (ht t) \<or> ht n = 1 + max (ht l) (ht t)"
      using rebalance_node_step[of l t k b c] Cons.prems h InRight by auto
    have "ht n \<le> (1 + max (ht l) h) + 1" "1 + max (ht l) h \<le> ht n + 1"
      using n(4) l Cons.prems by (auto split: if_splits)
    then show ?thesis using Cons.IH[OF l(4) n(2)] n(1,3) InRight by (auto simp del: rebalance_node.simps)
  qed
qed simp

section \<open>Search\<close>

abbreviation keys :: "storage_node \<Rightarrow> bundleid_t list" where
  "keys t \<equiv> map fst (entries t)"

definition bst :: "storage_node \<Rightarrow> bool" where
  "bst t \<longleftrightarrow> sorted_wrt (<) (keys t)"

lemma bst_Node: "bst (Node k b h l r) \<longleftrightarrow> bst l \<and> bst r \<and> (\<forall>x \<in> set (keys l). x < k) \<and> (\<forall>x \<in> set (keys r). k < x)"
  by (auto simp: bst_def sorted_wrt_append dest: order_less_trans)

lemma bst_distinct: "bst t \<Longrightarrow> distinct (keys t)"
  unfolding bst_def by (metis strict_sorted_iff)

lemma find_slot_found:
  "find_slot k False fs t = Some (gs, n) \<Longrightarrow>
   root_of gs n = root_of fs t \<and> (\<exists>b h l r. n = Node k b h l r)"
proof (induction k False fs t rule: find_slot.induct)
  case (2 k fs k' b h l r)
  then show ?case by (auto split: if_splits storage_node.splits)
qed simp

lemma find_slot_iff:
  "bst t \<Longrightarrow> (\<exists>s. find_slot k False fs t = Some s) \<longleftrightarrow> k \<in> set (keys t)"
proof (induction k False fs t rule: find_slot.induct)
  case (2 k fs k' b h l r)
  have b: "bst l" "bst r" "\<forall>x \<in> set (keys l). x < k'" "\<forall>x \<in> set (keys r). k' < x"
    using 2(3) by (auto simp: bst_Node)
  consider "k < k'" | "k' < k" | "k = k'" by fastforce
  then show ?case
  proof cases
    case 1
    then have "k \<notin> set (keys r)" using b(4) by force
    then show ?thesis using 1 2(1)[OF 1 _ b(1)] by (cases l) auto
  next
    case c: 2
    then have "k \<notin> set (keys l)" "\<not> k < k'" using b(3) by force+
    then show ?thesis using c "2.hyps"(2)[OF _ c _ b(2)] by (cases r) auto
  qed simp
qed simp

lemma find_slot_insert:
  "bst t \<Longrightarrow> t \<noteq> NULL \<Longrightarrow> k \<notin> set (keys t) \<Longrightarrow>
   \<forall>x \<in> fst ` set (lctx fs). x < k \<Longrightarrow> \<forall>x \<in> fst ` set (rctx fs). k < x \<Longrightarrow>
   \<exists>gs k' b h l r. find_slot k True fs t = Some (gs, Node k' b h l r) \<and> root_of gs (Node k' b h l r) = root_of fs t
     \<and> (k < k' \<and> l = NULL \<or> k' < k \<and> r = NULL)
     \<and> (\<forall>x \<in> fst ` set (lctx gs). x < k) \<and> (\<forall>x \<in> fst ` set (rctx gs). k < x)"
proof (induction k True fs t rule: find_slot.induct)
  case (2 k fs k' b h l r)
  have b: "bst l" "bst r" "\<forall>x \<in> set (keys l). x < k'" "\<forall>x \<in> set (keys r). k' < x"
    using 2(3) by (auto simp: bst_Node)
  consider "k < k'" | "k' < k" using 2(5) by fastforce
  then show ?case
  proof cases
    case 1
    show ?thesis
    proof (cases l)
      case NULL
      then show ?thesis using 1 2(6,7) by auto
    next
      case (Node x1 x2 x3 x4 x5)
      have "\<forall>x \<in> fst ` set (rctx (InLeft k' b h r # fs)). k < x"
        using 1 2(7) b(4) by auto
      then show ?thesis using 2(1)[OF 1 Node b(1)] 1 2(5,6) Node by auto
    qed
  next
    case 2
    note c = 2
    show ?thesis
    proof (cases r)
      case NULL
      then show ?thesis using c "2.prems"(4,5) by auto
    next
      case (Node x1 x2 x3 x4 x5)
      have "\<forall>x \<in> fst ` set (lctx (InRight k' b h l # fs)). x < k"
        using c "2.prems"(4) b(3) by auto
      then show ?thesis using "2.hyps"(2)[OF _ c Node b(2)] c "2.prems"(3,5) Node by auto
    qed
  qed
qed simp

section \<open>Insertion and deletion\<close>

lemma add_node_correct:
  assumes "avl t" "bst t" "ht t \<le> 100" "k \<notin> set (keys t)"
  shows "\<exists>t'. add_node k p t as = Inr (malloc_ok as, t', malloc_rest as)
    \<and> (if malloc_ok as then avl t' \<and> bst t' \<and> set (entries t') = insert (k, p) (set (entries t)) \<and>
         (\<exists>xs ys. entries t = xs @ ys \<and> entries t' = xs @ (k, p) # ys)
       else t' = t)"
proof (cases "t = NULL")
  case True
  then show ?thesis by (auto simp: add_node_def create_node_def bst_def)
next
  case False
  obtain gs k' b h l r where s: "find_nodeptr k True t = Some (gs, Node k' b h l r)"
    "root_of gs (Node k' b h l r) = t" "k < k' \<and> l = NULL \<or> k' < k \<and> r = NULL"
    "\<forall>x \<in> fst ` set (lctx gs). x < k" "\<forall>x \<in> fst ` set (rctx gs). k < x"
    using find_slot_insert[of t k "[]"] False assms by (auto simp: find_nodeptr_def)
  have p: "avl (Node k' b h l r)" "path_ok gs (ht (Node k' b h l r))"
    using avl_root_of[of gs "Node k' b h l r" "[]"] s(2) assms by auto
  have e: "entries t = lctx gs @ entries l @ (k', b) # entries r @ rctx gs"
    using s(2) entries_root_of[of gs "Node k' b h l r"] by simp
  show ?thesis
  proof (cases "malloc_ok as")
    case False
    then show ?thesis using s \<open>t \<noteq> NULL\<close> by (simp add: add_node_def create_node_def)
  next
    case ok: True
    let ?n = "Node k p 1 NULL NULL"
    show ?thesis
    proof (cases "k < k'")
      case True
      then have l: "l = NULL" using s(3) by auto
      have "path_ok (InLeft k' b h r # gs) 0" using p l by auto
      then obtain t' where t': "climb (InLeft k' b h r # gs) ?n = Inr t'" "avl t'"
        "entries t' = lctx gs @ (k, p) # (k', b) # entries r @ rctx gs"
        using climb_balanced[of "InLeft k' b h r # gs" 0 ?n] by auto
      moreover have "add_node k p t as = Inr (True, t', malloc_rest as)"
        using s(1) ok True less_imp_le[OF True] l t'(1) rebalance_from_climb[of gs "InLeft k' b h r" ?n] \<open>t \<noteq> NULL\<close>
        by (simp add: add_node_def create_node_def del: climb.simps rebalance_node.simps)
      moreover have "bst t'"
        using assms(2) s(4,5) True unfolding bst_def t'(3) e l
        by (auto simp: sorted_wrt_append ball_Un intro: order_less_trans[OF True])
      ultimately show ?thesis using ok e l by auto
    next
      case False
      then have r: "r = NULL" "k' < k" "\<not> k \<le> k'" using s(3) by auto
      have "path_ok (InRight k' b h l # gs) 0" using p r by auto
      then obtain t' where t': "climb (InRight k' b h l # gs) ?n = Inr t'" "avl t'"
        "entries t' = lctx gs @ entries l @ (k', b) # (k, p) # rctx gs"
        using climb_balanced[of "InRight k' b h l # gs" 0 ?n] by auto
      moreover have "add_node k p t as = Inr (True, t', malloc_rest as)"
        using s(1) ok r t'(1) rebalance_from_climb[of gs "InRight k' b h l" ?n] \<open>t \<noteq> NULL\<close>
        by (simp add: add_node_def create_node_def del: climb.simps rebalance_node.simps)
      moreover have "bst t'"
        using assms(2) s(4,5) r unfolding bst_def t'(3) e
        by (auto simp: sorted_wrt_append ball_Un intro: order_less_trans[OF _ r(2)])
      moreover have "\<exists>xs ys. entries t = xs @ ys \<and> entries t' = xs @ (k, p) # ys"
        by (rule exI[of _ "lctx gs @ entries l @ [(k', b)]"], rule exI[of _ "rctx gs"]) (simp add: e r t'(3))
      ultimately show ?thesis using ok e r by (intro exI[of _ t']) (auto simp del: climb.simps)
    qed
  qed
qed

lemma rightmost_spec:
  "t \<noteq> NULL \<Longrightarrow> \<exists>gs k b h l. rightmost fs t = (gs @ fs, Node k b h l NULL) \<and> root_of gs (Node k b h l NULL) = t
     \<and> rctx gs = []"
proof (induction fs t rule: rightmost.induct)
  case (2 fs k b h l r)
  show ?case
  proof (cases r)
    case NULL
    then show ?thesis by auto
  next
    case (Node k1 b1 h1 l1 r1)
    then obtain gs k2 b2 h2 l2 where *: "rightmost (InRight k b h l # fs) r = (gs @ InRight k b h l # fs, Node k2 b2 h2 l2 NULL)"
       "root_of gs (Node k2 b2 h2 l2 NULL) = r" "rctx gs = []"
      using 2 by blast
    then show ?thesis using Node
      by (intro exI[of _ "gs @ [InRight k b h l]"] exI[of _ k2] exI[of _ b2] exI[of _ h2] exI[of _ l2])
         (simp add: root_of_append ctx_append)
  qed
qed simp

lemma leftmost_spec:
  "t \<noteq> NULL \<Longrightarrow> \<exists>gs k b h r. leftmost fs t = (gs @ fs, Node k b h NULL r) \<and> root_of gs (Node k b h NULL r) = t
     \<and> lctx gs = []"
proof (induction fs t rule: leftmost.induct)
  case (2 fs k b h l r)
  show ?case
  proof (cases l)
    case NULL
    then show ?thesis by auto
  next
    case (Node k1 b1 h1 l1 r1)
    then obtain gs k2 b2 h2 r2 where *: "leftmost (InLeft k b h r # fs) l = (gs @ InLeft k b h r # fs, Node k2 b2 h2 NULL r2)"
       "root_of gs (Node k2 b2 h2 NULL r2) = l" "lctx gs = []"
      using 2 by blast
    then show ?thesis using Node
      by (intro exI[of _ "gs @ [InLeft k b h r]"] exI[of _ k2] exI[of _ b2] exI[of _ h2] exI[of _ r2])
         (simp add: root_of_append ctx_append)
  qed
qed simp

lemma rebalance_node_refit: "rebalance_node (refit f t) = rebalance_node (fill f t)"
  by (cases f) (simp_all add: recalc_height_def)

lemma rebalance_from_refit: "rebalance_from_nodeptr fs (refit f t) = climb (f # fs) t"
proof -
  obtain k b h l r where "refit f t = Node k b h l r" by (cases f) (auto simp: recalc_height_def)
  then have "rebalance_from_nodeptr fs (refit f t) = bindE (rebalance_node (refit f t)) (climb fs)"
    by (simp only: rebalance_from_Node)
  then show ?thesis by (simp only: rebalance_node_refit climb.simps)
qed

text \<open>Every case of a deletion is a subtree put into some slot, one level lower than before.\<close>

lemma delete_as_climb:
  assumes "avl (Node k b h l r)" "ht (Node k b h l r) \<le> 100"
  shows "\<exists>gs t h'. delete_node_at_ptr fs (Node k b h l r) = climb (gs @ fs) t \<and> avl t \<and> h' = ht t + 1
    \<and> lctx gs @ entries t @ rctx gs = entries l @ entries r
    \<and> (path_ok fs (ht (Node k b h l r)) \<longrightarrow> path_ok (gs @ fs) h')"
proof -
  have lr: "avl l" "avl r" using assms by auto
  have one: "rebalance_from_nodeptr fs t = climb fs t" if a: "avl t" "t \<noteq> NULL" "ht t \<le> 100" for t
  proof -
    obtain k b h l r where t: "t = Node k b h l r" using a by (cases t) auto
    then have "rebalance_node t = Inr t"
      using rebalance_node_balanced[of l r k b h] a by auto
    then show ?thesis unfolding t by (simp only: rebalance_from_Node) simp
  qed
  consider "l = NULL" "r = NULL" | "l \<noteq> NULL" "r = NULL" | "l = NULL" "r \<noteq> NULL"
    | "l \<noteq> NULL" "r \<noteq> NULL" "height l \<ge> height r" | "l \<noteq> NULL" "r \<noteq> NULL" "\<not> height l \<ge> height r"
    by blast
  then show ?thesis
  proof cases
    case 1
    have "delete_node_at_ptr fs (Node k b h l r) = climb fs NULL"
      using 1 by (cases fs) (simp_all add: delete_node_at_ptr_def rebalance_from_climb del: climb.simps(2))
    then show ?thesis using 1 by (intro exI[of _ "[]"] exI[of _ NULL]) simp
  next
    case 2
    have "delete_node_at_ptr fs (Node k b h l r) = climb fs l"
      using 2 one[of l] lr assms by (cases l) (simp_all add: delete_node_at_ptr_def)
    then show ?thesis using 2 lr by (intro exI[of _ "[]"] exI[of _ l]) simp
  next
    case 3
    have "delete_node_at_ptr fs (Node k b h l r) = climb fs r"
      using 3 one[of r] lr assms by (cases r) (simp_all add: delete_node_at_ptr_def)
    then show ?thesis using 3 lr by (intro exI[of _ "[]"] exI[of _ r]) simp
  next
    case 4
    obtain gs k2 b2 h2 l2 where g: "rightmost [] l = (gs, Node k2 b2 h2 l2 NULL)"
      "root_of gs (Node k2 b2 h2 l2 NULL) = l" "rctx gs = []"
      using rightmost_spec[OF 4(1), of "[]"] by auto
    let ?gs = "gs @ [InLeft k2 b2 h2 r]"
    have "delete_node_at_ptr fs (Node k b h l r) = climb (?gs @ fs) l2"
    proof (cases gs)
      case Nil
      then show ?thesis using 4 g(1) rebalance_from_climb[of fs "InLeft k2 b2 h2 r" l2]
        by (cases l; cases r) (simp_all add: delete_node_at_ptr_def del: climb.simps(2))
    next
      case (Cons f gs')
      then show ?thesis using 4 g(1)
        by (cases l; cases r) (simp_all add: delete_node_at_ptr_def rebalance_from_refit del: climb.simps(2))
    qed
    moreover have "avl (Node k2 b2 h2 l2 NULL)"
      "path_ok fs (ht (Node k b h l r)) \<longrightarrow> path_ok (?gs @ fs) (1 + ht l2)"
      using avl_root_of[of gs "Node k2 b2 h2 l2 NULL" "InLeft k2 b2 h2 r # fs"]
            avl_root_of[of gs "Node k2 b2 h2 l2 NULL" "[]"] g(2) assms by auto
    moreover have "lctx gs @ entries l2 @ [(k2, b2)] = entries l"
      using entries_root_of[of gs "Node k2 b2 h2 l2 NULL"] g by simp
    ultimately show ?thesis using g(3) by (intro exI[of _ ?gs] exI[of _ l2]) (auto simp: ctx_append)
  next
    case 5
    obtain gs k2 b2 h2 r2 where g: "leftmost [] r = (gs, Node k2 b2 h2 NULL r2)"
      "root_of gs (Node k2 b2 h2 NULL r2) = r" "lctx gs = []"
      using leftmost_spec[OF 5(2), of "[]"] by auto
    let ?gs = "gs @ [InRight k2 b2 h2 l]"
    have "delete_node_at_ptr fs (Node k b h l r) = climb (?gs @ fs) r2"
    proof (cases gs)
      case Nil
      then show ?thesis using 5 g(1) rebalance_from_climb[of fs "InRight k2 b2 h2 l" r2]
        by (cases l; cases r) (simp_all add: delete_node_at_ptr_def del: climb.simps(2))
    next
      case (Cons f gs')
      then show ?thesis using 5 g(1)
        by (cases l; cases r) (simp_all add: delete_node_at_ptr_def rebalance_from_refit del: climb.simps(2))
    qed
    moreover have "avl (Node k2 b2 h2 NULL r2)"
      "path_ok fs (ht (Node k b h l r)) \<longrightarrow> path_ok (?gs @ fs) (1 + ht r2)"
      using avl_root_of[of gs "Node k2 b2 h2 NULL r2" "InRight k2 b2 h2 l # fs"]
            avl_root_of[of gs "Node k2 b2 h2 NULL r2" "[]"] g(2) assms by auto
    moreover have "(k2, b2) # entries r2 @ rctx gs = entries r"
      using entries_root_of[of gs "Node k2 b2 h2 NULL r2"] g by simp
    ultimately show ?thesis using g(3) by (intro exI[of _ ?gs] exI[of _ r2]) (auto simp: ctx_append)
  qed
qed

lemma delete_node_correct:
  assumes "avl t" "ht t \<le> 100" "root_of fs (Node k b h l r) = t"
  shows "\<exists>t'. delete_node_at_ptr fs (Node k b h l r) = Inr t' \<and> avl t'
    \<and> (\<exists>xs ys. entries t = xs @ (k, b) # ys \<and> entries t' = xs @ ys)"
proof -
  have p: "avl (Node k b h l r)" "path_ok fs (ht (Node k b h l r))"
    using avl_root_of[of fs "Node k b h l r" "[]"] assms by auto
  have "ht (Node k b h l r) \<le> 100" using path_ok_le[OF p(2)] .
  from delete_as_climb[OF p(1) this, of fs] obtain gs u where
    g: "delete_node_at_ptr fs (Node k b h l r) = climb (gs @ fs) u" "avl u"
    "lctx gs @ entries u @ rctx gs = entries l @ entries r" "path_ok (gs @ fs) (ht u + 1)"
    using p(2) by blast
  have "ht u \<le> ht u + 1 + 1" "ht u + 1 \<le> ht u + 1" by simp_all
  from climb_balanced[OF g(4,2) this] obtain t' where
    "climb (gs @ fs) u = Inr t'" "avl t'" "entries t' = lctx (gs @ fs) @ entries u @ rctx (gs @ fs)"
    by blast
  moreover have "entries t = lctx fs @ entries l @ (k, b) # entries r @ rctx fs"
    using entries_root_of[of fs "Node k b h l r"] assms by simp
  moreover have "lctx (gs @ fs) @ entries u @ rctx (gs @ fs) = lctx fs @ (lctx gs @ entries u @ rctx gs) @ rctx fs"
    by (simp add: ctx_append)
  ultimately show ?thesis using g
    by (intro exI[of _ t'] conjI exI[of _ "lctx fs @ entries l"] exI[of _ "entries r @ rctx fs"]) simp_all
qed

section \<open>The store as a finite map\<close>

text \<open>The abstract store: a partial map from ids to bundle pointers.\<close>

definition stored :: "storage \<Rightarrow> bundleid_t \<Rightarrow> bptr option" where
  "stored st = map_of (entries (storage_tree st))"

definition total_bytes :: "bundle_heap \<Rightarrow> (bundleid_t \<times> bptr) list \<Rightarrow> nat" where
  "total_bytes hp es = (\<Sum>(k, p) \<leftarrow> es. unat (payload_bytes (the (hp p))))"

definition store_inv :: "bundle_heap \<Rightarrow> storage \<Rightarrow> bool" where
  "store_inv hp st \<longleftrightarrow>
     avl (storage_tree st) \<and> bst (storage_tree st) \<and> BUNDLE_INVALID_ID \<notin> set (keys (storage_tree st))
     \<and> (\<forall>(k, p) \<in> set (entries (storage_tree st)). map_option bundle_id (hp p) = Some k)
     \<and> unat (bundle_bytes st) = total_bytes hp (entries (storage_tree st))"

lemma store_invI:
  assumes "avl (storage_tree st)" "bst (storage_tree st)" "BUNDLE_INVALID_ID \<notin> set (keys (storage_tree st))"
    and "\<And>k p. (k, p) \<in> set (entries (storage_tree st)) \<Longrightarrow> map_option bundle_id (hp p) = Some k"
    and "unat (bundle_bytes st) = total_bytes hp (entries (storage_tree st))"
  shows "store_inv hp st"
  using assms by (simp add: store_inv_def case_prod_beta split_paired_Ball_Sigma prod.split)

lemma store_invD:
  assumes "store_inv hp st"
  shows "avl (storage_tree st)" "bst (storage_tree st)" "BUNDLE_INVALID_ID \<notin> set (keys (storage_tree st))"
    and "(k, p) \<in> set (entries (storage_tree st)) \<Longrightarrow> map_option bundle_id (hp p) = Some k"
    and "unat (bundle_bytes st) = total_bytes hp (entries (storage_tree st))"
  using assms unfolding store_inv_def by auto

lemma avl_size: "avl t \<Longrightarrow> 2 ^ (ht t div 2) \<le> length (entries t) + 1"
proof (induction t)
  case (Node k b h l r)
  have *: "2 ^ (ht l div 2) \<le> length (entries l) + 1" "2 ^ (ht r div 2) \<le> length (entries r) + 1"
    using Node by auto
  let ?m = "min (ht l) (ht r)"
  have "(1 + max (ht l) (ht r)) div 2 \<le> ?m div 2 + 1" using Node.prems by auto
  then have "(2::nat) ^ ((1 + max (ht l) (ht r)) div 2) \<le> 2 ^ (?m div 2 + 1)"
    by (rule power_increasing) simp
  also have "\<dots> = 2 ^ (?m div 2) + 2 ^ (?m div 2)" by simp
  also have "\<dots> \<le> 2 ^ (ht l div 2) + 2 ^ (ht r div 2)"
    by (intro add_mono power_increasing div_le_mono) auto
  finally show ?case using * by simp
qed simp

lemma keys_bound: "distinct (xs :: u16 list) \<Longrightarrow> length xs \<le> 65536"
proof -
  assume "distinct xs"
  then have "length xs = card (set xs)" by (simp add: distinct_card)
  also have "\<dots> \<le> card (UNIV :: u16 set)" by (rule card_mono) auto
  finally show ?thesis by (simp add: card_word)
qed

lemma avl_height_bound: "avl t \<Longrightarrow> bst t \<Longrightarrow> ht t \<le> 33"
proof -
  assume "avl t" "bst t"
  have "(2::nat) ^ (ht t div 2) < 2 ^ 17"
    using avl_size[OF \<open>avl t\<close>] keys_bound[OF bst_distinct[OF \<open>bst t\<close>]] by simp
  then have "ht t div 2 < 17" by (subst (asm) power_strict_increasing_iff) simp_all
  then show ?thesis by linarith
qed

lemma find_nodeptr_None: "bst t \<Longrightarrow> find_nodeptr k False t = None \<longleftrightarrow> map_of (entries t) k = None"
  using find_slot_iff[of t k "[]"] by (auto simp: find_nodeptr_def map_of_eq_None_iff)

lemma find_nodeptr_Some:
  assumes "bst t" "find_nodeptr k False t = Some s"
  obtains fs b h l r where "s = (fs, Node k b h l r)" "root_of fs (Node k b h l r) = t" "map_of (entries t) k = Some b"
proof -
  obtain fs n where s: "s = (fs, n)" by (cases s)
  then obtain b h l r where n: "n = Node k b h l r" "root_of fs n = t"
    using find_slot_found[of k "[]" t fs n] assms(2) by (auto simp: find_nodeptr_def)
  have "(k, b) \<in> set (entries t)" using entries_root_of[of fs n] n by auto
  then have "map_of (entries t) k = Some b" using bst_distinct[OF assms(1)] by simp
  then show ?thesis using that s n by blast
qed

lemma bundle_storage_get_stored: "store_inv hp st \<Longrightarrow> bundle_storage_get i st = stored st i"
proof (cases "find_nodeptr i False (storage_tree st)")
  case None
  assume "store_inv hp st"
  then show ?thesis using None find_nodeptr_None[of "storage_tree st" i]
    by (simp add: bundle_storage_get_def stored_def store_inv_def)
next
  case (Some s)
  assume i: "store_inv hp st"
  obtain fs b h l r where "s = (fs, Node i b h l r)" "map_of (entries (storage_tree st)) i = Some b"
    by (rule find_nodeptr_Some[OF store_invD(2)[OF i] Some])
  moreover from this have "i \<noteq> BUNDLE_INVALID_ID"
    using store_invD(3)[OF i] map_of_SomeD[of "entries (storage_tree st)" i b] by (auto simp: rev_image_eqI)
  ultimately show ?thesis using Some by (simp add: bundle_storage_get_def stored_def)
qed

lemma bundle_storage_contains_stored: "store_inv hp st \<Longrightarrow> bundle_storage_contains i st \<longleftrightarrow> stored st i \<noteq> None"
  using find_nodeptr_None[of "storage_tree st" i] map_of_eq_None_iff[of "entries (storage_tree st)" BUNDLE_INVALID_ID]
  by (cases "i = BUNDLE_INVALID_ID") (simp_all add: bundle_storage_contains_def stored_def store_inv_def)

section \<open>Free ids\<close>

lemma find_free_id_found:
  "bst t \<Longrightarrow> i + of_nat m \<noteq> BUNDLE_INVALID_ID \<Longrightarrow> i + of_nat m \<notin> set (keys t) \<Longrightarrow>
   \<exists>j. find_free_id t i (i + 1) = Some (j, j + 1) \<and> j \<noteq> BUNDLE_INVALID_ID \<and> j \<notin> set (keys t)"
proof (induction m arbitrary: i)
  case 0
  then have "find_nodeptr i False t = None" by (simp add: find_nodeptr_None map_of_eq_None_iff)
  then show ?case using 0 by (subst find_free_id.simps) auto
next
  case (Suc m)
  show ?case
  proof (cases "i = BUNDLE_INVALID_ID \<or> find_nodeptr i False t \<noteq> None")
    case True
    have "i + of_nat (Suc m) = i + 1 + of_nat m" by (simp add: algebra_simps)
    then have "\<exists>j. find_free_id t (i + 1) (i + 1 + 1) = Some (j, j + 1) \<and> j \<noteq> BUNDLE_INVALID_ID \<and> j \<notin> set (keys t)"
      using Suc.IH[OF Suc.prems(1), of "i + 1"] Suc.prems by (simp add: algebra_simps)
    then show ?thesis using True by (subst find_free_id.simps) simp
  next
    case False
    then have "i \<notin> set (keys t)" using find_nodeptr_None[OF Suc.prems(1), of i] by (simp add: map_of_eq_None_iff)
    then show ?thesis using False by (subst find_free_id.simps) auto
  qed
qed

lemma free_id_exists:
  assumes "bst t" "length (entries t) < 65535"
  shows "\<exists>j. j \<noteq> BUNDLE_INVALID_ID \<and> j \<notin> set (keys t)"
proof (rule ccontr)
  assume "\<not> ?thesis"
  then have "UNIV \<subseteq> insert BUNDLE_INVALID_ID (set (keys t))" by auto
  then have "card (UNIV :: u16 set) \<le> card (insert BUNDLE_INVALID_ID (set (keys t)))"
    by (intro card_mono) auto
  also have "\<dots> \<le> 1 + card (set (keys t))" by (simp add: card_insert_if)
  also have "\<dots> \<le> 1 + length (entries t)" using card_length[of "keys t"] by simp
  finally show False using assms(2) by (simp add: card_word)
qed

lemma find_free_id_returns:
  assumes "bst t" "length (entries t) < 65535"
  shows "\<exists>j. find_free_id t i (i + 1) = Some (j, j + 1) \<and> j \<noteq> BUNDLE_INVALID_ID \<and> j \<notin> set (keys t)"
proof -
  obtain j where j: "j \<noteq> BUNDLE_INVALID_ID" "j \<notin> set (keys t)" using free_id_exists[OF assms] by blast
  have "i + of_nat (unat (j - i)) = j" by simp
  then show ?thesis using find_free_id_found[OF assms(1), of i "unat (j - i)"] j by simp
qed

section \<open>Adding and deleting at the store\<close>

lemma total_bytes_append [simp]: "total_bytes hp (xs @ ys) = total_bytes hp xs + total_bytes hp ys"
  and total_bytes_Cons [simp]: "total_bytes hp ((k, p) # es) = unat (payload_bytes (the (hp p))) + total_bytes hp es"
  and total_bytes_Nil [simp]: "total_bytes hp [] = 0"
  by (simp_all add: total_bytes_def)

lemma total_bytes_cong:
  "(\<And>k p. (k, p) \<in> set es \<Longrightarrow> payload_bytes (the (hp p)) = payload_bytes (the (hp' p))) \<Longrightarrow>
   total_bytes hp es = total_bytes hp' es"
  unfolding total_bytes_def by (intro arg_cong[where f = sum_list] map_cong) auto

lemma payload_bytes_id [simp]: "payload_bytes (b\<lparr>bundle_id := i\<rparr>) = payload_bytes b"
  by (simp add: payload_bytes_def payload_of_def split: option.splits)

lemma map_of_insert_middle:
  "k \<notin> fst ` set (xs @ ys) \<Longrightarrow> map_of (xs @ (k, v) # ys) = (map_of (xs @ ys))(k \<mapsto> v)"
  by (induction xs) auto

lemma storage_add_ok:
  assumes inv: "store_inv hp st" and p: "hp p = Some b" "bundle_id b = BUNDLE_INVALID_ID"
    and room: "length (entries (storage_tree st)) < 65535"
      "unat (bundle_bytes st) + unat (payload_bytes b) < 2 ^ 32"
    and ok: "malloc_ok as"
  shows "\<exists>i st'. bundle_storage_add p hp st as = Some (Inr (i, hp(p \<mapsto> b\<lparr>bundle_id := i\<rparr>), st', malloc_rest as))
    \<and> i \<noteq> BUNDLE_INVALID_ID \<and> stored st i = None \<and> stored st' = (stored st)(i \<mapsto> p)
    \<and> store_inv (hp(p \<mapsto> b\<lparr>bundle_id := i\<rparr>)) st'
    \<and> unat (bundle_bytes st') = unat (bundle_bytes st) + unat (payload_bytes b)"
proof -
  let ?t = "storage_tree st"
  have t: "avl ?t" "bst ?t" using inv by (simp_all add: store_inv_def)
  obtain i where i: "find_free_id ?t (next_id st) (next_id st + 1) = Some (i, i + 1)"
    "i \<noteq> BUNDLE_INVALID_ID" "i \<notin> set (keys ?t)"
    using find_free_id_returns[OF t(2) room(1)] by blast
  have "ht ?t \<le> 100" using avl_height_bound[OF t] by simp
  from add_node_correct[OF t this i(3), of p as] ok obtain t' xs ys where
    t': "add_node i p ?t as = Inr (True, t', malloc_rest as)" "avl t'" "bst t'"
    "set (entries t') = insert (i, p) (set (entries ?t))"
    "entries ?t = xs @ ys" "entries t' = xs @ (i, p) # ys"
    by auto
  let ?hp = "hp(p \<mapsto> b\<lparr>bundle_id := i\<rparr>)"
  let ?st = "st\<lparr>storage_tree := t', next_id := i + 1, bundle_bytes := bundle_bytes st + payload_bytes b\<rparr>"
  have sep: "q \<noteq> p" if "(k, q) \<in> set (entries ?t)" for k q
    using store_invD(3,4)[OF inv] that p by (force simp: rev_image_eqI)
  have bytes: "unat (bundle_bytes st + payload_bytes b) = unat (bundle_bytes st) + unat (payload_bytes b)"
    using room(2) by (simp add: unat_add_lem[THEN iffD1])
  have "total_bytes ?hp (entries ?t) = total_bytes hp (entries ?t)"
    by (rule total_bytes_cong) (use sep in auto)
  then have "total_bytes ?hp (entries t') = total_bytes hp (entries ?t) + unat (payload_bytes b)"
    unfolding t'(5,6) by simp
  moreover have "map_option bundle_id (?hp q) = Some k" if "(k, q) \<in> set (entries t')" for k q
  proof (cases "(k, q) = (i, p)")
    case False
    then have "(k, q) \<in> set (entries ?t)" using that t'(4) by auto
    then show ?thesis using store_invD(4)[OF inv] sep[of k q] by simp
  qed simp
  ultimately have "store_inv ?hp ?st"
    using store_invD(3,5)[OF inv] t'(2,3,4) i(2) bytes by (intro store_invI) auto
  moreover have "stored ?st = (stored st)(i \<mapsto> p)"
    using map_of_insert_middle[of i xs ys p] i(3) unfolding stored_def by (simp add: t'(5,6) image_Un)
  moreover have "bundle_storage_add p hp st as = Some (Inr (i, ?hp, ?st, malloc_rest as))"
    using p i t'(1) by (simp add: bundle_storage_add_def heap_read_def)
  moreover have "stored st i = None" using i(3) by (simp add: stored_def map_of_eq_None_iff)
  ultimately show ?thesis using i(2) bytes by (intro exI[of _ i] exI[of _ ?st]) simp
qed

lemma storage_add_fail:
  assumes inv: "store_inv hp st" and p: "hp p = Some b" "bundle_id b = BUNDLE_INVALID_ID"
    and room: "length (entries (storage_tree st)) < 65535" and no: "\<not> malloc_ok as"
  shows "\<exists>st'. bundle_storage_add p hp st as = Some (Inr (BUNDLE_INVALID_ID, hp, st', malloc_rest as))
    \<and> stored st' = stored st \<and> store_inv hp st' \<and> bundle_bytes st' = bundle_bytes st"
proof -
  let ?t = "storage_tree st"
  have t: "avl ?t" "bst ?t" using inv by (simp_all add: store_inv_def)
  obtain i where i: "find_free_id ?t (next_id st) (next_id st + 1) = Some (i, i + 1)"
    "i \<noteq> BUNDLE_INVALID_ID" "i \<notin> set (keys ?t)"
    using find_free_id_returns[OF t(2) room(1)] by blast
  have "ht ?t \<le> 100" using avl_height_bound[OF t] by simp
  from add_node_correct[OF t this i(3), of p as] no
  have "add_node i p ?t as = Inr (False, ?t, malloc_rest as)" by auto
  then have "bundle_storage_add p hp st as =
      Some (Inr (BUNDLE_INVALID_ID, hp, st\<lparr>storage_tree := ?t, next_id := i + 1\<rparr>, malloc_rest as))"
    using p i by (simp add: bundle_storage_add_def heap_read_def)
  then show ?thesis using inv by (simp add: stored_def store_inv_def)
qed

lemma storage_delete_ok:
  assumes inv: "store_inv hp st"
  shows "\<exists>st'. bundle_storage_delete i hp st = Inr (stored st i \<noteq> None, st')
    \<and> stored st' = (stored st)(i := None) \<and> store_inv hp st'"
proof (cases "find_nodeptr i False (storage_tree st)")
  case None
  then have "stored st i = None"
    using inv find_nodeptr_None[of "storage_tree st" i] by (simp add: stored_def store_inv_def)
  moreover from this have "stored st = (stored st)(i := None)" by auto
  ultimately show ?thesis using None inv by (simp add: bundle_storage_delete_def)
next
  case (Some s)
  let ?t = "storage_tree st"
  have t: "avl ?t" "bst ?t" using inv by (simp_all add: store_inv_def)
  obtain fs p h l r where s: "s = (fs, Node i p h l r)" "root_of fs (Node i p h l r) = ?t"
    "map_of (entries ?t) i = Some p"
    by (rule find_nodeptr_Some[OF t(2) Some])
  have ht: "ht ?t \<le> 100" using avl_height_bound[OF t] by simp
  from delete_node_correct[OF t(1) ht s(2)] obtain t' xs ys where
    t': "delete_node_at_ptr fs (Node i p h l r) = Inr t'" "avl t'" "entries ?t = xs @ (i, p) # ys" "entries t' = xs @ ys"
    by blast
  obtain b where b: "hp p = Some b" using inv t'(3) by (auto simp: store_inv_def)
  have i0: "i \<noteq> BUNDLE_INVALID_ID" using inv t'(3) by (auto simp: store_inv_def)
  have d: "i \<notin> fst ` set (xs @ ys)" using bst_distinct[OF t(2)] t'(3) by auto
  have bytes: "unat (bundle_bytes st) = total_bytes hp (xs @ ys) + unat (payload_bytes b)"
    using inv b by (simp add: store_inv_def t'(3))
  then have le: "\<not> bundle_bytes st < payload_bytes b" by (simp add: word_less_nat_alt)
  let ?st = "st\<lparr>storage_tree := t', bundle_bytes := bundle_bytes st - payload_bytes b\<rparr>"
  have "unat (bundle_bytes st - payload_bytes b) = total_bytes hp (xs @ ys)"
    using bytes le by (simp add: unat_sub_if')
  moreover have "bst t'" using t(2) unfolding bst_def t'(3,4) by (auto simp: sorted_wrt_append)
  ultimately have "store_inv hp ?st"
    using store_invD(3,4)[OF inv] t' by (intro store_invI) auto
  moreover have "stored ?st = (stored st)(i := None)"
  proof
    fix j
    show "stored ?st j = ((stored st)(i := None)) j"
      using map_of_insert_middle[OF d, of p] d
      by (auto simp: stored_def t'(3,4) map_of_eq_None_iff simp del: map_of_append)
  qed
  moreover have "bundle_storage_delete i hp st = Inr (True, ?st)"
    using Some s(1) i0 le t'(1) b by (simp add: bundle_storage_delete_def heap_read_def)
  ultimately show ?thesis using s(3) by (intro exI[of _ ?st]) (simp add: stored_def)
qed

section \<open>The interface other components rely on\<close>

text \<open>
  What a client of a keyed store may assume: looking up after a deletion, and that deleting
  keeps the invariant and reports whether the key was there.
\<close>

locale keyed_store =
  fixes inv :: "'h \<Rightarrow> 's \<Rightarrow> bool"
    and get :: "'k \<Rightarrow> 's \<Rightarrow> 'p option"
    and delete :: "'k \<Rightarrow> 'h \<Rightarrow> 's \<Rightarrow> 'e + (bool \<times> 's)"
  assumes delete_get: "inv h s \<Longrightarrow>
    \<exists>s'. delete k h s = Inr (get k s \<noteq> None, s') \<and> inv h s' \<and> (\<forall>j. get j s' = (if j = k then None else get j s))"
begin

lemma delete_absent: "inv h s \<Longrightarrow> get k s = None \<Longrightarrow> \<exists>s'. delete k h s = Inr (False, s') \<and> (\<forall>j. get j s' = get j s)"
  using delete_get[of h s k] by fastforce

text \<open>The second of two deletions of one key finds nothing and changes nothing.\<close>

lemma delete_twice:
  "inv h s \<Longrightarrow> delete k h s = Inr (r, s') \<Longrightarrow>
   \<exists>s''. delete k h s' = Inr (False, s'') \<and> (\<forall>j. get j s'' = get j s')"
  using delete_get[of h s k] delete_absent[of h s' k] by auto

text \<open>Deleting a list of keys one after the other.\<close>

fun delete_all :: "'k list \<Rightarrow> 'h \<Rightarrow> 's \<Rightarrow> 'e + 's" where
  "delete_all [] h s = Inr s"
| "delete_all (k # ks) h s = bindE (delete k h s) (\<lambda>(r, s'). delete_all ks h s')"

lemma delete_all_get:
  "inv h s \<Longrightarrow> \<exists>s'. delete_all ks h s = Inr s' \<and> inv h s' \<and> (\<forall>j. get j s' = (if j \<in> set ks then None else get j s))"
proof (induction ks arbitrary: s)
  case (Cons k ks)
  obtain s1 where "delete k h s = Inr (get k s \<noteq> None, s1)" "inv h s1" "\<forall>j. get j s1 = (if j = k then None else get j s)"
    using delete_get[OF Cons.prems] by blast
  then show ?case using Cons.IH[of s1] by auto
qed simp

end

interpretation bstore: keyed_store store_inv bundle_storage_get bundle_storage_delete
proof
  fix h s k
  assume i: "store_inv h s"
  from storage_delete_ok[OF i, of k] obtain s' where s':
    "bundle_storage_delete k h s = Inr (stored s k \<noteq> None, s')" "stored s' = (stored s)(k := None)" "store_inv h s'"
    by blast
  then show "\<exists>s'. bundle_storage_delete k h s = Inr (bundle_storage_get k s \<noteq> None, s') \<and> store_inv h s' \<and>
      (\<forall>j. bundle_storage_get j s' = (if j = k then None else bundle_storage_get j s))"
    by (simp add: bundle_storage_get_stored[OF i] bundle_storage_get_stored[OF s'(3)])
qed

section \<open>All histories of the store\<close>

text \<open>
  The states the store and the bundle heap pass through: operations of the store that returned, and
  changes other components make to the heap between them. Those may allocate and change bundles, and free bundles
  that are not stored, but leave the id and the payload length of a stored bundle alone.
\<close>

inductive storage_reach :: "bundle_heap \<Rightarrow> storage \<Rightarrow> bool" where
  init: "storage_reach (\<lambda>_. None) storage_init"
| add: "storage_reach hp st \<Longrightarrow> hp p = Some b \<Longrightarrow> length (entries (storage_tree st)) < 65535 \<Longrightarrow>
    unat (bundle_bytes st) + unat (payload_bytes b) < 2 ^ 32 \<Longrightarrow>
    bundle_storage_add p hp st as = Some (Inr (i, hp', st', as')) \<Longrightarrow> storage_reach hp' st'"
| delete: "storage_reach hp st \<Longrightarrow> bundle_storage_delete i hp st = Inr (r, st') \<Longrightarrow> storage_reach hp st'"
| change: "storage_reach hp st \<Longrightarrow>
    (\<And>k p. (k, p) \<in> set (entries (storage_tree st)) \<Longrightarrow>
       map_option bundle_id (hp' p) = map_option bundle_id (hp p)
       \<and> map_option payload_bytes (hp' p) = map_option payload_bytes (hp p)) \<Longrightarrow>
    storage_reach hp' st"

lemma store_inv_init: "store_inv hp storage_init"
  by (simp add: store_inv_def storage_init_def bst_def)

lemma store_inv_add:
  assumes "store_inv hp st" "hp p = Some b" "length (entries (storage_tree st)) < 65535"
    "unat (bundle_bytes st) + unat (payload_bytes b) < 2 ^ 32"
    "bundle_storage_add p hp st as = Some (Inr (i, hp', st', as'))"
  shows "store_inv hp' st'"
proof -
  have "bundle_id b = BUNDLE_INVALID_ID"
    using assms(2,5) by (auto simp: bundle_storage_add_def heap_read_def split: if_splits)
  then show ?thesis
    using storage_add_ok[OF assms(1,2) _ assms(3,4), of as] storage_add_fail[OF assms(1,2) _ assms(3), of as] assms(5)
    by (cases "malloc_ok as") auto
qed

lemma store_inv_change:
  assumes "store_inv hp st"
    and "\<And>k p. (k, p) \<in> set (entries (storage_tree st)) \<Longrightarrow>
       map_option bundle_id (hp' p) = map_option bundle_id (hp p)
       \<and> map_option payload_bytes (hp' p) = map_option payload_bytes (hp p)"
  shows "store_inv hp' st"
proof (rule store_invI)
  show "unat (bundle_bytes st) = total_bytes hp' (entries (storage_tree st))"
  proof -
    have "total_bytes hp (entries (storage_tree st)) = total_bytes hp' (entries (storage_tree st))"
    proof (rule total_bytes_cong)
      fix k p assume "(k, p) \<in> set (entries (storage_tree st))"
      with assms(2)[OF this] store_invD(4)[OF assms(1) this]
      show "payload_bytes (the (hp p)) = payload_bytes (the (hp' p))" by (cases "hp p"; cases "hp' p") auto
    qed
    then show ?thesis using store_invD(5)[OF assms(1)] by simp
  qed
qed (use store_invD[OF assms(1)] assms(2) in simp_all)

lemma storage_reach_inv: "storage_reach hp st \<Longrightarrow> store_inv hp st"
proof (induction rule: storage_reach.induct)
  case init
  show ?case by (rule store_inv_init)
next
  case (add hp st p b as i hp' st' as')
  then show ?case using store_inv_add by blast
next
  case (delete hp st i r st')
  then show ?case using storage_delete_ok[of hp st i] by auto
next
  case (change hp st hp')
  then show ?case using store_inv_change by blast
qed


definition sample_heap :: bundle_heap where
  "sample_heap = [1 \<mapsto> sample_bundle, 2 \<mapsto> sample_bundle]"

definition sample_store :: storage where
  "sample_store = \<lparr>storage_tree = Node 1 1 1 NULL NULL, next_id = 2, bundle_bytes = 2\<rparr>"

definition sample_heap1 :: bundle_heap where
  "sample_heap1 = sample_heap(1 \<mapsto> sample_bundle\<lparr>bundle_id := 1\<rparr>)"

lemma sample_payload_bytes [simp]: "payload_bytes sample_bundle = 2"
  by (simp add: payload_bytes_def payload_of_def sample_bundle_def sample_block_def)

lemma sample_add: "bundle_storage_add 1 sample_heap storage_init [] = Some (Inr (1, sample_heap1, sample_store, []))"
proof -
  have "find_free_id NULL 1 2 = Some (1, 2)"
    by (subst find_free_id.simps) (simp add: BUNDLE_INVALID_ID_def find_nodeptr_def)
  moreover have "bundle_id sample_bundle = BUNDLE_INVALID_ID"
    by (simp add: sample_bundle_def BUNDLE_INVALID_ID_def)
  ultimately show ?thesis
    by (simp add: bundle_storage_add_def heap_read_def sample_heap_def storage_init_def BUNDLE_INVALID_ID_def
        add_node_def create_node_def sample_heap1_def sample_store_def)
qed

lemma sample_reach: "storage_reach sample_heap1 sample_store"
proof -
  have "storage_reach sample_heap storage_init"
    by (rule storage_reach.change[OF storage_reach.init]) (simp add: storage_init_def)
  then show ?thesis
    by (rule storage_reach.add[OF _ _ _ _ sample_add, where b = sample_bundle])
       (simp_all add: sample_heap_def storage_init_def)
qed


text \<open>
  C28. Storing a fresh bundle in a reachable state with a free id and room in the byte counter
  returns. If the allocation succeeds the bundle gets a valid id that was not in use, the bundle
  learns its id, exactly that id is added to the map, and the usage grows by the payload
  length; if it fails the invalid id is returned and map, heap and usage stay as they were.
\<close>

theorem storage_add_correct:
  assumes "storage_reach hp st" "hp p = Some b" "bundle_id b = BUNDLE_INVALID_ID"
    and "length (entries (storage_tree st)) < 65535"
    and "unat (bundle_bytes st) + unat (payload_bytes b) < 2 ^ 32"
  shows "\<exists>i hp' st'. bundle_storage_add p hp st as = Some (Inr (i, hp', st', malloc_rest as)) \<and>
    (if malloc_ok as then i \<noteq> BUNDLE_INVALID_ID \<and> bundle_storage_get i st = None
        \<and> (\<forall>j. bundle_storage_get j st' = (if j = i then Some p else bundle_storage_get j st))
        \<and> hp' = hp(p \<mapsto> b\<lparr>bundle_id := i\<rparr>)
        \<and> unat (bundle_storage_get_usage st') = unat (bundle_storage_get_usage st) + unat (payload_bytes b)
     else i = BUNDLE_INVALID_ID \<and> hp' = hp \<and> (\<forall>j. bundle_storage_get j st' = bundle_storage_get j st)
        \<and> bundle_storage_get_usage st' = bundle_storage_get_usage st)"
proof -
  note inv = storage_reach_inv[OF assms(1)]
  show ?thesis
  proof (cases "malloc_ok as")
    case True
    from storage_add_ok[OF inv assms(2-5) True] obtain i st' where
      s: "bundle_storage_add p hp st as = Some (Inr (i, hp(p \<mapsto> b\<lparr>bundle_id := i\<rparr>), st', malloc_rest as))"
      "i \<noteq> BUNDLE_INVALID_ID" "stored st i = None" "stored st' = (stored st)(i \<mapsto> p)"
      "store_inv (hp(p \<mapsto> b\<lparr>bundle_id := i\<rparr>)) st'"
      "unat (bundle_bytes st') = unat (bundle_bytes st) + unat (payload_bytes b)"
      by blast
    then show ?thesis using True
      by (simp add: bundle_storage_get_stored[OF inv] bundle_storage_get_stored[OF s(5)] bundle_storage_get_usage_def)
  next
    case False
    from storage_add_fail[OF inv assms(2-4) False] obtain st' where
      s: "bundle_storage_add p hp st as = Some (Inr (BUNDLE_INVALID_ID, hp, st', malloc_rest as))"
      "stored st' = stored st" "store_inv hp st'" "bundle_bytes st' = bundle_bytes st"
      by blast
    then show ?thesis using False
      by (simp add: bundle_storage_get_stored[OF inv] bundle_storage_get_stored[OF s(3)] bundle_storage_get_usage_def)
  qed
qed

theorem storage_add_correct_witness:
  "\<exists>i hp' st'. bundle_storage_add 2 sample_heap1 sample_store [] = Some (Inr (i, hp', st', malloc_rest [])) \<and>
    (if malloc_ok [] then i \<noteq> BUNDLE_INVALID_ID \<and> bundle_storage_get i sample_store = None
        \<and> (\<forall>j. bundle_storage_get j st' = (if j = i then Some 2 else bundle_storage_get j sample_store))
        \<and> hp' = sample_heap1(2 \<mapsto> sample_bundle\<lparr>bundle_id := i\<rparr>)
        \<and> unat (bundle_storage_get_usage st') = unat (bundle_storage_get_usage sample_store) + unat (payload_bytes sample_bundle)
     else i = BUNDLE_INVALID_ID \<and> hp' = sample_heap1 \<and> (\<forall>j. bundle_storage_get j st' = bundle_storage_get j sample_store)
        \<and> bundle_storage_get_usage st' = bundle_storage_get_usage sample_store)"
proof (rule storage_add_correct[OF sample_reach])
  show "sample_heap1 2 = Some sample_bundle" by (simp add: sample_heap1_def sample_heap_def)
  show "bundle_id sample_bundle = BUNDLE_INVALID_ID" by (simp add: sample_bundle_def BUNDLE_INVALID_ID_def)
qed (simp_all add: sample_store_def)

text \<open>
  C29. Deleting in a reachable state never faults (neither the balance assertions nor the byte
  assertion fire), reports whether the id was stored, removes exactly that id, and a second
  deletion of the same id reports that nothing was there.
\<close>

theorem storage_delete_correct:
  assumes "storage_reach hp st"
  shows "\<exists>st' st''. bundle_storage_delete i hp st = Inr (bundle_storage_contains i st, st')
    \<and> (\<forall>j. bundle_storage_get j st' = (if j = i then None else bundle_storage_get j st))
    \<and> bundle_storage_delete i hp st' = Inr (False, st'')"
proof -
  note inv = storage_reach_inv[OF assms]
  obtain st' where s: "bundle_storage_delete i hp st = Inr (bundle_storage_get i st \<noteq> None, st')" "store_inv hp st'"
     "\<forall>j. bundle_storage_get j st' = (if j = i then None else bundle_storage_get j st)"
    using bstore.delete_get[OF inv] by blast
  then show ?thesis
    using bstore.delete_twice[OF inv s(1)] bundle_storage_contains_stored[OF inv, of i]
      bundle_storage_get_stored[OF inv, of i] by auto
qed

theorem storage_delete_correct_witness:
  "\<exists>st' st''. bundle_storage_delete 1 sample_heap1 sample_store = Inr (bundle_storage_contains 1 sample_store, st')
    \<and> (\<forall>j. bundle_storage_get j st' = (if j = 1 then None else bundle_storage_get j sample_store))
    \<and> bundle_storage_delete 1 sample_heap1 st' = Inr (False, st'')"
  by (rule storage_delete_correct[OF sample_reach])

end
