(* ===== verification/Known_Bundle_List.thy ===== *)
theory Known_Bundle_List
  imports Bundle
begin

text \<open>
  The list of known bundles of \<^verbatim>\<open>components/ud3tn/known_bundle_list.c\<close>, by which a node
  recognises bundles it has already received or reassembled until they expire. The linked list is a
  list of entries ordered by deadline; the semaphore around every operation makes each of them one
  step. The clock is read where the source reads it: for the position of the new entry and again
  when the entry is made.
\<close>

section \<open>Operations\<close>

record known_bundle_list_entry =
  kb_unique_identifier :: bundle_unique_identifier
  kb_id :: u16
  kb_deadline :: u64

type_synonym known_bundle_list = "known_bundle_list_entry list"

definition create_entry ::
  "u64 \<Rightarrow> bundle_t \<Rightarrow> alloc_script \<Rightarrow> fault + (known_bundle_list_entry option \<times> alloc_script)" where
  "create_entry now b as =
    (if \<not> malloc_ok as then Inr (None, malloc_rest as)
     else bindE (bundle_get_unique_identifier b (malloc_rest as)) (\<lambda>(uid, as').
       Inr (Some \<lparr>kb_unique_identifier = uid, kb_id = bundle_id b,
                  kb_deadline = bundle_get_expiration_time_s now b\<rparr>, as')))"

fun pop_before_unsafe :: "known_bundle_list \<Rightarrow> u64 \<Rightarrow> known_bundle_list_entry option \<times> known_bundle_list" where
  "pop_before_unsafe [] ts = (None, [])"
| "pop_before_unsafe (cur # rest) ts =
    (if kb_deadline cur < ts then (Some cur, rest) else (None, cur # rest))"

definition known_bundle_list_pop_before ::
  "known_bundle_list \<Rightarrow> u64 \<Rightarrow> known_bundle_list_entry option \<times> known_bundle_list" where
  "known_bundle_list_pop_before l ts = pop_before_unsafe l ts"

lemma pop_before_shrinks: "(Some e, l') = pop_before_unsafe l ts \<Longrightarrow> length l' < length l"
  by (cases l) (auto split: if_splits)

function known_bundle_list_remove_before :: "known_bundle_list \<Rightarrow> u64 \<Rightarrow> known_bundle_list" where
  "known_bundle_list_remove_before l ts =
    (case pop_before_unsafe l ts of
       (None, l') \<Rightarrow> l'
     | (Some e, l') \<Rightarrow> known_bundle_list_remove_before l' ts)"
  by pat_completeness auto
termination
  by (relation "measure (length \<circ> fst)") (auto dest: pop_before_shrinks)

text \<open>Whether the entry is the reassembled parent of the fragment.\<close>

definition is_reassembled_parent :: "bundle_t \<Rightarrow> known_bundle_list_entry \<Rightarrow> fault + bool" where
  "is_reassembled_parent b e = bindE (bundle_is_equal_parent b (kb_unique_identifier e)) (\<lambda>r.
     Inr (r \<and> uid_fragment_offset (kb_unique_identifier e) = 0
            \<and> uid_payload_length (kb_unique_identifier e) = total_adu_length b))"

definition known_match :: "bool \<Rightarrow> bundle_t \<Rightarrow> known_bundle_list_entry \<Rightarrow> fault + bool" where
  "known_match as_parent b e =
    (if as_parent then is_reassembled_parent b e else bundle_is_equal b (kb_unique_identifier e))"

text \<open>
  The search: \<^term>\<open>None\<close> when the bundle is known, else the entries before and after the
  position of the new one.
\<close>

fun find_position ::
  "bool \<Rightarrow> bundle_t \<Rightarrow> u64 \<Rightarrow> known_bundle_list \<Rightarrow> known_bundle_list
    \<Rightarrow> fault + (known_bundle_list \<times> known_bundle_list) option" where
  "find_position as_parent b deadline before [] = Inr (Some (before, []))"
| "find_position as_parent b deadline before (cur # rest) =
    bindE (known_match as_parent b cur) (\<lambda>r.
      if r then Inr None
      else if deadline < kb_deadline cur then Inr (Some (before, cur # rest))
      else find_position as_parent b deadline (before @ [cur]) rest)"

definition add_if_not_exists ::
  "u64 \<Rightarrow> u64 \<Rightarrow> known_bundle_list \<Rightarrow> bundle_t \<Rightarrow> bool \<Rightarrow> alloc_script
    \<Rightarrow> fault + (bool \<times> known_bundle_list \<times> alloc_script)" where
  "add_if_not_exists now now' l b as_parent as =
    bindE (find_position as_parent b (bundle_get_expiration_time_s now b) [] l) (\<lambda>pos.
      case pos of
        None \<Rightarrow> Inr (True, l, as)
      | Some (before, rest) \<Rightarrow> bindE (create_entry now' b as) (\<lambda>(entry, as').
          case entry of
            None \<Rightarrow> Inr (False, l, as')
          | Some e \<Rightarrow>
              (let e' = (if as_parent
                 then e\<lparr>kb_unique_identifier := (kb_unique_identifier e)
                          \<lparr>uid_fragment_offset := 0, uid_payload_length := total_adu_length b\<rparr>\<rparr>
                 else e)
               in Inr (False, before @ e' # rest, as'))))"

definition known_bundle_list_add ::
  "u64 \<Rightarrow> u64 \<Rightarrow> known_bundle_list \<Rightarrow> bundle_t \<Rightarrow> alloc_script \<Rightarrow> fault + (bool \<times> known_bundle_list \<times> alloc_script)" where
  "known_bundle_list_add now now' l b as = add_if_not_exists now now' l b False as"

definition known_bundle_list_add_reassembled_parent ::
  "u64 \<Rightarrow> u64 \<Rightarrow> known_bundle_list \<Rightarrow> bundle_t \<Rightarrow> alloc_script \<Rightarrow> fault + (bool \<times> known_bundle_list \<times> alloc_script)" where
  "known_bundle_list_add_reassembled_parent now now' l b as = add_if_not_exists now now' l b True as"

fun known_bundle_list_contains_reassembled_parent :: "known_bundle_list \<Rightarrow> bundle_t \<Rightarrow> fault + bool" where
  "known_bundle_list_contains_reassembled_parent [] b = Inr False"
| "known_bundle_list_contains_reassembled_parent (e # es) b =
    bindE (is_reassembled_parent b e) (\<lambda>r.
      if r then Inr True else known_bundle_list_contains_reassembled_parent es b)"

section \<open>The list is ordered and recognises bundles\<close>

definition known_inv :: "known_bundle_list \<Rightarrow> bool" where
  "known_inv l \<longleftrightarrow> sorted (map kb_deadline l) \<and> (\<forall>e \<in> set l. uid_source (kb_unique_identifier e) \<noteq> None)"

text \<open>The identity an entry is compared with, for a bundle and for a reassembled parent.\<close>

definition known_as :: "bool \<Rightarrow> bundle_t \<Rightarrow> known_bundle_list_entry \<Rightarrow> bool" where
  "known_as as_parent b e \<longleftrightarrow> (let i = kb_unique_identifier e in
     protocol_version b = uid_protocol_version i \<and> source b = uid_source i
     \<and> creation_timestamp_ms b = uid_creation_timestamp_ms i \<and> sequence_number b = uid_sequence_number i
     \<and> (if as_parent then uid_fragment_offset i = 0 \<and> uid_payload_length i = total_adu_length b
        else fragment_offset b = uid_fragment_offset i
           \<and> map_option blk_length (payload_of b) = Some (uid_payload_length i)))"

lemma known_match_wf:
  assumes "wf_bundle b" "uid_source (kb_unique_identifier e) \<noteq> None"
  shows "known_match p b e = Inr (known_as p b e)"
proof (cases p)
  case True
  have "source b \<noteq> None" using assms(1) by (simp add: wf_bundle_def)
  then show ?thesis using True assms(2)
    by (simp add: known_match_def is_reassembled_parent_def bundle_is_equal_parent_wf known_as_def Let_def)
next
  case False
  then show ?thesis using bundle_is_equal_wf[OF assms] by (simp add: known_match_def known_as_def Let_def)
qed

lemma find_position_spec:
  assumes "wf_bundle b" "\<forall>e \<in> set l. uid_source (kb_unique_identifier e) \<noteq> None" "sorted (map kb_deadline l)"
  shows "\<exists>r. find_position p b d before l = Inr r \<and>
    (case r of None \<Rightarrow> \<exists>e \<in> set l. known_as p b e
     | Some (xs, ys) \<Rightarrow> \<exists>zs. xs = before @ zs \<and> l = zs @ ys \<and> (\<forall>e \<in> set zs. kb_deadline e \<le> d \<and> \<not> known_as p b e)
         \<and> (\<forall>e \<in> set ys. d < kb_deadline e))"
  using assms(2,3)
proof (induction l arbitrary: before)
  case (Cons e l)
  have m: "known_match p b e = Inr (known_as p b e)" using known_match_wf[OF assms(1)] Cons.prems by simp
  consider "known_as p b e" | "\<not> known_as p b e" "d < kb_deadline e" | "\<not> known_as p b e" "\<not> d < kb_deadline e"
    by blast
  then show ?case
  proof cases
    case 2
    then have "\<forall>x \<in> set (e # l). d < kb_deadline x"
      using Cons.prems(2) by (auto intro: order_less_le_trans)
    then show ?thesis using 2 m by auto
  next
    case 3
    from Cons.IH[of "before @ [e]"] Cons.prems obtain r where
      r: "find_position p b d (before @ [e]) l = Inr r"
      "case r of None \<Rightarrow> \<exists>e \<in> set l. known_as p b e
       | Some (xs, ys) \<Rightarrow> \<exists>zs. xs = (before @ [e]) @ zs \<and> l = zs @ ys \<and> (\<forall>e \<in> set zs. kb_deadline e \<le> d \<and> \<not> known_as p b e)
           \<and> (\<forall>e \<in> set ys. d < kb_deadline e)"
      by auto
    show ?thesis
    proof (cases r)
      case None
      then show ?thesis using r 3 m by auto
    next
      case (Some xy)
      then obtain xs ys zs where "r = Some (xs, ys)" "xs = (before @ [e]) @ zs" "l = zs @ ys"
        "\<forall>e \<in> set zs. kb_deadline e \<le> d \<and> \<not> known_as p b e" "\<forall>e \<in> set ys. d < kb_deadline e"
        using r(2) by (cases xy) auto
      then show ?thesis using 3 m r(1) by (auto intro!: exI[of _ "e # zs"])
    qed
  qed (use m in auto)
qed simp

lemma create_entry_granted:
  assumes "wf_bundle b"
  obtains e where "create_entry now b [] = Inr (Some e, [])" "kb_deadline e = bundle_get_expiration_time_s now b"
    "kb_id e = bundle_id b" "uid_source (kb_unique_identifier e) \<noteq> None" "known_as False b e"
proof -
  obtain s where s: "source b = Some s" using wf_bundle_source[OF assms] ..
  obtain q where q: "payload_of b = Some q" by (rule wf_bundle_payload[OF assms])
  show ?thesis
    using s q that
    by (simp add: create_entry_def bundle_get_unique_identifier_def known_as_def)
qed

lemma deadline_stable:
  "creation_timestamp_ms b \<noteq> 0 \<or> now' = now \<Longrightarrow> bundle_get_expiration_time_s now' b = bundle_get_expiration_time_s now b"
  by (auto simp: bundle_get_expiration_time_s_def)

lemma sorted_insert_middle:
  "sorted (map f (xs @ ys)) \<Longrightarrow> \<forall>x \<in> set xs. f x \<le> f e \<Longrightarrow> \<forall>y \<in> set ys. f e \<le> f y \<Longrightarrow> sorted (map f (xs @ e # ys))"
  by (auto simp: sorted_append)

lemma add_if_not_exists_granted:
  assumes wf: "wf_bundle b" and inv: "known_inv l"
    and dl: "\<forall>e \<in> set l. known_as p b e \<longrightarrow> kb_deadline e \<le> bundle_get_expiration_time_s now b"
    and clock: "creation_timestamp_ms b \<noteq> 0 \<or> now' = now"
  shows "\<exists>l'. add_if_not_exists now now' l b p [] = Inr (\<exists>e \<in> set l. known_as p b e, l', [])
    \<and> known_inv l' \<and> (\<exists>e \<in> set l'. known_as p b e)
    \<and> (if \<exists>e \<in> set l. known_as p b e then l' = l
       else \<exists>xs e ys. l = xs @ ys \<and> l' = xs @ e # ys \<and> kb_id e = bundle_id b
              \<and> kb_deadline e = bundle_get_expiration_time_s now b)"
proof -
  let ?d = "bundle_get_expiration_time_s now b"
  have s: "\<forall>e \<in> set l. uid_source (kb_unique_identifier e) \<noteq> None" "sorted (map kb_deadline l)"
    using inv by (auto simp: known_inv_def)
  obtain r where r: "find_position p b ?d [] l = Inr r"
    "case r of None \<Rightarrow> \<exists>e \<in> set l. known_as p b e
     | Some (xs, ys) \<Rightarrow> \<exists>zs. xs = [] @ zs \<and> l = zs @ ys \<and> (\<forall>e \<in> set zs. kb_deadline e \<le> ?d \<and> \<not> known_as p b e)
         \<and> (\<forall>e \<in> set ys. ?d < kb_deadline e)"
    using find_position_spec[OF wf s] by blast
  show ?thesis
  proof (cases r)
    case None
    then show ?thesis using r inv by (simp add: add_if_not_exists_def)
  next
    case (Some xy)
    then obtain xs ys where xy: "r = Some (xs, ys)" "l = xs @ ys" "\<forall>e \<in> set xs. kb_deadline e \<le> ?d \<and> \<not> known_as p b e"
      "\<forall>e \<in> set ys. ?d < kb_deadline e"
      using r(2) by (cases xy) auto
    obtain e where e: "create_entry now' b [] = Inr (Some e, [])" "kb_deadline e = ?d"
      "kb_id e = bundle_id b" "uid_source (kb_unique_identifier e) \<noteq> None" "known_as False b e"
      using create_entry_granted[OF wf, of now'] deadline_stable[OF clock] by metis
    define e' where "e' = (if p then e\<lparr>kb_unique_identifier := (kb_unique_identifier e)
        \<lparr>uid_fragment_offset := 0, uid_payload_length := total_adu_length b\<rparr>\<rparr> else e)"
    have e': "kb_deadline e' = ?d" "kb_id e' = bundle_id b" "uid_source (kb_unique_identifier e') \<noteq> None" "known_as p b e'"
      using e by (auto simp: known_as_def Let_def e'_def)
    have "\<not> known_as p b x" if "x \<in> set ys" for x
      using that dl xy(2,4) by (metis Un_iff leD set_append)
    then have none: "\<not> (\<exists>x \<in> set l. known_as p b x)" using xy(2,3) by auto
    have "known_inv (xs @ e' # ys)"
      using inv e' xy sorted_insert_middle[of kb_deadline xs ys e'] by (auto simp: known_inv_def less_imp_le)
    moreover have "add_if_not_exists now now' l b p [] = Inr (False, xs @ e' # ys, [])"
      using r(1) xy(1) e(1) by (simp add: add_if_not_exists_def e'_def)
    moreover have "\<exists>zs e ws. l = zs @ ws \<and> xs @ e' # ys = zs @ e # ws \<and> kb_id e = bundle_id b \<and> kb_deadline e = ?d"
      using e' xy(2) by blast
    ultimately show ?thesis using none e'(4) by (intro exI[of _ "xs @ e' # ys"]) simp
  qed
qed

text \<open>
  Adding to the list of known bundles, for bundles and for reassembled parents: with a
  well-formed bundle, an ordered list in which matching entries do not expire later than the
  bundle, and a clock that does not tick during the call when the bundle has no creation time,
  the call reports exactly whether the bundle was known, leaves the list alone if it was and
  inserts one entry with its id and deadline if it was not. The list stays ordered by deadline and
  the bundle is known afterwards.
\<close>

theorem known_bundle_list_add_correct:
  assumes "wf_bundle b" "known_inv l"
    and "\<forall>e \<in> set l. known_as p b e \<longrightarrow> kb_deadline e \<le> bundle_get_expiration_time_s now b"
    and "creation_timestamp_ms b \<noteq> 0 \<or> now' = now"
  shows "\<exists>l'. add_if_not_exists now now' l b p [] = Inr (\<exists>e \<in> set l. known_as p b e, l', [])
    \<and> known_inv l' \<and> (\<exists>e \<in> set l'. known_as p b e)
    \<and> (if \<exists>e \<in> set l. known_as p b e then l' = l
       else \<exists>xs e ys. l = xs @ ys \<and> l' = xs @ e # ys \<and> kb_id e = bundle_id b
              \<and> kb_deadline e = bundle_get_expiration_time_s now b)"
  using add_if_not_exists_granted[OF assms] .

theorem known_bundle_list_add_correct_witness:
  "\<exists>l'. add_if_not_exists 9 10 [] sample_bundle False [] = Inr (\<exists>e \<in> set []. known_as False sample_bundle e, l', [])
    \<and> known_inv l' \<and> (\<exists>e \<in> set l'. known_as False sample_bundle e)
    \<and> (if \<exists>e \<in> set []. known_as False sample_bundle e then l' = []
       else \<exists>xs e ys. [] = xs @ ys \<and> l' = xs @ e # ys \<and> kb_id e = bundle_id sample_bundle
              \<and> kb_deadline e = bundle_get_expiration_time_s 9 sample_bundle)"
  by (rule known_bundle_list_add_correct) (simp_all add: known_inv_def, simp add: sample_bundle_def)

lemma contains_reassembled_parent_iff:
  assumes "wf_bundle b" "\<forall>e \<in> set l. uid_source (kb_unique_identifier e) \<noteq> None"
  shows "known_bundle_list_contains_reassembled_parent l b = Inr (\<exists>e \<in> set l. known_as True b e)"
  using assms(2)
proof (induction l)
  case (Cons e l)
  then have "is_reassembled_parent b e = Inr (known_as True b e)"
    using known_match_wf[OF assms(1), of e True] by (simp add: known_match_def)
  then show ?case using Cons by auto
qed simp

text \<open>
  A reassembled parent that has been added is found: after the add, whichever answer it
  gave, asking for the reassembled parent of the same fragment answers yes.
\<close>

lemma known_reassembled_parent_found:
  assumes "wf_bundle b" "known_inv l"
    and "\<forall>e \<in> set l. known_as True b e \<longrightarrow> kb_deadline e \<le> bundle_get_expiration_time_s now b"
    and "creation_timestamp_ms b \<noteq> 0 \<or> now' = now"
  shows "\<exists>r l'. known_bundle_list_add_reassembled_parent now now' l b [] = Inr (r, l', [])
    \<and> known_bundle_list_contains_reassembled_parent l b = Inr r
    \<and> known_bundle_list_contains_reassembled_parent l' b = Inr True"
proof -
  obtain l' where "add_if_not_exists now now' l b True [] = Inr (\<exists>e \<in> set l. known_as True b e, l', [])"
    "known_inv l'" "\<exists>e \<in> set l'. known_as True b e"
    using add_if_not_exists_granted[OF assms] by blast
  then show ?thesis
    using contains_reassembled_parent_iff[OF assms(1)] assms(2)
    by (auto simp: known_bundle_list_add_reassembled_parent_def known_inv_def)
qed

lemma known_reassembled_parent_found_witness:
  "\<exists>r l'. known_bundle_list_add_reassembled_parent 9 9 [] sample_bundle [] = Inr (r, l', [])
    \<and> known_bundle_list_contains_reassembled_parent [] sample_bundle = Inr r
    \<and> known_bundle_list_contains_reassembled_parent l' sample_bundle = Inr True"
  by (rule known_reassembled_parent_found) (simp_all add: known_inv_def)

lemma remove_before_dropWhile:
  "known_bundle_list_remove_before l ts = dropWhile (\<lambda>e. kb_deadline e < ts) l"
  by (induction l) (auto simp: known_bundle_list_remove_before.simps)

lemma sorted_dropWhile_filter:
  fixes f :: "'a \<Rightarrow> 'b::linorder"
  shows "sorted (map f l) \<Longrightarrow> dropWhile (\<lambda>x. f x < t) l = filter (\<lambda>x. t \<le> f x) l"
proof (induction l)
  case (Cons x l)
  then show ?case by (cases "f x < t") (auto simp: not_less intro!: filter_True[symmetric] intro: order_trans)
qed simp

text \<open>
  Expiring known bundles: on an ordered list the purge removes exactly the entries whose
  deadline lies before the given time and keeps the others in order.
\<close>

theorem known_bundle_list_remove_before_correct:
  assumes "known_inv l"
  shows "known_bundle_list_remove_before l ts = filter (\<lambda>e. ts \<le> kb_deadline e) l
    \<and> known_inv (known_bundle_list_remove_before l ts)"
proof -
  have "known_bundle_list_remove_before l ts = filter (\<lambda>e. ts \<le> kb_deadline e) l"
    using assms by (simp add: remove_before_dropWhile sorted_dropWhile_filter known_inv_def del: known_bundle_list_remove_before.simps)
  moreover have "known_inv (filter (\<lambda>e. ts \<le> kb_deadline e) l)"
    using assms by (auto simp: known_inv_def intro: sorted_filter)
  ultimately show ?thesis by (simp del: known_bundle_list_remove_before.simps)
qed

definition sample_known :: known_bundle_list where
  "sample_known = [\<lparr>kb_unique_identifier = \<lparr>uid_protocol_version = 7, uid_source = Some ''dtn:a'', uid_creation_timestamp_ms = 1,
      uid_sequence_number = 1, uid_fragment_offset = 0, uid_payload_length = 4\<rparr>, kb_id = 3, kb_deadline = 5\<rparr>]"

theorem known_bundle_list_remove_before_correct_witness:
  "known_bundle_list_remove_before sample_known 7 = filter (\<lambda>e. 7 \<le> kb_deadline e) sample_known
    \<and> known_inv (known_bundle_list_remove_before sample_known 7)"
  by (rule known_bundle_list_remove_before_correct) (simp add: known_inv_def sample_known_def)

end
