(* ===== verification/Htab.thy ===== *)
theory Htab
  imports Prelude
begin

text \<open>
  The chained hash table of \<^verbatim>\<open>components/ud3tn/simplehtab.c\<close>, used for nodes, agents and CLA
  parameters. A slot is the list of its entries in chain order. The hash
  function \<^verbatim>\<open>hashlittle\<close> is vendored code: the operations take it as the argument \<open>hashlittle\<close> and
  everything is proved for every function. Its 32-bit result is cut to the 16 bits of the \<^verbatim>\<open>hash\<close>
  parameter. A key argument is its address with the string at that address, because the search
  compares addresses before it compares strings.
\<close>

section \<open>Operations\<close>

record 'v htab_entrylist =
  he_key_ptr :: nat
  he_key :: string
  he_value :: 'v

record 'v htab =
  slot_count :: u16
  elements :: "'v htab_entrylist list list"

definition htab_init :: "u16 \<Rightarrow> 'v htab" where
  "htab_init n = \<lparr>slot_count = n, elements = replicate (unat n) []\<rparr>"

definition htab_alloc :: "u16 \<Rightarrow> alloc_script \<Rightarrow> fault + ('v htab \<times> alloc_script)" where
  "htab_alloc n as =
    (if n = 0 then Inl AssertFailed
     else if \<not> malloc_ok as then Inl NullDeref
     else if \<not> malloc_ok (malloc_rest as) then Inl NullDeref
     else Inr (htab_init n, malloc_rest (malloc_rest as)))"

definition htab_trunc :: "'v htab \<Rightarrow> 'v htab" where
  "htab_trunc tab = tab\<lparr>elements := map (\<lambda>_. []) (elements tab)\<rparr>"

definition same_key :: "bool \<Rightarrow> nat \<Rightarrow> string \<Rightarrow> 'v htab_entrylist \<Rightarrow> bool" where
  "same_key compare_ptr_only kp k e \<longleftrightarrow>
    (if compare_ptr_only then he_key_ptr e = kp else he_key_ptr e = kp \<or> he_key e = k)"

text \<open>\<^verbatim>\<open>get_elist_ptr_by_hash\<close>: the position of the first matching entry in the chain of the slot.\<close>

fun chain_find :: "('v htab_entrylist \<Rightarrow> bool) \<Rightarrow> 'v htab_entrylist list \<Rightarrow> nat option" where
  "chain_find q [] = None"
| "chain_find q (e # es) = (if q e then Some 0 else map_option Suc (chain_find q es))"

definition get_elist_ptr_by_hash ::
  "'v htab \<Rightarrow> u16 \<Rightarrow> nat \<Rightarrow> string \<Rightarrow> bool \<Rightarrow> fault + nat option" where
  "get_elist_ptr_by_hash tab hash kp k compare_ptr_only =
    (if unat hash < length (elements tab)
     then Inr (chain_find (same_key compare_ptr_only kp k) (elements tab ! unat hash))
     else Inl OutOfBounds)"

text \<open>
  The copy of the key lives at the fresh address \<open>new\<close>; \<^verbatim>\<open>strncpy\<close> copies at most one character
  more than the given length. Neither allocation is checked.
\<close>

definition htab_add_known ::
  "'v htab \<Rightarrow> nat \<Rightarrow> string \<Rightarrow> u16 \<Rightarrow> nat \<Rightarrow> 'v \<Rightarrow> bool \<Rightarrow> nat \<Rightarrow> alloc_script
    \<Rightarrow> fault + ('v htab_entrylist option \<times> 'v htab \<times> alloc_script)" where
  "htab_add_known tab kp k hash key_length val compare_ptr_only new as =
    (if slot_count tab = 0 then Inl AssertFailed else
     let shash = hash mod slot_count tab in
     bindE (get_elist_ptr_by_hash tab shash kp k compare_ptr_only) (\<lambda>r.
       if r \<noteq> None then Inr (None, tab, as)
       else if \<not> malloc_ok as \<or> \<not> malloc_ok (malloc_rest as) then Inl NullDeref
       else let e = \<lparr>he_key_ptr = new, he_key = take (key_length + 1) k, he_value = val\<rparr>; i = unat shash in
         Inr (Some e, tab\<lparr>elements := (elements tab)[i := elements tab ! i @ [e]]\<rparr>,
              malloc_rest (malloc_rest as))))"

definition htab_add ::
  "(string \<Rightarrow> u32) \<Rightarrow> 'v htab \<Rightarrow> nat \<Rightarrow> string \<Rightarrow> 'v \<Rightarrow> nat \<Rightarrow> alloc_script
    \<Rightarrow> fault + ('v htab_entrylist option \<times> 'v htab \<times> alloc_script)" where
  "htab_add hashlittle tab kp k val new as =
    htab_add_known tab kp k (ucast (hashlittle k)) (length k) val False new as"

definition htab_get_known_pair ::
  "'v htab \<Rightarrow> nat \<Rightarrow> string \<Rightarrow> u16 \<Rightarrow> bool \<Rightarrow> fault + 'v htab_entrylist option" where
  "htab_get_known_pair tab kp k hash compare_ptr_only =
    (if slot_count tab = 0 then Inl AssertFailed else
     let shash = hash mod slot_count tab in
     bindE (get_elist_ptr_by_hash tab shash kp k compare_ptr_only) (\<lambda>r.
       Inr (case r of None \<Rightarrow> None | Some j \<Rightarrow> Some (elements tab ! unat shash ! j))))"

definition htab_get_known :: "'v htab \<Rightarrow> nat \<Rightarrow> string \<Rightarrow> u16 \<Rightarrow> bool \<Rightarrow> fault + 'v option" where
  "htab_get_known tab kp k hash compare_ptr_only =
    (if slot_count tab = 0 then Inl AssertFailed else
     let shash = hash mod slot_count tab in
     bindE (get_elist_ptr_by_hash tab shash kp k compare_ptr_only) (\<lambda>r.
       Inr (case r of None \<Rightarrow> None | Some j \<Rightarrow> Some (he_value (elements tab ! unat shash ! j)))))"

definition htab_get :: "(string \<Rightarrow> u32) \<Rightarrow> 'v htab \<Rightarrow> nat \<Rightarrow> string \<Rightarrow> fault + 'v option" where
  "htab_get hashlittle tab kp k = htab_get_known tab kp k (ucast (hashlittle k)) False"

definition htab_get_pair :: "(string \<Rightarrow> u32) \<Rightarrow> 'v htab \<Rightarrow> nat \<Rightarrow> string \<Rightarrow> fault + 'v htab_entrylist option" where
  "htab_get_pair hashlittle tab kp k = htab_get_known_pair tab kp k (ucast (hashlittle k)) False"

definition htab_remove_known ::
  "'v htab \<Rightarrow> nat \<Rightarrow> string \<Rightarrow> u16 \<Rightarrow> bool \<Rightarrow> fault + ('v option \<times> 'v htab)" where
  "htab_remove_known tab kp k hash compare_ptr_only =
    (if slot_count tab = 0 then Inl AssertFailed else
     let shash = hash mod slot_count tab; i = unat shash in
     bindE (get_elist_ptr_by_hash tab shash kp k compare_ptr_only) (\<lambda>r.
       case r of None \<Rightarrow> Inr (None, tab)
       | Some j \<Rightarrow> (let c = elements tab ! i in
           Inr (Some (he_value (c ! j)), tab\<lparr>elements := (elements tab)[i := take j c @ drop (Suc j) c]\<rparr>))))"

definition htab_remove :: "(string \<Rightarrow> u32) \<Rightarrow> 'v htab \<Rightarrow> nat \<Rightarrow> string \<Rightarrow> fault + ('v option \<times> 'v htab)" where
  "htab_remove hashlittle tab kp k = htab_remove_known tab kp k (ucast (hashlittle k)) False"

section \<open>The table is a map\<close>

definition slot_of :: "(string \<Rightarrow> u32) \<Rightarrow> 'v htab \<Rightarrow> string \<Rightarrow> nat" where
  "slot_of hl tab k = unat (ucast (hl k) mod slot_count tab :: u16)"

text \<open>Every entry is in the slot of its key, and the keys of a slot differ.\<close>

definition htab_inv :: "(string \<Rightarrow> u32) \<Rightarrow> 'v htab \<Rightarrow> bool" where
  "htab_inv hl tab \<longleftrightarrow> slot_count tab \<noteq> 0 \<and> length (elements tab) = unat (slot_count tab)
     \<and> (\<forall>i < length (elements tab). distinct (map he_key (elements tab ! i))
          \<and> (\<forall>e \<in> set (elements tab ! i). slot_of hl tab (he_key e) = i))"

text \<open>The caller's key string is not at the address of a stored copy of another string.\<close>

definition ptr_ok :: "'v htab \<Rightarrow> nat \<Rightarrow> string \<Rightarrow> bool" where
  "ptr_ok tab kp k \<longleftrightarrow> (\<forall>c \<in> set (elements tab). \<forall>e \<in> set c. he_key_ptr e = kp \<longrightarrow> he_key e = k)"

definition htab_map :: "(string \<Rightarrow> u32) \<Rightarrow> 'v htab \<Rightarrow> string \<Rightarrow> 'v option" where
  "htab_map hl tab k = map_of (map (\<lambda>e. (he_key e, he_value e)) (elements tab ! slot_of hl tab k)) k"

lemma slot_of_less: "htab_inv hl tab \<Longrightarrow> slot_of hl tab k < length (elements tab)"
  by (simp add: htab_inv_def slot_of_def unat_mod unat_gt_0)

lemma chain_find_None: "chain_find q c = None \<longleftrightarrow> (\<forall>e \<in> set c. \<not> q e)"
  by (induction c) auto

lemma chain_find_Some: "chain_find q c = Some j \<Longrightarrow> j < length c \<and> q (c ! j)"
  by (induction c arbitrary: j) (auto split: if_splits)

lemma ptr_ok_same_key:
  "ptr_ok tab kp k \<Longrightarrow> c \<in> set (elements tab) \<Longrightarrow> e \<in> set c \<Longrightarrow> same_key False kp k e \<longleftrightarrow> he_key e = k"
  by (auto simp: ptr_ok_def same_key_def)

lemma map_of_chain_nth:
  "distinct (map he_key c) \<Longrightarrow> j < length c \<Longrightarrow>
   map_of (map (\<lambda>e. (he_key e, he_value e)) c) (he_key (c ! j)) = Some (he_value (c ! j))"
  by (rule map_of_is_SomeI) (auto simp: comp_def intro!: image_eqI[of _ _ "c ! j"])

lemma map_of_chain_None:
  "map_of (map (\<lambda>e. (he_key e, he_value e)) c) k = None \<longleftrightarrow> (\<forall>e \<in> set c. he_key e \<noteq> k)"
  by (induction c) auto

lemma map_of_snoc:
  "map_of (xs @ [(k, v)]) j = (case map_of xs j of None \<Rightarrow> if j = k then Some v else None | Some w \<Rightarrow> Some w)"
  by (simp add: map_add_def split: option.splits)

text \<open>The search in a slot finds the key exactly where the map has it.\<close>

lemma chain_find_key:
  assumes "htab_inv hl tab" "ptr_ok tab kp k"
  shows "get_elist_ptr_by_hash tab (ucast (hl k) mod slot_count tab) kp k False
     = Inr (chain_find (\<lambda>e. he_key e = k) (elements tab ! slot_of hl tab k))"
proof -
  have "chain_find (same_key False kp k) c = chain_find (\<lambda>e. he_key e = k) c" if "c \<in> set (elements tab)" for c
    using ptr_ok_same_key[OF assms(2) that] by (induction c) auto
  then show ?thesis using slot_of_less[OF assms(1), of k] by (simp add: get_elist_ptr_by_hash_def slot_of_def)
qed

lemma htab_map_find:
  assumes "htab_inv hl tab"
  shows "htab_map hl tab k = (case chain_find (\<lambda>e. he_key e = k) (elements tab ! slot_of hl tab k) of
      None \<Rightarrow> None | Some j \<Rightarrow> Some (he_value (elements tab ! slot_of hl tab k ! j)))"
proof (cases "chain_find (\<lambda>e. he_key e = k) (elements tab ! slot_of hl tab k)")
  case None
  then show ?thesis using map_of_chain_None by (simp add: htab_map_def) (auto simp: chain_find_None)
next
  case (Some j)
  have "distinct (map he_key (elements tab ! slot_of hl tab k))"
    using assms slot_of_less[OF assms, of k] by (simp add: htab_inv_def)
  then show ?thesis using Some map_of_chain_nth chain_find_Some[OF Some] by (fastforce simp: htab_map_def)
qed

lemma htab_get_map:
  assumes "htab_inv hl tab" "ptr_ok tab kp k"
  shows "htab_get hl tab kp k = Inr (htab_map hl tab k)"
  using chain_find_key[OF assms] assms(1) unfolding htab_map_find[OF assms(1)]
  by (simp add: htab_get_def htab_get_known_def htab_inv_def slot_of_def Let_def split: option.split)

lemma htab_add_new:
  assumes inv: "htab_inv hl tab" and ptr: "ptr_ok tab kp k" and new: "htab_map hl tab k = None"
  shows "\<exists>e tab'. htab_add hl tab kp k v p [] = Inr (Some e, tab', []) \<and> htab_inv hl tab'
    \<and> (\<forall>j. htab_map hl tab' j = (if j = k then Some v else htab_map hl tab j))"
proof -
  let ?i = "slot_of hl tab k"
  let ?e = "\<lparr>he_key_ptr = p, he_key = k, he_value = v\<rparr>"
  let ?t = "tab\<lparr>elements := (elements tab)[?i := elements tab ! ?i @ [?e]]\<rparr>"
  have i: "?i < length (elements tab)" by (rule slot_of_less[OF inv])
  have none: "chain_find (\<lambda>e. he_key e = k) (elements tab ! ?i) = None"
    using new htab_map_find[OF inv, of k] by (auto split: option.splits)
  then have k: "k \<notin> he_key ` set (elements tab ! ?i)" by (auto simp: chain_find_None)
  have s: "slot_of hl ?t = slot_of hl tab" by (simp add: slot_of_def fun_eq_iff)
  have "htab_add hl tab kp k v p [] = Inr (Some ?e, ?t, [])"
    using inv chain_find_key[OF inv ptr] none
    by (simp add: htab_add_def htab_add_known_def htab_inv_def slot_of_def Let_def)
  moreover have "htab_inv hl ?t"
    using inv i k unfolding htab_inv_def s by (auto simp: nth_list_update)
  moreover have "htab_map hl ?t j = (if j = k then Some v else htab_map hl tab j)" for j
    using i k map_of_chain_None[of "elements tab ! ?i" k] unfolding htab_map_def s
    by (cases "slot_of hl tab j = ?i") (auto simp: map_of_snoc split: option.splits simp del: map_of_append)
  ultimately show ?thesis by blast
qed

lemma htab_add_old:
  assumes inv: "htab_inv hl tab" and ptr: "ptr_ok tab kp k" and old: "htab_map hl tab k \<noteq> None"
  shows "htab_add hl tab kp k v p as = Inr (None, tab, as)"
proof -
  have "chain_find (\<lambda>e. he_key e = k) (elements tab ! slot_of hl tab k) \<noteq> None"
    using old htab_map_find[OF inv, of k] by (auto split: option.splits)
  then show ?thesis
    using inv chain_find_key[OF inv ptr]
    by (auto simp: htab_add_def htab_add_known_def htab_inv_def slot_of_def Let_def)
qed

lemma htab_remove_map:
  assumes inv: "htab_inv hl tab" and ptr: "ptr_ok tab kp k"
  shows "\<exists>tab'. htab_remove hl tab kp k = Inr (htab_map hl tab k, tab') \<and> htab_inv hl tab'
    \<and> (\<forall>j. htab_map hl tab' j = (if j = k then None else htab_map hl tab j))"
proof (cases "chain_find (\<lambda>e. he_key e = k) (elements tab ! slot_of hl tab k)")
  case None
  then have "htab_map hl tab k = None" using htab_map_find[OF inv, of k] by simp
  moreover have "htab_remove hl tab kp k = Inr (None, tab)"
    using None inv chain_find_key[OF inv ptr]
    by (simp add: htab_remove_def htab_remove_known_def htab_inv_def slot_of_def Let_def)
  ultimately show ?thesis using inv by auto
next
  case (Some n)
  let ?i = "slot_of hl tab k"
  let ?c = "elements tab ! ?i"
  let ?t = "tab\<lparr>elements := (elements tab)[?i := take n ?c @ drop (Suc n) ?c]\<rparr>"
  have i: "?i < length (elements tab)" by (rule slot_of_less[OF inv])
  have n: "n < length ?c" "he_key (?c ! n) = k" using chain_find_Some[OF Some] by auto
  have split: "?c = take n ?c @ ?c ! n # drop (Suc n) ?c" using n(1) by (rule id_take_nth_drop)
  have d: "distinct (map he_key ?c)" "\<forall>e \<in> set ?c. slot_of hl tab (he_key e) = ?i"
    using inv i by (auto simp: htab_inv_def)
  have k: "k \<notin> he_key ` set (take n ?c @ drop (Suc n) ?c)"
    using d(1) n(2) by (subst (asm) split) auto
  have s: "slot_of hl ?t = slot_of hl tab" by (simp add: slot_of_def fun_eq_iff)
  have "htab_remove hl tab kp k = Inr (htab_map hl tab k, ?t)"
    using Some inv chain_find_key[OF inv ptr] htab_map_find[OF inv, of k]
    by (simp add: htab_remove_def htab_remove_known_def htab_inv_def slot_of_def Let_def)
  moreover have "htab_inv hl ?t"
  proof -
    have "distinct (map he_key (take n ?c @ drop (Suc n) ?c))" using d(1) by (subst (asm) split) auto
    moreover have "set (take n ?c @ drop (Suc n) ?c) \<subseteq> set ?c"
      using set_take_subset set_drop_subset by fastforce
    ultimately show ?thesis using inv i d(2) unfolding htab_inv_def s by (auto simp: nth_list_update)
  qed
  moreover have "htab_map hl ?t j = (if j = k then None else htab_map hl tab j)" for j
  proof (cases "slot_of hl tab j = ?i")
    case True
    let ?f = "\<lambda>e. (he_key e, he_value e)"
    have "map_of (map ?f ?c) j = map_of (map ?f (take n ?c @ drop (Suc n) ?c)) j" if "j \<noteq> k"
      using that n(2) by (subst split) (simp add: map_add_def split: option.splits)
    moreover have "map_of (map ?f (take n ?c @ drop (Suc n) ?c)) k = None"
      using k by (auto simp: map_of_eq_None_iff simp del: map_append)
    ultimately show ?thesis using i True unfolding htab_map_def s by auto
  next
    case False
    then show ?thesis using i unfolding htab_map_def s by auto
  qed
  ultimately show ?thesis by blast
qed

lemma htab_init_inv: "n \<noteq> 0 \<Longrightarrow> htab_inv hl (htab_init n)"
  by (simp add: htab_inv_def htab_init_def)

section \<open>The interface of a table\<close>

text \<open>
  What the clients of the table (agents, nodes, CLA parameters) rely on, with \<open>look\<close> the abstract map and \<open>ok\<close> the
  condition on a key argument.
\<close>

locale dictionary =
  fixes inv :: "'t \<Rightarrow> bool" and look :: "'t \<Rightarrow> 'k \<Rightarrow> 'v option" and ok :: "'t \<Rightarrow> 'p \<Rightarrow> 'k \<Rightarrow> bool"
    and get :: "'t \<Rightarrow> 'p \<Rightarrow> 'k \<Rightarrow> 'e + 'v option"
    and add :: "'t \<Rightarrow> 'p \<Rightarrow> 'k \<Rightarrow> 'v \<Rightarrow> 'e + (bool \<times> 't)"
    and remove :: "'t \<Rightarrow> 'p \<Rightarrow> 'k \<Rightarrow> 'e + ('v option \<times> 't)"
  assumes get_look: "inv t \<Longrightarrow> ok t p k \<Longrightarrow> get t p k = Inr (look t k)"
    and add_look: "inv t \<Longrightarrow> ok t p k \<Longrightarrow>
      \<exists>t'. add t p k v = Inr (look t k = None, t') \<and> inv t' \<and> look t' = (if look t k = None then (look t)(k \<mapsto> v) else look t)"
    and remove_look: "inv t \<Longrightarrow> ok t p k \<Longrightarrow>
      \<exists>t'. remove t p k = Inr (look t k, t') \<and> inv t' \<and> look t' = (look t)(k := None)"
begin

text \<open>A key that was added is found; adding it again changes nothing.\<close>

lemma add_get:
  assumes "inv t" "ok t p k" "add t p k v = Inr (r, t')" "ok t' q k"
  shows "get t' q k = Inr (Some (if r then v else the (look t k)))"
  using add_look[OF assms(1,2), of v] assms get_look[of t' q k] by auto

lemma add_add:
  assumes "inv t" "ok t p k" "add t p k v = Inr (r, t')" "ok t' q k"
  shows "\<exists>t''. add t' q k w = Inr (False, t'') \<and> look t'' = look t'"
  using add_look[OF assms(1,2), of v] assms add_look[of t' q k w] by (auto split: if_splits)

text \<open>A removed key is absent and can be added again.\<close>

lemma remove_get:
  assumes "inv t" "ok t p k" "remove t p k = Inr (r, t')" "ok t' q k"
  shows "r = look t k \<and> get t' q k = Inr None"
  using remove_look[OF assms(1,2)] assms get_look[of t' q k] by auto

lemma remove_add:
  assumes "inv t" "ok t p k" "remove t p k = Inr (r, t')" "ok t' q k"
  shows "\<exists>t''. add t' q k v = Inr (True, t'') \<and> look t'' = (look t)(k \<mapsto> v)"
  using remove_look[OF assms(1,2)] assms add_look[of t' q k v] by auto

end

text \<open>The table's own operations behind this interface; the address of the copied key is any number.\<close>

definition htab_add_result ::
  "(string \<Rightarrow> u32) \<Rightarrow> nat \<Rightarrow> 'v htab \<Rightarrow> nat \<Rightarrow> string \<Rightarrow> 'v \<Rightarrow> fault + (bool \<times> 'v htab)" where
  "htab_add_result hl new tab kp k v =
    bindE (htab_add hl tab kp k v new []) (\<lambda>(e, tab', as). Inr (e \<noteq> None, tab'))"

interpretation htab_dict: dictionary "htab_inv hl" "htab_map hl" ptr_ok "htab_get hl" "htab_add_result hl new" "htab_remove hl"
proof
  fix t :: "'a htab" and p k v
  assume i: "htab_inv hl t" "ptr_ok t p k"
  show "htab_get hl t p k = Inr (htab_map hl t k)" by (rule htab_get_map[OF i])
  show "\<exists>t'. htab_add_result hl new t p k v = Inr (htab_map hl t k = None, t') \<and> htab_inv hl t'
      \<and> htab_map hl t' = (if htab_map hl t k = None then (htab_map hl t)(k \<mapsto> v) else htab_map hl t)"
  proof (cases "htab_map hl t k")
    case None
    then show ?thesis using htab_add_new[OF i None, of v new] by (auto simp: htab_add_result_def fun_eq_iff)
  next
    case (Some w)
    then show ?thesis using htab_add_old[OF i, of v new "[]"] i by (simp add: htab_add_result_def)
  qed
  show "\<exists>t'. htab_remove hl t p k = Inr (htab_map hl t k, t') \<and> htab_inv hl t' \<and> htab_map hl t' = (htab_map hl t)(k := None)"
    using htab_remove_map[OF i] by (auto simp: fun_eq_iff)
qed

text \<open>
  C20. For every hash function the chained table behaves as a map from strings: a lookup never
  faults and returns what the map holds, an added key is found with its value while an existing key keeps
  its old one, and a removal returns the value and leaves the key absent; no other key changes and
  the table stays well-formed.
\<close>

theorem htab_refines_map:
  assumes "htab_inv hl tab" "ptr_ok tab kp k"
  shows "htab_get hl tab kp k = Inr (htab_map hl tab k)
    \<and> (\<exists>e tab'. htab_add hl tab kp k v new [] = Inr (e, tab', []) \<and> (e = None \<longleftrightarrow> htab_map hl tab k \<noteq> None)
         \<and> htab_inv hl tab' \<and> htab_map hl tab' = (htab_map hl tab)(k := Some (case htab_map hl tab k of None \<Rightarrow> v | Some w \<Rightarrow> w)))
    \<and> (\<exists>tab'. htab_remove hl tab kp k = Inr (htab_map hl tab k, tab') \<and> htab_inv hl tab'
         \<and> htab_map hl tab' = (htab_map hl tab)(k := None))"
proof -
  have "\<exists>e tab'. htab_add hl tab kp k v new [] = Inr (e, tab', []) \<and> (e = None \<longleftrightarrow> htab_map hl tab k \<noteq> None)
         \<and> htab_inv hl tab' \<and> htab_map hl tab' = (htab_map hl tab)(k := Some (case htab_map hl tab k of None \<Rightarrow> v | Some w \<Rightarrow> w))"
  proof (cases "htab_map hl tab k")
    case None
    from htab_add_new[OF assms None, of v new] show ?thesis using None by (auto simp: fun_eq_iff)
  next
    case (Some w)
    then show ?thesis using htab_add_old[OF assms, of v new "[]"] assms(1) by (auto simp: fun_eq_iff)
  qed
  then show ?thesis using htab_dict.get_look[OF assms] htab_dict.remove_look[OF assms] by blast
qed

theorem htab_refines_map_witness:
  "htab_get (\<lambda>_. 7) (htab_init 4 :: nat htab) 1 ''x'' = Inr (htab_map (\<lambda>_. 7) (htab_init 4 :: nat htab) ''x'')
    \<and> (\<exists>e tab'. htab_add (\<lambda>_. 7) (htab_init 4 :: nat htab) 1 ''x'' 5 9 [] = Inr (e, tab', [])
         \<and> (e = None \<longleftrightarrow> htab_map (\<lambda>_. 7) (htab_init 4 :: nat htab) ''x'' \<noteq> None)
         \<and> htab_inv (\<lambda>_. 7) tab' \<and> htab_map (\<lambda>_. 7) tab' = (htab_map (\<lambda>_. 7) (htab_init 4 :: nat htab))
             (''x'' := Some (case htab_map (\<lambda>_. 7) (htab_init 4 :: nat htab) ''x'' of None \<Rightarrow> 5 | Some w \<Rightarrow> w)))
    \<and> (\<exists>tab'. htab_remove (\<lambda>_. 7) (htab_init 4 :: nat htab) 1 ''x'' = Inr (htab_map (\<lambda>_. 7) (htab_init 4 :: nat htab) ''x'', tab')
         \<and> htab_inv (\<lambda>_. 7) tab' \<and> htab_map (\<lambda>_. 7) tab' = (htab_map (\<lambda>_. 7) (htab_init 4 :: nat htab))(''x'' := None))"
  by (rule htab_refines_map) (simp_all add: htab_init_inv, simp add: ptr_ok_def htab_init_def)

end
