(* ===== verification/Summary_Vector.thy ===== *)
theory Summary_Vector
  imports Bundle "HOL-Library.Multiset"
begin

unbundle bit_operations_syntax

text \<open>
  Summary vectors of \<^verbatim>\<open>components/routing/epidemic/summary_vector.c\<close>: the growing arrays of
  8-byte bundle hashes two nodes exchange to find out which bundles to offer and to request, with their
  difference, their memory image and their order-independent characteristic. The array is the list of its filled
  entries, with \<^verbatim>\<open>length\<close> and \<^verbatim>\<open>capacity\<close> as the 32-bit counters of the source. The hash
  function \<^verbatim>\<open>hal_hash\<close> belongs to the platform and is an argument of the operations that use it.
\<close>

section \<open>Vectors\<close>

definition SUMMARY_VECTOR_ENTRY_HASH_LENGTH :: nat where "SUMMARY_VECTOR_ENTRY_HASH_LENGTH = 8"
definition SUMMARY_VECTOR_DEFAULT_CAPACITY :: u32 where "SUMMARY_VECTOR_DEFAULT_CAPACITY = 8"
definition SUMMARY_VECTOR_CHARACTERISTIC_HASH_LENGTH :: nat where "SUMMARY_VECTOR_CHARACTERISTIC_HASH_LENGTH = 8"
definition UD3TN_HASH_LENGTH :: nat where "UD3TN_HASH_LENGTH = 32"
definition EID_NONE :: eid where "EID_NONE = ''dtn:none''"

lemmas sv_const_defs = SUMMARY_VECTOR_ENTRY_HASH_LENGTH_def SUMMARY_VECTOR_DEFAULT_CAPACITY_def
  SUMMARY_VECTOR_CHARACTERISTIC_HASH_LENGTH_def UD3TN_HASH_LENGTH_def

type_synonym summary_vector_entry = "u8 list"

record summary_vector =
  sv_length :: u32
  sv_capacity :: u32
  sv_entries :: "summary_vector_entry list"

definition summary_vector_increase_size ::
  "summary_vector \<Rightarrow> alloc_script \<Rightarrow> fault + (summary_vector \<times> alloc_script)" where
  "summary_vector_increase_size sv as =
    (let new_capacity = sv_capacity sv * 2 in
     if \<not> malloc_ok as then Inr (sv, malloc_rest as)
     else if new_capacity < sv_length sv then Inl OutOfBounds
     else Inr (sv\<lparr>sv_capacity := new_capacity\<rparr>, malloc_rest as))"

definition summary_vector_create_with_capacity :: "u32 \<Rightarrow> alloc_script \<Rightarrow> summary_vector option \<times> alloc_script" where
  "summary_vector_create_with_capacity capacity as =
    (if \<not> malloc_ok as then (None, malloc_rest as)
     else if \<not> malloc_ok (malloc_rest as) then (None, malloc_rest (malloc_rest as))
     else (Some \<lparr>sv_length = 0, sv_capacity = capacity, sv_entries = []\<rparr>, malloc_rest (malloc_rest as)))"

definition summary_vector_create :: "alloc_script \<Rightarrow> summary_vector option \<times> alloc_script" where
  "summary_vector_create as = summary_vector_create_with_capacity SUMMARY_VECTOR_DEFAULT_CAPACITY as"

fun chop :: "nat \<Rightarrow> nat \<Rightarrow> 'a list \<Rightarrow> 'a list list" where
  "chop n 0 xs = []"
| "chop n (Suc m) xs = take n xs # chop n m (drop n xs)"

text \<open>The bytes at \<open>src\<close> are the region that starts there; copying beyond its end or beyond the new array is a fault.\<close>

definition summary_vector_create_from_memory ::
  "u8 list \<Rightarrow> nat \<Rightarrow> alloc_script \<Rightarrow> fault + (summary_vector option \<times> alloc_script)" where
  "summary_vector_create_from_memory src num_bytes as =
    (if num_bytes mod SUMMARY_VECTOR_ENTRY_HASH_LENGTH \<noteq> 0 then Inr (None, as)
     else let capacity = of_nat (num_bytes div SUMMARY_VECTOR_ENTRY_HASH_LENGTH) :: u32 in
       case summary_vector_create_with_capacity capacity as of
         (None, as') \<Rightarrow> Inr (None, as')
       | (Some sv, as') \<Rightarrow>
           if length src < num_bytes \<or> unat capacity * SUMMARY_VECTOR_ENTRY_HASH_LENGTH < num_bytes then Inl OutOfBounds
           else Inr (Some (sv\<lparr>sv_length := capacity,
                  sv_entries := chop SUMMARY_VECTOR_ENTRY_HASH_LENGTH (unat capacity) src\<rparr>), as'))"

definition summary_vector_memory_size :: "summary_vector \<Rightarrow> nat" where
  "summary_vector_memory_size sv = unat (sv_length sv) * SUMMARY_VECTOR_ENTRY_HASH_LENGTH"

definition summary_vector_copy_to_memory :: "summary_vector \<Rightarrow> u8 list" where
  "summary_vector_copy_to_memory sv = take (summary_vector_memory_size sv) (concat (sv_entries sv))"

section \<open>Entries\<close>

definition summary_vector_entry_equal :: "summary_vector_entry \<Rightarrow> summary_vector_entry \<Rightarrow> bool" where
  "summary_vector_entry_equal a b \<longleftrightarrow>
     take SUMMARY_VECTOR_ENTRY_HASH_LENGTH a = take SUMMARY_VECTOR_ENTRY_HASH_LENGTH b"

text \<open>The bytes of a word as they lie in the memory of a little-endian machine.\<close>

definition le_bytes :: "nat \<Rightarrow> 'a::len word \<Rightarrow> u8 list" where
  "le_bytes n w = map (\<lambda>i. ucast (drop_bit (8 * i) w)) [0..<n]"

text \<open>The packed structure \<^verbatim>\<open>summary_vector_entry_hashable\<close> that is hashed.\<close>

definition summary_vector_entry_hashable :: "(u8 list \<Rightarrow> u8 list) \<Rightarrow> bundle_unique_identifier \<Rightarrow> u8 list" where
  "summary_vector_entry_hashable hal_hash i =
     hal_hash (string_bytes (case uid_source i of Some s \<Rightarrow> s | None \<Rightarrow> EID_NONE))
     @ le_bytes 8 (uid_creation_timestamp_ms i) @ le_bytes 8 (uid_sequence_number i)
     @ le_bytes 4 (uid_fragment_offset i) @ le_bytes 4 (uid_payload_length i)
     @ le_bytes 1 (uid_protocol_version i)"

definition summary_vector_entry_from_bundle_unique_identifier ::
  "(u8 list \<Rightarrow> u8 list) \<Rightarrow> bundle_unique_identifier \<Rightarrow> summary_vector_entry" where
  "summary_vector_entry_from_bundle_unique_identifier hal_hash i =
     take SUMMARY_VECTOR_ENTRY_HASH_LENGTH (hal_hash (summary_vector_entry_hashable hal_hash i))"

definition summary_vector_entry_from_bundle ::
  "(u8 list \<Rightarrow> u8 list) \<Rightarrow> bundle_t \<Rightarrow> alloc_script \<Rightarrow> fault + (summary_vector_entry \<times> alloc_script)" where
  "summary_vector_entry_from_bundle hal_hash b as =
     bindE (bundle_get_unique_identifier b as) (\<lambda>(i, as').
       Inr (summary_vector_entry_from_bundle_unique_identifier hal_hash i, as'))"

section \<open>Search, insertion and difference\<close>

fun entries_contain :: "summary_vector_entry list \<Rightarrow> summary_vector_entry \<Rightarrow> bool" where
  "entries_contain [] e = False"
| "entries_contain (x # xs) e = (if summary_vector_entry_equal e x then True else entries_contain xs e)"

definition summary_vector_contains_entry :: "summary_vector \<Rightarrow> summary_vector_entry \<Rightarrow> bool" where
  "summary_vector_contains_entry sv e = entries_contain (take (unat (sv_length sv)) (sv_entries sv)) e"

definition summary_vector_contains_bundle_unique_identifier ::
  "(u8 list \<Rightarrow> u8 list) \<Rightarrow> summary_vector \<Rightarrow> bundle_unique_identifier \<Rightarrow> bool" where
  "summary_vector_contains_bundle_unique_identifier hal_hash sv i =
     summary_vector_contains_entry sv (summary_vector_entry_from_bundle_unique_identifier hal_hash i)"

definition summary_vector_add_entry_by_copy ::
  "summary_vector \<Rightarrow> summary_vector_entry \<Rightarrow> alloc_script \<Rightarrow> fault + (ud3tn_result \<times> summary_vector \<times> alloc_script)" where
  "summary_vector_add_entry_by_copy sv e as =
     bindE (if sv_length sv = sv_capacity sv then summary_vector_increase_size sv as else Inr (sv, as)) (\<lambda>(sv', as').
       if sv_length sv' = sv_capacity sv' then Inr (UD3TN_FAIL, sv', as')
       else Inr (UD3TN_OK, sv'\<lparr>sv_entries := sv_entries sv' @ [e], sv_length := sv_length sv' + 1\<rparr>, as'))"

fun diff_loop ::
  "summary_vector_entry list \<Rightarrow> summary_vector \<Rightarrow> summary_vector \<Rightarrow> alloc_script
    \<Rightarrow> fault + (summary_vector option \<times> alloc_script)" where
  "diff_loop [] b diff as = Inr (Some diff, as)"
| "diff_loop (e # es) b diff as =
    (if summary_vector_contains_entry b e then diff_loop es b diff as
     else bindE (summary_vector_add_entry_by_copy diff e as) (\<lambda>(r, diff', as').
       case r of UD3TN_OK \<Rightarrow> diff_loop es b diff' as' | UD3TN_FAIL \<Rightarrow> Inr (None, as')))"

definition summary_vector_create_diff ::
  "summary_vector \<Rightarrow> summary_vector \<Rightarrow> alloc_script \<Rightarrow> fault + (summary_vector option \<times> alloc_script)" where
  "summary_vector_create_diff a b as = (case summary_vector_create as of
     (None, as') \<Rightarrow> Inr (None, as')
   | (Some diff, as') \<Rightarrow> diff_loop (take (unat (sv_length a)) (sv_entries a)) b diff as')"

section \<open>Characteristic\<close>

definition summary_vector_characteristic_init :: "u8 list" where
  "summary_vector_characteristic_init = replicate SUMMARY_VECTOR_CHARACTERISTIC_HASH_LENGTH 0"

text \<open>The inner loop over the bytes of one entry, with the running index \<open>k\<close>.\<close>

fun characteristic_entry :: "u8 list \<Rightarrow> nat \<Rightarrow> u8 list \<Rightarrow> u8 list" where
  "characteristic_entry [] k h = h"
| "characteristic_entry (c # cs) k h =
     characteristic_entry cs ((k + 1) mod SUMMARY_VECTOR_CHARACTERISTIC_HASH_LENGTH) (h[k := h ! k XOR c])"

definition summary_vector_characteristic_calculate :: "summary_vector \<Rightarrow> u8 list" where
  "summary_vector_characteristic_calculate sv =
     fold (\<lambda>e h. characteristic_entry (take SUMMARY_VECTOR_ENTRY_HASH_LENGTH e) 0 h)
       (take (unat (sv_length sv)) (sv_entries sv)) summary_vector_characteristic_init"

definition summary_vector_characteristic_equals :: "u8 list \<Rightarrow> u8 list \<Rightarrow> bool" where
  "summary_vector_characteristic_equals a b \<longleftrightarrow>
     take SUMMARY_VECTOR_CHARACTERISTIC_HASH_LENGTH a = take SUMMARY_VECTOR_CHARACTERISTIC_HASH_LENGTH b"

section \<open>Well-formed vectors\<close>

definition sv_inv :: "summary_vector \<Rightarrow> bool" where
  "sv_inv sv \<longleftrightarrow> length (sv_entries sv) = unat (sv_length sv) \<and> sv_length sv \<le> sv_capacity sv
     \<and> (\<forall>e \<in> set (sv_entries sv). length e = SUMMARY_VECTOR_ENTRY_HASH_LENGTH)"

lemma sv_inv_length: "sv_inv sv \<Longrightarrow> take (unat (sv_length sv)) (sv_entries sv) = sv_entries sv"
  by (simp add: sv_inv_def)

lemma entries_contain_mem:
  "(\<forall>x \<in> set xs. length x = 8) \<Longrightarrow> length e = 8 \<Longrightarrow> entries_contain xs e \<longleftrightarrow> e \<in> set xs"
  by (induction xs) (auto simp: summary_vector_entry_equal_def sv_const_defs)

lemma contains_entry_mem:
  "sv_inv sv \<Longrightarrow> length e = SUMMARY_VECTOR_ENTRY_HASH_LENGTH \<Longrightarrow> summary_vector_contains_entry sv e \<longleftrightarrow> e \<in> set (sv_entries sv)"
  by (simp add: summary_vector_contains_entry_def sv_inv_length) (simp add: sv_inv_def sv_const_defs entries_contain_mem)

lemma unat_double: "unat (c :: u32) < 2 ^ 31 \<Longrightarrow> unat (c * 2) = unat c * 2"
  by (simp add: unat_word_ariths)

lemma add_entry_cases:
  assumes "sv_inv sv" "length e = SUMMARY_VECTOR_ENTRY_HASH_LENGTH" "unat (sv_length sv) < 2 ^ 31"
    "sv_capacity sv \<noteq> 0"
  shows "\<exists>sv' as'. summary_vector_add_entry_by_copy sv e as = Inr (if sv_length sv < sv_capacity sv \<or> malloc_ok as then UD3TN_OK else UD3TN_FAIL, sv', as')
    \<and> sv_inv sv' \<and> sv_capacity sv' \<noteq> 0 \<and> (as = [] \<longrightarrow> as' = [])
    \<and> sv_entries sv' = (if sv_length sv < sv_capacity sv \<or> malloc_ok as then sv_entries sv @ [e] else sv_entries sv)"
proof -
  have ok: "\<exists>sv'. summary_vector_add_entry_by_copy sv0 e as0 = Inr (UD3TN_OK, sv', as0)
      \<and> sv_inv sv' \<and> sv_capacity sv' \<noteq> 0 \<and> sv_entries sv' = sv_entries sv0 @ [e]"
    if s: "sv_inv sv0" "sv_length sv0 < sv_capacity sv0" for sv0 as0
  proof -
    have u: "unat (sv_length sv0 + 1) = unat (sv_length sv0) + 1" "sv_length sv0 + 1 \<le> sv_capacity sv0"
      using s(2) by (rule unat_inc_less, rule inc_le_less)
    show ?thesis using s u assms(2)
      by (auto simp: summary_vector_add_entry_by_copy_def sv_inv_def)
  qed
  show ?thesis
  proof (cases "sv_length sv < sv_capacity sv")
    case True
    then show ?thesis using ok[OF assms(1) True, of as] by auto
  next
    case False
    then have eq: "sv_capacity sv = sv_length sv" using assms(1) by (simp add: sv_inv_def)
    show ?thesis
    proof (cases "malloc_ok as")
      case False
      then show ?thesis using eq assms
        by (simp add: summary_vector_add_entry_by_copy_def summary_vector_increase_size_def)
    next
      case t: True
      let ?sv = "sv\<lparr>sv_capacity := sv_length sv * 2\<rparr>"
      have d: "unat (sv_length sv * 2) = unat (sv_length sv) * 2" by (rule unat_double[OF assms(3)])
      have "unat (sv_length sv) > 0" using assms(4) eq by (simp add: unat_gt_0)
      then have l: "sv_length sv < sv_length sv * 2" using d by (simp add: word_less_nat_alt)
      then have i: "sv_inv ?sv" using assms(1) by (auto simp: sv_inv_def)
      have "summary_vector_add_entry_by_copy sv e as = summary_vector_add_entry_by_copy ?sv e (malloc_rest as)"
        using eq t l by (auto simp: summary_vector_add_entry_by_copy_def summary_vector_increase_size_def Let_def)
      moreover have "malloc_rest as = []" if "as = []" using that by simp
      ultimately show ?thesis using ok[OF i, of "malloc_rest as"] l t by auto
    qed
  qed
qed

section \<open>Difference\<close>

abbreviation missing_in :: "summary_vector \<Rightarrow> summary_vector_entry list \<Rightarrow> summary_vector_entry list" where
  "missing_in b es \<equiv> filter (\<lambda>e. e \<notin> set (sv_entries b)) es"

lemma diff_loop_correct:
  assumes "sv_inv b" "\<forall>e \<in> set es. length e = SUMMARY_VECTOR_ENTRY_HASH_LENGTH"
    "sv_inv diff" "sv_capacity diff \<noteq> 0" "length (sv_entries diff) + length es < 2 ^ 31"
  shows "\<exists>r as'. diff_loop es b diff as = Inr (r, as') \<and> (as = [] \<longrightarrow> r \<noteq> None \<and> as' = [])
    \<and> (\<forall>d. r = Some d \<longrightarrow> sv_inv d \<and> sv_entries d = sv_entries diff @ missing_in b es)"
  using assms(2-5)
proof (induction es arbitrary: diff as)
  case (Cons e es)
  have c: "summary_vector_contains_entry b e \<longleftrightarrow> e \<in> set (sv_entries b)"
    using contains_entry_mem[OF assms(1)] Cons.prems(1) by simp
  show ?case
  proof (cases "e \<in> set (sv_entries b)")
    case True
    then show ?thesis using Cons.IH[of diff as] Cons.prems c by auto
  next
    case False
    have "unat (sv_length diff) < 2 ^ 31" using Cons.prems(2,4) by (simp add: sv_inv_def)
    from add_entry_cases[OF Cons.prems(2) _ this Cons.prems(3), of e as] Cons.prems(1) obtain diff' as' where
      a: "summary_vector_add_entry_by_copy diff e as =
           Inr (if sv_length diff < sv_capacity diff \<or> malloc_ok as then UD3TN_OK else UD3TN_FAIL, diff', as')"
      "sv_inv diff'" "sv_capacity diff' \<noteq> 0" "as = [] \<longrightarrow> as' = []"
      "sv_entries diff' = (if sv_length diff < sv_capacity diff \<or> malloc_ok as then sv_entries diff @ [e] else sv_entries diff)"
      by auto
    show ?thesis
    proof (cases "sv_length diff < sv_capacity diff \<or> malloc_ok as")
      case True
      then have "length (sv_entries diff') + length es < 2 ^ 31" using a(5) Cons.prems(4) by simp
      then obtain r as'' where "diff_loop es b diff' as' = Inr (r, as'')" "as' = [] \<longrightarrow> r \<noteq> None \<and> as'' = []"
        "\<forall>d. r = Some d \<longrightarrow> sv_inv d \<and> sv_entries d = sv_entries diff' @ missing_in b es"
        using Cons.IH[OF _ a(2,3), of as'] Cons.prems(1) by auto
      then show ?thesis using True False c a by auto
    next
      case no: False
      then show ?thesis using False c a by auto
    qed
  qed
qed auto

lemma summary_vector_create_inv:
  "(Some sv, as') = summary_vector_create as \<Longrightarrow> sv_inv sv \<and> sv_capacity sv \<noteq> 0 \<and> sv_entries sv = []"
  by (auto simp: summary_vector_create_def summary_vector_create_with_capacity_def sv_inv_def sv_const_defs split: if_splits)

text \<open>
  C19. The difference of two summary vectors holds exactly the entries of the first that the
  second lacks, in their order: with a granting allocator it is always produced, under every pattern
  of allocation failures the call returns \<^verbatim>\<open>NULL\<close> or that difference, and it never writes outside an
  array (for vectors of fewer than two to the 31 entries).
\<close>

theorem summary_vector_diff_correct:
  assumes "sv_inv a" "sv_inv b" "unat (sv_length a) < 2 ^ 31"
  shows "\<exists>r as'. summary_vector_create_diff a b as = Inr (r, as') \<and> (as = [] \<longrightarrow> r \<noteq> None)
    \<and> (\<forall>d. r = Some d \<longrightarrow> sv_inv d \<and> sv_entries d = filter (\<lambda>e. e \<notin> set (sv_entries b)) (sv_entries a))"
proof (cases "fst (summary_vector_create as)")
  case None
  then show ?thesis
    by (cases "summary_vector_create as")
       (auto simp: summary_vector_create_diff_def summary_vector_create_def summary_vector_create_with_capacity_def)
next
  case (Some sv)
  then obtain as' where c: "summary_vector_create as = (Some sv, as')" by (cases "summary_vector_create as") auto
  have sv: "sv_inv sv" "sv_capacity sv \<noteq> 0" "sv_entries sv = []"
    using summary_vector_create_inv[OF c[symmetric]] by auto
  have as': "as' = []" if "as = []"
    using c that by (simp add: summary_vector_create_def summary_vector_create_with_capacity_def)
  have "\<forall>e \<in> set (sv_entries a). length e = SUMMARY_VECTOR_ENTRY_HASH_LENGTH"
    "length (sv_entries sv) + length (sv_entries a) < 2 ^ 31"
    using assms sv(3) by (auto simp: sv_inv_def)
  from diff_loop_correct[OF assms(2) this(1) sv(1,2) this(2), of as'] show ?thesis
    using c as' sv(3) by (auto simp: summary_vector_create_diff_def sv_inv_length[OF assms(1)])
qed

definition sample_sv :: "u8 list list \<Rightarrow> summary_vector" where
  "sample_sv es = \<lparr>sv_length = of_nat (length es), sv_capacity = 8, sv_entries = es\<rparr>"

lemma sample_sv_inv: "length es \<le> 8 \<Longrightarrow> \<forall>e \<in> set es. length e = 8 \<Longrightarrow> sv_inv (sample_sv es)"
  by (auto simp: sv_inv_def sample_sv_def sv_const_defs unsigned_of_nat take_bit_nat_eq_self word_le_nat_alt)

theorem summary_vector_diff_correct_witness:
  "\<exists>d as'. summary_vector_create_diff (sample_sv [replicate 8 1, replicate 8 2]) (sample_sv [replicate 8 1]) [] = Inr (Some d, as')
    \<and> sv_entries d = [replicate 8 2]"
proof -
  have "sv_inv (sample_sv [replicate 8 1, replicate 8 2])" "sv_inv (sample_sv [replicate 8 1])"
    "unat (sv_length (sample_sv [replicate 8 1, replicate 8 2])) < 2 ^ 31"
    by (simp_all add: sample_sv_inv) (simp add: sample_sv_def)
  from summary_vector_diff_correct[OF this, of "[]"] show ?thesis
    by (auto simp: sample_sv_def numeral_eq_Suc)
qed

section \<open>Memory image\<close>

lemma chop_concat: "\<forall>e \<in> set es. length e = n \<Longrightarrow> chop n (length es) (concat es @ rest) = es"
  by (induction es) auto

lemma length_concat_entries: "\<forall>e \<in> set es. length e = n \<Longrightarrow> length (concat es) = length es * n"
  by (induction es) auto

text \<open>
  Sending a summary vector and reading it back: the memory image has the announced size,
  and the vector made from the received bytes has the same entries; a byte count that is not a
  multiple of the entry size is refused.
\<close>

lemma memory_image:
  assumes "sv_inv sv"
  shows "length (summary_vector_copy_to_memory sv) = summary_vector_memory_size sv"
    "\<exists>sv'. summary_vector_create_from_memory (summary_vector_copy_to_memory sv @ rest) (summary_vector_memory_size sv) [] = Inr (Some sv', [])
        \<and> sv_inv sv' \<and> sv_entries sv' = sv_entries sv \<and> sv_length sv' = sv_length sv"
proof -
  have e: "\<forall>e \<in> set (sv_entries sv). length e = 8" and n: "length (sv_entries sv) = unat (sv_length sv)"
    using assms by (auto simp: sv_inv_def sv_const_defs)
  have l: "length (concat (sv_entries sv)) = unat (sv_length sv) * 8"
    using length_concat_entries[OF e] n by simp
  then have m: "summary_vector_copy_to_memory sv = concat (sv_entries sv)" "summary_vector_memory_size sv = unat (sv_length sv) * 8"
    by (simp_all add: summary_vector_copy_to_memory_def summary_vector_memory_size_def sv_const_defs)
  then show "length (summary_vector_copy_to_memory sv) = summary_vector_memory_size sv" using l by simp
  let ?sv = "\<lparr>sv_length = sv_length sv, sv_capacity = sv_length sv, sv_entries = sv_entries sv\<rparr>"
  have "summary_vector_create_from_memory (concat (sv_entries sv) @ rest) (unat (sv_length sv) * 8) [] = Inr (Some ?sv, [])"
    using l chop_concat[OF e, of rest] n
    by (simp add: summary_vector_create_from_memory_def sv_const_defs summary_vector_create_with_capacity_def Let_def)
  moreover have "sv_inv ?sv" using assms by (simp add: sv_inv_def)
  ultimately show "\<exists>sv'. summary_vector_create_from_memory (summary_vector_copy_to_memory sv @ rest) (summary_vector_memory_size sv) [] = Inr (Some sv', [])
        \<and> sv_inv sv' \<and> sv_entries sv' = sv_entries sv \<and> sv_length sv' = sv_length sv"
    using m by auto
qed

theorem summary_vector_memory_roundtrip:
  assumes "sv_inv sv"
  shows "length (summary_vector_copy_to_memory sv) = summary_vector_memory_size sv
    \<and> (\<exists>sv'. summary_vector_create_from_memory (summary_vector_copy_to_memory sv) (summary_vector_memory_size sv) [] = Inr (Some sv', [])
        \<and> sv_inv sv' \<and> sv_entries sv' = sv_entries sv \<and> sv_length sv' = sv_length sv)
    \<and> (n mod 8 \<noteq> 0 \<longrightarrow> summary_vector_create_from_memory src n as = Inr (None, as))"
  using memory_image(1)[OF assms] memory_image(2)[OF assms, of "[]"]
  by (auto simp: summary_vector_create_from_memory_def sv_const_defs)

theorem summary_vector_memory_roundtrip_witness:
  "length (summary_vector_copy_to_memory (sample_sv [replicate 8 3])) = summary_vector_memory_size (sample_sv [replicate 8 3])
    \<and> (\<exists>sv'. summary_vector_create_from_memory (summary_vector_copy_to_memory (sample_sv [replicate 8 3])) 8 [] = Inr (Some sv', [])
        \<and> sv_inv sv' \<and> sv_entries sv' = sv_entries (sample_sv [replicate 8 3]))
    \<and> summary_vector_create_from_memory [1, 2, 3] 3 [] = Inr (None, [])"
  using summary_vector_memory_roundtrip[of "sample_sv [replicate 8 3]" 3 "[1, 2, 3]" "[]"]
    sample_sv_inv[of "[replicate 8 3]"] by (simp add: summary_vector_memory_size_def sample_sv_def sv_const_defs) blast

section \<open>Characteristic\<close>

abbreviation xor_bytes :: "u8 list \<Rightarrow> u8 list \<Rightarrow> u8 list" where
  "xor_bytes a b \<equiv> map2 (XOR) a b"

lemma xor_eq_self: "(a :: u8) XOR b = a \<longleftrightarrow> b = 0"
proof
  assume "a XOR b = a"
  moreover have "a XOR (a XOR b) = b" by (simp flip: xor.assoc)
  ultimately show "b = 0" by simp
qed simp

lemma length_8_conv: "length xs = 8 \<longleftrightarrow> (\<exists>a b c d e f g h. xs = [a, b, c, d, e, f, g, h])"
  by (auto simp: numeral_eq_Suc length_Suc_conv)

lemma characteristic_entry_xor:
  "length e = 8 \<Longrightarrow> length h = 8 \<Longrightarrow> characteristic_entry (take SUMMARY_VECTOR_ENTRY_HASH_LENGTH e) 0 h = xor_bytes h e"
  by (auto simp: length_8_conv sv_const_defs)

lemma xor_bytes_nth: "length a = 8 \<Longrightarrow> length b = 8 \<Longrightarrow> i < 8 \<Longrightarrow> xor_bytes a b ! i = a ! i XOR b ! i"
  by simp

lemma xor_bytes_commute:
  "length a = 8 \<Longrightarrow> length b = 8 \<Longrightarrow> length c = 8 \<Longrightarrow> xor_bytes (xor_bytes a b) c = xor_bytes (xor_bytes a c) b"
  by (rule nth_equalityI) (simp_all add: ac_simps)

definition xor_all :: "u8 list list \<Rightarrow> u8 list \<Rightarrow> u8 list" where
  "xor_all es h = fold (\<lambda>e h. xor_bytes h e) es h"

lemma length_xor_all: "\<forall>e \<in> set es. length e = 8 \<Longrightarrow> length h = 8 \<Longrightarrow> length (xor_all es h) = 8"
  by (induction es arbitrary: h) (auto simp: xor_all_def)

lemma characteristic_xor_all:
  assumes "sv_inv sv"
  shows "summary_vector_characteristic_calculate sv = xor_all (sv_entries sv) summary_vector_characteristic_init"
proof -
  have "fold (\<lambda>e h. characteristic_entry (take SUMMARY_VECTOR_ENTRY_HASH_LENGTH e) 0 h) es h = xor_all es h"
    if "\<forall>e \<in> set es. length e = 8" "length h = 8" for es h
    using that by (induction es arbitrary: h) (auto simp: xor_all_def characteristic_entry_xor)
  then show ?thesis using assms
    by (simp add: summary_vector_characteristic_calculate_def sv_inv_length)
       (simp add: sv_inv_def sv_const_defs summary_vector_characteristic_init_def)
qed

lemma xor_all_swap:
  "\<forall>x \<in> set es. length x = 8 \<Longrightarrow> length e = 8 \<Longrightarrow> length h = 8 \<Longrightarrow> xor_all es (xor_bytes h e) = xor_bytes (xor_all es h) e"
proof (induction es arbitrary: h)
  case (Cons x es)
  then show ?case using xor_bytes_commute[of h e x] by (simp add: xor_all_def)
qed (simp add: xor_all_def)

lemma xor_all_mset:
  "mset xs = mset ys \<Longrightarrow> \<forall>x \<in> set xs. length x = 8 \<Longrightarrow> length h = 8 \<Longrightarrow> xor_all xs h = xor_all ys h"
proof (induction xs arbitrary: ys h)
  case (Cons x xs)
  then obtain us vs where ys: "ys = us @ x # vs" by (metis list.set_intros(1) set_mset_mset split_list)
  have m: "mset xs = mset (us @ vs)" using Cons.prems(1) ys by simp
  have l: "\<forall>y \<in> set (us @ vs). length y = 8" using Cons.prems(2) m mset_eq_setD[OF m] by auto
  have "xor_all (x # xs) h = xor_all (us @ vs) (xor_bytes h x)"
    using Cons.IH[OF m, of "xor_bytes h x"] Cons.prems by (simp add: xor_all_def)
  also have "\<dots> = xor_all vs (xor_bytes (xor_all us h) x)"
    using xor_all_swap[of us x h] l Cons.prems by (simp add: xor_all_def)
  also have "\<dots> = xor_all ys h" by (simp add: ys xor_all_def)
  finally show ?case .
qed simp

text \<open>
  The characteristic of a summary vector does not depend on the order of its entries, two
  copies of one entry cancel, and appending an entry changes it by exactly the bytes of
  the entry, so that two vectors differing in one additional non-zero entry have different characteristics.
\<close>

theorem summary_vector_characteristic_correct:
  assumes "sv_inv a" "sv_inv b" "length e = 8"
  shows "(mset (sv_entries a) = mset (sv_entries b) \<longrightarrow>
      summary_vector_characteristic_calculate a = summary_vector_characteristic_calculate b)
    \<and> (sv_entries b = sv_entries a @ [e] \<longrightarrow>
        summary_vector_characteristic_calculate b = map2 (XOR) (summary_vector_characteristic_calculate a) e
        \<and> (summary_vector_characteristic_equals (summary_vector_characteristic_calculate a)
             (summary_vector_characteristic_calculate b) \<longleftrightarrow> e = replicate 8 0))
    \<and> (sv_entries b = sv_entries a @ [e, e] \<longrightarrow>
        summary_vector_characteristic_calculate b = summary_vector_characteristic_calculate a)"
proof -
  let ?c = "xor_all (sv_entries a) summary_vector_characteristic_init"
  have l: "\<forall>x \<in> set (sv_entries a). length x = 8" using assms by (auto simp: sv_inv_def sv_const_defs)
  have i: "length summary_vector_characteristic_init = 8"
    by (simp add: summary_vector_characteristic_init_def sv_const_defs)
  have c: "length ?c = 8" using length_xor_all[OF l i] .
  have 1: "mset (sv_entries a) = mset (sv_entries b) \<longrightarrow>
      summary_vector_characteristic_calculate a = summary_vector_characteristic_calculate b"
    using xor_all_mset[OF _ l i] by (simp add: characteristic_xor_all assms)
  have "xor_bytes ?c e = ?c \<longleftrightarrow> e = replicate 8 0"
    using c assms(3) by (auto simp: list_eq_iff_nth_eq xor_eq_self)
  then have 2: "sv_entries b = sv_entries a @ [e] \<longrightarrow>
      summary_vector_characteristic_calculate b = xor_bytes (summary_vector_characteristic_calculate a) e
      \<and> (summary_vector_characteristic_equals (summary_vector_characteristic_calculate a)
           (summary_vector_characteristic_calculate b) \<longleftrightarrow> e = replicate 8 0)"
    using c assms(3) unfolding characteristic_xor_all[OF assms(1)] characteristic_xor_all[OF assms(2)]
    by (auto simp: xor_all_def summary_vector_characteristic_equals_def sv_const_defs)
  have "xor_bytes (xor_bytes ?c e) e = ?c"
    using c assms(3) by (auto simp: length_8_conv xor.assoc)
  then have 3: "sv_entries b = sv_entries a @ [e, e] \<longrightarrow>
      summary_vector_characteristic_calculate b = summary_vector_characteristic_calculate a"
    unfolding characteristic_xor_all[OF assms(1)] characteristic_xor_all[OF assms(2)]
    by (auto simp: xor_all_def)
  from 1 2 3 show ?thesis by blast
qed

theorem summary_vector_characteristic_correct_witness:
  "summary_vector_characteristic_calculate (sample_sv [replicate 8 1, replicate 8 2]) =
     map2 (XOR) (summary_vector_characteristic_calculate (sample_sv [replicate 8 1])) (replicate 8 2)
   \<and> \<not> summary_vector_characteristic_equals (summary_vector_characteristic_calculate (sample_sv [replicate 8 1]))
         (summary_vector_characteristic_calculate (sample_sv [replicate 8 1, replicate 8 2]))"
proof -
  have "sv_inv (sample_sv [replicate 8 1])" "sv_inv (sample_sv [replicate 8 1, replicate 8 2])" "length (replicate 8 (2 :: u8)) = 8"
    by (simp_all add: sample_sv_inv)
  note t = summary_vector_characteristic_correct[OF this]
  have "sv_entries (sample_sv [replicate 8 1, replicate 8 2]) = sv_entries (sample_sv [replicate 8 1]) @ [replicate 8 2]"
    by (simp add: sample_sv_def)
  moreover have "replicate 8 (2 :: u8) \<noteq> replicate 8 0" by (simp add: numeral_eq_Suc)
  ultimately show ?thesis using t by blast
qed

end
