(* ===== verification/Routing_Eid.thy ===== *)
theory Routing_Eid
  imports Prelude
begin

text \<open>
  The endpoint identifiers of the routing information bundles (\<^verbatim>\<open>routing_agent_is_info_bundle\<close>,
  \<^verbatim>\<open>create_endpoint\<close> and \<^verbatim>\<open>routing_agent_create_eid_from_info_bundle_eid\<close> of
  \<^verbatim>\<open>components/routing/epidemic/routing_agent.c\<close>), by which router, contact manager and routing
  agent tell offers and requests from data bundles.
\<close>

definition ROUTING_AGENT_SINK_PREFIX :: string where "ROUTING_AGENT_SINK_PREFIX = ''routing/epidemic''"
definition ROUTING_AGENT_SINK_OFFER :: string where "ROUTING_AGENT_SINK_OFFER = ROUTING_AGENT_SINK_PREFIX @ ''/offer''"
definition ROUTING_AGENT_SINK_REQUEST :: string where "ROUTING_AGENT_SINK_REQUEST = ROUTING_AGENT_SINK_PREFIX @ ''/request''"

definition routing_agent_is_info_bundle :: "string \<Rightarrow> bool" where
  "routing_agent_is_info_bundle eid \<longleftrightarrow> strstr eid ROUTING_AGENT_SINK_PREFIX \<noteq> None"

definition create_endpoint :: "string \<Rightarrow> string \<Rightarrow> alloc_script \<Rightarrow> string option \<times> alloc_script" where
  "create_endpoint eid sink as = (if malloc_ok as then Some (eid @ ''/'' @ sink) else None, malloc_rest as)"

text \<open>The \<^verbatim>\<open>strstr\<close> runs on the result of an unchecked \<^verbatim>\<open>strdup\<close>.\<close>

definition routing_agent_create_eid_from_info_bundle_eid :: "string \<Rightarrow> alloc_script \<Rightarrow> fault + (string \<times> alloc_script)" where
  "routing_agent_create_eid_from_info_bundle_eid eid as =
    (if \<not> malloc_ok as then Inl NullDeref
     else Inr (case strstr eid (''/'' @ ROUTING_AGENT_SINK_PREFIX) of
       None \<Rightarrow> eid | Some pos \<Rightarrow> take pos eid, malloc_rest as))"

section \<open>Round trip\<close>

lemma take_drop_append:
  assumes "k \<le> length e"
  shows "take (length n) (drop k (e @ n @ r)) = take (length n) (drop k (e @ n))"
proof -
  have "drop k (e @ n @ r) = drop k (e @ n) @ r" using assms by simp
  then show ?thesis using assms by (simp only: take_append) auto
qed

lemma strstr_found: "strstr (e @ n @ r) n \<noteq> None"
  using strstr_None[of "e @ n @ r" n "length e"] by auto

text \<open>
  An EID into which no separator of the sink falls: the first occurrence of the sink in the endpoint made from it is at its end.
\<close>

definition plain_eid :: "string \<Rightarrow> bool" where
  "plain_eid eid \<longleftrightarrow> (let n = ''/'' @ ROUTING_AGENT_SINK_PREFIX in
     \<forall>j < length eid. take (length n) (drop j (eid @ n)) \<noteq> n)"

lemma strstr_at_end:
  assumes "\<forall>j < length e. take (length n) (drop j (e @ n)) \<noteq> n"
  shows "strstr (e @ n @ r) n = Some (length e)"
proof -
  obtain k where k: "strstr (e @ n @ r) n = Some k" using strstr_found by blast
  have "\<not> length e < k" using strstr_first[OF k, of "length e"] by auto
  moreover have "\<not> k < length e"
    using strstr_Some[OF k] take_drop_append[of k e n r] assms by auto
  ultimately show ?thesis using k by auto
qed

text \<open>
  The endpoint of an offer or request sink is recognised as routing information, and the node
  EID is recovered from it, for every EID in which the sink path does not occur.
\<close>

theorem info_bundle_eid_roundtrip:
  assumes "plain_eid eid" "sink \<in> {ROUTING_AGENT_SINK_OFFER, ROUTING_AGENT_SINK_REQUEST, ROUTING_AGENT_SINK_PREFIX}"
  shows "\<exists>ep. create_endpoint eid sink [] = (Some ep, []) \<and> routing_agent_is_info_bundle ep
    \<and> routing_agent_create_eid_from_info_bundle_eid ep [] = Inr (eid, [])"
proof -
  obtain r where s: "sink = ''routing/epidemic'' @ r"
    using assms(2) by (auto simp: ROUTING_AGENT_SINK_OFFER_def ROUTING_AGENT_SINK_REQUEST_def ROUTING_AGENT_SINK_PREFIX_def)
  have "routing_agent_is_info_bundle ((eid @ ''/'') @ ''routing/epidemic'' @ r)"
    unfolding routing_agent_is_info_bundle_def ROUTING_AGENT_SINK_PREFIX_def by (rule strstr_found)
  moreover have "strstr (eid @ (''/'' @ ROUTING_AGENT_SINK_PREFIX) @ r) (''/'' @ ROUTING_AGENT_SINK_PREFIX) = Some (length eid)"
    by (rule strstr_at_end) (use assms(1) in \<open>simp only: plain_eid_def Let_def\<close>)
  ultimately show ?thesis
    by (simp add: create_endpoint_def s routing_agent_create_eid_from_info_bundle_eid_def ROUTING_AGENT_SINK_PREFIX_def)
qed

theorem info_bundle_eid_roundtrip_witness:
  "\<exists>ep. create_endpoint ''dtn:a'' ROUTING_AGENT_SINK_OFFER [] = (Some ep, []) \<and> routing_agent_is_info_bundle ep
    \<and> routing_agent_create_eid_from_info_bundle_eid ep [] = Inr (''dtn:a'', [])"
  by (rule info_bundle_eid_roundtrip) (simp_all add: plain_eid_def ROUTING_AGENT_SINK_PREFIX_def All_less_Suc numeral_eq_Suc)

end
