(* ===== verification/Epidemic_Router.thy ===== *)
theory Epidemic_Router
  imports Summary_Vector Routing_Eid
begin

text \<open>
  The epidemic router of \<^verbatim>\<open>components/routing/epidemic/router.c\<close>. It keeps the list of bundles to
  spread and one record per connected neighbour, offers its bundles, sends what a neighbour
  requested one bundle at a time, and drops expired bundles.

  The linked list of bundle infos is a list of entries that carry their address; the records of the neighbours
  hold addresses into it, so that a stale pointer is visible: reading through an address that is not in the list
  is the fault \<^term>\<open>UseAfterFree\<close>. The explicit \<^verbatim>\<open>tail\<close> pointer is a component of the state. The
  records of the neighbours live in a store by address; \<^verbatim>\<open>router_contacts\<close> is the array of their
  addresses and \<^verbatim>\<open>router_contact_htab\<close> the map from EIDs to addresses (theory \<^verbatim>\<open>Htab\<close> shows that the
  hash table behaves as one).

  Calls into other components are recorded in the output trace in the order the code makes
  them. What the environment answers is input: allocation by the script \<open>r_allocs\<close>, the result of
  \<^verbatim>\<open>contact_manager_try_to_send_bundle\<close> by the script \<open>r_sends\<close>, the clock, the contact
  objects and the configuration by the record \<open>router_env\<close>. The clock is read once per call.
\<close>

section \<open>State\<close>

record bundle_info_list_entry =
  bi_addr :: nat
  bi_sv_entry :: summary_vector_entry
  bi_id :: u16
  bi_num_pending_transmissions :: u64
  bi_prio :: bundle_routing_priority
  bi_size :: u32
  bi_exp_time :: u64
  bi_destination :: eid

record router_contact =
  rc_contact :: nat
  rc_index :: u16
  rc_current_bundle :: "nat option"
  rc_next_bundle_candidate :: "nat option"
  rc_request_sv :: "summary_vector option"

datatype bundle_processor_signal_type =
  BP_SIGNAL_BUNDLE_INCOMING | BP_SIGNAL_BUNDLE_ROUTED | BP_SIGNAL_FORWARDING_CONTRAINDICATED
| BP_SIGNAL_BUNDLE_EXPIRED | BP_SIGNAL_RESCHEDULE_BUNDLE | BP_SIGNAL_TRANSMISSION_SUCCESS
| BP_SIGNAL_TRANSMISSION_FAILURE | BP_SIGNAL_BUNDLE_LOCAL_DISPATCH | BP_SIGNAL_AGENT_REGISTER
| BP_SIGNAL_AGENT_DEREGISTER

datatype bundle_status_report_reason =
  BUNDLE_SR_REASON_NO_INFO | BUNDLE_SR_REASON_LIFETIME_EXPIRED | BUNDLE_SR_REASON_FORWARDED_UNIDIRECTIONAL
| BUNDLE_SR_REASON_TRANSMISSION_CANCELED | BUNDLE_SR_REASON_DEPLETED_STORAGE
| BUNDLE_SR_REASON_DEST_EID_UNINTELLIGIBLE | BUNDLE_SR_REASON_NO_KNOWN_ROUTE
| BUNDLE_SR_REASON_NO_TIMELY_CONTACT | BUNDLE_SR_REASON_BLOCK_UNINTELLIGIBLE
| BUNDLE_SR_REASON_HOP_LIMIT_EXCEEDED | BUNDLE_SR_REASON_TRAFFIC_PARED

record routed_bundle =
  rb_id :: u16
  rb_destination :: eid
  rb_prio :: bundle_routing_priority
  rb_size :: u32
  rb_exp_time :: u64

datatype router_out =
  Inform u16 bundle_processor_signal_type bundle_status_report_reason
| OfferSv eid summary_vector "u8 list"
| Send routed_bundle

record router =
  bundle_info_list :: "bundle_info_list_entry list"
  bil_tail :: "nat option"
  router_contact_htab :: "eid \<Rightarrow> nat option"
  rc_store :: "nat \<Rightarrow> router_contact option"
  router_contacts :: "nat option list"
  num_router_contacts :: u16
  next_bundle_update :: u64
  r_allocs :: alloc_script
  r_sends :: "bool list"
  r_out :: "router_out list"

record router_env =
  CONFIG_BT_MAX_CONN :: nat
  CONFIG_CONTINUOUS_SV_EXCHANGE :: bool
  CONFIG_DIRECT_TRANSMISSION_REPLICAS :: int
  env_local_eid :: eid
  env_hal_hash :: "u8 list \<Rightarrow> u8 list"
  env_serialized_size :: "bundle_t \<Rightarrow> u64"
  env_node_eid :: "nat \<Rightarrow> eid option"
  env_now :: u64

definition emit :: "router_out \<Rightarrow> router \<Rightarrow> router" where
  "emit x r = r\<lparr>r_out := r_out r @ [x]\<rparr>"

definition rc_deref :: "nat \<Rightarrow> router \<Rightarrow> fault + router_contact" where
  "rc_deref p r = (case rc_store r p of None \<Rightarrow> Inl UseAfterFree | Some rc \<Rightarrow> Inr rc)"

definition rc_put :: "nat \<Rightarrow> router_contact \<Rightarrow> router \<Rightarrow> router" where
  "rc_put p rc r = r\<lparr>rc_store := (rc_store r)(p \<mapsto> rc)\<rparr>"

text \<open>The loops \<^verbatim>\<open>for (i = num_router_contacts - 1; i >= 0; i--)\<close> over the neighbours.\<close>

definition contact_at :: "nat \<Rightarrow> router \<Rightarrow> fault + nat" where
  "contact_at i r = (if i < length (router_contacts r) then deref (router_contacts r ! i) else Inl OutOfBounds)"

fun for_contacts :: "nat \<Rightarrow> (nat \<Rightarrow> router \<Rightarrow> fault + router) \<Rightarrow> router \<Rightarrow> fault + router" where
  "for_contacts 0 f r = Inr r"
| "for_contacts (Suc i) f r = bindE (contact_at i r) (\<lambda>p. bindE (f p r) (for_contacts i f))"

section \<open>Offering\<close>

definition bundle_should_be_offered :: "router_env \<Rightarrow> router_contact \<Rightarrow> bundle_info_list_entry \<Rightarrow> bool" where
  "bundle_should_be_offered env rc cand =
    (if bi_exp_time cand < env_now env then False
     else if bi_num_pending_transmissions cand = 0 then
       (case env_node_eid env (rc_contact rc) of
          None \<Rightarrow> False
        | Some eid \<Rightarrow> strstr (bi_destination cand) eid \<noteq> None)
     else True)"

text \<open>Collecting entries into a fresh vector; the first entry that cannot be added ends the loop.\<close>

fun add_entries ::
  "summary_vector_entry list \<Rightarrow> summary_vector \<Rightarrow> alloc_script \<Rightarrow> fault + (ud3tn_result \<times> summary_vector \<times> alloc_script)" where
  "add_entries [] sv as = Inr (UD3TN_OK, sv, as)"
| "add_entries (e # es) sv as = bindE (summary_vector_add_entry_by_copy sv e as) (\<lambda>(res, sv', as').
     case res of UD3TN_OK \<Rightarrow> add_entries es sv' as' | UD3TN_FAIL \<Rightarrow> Inr (UD3TN_FAIL, sv', as'))"

definition create_offer_sv :: "router_env \<Rightarrow> router_contact \<Rightarrow> router \<Rightarrow> fault + (summary_vector option \<times> router)" where
  "create_offer_sv env rc r = (case summary_vector_create (r_allocs r) of
     (None, as) \<Rightarrow> Inr (None, r\<lparr>r_allocs := as\<rparr>)
   | (Some sv, as) \<Rightarrow>
       bindE (add_entries (map bi_sv_entry (filter (bundle_should_be_offered env rc) (bundle_info_list r))) sv as)
         (\<lambda>(res, sv', as'). Inr (case res of UD3TN_OK \<Rightarrow> Some sv' | UD3TN_FAIL \<Rightarrow> None, r\<lparr>r_allocs := as'\<rparr>)))"

text \<open>
  When an entry cannot be added the code frees the vector and still returns its address: the
  pointer is \<open>Dangling\<close>.
\<close>

datatype 'a cptr = CNull | Dangling | Ptr 'a

definition create_known_sv :: "router \<Rightarrow> fault + (summary_vector cptr \<times> router)" where
  "create_known_sv r = (case summary_vector_create (r_allocs r) of
     (None, as) \<Rightarrow> Inr (CNull, r\<lparr>r_allocs := as\<rparr>)
   | (Some sv, as) \<Rightarrow> bindE (add_entries (map bi_sv_entry (bundle_info_list r)) sv as)
       (\<lambda>(res, sv', as'). Inr (case res of UD3TN_OK \<Rightarrow> Ptr sv' | UD3TN_FAIL \<Rightarrow> Dangling, r\<lparr>r_allocs := as'\<rparr>)))"

definition router_create_known_sv :: "router \<Rightarrow> fault + (summary_vector cptr \<times> router)" where
  "router_create_known_sv r = create_known_sv r"

definition send_offer_sv :: "router_env \<Rightarrow> nat \<Rightarrow> router \<Rightarrow> fault + router" where
  "send_offer_sv env p r = bindE (create_known_sv r) (\<lambda>(known, r1). case known of
     CNull \<Rightarrow> Inr r1
   | Dangling \<Rightarrow> Inl UseAfterFree
   | Ptr ksv \<Rightarrow>
      (let ch = summary_vector_characteristic_calculate ksv in
       bindE (rc_deref p r1) (\<lambda>rc. bindE (create_offer_sv env rc r1) (\<lambda>(offer, r2). case offer of
         None \<Rightarrow> Inr r2
       | Some osv \<Rightarrow> bindE (deref (env_node_eid env (rc_contact rc))) (\<lambda>eid.
           Inr (emit (OfferSv eid osv ch) r2))))))"

section \<open>Expiry\<close>

definition signal_bundle_expired :: "bundle_info_list_entry \<Rightarrow> router \<Rightarrow> router" where
  "signal_bundle_expired bi r = emit (Inform (bi_id bi) BP_SIGNAL_BUNDLE_EXPIRED BUNDLE_SR_REASON_LIFETIME_EXPIRED) r"

text \<open>Whether a neighbour is being sent the bundle info at this address.\<close>

fun being_sent :: "nat \<Rightarrow> nat \<Rightarrow> router \<Rightarrow> fault + bool" where
  "being_sent a 0 r = Inr False"
| "being_sent a (Suc i) r = bindE (contact_at i r) (\<lambda>p. bindE (rc_deref p r) (\<lambda>rc.
     if rc_current_bundle rc = Some a then Inr True else being_sent a i r))"

definition redirect_candidate :: "nat \<Rightarrow> nat option \<Rightarrow> nat \<Rightarrow> router \<Rightarrow> fault + router" where
  "redirect_candidate a nxt p r = bindE (rc_deref p r) (\<lambda>rc.
     Inr (if rc_next_bundle_candidate rc = Some a then rc_put p (rc\<lparr>rc_next_bundle_candidate := nxt\<rparr>) r else r))"

text \<open>
  The loop over the list: \<open>kept\<close> are the entries passed and kept (the last of them is \<^verbatim>\<open>prev\<close>),
  the first of the others is \<^verbatim>\<open>current\<close>; together they are the linked list.
\<close>

fun update_loop ::
  "u64 \<Rightarrow> bundle_info_list_entry list \<Rightarrow> bundle_info_list_entry list \<Rightarrow> router \<Rightarrow> fault + router" where
  "update_loop now kept [] r = Inr r"
| "update_loop now kept (cur # rest) r =
    bindE (if bi_exp_time cur < now
           then bindE (being_sent (bi_addr cur) (unat (num_router_contacts r)) r) (\<lambda>s. Inr (\<not> s))
           else Inr False) (\<lambda>delete.
      if delete then
        (let nxt = (case rest of [] \<Rightarrow> None | e # _ \<Rightarrow> Some (bi_addr e));
             prev = (if kept = [] then None else Some (bi_addr (last kept)));
             r1 = r\<lparr>bundle_info_list := kept @ rest\<rparr>;
             r2 = (if bil_tail r1 = Some (bi_addr cur) then r1\<lparr>bil_tail := prev\<rparr> else r1)
         in bindE (for_contacts (unat (num_router_contacts r2)) (redirect_candidate (bi_addr cur) nxt) r2)
              (\<lambda>r3. update_loop now kept rest (signal_bundle_expired cur r3)))
      else update_loop now (kept @ [cur]) rest r)"

definition update_bundle_info_list :: "router_env \<Rightarrow> router \<Rightarrow> fault + router" where
  "update_bundle_info_list env r =
    (if env_now env < next_bundle_update r then Inr r
     else update_loop (env_now env) [] (bundle_info_list r) (r\<lparr>next_bundle_update := env_now env + 1\<rparr>))"

section \<open>Sending\<close>

fun send_ok :: "bool list \<Rightarrow> bool" where
  "send_ok [] = True"
| "send_ok (b # bs) = b"

text \<open>\<^verbatim>\<open>contact_manager_try_to_send_bundle\<close>: its answer is the next element of the script.\<close>

definition contact_manager_send :: "routed_bundle \<Rightarrow> router \<Rightarrow> ud3tn_result \<times> router" where
  "contact_manager_send rb r =
    (if send_ok (r_sends r) then (UD3TN_OK, emit (Send rb) (r\<lparr>r_sends := tl (r_sends r)\<rparr>))
     else (UD3TN_FAIL, r\<lparr>r_sends := tl (r_sends r)\<rparr>))"

definition try_to_send_bundle :: "eid option \<Rightarrow> bundle_info_list_entry \<Rightarrow> router \<Rightarrow> fault + (ud3tn_result \<times> router)" where
  "try_to_send_bundle eid bi r =
    (let as = r_allocs r in
     if \<not> malloc_ok as then Inr (UD3TN_FAIL, r\<lparr>r_allocs := malloc_rest as\<rparr>)
     else bindE (deref eid) (\<lambda>s.
       let (dest, as') = strdup s (malloc_rest as); r1 = r\<lparr>r_allocs := as'\<rparr> in
       case dest of None \<Rightarrow> Inr (UD3TN_FAIL, r1)
       | Some d \<Rightarrow> Inr (contact_manager_send \<lparr>rb_id = bi_id bi, rb_destination = d, rb_prio = bi_prio bi,
                          rb_size = bi_size bi, rb_exp_time = bi_exp_time bi\<rparr> r1)))"

text \<open>The chain of the list from an address on; an address outside the list was freed.\<close>

definition chain_from :: "nat option \<Rightarrow> router \<Rightarrow> fault + bundle_info_list_entry list" where
  "chain_from a r = (case a of None \<Rightarrow> Inr []
   | Some p \<Rightarrow> (case dropWhile (\<lambda>e. bi_addr e \<noteq> p) (bundle_info_list r) of
       [] \<Rightarrow> Inl UseAfterFree | l \<Rightarrow> Inr l))"

definition next_addr :: "bundle_info_list_entry list \<Rightarrow> nat option" where
  "next_addr l = (case l of [] \<Rightarrow> None | e # _ \<Rightarrow> Some (bi_addr e))"

definition send_bundles_to_contact :: "router_env \<Rightarrow> nat \<Rightarrow> router \<Rightarrow> fault + router" where
  "send_bundles_to_contact env p r = bindE (rc_deref p r) (\<lambda>rc.
     case rc_request_sv rc of None \<Rightarrow> Inr r
     | Some sv \<Rightarrow>
        if rc_current_bundle rc \<noteq> None then Inr r
        else bindE (chain_from (rc_next_bundle_candidate rc) r) (\<lambda>chain.
          case dropWhile (\<lambda>c. \<not> (bundle_should_be_offered env rc c \<and> summary_vector_contains_entry sv (bi_sv_entry c))) chain of
            [] \<Rightarrow> Inr (rc_put p (rc\<lparr>rc_next_bundle_candidate := None\<rparr>) r)
          | cand # rest \<Rightarrow>
              bindE (try_to_send_bundle (env_node_eid env (rc_contact rc)) cand r) (\<lambda>(res, r1).
                Inr (case res of
                  UD3TN_OK \<Rightarrow> rc_put p (rc\<lparr>rc_current_bundle := Some (bi_addr cand),
                                           rc_next_bundle_candidate := next_addr rest\<rparr>) r1
                | UD3TN_FAIL \<Rightarrow> rc_put p (rc\<lparr>rc_next_bundle_candidate := Some (bi_addr cand)\<rparr>) r1))))"

definition send_bundles :: "router_env \<Rightarrow> router \<Rightarrow> fault + router" where
  "send_bundles env r = for_contacts (unat (num_router_contacts r)) (send_bundles_to_contact env) r"

definition router_update :: "router_env \<Rightarrow> router \<Rightarrow> fault + router" where
  "router_update env r = bindE (update_bundle_info_list env r) (send_bundles env)"

section \<open>Routing bundles\<close>

definition EPIDEMIC_DESTINATION :: string where "EPIDEMIC_DESTINATION = ''dtn://fake''"
definition DIRECT_TRANSMISSION_DESTINATION :: string where "DIRECT_TRANSMISSION_DESTINATION = ''dtn://source''"

text \<open>How many transmissions to nodes other than the destination a bundle gets.\<close>

definition pending_transmissions :: "router_env \<Rightarrow> eid \<Rightarrow> eid \<Rightarrow> u64" where
  "pending_transmissions env src dst =
    (if strstr dst EPIDEMIC_DESTINATION \<noteq> None then - 1
     else if strstr dst DIRECT_TRANSMISSION_DESTINATION \<noteq> None then
       (if CONFIG_DIRECT_TRANSMISSION_REPLICAS env = -1 then - 1
        else if strstr src (env_local_eid env) \<noteq> None then of_int (CONFIG_DIRECT_TRANSMISSION_REPLICAS env)
        else 0)
     else 0)"

text \<open>Appending at the tail, with the two assertions of the source.\<close>

definition append_info :: "bundle_info_list_entry \<Rightarrow> router \<Rightarrow> fault + router" where
  "append_info info r = (case bil_tail r of
     None \<Rightarrow> if bundle_info_list r = [] then Inr (r\<lparr>bil_tail := Some (bi_addr info), bundle_info_list := [info]\<rparr>)
             else Inl AssertFailed
   | Some t \<Rightarrow> bindE (chain_from (Some t) r) (\<lambda>chain.
       if length chain = 1 then Inr (r\<lparr>bil_tail := Some (bi_addr info), bundle_info_list := bundle_info_list r @ [info]\<rparr>)
       else Inl AssertFailed))"

definition offer_if_idle :: "router_env \<Rightarrow> nat \<Rightarrow> router \<Rightarrow> fault + router" where
  "offer_if_idle env p r = bindE (rc_deref p r) (\<lambda>rc.
     if rc_current_bundle rc = None \<and> rc_next_bundle_candidate rc = None \<and> CONFIG_CONTINUOUS_SV_EXCHANGE env
     then send_offer_sv env p r else Inr r)"

definition route_epidemic_bundle :: "router_env \<Rightarrow> nat \<Rightarrow> bundle_t \<Rightarrow> router \<Rightarrow> fault + (bool \<times> router)" where
  "route_epidemic_bundle env new b r =
    (if \<not> malloc_ok (r_allocs r) then Inr (False, r\<lparr>r_allocs := malloc_rest (r_allocs r)\<rparr>) else
     bindE (summary_vector_entry_from_bundle (env_hal_hash env) b (malloc_rest (r_allocs r))) (\<lambda>(sve, as1).
       let r1 = r\<lparr>r_allocs := as1\<rparr> in
       if list_ex (\<lambda>e. summary_vector_entry_equal sve (bi_sv_entry e)) (bundle_info_list r1) then Inr (False, r1)
       else bindE (deref (destination b)) (\<lambda>dst.
         let (dup, as2) = strdup dst as1; r2 = r1\<lparr>r_allocs := as2\<rparr> in
         case dup of None \<Rightarrow> Inr (False, r2)
         | Some d \<Rightarrow> bindE (deref (source b)) (\<lambda>src.
             bindE (append_info \<lparr>bi_addr = new, bi_sv_entry = sve, bi_id = bundle_id b,
                 bi_num_pending_transmissions = pending_transmissions env src dst,
                 bi_prio = bundle_get_routing_priority b, bi_size = ucast (env_serialized_size env b),
                 bi_exp_time = bundle_get_expiration_time_s (env_now env) b, bi_destination = d\<rparr> r2) (\<lambda>r3.
               bindE (for_contacts (unat (num_router_contacts r3)) (offer_if_idle env) r3) (\<lambda>r4.
                 Inr (True, r4)))))))"

text \<open>The copy of the destination is made before the routed bundle is allocated; both are released on failure.\<close>

definition route_info_bundle :: "router_env \<Rightarrow> bundle_t \<Rightarrow> router \<Rightarrow> fault + (bool \<times> router)" where
  "route_info_bundle env b r = bindE (deref (destination b)) (\<lambda>dst.
     let (dup, as1) = strdup dst (r_allocs r); ok = malloc_ok as1; r1 = r\<lparr>r_allocs := malloc_rest as1\<rparr> in
     case dup of None \<Rightarrow> Inr (False, r1)
     | Some d \<Rightarrow> if \<not> ok then Inr (False, r1)
        else let (res, r2) = contact_manager_send \<lparr>rb_id = bundle_id b, rb_destination = d,
                 rb_prio = bundle_get_routing_priority b, rb_size = ucast (env_serialized_size env b),
                 rb_exp_time = bundle_get_expiration_time_s (env_now env) b\<rparr> r1
             in Inr (res = UD3TN_OK, r2))"

definition router_route_bundle :: "router_env \<Rightarrow> nat \<Rightarrow> bundle_t \<Rightarrow> router \<Rightarrow> fault + router" where
  "router_route_bundle env new b r = bindE (deref (destination b)) (\<lambda>dst.
     bindE (if routing_agent_is_info_bundle dst then route_info_bundle env b r
            else route_epidemic_bundle env new b r) (\<lambda>(success, r1).
       Inr (emit (Inform (bundle_id b)
                  (if success then BP_SIGNAL_BUNDLE_ROUTED else BP_SIGNAL_FORWARDING_CONTRAINDICATED)
                  (if success then BUNDLE_SR_REASON_NO_INFO else BUNDLE_SR_REASON_NO_KNOWN_ROUTE)) r1)))"

section \<open>Transmission results\<close>

text \<open>Reading \<^verbatim>\<open>rc->current_bundle->id\<close>.\<close>

definition info_deref :: "nat \<Rightarrow> router \<Rightarrow> fault + bundle_info_list_entry" where
  "info_deref a r = bindE (chain_from (Some a) r) (\<lambda>l. Inr (hd l))"

definition router_signal_bundle_transmission :: "router_env \<Rightarrow> routed_bundle \<Rightarrow> bool \<Rightarrow> router \<Rightarrow> fault + router" where
  "router_signal_bundle_transmission env rb success r =
    (if routing_agent_is_info_bundle (rb_destination rb) then
       Inr (emit (Inform (rb_id rb) (if success then BP_SIGNAL_TRANSMISSION_SUCCESS else BP_SIGNAL_TRANSMISSION_FAILURE)
                    BUNDLE_SR_REASON_NO_INFO) r)
     else case router_contact_htab r (rb_destination rb) of
       None \<Rightarrow> Inr r
     | Some p \<Rightarrow> bindE (rc_deref p r) (\<lambda>rc. case rc_current_bundle rc of
         None \<Rightarrow> Inr r
       | Some a \<Rightarrow> bindE (info_deref a r) (\<lambda>bi.
           if bi_id bi = rb_id rb then
             bindE (send_bundles_to_contact env p (rc_put p (rc\<lparr>rc_current_bundle := None\<rparr>) r)) (\<lambda>r1.
               offer_if_idle env p r1)
           else Inr r)))"

section \<open>Contacts\<close>

text \<open>
  \<open>contact\<close> is the address of the contact object, \<open>active\<close> its flag, \<open>new\<close> the address a new record gets. The
  table entry is made with two more allocations, which the hash table does not check.
\<close>

definition add_router_contact :: "router_env \<Rightarrow> nat \<Rightarrow> eid \<Rightarrow> nat \<Rightarrow> router \<Rightarrow> fault + router" where
  "add_router_contact env contact eid new r =
    (if unat (num_router_contacts r) < CONFIG_BT_MAX_CONN env - 1 then
       (let as = r_allocs r in
        if \<not> malloc_ok as then Inr (r\<lparr>r_allocs := malloc_rest as\<rparr>)
        else if \<not> malloc_ok (malloc_rest as) \<or> \<not> malloc_ok (malloc_rest (malloc_rest as)) then Inl NullDeref
        else let n = unat (num_router_contacts r) in
          if \<not> n < length (router_contacts r) then Inl OutOfBounds else
          send_offer_sv env new (r\<lparr>r_allocs := malloc_rest (malloc_rest (malloc_rest as)),
            router_contact_htab := (router_contact_htab r)(eid \<mapsto> new),
            rc_store := (rc_store r)(new \<mapsto> \<lparr>rc_contact = contact, rc_index = num_router_contacts r,
               rc_current_bundle = None, rc_next_bundle_candidate = None, rc_request_sv = None\<rparr>),
            router_contacts := (router_contacts r)[n := Some new],
            num_router_contacts := num_router_contacts r + 1\<rparr>))
     else Inr r)"

definition remove_router_contact :: "eid \<Rightarrow> nat \<Rightarrow> router \<Rightarrow> fault + router" where
  "remove_router_contact eid p r = bindE (rc_deref p r) (\<lambda>rc.
     let last_i = unat (num_router_contacts r) - 1 in
     if num_router_contacts r = 0 \<or> \<not> last_i < length (router_contacts r) then Inl OutOfBounds else
     bindE (if unat (rc_index rc) < last_i then
              bindE (contact_at last_i r) (\<lambda>q. bindE (rc_deref q r) (\<lambda>other.
                Inr (rc_put q (other\<lparr>rc_index := rc_index rc\<rparr>)
                      (r\<lparr>router_contacts := (router_contacts r)[unat (rc_index rc) := Some q]\<rparr>))))
            else Inr r) (\<lambda>r1.
       Inr (r1\<lparr>router_contact_htab := (router_contact_htab r1)(eid := None),
               router_contacts := (router_contacts r1)[last_i := None],
               num_router_contacts := num_router_contacts r1 - 1,
               rc_store := (rc_store r1)(p := None)\<rparr>)))"

definition router_handle_contact_event :: "router_env \<Rightarrow> nat \<Rightarrow> bool \<Rightarrow> nat \<Rightarrow> router \<Rightarrow> fault + router" where
  "router_handle_contact_event env contact active new r =
     bindE (deref (env_node_eid env contact)) (\<lambda>eid.
       if eid = EID_NONE then Inr r
       else case router_contact_htab r eid of
         None \<Rightarrow> if active then add_router_contact env contact eid new r else Inr r
       | Some p \<Rightarrow> if \<not> active then remove_router_contact eid p r else Inr r)"

section \<open>Requests\<close>

definition count_down :: "summary_vector \<Rightarrow> summary_vector \<Rightarrow> bundle_info_list_entry \<Rightarrow> bundle_info_list_entry" where
  "count_down old new e =
    (if summary_vector_contains_entry old (bi_sv_entry e) \<and> \<not> summary_vector_contains_entry new (bi_sv_entry e)
        \<and> bi_num_pending_transmissions e > 0
     then e\<lparr>bi_num_pending_transmissions := bi_num_pending_transmissions e - 1\<rparr> else e)"

definition router_update_request_sv :: "router_env \<Rightarrow> eid \<Rightarrow> summary_vector \<Rightarrow> router \<Rightarrow> fault + router" where
  "router_update_request_sv env eid request_sv r = (case router_contact_htab r eid of
     None \<Rightarrow> Inr r
   | Some p \<Rightarrow> bindE (rc_deref p r) (\<lambda>rc.
       let r1 = (case rc_request_sv rc of None \<Rightarrow> r
                 | Some old \<Rightarrow> r\<lparr>bundle_info_list := map (count_down old request_sv) (bundle_info_list r)\<rparr>);
           rc1 = rc\<lparr>rc_request_sv := Some request_sv\<rparr>
       in if rc_current_bundle rc1 = None
          then send_bundles_to_contact env p
                 (rc_put p (rc1\<lparr>rc_next_bundle_candidate := next_addr (bundle_info_list r1)\<rparr>) r1)
          else Inr (rc_put p rc1 r1)))"

section \<open>Initialisation\<close>

definition router_init :: "router_env \<Rightarrow> alloc_script \<Rightarrow> bool list \<Rightarrow> router" where
  "router_init env as sends = \<lparr>bundle_info_list = [], bil_tail = None, router_contact_htab = (\<lambda>_. None),
     rc_store = (\<lambda>_. None), router_contacts = replicate (CONFIG_BT_MAX_CONN env) None,
     num_router_contacts = 0, next_bundle_update = 0, r_allocs = as, r_sends = sends, r_out = []\<rparr>"

end
