(* ===== verification/Epidemic_Router_Inv.thy ===== *)
theory Epidemic_Router_Inv
  imports Epidemic_Router
begin

text \<open>
  The epidemic router keeps its pointers: the invariant of its state, that every operation keeps it
  and never faults when the allocator grants its requests, and what the operations do to the list
  of bundles, the neighbours and the output trace.
\<close>

section \<open>Invariant\<close>

text \<open>The list of bundle infos: distinct addresses, the tail pointer on the last entry, full hashes.\<close>

definition list_ok :: "bundle_info_list_entry list \<Rightarrow> nat option \<Rightarrow> bool" where
  "list_ok l t \<longleftrightarrow> distinct (map bi_addr l) \<and> t = (if l = [] then None else Some (bi_addr (last l)))
     \<and> (\<forall>e \<in> set l. length (bi_sv_entry e) = SUMMARY_VECTOR_ENTRY_HASH_LENGTH) \<and> length l < 2 ^ 31"

text \<open>
  The neighbours: the first \<open>num\<close> slots of the array hold live records that know their slot, and
  the table maps EIDs one-to-one to records in the array.
\<close>

definition contacts_ok :: "nat \<Rightarrow> router \<Rightarrow> bool" where
  "contacts_ok max_conn r \<longleftrightarrow> length (router_contacts r) = max_conn \<and> unat (num_router_contacts r) \<le> max_conn - 1
     \<and> (\<forall>i < unat (num_router_contacts r). \<exists>p. router_contacts r ! i = Some p
          \<and> map_option (unat \<circ> rc_index) (rc_store r p) = Some i)
     \<and> (\<forall>eid p. router_contact_htab r eid = Some p \<longrightarrow> (\<exists>i < unat (num_router_contacts r). router_contacts r ! i = Some p))
     \<and> (\<forall>e1 e2 p. router_contact_htab r e1 = Some p \<longrightarrow> router_contact_htab r e2 = Some p \<longrightarrow> e1 = e2)
     \<and> (\<forall>p rc. rc_store r p = Some rc \<longrightarrow> router_contacts r ! unat (rc_index rc) = Some p \<and> rc_index rc < num_router_contacts r)"

text \<open>No record points at a bundle info that is not in the list.\<close>

definition rc_ok :: "nat set \<Rightarrow> router_contact \<Rightarrow> bool" where
  "rc_ok A rc \<longleftrightarrow> set_option (rc_current_bundle rc) \<subseteq> A \<and> set_option (rc_next_bundle_candidate rc) \<subseteq> A
     \<and> (\<forall>sv. rc_request_sv rc = Some sv \<longrightarrow> sv_inv sv)"

abbreviation info_addrs :: "router \<Rightarrow> nat set" where
  "info_addrs r \<equiv> bi_addr ` set (bundle_info_list r)"

definition router_inv :: "nat \<Rightarrow> router \<Rightarrow> bool" where
  "router_inv max_conn r \<longleftrightarrow> list_ok (bundle_info_list r) (bil_tail r) \<and> contacts_ok max_conn r
     \<and> (\<forall>p rc. rc_store r p = Some rc \<longrightarrow> rc_ok (info_addrs r) rc) \<and> r_allocs r = []"

text \<open>
  What is outside the router: contacts have an EID, the platform hash has its length, and the
  number of connections fits the 16-bit counter.
\<close>

definition env_ok :: "router_env \<Rightarrow> bool" where
  "env_ok env \<longleftrightarrow> (\<forall>c. env_node_eid env c \<noteq> None) \<and> (\<forall>x. length (env_hal_hash env x) = UD3TN_HASH_LENGTH)
     \<and> CONFIG_BT_MAX_CONN env < 2 ^ 16"

lemma router_invD:
  assumes "router_inv m r"
  shows "list_ok (bundle_info_list r) (bil_tail r)" "contacts_ok m r" "r_allocs r = []"
    and "rc_store r p = Some rc \<Longrightarrow> rc_ok (info_addrs r) rc"
  using assms unfolding router_inv_def by auto

text \<open>Two states with the same neighbours: only the contents of the records may differ.\<close>

definition same_contacts :: "router \<Rightarrow> router \<Rightarrow> bool" where
  "same_contacts r r' \<longleftrightarrow> router_contact_htab r' = router_contact_htab r \<and> router_contacts r' = router_contacts r
     \<and> num_router_contacts r' = num_router_contacts r
     \<and> (\<lambda>p. map_option rc_index (rc_store r' p)) = (\<lambda>p. map_option rc_index (rc_store r p))
     \<and> (\<lambda>p. map_option rc_contact (rc_store r' p)) = (\<lambda>p. map_option rc_contact (rc_store r p))"

lemma same_contacts_refl [simp]: "same_contacts r r"
  by (simp add: same_contacts_def)

lemma same_contacts_trans: "same_contacts r r' \<Longrightarrow> same_contacts r' r'' \<Longrightarrow> same_contacts r r''"
  by (simp add: same_contacts_def)

lemma same_contacts_index:
  "same_contacts r r' \<Longrightarrow> map_option rc_index (rc_store r' p) = map_option rc_index (rc_store r p)"
  by (metis same_contacts_def)

lemma contacts_ok_same:
  assumes "same_contacts r r'" "contacts_ok m r"
  shows "contacts_ok m r'"
proof -
  have i: "map_option rc_index (rc_store r' p) = map_option rc_index (rc_store r p)" for p
    by (rule same_contacts_index[OF assms(1)])
  have u: "map_option (unat \<circ> rc_index) (rc_store r' p) = map_option (unat \<circ> rc_index) (rc_store r p)" for p
    using arg_cong[OF i[of p], of "map_option unat"] by (simp add: option.map_comp)
  have d: "\<exists>rc0. rc_store r p = Some rc0 \<and> rc_index rc0 = rc_index rc" if "rc_store r' p = Some rc" for p rc
    using i[of p] that by (cases "rc_store r p") auto
  show ?thesis
    using assms d unfolding contacts_ok_def u by (simp add: same_contacts_def) metis
qed

lemma same_contacts_rc_put:
  "rc_store r p = Some rc \<Longrightarrow> rc_index rc' = rc_index rc \<Longrightarrow> rc_contact rc' = rc_contact rc \<Longrightarrow> same_contacts r (rc_put p rc' r)"
  by (auto simp: same_contacts_def rc_put_def)

lemma same_contacts_simps [simp]:
  "same_contacts r (emit x r')  \<longleftrightarrow> same_contacts r r'"
  "same_contacts r (r'\<lparr>r_allocs := as\<rparr>) \<longleftrightarrow> same_contacts r r'"
  "same_contacts r (r'\<lparr>r_sends := bs\<rparr>) \<longleftrightarrow> same_contacts r r'"
  "same_contacts r (r'\<lparr>next_bundle_update := t\<rparr>) \<longleftrightarrow> same_contacts r r'"
  "same_contacts r (r'\<lparr>bil_tail := a\<rparr>) \<longleftrightarrow> same_contacts r r'"
  "same_contacts r (r'\<lparr>bundle_info_list := l\<rparr>) \<longleftrightarrow> same_contacts r r'"
  by (simp_all add: same_contacts_def emit_def)

lemma contact_at_ok:
  assumes "contacts_ok m r" "i < unat (num_router_contacts r)"
  obtains p rc where "contact_at i r = Inr p" "rc_store r p = Some rc" "unat (rc_index rc) = i"
proof -
  obtain p where "router_contacts r ! i = Some p" "map_option (unat \<circ> rc_index) (rc_store r p) = Some i"
    using assms unfolding contacts_ok_def by blast
  moreover have "i < length (router_contacts r)" using assms unfolding contacts_ok_def by linarith
  ultimately show ?thesis using that by (auto simp: contact_at_def)
qed

text \<open>A loop over the neighbours keeps what its body keeps.\<close>

lemma for_contacts_inv:
  assumes body: "\<And>p r. Q r \<Longrightarrow> contacts_ok m r \<Longrightarrow> rc_store r p \<noteq> None \<Longrightarrow>
      \<exists>r'. f p r = Inr r' \<and> Q r' \<and> same_contacts r r'"
    and "Q r" "contacts_ok m r" "n \<le> unat (num_router_contacts r)"
  shows "\<exists>r'. for_contacts n f r = Inr r' \<and> Q r' \<and> same_contacts r r'"
  using assms(2-4)
proof (induction n arbitrary: r)
  case (Suc n)
  obtain p rc where p: "contact_at n r = Inr p" "rc_store r p = Some rc"
    using contact_at_ok[OF Suc.prems(2), of n] Suc.prems(3) by (metis Suc_le_lessD)
  obtain r1 where r1: "f p r = Inr r1" "Q r1" "same_contacts r r1"
    using body[OF Suc.prems(1,2), of p] p(2) by auto
  have "contacts_ok m r1" by (rule contacts_ok_same[OF r1(3) Suc.prems(2)])
  moreover have "n \<le> unat (num_router_contacts r1)" using r1(3) Suc.prems(3) by (simp add: same_contacts_def)
  ultimately obtain r2 where "for_contacts n f r1 = Inr r2" "Q r2" "same_contacts r1 r2"
    using Suc.IH[OF r1(2)] by blast
  then show ?case using p r1 same_contacts_trans by auto
qed simp

section \<open>Offers\<close>

lemma add_entries_granted:
  assumes "sv_inv sv" "sv_capacity sv \<noteq> 0" "\<forall>e \<in> set es. length e = SUMMARY_VECTOR_ENTRY_HASH_LENGTH"
    "length (sv_entries sv) + length es < 2 ^ 31"
  shows "\<exists>sv'. add_entries es sv [] = Inr (UD3TN_OK, sv', []) \<and> sv_inv sv' \<and> sv_entries sv' = sv_entries sv @ es"
  using assms
proof (induction es arbitrary: sv)
  case (Cons e es)
  have "unat (sv_length sv) < 2 ^ 31" using Cons.prems(1,4) by (simp add: sv_inv_def)
  from add_entry_cases[OF Cons.prems(1) _ this Cons.prems(2), of e "[]"] Cons.prems(3)
  obtain sv1 where s: "summary_vector_add_entry_by_copy sv e [] = Inr (UD3TN_OK, sv1, [])" "sv_inv sv1"
    "sv_capacity sv1 \<noteq> 0" "sv_entries sv1 = sv_entries sv @ [e]"
    by auto
  then show ?case using Cons.IH[OF s(2,3)] Cons.prems(3,4) by auto
qed simp

lemma summary_vector_create_granted:
  "summary_vector_create [] = (Some \<lparr>sv_length = 0, sv_capacity = 8, sv_entries = []\<rparr>, [])"
  by (simp add: summary_vector_create_def summary_vector_create_with_capacity_def sv_const_defs)

lemma new_sv_inv: "sv_inv \<lparr>sv_length = 0, sv_capacity = 8, sv_entries = []\<rparr>"
  by (simp add: sv_inv_def)

lemma collect_granted:
  assumes "list_ok l t" "set l' \<subseteq> set l" "length l' \<le> length l"
  shows "\<exists>sv. add_entries (map bi_sv_entry l') \<lparr>sv_length = 0, sv_capacity = 8, sv_entries = []\<rparr> [] = Inr (UD3TN_OK, sv, [])
    \<and> sv_inv sv \<and> sv_entries sv = map bi_sv_entry l'"
  using add_entries_granted[OF new_sv_inv, of "map bi_sv_entry l'"] assms by (auto simp: list_ok_def)

lemma create_known_sv_granted:
  assumes "router_inv m r"
  shows "\<exists>sv. create_known_sv r = Inr (Ptr sv, r) \<and> sv_inv sv \<and> sv_entries sv = map bi_sv_entry (bundle_info_list r)"
proof -
  note d = router_invD[OF assms]
  have "r\<lparr>r_allocs := []\<rparr> = r" using d(3) by simp
  then show ?thesis using collect_granted[OF d(1), of "bundle_info_list r"] d(3)
    by (auto simp: create_known_sv_def summary_vector_create_granted)
qed

lemma create_offer_sv_granted:
  assumes "router_inv m r"
  shows "\<exists>sv. create_offer_sv env rc r = Inr (Some sv, r) \<and> sv_inv sv
    \<and> sv_entries sv = map bi_sv_entry (filter (bundle_should_be_offered env rc) (bundle_info_list r))"
proof -
  note d = router_invD[OF assms]
  have "r\<lparr>r_allocs := []\<rparr> = r" using d(3) by simp
  then show ?thesis using collect_granted[OF d(1), of "filter (bundle_should_be_offered env rc) (bundle_info_list r)"] d(3)
    by (auto simp: create_offer_sv_def summary_vector_create_granted)
qed

lemma send_offer_sv_granted:
  assumes "router_inv m r" "env_ok env" "rc_store r p = Some rc"
  shows "\<exists>eid sv ksv. send_offer_sv env p r = Inr (emit (OfferSv eid sv (summary_vector_characteristic_calculate ksv)) r)
    \<and> env_node_eid env (rc_contact rc) = Some eid
    \<and> sv_entries sv = map bi_sv_entry (filter (bundle_should_be_offered env rc) (bundle_info_list r))
    \<and> sv_inv ksv \<and> sv_entries ksv = map bi_sv_entry (bundle_info_list r)"
proof -
  obtain ksv where k: "create_known_sv r = Inr (Ptr ksv, r)" "sv_inv ksv" "sv_entries ksv = map bi_sv_entry (bundle_info_list r)"
    using create_known_sv_granted[OF assms(1)] by blast
  obtain sv where o: "create_offer_sv env rc r = Inr (Some sv, r)"
    "sv_entries sv = map bi_sv_entry (filter (bundle_should_be_offered env rc) (bundle_info_list r))"
    using create_offer_sv_granted[OF assms(1)] by blast
  obtain eid where "env_node_eid env (rc_contact rc) = Some eid" using assms(2) by (auto simp: env_ok_def)
  then have "send_offer_sv env p r = Inr (emit (OfferSv eid sv (summary_vector_characteristic_calculate ksv)) r)"
    using k o assms(3) by (simp add: send_offer_sv_def rc_deref_def Let_def)
  then show ?thesis using k o \<open>env_node_eid env (rc_contact rc) = Some eid\<close> by blast
qed

lemma router_inv_emit [simp]: "router_inv m (emit x r) \<longleftrightarrow> router_inv m r"
  by (simp add: router_inv_def emit_def contacts_ok_def)

lemma rc_store_emit [simp]: "rc_store (emit x r) = rc_store r"
  and bil_emit [simp]: "bundle_info_list (emit x r) = bundle_info_list r"
  and num_emit [simp]: "num_router_contacts (emit x r) = num_router_contacts r"
  and tail_emit [simp]: "bil_tail (emit x r) = bil_tail r"
  and out_emit [simp]: "r_out (emit x r) = r_out r @ [x]"
  and allocs_emit [simp]: "r_allocs (emit x r) = r_allocs r"
  by (simp_all add: emit_def)

section \<open>Sending\<close>

lemma chain_from_ok:
  assumes "set_option a \<subseteq> info_addrs r"
  shows "\<exists>pre chain. chain_from a r = Inr chain \<and> (case a of None \<Rightarrow> chain = []
    | Some p \<Rightarrow> chain \<noteq> [] \<and> bi_addr (hd chain) = p \<and> bundle_info_list r = pre @ chain)"
proof (cases a)
  case (Some p)
  let ?d = "dropWhile (\<lambda>e. bi_addr e \<noteq> p) (bundle_info_list r)"
  have "?d \<noteq> []" using assms Some by (auto simp: dropWhile_eq_Nil_conv)
  moreover from this have "bi_addr (hd ?d) = p" using hd_dropWhile by blast
  moreover have "bundle_info_list r = takeWhile (\<lambda>e. bi_addr e \<noteq> p) (bundle_info_list r) @ ?d" by simp
  ultimately show ?thesis using Some by (cases ?d) (auto simp: chain_from_def)
qed (simp add: chain_from_def)

lemma router_inv_rc_put:
  assumes "router_inv m r" "rc_store r p = Some rc" "rc_index rc' = rc_index rc" "rc_ok (info_addrs r) rc'" "rc_contact rc' = rc_contact rc"
  shows "router_inv m (rc_put p rc' r)"
  using assms contacts_ok_same[OF same_contacts_rc_put[OF assms(2,3,5)]]
  by (auto simp: router_inv_def rc_put_def)

lemma router_inv_sends [simp]: "router_inv m (r\<lparr>r_sends := bs\<rparr>) \<longleftrightarrow> router_inv m r"
  and router_inv_next [simp]: "router_inv m (r\<lparr>next_bundle_update := t\<rparr>) \<longleftrightarrow> router_inv m r"
  by (simp_all add: router_inv_def contacts_ok_def)

lemma rc_put_simps [simp]:
  "bundle_info_list (rc_put p rc r) = bundle_info_list r" "bil_tail (rc_put p rc r) = bil_tail r"
  "r_out (rc_put p rc r) = r_out r" "r_allocs (rc_put p rc r) = r_allocs r"
  "rc_store (rc_put p rc r) = (rc_store r)(p \<mapsto> rc)" "num_router_contacts (rc_put p rc r) = num_router_contacts r"
  "router_contact_htab (rc_put p rc r) = router_contact_htab r" "router_contacts (rc_put p rc r) = router_contacts r"
  by (simp_all add: rc_put_def)

text \<open>Handing a bundle over: it was sent, or nothing but the script of answers changed.\<close>

lemma try_to_send_bundle_granted:
  assumes "r_allocs r = []" "eid = Some s"
  shows "try_to_send_bundle eid bi r = Inr (if send_ok (r_sends r)
     then (UD3TN_OK, emit (Send \<lparr>rb_id = bi_id bi, rb_destination = s, rb_prio = bi_prio bi, rb_size = bi_size bi,
             rb_exp_time = bi_exp_time bi\<rparr>) (r\<lparr>r_sends := tl (r_sends r)\<rparr>))
     else (UD3TN_FAIL, r\<lparr>r_sends := tl (r_sends r)\<rparr>))"
  using assms by (cases r) (simp add: try_to_send_bundle_def contact_manager_send_def Let_def)

text \<open>What a round for one neighbour did: nothing, a look that found no bundle, or an attempt.\<close>

definition wanted :: "router_env \<Rightarrow> router_contact \<Rightarrow> summary_vector \<Rightarrow> bundle_info_list_entry \<Rightarrow> bool" where
  "wanted env rc sv c \<longleftrightarrow> bundle_should_be_offered env rc c \<and> summary_vector_contains_entry sv (bi_sv_entry c)"

lemma send_bundles_to_contact_cases:
  assumes inv: "router_inv m r" and env: "env_ok env" and p: "rc_store r p = Some rc"
  shows "(rc_request_sv rc = None \<or> rc_current_bundle rc \<noteq> None) \<and> send_bundles_to_contact env p r = Inr r
   \<or> (\<exists>sv chain pre cs. rc_request_sv rc = Some sv \<and> rc_current_bundle rc = None
       \<and> chain_from (rc_next_bundle_candidate rc) r = Inr chain \<and> chain = pre @ cs
       \<and> (\<forall>c \<in> set pre. \<not> wanted env rc sv c)
       \<and> (cs = [] \<and> send_bundles_to_contact env p r = Inr (rc_put p (rc\<lparr>rc_next_bundle_candidate := None\<rparr>) r)
          \<or> (\<exists>c rest eid. cs = c # rest \<and> wanted env rc sv c \<and> env_node_eid env (rc_contact rc) = Some eid
              \<and> send_bundles_to_contact env p r = Inr (if send_ok (r_sends r)
                  then rc_put p (rc\<lparr>rc_current_bundle := Some (bi_addr c), rc_next_bundle_candidate := next_addr rest\<rparr>)
                         (emit (Send \<lparr>rb_id = bi_id c, rb_destination = eid, rb_prio = bi_prio c, rb_size = bi_size c,
                            rb_exp_time = bi_exp_time c\<rparr>) (r\<lparr>r_sends := tl (r_sends r)\<rparr>))
                  else rc_put p (rc\<lparr>rc_next_bundle_candidate := Some (bi_addr c)\<rparr>) (r\<lparr>r_sends := tl (r_sends r)\<rparr>)))))"
proof (cases "rc_request_sv rc = None \<or> rc_current_bundle rc \<noteq> None")
  case True
  then show ?thesis using p by (auto simp: send_bundles_to_contact_def rc_deref_def split: option.splits)
next
  case False
  then obtain sv where sv: "rc_request_sv rc = Some sv" "rc_current_bundle rc = None" by auto
  have "set_option (rc_next_bundle_candidate rc) \<subseteq> info_addrs r"
    using router_invD(4)[OF inv p] by (simp add: rc_ok_def)
  then obtain chain where chain: "chain_from (rc_next_bundle_candidate rc) r = Inr chain"
    using chain_from_ok by blast
  define pre where "pre = takeWhile (\<lambda>c. \<not> wanted env rc sv c) chain"
  define cs where "cs = dropWhile (\<lambda>c. \<not> wanted env rc sv c) chain"
  have parts: "chain = pre @ cs" "\<forall>c \<in> set pre. \<not> wanted env rc sv c"
    by (auto simp: pre_def cs_def dest: set_takeWhileD)
  obtain eid where eid: "env_node_eid env (rc_contact rc) = Some eid" using env by (auto simp: env_ok_def)
  note t = try_to_send_bundle_granted[OF router_invD(3)[OF inv] eid]
  have u: "send_bundles_to_contact env p r = (case cs of
      [] \<Rightarrow> Inr (rc_put p (rc\<lparr>rc_next_bundle_candidate := None\<rparr>) r)
    | cand # rest \<Rightarrow> bindE (try_to_send_bundle (env_node_eid env (rc_contact rc)) cand r) (\<lambda>(res, r1). Inr (case res of
        UD3TN_OK \<Rightarrow> rc_put p (rc\<lparr>rc_current_bundle := Some (bi_addr cand), rc_next_bundle_candidate := next_addr rest\<rparr>) r1
      | UD3TN_FAIL \<Rightarrow> rc_put p (rc\<lparr>rc_next_bundle_candidate := Some (bi_addr cand)\<rparr>) r1)))"
    using p sv chain unfolding cs_def wanted_def by (simp add: send_bundles_to_contact_def rc_deref_def)
  have "cs = [] \<and> send_bundles_to_contact env p r = Inr (rc_put p (rc\<lparr>rc_next_bundle_candidate := None\<rparr>) r)
      \<or> (\<exists>c rest eid. cs = c # rest \<and> wanted env rc sv c \<and> env_node_eid env (rc_contact rc) = Some eid
          \<and> send_bundles_to_contact env p r = Inr (if send_ok (r_sends r)
              then rc_put p (rc\<lparr>rc_current_bundle := Some (bi_addr c), rc_next_bundle_candidate := next_addr rest\<rparr>)
                     (emit (Send \<lparr>rb_id = bi_id c, rb_destination = eid, rb_prio = bi_prio c, rb_size = bi_size c,
                        rb_exp_time = bi_exp_time c\<rparr>) (r\<lparr>r_sends := tl (r_sends r)\<rparr>))
              else rc_put p (rc\<lparr>rc_next_bundle_candidate := Some (bi_addr c)\<rparr>) (r\<lparr>r_sends := tl (r_sends r)\<rparr>)))"
  proof (cases cs)
    case Nil
    then show ?thesis by (simp add: u)
  next
    case (Cons c rest)
    then have "wanted env rc sv c" using cs_def by (metis dropWhile_eq_Cons_conv)
    then show ?thesis using Cons eid t[of c] by (simp add: u)
  qed
  then show ?thesis using sv chain parts by blast
qed

lemma chain_addrs:
  assumes "set_option a \<subseteq> info_addrs r" "chain_from a r = Inr chain"
  shows "set chain \<subseteq> set (bundle_info_list r)"
proof -
  obtain pre chain' where "chain_from a r = Inr chain'" "case a of None \<Rightarrow> chain' = []
    | Some p \<Rightarrow> chain' \<noteq> [] \<and> bi_addr (hd chain') = p \<and> bundle_info_list r = pre @ chain'"
    using chain_from_ok[OF assms(1)] by blast
  then show ?thesis using assms(2) by (cases a) auto
qed

text \<open>A round for one neighbour keeps the invariant; it changes nothing but that neighbour's record.\<close>

lemma send_keeps_request:
  assumes "router_inv m r" "env_ok env" "rc_store r p = Some rc" "send_bundles_to_contact env p r = Inr r'"
  shows "map_option rc_request_sv (rc_store r' p) = Some (rc_request_sv rc)"
  using send_bundles_to_contact_cases[OF assms(1-3)] assms(3,4) by (auto simp: rc_put_def emit_def split: if_splits)

lemma send_bundles_to_contact_inv:
  assumes inv: "router_inv m r" and env: "env_ok env" and p: "rc_store r p \<noteq> None"
  shows "\<exists>r'. send_bundles_to_contact env p r = Inr r' \<and> router_inv m r' \<and> same_contacts r r'
    \<and> bundle_info_list r' = bundle_info_list r \<and> bil_tail r' = bil_tail r"
proof -
  obtain rc where rc: "rc_store r p = Some rc" using p by auto
  have ok: "rc_ok (info_addrs r) rc" by (rule router_invD(4)[OF inv rc])
  then have a: "set_option (rc_next_bundle_candidate rc) \<subseteq> info_addrs r" by (simp add: rc_ok_def)
  let ?r = "r\<lparr>r_sends := tl (r_sends r)\<rparr>"
  have put: "router_inv m (rc_put p rc' r0) \<and> same_contacts r (rc_put p rc' r0)"
    if "router_inv m r0" "same_contacts r r0" "rc_store r0 p = Some rc" "rc_index rc' = rc_index rc" "rc_contact rc' = rc_contact rc"
       "rc_ok (info_addrs r0) rc'" for rc' r0
    using that router_inv_rc_put same_contacts_rc_put same_contacts_trans by metis
  from send_bundles_to_contact_cases[OF inv env rc] show ?thesis
  proof (elim disjE exE conjE)
    assume "send_bundles_to_contact env p r = Inr r"
    then show ?thesis using inv by simp
  next
    assume "send_bundles_to_contact env p r = Inr r"
    then show ?thesis using inv by simp
  next
    fix sv chain pre cs
    assume "send_bundles_to_contact env p r = Inr (rc_put p (rc\<lparr>rc_next_bundle_candidate := None\<rparr>) r)"
    then show ?thesis using put[OF inv _ rc, of "rc\<lparr>rc_next_bundle_candidate := None\<rparr>"] ok
      by (auto simp: rc_ok_def)
  next
    fix sv chain pre cs c rest eid
    assume s: "send_bundles_to_contact env p r = Inr (if send_ok (r_sends r)
          then rc_put p (rc\<lparr>rc_current_bundle := Some (bi_addr c), rc_next_bundle_candidate := next_addr rest\<rparr>)
                 (emit (Send \<lparr>rb_id = bi_id c, rb_destination = eid, rb_prio = bi_prio c, rb_size = bi_size c,
                    rb_exp_time = bi_exp_time c\<rparr>) ?r)
          else rc_put p (rc\<lparr>rc_next_bundle_candidate := Some (bi_addr c)\<rparr>) ?r)"
      and ch: "chain_from (rc_next_bundle_candidate rc) r = Inr chain" "chain = pre @ cs" "cs = c # rest"
    have sub: "set (c # rest) \<subseteq> set (bundle_info_list r)" using chain_addrs[OF a ch(1)] ch by auto
    then have "set_option (next_addr rest) \<subseteq> info_addrs r" by (auto simp: next_addr_def split: list.splits)
    then have "rc_ok (info_addrs r) (rc\<lparr>rc_current_bundle := Some (bi_addr c), rc_next_bundle_candidate := next_addr rest\<rparr>)"
      "rc_ok (info_addrs r) (rc\<lparr>rc_next_bundle_candidate := Some (bi_addr c)\<rparr>)"
      using ok sub by (auto simp: rc_ok_def)
    then show ?thesis
      using s put[of "emit (Send \<lparr>rb_id = bi_id c, rb_destination = eid, rb_prio = bi_prio c, rb_size = bi_size c,
                    rb_exp_time = bi_exp_time c\<rparr>) ?r"] put[of ?r] inv rc
      by (cases "send_ok (r_sends r)") simp_all
  qed
qed

lemma send_bundles_inv:
  assumes "router_inv m r" "env_ok env"
  shows "\<exists>r'. send_bundles env r = Inr r' \<and> router_inv m r' \<and> same_contacts r r'
    \<and> bundle_info_list r' = bundle_info_list r"
proof -
  let ?Q = "\<lambda>r'. router_inv m r' \<and> bundle_info_list r' = bundle_info_list r"
  have "\<exists>r'. for_contacts (unat (num_router_contacts r)) (send_bundles_to_contact env) r = Inr r' \<and> ?Q r' \<and> same_contacts r r'"
  proof (rule for_contacts_inv[where m = m])
    fix p r0 assume "?Q r0" "rc_store r0 p \<noteq> None"
    then show "\<exists>r'. send_bundles_to_contact env p r0 = Inr r' \<and> ?Q r' \<and> same_contacts r0 r'"
      using send_bundles_to_contact_inv[of m r0 env p] assms(2) by auto
  qed (use assms router_invD in auto)
  then show ?thesis by (auto simp: send_bundles_def)
qed

section \<open>Expiry\<close>

definition sending :: "router \<Rightarrow> nat \<Rightarrow> bool" where
  "sending r a \<longleftrightarrow> (\<exists>p rc. rc_store r p = Some rc \<and> rc_current_bundle rc = Some a)"

lemma store_in_array:
  "contacts_ok m r \<Longrightarrow> rc_store r p = Some rc \<Longrightarrow>
   router_contacts r ! unat (rc_index rc) = Some p \<and> unat (rc_index rc) < unat (num_router_contacts r)"
  by (simp add: contacts_ok_def word_less_nat_alt)

lemma being_sent_ok:
  assumes "contacts_ok m r" "n \<le> unat (num_router_contacts r)"
  shows "being_sent a n r = Inr (\<exists>p rc. rc_store r p = Some rc \<and> rc_current_bundle rc = Some a \<and> unat (rc_index rc) < n)"
  using assms(2)
proof (induction n)
  case (Suc n)
  obtain p rc where p: "contact_at n r = Inr p" "rc_store r p = Some rc" "unat (rc_index rc) = n"
    using contact_at_ok[OF assms(1), of n] Suc.prems by auto
  have only: "q = p" if "rc_store r q = Some rcq" "unat (rc_index rcq) = n" for q rcq
    using store_in_array[OF assms(1) that(1)] store_in_array[OF assms(1) p(2)] that p by auto
  show ?case
  proof (cases "rc_current_bundle rc = Some a")
    case True
    then show ?thesis using p by (auto simp: rc_deref_def)
  next
    case False
    then have "(\<exists>q rcq. rc_store r q = Some rcq \<and> rc_current_bundle rcq = Some a \<and> unat (rc_index rcq) < Suc n)
        = (\<exists>q rcq. rc_store r q = Some rcq \<and> rc_current_bundle rcq = Some a \<and> unat (rc_index rcq) < n)"
      using only p(2) by (metis less_Suc_eq option.inject)
    then show ?thesis using False p Suc by (simp add: rc_deref_def)
  qed
qed simp

lemma being_sent_iff:
  assumes "contacts_ok m r"
  shows "being_sent a (unat (num_router_contacts r)) r = Inr (sending r a)"
proof -
  have "(\<exists>p rc. rc_store r p = Some rc \<and> rc_current_bundle rc = Some a \<and> unat (rc_index rc) < unat (num_router_contacts r))
      \<longleftrightarrow> sending r a"
    using store_in_array[OF assms] unfolding sending_def by blast
  then show ?thesis using being_sent_ok[OF assms, of "unat (num_router_contacts r)" a] by simp
qed

definition redirected :: "nat \<Rightarrow> nat option \<Rightarrow> router_contact \<Rightarrow> router_contact" where
  "redirected a nxt rc = (if rc_next_bundle_candidate rc = Some a then rc\<lparr>rc_next_bundle_candidate := nxt\<rparr> else rc)"

lemma redirected_simps [simp]:
  "rc_index (redirected a nxt rc) = rc_index rc" "rc_contact (redirected a nxt rc) = rc_contact rc" "rc_current_bundle (redirected a nxt rc) = rc_current_bundle rc"
  "rc_request_sv (redirected a nxt rc) = rc_request_sv rc"
  by (simp_all add: redirected_def)

lemma redirect_loop:
  assumes "contacts_ok m r" "n \<le> unat (num_router_contacts r)"
  shows "for_contacts n (redirect_candidate a nxt) r = Inr (r\<lparr>rc_store :=
    (\<lambda>p. map_option (\<lambda>rc. if unat (rc_index rc) < n then redirected a nxt rc else rc) (rc_store r p))\<rparr>)"
  using assms
proof (induction n arbitrary: r)
  case 0
  show ?case by (cases r) (simp add: option.map_ident)
next
  case (Suc n)
  obtain p rc where p: "contact_at n r = Inr p" "rc_store r p = Some rc" "unat (rc_index rc) = n"
    using contact_at_ok[OF Suc.prems(1), of n] Suc.prems(2) by auto
  let ?r = "r\<lparr>rc_store := (rc_store r)(p \<mapsto> redirected a nxt rc)\<rparr>"
  have "redirect_candidate a nxt p r = Inr ?r"
    using p(2) by (auto simp: redirect_candidate_def rc_deref_def redirected_def rc_put_def fun_upd_idem)
  moreover have s: "same_contacts r ?r" using p(2) by (auto simp: same_contacts_def)
  moreover have "contacts_ok m ?r" by (rule contacts_ok_same[OF s Suc.prems(1)])
  moreover have "(\<lambda>q. map_option (\<lambda>rc. if unat (rc_index rc) < n then redirected a nxt rc else rc) (rc_store ?r q))
     = (\<lambda>q. map_option (\<lambda>rc. if unat (rc_index rc) < Suc n then redirected a nxt rc else rc) (rc_store r q))"
  proof
    fix q
    show "map_option (\<lambda>rc. if unat (rc_index rc) < n then redirected a nxt rc else rc) (rc_store ?r q)
        = map_option (\<lambda>rc. if unat (rc_index rc) < Suc n then redirected a nxt rc else rc) (rc_store r q)"
    proof (cases "q = p")
      case False
      then have "unat (rc_index rcq) \<noteq> n" if "rc_store r q = Some rcq" for rcq
        using store_in_array[OF Suc.prems(1) that] store_in_array[OF Suc.prems(1) p(2)] p(3) by auto
      then show ?thesis using False by (cases "rc_store r q") (auto simp: less_Suc_eq)
    qed (use p in simp)
  qed
  ultimately show ?case using Suc.IH[of ?r] Suc.prems(2) p(1) by simp
qed

lemma redirect_all:
  assumes "contacts_ok m r"
  shows "for_contacts (unat (num_router_contacts r)) (redirect_candidate a nxt) r
    = Inr (r\<lparr>rc_store := (\<lambda>p. map_option (redirected a nxt) (rc_store r p))\<rparr>)"
proof -
  have "map_option (\<lambda>rc. if unat (rc_index rc) < unat (num_router_contacts r) then redirected a nxt rc else rc) (rc_store r p)
      = map_option (redirected a nxt) (rc_store r p)" for p
    using store_in_array[OF assms] by (cases "rc_store r p") auto
  then show ?thesis using redirect_loop[OF assms, of "unat (num_router_contacts r)"] by simp
qed

lemma list_ok_remove:
  assumes "list_ok (kept @ cur # rest) t"
  shows "list_ok (kept @ rest) (if t = Some (bi_addr cur) then (if kept = [] then None else Some (bi_addr (last kept))) else t)"
proof (cases "rest = []")
  case True
  then show ?thesis using assms by (auto simp: list_ok_def)
next
  case False
  then have "bi_addr (last rest) \<noteq> bi_addr cur"
    using assms by (auto simp: list_ok_def) (metis image_eqI last_in_set)
  then show ?thesis using assms False by (auto simp: list_ok_def)
qed

text \<open>One deletion: the entry leaves the list, no record points at it any more.\<close>

lemma delete_entry_inv:
  assumes inv: "router_inv m r" and l: "bundle_info_list r = kept @ cur # rest" and ns: "\<not> sending r (bi_addr cur)"
    and t: "t = (if bil_tail r = Some (bi_addr cur) then (if kept = [] then None else Some (bi_addr (last kept))) else bil_tail r)"
    and nxt: "nxt = next_addr rest"
  shows "router_inv m (r\<lparr>bundle_info_list := kept @ rest, bil_tail := t,
      rc_store := (\<lambda>p. map_option (redirected (bi_addr cur) nxt) (rc_store r p))\<rparr>)" (is "router_inv m ?r")
    and "same_contacts r (r\<lparr>bundle_info_list := kept @ rest, bil_tail := t,
      rc_store := (\<lambda>p. map_option (redirected (bi_addr cur) nxt) (rc_store r p))\<rparr>)"
proof -
  note d = router_invD[OF inv]
  show s: "same_contacts r ?r" by (auto simp: same_contacts_def option.map_comp comp_def)
  have "rc_ok (bi_addr ` set (kept @ rest)) (redirected (bi_addr cur) nxt rc)" if "rc_store r p = Some rc" for p rc
  proof -
    have ok: "rc_ok (info_addrs r) rc" by (rule d(4)[OF that])
    have "bi_addr cur \<notin> set_option (rc_current_bundle rc)" using ns that by (auto simp: sending_def)
    moreover have "set_option nxt \<subseteq> bi_addr ` set (kept @ rest)" using nxt by (auto simp: next_addr_def split: list.splits)
    ultimately show ?thesis using ok l by (auto simp: rc_ok_def redirected_def split: if_splits)
  qed
  then show "router_inv m ?r"
    using list_ok_remove[of kept cur rest "bil_tail r"] d(1,3) contacts_ok_same[OF s d(2)] l t
    by (auto simp: router_inv_def)
qed

definition expired_idle :: "u64 \<Rightarrow> router \<Rightarrow> bundle_info_list_entry \<Rightarrow> bool" where
  "expired_idle now r e \<longleftrightarrow> bi_exp_time e < now \<and> \<not> sending r (bi_addr e)"

definition expiry_signal :: "bundle_info_list_entry \<Rightarrow> router_out" where
  "expiry_signal e = Inform (bi_id e) BP_SIGNAL_BUNDLE_EXPIRED BUNDLE_SR_REASON_LIFETIME_EXPIRED"

lemma update_loop_ok:
  assumes "router_inv m r" "bundle_info_list r = kept @ rest"
  shows "\<exists>r'. update_loop now kept rest r = Inr r' \<and> router_inv m r' \<and> same_contacts r r' \<and> sending r' = sending r
    \<and> bundle_info_list r' = kept @ filter (\<lambda>e. \<not> expired_idle now r e) rest
    \<and> r_out r' = r_out r @ map expiry_signal (filter (expired_idle now r) rest)"
  using assms
proof (induction rest arbitrary: kept r)
  case (Cons cur rest)
  note d = router_invD[OF Cons.prems(1)]
  show ?case
  proof (cases "expired_idle now r cur")
    case False
    then have "update_loop now kept (cur # rest) r = update_loop now (kept @ [cur]) rest r"
      using being_sent_iff[OF d(2), of "bi_addr cur"] by (auto simp: expired_idle_def)
    then show ?thesis using Cons.IH[of r "kept @ [cur]"] Cons.prems False by (auto simp del: update_loop.simps)
  next
    case True
    let ?t = "if bil_tail r = Some (bi_addr cur) then (if kept = [] then None else Some (bi_addr (last kept))) else bil_tail r"
    let ?s = "\<lambda>p. map_option (redirected (bi_addr cur) (next_addr rest)) (rc_store r p)"
    let ?r1 = "r\<lparr>bundle_info_list := kept @ rest, bil_tail := ?t, rc_store := ?s\<rparr>"
    let ?r2 = "emit (expiry_signal cur) ?r1"
    have ns: "\<not> sending r (bi_addr cur)" using True by (simp add: expired_idle_def)
    note del = delete_entry_inv[OF Cons.prems(1,2) ns refl refl]
    have c: "contacts_ok m (r\<lparr>bundle_info_list := kept @ rest, bil_tail := ?t\<rparr>)"
      by (rule contacts_ok_same[OF _ d(2)]) simp
    have "(if bil_tail r = Some (bi_addr cur) then r\<lparr>bundle_info_list := kept @ rest, bil_tail := (if kept = [] then None else Some (bi_addr (last kept)))\<rparr>
        else r\<lparr>bundle_info_list := kept @ rest\<rparr>) = r\<lparr>bundle_info_list := kept @ rest, bil_tail := ?t\<rparr>"
      by (cases r) auto
    then have step: "update_loop now kept (cur # rest) r = update_loop now kept rest ?r2"
      using being_sent_iff[OF d(2), of "bi_addr cur"] True redirect_all[OF c, of "bi_addr cur" "next_addr rest"]
      by (simp add: expired_idle_def Let_def next_addr_def[symmetric] signal_bundle_expired_def expiry_signal_def
          split del: if_split)
    have s: "sending ?r2 = sending r"
      by (simp add: sending_def fun_eq_iff) (metis redirected_simps(3))
    have "expired_idle now ?r2 = expired_idle now r" by (simp add: expired_idle_def s fun_eq_iff)
    then show ?thesis
      using Cons.IH[of ?r2 kept] del True step s same_contacts_trans[of r ?r2] by (auto simp del: update_loop.simps)
  qed
qed simp

section \<open>Routing\<close>

lemma rc_ok_mono: "rc_ok A rc \<Longrightarrow> A \<subseteq> B \<Longrightarrow> rc_ok B rc"
  by (auto simp: rc_ok_def)

lemma dropWhile_last:
  "distinct (map f l) \<Longrightarrow> l \<noteq> [] \<Longrightarrow> dropWhile (\<lambda>x. f x \<noteq> f (last l)) l = [last l]"
proof (induction l)
  case (Cons x xs)
  show ?case
  proof (cases "xs = []")
    case False
    then have "f x \<noteq> f (last xs)" using Cons.prems(1) by (auto simp: image_iff dest: last_in_set)
    then show ?thesis using Cons False by simp
  qed simp
qed simp

lemma r_allocs_id: "r_allocs r = [] \<Longrightarrow> r\<lparr>r_allocs := []\<rparr> = r"
  by (cases r) simp

lemma append_info_ok:
  assumes inv: "router_inv m r" and new: "bi_addr info \<notin> info_addrs r"
    and len: "length (bundle_info_list r) + 1 < 2 ^ 31" "length (bi_sv_entry info) = SUMMARY_VECTOR_ENTRY_HASH_LENGTH"
  shows "append_info info r = Inr (r\<lparr>bil_tail := Some (bi_addr info), bundle_info_list := bundle_info_list r @ [info]\<rparr>)"
    and "router_inv m (r\<lparr>bil_tail := Some (bi_addr info), bundle_info_list := bundle_info_list r @ [info]\<rparr>)"
proof -
  let ?l = "bundle_info_list r"
  note d = router_invD[OF inv]
  have l: "list_ok ?l (bil_tail r)" by (rule d(1))
  show "append_info info r = Inr (r\<lparr>bil_tail := Some (bi_addr info), bundle_info_list := ?l @ [info]\<rparr>)"
  proof (cases "?l = []")
    case True
    then show ?thesis using l by (simp add: append_info_def list_ok_def)
  next
    case False
    then have t: "bil_tail r = Some (bi_addr (last ?l))" using l by (simp add: list_ok_def)
    have "dropWhile (\<lambda>e. bi_addr e \<noteq> bi_addr (last ?l)) ?l = [last ?l]"
      using dropWhile_last[of bi_addr ?l] l False by (simp add: list_ok_def)
    then show ?thesis using t False by (simp add: append_info_def chain_from_def)
  qed
  show "router_inv m (r\<lparr>bil_tail := Some (bi_addr info), bundle_info_list := ?l @ [info]\<rparr>)"
  proof -
    have "list_ok (?l @ [info]) (Some (bi_addr info))" using l new len by (auto simp: list_ok_def)
    moreover have "contacts_ok m (r\<lparr>bil_tail := Some (bi_addr info), bundle_info_list := ?l @ [info]\<rparr>)"
      by (rule contacts_ok_same[OF _ d(2)]) simp
    moreover have "rc_ok (bi_addr ` set (?l @ [info])) rc" if "rc_store r p = Some rc" for p rc
      by (rule rc_ok_mono[OF d(4)[OF that]]) auto
    ultimately show ?thesis using d(3) by (simp add: router_inv_def)
  qed
qed

lemma offer_if_idle_inv:
  assumes "router_inv m r" "env_ok env" "rc_store r p \<noteq> None"
  shows "\<exists>r'. offer_if_idle env p r = Inr r' \<and> router_inv m r' \<and> same_contacts r r'
    \<and> bundle_info_list r' = bundle_info_list r"
proof -
  obtain rc where rc: "rc_store r p = Some rc" using assms(3) by auto
  obtain eid sv ksv where "send_offer_sv env p r = Inr (emit (OfferSv eid sv (summary_vector_characteristic_calculate ksv)) r)"
    using send_offer_sv_granted[OF assms(1,2) rc] by blast
  then show ?thesis using rc assms(1) by (simp add: offer_if_idle_def rc_deref_def)
qed

lemma offers_inv:
  assumes "router_inv m r" "env_ok env"
  shows "\<exists>r'. for_contacts (unat (num_router_contacts r)) (offer_if_idle env) r = Inr r' \<and> router_inv m r'
    \<and> same_contacts r r' \<and> bundle_info_list r' = bundle_info_list r"
proof -
  let ?Q = "\<lambda>r'. router_inv m r' \<and> bundle_info_list r' = bundle_info_list r"
  have "\<exists>r'. for_contacts (unat (num_router_contacts r)) (offer_if_idle env) r = Inr r' \<and> ?Q r' \<and> same_contacts r r'"
  proof (rule for_contacts_inv[where m = m])
    fix p r0 assume "?Q r0" "rc_store r0 p \<noteq> None"
    then show "\<exists>r'. offer_if_idle env p r0 = Inr r' \<and> ?Q r' \<and> same_contacts r0 r'"
      using offer_if_idle_inv[of m r0 env p] assms(2) by auto
  qed (use assms router_invD in auto)
  then show ?thesis by auto
qed

text \<open>The entry a bundle gets.\<close>

definition bundle_entry :: "router_env \<Rightarrow> bundle_t \<Rightarrow> summary_vector_entry" where
  "bundle_entry env b = summary_vector_entry_from_bundle_unique_identifier (env_hal_hash env)
     (fst (projr (bundle_get_unique_identifier b [])))"

lemma bundle_entry_ok:
  assumes "wf_bundle b" "env_ok env"
  shows "summary_vector_entry_from_bundle (env_hal_hash env) b [] = Inr (bundle_entry env b, [])"
    and "length (bundle_entry env b) = SUMMARY_VECTOR_ENTRY_HASH_LENGTH"
proof -
  obtain s where s: "source b = Some s" using wf_bundle_source[OF assms(1)] ..
  obtain q where q: "payload_of b = Some q" by (rule wf_bundle_payload[OF assms(1)])
  show "summary_vector_entry_from_bundle (env_hal_hash env) b [] = Inr (bundle_entry env b, [])"
    using s q by (simp add: summary_vector_entry_from_bundle_def bundle_entry_def bundle_get_unique_identifier_def)
  show "length (bundle_entry env b) = SUMMARY_VECTOR_ENTRY_HASH_LENGTH"
    using assms(2) by (simp add: bundle_entry_def summary_vector_entry_from_bundle_unique_identifier_def env_ok_def sv_const_defs)
qed

lemma known_entry_iff:
  assumes "list_ok l t" "length e = SUMMARY_VECTOR_ENTRY_HASH_LENGTH"
  shows "list_ex (\<lambda>x. summary_vector_entry_equal e (bi_sv_entry x)) l \<longleftrightarrow> e \<in> bi_sv_entry ` set l"
  using assms by (auto simp: list_ok_def list_ex_iff summary_vector_entry_equal_def)

lemma route_epidemic_bundle_ok:
  assumes inv: "router_inv m r" and env: "env_ok env" and wf: "wf_bundle b"
    and new: "new \<notin> info_addrs r" and len: "length (bundle_info_list r) + 1 < 2 ^ 31"
  shows "\<exists>r'. route_epidemic_bundle env new b r = Inr (bundle_entry env b \<notin> bi_sv_entry ` set (bundle_info_list r), r')
    \<and> router_inv m r' \<and> same_contacts r r'
    \<and> (if bundle_entry env b \<in> bi_sv_entry ` set (bundle_info_list r) then r' = r
       else bundle_info_list r' = bundle_info_list r @
         [\<lparr>bi_addr = new, bi_sv_entry = bundle_entry env b, bi_id = bundle_id b,
           bi_num_pending_transmissions = pending_transmissions env (the (source b)) (the (destination b)),
           bi_prio = bundle_get_routing_priority b, bi_size = ucast (env_serialized_size env b),
           bi_exp_time = bundle_get_expiration_time_s (env_now env) b, bi_destination = the (destination b)\<rparr>])"
proof -
  note d = router_invD[OF inv]
  note e = bundle_entry_ok[OF wf env]
  note r0 = r_allocs_id[OF d(3)]
  obtain s t where st: "source b = Some s" "destination b = Some t" using wf by (auto simp: wf_bundle_def)
  show ?thesis
  proof (cases "bundle_entry env b \<in> bi_sv_entry ` set (bundle_info_list r)")
    case True
    then show ?thesis
      using inv e(1) known_entry_iff[OF d(1) e(2)] d(3) by (simp add: route_epidemic_bundle_def r0)
  next
    case False
    define info where "info = \<lparr>bi_addr = new, bi_sv_entry = bundle_entry env b, bi_id = bundle_id b,
           bi_num_pending_transmissions = pending_transmissions env s t,
           bi_prio = bundle_get_routing_priority b, bi_size = ucast (env_serialized_size env b),
           bi_exp_time = bundle_get_expiration_time_s (env_now env) b, bi_destination = t\<rparr>"
    let ?r = "r\<lparr>bil_tail := Some (bi_addr info), bundle_info_list := bundle_info_list r @ [info]\<rparr>"
    have "bi_addr info \<notin> info_addrs r" "length (bi_sv_entry info) = SUMMARY_VECTOR_ENTRY_HASH_LENGTH"
      using new e(2) by (simp_all add: info_def)
    note app = append_info_ok[OF inv this(1) len this(2)]
    obtain r' where o: "for_contacts (unat (num_router_contacts ?r)) (offer_if_idle env) ?r = Inr r'" "router_inv m r'"
      "same_contacts ?r r'" "bundle_info_list r' = bundle_info_list ?r"
      using offers_inv[OF app(2) env] by blast
    have "route_epidemic_bundle env new b r = Inr (True, r')"
      using e(1) known_entry_iff[OF d(1) e(2)] d(3) False st app(1) o(1)
      by (simp add: route_epidemic_bundle_def r0 info_def[symmetric])
    moreover have "same_contacts r r'" using o(3) by (simp add: same_contacts_def)
    ultimately show ?thesis using o(2,4) False st by (simp add: info_def)
  qed
qed

lemma route_info_bundle_ok:
  assumes "router_inv m r" "wf_bundle b"
  shows "\<exists>ok r'. route_info_bundle env b r = Inr (ok, r') \<and> router_inv m r' \<and> same_contacts r r'
    \<and> bundle_info_list r' = bundle_info_list r"
proof -
  obtain t where "destination b = Some t" using assms(2) by (auto simp: wf_bundle_def)
  then show ?thesis using assms(1) router_invD(3)[OF assms(1)] r_allocs_id[OF router_invD(3)[OF assms(1)]]
    by (auto simp: route_info_bundle_def contact_manager_send_def Let_def r_allocs_id[OF router_invD(3)[OF assms(1)]])
qed

lemma router_route_bundle_inv:
  assumes "router_inv m r" "env_ok env" "wf_bundle b" "new \<notin> info_addrs r" "length (bundle_info_list r) + 1 < 2 ^ 31"
  shows "\<exists>r'. router_route_bundle env new b r = Inr r' \<and> router_inv m r' \<and> same_contacts r r'"
proof -
  obtain t where t: "destination b = Some t" using assms(3) by (auto simp: wf_bundle_def)
  show ?thesis
  proof (cases "routing_agent_is_info_bundle t")
    case True
    then show ?thesis using route_info_bundle_ok[OF assms(1,3), of env] t
      by (auto simp: router_route_bundle_def)
  next
    case False
    obtain r1 where r1: "route_epidemic_bundle env new b r = Inr (bundle_entry env b \<notin> bi_sv_entry ` set (bundle_info_list r), r1)"
      "router_inv m r1" "same_contacts r r1"
      using route_epidemic_bundle_ok[OF assms] by blast
    then show ?thesis using False t by (simp add: router_route_bundle_def)
  qed
qed

section \<open>Contacts come and go\<close>

lemma unat_dec: "(x :: u16) \<noteq> 0 \<Longrightarrow> unat (x - 1) = unat x - 1"
  by (simp add: unat_minus_one)

lemma contacts_okI:
  assumes "length (router_contacts r) = m" "unat (num_router_contacts r) \<le> m - 1"
    and "\<And>i. i < unat (num_router_contacts r) \<Longrightarrow>
      \<exists>p rc. router_contacts r ! i = Some p \<and> rc_store r p = Some rc \<and> unat (rc_index rc) = i"
    and "\<And>e p. router_contact_htab r e = Some p \<Longrightarrow> \<exists>i < unat (num_router_contacts r). router_contacts r ! i = Some p"
    and "\<And>e1 e2 p. router_contact_htab r e1 = Some p \<Longrightarrow> router_contact_htab r e2 = Some p \<Longrightarrow> e1 = e2"
    and "\<And>p rc. rc_store r p = Some rc \<Longrightarrow>
      router_contacts r ! unat (rc_index rc) = Some p \<and> unat (rc_index rc) < unat (num_router_contacts r)"
  shows "contacts_ok m r"
proof -
  have "\<exists>p. router_contacts r ! i = Some p \<and> map_option (unat \<circ> rc_index) (rc_store r p) = Some i"
    if "i < unat (num_router_contacts r)" for i
    using assms(3)[OF that] by auto
  then show ?thesis using assms(1,2,4-6) unfolding contacts_ok_def word_less_nat_alt by blast
qed

lemma contacts_okD:
  assumes "contacts_ok m r"
  shows "length (router_contacts r) = m" "unat (num_router_contacts r) \<le> m - 1"
    and "i < unat (num_router_contacts r) \<Longrightarrow>
      \<exists>p rc. router_contacts r ! i = Some p \<and> rc_store r p = Some rc \<and> unat (rc_index rc) = i"
    and "router_contact_htab r e = Some p \<Longrightarrow> \<exists>i < unat (num_router_contacts r). router_contacts r ! i = Some p"
    and "router_contact_htab r e1 = Some p \<Longrightarrow> router_contact_htab r e2 = Some p \<Longrightarrow> e1 = e2"
  using assms unfolding contacts_ok_def by (blast, blast, force, blast, blast)

lemma contacts_ok_add:
  assumes ok: "contacts_ok m r" and m: "m < 2 ^ 16" "unat (num_router_contacts r) < m - 1"
    and new: "rc_store r new = None" "router_contact_htab r eid = None" and rc: "rc_index rc = num_router_contacts r"
    and htab': "router_contact_htab r' = (router_contact_htab r)(eid \<mapsto> new)" and store': "rc_store r' = (rc_store r)(new \<mapsto> rc)"
    and arr': "router_contacts r' = (router_contacts r)[unat (num_router_contacts r) := Some new]"
    and num': "num_router_contacts r' = num_router_contacts r + 1"
  shows "contacts_ok m r'"
proof -
  note d = contacts_okD[OF ok]
  let ?n = "unat (num_router_contacts r)"
  have n: "unat (num_router_contacts r') = ?n + 1" using m num' by (simp add: unat_word_ariths)
  have len: "?n < length (router_contacts r)" using d(1) m by linarith
  have old: "router_contacts r' ! i = router_contacts r ! i" if "i < ?n" for i
    using that arr' by simp
  have last: "router_contacts r' ! ?n = Some new" using arr' len by simp
  have notnew: "router_contacts r ! i \<noteq> Some new" if "i < ?n" for i
    using d(3)[OF that] new(1) by auto
  show ?thesis
  proof (rule contacts_okI)
    show "length (router_contacts r') = m" using d(1) arr' by simp
    show "unat (num_router_contacts r') \<le> m - 1" using n m by simp
  next
    fix i assume "i < unat (num_router_contacts r')"
    then consider "i < ?n" | "i = ?n" using n by linarith
    then show "\<exists>p z. router_contacts r' ! i = Some p \<and> rc_store r' p = Some z \<and> unat (rc_index z) = i"
    proof cases
      case 1
      then obtain x z where "router_contacts r ! i = Some x" "rc_store r x = Some z" "unat (rc_index z) = i"
        using d(3)[OF 1] by blast
      then show ?thesis using old[OF 1] new(1) store' by (intro exI[of _ x] exI[of _ z]) auto
    next
      case 2
      then show ?thesis using last store' rc by simp
    qed
  next
    fix e p assume h: "router_contact_htab r' e = Some p"
    show "\<exists>i < unat (num_router_contacts r'). router_contacts r' ! i = Some p"
    proof (cases "e = eid")
      case True
      then show ?thesis using h htab' last n by (intro exI[of _ ?n]) simp
    next
      case False
      then obtain i where "i < ?n" "router_contacts r ! i = Some p" using h htab' d(4)[of e p] by auto
      then show ?thesis using old[of i] n by (intro exI[of _ i]) simp
    qed
  next
    fix e1 e2 p assume "router_contact_htab r' e1 = Some p" "router_contact_htab r' e2 = Some p"
    moreover have "router_contact_htab r e \<noteq> Some new" for e using d(4)[of e new] notnew by blast
    ultimately show "e1 = e2" using htab' d(5)[of e1 p e2] by (simp split: if_splits)
  next
    fix p z assume s: "rc_store r' p = Some z"
    show "router_contacts r' ! unat (rc_index z) = Some p \<and> unat (rc_index z) < unat (num_router_contacts r')"
    proof (cases "p = new")
      case True
      then show ?thesis using s store' last rc n by simp
    next
      case False
      then have "rc_store r p = Some z" using s store' by simp
      from store_in_array[OF ok this] show ?thesis using old n by simp
    qed
  qed
qed

lemma contacts_ok_remove:
  assumes ok: "contacts_ok m r" and p: "rc_store r p = Some rc" "router_contact_htab r eid = Some p"
    and q: "router_contacts r ! (unat (num_router_contacts r) - 1) = Some q" "rc_store r q = Some other"
    and htab': "router_contact_htab r' = (router_contact_htab r)(eid := None)"
    and store': "rc_store r' = (rc_store r)(q \<mapsto> other\<lparr>rc_index := rc_index rc\<rparr>, p := None)"
    and arr': "router_contacts r' = (router_contacts r)
       [unat (rc_index rc) := Some q, unat (num_router_contacts r) - 1 := None]"
    and num': "num_router_contacts r' = num_router_contacts r - 1"
  shows "contacts_ok m r'"
proof -
  note d = contacts_okD[OF ok]
  let ?n = "unat (num_router_contacts r)" and ?k = "unat (rc_index rc)"
  have k: "router_contacts r ! ?k = Some p" "?k < ?n" using store_in_array[OF ok p(1)] by auto
  then have n0: "num_router_contacts r \<noteq> 0" "?n > 0" by auto
  have n: "unat (num_router_contacts r') = ?n - 1" using unat_dec[OF n0(1)] num' by simp
  have len: "?n - 1 < length (router_contacts r)" using d(1,2) n0 by linarith
  have idx_q: "unat (rc_index other) = ?n - 1"
    using d(3)[of "?n - 1"] n0 q by auto
  have same: "q = p \<longleftrightarrow> ?k = ?n - 1" using k q p idx_q by auto
  have at: "router_contacts r' ! i = (if i = ?k then Some q else router_contacts r ! i)" if "i < ?n - 1" for i
    using that arr' len k by (auto simp: nth_list_update)
  have pos: "unat (rc_index z) = i \<longleftrightarrow> x = y" if "rc_store r x = Some z" "router_contacts r ! i = Some y" "i < ?n" for x y z i
    using that store_in_array[OF ok that(1)] d(3)[OF that(3)] by auto
  show ?thesis
  proof (rule contacts_okI)
    show "length (router_contacts r') = m" using d(1) arr' by simp
    show "unat (num_router_contacts r') \<le> m - 1" using n d(2) by simp
  next
    fix i assume "i < unat (num_router_contacts r')"
    then have i: "i < ?n - 1" using n by simp
    then have i': "i < ?n" by simp
    show "\<exists>p z. router_contacts r' ! i = Some p \<and> rc_store r' p = Some z \<and> unat (rc_index z) = i"
    proof (cases "i = ?k")
      case True
      then have "q \<noteq> p" using i same by simp
      then show ?thesis using at[OF i] True store' by simp
    next
      case False
      obtain x z where x: "router_contacts r ! i = Some x" "rc_store r x = Some z" "unat (rc_index z) = i"
        using d(3)[OF i'] by blast
      have "x \<noteq> p" "x \<noteq> q" using x False p(1) q(2) idx_q i by auto
      then show ?thesis using at[OF i] False x store' by simp
    qed
  next
    fix e x assume h: "router_contact_htab r' e = Some x"
    then have e: "e \<noteq> eid" "router_contact_htab r e = Some x" using htab' by (auto split: if_splits)
    then have "x \<noteq> p" using d(5)[OF _ p(2)] by auto
    obtain i where i: "i < ?n" "router_contacts r ! i = Some x" using d(4)[OF e(2)] by blast
    have ik: "i \<noteq> ?k" using i k \<open>x \<noteq> p\<close> by auto
    show "\<exists>i < unat (num_router_contacts r'). router_contacts r' ! i = Some x"
    proof (cases "i = ?n - 1")
      case True
      then have "x = q" using i q by simp
      moreover have "?k < ?n - 1" using True ik k by simp
      ultimately show ?thesis using at[of ?k] n by auto
    next
      case False
      then have "i < ?n - 1" using i by simp
      then show ?thesis using at[of i] i(2) ik n by auto
    qed
  next
    fix e1 e2 x assume "router_contact_htab r' e1 = Some x" "router_contact_htab r' e2 = Some x"
    then show "e1 = e2" using htab' d(5) by (auto split: if_splits)
  next
    fix x z assume s: "rc_store r' x = Some z"
    then have xp: "x \<noteq> p" using store' by auto
    show "router_contacts r' ! unat (rc_index z) = Some x \<and> unat (rc_index z) < unat (num_router_contacts r')"
    proof (cases "x = q")
      case True
      then have "?k \<noteq> ?n - 1" using xp same by simp
      then show ?thesis using True s store' xp at[of ?k] k n by auto
    next
      case False
      then have z: "rc_store r x = Some z" using s store' xp by simp
      have "unat (rc_index z) \<noteq> ?k" using pos[OF z k] xp by simp
      moreover have "unat (rc_index z) \<noteq> ?n - 1" using pos[OF z q(1)] False n0 by simp
      ultimately show ?thesis using store_in_array[OF ok z] at[of "unat (rc_index z)"] n by auto
    qed
  qed
qed

lemma remove_router_contact_inv:
  assumes inv: "router_inv m r" and h: "router_contact_htab r eid = Some p"
  shows "\<exists>r'. remove_router_contact eid p r = Inr r' \<and> router_inv m r' \<and> bundle_info_list r' = bundle_info_list r
    \<and> router_contact_htab r' = (router_contact_htab r)(eid := None) \<and> rc_store r' p = None \<and> r_out r' = r_out r"
proof -
  note d = router_invD[OF inv]
  note c = contacts_okD[OF d(2)]
  let ?n = "unat (num_router_contacts r)"
  obtain rc where p: "rc_store r p = Some rc" using c(4)[OF h] c(3) by fastforce
  let ?k = "unat (rc_index rc)"
  have k: "router_contacts r ! ?k = Some p" "?k < ?n" using store_in_array[OF d(2) p] by auto
  then have n0: "num_router_contacts r \<noteq> 0" "?n > 0" by auto
  have len: "?n - 1 < length (router_contacts r)" using c(1,2) n0 by linarith
  obtain q other where q: "router_contacts r ! (?n - 1) = Some q" "rc_store r q = Some other" "unat (rc_index other) = ?n - 1"
    using c(3)[of "?n - 1"] n0 by auto
  define r' where "r' = r\<lparr>router_contact_htab := (router_contact_htab r)(eid := None),
      rc_store := (rc_store r)(q \<mapsto> other\<lparr>rc_index := rc_index rc\<rparr>, p := None),
      router_contacts := (router_contacts r)[?k := Some q, ?n - 1 := None],
      num_router_contacts := num_router_contacts r - 1\<rparr>"
  have "remove_router_contact eid p r = Inr r'"
  proof (cases "?k < ?n - 1")
    case True
    then show ?thesis using p n0 len q
      by (simp add: remove_router_contact_def rc_deref_def contact_at_def rc_put_def r'_def Let_def)
  next
    case False
    then have kn: "?k = ?n - 1" using k by simp
    then have "q = p" "other = rc" using k q p by auto
    moreover have "(router_contacts r)[?n - 1 := Some q] = router_contacts r"
      using q(1) len by (metis list_update_id)
    ultimately show ?thesis using p n0 len False kn
      by (simp add: remove_router_contact_def rc_deref_def r'_def Let_def fun_upd_idem)
  qed
  moreover have "contacts_ok m r'"
    by (rule contacts_ok_remove[OF d(2) p h q(1,2)]) (simp_all add: r'_def)
  moreover have "rc_ok (info_addrs r') z" if "rc_store r' x = Some z" for x z
  proof (cases "x = q")
    case True
    then have "z = other\<lparr>rc_index := rc_index rc\<rparr>" using that by (auto simp: r'_def split: if_splits)
    then show ?thesis using d(4)[OF q(2)] by (simp add: rc_ok_def r'_def)
  next
    case False
    then show ?thesis using that d(4) by (auto simp: r'_def split: if_splits)
  qed
  ultimately show ?thesis using d(1,3) by (auto simp: router_inv_def r'_def)
qed

lemma add_router_contact_inv:
  assumes inv: "router_inv (CONFIG_BT_MAX_CONN env) r" and env: "env_ok env"
    and new: "rc_store r new = None" "router_contact_htab r eid = None"
  shows "\<exists>r'. add_router_contact env contact eid new r = Inr r' \<and> router_inv (CONFIG_BT_MAX_CONN env) r'
    \<and> bundle_info_list r' = bundle_info_list r"
proof (cases "unat (num_router_contacts r) < CONFIG_BT_MAX_CONN env - 1")
  case True
  note d = router_invD[OF inv]
  let ?m = "CONFIG_BT_MAX_CONN env" and ?n = "unat (num_router_contacts r)"
  let ?rc = "\<lparr>rc_contact = contact, rc_index = num_router_contacts r, rc_current_bundle = None,
     rc_next_bundle_candidate = None, rc_request_sv = None\<rparr>"
  define r1 where "r1 = r\<lparr>router_contact_htab := (router_contact_htab r)(eid \<mapsto> new),
     rc_store := (rc_store r)(new \<mapsto> ?rc), router_contacts := (router_contacts r)[?n := Some new],
     num_router_contacts := num_router_contacts r + 1\<rparr>"
  have "?m < 2 ^ 16" using env by (simp add: env_ok_def)
  from contacts_ok_add[OF d(2) this True new, of ?rc] have c: "contacts_ok ?m r1" by (simp add: r1_def)
  have "rc_ok (info_addrs r1) z" if "rc_store r1 x = Some z" for x z
    using that d(4) by (auto simp: r1_def rc_ok_def split: if_splits)
  then have r1: "router_inv ?m r1" using c d(1,3) by (auto simp: router_inv_def r1_def)
  have "rc_store r1 new = Some ?rc" by (simp add: r1_def)
  from send_offer_sv_granted[OF r1 env this] obtain x where x: "send_offer_sv env new r1 = Inr (emit x r1)" by blast
  have "?n < length (router_contacts r)" using contacts_okD(1)[OF d(2)] True by linarith
  moreover have "r\<lparr>r_allocs := [], router_contact_htab := (router_contact_htab r)(eid \<mapsto> new),
     rc_store := (rc_store r)(new \<mapsto> ?rc), router_contacts := (router_contacts r)[?n := Some new],
     num_router_contacts := num_router_contacts r + 1\<rparr> = r1"
    using d(3) unfolding r1_def by (cases r) simp
  ultimately have "add_router_contact env contact eid new r = Inr (emit x r1)"
    using True d(3) x by (simp add: add_router_contact_def Let_def)
  then show ?thesis using r1 by (simp add: r1_def)
next
  case False
  then show ?thesis using inv by (simp add: add_router_contact_def)
qed

lemma router_handle_contact_event_inv:
  assumes "router_inv (CONFIG_BT_MAX_CONN env) r" "env_ok env" "rc_store r new = None"
  shows "\<exists>r'. router_handle_contact_event env contact active new r = Inr r' \<and> router_inv (CONFIG_BT_MAX_CONN env) r'
    \<and> bundle_info_list r' = bundle_info_list r"
proof -
  obtain eid where eid: "env_node_eid env contact = Some eid" using assms(2) by (auto simp: env_ok_def)
  show ?thesis
  proof (cases "router_contact_htab r eid")
    case None
    then show ?thesis using add_router_contact_inv[OF assms None, of contact] assms(1) eid
      by (auto simp: router_handle_contact_event_def)
  next
    case (Some p)
    then show ?thesis using remove_router_contact_inv[OF assms(1) Some] assms(1) eid
      by (auto simp: router_handle_contact_event_def)
  qed
qed

section \<open>Transmission results and requests\<close>

lemma info_deref_ok:
  assumes "a \<in> info_addrs r"
  shows "\<exists>bi \<in> set (bundle_info_list r). info_deref a r = Inr bi \<and> bi_addr bi = a"
proof -
  obtain pre chain where "chain_from (Some a) r = Inr chain" "chain \<noteq> []" "bi_addr (hd chain) = a"
    "bundle_info_list r = pre @ chain"
    using chain_from_ok[of "Some a" r] assms by auto
  then show ?thesis by (auto simp: info_deref_def)
qed

lemma router_signal_bundle_transmission_inv:
  assumes inv: "router_inv m r" and env: "env_ok env"
  shows "\<exists>r'. router_signal_bundle_transmission env rb success r = Inr r' \<and> router_inv m r' \<and> same_contacts r r'
    \<and> bundle_info_list r' = bundle_info_list r"
proof (cases "routing_agent_is_info_bundle (rb_destination rb)")
  case True
  then show ?thesis using inv by (simp add: router_signal_bundle_transmission_def)
next
  case False
  note d = router_invD[OF inv]
  show ?thesis
  proof (cases "router_contact_htab r (rb_destination rb)")
    case None
    then show ?thesis using False inv by (simp add: router_signal_bundle_transmission_def)
  next
    case (Some p)
    then obtain rc where rc: "rc_store r p = Some rc"
      using contacts_okD(4)[OF d(2) Some] contacts_okD(3)[OF d(2)] by fastforce
    have ok: "rc_ok (info_addrs r) rc" by (rule d(4)[OF rc])
    show ?thesis
    proof (cases "rc_current_bundle rc")
      case None
      then show ?thesis using False Some rc inv by (simp add: router_signal_bundle_transmission_def rc_deref_def)
    next
      case a: (Some a)
      then obtain bi where bi: "info_deref a r = Inr bi" using info_deref_ok[of a r] ok by (auto simp: rc_ok_def)
      let ?r = "rc_put p (rc\<lparr>rc_current_bundle := None\<rparr>) r"
      have r1: "router_inv m ?r" by (rule router_inv_rc_put[OF inv rc]) (use ok in \<open>simp_all add: rc_ok_def\<close>)
      have s1: "same_contacts r ?r" by (rule same_contacts_rc_put[OF rc]) simp_all
      obtain r2 where r2: "send_bundles_to_contact env p ?r = Inr r2" "router_inv m r2" "same_contacts ?r r2"
        "bundle_info_list r2 = bundle_info_list r"
        using send_bundles_to_contact_inv[OF r1 env, of p] by auto
      have "rc_store r2 p \<noteq> None" using same_contacts_index[OF r2(3), of p] by auto
      from offer_if_idle_inv[OF r2(2) env this] obtain r3 where
        r3: "offer_if_idle env p r2 = Inr r3" "router_inv m r3" "same_contacts r2 r3" "bundle_info_list r3 = bundle_info_list r2"
        by blast
      have "same_contacts r r3" using s1 r2(3) r3(3) same_contacts_trans by blast
      then show ?thesis using False Some rc a bi r2 r3 inv
        by (cases "bi_id bi = rb_id rb") (simp_all add: router_signal_bundle_transmission_def rc_deref_def)
    qed
  qed
qed

lemma count_down_simps [simp]:
  "bi_addr (count_down old new e) = bi_addr e" "bi_sv_entry (count_down old new e) = bi_sv_entry e"
  "bi_exp_time (count_down old new e) = bi_exp_time e"
  by (simp_all add: count_down_def)

lemma count_down_inv:
  assumes "router_inv m r"
  shows "router_inv m (r\<lparr>bundle_info_list := map (count_down old new) (bundle_info_list r)\<rparr>)"
proof -
  note d = router_invD[OF assms]
  have "list_ok (map (count_down old new) (bundle_info_list r)) (bil_tail r)"
    using d(1) by (auto simp: list_ok_def comp_def last_map)
  moreover have "contacts_ok m (r\<lparr>bundle_info_list := map (count_down old new) (bundle_info_list r)\<rparr>)"
    by (rule contacts_ok_same[OF _ d(2)]) simp
  ultimately show ?thesis using d(3,4) by (simp add: router_inv_def image_image)
qed

lemma router_update_request_sv_inv:
  assumes inv: "router_inv m r" and env: "env_ok env" and sv: "sv_inv request_sv"
  shows "\<exists>r'. router_update_request_sv env eid request_sv r = Inr r' \<and> router_inv m r' \<and> same_contacts r r'
    \<and> bundle_info_list r' = (case router_contact_htab r eid of None \<Rightarrow> bundle_info_list r
        | Some p \<Rightarrow> (case rc_request_sv (the (rc_store r p)) of None \<Rightarrow> bundle_info_list r
           | Some old \<Rightarrow> map (count_down old request_sv) (bundle_info_list r)))
    \<and> (\<forall>p. router_contact_htab r eid = Some p \<longrightarrow> map_option rc_request_sv (rc_store r' p) = Some (Some request_sv))"
proof (cases "router_contact_htab r eid")
  case None
  then show ?thesis using inv by (simp add: router_update_request_sv_def)
next
  case (Some p)
  note d = router_invD[OF inv]
  obtain rc where rc: "rc_store r p = Some rc"
    using contacts_okD(4)[OF d(2) Some] contacts_okD(3)[OF d(2)] by fastforce
  define r1 where "r1 = (case rc_request_sv rc of None \<Rightarrow> r
     | Some old \<Rightarrow> r\<lparr>bundle_info_list := map (count_down old request_sv) (bundle_info_list r)\<rparr>)"
  have r1: "router_inv m r1" "same_contacts r r1" "rc_store r1 p = Some rc"
    using inv count_down_inv[OF inv] rc by (auto simp: r1_def split: option.splits)
  have bil: "bundle_info_list r1 = (case rc_request_sv rc of None \<Rightarrow> bundle_info_list r
           | Some old \<Rightarrow> map (count_down old request_sv) (bundle_info_list r))"
    by (simp add: r1_def split: option.splits)
  let ?rc = "rc\<lparr>rc_request_sv := Some request_sv\<rparr>"
  have ok: "rc_ok (info_addrs r1) rc" by (rule router_invD(4)[OF r1(1,3)])
  have "set_option (next_addr (bundle_info_list r1)) \<subseteq> info_addrs r1"
    by (auto simp: next_addr_def split: list.splits)
  then have put: "router_inv m (rc_put p ?rc r1)"
      "router_inv m (rc_put p (?rc\<lparr>rc_next_bundle_candidate := next_addr (bundle_info_list r1)\<rparr>) r1)"
    using ok sv by (auto intro!: router_inv_rc_put[OF r1(1,3)] simp: rc_ok_def)
  have same: "same_contacts r (rc_put p ?rc r1)"
      "same_contacts r (rc_put p (?rc\<lparr>rc_next_bundle_candidate := next_addr (bundle_info_list r1)\<rparr>) r1)"
    by (rule same_contacts_trans[OF r1(2)], rule same_contacts_rc_put[OF r1(3)], simp, simp)+
  have eq: "router_update_request_sv env eid request_sv r = (if rc_current_bundle rc = None
      then send_bundles_to_contact env p (rc_put p (?rc\<lparr>rc_next_bundle_candidate := next_addr (bundle_info_list r1)\<rparr>) r1)
      else Inr (rc_put p ?rc r1))"
    using Some rc by (simp add: router_update_request_sv_def rc_deref_def Let_def r1_def)
  show ?thesis
  proof (cases "rc_current_bundle rc = None")
    case True
    from send_bundles_to_contact_inv[OF put(2) env, of p] obtain r2 where
      "send_bundles_to_contact env p (rc_put p (?rc\<lparr>rc_next_bundle_candidate := next_addr (bundle_info_list r1)\<rparr>) r1) = Inr r2"
      "router_inv m r2" "same_contacts (rc_put p (?rc\<lparr>rc_next_bundle_candidate := next_addr (bundle_info_list r1)\<rparr>) r1) r2"
      "bundle_info_list r2 = bundle_info_list r1" "map_option rc_request_sv (rc_store r2 p) = Some (Some request_sv)"
      using send_keeps_request[OF put(2) env, of p] by auto
    then show ?thesis using eq True same(2) same_contacts_trans bil Some rc by (intro exI[of _ r2]) auto
  next
    case False
    then have "router_update_request_sv env eid request_sv r = Inr (rc_put p ?rc r1)" using eq by (simp only: if_False)
    then show ?thesis using put(1) same(1) bil Some rc by simp
  qed
qed

lemma router_update_inv:
  assumes inv: "router_inv m r" and env: "env_ok env"
  shows "\<exists>r'. router_update env r = Inr r' \<and> router_inv m r' \<and> same_contacts r r'
    \<and> bundle_info_list r' = (if env_now env < next_bundle_update r then bundle_info_list r
        else filter (\<lambda>e. \<not> expired_idle (env_now env) r e) (bundle_info_list r))"
proof -
  let ?r = "r\<lparr>next_bundle_update := env_now env + 1\<rparr>"
  have e: "expired_idle now ?r = expired_idle now r" for now
    by (simp add: expired_idle_def sending_def fun_eq_iff)
  have "\<exists>r1. update_bundle_info_list env r = Inr r1 \<and> router_inv m r1 \<and> same_contacts r r1
    \<and> bundle_info_list r1 = (if env_now env < next_bundle_update r then bundle_info_list r
        else filter (\<lambda>e. \<not> expired_idle (env_now env) r e) (bundle_info_list r))"
  proof (cases "env_now env < next_bundle_update r")
    case True
    then show ?thesis using inv by (simp add: update_bundle_info_list_def)
  next
    case False
    then show ?thesis using update_loop_ok[of m ?r "[]" "bundle_info_list r" "env_now env"] inv
      by (auto simp: update_bundle_info_list_def e same_contacts_def)
  qed
  then obtain r1 where r1: "update_bundle_info_list env r = Inr r1" "router_inv m r1" "same_contacts r r1"
    "bundle_info_list r1 = (if env_now env < next_bundle_update r then bundle_info_list r
        else filter (\<lambda>e. \<not> expired_idle (env_now env) r e) (bundle_info_list r))"
    by blast
  obtain r2 where "send_bundles env r1 = Inr r2" "router_inv m r2" "same_contacts r1 r2" "bundle_info_list r2 = bundle_info_list r1"
    using send_bundles_inv[OF r1(2) env] by blast
  then show ?thesis using r1 same_contacts_trans by (auto simp: router_update_def)
qed

section \<open>All histories of the router\<close>

text \<open>
  The states the router passes through, each step one of its operations with any environment of the
  same configuration, fresh addresses for what is allocated, and any answers of the contact manager.
\<close>

inductive router_reach :: "nat \<Rightarrow> router \<Rightarrow> bool" for m where
  init: "env_ok env \<Longrightarrow> CONFIG_BT_MAX_CONN env = m \<Longrightarrow> router_reach m (router_init env [] sends)"
| update: "router_reach m r \<Longrightarrow> env_ok env \<Longrightarrow> CONFIG_BT_MAX_CONN env = m \<Longrightarrow>
    router_update env r = Inr r' \<Longrightarrow> router_reach m r'"
| route: "router_reach m r \<Longrightarrow> env_ok env \<Longrightarrow> CONFIG_BT_MAX_CONN env = m \<Longrightarrow> wf_bundle b \<Longrightarrow>
    new \<notin> info_addrs r \<Longrightarrow> length (bundle_info_list r) + 1 < 2 ^ 31 \<Longrightarrow>
    router_route_bundle env new b r = Inr r' \<Longrightarrow> router_reach m r'"
| signal: "router_reach m r \<Longrightarrow> env_ok env \<Longrightarrow> CONFIG_BT_MAX_CONN env = m \<Longrightarrow>
    router_signal_bundle_transmission env rb success r = Inr r' \<Longrightarrow> router_reach m r'"
| contact: "router_reach m r \<Longrightarrow> env_ok env \<Longrightarrow> CONFIG_BT_MAX_CONN env = m \<Longrightarrow> rc_store r new = None \<Longrightarrow>
    router_handle_contact_event env c active new r = Inr r' \<Longrightarrow> router_reach m r'"
| request: "router_reach m r \<Longrightarrow> env_ok env \<Longrightarrow> CONFIG_BT_MAX_CONN env = m \<Longrightarrow> sv_inv sv \<Longrightarrow>
    router_update_request_sv env eid sv r = Inr r' \<Longrightarrow> router_reach m r'"
| answers: "router_reach m r \<Longrightarrow> router_reach m (r\<lparr>r_sends := bs\<rparr>)"

lemma router_init_inv: "env_ok env \<Longrightarrow> router_inv (CONFIG_BT_MAX_CONN env) (router_init env [] sends)"
  by (simp add: router_inv_def router_init_def list_ok_def contacts_ok_def)

lemma router_reach_inv: "router_reach m r \<Longrightarrow> router_inv m r"
proof (induction rule: router_reach.induct)
  case (init env sends)
  then show ?case using router_init_inv[of env sends] by simp
next
  case (update r env r')
  then show ?case using router_update_inv[of m r env] by auto
next
  case (route r env b new r')
  then show ?case using router_route_bundle_inv[of m r env b new] by auto
next
  case (signal r env rb success r')
  then show ?case using router_signal_bundle_transmission_inv[of m r env rb success] by auto
next
  case (contact r env new c active r')
  then show ?case using router_handle_contact_event_inv[of env r new c active] by auto
next
  case (request r env sv eid r')
  then show ?case using router_update_request_sv_inv[of m r env sv eid] by auto
qed simp

section \<open>The properties of the router\<close>

definition sample_router_env :: router_env where
  "sample_router_env = \<lparr>CONFIG_BT_MAX_CONN = 3, CONFIG_CONTINUOUS_SV_EXCHANGE = True, CONFIG_DIRECT_TRANSMISSION_REPLICAS = 3,
     env_local_eid = ''dtn://a'', env_hal_hash = (\<lambda>x. replicate 32 (of_nat (length x))), env_serialized_size = (\<lambda>_. 40),
     env_node_eid = (\<lambda>_. Some ''dtn://b''), env_now = 50\<rparr>"

lemma sample_router_env_ok [simp]: "env_ok sample_router_env" "CONFIG_BT_MAX_CONN sample_router_env = 3" "env_now sample_router_env = 50"
  by (simp_all add: env_ok_def sample_router_env_def sv_const_defs)

text \<open>A state with one neighbour that requested the one bundle in the list, and a second, expired bundle.\<close>

definition sample_info :: "nat \<Rightarrow> u8 \<Rightarrow> u64 \<Rightarrow> bundle_info_list_entry" where
  "sample_info a h t = \<lparr>bi_addr = a, bi_sv_entry = replicate 8 h, bi_id = of_nat a, bi_num_pending_transmissions = 2,
     bi_prio = BUNDLE_RPRIO_NORMAL, bi_size = 40, bi_exp_time = t, bi_destination = ''dtn://source''\<rparr>"

definition sample_rc :: router_contact where
  "sample_rc = \<lparr>rc_contact = 5, rc_index = 0, rc_current_bundle = None, rc_next_bundle_candidate = Some 100,
     rc_request_sv = Some (sample_sv [replicate 8 1])\<rparr>"

definition sample_router :: router where
  "sample_router = \<lparr>bundle_info_list = [sample_info 100 1 90, sample_info 200 2 10], bil_tail = Some 200,
     router_contact_htab = [''dtn://b'' \<mapsto> 9], rc_store = [9 \<mapsto> sample_rc], router_contacts = [Some 9, None, None],
     num_router_contacts = 1, next_bundle_update = 0, r_allocs = [], r_sends = [], r_out = []\<rparr>"

lemma sample_router_inv [simp]: "router_inv 3 sample_router"
proof -
  have "contacts_ok 3 sample_router"
    by (rule contacts_okI) (auto simp: sample_router_def sample_rc_def split: if_splits)
  then show ?thesis
    by (auto simp: router_inv_def list_ok_def sample_router_def sample_info_def sv_const_defs sample_rc_def
        rc_ok_def sample_sv_inv split: if_splits)
qed



text \<open>
  The periodic expiry deletes exactly the bundles that have expired and that no neighbour is
  being sent, keeps the others in order, tells the bundle processor exactly the deleted ids in list order, and
  does nothing in the second it already ran.
\<close>

theorem router_expiry_correct:
  assumes "router_inv m r"
  shows "\<exists>r'. update_bundle_info_list env r = Inr r' \<and>
    (if env_now env < next_bundle_update r then r' = r
     else bundle_info_list r' = filter (\<lambda>e. \<not> (bi_exp_time e < env_now env \<and> \<not> sending r (bi_addr e))) (bundle_info_list r)
       \<and> r_out r' = r_out r @ map (\<lambda>e. Inform (bi_id e) BP_SIGNAL_BUNDLE_EXPIRED BUNDLE_SR_REASON_LIFETIME_EXPIRED)
            (filter (\<lambda>e. bi_exp_time e < env_now env \<and> \<not> sending r (bi_addr e)) (bundle_info_list r)))"
proof (cases "env_now env < next_bundle_update r")
  case True
  then show ?thesis by (simp add: update_bundle_info_list_def)
next
  case False
  let ?r = "r\<lparr>next_bundle_update := env_now env + 1\<rparr>"
  have e: "expired_idle (env_now env) ?r = (\<lambda>e. bi_exp_time e < env_now env \<and> \<not> sending r (bi_addr e))"
    by (simp add: expired_idle_def sending_def fun_eq_iff)
  have s: "expiry_signal = (\<lambda>e. Inform (bi_id e) BP_SIGNAL_BUNDLE_EXPIRED BUNDLE_SR_REASON_LIFETIME_EXPIRED)"
    by (simp add: expiry_signal_def fun_eq_iff)
  have "router_inv m ?r" "bundle_info_list ?r = [] @ bundle_info_list r" using assms by simp_all
  from update_loop_ok[OF this, of "env_now env"] show ?thesis
    using False by (auto simp: update_bundle_info_list_def e s)
qed

theorem router_expiry_correct_witness:
  "\<exists>r'. update_bundle_info_list sample_router_env sample_router = Inr r' \<and> bundle_info_list r' = [sample_info 100 1 90]
    \<and> r_out r' = [Inform 200 BP_SIGNAL_BUNDLE_EXPIRED BUNDLE_SR_REASON_LIFETIME_EXPIRED]"
proof -
  have "\<not> sending sample_router 200" by (simp add: sending_def sample_router_def sample_rc_def)
  then show ?thesis using router_expiry_correct[OF sample_router_inv, of sample_router_env]
    by (simp add: sample_router_def sample_info_def)
qed

text \<open>
  What a neighbour is offered: for a live neighbour and a granting allocator, exactly one
  offer is sent to its EID. It lists, in list order, the hashes of the bundles that have not expired and that may still be
  replicated or whose destination contains the EID, and its characteristic is that of all bundles in the list.
\<close>

theorem router_offer_correct:
  assumes "router_inv m r" "env_ok env" "rc_store r p = Some rc"
  shows "\<exists>eid sv ksv. send_offer_sv env p r = Inr (r\<lparr>r_out := r_out r @ [OfferSv eid sv (summary_vector_characteristic_calculate ksv)]\<rparr>)
    \<and> env_node_eid env (rc_contact rc) = Some eid
    \<and> sv_entries sv = map bi_sv_entry (filter (\<lambda>c. \<not> bi_exp_time c < env_now env
         \<and> (bi_num_pending_transmissions c \<noteq> 0 \<or> strstr (bi_destination c) eid \<noteq> None)) (bundle_info_list r))
    \<and> sv_entries ksv = map bi_sv_entry (bundle_info_list r)"
proof -
  obtain eid sv ksv where o: "send_offer_sv env p r = Inr (emit (OfferSv eid sv (summary_vector_characteristic_calculate ksv)) r)"
    "env_node_eid env (rc_contact rc) = Some eid"
    "sv_entries sv = map bi_sv_entry (filter (bundle_should_be_offered env rc) (bundle_info_list r))"
    "sv_entries ksv = map bi_sv_entry (bundle_info_list r)"
    using send_offer_sv_granted[OF assms] by blast
  moreover have "bundle_should_be_offered env rc = (\<lambda>c. \<not> bi_exp_time c < env_now env
         \<and> (bi_num_pending_transmissions c \<noteq> 0 \<or> strstr (bi_destination c) eid \<noteq> None))"
    using o(2) by (auto simp: bundle_should_be_offered_def fun_eq_iff)
  ultimately show ?thesis by (intro exI[of _ eid] exI[of _ sv] exI[of _ ksv]) (simp add: emit_def)
qed

theorem router_offer_correct_witness:
  "\<exists>eid sv ksv. send_offer_sv sample_router_env 9 sample_router =
      Inr (sample_router\<lparr>r_out := [OfferSv eid sv (summary_vector_characteristic_calculate ksv)]\<rparr>)
    \<and> sv_entries sv = [replicate 8 1] \<and> sv_entries ksv = [replicate 8 1, replicate 8 2]"
proof -
  have "rc_store sample_router 9 = Some sample_rc" by (simp add: sample_router_def)
  from router_offer_correct[OF sample_router_inv sample_router_env_ok(1) this] show ?thesis
    by (auto simp: sample_router_def sample_info_def)
qed



text \<open>
  Routing a data bundle: for a well-formed bundle whose destination is no routing sink, the call
  returns, appends exactly one entry with the bundle's hash, id, priority, expiration time and destination
  when the hash is not in the list, and leaves the list alone when it is. It ends with exactly one answer to the bundle processor:
  routed, or forwarding contraindicated for a duplicate.
\<close>

theorem router_route_correct:
  assumes "router_inv m r" "env_ok env" "wf_bundle b" "new \<notin> info_addrs r" "length (bundle_info_list r) + 1 < 2 ^ 31"
    and "destination b = Some dst" "\<not> routing_agent_is_info_bundle dst"
  shows "\<exists>r' info outs. router_route_bundle env new b r = Inr r' \<and>
    (if bundle_entry env b \<in> bi_sv_entry ` set (bundle_info_list r)
     then bundle_info_list r' = bundle_info_list r
       \<and> r_out r' = r_out r @ [Inform (bundle_id b) BP_SIGNAL_FORWARDING_CONTRAINDICATED BUNDLE_SR_REASON_NO_KNOWN_ROUTE]
     else bundle_info_list r' = bundle_info_list r @ [info] \<and> bi_sv_entry info = bundle_entry env b \<and> bi_id info = bundle_id b
       \<and> bi_prio info = bundle_get_routing_priority b \<and> bi_exp_time info = bundle_get_expiration_time_s (env_now env) b
       \<and> bi_destination info = dst \<and> bi_num_pending_transmissions info = pending_transmissions env (the (source b)) dst
       \<and> r_out r' = outs @ [Inform (bundle_id b) BP_SIGNAL_BUNDLE_ROUTED BUNDLE_SR_REASON_NO_INFO])"
proof -
  obtain r1 where r1: "route_epidemic_bundle env new b r = Inr (bundle_entry env b \<notin> bi_sv_entry ` set (bundle_info_list r), r1)"
    "if bundle_entry env b \<in> bi_sv_entry ` set (bundle_info_list r) then r1 = r
       else bundle_info_list r1 = bundle_info_list r @
         [\<lparr>bi_addr = new, bi_sv_entry = bundle_entry env b, bi_id = bundle_id b,
           bi_num_pending_transmissions = pending_transmissions env (the (source b)) (the (destination b)),
           bi_prio = bundle_get_routing_priority b, bi_size = ucast (env_serialized_size env b),
           bi_exp_time = bundle_get_expiration_time_s (env_now env) b, bi_destination = the (destination b)\<rparr>]"
    using route_epidemic_bundle_ok[OF assms(1-5)] by blast
  show ?thesis
    using r1 assms(6,7) by (auto simp: router_route_bundle_def emit_def split: if_splits)
qed

theorem router_route_correct_witness:
  "\<exists>r' info outs. router_route_bundle sample_router_env 7 sample_bundle (router_init sample_router_env [] []) = Inr r'
    \<and> bundle_info_list r' = [info] \<and> bi_destination info = ''dtn:b''
    \<and> r_out r' = outs @ [Inform (bundle_id sample_bundle) BP_SIGNAL_BUNDLE_ROUTED BUNDLE_SR_REASON_NO_INFO]"
proof -
  have i: "router_inv 3 (router_init sample_router_env [] [])" using router_init_inv[OF sample_router_env_ok(1)] by simp
  have d: "destination sample_bundle = Some ''dtn:b''" by (simp add: sample_bundle_def)
  have n: "\<not> routing_agent_is_info_bundle ''dtn:b''" by (simp add: routing_agent_is_info_bundle_def ROUTING_AGENT_SINK_PREFIX_def)
  have l: "bundle_info_list (router_init sample_router_env [] []) = []" by (simp add: router_init_def)
  show ?thesis
    using router_route_correct[OF i sample_router_env_ok(1) wf_sample_bundle _ _ d n, of 7] unfolding l by simp blast
qed

text \<open>
  A new request of a neighbour that had one before counts as confirmation: exactly the bundles that were
  in the old request and are not in the new one lose one pending transmission, down to zero and never below;
  nothing else in the list changes, and a neighbour's first request changes nothing.
\<close>

theorem router_request_counts_down:
  assumes "router_inv m r" "env_ok env" "sv_inv new_sv" "router_contact_htab r eid = Some p" "rc_store r p = Some rc"
  shows "\<exists>r'. router_update_request_sv env eid new_sv r = Inr r' \<and> router_inv m r'
    \<and> map bi_addr (bundle_info_list r') = map bi_addr (bundle_info_list r)
    \<and> map bi_num_pending_transmissions (bundle_info_list r') =
        map (\<lambda>e. if (\<exists>old. rc_request_sv rc = Some old \<and> bi_sv_entry e \<in> set (sv_entries old))
                     \<and> bi_sv_entry e \<notin> set (sv_entries new_sv) \<and> bi_num_pending_transmissions e \<noteq> 0
                  then bi_num_pending_transmissions e - 1 else bi_num_pending_transmissions e) (bundle_info_list r)"
proof -
  obtain r' where r': "router_update_request_sv env eid new_sv r = Inr r'" "router_inv m r'"
    "bundle_info_list r' = (case rc_request_sv rc of None \<Rightarrow> bundle_info_list r
           | Some old \<Rightarrow> map (count_down old new_sv) (bundle_info_list r))"
    using router_update_request_sv_inv[OF assms(1-3), of eid] assms(4,5) by auto
  have "rc_ok (info_addrs r) rc" by (rule router_invD(4)[OF assms(1,5)])
  then have old: "sv_inv old" if "rc_request_sv rc = Some old" for old using that by (simp add: rc_ok_def)
  have len: "length (bi_sv_entry e) = SUMMARY_VECTOR_ENTRY_HASH_LENGTH" if "e \<in> set (bundle_info_list r)" for e
    using that router_invD(1)[OF assms(1)] by (simp add: list_ok_def)
  have cd: "bi_num_pending_transmissions (count_down o_sv new_sv e) =
     (if bi_sv_entry e \<in> set (sv_entries o_sv) \<and> bi_sv_entry e \<notin> set (sv_entries new_sv) \<and> bi_num_pending_transmissions e \<noteq> 0
      then bi_num_pending_transmissions e - 1 else bi_num_pending_transmissions e)"
    if "e \<in> set (bundle_info_list r)" "rc_request_sv rc = Some o_sv" for e o_sv
    using contains_entry_mem[OF old[OF that(2)] len[OF that(1)]] contains_entry_mem[OF assms(3) len[OF that(1)]]
    by (auto simp: count_down_def word_gt_0)
  show ?thesis
  proof (cases "rc_request_sv rc")
    case None
    then show ?thesis using r' by simp
  next
    case (Some o_sv)
    then show ?thesis using r' cd[OF _ Some] by (intro exI[of _ r']) (simp add: comp_def)
  qed
qed

theorem router_request_counts_down_witness:
  "\<exists>r'. router_update_request_sv sample_router_env ''dtn://b'' (sample_sv []) sample_router = Inr r'
    \<and> map bi_num_pending_transmissions (bundle_info_list r') = [1, 2]"
proof -
  have "router_contact_htab sample_router ''dtn://b'' = Some 9" "rc_store sample_router 9 = Some sample_rc"
    by (simp_all add: sample_router_def)
  from router_request_counts_down[OF sample_router_inv sample_router_env_ok(1) _ this, of "sample_sv []"] show ?thesis
    by (auto simp: sample_sv_inv) (simp add: sample_router_def sample_info_def sample_rc_def sample_sv_def numeral_eq_Suc)
qed

text \<open>
  Without a granting allocator the router can follow a freed pointer: with nine bundles in the
  list the vector of known bundles has to grow, and when that allocation fails \<^verbatim>\<open>create_known_sv\<close> frees the vector and
  returns its address, which \<^verbatim>\<open>send_offer_sv\<close> then reads.
\<close>

theorem router_known_sv_use_after_free:
  "send_offer_sv env p (sample_router\<lparr>bundle_info_list := replicate 9 (sample_info 1 1 90), r_allocs := [True, True, False]\<rparr>)
     = Inl UseAfterFree"
proof -
  have "replicate 9 x = [x, x, x, x, x, x, x, x, x]" for x :: bundle_info_list_entry by (simp add: numeral_eq_Suc)
  moreover have "add_entries [x, x, x, x, x, x, x, x, x] \<lparr>sv_length = 0, sv_capacity = 8, sv_entries = []\<rparr> [False]
      = Inr (UD3TN_FAIL, \<lparr>sv_length = 8, sv_capacity = 8, sv_entries = [x, x, x, x, x, x, x, x]\<rparr>, [])" for x
    by (simp add: summary_vector_add_entry_by_copy_def summary_vector_increase_size_def)
  ultimately show ?thesis
    by (simp add: send_offer_sv_def create_known_sv_def summary_vector_create_def summary_vector_create_with_capacity_def
        SUMMARY_VECTOR_DEFAULT_CAPACITY_def)
qed

end
