(* ===== verification/Node.thy ===== *)
theory Node
  imports Epidemic_Router
begin

text \<open>
  Nodes and contacts: \<^verbatim>\<open>components/ud3tn/node.c\<close> with the list sort of \<^verbatim>\<open>external/util/include/util/llsort.h\<close> it expands, and the coding of
  lists of endpoint identifiers, \<^verbatim>\<open>components/ud3tn/eid_list.c\<close>.

  Contacts are objects in a heap by address, because several lists hold pointers to the same contact; a list of contacts is the list
  of these addresses. The entries of an endpoint list are ordered by the address of their string, so an entry has the address and
  the string. A node has one owner and is a value; its two floating point ratings are left out. Signed 32-bit capacities are words, read through \<^term>\<open>sint\<close>.
\<close>

section \<open>Nodes and contacts\<close>

datatype node_flags = NODE_FLAG_NONE | NODE_FLAG_INTERNET_ACCESS

record endpoint =
  ep_ptr :: nat
  ep_eid :: eid

type_synonym endpoint_list = "endpoint list"
type_synonym contact_list = "nat list"

record node =
  n_eid :: "eid option"
  n_cla_addr :: "string option"
  n_flags :: node_flags
  n_endpoints :: endpoint_list
  n_contacts :: contact_list

record contact =
  c_node :: node
  c_from :: u64
  c_to :: u64
  c_bitrate :: u32
  c_total_capacity :: u32
  c_remaining_capacity_p0 :: u32
  c_remaining_capacity_p1 :: u32
  c_remaining_capacity_p2 :: u32
  c_contact_endpoints :: endpoint_list
  c_contact_bundles :: "routed_bundle list"
  c_bundle_count :: u8
  c_active :: bool

type_synonym contact_heap = "nat \<Rightarrow> contact option"

definition node_create :: "eid option \<Rightarrow> alloc_script \<Rightarrow> node option \<times> alloc_script" where
  "node_create eid as =
    (if \<not> malloc_ok as then (None, malloc_rest as)
     else let (e, as') = (case eid of None \<Rightarrow> (None, malloc_rest as) | Some s \<Rightarrow> strdup s (malloc_rest as)) in
       (Some \<lparr>n_eid = e, n_cla_addr = None, n_flags = NODE_FLAG_NONE, n_endpoints = [], n_contacts = []\<rparr>, as'))"

definition contact_create :: "node \<Rightarrow> alloc_script \<Rightarrow> contact option \<times> alloc_script" where
  "contact_create nd as =
    (if \<not> malloc_ok as then None
     else Some \<lparr>c_node = nd, c_from = 0, c_to = 0, c_bitrate = 0, c_total_capacity = 0, c_remaining_capacity_p0 = 0,
       c_remaining_capacity_p1 = 0, c_remaining_capacity_p2 = 0, c_contact_endpoints = [], c_contact_bundles = [],
       c_bundle_count = 0, c_active = False\<rparr>, malloc_rest as)"

definition heap_contact :: "contact_heap \<Rightarrow> nat \<Rightarrow> fault + contact" where
  "heap_contact h p = (case h p of None \<Rightarrow> Inl UseAfterFree | Some c \<Rightarrow> Inr c)"

text \<open>
  \<^verbatim>\<open>free_contact_internal\<close> asserts that the contact is inactive; whether it frees the endpoint list makes no difference to the heap of contacts.
  The two functions that free the head of a contact list return the rest.
\<close>

definition free_contact_internal :: "nat option \<Rightarrow> contact_heap \<Rightarrow> fault + contact_heap" where
  "free_contact_internal p h = (case p of None \<Rightarrow> Inr h
   | Some a \<Rightarrow> bindE (heap_contact h a) (\<lambda>c. if c_active c then Inl AssertFailed else Inr (h(a := None))))"

fun contact_list_free_internal :: "contact_list \<Rightarrow> contact_heap \<Rightarrow> fault + contact_list \<times> contact_heap" where
  "contact_list_free_internal [] h = Inr ([], h)"
| "contact_list_free_internal (e # es) h = bindE (free_contact_internal (Some e) h) (\<lambda>h'. Inr (es, h'))"

definition contact_list_free :: "contact_list \<Rightarrow> contact_heap \<Rightarrow> fault + contact_list \<times> contact_heap" where
  "contact_list_free cl h = contact_list_free_internal cl h"

fun free_contacts :: "contact_list \<Rightarrow> contact_heap \<Rightarrow> fault + contact_heap" where
  "free_contacts [] h = Inr h"
| "free_contacts (e # es) h = bindE (free_contact_internal (Some e) h) (free_contacts es)"

definition free_node :: "node option \<Rightarrow> contact_heap \<Rightarrow> fault + contact_heap" where
  "free_node nd h = (case nd of None \<Rightarrow> Inr h | Some n \<Rightarrow> free_contacts (n_contacts n) h)"

section \<open>Endpoint lists\<close>

fun endpoint_list_free :: "endpoint_list \<Rightarrow> endpoint_list" where
  "endpoint_list_free [] = []"
| "endpoint_list_free (e # es) = es"

text \<open>The loop of \<^verbatim>\<open>endpoint_list_add\<close>: the position for the new entry, none if the identifier is in the list.\<close>

fun endpoint_slot :: "endpoint_list \<Rightarrow> endpoint \<Rightarrow> nat \<Rightarrow> nat option \<Rightarrow> nat option" where
  "endpoint_slot [] e i target = Some (case target of None \<Rightarrow> i | Some t \<Rightarrow> t)"
| "endpoint_slot (x # xs) e i target =
    (if ep_ptr x = ep_ptr e then None
     else if ep_eid x = ep_eid e then None
     else endpoint_slot xs e (Suc i) (if ep_ptr x > ep_ptr e \<and> target = None then Some i else target))"

definition endpoint_list_add :: "endpoint_list \<Rightarrow> endpoint \<Rightarrow> alloc_script \<Rightarrow> ud3tn_result \<times> endpoint_list \<times> alloc_script" where
  "endpoint_list_add l e as = (case endpoint_slot l e 0 None of
     None \<Rightarrow> (UD3TN_FAIL, l, as)
   | Some i \<Rightarrow> if malloc_ok as then (UD3TN_OK, take i l @ e # drop i l, malloc_rest as) else (UD3TN_FAIL, l, malloc_rest as))"

fun endpoint_list_remove :: "endpoint_list \<Rightarrow> eid \<Rightarrow> ud3tn_result \<times> endpoint_list" where
  "endpoint_list_remove [] eid = (UD3TN_FAIL, [])"
| "endpoint_list_remove (x # xs) eid =
    (if ep_eid x = eid then (UD3TN_OK, xs) else let (r, ys) = endpoint_list_remove xs eid in (r, x # ys))"

fun endpoints_sorted_from :: "nat \<Rightarrow> endpoint_list \<Rightarrow> bool" where
  "endpoints_sorted_from prev [] = True"
| "endpoints_sorted_from prev (x # xs) = (if ep_ptr x < prev then False else endpoints_sorted_from (ep_ptr x) xs)"

definition endpoint_list_sorted :: "endpoint_list \<Rightarrow> bool" where
  "endpoint_list_sorted l = endpoints_sorted_from 0 l"

fun endpoint_list_union :: "endpoint_list \<Rightarrow> endpoint_list \<Rightarrow> alloc_script \<Rightarrow> endpoint_list \<times> alloc_script" where
  "endpoint_list_union a [] as = (a, as)"
| "endpoint_list_union a (e # es) as = (let (_, a', as') = endpoint_list_add a e as in endpoint_list_union a' es as')"

text \<open>The second list is freed on the way or kept; the result is the first one.\<close>

fun endpoint_list_difference :: "endpoint_list \<Rightarrow> endpoint_list \<Rightarrow> endpoint_list" where
  "endpoint_list_difference a [] = a"
| "endpoint_list_difference a (e # es) = endpoint_list_difference (snd (endpoint_list_remove a (ep_eid e))) es"

section \<open>Sorting\<close>

text \<open>
  The macro \<^verbatim>\<open>LLSORT\<close>: passes over the list merge neighbouring runs of \<^verbatim>\<open>_insize\<close> entries, which is \<open>2 ^ k\<close>, until a pass did at most one
  merge. The second result of a pass is the number of merges.
\<close>

fun llsort_merge :: "('a \<Rightarrow> 'k::linorder) \<Rightarrow> 'a list \<Rightarrow> 'a list \<Rightarrow> 'a list" where
  "llsort_merge key [] q = q"
| "llsort_merge key (x # p) [] = x # llsort_merge key p []"
| "llsort_merge key (x # p) (y # q) =
    (if key x \<le> key y then x # llsort_merge key p (y # q) else y # llsort_merge key (x # p) q)"

function llsort_pass :: "('a \<Rightarrow> 'k::linorder) \<Rightarrow> nat \<Rightarrow> 'a list \<Rightarrow> 'a list \<times> nat" where
  "llsort_pass key k xs =
    (if xs = [] then ([], 0)
     else let q = drop (2 ^ k) xs; (ys, n) = llsort_pass key k (drop (2 ^ k) q) in
       (llsort_merge key (take (2 ^ k) xs) (take (2 ^ k) q) @ ys, Suc n))"
  by pat_completeness auto
termination by (relation "measure (\<lambda>(_, _, xs). length xs)") (auto simp: neq_Nil_conv)

declare llsort_pass.simps [simp del]

lemma length_llsort_merge [simp]: "length (llsort_merge key p q) = length p + length q"
  by (induction key p q rule: llsort_merge.induct) auto

lemma length_llsort_pass [simp]: "length (fst (llsort_pass key k xs)) = length xs"
proof (induction key k xs rule: llsort_pass.induct)
  case (1 key k xs)
  show ?case using 1 by (subst llsort_pass.simps) (auto simp: Let_def split: prod.splits)
qed

lemma llsort_pass_Nil [simp]: "llsort_pass key k [] = ([], 0)"
  by (subst llsort_pass.simps) simp

lemma llsort_pass_merges: "1 < snd (llsort_pass key k xs) \<Longrightarrow> 2 * 2 ^ k < length xs"
  by (subst (asm) llsort_pass.simps) (cases "length xs \<le> 2 * 2 ^ k"; auto simp: Let_def split: prod.splits if_splits)

function llsort_loop :: "('a \<Rightarrow> 'k::linorder) \<Rightarrow> nat \<Rightarrow> 'a list \<Rightarrow> 'a list" where
  "llsort_loop key k xs = (let (ys, n) = llsort_pass key k xs in if n \<le> 1 then ys else llsort_loop key (Suc k) ys)"
  by pat_completeness auto
termination
proof (relation "measure (\<lambda>(_, k, xs). length xs - 2 ^ k)")
  fix key :: "'a \<Rightarrow> 'k::linorder" and k xs x ys n
  assume a: "x = llsort_pass key k xs" "(ys, n) = x" "\<not> n \<le> 1"
  then have "2 * 2 ^ k < length xs" using llsort_pass_merges[of key k xs] by (auto simp: prod_eq_iff)
  moreover have "length ys = length xs" using a length_llsort_pass[of key k xs] by (auto simp: prod_eq_iff)
  moreover have "0 < (2::nat) ^ k" by simp
  ultimately show "((key, Suc k, ys), key, k, xs) \<in> measure (\<lambda>(_, k, xs). length xs - 2 ^ k)" unfolding in_measure case_prod_conv power_Suc by linarith
qed simp

declare llsort_loop.simps [simp del]

definition llsort :: "('a \<Rightarrow> 'k::linorder) \<Rightarrow> 'a list \<Rightarrow> 'a list" where
  "llsort key xs = (if xs = [] then [] else llsort_loop key 0 xs)"

function endpoint_list_strip :: "endpoint_list \<Rightarrow> endpoint_list" where
  "endpoint_list_strip [] = []"
| "endpoint_list_strip (e # es) = e # endpoint_list_strip (filter (\<lambda>x. ep_eid x \<noteq> ep_eid e) es)"
  by pat_completeness auto
termination by (relation "measure length") (auto simp: le_imp_less_Suc)

definition endpoint_list_strip_and_sort :: "endpoint_list \<Rightarrow> endpoint_list" where
  "endpoint_list_strip_and_sort el = llsort ep_ptr (endpoint_list_strip el)"

section \<open>Capacities\<close>

definition INT32_MAX :: u64 where "INT32_MAX = 2147483647"
definition UINT32_MAX :: u64 where "UINT32_MAX = 4294967295"

definition recalculate_contact_capacity :: "contact \<Rightarrow> contact" where
  "recalculate_contact_capacity c =
    (let duration = min (c_to c - c_from c) UINT32_MAX;
         new_capacity = min (duration * ucast (c_bitrate c)) INT32_MAX;
         capacity_difference = ucast (new_capacity - scast (c_total_capacity c) :: u64) :: u32 in
     c\<lparr>c_total_capacity := ucast new_capacity,
       c_remaining_capacity_p0 := c_remaining_capacity_p0 c + capacity_difference,
       c_remaining_capacity_p1 := c_remaining_capacity_p1 c + capacity_difference,
       c_remaining_capacity_p2 := c_remaining_capacity_p2 c + capacity_difference\<rparr>)"

definition CONTACT_CAPACITY :: "contact \<Rightarrow> bundle_routing_priority \<Rightarrow> u32" where
  "CONTACT_CAPACITY c prio = (case prio of BUNDLE_RPRIO_NORMAL \<Rightarrow> c_remaining_capacity_p1 c
     | BUNDLE_RPRIO_HIGH \<Rightarrow> c_remaining_capacity_p2 c | BUNDLE_RPRIO_LOW \<Rightarrow> c_remaining_capacity_p0 c)"

definition contact_get_cur_remaining_capacity :: "u64 \<Rightarrow> contact \<Rightarrow> bundle_routing_priority \<Rightarrow> int" where
  "contact_get_cur_remaining_capacity time c prio =
    (if time \<ge> c_to c then 0
     else if time \<le> c_from c then sint (CONTACT_CAPACITY c prio)
     else let cap_left = min (ucast (c_total_capacity c) * (c_to c - time) div (c_to c - c_from c)) INT32_MAX;
              cap_result = ucast cap_left :: u32 in
       min (sint cap_result) (sint (CONTACT_CAPACITY c prio)))"

section \<open>Union and difference of contact lists\<close>

definition contact_key :: "bool \<Rightarrow> contact \<Rightarrow> u64" where
  "contact_key order_by_from c = (if order_by_from then c_from c else c_to c)"

fun contacts_sorted_from :: "contact_heap \<Rightarrow> bool \<Rightarrow> u64 \<Rightarrow> contact_list \<Rightarrow> fault + bool" where
  "contacts_sorted_from h by_from prev [] = Inr True"
| "contacts_sorted_from h by_from prev (p # ps) = bindE (heap_contact h p) (\<lambda>c.
     if contact_key by_from c < prev then Inr False else contacts_sorted_from h by_from (contact_key by_from c) ps)"

definition contact_list_sorted :: "contact_heap \<Rightarrow> contact_list \<Rightarrow> bool \<Rightarrow> fault + bool" where
  "contact_list_sorted h cl order_by_from = contacts_sorted_from h order_by_from 0 cl"

text \<open>
  What the two operations change: the contacts, the list of modified and the list of deleted contacts (none if the caller passed a null pointer)
  and the allocator.
\<close>

record list_state =
  ls_heap :: contact_heap
  ls_modified :: "contact_list option"
  ls_deleted :: "contact_list option"
  ls_allocs :: alloc_script

definition ls_put :: "nat \<Rightarrow> contact \<Rightarrow> list_state \<Rightarrow> list_state" where
  "ls_put p c s = s\<lparr>ls_heap := (ls_heap s)(p \<mapsto> c)\<rparr>"

definition ls_free :: "nat \<Rightarrow> list_state \<Rightarrow> fault + list_state" where
  "ls_free p s = bindE (free_contact_internal (Some p) (ls_heap s)) (\<lambda>h. Inr (s\<lparr>ls_heap := h\<rparr>))"

definition add_to_modified_list :: "nat \<Rightarrow> list_state \<Rightarrow> list_state" where
  "add_to_modified_list p s = (case ls_modified s of None \<Rightarrow> s
   | Some l \<Rightarrow> s\<lparr>ls_modified := Some (if malloc_ok (ls_allocs s) then p # l else l), ls_allocs := malloc_rest (ls_allocs s)\<rparr>)"

text \<open>The result tells whether the bitrate changed.\<close>

definition merge_contacts :: "contact \<Rightarrow> contact \<Rightarrow> alloc_script \<Rightarrow> bool \<times> contact \<times> alloc_script" where
  "merge_contacts old new as =
    (let (eps, as') = endpoint_list_union (c_contact_endpoints old) (c_contact_endpoints new) as; old1 = old\<lparr>c_contact_endpoints := eps\<rparr> in
     if c_bitrate old1 \<noteq> c_bitrate new then (True, recalculate_contact_capacity (old1\<lparr>c_bitrate := c_bitrate new\<rparr>), as')
     else (False, old1, as'))"

text \<open>
  The inner loop of \<^verbatim>\<open>contact_list_union\<close> at the entry \<open>x\<close>, which starts at \<open>cur_from\<close>: the contacts inserted before \<open>x\<close> and the rest of the second list.
\<close>

fun union_before :: "nat \<Rightarrow> u64 \<Rightarrow> contact_list \<Rightarrow> list_state \<Rightarrow> fault + contact_list \<times> contact_list \<times> list_state" where
  "union_before x cur_from [] s = Inr ([], [], s)"
| "union_before x cur_from (c # cs) s = bindE (heap_contact (ls_heap s) c) (\<lambda>new.
     if c_from new > cur_from then Inr ([], c # cs, s)
     else if c_from new < cur_from then bindE (union_before x cur_from cs s) (\<lambda>(pre, rest, s'). Inr (c # pre, rest, s'))
     else bindE (heap_contact (ls_heap s) x) (\<lambda>old.
       bindE (if c_to new = c_to old
              then let (modified, old', as) = merge_contacts old new (ls_allocs s); s1 = ls_put x old' (s\<lparr>ls_allocs := as\<rparr>) in
                Inr (if modified then add_to_modified_list x s1 else s1)
              else Inr s) (\<lambda>s2.
       bindE (ls_free c s2) (\<lambda>s3. union_before x cur_from cs s3))))"

fun union_loop :: "contact_list \<Rightarrow> contact_list \<Rightarrow> list_state \<Rightarrow> fault + contact_list \<times> list_state" where
  "union_loop [] can s = Inr (can, s)"
| "union_loop (x # xs) can s = bindE (heap_contact (ls_heap s) x) (\<lambda>cx.
     bindE (union_before x (c_from cx) can s) (\<lambda>(pre, rest, s1).
     bindE (union_loop xs rest s1) (\<lambda>(ys, s2). Inr (pre @ x # ys, s2))))"

definition contact_list_union :: "contact_list \<Rightarrow> contact_list \<Rightarrow> list_state \<Rightarrow> fault + contact_list \<times> list_state" where
  "contact_list_union a b s =
     bindE (contact_list_sorted (ls_heap s) a True) (\<lambda>sa. if \<not> sa then Inl AssertFailed else
     bindE (contact_list_sorted (ls_heap s) b True) (\<lambda>sb. if \<not> sb then Inl AssertFailed
     else if a = [] then Inr (b, s) else if b = [] then Inr (a, s) else union_loop a b s))"

text \<open>
  The nested loops of \<^verbatim>\<open>contact_list_difference\<close> as one recursion over both lists: an entry of the second list is passed over when it starts no later than
  the current entry of the first.
\<close>

definition remove_contact_entry :: "nat \<Rightarrow> contact \<Rightarrow> list_state \<Rightarrow> fault + list_state" where
  "remove_contact_entry x cx s = (case ls_deleted s of
     Some l \<Rightarrow> Inr (s\<lparr>ls_deleted := Some (x # l)\<rparr>)
   | None \<Rightarrow> if c_active cx then Inr s else ls_free x s)"

fun difference_loop :: "bool \<Rightarrow> contact_list \<Rightarrow> contact_list \<Rightarrow> list_state \<Rightarrow> fault + contact_list \<times> list_state" where
  "difference_loop free_b [] can s = Inr ([], s)"
| "difference_loop free_b (x # xs) [] s = bindE (difference_loop free_b xs [] s) (\<lambda>(ys, s'). Inr (x # ys, s'))"
| "difference_loop free_b (x # xs) (c # cs) s = bindE (heap_contact (ls_heap s) c) (\<lambda>can.
     bindE (heap_contact (ls_heap s) x) (\<lambda>cx.
     if c_from can > c_from cx
     then bindE (difference_loop free_b xs (c # cs) s) (\<lambda>(ys, s'). Inr (x # ys, s'))
     else if c_from can = c_from cx \<and> c_to can = c_to cx then
       (if c_contact_endpoints can = [] then bindE (remove_contact_entry x cx s) (\<lambda>s1.
          bindE (if free_b then ls_free c s1 else Inr s1) (difference_loop free_b xs cs))
        else let s1 = add_to_modified_list x (ls_put x (cx\<lparr>c_contact_endpoints :=
                        endpoint_list_difference (c_contact_endpoints cx) (c_contact_endpoints can)\<rparr>) s) in
          bindE (if free_b then ls_free c s1 else Inr s1) (\<lambda>s2.
          bindE (difference_loop free_b xs cs s2) (\<lambda>(ys, s'). Inr (x # ys, s'))))
     else bindE (if free_b then ls_free c s else Inr s) (difference_loop free_b (x # xs) cs)))"

definition contact_list_difference :: "contact_list \<Rightarrow> contact_list \<Rightarrow> bool \<Rightarrow> list_state \<Rightarrow> fault + contact_list \<times> list_state" where
  "contact_list_difference a b free_b s =
     bindE (contact_list_sorted (ls_heap s) a True) (\<lambda>sa. if \<not> sa then Inl AssertFailed else
     bindE (contact_list_sorted (ls_heap s) b True) (\<lambda>sb. if \<not> sb then Inl AssertFailed
     else if a = [] \<or> b = [] then Inr (a, s) else difference_loop free_b a b s))"

section \<open>Verifying a node\<close>

definition contacts_overlap :: "contact \<Rightarrow> contact \<Rightarrow> bool" where
  "contacts_overlap a b \<longleftrightarrow> (c_from a \<ge> c_from b \<and> c_from a \<le> c_to b) \<or> (c_to a \<ge> c_from b \<and> c_to a \<le> c_to b)"

fun heap_contacts :: "contact_heap \<Rightarrow> contact_list \<Rightarrow> fault + (nat \<times> contact) list" where
  "heap_contacts h [] = Inr []"
| "heap_contacts h (p # ps) = bindE (heap_contact h p) (\<lambda>c. bindE (heap_contacts h ps) (\<lambda>r. Inr ((p, c) # r)))"

fun overlaps_later :: "contact_heap \<Rightarrow> contact \<Rightarrow> contact_list \<Rightarrow> fault + bool" where
  "overlaps_later h c [] = Inr False"
| "overlaps_later h c (i # is) = bindE (heap_contact h i) (\<lambda>d. if contacts_overlap c d then Inr True else overlaps_later h c is)"

fun verify_contacts :: "contact_list \<Rightarrow> contact_heap \<Rightarrow> fault + bool \<times> contact_heap" where
  "verify_contacts [] h = Inr (True, h)"
| "verify_contacts (p # ps) h = bindE (heap_contact h p) (\<lambda>c.
     let c' = c\<lparr>c_contact_endpoints := endpoint_list_strip_and_sort (c_contact_endpoints c)\<rparr>; h' = h(p \<mapsto> c') in
     bindE (overlaps_later h' c' ps) (\<lambda>bad. if bad then Inr (False, h') else verify_contacts ps h'))"

definition node_prepare_and_verify :: "node \<Rightarrow> contact_heap \<Rightarrow> fault + bool \<times> node \<times> contact_heap" where
  "node_prepare_and_verify nd h =
    (if n_eid nd = None then Inr (False, nd, h)
     else bindE (heap_contacts h (n_contacts nd)) (\<lambda>pcs.
       let cl = map fst (llsort (\<lambda>(_, c). c_from c) pcs);
           nd' = nd\<lparr>n_contacts := cl, n_endpoints := endpoint_list_strip_and_sort (n_endpoints nd)\<rparr> in
       bindE (verify_contacts cl h) (\<lambda>(ok, h'). Inr (ok, nd', h'))))"

section \<open>Ordered lists of contacts\<close>

text \<open>
  \<^verbatim>\<open>add_contact_to_ordered_list\<close> and its variant for lists with a probability share their loop: the position of the new entry, none if the contact
  is met before it.
\<close>

fun ordered_slot :: "contact_heap \<Rightarrow> bool \<Rightarrow> nat \<Rightarrow> contact \<Rightarrow> nat \<Rightarrow> contact_list \<Rightarrow> fault + nat option" where
  "ordered_slot h by_from p c i [] = Inr (Some i)"
| "ordered_slot h by_from p c i (x # xs) =
    (if x = p then Inr None
     else bindE (heap_contact h x) (\<lambda>d. if contact_key by_from d > contact_key by_from c then Inr (Some i)
       else ordered_slot h by_from p c (Suc i) xs))"

definition add_contact_to_ordered_list :: "contact_list \<Rightarrow> nat \<Rightarrow> bool \<Rightarrow> contact_heap \<Rightarrow> alloc_script
    \<Rightarrow> fault + bool \<times> contact_list \<times> alloc_script" where
  "add_contact_to_ordered_list l p order_by_from h as = bindE (heap_contact h p) (\<lambda>c.
     bindE (ordered_slot h order_by_from p c 0 l) (\<lambda>slot. Inr (case slot of None \<Rightarrow> (False, l, as)
       | Some i \<Rightarrow> if malloc_ok as then (True, take i l @ p # drop i l, malloc_rest as) else (False, l, malloc_rest as))))"

fun remove_contact_from_list :: "contact_list \<Rightarrow> nat \<Rightarrow> bool \<times> contact_list" where
  "remove_contact_from_list [] p = (False, [])"
| "remove_contact_from_list (x # xs) p = (if x = p then (True, xs) else let (r, ys) = remove_contact_from_list xs p in (r, x # ys))"

type_synonym 'p associated_contact_list = "(nat \<times> 'p) list"

definition add_contact_to_ordered_assoc_list :: "'p::linordered_field associated_contact_list \<Rightarrow> nat \<Rightarrow> 'p \<Rightarrow> bool \<Rightarrow> contact_heap \<Rightarrow> alloc_script
    \<Rightarrow> fault + bool \<times> 'p associated_contact_list \<times> alloc_script" where
  "add_contact_to_ordered_assoc_list l p prob order_by_from h as = (if \<not> (0 \<le> prob \<and> prob \<le> 1) then Inl AssertFailed else
     bindE (heap_contact h p) (\<lambda>c.
     bindE (ordered_slot h order_by_from p c 0 (map fst l)) (\<lambda>slot. Inr (case slot of None \<Rightarrow> (False, l, as)
       | Some i \<Rightarrow> if malloc_ok as then (True, take i l @ (p, prob) # drop i l, malloc_rest as) else (False, l, malloc_rest as)))))"

fun remove_contact_from_assoc_list :: "'p associated_contact_list \<Rightarrow> nat \<Rightarrow> bool \<times> 'p associated_contact_list" where
  "remove_contact_from_assoc_list [] p = (False, [])"
| "remove_contact_from_assoc_list (x # xs) p =
    (if fst x = p then (True, xs) else let (r, ys) = remove_contact_from_assoc_list xs p in (r, x # ys))"

section \<open>Coded lists of endpoint identifiers\<close>

text \<open>
  \<^verbatim>\<open>eidlist_encode\<close>: the number of strings, then each with its terminator; strings are byte lists without 0. The buffer is as large as the loops need.
\<close>

definition eidlist_encode :: "u8 list list \<Rightarrow> u8 \<Rightarrow> alloc_script \<Rightarrow> fault + u8 list option \<times> int \<times> alloc_script" where
  "eidlist_encode eids n as =
    (if length eids < unat n then Inl OutOfBounds
     else let es = take (unat n) eids; len = 1 + sum_list (map (\<lambda>e. length e + 1) es) in
       Inr (if \<not> malloc_ok as then (None, -1, malloc_rest as)
            else (Some (n # concat (map (\<lambda>e. e @ [0]) es)), int len, malloc_rest as)))"

text \<open>
  \<^verbatim>\<open>eidlist_decode\<close> on a buffer of exactly the given length. The array of results has as many entries as the first byte says; the index into it has 8 bits.
\<close>

function eidlist_decode_loop :: "u8 \<Rightarrow> u8 list \<Rightarrow> u8 \<Rightarrow> u8 list list \<Rightarrow> alloc_script \<Rightarrow> fault + u8 list list option \<times> alloc_script" where
  "eidlist_decode_loop n rest eid_index res as =
    (if rest = [] then Inr (if eid_index \<noteq> n then None else Some res, as)
     else if 0 \<notin> set rest then Inr (None, as)
     else if \<not> unat eid_index < unat n then Inl OutOfBounds
     else if \<not> malloc_ok as then Inr (None, malloc_rest as)
     else let e = takeWhile (\<lambda>b. b \<noteq> 0) rest in
       eidlist_decode_loop n (drop (length e + 1) rest) (eid_index + 1) (res @ [e]) (malloc_rest as))"
  by pat_completeness auto
termination by (relation "measure (\<lambda>(_, rest, _). length rest)") auto

declare eidlist_decode_loop.simps [simp del]

definition eidlist_decode :: "u8 list \<Rightarrow> alloc_script \<Rightarrow> fault + u8 list list option \<times> alloc_script" where
  "eidlist_decode buf as =
    (if length buf \<le> 1 then Inr (None, as)
     else if \<not> malloc_ok as then Inr (None, malloc_rest as)
     else eidlist_decode_loop (hd buf) (tl buf) 0 [] (malloc_rest as))"

end
