(* ===== verification/Contact_Manager.thy ===== *)
theory Contact_Manager
  imports Node
begin

text \<open>
  The contact manager of \<^verbatim>\<open>components/routing/epidemic/contact_manager.c\<close>, which keeps
  the table of neighbours, matches discovered nodes and link events to it, and informs the registered
  callbacks; with \<^verbatim>\<open>free_contact\<close> of \<^verbatim>\<open>components/ud3tn/node.c\<close>
  on its state. Nodes and contacts are those of the theory \<open>Node\<close>.

  Contacts are heap objects in a store by address, because the callbacks keep the pointers. The counter is the signed 8-bit
  \<^verbatim>\<open>current_contact_count\<close>: it is a word read through \<^term>\<open>sint\<close>, and its increment wraps. The calls of the callbacks and of the
  convergence layer are the output trace. The semaphore makes each public operation one step; its bounded wait in
  \<^verbatim>\<open>contact_manager_try_to_send_bundle\<close> is an argument.
\<close>

section \<open>State\<close>

definition MAX_CONCURRENT_CONTACTS :: nat where "MAX_CONCURRENT_CONTACTS = 257"
definition CONTACT_MANAGER_NUM_CALLBACKS :: nat where "CONTACT_MANAGER_NUM_CALLBACKS = 2"
definition CONFIG_CONTACT_TIMEOUT_S :: u64 where "CONFIG_CONTACT_TIMEOUT_S = 60"

datatype contact_manager_event =
  CONTACT_EVENT_ADDED | CONTACT_EVENT_UPDATED | CONTACT_EVENT_REMOVED | CONTACT_EVENT_ACTIVE | CONTACT_EVENT_INACTIVE

record contact_info =
  ci_contact :: "nat option"
  ci_cla_conf :: "nat option"

datatype cm_out =
  Callback nat contact_manager_event nat
| EndScheduledContact nat "eid option" "string option"
| TxPush nat "eid option" "string option" routed_bundle

record contact_manager =
  cm_num_event_cb :: u8
  cm_event_cb :: "nat option list"
  cm_current_contact_count :: u8
  cm_current_contacts :: "contact_info list"
  cm_heap :: "nat \<Rightarrow> contact option"
  cm_allocs :: alloc_script
  cm_trace :: "cm_out list"

definition contact_info_null :: contact_info where
  "contact_info_null = \<lparr>ci_contact = None, ci_cla_conf = None\<rparr>"

section \<open>Contacts\<close>

text \<open>\<^verbatim>\<open>free_contact\<close> asserts that the contact is inactive; the node is not freed with it.\<close>

definition contact_deref :: "nat \<Rightarrow> contact_manager \<Rightarrow> fault + contact" where
  "contact_deref p s = (case cm_heap s p of None \<Rightarrow> Inl UseAfterFree | Some c \<Rightarrow> Inr c)"

definition contact_put :: "nat \<Rightarrow> contact \<Rightarrow> contact_manager \<Rightarrow> contact_manager" where
  "contact_put p c s = s\<lparr>cm_heap := (cm_heap s)(p \<mapsto> c)\<rparr>"

definition free_contact :: "nat option \<Rightarrow> contact_manager \<Rightarrow> fault + contact_manager" where
  "free_contact p s = (case p of None \<Rightarrow> Inr s
   | Some a \<Rightarrow> bindE (contact_deref a s) (\<lambda>c.
       if c_active c then Inl AssertFailed else Inr (s\<lparr>cm_heap := (cm_heap s)(a := None)\<rparr>)))"

section \<open>Callbacks\<close>

definition contact_manager_init :: "alloc_script \<Rightarrow> contact_manager" where
  "contact_manager_init as = \<lparr>cm_num_event_cb = 0, cm_event_cb = replicate CONTACT_MANAGER_NUM_CALLBACKS None,
     cm_current_contact_count = 0, cm_current_contacts = replicate MAX_CONCURRENT_CONTACTS contact_info_null,
     cm_heap = Map.empty, cm_allocs = as, cm_trace = []\<rparr>"

definition contact_manager_add_event_callback :: "nat option \<Rightarrow> contact_manager \<Rightarrow> contact_manager" where
  "contact_manager_add_event_callback cb s =
    (if unat (cm_num_event_cb s) < CONTACT_MANAGER_NUM_CALLBACKS
     then s\<lparr>cm_event_cb := (cm_event_cb s)[unat (cm_num_event_cb s) := cb], cm_num_event_cb := cm_num_event_cb s + 1\<rparr>
     else s)"

definition on_event :: "contact_manager_event \<Rightarrow> nat \<Rightarrow> contact_manager \<Rightarrow> contact_manager" where
  "on_event ev p s = s\<lparr>cm_trace := cm_trace s @
     concat (map (\<lambda>cb. case cb of None \<Rightarrow> [] | Some f \<Rightarrow> [Callback f ev p]) (take (unat (cm_num_event_cb s)) (cm_event_cb s)))\<rparr>"

section \<open>Looking up neighbours\<close>

definition contact_count :: "contact_manager \<Rightarrow> int" where
  "contact_count s = sint (cm_current_contact_count s)"

definition info_at :: "nat \<Rightarrow> contact_manager \<Rightarrow> fault + contact_info" where
  "info_at i s = (if i < length (cm_current_contacts s) then Inr (cm_current_contacts s ! i) else Inl OutOfBounds)"

definition contact_of :: "nat \<Rightarrow> contact_manager \<Rightarrow> fault + nat \<times> contact" where
  "contact_of i s = bindE (info_at i s) (\<lambda>ci. bindE (deref (ci_contact ci)) (\<lambda>p.
     bindE (contact_deref p s) (\<lambda>c. Inr (p, c))))"

text \<open>
  The two searches run over the indices from the last contact down to 0; the result is the index of the entry
  the C code returns a pointer to.
\<close>

fun find_down :: "(node \<Rightarrow> fault + bool) \<Rightarrow> nat \<Rightarrow> contact_manager \<Rightarrow> fault + nat option" where
  "find_down m 0 s = Inr None"
| "find_down m (Suc i) s = bindE (contact_of i s) (\<lambda>(p, c).
     bindE (m (c_node c)) (\<lambda>hit. if hit then Inr (Some i) else find_down m i s))"

definition find_contact_info_by_eid :: "eid \<Rightarrow> contact_manager \<Rightarrow> fault + nat option" where
  "find_contact_info_by_eid eid s =
    (if eid = EID_NONE then Inr None
     else find_down (\<lambda>n. bindE (deref (n_eid n)) (\<lambda>e. Inr (e = eid))) (nat (contact_count s)) s)"

definition find_contact_info_by_cla_addr :: "string \<Rightarrow> contact_manager \<Rightarrow> fault + nat option" where
  "find_contact_info_by_cla_addr addr s =
    find_down (\<lambda>n. bindE (deref (n_cla_addr n)) (\<lambda>a. Inr (a = addr))) (nat (contact_count s)) s"

section \<open>Discovery and link events\<close>

text \<open>The new contact is allocated at the address \<open>new\<close>. A negative index is outside the array.\<close>

definition add_contact :: "u64 \<Rightarrow> node \<Rightarrow> nat \<Rightarrow> contact_manager \<Rightarrow> fault + contact_manager" where
  "add_contact now nd new s =
    (if contact_count s < int MAX_CONCURRENT_CONTACTS then
       (if contact_count s < 0 \<or> nat (contact_count s) \<ge> length (cm_current_contacts s) then Inl OutOfBounds
        else let i = nat (contact_count s); (c, as) = contact_create nd (cm_allocs s);
                 s1 = s\<lparr>cm_current_contacts := (cm_current_contacts s)[i := contact_info_null], cm_allocs := as\<rparr> in
          case c of None \<Rightarrow> Inr s1
          | Some c \<Rightarrow>
             Inr (on_event CONTACT_EVENT_ADDED new
               (contact_put new (c\<lparr>c_to := now, c_from := now\<rparr>)
                 (s1\<lparr>cm_current_contacts := (cm_current_contacts s1)[i := contact_info_null\<lparr>ci_contact := Some new\<rparr>],
                     cm_current_contact_count := cm_current_contact_count s + 1\<rparr>))))
     else Inr s)"

definition update_contact :: "u64 \<Rightarrow> node \<Rightarrow> nat \<Rightarrow> contact_manager \<Rightarrow> fault + contact_manager" where
  "update_contact now nd i s = bindE (contact_of i s) (\<lambda>(p, c).
     Inr (on_event CONTACT_EVENT_UPDATED p (contact_put p (c\<lparr>c_to := max (c_to c) now, c_node := nd\<rparr>) s)))"

definition handle_discovered_neighbor :: "u64 \<Rightarrow> node \<Rightarrow> nat \<Rightarrow> contact_manager \<Rightarrow> fault + contact_manager" where
  "handle_discovered_neighbor now nd new s = (case (n_eid nd, n_cla_addr nd) of
     (Some eid, Some addr) \<Rightarrow>
        bindE (find_contact_info_by_eid eid s) (\<lambda>by_eid.
        bindE (case by_eid of None \<Rightarrow> find_contact_info_by_cla_addr addr s | Some i \<Rightarrow> Inr (Some i)) (\<lambda>found.
          case found of None \<Rightarrow> add_contact now nd new s | Some i \<Rightarrow> update_contact now nd i s))
   | _ \<Rightarrow> Inl AssertFailed)"

definition handle_missing_cla_address :: "u64 \<Rightarrow> string \<Rightarrow> nat \<Rightarrow> contact_manager \<Rightarrow> fault + contact_manager" where
  "handle_missing_cla_address now addr new s = (case node_create (Some EID_NONE) (cm_allocs s) of
     (None, as) \<Rightarrow> Inr (s\<lparr>cm_allocs := as\<rparr>)
   | (Some nd, as) \<Rightarrow> (let (a, as') = strdup addr as in
       handle_discovered_neighbor now (nd\<lparr>n_cla_addr := a\<rparr>) new (s\<lparr>cm_allocs := as'\<rparr>)))"

text \<open>
  The first half of \<^verbatim>\<open>handle_conn_up\<close> and \<^verbatim>\<open>handle_conn_down\<close>: the index of the neighbour with the
  link address, which is added when it is unknown.
\<close>

definition contact_for_link :: "u64 \<Rightarrow> string \<Rightarrow> nat \<Rightarrow> contact_manager \<Rightarrow> fault + nat option \<times> contact_manager" where
  "contact_for_link now addr new s = bindE (find_contact_info_by_cla_addr addr s) (\<lambda>found. case found of
     Some i \<Rightarrow> Inr (Some i, s)
   | None \<Rightarrow> bindE (handle_missing_cla_address now addr new s) (\<lambda>s1.
       bindE (find_contact_info_by_cla_addr addr s1) (\<lambda>again. case again of
         None \<Rightarrow> Inr (None, s1)
       | Some i \<Rightarrow> bindE (contact_of i s1) (\<lambda>(p, c). Inr (Some i, on_event CONTACT_EVENT_ADDED p s1)))))"

definition handle_conn_up :: "u64 \<Rightarrow> string \<Rightarrow> nat \<Rightarrow> contact_manager \<Rightarrow> fault + contact_manager" where
  "handle_conn_up now addr new s = bindE (contact_for_link now addr new s) (\<lambda>(found, s1). case found of
     None \<Rightarrow> Inr s1
   | Some i \<Rightarrow> bindE (contact_of i s1) (\<lambda>(p, c).
       if \<not> c_active c then Inr (on_event CONTACT_EVENT_ACTIVE p (contact_put p (c\<lparr>c_active := True\<rparr>) s1)) else Inr s1))"

definition handle_conn_down :: "u64 \<Rightarrow> string \<Rightarrow> nat \<Rightarrow> contact_manager \<Rightarrow> fault + contact_manager" where
  "handle_conn_down now addr new s = bindE (contact_for_link now addr new s) (\<lambda>(found, s1). case found of
     None \<Rightarrow> Inr s1
   | Some i \<Rightarrow> bindE (contact_of i s1) (\<lambda>(p, c).
       if c_active c then Inr (on_event CONTACT_EVENT_INACTIVE p (contact_put p (c\<lparr>c_active := False\<rparr>) s1)) else Inr s1))"

section \<open>Expiry\<close>

text \<open>The first loop of \<^verbatim>\<open>remove_expired_contacts\<close>: active contacts are seen now.\<close>

fun refresh_active :: "u64 \<Rightarrow> nat \<Rightarrow> contact_manager \<Rightarrow> fault + contact_manager" where
  "refresh_active now 0 s = Inr s"
| "refresh_active now (Suc i) s = bindE (contact_of i s) (\<lambda>(p, c).
     refresh_active now i (if c_active c then contact_put p (c\<lparr>c_to := max now (c_to c)\<rparr>) s else s))"

text \<open>The inner loop that closes the gap at index \<open>c\<close>; it copies \<^verbatim>\<open>[c + 1]\<close> for every \<open>c\<close> below the counter.\<close>

function close_gap :: "nat \<Rightarrow> nat \<Rightarrow> contact_info list \<Rightarrow> fault + contact_info list" where
  "close_gap c n xs =
    (if c < n then (if c + 1 < length xs then close_gap (c + 1) n (xs[c := xs ! (c + 1)]) else Inl OutOfBounds) else Inr xs)"
  by pat_completeness auto
termination by (relation "measure (\<lambda>(c, n, _). n - c)") auto

declare close_gap.simps [simp del]

definition remove_contact_at :: "nat \<Rightarrow> nat \<Rightarrow> contact \<Rightarrow> contact_manager \<Rightarrow> fault + contact_manager" where
  "remove_contact_at i p c s =
    (let s1 = (if c_active c then on_event CONTACT_EVENT_INACTIVE p (contact_put p (c\<lparr>c_active := False\<rparr>) s) else s);
         s2 = on_event CONTACT_EVENT_REMOVED p s1; n = nat (contact_count s) in
     bindE (if i \<noteq> n - 1 then close_gap i n (cm_current_contacts s2) else Inr (cm_current_contacts s2)) (\<lambda>xs.
       Inr (s2\<lparr>cm_current_contacts := xs, cm_current_contact_count := cm_current_contact_count s - 1\<rparr>)))"

fun remove_loop :: "u64 \<Rightarrow> nat \<Rightarrow> contact_info list \<Rightarrow> contact_manager \<Rightarrow> fault + contact_info list \<times> contact_manager" where
  "remove_loop timeout 0 removed s = Inr (removed, s)"
| "remove_loop timeout (Suc i) removed s = bindE (contact_of i s) (\<lambda>(p, c).
     if c_to c \<le> timeout
     then bindE (remove_contact_at i p c s) (\<lambda>s'. remove_loop timeout i (removed @ [cm_current_contacts s ! i]) s')
     else remove_loop timeout i removed s)"

definition remove_expired_contacts :: "u64 \<Rightarrow> contact_manager \<Rightarrow> fault + contact_info list \<times> contact_manager" where
  "remove_expired_contacts now s = bindE (refresh_active now (nat (contact_count s)) s) (\<lambda>s1.
     remove_loop (now + CONFIG_CONTACT_TIMEOUT_S) (nat (contact_count s1)) [] s1)"

fun free_removed :: "contact_info list \<Rightarrow> contact_manager \<Rightarrow> fault + contact_manager" where
  "free_removed [] s = Inr s"
| "free_removed (ci # cis) s = bindE (deref (ci_contact ci)) (\<lambda>p. bindE (contact_deref p s) (\<lambda>c.
     bindE (free_contact (Some p) (case ci_cla_conf ci of None \<Rightarrow> s
       | Some cla \<Rightarrow> s\<lparr>cm_trace := cm_trace s @ [EndScheduledContact cla (n_eid (c_node c)) (n_cla_addr (c_node c))]\<rparr>))
     (free_removed cis)))"

definition remove_and_free_expired_contacts :: "u64 \<Rightarrow> contact_manager \<Rightarrow> fault + u8 \<times> contact_manager" where
  "remove_and_free_expired_contacts now s = bindE (remove_expired_contacts now s) (\<lambda>(removed, s1).
     bindE (free_removed removed s1) (\<lambda>s2. Inr (of_nat (length removed), s2)))"

section \<open>Sending\<close>

text \<open>
  What the convergence layers answer is input: the configuration that serves an address
  (\<^verbatim>\<open>cla_config_get\<close>), whether the transmission queue of a neighbour can be obtained, and whether it accepts the command in time.
\<close>

record cla_env =
  cla_config_get :: "string \<Rightarrow> nat option"
  cla_has_tx_queue :: "nat \<Rightarrow> eid option \<Rightarrow> string option \<Rightarrow> bool"
  cla_push_ok :: bool
  cla_sem_ok :: bool

definition cm_push :: "cla_env \<Rightarrow> routed_bundle \<Rightarrow> nat \<Rightarrow> node \<Rightarrow> contact_manager \<Rightarrow> fault + ud3tn_result \<times> contact_manager" where
  "cm_push env rb cla nd s =
    (if \<not> cla_has_tx_queue env cla (n_eid nd) (n_cla_addr nd) then Inr (UD3TN_FAIL, s)
     else if \<not> malloc_ok (cm_allocs s) then Inl NullDeref
     else let s1 = s\<lparr>cm_allocs := malloc_rest (cm_allocs s)\<rparr> in
       if cla_push_ok env
       then Inr (UD3TN_OK, s1\<lparr>cm_trace := cm_trace s1 @ [TxPush cla (n_eid nd) (n_cla_addr nd) rb]\<rparr>)
       else Inr (UD3TN_FAIL, s1))"

definition send_destination :: "routed_bundle \<Rightarrow> contact_manager \<Rightarrow> fault + eid \<times> contact_manager" where
  "send_destination rb s =
    (if routing_agent_is_info_bundle (rb_destination rb)
     then bindE (routing_agent_create_eid_from_info_bundle_eid (rb_destination rb) (cm_allocs s))
            (\<lambda>(d, as). Inr (d, s\<lparr>cm_allocs := as\<rparr>))
     else Inr (rb_destination rb, s))"

definition cm_try_to_send_bundle :: "cla_env \<Rightarrow> routed_bundle \<Rightarrow> contact_manager \<Rightarrow> fault + ud3tn_result \<times> contact_manager" where
  "cm_try_to_send_bundle env rb s = bindE (send_destination rb s) (\<lambda>(dest, s1).
     bindE (find_contact_info_by_eid dest s1) (\<lambda>found. case found of
       None \<Rightarrow> Inr (UD3TN_FAIL, s1)
     | Some i \<Rightarrow> bindE (info_at i s1) (\<lambda>ci. bindE (contact_of i s1) (\<lambda>(p, c).
         case n_cla_addr (c_node c) of None \<Rightarrow> Inl AssertFailed
         | Some addr \<Rightarrow> (let conf = (case ci_cla_conf ci of None \<Rightarrow> cla_config_get env addr | x \<Rightarrow> x);
              s2 = s1\<lparr>cm_current_contacts := (cm_current_contacts s1)[i := ci\<lparr>ci_cla_conf := conf\<rparr>]\<rparr> in
            case conf of None \<Rightarrow> Inl AssertFailed
            | Some cla \<Rightarrow> cm_push env rb cla (c_node c) s2)))))"

definition contact_manager_try_to_send_bundle :: "cla_env \<Rightarrow> routed_bundle \<Rightarrow> contact_manager \<Rightarrow> fault + ud3tn_result \<times> contact_manager" where
  "contact_manager_try_to_send_bundle env rb s =
    (if \<not> cla_sem_ok env then Inr (UD3TN_FAIL, s) else cm_try_to_send_bundle env rb s)"

end
