(* ===== verification/Contact_Manager_Inv.thy ===== *)
theory Contact_Manager_Inv
  imports Contact_Manager
begin

text \<open>
  Correctness of the contact manager: its invariant, what a callback observes, and the effect of every
  operation on the table of neighbours. The allocator grants its requests, as in the proofs on the router.
\<close>

section \<open>Invariant\<close>

text \<open>
  The used entries of the table point at distinct live contacts, there are no other contacts, every
  node has both names, and no two contacts carry the same EID unless it is unknown.
\<close>

definition cm_size :: "contact_manager \<Rightarrow> nat" where
  "cm_size s = nat (contact_count s)"

definition cm_ptrs :: "contact_manager \<Rightarrow> nat list" where
  "cm_ptrs s = map (the \<circ> ci_contact) (take (cm_size s) (cm_current_contacts s))"

definition node_ok :: "node \<Rightarrow> bool" where
  "node_ok n \<longleftrightarrow> n_eid n \<noteq> None \<and> n_cla_addr n \<noteq> None"

definition eids_distinct :: "(nat \<Rightarrow> contact option) \<Rightarrow> bool" where
  "eids_distinct h \<longleftrightarrow> (\<forall>p q c d. h p = Some c \<longrightarrow> h q = Some d \<longrightarrow> n_eid (c_node c) = n_eid (c_node d)
     \<longrightarrow> n_eid (c_node c) \<noteq> Some EID_NONE \<longrightarrow> p = q)"

definition cm_inv :: "contact_manager \<Rightarrow> bool" where
  "cm_inv s \<longleftrightarrow> length (cm_current_contacts s) = MAX_CONCURRENT_CONTACTS \<and> 0 \<le> contact_count s
     \<and> (\<forall>ci \<in> set (take (cm_size s) (cm_current_contacts s)). ci_contact ci \<noteq> None)
     \<and> distinct (cm_ptrs s) \<and> dom (cm_heap s) = set (cm_ptrs s)
     \<and> (\<forall>p c. cm_heap s p = Some c \<longrightarrow> node_ok (c_node c)) \<and> eids_distinct (cm_heap s)
     \<and> cm_allocs s = []"

lemma contact_count_less: "contact_count s < 128"
  using sint_lt[of "cm_current_contact_count s"] by (simp add: contact_count_def)

lemma cm_size_less: "cm_size s < 128"
  using contact_count_less[of s] by (simp add: cm_size_def)

lemma contact_count_inc:
  assumes "0 \<le> sint (w :: u8)" "sint w < 127"
  shows "sint (w + 1) = sint w + 1"
proof -
  have "sint (w + 1) = signed_take_bit 7 (sint w + sint (1::u8))" by (simp add: sint_word_ariths)
  then show ?thesis using assms by (simp add: signed_take_bit_int_eq_self)
qed

lemma contact_count_dec:
  assumes "0 < sint (w :: u8)"
  shows "sint (w - 1) = sint w - 1"
proof -
  have "sint (w - 1) = signed_take_bit 7 (sint w - sint (1::u8))" by (simp add: sint_word_ariths)
  then show ?thesis using assms sint_lt[of w] by (simp add: signed_take_bit_int_eq_self)
qed

lemma contact_count_wrap: "sint (w :: u8) = 127 \<Longrightarrow> sint (w + 1) = - 128"
proof -
  assume "sint w = 127"
  then have "w = 127" by (metis of_int_numeral scast_eq scast_id)
  then show ?thesis by simp
qed


lemma cm_invD:
  assumes "cm_inv s"
  shows "length (cm_current_contacts s) = MAX_CONCURRENT_CONTACTS" "0 \<le> contact_count s" "distinct (cm_ptrs s)"
    "dom (cm_heap s) = set (cm_ptrs s)" "\<And>p c. cm_heap s p = Some c \<Longrightarrow> node_ok (c_node c)" "eids_distinct (cm_heap s)"
    "cm_allocs s = []"
  using assms unfolding cm_inv_def by blast+

lemma cm_size_le: "cm_inv s \<Longrightarrow> cm_size s \<le> length (cm_current_contacts s)"
  using cm_size_less[of s] by (simp add: cm_inv_def MAX_CONCURRENT_CONTACTS_def)

lemma length_cm_ptrs: "cm_inv s \<Longrightarrow> length (cm_ptrs s) = cm_size s"
  using cm_size_le by (simp add: cm_ptrs_def)

lemma ci_contact_ptr:
  assumes "cm_inv s" "i < cm_size s"
  shows "ci_contact (cm_current_contacts s ! i) = Some (cm_ptrs s ! i)"
proof -
  have "cm_current_contacts s ! i \<in> set (take (cm_size s) (cm_current_contacts s))"
    using assms cm_size_le by (force simp: in_set_conv_nth)
  then have "ci_contact (cm_current_contacts s ! i) \<noteq> None" using assms by (auto simp: cm_inv_def)
  then show ?thesis using assms cm_size_le by (auto simp: cm_ptrs_def)
qed

lemma contact_of_ptr:
  assumes "cm_inv s" "i < cm_size s"
  obtains c where "contact_of i s = Inr (cm_ptrs s ! i, c)" "cm_heap s (cm_ptrs s ! i) = Some c"
proof -
  have "cm_ptrs s ! i \<in> dom (cm_heap s)" using assms cm_invD(4) length_cm_ptrs by auto
  then obtain c where "cm_heap s (cm_ptrs s ! i) = Some c" by blast
  then show ?thesis using assms cm_size_le[OF assms(1)]
    by (intro that) (auto simp: contact_of_def info_at_def ci_contact_ptr contact_deref_def)
qed

text \<open>What a search over the table finds: the last entry whose node satisfies the test.\<close>

lemma find_down_Inr:
  assumes "cm_inv s" "k \<le> cm_size s" "\<And>p c. cm_heap s p = Some c \<Longrightarrow> m (c_node c) = Inr (P c)"
  shows "\<exists>r. find_down m k s = Inr r \<and> (case r of
      None \<Rightarrow> \<forall>i < k. \<not> P (the (cm_heap s (cm_ptrs s ! i)))
    | Some i \<Rightarrow> i < k \<and> P (the (cm_heap s (cm_ptrs s ! i))))"
  using assms(2)
proof (induction k)
  case (Suc k)
  obtain c where c: "contact_of k s = Inr (cm_ptrs s ! k, c)" "cm_heap s (cm_ptrs s ! k) = Some c"
    using contact_of_ptr[OF assms(1), of k] Suc.prems by auto
  show ?case
  proof (cases "P c")
    case True
    then show ?thesis using c assms(3)[OF c(2)] by simp
  next
    case False
    obtain r where r: "find_down m k s = Inr r" "case r of None \<Rightarrow> \<forall>i < k. \<not> P (the (cm_heap s (cm_ptrs s ! i)))
      | Some i \<Rightarrow> i < k \<and> P (the (cm_heap s (cm_ptrs s ! i)))" using Suc by auto
    then show ?thesis using c assms(3)[OF c(2)] False by (auto simp: less_Suc_eq split: option.splits)
  qed
qed simp

lemma ptr_all_iff: "cm_inv s \<Longrightarrow> (\<forall>i < cm_size s. Q (cm_ptrs s ! i)) \<longleftrightarrow> (\<forall>p \<in> dom (cm_heap s). Q p)"
  using cm_invD(4)[of s] length_cm_ptrs[of s] by (metis in_set_conv_nth)

lemma find_by_eid:
  assumes "cm_inv s"
  obtains (unknown) "find_contact_info_by_eid eid s = Inr None"
      "eid \<noteq> EID_NONE \<Longrightarrow> \<forall>p c. cm_heap s p = Some c \<longrightarrow> n_eid (c_node c) \<noteq> Some eid"
  | (known) i c where "find_contact_info_by_eid eid s = Inr (Some i)" "i < cm_size s" "eid \<noteq> EID_NONE"
      "cm_heap s (cm_ptrs s ! i) = Some c" "n_eid (c_node c) = Some eid"
proof (cases "eid = EID_NONE")
  case True
  then show ?thesis by (intro unknown) (auto simp: find_contact_info_by_eid_def)
next
  case False
  have m: "bindE (deref (n_eid (c_node c))) (\<lambda>e. Inr (e = eid)) = Inr (n_eid (c_node c) = Some eid)"
    if "cm_heap s p = Some c" for p c
    using cm_invD(5)[OF assms that] by (auto simp: node_ok_def)
  obtain r where r: "find_contact_info_by_eid eid s = Inr r" "case r of
      None \<Rightarrow> \<forall>i < cm_size s. \<not> n_eid (c_node (the (cm_heap s (cm_ptrs s ! i)))) = Some eid
    | Some i \<Rightarrow> i < cm_size s \<and> n_eid (c_node (the (cm_heap s (cm_ptrs s ! i)))) = Some eid"
    using find_down_Inr[OF assms order.refl, of "\<lambda>n. bindE (deref (n_eid n)) (\<lambda>e. Inr (e = eid))" "\<lambda>c. n_eid (c_node c) = Some eid"] m False by (auto simp: find_contact_info_by_eid_def cm_size_def)
  show ?thesis
  proof (cases r)
    case None
    then have "\<forall>p \<in> dom (cm_heap s). \<not> n_eid (c_node (the (cm_heap s p))) = Some eid"
      using r(2) ptr_all_iff[OF assms, of "\<lambda>p. \<not> n_eid (c_node (the (cm_heap s p))) = Some eid"] by simp
    then have "\<forall>p c. cm_heap s p = Some c \<longrightarrow> n_eid (c_node c) \<noteq> Some eid" by (metis domI option.sel)
    then show ?thesis using r(1) None by (intro unknown) simp_all
  next
    case (Some i)
    then have i: "i < cm_size s" using r(2) by simp
    obtain c where "cm_heap s (cm_ptrs s ! i) = Some c" using contact_of_ptr[OF assms i] by blast
    then show ?thesis using known[of i c] r Some i False by simp
  qed
qed

lemma find_by_cla_addr:
  assumes "cm_inv s"
  obtains (unknown) "find_contact_info_by_cla_addr addr s = Inr None"
      "\<forall>p c. cm_heap s p = Some c \<longrightarrow> n_cla_addr (c_node c) \<noteq> Some addr"
  | (known) i c where "find_contact_info_by_cla_addr addr s = Inr (Some i)" "i < cm_size s"
      "cm_heap s (cm_ptrs s ! i) = Some c" "n_cla_addr (c_node c) = Some addr"
proof -
  have m: "bindE (deref (n_cla_addr (c_node c))) (\<lambda>e. Inr (e = addr)) = Inr (n_cla_addr (c_node c) = Some addr)"
    if "cm_heap s p = Some c" for p c
    using cm_invD(5)[OF assms that] by (auto simp: node_ok_def)
  obtain r where r: "find_contact_info_by_cla_addr addr s = Inr r" "case r of
      None \<Rightarrow> \<forall>i < cm_size s. \<not> n_cla_addr (c_node (the (cm_heap s (cm_ptrs s ! i)))) = Some addr
    | Some i \<Rightarrow> i < cm_size s \<and> n_cla_addr (c_node (the (cm_heap s (cm_ptrs s ! i)))) = Some addr"
    using find_down_Inr[OF assms order.refl, of "\<lambda>n. bindE (deref (n_cla_addr n)) (\<lambda>e. Inr (e = addr))" "\<lambda>c. n_cla_addr (c_node c) = Some addr"] m by (auto simp: find_contact_info_by_cla_addr_def cm_size_def)
  show ?thesis
  proof (cases r)
    case None
    then have "\<forall>p \<in> dom (cm_heap s). \<not> n_cla_addr (c_node (the (cm_heap s p))) = Some addr"
      using r(2) ptr_all_iff[OF assms, of "\<lambda>p. \<not> n_cla_addr (c_node (the (cm_heap s p))) = Some addr"] by simp
    then have "\<forall>p c. cm_heap s p = Some c \<longrightarrow> n_cla_addr (c_node c) \<noteq> Some addr" by (metis domI option.sel)
    then show ?thesis using r(1) None by (intro unknown) simp_all
  next
    case (Some i)
    then have i: "i < cm_size s" using r(2) by simp
    obtain c where "cm_heap s (cm_ptrs s ! i) = Some c" using contact_of_ptr[OF assms i] by blast
    then show ?thesis using known[of i c] r Some i by simp
  qed
qed

section \<open>Each operation keeps the invariant\<close>

lemma on_event_fields [simp]:
  "cm_heap (on_event ev p s) = cm_heap s" "cm_current_contacts (on_event ev p s) = cm_current_contacts s"
  "cm_current_contact_count (on_event ev p s) = cm_current_contact_count s" "cm_allocs (on_event ev p s) = cm_allocs s"
  "cm_num_event_cb (on_event ev p s) = cm_num_event_cb s" "cm_event_cb (on_event ev p s) = cm_event_cb s"
  by (simp_all add: on_event_def)

text \<open>The registered callbacks, and what one event sends to them.\<close>

definition cm_cbs :: "contact_manager \<Rightarrow> nat list" where
  "cm_cbs s = List.map_filter id (take (unat (cm_num_event_cb s)) (cm_event_cb s))"

definition notices :: "contact_manager \<Rightarrow> contact_manager_event \<Rightarrow> nat \<Rightarrow> cm_out list" where
  "notices s ev p = map (\<lambda>f. Callback f ev p) (cm_cbs s)"

lemma concat_callbacks:
  "concat (map (\<lambda>cb. case cb of None \<Rightarrow> [] | Some f \<Rightarrow> [Callback f ev p]) cbs) = map (\<lambda>f. Callback f ev p) (List.map_filter id cbs)"
  by (induction cbs) (auto simp: map_filter_simps split: option.splits)

lemma on_event_trace [simp]: "cm_trace (on_event ev p s) = cm_trace s @ notices s ev p"
  by (simp add: on_event_def notices_def cm_cbs_def concat_callbacks)

lemma cm_cbs_on_event [simp]: "cm_cbs (on_event ev p s) = cm_cbs s"
  by (simp add: cm_cbs_def)

lemma contact_put_fields [simp]:
  "cm_heap (contact_put p c s) = (cm_heap s)(p \<mapsto> c)" "cm_current_contacts (contact_put p c s) = cm_current_contacts s"
  "cm_current_contact_count (contact_put p c s) = cm_current_contact_count s" "cm_allocs (contact_put p c s) = cm_allocs s"
  "cm_num_event_cb (contact_put p c s) = cm_num_event_cb s" "cm_event_cb (contact_put p c s) = cm_event_cb s"
  "cm_trace (contact_put p c s) = cm_trace s"
  by (simp_all add: contact_put_def)

lemma cm_cbs_contact_put [simp]: "cm_cbs (contact_put p c s) = cm_cbs s"
  by (simp add: cm_cbs_def)

lemma notices_cong: "cm_cbs s' = cm_cbs s \<Longrightarrow> notices s' = notices s"
  by (simp add: notices_def fun_eq_iff)

lemma cm_table_cong:
  assumes "cm_current_contacts s' = cm_current_contacts s" "cm_current_contact_count s' = cm_current_contact_count s"
  shows "contact_count s' = contact_count s" "cm_size s' = cm_size s" "cm_ptrs s' = cm_ptrs s"
  using assms by (simp_all add: contact_count_def cm_size_def cm_ptrs_def)

lemma cm_table_frames [simp]:
  "contact_count (on_event ev p s) = contact_count s" "cm_size (on_event ev p s) = cm_size s" "cm_ptrs (on_event ev p s) = cm_ptrs s"
  "contact_count (contact_put p c s) = contact_count s" "cm_size (contact_put p c s) = cm_size s" "cm_ptrs (contact_put p c s) = cm_ptrs s"
  by (rule cm_table_cong; simp)+

lemma on_event_inv [simp]: "cm_inv (on_event ev p s) \<longleftrightarrow> cm_inv s"
  by (simp add: cm_inv_def)

lemma contact_put_inv [invar_intros]:
  assumes "cm_inv s" "cm_heap s p = Some c" "node_ok (c_node c')"
    and "\<forall>q d. q \<noteq> p \<longrightarrow> cm_heap s q = Some d \<longrightarrow> n_eid (c_node d) = n_eid (c_node c') \<longrightarrow> n_eid (c_node c') = Some EID_NONE"
  shows "cm_inv (contact_put p c' s)"
proof -
  have "eids_distinct ((cm_heap s)(p \<mapsto> c'))"
    using cm_invD(6)[OF assms(1)] assms(4) unfolding eids_distinct_def by (metis fun_upd_other fun_upd_same option.inject)
  then show ?thesis
    using assms(1-3) by (auto simp: cm_inv_def)
qed

lemma contact_put_same_node [invar_intros]:
  assumes "cm_inv s" "cm_heap s p = Some c" "c_node c' = c_node c"
  shows "cm_inv (contact_put p c' s)"
proof (rule contact_put_inv[OF assms(1,2)])
  show "node_ok (c_node c')" using cm_invD(5)[OF assms(1,2)] assms(3) by simp
  show "\<forall>q d. q \<noteq> p \<longrightarrow> cm_heap s q = Some d \<longrightarrow> n_eid (c_node d) = n_eid (c_node c') \<longrightarrow> n_eid (c_node c') = Some EID_NONE"
    using cm_invD(6)[OF assms(1)] assms(2,3) unfolding eids_distinct_def by metis
qed

lemma add_contact_inv:
  assumes "cm_inv s" "cm_heap s new = None" "contact_count s < 127" "node_ok nd"
    and "\<forall>q d. cm_heap s q = Some d \<longrightarrow> n_eid (c_node d) = n_eid nd \<longrightarrow> n_eid nd = Some EID_NONE"
  obtains s' c where "add_contact now nd new s = Inr s'" "cm_inv s'" "cm_heap s' = (cm_heap s)(new \<mapsto> c)"
    "c_node c = nd" "\<not> c_active c" "c_from c = now" "c_to c = now" "cm_ptrs s' = cm_ptrs s @ [new]"
    "cm_trace s' = cm_trace s @ notices s CONTACT_EVENT_ADDED new" "cm_cbs s' = cm_cbs s"
proof -
  let ?i = "cm_size s"
  let ?c = "(the (fst (contact_create nd [])))\<lparr>c_to := now, c_from := now\<rparr>"
  let ?xs = "(cm_current_contacts s)[?i := contact_info_null\<lparr>ci_contact := Some new\<rparr>]"
  let ?s = "contact_put new ?c (s\<lparr>cm_current_contacts := ?xs, cm_current_contact_count := cm_current_contact_count s + 1\<rparr>)"
  note inv = cm_invD[OF assms(1)]
  have i: "?i < length (cm_current_contacts s)" using cm_size_less[of s] inv(1) by (simp add: MAX_CONCURRENT_CONTACTS_def)
  have cnt: "contact_count ?s = contact_count s + 1"
    using contact_count_inc[of "cm_current_contact_count s"] inv(2) assms(3) by (simp add: contact_count_def)
  then have sz: "cm_size ?s = Suc ?i" using inv(2) by (simp add: cm_size_def nat_add_distrib)
  have tk: "take (Suc ?i) ?xs = take ?i (cm_current_contacts s) @ [contact_info_null\<lparr>ci_contact := Some new\<rparr>]"
    using i by (simp add: take_Suc_conv_app_nth)
  then have ptrs: "cm_ptrs ?s = cm_ptrs s @ [new]" unfolding cm_ptrs_def sz by simp
  have fresh: "new \<notin> set (cm_ptrs s)" using inv(4) assms(2) by (metis domIff)
  have "eids_distinct ((cm_heap s)(new \<mapsto> ?c))"
    using inv(6) assms(5) unfolding eids_distinct_def by (auto simp: contact_create_def)
  then have "cm_inv ?s"
    using assms(1,4) tk cnt fresh unfolding cm_inv_def ptrs sz
    by (auto simp: contact_create_def contact_info_null_def)
  moreover have "add_contact now nd new s = Inr (on_event CONTACT_EVENT_ADDED new ?s)"
    using i inv(2,7) contact_count_less[of s]
    by (cases s) (simp add: add_contact_def contact_create_def Let_def cm_size_def MAX_CONCURRENT_CONTACTS_def contact_put_def)
  ultimately show ?thesis
    using ptrs by (intro that[of "on_event CONTACT_EVENT_ADDED new ?s" ?c]) (simp_all add: contact_create_def notices_def cm_cbs_def)
qed


lemma update_contact_inv:
  assumes "cm_inv s" "i < cm_size s" "cm_heap s (cm_ptrs s ! i) = Some c" "node_ok nd"
    and "\<forall>q d. q \<noteq> cm_ptrs s ! i \<longrightarrow> cm_heap s q = Some d \<longrightarrow> n_eid (c_node d) = n_eid nd \<longrightarrow> n_eid nd = Some EID_NONE"
  obtains s' where "update_contact now nd i s = Inr s'" "cm_inv s'"
    "cm_heap s' = (cm_heap s)(cm_ptrs s ! i \<mapsto> c\<lparr>c_to := max (c_to c) now, c_node := nd\<rparr>)" "cm_ptrs s' = cm_ptrs s"
    "cm_trace s' = cm_trace s @ notices s CONTACT_EVENT_UPDATED (cm_ptrs s ! i)" "cm_cbs s' = cm_cbs s"
proof -
  let ?p = "cm_ptrs s ! i" and ?c = "c\<lparr>c_to := max (c_to c) now, c_node := nd\<rparr>"
  have "contact_of i s = Inr (?p, c)" using contact_of_ptr[OF assms(1,2)] assms(3) by (metis option.inject)
  moreover have "cm_inv (contact_put ?p ?c s)" using assms by (intro contact_put_inv[of s ?p c]) auto
  ultimately show ?thesis
    by (intro that[of "on_event CONTACT_EVENT_UPDATED ?p (contact_put ?p ?c s)"]) (simp_all add: update_contact_def notices_def)
qed

text \<open>The two outcomes of a discovery, and which one happens.\<close>

lemma handle_discovered_neighbor_cases:
  assumes "cm_inv s" "cm_heap s new = None" "contact_count s < 127" "n_eid nd = Some eid" "n_cla_addr nd = Some addr"
  obtains (updated) s' p c where "handle_discovered_neighbor now nd new s = Inr s'" "cm_inv s'"
      "cm_heap s p = Some c" "cm_heap s' = (cm_heap s)(p \<mapsto> c\<lparr>c_to := max (c_to c) now, c_node := nd\<rparr>)"
      "eid \<noteq> EID_NONE \<and> n_eid (c_node c) = Some eid
        \<or> (eid \<noteq> EID_NONE \<longrightarrow> (\<forall>q d. cm_heap s q = Some d \<longrightarrow> n_eid (c_node d) \<noteq> Some eid)) \<and> n_cla_addr (c_node c) = Some addr"
      "cm_ptrs s' = cm_ptrs s" "cm_trace s' = cm_trace s @ notices s CONTACT_EVENT_UPDATED p" "cm_cbs s' = cm_cbs s"
  | (added) s' c where "handle_discovered_neighbor now nd new s = Inr s'" "cm_inv s'"
      "\<And>q d. cm_heap s q = Some d \<Longrightarrow> n_cla_addr (c_node d) \<noteq> Some addr \<and> (eid \<noteq> EID_NONE \<longrightarrow> n_eid (c_node d) \<noteq> Some eid)"
      "cm_heap s' = (cm_heap s)(new \<mapsto> c)" "c_node c = nd" "\<not> c_active c" "c_from c = now" "c_to c = now"
      "cm_ptrs s' = cm_ptrs s @ [new]" "cm_trace s' = cm_trace s @ notices s CONTACT_EVENT_ADDED new" "cm_cbs s' = cm_cbs s"
proof -
  have ok: "node_ok nd" using assms(4,5) by (simp add: node_ok_def)
  show ?thesis
  proof (cases rule: find_by_eid[OF assms(1), of eid])
    case (2 i c)
    have "\<forall>q d. q \<noteq> cm_ptrs s ! i \<longrightarrow> cm_heap s q = Some d \<longrightarrow> n_eid (c_node d) = n_eid nd \<longrightarrow> n_eid nd = Some EID_NONE"
      using cm_invD(6)[OF assms(1)] 2(4,5) assms(4) unfolding eids_distinct_def by metis
    from update_contact_inv[OF assms(1) 2(2,4) ok this, where now = now] 2 show ?thesis
      using assms(4,5) updated[of _ "cm_ptrs s ! i" c] by (auto simp: handle_discovered_neighbor_def)
  next
    case 1
    have disj: "\<forall>q d. cm_heap s q = Some d \<longrightarrow> n_eid (c_node d) = n_eid nd \<longrightarrow> n_eid nd = Some EID_NONE"
      using 1(2) assms(4) by fastforce
    show ?thesis
    proof (cases rule: find_by_cla_addr[OF assms(1), of addr])
      case (2 i c)
      have "\<forall>q d. q \<noteq> cm_ptrs s ! i \<longrightarrow> cm_heap s q = Some d \<longrightarrow> n_eid (c_node d) = n_eid nd \<longrightarrow> n_eid nd = Some EID_NONE"
        using disj by blast
      from update_contact_inv[OF assms(1) 2(2,3) ok this, where now = now] 2 1 show ?thesis
        using assms(4,5) updated[of _ "cm_ptrs s ! i" c] by (auto simp: handle_discovered_neighbor_def)
    next
      case unknown2: 1
      from add_contact_inv[OF assms(1,2,3) ok disj, where now = now] show ?thesis
        using assms(4,5) 1 unknown2 added by (auto simp: handle_discovered_neighbor_def)
    qed
  qed
qed

text \<open>A link address always leads to a contact that carries it; an unknown one is announced twice.\<close>

lemma contact_for_link_cases:
  assumes "cm_inv s" "cm_heap s new = None" "contact_count s < 127"
  obtains (known) i c where "contact_for_link now addr new s = Inr (Some i, s)" "i < cm_size s"
      "cm_heap s (cm_ptrs s ! i) = Some c" "n_cla_addr (c_node c) = Some addr"
  | (added) i s1 c where "contact_for_link now addr new s = Inr (Some i, s1)" "cm_inv s1" "i < cm_size s1" "cm_ptrs s1 ! i = new"
      "\<forall>q d. cm_heap s q = Some d \<longrightarrow> n_cla_addr (c_node d) \<noteq> Some addr"
      "cm_heap s1 = (cm_heap s)(new \<mapsto> c)" "n_cla_addr (c_node c) = Some addr" "n_eid (c_node c) = Some EID_NONE" "\<not> c_active c"
      "cm_trace s1 = cm_trace s @ notices s CONTACT_EVENT_ADDED new @ notices s CONTACT_EVENT_ADDED new" "cm_cbs s1 = cm_cbs s" "c_to c = now"
proof (cases rule: find_by_cla_addr[OF assms(1), of addr])
  case (2 i c)
  then show ?thesis by (intro known[of i c]) (simp_all add: contact_for_link_def)
next
  case 1
  let ?nd = "\<lparr>n_eid = Some EID_NONE, n_cla_addr = Some addr, n_flags = NODE_FLAG_NONE, n_endpoints = [], n_contacts = []\<rparr>"
  have miss: "handle_missing_cla_address now addr new s = handle_discovered_neighbor now ?nd new s"
    using cm_invD(7)[OF assms(1)] by (cases s) (simp add: handle_missing_cla_address_def node_create_def)
  show ?thesis
  proof (cases rule: handle_discovered_neighbor_cases[OF assms, of ?nd EID_NONE addr now])
    case (4 s1 c)
    show ?thesis
    proof (cases rule: find_by_cla_addr[OF 4(2), of addr])
      case (2 i d)
      have "cm_ptrs s1 ! i = new"
      proof (rule ccontr)
        assume "cm_ptrs s1 ! i \<noteq> new"
        then have "cm_heap s (cm_ptrs s1 ! i) = Some d" using 2(3) 4(4) by simp
        then show False using 1(2) 2(4) by blast
      qed
      moreover obtain e where "contact_of i s1 = Inr (cm_ptrs s1 ! i, e)" "cm_heap s1 (cm_ptrs s1 ! i) = Some e"
        by (rule contact_of_ptr[OF 4(2) 2(2)])
      ultimately show ?thesis
        using 1 2 4 miss by (intro added[of i "on_event CONTACT_EVENT_ADDED new s1" c])
          (simp_all add: contact_for_link_def notices_def)
    next
      case 11: 1
      have "cm_heap s1 new = Some c" using 4(4) by simp
      then show ?thesis using 11(2) 4(5) by fastforce
    qed
  qed (use 1 in auto)
qed

text \<open>
  A link event leaves every other contact alone, and signals exactly when the state of the link changes.
\<close>

definition link_event :: "bool \<Rightarrow> contact_manager_event" where
  "link_event up = (if up then CONTACT_EVENT_ACTIVE else CONTACT_EVENT_INACTIVE)"

definition handle_conn :: "bool \<Rightarrow> u64 \<Rightarrow> string \<Rightarrow> nat \<Rightarrow> contact_manager \<Rightarrow> fault + contact_manager" where
  "handle_conn up = (if up then handle_conn_up else handle_conn_down)"

lemma handle_conn_eq:
  "handle_conn up now addr new s = bindE (contact_for_link now addr new s) (\<lambda>(found, s1). case found of
     None \<Rightarrow> Inr s1
   | Some i \<Rightarrow> bindE (contact_of i s1) (\<lambda>(p, c).
       if c_active c \<noteq> up then Inr (on_event (link_event up) p (contact_put p (c\<lparr>c_active := up\<rparr>) s1)) else Inr s1))"
  by (auto simp: handle_conn_def handle_conn_up_def handle_conn_down_def link_event_def split_def cong: option.case_cong if_cong)

lemma put_active_id: "cm_heap s p = Some c \<Longrightarrow> c_active c = up \<Longrightarrow> (cm_heap s)(p \<mapsto> c\<lparr>c_active := up\<rparr>) = cm_heap s"
  by (auto simp: fun_eq_iff)

lemma handle_conn_cases:
  assumes "cm_inv s" "cm_heap s new = None" "contact_count s < 127"
  obtains (known) s' p c where "handle_conn up now addr new s = Inr s'" "cm_inv s'"
      "cm_heap s p = Some c" "n_cla_addr (c_node c) = Some addr" "cm_heap s' = (cm_heap s)(p \<mapsto> c\<lparr>c_active := up\<rparr>)" "cm_ptrs s' = cm_ptrs s"
      "cm_trace s' = cm_trace s @ (if c_active c = up then [] else notices s (link_event up) p)" "cm_cbs s' = cm_cbs s"
  | (added) s' c where "handle_conn up now addr new s = Inr s'" "cm_inv s'"
      "\<forall>q d. cm_heap s q = Some d \<longrightarrow> n_cla_addr (c_node d) \<noteq> Some addr"
      "cm_heap s' = (cm_heap s)(new \<mapsto> c)" "n_cla_addr (c_node c) = Some addr" "n_eid (c_node c) = Some EID_NONE" "c_active c = up"
      "cm_trace s' = cm_trace s @ notices s CONTACT_EVENT_ADDED new @ notices s CONTACT_EVENT_ADDED new
         @ (if up then notices s CONTACT_EVENT_ACTIVE new else [])" "cm_cbs s' = cm_cbs s" "c_to c = now"
proof (cases rule: contact_for_link_cases[OF assms, of now addr])
  case (1 i c)
  let ?p = "cm_ptrs s ! i" and ?c = "c\<lparr>c_active := up\<rparr>"
  have of: "contact_of i s = Inr (?p, c)" using contact_of_ptr[OF assms(1) 1(2)] 1(3) by (metis option.inject)
  have inv: "cm_inv (contact_put ?p ?c s)" using contact_put_same_node[OF assms(1) 1(3)] by simp
  show ?thesis
  proof (cases "c_active c = up")
    case True
    then show ?thesis using 1 of assms(1) put_active_id[OF 1(3)]
      by (intro known[of s ?p c]) (simp_all add: handle_conn_eq)
  next
    case False
    then show ?thesis using 1 of inv
      by (intro known[of "on_event (link_event up) ?p (contact_put ?p ?c s)" ?p c]) (simp_all add: handle_conn_eq notices_def)
  qed
next
  case (2 i s1 c)
  let ?c = "c\<lparr>c_active := up\<rparr>"
  have c: "cm_heap s1 new = Some c" using 2(6) by simp
  have of: "contact_of i s1 = Inr (new, c)" using contact_of_ptr[OF 2(2,3)] 2(4) c by (metis option.inject)
  have inv: "cm_inv (contact_put new ?c s1)" using contact_put_same_node[OF 2(2) c] by simp
  show ?thesis
  proof (cases up)
    case True
    then show ?thesis using 2 of inv
      by (intro added[of "on_event CONTACT_EVENT_ACTIVE new (contact_put new ?c s1)" ?c])
        (simp_all add: handle_conn_eq link_event_def notices_def)
  next
    case False
    then show ?thesis using 2 of by (intro added[of s1 c]) (simp_all add: handle_conn_eq)
  qed
qed


section \<open>Expiry\<close>

lemma refresh_active_Inr:
  assumes "cm_inv s" "k \<le> cm_size s"
  obtains s' where "refresh_active now k s = Inr s'" "cm_inv s'" "cm_ptrs s' = cm_ptrs s" "cm_trace s' = cm_trace s"
    "cm_cbs s' = cm_cbs s" "cm_size s' = cm_size s"
    "\<forall>p. cm_heap s' p = (if p \<in> set (take k (cm_ptrs s))
       then map_option (\<lambda>c. if c_active c then c\<lparr>c_to := max now (c_to c)\<rparr> else c) (cm_heap s p) else cm_heap s p)"
  using assms
proof (induction k arbitrary: s thesis)
  case 0
  then show ?case by simp
next
  case (Suc k)
  let ?p = "cm_ptrs s ! k"
  obtain c where c: "contact_of k s = Inr (?p, c)" "cm_heap s ?p = Some c"
    using contact_of_ptr[of s k] Suc.prems by auto
  define t where "t = (if c_active c then contact_put ?p (c\<lparr>c_to := max now (c_to c)\<rparr>) s else s)"
  have t: "cm_inv t" "cm_ptrs t = cm_ptrs s" "cm_trace t = cm_trace s" "cm_cbs t = cm_cbs s" "cm_size t = cm_size s"
    "cm_heap t = (cm_heap s)(?p \<mapsto> if c_active c then c\<lparr>c_to := max now (c_to c)\<rparr> else c)"
    using Suc.prems(2) contact_put_same_node[OF Suc.prems(2) c(2)] c(2) by (auto simp: t_def)
  obtain s' where s': "refresh_active now k t = Inr s'" "cm_inv s'" "cm_ptrs s' = cm_ptrs t" "cm_trace s' = cm_trace t"
    "cm_cbs s' = cm_cbs t" "cm_size s' = cm_size t"
    "\<forall>p. cm_heap s' p = (if p \<in> set (take k (cm_ptrs t))
       then map_option (\<lambda>c. if c_active c then c\<lparr>c_to := max now (c_to c)\<rparr> else c) (cm_heap t p) else cm_heap t p)"
    using Suc.IH[of t] t(1,5) Suc.prems(3) by auto
  have len: "k < length (cm_ptrs s)" using length_cm_ptrs[OF Suc.prems(2)] Suc.prems(3) by simp
  have "?p \<notin> set (take k (cm_ptrs s))"
    using cm_invD(3)[OF Suc.prems(2)] len by (metis distinct_take id_take_nth_drop not_distinct_conv_prefix take_Suc_conv_app_nth)
  moreover have "set (take (Suc k) (cm_ptrs s)) = Set.insert ?p (set (take k (cm_ptrs s)))" using len by (simp add: take_Suc_conv_app_nth)
  ultimately show ?case
    using Suc.prems(1)[of s'] s' t c by (simp add: t_def[symmetric])
qed

section \<open>What a callback observes\<close>

text \<open>The link states of a contact that a callback was told, in order, and that they alternate.\<close>

fun link_report :: "nat \<Rightarrow> nat \<Rightarrow> cm_out \<Rightarrow> bool option" where
  "link_report f p (Callback g ev q) = (if f = g \<and> p = q then
     (case ev of CONTACT_EVENT_ACTIVE \<Rightarrow> Some True | CONTACT_EVENT_INACTIVE \<Rightarrow> Some False | _ \<Rightarrow> None) else None)"
| "link_report f p _ = None"

definition link_reports :: "nat \<Rightarrow> nat \<Rightarrow> cm_out list \<Rightarrow> bool list" where
  "link_reports f p tr = List.map_filter (link_report f p) tr"

fun alternates :: "bool \<Rightarrow> bool list \<Rightarrow> bool" where
  "alternates b [] = True"
| "alternates b (x # xs) \<longleftrightarrow> x = (\<not> b) \<and> alternates x xs"

definition active_at :: "contact_manager \<Rightarrow> nat \<Rightarrow> bool" where
  "active_at s p = (case cm_heap s p of None \<Rightarrow> False | Some c \<Rightarrow> c_active c)"

definition trace_inv :: "contact_manager \<Rightarrow> bool" where
  "trace_inv s \<longleftrightarrow> distinct (cm_cbs s) \<and> (\<forall>f \<in> set (cm_cbs s). \<forall>p.
     alternates False (link_reports f p (cm_trace s)) \<and> last (False # link_reports f p (cm_trace s)) = active_at s p)"

lemma alternates_snoc: "alternates b (xs @ [y]) \<longleftrightarrow> alternates b xs \<and> y = (\<not> last (b # xs))"
  by (induction xs arbitrary: b) auto

lemma link_reports_append [simp]: "link_reports f p (xs @ ys) = link_reports f p xs @ link_reports f p ys"
  by (simp add: link_reports_def map_filter_def)

lemma link_reports_Callbacks:
  assumes "distinct cbs" "f \<in> set cbs"
  shows "link_reports f p (map (\<lambda>g. Callback g ev q) cbs) = (case link_report f p (Callback f ev q) of None \<Rightarrow> [] | Some b \<Rightarrow> [b])"
  using assms
proof (induction cbs)
  case (Cons g cbs)
  have none: "link_reports f p (map (\<lambda>g. Callback g ev q) cbs) = []" if "f \<notin> set cbs"
    using that by (induction cbs) (auto simp: link_reports_def map_filter_simps)
  show ?case
  proof (cases "f = g")
    case True
    then show ?thesis using Cons.prems none
      by (auto simp: link_reports_def map_filter_simps split: option.splits)
  next
    case False
    then show ?thesis using Cons by (auto simp: link_reports_def map_filter_simps)
  qed
qed simp

lemma trace_inv_cong:
  assumes "trace_inv s" "cm_cbs s' = cm_cbs s" "active_at s' = active_at s" "cm_trace s' = cm_trace s"
  shows "trace_inv s'"
  using assms by (simp add: trace_inv_def)

lemma trace_inv_other:
  assumes "trace_inv s" "cm_cbs s' = cm_cbs s" "active_at s' = active_at s" "cm_trace s' = cm_trace s @ notices s ev p"
    "ev \<noteq> CONTACT_EVENT_ACTIVE" "ev \<noteq> CONTACT_EVENT_INACTIVE"
  shows "trace_inv s'"
proof -
  have "link_reports f q (notices s ev p) = []" if "f \<in> set (cm_cbs s)" for f q
    using assms(1,5,6) that by (cases ev) (simp_all add: notices_def link_reports_Callbacks trace_inv_def)
  then show ?thesis using assms(1-4) by (simp add: trace_inv_def)
qed

lemma trace_inv_link:
  assumes "trace_inv s" "cm_cbs s' = cm_cbs s" "active_at s' = (active_at s)(p := up)" "cm_trace s' = cm_trace s @ notices s (link_event up) p"
    "active_at s p = (\<not> up)"
  shows "trace_inv s'"
proof -
  have rep: "link_reports f q (notices s (link_event up) p) = (if p = q then [up] else [])" if "f \<in> set (cm_cbs s)" for f q
    using assms(1) that by (simp add: notices_def link_reports_Callbacks trace_inv_def link_event_def)
  have "alternates False (link_reports f q (cm_trace s')) \<and> last (False # link_reports f q (cm_trace s')) = active_at s' q"
    if f: "f \<in> set (cm_cbs s)" for f q
  proof -
    have old: "alternates False (link_reports f q (cm_trace s))" "last (False # link_reports f q (cm_trace s)) = active_at s q"
      using assms(1) f by (simp_all only: trace_inv_def)
    have new: "link_reports f q (cm_trace s') = link_reports f q (cm_trace s) @ (if p = q then [up] else [])"
      using rep[OF f] assms(4) by simp
    show ?thesis
    proof (cases "p = q")
      case True
      then show ?thesis using new old assms(3,5) by (auto simp: alternates_snoc split: if_splits)
    next
      case False
      then show ?thesis using new old assms(3) by simp
    qed
  qed
  then show ?thesis using assms(1,2) by (simp add: trace_inv_def)
qed

lemma active_at_put:
  "cm_heap s' = (cm_heap s)(p \<mapsto> c) \<Longrightarrow> active_at s' = (active_at s)(p := c_active c)"
  by (auto simp: active_at_def fun_eq_iff)

lemma active_at_same: "cm_heap s p = Some c \<Longrightarrow> (active_at s)(p := c_active c) = active_at s"
  by (auto simp: active_at_def fun_eq_iff)

lemma active_at_new: "cm_heap s p = None \<Longrightarrow> (active_at s)(p := False) = active_at s"
  by (auto simp: active_at_def fun_eq_iff)

lemma handle_discovered_neighbor_trace:
  assumes "cm_inv s" "trace_inv s" "cm_heap s new = None" "contact_count s < 127" "node_ok nd"
  obtains s' where "handle_discovered_neighbor now nd new s = Inr s'" "cm_inv s'" "trace_inv s'" "cm_cbs s' = cm_cbs s"
proof -
  obtain eid addr where nd: "n_eid nd = Some eid" "n_cla_addr nd = Some addr" using assms(5) by (auto simp: node_ok_def)
  show ?thesis
  proof (cases rule: handle_discovered_neighbor_cases[OF assms(1,3,4) nd, of now])
    case (1 s' p c)
    have "active_at s' = active_at s" using active_at_put[OF 1(4)] active_at_same[OF 1(3)] by simp
    then have "trace_inv s'" using trace_inv_other[OF assms(2) 1(8) _ 1(7)] by simp
    then show ?thesis using that 1 by blast
  next
    case (2 s' c)
    have "active_at s' = active_at s" using active_at_put[OF 2(4)] active_at_new[OF assms(3)] 2(6) by simp
    then have "trace_inv s'" using trace_inv_other[OF assms(2) 2(11) _ 2(10)] by simp
    then show ?thesis using that 2 by blast
  qed
qed

lemma handle_conn_trace:
  assumes "cm_inv s" "trace_inv s" "cm_heap s new = None" "contact_count s < 127"
  obtains s' where "handle_conn up now addr new s = Inr s'" "cm_inv s'" "trace_inv s'" "cm_cbs s' = cm_cbs s"
proof (cases rule: handle_conn_cases[OF assms(1,3,4), of up now addr])
  case (1 s' p c)
  have act: "active_at s p = c_active c" "active_at s' = (active_at s)(p := up)"
    using active_at_put[OF 1(5)] 1(3) by (simp_all add: active_at_def)
  have "trace_inv s'"
  proof (cases "c_active c = up")
    case True
    then have "active_at s' = active_at s" using act by (auto simp: fun_eq_iff)
    then show ?thesis using True trace_inv_cong[OF assms(2) 1(8)] 1(7) by simp
  next
    case False
    then show ?thesis using trace_inv_link[OF assms(2) 1(8) act(2)] 1(7) act(1) by auto
  qed
  then show ?thesis using that 1 by blast
next
  case (2 s' c)
  define t where "t = s\<lparr>cm_trace := cm_trace s @ notices s CONTACT_EVENT_ADDED new\<rparr>"
  define u where "u = t\<lparr>cm_trace := cm_trace t @ notices t CONTACT_EVENT_ADDED new\<rparr>"
  have cbs: "cm_cbs t = cm_cbs s" "cm_cbs u = cm_cbs t" "cm_cbs s' = cm_cbs u" using 2(9) by (simp_all add: t_def u_def cm_cbs_def)
  have act: "active_at t = active_at s" "active_at u = active_at t" by (simp_all add: t_def u_def active_at_def fun_eq_iff)
  have t: "trace_inv t" using trace_inv_other[OF assms(2) cbs(1) act(1)] by (simp add: t_def)
  have u: "trace_inv u" using trace_inv_other[OF t cbs(2) act(2)] by (simp add: u_def)
  have none: "active_at u new = False" using assms(3) by (simp add: act active_at_def)
  have s': "active_at s' = (active_at u)(new := up)" using active_at_put[OF 2(4)] 2(7) act by simp
  have tr: "cm_trace s' = cm_trace u @ (if up then notices u CONTACT_EVENT_ACTIVE new else [])"
    using 2(8) cbs by (simp add: u_def t_def notices_def cm_cbs_def)
  have "trace_inv s'"
  proof (cases up)
    case True
    then show ?thesis using trace_inv_link[OF u cbs(3) s'] tr none by (simp add: link_event_def)
  next
    case False
    then have "active_at s' = active_at u" using s' none by (auto simp: fun_eq_iff)
    then show ?thesis using trace_inv_cong[OF u cbs(3)] tr False by simp
  qed
  then show ?thesis using that 2 by blast
qed

section \<open>Expiry removes what it says\<close>

text \<open>
  While contacts are being removed the table no longer covers the heap: the contacts \<open>R\<close> already
  taken out of it are still allocated.
\<close>

definition cm_inv_with :: "nat list \<Rightarrow> contact_manager \<Rightarrow> bool" where
  "cm_inv_with R s \<longleftrightarrow> length (cm_current_contacts s) = MAX_CONCURRENT_CONTACTS \<and> 0 \<le> contact_count s
     \<and> (\<forall>ci \<in> set (take (cm_size s) (cm_current_contacts s)). ci_contact ci \<noteq> None)
     \<and> distinct (cm_ptrs s @ R) \<and> dom (cm_heap s) = set (cm_ptrs s @ R)
     \<and> (\<forall>p c. cm_heap s p = Some c \<longrightarrow> node_ok (c_node c)) \<and> eids_distinct (cm_heap s)
     \<and> cm_allocs s = []"

lemma cm_inv_with_Nil: "cm_inv s \<longleftrightarrow> cm_inv_with [] s"
  by (simp add: cm_inv_def cm_inv_with_def)

lemma cm_inv_withD:
  assumes "cm_inv_with R s"
  shows "cm_size s \<le> length (cm_current_contacts s)" "length (cm_ptrs s) = cm_size s" "distinct (cm_ptrs s @ R)"
    "dom (cm_heap s) = set (cm_ptrs s @ R)" "cm_size s < length (cm_current_contacts s)" "contact_count s = int (cm_size s)"
  using assms cm_size_less[of s] by (auto simp: cm_inv_with_def cm_ptrs_def MAX_CONCURRENT_CONTACTS_def cm_size_def)

lemma contact_of_with:
  assumes "cm_inv_with R s" "i < cm_size s"
  obtains c where "contact_of i s = Inr (cm_ptrs s ! i, c)" "cm_heap s (cm_ptrs s ! i) = Some c"
    "ci_contact (cm_current_contacts s ! i) = Some (cm_ptrs s ! i)"
proof -
  note d = cm_inv_withD[OF assms(1)]
  have "cm_current_contacts s ! i \<in> set (take (cm_size s) (cm_current_contacts s))"
    using assms(2) d(1) by (force simp: in_set_conv_nth)
  then obtain p where p: "ci_contact (cm_current_contacts s ! i) = Some p" using assms(1) by (auto simp: cm_inv_with_def)
  then have "p = cm_ptrs s ! i" using assms(2) d(1) by (auto simp: cm_ptrs_def)
  moreover have "cm_ptrs s ! i \<in> dom (cm_heap s)" using assms(2) d(2,4) by auto
  ultimately show ?thesis using p assms(2) d(1) that by (auto simp: contact_of_def info_at_def contact_deref_def)
qed

lemma close_gap_eq:
  "c \<le> n \<Longrightarrow> n < length xs \<Longrightarrow> close_gap c n xs = Inr (take c xs @ take (n - c) (drop (c + 1) xs) @ drop n xs)"
proof (induction c n xs rule: close_gap.induct)
  case (1 c n xs)
  show ?case
  proof (cases "c < n")
    case True
    then have "close_gap c n xs = close_gap (c + 1) n (xs[c := xs ! (c + 1)])" using 1(3) by (subst close_gap.simps) simp
    also have "\<dots> = Inr (take (c + 1) (xs[c := xs ! (c + 1)]) @ take (n - (c + 1)) (drop (c + 1 + 1) (xs[c := xs ! (c + 1)]))
        @ drop n (xs[c := xs ! (c + 1)]))"
      using 1(1)[OF True] 1(3) True by simp
    also have "\<dots> = Inr (take c xs @ (xs ! (c + 1) # take (n - (c + 1)) (drop (c + 1 + 1) xs)) @ drop n xs)"
      using True 1(3) by (simp add: take_Suc_conv_app_nth)
    also have "xs ! (c + 1) # take (n - (c + 1)) (drop (c + 1 + 1) xs) = take (n - c) (drop (c + 1) xs)"
      using True 1(3) by (subst Cons_nth_drop_Suc[symmetric, of "c + 1" xs]) (auto simp: Suc_diff_Suc[symmetric] take_Cons')
    finally show ?thesis .
  next
    case False
    then show ?thesis using 1(2) by (subst close_gap.simps) simp
  qed
qed

lemma gap_take:
  assumes "i < n" "n < length xs"
  shows "take (n - 1) (take i xs @ take (n - i) (drop (i + 1) xs) @ drop n xs) = take i (take n xs) @ drop (Suc i) (take n xs)"
    "i = n - 1 \<Longrightarrow> take (n - 1) xs = take i (take n xs) @ drop (Suc i) (take n xs)"
proof -
  have "n - 1 - i \<le> n - i" by simp
  then have "take (n - 1 - i) (take (n - i) (drop (i + 1) xs) @ drop n xs) = take (n - 1 - i) (drop (i + 1) xs)"
    using assms by (simp add: min_absorb1)
  then show "take (n - 1) (take i xs @ take (n - i) (drop (i + 1) xs) @ drop n xs) = take i (take n xs) @ drop (Suc i) (take n xs)"
    using assms by (simp add: drop_take min_absorb1 min_absorb2)
  show "take (n - 1) xs = take i (take n xs) @ drop (Suc i) (take n xs)" if "i = n - 1"
    using assms that by (simp add: drop_take min_absorb1)
qed

text \<open>Taking one contact out of the table.\<close>

lemma remove_contact_at_Inr:
  assumes "cm_inv_with R s" "trace_inv s" "i < cm_size s" "cm_heap s (cm_ptrs s ! i) = Some c"
  obtains s' where "remove_contact_at i (cm_ptrs s ! i) c s = Inr s'" "cm_inv_with (R @ [cm_ptrs s ! i]) s'" "trace_inv s'"
    "cm_ptrs s' = take i (cm_ptrs s) @ drop (Suc i) (cm_ptrs s)" "cm_heap s' = (cm_heap s)(cm_ptrs s ! i \<mapsto> c\<lparr>c_active := False\<rparr>)"
    "cm_cbs s' = cm_cbs s" "Suc (cm_size s') = cm_size s"
proof -
  let ?p = "cm_ptrs s ! i" and ?xs = "cm_current_contacts s" and ?n = "cm_size s"
  note d = cm_inv_withD[OF assms(1)]
  define s1 where "s1 = (if c_active c then on_event CONTACT_EVENT_INACTIVE ?p (contact_put ?p (c\<lparr>c_active := False\<rparr>) s) else s)"
  define s2 where "s2 = on_event CONTACT_EVENT_REMOVED ?p s1"
  have s1: "cm_heap s1 = (cm_heap s)(?p \<mapsto> c\<lparr>c_active := False\<rparr>)" "cm_current_contacts s1 = ?xs" "cm_allocs s1 = cm_allocs s"
    "cm_cbs s1 = cm_cbs s" "trace_inv s1"
  proof -
    show "cm_heap s1 = (cm_heap s)(?p \<mapsto> c\<lparr>c_active := False\<rparr>)" using put_active_id[OF assms(4), of False] by (simp add: s1_def)
    show "trace_inv s1"
    proof (cases "c_active c")
      case True
      have "active_at s1 = (active_at s)(?p := False)" using True by (auto simp: s1_def active_at_def fun_eq_iff)
      moreover have "cm_trace s1 = cm_trace s @ notices s (link_event False) ?p" using True by (simp add: s1_def link_event_def notices_def)
      ultimately show ?thesis using trace_inv_link[OF assms(2)] True assms(4) by (simp add: s1_def active_at_def)
    next
      case False
      then show ?thesis using assms(2) by (simp add: s1_def)
    qed
  qed (simp_all add: s1_def)
  define ys where "ys = take i ?xs @ take (?n - i) (drop (i + 1) ?xs) @ drop ?n ?xs"
  define zs where "zs = (if i \<noteq> ?n - 1 then ys else ?xs)"
  define s' where "s' = s2\<lparr>cm_current_contacts := zs, cm_current_contact_count := cm_current_contact_count s - 1\<rparr>"
  have gap: "close_gap i ?n ?xs = Inr ys" using close_gap_eq[of i ?n ?xs] assms(3) d(5) by (simp add: ys_def)
  have s2x: "cm_current_contacts s2 = ?xs" using s1(2) by (simp add: s2_def)
  have run: "remove_contact_at i ?p c s = Inr s'"
    unfolding remove_contact_at_def Let_def s1_def[symmetric] s2_def[symmetric] cm_size_def[symmetric]
    by (simp add: s2x gap s'_def zs_def)
  have "0 < sint (cm_current_contact_count s)" using assms(3) d(6) unfolding contact_count_def by linarith
  then have "contact_count s' = contact_count s - 1"
    using contact_count_dec[of "cm_current_contact_count s"] by (simp add: contact_count_def s'_def)
  then have c': "contact_count s' = int ?n - 1" using d(6) by simp
  have sz: "cm_size s' = ?n - 1" and cnt: "0 \<le> contact_count s'" using assms(3) unfolding cm_size_def[of s'] c' by linarith+
  have tk: "take (?n - 1) zs = take i (take ?n ?xs) @ drop (Suc i) (take ?n ?xs)"
    using gap_take[OF assms(3) d(5)] unfolding zs_def ys_def by (cases "i = ?n - 1") (simp_all only: if_True if_False not_True_eq_False simp_thms)
  have len: "length zs = length ?xs" using assms(3) d(5) by (auto simp: zs_def ys_def)
  have ptrs: "cm_ptrs s' = take i (cm_ptrs s) @ drop (Suc i) (cm_ptrs s)"
    unfolding cm_ptrs_def sz using tk by (simp add: s'_def take_map drop_map)
  have split: "cm_ptrs s = take i (cm_ptrs s) @ ?p # drop (Suc i) (cm_ptrs s)" using assms(3) d(2) by (simp add: id_take_nth_drop)
  have "set (take (?n - 1) zs) \<subseteq> set (take ?n ?xs)" unfolding tk set_append
    by (rule Un_least[OF set_take_subset set_drop_subset])
  moreover have "eids_distinct ((cm_heap s)(?p \<mapsto> c\<lparr>c_active := False\<rparr>))"
    using assms(1,4) unfolding cm_inv_with_def eids_distinct_def by (auto split: if_splits)
  moreover have "distinct (cm_ptrs s' @ R @ [?p])" "set (cm_ptrs s' @ R @ [?p]) = set (cm_ptrs s @ R)"
    using d(3) by (subst (asm) split; simp add: ptrs) (subst split, auto simp: ptrs)
  ultimately have "cm_inv_with (R @ [?p]) s'"
    using assms(1,4) s1 len cnt d(4) unfolding cm_inv_with_def sz by (auto simp: s'_def s2_def)
  moreover have "trace_inv s'"
  proof (rule trace_inv_other[OF s1(5)])
    show "cm_trace s' = cm_trace s1 @ notices s1 CONTACT_EVENT_REMOVED ?p" by (simp add: s'_def s2_def)
  qed (simp_all add: s'_def s2_def cm_cbs_def active_at_def fun_eq_iff)
  ultimately show ?thesis
    using that[OF run] ptrs s1(1,4) sz assms(3) by (simp add: s'_def s2_def cm_cbs_def)
qed


definition expired_ptr :: "u64 \<Rightarrow> contact_manager \<Rightarrow> nat \<Rightarrow> bool" where
  "expired_ptr timeout s p \<longleftrightarrow> (\<forall>c. cm_heap s p = Some c \<longrightarrow> c_to c \<le> timeout)"

lemma remove_loop_Inr:
  assumes "cm_inv_with R s" "trace_inv s" "k \<le> cm_size s" "map ci_contact removed = map Some R" "\<forall>p \<in> set R. \<not> active_at s p"
  obtains removed' R' s' where "remove_loop timeout k removed s = Inr (removed', s')" "cm_inv_with R' s'" "trace_inv s'"
    "R' = R @ rev (filter (expired_ptr timeout s) (take k (cm_ptrs s)))" "map ci_contact removed' = map Some R'"
    "cm_ptrs s' = filter (\<lambda>p. \<not> expired_ptr timeout s p) (take k (cm_ptrs s)) @ drop k (cm_ptrs s)"
    "cm_cbs s' = cm_cbs s" "\<forall>p \<in> set R'. \<not> active_at s' p" "\<forall>p. p \<notin> set R' \<longrightarrow> cm_heap s' p = cm_heap s p"
  using assms
proof (induction k arbitrary: R s removed thesis)
  case 0
  show ?case by (rule 0(1)[of removed s R]) (use 0(2-6) in simp_all)
next
  case (Suc k)
  let ?p = "cm_ptrs s ! k" and ?e = "expired_ptr timeout s"
  have k: "k < cm_size s" "k < length (cm_ptrs s)" using Suc.prems(4) cm_inv_withD(2)[OF Suc.prems(2)] by simp_all
  obtain c where c: "contact_of k s = Inr (?p, c)" "cm_heap s ?p = Some c" "ci_contact (cm_current_contacts s ! k) = Some ?p"
    by (rule contact_of_with[OF Suc.prems(2) k(1)])
  have tk: "take (Suc k) (cm_ptrs s) = take k (cm_ptrs s) @ [?p]" using k(2) by (simp add: take_Suc_conv_app_nth)
  have dr: "drop k (cm_ptrs s) = ?p # drop (Suc k) (cm_ptrs s)" using k(2) by (simp add: Cons_nth_drop_Suc)
  show ?case
  proof (cases "c_to c \<le> timeout")
    case False
    then have e: "\<not> ?e ?p" using c(2) by (simp add: expired_ptr_def)
    have run: "remove_loop timeout (Suc k) removed s = remove_loop timeout k removed s" using c(1) False by simp
    obtain removed' R' s' where r: "remove_loop timeout k removed s = Inr (removed', s')" "cm_inv_with R' s'" "trace_inv s'"
      "R' = R @ rev (filter ?e (take k (cm_ptrs s)))" "map ci_contact removed' = map Some R'"
      "cm_ptrs s' = filter (\<lambda>p. \<not> ?e p) (take k (cm_ptrs s)) @ drop k (cm_ptrs s)"
      "cm_cbs s' = cm_cbs s" "\<forall>p \<in> set R'. \<not> active_at s' p" "\<forall>p. p \<notin> set R' \<longrightarrow> cm_heap s' p = cm_heap s p"
      using Suc.IH[OF _ Suc.prems(2,3) _ Suc.prems(5,6)] k(1) by auto
    show ?thesis
    proof (rule Suc.prems(1))
      show "remove_loop timeout (Suc k) removed s = Inr (removed', s')" using run r(1) by simp
      show "R' = R @ rev (filter ?e (take (Suc k) (cm_ptrs s)))" using r(4) e tk by simp
      show "cm_ptrs s' = filter (\<lambda>p. \<not> ?e p) (take (Suc k) (cm_ptrs s)) @ drop (Suc k) (cm_ptrs s)" using r(6) e tk dr by simp
    qed (use r in simp_all)
  next
    case True
    then have e: "?e ?p" using c(2) by (simp add: expired_ptr_def)
    obtain t where t: "remove_contact_at k ?p c s = Inr t" "cm_inv_with (R @ [?p]) t" "trace_inv t"
      "cm_ptrs t = take k (cm_ptrs s) @ drop (Suc k) (cm_ptrs s)" "cm_heap t = (cm_heap s)(?p \<mapsto> c\<lparr>c_active := False\<rparr>)"
      "cm_cbs t = cm_cbs s" "Suc (cm_size t) = cm_size s"
      by (rule remove_contact_at_Inr[OF Suc.prems(2,3) k(1) c(2)])
    have run: "remove_loop timeout (Suc k) removed s = remove_loop timeout k (removed @ [cm_current_contacts s ! k]) t"
      using c(1) True t(1) by simp
    have e': "expired_ptr timeout t = ?e" using c(2) t(5) by (auto simp: expired_ptr_def fun_eq_iff)
    have act: "\<forall>p \<in> set (R @ [?p]). \<not> active_at t p" using Suc.prems(6) t(5) by (auto simp: active_at_def)
    have tk': "take k (cm_ptrs t) = take k (cm_ptrs s)" "drop k (cm_ptrs t) = drop (Suc k) (cm_ptrs s)" using k(2) t(4) by simp_all
    have rem: "map ci_contact (removed @ [cm_current_contacts s ! k]) = map Some (R @ [?p])" using Suc.prems(5) c(3) by simp
    obtain removed' R' s' where r: "remove_loop timeout k (removed @ [cm_current_contacts s ! k]) t = Inr (removed', s')" "cm_inv_with R' s'" "trace_inv s'"
      "R' = (R @ [?p]) @ rev (filter (expired_ptr timeout t) (take k (cm_ptrs t)))" "map ci_contact removed' = map Some R'"
      "cm_ptrs s' = filter (\<lambda>p. \<not> expired_ptr timeout t p) (take k (cm_ptrs t)) @ drop k (cm_ptrs t)"
      "cm_cbs s' = cm_cbs t" "\<forall>p \<in> set R'. \<not> active_at s' p" "\<forall>p. p \<notin> set R' \<longrightarrow> cm_heap s' p = cm_heap t p"
      using Suc.IH[OF _ t(2,3) _ rem act] t(7) k(1) by auto
    show ?thesis
    proof (rule Suc.prems(1))
      show "remove_loop timeout (Suc k) removed s = Inr (removed', s')" using run r(1) by simp
      show "R' = R @ rev (filter ?e (take (Suc k) (cm_ptrs s)))" using r(4) e e' tk tk' by simp
      show "cm_ptrs s' = filter (\<lambda>p. \<not> ?e p) (take (Suc k) (cm_ptrs s)) @ drop (Suc k) (cm_ptrs s)" using r(6) e e' tk tk' by simp
      show "\<forall>p. p \<notin> set R' \<longrightarrow> cm_heap s' p = cm_heap s p" using r(4,9) t(5) by auto
    qed (use r t in simp_all)
  qed
qed

lemma free_one:
  assumes "cm_inv_with (p # R) s" "trace_inv s" "\<forall>q \<in> set (p # R). \<not> active_at s q"
  obtains c where "cm_heap s p = Some c" "\<not> c_active c"
    "cm_inv_with R (s\<lparr>cm_heap := (cm_heap s)(p := None)\<rparr>)" "trace_inv (s\<lparr>cm_heap := (cm_heap s)(p := None)\<rparr>)"
    "active_at (s\<lparr>cm_heap := (cm_heap s)(p := None)\<rparr>) = active_at s"
proof -
  let ?t = "s\<lparr>cm_heap := (cm_heap s)(p := None)\<rparr>"
  have tab: "cm_ptrs ?t = cm_ptrs s" "cm_size ?t = cm_size s" "contact_count ?t = contact_count s" by (rule cm_table_cong; simp)+
  obtain c where c: "cm_heap s p = Some c" using cm_inv_withD(4)[OF assms(1)] by auto
  have act: "active_at ?t = active_at s" using assms(3) by (auto simp: active_at_def fun_eq_iff)
  have p: "p \<notin> set (cm_ptrs s @ R)" using cm_inv_withD(3)[OF assms(1)] by auto
  have "eids_distinct (cm_heap ?t)" using assms(1) unfolding cm_inv_with_def eids_distinct_def by (auto split: if_splits)
  then have "cm_inv_with R ?t" using assms(1) p unfolding cm_inv_with_def tab by auto
  moreover have "trace_inv ?t" using trace_inv_cong[OF assms(2) _ act] by (simp add: cm_cbs_def)
  moreover have "\<not> c_active c" using assms(3) c by (auto simp: active_at_def)
  ultimately show ?thesis using that c act by blast
qed

lemma link_reports_EndScheduled [simp]: "link_reports f p [] = []" "link_reports f p [EndScheduledContact cla e a] = []" "link_reports f p [TxPush cla e a rb] = []"
  by (simp_all add: link_reports_def map_filter_simps)

definition add_trace :: "cm_out list \<Rightarrow> contact_manager \<Rightarrow> contact_manager" where
  "add_trace out s = s\<lparr>cm_trace := cm_trace s @ out\<rparr>"

lemma add_trace_simps [simp]:
  "cm_heap (add_trace out s) = cm_heap s" "cm_ptrs (add_trace out s) = cm_ptrs s" "cm_cbs (add_trace out s) = cm_cbs s"
  "cm_size (add_trace out s) = cm_size s" "contact_count (add_trace out s) = contact_count s"
  "cm_inv_with R (add_trace out s) = cm_inv_with R s" "active_at (add_trace out s) = active_at s"
  by (simp_all add: add_trace_def cm_ptrs_def cm_cbs_def cm_size_def contact_count_def cm_inv_with_def active_at_def fun_eq_iff)

lemma trace_inv_add_trace: "trace_inv s \<Longrightarrow> (\<And>f p. link_reports f p out = []) \<Longrightarrow> trace_inv (add_trace out s)"
  unfolding trace_inv_def by (simp add: add_trace_def cm_cbs_def active_at_def)

lemma free_removed_Inr:
  assumes "cm_inv_with R s" "trace_inv s" "\<forall>q \<in> set R. \<not> active_at s q" "map ci_contact removed = map Some R"
  obtains s' where "free_removed removed s = Inr s'" "cm_inv_with [] s'" "trace_inv s'" "cm_ptrs s' = cm_ptrs s" "cm_cbs s' = cm_cbs s"
    "\<forall>p. cm_heap s' p = (if p \<in> set R then None else cm_heap s p)"
  using assms
proof (induction removed arbitrary: R s thesis)
  case Nil
  show ?case by (rule Nil(1)[of s]) (use Nil(2-5) in simp_all)
next
  case (Cons ci removed)
  obtain p R1 where R: "R = p # R1" "ci_contact ci = Some p" "map ci_contact removed = map Some R1"
    using Cons.prems(5) by (cases R) auto
  define out where "out = (\<lambda>c :: contact. case ci_cla_conf ci of None \<Rightarrow> [] | Some cla \<Rightarrow> [EndScheduledContact cla (n_eid (c_node c)) (n_cla_addr (c_node c))])"
  let ?t = "\<lambda>c. add_trace (out c) s"
  have t: "cm_inv_with (p # R1) (?t c)" "trace_inv (?t c)" "\<forall>q \<in> set (p # R1). \<not> active_at (?t c) q" for c
    using Cons.prems(2-4) R(1) trace_inv_add_trace[of s "out c"] by (auto simp: out_def split: option.splits)
  obtain c where c: "cm_heap s p = Some c" using free_one[OF t] by auto
  obtain d where d: "cm_heap (?t c) p = Some d" "\<not> c_active d" "cm_inv_with R1 ((?t c)\<lparr>cm_heap := (cm_heap (?t c))(p := None)\<rparr>)"
    "trace_inv ((?t c)\<lparr>cm_heap := (cm_heap (?t c))(p := None)\<rparr>)" "active_at ((?t c)\<lparr>cm_heap := (cm_heap (?t c))(p := None)\<rparr>) = active_at (?t c)"
    by (rule free_one[OF t[of c]])
  define u where "u = (?t c)\<lparr>cm_heap := (cm_heap (?t c))(p := None)\<rparr>"
  have run: "free_removed (ci # removed) s = free_removed removed u"
    using c d(1,2) R(2) by (auto simp: contact_deref_def free_contact_def u_def out_def add_trace_def split: option.splits)
  have u: "cm_ptrs u = cm_ptrs s" "cm_cbs u = cm_cbs s" by (simp_all add: u_def cm_ptrs_def cm_size_def contact_count_def cm_cbs_def add_trace_def)
  have act: "\<forall>q \<in> set R1. \<not> active_at u q" using t(3)[of c] d(5) by (simp add: u_def)
  obtain s' where s': "free_removed removed u = Inr s'" "cm_inv_with [] s'" "trace_inv s'" "cm_ptrs s' = cm_ptrs u" "cm_cbs s' = cm_cbs u"
    "\<forall>p. cm_heap s' p = (if p \<in> set R1 then None else cm_heap u p)"
    using Cons.IH[OF _ d(3)[folded u_def] d(4)[folded u_def] act R(3)] by blast
  show ?case by (rule Cons.prems(1)[of s']) (use run u s' R(1) in \<open>auto simp: u_def\<close>)
qed

text \<open>The time a contact counts as seen at, once the active ones have been refreshed.\<close>

definition last_seen :: "u64 \<Rightarrow> contact \<Rightarrow> u64" where
  "last_seen now c = (if c_active c then max now (c_to c) else c_to c)"

definition expires :: "u64 \<Rightarrow> contact_manager \<Rightarrow> nat \<Rightarrow> bool" where
  "expires now s p \<longleftrightarrow> (\<forall>c. cm_heap s p = Some c \<longrightarrow> last_seen now c \<le> now + CONFIG_CONTACT_TIMEOUT_S)"

lemma remove_and_free_Inr:
  assumes "cm_inv s" "trace_inv s"
  obtains s' where "remove_and_free_expired_contacts now s = Inr (of_nat (length (filter (expires now s) (cm_ptrs s))), s')"
    "cm_inv s'" "trace_inv s'" "cm_ptrs s' = filter (\<lambda>p. \<not> expires now s p) (cm_ptrs s)" "cm_cbs s' = cm_cbs s"
    "\<forall>p. cm_heap s' p = (if expires now s p then None else map_option (\<lambda>c. c\<lparr>c_to := last_seen now c\<rparr>) (cm_heap s p))"
proof -
  let ?f = "\<lambda>c. if c_active c then c\<lparr>c_to := max now (c_to c)\<rparr> else c"
  obtain t where t: "refresh_active now (cm_size s) s = Inr t" "cm_inv t" "cm_ptrs t = cm_ptrs s" "cm_trace t = cm_trace s"
    "cm_cbs t = cm_cbs s" "cm_size t = cm_size s"
    "\<forall>p. cm_heap t p = (if p \<in> set (take (cm_size s) (cm_ptrs s)) then map_option ?f (cm_heap s p) else cm_heap s p)"
    by (rule refresh_active_Inr[OF assms(1) order.refl])
  have len: "length (cm_ptrs s) = cm_size s" by (rule length_cm_ptrs[OF assms(1)])
  have f: "?f c = c\<lparr>c_to := last_seen now c\<rparr>" for c by (simp add: last_seen_def)
  have heap: "cm_heap t p = map_option ?f (cm_heap s p)" for p
  proof (cases "p \<in> set (cm_ptrs s)")
    case True
    then show ?thesis using t(7) len by simp
  next
    case False
    then have "cm_heap s p = None" using cm_invD(4)[OF assms(1)] by (metis domIff)
    then show ?thesis using t(7) by simp
  qed
  have act: "active_at t = active_at s" by (auto simp: active_at_def fun_eq_iff heap split: option.splits)
  have ti: "trace_inv t" by (rule trace_inv_cong[OF assms(2) t(5) act t(4)])
  have e: "expired_ptr (now + CONFIG_CONTACT_TIMEOUT_S) t = expires now s"
    by (auto simp: expired_ptr_def expires_def last_seen_def fun_eq_iff heap split: if_splits)
  have none: "map ci_contact [] = map Some ([] :: nat list)" "\<forall>p \<in> set []. \<not> active_at t p" by simp_all
  obtain removed R u where u: "remove_loop (now + CONFIG_CONTACT_TIMEOUT_S) (cm_size t) [] t = Inr (removed, u)" "cm_inv_with R u" "trace_inv u"
    "R = [] @ rev (filter (expired_ptr (now + CONFIG_CONTACT_TIMEOUT_S) t) (take (cm_size t) (cm_ptrs t)))" "map ci_contact removed = map Some R"
    "cm_ptrs u = filter (\<lambda>p. \<not> expired_ptr (now + CONFIG_CONTACT_TIMEOUT_S) t p) (take (cm_size t) (cm_ptrs t)) @ drop (cm_size t) (cm_ptrs t)"
    "cm_cbs u = cm_cbs t" "\<forall>p \<in> set R. \<not> active_at u p" "\<forall>p. p \<notin> set R \<longrightarrow> cm_heap u p = cm_heap t p"
    by (rule remove_loop_Inr[OF t(2)[unfolded cm_inv_with_Nil] ti order.refl none])
  have R: "R = rev (filter (expires now s) (cm_ptrs s))" using u(4) len e t(3,6) by simp
  obtain s' where s': "free_removed removed u = Inr s'" "cm_inv_with [] s'" "trace_inv s'" "cm_ptrs s' = cm_ptrs u" "cm_cbs s' = cm_cbs u"
    "\<forall>p. cm_heap s' p = (if p \<in> set R then None else cm_heap u p)"
    by (rule free_removed_Inr[OF u(2,3,8,5)])
  have "length removed = length R" using u(5) by (metis length_map)
  then have "remove_and_free_expired_contacts now s = Inr (of_nat (length (filter (expires now s) (cm_ptrs s))), s')"
    using t(1) u(1) s'(1) R unfolding remove_and_free_expired_contacts_def remove_expired_contacts_def cm_size_def[symmetric] by simp
  moreover have "cm_heap s' p = (if expires now s p then None else map_option (\<lambda>c. c\<lparr>c_to := last_seen now c\<rparr>) (cm_heap s p))" for p
  proof (cases "cm_heap s p")
    case None
    then have "p \<notin> set R" using cm_invD(4)[OF assms(1)] R by (auto simp: domIff[symmetric])
    then show ?thesis using None s'(6) u(9) heap[of p] by simp
  next
    case (Some c)
    then have "p \<in> set (cm_ptrs s)" using cm_invD(4)[OF assms(1)] by blast
    then have "p \<in> set R \<longleftrightarrow> expires now s p" using R by simp
    then show ?thesis using Some s'(6) u(9) heap[of p] by (simp add: f)
  qed
  ultimately show ?thesis
    using that s' u(6,7) t(3,5,6) len e by (simp add: cm_inv_with_Nil)
qed

section \<open>Sending\<close>

lemma set_cla_conf:
  fixes x
  assumes "cm_inv s" "i < cm_size s"
  defines "t \<equiv> s\<lparr>cm_current_contacts := (cm_current_contacts s)[i := (cm_current_contacts s ! i)\<lparr>ci_cla_conf := x\<rparr>]\<rparr>"
  shows "cm_inv t" "cm_ptrs t = cm_ptrs s" "cm_heap t = cm_heap s" "cm_trace t = cm_trace s" "cm_cbs t = cm_cbs s" "cm_allocs t = []"
proof -
  let ?xs = "cm_current_contacts s"
  have i: "i < length ?xs" using assms(2) cm_size_le[OF assms(1)] by simp
  have sz: "cm_size t = cm_size s" "contact_count t = contact_count s" by (simp_all add: t_def cm_size_def contact_count_def)
  have "map ci_contact (?xs[i := (?xs ! i)\<lparr>ci_cla_conf := x\<rparr>]) = map ci_contact ?xs"
    using i by (simp add: map_update) (metis list_update_id nth_map)
  then have m: "map ci_contact (take (cm_size s) (cm_current_contacts t)) = map ci_contact (take (cm_size s) ?xs)"
    by (simp add: t_def take_map[symmetric])
  then show ptrs: "cm_ptrs t = cm_ptrs s" by (simp add: cm_ptrs_def sz map_map[symmetric] del: map_map)
  have "ci_contact ` set (take (cm_size s) (cm_current_contacts t)) = ci_contact ` set (take (cm_size s) ?xs)"
    using m by (metis list.set_map)
  then have "\<forall>ci \<in> set (take (cm_size s) (cm_current_contacts t)). ci_contact ci \<noteq> None"
    using assms(1) unfolding cm_inv_def by (metis (no_types, lifting) image_iff)
  then show "cm_inv t" using assms(1) unfolding cm_inv_def ptrs sz by (simp add: t_def)
  show "cm_heap t = cm_heap s" "cm_trace t = cm_trace s" "cm_cbs t = cm_cbs s" "cm_allocs t = []"
    using cm_invD(7)[OF assms(1)] by (simp_all add: t_def cm_cbs_def)
qed

text \<open>The node a bundle is addressed to: the endpoint of routing information is reduced to its node.\<close>

definition send_eid :: "routed_bundle \<Rightarrow> eid" where
  "send_eid rb = (if routing_agent_is_info_bundle (rb_destination rb)
     then (case strstr (rb_destination rb) (''/'' @ ROUTING_AGENT_SINK_PREFIX) of None \<Rightarrow> rb_destination rb | Some pos \<Rightarrow> take pos (rb_destination rb))
     else rb_destination rb)"

lemma send_destination_Inr: "cm_allocs s = [] \<Longrightarrow> send_destination rb s = Inr (send_eid rb, s)"
  by (cases s) (auto simp: send_destination_def send_eid_def routing_agent_create_eid_from_info_bundle_eid_def)

lemma cm_push_Inr:
  assumes "cm_allocs s = []"
  shows "cm_push env rb cla nd s = (if cla_has_tx_queue env cla (n_eid nd) (n_cla_addr nd) \<and> cla_push_ok env
    then Inr (UD3TN_OK, add_trace [TxPush cla (n_eid nd) (n_cla_addr nd) rb] s) else Inr (UD3TN_FAIL, s))"
  using assms by (cases s) (auto simp: cm_push_def add_trace_def)

text \<open>
  A send reaches exactly the neighbour that carries the destination EID. The convergence layer configured for
  the neighbour is looked up on first use and kept.
\<close>

lemma try_to_send_cases:
  assumes "cm_inv s" "trace_inv s" "\<forall>a. cla_config_get env a \<noteq> None" "cla_sem_ok env"
  obtains (unknown) "contact_manager_try_to_send_bundle env rb s = Inr (UD3TN_FAIL, s)"
      "send_eid rb = EID_NONE \<or> (\<forall>p c. cm_heap s p = Some c \<longrightarrow> n_eid (c_node c) \<noteq> Some (send_eid rb))"
  | (neighbour) p c cla s' res where "contact_manager_try_to_send_bundle env rb s = Inr (res, s')" "cm_inv s'" "trace_inv s'"
      "cm_heap s' = cm_heap s" "cm_heap s p = Some c" "n_eid (c_node c) = Some (send_eid rb)" "send_eid rb \<noteq> EID_NONE"
      "res = (if cla_has_tx_queue env cla (n_eid (c_node c)) (n_cla_addr (c_node c)) \<and> cla_push_ok env then UD3TN_OK else UD3TN_FAIL)"
      "cm_trace s' = cm_trace s @ (if res = UD3TN_OK then [TxPush cla (Some (send_eid rb)) (n_cla_addr (c_node c)) rb] else [])"
      "cm_cbs s' = cm_cbs s"
proof (cases rule: find_by_eid[OF assms(1), of "send_eid rb"])
  case 1
  then show ?thesis using assms(4) cm_invD(7)[OF assms(1)]
    by (intro unknown) (auto simp: contact_manager_try_to_send_bundle_def cm_try_to_send_bundle_def send_destination_Inr)
next
  case (2 i c)
  let ?ci = "cm_current_contacts s ! i" and ?p = "cm_ptrs s ! i"
  obtain addr where addr: "n_cla_addr (c_node c) = Some addr" using cm_invD(5)[OF assms(1) 2(4)] by (auto simp: node_ok_def)
  define conf where "conf = (case ci_cla_conf ?ci of None \<Rightarrow> cla_config_get env addr | x \<Rightarrow> x)"
  obtain cla where cla: "conf = Some cla" using assms(3) by (cases "ci_cla_conf ?ci") (auto simp: conf_def)
  define t where "t = s\<lparr>cm_current_contacts := (cm_current_contacts s)[i := ?ci\<lparr>ci_cla_conf := conf\<rparr>]\<rparr>"
  note t = set_cla_conf[OF assms(1) 2(2), of conf, folded t_def]
  have info: "info_at i s = Inr ?ci" using 2(2) cm_size_le[OF assms(1)] by (simp add: info_at_def)
  have of: "contact_of i s = Inr (?p, c)" using contact_of_ptr[OF assms(1) 2(2)] 2(4) by (metis option.inject)
  have act: "active_at t = active_at s" using t(3) by (simp add: active_at_def fun_eq_iff)
  have ti: "trace_inv t" by (rule trace_inv_cong[OF assms(2) t(5) act t(4)])
  have run: "contact_manager_try_to_send_bundle env rb s = cm_push env rb cla (c_node c) t"
    using assms(4) 2(1) info of addr cla cm_invD(7)[OF assms(1)]
    by (simp add: contact_manager_try_to_send_bundle_def cm_try_to_send_bundle_def send_destination_Inr Let_def conf_def[symmetric] t_def)
  let ?ok = "cla_has_tx_queue env cla (n_eid (c_node c)) (n_cla_addr (c_node c)) \<and> cla_push_ok env"
  let ?push = "[TxPush cla (n_eid (c_node c)) (n_cla_addr (c_node c)) rb]"
  show ?thesis
  proof (cases ?ok)
    case True
    have "trace_inv (add_trace ?push t)" by (rule trace_inv_add_trace[OF ti]) simp
    then show ?thesis using True 2 run t
      by (intro neighbour[of UD3TN_OK "add_trace ?push t" ?p c cla]) (simp_all add: cm_push_Inr cm_inv_with_Nil, simp add: add_trace_def)
  next
    case False
    then show ?thesis using 2 run t ti by (intro neighbour[of UD3TN_FAIL t ?p c cla]) (auto simp: cm_push_Inr)
  qed
qed

section \<open>Reachable states\<close>

definition register_callbacks :: "nat list \<Rightarrow> contact_manager \<Rightarrow> contact_manager" where
  "register_callbacks cbs s = foldl (\<lambda>s f. contact_manager_add_event_callback (Some f) s) s cbs"

inductive cm_reach :: "nat list \<Rightarrow> contact_manager \<Rightarrow> bool" for cbs where
  init: "distinct cbs \<Longrightarrow> length cbs \<le> CONTACT_MANAGER_NUM_CALLBACKS \<Longrightarrow> cm_reach cbs (register_callbacks cbs (contact_manager_init []))"
| discovered: "cm_reach cbs s \<Longrightarrow> node_ok nd \<Longrightarrow> cm_heap s new = None \<Longrightarrow> contact_count s < 127
    \<Longrightarrow> handle_discovered_neighbor now nd new s = Inr s' \<Longrightarrow> cm_reach cbs s'"
| conn_up: "cm_reach cbs s \<Longrightarrow> cm_heap s new = None \<Longrightarrow> contact_count s < 127
    \<Longrightarrow> handle_conn_up now addr new s = Inr s' \<Longrightarrow> cm_reach cbs s'"
| conn_down: "cm_reach cbs s \<Longrightarrow> cm_heap s new = None \<Longrightarrow> contact_count s < 127
    \<Longrightarrow> handle_conn_down now addr new s = Inr s' \<Longrightarrow> cm_reach cbs s'"
| expire: "cm_reach cbs s \<Longrightarrow> remove_and_free_expired_contacts now s = Inr (n, s') \<Longrightarrow> cm_reach cbs s'"
| send: "cm_reach cbs s \<Longrightarrow> \<forall>a. cla_config_get env a \<noteq> None
    \<Longrightarrow> contact_manager_try_to_send_bundle env rb s = Inr (res, s') \<Longrightarrow> cm_reach cbs s'"

lemma cm_inv_init: "cm_inv (contact_manager_init [])"
  by (simp add: cm_inv_def contact_manager_init_def cm_size_def cm_ptrs_def contact_count_def eids_distinct_def)

lemma register_callbacks_init:
  assumes "length cbs \<le> CONTACT_MANAGER_NUM_CALLBACKS"
  shows "cm_inv (register_callbacks cbs (contact_manager_init []))" "cm_cbs (register_callbacks cbs (contact_manager_init [])) = cbs"
    "cm_trace (register_callbacks cbs (contact_manager_init [])) = []" "cm_heap (register_callbacks cbs (contact_manager_init [])) = Map.empty"
proof -
  consider "cbs = []" | f where "cbs = [f]" | f g where "cbs = [f, g]"
    using assms by (cases cbs rule: remdups_adj.cases) (auto simp: CONTACT_MANAGER_NUM_CALLBACKS_def)
  then have "register_callbacks cbs (contact_manager_init []) = (contact_manager_init [])\<lparr>cm_num_event_cb := of_nat (length cbs),
      cm_event_cb := map Some cbs @ replicate (2 - length cbs) None\<rparr>"
    by cases (simp_all add: register_callbacks_def contact_manager_add_event_callback_def contact_manager_init_def
        CONTACT_MANAGER_NUM_CALLBACKS_def numeral_2_eq_2)
  then have r: "register_callbacks cbs (contact_manager_init []) = (contact_manager_init [])\<lparr>cm_num_event_cb := of_nat (length cbs),
      cm_event_cb := map Some cbs @ replicate (2 - length cbs) None\<rparr>" .
  have "unat (of_nat (length cbs) :: u8) = length cbs"
    using assms by (simp add: unsigned_of_nat take_bit_nat_eq_self CONTACT_MANAGER_NUM_CALLBACKS_def)
  then show "cm_cbs (register_callbacks cbs (contact_manager_init [])) = cbs"
    by (simp add: r cm_cbs_def map_filter_def comp_def)
  show "cm_inv (register_callbacks cbs (contact_manager_init []))"
    using cm_inv_init by (simp add: r cm_inv_def cm_size_def cm_ptrs_def contact_count_def)
  show "cm_trace (register_callbacks cbs (contact_manager_init [])) = []" "cm_heap (register_callbacks cbs (contact_manager_init [])) = Map.empty"
    unfolding r by (simp_all add: contact_manager_init_def)
qed

lemma cm_reach_inv: "cm_reach cbs s \<Longrightarrow> cm_inv s \<and> trace_inv s \<and> cm_cbs s = cbs"
proof (induction rule: cm_reach.induct)
  case init
  note r = register_callbacks_init[OF init(2)]
  have "active_at (register_callbacks cbs (contact_manager_init [])) p = False" for p by (simp add: active_at_def r(4))
  then show ?case using r init(1) by (simp add: trace_inv_def link_reports_def map_filter_simps)
next
  case (discovered s nd new now s')
  obtain t where "handle_discovered_neighbor now nd new s = Inr t" "cm_inv t" "trace_inv t" "cm_cbs t = cm_cbs s"
    using handle_discovered_neighbor_trace[of s new nd now] discovered by blast
  then show ?case using discovered by auto
next
  case (conn_up s new now addr s')
  obtain t where "handle_conn True now addr new s = Inr t" "cm_inv t" "trace_inv t" "cm_cbs t = cm_cbs s"
    using handle_conn_trace[of s new True now addr] conn_up by blast
  then show ?case using conn_up by (auto simp: handle_conn_def)
next
  case (conn_down s new now addr s')
  obtain t where "handle_conn False now addr new s = Inr t" "cm_inv t" "trace_inv t" "cm_cbs t = cm_cbs s"
    using handle_conn_trace[of s new False now addr] conn_down by blast
  then show ?case using conn_down by (auto simp: handle_conn_def)
next
  case (expire s now n s')
  obtain t where "remove_and_free_expired_contacts now s = Inr (of_nat (length (filter (expires now s) (cm_ptrs s))), t)"
      "cm_inv t" "trace_inv t" "cm_cbs t = cm_cbs s"
    using remove_and_free_Inr[of s now] expire by blast
  then show ?case using expire by auto
next
  case (send s env rb res s')
  show ?case
  proof (cases "cla_sem_ok env")
    case True
    from send.IH have "cm_inv s" "trace_inv s" by auto
    then show ?thesis
      by (cases rule: try_to_send_cases[OF _ _ send(2) True, of s rb]) (use send in auto)
  next
    case False
    then show ?thesis using send by (simp add: contact_manager_try_to_send_bundle_def)
  qed
qed

section \<open>Properties\<close>

definition callbacks :: "nat list \<Rightarrow> contact_manager_event \<Rightarrow> nat \<Rightarrow> cm_out list" where
  "callbacks cbs ev p = map (\<lambda>f. Callback f ev p) cbs"

lemma notices_callbacks: "cm_reach cbs s \<Longrightarrow> notices s ev p = callbacks cbs ev p"
  using cm_reach_inv by (simp add: notices_def callbacks_def)

text \<open>The state in which the router task starts the contact manager, with one callback.\<close>

definition sample_cm :: contact_manager where
  "sample_cm = register_callbacks [0] (contact_manager_init [])"

lemma sample_cm_reach: "cm_reach [0] sample_cm"
  unfolding sample_cm_def by (rule cm_reach.init) (simp_all add: CONTACT_MANAGER_NUM_CALLBACKS_def)

lemma sample_cm_empty: "cm_heap sample_cm p = None" "contact_count sample_cm < 127" "cm_trace sample_cm = []"
  by (simp_all add: sample_cm_def register_callbacks_def contact_manager_init_def contact_manager_add_event_callback_def contact_count_def)

lemma sample_cm_up:
  obtains s' c where "handle_conn_up 5 ''a'' 9 sample_cm = Inr s'" "cm_reach [0] s'" "cm_heap s' = [9 \<mapsto> c]" "c_active c" "c_to c = 5"
proof -
  have inv: "cm_inv sample_cm" using cm_reach_inv[OF sample_cm_reach] by simp
  have e: "cm_heap sample_cm = Map.empty" using sample_cm_empty(1) by auto
  show ?thesis
  proof (cases rule: handle_conn_cases[OF inv sample_cm_empty(1)[of 9] sample_cm_empty(2), of True 5 "''a''", unfolded handle_conn_def if_True])
    case (2 s' c)
    then show ?thesis using that cm_reach.conn_up[OF sample_cm_reach sample_cm_empty(1,2) 2(1)] e by auto
  qed (use e in auto)
qed



text \<open>
  No operation of the contact manager faults while there are fewer than 127 contacts: discovery, both
  link events, expiry and sending return in a reachable state. So no pointer in the table is stale, no index leaves it,
  and none of the assertions on names, on the convergence layer and on inactive contacts being freed fires.
\<close>

theorem contact_manager_no_fault:
  assumes "cm_reach cbs s" "contact_count s < 127" "cm_heap s new = None" "node_ok nd" "\<forall>a. cla_config_get env a \<noteq> None"
  shows "(\<exists>s'. handle_discovered_neighbor now nd new s = Inr s' \<and> cm_reach cbs s')
    \<and> (\<exists>s'. handle_conn_up now addr new s = Inr s' \<and> cm_reach cbs s')
    \<and> (\<exists>s'. handle_conn_down now addr new s = Inr s' \<and> cm_reach cbs s')
    \<and> (\<exists>n s'. remove_and_free_expired_contacts now s = Inr (n, s') \<and> cm_reach cbs s')
    \<and> (\<exists>res s'. contact_manager_try_to_send_bundle env rb s = Inr (res, s') \<and> cm_reach cbs s')"
proof -
  have inv: "cm_inv s" "trace_inv s" using cm_reach_inv[OF assms(1)] by auto
  obtain s1 where s1: "handle_discovered_neighbor now nd new s = Inr s1"
    using handle_discovered_neighbor_trace[OF inv assms(3,2,4)] by blast
  obtain s2 where s2: "handle_conn_up now addr new s = Inr s2"
    using handle_conn_trace[OF inv assms(3,2), of True now addr, unfolded handle_conn_def if_True] by blast
  obtain s3 where s3: "handle_conn_down now addr new s = Inr s3"
    using handle_conn_trace[OF inv assms(3,2), of False now addr, unfolded handle_conn_def if_False] by blast
  obtain n s4 where s4: "remove_and_free_expired_contacts now s = Inr (n, s4)"
    using remove_and_free_Inr[OF inv] by blast
  have "\<exists>res s5. contact_manager_try_to_send_bundle env rb s = Inr (res, s5)"
  proof (cases "cla_sem_ok env")
    case True
    show ?thesis by (cases rule: try_to_send_cases[OF inv assms(5) True, of rb]) auto
  qed (simp add: contact_manager_try_to_send_bundle_def)
  then obtain res s5 where s5: "contact_manager_try_to_send_bundle env rb s = Inr (res, s5)" by blast
  show ?thesis
    using s1 s2 s3 s4 s5 cm_reach.discovered[OF assms(1,4,3,2) s1] cm_reach.conn_up[OF assms(1,3,2) s2]
      cm_reach.conn_down[OF assms(1,3,2) s3] cm_reach.expire[OF assms(1) s4] cm_reach.send[OF assms(1,5) s5] by blast
qed


definition sample_cla :: cla_env where
  "sample_cla = \<lparr>cla_config_get = (\<lambda>_. Some 1), cla_has_tx_queue = (\<lambda>_ _ _. True), cla_push_ok = True, cla_sem_ok = True\<rparr>"

theorem contact_manager_no_fault_witness:
  "\<exists>s'. handle_conn_down 5 ''a'' 9 sample_cm = Inr s' \<and> cm_reach [0] s'"
proof -
  define nd where "nd = \<lparr>n_eid = Some ''e'', n_cla_addr = Some ''a'', n_flags = NODE_FLAG_NONE, n_endpoints = [], n_contacts = []\<rparr>"
  have "node_ok nd" "\<forall>a. cla_config_get sample_cla a \<noteq> None" by (simp_all add: nd_def node_ok_def sample_cla_def)
  from contact_manager_no_fault[OF sample_cm_reach sample_cm_empty(2,1) this] show ?thesis by blast
qed



text \<open>
  A discovered node is matched first by EID (unless that is \<^verbatim>\<open>dtn:none\<close>), then by link address: the matching
  contact takes over the node and is seen now, and \<^verbatim>\<open>UPDATED\<close> is sent; otherwise a new inactive contact starts now, and
  \<^verbatim>\<open>ADDED\<close> is sent. All other contacts stay as they are.
\<close>

theorem contact_discovery_correct:
  assumes "cm_reach cbs s" "contact_count s < 127" "cm_heap s new = None" "n_eid nd = Some eid" "n_cla_addr nd = Some addr"
  shows "\<exists>s'. handle_discovered_neighbor now nd new s = Inr s' \<and>
    (if \<exists>p c. cm_heap s p = Some c \<and> (eid \<noteq> EID_NONE \<and> n_eid (c_node c) = Some eid \<or> n_cla_addr (c_node c) = Some addr)
     then \<exists>p c. cm_heap s p = Some c \<and> cm_heap s' = (cm_heap s)(p \<mapsto> c\<lparr>c_to := max (c_to c) now, c_node := nd\<rparr>)
       \<and> (if eid \<noteq> EID_NONE \<and> (\<exists>q d. cm_heap s q = Some d \<and> n_eid (c_node d) = Some eid)
          then n_eid (c_node c) = Some eid else n_cla_addr (c_node c) = Some addr)
       \<and> cm_trace s' = cm_trace s @ callbacks cbs CONTACT_EVENT_UPDATED p
     else \<exists>c. cm_heap s' = (cm_heap s)(new \<mapsto> c) \<and> c_node c = nd \<and> \<not> c_active c \<and> c_from c = now \<and> c_to c = now
       \<and> cm_trace s' = cm_trace s @ callbacks cbs CONTACT_EVENT_ADDED new)"
proof -
  have inv: "cm_inv s" using cm_reach_inv[OF assms(1)] by simp
  note n = notices_callbacks[OF assms(1)]
  show ?thesis
  proof (cases rule: handle_discovered_neighbor_cases[OF inv assms(3,2,4,5), of now])
    case (1 s' p c)
    have ex: "\<exists>p c. cm_heap s p = Some c \<and> (eid \<noteq> EID_NONE \<and> n_eid (c_node c) = Some eid \<or> n_cla_addr (c_node c) = Some addr)"
      using 1(3,5) by blast
    have "if eid \<noteq> EID_NONE \<and> (\<exists>q d. cm_heap s q = Some d \<and> n_eid (c_node d) = Some eid)
          then n_eid (c_node c) = Some eid else n_cla_addr (c_node c) = Some addr"
      using 1(3,5) by (auto split: if_splits)
    then show ?thesis using 1(1,3,4,7) ex n by (intro exI[of _ s']) (simp only: if_True simp_thms, blast)
  next
    case (2 s' c)
    have "\<not> (\<exists>p c. cm_heap s p = Some c \<and> (eid \<noteq> EID_NONE \<and> n_eid (c_node c) = Some eid \<or> n_cla_addr (c_node c) = Some addr))"
      using 2(3) by blast
    then show ?thesis using 2(1,4-8,10) n by (intro exI[of _ s']) (simp only: if_False simp_thms, blast)
  qed
qed

theorem contact_discovery_correct_witness:
  "\<exists>s' c. handle_discovered_neighbor 7 \<lparr>n_eid = Some ''e'', n_cla_addr = Some ''a'', n_flags = NODE_FLAG_NONE, n_endpoints = [], n_contacts = []\<rparr>
     9 sample_cm = Inr s' \<and> cm_heap s' 9 = Some c \<and> c_from c = 7"
  using contact_discovery_correct[OF sample_cm_reach sample_cm_empty(2,1), where new = 9 and now = 7 and eid = "''e''" and addr = "''a''" and
    nd = "\<lparr>n_eid = Some ''e'', n_cla_addr = Some ''a'', n_flags = NODE_FLAG_NONE, n_endpoints = [], n_contacts = []\<rparr>"]
  by (auto simp: sample_cm_empty(1))

text \<open>
  C34. Expiry keeps, in order, exactly the contacts whose last sighting lies more than the timeout in the future, and returns the number
  of the others, which are freed. Because the timeout is added to the present instead of subtracted, every contact seen in the
  past is removed, an active one included.
\<close>

theorem contact_expiry_correct:
  assumes "cm_reach cbs s"
  shows "\<exists>n s'. remove_and_free_expired_contacts now s = Inr (n, s') \<and> cm_reach cbs s'
    \<and> (\<forall>p. cm_heap s' p = (case cm_heap s p of None \<Rightarrow> None
         | Some c \<Rightarrow> if last_seen now c \<le> now + CONFIG_CONTACT_TIMEOUT_S then None else Some (c\<lparr>c_to := last_seen now c\<rparr>)))
    \<and> cm_ptrs s' = filter (\<lambda>p. cm_heap s' p \<noteq> None) (cm_ptrs s)
    \<and> unat n = card (dom (cm_heap s)) - card (dom (cm_heap s'))"
proof -
  have inv: "cm_inv s" "trace_inv s" using cm_reach_inv[OF assms] by auto
  let ?n = "of_nat (length (filter (expires now s) (cm_ptrs s))) :: u8"
  obtain s' where s': "remove_and_free_expired_contacts now s = Inr (?n, s')"
    "cm_inv s'" "trace_inv s'" "cm_ptrs s' = filter (\<lambda>p. \<not> expires now s p) (cm_ptrs s)" "cm_cbs s' = cm_cbs s"
    "\<forall>p. cm_heap s' p = (if expires now s p then None else map_option (\<lambda>c. c\<lparr>c_to := last_seen now c\<rparr>) (cm_heap s p))"
    by (rule remove_and_free_Inr[OF inv])
  have heap: "cm_heap s' p = (case cm_heap s p of None \<Rightarrow> None
         | Some c \<Rightarrow> if last_seen now c \<le> now + CONFIG_CONTACT_TIMEOUT_S then None else Some (c\<lparr>c_to := last_seen now c\<rparr>))" for p
    using s'(6) by (auto simp: expires_def split: option.splits)
  have live: "p \<in> set (cm_ptrs s) \<Longrightarrow> cm_heap s' p \<noteq> None \<longleftrightarrow> \<not> expires now s p" for p
    using s'(6) cm_invD(4)[OF inv(1)] by auto
  have ptrs: "cm_ptrs s' = filter (\<lambda>p. cm_heap s' p \<noteq> None) (cm_ptrs s)"
    unfolding s'(4) by (rule filter_cong) (use live in auto)
  have cards: "card (dom (cm_heap s)) = length (cm_ptrs s)" "card (dom (cm_heap s')) = length (cm_ptrs s')"
    using cm_invD(3,4)[OF inv(1)] cm_invD(3,4)[OF s'(2)] by (metis distinct_card)+
  have "length (cm_ptrs s) = length (filter (expires now s) (cm_ptrs s)) + length (cm_ptrs s')"
    unfolding s'(4) by (rule sum_length_filter_compl[symmetric])
  moreover have "length (cm_ptrs s) < 128" using length_cm_ptrs[OF inv(1)] cm_size_less[of s] by simp
  ultimately have "unat ?n = card (dom (cm_heap s)) - card (dom (cm_heap s'))"
    unfolding cards by (simp add: unsigned_of_nat take_bit_nat_eq_self)
  then show ?thesis using s'(1) cm_reach.expire[OF assms s'(1)] heap ptrs by blast
qed

theorem contact_expiry_correct_witness:
  "\<exists>s1 n s2. handle_conn_up 5 ''a'' 9 sample_cm = Inr s1 \<and> active_at s1 9
    \<and> remove_and_free_expired_contacts 5 s1 = Inr (n, s2) \<and> cm_heap s2 9 = None"
proof -
  have inv: "cm_inv sample_cm" using cm_reach_inv[OF sample_cm_reach] by simp
  obtain s1 c where s1: "handle_conn_up 5 ''a'' 9 sample_cm = Inr s1" "cm_reach [0] s1" "cm_heap s1 = [9 \<mapsto> c]" "c_active c" "c_to c = 5"
    by (rule sample_cm_up)
  have "last_seen 5 c \<le> 5 + CONFIG_CONTACT_TIMEOUT_S" using s1(5) by (simp add: last_seen_def CONFIG_CONTACT_TIMEOUT_S_def)
  then show ?thesis using contact_expiry_correct[OF s1(2), of 5] s1 by (auto simp: active_at_def)
qed

text \<open>
  C35. The table is declared with 257 entries, but its counter is a signed byte: adding a neighbour to 127 others makes the
  counter negative, after which no neighbour is found any more, and the next unknown neighbour is written before the start of the table.
\<close>

theorem contact_count_overflow:
  assumes "cm_inv s" "contact_count s = 127" "n_eid nd = Some eid" "n_cla_addr nd = Some addr"
    and "\<forall>p c. cm_heap s p = Some c \<longrightarrow> n_cla_addr (c_node c) \<noteq> Some addr \<and> n_eid (c_node c) \<noteq> Some eid"
  shows "\<exists>s'. handle_discovered_neighbor now nd new s = Inr s' \<and> contact_count s' = - 128
    \<and> (\<forall>e. find_contact_info_by_eid e s' = Inr None) \<and> (\<forall>a. find_contact_info_by_cla_addr a s' = Inr None)
    \<and> (\<forall>nd2 new2. node_ok nd2 \<longrightarrow> handle_discovered_neighbor now nd2 new2 s' = Inl OutOfBounds)"
proof -
  have "find_contact_info_by_eid eid s = Inr None"
    using assms(5) by (cases rule: find_by_eid[OF assms(1), of eid]) auto
  moreover have "find_contact_info_by_cla_addr addr s = Inr None"
    using assms(5) by (cases rule: find_by_cla_addr[OF assms(1), of addr]) auto
  ultimately have add: "handle_discovered_neighbor now nd new s = add_contact now nd new s"
    using assms(3,4) by (simp add: handle_discovered_neighbor_def)
  have "\<not> 127 \<ge> length (cm_current_contacts s)" using cm_invD(1)[OF assms(1)] by (simp add: MAX_CONCURRENT_CONTACTS_def)
  then obtain s' where s': "add_contact now nd new s = Inr s'" "cm_current_contact_count s' = cm_current_contact_count s + 1"
    using assms(2) cm_invD(7)[OF assms(1)]
    by (simp add: add_contact_def contact_create_def Let_def MAX_CONCURRENT_CONTACTS_def)
  have neg: "contact_count s' = - 128" using assms(2) contact_count_wrap s'(2) by (simp add: contact_count_def)
  then have none: "find_contact_info_by_eid e s' = Inr None" "find_contact_info_by_cla_addr a s' = Inr None" for e a
    by (simp_all add: find_contact_info_by_eid_def find_contact_info_by_cla_addr_def)
  then have "handle_discovered_neighbor now nd2 new2 s' = Inl OutOfBounds" if "node_ok nd2" for nd2 new2
    using that neg by (auto simp: node_ok_def handle_discovered_neighbor_def add_contact_def MAX_CONCURRENT_CONTACTS_def)
  then show ?thesis using add s'(1) neg none by simp
qed

text \<open>A table with 127 neighbours of unknown EID.\<close>

definition sample_full :: contact_manager where
  "sample_full = (contact_manager_init [])\<lparr>cm_current_contact_count := 127,
     cm_current_contacts := map (\<lambda>i. \<lparr>ci_contact = Some i, ci_cla_conf = None\<rparr>) [0..<127] @ replicate 130 contact_info_null,
     cm_heap := (\<lambda>p. if p < 127 then Some (the (fst (contact_create
       \<lparr>n_eid = Some EID_NONE, n_cla_addr = Some (replicate p CHR ''a''), n_flags = NODE_FLAG_NONE, n_endpoints = [], n_contacts = []\<rparr> []))) else None)\<rparr>"

lemma sample_full_inv: "cm_inv sample_full" "contact_count sample_full = 127"
proof -
  have c: "contact_count sample_full = 127" "cm_size sample_full = 127"
    by (simp_all add: sample_full_def cm_size_def contact_count_def)
  have t: "take 127 (cm_current_contacts sample_full) = map (\<lambda>i. \<lparr>ci_contact = Some i, ci_cla_conf = None\<rparr>) [0..<127]"
    by (simp add: sample_full_def)
  have p: "cm_ptrs sample_full = [0..<127]" by (simp add: cm_ptrs_def c(2) t comp_def)
  have h: "cm_heap sample_full q = (if q < 127 then Some (the (fst (contact_create
       \<lparr>n_eid = Some EID_NONE, n_cla_addr = Some (replicate q CHR ''a''), n_flags = NODE_FLAG_NONE, n_endpoints = [], n_contacts = []\<rparr> []))) else None)" for q
    by (simp add: sample_full_def)
  have "dom (cm_heap sample_full) = {0..<127}" by (auto simp: dom_def h split: if_splits)
  moreover have "eids_distinct (cm_heap sample_full)" by (auto simp: eids_distinct_def h contact_create_def split: if_splits)
  moreover have "length (cm_current_contacts sample_full) = MAX_CONCURRENT_CONTACTS" "cm_allocs sample_full = []"
    by (simp_all add: sample_full_def MAX_CONCURRENT_CONTACTS_def contact_manager_init_def)
  ultimately show "cm_inv sample_full" unfolding cm_inv_def p c t
    by (auto simp: h node_ok_def contact_create_def split: if_splits)
  show "contact_count sample_full = 127" by (rule c(1))
qed

theorem contact_count_overflow_witness:
  "\<exists>s'. handle_discovered_neighbor 5 \<lparr>n_eid = Some ''e'', n_cla_addr = Some ''b'', n_flags = NODE_FLAG_NONE, n_endpoints = [], n_contacts = []\<rparr>
     200 sample_full = Inr s' \<and> contact_count s' = - 128"
proof -
  have "replicate p CHR ''a'' \<noteq> ''b''" for p by (cases p) simp_all
  then have "\<forall>p c. cm_heap sample_full p = Some c \<longrightarrow> n_cla_addr (c_node c) \<noteq> Some ''b'' \<and> n_eid (c_node c) \<noteq> Some ''e''"
    by (auto simp: sample_full_def contact_create_def EID_NONE_def split: if_splits)
  from contact_count_overflow[OF sample_full_inv _ _ this, where now = 5 and new = 200 and
      nd = "\<lparr>n_eid = Some ''e'', n_cla_addr = Some ''b'', n_flags = NODE_FLAG_NONE, n_endpoints = [], n_contacts = []\<rparr>"]
  show ?thesis by auto
qed

text \<open>
  A bundle is pushed to a transmission queue exactly when a neighbour carries its destination EID (for routing information,
  the EID without the sink), the queue of that neighbour can be obtained and it accepts the command; the command goes to that
  neighbour alone, and no contact changes.
\<close>

theorem contact_send_correct:
  assumes "cm_reach cbs s" "\<forall>a. cla_config_get env a \<noteq> None" "cla_sem_ok env"
  shows "\<exists>res s'. contact_manager_try_to_send_bundle env rb s = Inr (res, s') \<and> cm_heap s' = cm_heap s
    \<and> (if res = UD3TN_OK
       then \<exists>p c cla. cm_heap s p = Some c \<and> n_eid (c_node c) = Some (send_eid rb) \<and> send_eid rb \<noteq> EID_NONE
         \<and> cm_trace s' = cm_trace s @ [TxPush cla (Some (send_eid rb)) (n_cla_addr (c_node c)) rb]
       else cm_trace s' = cm_trace s \<and> (send_eid rb = EID_NONE \<or> \<not> cla_push_ok env
         \<or> (\<nexists>p c. cm_heap s p = Some c \<and> n_eid (c_node c) = Some (send_eid rb))
         \<or> (\<exists>p c cla. cm_heap s p = Some c \<and> n_eid (c_node c) = Some (send_eid rb)
              \<and> \<not> cla_has_tx_queue env cla (Some (send_eid rb)) (n_cla_addr (c_node c)))))"
proof -
  have inv: "cm_inv s" "trace_inv s" using cm_reach_inv[OF assms(1)] by auto
  show ?thesis
  proof (cases rule: try_to_send_cases[OF inv assms(2,3), of rb])
    case 1
    then show ?thesis by (intro exI[of _ UD3TN_FAIL] exI[of _ s]) auto
  next
    case (2 p c cla s' res)
    then show ?thesis by (intro exI[of _ res] exI[of _ s']) (cases "res = UD3TN_OK"; auto)
  qed
qed

theorem contact_send_correct_witness:
  "\<exists>s1 s2. handle_discovered_neighbor 7 \<lparr>n_eid = Some ''dtn://b'', n_cla_addr = Some ''a'', n_flags = NODE_FLAG_NONE, n_endpoints = [],
       n_contacts = []\<rparr> 9 sample_cm = Inr s1
     \<and> contact_manager_try_to_send_bundle sample_cla
         \<lparr>rb_id = 1, rb_destination = ''dtn://b'', rb_prio = BUNDLE_RPRIO_NORMAL, rb_size = 10, rb_exp_time = 99\<rparr> s1 = Inr (UD3TN_OK, s2)"
proof -
  let ?nd = "\<lparr>n_eid = Some ''dtn://b'', n_cla_addr = Some ''a'', n_flags = NODE_FLAG_NONE, n_endpoints = [], n_contacts = []\<rparr>"
  let ?rb = "\<lparr>rb_id = 1, rb_destination = ''dtn://b'', rb_prio = BUNDLE_RPRIO_NORMAL, rb_size = 10, rb_exp_time = 99\<rparr>"
  have inv: "cm_inv sample_cm" using cm_reach_inv[OF sample_cm_reach] by simp
  have ok: "node_ok ?nd" "n_eid ?nd = Some ''dtn://b''" "n_cla_addr ?nd = Some ''a''" by (simp_all add: node_ok_def)
  obtain s1 c where s1: "handle_discovered_neighbor 7 ?nd 9 sample_cm = Inr s1" "cm_heap s1 9 = Some c" "c_node c = ?nd"
    by (cases rule: handle_discovered_neighbor_cases[OF inv sample_cm_empty(1)[of 9] sample_cm_empty(2) ok(2,3), of 7])
      (auto simp: sample_cm_empty(1))
  have r: "cm_reach [0] s1" by (rule cm_reach.discovered[OF sample_cm_reach ok(1) sample_cm_empty(1,2) s1(1)])
  have eid: "send_eid ?rb = ''dtn://b''"
    by (simp add: send_eid_def routing_agent_is_info_bundle_def ROUTING_AGENT_SINK_PREFIX_def)
  have cfg: "\<forall>a. cla_config_get sample_cla a \<noteq> None" "cla_sem_ok sample_cla" by (simp_all add: sample_cla_def)
  from contact_send_correct[OF r cfg, of ?rb, unfolded eid] show ?thesis
  proof (elim exE conjE)
    fix res s2
    assume run: "contact_manager_try_to_send_bundle sample_cla ?rb s1 = Inr (res, s2)"
      and out: "if res = UD3TN_OK then \<exists>p c cla. cm_heap s1 p = Some c \<and> n_eid (c_node c) = Some ''dtn://b'' \<and> ''dtn://b'' \<noteq> EID_NONE
         \<and> cm_trace s2 = cm_trace s1 @ [TxPush cla (Some ''dtn://b'') (n_cla_addr (c_node c)) ?rb]
       else cm_trace s2 = cm_trace s1 \<and> (''dtn://b'' = EID_NONE \<or> \<not> cla_push_ok sample_cla
         \<or> (\<nexists>p c. cm_heap s1 p = Some c \<and> n_eid (c_node c) = Some ''dtn://b'')
         \<or> (\<exists>p c cla. cm_heap s1 p = Some c \<and> n_eid (c_node c) = Some ''dtn://b''
              \<and> \<not> cla_has_tx_queue sample_cla cla (Some ''dtn://b'') (n_cla_addr (c_node c))))"
    have q: "cla_push_ok sample_cla" "\<And>x y z. cla_has_tx_queue sample_cla x y z" by (simp_all add: sample_cla_def)
    have n: "n_eid (c_node c) = Some ''dtn://b''" "''dtn://b'' \<noteq> EID_NONE" using s1(3) by (simp_all add: EID_NONE_def)
    have "res = UD3TN_OK"
    proof (rule ccontr)
      assume "res \<noteq> UD3TN_OK"
      then have "\<nexists>p c. cm_heap s1 p = Some c \<and> n_eid (c_node c) = Some ''dtn://b''" using out n(2) q by (simp only: if_False) blast
      then show False using s1(2) n(1) by blast
    qed
    then show ?thesis using s1(1) run by blast
  qed
qed

end
