(* ===== verification/Agent_Manager.thy ===== *)
theory Agent_Manager
  imports Bundle Htab
begin

text \<open>
  The registry of application agents of \<^verbatim>\<open>components/ud3tn/agent_manager.c\<close>: a linked list of sinks
  with their callbacks, through which the bundle processor delivers application data. A callback is a number, \<^term>\<open>None\<close> being the null pointer; calling it is an
  output. An agent and its list cell are one list element.
\<close>

section \<open>Operations\<close>

record agent =
  ag_sink_identifier :: string
  ag_callback :: "nat option"
  ag_param :: nat

datatype agent_call = AgentCall nat bundle_adu nat

text \<open>\<^verbatim>\<open>agent_search_ptr\<close> yields the position of the cell.\<close>

fun agent_search_ptr :: "string \<Rightarrow> agent list \<Rightarrow> nat option" where
  "agent_search_ptr sink [] = None"
| "agent_search_ptr sink (a # as) = (if ag_sink_identifier a = sink then Some 0 else map_option Suc (agent_search_ptr sink as))"

definition agent_search :: "string \<Rightarrow> agent list \<Rightarrow> agent option" where
  "agent_search sink l = (case agent_search_ptr sink l of None \<Rightarrow> None | Some i \<Rightarrow> Some (l ! i))"

text \<open>The allocation of the list cell is not checked.\<close>

definition agent_list_add_entry :: "agent \<Rightarrow> agent list \<Rightarrow> alloc_script \<Rightarrow> fault + int \<times> agent list \<times> alloc_script" where
  "agent_list_add_entry obj l as =
    (if agent_search (ag_sink_identifier obj) l \<noteq> None then Inr (-1, l, as)
     else if \<not> malloc_ok as then Inl NullDeref
     else Inr (0, l @ [obj], malloc_rest as))"

definition agent_list_remove_entry :: "agent \<Rightarrow> agent list \<Rightarrow> fault + int \<times> agent list" where
  "agent_list_remove_entry obj l = (case agent_search_ptr (ag_sink_identifier obj) l of
     None \<Rightarrow> Inl NullDeref
   | Some i \<Rightarrow> Inr (0, take i l @ drop (Suc i) l))"

definition agent_register ::
  "string \<Rightarrow> nat option \<Rightarrow> nat \<Rightarrow> agent list \<Rightarrow> alloc_script \<Rightarrow> fault + int \<times> agent list \<times> alloc_script" where
  "agent_register sink callback param l as =
    (if agent_search sink l \<noteq> None then Inr (-1, l, as)
     else if \<not> malloc_ok as then Inr (-1, l, malloc_rest as)
     else bindE (agent_list_add_entry \<lparr>ag_sink_identifier = sink, ag_callback = callback, ag_param = param\<rparr> l (malloc_rest as))
       (\<lambda>(r, l', as'). Inr (if r \<noteq> 0 then (-1, l', as') else (0, l', as'))))"

definition agent_deregister :: "string \<Rightarrow> agent list \<Rightarrow> fault + int \<times> agent list" where
  "agent_deregister sink l = (case agent_search sink l of
     None \<Rightarrow> Inr (-1, l)
   | Some a \<Rightarrow> bindE (agent_list_remove_entry a l) (\<lambda>(r, l'). Inr (if r \<noteq> 0 then (-1, l') else (0, l'))))"

definition agent_forward :: "string \<Rightarrow> bundle_adu \<Rightarrow> agent list \<Rightarrow> int \<times> agent_call list" where
  "agent_forward sink data l = (case agent_search sink l of
     None \<Rightarrow> (-1, [])
   | Some a \<Rightarrow> (case ag_callback a of None \<Rightarrow> (-1, []) | Some f \<Rightarrow> (0, [AgentCall f data (ag_param a)])))"

section \<open>The registry is a map from sinks\<close>

definition agents_inv :: "agent list \<Rightarrow> bool" where
  "agents_inv l \<longleftrightarrow> distinct (map ag_sink_identifier l)"

definition agents_map :: "agent list \<Rightarrow> string \<Rightarrow> agent option" where
  "agents_map l = map_of (map (\<lambda>a. (ag_sink_identifier a, a)) l)"

lemma agent_search_map: "agent_search sink l = agents_map l sink"
  by (induction l) (auto simp: agent_search_def agents_map_def split: option.splits)

lemma agents_map_snoc: "agents_map l (ag_sink_identifier a) = None \<Longrightarrow> agents_map (l @ [a]) = (agents_map l)(ag_sink_identifier a \<mapsto> a)"
  by (auto simp: agents_map_def map_add_def fun_eq_iff split: option.splits)

lemma agents_map_None: "agents_map l sink = None \<longleftrightarrow> sink \<notin> ag_sink_identifier ` set l"
  by (simp add: agents_map_def map_of_eq_None_iff image_image)

lemma agents_map_sink: "agents_map l sink = Some a \<Longrightarrow> ag_sink_identifier a = sink"
  unfolding agents_map_def by (drule map_of_SomeD) auto

lemma agent_remove_map:
  assumes "agents_inv l" "agent_search_ptr sink l = Some i"
  shows "agents_inv (take i l @ drop (Suc i) l) \<and> agents_map (take i l @ drop (Suc i) l) = (agents_map l)(sink := None)"
  using assms
proof (induction l arbitrary: i)
  case (Cons a l)
  show ?case
  proof (cases "ag_sink_identifier a = sink")
    case True
    then have "agents_map l sink = None" using Cons.prems(1) by (auto simp: agents_map_None agents_inv_def)
    then show ?thesis using True Cons.prems by (auto simp: agents_inv_def agents_map_def fun_eq_iff)
  next
    case False
    then obtain j where j: "i = Suc j" "agent_search_ptr sink l = Some j" using Cons.prems(2) by auto
    have IH: "agents_inv (take j l @ drop (Suc j) l)" "agents_map (take j l @ drop (Suc j) l) = (agents_map l)(sink := None)"
      using Cons.IH[OF _ j(2)] Cons.prems(1) by (auto simp: agents_inv_def)
    have "ag_sink_identifier a \<notin> ag_sink_identifier ` set (take j l @ drop (Suc j) l)"
      using Cons.prems(1) by (auto simp: agents_inv_def dest!: in_set_takeD in_set_dropD)
    then show ?thesis using IH False j(1) by (auto simp: agents_inv_def agents_map_def fun_eq_iff)
  qed
qed simp

lemma agent_register_cases:
  assumes "agents_inv l"
  shows "agent_register sink cb param l [] = (if agents_map l sink = None
      then Inr (0, l @ [\<lparr>ag_sink_identifier = sink, ag_callback = cb, ag_param = param\<rparr>], []) else Inr (-1, l, []))"
    and "agents_map l sink = None \<Longrightarrow> agents_inv (l @ [\<lparr>ag_sink_identifier = sink, ag_callback = cb, ag_param = param\<rparr>])"
  using assms by (auto simp: agent_register_def agent_search_map agent_list_add_entry_def agents_map_None agents_inv_def)

lemma agent_deregister_cases:
  assumes "agents_inv l"
  obtains "agents_map l sink = None" "agent_deregister sink l = Inr (-1, l)"
  | a l' where "agents_map l sink = Some a" "agent_deregister sink l = Inr (0, l')" "agents_inv l'" "agents_map l' = (agents_map l)(sink := None)"
proof (cases "agents_map l sink")
  case None
  then show ?thesis using that(1) by (simp add: agent_deregister_def agent_search_map)
next
  case (Some a)
  then obtain i where i: "agent_search_ptr sink l = Some i"
    unfolding agent_search_map[symmetric] agent_search_def by (auto split: option.splits)
  then show ?thesis using Some agent_remove_map[OF assms i] agents_map_sink[OF Some]
    by (intro that(2)[of a "take i l @ drop (Suc i) l"]) (auto simp: agent_deregister_def agent_search_map agent_list_remove_entry_def)
qed

text \<open>
  The registry keeps the contract of a dictionary, for agents that carry the name of their sink.
\<close>

interpretation agents_dict: dictionary agents_inv "\<lambda>l sink. map_option (\<lambda>a. (ag_callback a, ag_param a)) (agents_map l sink)" "\<lambda>l (p :: unit) sink. True"
  "\<lambda>l p sink. Inr (map_option (\<lambda>a. (ag_callback a, ag_param a)) (agent_search sink l))"
  "\<lambda>l p sink v. bindE (agent_register sink (fst v) (snd v) l []) (\<lambda>(r, l', as). Inr (r = 0, l'))"
  "\<lambda>l p sink. bindE (agent_deregister sink l) (\<lambda>(r, l'). Inr (map_option (\<lambda>a. (ag_callback a, ag_param a)) (agent_search sink l), l'))"
proof
  fix t :: "agent list" and p :: unit and k :: string and v :: "nat option \<times> nat"
  let ?look = "\<lambda>l sink. map_option (\<lambda>a. (ag_callback a, ag_param a)) (agents_map l sink)"
  assume i: "agents_inv t"
  show "Inr (map_option (\<lambda>a. (ag_callback a, ag_param a)) (agent_search k t)) = Inr (?look t k)"
    by (simp add: agent_search_map)
  show "\<exists>t'. bindE (agent_register k (fst v) (snd v) t []) (\<lambda>(r, l', as). Inr (r = 0, l')) = Inr (?look t k = None, t') \<and> agents_inv t'
      \<and> ?look t' = (if ?look t k = None then (?look t)(k \<mapsto> v) else ?look t)"
    using agent_register_cases[OF i, of k "fst v" "snd v"] i
      agents_map_snoc[of t "\<lparr>ag_sink_identifier = k, ag_callback = fst v, ag_param = snd v\<rparr>"]
    by (cases "agents_map t k") (auto simp: fun_eq_iff)
  show "\<exists>t'. bindE (agent_deregister k t) (\<lambda>(r, l'). Inr (map_option (\<lambda>a. (ag_callback a, ag_param a)) (agent_search k t), l')) = Inr (?look t k, t')
      \<and> agents_inv t' \<and> ?look t' = (?look t)(k := None)"
    by (cases rule: agent_deregister_cases[OF i, of k]) (use i in \<open>auto simp: agent_search_map fun_eq_iff\<close>)
qed

section \<open>Property\<close>

text \<open>
  C36. The list of agents behaves as a map from sinks to agents: registration succeeds exactly for a new sink and then adds
  exactly that entry, deregistration succeeds exactly for a registered sink and removes it, and application data goes to the callback
  registered for the sink, to none otherwise.
\<close>

theorem agent_registry_refines_map:
  assumes "agents_inv l"
  shows "(\<exists>l'. agent_register sink cb param l [] = Inr (if agents_map l sink = None then 0 else - 1, l', []) \<and> agents_inv l'
      \<and> agents_map l' = (if agents_map l sink = None
          then (agents_map l)(sink \<mapsto> \<lparr>ag_sink_identifier = sink, ag_callback = cb, ag_param = param\<rparr>) else agents_map l))
    \<and> (\<exists>l'. agent_deregister sink l = Inr (if agents_map l sink = None then - 1 else 0, l') \<and> agents_inv l'
      \<and> agents_map l' = (agents_map l)(sink := None))
    \<and> snd (agent_forward sink adu l) = (case agents_map l sink of None \<Rightarrow> []
        | Some a \<Rightarrow> (case ag_callback a of None \<Rightarrow> [] | Some f \<Rightarrow> [AgentCall f adu (ag_param a)]))"
proof (intro conjI)
  let ?a = "\<lparr>ag_sink_identifier = sink, ag_callback = cb, ag_param = param\<rparr>"
  show "\<exists>l'. agent_register sink cb param l [] = Inr (if agents_map l sink = None then 0 else - 1, l', []) \<and> agents_inv l'
      \<and> agents_map l' = (if agents_map l sink = None then (agents_map l)(sink \<mapsto> ?a) else agents_map l)"
    using agent_register_cases[OF assms, of sink cb param] agents_map_snoc[of l ?a] assms by (cases "agents_map l sink") auto
  show "\<exists>l'. agent_deregister sink l = Inr (if agents_map l sink = None then - 1 else 0, l') \<and> agents_inv l'
      \<and> agents_map l' = (agents_map l)(sink := None)"
    by (cases rule: agent_deregister_cases[OF assms, of sink]) (use assms in \<open>auto simp: fun_eq_iff\<close>)
  show "snd (agent_forward sink adu l) = (case agents_map l sink of None \<Rightarrow> []
        | Some a \<Rightarrow> (case ag_callback a of None \<Rightarrow> [] | Some f \<Rightarrow> [AgentCall f adu (ag_param a)]))"
    by (simp add: agent_forward_def agent_search_map split: option.splits)
qed

theorem agent_registry_refines_map_witness:
  "\<exists>l'. agent_deregister ''echo'' [\<lparr>ag_sink_identifier = ''echo'', ag_callback = Some 1, ag_param = 0\<rparr>] = Inr (0, l')
     \<and> agents_map l' ''echo'' = None"
  using agent_registry_refines_map[of "[\<lparr>ag_sink_identifier = ''echo'', ag_callback = Some 1, ag_param = 0\<rparr>]" "''echo''"]
  by (auto simp: agents_inv_def agents_map_def)

end
