(* ===== verification/Custody_Manager.thy ===== *)
theory Custody_Manager
  imports Storage
begin

unbundle bit_operations_syntax

text \<open>
  The custody manager of \<^verbatim>\<open>components/ud3tn/custody_manager.c\<close>: the array of bundles this node has
  accepted custody of. The array holds pointers, words of 32 bits as on the boards the firmware runs on, little endian: the release of a
  bundle moves bytes of the array, not entries, so the representation matters. The serialized size of a
  bundle is an argument.
\<close>

section \<open>State and lookups\<close>

definition CUSTODY_MAX_BUNDLE_COUNT :: nat where "CUSTODY_MAX_BUNDLE_COUNT = 16"
definition CUSTODY_MAX_BUNDLE_SIZE :: u64 where "CUSTODY_MAX_BUNDLE_SIZE = 1024"

record custody =
  accepted_bundles :: "u32 list"
  accepted_bundle_count :: nat
  own_eid :: "eid option"

definition custody_manager_init :: "eid \<Rightarrow> custody" where
  "custody_manager_init local_eid =
    \<lparr>accepted_bundles = replicate CUSTODY_MAX_BUNDLE_COUNT 0, accepted_bundle_count = 0, own_eid = Some local_eid\<rparr>"

definition ptr_word :: "bptr \<Rightarrow> u32" where "ptr_word p = of_nat p"

fun index_from :: "nat \<Rightarrow> ('a \<Rightarrow> bool) \<Rightarrow> 'a list \<Rightarrow> nat option" where
  "index_from i P [] = None"
| "index_from i P (x # xs) = (if P x then Some i else index_from (Suc i) P xs)"

definition get_index :: "bptr \<Rightarrow> custody \<Rightarrow> nat option" where
  "get_index p c = index_from 0 (\<lambda>w. w = ptr_word p) (take (accepted_bundle_count c) (accepted_bundles c))"

text \<open>The sequence number passes through a parameter of 16 bits.\<close>

definition custody_match :: "u64 \<Rightarrow> u16 \<Rightarrow> eid option \<Rightarrow> u32 \<Rightarrow> u32 \<Rightarrow> bundle_t \<Rightarrow> fault + bool" where
  "custody_match ts sn src off len b =
    (if creation_timestamp_ms b \<noteq> ts \<or> sequence_number b \<noteq> ucast sn then Inr False
     else bindE (strcmp_eq (source b) src) (\<lambda>same.
       if \<not> same then Inr False
       else if \<not> bundle_is_fragmented b then Inr True
       else if fragment_offset b \<noteq> off then Inr False
       else bindE (deref (payload_of b)) (\<lambda>p. Inr (blk_length p = len))))"

fun find_loop :: "u64 \<Rightarrow> u16 \<Rightarrow> eid option \<Rightarrow> u32 \<Rightarrow> u32 \<Rightarrow> bundle_heap \<Rightarrow> nat \<Rightarrow> u32 list \<Rightarrow> fault + nat option" where
  "find_loop ts sn src off len hp i [] = Inr None"
| "find_loop ts sn src off len hp i (w # ws) = bindE (heap_read hp (unat w)) (\<lambda>b.
     bindE (custody_match ts sn src off len b) (\<lambda>r.
       if r then Inr (Some i) else find_loop ts sn src off len hp (Suc i) ws))"

definition custody_find :: "u64 \<Rightarrow> u16 \<Rightarrow> eid option \<Rightarrow> u32 \<Rightarrow> u32 \<Rightarrow> bundle_heap \<Rightarrow> custody \<Rightarrow> fault + nat option" where
  "custody_find ts sn src off len hp c =
     find_loop ts sn src off len hp 0 (take (accepted_bundle_count c) (accepted_bundles c))"

definition custody_manager_has_redundant_bundle :: "bundle_heap \<Rightarrow> bptr \<Rightarrow> custody \<Rightarrow> fault + bool" where
  "custody_manager_has_redundant_bundle hp p c = bindE (heap_read hp p) (\<lambda>b.
     bindE (deref (payload_of b)) (\<lambda>pl.
       bindE (custody_find (creation_timestamp_ms b) (ucast (sequence_number b)) (source b) (fragment_offset b) (blk_length pl) hp c) (\<lambda>r.
         Inr (r \<noteq> None))))"

definition custody_manager_storage_is_acceptable :: "(bundle_t \<Rightarrow> u64) \<Rightarrow> bundle_heap \<Rightarrow> bptr \<Rightarrow> custody \<Rightarrow> fault + bool" where
  "custody_manager_storage_is_acceptable ser_size hp p c = bindE (heap_read hp p) (\<lambda>b.
     Inr (\<not> (accepted_bundle_count c \<ge> CUSTODY_MAX_BUNDLE_COUNT \<or> get_index p c \<noteq> None
       \<or> ser_size b > CUSTODY_MAX_BUNDLE_SIZE
       \<or> (protocol_version b = 6 \<and> \<not> HAS_FLAG (proc_flags b) BUNDLE_V6_FLAG_SINGLETON_ENDPOINT))))"

definition custody_manager_has_accepted :: "bptr \<Rightarrow> custody \<Rightarrow> bool" where
  "custody_manager_has_accepted p c \<longleftrightarrow> get_index p c \<noteq> None"

section \<open>Custody signals\<close>

datatype bundle_custody_signal_type = BUNDLE_CS_TYPE_ACCEPTANCE | BUNDLE_CS_TYPE_REFUSAL

text \<open>\<^verbatim>\<open>enum bundle_custody_signal_reason\<close> is a number, because status report reasons are cast to it.\<close>

definition BUNDLE_CS_REASON_NO_INFO :: u8 where "BUNDLE_CS_REASON_NO_INFO = 0"
definition BUNDLE_CS_REASON_REDUNDANT_RECEPTION :: u8 where "BUNDLE_CS_REASON_REDUNDANT_RECEPTION = 3"
definition BUNDLE_CS_REASON_DEPLETED_STORAGE :: u8 where "BUNDLE_CS_REASON_DEPLETED_STORAGE = 4"

record bundle_custody_signal =
  cs_type :: bundle_custody_signal_type
  cs_reason :: u8

text \<open>An administrative record, with a custody signal when it is of that type.\<close>

record bundle_administrative_record =
  ar_custody_signal :: "bundle_custody_signal option"
  ar_fragment_offset :: u32
  ar_fragment_length :: u32
  ar_bundle_creation_timestamp_ms :: u64
  ar_bundle_sequence_number :: u64
  ar_bundle_source_eid :: "eid option"

definition custody_manager_get_by_record :: "bundle_administrative_record \<Rightarrow> bundle_heap \<Rightarrow> custody \<Rightarrow> fault + bptr option" where
  "custody_manager_get_by_record rec hp c =
     bindE (custody_find (ar_bundle_creation_timestamp_ms rec) (ucast (ar_bundle_sequence_number rec)) (ar_bundle_source_eid rec)
              (ar_fragment_offset rec) (ar_fragment_length rec) hp c) (\<lambda>r.
       Inr (case r of None \<Rightarrow> None | Some i \<Rightarrow> Some (unat (accepted_bundles c ! i))))"

section \<open>Accepting and releasing\<close>

definition custody_manager_accept ::
  "(bundle_t \<Rightarrow> u64) \<Rightarrow> bundle_heap \<Rightarrow> bptr \<Rightarrow> custody \<Rightarrow> alloc_script \<Rightarrow> fault + ud3tn_result \<times> bundle_heap \<times> custody \<times> alloc_script" where
  "custody_manager_accept ser_size hp p c as =
     bindE (custody_manager_has_redundant_bundle hp p c) (\<lambda>red. if red then Inl AssertFailed else
     bindE (custody_manager_storage_is_acceptable ser_size hp p c) (\<lambda>acc. if \<not> acc then Inl AssertFailed else
     bindE (heap_read hp p) (\<lambda>b.
       let c' = c\<lparr>accepted_bundles := (accepted_bundles c)[accepted_bundle_count c := ptr_word p],
                  accepted_bundle_count := accepted_bundle_count c + 1\<rparr>;
           b' = b\<lparr>ret_constraints := ret_constraints b OR BUNDLE_RET_CONSTRAINT_CUSTODY_ACCEPTED\<rparr> in
       if protocol_version b = 6 then
         bindE (deref (own_eid c)) (\<lambda>own. let (cust, as') = strdup own as in
           Inr (UD3TN_OK, hp(p \<mapsto> b'\<lparr>current_custodian := cust\<rparr>), c', as'))
       else Inr (UD3TN_FAIL, hp(p \<mapsto> b'), c', as))))"

text \<open>
  \<^verbatim>\<open>memmove\<close> of \<open>num\<close> bytes from entry \<open>i + 1\<close> to entry \<open>i\<close>: entry \<open>i + k\<close> receives the low bytes
  of the following entry that fall into the moved range and keeps its other bytes.
\<close>

definition mix_bytes :: "nat \<Rightarrow> u32 \<Rightarrow> u32 \<Rightarrow> u32" where
  "mix_bytes n old new = (new AND mask (8 * min n 4)) OR (old AND NOT (mask (8 * min n 4)))"

definition memmove_down :: "nat \<Rightarrow> nat \<Rightarrow> u32 list \<Rightarrow> u32 list" where
  "memmove_down i num ws = map (\<lambda>j. if i \<le> j \<and> Suc j < length ws \<and> 4 * (j - i) < num
      then mix_bytes (num - 4 * (j - i)) (ws ! j) (ws ! Suc j) else ws ! j) [0..<length ws]"

definition custody_manager_release ::
  "bptr \<Rightarrow> bundle_heap \<Rightarrow> storage \<Rightarrow> custody \<Rightarrow> fault + bundle_heap \<times> storage \<times> custody" where
  "custody_manager_release p hp st c = (case get_index p c of
     None \<Rightarrow> Inr (hp, st, c)
   | Some i \<Rightarrow>
      let ws = (if i \<noteq> accepted_bundle_count c - 1
                then memmove_down i (accepted_bundle_count c - i - 1) (accepted_bundles c) else accepted_bundles c);
          c' = c\<lparr>accepted_bundles := ws, accepted_bundle_count := accepted_bundle_count c - 1\<rparr> in
      bindE (heap_read hp p) (\<lambda>b.
        let b' = b\<lparr>ret_constraints := ret_constraints b AND NOT BUNDLE_RET_CONSTRAINT_CUSTODY_ACCEPTED\<rparr>;
            hp' = hp(p \<mapsto> b') in
        if ret_constraints b' = BUNDLE_RET_CONSTRAINT_NONE
        then bindE (bundle_storage_delete (bundle_id b') hp' st) (\<lambda>(r, st'). bindE (bundle_drop b') (\<lambda>u. Inr (hp'(p := None), st', c')))
        else Inr (hp', st, c')))"

section \<open>Releasing a bundle\<close>

lemma mix_low_byte: "mix_bytes 1 old new = new \<Longrightarrow> drop_bit 8 old = drop_bit 8 new"
proof (rule bit_eqI)
  fix n
  assume m: "mix_bytes 1 old new = new" and n: "possible_bit TYPE(u32) n"
  have "bit (mix_bytes 1 old new) (8 + n) = bit new (8 + n)" using m by simp
  then show "bit (drop_bit 8 old) n = bit (drop_bit 8 new) n"
    by (auto simp: mix_bytes_def bit_simps dest: bit_imp_le_length)
qed

lemma index_from_take: "index_from k P xs = Some i \<Longrightarrow> k \<le> i \<and> i - k < length xs \<and> P (xs ! (i - k)) \<and> (\<forall>j < i - k. \<not> P (xs ! j))"
proof (induction xs arbitrary: k)
  case (Cons x xs)
  show ?case
  proof (cases "P x")
    case False
    then have "index_from (Suc k) P xs = Some i" using Cons.prems by simp
    from Cons.IH[OF this] have ih: "Suc k \<le> i" "i - Suc k < length xs" "P (xs ! (i - Suc k))" "\<forall>j < i - Suc k. \<not> P (xs ! j)" by auto
    obtain d where d: "i = Suc (k + d)" using ih(1) by (metis add_Suc less_eqE)
    show ?thesis using ih False unfolding d by (auto simp: nth_Cons split: nat.splits)
  qed (use Cons.prems in auto)
qed simp

lemma index_from_None: "index_from k P xs = None \<longleftrightarrow> (\<forall>x \<in> set xs. \<not> P x)"
  by (induction xs arbitrary: k) auto

lemma memmove_down_nth [simp]: "length (memmove_down i num ws) = length ws"
  "j < length ws \<Longrightarrow> memmove_down i num ws ! j = (if i \<le> j \<and> Suc j < length ws \<and> 4 * (j - i) < num
      then mix_bytes (num - 4 * (j - i)) (ws ! j) (ws ! Suc j) else ws ! j)"
  by (simp_all add: memmove_down_def)

text \<open>The table lists the accepted bundles once each.\<close>

definition custody_inv :: "custody \<Rightarrow> bool" where
  "custody_inv c \<longleftrightarrow> length (accepted_bundles c) = CUSTODY_MAX_BUNDLE_COUNT \<and> accepted_bundle_count c \<le> CUSTODY_MAX_BUNDLE_COUNT
     \<and> distinct (take (accepted_bundle_count c) (accepted_bundles c))"

definition accepted_set :: "custody \<Rightarrow> u32 set" where
  "accepted_set c = set (take (accepted_bundle_count c) (accepted_bundles c))"

lemma has_accepted_iff: "custody_manager_has_accepted p c \<longleftrightarrow> ptr_word p \<in> accepted_set c"
  by (auto simp: custody_manager_has_accepted_def get_index_def accepted_set_def index_from_None)

lemma custody_inv_init: "custody_inv (custody_manager_init e)"
  by (simp add: custody_inv_def custody_manager_init_def)

lemma accept_keeps:
  assumes "custody_inv c" "custody_manager_accept sz hp p c as = Inr (r, hp', c', as')"
  shows "custody_inv c' \<and> accepted_set c' = insert (ptr_word p) (accepted_set c) \<and> ptr_word p \<notin> accepted_set c"
proof -
  let ?n = "accepted_bundle_count c" and ?ws = "accepted_bundles c"
  have acc: "custody_manager_storage_is_acceptable sz hp p c = Inr True" and
    c': "accepted_bundles c' = ?ws[?n := ptr_word p]" "accepted_bundle_count c' = ?n + 1"
    using assms(2) by (auto simp: custody_manager_accept_def bindE_Inr_iff Let_def split: if_splits prod.splits)
  have lt: "?n < CUSTODY_MAX_BUNDLE_COUNT" and new: "ptr_word p \<notin> accepted_set c"
    using acc has_accepted_iff[of p c] by (auto simp: custody_manager_storage_is_acceptable_def bindE_Inr_iff custody_manager_has_accepted_def)
  have "take (accepted_bundle_count c') (accepted_bundles c') = take ?n ?ws @ [ptr_word p]"
    using assms(1) lt by (simp add: c' custody_inv_def take_Suc_conv_app_nth)
  then show ?thesis using assms(1) lt new c' by (auto simp: custody_inv_def accepted_set_def)
qed

lemma release_table:
  assumes "get_index p c = Some i" "custody_manager_release p hp st c = Inr (hp', st', c')"
  shows "accepted_bundle_count c' = accepted_bundle_count c - 1"
    and "accepted_bundles c' = (if i \<noteq> accepted_bundle_count c - 1
       then memmove_down i (accepted_bundle_count c - i - 1) (accepted_bundles c) else accepted_bundles c)"
  using assms by (auto simp: custody_manager_release_def Let_def bindE_Inr_iff split: if_splits prod.splits)

section \<open>Properties\<close>

text \<open>
  C37. The table of accepted bundles holds no duplicates and never exceeds its array: accepting a bundle adds exactly it. Releasing the
  bundle accepted last removes exactly it. But releasing the last but one moves one byte of the following pointer instead of the pointer: the
  table then holds a mix of both, and when their higher bytes differ, the custody of the other bundle is lost.
\<close>

theorem custody_table:
  assumes "custody_inv c"
  shows "(custody_manager_accept sz hp p c as = Inr (r, hp', c', as') \<longrightarrow>
       custody_inv c' \<and> accepted_set c' = insert (ptr_word p) (accepted_set c) \<and> ptr_word p \<notin> accepted_set c)
    \<and> (custody_manager_release p hp st c = Inr (hp', st', c') \<and> get_index p c = Some (accepted_bundle_count c - 1) \<longrightarrow>
       custody_inv c' \<and> accepted_set c' = accepted_set c - {ptr_word p})
    \<and> (custody_manager_release p hp st c = Inr (hp', st', c') \<and> get_index p c = Some i \<and> accepted_bundle_count c = i + 2
       \<and> drop_bit 8 (accepted_bundles c ! (i + 1)) \<noteq> drop_bit 8 (ptr_word p) \<longrightarrow>
       accepted_bundles c ! (i + 1) \<in> accepted_set c \<and> accepted_bundles c ! (i + 1) \<notin> accepted_set c')"
proof (intro conjI impI; (elim conjE)?)
  let ?n = "accepted_bundle_count c" and ?ws = "accepted_bundles c"
  show "custody_inv c'" "accepted_set c' = insert (ptr_word p) (accepted_set c)" "ptr_word p \<notin> accepted_set c"
    if "custody_manager_accept sz hp p c as = Inr (r, hp', c', as')"
    using accept_keeps[OF assms that] by simp_all
  show "custody_inv c'" "accepted_set c' = accepted_set c - {ptr_word p}"
    if rel: "custody_manager_release p hp st c = Inr (hp', st', c')" and i: "get_index p c = Some (?n - 1)"
  proof -
    have ix: "?n - 1 < length (take ?n ?ws)" "take ?n ?ws ! (?n - 1) = ptr_word p" using index_from_take i by (fastforce simp: get_index_def)+
    have "accepted_bundles c' = ?ws" "accepted_bundle_count c' = ?n - 1" using release_table[OF i rel] by simp_all
    moreover have "take ?n ?ws = take (?n - 1) ?ws @ [ptr_word p]"
      using ix take_Suc_conv_app_nth[of "?n - 1" ?ws] by (cases ?n) auto
    ultimately show "custody_inv c'" "accepted_set c' = accepted_set c - {ptr_word p}"
      using assms by (auto simp: custody_inv_def accepted_set_def)
  qed
  assume rel: "custody_manager_release p hp st c = Inr (hp', st', c')" and i: "get_index p c = Some i" and n: "?n = i + 2"
    and d: "drop_bit 8 (?ws ! (i + 1)) \<noteq> drop_bit 8 (ptr_word p)"
  have len: "length ?ws = CUSTODY_MAX_BUNDLE_COUNT" "?n \<le> length ?ws" and dist: "distinct (take ?n ?ws)"
    using assms by (simp_all add: custody_inv_def)
  have pi: "?ws ! i = ptr_word p" using index_from_take[of 0 _ "take ?n ?ws" i] i n by (auto simp: get_index_def)
  show "?ws ! (i + 1) \<in> accepted_set c" using len n by (auto simp: accepted_set_def in_set_conv_nth intro!: exI[of _ "i + 1"])
  have ws': "accepted_bundles c' = memmove_down i 1 ?ws" "accepted_bundle_count c' = i + 1" using release_table[OF i rel] n by simp_all
  show "?ws ! (i + 1) \<notin> accepted_set c'"
  proof
    assume "?ws ! (i + 1) \<in> accepted_set c'"
    then obtain j where j: "j \<le> i" "memmove_down i 1 ?ws ! j = ?ws ! (i + 1)"
      unfolding accepted_set_def ws' in_set_conv_nth using len n by (auto simp: less_Suc_eq_le simp del: memmove_down_nth(2))
    show False
    proof (cases "j = i")
      case True
      then have "mix_bytes 1 (ptr_word p) (?ws ! (i + 1)) = ?ws ! (i + 1)" using j len n pi by simp
      then show False using mix_low_byte d by metis
    next
      case False
      then have "?ws ! j = ?ws ! (i + 1)" using j len n by simp
      then show False using nth_eq_iff_index_eq[OF dist, of j "i + 1"] j len n by simp
    qed
  qed
qed

definition sample_custody :: custody where
  "sample_custody = (custody_manager_init ''dtn:b'')\<lparr>accepted_bundles := [1, 512] @ replicate 14 0, accepted_bundle_count := 2\<rparr>"

theorem custody_table_witness:
  "\<exists>hp' st' c'. custody_manager_release 1 (\<lambda>_. Some (sample_bundle\<lparr>ret_constraints := BUNDLE_RET_CONSTRAINT_FORWARD_PENDING\<rparr>)) storage_init sample_custody = Inr (hp', st', c')
     \<and> custody_manager_has_accepted 512 sample_custody \<and> \<not> custody_manager_has_accepted 512 c'"
proof -
  let ?h = "\<lambda>_. Some (sample_bundle\<lparr>ret_constraints := BUNDLE_RET_CONSTRAINT_FORWARD_PENDING\<rparr>)"
  have inv: "custody_inv sample_custody" by (simp add: custody_inv_def sample_custody_def CUSTODY_MAX_BUNDLE_COUNT_def)
  have i: "get_index 1 sample_custody = Some 0" by (simp add: get_index_def sample_custody_def ptr_word_def)
  obtain hp' st' c' where r: "custody_manager_release 1 ?h storage_init sample_custody = Inr (hp', st', c')"
    using i by (simp add: custody_manager_release_def heap_read_def Let_def bundle_retention_constraints_defs)
  have "accepted_bundles sample_custody ! (0 + 1) = 512" "accepted_bundle_count sample_custody = 0 + 2"
    by (simp_all add: sample_custody_def)
  moreover have "drop_bit 8 (512 :: u32) \<noteq> drop_bit 8 (ptr_word 1)" by (simp add: ptr_word_def)
  ultimately show ?thesis
    using custody_table[OF inv, where p = 1 and hp = ?h and st = storage_init and hp' = hp' and st' = st' and c' = c' and i = 0] r i by (auto simp: has_accepted_iff ptr_word_def)
qed

end
