(* ===== verification/Bundle_Processor.thy ===== *)
theory Bundle_Processor
  imports Agent_Manager Custody_Manager Known_Bundle_List Epidemic_Router
begin

unbundle bit_operations_syntax

text \<open>
  The bundle processor of \<^verbatim>\<open>components/ud3tn/bundle_processor.c\<close>: the handlers of the signals on its queue, from the reception of a bundle
  over dispatch, forwarding, local delivery and reassembly to its deletion, with the status reports and custody signals they send.

  An operation is a function on the state of the bundle processor task, with three outcomes: it returns a value and a state, it ends in a fault,
  or (the outer \<^term>\<open>None\<close>) it does not return. Bundles are objects in a heap, and a freed bundle is not in it: reading it is the fault
  \<^term>\<open>UseAfterFree\<close>. What other tasks receive is the trace. Arguments stand for what lies outside: the clock (read once per signal), the CBOR
  coding of the hop count (an external library), the report generators and the parser of administrative records, the address the
  allocator returns for a generated report, and the contents of fresh memory.

  A handler that deletes a bundle may send a report, which is forwarded by the same code. The function \<open>bundle_forward\<close> therefore takes the
  depth of this recursion as its first argument; that two levels suffice is proved.
\<close>

section \<open>State\<close>

datatype bp_out =
  RouteBundle bundleid_t u16
| ToAgent agent_call
| Feedback nat int

record bp_state =
  bp_heap :: bundle_heap
  bp_store :: storage
  bp_known :: known_bundle_list
  bp_agents :: "agent list"
  bp_custody :: custody
  bp_reassembly :: "bptr list list"
  bp_allocs :: alloc_script
  bp_pushes :: "bool list"
  bp_trace :: "bp_out list"

record bp_env =
  bp_local_eid :: eid
  bp_status_reporting :: bool
  bp_now :: u64
  bp_hop_count_parse :: "u8 list option \<Rightarrow> u32 \<Rightarrow> bundle_hop_count option"
  bp_hop_count_serialize :: "bundle_hop_count \<Rightarrow> u8 list"
  bp_status_report :: "bundle_t \<Rightarrow> u8 \<Rightarrow> bundle_status_report_reason \<Rightarrow> bundle_t option"
  bp_custody_signal :: "bundle_t \<Rightarrow> bundle_custody_signal \<Rightarrow> bundle_t option"
  bp_parse_admin :: "u8 \<Rightarrow> u8 list \<Rightarrow> bundle_administrative_record option"
  bp_serialized_size :: "bundle_t \<Rightarrow> u64"
  bp_fresh :: "bundle_heap \<Rightarrow> bptr"
  bp_memory :: "nat \<Rightarrow> u8 list"

type_synonym 'a bp = "bp_state \<Rightarrow> (fault + 'a \<times> bp_state) option"

definition bp_return :: "'a \<Rightarrow> 'a bp" where
  "bp_return x s = Some (Inr (x, s))"

definition bp_fault :: "fault \<Rightarrow> 'a bp" where
  "bp_fault e s = Some (Inl e)"

definition bp_bind :: "'a bp \<Rightarrow> ('a \<Rightarrow> 'b bp) \<Rightarrow> 'b bp" where
  "bp_bind m f s = (case m s of None \<Rightarrow> None | Some (Inl e) \<Rightarrow> Some (Inl e) | Some (Inr (x, s')) \<Rightarrow> f x s')"

definition bp_lift :: "fault + 'a \<Rightarrow> 'a bp" where
  "bp_lift r s = (case r of Inl e \<Rightarrow> Some (Inl e) | Inr x \<Rightarrow> Some (Inr (x, s)))"

definition bp_modify :: "(bp_state \<Rightarrow> bp_state) \<Rightarrow> unit bp" where
  "bp_modify f s = Some (Inr ((), f s))"

definition bp_when :: "bool \<Rightarrow> unit bp \<Rightarrow> unit bp" where
  "bp_when c m = (if c then m else bp_return ())"

definition bp_read :: "bptr \<Rightarrow> bundle_t bp" where
  "bp_read p s = bp_lift (heap_read (bp_heap s) p) s"

definition bp_write :: "bptr \<Rightarrow> bundle_t \<Rightarrow> unit bp" where
  "bp_write p b = bp_modify (\<lambda>s. s\<lparr>bp_heap := (bp_heap s)(p \<mapsto> b)\<rparr>)"

definition bp_emit :: "bp_out \<Rightarrow> unit bp" where
  "bp_emit x = bp_modify (\<lambda>s. s\<lparr>bp_trace := bp_trace s @ [x]\<rparr>)"

definition bp_malloc :: "bool bp" where
  "bp_malloc s = Some (Inr (malloc_ok (bp_allocs s), s\<lparr>bp_allocs := malloc_rest (bp_allocs s)\<rparr>))"

section \<open>Constants\<close>

definition FAILED_FORWARD_TIMEOUT :: u16 where "FAILED_FORWARD_TIMEOUT = 1000"
definition STATUS_REPORT_TIMEOUT :: u16 where "STATUS_REPORT_TIMEOUT = 1000"
definition CUSTODY_SIGNAL_TIMEOUT :: u16 where "CUSTODY_SIGNAL_TIMEOUT = 1000"
definition BUNDLE7_HOP_COUNT_MAX_ENCODED_SIZE :: nat where "BUNDLE7_HOP_COUNT_MAX_ENCODED_SIZE = 7"

definition BUNDLE_SR_FLAG_BUNDLE_RECEIVED :: u8 where "BUNDLE_SR_FLAG_BUNDLE_RECEIVED = 0x01"
definition BUNDLE_SR_FLAG_CUSTODY_TRANSFER :: u8 where "BUNDLE_SR_FLAG_CUSTODY_TRANSFER = 0x02"
definition BUNDLE_SR_FLAG_BUNDLE_FORWARDED :: u8 where "BUNDLE_SR_FLAG_BUNDLE_FORWARDED = 0x04"
definition BUNDLE_SR_FLAG_BUNDLE_DELIVERED :: u8 where "BUNDLE_SR_FLAG_BUNDLE_DELIVERED = 0x08"
definition BUNDLE_SR_FLAG_BUNDLE_DELETED :: u8 where "BUNDLE_SR_FLAG_BUNDLE_DELETED = 0x10"

text \<open>The numbers of the status report reasons, which are compared and cast in \<^verbatim>\<open>bundle_forwarding_failed\<close>.\<close>

fun reason_number :: "bundle_status_report_reason \<Rightarrow> u8" where
  "reason_number BUNDLE_SR_REASON_NO_INFO = 0"
| "reason_number BUNDLE_SR_REASON_LIFETIME_EXPIRED = 1"
| "reason_number BUNDLE_SR_REASON_FORWARDED_UNIDIRECTIONAL = 2"
| "reason_number BUNDLE_SR_REASON_TRANSMISSION_CANCELED = 3"
| "reason_number BUNDLE_SR_REASON_DEPLETED_STORAGE = 4"
| "reason_number BUNDLE_SR_REASON_DEST_EID_UNINTELLIGIBLE = 5"
| "reason_number BUNDLE_SR_REASON_NO_KNOWN_ROUTE = 6"
| "reason_number BUNDLE_SR_REASON_NO_TIMELY_CONTACT = 7"
| "reason_number BUNDLE_SR_REASON_BLOCK_UNINTELLIGIBLE = 8"
| "reason_number BUNDLE_SR_REASON_HOP_LIMIT_EXCEEDED = 9"
| "reason_number BUNDLE_SR_REASON_TRAFFIC_PARED = 10"

section \<open>Storage, queue and retention constraints\<close>

definition bp_storage_add :: "bptr \<Rightarrow> bundleid_t bp" where
  "bp_storage_add p s = (case bundle_storage_add p (bp_heap s) (bp_store s) (bp_allocs s) of
     None \<Rightarrow> None
   | Some (Inl e) \<Rightarrow> Some (Inl e)
   | Some (Inr (i, hp, st, as)) \<Rightarrow> Some (Inr (i, s\<lparr>bp_heap := hp, bp_store := st, bp_allocs := as\<rparr>)))"

definition bp_storage_delete :: "bundleid_t \<Rightarrow> bool bp" where
  "bp_storage_delete i s = (case bundle_storage_delete i (bp_heap s) (bp_store s) of
     Inl e \<Rightarrow> Some (Inl e) | Inr (r, st) \<Rightarrow> Some (Inr (r, s\<lparr>bp_store := st\<rparr>)))"

definition bundle_discard :: "bptr \<Rightarrow> unit bp" where
  "bundle_discard p = bp_bind (bp_read p) (\<lambda>b.
     bp_bind (bp_storage_delete (bundle_id b)) (\<lambda>_.
     bp_bind (bp_read p) (\<lambda>b. bp_bind (bp_lift (bundle_drop b)) (\<lambda>_.
       bp_modify (\<lambda>s. s\<lparr>bp_heap := (bp_heap s)(p := None)\<rparr>)))))"

definition bundle_add_rc :: "bptr \<Rightarrow> u32 \<Rightarrow> unit bp" where
  "bundle_add_rc p c = bp_bind (bp_read p) (\<lambda>b. bp_write p (b\<lparr>ret_constraints := ret_constraints b OR c\<rparr>))"

definition bundle_rem_rc :: "bptr \<Rightarrow> u32 \<Rightarrow> bool \<Rightarrow> unit bp" where
  "bundle_rem_rc p c discard = bp_bind (bp_read p) (\<lambda>b.
     let b' = b\<lparr>ret_constraints := ret_constraints b AND NOT c\<rparr> in
     bp_bind (bp_write p b') (\<lambda>_.
       bp_when (discard \<and> ret_constraints b' = BUNDLE_RET_CONSTRAINT_NONE) (bundle_discard p)))"

text \<open>A push with time limit may fail: the answers are the script \<open>bp_pushes\<close>.\<close>

definition send_bundle :: "bundleid_t \<Rightarrow> u16 \<Rightarrow> ud3tn_result bp" where
  "send_bundle i timeout = (\<lambda>s.
     if timeout = 0 then bp_bind (bp_emit (RouteBundle i timeout)) (\<lambda>_. bp_return UD3TN_OK) s
     else let s' = s\<lparr>bp_pushes := tl (bp_pushes s)\<rparr> in
       if send_ok (bp_pushes s) then bp_bind (bp_emit (RouteBundle i timeout)) (\<lambda>_. bp_return UD3TN_OK) s'
       else bp_return UD3TN_FAIL s')"

section \<open>Reports, deletion and forwarding\<close>

text \<open>A generated bundle is stored and forwarded; \<open>fwd\<close> is \<^verbatim>\<open>bundle_forward\<close>.\<close>

definition forward_generated :: "bp_env \<Rightarrow> (bptr \<Rightarrow> u16 \<Rightarrow> ud3tn_result bp) \<Rightarrow> u16 \<Rightarrow> bundle_t \<Rightarrow> unit bp" where
  "forward_generated env fwd timeout b s = (let q = bp_fresh env (bp_heap s) in
     bp_bind (bp_write q b) (\<lambda>_.
     bp_bind (bundle_add_rc q BUNDLE_RET_CONSTRAINT_DISPATCH_PENDING) (\<lambda>_.
     bp_bind (bp_storage_add q) (\<lambda>_. bp_bind (fwd q timeout) (\<lambda>_. bp_return ())))) s)"

definition send_status_report ::
  "bp_env \<Rightarrow> (bptr \<Rightarrow> u16 \<Rightarrow> ud3tn_result bp) \<Rightarrow> bptr \<Rightarrow> u8 \<Rightarrow> bundle_status_report_reason \<Rightarrow> unit bp" where
  "send_status_report env fwd p status reason =
    (if \<not> bp_status_reporting env then bp_return ()
     else bp_bind (bp_read p) (\<lambda>b. bp_bind (bp_lift (deref (destination b))) (\<lambda>dest.
       if dest = ''dtn:none'' \<or> dest = bp_local_eid env then bp_return ()
       else case bp_status_report env b status reason of
         None \<Rightarrow> bp_return ()
       | Some r \<Rightarrow> forward_generated env fwd STATUS_REPORT_TIMEOUT r)))"

definition send_custody_signal :: "bp_env \<Rightarrow> (bptr \<Rightarrow> u16 \<Rightarrow> ud3tn_result bp) \<Rightarrow> bptr \<Rightarrow> bundle_custody_signal \<Rightarrow> unit bp" where
  "send_custody_signal env fwd p sig = bp_bind (bp_read p) (\<lambda>b. case bp_custody_signal env b sig of
     None \<Rightarrow> bp_return ()
   | Some r \<Rightarrow> forward_generated env fwd CUSTODY_SIGNAL_TIMEOUT r)"

definition bp_custody_release :: "bptr \<Rightarrow> unit bp" where
  "bp_custody_release p s = (case custody_manager_release p (bp_heap s) (bp_store s) (bp_custody s) of
     Inl e \<Rightarrow> Some (Inl e)
   | Inr (hp, st, c) \<Rightarrow> Some (Inr ((), s\<lparr>bp_heap := hp, bp_store := st, bp_custody := c\<rparr>)))"

definition bundle_delete ::
  "bp_env \<Rightarrow> (bptr \<Rightarrow> u16 \<Rightarrow> ud3tn_result bp) \<Rightarrow> bptr \<Rightarrow> bundle_status_report_reason \<Rightarrow> unit bp" where
  "bundle_delete env fwd p reason = bp_bind (bp_read p) (\<lambda>b.
     bp_bind (if HAS_FLAG (ret_constraints b) BUNDLE_RET_CONSTRAINT_CUSTODY_ACCEPTED
              then bp_bind (bp_custody_release p) (\<lambda>_. bp_return True)
              else bp_return (HAS_FLAG (proc_flags b) BUNDLE_FLAG_REPORT_DELETION)) (\<lambda>generate_report.
     bp_bind (bp_when generate_report (send_status_report env fwd p BUNDLE_SR_FLAG_BUNDLE_DELETED reason)) (\<lambda>_.
     bp_bind (bp_read p) (\<lambda>b.
     bp_bind (bp_write p (b\<lparr>ret_constraints := ret_constraints b AND BUNDLE_RET_CONSTRAINT_NONE\<rparr>)) (\<lambda>_.
       bundle_discard p)))))"

fun find_block_by_type :: "bundle_block list \<Rightarrow> u32 \<Rightarrow> nat option" where
  "find_block_by_type [] t = None"
| "find_block_by_type (x # xs) t = (if blk_type x = t then Some 0 else map_option Suc (find_block_by_type xs t))"

definition hop_count_validation :: "bp_env \<Rightarrow> (bptr \<Rightarrow> u16 \<Rightarrow> ud3tn_result bp) \<Rightarrow> bptr \<Rightarrow> bool bp" where
  "hop_count_validation env fwd p = bp_bind (bp_read p) (\<lambda>b.
     case find_block_by_type (blocks b) BUNDLE_BLOCK_TYPE_HOP_COUNT of
       None \<Rightarrow> bp_return True
     | Some i \<Rightarrow> (let blk = blocks b ! i in
        case bp_hop_count_parse env (blk_data blk) (blk_length blk) of
          None \<Rightarrow> bp_return True
        | Some hc \<Rightarrow>
           if hop_count hc \<ge> hop_limit hc
           then bp_bind (bundle_delete env fwd p BUNDLE_SR_REASON_HOP_LIMIT_EXCEEDED) (\<lambda>_. bp_return False)
           else bp_bind bp_malloc (\<lambda>ok.
             if \<not> ok then bp_return True
             else let buf = bp_hop_count_serialize env (hc\<lparr>hop_count := hop_count hc + 1\<rparr>) in
               bp_bind (bp_write p (b\<lparr>blocks := (blocks b)[i := blk\<lparr>blk_data := Some buf, blk_length := of_nat (length buf)\<rparr>]\<rparr>))
                 (\<lambda>_. bp_return True))))"

definition forward_body :: "bp_env \<Rightarrow> (bptr \<Rightarrow> u16 \<Rightarrow> ud3tn_result bp) \<Rightarrow> bptr \<Rightarrow> u16 \<Rightarrow> ud3tn_result bp" where
  "forward_body env fwd p timeout = bp_bind (hop_count_validation env fwd p) (\<lambda>valid.
     if \<not> valid then bp_bind (bundle_delete env fwd p BUNDLE_SR_REASON_HOP_LIMIT_EXCEEDED) (\<lambda>_. bp_return UD3TN_FAIL)
     else bp_bind (bundle_add_rc p BUNDLE_RET_CONSTRAINT_FORWARD_PENDING) (\<lambda>_.
       bp_bind (bundle_rem_rc p BUNDLE_RET_CONSTRAINT_DISPATCH_PENDING False) (\<lambda>_.
       bp_bind (bp_read p) (\<lambda>b. bp_bind (send_bundle (bundle_id b) timeout) (\<lambda>res. case res of
           UD3TN_OK \<Rightarrow> bp_return UD3TN_OK
         | UD3TN_FAIL \<Rightarrow> bp_bind (bundle_delete env fwd p BUNDLE_SR_REASON_DEPLETED_STORAGE) (\<lambda>_. bp_return UD3TN_FAIL))))))"

primrec bundle_forward :: "nat \<Rightarrow> bp_env \<Rightarrow> bptr \<Rightarrow> u16 \<Rightarrow> ud3tn_result bp" where
  "bundle_forward 0 env = (\<lambda>p timeout s. None)"
| "bundle_forward (Suc n) env = forward_body env (bundle_forward n env)"

section \<open>Results of forwarding\<close>

text \<open>The handlers below take \<open>fwd\<close> as well; the task runs them with \<^verbatim>\<open>bundle_forward\<close>, see \<open>handle_signal\<close>.\<close>

definition bp_custody_accept :: "bp_env \<Rightarrow> bptr \<Rightarrow> ud3tn_result bp" where
  "bp_custody_accept env p s = (case custody_manager_accept (bp_serialized_size env) (bp_heap s) p (bp_custody s) (bp_allocs s) of
     Inl e \<Rightarrow> Some (Inl e)
   | Inr (r, hp, c, as) \<Rightarrow> Some (Inr (r, s\<lparr>bp_heap := hp, bp_custody := c, bp_allocs := as\<rparr>)))"

definition bundle_custody_accept :: "bp_env \<Rightarrow> (bptr \<Rightarrow> u16 \<Rightarrow> ud3tn_result bp) \<Rightarrow> bptr \<Rightarrow> unit bp" where
  "bundle_custody_accept env fwd p = bp_bind (bp_custody_accept env p) (\<lambda>r. case r of
     UD3TN_FAIL \<Rightarrow> bp_return ()
   | UD3TN_OK \<Rightarrow> bp_bind (bp_read p) (\<lambda>b.
       bp_bind (bp_when (HAS_FLAG (proc_flags b) BUNDLE_V6_FLAG_REPORT_CUSTODY_ACCEPTANCE)
                  (send_status_report env fwd p BUNDLE_SR_FLAG_CUSTODY_TRANSFER BUNDLE_SR_REASON_NO_INFO)) (\<lambda>_.
         send_custody_signal env fwd p \<lparr>cs_type = BUNDLE_CS_TYPE_ACCEPTANCE, cs_reason = BUNDLE_CS_REASON_NO_INFO\<rparr>)))"

definition bundle_forwarding_scheduled :: "bp_env \<Rightarrow> (bptr \<Rightarrow> u16 \<Rightarrow> ud3tn_result bp) \<Rightarrow> bptr \<Rightarrow> unit bp" where
  "bundle_forwarding_scheduled env fwd p = bp_bind (bp_read p) (\<lambda>b.
     bp_when (HAS_FLAG (proc_flags b) BUNDLE_V6_FLAG_CUSTODY_TRANSFER_REQUESTED
        \<and> \<not> HAS_FLAG (ret_constraints b) BUNDLE_RET_CONSTRAINT_CUSTODY_ACCEPTED \<and> protocol_version b = 6)
       (bundle_custody_accept env fwd p))"

definition bundle_forwarding_success :: "bp_env \<Rightarrow> (bptr \<Rightarrow> u16 \<Rightarrow> ud3tn_result bp) \<Rightarrow> bptr \<Rightarrow> unit bp" where
  "bundle_forwarding_success env fwd p = bp_bind (bp_read p) (\<lambda>b.
     bp_bind (bp_when (HAS_FLAG (proc_flags b) BUNDLE_FLAG_REPORT_FORWARDING)
                (send_status_report env fwd p BUNDLE_SR_FLAG_BUNDLE_FORWARDED BUNDLE_SR_REASON_NO_INFO)) (\<lambda>_.
     bp_bind (bundle_rem_rc p BUNDLE_RET_CONSTRAINT_FORWARD_PENDING False) (\<lambda>_.
       bundle_rem_rc p BUNDLE_RET_CONSTRAINT_FLAG_OWN True)))"

definition bundle_forwarding_failed ::
  "bp_env \<Rightarrow> (bptr \<Rightarrow> u16 \<Rightarrow> ud3tn_result bp) \<Rightarrow> bptr \<Rightarrow> bundle_status_report_reason \<Rightarrow> unit bp" where
  "bundle_forwarding_failed env fwd p reason = bp_bind (bp_read p) (\<lambda>b.
     bp_bind (bp_when (HAS_FLAG (proc_flags b) BUNDLE_V6_FLAG_CUSTODY_TRANSFER_REQUESTED
                \<and> \<not> HAS_FLAG (ret_constraints b) BUNDLE_RET_CONSTRAINT_CUSTODY_ACCEPTED)
       (send_custody_signal env fwd p \<lparr>cs_type = BUNDLE_CS_TYPE_REFUSAL,
          cs_reason = (if reason_number reason < reason_number BUNDLE_SR_REASON_DEPLETED_STORAGE
                       then BUNDLE_CS_REASON_NO_INFO else reason_number reason)\<rparr>)) (\<lambda>_.
       bundle_delete env fwd p reason))"

definition bundle_forwarding_contraindicated ::
  "bp_env \<Rightarrow> (bptr \<Rightarrow> u16 \<Rightarrow> ud3tn_result bp) \<Rightarrow> bptr \<Rightarrow> bundle_status_report_reason \<Rightarrow> unit bp" where
  "bundle_forwarding_contraindicated env fwd p reason = bundle_forwarding_failed env fwd p reason"

definition bundle_expired :: "bp_env \<Rightarrow> (bptr \<Rightarrow> u16 \<Rightarrow> ud3tn_result bp) \<Rightarrow> bptr \<Rightarrow> unit bp" where
  "bundle_expired env fwd p = bundle_delete env fwd p BUNDLE_SR_REASON_LIFETIME_EXPIRED"

datatype failed_forwarding_policy = POLICY_DROP | POLICY_DROP_IF_NO_CUSTODY | POLICY_TRY_RE_SCHEDULE

definition FAILED_FORWARD_POLICY :: failed_forwarding_policy where "FAILED_FORWARD_POLICY = POLICY_DROP_IF_NO_CUSTODY"

definition bundle_dangling :: "bp_env \<Rightarrow> (bptr \<Rightarrow> u16 \<Rightarrow> ud3tn_result bp) \<Rightarrow> bptr \<Rightarrow> unit bp" where
  "bundle_dangling env fwd p = bp_bind (bp_read p) (\<lambda>b.
     let resched = (case FAILED_FORWARD_POLICY of
         POLICY_TRY_RE_SCHEDULE \<Rightarrow> True
       | POLICY_DROP_IF_NO_CUSTODY \<Rightarrow> HAS_FLAG (ret_constraints b) BUNDLE_RET_CONSTRAINT_CUSTODY_ACCEPTED
           \<or> HAS_FLAG (ret_constraints b) BUNDLE_RET_CONSTRAINT_FLAG_OWN
       | POLICY_DROP \<Rightarrow> False) in
     if \<not> resched then bundle_delete env fwd p BUNDLE_SR_REASON_TRANSMISSION_CANCELED
     else bp_bind (send_bundle (bundle_id b) FAILED_FORWARD_TIMEOUT) (\<lambda>res. case res of
         UD3TN_OK \<Rightarrow> bp_return ()
       | UD3TN_FAIL \<Rightarrow> bundle_delete env fwd p BUNDLE_SR_REASON_DEPLETED_STORAGE))"

section \<open>Local delivery\<close>

text \<open>The endpoint test compares the prefix only.\<close>

definition bundle_endpoint_is_local :: "bp_env \<Rightarrow> bundle_t \<Rightarrow> fault + bool" where
  "bundle_endpoint_is_local env b = bindE (deref (destination b)) (\<lambda>dest.
     Inr (length dest \<ge> length (bp_local_eid env) \<and> take (length (bp_local_eid env)) dest = bp_local_eid env))"

definition get_agent_id :: "bp_env \<Rightarrow> eid \<Rightarrow> fault + string option" where
  "get_agent_id env dest = (let l = bp_local_eid env; n = length l; d = length dest in
     if n = 0 then Inl OutOfBounds
     else if l ! (n - 1) = CHR ''/''
     then Inr (if d \<le> n \<or> dest ! (n - 1) \<noteq> CHR ''/'' then None else Some (drop n dest))
     else Inr (if d \<le> n + 1 \<or> dest ! n \<noteq> CHR ''/'' then None else Some (drop (n + 1) dest)))"

definition bundle_record_add_and_check_known :: "bp_env \<Rightarrow> bundle_t \<Rightarrow> bool bp" where
  "bundle_record_add_and_check_known env b s = (let now = bp_now env;
     l = known_bundle_list_remove_before (bp_known s) now; s1 = s\<lparr>bp_known := l\<rparr> in
     if bundle_get_expiration_time_s now b < now then bp_return True s1
     else bp_bind (bp_lift (known_bundle_list_add now now l b (bp_allocs s))) (\<lambda>(known, l', as).
       bp_bind (bp_modify (\<lambda>s. s\<lparr>bp_known := l', bp_allocs := as\<rparr>)) (\<lambda>_. bp_return known)) s1)"

definition bundle_custody_success :: "bptr \<Rightarrow> unit bp" where
  "bundle_custody_success p = bp_custody_release p"

text \<open>Every reason for a failure is handled alike.\<close>

definition bundle_custody_failure :: "bptr \<Rightarrow> u8 \<Rightarrow> unit bp" where
  "bundle_custody_failure p reason = bp_custody_release p"

definition bundle_handle_custody_signal :: "bundle_administrative_record \<Rightarrow> bundle_custody_signal \<Rightarrow> unit bp" where
  "bundle_handle_custody_signal rec sig s =
     bp_bind (bp_lift (custody_manager_get_by_record rec (bp_heap s) (bp_custody s))) (\<lambda>found. case found of
       None \<Rightarrow> bp_return ()
     | Some p \<Rightarrow> if cs_type sig = BUNDLE_CS_TYPE_ACCEPTANCE then bundle_custody_success p
                 else bundle_custody_failure p (cs_reason sig)) s"

definition bundle_deliver_adu :: "bp_env \<Rightarrow> bundle_adu \<Rightarrow> unit bp" where
  "bundle_deliver_adu env adu =
    (if HAS_FLAG (adu_proc_flags adu) BUNDLE_FLAG_ADMINISTRATIVE_RECORD
     then (case bp_parse_admin env (adu_protocol_version adu) (case adu_payload adu of None \<Rightarrow> [] | Some d \<Rightarrow> take (unat (adu_length adu)) d) of
         None \<Rightarrow> bp_return ()
       | Some rec \<Rightarrow> (case ar_custody_signal rec of None \<Rightarrow> bp_return () | Some sig \<Rightarrow> bundle_handle_custody_signal rec sig))
     else bp_bind (bp_lift (deref (adu_destination adu))) (\<lambda>dest.
       bp_bind (bp_lift (get_agent_id env dest)) (\<lambda>agent. case agent of
         None \<Rightarrow> bp_fault AssertFailed
       | Some sink \<Rightarrow> (\<lambda>s. bp_modify (\<lambda>s. s\<lparr>bp_trace := bp_trace s @ map ToAgent (snd (agent_forward sink adu (bp_agents s)))\<rparr>) s))))"

section \<open>Reassembly\<close>

definition may_reassemble :: "bundle_t \<Rightarrow> bundle_t \<Rightarrow> fault + bool" where
  "may_reassemble b1 b2 =
    (if creation_timestamp_ms b1 \<noteq> creation_timestamp_ms b2 \<or> sequence_number b1 \<noteq> sequence_number b2 then Inr False
     else strcmp_eq (source b1) (source b2))"

text \<open>The position of a new fragment in the list of its bundle, ordered by offset.\<close>

fun fragment_position :: "bundle_heap \<Rightarrow> u32 \<Rightarrow> bptr list \<Rightarrow> fault + nat" where
  "fragment_position hp off [] = Inr 0"
| "fragment_position hp off (q # qs) = bindE (heap_read hp q) (\<lambda>e.
     if fragment_offset e > off then Inr 0 else bindE (fragment_position hp off qs) (\<lambda>n. Inr (Suc n)))"

definition insert_at :: "nat \<Rightarrow> 'a \<Rightarrow> 'a list \<Rightarrow> 'a list" where
  "insert_at n x xs = take n xs @ x # drop n xs"

text \<open>The offset of the new fragment is read only when there are others.\<close>

definition add_to_reassembly_bundle_list ::
  "bp_env \<Rightarrow> (bptr \<Rightarrow> u16 \<Rightarrow> ud3tn_result bp) \<Rightarrow> bptr list \<Rightarrow> bptr \<Rightarrow> bptr list bp" where
  "add_to_reassembly_bundle_list env fwd l p =
     bp_bind (if l = [] then bp_return 0
              else bp_bind (bp_read p) (\<lambda>b s. bp_lift (fragment_position (bp_heap s) (fragment_offset b) l) s)) (\<lambda>n.
     bp_bind bp_malloc (\<lambda>ok.
       if \<not> ok then bp_bind (bundle_delete env fwd p BUNDLE_SR_REASON_DEPLETED_STORAGE) (\<lambda>_. bp_return l)
       else bp_return (insert_at n p l)))"

text \<open>
  Whether the fragments, in the order of the list, leave no gap before the end of the application data. The end of a fragment
  is computed in 32 bits and then widened.
\<close>

fun can_reassemble :: "bundle_heap \<Rightarrow> u64 \<Rightarrow> bptr list \<Rightarrow> fault + bool" where
  "can_reassemble hp pos [] = Inr False"
| "can_reassemble hp pos (q # qs) = bindE (heap_read hp q) (\<lambda>b.
     if ucast (fragment_offset b) > pos then Inr False
     else bindE (deref (payload_of b)) (\<lambda>pl.
       let pos' = ucast (fragment_offset b + blk_length pl) in
       if pos' \<ge> ucast (total_adu_length b) then Inr True else can_reassemble hp pos' qs))"

text \<open>\<^verbatim>\<open>memcpy\<close> into the buffer of the application data.\<close>

definition copy_into :: "u8 list \<Rightarrow> nat \<Rightarrow> u8 list \<Rightarrow> fault + u8 list" where
  "copy_into buf pos d = (if pos + length d \<le> length buf
     then Inr (take pos buf @ d @ drop (pos + length d) buf) else Inl OutOfBounds)"

text \<open>One turn of the loop that copies the fragments: the new position and the new buffer.\<close>

definition copy_fragment :: "u64 \<Rightarrow> bundle_t \<Rightarrow> u64 \<Rightarrow> u8 list \<Rightarrow> fault + u64 \<times> u8 list" where
  "copy_fragment alen b pos buf = bindE (deref (payload_of b)) (\<lambda>pl.
     let offset_in_bundle = pos - ucast (fragment_offset b);
         bytes_copied = min (ucast (blk_length pl) - offset_in_bundle) (alen - pos) in
     if offset_in_bundle < ucast (blk_length pl)
     then bindE (memcpy_from (blk_data pl) (unat offset_in_bundle) (unat bytes_copied)) (\<lambda>d.
       bindE (copy_into buf (unat pos) d) (\<lambda>buf'. Inr (pos + bytes_copied, buf')))
     else Inr (pos, buf))"

fun reassemble_loop :: "bp_env \<Rightarrow> u64 \<Rightarrow> bool \<Rightarrow> bptr list \<Rightarrow> u64 \<Rightarrow> u8 list \<Rightarrow> u8 list bp" where
  "reassemble_loop env alen added [] pos buf = bp_return buf"
| "reassemble_loop env alen added (q # qs) pos buf = bp_bind (bp_read q) (\<lambda>b.
     bp_bind (if added then bp_return () else (\<lambda>s.
        bp_bind (bp_lift (known_bundle_list_add_reassembled_parent (bp_now env) (bp_now env) (bp_known s) b (bp_allocs s)))
          (\<lambda>(r, l, as). bp_modify (\<lambda>s. s\<lparr>bp_known := l, bp_allocs := as\<rparr>)) s)) (\<lambda>_.
     bp_bind (bp_lift (copy_fragment alen b pos buf)) (\<lambda>(pos', buf').
     bp_bind (bundle_rem_rc q BUNDLE_RET_CONSTRAINT_REASSEMBLY_PENDING False) (\<lambda>_.
     bp_bind (bundle_discard q) (\<lambda>_. reassemble_loop env alen True qs pos' buf')))))"

definition bp_adu_init :: "bundle_t \<Rightarrow> bundle_adu bp" where
  "bp_adu_init b s = bp_bind (bp_lift (bundle_adu_init b (bp_allocs s))) (\<lambda>(adu, as).
     bp_bind (bp_modify (\<lambda>s. s\<lparr>bp_allocs := as\<rparr>)) (\<lambda>_. bp_return adu)) s"

definition try_reassemble :: "bp_env \<Rightarrow> nat \<Rightarrow> unit bp" where
  "try_reassemble env i s = (let l = bp_reassembly s ! i in
     bp_bind (bp_lift (can_reassemble (bp_heap s) 0 l)) (\<lambda>can. if \<not> can then bp_return ()
     else bp_bind (bp_read (hd l)) (\<lambda>b. let alen = ucast (total_adu_length b) in
       bp_bind bp_malloc (\<lambda>ok. if \<not> ok then bp_return ()
       else bp_bind (bp_adu_init b) (\<lambda>adu.
         bp_bind (reassemble_loop env alen False l 0 (bp_memory env (unat alen))) (\<lambda>buf.
         bp_bind (bp_modify (\<lambda>s. s\<lparr>bp_reassembly := take i (bp_reassembly s) @ drop (Suc i) (bp_reassembly s)\<rparr>)) (\<lambda>_.
           bundle_deliver_adu env (adu\<lparr>adu_payload := Some buf, adu_length := alen\<rparr>))))))) s)"

text \<open>The search over the bundles that wait for fragments.\<close>

fun find_reassembly :: "bundle_heap \<Rightarrow> bptr \<Rightarrow> bptr list list \<Rightarrow> fault + nat option" where
  "find_reassembly hp p [] = Inr None"
| "find_reassembly hp p (l # ls) = bindE (case l of [] \<Rightarrow> Inl NullDeref | q # _ \<Rightarrow> heap_read hp q) (\<lambda>e.
     bindE (heap_read hp p) (\<lambda>b. bindE (may_reassemble e b) (\<lambda>r.
       if r then Inr (Some 0) else bindE (find_reassembly hp p ls) (\<lambda>n. Inr (map_option Suc n)))))"

definition bundle_attempt_reassembly :: "bp_env \<Rightarrow> (bptr \<Rightarrow> u16 \<Rightarrow> ud3tn_result bp) \<Rightarrow> bptr \<Rightarrow> unit bp" where
  "bundle_attempt_reassembly env fwd p = bp_bind (bp_read p) (\<lambda>b.
     bp_bind (\<lambda>s. bp_lift (known_bundle_list_contains_reassembled_parent (bp_known s) b) s) (\<lambda>known.
     bp_bind (bp_when known (bp_bind (bundle_rem_rc p BUNDLE_RET_CONSTRAINT_REASSEMBLY_PENDING False) (\<lambda>_. bundle_discard p))) (\<lambda>_.
     bp_bind (\<lambda>s. bp_lift (find_reassembly (bp_heap s) p (bp_reassembly s)) s) (\<lambda>found. case found of
       Some i \<Rightarrow> (\<lambda>s. bp_bind (add_to_reassembly_bundle_list env fwd (bp_reassembly s ! i) p) (\<lambda>l.
           bp_bind (bp_modify (\<lambda>s. s\<lparr>bp_reassembly := (bp_reassembly s)[i := l]\<rparr>)) (\<lambda>_. try_reassemble env i)) s)
     | None \<Rightarrow> bp_bind bp_malloc (\<lambda>ok.
           if \<not> ok then bundle_delete env fwd p BUNDLE_SR_REASON_DEPLETED_STORAGE
           else bp_bind (add_to_reassembly_bundle_list env fwd [] p) (\<lambda>l s. 
             bp_bind (bp_modify (\<lambda>s. s\<lparr>bp_reassembly := bp_reassembly s @ [l]\<rparr>)) (\<lambda>_.
               try_reassemble env (length (bp_reassembly s))) s))))))"

definition bp_to_adu :: "bptr \<Rightarrow> bundle_adu bp" where
  "bp_to_adu p = bp_bind (bp_read p) (\<lambda>b s. bp_bind (bp_lift (bundle_to_adu b (bp_allocs s))) (\<lambda>(adu, b', as).
     bp_bind (bp_write p b') (\<lambda>_. bp_bind (bp_modify (\<lambda>s. s\<lparr>bp_allocs := as\<rparr>)) (\<lambda>_. bp_return adu))) s)"

definition bundle_deliver_local :: "bp_env \<Rightarrow> (bptr \<Rightarrow> u16 \<Rightarrow> ud3tn_result bp) \<Rightarrow> bptr \<Rightarrow> unit bp" where
  "bundle_deliver_local env fwd p =
     bp_bind (bundle_rem_rc p BUNDLE_RET_CONSTRAINT_DISPATCH_PENDING False) (\<lambda>_.
     bp_bind (bp_read p) (\<lambda>b.
     bp_bind (bundle_record_add_and_check_known env b) (\<lambda>known.
     if known then bundle_discard p else
     bp_bind (bp_when (HAS_FLAG (proc_flags b) BUNDLE_FLAG_REPORT_DELIVERY)
                (send_status_report env fwd p BUNDLE_SR_FLAG_BUNDLE_DELIVERED BUNDLE_SR_REASON_NO_INFO)) (\<lambda>_.
     bp_bind (if HAS_FLAG (proc_flags b) BUNDLE_FLAG_ADMINISTRATIVE_RECORD then bp_return True
              else bp_bind (bp_lift (deref (destination b))) (\<lambda>dest.
                bp_bind (bp_lift (get_agent_id env dest)) (\<lambda>agent. bp_return (agent \<noteq> None)))) (\<lambda>deliverable.
     if \<not> deliverable then bundle_delete env fwd p BUNDLE_SR_REASON_DEST_EID_UNINTELLIGIBLE
     else if HAS_FLAG (proc_flags b) BUNDLE_FLAG_IS_FRAGMENT
     then bp_bind (bundle_add_rc p BUNDLE_RET_CONSTRAINT_REASSEMBLY_PENDING) (\<lambda>_. bundle_attempt_reassembly env fwd p)
     else bp_bind (bp_to_adu p) (\<lambda>adu. bp_bind (bundle_discard p) (\<lambda>_. bundle_deliver_adu env adu)))))))"

section \<open>Reception\<close>

definition bundle_dispatch :: "bp_env \<Rightarrow> (bptr \<Rightarrow> u16 \<Rightarrow> ud3tn_result bp) \<Rightarrow> bptr \<Rightarrow> unit bp" where
  "bundle_dispatch env fwd p = bp_bind (bp_read p) (\<lambda>b.
     bp_bind (bp_lift (bundle_endpoint_is_local env b)) (\<lambda>here.
       if here then bundle_deliver_local env fwd p else bp_bind (fwd p 0) (\<lambda>_. bp_return ())))"

datatype bundle_handling_result = BUNDLE_HRESULT_OK | BUNDLE_HRESULT_DELETED | BUNDLE_HRESULT_BLOCK_DISCARDED

definition handle_unknown_block_flags :: "bp_env \<Rightarrow> (bptr \<Rightarrow> u16 \<Rightarrow> ud3tn_result bp) \<Rightarrow> bptr \<Rightarrow> u32 \<Rightarrow> bundle_handling_result bp" where
  "handle_unknown_block_flags env fwd p flags =
     bp_bind (bp_when (HAS_FLAG flags BUNDLE_BLOCK_FLAG_REPORT_IF_UNPROC)
                (send_status_report env fwd p BUNDLE_SR_FLAG_BUNDLE_RECEIVED BUNDLE_SR_REASON_BLOCK_UNINTELLIGIBLE)) (\<lambda>_.
       bp_return (if HAS_FLAG flags BUNDLE_BLOCK_FLAG_DELETE_BUNDLE_IF_UNPROC then BUNDLE_HRESULT_DELETED
                  else if HAS_FLAG flags BUNDLE_BLOCK_FLAG_DISCARD_IF_UNPROC then BUNDLE_HRESULT_BLOCK_DISCARDED
                  else BUNDLE_HRESULT_OK))"

text \<open>Removing a block moves the payload pointer with its block.\<close>

definition remove_block :: "nat \<Rightarrow> bundle_t \<Rightarrow> bundle_t" where
  "remove_block i b = b\<lparr>blocks := take i (blocks b) @ drop (Suc i) (blocks b),
     payload_block := (case payload_block b of None \<Rightarrow> None
       | Some j \<Rightarrow> if j = i then None else Some (if i < j then j - 1 else j))\<rparr>"

text \<open>
  The loop over the blocks, at index \<open>i\<close>; the first argument bounds the blocks left. After a block was discarded the loop
  steps over the block that took its place. The value tells whether the bundle is still there.
\<close>

fun receive_blocks :: "nat \<Rightarrow> bp_env \<Rightarrow> (bptr \<Rightarrow> u16 \<Rightarrow> ud3tn_result bp) \<Rightarrow> bptr \<Rightarrow> nat \<Rightarrow> bool bp" where
  "receive_blocks 0 env fwd p i = bp_return True"
| "receive_blocks (Suc k) env fwd p i = bp_bind (bp_read p) (\<lambda>b.
     if \<not> i < length (blocks b) then bp_return True
     else if blk_type (blocks b ! i) = BUNDLE_BLOCK_TYPE_PAYLOAD then receive_blocks k env fwd p (Suc i)
     else bp_bind (handle_unknown_block_flags env fwd p (blk_flags (blocks b ! i))) (\<lambda>res.
       bp_bind (bp_read p) (\<lambda>b. case res of
           BUNDLE_HRESULT_OK \<Rightarrow>
             bp_bind (bp_write p (b\<lparr>blocks := (blocks b)[i := (blocks b ! i)\<lparr>blk_flags := blk_flags (blocks b ! i) OR BUNDLE_V6_BLOCK_FLAG_FWD_UNPROC\<rparr>]\<rparr>))
               (\<lambda>_. receive_blocks k env fwd p (Suc i))
         | BUNDLE_HRESULT_DELETED \<Rightarrow>
             bp_bind (bundle_delete env fwd p BUNDLE_SR_REASON_BLOCK_UNINTELLIGIBLE) (\<lambda>_. bp_return False)
         | BUNDLE_HRESULT_BLOCK_DISCARDED \<Rightarrow>
             bp_bind (bp_write p (remove_block i b)) (\<lambda>_. receive_blocks k env fwd p (Suc i)))))"

definition receive_custody :: "bp_env \<Rightarrow> (bptr \<Rightarrow> u16 \<Rightarrow> ud3tn_result bp) \<Rightarrow> bptr \<Rightarrow> unit bp" where
  "receive_custody env fwd p = (\<lambda>s.
     bp_bind (bp_lift (custody_manager_has_redundant_bundle (bp_heap s) p (bp_custody s))) (\<lambda>redundant.
     if redundant then
       bp_bind (send_custody_signal env fwd p \<lparr>cs_type = BUNDLE_CS_TYPE_REFUSAL, cs_reason = BUNDLE_CS_REASON_REDUNDANT_RECEPTION\<rparr>) (\<lambda>_.
         bundle_rem_rc p BUNDLE_RET_CONSTRAINT_DISPATCH_PENDING True)
     else bp_bind (bp_lift (custody_manager_storage_is_acceptable (bp_serialized_size env) (bp_heap s) p (bp_custody s))) (\<lambda>acceptable.
       bp_when (\<not> acceptable)
         (bp_bind (send_custody_signal env fwd p \<lparr>cs_type = BUNDLE_CS_TYPE_REFUSAL, cs_reason = BUNDLE_CS_REASON_DEPLETED_STORAGE\<rparr>) (\<lambda>_.
            bundle_delete env fwd p BUNDLE_SR_REASON_DEPLETED_STORAGE)))) s)"

definition bundle_receive :: "bp_env \<Rightarrow> (bptr \<Rightarrow> u16 \<Rightarrow> ud3tn_result bp) \<Rightarrow> bptr \<Rightarrow> unit bp" where
  "bundle_receive env fwd p =
     bp_bind (bundle_add_rc p BUNDLE_RET_CONSTRAINT_DISPATCH_PENDING) (\<lambda>_.
     bp_bind (bp_read p) (\<lambda>b.
     bp_bind (bp_when (HAS_FLAG (proc_flags b) BUNDLE_FLAG_REPORT_RECEPTION)
                (send_status_report env fwd p BUNDLE_SR_FLAG_BUNDLE_RECEIVED BUNDLE_SR_REASON_NO_INFO)) (\<lambda>_.
     if creation_timestamp_ms b \<noteq> 0 \<and> bundle_get_expiration_time_s (bp_now env) b < bp_now env
     then bundle_delete env fwd p BUNDLE_SR_REASON_LIFETIME_EXPIRED
     else bp_bind (receive_blocks (length (blocks b)) env fwd p 0) (\<lambda>alive.
       bp_when alive
         (if HAS_FLAG (proc_flags b) BUNDLE_V6_FLAG_CUSTODY_TRANSFER_REQUESTED \<and> protocol_version b = 6
          then receive_custody env fwd p else bundle_dispatch env fwd p)))))"

section \<open>Signals\<close>

record agent_manager_parameters =
  am_feedback_queue :: "nat option"
  am_agent :: agent

record bundle_processor_signal =
  sig_type :: bundle_processor_signal_type
  sig_reason :: bundle_status_report_reason
  sig_bundle :: bundleid_t
  sig_extra :: "agent_manager_parameters option"

definition bundle_processor_inform ::
  "bundleid_t \<Rightarrow> bundle_processor_signal_type \<Rightarrow> bundle_status_report_reason \<Rightarrow> fault + bundle_processor_signal" where
  "bundle_processor_inform i type reason =
    (if type = BP_SIGNAL_AGENT_REGISTER \<or> type = BP_SIGNAL_AGENT_DEREGISTER then Inl AssertFailed
     else Inr \<lparr>sig_type = type, sig_reason = reason, sig_bundle = i, sig_extra = None\<rparr>)"

definition agent_feedback :: "agent_manager_parameters \<Rightarrow> int \<Rightarrow> unit bp" where
  "agent_feedback a r = (case am_feedback_queue a of None \<Rightarrow> bp_return () | Some q \<Rightarrow> bp_emit (Feedback q r))"

definition handle_agent_signal :: "bundle_processor_signal \<Rightarrow> unit bp" where
  "handle_agent_signal sig = bp_bind (bp_lift (deref (sig_extra sig))) (\<lambda>a s.
     if sig_type sig = BP_SIGNAL_AGENT_REGISTER then
       bp_bind (bp_lift (agent_register (ag_sink_identifier (am_agent a)) (ag_callback (am_agent a)) (ag_param (am_agent a)) (bp_agents s) (bp_allocs s)))
         (\<lambda>(r, l, as). bp_bind (bp_modify (\<lambda>s. s\<lparr>bp_agents := l, bp_allocs := as\<rparr>)) (\<lambda>_. agent_feedback a r)) s
     else bp_bind (bp_lift (agent_deregister (ag_sink_identifier (am_agent a)) (bp_agents s)))
         (\<lambda>(r, l). bp_bind (bp_modify (\<lambda>s. s\<lparr>bp_agents := l\<rparr>)) (\<lambda>_. agent_feedback a r)) s)"

definition handle_signal :: "nat \<Rightarrow> bp_env \<Rightarrow> bundle_processor_signal \<Rightarrow> unit bp" where
  "handle_signal n env sig = (\<lambda>s. let fwd = bundle_forward n env in
     if sig_type sig = BP_SIGNAL_AGENT_REGISTER \<or> sig_type sig = BP_SIGNAL_AGENT_DEREGISTER then handle_agent_signal sig s
     else case bundle_storage_get (sig_bundle sig) (bp_store s) of
       None \<Rightarrow> bp_return () s
     | Some p \<Rightarrow> (case sig_type sig of
           BP_SIGNAL_BUNDLE_INCOMING \<Rightarrow> bundle_receive env fwd p
         | BP_SIGNAL_BUNDLE_ROUTED \<Rightarrow> bundle_forwarding_scheduled env fwd p
         | BP_SIGNAL_FORWARDING_CONTRAINDICATED \<Rightarrow> bundle_forwarding_contraindicated env fwd p (sig_reason sig)
         | BP_SIGNAL_BUNDLE_EXPIRED \<Rightarrow> bundle_expired env fwd p
         | BP_SIGNAL_RESCHEDULE_BUNDLE \<Rightarrow> bundle_dangling env fwd p
         | BP_SIGNAL_TRANSMISSION_SUCCESS \<Rightarrow> bundle_forwarding_success env fwd p
         | BP_SIGNAL_TRANSMISSION_FAILURE \<Rightarrow> bundle_forwarding_failed env fwd p BUNDLE_SR_REASON_TRANSMISSION_CANCELED
         | BP_SIGNAL_BUNDLE_LOCAL_DISPATCH \<Rightarrow> bundle_dispatch env fwd p
         | _ \<Rightarrow> bp_return ()) s)"

text \<open>
  The request to (de)register an agent, from another task: its result and the signal it pushes. Arguments are the answers of the
  allocator and of the creation of the feedback queue, and the feedback received.
\<close>

definition bundle_processor_perform_agent_action ::
  "bundle_processor_signal_type \<Rightarrow> string option \<Rightarrow> nat option \<Rightarrow> nat \<Rightarrow> bool \<Rightarrow> bool \<Rightarrow> nat option \<Rightarrow> int option
    \<Rightarrow> fault + int \<times> bundle_processor_signal option" where
  "bundle_processor_perform_agent_action type sink cb param wait_for_feedback mem queue feedback =
    (if \<not> (type = BP_SIGNAL_AGENT_REGISTER \<and> cb \<noteq> None \<or> type = BP_SIGNAL_AGENT_DEREGISTER) then Inl AssertFailed
     else case sink of None \<Rightarrow> Inl AssertFailed
     | Some name \<Rightarrow>
        if \<not> mem then Inr (-1, None)
        else let sig = (\<lambda>fq. \<lparr>sig_type = type, sig_reason = BUNDLE_SR_REASON_NO_INFO, sig_bundle = BUNDLE_INVALID_ID,
               sig_extra = Some \<lparr>am_feedback_queue = fq, am_agent = \<lparr>ag_sink_identifier = name, ag_callback = cb, ag_param = param\<rparr>\<rparr>\<rparr>) in
          if \<not> wait_for_feedback then Inr (0, Some (sig None))
          else case queue of None \<Rightarrow> Inr (-1, None)
          | Some fq \<Rightarrow> Inr (case feedback of Some r \<Rightarrow> r | None \<Rightarrow> -1, Some (sig (Some fq))))"

text \<open>
  The task: its state after the initialisation, and the loop over what the queue delivers, each with the environment of its
  moment. A failed reception is \<^term>\<open>None\<close>.
\<close>

definition bundle_processor_init :: "eid \<Rightarrow> bundle_heap \<Rightarrow> storage \<Rightarrow> agent list \<Rightarrow> alloc_script \<Rightarrow> bool list \<Rightarrow> bp_state" where
  "bundle_processor_init eid hp st ags as pushes = \<lparr>bp_heap = hp, bp_store = st, bp_known = [], bp_agents = ags,
     bp_custody = custody_manager_init eid, bp_reassembly = [], bp_allocs = as, bp_pushes = pushes, bp_trace = []\<rparr>"

primrec bundle_processor_task :: "nat \<Rightarrow> (bp_env \<times> bundle_processor_signal option) list \<Rightarrow> unit bp" where
  "bundle_processor_task n [] = bp_return ()"
| "bundle_processor_task n (x # xs) = bp_bind (case snd x of None \<Rightarrow> bp_return () | Some sig \<Rightarrow> handle_signal n (fst x) sig)
     (\<lambda>_. bundle_processor_task n xs)"

end
