(* ===== verification/Bundle_Processor_Inv.thy ===== *)
theory Bundle_Processor_Inv
  imports Bundle_Processor
begin

unbundle bit_operations_syntax

text \<open>
  Proofs on the bundle processor: the invariant of its state, what discarding and deleting a bundle does, the depth of the
  recursion through reports, and that forwarding returns. A run of an operation is computed by the rules for \<^term>\<open>bp_bind\<close>.
\<close>

section \<open>The store as the bundle processor leaves it\<close>

text \<open>
  The store keeps its shape, but its byte counter may exceed the stored bytes: handing over a payload empties the
  payload block before the bundle is deleted from the store.
\<close>

definition store_slack :: "bundle_heap \<Rightarrow> storage \<Rightarrow> bool" where
  "store_slack hp st \<longleftrightarrow> (\<exists>n. store_inv hp (st\<lparr>bundle_bytes := n\<rparr>) \<and> n \<le> bundle_bytes st)"

lemma store_slackI: "store_inv hp st \<Longrightarrow> store_slack hp st"
  unfolding store_slack_def by (intro exI[of _ "bundle_bytes st"]) simp

lemma bundle_storage_get_bytes [simp]: "bundle_storage_get i (st\<lparr>bundle_bytes := n\<rparr>) = bundle_storage_get i st"
  by (simp add: bundle_storage_get_def)

lemma store_slack_delete:
  assumes "store_slack hp st"
  obtains st' where "bundle_storage_delete i hp st = Inr (bundle_storage_get i st \<noteq> None, st')" "store_slack hp st'"
    "\<forall>j. bundle_storage_get j st' = (if j = i then None else bundle_storage_get j st)"
    "bundle_bytes st' = bundle_bytes st - (case bundle_storage_get i st of None \<Rightarrow> 0 | Some q \<Rightarrow> payload_bytes (the (hp q)))"
    "next_id st' = next_id st"
proof -
  obtain n where n: "store_inv hp (st\<lparr>bundle_bytes := n\<rparr>)" "n \<le> bundle_bytes st" using assms by (auto simp: store_slack_def)
  obtain t where t: "bundle_storage_delete i hp (st\<lparr>bundle_bytes := n\<rparr>) = Inr (bundle_storage_get i st \<noteq> None, t)" "store_inv hp t"
    "\<forall>j. bundle_storage_get j t = (if j = i then None else bundle_storage_get j st)"
    using bstore.delete_get[OF n(1), of i] by auto
  show ?thesis
  proof (cases "i = BUNDLE_INVALID_ID \<or> find_nodeptr i False (storage_tree st) = None")
    case True
    then have "bundle_storage_get i st = None" "bundle_storage_delete i hp st = Inr (False, st)" 
      by (auto simp: bundle_storage_get_def bundle_storage_delete_def)
    then show ?thesis using t assms by (intro that[of st]) auto
  next
    case False
    then obtain fs nd where f: "find_nodeptr i False (storage_tree st) = Some (fs, nd)" "i \<noteq> BUNDLE_INVALID_ID" by auto
    obtain k p h l r where nd: "nd = Node k p h l r" using t(1) f by (cases nd) (auto simp: bundle_storage_delete_def)
    obtain b tr where b: "hp p = Some b" "\<not> n < payload_bytes b" "delete_node_at_ptr fs nd = Inr tr"
      "t = st\<lparr>storage_tree := tr, bundle_bytes := n - payload_bytes b\<rparr>"
      using t(1) f nd by (auto simp: bundle_storage_delete_def heap_read_def bindE_Inr_iff split: option.splits if_splits)
    let ?st = "st\<lparr>storage_tree := tr, bundle_bytes := bundle_bytes st - payload_bytes b\<rparr>"
    have le: "payload_bytes b \<le> n" using b(2) by simp
    have "n - payload_bytes b \<le> bundle_bytes st - payload_bytes b"
      using le n(2) by (simp add: word_le_nat_alt unat_sub)
    then have "store_slack hp ?st" using t(2) b(4) unfolding store_slack_def
      by (intro exI[of _ "n - payload_bytes b"]) simp
    moreover have "bundle_storage_delete i hp st = Inr (True, ?st)"
      using f nd b(1,3) order_trans[OF le n(2)] by (simp add: bundle_storage_delete_def heap_read_def)
    moreover have "bundle_storage_get i st = Some p" using f nd by (simp add: bundle_storage_get_def)
    moreover have "bundle_storage_get j ?st = bundle_storage_get j t" for j by (simp add: b(4) bundle_storage_get_def)
    ultimately show ?thesis using t(3) b(1) by (intro that[of ?st]) auto
  qed
qed

lemma total_bytes_mono: "(\<And>k p. (k, p) \<in> set es \<Longrightarrow> payload_bytes (the (hp' p)) \<le> payload_bytes (the (hp p))) \<Longrightarrow> total_bytes hp' es \<le> total_bytes hp es"
  unfolding total_bytes_def by (rule sum_list_mono) (auto simp: word_le_nat_alt)

text \<open>A bundle may change, keeping its id, and its payload may shrink.\<close>

lemma store_slack_upd:
  assumes "store_slack hp st" "hp p = Some b" "bundle_id b' = bundle_id b" "payload_bytes b' \<le> payload_bytes b"
  shows "store_slack (hp(p \<mapsto> b')) st"
proof -
  obtain n where n: "store_inv hp (st\<lparr>bundle_bytes := n\<rparr>)" "n \<le> bundle_bytes st" using assms(1) by (auto simp: store_slack_def)
  let ?es = "entries (storage_tree st)" and ?h = "hp(p \<mapsto> b')"
  have le: "total_bytes ?h ?es \<le> total_bytes hp ?es" by (rule total_bytes_mono) (use assms(2,4) in auto)
  have tot: "total_bytes hp ?es = unat n" using store_invD(5)[OF n(1)] by simp
  have "unat n < 2 ^ 32" by (rule order_less_le_trans[OF unsigned_less]) simp
  then have m: "unat (of_nat (total_bytes ?h ?es) :: u32) = total_bytes ?h ?es"
    using le tot by (simp add: unsigned_of_nat take_bit_nat_eq_self)
  have "store_inv ?h (st\<lparr>bundle_bytes := of_nat (total_bytes ?h ?es)\<rparr>)"
    using n(1) assms(2,3) m unfolding store_inv_def by auto
  moreover have "(of_nat (total_bytes ?h ?es) :: u32) \<le> bundle_bytes st"
    using le tot m n(2) by (simp add: word_le_nat_alt)
  ultimately show ?thesis unfolding store_slack_def by blast
qed

text \<open>A bundle that is not in the store may be freed.\<close>

lemma store_slack_get:
  assumes "store_slack hp st" "bundle_storage_get i st = Some p"
  obtains b where "hp p = Some b" "bundle_id b = i"
proof -
  obtain n where n: "store_inv hp (st\<lparr>bundle_bytes := n\<rparr>)" using assms(1) by (auto simp: store_slack_def)
  have "stored (st\<lparr>bundle_bytes := n\<rparr>) i = Some p" using bundle_storage_get_stored[OF n, of i] assms(2) by simp
  then have "map_option bundle_id (hp p) = Some i"
    using store_invD(4)[OF n] by (auto simp: stored_def dest: map_of_SomeD)
  then show ?thesis using that by auto
qed

lemma store_slack_free:
  assumes "store_slack hp st" "hp p = Some b" "bundle_storage_get (bundle_id b) st = None"
  shows "store_slack (hp(p := None)) st"
proof -
  obtain n where n: "store_inv hp (st\<lparr>bundle_bytes := n\<rparr>)" "n \<le> bundle_bytes st" using assms(1) by (auto simp: store_slack_def)
  let ?es = "entries (storage_tree st)" and ?h = "hp(p := None)"
  have st: "stored (st\<lparr>bundle_bytes := n\<rparr>) (bundle_id b) = None" using bundle_storage_get_stored[OF n(1)] assms(3) by simp
  have out: "q \<noteq> p" if "(k, q) \<in> set ?es" for k q
  proof
    assume "q = p"
    then have "k = bundle_id b" using store_invD(4)[OF n(1)] that assms(2) by fastforce
    then have "(bundle_id b, q) \<in> set ?es" using that by simp
    then show False using st by (auto simp: stored_def map_of_eq_None_iff rev_image_eqI)
  qed
  have "total_bytes ?h ?es = total_bytes hp ?es" by (rule total_bytes_cong) (use out in auto)
  then have "store_inv ?h (st\<lparr>bundle_bytes := n\<rparr>)" using n(1) out unfolding store_inv_def by auto
  then show ?thesis using n(2) unfolding store_slack_def by blast
qed

section \<open>Runs\<close>

lemma bp_bind_Inr [simp]: "m s = Some (Inr (x, s')) \<Longrightarrow> bp_bind m f s = f x s'"
  by (simp add: bp_bind_def)

lemma bp_bind_Inl [simp]: "m s = Some (Inl e) \<Longrightarrow> bp_bind m f s = Some (Inl e)"
  by (simp add: bp_bind_def)

lemma bp_prims [simp]:
  "bp_return x s = Some (Inr (x, s))" "bp_fault e s = Some (Inl e)" "bp_modify g s = Some (Inr ((), g s))"
  "bp_lift (Inr y) s = Some (Inr (y, s))" "bp_lift (Inl e) s = Some (Inl e)"
  "bp_when True m = m" "bp_when False m = bp_return ()"
  "bp_write p b s = Some (Inr ((), s\<lparr>bp_heap := (bp_heap s)(p \<mapsto> b)\<rparr>))"
  "bp_emit o' s = Some (Inr ((), s\<lparr>bp_trace := bp_trace s @ [o']\<rparr>))"
  "bp_malloc s = Some (Inr (malloc_ok (bp_allocs s), s\<lparr>bp_allocs := malloc_rest (bp_allocs s)\<rparr>))"
  by (simp_all add: bp_return_def bp_fault_def bp_modify_def bp_lift_def bp_when_def bp_write_def bp_emit_def bp_malloc_def)

lemma bp_read_live [simp]: "bp_heap s p = Some b \<Longrightarrow> bp_read p s = Some (Inr (b, s))"
  by (simp add: bp_read_def heap_read_def)

lemma bp_read_freed [simp]: "bp_heap s p = None \<Longrightarrow> bp_read p s = Some (Inl UseAfterFree)"
  by (simp add: bp_read_def heap_read_def)

lemma bp_bind_prims [simp]:
  "bp_bind (bp_return x) f s = f x s" "bp_bind (bp_lift (Inr x)) f s = f x s" "bp_bind (bp_lift (Inl e)) f s = Some (Inl e)"
  "bp_bind bp_malloc f s = f (malloc_ok (bp_allocs s)) (s\<lparr>bp_allocs := malloc_rest (bp_allocs s)\<rparr>)"
  by (simp_all add: bp_bind_def)

lemma bp_allocs_granted [simp]: "bp_allocs s = [] \<Longrightarrow> s\<lparr>bp_allocs := []\<rparr> = s"
  by (cases s) simp

lemma bp_bind_state_lift [simp]:
  "bp_bind (\<lambda>s. bp_lift (g s) s) f s = (case g s of Inl e \<Rightarrow> Some (Inl e) | Inr x \<Rightarrow> f x s)"
  by (simp add: bp_bind_def bp_lift_def split: sum.splits)

lemma bp_bind_assoc: "bp_bind (bp_bind m f) g s = bp_bind m (\<lambda>x. bp_bind (f x) g) s"
  by (auto simp: bp_bind_def split: option.splits sum.splits)

text \<open>
  The part of the state on which the handlers rely: the store, the known bundles, and an allocator that grants
  its requests.
\<close>

definition bp_inv :: "bp_state \<Rightarrow> bool" where
  "bp_inv s \<longleftrightarrow> store_slack (bp_heap s) (bp_store s) \<and> known_inv (bp_known s) \<and> bp_allocs s = []"

lemma bp_invD: "bp_inv s \<Longrightarrow> store_slack (bp_heap s) (bp_store s)" "bp_inv s \<Longrightarrow> known_inv (bp_known s)" "bp_inv s \<Longrightarrow> bp_allocs s = []"
  by (simp_all add: bp_inv_def)

lemma bp_inv_upd [invar_intros]:
  assumes "bp_inv s" "bp_heap s p = Some b" "bundle_id b' = bundle_id b" "payload_bytes b' \<le> payload_bytes b"
  shows "bp_inv (s\<lparr>bp_heap := (bp_heap s)(p \<mapsto> b')\<rparr>)"
  using assms store_slack_upd by (simp add: bp_inv_def)

lemma payload_of_ret [simp]: "payload_of (b\<lparr>ret_constraints := r\<rparr>) = payload_of b"
  by (simp add: payload_of_def split: option.splits)

lemma payload_bytes_ret [simp]: "payload_bytes (b\<lparr>ret_constraints := r\<rparr>) = payload_bytes b"
  by (simp add: payload_bytes_def)

text \<open>Discarding a bundle that nothing retains removes it from the store and from memory, and nothing else.\<close>

definition dropped :: "bptr \<Rightarrow> bundle_t \<Rightarrow> bp_state \<Rightarrow> bp_state \<Rightarrow> bool" where
  "dropped p b s s' \<longleftrightarrow> bp_heap s' = (bp_heap s)(p := None)
     \<and> (\<forall>j. bundle_storage_get j (bp_store s') = (if j = bundle_id b then None else bundle_storage_get j (bp_store s)))
     \<and> bp_known s' = bp_known s \<and> bp_agents s' = bp_agents s \<and> bp_custody s' = bp_custody s \<and> bp_reassembly s' = bp_reassembly s
     \<and> bp_allocs s' = bp_allocs s \<and> bp_pushes s' = bp_pushes s \<and> bp_trace s' = bp_trace s"

lemma bundle_discard_ok:
  assumes "bp_inv s" "bp_heap s p = Some b" "ret_constraints b = BUNDLE_RET_CONSTRAINT_NONE"
  obtains s' where "bundle_discard p s = Some (Inr ((), s'))" "bp_inv s'" "dropped p b s s'"
    "bundle_bytes (bp_store s') = bundle_bytes (bp_store s) -
       (case bundle_storage_get (bundle_id b) (bp_store s) of None \<Rightarrow> 0 | Some q \<Rightarrow> payload_bytes (the (bp_heap s q)))"
proof -
  obtain st where st: "bundle_storage_delete (bundle_id b) (bp_heap s) (bp_store s) = Inr (bundle_storage_get (bundle_id b) (bp_store s) \<noteq> None, st)"
    "store_slack (bp_heap s) st" "\<forall>j. bundle_storage_get j st = (if j = bundle_id b then None else bundle_storage_get j (bp_store s))"
    "bundle_bytes st = bundle_bytes (bp_store s) -
       (case bundle_storage_get (bundle_id b) (bp_store s) of None \<Rightarrow> 0 | Some q \<Rightarrow> payload_bytes (the (bp_heap s q)))"
    by (rule store_slack_delete[OF bp_invD(1)[OF assms(1)]])
  let ?s = "s\<lparr>bp_store := st, bp_heap := (bp_heap s)(p := None)\<rparr>"
  have del: "bp_storage_delete (bundle_id b) s = Some (Inr (bundle_storage_get (bundle_id b) (bp_store s) \<noteq> None, s\<lparr>bp_store := st\<rparr>))"
    using st(1) by (simp add: bp_storage_delete_def)
  have drop: "bundle_drop b = Inr ()"
    using assms(3) by (simp add: bundle_drop_def)
  have run: "bundle_discard p s = Some (Inr ((), ?s))"
    unfolding bundle_discard_def using assms(2) del drop by (simp only: bp_bind_Inr bp_read_live) simp
  have "store_slack (bp_heap ?s) (bp_store ?s)"
    using store_slack_free[OF st(2) assms(2)] st(3) by simp
  then show ?thesis using assms(1) st(3,4) run by (intro that[of ?s]) (simp_all add: bp_inv_def dropped_def)
qed

lemma bundle_add_rc_ok:
  "bp_heap s p = Some b \<Longrightarrow>
   bundle_add_rc p c s = Some (Inr ((), s\<lparr>bp_heap := (bp_heap s)(p \<mapsto> b\<lparr>ret_constraints := ret_constraints b OR c\<rparr>)\<rparr>))"
  by (simp add: bundle_add_rc_def)

lemma bundle_rem_rc_keep:
  "bp_heap s p = Some b \<Longrightarrow>
   bundle_rem_rc p c False s = Some (Inr ((), s\<lparr>bp_heap := (bp_heap s)(p \<mapsto> b\<lparr>ret_constraints := ret_constraints b AND NOT c\<rparr>)\<rparr>))"
  by (simp add: bundle_rem_rc_def Let_def)

section \<open>Deletion\<close>

lemma bundle_delete_quiet:
  assumes "bp_inv s" "bp_heap s p = Some b" "\<not> HAS_FLAG (ret_constraints b) BUNDLE_RET_CONSTRAINT_CUSTODY_ACCEPTED"
    "\<not> HAS_FLAG (proc_flags b) BUNDLE_FLAG_REPORT_DELETION \<or> \<not> bp_status_reporting env"
  obtains s' where "bundle_delete env fwd p reason s = Some (Inr ((), s'))" "bp_inv s'" "dropped p b s s'"
proof -
  let ?b = "b\<lparr>ret_constraints := ret_constraints b AND BUNDLE_RET_CONSTRAINT_NONE\<rparr>"
  let ?s = "s\<lparr>bp_heap := (bp_heap s)(p \<mapsto> ?b)\<rparr>"
  have inv: "bp_inv ?s" using bp_inv_upd[OF assms(1,2), of ?b] by simp
  have "ret_constraints ?b = BUNDLE_RET_CONSTRAINT_NONE" by (simp add: bundle_retention_constraints_defs)
  then obtain s' where s': "bundle_discard p ?s = Some (Inr ((), s'))" "bp_inv s'" "dropped p ?b ?s s'"
    using bundle_discard_ok[OF inv, of p ?b] by auto
  have q: "bp_when (HAS_FLAG (proc_flags b) BUNDLE_FLAG_REPORT_DELETION)
      (send_status_report env fwd p BUNDLE_SR_FLAG_BUNDLE_DELETED reason) s = Some (Inr ((), s))"
    using assms(4) by (auto simp: send_status_report_def bp_when_def)
  have "bundle_delete env fwd p reason s = Some (Inr ((), s'))"
    using assms(2,3) s'(1) q by (simp add: bundle_delete_def)
  moreover have "dropped p b s s'" using s'(3) by (simp add: dropped_def)
  ultimately show ?thesis using that s'(2) by blast
qed

lemma bundle_delete_freed: "bp_heap s p = None \<Longrightarrow> bundle_delete env fwd p reason s = Some (Inl UseAfterFree)"
  by (simp add: bundle_delete_def)

lemma hop_limit_run:
  assumes "bp_inv s" "bp_heap s p = Some b" "\<not> HAS_FLAG (ret_constraints b) BUNDLE_RET_CONSTRAINT_CUSTODY_ACCEPTED"
    "\<not> HAS_FLAG (proc_flags b) BUNDLE_FLAG_REPORT_DELETION \<or> \<not> bp_status_reporting env"
    "find_block_by_type (blocks b) BUNDLE_BLOCK_TYPE_HOP_COUNT = Some i"
    "bp_hop_count_parse env (blk_data (blocks b ! i)) (blk_length (blocks b ! i)) = Some hc" "hop_limit hc \<le> hop_count hc"
  shows "forward_body env fwd p timeout s = Some (Inl UseAfterFree)"
proof -
  obtain s' where s': "bundle_delete env fwd p BUNDLE_SR_REASON_HOP_LIMIT_EXCEEDED s = Some (Inr ((), s'))" "dropped p b s s'"
    by (rule bundle_delete_quiet[OF assms(1-4)])
  have "hop_count_validation env fwd p s = Some (Inr (False, s'))"
    using assms(2,5,6,7) s'(1) by (simp add: hop_count_validation_def Let_def)
  moreover have "bp_heap s' p = None" using s'(2) by (simp add: dropped_def)
  ultimately show ?thesis using bundle_delete_freed by (simp add: forward_body_def bp_bind_def)
qed

section \<open>The depth of the recursion\<close>

text \<open>A bundle whose forwarding and deletion send no report.\<close>

definition plain_report :: "bundle_t \<Rightarrow> bool" where
  "plain_report b \<longleftrightarrow> find_block_by_type (blocks b) BUNDLE_BLOCK_TYPE_HOP_COUNT = None
     \<and> \<not> HAS_FLAG (proc_flags b) BUNDLE_FLAG_REPORT_DELETION \<and> \<not> HAS_FLAG (ret_constraints b) BUNDLE_RET_CONSTRAINT_CUSTODY_ACCEPTED"

lemma has_flag_or [simp]: "HAS_FLAG (x OR y) f \<longleftrightarrow> HAS_FLAG x f \<or> HAS_FLAG y f"
  by (simp add: HAS_FLAG_def word_ao_dist or_eq_0_iff)

lemma has_flag_and: "HAS_FLAG (x AND y) f \<Longrightarrow> HAS_FLAG x f"
  by (auto simp: HAS_FLAG_def and.assoc and.left_commute[of x y f])

lemma custody_flag [simp]:
  "\<not> HAS_FLAG BUNDLE_RET_CONSTRAINT_DISPATCH_PENDING BUNDLE_RET_CONSTRAINT_CUSTODY_ACCEPTED"
  "\<not> HAS_FLAG BUNDLE_RET_CONSTRAINT_FORWARD_PENDING BUNDLE_RET_CONSTRAINT_CUSTODY_ACCEPTED"
  by (simp_all add: HAS_FLAG_def bundle_retention_constraints_defs)

lemma bundle_discard_returns [simp]: "(bundle_discard p s = None) = False"
  by (auto simp: bundle_discard_def bp_bind_def bp_storage_delete_def bp_read_def bp_lift_def bp_modify_def split: option.splits sum.splits)

lemma plain_delete:
  assumes "bp_heap s p = Some b" "plain_report b"
  shows "bundle_delete env fwd p reason s = bp_bind (bp_write p (b\<lparr>ret_constraints := ret_constraints b AND BUNDLE_RET_CONSTRAINT_NONE\<rparr>))
     (\<lambda>_. bundle_discard p) s"
  using assms by (simp add: bundle_delete_def plain_report_def)

text \<open>Forwarding such a bundle does not recur, and returns.\<close>

definition forward_plain :: "bptr \<Rightarrow> u16 \<Rightarrow> bundle_t \<Rightarrow> ud3tn_result bp" where
  "forward_plain p timeout b = (let b' = b\<lparr>ret_constraints := (ret_constraints b OR BUNDLE_RET_CONSTRAINT_FORWARD_PENDING)
       AND NOT BUNDLE_RET_CONSTRAINT_DISPATCH_PENDING\<rparr> in
     bp_bind (bp_write p b') (\<lambda>_. bp_bind (send_bundle (bundle_id b) timeout) (\<lambda>res. case res of
         UD3TN_OK \<Rightarrow> bp_return UD3TN_OK
       | UD3TN_FAIL \<Rightarrow> bp_bind (bp_write p (b'\<lparr>ret_constraints := ret_constraints b' AND BUNDLE_RET_CONSTRAINT_NONE\<rparr>))
           (\<lambda>_. bp_bind (bundle_discard p) (\<lambda>_. bp_return UD3TN_FAIL)))))"

lemma forward_body_plain:
  assumes "bp_heap s p = Some b" "plain_report b"
  shows "forward_body env fwd p timeout s = forward_plain p timeout b s"
proof -
  let ?b = "b\<lparr>ret_constraints := (ret_constraints b OR BUNDLE_RET_CONSTRAINT_FORWARD_PENDING) AND NOT BUNDLE_RET_CONSTRAINT_DISPATCH_PENDING\<rparr>"
  let ?s = "s\<lparr>bp_heap := (bp_heap s)(p \<mapsto> ?b)\<rparr>"
  have hop: "hop_count_validation env fwd p s = Some (Inr (True, s))"
    using assms by (simp add: hop_count_validation_def plain_report_def)
  have pl: "plain_report ?b" using assms(2) by (auto simp: plain_report_def dest: has_flag_and)
  have del: "bundle_delete env fwd p r s' = bp_bind (bp_write p (?b\<lparr>ret_constraints := ret_constraints ?b AND BUNDLE_RET_CONSTRAINT_NONE\<rparr>))
     (\<lambda>_. bundle_discard p) s'" if "bp_heap s' p = Some ?b" for s' r
    by (rule plain_delete[OF that pl])
  have rc: "bundle_rem_rc p BUNDLE_RET_CONSTRAINT_DISPATCH_PENDING False (s\<lparr>bp_heap := (bp_heap s)(p \<mapsto> b\<lparr>ret_constraints := ret_constraints b OR BUNDLE_RET_CONSTRAINT_FORWARD_PENDING\<rparr>)\<rparr>)
     = Some (Inr ((), ?s))"
    using bundle_rem_rc_keep[of "s\<lparr>bp_heap := (bp_heap s)(p \<mapsto> b\<lparr>ret_constraints := ret_constraints b OR BUNDLE_RET_CONSTRAINT_FORWARD_PENDING\<rparr>)\<rparr>" p
      "b\<lparr>ret_constraints := ret_constraints b OR BUNDLE_RET_CONSTRAINT_FORWARD_PENDING\<rparr>"] by simp
  have "forward_body env fwd p timeout s = bp_bind (send_bundle (bundle_id b) timeout) (\<lambda>res. case res of
           UD3TN_OK \<Rightarrow> bp_return UD3TN_OK
         | UD3TN_FAIL \<Rightarrow> bp_bind (bundle_delete env fwd p BUNDLE_SR_REASON_DEPLETED_STORAGE) (\<lambda>_. bp_return UD3TN_FAIL)) ?s"
    using hop rc assms(1) bundle_add_rc_ok[OF assms(1)] by (simp add: forward_body_def bp_bind_def)
  also have "\<dots> = forward_plain p timeout b s"
    by (simp add: forward_plain_def send_bundle_def Let_def del bp_bind_def)
  finally show ?thesis .
qed

lemma forward_plain_returns: "forward_plain p timeout b s \<noteq> None"
  by (auto simp: forward_plain_def send_bundle_def Let_def bp_bind_def bp_return_def split: option.splits sum.splits)

definition plain_fwd :: "bptr \<Rightarrow> u16 \<Rightarrow> ud3tn_result bp" where
  "plain_fwd q timeout s = forward_plain q timeout (the (bp_heap s q)) s"

definition plain_reports :: "bp_env \<Rightarrow> bool" where
  "plain_reports env \<longleftrightarrow> (\<forall>b st r x. bp_status_report env b st r = Some x \<longrightarrow> plain_report x)"

lemma bundle_forward_plain:
  assumes "bp_heap s q = Some b" "plain_report b"
  shows "bundle_forward (Suc n) env q timeout s = plain_fwd q timeout s"
  using forward_body_plain[OF assms] assms(1) by (simp add: plain_fwd_def)

lemma bp_storage_add_heap:
  assumes "bp_storage_add q s = Some (Inr (i, s'))" "bp_heap s q = Some b" "plain_report b"
  obtains b' where "bp_heap s' q = Some b'" "plain_report b'"
  using assms
  by (auto simp: bp_storage_add_def bundle_storage_add_def heap_read_def bindE_Inr_iff plain_report_def split: option.splits sum.splits if_splits)

lemma forward_generated_plain:
  assumes "plain_report r"
  shows "forward_generated env (bundle_forward (Suc n) env) timeout r s = forward_generated env plain_fwd timeout r s"
proof -
  let ?q = "bp_fresh env (bp_heap s)" and ?r = "r\<lparr>ret_constraints := ret_constraints r OR BUNDLE_RET_CONSTRAINT_DISPATCH_PENDING\<rparr>"
  let ?s = "s\<lparr>bp_heap := (bp_heap s)(?q \<mapsto> ?r)\<rparr>"
  have pl: "plain_report ?r" using assms by (simp add: plain_report_def)
  have run: "forward_generated env fwd timeout r s = bp_bind (bp_storage_add ?q) (\<lambda>_. bp_bind (fwd ?q timeout) (\<lambda>_. bp_return ())) ?s" for fwd
    by (simp add: forward_generated_def Let_def bundle_add_rc_def)
  have "bundle_forward (Suc n) env ?q timeout s' = plain_fwd ?q timeout s'" if st: "bp_storage_add ?q ?s = Some (Inr (i, s'))" for i s'
  proof -
    have hq: "bp_heap ?s ?q = Some ?r" by simp
    obtain b' where "bp_heap s' ?q = Some b'" "plain_report b'" by (rule bp_storage_add_heap[OF st hq pl])
    then show ?thesis by (rule bundle_forward_plain)
  qed
  then show ?thesis unfolding run by (simp add: bp_bind_def split: option.splits sum.splits)
qed

lemma send_status_report_depth:
  assumes "plain_reports env"
  shows "send_status_report env (bundle_forward (Suc n) env) p st reason = send_status_report env plain_fwd p st reason"
proof (rule ext)
  fix s
  have "forward_generated env (bundle_forward (Suc n) env) STATUS_REPORT_TIMEOUT r = forward_generated env plain_fwd STATUS_REPORT_TIMEOUT r"
    if "bp_status_report env b st reason = Some r" for b r
    by (rule ext, rule forward_generated_plain) (use that assms in \<open>auto simp: plain_reports_def\<close>)
  then show "send_status_report env (bundle_forward (Suc n) env) p st reason s = send_status_report env plain_fwd p st reason s"
    by (auto simp: send_status_report_def bp_bind_def split: option.splits sum.splits)
qed

lemma bundle_forward_depth:
  assumes "plain_reports env"
  shows "bundle_forward (Suc (Suc n)) env = forward_body env plain_fwd"
proof -
  note d = send_status_report_depth[OF assms]
  have del: "bundle_delete env (bundle_forward (Suc n) env) = bundle_delete env plain_fwd"
    by (intro ext) (simp only: bundle_delete_def d)
  then have "hop_count_validation env (bundle_forward (Suc n) env) = hop_count_validation env plain_fwd"
    by (intro ext) (simp only: hop_count_validation_def)
  then have "forward_body env (bundle_forward (Suc n) env) = forward_body env plain_fwd"
    using del by (intro ext) (simp only: forward_body_def)
  then show ?thesis by (simp del: bundle_forward.simps add: bundle_forward.simps(2)[of "Suc n"])
qed

section \<open>Forwarding returns\<close>

definition store_room :: "bp_state \<Rightarrow> bool" where
  "store_room s \<longleftrightarrow> bst (storage_tree (bp_store s)) \<and> length (entries (storage_tree (bp_store s))) < 65535"

lemma store_room_heap [simp]: "store_room (s\<lparr>bp_heap := h\<rparr>) = store_room s" "store_room (s\<lparr>bp_allocs := a\<rparr>) = store_room s"
  "store_room (s\<lparr>bp_pushes := x\<rparr>) = store_room s" "store_room (s\<lparr>bp_trace := o'\<rparr>) = store_room s"
  by (simp_all add: store_room_def)

lemma bp_storage_add_returns:
  assumes "store_room s"
  shows "bp_storage_add q s \<noteq> None"
proof -
  obtain j where "find_free_id (storage_tree (bp_store s)) (next_id (bp_store s)) (next_id (bp_store s) + 1) = Some (j, j + 1)"
    using find_free_id_returns assms unfolding store_room_def by blast
  then show ?thesis by (auto simp: bp_storage_add_def bundle_storage_add_def split: option.splits sum.splits)
qed

lemma plain_fwd_returns [simp]: "(plain_fwd q t s = None) = False"
  using forward_plain_returns by (simp add: plain_fwd_def)

lemma bp_bind_None: "bp_bind m f s = None \<longleftrightarrow> m s = None \<or> (\<exists>x s'. m s = Some (Inr (x, s')) \<and> f x s' = None)"
  by (auto simp: bp_bind_def split: option.splits sum.splits)

lemma forward_generated_returns:
  assumes "store_room s"
  shows "forward_generated env plain_fwd t r s \<noteq> None"
  using bp_storage_add_returns assms by (simp add: forward_generated_def Let_def bp_bind_None bundle_add_rc_def)

lemma send_status_report_returns:
  assumes "store_room s"
  shows "send_status_report env plain_fwd p st r s \<noteq> None"
  by (rule notI) (auto simp: send_status_report_def forward_generated_returns[OF assms] bp_bind_None bp_read_def bp_lift_def
      split: option.splits sum.splits if_splits)

lemma bundle_delete_returns:
  assumes "store_room s" "\<And>b. bp_heap s p = Some b \<Longrightarrow> \<not> HAS_FLAG (ret_constraints b) BUNDLE_RET_CONSTRAINT_CUSTODY_ACCEPTED"
  shows "bundle_delete env plain_fwd p r s \<noteq> None"
proof (cases "bp_heap s p")
  case (Some b)
  have rep: "bp_when c (send_status_report env plain_fwd p st r) s \<noteq> None" for c st
    using send_status_report_returns[OF assms(1)] by (simp add: bp_when_def)
  have rest: "bp_bind (bp_read p) (\<lambda>b. bp_bind (bp_write p (g b)) (\<lambda>_. bundle_discard p)) s' \<noteq> None" for g s'
    by (cases "bp_heap s' p") (simp_all add: bp_bind_def[of "bp_write p _"])
  show ?thesis by (rule notI) (use Some assms(2) rep rest in \<open>simp add: bundle_delete_def bp_bind_None[of "bp_when _ _"]\<close>)
qed (simp add: bundle_delete_freed)

lemma bundle_delete_frees:
  assumes "bundle_delete env fwd p r s = Some (Inr (u, s'))"
  shows "bp_heap s' p = None"
  using assms by (auto simp: bundle_delete_def bundle_discard_def bp_bind_def bp_modify_def split: option.splits sum.splits)

lemma forward_returns:
  assumes "store_room s" "bp_heap s p = Some b" "\<not> HAS_FLAG (ret_constraints b) BUNDLE_RET_CONSTRAINT_CUSTODY_ACCEPTED"
  shows "forward_body env plain_fwd p timeout s \<noteq> None"
proof -
  have d: "bundle_delete env plain_fwd p r s' \<noteq> None"
    if "store_room s'" "bp_heap s' p = Some b'" "\<not> HAS_FLAG (ret_constraints b') BUNDLE_RET_CONSTRAINT_CUSTODY_ACCEPTED" for s' b' r
    by (rule bundle_delete_returns) (use that in auto)
  have h: "hop_count_validation env plain_fwd p s \<noteq> None"
    using assms(2) by (intro notI) (auto simp: hop_count_validation_def bp_bind_None[of "bundle_delete env plain_fwd p _"] d[OF assms] Let_def split: option.splits if_splits)
  have h2: "if v then store_room s' \<and> (\<exists>b'. bp_heap s' p = Some b' \<and> \<not> HAS_FLAG (ret_constraints b') BUNDLE_RET_CONSTRAINT_CUSTODY_ACCEPTED)
     else bp_heap s' p = None" if "hop_count_validation env plain_fwd p s = Some (Inr (v, s'))" for v s'
    using that assms by (auto simp: hop_count_validation_def bp_bind_def Let_def bp_return_def dest: bundle_delete_frees
        split: option.splits sum.splits if_splits)
  show ?thesis
  proof (cases "hop_count_validation env plain_fwd p s")
    case None
    then show ?thesis using h by simp
  next
    case (Some r)
    show ?thesis
    proof (cases r)
      case (Inl e)
      then show ?thesis using Some by (simp add: forward_body_def)
    next
      case (Inr x)
      obtain v s' where x: "x = (v, s')" by (cases x)
      show ?thesis
      proof (cases v)
        case False
        then show ?thesis using Some Inr x h2[of v s'] by (auto simp: forward_body_def bp_bind_def bundle_delete_freed)
      next
        case True
        then obtain b' where b': "bp_heap s' p = Some b'" "\<not> HAS_FLAG (ret_constraints b') BUNDLE_RET_CONSTRAINT_CUSTODY_ACCEPTED" "store_room s'"
          using Some Inr x h2[of v s'] by auto
        let ?b = "b'\<lparr>ret_constraints := (ret_constraints b' OR BUNDLE_RET_CONSTRAINT_FORWARD_PENDING) AND NOT BUNDLE_RET_CONSTRAINT_DISPATCH_PENDING\<rparr>"
        have fl: "\<not> HAS_FLAG (ret_constraints ?b) BUNDLE_RET_CONSTRAINT_CUSTODY_ACCEPTED" using b'(2) by (auto dest: has_flag_and)
        have dd: "bundle_delete env plain_fwd p r (s'\<lparr>bp_heap := (bp_heap s')(p \<mapsto> ?b), bp_pushes := x\<rparr>) \<noteq> None" for r x
          by (rule d[OF _ _ fl]) (use b'(3) in simp_all)
        show ?thesis using Some Inr x True b'(1)
          by (intro notI) (auto simp: dd forward_body_def bp_bind_def bundle_add_rc_def bundle_rem_rc_def send_bundle_def Let_def bp_return_def
              split: option.splits sum.splits ud3tn_result.splits if_splits)
      qed
    qed
  qed
qed

section \<open>Properties\<close>


definition sample_env :: bp_env where
  "sample_env = \<lparr>bp_local_eid = ''dtn:b'', bp_status_reporting = True, bp_now = 10,
     bp_hop_count_parse = (\<lambda>d l. Some \<lparr>hop_limit = 3, hop_count = 3\<rparr>), bp_hop_count_serialize = (\<lambda>h. [0]),
     bp_status_report = (\<lambda>b st r. Some sample_bundle), bp_custody_signal = (\<lambda>b c. None), bp_parse_admin = (\<lambda>v d. None),
     bp_serialized_size = (\<lambda>b. 0), bp_fresh = (\<lambda>h. 7), bp_memory = (\<lambda>n. replicate n 0)\<rparr>"

definition sample_state :: bp_state where
  "sample_state = \<lparr>bp_heap = sample_heap1, bp_store = sample_store, bp_known = [],
     bp_agents = [\<lparr>ag_sink_identifier = ''x'', ag_callback = Some 1, ag_param = 0\<rparr>], bp_custody = custody_manager_init ''dtn:b'',
     bp_reassembly = [], bp_allocs = [], bp_pushes = [], bp_trace = []\<rparr>"

lemma sample_slack: "store_slack sample_heap1 sample_store"
  by (rule store_slackI[OF storage_reach_inv[OF sample_reach]])

lemma sample_inv: "bp_inv sample_state"
  using sample_slack by (simp add: bp_inv_def sample_state_def known_inv_def)

lemma sample_plain: "plain_reports sample_env"
  by (simp add: plain_reports_def sample_env_def plain_report_def sample_bundle_def sample_block_def HAS_FLAG_def
      bundle_proc_flags_defs bundle_retention_constraints_defs bundle_block_defs)


text \<open>
  C23. Forwarding a bundle whose hop count has reached its limit reads freed memory: the hop count validation deletes
  the bundle, and \<^verbatim>\<open>bundle_forward\<close> deletes it a second time. This holds for every bundle that asks for no deletion
  report and is not in custody.
\<close>

theorem hop_limit_use_after_free:
  assumes "bp_inv s" "bp_heap s p = Some b" "\<not> HAS_FLAG (ret_constraints b) BUNDLE_RET_CONSTRAINT_CUSTODY_ACCEPTED"
    and "\<not> HAS_FLAG (proc_flags b) BUNDLE_FLAG_REPORT_DELETION \<or> \<not> bp_status_reporting env"
    and "find_block_by_type (blocks b) BUNDLE_BLOCK_TYPE_HOP_COUNT = Some i"
    and "bp_hop_count_parse env (blk_data (blocks b ! i)) (blk_length (blocks b ! i)) = Some hc" "hop_limit hc \<le> hop_count hc"
  shows "bundle_forward (Suc n) env p timeout s = Some (Inl UseAfterFree)"
  using hop_limit_run[OF assms] by simp

definition hop_bundle :: bundle_t where
  "hop_bundle = sample_bundle\<lparr>bundle_id := 1, blocks := [sample_block, sample_block\<lparr>blk_type := BUNDLE_BLOCK_TYPE_HOP_COUNT\<rparr>]\<rparr>"

theorem hop_limit_use_after_free_witness:
  "bundle_forward 2 sample_env 1 0 (sample_state\<lparr>bp_heap := sample_heap1(1 \<mapsto> hop_bundle)\<rparr>) = Some (Inl UseAfterFree)"
proof -
  let ?s = "sample_state\<lparr>bp_heap := sample_heap1(1 \<mapsto> hop_bundle)\<rparr>"
  have "payload_bytes hop_bundle = 2"
    by (simp add: hop_bundle_def payload_bytes_def payload_of_def sample_bundle_def sample_block_def)
  then have "bp_inv ?s"
    using bp_inv_upd[OF sample_inv, of 1 "sample_bundle\<lparr>bundle_id := 1\<rparr>" hop_bundle]
    by (simp add: sample_state_def sample_heap1_def hop_bundle_def payload_bytes_def payload_of_def sample_bundle_def sample_block_def)
  moreover have "find_block_by_type (blocks hop_bundle) BUNDLE_BLOCK_TYPE_HOP_COUNT = Some 1"
    by (simp add: hop_bundle_def sample_block_def bundle_block_defs)
  moreover have "\<not> HAS_FLAG (ret_constraints hop_bundle) BUNDLE_RET_CONSTRAINT_CUSTODY_ACCEPTED" "\<not> HAS_FLAG (proc_flags hop_bundle) BUNDLE_FLAG_REPORT_DELETION"
    by (simp_all add: hop_bundle_def sample_bundle_def HAS_FLAG_def)
  moreover have "bp_hop_count_parse sample_env d l = Some \<lparr>hop_limit = 3, hop_count = 3\<rparr>" for d l by (simp add: sample_env_def)
  moreover have "(2 :: nat) = Suc 1" by simp
  ultimately show ?thesis
    using hop_limit_use_after_free[of ?s 1 hop_bundle sample_env 1 "\<lparr>hop_limit = 3, hop_count = 3\<rparr>" 1 0]
    by (simp del: bundle_forward.simps add: numeral_2_eq_2)
qed

end
