(* ===== verification/Delivery.thy ===== *)
theory Delivery
  imports Bundle_Processor_Inv
begin

unbundle bit_operations_syntax

text \<open>
  Proofs on local delivery and reassembly in \<^verbatim>\<open>components/ud3tn/bundle_processor.c\<close>: fragments that partition the
  application data give it back whatever the order of their arrival, and a bundle for a local agent is handed over once.
\<close>

section \<open>Reassembly\<close>

lemma unat_u32_less: "unat (x :: u32) < 2 ^ 32"
  by (rule order_less_le_trans[OF unsigned_less]) simp

lemma unat_ucast_32_64 [simp]: "unat (ucast (x :: u32) :: u64) = unat x"
  by (rule unat_ucast_up) simp

text \<open>A bundle is a fragment of the application data \<open>D\<close>: its payload is the part of \<open>D\<close> at its offset.\<close>

definition frag_off :: "bundle_t \<Rightarrow> nat" where "frag_off b = unat (fragment_offset b)"
definition frag_end :: "bundle_t \<Rightarrow> nat" where "frag_end b = unat (fragment_offset b) + unat (payload_bytes b)"

definition fragment_of :: "u8 list \<Rightarrow> bundle_t \<Rightarrow> bool" where
  "fragment_of D b \<longleftrightarrow> wf_bundle b \<and> unat (total_adu_length b) = length D \<and> frag_end b \<le> length D
     \<and> (\<exists>pl. payload_of b = Some pl \<and> blk_data pl = Some (take (unat (blk_length pl)) (drop (frag_off b) D)))"

lemma fragment_ofD:
  assumes "fragment_of D b"
  obtains pl where "payload_of b = Some pl" "payload_bytes b = blk_length pl" "frag_off b \<le> frag_end b" "frag_end b \<le> length D"
    "blk_data pl = Some (take (frag_end b - frag_off b) (drop (frag_off b) D))" "unat (blk_length pl) = frag_end b - frag_off b"
    "length D < 2 ^ 32" "unat (total_adu_length b) = length D"
proof -
  obtain pl where pl: "payload_of b = Some pl" "blk_data pl = Some (take (unat (blk_length pl)) (drop (frag_off b) D))"
    using assms by (auto simp: fragment_of_def)
  have pb: "payload_bytes b = blk_length pl" using pl(1) by (simp add: payload_bytes_def)
  then have "unat (blk_length pl) = frag_end b - frag_off b" by (simp add: frag_end_def frag_off_def)
  then show ?thesis using pl pb assms unat_u32_less[of "total_adu_length b"]
    by (intro that[of pl]) (simp_all add: fragment_of_def frag_end_def frag_off_def)
qed

text \<open>The test for gaps, on natural numbers.\<close>

fun covers :: "nat \<Rightarrow> nat \<Rightarrow> bundle_t list \<Rightarrow> bool" where
  "covers T pos [] = False"
| "covers T pos (b # bs) \<longleftrightarrow> frag_off b \<le> pos \<and> (T \<le> frag_end b \<or> covers T (frag_end b) bs)"

lemma can_reassemble_covers:
  assumes "list_all2 (\<lambda>q b. hp q = Some b \<and> fragment_of D b) l bs"
  shows "can_reassemble hp pos l = Inr (covers (length D) (unat pos) bs)"
  using assms
proof (induction l bs arbitrary: pos rule: list_all2_induct)
  case (Cons q l b bs)
  have h: "heap_read hp q = Inr b" using Cons(1) by (simp add: heap_read_def)
  have f: "fragment_of D b" using Cons(1) by simp
  obtain pl where pl: "payload_of b = Some pl" "payload_bytes b = blk_length pl" "frag_off b \<le> frag_end b" "frag_end b \<le> length D"
    "length D < 2 ^ 32" "unat (total_adu_length b) = length D"
    by (rule fragment_ofD[OF f]) blast
  have sum: "unat (fragment_offset b + blk_length pl) = frag_end b"
    using pl(2,4,5) by (subst unat_add_lem[THEN iffD1]) (auto simp: frag_end_def)
  have gt: "(ucast (fragment_offset b) > pos) = (\<not> frag_off b \<le> unat pos)"
    by (simp add: word_less_nat_alt frag_off_def not_le)
  have ge: "(ucast (fragment_offset b + blk_length pl) \<ge> (ucast (total_adu_length b) :: u64)) = (length D \<le> frag_end b)"
    using sum pl(6) by (simp add: word_le_nat_alt)
  show ?case using h pl(1) gt ge sum Cons.IH[of "ucast (fragment_offset b + blk_length pl)"] by (simp add: Let_def)
qed simp

lemma copy_fragment_extends:
  assumes "fragment_of D b" "frag_off b \<le> unat pos" "unat pos \<le> length D" "length buf = length D" "take (unat pos) buf = take (unat pos) D"
  obtains pos' buf' where "copy_fragment (ucast (total_adu_length b)) b pos buf = Inr (pos', buf')" "unat pos' = max (unat pos) (frag_end b)"
    "length buf' = length D" "take (unat pos') buf' = take (unat pos') D"
proof -
  obtain pl where pl: "payload_of b = Some pl" "payload_bytes b = blk_length pl" "frag_off b \<le> frag_end b" "frag_end b \<le> length D"
    "blk_data pl = Some (take (frag_end b - frag_off b) (drop (frag_off b) D))" "unat (blk_length pl) = frag_end b - frag_off b"
    "length D < 2 ^ 32" "unat (total_adu_length b) = length D"
    by (rule fragment_ofD[OF assms(1)])
  let ?o = "pos - ucast (fragment_offset b)"
  have o: "unat ?o = unat pos - frag_off b"
    using assms(2) by (simp add: unat_sub word_le_nat_alt frag_off_def)
  have lt: "?o < ucast (blk_length pl) \<longleftrightarrow> unat pos < frag_end b"
    using o assms(2) pl(3,6) by (simp add: word_less_nat_alt) linarith
  show ?thesis
  proof (cases "unat pos < frag_end b")
    case True
    let ?n = "min (ucast (blk_length pl) - ?o) (ucast (total_adu_length b) - pos)"
    have "unat (ucast (blk_length pl) - ?o) = frag_end b - unat pos"
      using o True assms(2) pl(6) by (simp add: unat_sub word_le_nat_alt)
    moreover have "unat (ucast (total_adu_length b) - pos) = length D - unat pos"
      using assms(3) pl(8) by (simp add: unat_sub word_le_nat_alt)
    ultimately have n: "unat ?n = frag_end b - unat pos"
      using pl(4) by (simp add: min_def word_le_nat_alt)
    let ?d = "take (frag_end b - unat pos) (drop (unat pos) D)"
    have "drop (unat pos - frag_off b) (take (frag_end b - frag_off b) (drop (frag_off b) D)) = ?d"
      using assms(2) by (simp add: drop_take)
    then have m: "memcpy_from (blk_data pl) (unat ?o) (unat ?n) = Inr ?d"
      using o n pl(4,5) True assms(2) by (auto simp: memcpy_from_def)
    have len: "length ?d = frag_end b - unat pos" using pl(4) by simp
    let ?buf = "take (unat pos) buf @ ?d @ drop (unat pos + length ?d) buf"
    have c: "copy_into buf (unat pos) ?d = Inr ?buf" using assms(4) pl(4) True by (auto simp: copy_into_def)
    have bound: "unat pos + unat ?n < 2 ^ 64" using n pl(4,7) True by simp
    have p': "unat (pos + ?n) = frag_end b"
      using n True bound by (subst unat_add_lem[THEN iffD1]) simp_all
    have "take (frag_end b) ?buf = take (unat pos) D @ ?d"
      using assms(3-5) True len by simp
    also have "\<dots> = take (frag_end b) D" using True by (metis add_diff_inverse_nat less_imp_le_nat not_less take_add)
    finally have "take (unat (pos + ?n)) ?buf = take (unat (pos + ?n)) D" using p' by simp
    moreover have "copy_fragment (ucast (total_adu_length b)) b pos buf = Inr (pos + ?n, ?buf)"
      using pl(1) lt True m c by (simp add: copy_fragment_def Let_def)
    ultimately show ?thesis using that p' True assms(4) pl(4) len by simp
  next
    case False
    then have "copy_fragment (ucast (total_adu_length b)) b pos buf = Inr (pos, buf)"
      using pl(1) lt by (simp add: copy_fragment_def Let_def)
    then show ?thesis using that False assms by simp
  qed
qed

lemma add_if_not_exists_total:
  assumes "wf_bundle b" "known_inv l"
  obtains r l' where "add_if_not_exists now now l b p [] = Inr (r, l', [])" "known_inv l'" "\<exists>e \<in> set l'. known_as p b e"
proof -
  let ?d = "bundle_get_expiration_time_s now b"
  have s: "\<forall>e \<in> set l. uid_source (kb_unique_identifier e) \<noteq> None" "sorted (map kb_deadline l)"
    using assms(2) by (auto simp: known_inv_def)
  obtain r where r: "find_position p b ?d [] l = Inr r"
    "case r of None \<Rightarrow> \<exists>e \<in> set l. known_as p b e
     | Some (xs, ys) \<Rightarrow> \<exists>zs. xs = [] @ zs \<and> l = zs @ ys \<and> (\<forall>e \<in> set zs. kb_deadline e \<le> ?d \<and> \<not> known_as p b e)
         \<and> (\<forall>e \<in> set ys. ?d < kb_deadline e)"
    using find_position_spec[OF assms(1) s] by blast
  show ?thesis
  proof (cases r)
    case None
    then show ?thesis using r assms that by (simp add: add_if_not_exists_def)
  next
    case (Some xy)
    then obtain xs ys where xy: "r = Some (xs, ys)" "l = xs @ ys" "\<forall>e \<in> set xs. kb_deadline e \<le> ?d" "\<forall>e \<in> set ys. ?d < kb_deadline e"
      using r(2) by (cases xy) auto
    obtain e where e: "create_entry now b [] = Inr (Some e, [])" "kb_deadline e = ?d"
      "kb_id e = bundle_id b" "uid_source (kb_unique_identifier e) \<noteq> None" "known_as False b e"
      by (rule create_entry_granted[OF assms(1)])
    define e' where "e' = (if p then e\<lparr>kb_unique_identifier := (kb_unique_identifier e)
        \<lparr>uid_fragment_offset := 0, uid_payload_length := total_adu_length b\<rparr>\<rparr> else e)"
    have e': "kb_deadline e' = ?d" "uid_source (kb_unique_identifier e') \<noteq> None" "known_as p b e'"
      using e by (auto simp: known_as_def Let_def e'_def)
    have "known_inv (xs @ e' # ys)"
      using assms(2) e' xy sorted_insert_middle[of kb_deadline xs ys e'] by (auto simp: known_inv_def less_imp_le)
    moreover have "add_if_not_exists now now l b p [] = Inr (False, xs @ e' # ys, [])"
      using r(1) xy(1) e(1) by (simp add: add_if_not_exists_def e'_def)
    ultimately show ?thesis using that e'(3) by auto
  qed
qed

text \<open>What remains after a list of fragments has been discarded.\<close>

definition all_dropped :: "bptr list \<Rightarrow> bundle_t list \<Rightarrow> bp_state \<Rightarrow> bp_state \<Rightarrow> bool" where
  "all_dropped l bs s s' \<longleftrightarrow> (\<forall>q. bp_heap s' q = (if q \<in> set l then None else bp_heap s q))
     \<and> (\<forall>j. bundle_storage_get j (bp_store s') = (if j \<in> bundle_id ` set bs then None else bundle_storage_get j (bp_store s)))
     \<and> bp_agents s' = bp_agents s \<and> bp_custody s' = bp_custody s \<and> bp_reassembly s' = bp_reassembly s
     \<and> bp_pushes s' = bp_pushes s \<and> bp_trace s' = bp_trace s"

definition pending_fragments :: "u8 list \<Rightarrow> bp_state \<Rightarrow> bptr list \<Rightarrow> bundle_t list \<Rightarrow> bool" where
  "pending_fragments D s l bs \<longleftrightarrow> distinct l
     \<and> list_all2 (\<lambda>q b. bp_heap s q = Some b \<and> fragment_of D b \<and> ret_constraints b = BUNDLE_RET_CONSTRAINT_REASSEMBLY_PENDING) l bs"

lemma discard_fragment:
  assumes "bp_inv s" "bp_heap s q = Some b" "ret_constraints b = BUNDLE_RET_CONSTRAINT_REASSEMBLY_PENDING"
  obtains s' where "bp_bind (bundle_rem_rc q BUNDLE_RET_CONSTRAINT_REASSEMBLY_PENDING False) (\<lambda>_. bp_bind (bundle_discard q) k) s = k () s'"
    "bp_inv s'" "dropped q b s s'"
proof -
  let ?b = "b\<lparr>ret_constraints := ret_constraints b AND NOT BUNDLE_RET_CONSTRAINT_REASSEMBLY_PENDING\<rparr>"
  let ?s = "s\<lparr>bp_heap := (bp_heap s)(q \<mapsto> ?b)\<rparr>"
  have inv: "bp_inv ?s" using bp_inv_upd[OF assms(1,2), of ?b] by simp
  have "ret_constraints ?b = BUNDLE_RET_CONSTRAINT_NONE" using assms(3) by (simp add: bundle_retention_constraints_defs)
  then obtain s' where s': "bundle_discard q ?s = Some (Inr ((), s'))" "bp_inv s'" "dropped q ?b ?s s'"
    using bundle_discard_ok[OF inv, of q ?b] by auto
  have "dropped q b s s'" using s'(3) by (simp add: dropped_def)
  then show ?thesis using that s' bundle_rem_rc_keep[OF assms(2)] by simp
qed

lemma reassemble_loop_ok:
  assumes "bp_inv s" "pending_fragments D s l bs"
    and "pc \<le> unat pos \<and> covers (length D) pc bs \<or> unat pos = length D" "unat pos \<le> length D"
    and "length buf = length D" "take (unat pos) buf = take (unat pos) D" "unat alen = length D"
    and "added \<longrightarrow> (\<exists>e \<in> set (bp_known s). known_as True b0 e)" "\<not> added \<longrightarrow> l \<noteq> [] \<and> hd bs = b0"
  obtains s' where "reassemble_loop env alen added l pos buf s = Some (Inr (D, s'))" "bp_inv s'" "all_dropped l bs s s'"
    "\<exists>e \<in> set (bp_known s'). known_as True b0 e"
  using assms
proof (induction l arbitrary: bs s pc pos buf added thesis)
  case Nil
  then have "bs = []" "added" by (auto simp: pending_fragments_def)
  then have "buf = D" using Nil.prems by auto
  then show ?case using Nil.prems(1)[of s] Nil.prems(2,9) \<open>added\<close> \<open>bs = []\<close> by (simp add: all_dropped_def)
next
  case (Cons q l)
  obtain b bs' where bs: "bs = b # bs'" using Cons.prems(3) by (cases bs) (auto simp: pending_fragments_def)
  have q: "bp_heap s q = Some b" "fragment_of D b" "ret_constraints b = BUNDLE_RET_CONSTRAINT_REASSEMBLY_PENDING" "q \<notin> set l"
    and rest: "distinct l" "list_all2 (\<lambda>q b. bp_heap s q = Some b \<and> fragment_of D b \<and> ret_constraints b = BUNDLE_RET_CONSTRAINT_REASSEMBLY_PENDING) l bs'"
    using Cons.prems(3) by (auto simp: pending_fragments_def bs)
  have wf: "wf_bundle b" using q(2) by (simp add: fragment_of_def)
  define st where "st = (if added then Some (Inr ((), s)) else
     bp_bind (bp_lift (known_bundle_list_add_reassembled_parent (bp_now env) (bp_now env) (bp_known s) b (bp_allocs s)))
          (\<lambda>(r, l, as). bp_modify (\<lambda>s. s\<lparr>bp_known := l, bp_allocs := as\<rparr>)) s)"
  obtain kl where kl: "st = Some (Inr ((), s\<lparr>bp_known := kl\<rparr>))" "known_inv kl" "\<exists>e \<in> set kl. known_as True b0 e"
  proof (cases added)
    case True
    then show ?thesis using that[of "bp_known s"] bp_invD(2)[OF Cons.prems(2)] Cons.prems(9) by (simp add: st_def)
  next
    case False
    then have b0: "b0 = b" using Cons.prems(10) bs by simp
    obtain r l' where "add_if_not_exists (bp_now env) (bp_now env) (bp_known s) b True [] = Inr (r, l', [])" "known_inv l'"
      "\<exists>e \<in> set l'. known_as True b e"
      by (rule add_if_not_exists_total[OF wf bp_invD(2)[OF Cons.prems(2)]])
    then show ?thesis using that[of l'] False b0 bp_invD(3)[OF Cons.prems(2)]
      by (cases s) (simp add: st_def known_bundle_list_add_reassembled_parent_def)
  qed
  let ?s1 = "s\<lparr>bp_known := kl\<rparr>"
  have inv1: "bp_inv ?s1" using Cons.prems(2) kl(2) by (simp add: bp_inv_def)
  have off: "frag_off b \<le> unat pos" using Cons.prems(4) q(2) bs fragment_ofD[OF q(2)] by fastforce
  have al: "alen = ucast (total_adu_length b)"
    using Cons.prems(8) q(2) by (intro word_unat_eq_iff[THEN iffD2]) (simp add: fragment_of_def)
  obtain pos' buf' where c: "copy_fragment (ucast (total_adu_length b)) b pos buf = Inr (pos', buf')" "unat pos' = max (unat pos) (frag_end b)"
    "length buf' = length D" "take (unat pos') buf' = take (unat pos') D"
    by (rule copy_fragment_extends[OF q(2) off Cons.prems(5,6,7)])
  obtain s2 where s2: "bp_bind (bundle_rem_rc q BUNDLE_RET_CONSTRAINT_REASSEMBLY_PENDING False) (\<lambda>_. bp_bind (bundle_discard q)
        (\<lambda>_. reassemble_loop env alen True l pos' buf')) ?s1 = reassemble_loop env alen True l pos' buf' s2"
    "bp_inv s2" "dropped q b ?s1 s2"
    by (rule discard_fragment[OF inv1, of q b "\<lambda>_. reassemble_loop env alen True l pos' buf'"]) (use q in simp_all)
  have run: "reassemble_loop env alen added (q # l) pos buf s = reassemble_loop env alen True l pos' buf' s2"
    using kl(1) s2(1) q(1) c(1) al by (auto simp: st_def split: if_splits)
  have h2: "bp_heap s2 = (bp_heap s)(q := None)" "bp_known s2 = kl" using s2(3) by (simp_all add: dropped_def)
  have pf: "pending_fragments D s2 l bs'" unfolding pending_fragments_def
    using rest q(4) h2(1) by (auto intro: list.rel_mono_strong)
  have cov: "frag_end b \<le> unat pos' \<and> covers (length D) (frag_end b) bs' \<or> unat pos' = length D"
    using Cons.prems(4,5) bs c(2) fragment_ofD[OF q(2)] by fastforce
  have le: "unat pos' \<le> length D" using c(2) Cons.prems(5) q(2) by (simp add: fragment_of_def)
  obtain s' where s': "reassemble_loop env alen True l pos' buf' s2 = Some (Inr (D, s'))" "bp_inv s'" "all_dropped l bs' s2 s'"
    "\<exists>e \<in> set (bp_known s'). known_as True b0 e"
    using Cons.IH[OF _ s2(2) pf cov le c(3,4) Cons.prems(8), of True] kl(3) h2(2) by auto
  have "all_dropped (q # l) bs s s'"
    using s'(3) s2(3) h2(1) unfolding all_dropped_def dropped_def bs by auto
  then show ?case using Cons.prems(1)[of s'] s' run by simp
qed

section \<open>Handing data to an agent\<close>

text \<open>The agent that data for an EID is delivered to: its callback and parameter.\<close>

definition agent_for :: "bp_env \<Rightarrow> bp_state \<Rightarrow> eid option \<Rightarrow> (nat \<times> nat) option" where
  "agent_for env s dest = (case dest of None \<Rightarrow> None | Some d \<Rightarrow> (case get_agent_id env d of
     Inr (Some sink) \<Rightarrow> (case agent_search sink (bp_agents s) of
       Some a \<Rightarrow> map_option (\<lambda>f. (f, ag_param a)) (ag_callback a) | None \<Rightarrow> None)
   | _ \<Rightarrow> None))"

lemma agent_forE:
  assumes "agent_for env s dest = Some (f, prm)"
  obtains d sink where "dest = Some d" "get_agent_id env d = Inr (Some sink)"
    "\<And>adu. agent_forward sink adu (bp_agents s) = (0, [AgentCall f adu prm])"
  using assms by (auto simp: agent_for_def agent_forward_def split: option.splits sum.splits)

lemma bundle_deliver_adu_ok:
  assumes "agent_for env s (adu_destination adu) = Some (f, prm)" "\<not> HAS_FLAG (adu_proc_flags adu) BUNDLE_FLAG_ADMINISTRATIVE_RECORD"
  shows "bundle_deliver_adu env adu s = Some (Inr ((), s\<lparr>bp_trace := bp_trace s @ [ToAgent (AgentCall f adu prm)]\<rparr>))"
proof -
  obtain d sink where "adu_destination adu = Some d" "get_agent_id env d = Inr (Some sink)"
    "agent_forward sink adu (bp_agents s) = (0, [AgentCall f adu prm])"
    using agent_forE[OF assms(1)] by metis
  then show ?thesis using assms(2) by (simp add: bundle_deliver_adu_def)
qed

lemma agent_for_cong:
  assumes "bp_agents s' = bp_agents s"
  shows "agent_for env s' = agent_for env s"
  unfolding agent_for_def assms ..

lemma pending_fragments_live:
  "pending_fragments D s l bs \<Longrightarrow> list_all2 (\<lambda>q b. bp_heap s q = Some b \<and> fragment_of D b) l bs"
  by (auto simp: pending_fragments_def elim: list_all2_mono)

lemma adu_flags [simp]:
  "HAS_FLAG (fl AND NOT BUNDLE_FLAG_IS_FRAGMENT) BUNDLE_FLAG_ADMINISTRATIVE_RECORD = HAS_FLAG fl BUNDLE_FLAG_ADMINISTRATIVE_RECORD"
  by (simp add: HAS_FLAG_def bundle_proc_flags_defs and.assoc)

lemma bp_adu_init_ok:
  assumes "bp_allocs s = []" "source b = Some src" "destination b = Some dst"
  shows "bp_adu_init b s = Some (Inr (\<lparr>adu_protocol_version = protocol_version b, adu_proc_flags = proc_flags b AND NOT BUNDLE_FLAG_IS_FRAGMENT,
     adu_source = Some src, adu_destination = Some dst, adu_payload = None, adu_length = 0\<rparr>, s))"
  using assms by (cases s) (simp add: bp_adu_init_def bundle_adu_init_def)

lemma try_reassemble_ok:
  assumes "bp_inv s" "bp_reassembly s ! i = l" "pending_fragments D s l bs" "covers (length D) 0 bs"
    and "length (bp_memory env (length D)) = length D" "agent_for env s (destination (hd bs)) = Some (f, prm)"
    and "\<not> HAS_FLAG (proc_flags (hd bs)) BUNDLE_FLAG_ADMINISTRATIVE_RECORD"
  obtains s' adu where "try_reassemble env i s = Some (Inr ((), s'))" "bp_inv s'"
    "bp_trace s' = bp_trace s @ [ToAgent (AgentCall f adu prm)]" "adu_payload adu = Some D" "unat (adu_length adu) = length D"
    "adu_source adu = source (hd bs)" "adu_destination adu = destination (hd bs)"
    "bp_reassembly s' = take i (bp_reassembly s) @ drop (Suc i) (bp_reassembly s)"
    "\<forall>q. bp_heap s' q = (if q \<in> set l then None else bp_heap s q)"
    "\<forall>j. bundle_storage_get j (bp_store s') = (if j \<in> bundle_id ` set bs then None else bundle_storage_get j (bp_store s))"
    "\<exists>e \<in> set (bp_known s'). known_as True (hd bs) e"
proof -
  have l2: "list_all2 (\<lambda>q b. bp_heap s q = Some b \<and> fragment_of D b \<and> ret_constraints b = BUNDLE_RET_CONSTRAINT_REASSEMBLY_PENDING) l bs"
    using assms(3) by (simp add: pending_fragments_def)
  obtain b bs' where bs: "bs = b # bs'" using assms(4) by (cases bs) auto
  obtain q l' where l: "l = q # l'" using l2 bs by (cases l) auto
  have b: "bp_heap s q = Some b" "fragment_of D b" using l2 bs l by auto
  have can: "can_reassemble (bp_heap s) 0 l = Inr True"
    using can_reassemble_covers[of "bp_heap s" D l bs 0] assms(4) pending_fragments_live[OF assms(3)] by simp
  obtain src dst where sd: "source b = Some src" "destination b = Some dst" using b(2) by (auto simp: fragment_of_def wf_bundle_def)
  let ?alen = "ucast (total_adu_length b) :: u64"
  have al: "unat ?alen = length D" using b(2) by (simp add: fragment_of_def)
  define adu where "adu = \<lparr>adu_protocol_version = protocol_version b, adu_proc_flags = proc_flags b AND NOT BUNDLE_FLAG_IS_FRAGMENT,
     adu_source = Some src, adu_destination = Some dst, adu_payload = Some D, adu_length = ?alen\<rparr>"
  have as: "bp_allocs s = []" by (rule bp_invD(3)[OF assms(1)])
  then have s_eq: "s\<lparr>bp_allocs := []\<rparr> = s" by (cases s) simp
  obtain s1 where s1: "reassemble_loop env ?alen False l 0 (bp_memory env (length D)) s = Some (Inr (D, s1))" "bp_inv s1" "all_dropped l bs s s1"
    "\<exists>e \<in> set (bp_known s1). known_as True b e"
    using reassemble_loop_ok[OF assms(1,3), of 0 0 "bp_memory env (length D)" ?alen False b env] assms(4,5) al bs l by auto
  let ?s2 = "s1\<lparr>bp_reassembly := take i (bp_reassembly s1) @ drop (Suc i) (bp_reassembly s1)\<rparr>"
  have ag: "agent_for env ?s2 (adu_destination adu) = Some (f, prm)"
    using assms(6) bs sd s1(3) agent_for_cong[of ?s2 s env] by (simp add: adu_def all_dropped_def)
  have del: "bundle_deliver_adu env adu ?s2 = Some (Inr ((), ?s2\<lparr>bp_trace := bp_trace ?s2 @ [ToAgent (AgentCall f adu prm)]\<rparr>))"
    by (rule bundle_deliver_adu_ok[OF ag]) (use assms(7) bs in \<open>simp add: adu_def\<close>)
  let ?s3 = "?s2\<lparr>bp_trace := bp_trace ?s2 @ [ToAgent (AgentCall f adu prm)]\<rparr>"
  have m: "bp_malloc s = Some (Inr (True, s))" using as s_eq by simp
  have run: "try_reassemble env i s = Some (Inr ((), ?s3))"
    unfolding try_reassemble_def assms(2) Let_def
    using can b(1) m bp_adu_init_ok[OF as sd] s1(1) del al l by (simp add: adu_def)
  have "bp_inv ?s3" using s1(2) by (simp add: bp_inv_def)
  then show ?thesis using that[OF run] s1(3,4) al sd bs by (simp add: adu_def all_dropped_def)
qed

lemma try_reassemble_gap:
  assumes "bp_reassembly s ! i = l" "pending_fragments D s l bs" "\<not> covers (length D) 0 bs"
  shows "try_reassemble env i s = Some (Inr ((), s))"
proof -
  have "can_reassemble (bp_heap s) 0 l = Inr False"
    using can_reassemble_covers[of "bp_heap s" D l bs 0] assms(3) pending_fragments_live[OF assms(2)] by simp
  then show ?thesis by (simp add: try_reassemble_def assms(1) Let_def)
qed

section \<open>Local delivery\<close>

lemma bp_to_adu_ok:
  assumes "bp_inv s" "bp_heap s p = Some b" "wf_bundle b"
  obtains adu b' pl where "bp_to_adu p s = Some (Inr (adu, s\<lparr>bp_heap := (bp_heap s)(p \<mapsto> b')\<rparr>))" "bp_inv (s\<lparr>bp_heap := (bp_heap s)(p \<mapsto> b')\<rparr>)"
    "payload_of b = Some pl" "adu_payload adu = blk_data pl" "adu_length adu = ucast (blk_length pl)" "adu_source adu = source b" "adu_destination adu = destination b"
    "adu_proc_flags adu = proc_flags b AND NOT BUNDLE_FLAG_IS_FRAGMENT" "bundle_id b' = bundle_id b" "ret_constraints b' = ret_constraints b" "payload_bytes b' = 0"
proof -
  obtain i pl where i: "payload_block b = Some i" "i < length (blocks b)" "blocks b ! i = pl" "payload_of b = Some pl"
    by (rule wf_bundle_payload[OF assms(3)])
  obtain src dst where sd: "source b = Some src" "destination b = Some dst" using assms(3) by (auto simp: wf_bundle_def)
  have as: "bp_allocs s = []" by (rule bp_invD(3)[OF assms(1)])
  then have s_eq: "s\<lparr>bp_allocs := []\<rparr> = s" by (cases s) simp
  let ?b = "b\<lparr>blocks := (blocks b)[i := pl\<lparr>blk_data := None, blk_length := 0\<rparr>]\<rparr>"
  let ?adu = "\<lparr>adu_protocol_version = protocol_version b, adu_proc_flags = proc_flags b AND NOT BUNDLE_FLAG_IS_FRAGMENT,
     adu_source = Some src, adu_destination = Some dst, adu_payload = blk_data pl, adu_length = ucast (blk_length pl)\<rparr>"
  have pb: "payload_bytes ?b = 0" using i(1,2) by (simp add: payload_bytes_def payload_of_def)
  have "bundle_to_adu b [] = Inr (?adu, ?b, [])" using i sd by (simp add: bundle_to_adu_def bundle_adu_init_def)
  then have "bp_to_adu p s = Some (Inr (?adu, s\<lparr>bp_heap := (bp_heap s)(p \<mapsto> ?b)\<rparr>))"
    using assms(2) as by (cases s) (simp add: bp_to_adu_def)
  moreover have "bp_inv (s\<lparr>bp_heap := (bp_heap s)(p \<mapsto> ?b)\<rparr>)" by (rule bp_inv_upd[OF assms(1,2)]) (simp_all add: pb)
  ultimately show ?thesis using that[of ?adu ?b pl] i sd pb by simp
qed

lemma known_purge:
  assumes "known_inv l"
  shows "known_inv (known_bundle_list_remove_before l t)" "set (known_bundle_list_remove_before l t) = {e \<in> set l. t \<le> kb_deadline e}"
  using assms by (auto simp: remove_before_dropWhile sorted_dropWhile_filter known_inv_def intro: sorted_filter
      simp del: known_bundle_list_remove_before.simps)

text \<open>The bundle is known: an entry that has not expired names it.\<close>

definition already_known :: "bp_env \<Rightarrow> bp_state \<Rightarrow> bundle_t \<Rightarrow> bool" where
  "already_known env s b \<longleftrightarrow> (\<exists>e \<in> set (bp_known s). bp_now env \<le> kb_deadline e \<and> known_as False b e)"

lemma record_known_ok:
  assumes "bp_inv s" "wf_bundle b" "bp_now env \<le> bundle_get_expiration_time_s (bp_now env) b"
    and "\<forall>e \<in> set (bp_known s). known_as False b e \<longrightarrow> kb_deadline e \<le> bundle_get_expiration_time_s (bp_now env) b"
  obtains l where "bundle_record_add_and_check_known env b s = Some (Inr (already_known env s b, s\<lparr>bp_known := l\<rparr>))" "known_inv l"
    "\<exists>e \<in> set l. known_as False b e"
proof -
  let ?l = "known_bundle_list_remove_before (bp_known s) (bp_now env)"
  note k = known_purge[OF bp_invD(2)[OF assms(1)], of "bp_now env"]
  have "\<forall>e \<in> set ?l. known_as False b e \<longrightarrow> kb_deadline e \<le> bundle_get_expiration_time_s (bp_now env) b"
    using assms(4) k(2) by auto
  from add_if_not_exists_granted[OF assms(2) k(1) this, of "bp_now env"] obtain l where
    l: "add_if_not_exists (bp_now env) (bp_now env) ?l b False [] = Inr (\<exists>e \<in> set ?l. known_as False b e, l, [])" "known_inv l"
    "\<exists>e \<in> set l. known_as False b e" by auto
  have "(\<exists>e \<in> set ?l. known_as False b e) = already_known env s b" using k(2) by (auto simp: already_known_def)
  then have "known_bundle_list_add (bp_now env) (bp_now env) ?l b [] = Inr (already_known env s b, l, [])"
    using l(1) by (simp add: known_bundle_list_add_def)
  moreover have upd: "s\<lparr>bp_known := l, bp_allocs := []\<rparr> = s\<lparr>bp_known := l\<rparr>" using bp_invD(3)[OF assms(1)] by (cases s) simp
  ultimately have "bundle_record_add_and_check_known env b s = Some (Inr (already_known env s b, s\<lparr>bp_known := l\<rparr>))"
    using assms(3) bp_invD(3)[OF assms(1)] upd
    by (simp add: bundle_record_add_and_check_known_def Let_def not_less[symmetric] del: known_bundle_list_remove_before.simps)
  then show ?thesis using that l by blast
qed

text \<open>A bundle for a registered local agent that asks for no report and is not a fragment.\<close>

definition plain_local :: "bp_env \<Rightarrow> bp_state \<Rightarrow> bundle_t \<Rightarrow> bool" where
  "plain_local env s b \<longleftrightarrow> wf_bundle b \<and> bundle_endpoint_is_local env b = Inr True \<and> agent_for env s (destination b) \<noteq> None
     \<and> ret_constraints b = BUNDLE_RET_CONSTRAINT_DISPATCH_PENDING
     \<and> \<not> HAS_FLAG (proc_flags b) BUNDLE_FLAG_REPORT_DELIVERY \<and> \<not> HAS_FLAG (proc_flags b) BUNDLE_FLAG_ADMINISTRATIVE_RECORD
     \<and> \<not> HAS_FLAG (proc_flags b) BUNDLE_FLAG_IS_FRAGMENT"

lemma dispatch_local:
  assumes "bp_inv s" "bp_heap s p = Some b" "plain_local env s b" "bp_now env \<le> bundle_get_expiration_time_s (bp_now env) b"
    and "\<forall>e \<in> set (bp_known s). known_as False b e \<longrightarrow> kb_deadline e \<le> bundle_get_expiration_time_s (bp_now env) b"
    and "bundle_storage_get (bundle_id b) (bp_store s) = Some p"
  obtains s' where "bundle_dispatch env fwd p s = Some (Inr ((), s'))" "bp_inv s'" "bp_heap s' = (bp_heap s)(p := None)"
    "\<forall>j. bundle_storage_get j (bp_store s') = (if j = bundle_id b then None else bundle_storage_get j (bp_store s))"
    "\<exists>e \<in> set (bp_known s'). known_as False b e"
    "if already_known env s b
     then bp_trace s' = bp_trace s \<and> bundle_bytes (bp_store s') = bundle_bytes (bp_store s) - payload_bytes b
     else bundle_bytes (bp_store s') = bundle_bytes (bp_store s) \<and> (\<exists>f prm adu pl. agent_for env s (destination b) = Some (f, prm) \<and> payload_of b = Some pl
       \<and> bp_trace s' = bp_trace s @ [ToAgent (AgentCall f adu prm)] \<and> adu_payload adu = blk_data pl \<and> adu_length adu = ucast (blk_length pl)
       \<and> adu_source adu = source b \<and> adu_destination adu = destination b)"
proof -
  have wf: "wf_bundle b" and here: "bundle_endpoint_is_local env b = Inr True" using assms(3) by (simp_all add: plain_local_def)
  obtain f prm where ag: "agent_for env s (destination b) = Some (f, prm)" using assms(3) by (auto simp: plain_local_def)
  obtain d sink where dest: "destination b = Some d" "get_agent_id env d = Inr (Some sink)" by (rule agent_forE[OF ag])
  let ?b = "b\<lparr>ret_constraints := ret_constraints b AND NOT BUNDLE_RET_CONSTRAINT_DISPATCH_PENDING\<rparr>"
  let ?s = "s\<lparr>bp_heap := (bp_heap s)(p \<mapsto> ?b)\<rparr>"
  have ret: "ret_constraints ?b = BUNDLE_RET_CONSTRAINT_NONE" using assms(3) by (simp add: plain_local_def bundle_retention_constraints_defs)
  have inv: "bp_inv ?s" using bp_inv_upd[OF assms(1,2), of ?b] by simp
  have wf': "wf_bundle ?b" using wf by (simp add: wf_bundle_def)
  have ka: "known_as False ?b e = known_as False b e" for e by (simp add: known_as_def)
  have ex: "bundle_get_expiration_time_s n ?b = bundle_get_expiration_time_s n b" for n by (simp add: bundle_get_expiration_time_s_def)
  have ak: "already_known env ?s ?b = already_known env s b" by (simp add: already_known_def ka)
  obtain l where l: "bundle_record_add_and_check_known env ?b ?s = Some (Inr (already_known env s b, ?s\<lparr>bp_known := l\<rparr>))" "known_inv l"
    "\<exists>e \<in> set l. known_as False b e"
  proof (rule record_known_ok[OF inv wf', of env])
    show "bp_now env \<le> bundle_get_expiration_time_s (bp_now env) ?b" using assms(4) by (simp only: ex)
    show "\<forall>e \<in> set (bp_known ?s). known_as False ?b e \<longrightarrow> kb_deadline e \<le> bundle_get_expiration_time_s (bp_now env) ?b"
      using assms(5) by (simp add: ka ex)
  qed (use that in \<open>simp add: ka ak\<close>)
  let ?t = "?s\<lparr>bp_known := l\<rparr>"
  have tinv: "bp_inv ?t" and tp: "bp_heap ?t p = Some ?b" using inv l(2) by (simp_all add: bp_inv_def)
  have start: "bundle_dispatch env fwd p s = bp_bind (bundle_record_add_and_check_known env ?b) (\<lambda>known.
      if known then bundle_discard p else bp_bind (bp_to_adu p) (\<lambda>adu. bp_bind (bundle_discard p) (\<lambda>_. bundle_deliver_adu env adu))) ?s"
    using assms(2,3) here dest bundle_rem_rc_keep[OF assms(2)]
    by (simp add: bundle_dispatch_def bundle_deliver_local_def plain_local_def bp_bind_def split: option.splits sum.splits)
  show ?thesis
  proof (cases "already_known env s b")
    case True
    obtain s' where s': "bundle_discard p ?t = Some (Inr ((), s'))" "bp_inv s'" "dropped p ?b ?t s'"
      "bundle_bytes (bp_store s') = bundle_bytes (bp_store ?t) -
         (case bundle_storage_get (bundle_id ?b) (bp_store ?t) of None \<Rightarrow> 0 | Some q \<Rightarrow> payload_bytes (the (bp_heap ?t q)))"
      by (rule bundle_discard_ok[OF tinv tp ret])
    have "bundle_dispatch env fwd p s = Some (Inr ((), s'))" using start l(1) True s'(1) by (simp add: bp_bind_def)
    then show ?thesis using that s' l(3) True assms(6) by (simp add: dropped_def)
  next
    case False
    obtain adu b' pl where a: "bp_to_adu p ?t = Some (Inr (adu, ?t\<lparr>bp_heap := (bp_heap ?t)(p \<mapsto> b')\<rparr>))" "bp_inv (?t\<lparr>bp_heap := (bp_heap ?t)(p \<mapsto> b')\<rparr>)"
      "payload_of ?b = Some pl" "adu_payload adu = blk_data pl" "adu_length adu = ucast (blk_length pl)" "adu_source adu = source ?b" "adu_destination adu = destination ?b"
      "adu_proc_flags adu = proc_flags ?b AND NOT BUNDLE_FLAG_IS_FRAGMENT" "bundle_id b' = bundle_id ?b" "ret_constraints b' = ret_constraints ?b" "payload_bytes b' = 0"
      by (rule bp_to_adu_ok[OF tinv tp wf'])
    let ?u = "?t\<lparr>bp_heap := (bp_heap ?t)(p \<mapsto> b')\<rparr>"
    have up: "bp_heap ?u p = Some b'" "ret_constraints b' = BUNDLE_RET_CONSTRAINT_NONE" using a(10) ret by simp_all
    obtain s2 where s2: "bundle_discard p ?u = Some (Inr ((), s2))" "bp_inv s2" "dropped p b' ?u s2"
      "bundle_bytes (bp_store s2) = bundle_bytes (bp_store ?u) -
         (case bundle_storage_get (bundle_id b') (bp_store ?u) of None \<Rightarrow> 0 | Some q \<Rightarrow> payload_bytes (the (bp_heap ?u q)))"
      by (rule bundle_discard_ok[OF a(2) up])
    let ?s3 = "s2\<lparr>bp_trace := bp_trace s2 @ [ToAgent (AgentCall f adu prm)]\<rparr>"
    have "agent_for env s2 (adu_destination adu) = Some (f, prm)"
      using ag a(7) s2(3) agent_for_cong[of s2 s env] by (simp add: dropped_def)
    then have del: "bundle_deliver_adu env adu s2 = Some (Inr ((), ?s3))"
      by (rule bundle_deliver_adu_ok) (use a(8) assms(3) in \<open>simp add: plain_local_def\<close>)
    have "bundle_dispatch env fwd p s = Some (Inr ((), ?s3))"
      using start l(1) False a(1) s2(1) del by (simp add: bp_bind_def)
    moreover have "bp_inv ?s3" using s2(2) by (simp add: bp_inv_def)
    moreover have "bundle_bytes (bp_store s2) = bundle_bytes (bp_store s)" using s2(4) a(9,11) assms(6) by simp
    ultimately show ?thesis using that[of ?s3] s2(3) l(3) False ag a by (simp add: dropped_def)
  qed
qed

section \<open>Fragments in any order of arrival\<close>

text \<open>Consecutive fragments that are not empty.\<close>

fun contiguous :: "nat \<Rightarrow> nat \<Rightarrow> bundle_t list \<Rightarrow> bool" where
  "contiguous T pos [] \<longleftrightarrow> pos = T"
| "contiguous T pos (b # bs) \<longleftrightarrow> frag_off b = pos \<and> pos < frag_end b \<and> contiguous T (frag_end b) bs"

lemma contiguous_bounds: "contiguous T pos bs \<Longrightarrow> pos \<le> T \<and> (\<forall>b \<in> set bs. pos \<le> frag_off b \<and> frag_off b < frag_end b \<and> frag_end b \<le> T)"
  by (induction bs arbitrary: pos) fastforce+

lemma contiguous_strict: "contiguous T pos bs \<Longrightarrow> sorted_wrt (<) (map frag_off bs)"
proof (induction bs arbitrary: pos)
  case (Cons b bs)
  then show ?case using contiguous_bounds[of T "frag_end b" bs] by fastforce
qed simp

lemma contiguous_disjoint:
  assumes "contiguous T pos bs" "b \<in> set bs" "b' \<in> set bs" "frag_off b \<le> frag_off b'" "frag_off b' < frag_end b"
  shows "frag_off b' = frag_off b"
  using assms
proof (induction bs arbitrary: pos)
  case (Cons a bs)
  have "\<forall>c \<in> set bs. frag_end a \<le> frag_off c" using contiguous_bounds[of T "frag_end a" bs] Cons.prems(1) by auto
  then show ?case using Cons by (auto dest: contiguous_bounds)
qed simp

lemma contiguous_covers: "contiguous T pos bs \<Longrightarrow> pos < T \<Longrightarrow> covers T pos bs"
proof (induction bs arbitrary: pos)
  case (Cons b bs)
  then show ?case by (cases "T \<le> frag_end b") auto
qed simp

lemma covers_hit: "covers T pos bs \<Longrightarrow> pos \<le> x \<Longrightarrow> x < T \<Longrightarrow> \<exists>b \<in> set bs. frag_off b \<le> x \<and> x < frag_end b"
proof (induction bs arbitrary: pos)
  case (Cons b bs)
  then show ?case by (cases "x < frag_end b") auto
qed simp

lemma missing_fragment_gap:
  assumes "contiguous T 0 bs" "set cs \<subset> set bs"
  shows "\<not> covers T 0 cs"
proof
  assume c: "covers T 0 cs"
  obtain b where b: "b \<in> set bs" "b \<notin> set cs" using assms(2) by blast
  have "frag_off b < T" using contiguous_bounds[OF assms(1)] b(1) by fastforce
  then obtain a where a: "a \<in> set cs" "frag_off a \<le> frag_off b" "frag_off b < frag_end a" using covers_hit[OF c] by blast
  have "frag_off b = frag_off a" using contiguous_disjoint[OF assms(1) _ b(1) a(2,3)] a(1) assms(2) by blast
  moreover have "inj_on frag_off (set bs)"
    using contiguous_strict[OF assms(1)] by (simp add: strict_sorted_iff distinct_map)
  ultimately show False using a(1) b assms(2) by (auto dest: inj_onD)
qed

text \<open>
  Pointers to fragments that partition \<open>D\<close>, in the order of their offsets, none of a reassembled bundle; no other
  bundle waits for fragments that could be taken for them.
\<close>

definition ptr_off :: "bp_state \<Rightarrow> bptr \<Rightarrow> nat" where
  "ptr_off s q = frag_off (the (bp_heap s q))"

definition waiting_fragment :: "u8 list \<Rightarrow> bp_state \<Rightarrow> bptr \<Rightarrow> bundle_t \<Rightarrow> bool" where
  "waiting_fragment D s q b \<longleftrightarrow> bp_heap s q = Some b \<and> fragment_of D b \<and> ret_constraints b = BUNDLE_RET_CONSTRAINT_REASSEMBLY_PENDING
     \<and> (\<forall>e \<in> set (bp_known s). \<not> known_as True b e)
     \<and> (\<forall>l \<in> set (bp_reassembly s). l \<noteq> [] \<and> (\<exists>c. bp_heap s (hd l) = Some c \<and> may_reassemble c b = Inr False))"

definition partition_of :: "u8 list \<Rightarrow> bp_state \<Rightarrow> bptr list \<Rightarrow> bool" where
  "partition_of D s l \<longleftrightarrow> distinct l \<and> contiguous (length D) 0 (map (\<lambda>q. the (bp_heap s q)) l)
     \<and> (\<forall>q \<in> set l. waiting_fragment D s q (the (bp_heap s q)))
     \<and> (\<forall>q \<in> set l. \<forall>q' \<in> set l. may_reassemble (the (bp_heap s q)) (the (bp_heap s q')) = Inr True)"

lemma partition_inj: "partition_of D s l \<Longrightarrow> inj_on (ptr_off s) (set l)"
  unfolding partition_of_def ptr_off_def[abs_def]
  using contiguous_strict[of "length D" 0 "map (\<lambda>q. the (bp_heap s q)) l"] by (auto simp: strict_sorted_iff distinct_map comp_def)

lemma partition_sorted: "partition_of D s l \<Longrightarrow> sorted (map (ptr_off s) l)"
  unfolding partition_of_def ptr_off_def[abs_def]
  using contiguous_strict[of "length D" 0 "map (\<lambda>q. the (bp_heap s q)) l"] by (auto simp: strict_sorted_iff comp_def)

lemma fragment_position_insort:
  assumes "\<forall>q \<in> set l. bp_heap s q \<noteq> None \<and> ptr_off s q \<noteq> ptr_off s p" "bp_heap s p = Some b"
  obtains n where "fragment_position (bp_heap s) (fragment_offset b) l = Inr n" "insert_at n p l = insort_key (ptr_off s) p l"
  using assms(1)
proof (induction l arbitrary: thesis)
  case (Cons q l)
  obtain e where e: "bp_heap s q = Some e" using Cons.prems(2) by auto
  have h: "heap_read (bp_heap s) q = Inr e" using e by (simp add: heap_read_def)
  obtain n where n: "fragment_position (bp_heap s) (fragment_offset b) l = Inr n" "insert_at n p l = insort_key (ptr_off s) p l"
    using Cons.IH Cons.prems(2) by (metis list.set_intros(2))
  have "fragment_offset e > fragment_offset b \<longleftrightarrow> ptr_off s p \<le> ptr_off s q"
    using Cons.prems(2) e assms(2) by (auto simp: ptr_off_def frag_off_def word_less_nat_alt)
  then show ?case using Cons.prems(1)[of 0] Cons.prems(1)[of "Suc n"] n h by (cases "fragment_offset e > fragment_offset b") (auto simp: insert_at_def)
qed (simp add: insert_at_def)

lemma find_reassembly_skip:
  assumes "\<forall>l \<in> set ls. l \<noteq> [] \<and> (\<exists>c. hp (hd l) = Some c \<and> may_reassemble c b = Inr False)" "hp p = Some b"
  shows "find_reassembly hp p (ls @ ms) = bindE (find_reassembly hp p ms) (\<lambda>n. Inr (map_option (\<lambda>k. length ls + k) n))"
  using assms(1)
proof (induction ls)
  case Nil
  then show ?case by (cases "find_reassembly hp p ms") (simp_all add: option.map_ident)
next
  case (Cons l ls)
  obtain q l' c where "l = q # l'" "heap_read hp q = Inr c" "may_reassemble c b = Inr False"
    using Cons.prems by (cases l) (auto simp: heap_read_def)
  then show ?case using Cons assms(2)
    by (cases "find_reassembly hp p ms") (simp_all add: heap_read_def option.map_comp comp_def)
qed

text \<open>One arrival: the fragment joins the list of its bundle, in the order of the offsets.\<close>

lemma arrival_step:
  assumes inv: "bp_inv s" and part: "partition_of D s l" and p: "p \<in> set l" "p \<notin> set R" and R: "set R \<subseteq> set l"
    and t: "t = (if R = [] then s else s\<lparr>bp_reassembly := bp_reassembly s @ [sort_key (ptr_off s) R]\<rparr>)"
  shows "bundle_attempt_reassembly env fwd p t = try_reassemble env (length (bp_reassembly s))
     (s\<lparr>bp_reassembly := bp_reassembly s @ [sort_key (ptr_off s) (p # R)]\<rparr>)"
proof -
  let ?b = "the (bp_heap s p)" and ?ls = "bp_reassembly s"
  have w: "bp_heap s p = Some ?b" "fragment_of D ?b" "\<forall>e \<in> set (bp_known s). \<not> known_as True ?b e"
    "\<forall>l \<in> set ?ls. l \<noteq> [] \<and> (\<exists>c. bp_heap s (hd l) = Some c \<and> may_reassemble c ?b = Inr False)"
    using part p(1) unfolding partition_of_def waiting_fragment_def by blast+
  have live: "bp_heap s q = Some (the (bp_heap s q))" if "q \<in> set l" for q
    using part that unfolding partition_of_def waiting_fragment_def by blast
  have tf: "bp_heap t = bp_heap s" "bp_known t = bp_known s" "bp_allocs t = []" using t bp_invD(3)[OF inv] by simp_all
  have "wf_bundle ?b" using w(2) by (simp add: fragment_of_def)
  then have unknown: "known_bundle_list_contains_reassembled_parent (bp_known s) ?b = Inr False"
    using contains_reassembled_parent_iff bp_invD(2)[OF inv] w(3) by (auto simp: known_inv_def)
  show ?thesis
  proof (cases "R = []")
    case True
    then have "t = s" using t by simp
    moreover have "find_reassembly (bp_heap s) p ?ls = Inr None" using find_reassembly_skip[OF w(4,1), of "[]"] by simp
    ultimately show ?thesis using w(1) unknown tf True
      by (simp add: bundle_attempt_reassembly_def add_to_reassembly_bundle_list_def insert_at_def)
  next
    case False
    let ?m = "sort_key (ptr_off s) R"
    have ne: "?m \<noteq> []" using False by (metis set_sort set_empty)
    have m: "?m \<noteq> []" "hd ?m \<in> set l" using ne hd_in_set[OF ne] R by auto
    have "may_reassemble (the (bp_heap s (hd ?m))) ?b = Inr True" using part m(2) p(1) unfolding partition_of_def by blast
    then have "find_reassembly (bp_heap s) p [?m] = Inr (Some 0)"
      using m live[OF m(2)] w(1) by (cases ?m) (auto simp: heap_read_def split: option.splits)
    then have fnd: "find_reassembly (bp_heap s) p (?ls @ [?m]) = Inr (Some (length ?ls))"
      using find_reassembly_skip[OF w(4,1), of "[?m]"] by simp
    have "\<forall>q \<in> set ?m. bp_heap s q \<noteq> None \<and> ptr_off s q \<noteq> ptr_off s p"
      using R p live partition_inj[OF part] by (auto simp: inj_on_def)
    then obtain n where n: "fragment_position (bp_heap s) (fragment_offset ?b) ?m = Inr n" "insert_at n p ?m = insort_key (ptr_off s) p ?m"
      using fragment_position_insort w(1) by blast
    have tr: "bp_reassembly t = ?ls @ [?m]" using t False by simp
    have "add_to_reassembly_bundle_list env fwd ?m p t = Some (Inr (sort_key (ptr_off s) (p # R), t))"
      using m(1) w(1) n tf by (simp add: add_to_reassembly_bundle_list_def)
    then show ?thesis using w(1) unknown tf fnd tr t False
      by (simp add: bundle_attempt_reassembly_def nth_append)
  qed
qed


fun receive_fragments :: "bp_env \<Rightarrow> (bptr \<Rightarrow> u16 \<Rightarrow> ud3tn_result bp) \<Rightarrow> bptr list \<Rightarrow> unit bp" where
  "receive_fragments env fwd [] = bp_return ()"
| "receive_fragments env fwd (p # ps) = bp_bind (bundle_attempt_reassembly env fwd p) (\<lambda>_. receive_fragments env fwd ps)"

lemma pending_sorted:
  assumes "partition_of D s l" "distinct R" "set R \<subseteq> set l"
  shows "pending_fragments D (s\<lparr>bp_reassembly := x\<rparr>) (sort_key (ptr_off s) R) (map (\<lambda>q. the (bp_heap s q)) (sort_key (ptr_off s) R))"
proof -
  have "bp_heap s q = Some (the (bp_heap s q)) \<and> fragment_of D (the (bp_heap s q))
      \<and> ret_constraints (the (bp_heap s q)) = BUNDLE_RET_CONSTRAINT_REASSEMBLY_PENDING" if "q \<in> set R" for q
    using assms(1,3) that unfolding partition_of_def waiting_fragment_def by blast
  then show ?thesis using assms(2) by (auto simp: pending_fragments_def list_all2_map2 list_all2_same)
qed

lemma sort_partition:
  assumes "partition_of D s l" "distinct R" "set R = set l"
  shows "sort_key (ptr_off s) R = l"
  using map_sorted_distinct_set_unique[of "ptr_off s" "sort_key (ptr_off s) R" l] partition_inj[OF assms(1)] partition_sorted[OF assms(1)] assms
  by (auto simp: partition_of_def distinct_map)

text \<open>As long as a fragment is missing, the others wait.\<close>

lemma incomplete_waits:
  assumes "bp_inv s" "partition_of D s l" "distinct (ps @ R)" "set (ps @ R) \<subset> set l"
    and "t = (if R = [] then s else s\<lparr>bp_reassembly := bp_reassembly s @ [sort_key (ptr_off s) R]\<rparr>)"
  shows "receive_fragments env fwd ps t = Some (Inr ((), if ps @ R = [] then s else
     s\<lparr>bp_reassembly := bp_reassembly s @ [sort_key (ptr_off s) (rev ps @ R)]\<rparr>))"
  using assms(3-)
proof (induction ps arbitrary: R t)
  case (Cons p ps)
  let ?t = "s\<lparr>bp_reassembly := bp_reassembly s @ [sort_key (ptr_off s) (p # R)]\<rparr>"
  have p: "p \<in> set l" "p \<notin> set R" "set R \<subseteq> set l" "distinct (p # R)" "set (p # R) \<subset> set l" using Cons.prems by auto
  have sub: "set (map (\<lambda>q. the (bp_heap s q)) (sort_key (ptr_off s) (p # R))) \<subset> set (map (\<lambda>q. the (bp_heap s q)) l)"
  proof -
    have "inj_on (\<lambda>q. the (bp_heap s q)) (set l)"
      using partition_inj[OF assms(2)] by (auto simp: inj_on_def ptr_off_def)
    then have "(\<lambda>q. the (bp_heap s q)) ` set (p # R) \<subset> (\<lambda>q. the (bp_heap s q)) ` set l"
      using p(5) by (metis inj_on_image_eq_iff image_mono psubset_eq order_refl)
    then show ?thesis by (simp add: set_insort_key)
  qed
  have "try_reassemble env (length (bp_reassembly s)) ?t = Some (Inr ((), ?t))"
    by (rule try_reassemble_gap[OF _ pending_sorted[OF assms(2) p(4)] missing_fragment_gap[OF _ sub]])
      (use p assms(2) in \<open>simp_all add: partition_of_def\<close>)
  then have "bundle_attempt_reassembly env fwd p t = Some (Inr ((), ?t))"
    using arrival_step[OF assms(1,2) p(1,2,3) Cons.prems(3), of env fwd] by simp
  then show ?case using Cons.IH[of "p # R" ?t] Cons.prems by simp
qed simp

lemma complete_delivers:
  assumes "bp_inv s" "partition_of D s l" "distinct ps" "set ps = set l" "l \<noteq> []"
    and "length (bp_memory env (length D)) = length D" "agent_for env s (destination (the (bp_heap s (hd l)))) = Some (f, prm)"
    and "\<not> HAS_FLAG (proc_flags (the (bp_heap s (hd l)))) BUNDLE_FLAG_ADMINISTRATIVE_RECORD"
  obtains s' adu where "receive_fragments env fwd ps s = Some (Inr ((), s'))" "bp_inv s'"
    "bp_trace s' = bp_trace s @ [ToAgent (AgentCall f adu prm)]" "adu_payload adu = Some D" "unat (adu_length adu) = length D"
    "adu_source adu = source (the (bp_heap s (hd l)))" "adu_destination adu = destination (the (bp_heap s (hd l)))"
    "bp_reassembly s' = bp_reassembly s" "\<forall>q. bp_heap s' q = (if q \<in> set l then None else bp_heap s q)"
    "\<forall>q \<in> set l. bundle_storage_get (bundle_id (the (bp_heap s q))) (bp_store s') = None"
    "\<exists>e \<in> set (bp_known s'). known_as True (the (bp_heap s (hd l))) e"
proof -
  obtain qs p where ps: "ps = qs @ [p]" using assms(4,5) by (cases ps rule: rev_cases) auto
  let ?t = "if qs = [] then s else s\<lparr>bp_reassembly := bp_reassembly s @ [sort_key (ptr_off s) (rev qs)]\<rparr>"
  let ?u = "s\<lparr>bp_reassembly := bp_reassembly s @ [l]\<rparr>" and ?bs = "map (\<lambda>q. the (bp_heap s q)) l"
  have p: "p \<in> set l" "p \<notin> set (rev qs)" "set (rev qs) \<subseteq> set l" "set qs \<subset> set l" using assms(3,4) ps by auto
  have w: "receive_fragments env fwd qs s = Some (Inr ((), ?t))"
    using incomplete_waits[OF assms(1,2), of qs "[]" s env fwd] p(4) assms(3) ps by simp
  have cat: "receive_fragments env fwd (qs @ [p]) s' = bp_bind (receive_fragments env fwd qs) (\<lambda>_. receive_fragments env fwd [p]) s'" for s'
    by (induction qs arbitrary: s') (auto simp: bp_bind_def split: option.splits sum.splits)
  have srt: "sort_key (ptr_off s) (p # rev qs) = l" by (rule sort_partition[OF assms(2)]) (use assms(3,4) ps in auto)
  have pend: "pending_fragments D ?u l ?bs" using pending_sorted[OF assms(2), of l] sort_partition[OF assms(2), of l] assms(2)
    by (simp add: partition_of_def)
  have con: "contiguous (length D) 0 ?bs" using assms(2) by (simp add: partition_of_def)
  have "0 < length D" using con assms(5) contiguous_bounds[OF con] by (cases l) auto
  then have cov: "covers (length D) 0 ?bs" by (rule contiguous_covers[OF con])
  have hd: "hd ?bs = the (bp_heap s (hd l))" using assms(5) by (simp add: hd_map)
  have ag: "agent_for env ?u (destination (hd ?bs)) = Some (f, prm)" using assms(7) hd agent_for_cong[of ?u s env] by simp
  have nth: "bp_reassembly ?u ! length (bp_reassembly s) = l" by simp
  have fl: "\<not> HAS_FLAG (proc_flags (hd ?bs)) BUNDLE_FLAG_ADMINISTRATIVE_RECORD" using assms(8) hd by simp
  have inv: "bp_inv ?u" using assms(1) by (simp add: bp_inv_def)
  obtain s' adu where s': "try_reassemble env (length (bp_reassembly s)) ?u = Some (Inr ((), s'))" "bp_inv s'"
    "bp_trace s' = bp_trace ?u @ [ToAgent (AgentCall f adu prm)]" "adu_payload adu = Some D" "unat (adu_length adu) = length D"
    "adu_source adu = source (hd ?bs)" "adu_destination adu = destination (hd ?bs)"
    "bp_reassembly s' = take (length (bp_reassembly s)) (bp_reassembly ?u) @ drop (Suc (length (bp_reassembly s))) (bp_reassembly ?u)"
    "\<forall>q. bp_heap s' q = (if q \<in> set l then None else bp_heap ?u q)"
    "\<forall>j. bundle_storage_get j (bp_store s') = (if j \<in> bundle_id ` set ?bs then None else bundle_storage_get j (bp_store ?u))"
    "\<exists>e \<in> set (bp_known s'). known_as True (hd ?bs) e"
    by (rule try_reassemble_ok[OF inv nth pend cov assms(6) ag fl])
  have "bundle_attempt_reassembly env fwd p ?t = Some (Inr ((), s'))"
    using arrival_step[OF assms(1,2) p(1,2,3), of ?t env fwd] srt s'(1) by (simp cong: if_cong)
  then have "receive_fragments env fwd ps s = Some (Inr ((), s'))" using w cat ps by simp
  then show ?thesis using that s' hd by simp
qed

text \<open>
  The gap check forgets the end of an earlier fragment: fragments that cover all of \<open>D\<close> are not reassembled when one of them lies
  within the one before it.
\<close>

lemma nested_fragment_blocks:
  assumes "bp_reassembly s ! i = l" "pending_fragments D s l [a, b, c]"
    and "frag_off a = 0" "frag_end b < frag_end a" "frag_end a < length D" "frag_off c = frag_end a" "frag_end c = length D"
  shows "(\<forall>x < length D. \<exists>y \<in> {a, b, c}. frag_off y \<le> x \<and> x < frag_end y) \<and> try_reassemble env i s = Some (Inr ((), s))"
proof
  show "\<forall>x < length D. \<exists>y \<in> {a, b, c}. frag_off y \<le> x \<and> x < frag_end y" using assms(3,6,7) by (auto simp: not_less)
  show "try_reassemble env i s = Some (Inr ((), s))" by (rule try_reassemble_gap[OF assms(1,2)]) (use assms(3-) in simp)
qed

section \<open>A late fragment\<close>

lemma late_fragment_run:
  assumes "bp_inv s" "bp_heap s p = Some b" "wf_bundle b" "ret_constraints b = BUNDLE_RET_CONSTRAINT_REASSEMBLY_PENDING"
    "\<exists>e \<in> set (bp_known s). known_as True b e" "[] \<notin> set (bp_reassembly s)"
  shows "bundle_attempt_reassembly env fwd p s = Some (Inl UseAfterFree)"
proof -
  have known: "known_bundle_list_contains_reassembled_parent (bp_known s) b = Inr True"
    using contains_reassembled_parent_iff[OF assms(3)] bp_invD(2)[OF assms(1)] assms(5) by (simp add: known_inv_def)
  define K where "K = (\<lambda>_ :: unit. bp_bind (\<lambda>s. bp_lift (find_reassembly (bp_heap s) p (bp_reassembly s)) s) (\<lambda>found. case found of
       Some i \<Rightarrow> (\<lambda>s. bp_bind (add_to_reassembly_bundle_list env fwd (bp_reassembly s ! i) p) (\<lambda>l.
           bp_bind (bp_modify (\<lambda>s. s\<lparr>bp_reassembly := (bp_reassembly s)[i := l]\<rparr>)) (\<lambda>_. try_reassemble env i)) s)
     | None \<Rightarrow> bp_bind bp_malloc (\<lambda>ok.
           if \<not> ok then bundle_delete env fwd p BUNDLE_SR_REASON_DEPLETED_STORAGE
           else bp_bind (add_to_reassembly_bundle_list env fwd [] p) (\<lambda>l s. 
             bp_bind (bp_modify (\<lambda>s. s\<lparr>bp_reassembly := bp_reassembly s @ [l]\<rparr>)) (\<lambda>_.
               try_reassemble env (length (bp_reassembly s))) s))))"
  obtain s' where s': "bp_bind (bundle_rem_rc p BUNDLE_RET_CONSTRAINT_REASSEMBLY_PENDING False) (\<lambda>_. bp_bind (bundle_discard p) K) s = K () s'"
    "bp_inv s'" "dropped p b s s'"
    by (rule discard_fragment[OF assms(1,2,4), of K])
  have gone: "bp_heap s' p = None" "[] \<notin> set (bp_reassembly s')" "bp_allocs s' = []"
    using s'(2,3) assms(6) by (simp_all add: dropped_def bp_inv_def)
  have "bundle_attempt_reassembly env fwd p s = K () s'"
    unfolding s'(1)[symmetric] bundle_attempt_reassembly_def K_def[symmetric] using assms(2) known by (simp add: bp_bind_assoc)
  also have "\<dots> = Some (Inl UseAfterFree)"
  proof (cases "bp_reassembly s'")
    case Nil
    then show ?thesis using gone
      by (simp add: K_def add_to_reassembly_bundle_list_def insert_at_def try_reassemble_def heap_read_def)
  next
    case (Cons l ls)
    then obtain q l' where "l = q # l'" using gone(2) by (cases l) auto
    then have "find_reassembly (bp_heap s') p (bp_reassembly s') = Inl UseAfterFree"
      using Cons gone(1) by (simp add: heap_read_def split: option.splits)
    then show ?thesis by (simp add: K_def)
  qed
  finally show ?thesis .
qed

section \<open>Properties\<close>


definition sample_fragment :: "u32 \<Rightarrow> u8 list \<Rightarrow> bundle_t" where
  "sample_fragment off d = sample_bundle\<lparr>destination := Some ''dtn:b/x'', ret_constraints := BUNDLE_RET_CONSTRAINT_REASSEMBLY_PENDING,
     fragment_offset := off, total_adu_length := 4, blocks := [sample_block\<lparr>blk_data := Some d\<rparr>]\<rparr>"

definition fragment_state :: bp_state where
  "fragment_state = sample_state\<lparr>bp_heap := [1 \<mapsto> sample_fragment 0 [1, 2], 2 \<mapsto> sample_fragment 2 [3, 4]], bp_store := storage_init\<rparr>"

lemma sample_fragment_of: "fragment_of [1, 2, 3, 4] (sample_fragment 0 [1, 2])" "fragment_of [1, 2, 3, 4] (sample_fragment 2 [3, 4])"
  by (simp_all add: fragment_of_def sample_fragment_def wf_bundle_def wf_block_def sample_bundle_def sample_block_def bundle_block_defs
      frag_end_def frag_off_def payload_of_def payload_bytes_def)


text \<open>
  C21. A bundle for a local agent that asks for no delivery report is handed to the agent exactly when no unexpired entry knows it: the payload goes
  over in one call. A known bundle reaches no agent. In both cases the bundle leaves the store and memory and is
  known afterwards. The byte counter of the store falls only in the second case: after a delivery the bytes stay accounted for.
\<close>

theorem local_delivery_once:
  assumes "bp_inv s" "bp_heap s p = Some b" "plain_local env s b" "bp_now env \<le> bundle_get_expiration_time_s (bp_now env) b"
    and "\<forall>e \<in> set (bp_known s). known_as False b e \<longrightarrow> kb_deadline e \<le> bundle_get_expiration_time_s (bp_now env) b"
    and "bundle_storage_get (bundle_id b) (bp_store s) = Some p"
  shows "\<exists>s'. bundle_dispatch env fwd p s = Some (Inr ((), s')) \<and> bp_inv s' \<and> bp_heap s' = (bp_heap s)(p := None)
    \<and> (\<forall>j. bundle_storage_get j (bp_store s') = (if j = bundle_id b then None else bundle_storage_get j (bp_store s)))
    \<and> (\<exists>e \<in> set (bp_known s'). known_as False b e)
    \<and> (if already_known env s b
       then bp_trace s' = bp_trace s \<and> bundle_bytes (bp_store s') = bundle_bytes (bp_store s) - payload_bytes b
       else bundle_bytes (bp_store s') = bundle_bytes (bp_store s) \<and> (\<exists>f prm adu pl. agent_for env s (destination b) = Some (f, prm) \<and> payload_of b = Some pl
         \<and> bp_trace s' = bp_trace s @ [ToAgent (AgentCall f adu prm)] \<and> adu_payload adu = blk_data pl \<and> adu_length adu = ucast (blk_length pl)
         \<and> adu_source adu = source b \<and> adu_destination adu = destination b))"
  by (rule dispatch_local[OF assms, of fwd], intro exI conjI)

definition local_bundle :: bundle_t where
  "local_bundle = sample_bundle\<lparr>bundle_id := 1, destination := Some ''dtn:b/x'', ret_constraints := BUNDLE_RET_CONSTRAINT_DISPATCH_PENDING\<rparr>"

theorem local_delivery_once_witness:
  "\<exists>s' adu. bundle_dispatch sample_env (bundle_forward 2 sample_env) 1 (sample_state\<lparr>bp_heap := sample_heap1(1 \<mapsto> local_bundle)\<rparr>) = Some (Inr ((), s'))
     \<and> bp_trace s' = [ToAgent (AgentCall 1 adu 0)] \<and> adu_payload adu = blk_data sample_block"
proof -
  let ?s = "sample_state\<lparr>bp_heap := sample_heap1(1 \<mapsto> local_bundle)\<rparr>"
  have pl: "payload_of local_bundle = Some sample_block"
    by (simp add: local_bundle_def payload_of_def sample_bundle_def)
  have inv: "bp_inv ?s"
    using bp_inv_upd[OF sample_inv, of 1 "sample_bundle\<lparr>bundle_id := 1\<rparr>" local_bundle]
    by (simp add: sample_state_def sample_heap1_def local_bundle_def payload_bytes_def payload_of_def sample_bundle_def sample_block_def)
  have ag: "agent_for sample_env ?s (destination local_bundle) = Some (1, 0)"
    by (simp add: agent_for_def sample_state_def sample_env_def local_bundle_def get_agent_id_def agent_search_def)
  have "wf_bundle local_bundle" using wf_sample_bundle by (simp add: wf_bundle_def local_bundle_def)
  then have loc: "plain_local sample_env ?s local_bundle"
    using ag by (simp add: plain_local_def) (simp add: local_bundle_def sample_bundle_def HAS_FLAG_def bundle_endpoint_is_local_def sample_env_def)
  have ex: "bp_now sample_env \<le> bundle_get_expiration_time_s (bp_now sample_env) local_bundle"
    by (simp add: sample_env_def bundle_get_expiration_time_s_def local_bundle_def sample_bundle_def)
  have st: "bundle_storage_get (bundle_id local_bundle) (bp_store ?s) = Some 1"
    by (simp add: local_bundle_def sample_state_def sample_store_def bundle_storage_get_def BUNDLE_INVALID_ID_def find_nodeptr_def)
  have kn: "bp_known ?s = []" "bp_trace ?s = []" by (simp_all add: sample_state_def)
  show ?thesis
    using local_delivery_once[OF inv _ loc ex _ st, of "bundle_forward 2 sample_env"] kn pl ag
    by (auto simp: already_known_def)
qed

text \<open>
  C24. A fragment of a bundle that was reassembled before is discarded and then used: \<^verbatim>\<open>bundle_attempt_reassembly\<close> goes
  on with the freed fragment and reads it, whatever other fragments wait.
\<close>

theorem late_fragment_use_after_free:
  assumes "bp_inv s" "bp_heap s p = Some b" "wf_bundle b" "ret_constraints b = BUNDLE_RET_CONSTRAINT_REASSEMBLY_PENDING"
    "\<exists>e \<in> set (bp_known s). known_as True b e" "[] \<notin> set (bp_reassembly s)"
  shows "bundle_attempt_reassembly env fwd p s = Some (Inl UseAfterFree)"
  by (rule late_fragment_run[OF assms])

theorem late_fragment_use_after_free_witness:
  "\<exists>l. bundle_attempt_reassembly sample_env (bundle_forward 2 sample_env) 1 (fragment_state\<lparr>bp_known := l\<rparr>) = Some (Inl UseAfterFree)"
proof -
  let ?b = "sample_fragment 0 [1, 2]"
  have wf: "wf_bundle ?b" using sample_fragment_of(1) by (simp add: fragment_of_def)
  have nil: "known_inv []" by (simp add: known_inv_def)
  obtain l where l: "known_inv l" "\<exists>e \<in> set l. known_as True ?b e"
    by (rule add_if_not_exists_total[OF wf nil, of 0 True]) blast
  have "bp_inv (fragment_state\<lparr>bp_known := l\<rparr>)"
    using l(1) by (simp add: bp_inv_def fragment_state_def sample_state_def store_slackI store_inv_init)
  then have "bundle_attempt_reassembly sample_env (bundle_forward 2 sample_env) 1 (fragment_state\<lparr>bp_known := l\<rparr>) = Some (Inl UseAfterFree)"
    by (rule late_fragment_use_after_free[of _ _ ?b, OF _ _ wf])
      (use l(2) in \<open>simp_all add: fragment_state_def sample_state_def sample_fragment_def\<close>)
  then show ?thesis by blast
qed

end
