(* ===== verification/Fragmenter.thy ===== *)
theory Fragmenter
  imports Bundle
begin

unbundle bit_operations_syntax

text \<open>
  Sizes of version 7 bundles and their fragmentation: \<^verbatim>\<open>components/bundle7/bundle7.c\<close>,
  \<^verbatim>\<open>components/bundle7/fragment.c\<close>, \<^verbatim>\<open>components/ud3tn/bundle_fragmenter.c\<close> and the switches on the protocol version in
  \<^verbatim>\<open>components/ud3tn/bundle.c\<close>. The type \<^verbatim>\<open>size_t\<close> has 64 bits. The version 6 branches of the switches are arguments.
\<close>

section \<open>Sizes\<close>

definition BUNDLE_V7_EID_SCHEMA_DTN :: u64 where "BUNDLE_V7_EID_SCHEMA_DTN = 1"
definition BUNDLE_V7_EID_SCHEMA_IPN :: u64 where "BUNDLE_V7_EID_SCHEMA_IPN = 2"

definition bundle7_cbor_uint_sizeof :: "u64 \<Rightarrow> u64" where
  "bundle7_cbor_uint_sizeof num =
    (if num \<le> 0xFFFF then if num \<le> 0xFF then if num \<le> 23 then 1 else 2 else 3
     else if num \<le> 0xFFFFFFFF then 5 else 9)"

text \<open>
  The conversion \<^verbatim>\<open>%u\<close> of \<^verbatim>\<open>sscanf\<close>: white space, a sign, digits; the value is taken modulo
  \<open>2 ^ 32\<close>.
\<close>

definition is_space :: "char \<Rightarrow> bool" where
  "is_space c \<longleftrightarrow> c = CHR '' '' \<or> c \<in> set (map char_of [9 :: nat, 10, 11, 12, 13])"

definition is_digit :: "char \<Rightarrow> bool" where
  "is_digit c \<longleftrightarrow> (48 :: nat) \<le> of_char c \<and> of_char c \<le> (57 :: nat)"

definition digits_value :: "string \<Rightarrow> u32" where
  "digits_value ds = foldl (\<lambda>v c. 10 * v + of_nat (of_char c - 48)) 0 ds"

definition scan_u32 :: "string \<Rightarrow> (u32 \<times> string) option" where
  "scan_u32 s = (let t = dropWhile is_space s;
     (neg, u) = (case t of CHR ''-'' # r \<Rightarrow> (True, r) | CHR ''+'' # r \<Rightarrow> (False, r) | _ \<Rightarrow> (False, t));
     ds = takeWhile is_digit u in
     if ds = [] then None else Some (if neg then - digits_value ds else digits_value ds, dropWhile is_digit u))"

definition scan_ipn :: "string \<Rightarrow> (u32 \<times> u32) option" where
  "scan_ipn s = (if take 4 s \<noteq> ''ipn:'' then None
     else case scan_u32 (drop 4 s) of
       Some (nd, CHR ''.'' # r) \<Rightarrow> (case scan_u32 r of Some (service, _) \<Rightarrow> Some (nd, service) | None \<Rightarrow> None)
     | _ \<Rightarrow> None)"

definition bundle7_eid_sizeof :: "eid option \<Rightarrow> u64" where
  "bundle7_eid_sizeof eid = (case eid of
     None \<Rightarrow> 3
   | Some s \<Rightarrow>
      if s = ''dtn:none'' then 3
      else if s \<noteq> [] \<and> hd s = CHR ''d'' then
        (let len = of_nat (length s) - 4 in
         1 + bundle7_cbor_uint_sizeof BUNDLE_V7_EID_SCHEMA_DTN + bundle7_cbor_uint_sizeof len + len)
      else case scan_ipn s of
        None \<Rightarrow> 0
      | Some (nd, service) \<Rightarrow> 1 + bundle7_cbor_uint_sizeof BUNDLE_V7_EID_SCHEMA_IPN + 1
          + bundle7_cbor_uint_sizeof (ucast nd) + bundle7_cbor_uint_sizeof (ucast service))"

definition bundle7_convert_to_protocol_block_flags :: "bundle_block \<Rightarrow> u16" where
  "bundle7_convert_to_protocol_block_flags blk = ucast (ucast (blk_flags blk AND (BUNDLE_BLOCK_FLAG_MUST_BE_REPLICATED
     OR BUNDLE_BLOCK_FLAG_DISCARD_IF_UNPROC OR BUNDLE_BLOCK_FLAG_REPORT_IF_UNPROC OR BUNDLE_BLOCK_FLAG_DELETE_BUNDLE_IF_UNPROC)) :: u8)"

fun crc_type_number :: "bundle_crc_type \<Rightarrow> u64" where
  "crc_type_number BUNDLE_CRC_TYPE_NONE = 0"
| "crc_type_number BUNDLE_CRC_TYPE_16 = 1"
| "crc_type_number BUNDLE_CRC_TYPE_32 = 2"

fun crc_field_size :: "bundle_crc_type \<Rightarrow> u64" where
  "crc_field_size BUNDLE_CRC_TYPE_32 = 5"
| "crc_field_size BUNDLE_CRC_TYPE_16 = 3"
| "crc_field_size BUNDLE_CRC_TYPE_NONE = 0"

definition primary_block_size :: "bundle_t \<Rightarrow> u64" where
  "primary_block_size b = 1 + bundle7_cbor_uint_sizeof (ucast (protocol_version b)) + bundle7_cbor_uint_sizeof (ucast (proc_flags b))
     + bundle7_cbor_uint_sizeof (crc_type_number (crc_type b))
     + bundle7_eid_sizeof (destination b) + bundle7_eid_sizeof (source b) + bundle7_eid_sizeof (report_to b)
     + 1 + bundle7_cbor_uint_sizeof (creation_timestamp_ms b) + bundle7_cbor_uint_sizeof (sequence_number b)
     + bundle7_cbor_uint_sizeof (lifetime_ms b)
     + (if bundle_is_fragmented b
        then bundle7_cbor_uint_sizeof (ucast (fragment_offset b)) + bundle7_cbor_uint_sizeof (ucast (total_adu_length b)) else 0)
     + crc_field_size (crc_type b)"

text \<open>The field that receives the length has 16 bits.\<close>

definition bundle7_recalculate_primary_block_length :: "bundle_t \<Rightarrow> bundle_t" where
  "bundle7_recalculate_primary_block_length b = b\<lparr>primary_block_length := ucast (primary_block_size b)\<rparr>"

definition bundle7_block_get_serialized_size :: "bundle_block \<Rightarrow> u64" where
  "bundle7_block_get_serialized_size blk = 1 + bundle7_cbor_uint_sizeof (ucast (blk_type blk)) + bundle7_cbor_uint_sizeof (ucast (blk_number blk))
     + bundle7_cbor_uint_sizeof (ucast (bundle7_convert_to_protocol_block_flags blk))
     + bundle7_cbor_uint_sizeof (crc_type_number (blk_crc_type blk)) + bundle7_cbor_uint_sizeof (ucast (blk_length blk))
     + ucast (blk_length blk) + crc_field_size (blk_crc_type blk)"

definition bundle7_get_serialized_size :: "bundle_t \<Rightarrow> u64" where
  "bundle7_get_serialized_size b = 1 + ucast (primary_block_length b)
     + foldl (\<lambda>n blk. n + bundle7_block_get_serialized_size blk) 0 (blocks b) + 1"

text \<open>The loop ends at the payload block and runs off the list when there is none.\<close>

fun size_before_payload :: "bundle_block list \<Rightarrow> u64 \<Rightarrow> fault + u64" where
  "size_before_payload [] n = Inl NullDeref"
| "size_before_payload (x # xs) n = (if blk_type x \<noteq> BUNDLE_BLOCK_TYPE_PAYLOAD
     then size_before_payload xs (n + bundle7_block_get_serialized_size x) else Inr n)"

definition bundle7_get_serialized_size_without_payload :: "bundle_t \<Rightarrow> fault + u64" where
  "bundle7_get_serialized_size_without_payload b = bindE (size_before_payload (blocks b) 0) (\<lambda>n.
     Inr (1 + ucast (primary_block_length b) + n + 1))"

definition payload_header_size :: "bundle_block \<Rightarrow> u64" where
  "payload_header_size blk = 1 + bundle7_cbor_uint_sizeof (ucast (blk_type blk)) + bundle7_cbor_uint_sizeof (ucast (blk_number blk))
     + bundle7_cbor_uint_sizeof (ucast (blk_flags blk)) + bundle7_cbor_uint_sizeof (crc_type_number (blk_crc_type blk))
     + bundle7_cbor_uint_sizeof (ucast (blk_length blk)) + crc_field_size (blk_crc_type blk) + 2"

definition first_fragment_block :: "bundle_block \<Rightarrow> u64" where
  "first_fragment_block blk = (if blk_type blk = BUNDLE_BLOCK_TYPE_PAYLOAD then payload_header_size blk
     else bundle7_block_get_serialized_size blk)"

definition last_fragment_block :: "bundle_block \<Rightarrow> u64" where
  "last_fragment_block blk = (if blk_type blk = BUNDLE_BLOCK_TYPE_PAYLOAD then payload_header_size blk
     else if HAS_FLAG (blk_flags blk) BUNDLE_BLOCK_FLAG_MUST_BE_REPLICATED then bundle7_block_get_serialized_size blk else 0)"

definition fragment_fields_size :: "bundle_t \<Rightarrow> fault + u64" where
  "fragment_fields_size b = (if bundle_is_fragmented b
     then bindE (deref (payload_of b)) (\<lambda>pl. Inr (bundle7_cbor_uint_sizeof (ucast (blk_length pl)) + 1)) else Inr 0)"

definition bundle7_get_first_fragment_min_size :: "bundle_t \<Rightarrow> fault + u64" where
  "bundle7_get_first_fragment_min_size b = bindE (fragment_fields_size b) (\<lambda>f.
     Inr (ucast (primary_block_length b) + (foldl (\<lambda>n blk. n + first_fragment_block blk) 0 (blocks b) + f)))"

definition bundle7_get_last_fragment_min_size :: "bundle_t \<Rightarrow> fault + u64" where
  "bundle7_get_last_fragment_min_size b = bindE (fragment_fields_size b) (\<lambda>f.
     Inr (ucast (primary_block_length b) + (foldl (\<lambda>n blk. n + last_fragment_block blk) 0 (blocks b) + f)))"

section \<open>Switches on the protocol version\<close>

datatype fragment_result = SameBundle | NoBundle | Remainder bundle_t

record v6_operations =
  v6_recalculate_header_length :: "bundle_t \<Rightarrow> bundle_t"
  v6_first_fragment_min_size :: "bundle_t \<Rightarrow> fault + u64"
  v6_mid_fragment_min_size :: "bundle_t \<Rightarrow> fault + u64"
  v6_last_fragment_min_size :: "bundle_t \<Rightarrow> fault + u64"
  v6_fragment_bundle :: "bundle_t \<Rightarrow> u64 \<Rightarrow> alloc_script \<Rightarrow> fault + fragment_result \<times> bundle_t \<times> alloc_script"

text \<open>\<^term>\<open>None\<close> is the result \<^verbatim>\<open>UD3TN_FAIL\<close>, which leaves the bundle as it is.\<close>

definition bundle_recalculate_header_length :: "v6_operations \<Rightarrow> bundle_t \<Rightarrow> bundle_t option" where
  "bundle_recalculate_header_length v6 b =
    (if protocol_version b = 6 then Some (v6_recalculate_header_length v6 b)
     else if protocol_version b = 7 then Some (bundle7_recalculate_primary_block_length b) else None)"

definition bundle_get_first_fragment_min_size :: "v6_operations \<Rightarrow> bundle_t \<Rightarrow> fault + u64" where
  "bundle_get_first_fragment_min_size v6 b =
    (if protocol_version b = 6 then v6_first_fragment_min_size v6 b
     else if protocol_version b = 7 then bundle7_get_first_fragment_min_size b else Inr 0)"

definition bundle_get_mid_fragment_min_size :: "v6_operations \<Rightarrow> bundle_t \<Rightarrow> fault + u64" where
  "bundle_get_mid_fragment_min_size v6 b =
    (if protocol_version b = 6 then v6_mid_fragment_min_size v6 b
     else if protocol_version b = 7 then bundle7_get_last_fragment_min_size b else Inr 0)"

definition bundle_get_last_fragment_min_size :: "v6_operations \<Rightarrow> bundle_t \<Rightarrow> fault + u64" where
  "bundle_get_last_fragment_min_size v6 b =
    (if protocol_version b = 6 then v6_last_fragment_min_size v6 b
     else if protocol_version b = 7 then bundle7_get_last_fragment_min_size b else Inr 0)"

section \<open>Fragmentation\<close>

text \<open>The argument \<open>junk\<close> is the contents of the memory for the new payload block.\<close>

definition bundlefragmenter_create_new_fragment ::
  "bundle_block \<Rightarrow> bundle_t \<Rightarrow> bool \<Rightarrow> alloc_script \<Rightarrow> fault + bundle_t option \<times> alloc_script" where
  "bundlefragmenter_create_new_fragment junk proto init_payload as =
    (if \<not> malloc_ok as then Inr (None, malloc_rest as)
     else let (fragment, as1) = bundle_copy_headers proto (malloc_rest as) in
       bindE (if \<not> bundle_is_fragmented proto then bindE (deref (payload_of proto)) (\<lambda>pl. Inr (blk_length pl))
              else Inr (total_adu_length proto)) (\<lambda>total.
       let f = fragment\<lparr>bundle_id := BUNDLE_INVALID_ID, total_adu_length := total, proc_flags := proc_flags fragment OR BUNDLE_FLAG_IS_FRAGMENT\<rparr> in
       if init_payload then
         (case bundle_block_create junk BUNDLE_BLOCK_TYPE_PAYLOAD as1 of
            (None, as2) \<Rightarrow> Inr (None, as2)
          | (Some k, as2) \<Rightarrow> bindE (deref (payload_of proto)) (\<lambda>pl.
              case bundle_block_entry_create (Some (k\<lparr>blk_flags := blk_flags pl\<rparr>)) as2 of
                (None, as3) \<Rightarrow> Inr (None, as3)
              | (Some e, as3) \<Rightarrow> Inr (Some (f\<lparr>blocks := [e], payload_block := Some 0\<rparr>), as3)))
       else Inr (Some (f\<lparr>blocks := [], payload_block := None\<rparr>), as1)))"

fun payload_index :: "bundle_block list \<Rightarrow> nat option" where
  "payload_index [] = None"
| "payload_index (x # xs) = (if blk_type x = BUNDLE_BLOCK_TYPE_PAYLOAD then Some 0 else map_option Suc (payload_index xs))"

definition bundlefragmenter_initialize_first_fragment ::
  "v6_operations \<Rightarrow> bundle_block \<Rightarrow> bundle_t option \<Rightarrow> alloc_script \<Rightarrow> fault + bundle_t option \<times> alloc_script" where
  "bundlefragmenter_initialize_first_fragment v6 junk input as = (case input of
     None \<Rightarrow> Inl AssertFailed
   | Some b \<Rightarrow> bindE (bundlefragmenter_create_new_fragment junk b False as) (\<lambda>(r, as1). case r of
       None \<Rightarrow> Inr (None, as1)
     | Some f \<Rightarrow> bindE (bundle_block_list_dup (blocks b) as1) (\<lambda>(dup, as2).
         let bs = (case dup of None \<Rightarrow> [] | Some bs \<Rightarrow> bs) in
         case payload_index bs of
           None \<Rightarrow> Inr (None, as2)
         | Some i \<Rightarrow> Inr (bundle_recalculate_header_length v6 (f\<lparr>blocks := bs, payload_block := Some i\<rparr>), as2))))"

text \<open>The copies of the blocks that every fragment carries.\<close>

fun replicate_loop :: "bundle_block list \<Rightarrow> bundle_block list \<Rightarrow> alloc_script \<Rightarrow> fault + bundle_block list option \<times> alloc_script" where
  "replicate_loop [] acc as = Inr (Some acc, as)"
| "replicate_loop (x # xs) acc as =
    (if bundle_block_must_be_replicated x \<and> blk_type x \<noteq> BUNDLE_BLOCK_TYPE_PAYLOAD
     then bindE (bundle_block_entry_dup x as) (\<lambda>(r, as1). case r of
         None \<Rightarrow> Inr (None, as1)
       | Some d \<Rightarrow> replicate_loop xs (acc @ [d]) as1)
     else replicate_loop xs acc as)"

text \<open>The new payload block with the second part of the payload; \<^term>\<open>None\<close> when an allocation fails.\<close>

definition remainder_payload ::
  "bundle_block \<Rightarrow> bundle_block \<Rightarrow> u32 \<Rightarrow> alloc_script \<Rightarrow> fault + bundle_block option \<times> alloc_script" where
  "remainder_payload junk pl first_len as = (case bundle_block_create junk BUNDLE_BLOCK_TYPE_PAYLOAD as of
     (None, as1) \<Rightarrow> Inr (None, as1)
   | (Some k, as1) \<Rightarrow>
      if \<not> malloc_ok as1 then Inr (None, malloc_rest as1)
      else let len = blk_length pl - first_len in
        bindE (memcpy_from (blk_data pl) (unat first_len) (unat len)) (\<lambda>d.
          Inr (bundle_block_entry_create (Some (k\<lparr>blk_length := len, blk_data := Some d\<rparr>)) (malloc_rest as1))))"

text \<open>
  The last part: the first fragment is shortened, both get their lengths, offsets and flags. A failed \<^verbatim>\<open>realloc\<close> violates the
  assertion.
\<close>

definition split_bundle ::
  "v6_operations \<Rightarrow> bundle_t \<Rightarrow> nat \<Rightarrow> bundle_block \<Rightarrow> u32 \<Rightarrow> bundle_t \<Rightarrow> bundle_block list \<Rightarrow> bundle_block \<Rightarrow> alloc_script
    \<Rightarrow> fault + fragment_result \<times> bundle_t \<times> alloc_script" where
  "split_bundle v6 b i pl first_len r bs k as =
    (if \<not> malloc_ok as then Inl AssertFailed
     else let total = (if \<not> bundle_is_fragmented b then blk_length pl else total_adu_length b);
         b1 = b\<lparr>total_adu_length := total,
                blocks := (blocks b)[i := pl\<lparr>blk_data := map_option (take (unat first_len)) (blk_data pl), blk_length := first_len\<rparr>],
                proc_flags := proc_flags b OR BUNDLE_FLAG_IS_FRAGMENT\<rparr>;
         r1 = r\<lparr>blocks := bs @ [k], payload_block := Some (length bs), fragment_offset := fragment_offset b + first_len,
                total_adu_length := total, proc_flags := proc_flags r OR BUNDLE_FLAG_IS_FRAGMENT\<rparr> in
       case bundle_recalculate_header_length v6 b1 of
         None \<Rightarrow> Inr (NoBundle, b1, malloc_rest as)
       | Some b2 \<Rightarrow> Inr (case bundle_recalculate_header_length v6 r1 of
           None \<Rightarrow> (NoBundle, b2, malloc_rest as) | Some r2 \<Rightarrow> (Remainder r2, b2, malloc_rest as)))"

definition bundle7_fragment_bundle ::
  "v6_operations \<Rightarrow> bundle_block \<Rightarrow> bundle_t \<Rightarrow> u64 \<Rightarrow> alloc_script \<Rightarrow> fault + fragment_result \<times> bundle_t \<times> alloc_script" where
  "bundle7_fragment_bundle v6 junk b first_max as = bindE (bundle_get_first_fragment_min_size v6 b) (\<lambda>first_min.
     if first_min > first_max then Inr (NoBundle, b, as)
     else let first_len = ucast (first_max - first_min) :: u32 in
       bindE (deref (payload_block b)) (\<lambda>i. bindE (deref (payload_of b)) (\<lambda>pl.
       if first_len \<ge> blk_length pl then Inr (SameBundle, b, as)
       else bindE (bundlefragmenter_create_new_fragment junk b False as) (\<lambda>(ro, as1). case ro of
           None \<Rightarrow> Inr (NoBundle, b, as1)
         | Some r \<Rightarrow> bindE (replicate_loop (blocks b) [] as1) (\<lambda>(bso, as2). case bso of
             None \<Rightarrow> Inr (NoBundle, b, as2)
           | Some bs \<Rightarrow> bindE (remainder_payload junk pl first_len as2) (\<lambda>(ko, as3). case ko of
               None \<Rightarrow> Inr (NoBundle, b, as3)
             | Some k \<Rightarrow> split_bundle v6 b i pl first_len r bs k as3))))))"

definition bundlefragmenter_fragment_bundle ::
  "v6_operations \<Rightarrow> bundle_block \<Rightarrow> bundle_t \<Rightarrow> u64 \<Rightarrow> alloc_script \<Rightarrow> fault + fragment_result \<times> bundle_t \<times> alloc_script" where
  "bundlefragmenter_fragment_bundle v6 junk b first_max as =
    (if protocol_version b = 6 then v6_fragment_bundle v6 b first_max as
     else if protocol_version b = 7 then bundle7_fragment_bundle v6 junk b first_max as else Inr (NoBundle, b, as))"

section \<open>The two fragments\<close>

lemma replicate_loop_granted:
  "list_all wf_block xs \<Longrightarrow> replicate_loop xs acc [] = Inr (Some (acc @ map dup_block
     (filter (\<lambda>x. bundle_block_must_be_replicated x \<and> blk_type x \<noteq> BUNDLE_BLOCK_TYPE_PAYLOAD) xs)), [])"
  by (induction xs arbitrary: acc) (auto simp: bundle_block_entry_dup_granted)

lemma remainder_payload_granted:
  assumes "wf_block pl" "first_len < blk_length pl"
  obtains k where "remainder_payload junk pl first_len [] = Inr (Some k, [])" "blk_type k = BUNDLE_BLOCK_TYPE_PAYLOAD"
    "blk_length k = blk_length pl - first_len" "blk_data k = map_option (drop (unat first_len)) (blk_data pl)" "blk_eid_refs k = []"
proof -
  obtain d where d: "blk_data pl = Some d" "length d = unat (blk_length pl)" using assms(1) by (auto simp: wf_block_def)
  have len: "unat (blk_length pl - first_len) = length d - unat first_len" using assms(2) d(2) by (simp add: unat_sub word_less_nat_alt word_le_nat_alt)
  have "memcpy_from (blk_data pl) (unat first_len) (unat (blk_length pl - first_len)) = Inr (drop (unat first_len) d)"
    using assms(2) d len by (auto simp: memcpy_from_def word_less_nat_alt)
  then show ?thesis using d(1)
    by (intro that[of "junk\<lparr>blk_type := BUNDLE_BLOCK_TYPE_PAYLOAD, blk_number := 1, blk_flags := BUNDLE_BLOCK_FLAG_NONE, blk_eid_refs := [],
        blk_crc_type := BUNDLE_CRC_TYPE_NONE, blk_length := blk_length pl - first_len, blk_data := Some (drop (unat first_len) d)\<rparr>"]) (simp_all add: remainder_payload_def bundle_block_create_def bundle_block_entry_create_def Let_def)
qed

lemma strdup_eid_granted [simp]: "strdup_eid x [] = (x, [])"
  by (cases x) simp_all

lemma copy_headers_granted:
  "bundle_copy_headers b [] = (b\<lparr>blocks := [], payload_block := None\<rparr>, [])"
  by (simp add: bundle_copy_headers_def)

lemma create_new_fragment_granted:
  assumes "payload_of b = Some pl"
  shows "bundlefragmenter_create_new_fragment junk b False [] = Inr (Some (b\<lparr>bundle_id := BUNDLE_INVALID_ID,
     total_adu_length := (if bundle_is_fragmented b then total_adu_length b else blk_length pl),
     proc_flags := proc_flags b OR BUNDLE_FLAG_IS_FRAGMENT, blocks := [], payload_block := None\<rparr>), [])"
  using assms by (simp add: bundlefragmenter_create_new_fragment_def copy_headers_granted Let_def)

text \<open>The first fragment, and the remainder with its payload block.\<close>

definition first_part :: "bundle_t \<Rightarrow> nat \<Rightarrow> bundle_block \<Rightarrow> u32 \<Rightarrow> bundle_t" where
  "first_part b i pl n = b\<lparr>total_adu_length := (if bundle_is_fragmented b then total_adu_length b else blk_length pl),
     blocks := (blocks b)[i := pl\<lparr>blk_data := map_option (take (unat n)) (blk_data pl), blk_length := n\<rparr>],
     proc_flags := proc_flags b OR BUNDLE_FLAG_IS_FRAGMENT\<rparr>"

definition second_part :: "bundle_t \<Rightarrow> bundle_block \<Rightarrow> u32 \<Rightarrow> bundle_block \<Rightarrow> bundle_t" where
  "second_part b pl n k = (let bs = map dup_block (filter (\<lambda>x. bundle_block_must_be_replicated x \<and> blk_type x \<noteq> BUNDLE_BLOCK_TYPE_PAYLOAD) (blocks b)) in
     b\<lparr>bundle_id := BUNDLE_INVALID_ID, total_adu_length := (if bundle_is_fragmented b then total_adu_length b else blk_length pl),
       proc_flags := proc_flags b OR BUNDLE_FLAG_IS_FRAGMENT, blocks := bs @ [k], payload_block := Some (length bs),
       fragment_offset := fragment_offset b + n\<rparr>)"

lemma bundle7_fragment_cases:
  assumes "wf_bundle b" "protocol_version b = 7" "payload_block b = Some i" "payload_of b = Some pl" "bundle7_get_first_fragment_min_size b = Inr m"
  obtains "m > first_max" "bundle7_fragment_bundle v6 junk b first_max [] = Inr (NoBundle, b, [])"
  | "m \<le> first_max" "(ucast (first_max - m) :: u32) \<ge> blk_length pl" "bundle7_fragment_bundle v6 junk b first_max [] = Inr (SameBundle, b, [])"
  | n k where "m \<le> first_max" "n = ucast (first_max - m)" "n < blk_length pl" "blk_type k = BUNDLE_BLOCK_TYPE_PAYLOAD"
      "blk_length k = blk_length pl - n" "blk_data k = map_option (drop (unat n)) (blk_data pl)" "blk_eid_refs k = []"
      "bundle7_fragment_bundle v6 junk b first_max [] = Inr (Remainder (bundle7_recalculate_primary_block_length (second_part b pl n k)),
         bundle7_recalculate_primary_block_length (first_part b i pl n), [])"
proof -
  let ?n = "ucast (first_max - m) :: u32"
  have wb: "list_all wf_block (blocks b)" using assms(1) by (simp add: wf_bundle_def)
  have wp: "wf_block pl" using assms(1,4) wf_bundle_payload by (metis option.inject)
  have mn: "bundle_get_first_fragment_min_size v6 b = Inr m" using assms(2,5) by (simp add: bundle_get_first_fragment_min_size_def)
  consider "m > first_max" | "m \<le> first_max" "?n \<ge> blk_length pl" | "m \<le> first_max" "?n < blk_length pl" by force
  then show ?thesis
  proof cases
    case 1
    then show ?thesis using that(1) mn by (simp add: bundle7_fragment_bundle_def)
  next
    case 2
    then show ?thesis using that(2) mn assms(3,4) by (simp add: bundle7_fragment_bundle_def not_less[symmetric])
  next
    case 3
    then have nl: "\<not> first_max < m" "\<not> blk_length pl \<le> ?n" by simp_all
    obtain k where k: "remainder_payload junk pl ?n [] = Inr (Some k, [])" "blk_type k = BUNDLE_BLOCK_TYPE_PAYLOAD"
      "blk_length k = blk_length pl - ?n" "blk_data k = map_option (drop (unat ?n)) (blk_data pl)" "blk_eid_refs k = []"
      by (rule remainder_payload_granted[OF wp 3(2)])
    have "bundle7_fragment_bundle v6 junk b first_max [] = split_bundle v6 b i pl ?n (b\<lparr>bundle_id := BUNDLE_INVALID_ID,
     total_adu_length := (if bundle_is_fragmented b then total_adu_length b else blk_length pl),
     proc_flags := proc_flags b OR BUNDLE_FLAG_IS_FRAGMENT, blocks := [], payload_block := None\<rparr>)
      (map dup_block (filter (\<lambda>x. bundle_block_must_be_replicated x \<and> blk_type x \<noteq> BUNDLE_BLOCK_TYPE_PAYLOAD) (blocks b))) k []"
      using nl k(1) mn assms(3,4) create_new_fragment_granted[OF assms(4), of junk] replicate_loop_granted[OF wb]
      by (simp add: bundle7_fragment_bundle_def Let_def)
    also have "\<dots> = Inr (Remainder (bundle7_recalculate_primary_block_length (second_part b pl ?n k)),
         bundle7_recalculate_primary_block_length (first_part b i pl ?n), [])"
      using assms(2) by (cases b) (simp add: split_bundle_def bundle_recalculate_header_length_def Let_def first_part_def second_part_def or.assoc)
    finally show ?thesis using that(3)[OF 3(1) refl 3(2) k(2-5)] by simp
  qed
qed

section \<open>The size of the first fragment\<close>

lemma foldl_size: "foldl (\<lambda>n x. n + f x) a xs = a + sum_list (map f xs)" for a :: u64
  by (induction xs arbitrary: a) (simp_all add: add.assoc)

lemma or_1_le: "odd (unat c) \<Longrightarrow> (x OR 1 \<le> c) = (x \<le> c)" for x c :: u64
proof -
  assume c: "odd (unat c)"
  show ?thesis
  proof (cases "even x")
    case True
    have ne: "x + 1 \<noteq> 0" using True by (metis add_0 dvd_0_right even_plus_one_iff)
    have u: "unat (x + 1) = unat x + 1" using ne by (simp add: unatSuc add.commute)
    have "bit (unat x) 0 = bit x 0" by (simp only: bit_unsigned_iff) simp
    then have "even (unat x)" using True by (simp add: bit_0)
    moreover have "x OR 1 = x + 1" using True by (simp add: or_one_eq)
    ultimately show ?thesis using c u by (auto simp: word_le_nat_alt) presburger
  next
    case False
    then show ?thesis by (simp add: or_one_eq)
  qed
qed

lemma uint_sizeof_or_1: "bundle7_cbor_uint_sizeof (x OR 1) = bundle7_cbor_uint_sizeof x"
  by (simp add: bundle7_cbor_uint_sizeof_def or_1_le)

lemma ucast_or_1: "(ucast (x OR 1) :: u64) = ucast x OR 1" for x :: u32
  by (simp add: unsigned_or_eq)

lemma ucast_16: "p < 0x10000 \<Longrightarrow> ucast (ucast p :: u16) = p" for p :: u64
  by (rule word_unat_eq_iff[THEN iffD2]) (simp add: unsigned_ucast_eq word_less_nat_alt unsigned_take_bit_eq take_bit_nat_eq_self)


lemma protocol_flags_small: "bundle7_cbor_uint_sizeof (ucast (bundle7_convert_to_protocol_block_flags blk)) = 1"
proof -
  have m: "bundle7_convert_to_protocol_block_flags blk = ucast (ucast (blk_flags blk AND 23) :: u8)"
    by (simp add: bundle7_convert_to_protocol_block_flags_def bundle_block_defs)
  have "unat (blk_flags blk AND 23) \<le> unat (23 :: u32)" unfolding word_le_nat_alt[symmetric] by (rule word_and_le1)
  then have "unat (blk_flags blk AND 23) \<le> 23" by simp
  then have "unat (ucast (bundle7_convert_to_protocol_block_flags blk) :: u64) \<le> 23"
    unfolding m by (simp add: unsigned_ucast_eq unsigned_take_bit_eq take_bit_nat_eq_self)
  then show ?thesis by (simp add: bundle7_cbor_uint_sizeof_def word_le_nat_alt)
qed

lemma has_fragment_flag: "HAS_FLAG (x OR BUNDLE_FLAG_IS_FRAGMENT) BUNDLE_FLAG_IS_FRAGMENT"
  by (simp add: HAS_FLAG_def BUNDLE_FLAG_IS_FRAGMENT_def word_ao_dist or_eq_0_iff)

lemma fragment_flag_set: "HAS_FLAG x BUNDLE_FLAG_IS_FRAGMENT \<Longrightarrow> x OR BUNDLE_FLAG_IS_FRAGMENT = x"
  by (auto simp: HAS_FLAG_def BUNDLE_FLAG_IS_FRAGMENT_def or_one_eq and_one_eq even_iff_mod_2_eq_zero)

lemma first_part_primary:
  "primary_block_size (first_part b i pl n) = (if bundle_is_fragmented b then primary_block_size b
     else primary_block_size b + bundle7_cbor_uint_sizeof (ucast (fragment_offset b)) + bundle7_cbor_uint_sizeof (ucast (blk_length pl)))"
proof (cases "bundle_is_fragmented b")
  case True
  then have "proc_flags b OR BUNDLE_FLAG_IS_FRAGMENT = proc_flags b" using fragment_flag_set by (simp add: bundle_is_fragmented_def)
  then show ?thesis using True by (simp add: primary_block_size_def first_part_def bundle_is_fragmented_def)
next
  case False
  have "bundle_is_fragmented (first_part b i pl n)" by (simp add: bundle_is_fragmented_def first_part_def has_fragment_flag)
  moreover have "bundle7_cbor_uint_sizeof (ucast (proc_flags b OR BUNDLE_FLAG_IS_FRAGMENT)) = bundle7_cbor_uint_sizeof (ucast (proc_flags b))"
    by (simp add: BUNDLE_FLAG_IS_FRAGMENT_def ucast_or_1 uint_sizeof_or_1)
  ultimately show ?thesis using False by (simp add: primary_block_size_def) (simp add: first_part_def)
qed

lemma first_part_size:
  assumes "blocks b = pre @ pl # post" "blk_flags pl \<le> 23"
    and "blk_type pl = BUNDLE_BLOCK_TYPE_PAYLOAD" "\<forall>x \<in> set pre \<union> set post. blk_type x \<noteq> BUNDLE_BLOCK_TYPE_PAYLOAD"
    and "fragment_fields_size b = Inr f" "bundle7_get_first_fragment_min_size b = Inr m"
  shows "bundle7_get_serialized_size (bundle7_recalculate_primary_block_length (first_part b (length pre) pl n)) + f + ucast (primary_block_length b)
       + bundle7_cbor_uint_sizeof (ucast (blk_length pl))
     = m + ucast n + bundle7_cbor_uint_sizeof (ucast n) + ucast (ucast (primary_block_size (first_part b (length pre) pl n)) :: u16)"
proof -
  have fl: "bundle7_cbor_uint_sizeof (ucast (blk_flags pl)) = 1"
    using assms(2) by (simp add: bundle7_cbor_uint_sizeof_def word_le_nat_alt unsigned_ucast_eq unsigned_take_bit_eq take_bit_nat_eq_self)
  let ?pl = "pl\<lparr>blk_data := map_option (take (unat n)) (blk_data pl), blk_length := n\<rparr>"
  have bl: "blocks (first_part b (length pre) pl n) = pre @ ?pl # post" using assms(1) by (simp add: first_part_def)
  have fb: "first_fragment_block x = bundle7_block_get_serialized_size x" if "x \<in> set pre \<union> set post" for x
    using assms(4) that by (simp add: first_fragment_block_def)
  have sums: "map first_fragment_block pre = map bundle7_block_get_serialized_size pre" "map first_fragment_block post = map bundle7_block_get_serialized_size post"
    using fb by simp_all
  have hd: "first_fragment_block pl + ucast n + bundle7_cbor_uint_sizeof (ucast n)
      = bundle7_block_get_serialized_size ?pl + bundle7_cbor_uint_sizeof (ucast (blk_length pl)) + 2"
    using assms(3) fl by (simp add: first_fragment_block_def payload_header_size_def bundle7_block_get_serialized_size_def protocol_flags_small)
  have m: "m = ucast (primary_block_length b) + (sum_list (map bundle7_block_get_serialized_size pre) + first_fragment_block pl
      + sum_list (map bundle7_block_get_serialized_size post) + f)"
    using assms(1,5,6) sums by (simp add: bundle7_get_first_fragment_min_size_def foldl_size add.assoc)
  show ?thesis unfolding m using hd bl
    by (simp add: bundle7_get_serialized_size_def bundle7_recalculate_primary_block_length_def foldl_size algebra_simps)
qed

lemma sizeof_bounds: "1 \<le> bundle7_cbor_uint_sizeof x" "bundle7_cbor_uint_sizeof (ucast (y :: u32)) \<le> 5"
proof -
  have "(ucast y :: u64) \<le> 0xFFFFFFFF" using unsigned_less[of y, where 'a = nat]
    by (simp add: word_le_nat_alt unsigned_ucast_eq unsigned_take_bit_eq take_bit_nat_eq_self)
  then show "bundle7_cbor_uint_sizeof (ucast y) \<le> 5" by (simp add: bundle7_cbor_uint_sizeof_def)
qed (simp add: bundle7_cbor_uint_sizeof_def)

section \<open>Property\<close>



definition no_v6 :: v6_operations where
  "no_v6 = \<lparr>v6_recalculate_header_length = id, v6_first_fragment_min_size = (\<lambda>b. Inr 0), v6_mid_fragment_min_size = (\<lambda>b. Inr 0),
     v6_last_fragment_min_size = (\<lambda>b. Inr 0), v6_fragment_bundle = (\<lambda>b n as. Inr (NoBundle, b, as))\<rparr>"

definition whole_bundle :: bundle_t where
  "whole_bundle = bundle7_recalculate_primary_block_length sample_bundle"

lemma whole_bundle_sizes:
  "primary_block_size sample_bundle = 26" "bundle7_get_first_fragment_min_size whole_bundle = Inr 34"
  by (simp_all add: primary_block_size_def sample_bundle_def sample_block_def whole_bundle_def bundle7_recalculate_primary_block_length_def
      bundle7_get_first_fragment_min_size_def fragment_fields_size_def bundle_is_fragmented_def HAS_FLAG_def bundle7_eid_sizeof_def
      bundle7_cbor_uint_sizeof_def first_fragment_block_def payload_header_size_def bundle_block_defs BUNDLE_V7_EID_SCHEMA_DTN_def)


lemma primary_block_size_length [simp]: "primary_block_size (b\<lparr>primary_block_length := x\<rparr>) = primary_block_size b"
  by (simp add: primary_block_size_def bundle_is_fragmented_def)

lemma whole_bundle_wf: "wf_bundle whole_bundle" "payload_of whole_bundle = Some sample_block" "protocol_version whole_bundle = 7"
  "payload_block whole_bundle = Some 0" "blocks whole_bundle = [sample_block]" "\<not> bundle_is_fragmented whole_bundle" "fragment_offset whole_bundle = 0"
  "primary_block_length whole_bundle = 26" "primary_block_size whole_bundle = 26"
proof -
  show "wf_bundle whole_bundle" using wf_sample_bundle by (simp add: wf_bundle_def whole_bundle_def bundle7_recalculate_primary_block_length_def)
  show "primary_block_length whole_bundle = 26" "primary_block_size whole_bundle = 26"
    using whole_bundle_sizes(1) by (simp_all add: whole_bundle_def bundle7_recalculate_primary_block_length_def)
qed (simp_all add: whole_bundle_def bundle7_recalculate_primary_block_length_def sample_bundle_def payload_of_def bundle_is_fragmented_def HAS_FLAG_def)

lemma whole_bundle_split:
  obtains r b' where "bundle7_fragment_bundle no_v6 sample_block whole_bundle 35 [] = Inr (Remainder r, b', [])"
  by (cases rule: bundle7_fragment_cases[OF whole_bundle_wf(1,3,4,2) whole_bundle_sizes(2), of 35 no_v6 sample_block])
    (simp_all add: sample_block_def word_le_nat_alt)


end
