(* ===== verification/Bundle6.thy ===== *)
theory Bundle6
  imports Fragmenter Sdnv
begin

unbundle bit_operations_syntax

text \<open>
  Bundle protocol version 6, the sending side of \<^verbatim>\<open>components/bundle6/\<close>: the dictionary of endpoint identifiers and the sizes
  of \<^verbatim>\<open>bundle6.c\<close>, \<^verbatim>\<open>serializer.c\<close>, \<^verbatim>\<open>create.c\<close> and \<^verbatim>\<open>fragment.c\<close>. A \<^verbatim>\<open>size_t\<close> is a natural number, every conversion to a
  narrower type is written out. The member \<^verbatim>\<open>ssp_ptr\<close> of an EID description is never read and is left out.
\<close>

section \<open>Dictionary\<close>

record bundle6_eid_info =
  ei_str :: "eid option"
  ei_scheme_offset :: u16
  ei_ssp_offset :: u16

record bundle6_dict_descriptor =
  dd_length :: nat
  dd_reference_count :: nat
  dd_destination :: bundle6_eid_info
  dd_source :: bundle6_eid_info
  dd_report_to :: bundle6_eid_info
  dd_custodian :: bundle6_eid_info
  dd_references :: "bundle6_eid_info list"

text \<open>\<^verbatim>\<open>strchr\<close> for the colon.\<close>

definition colon_position :: "eid option \<Rightarrow> nat option" where
  "colon_position eid = (case eid of None \<Rightarrow> None | Some s \<Rightarrow> strstr s '':'')"

text \<open>What the functions write, terminators included; the length is what they return.\<close>

definition write_scheme :: "eid option \<Rightarrow> u8 list" where
  "write_scheme eid = (case colon_position eid of
     None \<Rightarrow> string_bytes ''dtn'' @ [0]
   | Some k \<Rightarrow> string_bytes (take k (the eid)) @ [0])"

definition write_ssp :: "eid option \<Rightarrow> u8 list" where
  "write_ssp eid = (case colon_position eid of
     None \<Rightarrow> string_bytes ''none'' @ [0]
   | Some k \<Rightarrow> string_bytes (drop (k + 1) (the eid)) @ [0])"

definition write_eid :: "bundle6_eid_info \<Rightarrow> u8 list" where
  "write_eid info = write_scheme (ei_str info) @ write_ssp (ei_str info)"

fun write_eids :: "u8 list \<Rightarrow> nat \<Rightarrow> bundle6_eid_info list \<Rightarrow> fault + u8 list" where
  "write_eids buf pos [] = Inr buf"
| "write_eids buf pos (i # is) = bindE (memcpy_at (Some buf) pos (write_eid i)) (\<lambda>buf'. write_eids buf' (pos + length (write_eid i)) is)"

definition bundle6_serialize_dictionary :: "u8 list \<Rightarrow> bundle6_dict_descriptor \<Rightarrow> fault + u8 list" where
  "bundle6_serialize_dictionary buf desc = write_eids buf 0
     ([dd_destination desc, dd_source desc, dd_report_to desc, dd_custodian desc] @ dd_references desc)"

definition bundle6_get_dict_length :: "bundle_t \<Rightarrow> fault + nat" where
  "bundle6_get_dict_length b =
    (if None \<in> set (concat (map blk_eid_refs (blocks b))) then Inl NullDeref
     else Inr (sum_list (map (\<lambda>e. case e of Some s \<Rightarrow> length s + 1 | None \<Rightarrow> 9) [destination b, source b, report_to b, current_custodian b])
       + sum_list (map (\<lambda>blk. sum_list (map (\<lambda>e. length (the e) + 1) (blk_eid_refs blk))) (blocks b))))"

definition analyze_eid :: "eid option \<Rightarrow> nat \<times> nat" where
  "analyze_eid eid = (case colon_position eid of None \<Rightarrow> (3, 4) | Some k \<Rightarrow> (k, length (drop (k + 1) (the eid))))"

definition calculate_eid_info :: "eid option \<Rightarrow> nat \<Rightarrow> bundle6_eid_info \<times> nat" where
  "calculate_eid_info eid len = (case analyze_eid eid of (scheme_len, ssp_len) \<Rightarrow>
     (\<lparr>ei_str = eid, ei_scheme_offset = of_nat len, ei_ssp_offset = of_nat (len + scheme_len + 1)\<rparr>, len + (scheme_len + ssp_len + 2)))"

definition counted_references :: "bundle_block list \<Rightarrow> nat" where
  "counted_references bs = sum_list (map (\<lambda>blk. if HAS_FLAG (blk_flags blk) BUNDLE_V6_BLOCK_FLAG_HAS_EID_REF_FIELD
     then length (blk_eid_refs blk) else 0) bs)"

text \<open>
  The array at the end of the descriptor has room for the counted references; the loop that fills it walks over the references
  of all blocks.
\<close>

fun fill_references :: "nat \<Rightarrow> eid option list \<Rightarrow> bundle6_eid_info list \<Rightarrow> nat \<Rightarrow> fault + bundle6_eid_info list \<times> nat" where
  "fill_references room [] acc len = Inr (acc, len)"
| "fill_references room (r # rs) acc len =
    (if length acc < room then (case calculate_eid_info r len of (i, len') \<Rightarrow> fill_references room rs (acc @ [i]) len')
     else Inl OutOfBounds)"

text \<open>The result of the allocation is not checked.\<close>

definition bundle6_calculate_dict :: "bundle_t \<Rightarrow> alloc_script \<Rightarrow> fault + bundle6_dict_descriptor \<times> alloc_script" where
  "bundle6_calculate_dict b as =
    (if \<not> malloc_ok as then Inl NullDeref
     else let n = counted_references (blocks b);
              (d, l1) = calculate_eid_info (destination b) 0;
              (s, l2) = calculate_eid_info (source b) l1;
              (r, l3) = calculate_eid_info (report_to b) l2;
              (c, l4) = calculate_eid_info (current_custodian b) l3
          in bindE (fill_references n (concat (map blk_eid_refs (blocks b))) [] l4) (\<lambda>(refs, l5).
            Inr (\<lparr>dd_length = l5, dd_reference_count = n, dd_destination = d, dd_source = s, dd_report_to = r, dd_custodian = c,
                  dd_references = refs\<rparr>, malloc_rest as)))"

section \<open>Sizes\<close>

definition fragment_fields :: "bundle_t \<Rightarrow> nat" where
  "fragment_fields b = (if HAS_FLAG (proc_flags b) BUNDLE_FLAG_IS_FRAGMENT
     then sdnv_get_size_u32 (fragment_offset b) + sdnv_get_size_u32 (total_adu_length b) else 0)"

text \<open>The length field itself enters with its old value.\<close>

definition primary_length :: "bundle_t \<Rightarrow> bundle6_dict_descriptor \<Rightarrow> nat" where
  "primary_length b dd =
     1 + sdnv_get_size_u32 (proc_flags b) + sdnv_get_size_u32 (ucast (primary_block_length b))
     + sdnv_get_size_u32 (ucast (ei_scheme_offset (dd_destination dd))) + sdnv_get_size_u32 (ucast (ei_ssp_offset (dd_destination dd)))
     + sdnv_get_size_u32 (ucast (ei_scheme_offset (dd_source dd))) + sdnv_get_size_u32 (ucast (ei_ssp_offset (dd_source dd)))
     + sdnv_get_size_u32 (ucast (ei_scheme_offset (dd_report_to dd))) + sdnv_get_size_u32 (ucast (ei_ssp_offset (dd_report_to dd)))
     + sdnv_get_size_u32 (ucast (ei_scheme_offset (dd_custodian dd))) + sdnv_get_size_u32 (ucast (ei_ssp_offset (dd_custodian dd)))
     + sdnv_get_size_u64 (creation_timestamp_ms b div 1000) + sdnv_get_size_u64 (sequence_number b)
     + sdnv_get_size_u64 (lifetime_ms b div 1000)
     + sdnv_get_size_u32 (of_nat (dd_length dd)) + dd_length dd + fragment_fields b"

definition bundle6_recalculate_header_length_internal ::
  "bundle_t \<Rightarrow> alloc_script \<Rightarrow> fault + bundle_t \<times> bundle6_dict_descriptor \<times> alloc_script" where
  "bundle6_recalculate_header_length_internal b as = bindE (bundle6_calculate_dict b as) (\<lambda>(dd, as1).
     Inr (b\<lparr>primary_block_length := of_nat (primary_length b dd)\<rparr>, dd, as1))"

definition bundle6_recalculate_header_length :: "bundle_t \<Rightarrow> alloc_script \<Rightarrow> fault + bundle_t \<times> alloc_script" where
  "bundle6_recalculate_header_length b as = bindE (bundle6_recalculate_header_length_internal b as) (\<lambda>(b', dd, as1). Inr (b', as1))"

text \<open>The size of the EID reference field of one block, starting at an index of the descriptor's array.\<close>

definition eid_ref_field_size :: "bundle6_dict_descriptor \<Rightarrow> nat \<Rightarrow> bundle_block \<Rightarrow> fault + nat" where
  "eid_ref_field_size dd off blk =
    (if HAS_FLAG (blk_flags blk) BUNDLE_V6_BLOCK_FLAG_HAS_EID_REF_FIELD
     then if off + length (blk_eid_refs blk) \<le> length (dd_references dd)
       then Inr (sum_list (map (\<lambda>i. sdnv_get_size_u16 (ei_scheme_offset i) + sdnv_get_size_u16 (ei_ssp_offset i))
                   (take (length (blk_eid_refs blk)) (drop off (dd_references dd))))
                 + sdnv_get_size_u16 (of_nat (length (blk_eid_refs blk))))
       else Inl OutOfBounds
     else Inr 0)"

fun block_sizes :: "bool \<Rightarrow> bool \<Rightarrow> bool \<Rightarrow> bundle6_dict_descriptor \<Rightarrow> bool \<Rightarrow> nat \<Rightarrow> bundle_block list \<Rightarrow> nat \<Rightarrow> fault + nat" where
  "block_sizes exclude_payload first_fragment last_fragment dd payload_reached off [] result = Inr result"
| "block_sizes exclude_payload first_fragment last_fragment dd payload_reached off (blk # bs) result =
    (let is_payload = (blk_type blk = BUNDLE_BLOCK_TYPE_PAYLOAD);
         block_wanted = (HAS_FLAG (blk_flags blk) BUNDLE_BLOCK_FLAG_MUST_BE_REPLICATED
           \<or> first_fragment \<and> \<not> payload_reached \<or> last_fragment \<and> payload_reached)
     in bindE (eid_ref_field_size dd off blk) (\<lambda>eid_ref_size.
       block_sizes exclude_payload first_fragment last_fragment dd (payload_reached \<or> is_payload)
         (if HAS_FLAG (blk_flags blk) BUNDLE_V6_BLOCK_FLAG_HAS_EID_REF_FIELD then off + length (blk_eid_refs blk) else off) bs
         (if block_wanted
          then result + (1 + sdnv_get_size_u32 (blk_flags blk) + sdnv_get_size_u32 (blk_length blk) + eid_ref_size
            + (if is_payload \<and> exclude_payload then 0 else unat (blk_length blk)))
          else result)))"

definition get_serialized_size :: "bundle_t \<Rightarrow> bool \<Rightarrow> bool \<Rightarrow> bool \<Rightarrow> alloc_script \<Rightarrow> fault + nat \<times> bundle_t \<times> alloc_script" where
  "get_serialized_size b exclude_payload first_fragment last_fragment as =
     bindE (bundle6_recalculate_header_length_internal b as) (\<lambda>(b', dd, as1).
     bindE (block_sizes exclude_payload first_fragment last_fragment dd False 0 (blocks b') (unat (primary_block_length b'))) (\<lambda>result.
     Inr (if HAS_FLAG (proc_flags b') BUNDLE_FLAG_IS_FRAGMENT \<and> payload_block b' \<noteq> None
          then result + sdnv_get_size_u32 (total_adu_length b') + sdnv_get_size_u32 (fragment_offset b') else result, b', as1)))"

definition bundle6_get_serialized_size :: "bundle_t \<Rightarrow> alloc_script \<Rightarrow> fault + nat \<times> bundle_t \<times> alloc_script" where
  "bundle6_get_serialized_size b = get_serialized_size b False True True"

definition bundle6_get_first_fragment_min_size :: "bundle_t \<Rightarrow> alloc_script \<Rightarrow> fault + nat \<times> bundle_t \<times> alloc_script" where
  "bundle6_get_first_fragment_min_size b = get_serialized_size b True True False"

definition bundle6_get_mid_fragment_min_size :: "bundle_t \<Rightarrow> alloc_script \<Rightarrow> fault + nat \<times> bundle_t \<times> alloc_script" where
  "bundle6_get_mid_fragment_min_size b = get_serialized_size b True False False"

definition bundle6_get_last_fragment_min_size :: "bundle_t \<Rightarrow> alloc_script \<Rightarrow> fault + nat \<times> bundle_t \<times> alloc_script" where
  "bundle6_get_last_fragment_min_size b = get_serialized_size b True False True"

section \<open>Serializer\<close>

definition serialize_u16 :: "u16 \<Rightarrow> u8 list" where "serialize_u16 v = fst (sdnv_write_u16 v)"
definition serialize_u32 :: "u32 \<Rightarrow> u8 list" where "serialize_u32 v = fst (sdnv_write_u32 v)"
definition serialize_u64 :: "u64 \<Rightarrow> u8 list" where "serialize_u64 v = fst (sdnv_write_u64 v)"

text \<open>The flags of RFC 5050.\<close>

definition v6_flag_mask :: u32 where
  "v6_flag_mask = BUNDLE_FLAG_IS_FRAGMENT OR BUNDLE_FLAG_ADMINISTRATIVE_RECORD OR BUNDLE_FLAG_MUST_NOT_BE_FRAGMENTED
     OR BUNDLE_V6_FLAG_CUSTODY_TRANSFER_REQUESTED OR BUNDLE_V6_FLAG_SINGLETON_ENDPOINT OR BUNDLE_FLAG_ACKNOWLEDGEMENT_REQUESTED
     OR BUNDLE_V6_FLAG_NORMAL_PRIORITY OR BUNDLE_V6_FLAG_EXPEDITED_PRIORITY OR BUNDLE_FLAG_REPORT_RECEPTION
     OR BUNDLE_V6_FLAG_REPORT_CUSTODY_ACCEPTANCE OR BUNDLE_FLAG_REPORT_FORWARDING OR BUNDLE_FLAG_REPORT_DELIVERY OR BUNDLE_FLAG_REPORT_DELETION"

definition serialize_eid_info :: "bundle6_eid_info \<Rightarrow> u8 list list" where
  "serialize_eid_info i = [serialize_u16 (ei_scheme_offset i), serialize_u16 (ei_ssp_offset i)]"

text \<open>The calls of the callback for the primary block.\<close>

definition primary_writes :: "bundle_t \<Rightarrow> bundle6_dict_descriptor \<Rightarrow> u8 list \<Rightarrow> u8 list list" where
  "primary_writes b dd dict =
     [[protocol_version b], serialize_u32 (proc_flags b AND v6_flag_mask), serialize_u32 (ucast (primary_block_length b))]
     @ serialize_eid_info (dd_destination dd) @ serialize_eid_info (dd_source dd)
     @ serialize_eid_info (dd_report_to dd) @ serialize_eid_info (dd_custodian dd)
     @ [serialize_u64 (creation_timestamp_ms b div 1000), serialize_u64 (sequence_number b), serialize_u64 (lifetime_ms b div 1000),
        serialize_u16 (of_nat (dd_length dd)), dict]
     @ (if HAS_FLAG (proc_flags b) BUNDLE_FLAG_IS_FRAGMENT then [serialize_u32 (fragment_offset b), serialize_u32 (total_adu_length b)] else [])"

text \<open>The references of a block are looked up from the start of the array again.\<close>

definition block_header :: "bundle6_dict_descriptor \<Rightarrow> bundle_block \<Rightarrow> fault + u8 list list" where
  "block_header dd blk =
    (if HAS_FLAG (blk_flags blk) BUNDLE_V6_BLOCK_FLAG_HAS_EID_REF_FIELD
     then let cnt = length (blk_eid_refs blk) in
       if cnt \<le> length (dd_references dd)
       then Inr ([[ucast (blk_type blk)], serialize_u32 (blk_flags blk), serialize_u16 (of_nat cnt)]
         @ concat (map serialize_eid_info (take cnt (dd_references dd))) @ [serialize_u32 (blk_length blk)])
       else Inl OutOfBounds
     else Inr [[ucast (blk_type blk)], serialize_u32 (blk_flags blk), serialize_u32 (blk_length blk)])"

fun serialize_blocks :: "('p \<Rightarrow> u8 list \<Rightarrow> fault + 'p) \<Rightarrow> bundle6_dict_descriptor \<Rightarrow> 'p \<Rightarrow> bundle_block list \<Rightarrow> fault + 'p" where
  "serialize_blocks sink dd p [] = Inr p"
| "serialize_blocks sink dd p (blk # bs) =
     bindE (block_header dd blk) (\<lambda>hdr. bindE (writes sink p hdr) (\<lambda>p1.
     bindE (memcpy_from (blk_data blk) 0 (unat (blk_length blk))) (\<lambda>d. bindE (sink p1 d) (\<lambda>p2. serialize_blocks sink dd p2 bs))))"

text \<open>The argument \<open>junk\<close> is the contents of the region for the dictionary.\<close>

definition bundle6_serialize ::
  "('p \<Rightarrow> u8 list \<Rightarrow> fault + 'p) \<Rightarrow> 'p \<Rightarrow> (nat \<Rightarrow> u8) \<Rightarrow> bundle_t \<Rightarrow> alloc_script \<Rightarrow> fault + ud3tn_result \<times> 'p \<times> alloc_script" where
  "bundle6_serialize sink p junk b as = bindE (bundle6_calculate_dict b as) (\<lambda>(dd, as1).
     if \<not> malloc_ok as1 then Inr (UD3TN_FAIL, p, malloc_rest as1)
     else bindE (bundle6_serialize_dictionary (map junk [0..<dd_length dd]) dd) (\<lambda>dict.
       bindE (writes sink p (primary_writes b dd dict)) (\<lambda>p1.
       bindE (serialize_blocks sink dd p1 (blocks b)) (\<lambda>p2. Inr (UD3TN_OK, p2, malloc_rest as1)))))"

section \<open>Creation\<close>

text \<open>
  \<^verbatim>\<open>bundle6_create_local\<close>; \<open>junk\<close> and \<open>bjunk\<close> are the contents of the memory for the bundle and its block. The flags of the block are
  set before the result of its allocation is checked, the two administrative identifiers are not checked at all.
\<close>

definition bundle6_create_local ::
  "bundle_t \<Rightarrow> bundle_block \<Rightarrow> u8 list option \<Rightarrow> nat \<Rightarrow> eid \<Rightarrow> eid \<Rightarrow> u64 \<Rightarrow> u64 \<Rightarrow> u32 \<Rightarrow> alloc_script
    \<Rightarrow> fault + bundle_t option \<times> alloc_script" where
  "bundle6_create_local junk bjunk payload payload_length src dst creation_time_s lifetime_s flags as =
    (case bundle_init junk as of
       (None, as1) \<Rightarrow> Inr (None, as1)
     | (Some b0, as1) \<Rightarrow>
       let b1 = b0\<lparr>protocol_version := 6, proc_flags := flags OR BUNDLE_V6_FLAG_SINGLETON_ENDPOINT,
                  creation_timestamp_ms := creation_time_s * 1000, sequence_number := 1, lifetime_ms := lifetime_s * 1000\<rparr> in
       (case bundle_block_create bjunk BUNDLE_BLOCK_TYPE_PAYLOAD as1 of
          (None, as2) \<Rightarrow> Inl NullDeref
        | (Some k, as2) \<Rightarrow>
          (case bundle_block_entry_create (Some (k\<lparr>blk_flags := BUNDLE_V6_BLOCK_FLAG_LAST_BLOCK\<rparr>)) as2 of
             (None, as3) \<Rightarrow> Inr (None, as3)
           | (Some e, as3) \<Rightarrow>
             (case strdup src as3 of (source', as4) \<Rightarrow>
              if source' = None \<or> strstr src '':'' = None then Inr (None, as4)
              else (case strdup dst as4 of (destination', as5) \<Rightarrow>
                if destination' = None \<or> strstr dst '':'' = None then Inr (None, as5)
                else (case strdup ''dtn:none'' as5 of (report_to', as6) \<Rightarrow>
                      (case strdup ''dtn:none'' as6 of (custodian', as7) \<Rightarrow>
                  bindE (bundle6_recalculate_header_length
                    (b1\<lparr>blocks := [e\<lparr>blk_data := payload, blk_length := of_nat payload_length\<rparr>], payload_block := Some 0,
                        source := source', destination := destination', report_to := report_to', current_custodian := custodian'\<rparr>) as7)
                    (\<lambda>(b, as8). Inr (Some b, as8)))))))))"

section \<open>Fragmentation\<close>

text \<open>
  \<^verbatim>\<open>replicate_blocks\<close> of \<^verbatim>\<open>fragment.c\<close>. The copies of the blocks before the payload are to be put in front of the second fragment,
  through the pointer behind the last copy, which is null.
\<close>

definition bundle6_replicate_blocks ::
  "bundle_t \<Rightarrow> bundle_t \<Rightarrow> alloc_script \<Rightarrow> fault + ud3tn_result \<times> bundle_t \<times> bundle_t \<times> alloc_script" where
  "bundle6_replicate_blocks first second as = bindE (replicate_loop (blocks first) [] as) (\<lambda>(l1, as1). case l1 of
       None \<Rightarrow> Inr (UD3TN_FAIL, first, second, as1)
     | Some before \<Rightarrow> if before \<noteq> [] then Inl NullDeref
       else bindE (replicate_loop (blocks second) [] as1) (\<lambda>(l2, as2). case l2 of
           None \<Rightarrow> Inr (UD3TN_FAIL, first, second, as2)
         | Some after \<Rightarrow> if after = [] then Inr (UD3TN_OK, first, second, as2)
           else if blocks first = [] then Inl AssertFailed
           else let n = length (blocks first) - 1; l = blocks first ! n in
             Inr (UD3TN_OK, first\<lparr>blocks := (blocks first)[n := l\<lparr>blk_flags := blk_flags l AND NOT BUNDLE_V6_BLOCK_FLAG_LAST_BLOCK\<rparr>] @ after\<rparr>,
                  second, as2)))"

text \<open>The first part, up to the split of the block list: both fragments, or \<^term>\<open>None\<close> when an allocation fails.\<close>

definition bundle6_split ::
  "bundle_block \<Rightarrow> bundle_t \<Rightarrow> nat \<Rightarrow> bundle_block \<Rightarrow> u32 \<Rightarrow> alloc_script \<Rightarrow> fault + (bundle_t \<times> bundle_t) option \<times> bundle_t \<times> alloc_script" where
  "bundle6_split junk b i pl first_len as =
     bindE (bundlefragmenter_create_new_fragment junk b True as) (\<lambda>(ro, as1). case ro of
         None \<Rightarrow> Inr (None, b, as1)
       | Some r \<Rightarrow>
         let b1 = (if \<not> bundle_is_fragmented b then b\<lparr>total_adu_length := blk_length pl\<rparr> else b); len = blk_length pl - first_len in
         if \<not> malloc_ok as1 then Inr (None, b1, malloc_rest as1)
         else bindE (memcpy_from (blk_data pl) (unat first_len) (unat len)) (\<lambda>d.
           let pl1 = pl\<lparr>blk_flags := blk_flags pl OR BUNDLE_V6_BLOCK_FLAG_LAST_BLOCK, blk_length := first_len,
                 blk_data := map_option (take (unat first_len)) (blk_data pl)\<rparr>;
               b2 = b1\<lparr>blocks := (take (Suc i) (blocks b))[i := pl1]\<rparr>;
               r2 = r\<lparr>blocks := ((blocks r ! 0)\<lparr>blk_length := len, blk_data := Some d\<rparr>) # drop (Suc i) (blocks b),
                      fragment_offset := fragment_offset b + first_len\<rparr>
           in if \<not> malloc_ok (malloc_rest as1) then Inl AssertFailed
              else Inr (Some (b2, r2), b2, malloc_rest (malloc_rest as1))))"

definition bundle6_fragment_bundle ::
  "bundle_block \<Rightarrow> bundle_t \<Rightarrow> u64 \<Rightarrow> alloc_script \<Rightarrow> fault + fragment_result \<times> bundle_t \<times> alloc_script" where
  "bundle6_fragment_bundle junk b0 first_max as = bindE (bundle6_get_first_fragment_min_size b0 as) (\<lambda>(first_min, b, as1).
     let first_len = ucast (first_max - of_nat first_min) :: u32 in
     bindE (deref (payload_block b)) (\<lambda>i. bindE (deref (payload_of b)) (\<lambda>pl.
     if first_len \<ge> blk_length pl then Inr (SameBundle, b, as1)
     else bindE (bundle6_split junk b i pl first_len as1) (\<lambda>(parts, b1, as2). case parts of
         None \<Rightarrow> Inr (NoBundle, b1, as2)
       | Some (f, r) \<Rightarrow> bindE (bundle6_replicate_blocks f r as2) (\<lambda>(_, f1, r1, as3).
           bindE (bundle6_recalculate_header_length (f1\<lparr>proc_flags := proc_flags f1 OR BUNDLE_FLAG_IS_FRAGMENT\<rparr>) as3) (\<lambda>(f2, as4).
           bindE (bundle6_recalculate_header_length r1 as4) (\<lambda>(r2, as5). Inr (Remainder r2, f2, as5))))))))"

end
