(* ===== verification/Bundle6_Parser.thy ===== *)
theory Bundle6_Parser
  imports Bundle6
begin

unbundle bit_operations_syntax

text \<open>
  The parser for version 6, \<^verbatim>\<open>components/bundle6/parser.c\<close>: a state machine over single bytes with one stage per field and a bulk mode
  for the data of a block. Memory is explicit: the dictionary and the data of a block are regions of their allocated length.
  \<^verbatim>\<open>next_buffer\<close> always is the data region of the current block and has no field of its own; the pointer \<^verbatim>\<open>current_block_entry\<close> is
  the number of blocks before the current one. The casts of the block flags to \<^verbatim>\<open>uint8_t *\<close> read and write the low byte (little endian).
\<close>

section \<open>State\<close>

datatype bundle6_parser_stage =
  PARSER_STAGE_VERSION | PARSER_STAGE_PROC_FLAGS | PARSER_STAGE_BLOCK_LENGTH
| PARSER_STAGE_DESTINATION_EID_SCHEME | PARSER_STAGE_DESTINATION_EID_SSP
| PARSER_STAGE_SOURCE_EID_SCHEME | PARSER_STAGE_SOURCE_EID_SSP
| PARSER_STAGE_REPORT_EID_SCHEME | PARSER_STAGE_REPORT_EID_SSP
| PARSER_STAGE_CUSTODIAN_EID_SCHEME | PARSER_STAGE_CUSTODIAN_EID_SSP
| PARSER_STAGE_TIMESTAMP | PARSER_STAGE_SEQUENCE_NUM | PARSER_STAGE_LIFETIME
| PARSER_STAGE_DICT_LENGTH | PARSER_STAGE_DICTIONARY
| PARSER_STAGE_FRAGMENT_OFFSET | PARSER_STAGE_ADU_LENGTH
| PARSER_STAGE_BLOCK_TYPE | PARSER_STAGE_BLOCK_FLAGS
| PARSER_STAGE_BLOCK_EID_REF_CNT | PARSER_STAGE_BLOCK_EID_REF_SCH | PARSER_STAGE_BLOCK_EID_REF_SSP
| PARSER_STAGE_BLOCK_DATA_LENGTH | PARSER_STAGE_BLOCK_DATA | PARSER_STAGE_DONE

datatype bundle6_parser_block = PARSER_BLOCK_PRIMARY | PARSER_BLOCK_GENERIC | PARSER_BLOCK_PAYLOAD | PARSER_BLOCK_EXTENSION

datatype bundle6_parser_error = PARSER_ERROR_NONE | PARSER_ERROR_BLOCK_LENGTH_EXHAUSTED | PARSER_ERROR_SDNV_FAILURE

record bundle6_eid_reference =
  ref_scheme :: u16
  ref_ssp :: u16

record bundle6_parser =
  p6_status :: parser_status
  p6_bulk_read :: bool
  p6_next_bytes :: nat
  p6_error :: bundle6_parser_error
  p6_current_stage :: bundle6_parser_stage
  p6_next_stage :: bundle6_parser_stage
  p6_current_block :: bundle6_parser_block
  p6_sdnv :: sdnv_state
  p6_bundle :: "bundle_t option"
  p6_primary_remaining :: u16
  p6_cur_remaining :: u32
  p6_index :: u32
  p6_size :: u32
  p6_destination_ref :: bundle6_eid_reference
  p6_source_ref :: bundle6_eid_reference
  p6_report_ref :: bundle6_eid_reference
  p6_custodian_ref :: bundle6_eid_reference
  p6_cur_ref :: bundle6_eid_reference
  p6_dict_length :: u16
  p6_dict :: "u8 list option"
  p6_entry :: nat
  p6_last_block :: bool
  p6_allocs :: alloc_script
  p6_sent :: "bundle_t list"

text \<open>
  What surrounds the parser: the storage in use, \<^verbatim>\<open>sizeof(struct bundle)\<close>, the quota of the platform, whether a callback is set, and
  the contents of fresh memory.
\<close>

record v6_env =
  v6_usage :: u32
  v6_sizeof_bundle :: u32
  v6_quota :: u32
  v6_callback :: bool
  v6_bundle_junk :: bundle_t
  v6_block_junk :: bundle_block
  v6_region_junk :: "nat \<Rightarrow> u8"

definition bundle6_parser_reset :: "v6_env \<Rightarrow> bundle6_parser \<Rightarrow> ud3tn_result \<times> bundle6_parser" where
  "bundle6_parser_reset env p =
    (if p6_status p = PARSER_STATUS_GOOD \<and> p6_current_stage p = PARSER_STAGE_VERSION then (UD3TN_OK, p)
     else
       let p1 = p\<lparr>p6_status := PARSER_STATUS_GOOD, p6_bulk_read := False, p6_error := PARSER_ERROR_NONE,
             p6_current_stage := PARSER_STAGE_VERSION, p6_next_stage := PARSER_STAGE_VERSION, p6_current_block := PARSER_BLOCK_PRIMARY,
             p6_sdnv := sdnv_reset, p6_primary_remaining := 0, p6_cur_remaining := 0, p6_index := 0,
             p6_size := v6_usage env + v6_sizeof_bundle env, p6_last_block := False\<rparr>;
           p2 = (case p6_bundle p of
               Some b \<Rightarrow> p1\<lparr>p6_bundle := Some (bundle_reset b)\<rparr>
             | None \<Rightarrow> (case bundle_init (v6_bundle_junk env) (p6_allocs p) of (bo, as) \<Rightarrow> p1\<lparr>p6_bundle := bo, p6_allocs := as\<rparr>))
       in if p6_bundle p2 = None then (UD3TN_FAIL, p2)
          else (UD3TN_OK, p2\<lparr>p6_dict := None, p6_entry := 0\<rparr>))"

definition bundle6_parser_init :: "v6_env \<Rightarrow> bundle6_parser \<Rightarrow> bundle6_parser option" where
  "bundle6_parser_init env p =
    (if \<not> malloc_ok (p6_allocs p) then None
     else case bundle6_parser_reset env (p\<lparr>p6_bundle := None, p6_dict := None, p6_status := PARSER_STATUS_ERROR,
            p6_allocs := malloc_rest (p6_allocs p)\<rparr>) of
       (UD3TN_OK, p1) \<Rightarrow> Some p1
     | (UD3TN_FAIL, p1) \<Rightarrow> None)"

section \<open>Pieces\<close>

text \<open>\<^verbatim>\<open>current_stage > PARSER_STAGE_BLOCK_LENGTH\<close> in the order of the enumeration.\<close>

definition bundle6_parser_length_known :: "bundle6_parser \<Rightarrow> bool" where
  "bundle6_parser_length_known p \<longleftrightarrow>
     p6_current_stage p \<notin> {PARSER_STAGE_VERSION, PARSER_STAGE_PROC_FLAGS, PARSER_STAGE_BLOCK_LENGTH}"

text \<open>Writing through the pointers to the bundle and to the current block.\<close>

definition set_bundle :: "(bundle_t \<Rightarrow> bundle_t) \<Rightarrow> bundle6_parser \<Rightarrow> bundle6_parser" where
  "set_bundle f p = p\<lparr>p6_bundle := map_option f (p6_bundle p)\<rparr>"

definition set_block :: "(bundle_block \<Rightarrow> bundle_block) \<Rightarrow> bundle6_parser \<Rightarrow> bundle6_parser" where
  "set_block f p = set_bundle (\<lambda>b. b\<lparr>blocks := (blocks b)[p6_entry p := f (blocks b ! p6_entry p)]\<rparr>) p"

definition cur_block :: "bundle6_parser \<Rightarrow> bundle_block option" where
  "cur_block p = (case p6_bundle p of
     None \<Rightarrow> None | Some b \<Rightarrow> if p6_entry p < length (blocks b) then Some (blocks b ! p6_entry p) else None)"

definition bundle6_parser_begin_block :: "v6_env \<Rightarrow> bundle6_parser \<Rightarrow> u8 \<Rightarrow> fault + bundle6_parser" where
  "bundle6_parser_begin_block env p type =
    (case bundle_block_create (v6_block_junk env) (ucast type) (p6_allocs p) of
       (None, as1) \<Rightarrow> Inr (p\<lparr>p6_status := PARSER_STATUS_ERROR, p6_allocs := as1\<rparr>)
     | (Some new, as1) \<Rightarrow> bindE (deref (p6_bundle p)) (\<lambda>b.
         let pl = (ucast type = BUNDLE_BLOCK_TYPE_PAYLOAD);
             b1 = (if pl then b\<lparr>payload_block := Some (p6_entry p)\<rparr> else b);
             p1 = p\<lparr>p6_current_block := (if pl then PARSER_BLOCK_PAYLOAD else PARSER_BLOCK_EXTENSION)\<rparr>
         in Inr (case bundle_block_entry_create (Some new) as1 of
             (None, as2) \<Rightarrow> p1\<lparr>p6_bundle := Some (b1\<lparr>blocks := take (p6_entry p) (blocks b)\<rparr>), p6_status := PARSER_STATUS_ERROR, p6_allocs := as2\<rparr>
           | (Some e, as2) \<Rightarrow> p1\<lparr>p6_bundle := Some (b1\<lparr>blocks := take (p6_entry p) (blocks b) @ [e]\<rparr>), p6_allocs := as2\<rparr>)))"

definition bundle6_parser_end_block :: "bundle6_parser \<Rightarrow> bundle6_parser" where
  "bundle6_parser_end_block p = p\<lparr>p6_entry := p6_entry p + 1\<rparr>"

text \<open>
  \<^verbatim>\<open>bundle6_read_eid\<close>: the identifier a reference into the dictionary names, or \<^verbatim>\<open>NULL\<close>.
\<close>

definition bundle6_read_eid :: "u8 list option \<Rightarrow> nat \<Rightarrow> bundle6_eid_reference \<Rightarrow> alloc_script \<Rightarrow> fault + eid option \<times> alloc_script" where
  "bundle6_read_eid dict dict_len ref as =
    (let sch = unat (ref_scheme ref); ssp = unat (ref_ssp ref) in
     if sch \<ge> dict_len \<or> ssp \<ge> dict_len then Inr (None, as)
     else bindE (deref dict) (\<lambda>d.
       bindE (c_strlen (drop sch d)) (\<lambda>scheme_len. bindE (c_strlen (drop ssp d)) (\<lambda>ssp_len.
       if \<not> malloc_ok as then Inr (None, malloc_rest as)
       else if sch + scheme_len > dict_len then Inr (None, malloc_rest as)
       else if CHR '':'' \<in> set (bytes_string (take scheme_len (drop sch d))) then Inr (None, malloc_rest as)
       else if ssp + ssp_len > dict_len then Inr (None, malloc_rest as)
       else Inr (Some (bytes_string (take scheme_len (drop sch d)) @ '':'' @ bytes_string (take ssp_len (drop ssp d))), malloc_rest as)))))"

definition bundle_is_valid :: "bundle_t \<Rightarrow> bool" where
  "bundle_is_valid b \<longleftrightarrow> payload_block b \<noteq> None"

text \<open>The bundles handed to the callback are recorded in the order of the calls.\<close>

definition bundle6_parser_send_bundle :: "v6_env \<Rightarrow> bundle6_parser \<Rightarrow> fault + bundle6_parser" where
  "bundle6_parser_send_bundle env p =
    (if \<not> v6_callback env then Inr (p\<lparr>p6_bundle := None\<rparr>)
     else bindE (deref (p6_bundle p)) (\<lambda>b.
       Inr (if \<not> bundle_is_valid b then p\<lparr>p6_bundle := None\<rparr> else p\<lparr>p6_bundle := None, p6_sent := p6_sent p @ [b]\<rparr>)))"

section \<open>Change of the stage\<close>

text \<open>The preparations for the stage in \<^verbatim>\<open>next_stage\<close>, the switch of \<^verbatim>\<open>bundle6_parser_next\<close>.\<close>

definition begin_dictionary :: "v6_env \<Rightarrow> bundle6_parser \<Rightarrow> bundle6_parser" where
  "begin_dictionary env p =
    (if p6_dict_length p = 0 then p\<lparr>p6_index := 0, p6_status := PARSER_STATUS_ERROR\<rparr>
     else let n = ucast (p6_dict_length p) :: u32;
              p1 = p\<lparr>p6_index := 0, p6_cur_remaining := n, p6_size := p6_size p + (n + 1)\<rparr> in
       if p6_size p1 > v6_quota env then p1\<lparr>p6_status := PARSER_STATUS_ERROR\<rparr>
       else if \<not> malloc_ok (p6_allocs p) then p1\<lparr>p6_dict := None, p6_status := PARSER_STATUS_ERROR, p6_allocs := malloc_rest (p6_allocs p)\<rparr>
       else p1\<lparr>p6_dict := Some (map (v6_region_junk env) [0..<unat n] @ [0]), p6_allocs := malloc_rest (p6_allocs p)\<rparr>)"

definition begin_block_data :: "v6_env \<Rightarrow> bundle6_parser \<Rightarrow> fault + bundle6_parser" where
  "begin_block_data env p = bindE (deref (cur_block p)) (\<lambda>blk.
     let n = unat (blk_length blk);
         p1 = p\<lparr>p6_index := 0, p6_cur_remaining := 0, p6_next_bytes := n, p6_size := p6_size p + of_nat n\<rparr> in
     Inr (if p6_size p1 > v6_quota env then p1\<lparr>p6_status := PARSER_STATUS_ERROR\<rparr>
       else if \<not> malloc_ok (p6_allocs p) then p1\<lparr>p6_status := PARSER_STATUS_ERROR, p6_allocs := malloc_rest (p6_allocs p)\<rparr>
       else (set_block (\<lambda>blk. blk\<lparr>blk_data := Some (map (v6_region_junk env) [0..<n])\<rparr>) p1)
              \<lparr>p6_bulk_read := True, p6_allocs := malloc_rest (p6_allocs p)\<rparr>))"

definition prepare_stage :: "v6_env \<Rightarrow> bundle6_parser \<Rightarrow> fault + bundle6_parser" where
  "prepare_stage env p = (case p6_next_stage p of
     PARSER_STAGE_VERSION \<Rightarrow> Inr p
   | PARSER_STAGE_DESTINATION_EID_SCHEME \<Rightarrow> bindE (deref (p6_bundle p)) (\<lambda>b.
       Inr (p\<lparr>p6_primary_remaining := primary_block_length b, p6_sdnv := sdnv_reset\<rparr>))
   | PARSER_STAGE_SEQUENCE_NUM \<Rightarrow> bindE (deref (p6_bundle p)) (\<lambda>_.
       Inr ((set_bundle (\<lambda>b. b\<lparr>creation_timestamp_ms := creation_timestamp_ms b * 1000\<rparr>) p)\<lparr>p6_sdnv := sdnv_reset\<rparr>))
   | PARSER_STAGE_DICT_LENGTH \<Rightarrow> bindE (deref (p6_bundle p)) (\<lambda>_.
       Inr ((set_bundle (\<lambda>b. b\<lparr>lifetime_ms := lifetime_ms b * 1000\<rparr>) p)\<lparr>p6_sdnv := sdnv_reset\<rparr>))
   | PARSER_STAGE_DICTIONARY \<Rightarrow> Inr (begin_dictionary env p)
   | PARSER_STAGE_BLOCK_TYPE \<Rightarrow> Inr (p\<lparr>p6_current_block := PARSER_BLOCK_GENERIC\<rparr>)
   | PARSER_STAGE_BLOCK_DATA \<Rightarrow> begin_block_data env p
   | PARSER_STAGE_DONE \<Rightarrow> Inr p
   | _ \<Rightarrow> Inr (p\<lparr>p6_sdnv := sdnv_reset\<rparr>))"

definition bundle6_parser_next :: "v6_env \<Rightarrow> bundle6_parser \<Rightarrow> fault + bundle6_parser" where
  "bundle6_parser_next env p = bindE (prepare_stage env p) (\<lambda>p1.
     let p2 = p1\<lparr>p6_current_stage := p6_next_stage p1\<rparr> in
     if p6_current_stage p2 = PARSER_STAGE_DONE then bundle6_parser_send_bundle env (p2\<lparr>p6_status := PARSER_STATUS_DONE\<rparr>) else Inr p2)"

section \<open>One byte\<close>

definition bundle6_parser_wait_for_sdnv :: "bundle6_parser_stage \<Rightarrow> bundle6_parser \<Rightarrow> bool \<times> bundle6_parser" where
  "bundle6_parser_wait_for_sdnv next p = (case status (p6_sdnv p) of
     SDNV_IN_PROGRESS \<Rightarrow> (False, p)
   | SDNV_DONE \<Rightarrow> (True, p\<lparr>p6_next_stage := next\<rparr>)
   | SDNV_ERROR \<Rightarrow> (False, p\<lparr>p6_status := PARSER_STATUS_ERROR, p6_error := PARSER_ERROR_SDNV_FAILURE\<rparr>))"

text \<open>
  Most stages read one byte of an SDNV into a variable and wait for its end. \<open>get\<close> and \<open>put\<close> are the access to the variable, which lies in
  the parser, in the bundle or in the current block; a null pointer on the way is a fault.
\<close>

definition read_field ::
  "(sdnv_state \<Rightarrow> 'v \<Rightarrow> u8 \<Rightarrow> sdnv_state \<times> 'v) \<Rightarrow> (bundle6_parser \<Rightarrow> 'v) \<Rightarrow> ('v \<Rightarrow> bundle6_parser \<Rightarrow> bundle6_parser)
    \<Rightarrow> bundle6_parser_stage \<Rightarrow> u8 \<Rightarrow> bundle6_parser \<Rightarrow> bool \<times> bundle6_parser" where
  "read_field rd get put next byte p = (case rd (p6_sdnv p) (get p) byte of
     (s, v) \<Rightarrow> bundle6_parser_wait_for_sdnv next (put v (p\<lparr>p6_sdnv := s\<rparr>)))"

definition parser_field ::
  "(sdnv_state \<Rightarrow> 'v \<Rightarrow> u8 \<Rightarrow> sdnv_state \<times> 'v) \<Rightarrow> (bundle6_parser \<Rightarrow> 'v) \<Rightarrow> ('v \<Rightarrow> bundle6_parser \<Rightarrow> bundle6_parser)
    \<Rightarrow> bundle6_parser_stage \<Rightarrow> u8 \<Rightarrow> bundle6_parser \<Rightarrow> fault + bundle6_parser" where
  "parser_field rd get put next byte p = Inr (snd (read_field rd get put next byte p))"

definition bundle_field ::
  "(sdnv_state \<Rightarrow> 'v \<Rightarrow> u8 \<Rightarrow> sdnv_state \<times> 'v) \<Rightarrow> (bundle_t \<Rightarrow> 'v) \<Rightarrow> ('v \<Rightarrow> bundle_t \<Rightarrow> bundle_t)
    \<Rightarrow> bundle6_parser_stage \<Rightarrow> u8 \<Rightarrow> bundle6_parser \<Rightarrow> fault + bundle6_parser" where
  "bundle_field rd get put next byte p = bindE (deref (p6_bundle p)) (\<lambda>_.
     Inr (snd (read_field rd (\<lambda>p. get (the (p6_bundle p))) (\<lambda>v. set_bundle (put v)) next byte p)))"

text \<open>The last byte of the dictionary: the four identifiers are looked up.\<close>

definition end_dictionary :: "bundle6_parser \<Rightarrow> fault + bundle6_parser" where
  "end_dictionary p =
    (let rd = bundle6_read_eid (p6_dict p) (unat (p6_dict_length p)) in
     bindE (deref (p6_bundle p)) (\<lambda>b.
     bindE (rd (p6_source_ref p) (p6_allocs p)) (\<lambda>(src, as1).
     bindE (rd (p6_destination_ref p) as1) (\<lambda>(dst, as2).
     bindE (rd (p6_report_ref p) as2) (\<lambda>(rep, as3).
     bindE (rd (p6_custodian_ref p) as3) (\<lambda>(cus, as4).
       let b1 = b\<lparr>source := src, destination := dst, report_to := rep, current_custodian := cus\<rparr>;
           p1 = p\<lparr>p6_bundle := Some b1, p6_allocs := as4\<rparr> in
       Inr (if src = None \<or> dst = None \<or> rep = None \<or> cus = None then p1\<lparr>p6_status := PARSER_STATUS_ERROR\<rparr>
            else p1\<lparr>p6_next_stage := (if bundle_is_fragmented b1 then PARSER_STAGE_FRAGMENT_OFFSET else PARSER_STAGE_BLOCK_TYPE)\<rparr>)))))))"

definition dictionary_byte :: "u8 \<Rightarrow> bundle6_parser \<Rightarrow> fault + bundle6_parser" where
  "dictionary_byte byte p = bindE (memcpy_at (p6_dict p) (unat (p6_index p)) [byte]) (\<lambda>d.
     let p1 = p\<lparr>p6_cur_remaining := p6_cur_remaining p - 1, p6_dict := Some d, p6_index := p6_index p + 1\<rparr> in
     if p6_cur_remaining p1 = 0
     then bindE (memcpy_at (p6_dict p1) (unat (p6_index p1)) [0]) (\<lambda>d2. end_dictionary (p1\<lparr>p6_dict := Some d2, p6_index := p6_index p1 + 1\<rparr>))
     else Inr p1)"

definition block_flags_byte :: "u8 \<Rightarrow> bundle6_parser \<Rightarrow> fault + bundle6_parser" where
  "block_flags_byte byte p = bindE (deref (cur_block p)) (\<lambda>_.
     case read_field sdnv_read_u8 (\<lambda>p. ucast (blk_flags (the (cur_block p))))
            (\<lambda>v. set_block (\<lambda>blk. blk\<lparr>blk_flags := (blk_flags blk AND NOT 0xFF) OR ucast v\<rparr>)) PARSER_STAGE_BLOCK_DATA_LENGTH byte p of
       (False, p1) \<Rightarrow> Inr p1
     | (True, p1) \<Rightarrow> bindE (deref (cur_block p1)) (\<lambda>blk.
         let p2 = p1\<lparr>p6_last_block := HAS_FLAG (blk_flags blk) BUNDLE_V6_BLOCK_FLAG_LAST_BLOCK\<rparr> in
         Inr (if HAS_FLAG (blk_flags blk) BUNDLE_V6_BLOCK_FLAG_HAS_EID_REF_FIELD
              then p2\<lparr>p6_next_stage := PARSER_STAGE_BLOCK_EID_REF_CNT\<rparr> else p2)))"

text \<open>The number of references is read into the variable that otherwise holds the size of the bundle.\<close>

definition eid_ref_cnt_byte :: "u8 \<Rightarrow> bundle6_parser \<Rightarrow> fault + bundle6_parser" where
  "eid_ref_cnt_byte byte p = (case read_field sdnv_read_u32 p6_size (\<lambda>v p. p\<lparr>p6_size := v\<rparr>) PARSER_STAGE_BLOCK_EID_REF_SCH byte p of
     (False, p1) \<Rightarrow> Inr p1
   | (True, p1) \<Rightarrow> Inr (let p2 = p1\<lparr>p6_index := 0\<rparr> in if p6_size p2 = 0 then p2\<lparr>p6_next_stage := PARSER_STAGE_BLOCK_DATA_LENGTH\<rparr> else p2))"

definition eid_ref_ssp_byte :: "u8 \<Rightarrow> bundle6_parser \<Rightarrow> fault + bundle6_parser" where
  "eid_ref_ssp_byte byte p =
    (case read_field sdnv_read_u16 (\<lambda>p. ref_ssp (p6_cur_ref p)) (\<lambda>v p. p\<lparr>p6_cur_ref := (p6_cur_ref p)\<lparr>ref_ssp := v\<rparr>\<rparr>)
            PARSER_STAGE_BLOCK_EID_REF_SCH byte p of
       (False, p1) \<Rightarrow> Inr p1
     | (True, p1) \<Rightarrow>
       if \<not> malloc_ok (p6_allocs p1) then Inr (p1\<lparr>p6_status := PARSER_STATUS_ERROR, p6_allocs := malloc_rest (p6_allocs p1)\<rparr>)
       else bindE (bundle6_read_eid (p6_dict p1) (unat (p6_dict_length p1)) (p6_cur_ref p1) (malloc_rest (p6_allocs p1))) (\<lambda>(e, as).
         bindE (deref (cur_block p1)) (\<lambda>_.
         let p2 = (set_block (\<lambda>blk. blk\<lparr>blk_eid_refs := e # blk_eid_refs blk\<rparr>) p1)\<lparr>p6_allocs := as, p6_index := p6_index p1 + 1\<rparr> in
         Inr (if e = None then p2\<lparr>p6_status := PARSER_STATUS_ERROR\<rparr>
              else if p6_index p2 = p6_size p2 then p2\<lparr>p6_next_stage := PARSER_STAGE_BLOCK_DATA_LENGTH\<rparr> else p2))))"

definition block_data_byte :: "bundle6_parser \<Rightarrow> fault + bundle6_parser" where
  "block_data_byte p =
    (if p6_cur_remaining p \<noteq> 0 then Inr (p\<lparr>p6_status := PARSER_STATUS_ERROR\<rparr>)
     else let p1 = bundle6_parser_end_block p in
       Inr (p1\<lparr>p6_next_stage := (if p6_last_block p1 then PARSER_STAGE_DONE else PARSER_STAGE_BLOCK_TYPE)\<rparr>))"

definition stage_byte :: "v6_env \<Rightarrow> bundle6_parser \<Rightarrow> u8 \<Rightarrow> fault + bundle6_parser" where
  "stage_byte env p byte = (case p6_current_stage p of
     PARSER_STAGE_VERSION \<Rightarrow> bindE (deref (p6_bundle p)) (\<lambda>_.
       Inr ((set_bundle (\<lambda>b. b\<lparr>protocol_version := byte\<rparr>) p)\<lparr>p6_next_stage := PARSER_STAGE_PROC_FLAGS\<rparr>))
   | PARSER_STAGE_PROC_FLAGS \<Rightarrow> bundle_field sdnv_read_u32 proc_flags (\<lambda>v b. b\<lparr>proc_flags := v\<rparr>) PARSER_STAGE_BLOCK_LENGTH byte p
   | PARSER_STAGE_BLOCK_LENGTH \<Rightarrow> bundle_field sdnv_read_u16 primary_block_length (\<lambda>v b. b\<lparr>primary_block_length := v\<rparr>) PARSER_STAGE_DESTINATION_EID_SCHEME byte p
   | PARSER_STAGE_DESTINATION_EID_SCHEME \<Rightarrow> parser_field sdnv_read_u16 (\<lambda>p. ref_scheme (p6_destination_ref p))
       (\<lambda>v p. p\<lparr>p6_destination_ref := (p6_destination_ref p)\<lparr>ref_scheme := v\<rparr>\<rparr>) PARSER_STAGE_DESTINATION_EID_SSP byte p
   | PARSER_STAGE_DESTINATION_EID_SSP \<Rightarrow> parser_field sdnv_read_u16 (\<lambda>p. ref_ssp (p6_destination_ref p))
       (\<lambda>v p. p\<lparr>p6_destination_ref := (p6_destination_ref p)\<lparr>ref_ssp := v\<rparr>\<rparr>) PARSER_STAGE_SOURCE_EID_SCHEME byte p
   | PARSER_STAGE_SOURCE_EID_SCHEME \<Rightarrow> parser_field sdnv_read_u16 (\<lambda>p. ref_scheme (p6_source_ref p))
       (\<lambda>v p. p\<lparr>p6_source_ref := (p6_source_ref p)\<lparr>ref_scheme := v\<rparr>\<rparr>) PARSER_STAGE_SOURCE_EID_SSP byte p
   | PARSER_STAGE_SOURCE_EID_SSP \<Rightarrow> parser_field sdnv_read_u16 (\<lambda>p. ref_ssp (p6_source_ref p))
       (\<lambda>v p. p\<lparr>p6_source_ref := (p6_source_ref p)\<lparr>ref_ssp := v\<rparr>\<rparr>) PARSER_STAGE_REPORT_EID_SCHEME byte p
   | PARSER_STAGE_REPORT_EID_SCHEME \<Rightarrow> parser_field sdnv_read_u16 (\<lambda>p. ref_scheme (p6_report_ref p))
       (\<lambda>v p. p\<lparr>p6_report_ref := (p6_report_ref p)\<lparr>ref_scheme := v\<rparr>\<rparr>) PARSER_STAGE_REPORT_EID_SSP byte p
   | PARSER_STAGE_REPORT_EID_SSP \<Rightarrow> parser_field sdnv_read_u16 (\<lambda>p. ref_ssp (p6_report_ref p))
       (\<lambda>v p. p\<lparr>p6_report_ref := (p6_report_ref p)\<lparr>ref_ssp := v\<rparr>\<rparr>) PARSER_STAGE_CUSTODIAN_EID_SCHEME byte p
   | PARSER_STAGE_CUSTODIAN_EID_SCHEME \<Rightarrow> parser_field sdnv_read_u16 (\<lambda>p. ref_scheme (p6_custodian_ref p))
       (\<lambda>v p. p\<lparr>p6_custodian_ref := (p6_custodian_ref p)\<lparr>ref_scheme := v\<rparr>\<rparr>) PARSER_STAGE_CUSTODIAN_EID_SSP byte p
   | PARSER_STAGE_CUSTODIAN_EID_SSP \<Rightarrow> parser_field sdnv_read_u16 (\<lambda>p. ref_ssp (p6_custodian_ref p))
       (\<lambda>v p. p\<lparr>p6_custodian_ref := (p6_custodian_ref p)\<lparr>ref_ssp := v\<rparr>\<rparr>) PARSER_STAGE_TIMESTAMP byte p
   | PARSER_STAGE_TIMESTAMP \<Rightarrow> bundle_field sdnv_read_u64 creation_timestamp_ms (\<lambda>v b. b\<lparr>creation_timestamp_ms := v\<rparr>) PARSER_STAGE_SEQUENCE_NUM byte p
   | PARSER_STAGE_SEQUENCE_NUM \<Rightarrow> bundle_field sdnv_read_u64 sequence_number (\<lambda>v b. b\<lparr>sequence_number := v\<rparr>) PARSER_STAGE_LIFETIME byte p
   | PARSER_STAGE_LIFETIME \<Rightarrow> bundle_field sdnv_read_u64 lifetime_ms (\<lambda>v b. b\<lparr>lifetime_ms := v\<rparr>) PARSER_STAGE_DICT_LENGTH byte p
   | PARSER_STAGE_DICT_LENGTH \<Rightarrow> parser_field sdnv_read_u16 p6_dict_length (\<lambda>v p. p\<lparr>p6_dict_length := v\<rparr>) PARSER_STAGE_DICTIONARY byte p
   | PARSER_STAGE_DICTIONARY \<Rightarrow> dictionary_byte byte p
   | PARSER_STAGE_FRAGMENT_OFFSET \<Rightarrow> bundle_field sdnv_read_u32 fragment_offset (\<lambda>v b. b\<lparr>fragment_offset := v\<rparr>) PARSER_STAGE_ADU_LENGTH byte p
   | PARSER_STAGE_ADU_LENGTH \<Rightarrow> bundle_field sdnv_read_u32 total_adu_length (\<lambda>v b. b\<lparr>total_adu_length := v\<rparr>) PARSER_STAGE_BLOCK_TYPE byte p
   | PARSER_STAGE_BLOCK_TYPE \<Rightarrow> bundle6_parser_begin_block env (p\<lparr>p6_next_stage := PARSER_STAGE_BLOCK_FLAGS\<rparr>) byte
   | PARSER_STAGE_BLOCK_FLAGS \<Rightarrow> block_flags_byte byte p
   | PARSER_STAGE_BLOCK_EID_REF_CNT \<Rightarrow> eid_ref_cnt_byte byte p
   | PARSER_STAGE_BLOCK_EID_REF_SCH \<Rightarrow> parser_field sdnv_read_u16 (\<lambda>p. ref_scheme (p6_cur_ref p))
       (\<lambda>v p. p\<lparr>p6_cur_ref := (p6_cur_ref p)\<lparr>ref_scheme := v\<rparr>\<rparr>) PARSER_STAGE_BLOCK_EID_REF_SSP byte p
   | PARSER_STAGE_BLOCK_EID_REF_SSP \<Rightarrow> eid_ref_ssp_byte byte p
   | PARSER_STAGE_BLOCK_DATA_LENGTH \<Rightarrow> bindE (deref (cur_block p)) (\<lambda>_.
       Inr (snd (read_field sdnv_read_u32 (\<lambda>p. blk_length (the (cur_block p))) (\<lambda>v. set_block (\<lambda>blk. blk\<lparr>blk_length := v\<rparr>))
         PARSER_STAGE_BLOCK_DATA byte p)))
   | PARSER_STAGE_BLOCK_DATA \<Rightarrow> block_data_byte p
   | PARSER_STAGE_DONE \<Rightarrow> Inr (p\<lparr>p6_status := PARSER_STATUS_ERROR\<rparr>))"

definition bundle6_parser_read_byte :: "v6_env \<Rightarrow> bundle6_parser \<Rightarrow> u8 \<Rightarrow> fault + bundle6_parser" where
  "bundle6_parser_read_byte env p byte =
    (if p6_current_block p = PARSER_BLOCK_PRIMARY \<and> bundle6_parser_length_known p \<and> p6_primary_remaining p = 0
     then Inr (p\<lparr>p6_status := PARSER_STATUS_ERROR, p6_error := PARSER_ERROR_BLOCK_LENGTH_EXHAUSTED\<rparr>)
     else
       let p1 = (if p6_current_block p = PARSER_BLOCK_PRIMARY then p\<lparr>p6_primary_remaining := p6_primary_remaining p - 1\<rparr> else p) in
       bindE (stage_byte env p1 byte) (\<lambda>p2.
         if p6_current_stage p2 \<noteq> p6_next_stage p2 \<and> p6_status p2 \<noteq> PARSER_STATUS_ERROR then bundle6_parser_next env p2 else Inr p2))"


section \<open>Buffers\<close>

text \<open>A stage keeps the bulk mode and the current stage; only the change to the data stage enters the bulk mode.\<close>

lemma set_bundle_frame [simp]:
  "p6_bulk_read (set_bundle f p) = p6_bulk_read p" "p6_current_stage (set_bundle f p) = p6_current_stage p"
  "p6_next_stage (set_bundle f p) = p6_next_stage p" "p6_status (set_bundle f p) = p6_status p"
  by (simp_all add: set_bundle_def)

lemma set_block_frame [simp]:
  "p6_bulk_read (set_block f p) = p6_bulk_read p" "p6_current_stage (set_block f p) = p6_current_stage p"
  "p6_next_stage (set_block f p) = p6_next_stage p" "p6_status (set_block f p) = p6_status p"
  by (simp_all add: set_block_def)

lemma begin_dictionary_frame:
  "p6_bulk_read (begin_dictionary env p) = p6_bulk_read p"
  by (simp add: begin_dictionary_def Let_def)

lemma begin_block_data_frame: "begin_block_data env p = Inr q \<Longrightarrow> p6_next_stage q = p6_next_stage p"
  by (auto simp: begin_block_data_def Let_def bindE_Inr_iff)

lemma begin_dictionary_next [simp]: "p6_next_stage (begin_dictionary env p) = p6_next_stage p"
  by (simp add: begin_dictionary_def Let_def)

lemma prepare_stage_frame:
  assumes "prepare_stage env p = Inr q"
  shows "p6_next_stage q = p6_next_stage p" "p6_next_stage p \<noteq> PARSER_STAGE_BLOCK_DATA \<Longrightarrow> p6_bulk_read q = p6_bulk_read p"
proof -
  have "p6_next_stage q = p6_next_stage p \<and> (p6_next_stage p \<noteq> PARSER_STAGE_BLOCK_DATA \<longrightarrow> p6_bulk_read q = p6_bulk_read p)"
    using assms begin_block_data_frame[of env p q]
    by (cases "p6_next_stage p") (auto simp: prepare_stage_def bindE_Inr_iff begin_dictionary_frame)
  then show "p6_next_stage q = p6_next_stage p" "p6_next_stage p \<noteq> PARSER_STAGE_BLOCK_DATA \<Longrightarrow> p6_bulk_read q = p6_bulk_read p" by auto
qed

lemma send_bundle_frame:
  assumes "bundle6_parser_send_bundle env p = Inr q"
  shows "p6_bulk_read q = p6_bulk_read p" "p6_current_stage q = p6_current_stage p"
proof -
  have "case bundle6_parser_send_bundle env p of Inl f \<Rightarrow> True
     | Inr q \<Rightarrow> p6_bulk_read q = p6_bulk_read p \<and> p6_current_stage q = p6_current_stage p"
    by (cases "p6_bundle p") (simp_all add: bundle6_parser_send_bundle_def)
  then show "p6_bulk_read q = p6_bulk_read p" "p6_current_stage q = p6_current_stage p" using assms by simp_all
qed

lemma next_frame:
  assumes "bundle6_parser_next env p = Inr q"
  shows "p6_current_stage q = p6_next_stage p" "p6_next_stage p \<noteq> PARSER_STAGE_BLOCK_DATA \<Longrightarrow> p6_bulk_read q = p6_bulk_read p"
proof -
  obtain p1 where p1: "prepare_stage env p = Inr p1"
    using assms by (cases "prepare_stage env p") (simp_all add: bundle6_parser_next_def)
  let ?p2 = "p1\<lparr>p6_current_stage := p6_next_stage p1\<rparr>"
  have "p6_current_stage q = p6_next_stage p1 \<and> p6_bulk_read q = p6_bulk_read p1"
  proof (cases "p6_next_stage p1 = PARSER_STAGE_DONE")
    case True
    then have "bundle6_parser_send_bundle env (?p2\<lparr>p6_status := PARSER_STATUS_DONE\<rparr>) = Inr q"
      using assms p1 by (simp add: bundle6_parser_next_def)
    from send_bundle_frame[OF this] show ?thesis by simp
  next
    case False
    then show ?thesis using assms p1 by (auto simp: bundle6_parser_next_def)
  qed
  then show "p6_current_stage q = p6_next_stage p" "p6_next_stage p \<noteq> PARSER_STAGE_BLOCK_DATA \<Longrightarrow> p6_bulk_read q = p6_bulk_read p"
    using prepare_stage_frame[OF p1] by auto
qed

definition same_mode :: "bundle6_parser \<Rightarrow> bundle6_parser \<Rightarrow> bool" where
  "same_mode p q \<longleftrightarrow> p6_bulk_read q = p6_bulk_read p \<and> p6_current_stage q = p6_current_stage p"

lemma wait_for_sdnv_mode: "same_mode p (snd (bundle6_parser_wait_for_sdnv next p))"
  by (simp add: bundle6_parser_wait_for_sdnv_def same_mode_def split: sdnv_status.split)

lemma read_field_mode:
  assumes "\<And>v q. same_mode q (put v q)"
  shows "same_mode p (snd (read_field rd get put next byte p))"
  using assms wait_for_sdnv_mode[of "put (snd (rd (p6_sdnv p) (get p) byte)) (p\<lparr>p6_sdnv := fst (rd (p6_sdnv p) (get p) byte)\<rparr>)" "next"]
  by (simp add: read_field_def case_prod_beta same_mode_def)

lemma read_field_mode2:
  "read_field rd get put next byte p = (d, q) \<Longrightarrow> (\<And>v q. same_mode q (put v q)) \<Longrightarrow> same_mode p q"
  using read_field_mode[of put p rd get "next" byte] by simp

lemma field_mode:
  "(\<And>v q. same_mode q (put v q)) \<Longrightarrow> parser_field rd get put next byte p = Inr q \<Longrightarrow> same_mode p q"
  "bundle_field rd' get' put' next byte p = Inr q \<Longrightarrow> same_mode p q"
  using read_field_mode[of put p rd get "next" byte] read_field_mode[of "\<lambda>v. set_bundle (put' v)" p rd' "\<lambda>p. get' (the (p6_bundle p))" "next" byte]
  by (auto simp: parser_field_def bundle_field_def bindE_Inr_iff same_mode_def)

lemma begin_block_mode: "bundle6_parser_begin_block env p type = Inr q \<Longrightarrow> same_mode p q"
  by (auto simp: bundle6_parser_begin_block_def bundle_block_create_def bundle_block_entry_create_def bindE_Inr_iff same_mode_def Let_def
      split: if_splits)

lemma end_dictionary_mode: "end_dictionary p = Inr q \<Longrightarrow> same_mode p q"
  by (auto simp: end_dictionary_def bindE_Inr_iff same_mode_def Let_def split: if_splits)

lemma dictionary_byte_mode: "dictionary_byte byte p = Inr q \<Longrightarrow> same_mode p q"
  by (auto simp: dictionary_byte_def bindE_Inr_iff same_mode_def Let_def split: if_splits dest!: end_dictionary_mode)

lemma block_flags_byte_mode: "block_flags_byte byte p = Inr q \<Longrightarrow> same_mode p q"
  by (auto simp: block_flags_byte_def bindE_Inr_iff Let_def same_mode_def split: prod.splits bool.splits if_splits
      dest!: read_field_mode2[unfolded same_mode_def])

lemma eid_ref_cnt_byte_mode: "eid_ref_cnt_byte byte p = Inr q \<Longrightarrow> same_mode p q"
  by (auto simp: eid_ref_cnt_byte_def Let_def same_mode_def split: prod.splits bool.splits if_splits
      dest!: read_field_mode2[unfolded same_mode_def])

lemma eid_ref_ssp_byte_mode: "eid_ref_ssp_byte byte p = Inr q \<Longrightarrow> same_mode p q"
  by (auto simp: eid_ref_ssp_byte_def bindE_Inr_iff Let_def same_mode_def split: prod.splits bool.splits if_splits
      dest!: read_field_mode2[unfolded same_mode_def])

lemma block_data_byte_mode: "block_data_byte p = Inr q \<Longrightarrow> same_mode p q \<and> p6_next_stage q \<noteq> PARSER_STAGE_BLOCK_DATA \<or> p6_status q = PARSER_STATUS_ERROR \<and> same_mode p q"
  by (auto simp: block_data_byte_def bundle6_parser_end_block_def Let_def same_mode_def split: if_splits)

lemma stage_byte_mode:
  assumes "stage_byte env p byte = Inr q"
  shows "same_mode p q"
proof -
  have put: "same_mode q (set_block f q)" "same_mode q (set_bundle g q)" for f g q by (simp_all add: same_mode_def)
  have upd: "same_mode q (q\<lparr>p6_destination_ref := d\<rparr>)" "same_mode q (q\<lparr>p6_source_ref := d\<rparr>)" "same_mode q (q\<lparr>p6_report_ref := d\<rparr>)"
    "same_mode q (q\<lparr>p6_custodian_ref := d\<rparr>)" "same_mode q (q\<lparr>p6_cur_ref := d\<rparr>)" "same_mode q (q\<lparr>p6_dict_length := l\<rparr>)"
    "same_mode q (q\<lparr>p6_status := st\<rparr>)" for q d l st by (simp_all add: same_mode_def)
  note modes = field_mode(2) field_mode(1)[rotated] dictionary_byte_mode block_flags_byte_mode eid_ref_cnt_byte_mode
    eid_ref_ssp_byte_mode block_data_byte_mode
  show ?thesis
  proof (cases "p6_current_stage p")
    case PARSER_STAGE_BLOCK_TYPE
    then show ?thesis using assms begin_block_mode[of env "p\<lparr>p6_next_stage := PARSER_STAGE_BLOCK_FLAGS\<rparr>" byte q]
      by (simp add: stage_byte_def same_mode_def)
  next
    case PARSER_STAGE_VERSION
    then show ?thesis using assms by (cases "p6_bundle p") (auto simp: stage_byte_def same_mode_def)
  next
    case PARSER_STAGE_BLOCK_DATA_LENGTH
    then have "q = snd (read_field sdnv_read_u32 (\<lambda>p. blk_length (the (cur_block p))) (\<lambda>v. set_block (\<lambda>blk. blk\<lparr>blk_length := v\<rparr>))
         PARSER_STAGE_BLOCK_DATA byte p)"
      using assms by (cases "cur_block p") (simp_all add: stage_byte_def)
    then show ?thesis using put(1) by (simp add: read_field_mode)
  next
    case PARSER_STAGE_DONE
    then show ?thesis using assms upd(7)[of p] by (auto simp: stage_byte_def)
  next
    case PARSER_STAGE_BLOCK_DATA
    then show ?thesis using assms block_data_byte_mode[of p q] by (auto simp: stage_byte_def)
  qed (use assms in \<open>simp_all add: stage_byte_def\<close>, (drule modes; (assumption | simp add: upd)?)+)
qed

lemma read_byte_mode:
  assumes "bundle6_parser_read_byte env p byte = Inr q" "p6_bulk_read q" "\<not> p6_bulk_read p"
  shows "p6_current_stage q = PARSER_STAGE_BLOCK_DATA" "p6_current_stage p \<noteq> PARSER_STAGE_BLOCK_DATA"
proof -
  let ?short = "p6_current_block p = PARSER_BLOCK_PRIMARY \<and> bundle6_parser_length_known p \<and> p6_primary_remaining p = 0"
  define p1 where "p1 = (if p6_current_block p = PARSER_BLOCK_PRIMARY then p\<lparr>p6_primary_remaining := p6_primary_remaining p - 1\<rparr> else p)"
  have p1: "p6_bulk_read p1 = p6_bulk_read p" "p6_current_stage p1 = p6_current_stage p" by (simp_all add: p1_def)
  have ns: "\<not> ?short" using assms by (auto simp: bundle6_parser_read_byte_def)
  then have "bindE (stage_byte env p1 byte) (\<lambda>p2. if p6_current_stage p2 \<noteq> p6_next_stage p2 \<and> p6_status p2 \<noteq> PARSER_STATUS_ERROR
      then bundle6_parser_next env p2 else Inr p2) = Inr q"
    using assms(1) unfolding bundle6_parser_read_byte_def p1_def by (simp only: if_False Let_def)
  then obtain p2 where p2: "stage_byte env p1 byte = Inr p2"
      "(if p6_current_stage p2 \<noteq> p6_next_stage p2 \<and> p6_status p2 \<noteq> PARSER_STATUS_ERROR then bundle6_parser_next env p2 else Inr p2) = Inr q"
    unfolding bindE_Inr_iff by blast
  have m: "p6_bulk_read p2 = p6_bulk_read p" "p6_current_stage p2 = p6_current_stage p"
    using stage_byte_mode[OF p2(1)] p1 by (simp_all add: same_mode_def)
  have c: "p6_current_stage p2 \<noteq> p6_next_stage p2" "bundle6_parser_next env p2 = Inr q"
    using p2(2) m(1) assms(2,3) by (auto split: if_splits)
  have "p6_next_stage p2 = PARSER_STAGE_BLOCK_DATA" using next_frame(2)[OF c(2)] m(1) assms(2,3) by auto
  then show "p6_current_stage q = PARSER_STAGE_BLOCK_DATA" "p6_current_stage p \<noteq> PARSER_STAGE_BLOCK_DATA"
    using next_frame(1)[OF c(2)] c(1) m(2) by auto
qed

text \<open>
  \<^verbatim>\<open>bundle6_parser_read\<close>. In bulk mode the data is copied when the buffer holds all of it, otherwise the caller has to fetch the rest and
  calls again with a null buffer.
\<close>

definition bulk_copy :: "bundle6_parser \<Rightarrow> u8 list \<Rightarrow> fault + bundle6_parser" where
  "bulk_copy p data = bindE (deref (cur_block p)) (\<lambda>blk. bindE (memcpy_at (blk_data blk) 0 data) (\<lambda>d.
     Inr ((set_block (\<lambda>blk. blk\<lparr>blk_data := Some d\<rparr>) p)\<lparr>p6_bulk_read := False\<rparr>)))"

lemma bulk_copy_mode: "bulk_copy p data = Inr q \<Longrightarrow> \<not> p6_bulk_read q \<and> p6_current_stage q = p6_current_stage p"
  by (auto simp: bulk_copy_def bindE_Inr_iff)

definition bulk_weight :: "bundle6_parser \<Rightarrow> nat" where
  "bulk_weight p = (if \<not> p6_bulk_read p then 0 else if p6_current_stage p = PARSER_STAGE_BLOCK_DATA then 1 else 2)"

function read_loop :: "v6_env \<Rightarrow> bundle6_parser \<Rightarrow> u8 list \<Rightarrow> nat \<Rightarrow> fault + bundle6_parser \<times> nat" where
  "read_loop env p buf i =
    (if i < length buf \<and> p6_status p = PARSER_STATUS_GOOD
     then if p6_bulk_read p
       then if i + p6_next_bytes p > length buf then Inr (p, i)
         else bindE (bulk_copy p (take (p6_next_bytes p) (drop i buf))) (\<lambda>p1.
           bindE (bundle6_parser_read_byte env p1 0) (\<lambda>p2. read_loop env p2 buf (i + p6_next_bytes p2)))
       else bindE (bundle6_parser_read_byte env p (buf ! i)) (\<lambda>p1. read_loop env p1 buf (i + 1))
     else Inr (p, i))"
  by pat_completeness auto

termination
proof (relation "measures [\<lambda>(env, p, buf, i). length buf - i, \<lambda>(env, p, buf, i). bulk_weight p]", goal_cases)
  case (2 env p buf i p1 p2)
  have "bulk_weight p2 < bulk_weight p"
    using 2 bulk_copy_mode[of p _ p1] read_byte_mode[of env p1 0 p2] by (auto simp: bulk_weight_def)
  then show ?case using 2 by auto
next
  case (3 env p buf i p1)
  then show ?case by auto
qed simp

declare read_loop.simps [simp del]

definition bundle6_parser_read :: "v6_env \<Rightarrow> bundle6_parser \<Rightarrow> u8 list option \<Rightarrow> fault + bundle6_parser \<times> nat" where
  "bundle6_parser_read env p buffer = (case buffer of
     None \<Rightarrow> bindE (bundle6_parser_read_byte env p 0) (\<lambda>p1. Inr (p1, 0))
   | Some buf \<Rightarrow> read_loop env p buf 0)"
end
