(* ===== verification/Bundle6_Codec.thy ===== *)
theory Bundle6_Codec
  imports Bundle6_Parser
begin

unbundle bit_operations_syntax

text \<open>
  The version 6 parser on the bytes of the version 6 serializer, first part: the dictionary and its entries, the relation \<open>reaches\<close> between
  parser states, and the fields. A field is a number written as SDNV (locale \<open>sdnv_bytes\<close>) and a stage that reads it (locale \<open>sdnv_stage\<close> with
  its two kinds, fields of the bundle and fields of the parser); every stage of \<^verbatim>\<open>parser.c\<close> that reads a number is an interpretation.
\<close>

section \<open>The dictionary\<close>

text \<open>The identifier a receiver reconstructs: a missing one, or one without scheme, has become \<^verbatim>\<open>dtn:none\<close>.\<close>

definition eid_text :: "eid option \<Rightarrow> string" where
  "eid_text e = (case colon_position e of None \<Rightarrow> ''dtn:none'' | Some k \<Rightarrow> the e)"

definition eid_scheme :: "eid option \<Rightarrow> string" where
  "eid_scheme e = (case colon_position e of None \<Rightarrow> ''dtn'' | Some k \<Rightarrow> take k (the e))"

definition eid_ssp :: "eid option \<Rightarrow> string" where
  "eid_ssp e = (case colon_position e of None \<Rightarrow> ''none'' | Some k \<Rightarrow> drop (k + 1) (the e))"

definition dict_entry :: "eid option \<Rightarrow> u8 list" where
  "dict_entry e = string_bytes (eid_scheme e) @ 0 # string_bytes (eid_ssp e) @ [0]"

definition eid_ok :: "eid option \<Rightarrow> bool" where
  "eid_ok e \<longleftrightarrow> (case e of None \<Rightarrow> True | Some s \<Rightarrow> c_string s)"

lemma colon_split:
  assumes "strstr s '':'' = Some k"
  shows "s = take k s @ '':'' @ drop (k + 1) s" "CHR '':'' \<notin> set (take k s)"
proof -
  have k: "k \<le> length s" "take 1 (drop k s) = '':''" using strstr_Some[OF assms] by auto
  then have "drop k s = '':'' @ drop (k + 1) s"
    by (metis append_take_drop_id drop_drop add.commute)
  then show "s = take k s @ '':'' @ drop (k + 1) s" by (metis append_take_drop_id)
  show "CHR '':'' \<notin> set (take k s)"
  proof
    assume "CHR '':'' \<in> set (take k s)"
    then obtain j where j: "j < k" "j < length s" "s ! j = CHR '':''" by (auto simp: in_set_conv_nth)
    then have "take 1 (drop j s) = '':''" by (simp add: take_Suc_conv_app_nth take_Suc hd_drop_conv_nth)
    then show False using strstr_first[OF assms j(1)] by simp
  qed
qed

lemma eid_text_split: "eid_text e = eid_scheme e @ '':'' @ eid_ssp e" "CHR '':'' \<notin> set (eid_scheme e)"
proof -
  have "eid_text e = eid_scheme e @ '':'' @ eid_ssp e \<and> CHR '':'' \<notin> set (eid_scheme e)"
  proof (cases "colon_position e")
    case (Some k)
    then obtain s where "e = Some s" "strstr s '':'' = Some k" by (auto simp: colon_position_def split: option.splits)
    then show ?thesis using Some colon_split[of s k] by (simp add: eid_text_def eid_scheme_def eid_ssp_def)
  qed (simp add: eid_text_def eid_scheme_def eid_ssp_def)
  then show "eid_text e = eid_scheme e @ '':'' @ eid_ssp e" "CHR '':'' \<notin> set (eid_scheme e)" by auto
qed

lemma c_string_parts: "eid_ok e \<Longrightarrow> c_string (eid_scheme e) \<and> c_string (eid_ssp e)"
  by (auto simp: eid_ok_def eid_scheme_def eid_ssp_def c_string_def colon_position_def split: option.splits
      dest: in_set_takeD in_set_dropD)

lemma write_eid_entry: "write_eid i = dict_entry (ei_str i)"
  by (simp add: write_eid_def write_scheme_def write_ssp_def dict_entry_def eid_scheme_def eid_ssp_def split: option.split)

lemma length_dict_entry: "length (dict_entry e) = length (eid_scheme e) + length (eid_ssp e) + 2"
  by (simp add: dict_entry_def)

lemma analyze_eid_parts: "analyze_eid e = (length (eid_scheme e), length (eid_ssp e))"
proof (cases "colon_position e")
  case (Some k)
  then obtain s where "e = Some s" "strstr s '':'' = Some k" by (auto simp: colon_position_def split: option.splits)
  then show ?thesis using Some strstr_Some[of s "'':''" k] by (simp add: analyze_eid_def eid_scheme_def eid_ssp_def)
qed (simp add: analyze_eid_def eid_scheme_def eid_ssp_def)

lemma calculate_eid_info_entry:
  "calculate_eid_info e len = (\<lparr>ei_str = e, ei_scheme_offset = of_nat len, ei_ssp_offset = of_nat (len + length (eid_scheme e) + 1)\<rparr>,
     len + length (dict_entry e))"
  by (simp add: calculate_eid_info_def analyze_eid_parts length_dict_entry)

text \<open>The four identifiers of the primary block in the order of the dictionary.\<close>

definition primary_eids :: "bundle_t \<Rightarrow> eid option list" where
  "primary_eids b = [destination b, source b, report_to b, current_custodian b]"

definition dict_bytes :: "eid option list \<Rightarrow> u8 list" where
  "dict_bytes es = concat (map dict_entry es)"

definition entry_info :: "eid option list \<Rightarrow> nat \<Rightarrow> bundle6_eid_info" where
  "entry_info es i = \<lparr>ei_str = es ! i, ei_scheme_offset = of_nat (length (dict_bytes (take i es))),
     ei_ssp_offset = of_nat (length (dict_bytes (take i es)) + length (eid_scheme (es ! i)) + 1)\<rparr>"

definition no_references :: "bundle_t \<Rightarrow> bool" where
  "no_references b \<longleftrightarrow> (\<forall>blk\<in>set (blocks b). blk_eid_refs blk = [] \<and> \<not> HAS_FLAG (blk_flags blk) BUNDLE_V6_BLOCK_FLAG_HAS_EID_REF_FIELD)"

definition plain_dict :: "bundle_t \<Rightarrow> bundle6_dict_descriptor" where
  "plain_dict b = \<lparr>dd_length = length (dict_bytes (primary_eids b)), dd_reference_count = 0,
     dd_destination = entry_info (primary_eids b) 0, dd_source = entry_info (primary_eids b) 1,
     dd_report_to = entry_info (primary_eids b) 2, dd_custodian = entry_info (primary_eids b) 3, dd_references = []\<rparr>"

lemma no_references_concat: "no_references b \<Longrightarrow> concat (map blk_eid_refs (blocks b)) = [] \<and> counted_references (blocks b) = 0"
  by (auto simp: no_references_def counted_references_def sum_list_eq_0_iff)

lemma calculate_dict_plain:
  assumes "no_references b" "malloc_ok as"
  shows "bundle6_calculate_dict b as = Inr (plain_dict b, malloc_rest as)"
  unfolding bundle6_calculate_dict_def no_references_concat[OF assms(1), THEN conjunct1] no_references_concat[OF assms(1), THEN conjunct2]
  using assms(2) by (simp add: calculate_eid_info_entry plain_dict_def entry_info_def primary_eids_def dict_bytes_def
      numeral_2_eq_2 numeral_3_eq_3 add.assoc)

lemma write_eids_fits:
  assumes "pos + length (concat (map write_eid is)) \<le> length buf"
  shows "write_eids buf pos is = Inr (take pos buf @ concat (map write_eid is) @ drop (pos + length (concat (map write_eid is))) buf)"
  using assms
proof (induction "is" arbitrary: buf pos)
  case (Cons i "is")
  let ?w = "write_eid i" and ?c = "concat (map write_eid is)"
  let ?buf = "take pos buf @ ?w @ drop (pos + length ?w) buf"
  have m: "memcpy_at (Some buf) pos ?w = Inr ?buf" using Cons.prems by (intro memcpy_at_Some) simp
  have "write_eids ?buf (pos + length ?w) is = Inr (take (pos + length ?w) ?buf @ ?c @ drop (pos + length ?w + length ?c) ?buf)"
    using Cons.prems by (intro Cons.IH) simp
  then show ?case using m Cons.prems by (simp add: ac_simps)
qed simp

lemma serialize_dictionary_plain:
  assumes "length buf = dd_length (plain_dict b)"
  shows "bundle6_serialize_dictionary buf (plain_dict b) = Inr (dict_bytes (primary_eids b))"
proof -
  have "concat (map write_eid [dd_destination (plain_dict b), dd_source (plain_dict b), dd_report_to (plain_dict b), dd_custodian (plain_dict b)])
      = dict_bytes (primary_eids b)"
    by (simp add: plain_dict_def entry_info_def write_eid_entry primary_eids_def dict_bytes_def numeral_2_eq_2 numeral_3_eq_3)
  then show ?thesis using write_eids_fits[of 0 "[dd_destination (plain_dict b), dd_source (plain_dict b), dd_report_to (plain_dict b), dd_custodian (plain_dict b)]" buf] assms
    by (simp add: bundle6_serialize_dictionary_def plain_dict_def)
qed

text \<open>Looking an entry up in the dictionary the sender built.\<close>

lemma read_eid_entry:
  assumes "eid_ok e" "length (pre @ dict_entry e @ post) < 65536"
  shows "bundle6_read_eid (Some (pre @ dict_entry e @ post @ [0])) (length (pre @ dict_entry e @ post))
     \<lparr>ref_scheme = of_nat (length pre), ref_ssp = of_nat (length pre + length (eid_scheme e) + 1)\<rparr> [] = Inr (Some (eid_text e), [])"
proof -
  let ?s = "eid_scheme e" and ?p = "eid_ssp e"
  let ?d = "pre @ dict_entry e @ post @ [0]"
  have u: "unat (of_nat (length pre) :: u16) = length pre"
    "unat (of_nat (length pre + length ?s + 1) :: u16) = length pre + length ?s + 1"
    using assms(2) by (simp_all only: unsigned_of_nat, simp_all add: take_bit_nat_eq_self length_dict_entry)
  have z: "0 \<notin> set (string_bytes ?s)" "0 \<notin> set (string_bytes ?p)"
    using c_string_parts[OF assms(1)] string_bytes_nonzero by auto
  have d1: "drop (length pre) ?d = string_bytes ?s @ 0 # string_bytes ?p @ 0 # post @ [0]" by (simp add: dict_entry_def)
  have d2: "drop (length pre + length ?s + 1) ?d = string_bytes ?p @ 0 # post @ [0]" by (simp add: dict_entry_def)
  show ?thesis
    unfolding bundle6_read_eid_def bundle6_eid_reference.select_convs u d1 d2 Let_def deref_simps bindE_simps
      c_strlen_terminated[OF z(1)] c_strlen_terminated[OF z(2)]
    using eid_text_split[of e] by (simp add: length_dict_entry u d1 d2 c_strlen_terminated z)
qed

section \<open>Runs of the parser\<close>

text \<open>\<open>reaches\<close>: feeding these bytes leads from one state to another, whatever stands before and behind them in the buffer.\<close>

definition reaches :: "v6_env \<Rightarrow> bundle6_parser \<Rightarrow> u8 list \<Rightarrow> bundle6_parser \<Rightarrow> bool" where
  "reaches env p bs q \<longleftrightarrow> (\<forall>pre rest.
     read_loop env p (pre @ bs @ rest) (length pre) = read_loop env q (pre @ bs @ rest) (length pre + length bs))"

text \<open>The same, when at least one more byte follows.\<close>

definition reaches_more :: "v6_env \<Rightarrow> bundle6_parser \<Rightarrow> u8 list \<Rightarrow> bundle6_parser \<Rightarrow> bool" where
  "reaches_more env p bs q \<longleftrightarrow> (\<forall>pre rest. rest \<noteq> [] \<longrightarrow>
     read_loop env p (pre @ bs @ rest) (length pre) = read_loop env q (pre @ bs @ rest) (length pre + length bs))"

lemma reaches_refl: "reaches env p [] p"
  by (simp add: reaches_def)

lemma reaches_trans:
  assumes "reaches env p a q" "reaches env q b r"
  shows "reaches env p (a @ b) r"
  unfolding reaches_def
proof (intro allI)
  fix pre rest
  show "read_loop env p (pre @ (a @ b) @ rest) (length pre) = read_loop env r (pre @ (a @ b) @ rest) (length pre + length (a @ b))"
    using assms(1)[unfolded reaches_def, rule_format, of pre "b @ rest"] assms(2)[unfolded reaches_def, rule_format, of "pre @ a" rest]
    by (simp add: add.assoc)
qed

lemma reaches_more_trans:
  assumes "reaches env p a q" "reaches_more env q b r"
  shows "reaches_more env p (a @ b) r"
  unfolding reaches_more_def
proof (intro allI impI)
  fix pre rest :: "u8 list" assume "rest \<noteq> []"
  then show "read_loop env p (pre @ (a @ b) @ rest) (length pre) = read_loop env r (pre @ (a @ b) @ rest) (length pre + length (a @ b))"
    using assms(1)[unfolded reaches_def, rule_format, of pre "b @ rest"] assms(2)[unfolded reaches_more_def, rule_format, of rest "pre @ a"]
    by (simp add: add.assoc)
qed

lemma reaches_more_reaches:
  assumes "reaches_more env p a q" "reaches env q b r" "b \<noteq> []"
  shows "reaches env p (a @ b) r"
  unfolding reaches_def
proof (intro allI)
  fix pre rest
  show "read_loop env p (pre @ (a @ b) @ rest) (length pre) = read_loop env r (pre @ (a @ b) @ rest) (length pre + length (a @ b))"
    using assms(1)[unfolded reaches_more_def, rule_format, of "b @ rest" pre] assms(2)[unfolded reaches_def, rule_format, of "pre @ a" rest] assms(3)
    by (simp add: add.assoc)
qed

lemma reaches_byte:
  assumes "p6_status p = PARSER_STATUS_GOOD" "\<not> p6_bulk_read p" "bundle6_parser_read_byte env p b = Inr q"
  shows "reaches env p [b] q"
  using assms by (simp add: reaches_def read_loop.simps[of env p])

text \<open>The primary block has room for this many more bytes, or its length is not known yet.\<close>

definition primary_room :: "bundle6_parser \<Rightarrow> nat \<Rightarrow> bool" where
  "primary_room p n \<longleftrightarrow> p6_current_block p \<noteq> PARSER_BLOCK_PRIMARY \<or> \<not> bundle6_parser_length_known p \<or> n \<le> unat (p6_primary_remaining p)"

definition use_primary :: "nat \<Rightarrow> bundle6_parser \<Rightarrow> bundle6_parser" where
  "use_primary n p = (if p6_current_block p = PARSER_BLOCK_PRIMARY then p\<lparr>p6_primary_remaining := p6_primary_remaining p - of_nat n\<rparr> else p)"

lemma use_primary_sel [simp]:
  "p6_current_block (use_primary n p) = p6_current_block p" "p6_current_stage (use_primary n p) = p6_current_stage p"
  "p6_next_stage (use_primary n p) = p6_next_stage p" "p6_status (use_primary n p) = p6_status p"
  "p6_bulk_read (use_primary n p) = p6_bulk_read p" "p6_sdnv (use_primary n p) = p6_sdnv p"
  "use_primary m (use_primary n p) = use_primary (m + n) p" "use_primary 0 p = p"
  by (simp_all add: use_primary_def)

lemma unat_sub_of_nat: "n \<le> unat (w :: 'a::len word) \<Longrightarrow> unat (w - of_nat n) = unat w - n"
proof -
  assume a: "n \<le> unat w"
  have "unat w < 2 ^ LENGTH('a)" by (rule unsigned_less)
  then have "n < 2 ^ LENGTH('a)" using a by linarith
  then have u: "unat (of_nat n :: 'a word) = n" by (simp add: unsigned_of_nat take_bit_nat_eq_self)
  then show ?thesis using a by (simp add: unat_sub word_le_nat_alt)
qed

lemma primary_room_use: "primary_room p (m + n) \<Longrightarrow> primary_room (use_primary m p) n"
  by (auto simp: primary_room_def use_primary_def bundle6_parser_length_known_def unat_sub_of_nat)

lemma read_byte_room:
  assumes "primary_room p 1"
  shows "bundle6_parser_read_byte env p b = bindE (stage_byte env (use_primary 1 p) b) (\<lambda>p2.
     if p6_current_stage p2 \<noteq> p6_next_stage p2 \<and> p6_status p2 \<noteq> PARSER_STATUS_ERROR then bundle6_parser_next env p2 else Inr p2)"
  using assms by (auto simp: bundle6_parser_read_byte_def primary_room_def use_primary_def Let_def)

section \<open>Fields\<close>

text \<open>
  What a reader and a writer of SDNVs promise each other: the reader is in progress before the last byte of what the writer produced for
  a value, and has the value after it.
\<close>

locale sdnv_bytes =
  fixes rd :: "sdnv_state \<Rightarrow> 'v \<Rightarrow> u8 \<Rightarrow> sdnv_state \<times> 'v"
    and bytes :: "'v \<Rightarrow> u8 list"
  assumes bytes_nonempty: "bytes v \<noteq> []"
    and bytes_progress: "k < length (bytes v) \<Longrightarrow> status (fst (sdnv_run rd u (take k (bytes v)))) = SDNV_IN_PROGRESS"
    and bytes_done: "status (fst (sdnv_run rd u (bytes v))) = SDNV_DONE" "snd (sdnv_run rd u (bytes v)) = v"

text \<open>
  The contract of a stage that reads one SDNV: the byte goes to the reader \<open>rd\<close> whose variable is accessed by \<open>get\<close> and \<open>put\<close>, and after
  the last byte \<open>post\<close> decides how to go on.
\<close>

locale sdnv_stage = sdnv_bytes rd bytes
  for rd :: "sdnv_state \<Rightarrow> 'v \<Rightarrow> u8 \<Rightarrow> sdnv_state \<times> 'v" and bytes :: "'v \<Rightarrow> u8 list" +
  fixes env :: v6_env
    and stage nxt :: bundle6_parser_stage
    and get :: "bundle6_parser \<Rightarrow> 'v"
    and put :: "'v \<Rightarrow> bundle6_parser \<Rightarrow> bundle6_parser"
    and post :: "bundle6_parser \<Rightarrow> bundle6_parser"
    and ready :: "bundle6_parser \<Rightarrow> bool"
  assumes act: "p6_current_stage p = stage \<Longrightarrow> ready p \<Longrightarrow> stage_byte env p b =
        Inr (case read_field rd get put nxt b p of (done, q) \<Rightarrow> if done then post q else q)"
    and get_put: "ready p \<Longrightarrow> get (put v p) = v"
    and put_put: "put v (put u p) = put v p"
    and put_get: "ready p \<Longrightarrow> put (get p) p = p"
    and put_sdnv: "put v (p\<lparr>p6_sdnv := s\<rparr>) = (put v p)\<lparr>p6_sdnv := s\<rparr>"
    and put_primary: "put v (use_primary n p) = use_primary n (put v p)"
    and put_sel: "p6_current_stage (put v p) = p6_current_stage p" "p6_next_stage (put v p) = p6_next_stage p"
      "p6_status (put v p) = p6_status p" "p6_bulk_read (put v p) = p6_bulk_read p" "p6_current_block (put v p) = p6_current_block p"
      "p6_primary_remaining (put v p) = p6_primary_remaining p"
    and get_frame: "get (p\<lparr>p6_sdnv := s\<rparr>) = get p" "get (use_primary n p) = get p"
    and ready_frame: "ready (put v p) = ready p" "ready (p\<lparr>p6_sdnv := s\<rparr>) = ready p" "ready (use_primary n p) = ready p"
      "ready (p\<lparr>p6_next_stage := st\<rparr>) = ready p"
    and post_sel: "ready p \<Longrightarrow> p6_current_stage (post p) = p6_current_stage p" "p6_status (post p) = p6_status p"
    and post_next: "ready p \<Longrightarrow> p6_next_stage p = nxt \<Longrightarrow> p6_next_stage (post p) \<noteq> stage"
begin

text \<open>The state after a part of the field.\<close>

definition partial :: "bundle6_parser \<Rightarrow> 'v \<Rightarrow> nat \<Rightarrow> bundle6_parser" where
  "partial p v k = (case sdnv_run rd (get p) (take k (bytes v)) of (s, u) \<Rightarrow> use_primary k (put u (p\<lparr>p6_sdnv := s\<rparr>)))"

lemma partial_0: "ready p \<Longrightarrow> p6_sdnv p = sdnv_reset \<Longrightarrow> partial p v 0 = p"
  by (simp add: partial_def sdnv_run_Nil put_sdnv put_get)

lemma partial_read:
  assumes "ready p" "k < length (bytes v)"
  shows "read_field rd get put nxt (bytes v ! k) (use_primary 1 (partial p v k)) = bundle6_parser_wait_for_sdnv nxt (partial p v (Suc k))"
proof -
  obtain s u where su: "sdnv_run rd (get p) (take k (bytes v)) = (s, u)" by (cases "sdnv_run rd (get p) (take k (bytes v))")
  then have run: "sdnv_run rd (get p) (take (Suc k) (bytes v)) = rd s u (bytes v ! k)"
    using assms(2) by (simp add: take_Suc_conv_app_nth sdnv_run_snoc)
  obtain s' u' where su': "rd s u (bytes v ! k) = (s', u')" by (cases "rd s u (bytes v ! k)")
  have q: "use_primary 1 (partial p v k) = use_primary (Suc k) ((put u p)\<lparr>p6_sdnv := s\<rparr>)" by (simp add: partial_def su put_sdnv)
  have g: "get (use_primary 1 (partial p v k)) = u" unfolding q using assms(1) by (simp add: get_frame get_put)
  have sd: "p6_sdnv (use_primary 1 (partial p v k)) = s" unfolding q by simp
  have c: "(use_primary n r)\<lparr>p6_sdnv := t\<rparr> = use_primary n (r\<lparr>p6_sdnv := t\<rparr>)" for n r t by (simp add: use_primary_def)
  have "put u' ((use_primary 1 (partial p v k))\<lparr>p6_sdnv := s'\<rparr>) = partial p v (Suc k)"
    unfolding q by (simp add: partial_def run su' c put_primary put_sdnv put_put)
  then show ?thesis by (simp only: read_field_def g sd su' prod.case)
qed

lemma partial_sel:
  "p6_current_stage (partial p v k) = p6_current_stage p" "p6_next_stage (partial p v k) = p6_next_stage p"
  "p6_status (partial p v k) = p6_status p" "p6_bulk_read (partial p v k) = p6_bulk_read p"
  "ready (partial p v k) = ready p" "p6_sdnv (partial p v k) = fst (sdnv_run rd (get p) (take k (bytes v)))"
  by (simp_all add: partial_def put_sel put_sdnv ready_frame split: prod.split)

lemma partial_room: "primary_room p n \<Longrightarrow> k \<le> n \<Longrightarrow> primary_room (partial p v k) (n - k)"
proof -
  assume a: "primary_room p n" "k \<le> n"
  have "primary_room (put u (p\<lparr>p6_sdnv := s\<rparr>)) n" for u s
    using a(1) by (simp add: primary_room_def bundle6_parser_length_known_def put_sel)
  then show ?thesis using a(2) primary_room_use[of _ k "n - k"] by (simp add: partial_def split: prod.split)
qed

lemma partial_reaches:
  assumes "p6_status p = PARSER_STATUS_GOOD" "\<not> p6_bulk_read p" "p6_current_stage p = stage" "p6_next_stage p = stage"
    "ready p" "p6_sdnv p = sdnv_reset" "primary_room p (length (bytes v))" "k < length (bytes v)"
  shows "reaches env p (take k (bytes v)) (partial p v k)"
  using assms(8)
proof (induction k)
  case 0
  then show ?case using assms(5,6) by (simp add: partial_0 reaches_refl)
next
  case (Suc k)
  let ?q = "partial p v k"
  have "primary_room ?q 1" using partial_room[OF assms(7), of k v] Suc.prems by (auto simp: primary_room_def)
  moreover have "stage_byte env (use_primary 1 ?q) (bytes v ! k) = Inr (partial p v (Suc k))"
    using act[of "use_primary 1 ?q" "bytes v ! k"] assms(3,5) partial_read[OF assms(5), of k v] Suc.prems bytes_progress[OF Suc.prems, of "get p"]
    by (simp add: partial_sel ready_frame bundle6_parser_wait_for_sdnv_def)
  ultimately have "bundle6_parser_read_byte env ?q (bytes v ! k) = Inr (partial p v (Suc k))"
    using assms(3,4) by (simp add: read_byte_room partial_sel)
  then have "reaches env ?q [bytes v ! k] (partial p v (Suc k))" using assms(1,2) by (intro reaches_byte) (simp_all add: partial_sel)
  from reaches_trans[OF Suc.IH this] show ?case using Suc.prems by (simp add: take_Suc_conv_app_nth)
qed

definition complete :: "bundle6_parser \<Rightarrow> 'v \<Rightarrow> bundle6_parser" where
  "complete p v = post ((partial p v (length (bytes v)))\<lparr>p6_next_stage := nxt\<rparr>)"

lemma field_reaches:
  assumes "p6_status p = PARSER_STATUS_GOOD" "\<not> p6_bulk_read p" "p6_current_stage p = stage" "p6_next_stage p = stage"
    "ready p" "p6_sdnv p = sdnv_reset" "primary_room p (length (bytes v))"
    and "bundle6_parser_next env (complete p v) = Inr r"
  shows "reaches env p (bytes v) r"
proof -
  define k where "k = length (bytes v) - 1"
  have k: "k < length (bytes v)" "Suc k = length (bytes v)" using bytes_nonempty[of v] by (auto simp: k_def)
  let ?q = "partial p v k" and ?f = "(partial p v (Suc k))\<lparr>p6_next_stage := nxt\<rparr>"
  have "primary_room ?q 1" using partial_room[OF assms(7), of k v] k by (auto simp: primary_room_def)
  moreover have "stage_byte env (use_primary 1 ?q) (bytes v ! k) = Inr (complete p v)"
    using act[of "use_primary 1 ?q" "bytes v ! k"] assms(3,5) partial_read[OF assms(5) k(1)] bytes_done(1)[of "get p" v]
    by (simp add: partial_sel ready_frame bundle6_parser_wait_for_sdnv_def complete_def k(2))
  moreover have "p6_current_stage (complete p v) \<noteq> p6_next_stage (complete p v)" "p6_status (complete p v) \<noteq> PARSER_STATUS_ERROR"
    using post_sel[of ?f] post_next[of ?f] assms(1,3,5) by (simp_all add: complete_def partial_sel ready_frame k(2))
  ultimately have "bundle6_parser_read_byte env ?q (bytes v ! k) = Inr r"
    using assms(8) by (simp add: read_byte_room)
  then have "reaches env ?q [bytes v ! k] r" using assms(1,2) by (intro reaches_byte) (simp_all add: partial_sel)
  from reaches_trans[OF partial_reaches[OF assms(1-7) k(1)] this] show ?thesis
    using k by (metis take_Suc_conv_app_nth take_all order_refl)
qed

text \<open>The reader's own state after the field does not matter.\<close>

lemma field_reaches_any:
  assumes "p6_status p = PARSER_STATUS_GOOD" "\<not> p6_bulk_read p" "p6_current_stage p = stage" "p6_next_stage p = stage"
    "ready p" "p6_sdnv p = sdnv_reset" "primary_room p (length (bytes v))"
    and "\<And>s. bundle6_parser_next env (post ((use_primary (length (bytes v)) (put v (p\<lparr>p6_sdnv := s\<rparr>)))\<lparr>p6_next_stage := nxt\<rparr>)) = Inr r"
  shows "reaches env p (bytes v) r"
proof (rule field_reaches[OF assms(1-7)])
  obtain s u where su: "sdnv_run rd (get p) (bytes v) = (s, u)" by (cases "sdnv_run rd (get p) (bytes v)")
  then show "bundle6_parser_next env (complete p v) = Inr r"
    using bytes_done(2)[of "get p" v] assms(8)[of s] by (simp add: complete_def partial_def)
qed

end

text \<open>Well-formed byte strings of any width, read by a reader that is wide enough for them.\<close>

context sdnv_width
begin

lemma read_well_formed:
  assumes "sdnv_well_formed bs" "length bs \<le> max_bytes" "sdnv_value bs < 2 ^ LENGTH('a)"
  shows "k < length bs \<Longrightarrow> status (fst (sdnv_run read u (take k bs))) = SDNV_IN_PROGRESS"
    and "status (fst (sdnv_run read u bs)) = SDNV_DONE" "snd (sdnv_run read u bs) = word_of_nat (sdnv_value bs)"
proof -
  show "status (fst (sdnv_run read u (take k bs))) = SDNV_IN_PROGRESS" if "k < length bs"
  proof -
    have "list_all sdnv_marked (take k bs)"
      using assms(1) that by (auto simp: sdnv_well_formed_def list_all_length nth_butlast)
    then show ?thesis using run_prefix[of "take k bs" u] that assms(2) by auto
  qed
qed (simp_all add: run_complete[OF assms])

end

sublocale sdnv_width \<subseteq> written: sdnv_bytes "sdnv_read_generic validate" "\<lambda>v. sdnv_write_generic (get_size v) v"
proof unfold_locales
  fix v u k
  let ?bs = "sdnv_write_generic (get_size v) v"
  note w = sdnv_write_generic_ok[OF width size_pos size_enough, of v]
  have l: "length ?bs \<le> max_bytes" "sdnv_value ?bs < 2 ^ LENGTH('a)" by (simp_all add: w size_le unsigned_less)
  note r = read_well_formed[OF w(2) l]
  show "?bs \<noteq> []" using w(1) size_pos[of v] by auto
  show "k < length ?bs \<Longrightarrow> status (fst (sdnv_run read u (take k ?bs))) = SDNV_IN_PROGRESS" by (rule r(1))
  show "status (fst (sdnv_run read u ?bs)) = SDNV_DONE" by (rule r(2))
  show "snd (sdnv_run read u ?bs) = v" using r(3) by (simp add: w)
qed

lemma serialize_defs:
  "serialize_u16 = (\<lambda>w. sdnv_write_generic (sdnv_get_size_u16 w) w)"
  "serialize_u32 = (\<lambda>w. sdnv_write_generic (sdnv_get_size_u32 w) w)"
  "serialize_u64 = (\<lambda>w. sdnv_write_generic (sdnv_get_size_u64 w) w)"
  by (simp_all add: fun_eq_iff serialize_u16_def serialize_u32_def serialize_u64_def sdnv_write_defs Let_def)

lemma serialize_u32_bytes:
  "serialize_u32 v \<noteq> []" "length (serialize_u32 v) = sdnv_get_size_u32 v"
  "sdnv_well_formed (serialize_u32 v)" "sdnv_value (serialize_u32 v) = unat v"
  using sdnv32.written.bytes_nonempty sdnv_write_generic_ok[OF sdnv32.width sdnv32.size_pos sdnv32.size_enough, of v]
  by (simp_all add: serialize_defs)

interpretation bytes16: sdnv_bytes sdnv_read_u16 serialize_u16
  unfolding serialize_defs sdnv_read_defs by (rule sdnv16.written.sdnv_bytes_axioms)

interpretation bytes32: sdnv_bytes sdnv_read_u32 serialize_u32
  unfolding serialize_defs sdnv_read_defs by (rule sdnv32.written.sdnv_bytes_axioms)

interpretation bytes64: sdnv_bytes sdnv_read_u64 serialize_u64
  unfolding serialize_defs sdnv_read_defs by (rule sdnv64.written.sdnv_bytes_axioms)

text \<open>Two fields are written at 32 bits and read at 8 and 16.\<close>

interpretation bytes32_8: sdnv_bytes sdnv_read_u8 "\<lambda>v. serialize_u32 (ucast v)"
proof unfold_locales
  fix v u :: u8 and k
  have l: "length (serialize_u32 (ucast v)) \<le> 2" "sdnv_value (serialize_u32 (ucast v)) < 2 ^ LENGTH(8)"
    using unat_u8_less_256[of v] by (simp_all add: serialize_u32_bytes sdnv_get_size_unat unat_ucast_up)
  note r = sdnv8.read_well_formed[OF serialize_u32_bytes(3) l]
  show "serialize_u32 (ucast v) \<noteq> []" by (simp add: serialize_u32_bytes)
  show "k < length (serialize_u32 (ucast v)) \<Longrightarrow> status (fst (sdnv_run sdnv_read_u8 u (take k (serialize_u32 (ucast v))))) = SDNV_IN_PROGRESS"
    using r(1) by (simp add: sdnv_read_defs)
  show "status (fst (sdnv_run sdnv_read_u8 u (serialize_u32 (ucast v)))) = SDNV_DONE" using r(2) by (simp add: sdnv_read_defs)
  show "snd (sdnv_run sdnv_read_u8 u (serialize_u32 (ucast v))) = v" using r(3) by (simp add: sdnv_read_defs serialize_u32_bytes unat_ucast_up)
qed

interpretation bytes32_16: sdnv_bytes sdnv_read_u16 "\<lambda>v. serialize_u32 (ucast v)"
proof unfold_locales
  fix v u :: u16 and k
  have l: "length (serialize_u32 (ucast v)) \<le> 3" "sdnv_value (serialize_u32 (ucast v)) < 2 ^ LENGTH(16)"
    using unat_max(2)[of v] by (simp_all add: serialize_u32_bytes sdnv_get_size_unat unat_ucast_up)
  note r = sdnv16.read_well_formed[OF serialize_u32_bytes(3) l]
  show "serialize_u32 (ucast v) \<noteq> []" by (simp add: serialize_u32_bytes)
  show "k < length (serialize_u32 (ucast v)) \<Longrightarrow> status (fst (sdnv_run sdnv_read_u16 u (take k (serialize_u32 (ucast v))))) = SDNV_IN_PROGRESS"
    using r(1) by (simp add: sdnv_read_defs)
  show "status (fst (sdnv_run sdnv_read_u16 u (serialize_u32 (ucast v)))) = SDNV_DONE" using r(2) by (simp add: sdnv_read_defs)
  show "snd (sdnv_run sdnv_read_u16 u (serialize_u32 (ucast v))) = v" using r(3) by (simp add: sdnv_read_defs serialize_u32_bytes unat_ucast_up)
qed

section \<open>The stages\<close>

text \<open>Fields of the bundle, fields of the parser itself.\<close>

locale bundle_stage = sdnv_bytes rd bytes
  for rd :: "sdnv_state \<Rightarrow> 'v \<Rightarrow> u8 \<Rightarrow> sdnv_state \<times> 'v" and bytes :: "'v \<Rightarrow> u8 list" +
  fixes env :: v6_env
    and stage nxt :: bundle6_parser_stage
    and getb :: "bundle_t \<Rightarrow> 'v"
    and putb :: "'v \<Rightarrow> bundle_t \<Rightarrow> bundle_t"
  assumes bundle_act: "p6_current_stage p = stage \<Longrightarrow> stage_byte env p byte = bundle_field rd getb putb nxt byte p"
    and getb_putb: "getb (putb v b) = v"
    and putb_putb: "putb v (putb u b) = putb v b"
    and putb_getb: "putb (getb b) b = b"
    and nxt: "nxt \<noteq> stage"

sublocale bundle_stage \<subseteq> field: sdnv_stage rd bytes env stage nxt
  "\<lambda>p. getb (the (p6_bundle p))" "\<lambda>v. set_bundle (putb v)" "\<lambda>p. p" "\<lambda>p. p6_bundle p \<noteq> None"
proof unfold_locales
  fix p :: bundle6_parser and b
  assume "p6_current_stage p = stage" "p6_bundle p \<noteq> None"
  then show "stage_byte env p b = Inr (case read_field rd (\<lambda>p. getb (the (p6_bundle p))) (\<lambda>v. set_bundle (putb v)) nxt b p of
      (done, q) \<Rightarrow> if done then q else q)"
    by (auto simp: bundle_act bundle_field_def case_prod_beta)
next
  fix p :: bundle6_parser and v
  assume "p6_bundle p \<noteq> None"
  then show "getb (the (p6_bundle (set_bundle (putb v) p))) = v" "set_bundle (putb (getb (the (p6_bundle p)))) p = p"
    by (auto simp: set_bundle_def getb_putb putb_getb)
next
  fix p :: bundle6_parser and v u
  show "set_bundle (putb v) (set_bundle (putb u) p) = set_bundle (putb v) p"
    by (cases "p6_bundle p") (simp_all add: set_bundle_def putb_putb)
qed (simp_all add: set_bundle_def use_primary_def nxt)

locale parser_stage = sdnv_bytes rd bytes
  for rd :: "sdnv_state \<Rightarrow> 'v \<Rightarrow> u8 \<Rightarrow> sdnv_state \<times> 'v" and bytes :: "'v \<Rightarrow> u8 list" +
  fixes env :: v6_env
    and stage nxt :: bundle6_parser_stage
    and getp :: "bundle6_parser \<Rightarrow> 'v"
    and putp :: "'v \<Rightarrow> bundle6_parser \<Rightarrow> bundle6_parser"
  assumes parser_act: "p6_current_stage p = stage \<Longrightarrow> stage_byte env p byte = parser_field rd getp putp nxt byte p"
    and getp_putp: "getp (putp v p) = v"
    and putp_putp: "putp v (putp u p) = putp v p"
    and putp_getp: "putp (getp p) p = p"
    and putp_frame: "putp v (p\<lparr>p6_sdnv := s\<rparr>) = (putp v p)\<lparr>p6_sdnv := s\<rparr>"
      "putp v (p\<lparr>p6_primary_remaining := r\<rparr>) = (putp v p)\<lparr>p6_primary_remaining := r\<rparr>"
      "p6_current_stage (putp v p) = p6_current_stage p" "p6_next_stage (putp v p) = p6_next_stage p"
      "p6_status (putp v p) = p6_status p" "p6_bulk_read (putp v p) = p6_bulk_read p" "p6_current_block (putp v p) = p6_current_block p"
      "p6_primary_remaining (putp v p) = p6_primary_remaining p"
    and getp_frame: "getp (p\<lparr>p6_sdnv := s\<rparr>) = getp p" "getp (p\<lparr>p6_primary_remaining := r\<rparr>) = getp p"
    and nxt: "nxt \<noteq> stage"

sublocale parser_stage \<subseteq> field: sdnv_stage rd bytes env stage nxt getp putp "\<lambda>p. p" "\<lambda>p. True"
  by unfold_locales (simp_all add: parser_act parser_field_def case_prod_beta getp_putp putp_putp putp_getp putp_frame getp_frame nxt use_primary_def)

interpretation proc_flags_stage: bundle_stage sdnv_read_u32 serialize_u32 env PARSER_STAGE_PROC_FLAGS PARSER_STAGE_BLOCK_LENGTH
    proc_flags "\<lambda>v b. b\<lparr>proc_flags := v\<rparr>" for env
  by unfold_locales (simp_all add: stage_byte_def)

interpretation block_length_stage: bundle_stage sdnv_read_u16 "\<lambda>v. serialize_u32 (ucast v)" env PARSER_STAGE_BLOCK_LENGTH
    PARSER_STAGE_DESTINATION_EID_SCHEME primary_block_length "\<lambda>v b. b\<lparr>primary_block_length := v\<rparr>" for env
  by unfold_locales (simp_all add: stage_byte_def)

interpretation destination_scheme_stage: parser_stage sdnv_read_u16 serialize_u16 env PARSER_STAGE_DESTINATION_EID_SCHEME PARSER_STAGE_DESTINATION_EID_SSP
    "\<lambda>p. ref_scheme (p6_destination_ref p)" "\<lambda>v p. p\<lparr>p6_destination_ref := (p6_destination_ref p)\<lparr>ref_scheme := v\<rparr>\<rparr>" for env
  by unfold_locales (simp_all add: stage_byte_def)

interpretation destination_ssp_stage: parser_stage sdnv_read_u16 serialize_u16 env PARSER_STAGE_DESTINATION_EID_SSP PARSER_STAGE_SOURCE_EID_SCHEME
    "\<lambda>p. ref_ssp (p6_destination_ref p)" "\<lambda>v p. p\<lparr>p6_destination_ref := (p6_destination_ref p)\<lparr>ref_ssp := v\<rparr>\<rparr>" for env
  by unfold_locales (simp_all add: stage_byte_def)

interpretation source_scheme_stage: parser_stage sdnv_read_u16 serialize_u16 env PARSER_STAGE_SOURCE_EID_SCHEME PARSER_STAGE_SOURCE_EID_SSP
    "\<lambda>p. ref_scheme (p6_source_ref p)" "\<lambda>v p. p\<lparr>p6_source_ref := (p6_source_ref p)\<lparr>ref_scheme := v\<rparr>\<rparr>" for env
  by unfold_locales (simp_all add: stage_byte_def)

interpretation source_ssp_stage: parser_stage sdnv_read_u16 serialize_u16 env PARSER_STAGE_SOURCE_EID_SSP PARSER_STAGE_REPORT_EID_SCHEME
    "\<lambda>p. ref_ssp (p6_source_ref p)" "\<lambda>v p. p\<lparr>p6_source_ref := (p6_source_ref p)\<lparr>ref_ssp := v\<rparr>\<rparr>" for env
  by unfold_locales (simp_all add: stage_byte_def)

interpretation report_scheme_stage: parser_stage sdnv_read_u16 serialize_u16 env PARSER_STAGE_REPORT_EID_SCHEME PARSER_STAGE_REPORT_EID_SSP
    "\<lambda>p. ref_scheme (p6_report_ref p)" "\<lambda>v p. p\<lparr>p6_report_ref := (p6_report_ref p)\<lparr>ref_scheme := v\<rparr>\<rparr>" for env
  by unfold_locales (simp_all add: stage_byte_def)

interpretation report_ssp_stage: parser_stage sdnv_read_u16 serialize_u16 env PARSER_STAGE_REPORT_EID_SSP PARSER_STAGE_CUSTODIAN_EID_SCHEME
    "\<lambda>p. ref_ssp (p6_report_ref p)" "\<lambda>v p. p\<lparr>p6_report_ref := (p6_report_ref p)\<lparr>ref_ssp := v\<rparr>\<rparr>" for env
  by unfold_locales (simp_all add: stage_byte_def)

interpretation custodian_scheme_stage: parser_stage sdnv_read_u16 serialize_u16 env PARSER_STAGE_CUSTODIAN_EID_SCHEME PARSER_STAGE_CUSTODIAN_EID_SSP
    "\<lambda>p. ref_scheme (p6_custodian_ref p)" "\<lambda>v p. p\<lparr>p6_custodian_ref := (p6_custodian_ref p)\<lparr>ref_scheme := v\<rparr>\<rparr>" for env
  by unfold_locales (simp_all add: stage_byte_def)

interpretation custodian_ssp_stage: parser_stage sdnv_read_u16 serialize_u16 env PARSER_STAGE_CUSTODIAN_EID_SSP PARSER_STAGE_TIMESTAMP
    "\<lambda>p. ref_ssp (p6_custodian_ref p)" "\<lambda>v p. p\<lparr>p6_custodian_ref := (p6_custodian_ref p)\<lparr>ref_ssp := v\<rparr>\<rparr>" for env
  by unfold_locales (simp_all add: stage_byte_def)

interpretation timestamp_stage: bundle_stage sdnv_read_u64 serialize_u64 env PARSER_STAGE_TIMESTAMP PARSER_STAGE_SEQUENCE_NUM
    creation_timestamp_ms "\<lambda>v b. b\<lparr>creation_timestamp_ms := v\<rparr>" for env
  by unfold_locales (simp_all add: stage_byte_def)

interpretation sequence_stage: bundle_stage sdnv_read_u64 serialize_u64 env PARSER_STAGE_SEQUENCE_NUM PARSER_STAGE_LIFETIME
    sequence_number "\<lambda>v b. b\<lparr>sequence_number := v\<rparr>" for env
  by unfold_locales (simp_all add: stage_byte_def)

interpretation lifetime_stage: bundle_stage sdnv_read_u64 serialize_u64 env PARSER_STAGE_LIFETIME PARSER_STAGE_DICT_LENGTH
    lifetime_ms "\<lambda>v b. b\<lparr>lifetime_ms := v\<rparr>" for env
  by unfold_locales (simp_all add: stage_byte_def)

interpretation dict_length_stage: parser_stage sdnv_read_u16 serialize_u16 env PARSER_STAGE_DICT_LENGTH PARSER_STAGE_DICTIONARY
    p6_dict_length "\<lambda>v p. p\<lparr>p6_dict_length := v\<rparr>" for env
  by unfold_locales (simp_all add: stage_byte_def)

interpretation fragment_offset_stage: bundle_stage sdnv_read_u32 serialize_u32 env PARSER_STAGE_FRAGMENT_OFFSET PARSER_STAGE_ADU_LENGTH
    fragment_offset "\<lambda>v b. b\<lparr>fragment_offset := v\<rparr>" for env
  by unfold_locales (simp_all add: stage_byte_def)

interpretation adu_length_stage: bundle_stage sdnv_read_u32 serialize_u32 env PARSER_STAGE_ADU_LENGTH PARSER_STAGE_BLOCK_TYPE
    total_adu_length "\<lambda>v b. b\<lparr>total_adu_length := v\<rparr>" for env
  by unfold_locales (simp_all add: stage_byte_def)

section \<open>The primary block\<close>

text \<open>
  The states inside the primary block, with everything that changes there spelled out: the stage, the bundle, the bytes left, the four
  references and the length of the dictionary.
\<close>

definition hstate :: "bundle6_parser \<Rightarrow> bundle6_parser_stage \<Rightarrow> bundle_t \<Rightarrow> u16 \<Rightarrow> bundle6_eid_reference \<Rightarrow> bundle6_eid_reference
    \<Rightarrow> bundle6_eid_reference \<Rightarrow> bundle6_eid_reference \<Rightarrow> u16 \<Rightarrow> bundle6_parser" where
  "hstate p st b r ds sr rt cu l = p\<lparr>p6_current_stage := st, p6_next_stage := st, p6_sdnv := sdnv_reset, p6_bundle := Some b,
     p6_primary_remaining := r, p6_destination_ref := ds, p6_source_ref := sr, p6_report_ref := rt, p6_custodian_ref := cu,
     p6_dict_length := l\<rparr>"

definition idle :: "bundle6_parser \<Rightarrow> bool" where
  "idle p \<longleftrightarrow> p6_status p = PARSER_STATUS_GOOD \<and> \<not> p6_bulk_read p \<and> p6_current_block p = PARSER_BLOCK_PRIMARY"

lemmas stage_simps = primary_room_def bundle6_parser_length_known_def use_primary_def set_bundle_def bundle6_parser_next_def prepare_stage_def

lemma reach_proc_flags:
  assumes "idle p"
  shows "reaches env (hstate p PARSER_STAGE_PROC_FLAGS b r ds sr rt cu l) (serialize_u32 v)
     (hstate p PARSER_STAGE_BLOCK_LENGTH (b\<lparr>proc_flags := v\<rparr>) (r - of_nat (length (serialize_u32 v))) ds sr rt cu l)"
  using assms by (intro proc_flags_stage.field.field_reaches_any)
    (simp_all add: hstate_def idle_def stage_simps)

lemma reach_block_length:
  assumes "idle p"
  shows "reaches env (hstate p PARSER_STAGE_BLOCK_LENGTH b r ds sr rt cu l) (serialize_u32 (ucast v))
     (hstate p PARSER_STAGE_DESTINATION_EID_SCHEME (b\<lparr>primary_block_length := v\<rparr>) v ds sr rt cu l)"
  using assms by (intro block_length_stage.field.field_reaches_any)
    (simp_all add: hstate_def idle_def stage_simps)

lemma reach_destination_scheme:
  assumes "idle p" "length (serialize_u16 v) \<le> unat r"
  shows "reaches env (hstate p PARSER_STAGE_DESTINATION_EID_SCHEME b r ds sr rt cu l) (serialize_u16 v)
     (hstate p PARSER_STAGE_DESTINATION_EID_SSP b (r - of_nat (length (serialize_u16 v))) (ds\<lparr>ref_scheme := v\<rparr>) sr rt cu l)"
  using assms by (intro destination_scheme_stage.field.field_reaches_any)
    (simp_all add: hstate_def idle_def stage_simps)

lemma reach_destination_ssp:
  assumes "idle p" "length (serialize_u16 v) \<le> unat r"
  shows "reaches env (hstate p PARSER_STAGE_DESTINATION_EID_SSP b r ds sr rt cu l) (serialize_u16 v)
     (hstate p PARSER_STAGE_SOURCE_EID_SCHEME b (r - of_nat (length (serialize_u16 v))) (ds\<lparr>ref_ssp := v\<rparr>) sr rt cu l)"
  using assms by (intro destination_ssp_stage.field.field_reaches_any)
    (simp_all add: hstate_def idle_def stage_simps)

lemma reach_source_scheme:
  assumes "idle p" "length (serialize_u16 v) \<le> unat r"
  shows "reaches env (hstate p PARSER_STAGE_SOURCE_EID_SCHEME b r ds sr rt cu l) (serialize_u16 v)
     (hstate p PARSER_STAGE_SOURCE_EID_SSP b (r - of_nat (length (serialize_u16 v))) ds (sr\<lparr>ref_scheme := v\<rparr>) rt cu l)"
  using assms by (intro source_scheme_stage.field.field_reaches_any)
    (simp_all add: hstate_def idle_def stage_simps)

lemma reach_source_ssp:
  assumes "idle p" "length (serialize_u16 v) \<le> unat r"
  shows "reaches env (hstate p PARSER_STAGE_SOURCE_EID_SSP b r ds sr rt cu l) (serialize_u16 v)
     (hstate p PARSER_STAGE_REPORT_EID_SCHEME b (r - of_nat (length (serialize_u16 v))) ds (sr\<lparr>ref_ssp := v\<rparr>) rt cu l)"
  using assms by (intro source_ssp_stage.field.field_reaches_any)
    (simp_all add: hstate_def idle_def stage_simps)

lemma reach_report_scheme:
  assumes "idle p" "length (serialize_u16 v) \<le> unat r"
  shows "reaches env (hstate p PARSER_STAGE_REPORT_EID_SCHEME b r ds sr rt cu l) (serialize_u16 v)
     (hstate p PARSER_STAGE_REPORT_EID_SSP b (r - of_nat (length (serialize_u16 v))) ds sr (rt\<lparr>ref_scheme := v\<rparr>) cu l)"
  using assms by (intro report_scheme_stage.field.field_reaches_any)
    (simp_all add: hstate_def idle_def stage_simps)

lemma reach_report_ssp:
  assumes "idle p" "length (serialize_u16 v) \<le> unat r"
  shows "reaches env (hstate p PARSER_STAGE_REPORT_EID_SSP b r ds sr rt cu l) (serialize_u16 v)
     (hstate p PARSER_STAGE_CUSTODIAN_EID_SCHEME b (r - of_nat (length (serialize_u16 v))) ds sr (rt\<lparr>ref_ssp := v\<rparr>) cu l)"
  using assms by (intro report_ssp_stage.field.field_reaches_any)
    (simp_all add: hstate_def idle_def stage_simps)

lemma reach_custodian_scheme:
  assumes "idle p" "length (serialize_u16 v) \<le> unat r"
  shows "reaches env (hstate p PARSER_STAGE_CUSTODIAN_EID_SCHEME b r ds sr rt cu l) (serialize_u16 v)
     (hstate p PARSER_STAGE_CUSTODIAN_EID_SSP b (r - of_nat (length (serialize_u16 v))) ds sr rt (cu\<lparr>ref_scheme := v\<rparr>) l)"
  using assms by (intro custodian_scheme_stage.field.field_reaches_any)
    (simp_all add: hstate_def idle_def stage_simps)

lemma reach_custodian_ssp:
  assumes "idle p" "length (serialize_u16 v) \<le> unat r"
  shows "reaches env (hstate p PARSER_STAGE_CUSTODIAN_EID_SSP b r ds sr rt cu l) (serialize_u16 v)
     (hstate p PARSER_STAGE_TIMESTAMP b (r - of_nat (length (serialize_u16 v))) ds sr rt (cu\<lparr>ref_ssp := v\<rparr>) l)"
  using assms by (intro custodian_ssp_stage.field.field_reaches_any)
    (simp_all add: hstate_def idle_def stage_simps)

lemma reach_timestamp:
  assumes "idle p" "length (serialize_u64 v) \<le> unat r"
  shows "reaches env (hstate p PARSER_STAGE_TIMESTAMP b r ds sr rt cu l) (serialize_u64 v)
     (hstate p PARSER_STAGE_SEQUENCE_NUM (b\<lparr>creation_timestamp_ms := v * 1000\<rparr>) (r - of_nat (length (serialize_u64 v))) ds sr rt cu l)"
  using assms by (intro timestamp_stage.field.field_reaches_any)
    (simp_all add: hstate_def idle_def stage_simps)

lemma reach_sequence:
  assumes "idle p" "length (serialize_u64 v) \<le> unat r"
  shows "reaches env (hstate p PARSER_STAGE_SEQUENCE_NUM b r ds sr rt cu l) (serialize_u64 v)
     (hstate p PARSER_STAGE_LIFETIME (b\<lparr>sequence_number := v\<rparr>) (r - of_nat (length (serialize_u64 v))) ds sr rt cu l)"
  using assms by (intro sequence_stage.field.field_reaches_any)
    (simp_all add: hstate_def idle_def stage_simps)

lemma reach_lifetime:
  assumes "idle p" "length (serialize_u64 v) \<le> unat r"
  shows "reaches env (hstate p PARSER_STAGE_LIFETIME b r ds sr rt cu l) (serialize_u64 v)
     (hstate p PARSER_STAGE_DICT_LENGTH (b\<lparr>lifetime_ms := v * 1000\<rparr>) (r - of_nat (length (serialize_u64 v))) ds sr rt cu l)"
  using assms by (intro lifetime_stage.field.field_reaches_any)
    (simp_all add: hstate_def idle_def stage_simps)

lemma reach_fragment_offset:
  assumes "idle p" "length (serialize_u32 v) \<le> unat r"
  shows "reaches env (hstate p PARSER_STAGE_FRAGMENT_OFFSET b r ds sr rt cu l) (serialize_u32 v)
     (hstate p PARSER_STAGE_ADU_LENGTH (b\<lparr>fragment_offset := v\<rparr>) (r - of_nat (length (serialize_u32 v))) ds sr rt cu l)"
  using assms by (intro fragment_offset_stage.field.field_reaches_any)
    (simp_all add: hstate_def idle_def stage_simps)

lemma reach_version:
  assumes "idle p"
  shows "reaches env (hstate p PARSER_STAGE_VERSION b r ds sr rt cu l) [v]
     (hstate p PARSER_STAGE_PROC_FLAGS (b\<lparr>protocol_version := v\<rparr>) (r - 1) ds sr rt cu l)"
  using assms by (intro reaches_byte) (simp_all add: hstate_def idle_def read_byte_room stage_byte_def stage_simps)

text \<open>The dictionary arrives byte by byte.\<close>

definition dict_partial :: "bundle6_parser \<Rightarrow> u8 list \<Rightarrow> u8 list \<Rightarrow> nat \<Rightarrow> bundle6_parser" where
  "dict_partial q region d k = q\<lparr>p6_index := of_nat k, p6_cur_remaining := p6_cur_remaining q - of_nat k,
     p6_primary_remaining := p6_primary_remaining q - of_nat k, p6_dict := Some (take k d @ drop k region)\<rparr>"

definition dict_ready :: "bundle6_parser \<Rightarrow> u8 list \<Rightarrow> u8 list \<Rightarrow> bool" where
  "dict_ready q region d \<longleftrightarrow> idle q \<and> p6_current_stage q = PARSER_STAGE_DICTIONARY \<and> p6_next_stage q = PARSER_STAGE_DICTIONARY
     \<and> p6_index q = 0 \<and> p6_cur_remaining q = of_nat (length d) \<and> p6_dict q = Some region \<and> length region = length d + 1
     \<and> d \<noteq> [] \<and> length d < 65536 \<and> length d \<le> unat (p6_primary_remaining q)"

lemma unat_u32_small: "n < 65536 \<Longrightarrow> unat (of_nat n :: u32) = n"
  by (simp add: unsigned_of_nat take_bit_nat_eq_self)

lemma dict_partial_store:
  assumes "dict_ready q region d" "k < length d"
  shows "memcpy_at (Some (take k d @ drop k region)) k [d ! k] = Inr (take (Suc k) d @ drop (Suc k) region)"
  using assms by (simp add: dict_ready_def memcpy_at_def take_Suc_conv_app_nth)

lemma dict_partial_reaches:
  assumes "dict_ready q region d" "k < length d"
  shows "reaches env q (take k d) (dict_partial q region d k)"
  using assms(2)
proof (induction k)
  case 0
  have "dict_partial q region d 0 = q" using assms(1) by (simp add: dict_partial_def dict_ready_def)
  then show ?case by (simp add: reaches_refl)
next
  case (Suc k)
  let ?q = "dict_partial q region d k"
  note a = assms(1)[unfolded dict_ready_def idle_def]
  have u: "unat (of_nat k :: u32) = k" using Suc.prems a by (simp add: unat_u32_small)
  have ne: "(of_nat (length d) - of_nat (Suc k) :: u32) \<noteq> 0"
  proof
    assume "(of_nat (length d) - of_nat (Suc k) :: u32) = 0"
    then have "unat (of_nat (length d) :: u32) = unat (of_nat (Suc k) :: u32)" by simp
    then show False using Suc.prems a unat_u32_small[of "length d"] unat_u32_small[of "Suc k"] by simp
  qed
  have room: "primary_room ?q 1"
    using a Suc.prems unat_sub_of_nat[of k "p6_primary_remaining q"] by (auto simp: primary_room_def dict_partial_def)
  have "stage_byte env (use_primary 1 ?q) (d ! k) = Inr (dict_partial q region d (Suc k))"
    using a Suc.prems dict_partial_store[OF assms(1), of k] u ne
    by (simp add: stage_byte_def dictionary_byte_def dict_partial_def use_primary_def Let_def algebra_simps)
  then have "bundle6_parser_read_byte env ?q (d ! k) = Inr (dict_partial q region d (Suc k))"
    using room a by (simp add: read_byte_room) (simp add: dict_partial_def)
  then have "reaches env ?q [d ! k] (dict_partial q region d (Suc k))"
    using a by (intro reaches_byte) (simp_all add: dict_partial_def)
  from reaches_trans[OF Suc.IH this] Suc.prems show ?case by (simp add: take_Suc_conv_app_nth)
qed

definition dict_complete :: "bundle6_parser \<Rightarrow> u8 list \<Rightarrow> bundle_t \<Rightarrow> bundle6_parser" where
  "dict_complete q d b = q\<lparr>p6_index := of_nat (length d) + 1, p6_cur_remaining := 0,
     p6_primary_remaining := p6_primary_remaining q - of_nat (length d), p6_dict := Some (d @ [0]), p6_bundle := Some b,
     p6_next_stage := (if bundle_is_fragmented b then PARSER_STAGE_FRAGMENT_OFFSET else PARSER_STAGE_BLOCK_TYPE)\<rparr>"

lemma reach_dictionary:
  assumes r: "dict_ready q region d" and "p6_bundle q = Some b" "p6_allocs q = []" "unat (p6_dict_length q) = length d"
    and "bundle6_read_eid (Some (d @ [0])) (length d) (p6_source_ref q) [] = Inr (Some src, [])"
    and "bundle6_read_eid (Some (d @ [0])) (length d) (p6_destination_ref q) [] = Inr (Some dst, [])"
    and "bundle6_read_eid (Some (d @ [0])) (length d) (p6_report_ref q) [] = Inr (Some rep, [])"
    and "bundle6_read_eid (Some (d @ [0])) (length d) (p6_custodian_ref q) [] = Inr (Some cus, [])"
    and "b1 = b\<lparr>source := Some src, destination := Some dst, report_to := Some rep, current_custodian := Some cus\<rparr>"
    and "bundle6_parser_next env (dict_complete q d b1) = Inr s"
  shows "reaches env q d s"
proof -
  note a = r[unfolded dict_ready_def idle_def]
  define k where "k = length d - 1"
  have k: "k < length d" "Suc k = length d" using a by (auto simp: k_def)
  let ?q = "dict_partial q region d k"
  have u: "unat (of_nat k :: u32) = k" "unat (of_nat (length d) :: u32) = length d" using k a by (simp_all add: unat_u32_small)
  have z: "(of_nat (length d) - of_nat (Suc k) :: u32) = 0" by (simp only: k) simp
  have room: "primary_room ?q 1"
    using a k unat_sub_of_nat[of k "p6_primary_remaining q"] by (auto simp: primary_room_def dict_partial_def)
  have st: "memcpy_at (Some (take k d @ drop k region)) k [d ! k] = Inr (d @ drop (length d) region)"
    using dict_partial_store[OF r k(1)] by (simp add: k(2))
  have st2: "memcpy_at (Some (d @ drop (length d) region)) (length d) [0] = Inr (d @ [0])"
    using a by (simp add: memcpy_at_def)
  have "stage_byte env (use_primary 1 ?q) (d ! k) = Inr (dict_complete q d b1)"
  proof -
    have e: "of_nat (length d) = (of_nat k + 1 :: u32)" "of_nat (length d) = (of_nat k + 1 :: u16)" by (simp_all flip: k(2))
    have v: "unat (of_nat k + 1 :: u32) = length d" using u(2) by (simp add: e)
    let ?p1 = "q\<lparr>p6_primary_remaining := p6_primary_remaining q - (of_nat k + 1), p6_cur_remaining := 0, p6_dict := Some (d @ [0]),
        p6_index := of_nat k + 1 + 1\<rparr>"
    have "stage_byte env (use_primary 1 ?q) (d ! k) = end_dictionary ?p1"
      using a u(1) v st st2 by (simp add: stage_byte_def dictionary_byte_def dict_partial_def use_primary_def Let_def e algebra_simps)
    also have "\<dots> = Inr (dict_complete q d b1)"
      using assms(2-9) by (simp add: end_dictionary_def dict_complete_def Let_def e)
    finally show ?thesis .
  qed
  then have "bundle6_parser_read_byte env ?q (d ! k) = Inr s"
    using room a assms(10) by (simp add: read_byte_room) (simp add: dict_complete_def)
  then have "reaches env ?q [d ! k] s" using a by (intro reaches_byte) (simp_all add: dict_partial_def)
  from reaches_trans[OF dict_partial_reaches[OF r k(1)] this] show ?thesis
    using k by (metis take_Suc_conv_app_nth take_all order_refl)
qed


text \<open>The dictionary length opens the dictionary, if the quota admits it.\<close>

definition dict_state :: "v6_env \<Rightarrow> bundle6_parser \<Rightarrow> sdnv_state \<Rightarrow> bundle6_parser" where
  "dict_state env h s = h\<lparr>p6_current_stage := PARSER_STAGE_DICTIONARY, p6_next_stage := PARSER_STAGE_DICTIONARY, p6_sdnv := s,
     p6_index := 0, p6_cur_remaining := ucast (p6_dict_length h), p6_size := p6_size h + (ucast (p6_dict_length h) + 1),
     p6_dict := Some (map (v6_region_junk env) [0..<unat (p6_dict_length h)] @ [0])\<rparr>"

lemma reach_dict_length:
  assumes "idle p" "length (serialize_u16 v) \<le> unat r" "v \<noteq> 0" "p6_size p + (ucast v + 1) \<le> v6_quota env" "p6_allocs p = []"
  shows "\<exists>s. reaches env (hstate p PARSER_STAGE_DICT_LENGTH b r ds sr rt cu l) (serialize_u16 v)
     (dict_state env (hstate p PARSER_STAGE_DICT_LENGTH b (r - of_nat (length (serialize_u16 v))) ds sr rt cu v) s)"
proof -
  let ?h = "hstate p PARSER_STAGE_DICT_LENGTH b r ds sr rt cu l"
  obtain s u where su: "sdnv_run sdnv_read_u16 (p6_dict_length ?h) (serialize_u16 v) = (s, u)"
    by (cases "sdnv_run sdnv_read_u16 (p6_dict_length ?h) (serialize_u16 v)")
  then have "u = v" using bytes16.bytes_done(2)[of "p6_dict_length ?h" v] by simp
  then have "dict_length_stage.field.complete ?h v
      = (use_primary (length (serialize_u16 v)) (?h\<lparr>p6_sdnv := s, p6_dict_length := v\<rparr>))\<lparr>p6_next_stage := PARSER_STAGE_DICTIONARY\<rparr>"
    unfolding dict_length_stage.field.complete_def dict_length_stage.field.partial_def using su by simp
  then have "bundle6_parser_next env (dict_length_stage.field.complete ?h v)
      = Inr (dict_state env (hstate p PARSER_STAGE_DICT_LENGTH b (r - of_nat (length (serialize_u16 v))) ds sr rt cu v) s)"
    using assms by (simp add: hstate_def idle_def stage_simps begin_dictionary_def dict_state_def Let_def not_less unat_ucast_up)
  then have "reaches env ?h (serialize_u16 v)
      (dict_state env (hstate p PARSER_STAGE_DICT_LENGTH b (r - of_nat (length (serialize_u16 v))) ds sr rt cu v) s)"
    using assms(1,2) by (intro dict_length_stage.field.field_reaches) (simp_all add: hstate_def idle_def stage_simps)
  then show ?thesis by blast
qed

text \<open>The states between the blocks.\<close>

definition at_blocks :: "bundle6_parser \<Rightarrow> bundle_t \<Rightarrow> bool" where
  "at_blocks p b \<longleftrightarrow> p6_status p = PARSER_STATUS_GOOD \<and> \<not> p6_bulk_read p \<and> p6_current_stage p = PARSER_STAGE_BLOCK_TYPE
     \<and> p6_next_stage p = PARSER_STAGE_BLOCK_TYPE \<and> p6_current_block p = PARSER_BLOCK_GENERIC \<and> p6_bundle p = Some b
     \<and> p6_entry p = length (blocks b) \<and> p6_allocs p = []"

lemma reach_adu_length:
  assumes "idle p" "length (serialize_u32 v) \<le> unat r" "p6_entry p = length (blocks b)" "p6_allocs p = []"
  shows "\<exists>q. reaches env (hstate p PARSER_STAGE_ADU_LENGTH b r ds sr rt cu l) (serialize_u32 v) q
     \<and> at_blocks q (b\<lparr>total_adu_length := v\<rparr>) \<and> p6_size q = p6_size p \<and> p6_sent q = p6_sent p"
proof -
  let ?h = "hstate p PARSER_STAGE_ADU_LENGTH b r ds sr rt cu l"
  obtain s u where su: "sdnv_run sdnv_read_u32 (total_adu_length b) (serialize_u32 v) = (s, u)"
    by (cases "sdnv_run sdnv_read_u32 (total_adu_length b) (serialize_u32 v)")
  then have "u = v" using bytes32.bytes_done(2)[of "total_adu_length b" v] by simp
  then have c: "adu_length_stage.field.complete ?h v
      = (use_primary (length (serialize_u32 v)) (set_bundle (\<lambda>b. b\<lparr>total_adu_length := v\<rparr>) (?h\<lparr>p6_sdnv := s\<rparr>)))\<lparr>p6_next_stage := PARSER_STAGE_BLOCK_TYPE\<rparr>"
    unfolding adu_length_stage.field.complete_def adu_length_stage.field.partial_def using su by (simp add: hstate_def)
  define q where "q = ((use_primary (length (serialize_u32 v)) (set_bundle (\<lambda>b. b\<lparr>total_adu_length := v\<rparr>) (?h\<lparr>p6_sdnv := s\<rparr>)))
     \<lparr>p6_next_stage := PARSER_STAGE_BLOCK_TYPE, p6_current_stage := PARSER_STAGE_BLOCK_TYPE, p6_current_block := PARSER_BLOCK_GENERIC\<rparr>)"
  have "bundle6_parser_next env (adu_length_stage.field.complete ?h v) = Inr q"
    using assms(1) by (simp add: c q_def bundle6_parser_next_def prepare_stage_def)
  then have "reaches env ?h (serialize_u32 v) q"
    using assms(1,2) by (intro adu_length_stage.field.field_reaches) (simp_all add: hstate_def idle_def stage_simps)
  moreover have "at_blocks q (b\<lparr>total_adu_length := v\<rparr>) \<and> p6_size q = p6_size p \<and> p6_sent q = p6_sent p"
    using assms by (simp add: at_blocks_def q_def hstate_def idle_def use_primary_def set_bundle_def)
  ultimately show ?thesis by blast
qed

end
