(* ===== verification/Bundle6_Roundtrip.thy ===== *)
theory Bundle6_Roundtrip
  imports Bundle6_Codec
begin

unbundle bit_operations_syntax

text \<open>
  The version 6 parser on the bytes of the version 6 serializer, second part: blocks, the primary block as a whole, and the round trip from
  a bundle over its bytes to the bundle the receiver hands on.
\<close>

section \<open>The other blocks\<close>

text \<open>Fields of the current block.\<close>

locale block_stage = sdnv_bytes rd bytes
  for rd :: "sdnv_state \<Rightarrow> 'v \<Rightarrow> u8 \<Rightarrow> sdnv_state \<times> 'v" and bytes :: "'v \<Rightarrow> u8 list" +
  fixes env :: v6_env
    and stage nxt :: bundle6_parser_stage
    and getk :: "bundle_block \<Rightarrow> 'v"
    and putk :: "'v \<Rightarrow> bundle_block \<Rightarrow> bundle_block"
    and post :: "bundle6_parser \<Rightarrow> bundle6_parser"
  assumes block_act: "p6_current_stage p = stage \<Longrightarrow> cur_block p \<noteq> None \<Longrightarrow> stage_byte env p byte =
       Inr (case read_field rd (\<lambda>p. getk (the (cur_block p))) (\<lambda>v. set_block (putk v)) nxt byte p of (done, q) \<Rightarrow> if done then post q else q)"
    and getk_putk: "getk (putk v k) = v"
    and putk_putk: "putk v (putk u k) = putk v k"
    and putk_getk: "putk (getk k) k = k"
    and blk_post_sel: "p6_current_stage (post p) = p6_current_stage p" "p6_status (post p) = p6_status p"
    and blk_post_next: "p6_next_stage p = nxt \<Longrightarrow> p6_next_stage (post p) \<noteq> stage"

lemma cur_block_simps [simp]:
  "cur_block (p\<lparr>p6_sdnv := s\<rparr>) = cur_block p" "cur_block (p\<lparr>p6_next_stage := st\<rparr>) = cur_block p" "cur_block (use_primary n p) = cur_block p"
  by (simp_all add: cur_block_def use_primary_def split: option.split)

lemma cur_block_set [simp]: "cur_block (set_block f p) = map_option f (cur_block p)"
  by (simp add: cur_block_def set_block_def set_bundle_def split: option.split)

lemma set_block_set: "set_block f (set_block g p) = set_block (\<lambda>k. f (g k)) p"
proof (cases "p6_bundle p")
  case (Some b)
  then show ?thesis by (cases "p6_entry p < length (blocks b)") (simp_all add: set_block_def set_bundle_def list_update_beyond not_less)
qed (simp add: set_block_def set_bundle_def)

lemma set_block_id: "cur_block p = Some k \<Longrightarrow> f k = k \<Longrightarrow> set_block f p = p"
  by (auto simp: cur_block_def set_block_def set_bundle_def split: option.splits if_splits)

sublocale block_stage \<subseteq> field: sdnv_stage rd bytes env stage nxt
  "\<lambda>p. getk (the (cur_block p))" "\<lambda>v. set_block (putk v)" post "\<lambda>p. cur_block p \<noteq> None"
proof unfold_locales
  fix p :: bundle6_parser and v
  assume "cur_block p \<noteq> None"
  then show "getk (the (cur_block (set_block (putk v) p))) = v" "set_block (putk (getk (the (cur_block p)))) p = p"
    by (auto simp: getk_putk putk_getk set_block_id)
qed (simp_all add: block_act set_block_set putk_putk blk_post_sel blk_post_next, simp_all add: set_block_def set_bundle_def use_primary_def)

definition after_flags :: "bundle6_parser \<Rightarrow> bundle6_parser" where
  "after_flags p = (let blk = the (cur_block p); p2 = p\<lparr>p6_last_block := HAS_FLAG (blk_flags blk) BUNDLE_V6_BLOCK_FLAG_LAST_BLOCK\<rparr> in
     if HAS_FLAG (blk_flags blk) BUNDLE_V6_BLOCK_FLAG_HAS_EID_REF_FIELD then p2\<lparr>p6_next_stage := PARSER_STAGE_BLOCK_EID_REF_CNT\<rparr> else p2)"

lemma low_byte:
  "ucast (((x :: u32) AND NOT 0xFF) OR ucast (v :: u8)) = v"
  "((x AND NOT 0xFF) OR ucast (u :: u8)) AND NOT 0xFF OR ucast v = (x AND NOT 0xFF) OR ucast v"
  "(x AND NOT 0xFF) OR ucast (ucast x :: u8) = x"
proof -
  show "ucast (((x :: u32) AND NOT 0xFF) OR ucast (v :: u8)) = v"
    by (rule bit_word_eqI) (auto simp: byte_masks bit_simps)
  show "((x AND NOT 0xFF) OR ucast (u :: u8)) AND NOT 0xFF OR ucast v = (x AND NOT 0xFF) OR ucast v"
    by (rule bit_word_eqI) (auto simp: byte_masks bit_simps dest: bit_imp_le_length)
  show "(x AND NOT 0xFF) OR ucast (ucast x :: u8) = x"
    by (rule bit_word_eqI) (auto simp: byte_masks bit_simps)
qed

lemma not_0xFF: "NOT (0xFF :: u32) = - 256"
  by simp

lemmas low_byte_minus = low_byte[unfolded not_0xFF]

interpretation flags_stage: block_stage sdnv_read_u8 "\<lambda>v. serialize_u32 (ucast v)" env PARSER_STAGE_BLOCK_FLAGS PARSER_STAGE_BLOCK_DATA_LENGTH
    "\<lambda>k. ucast (blk_flags k)" "\<lambda>v k. k\<lparr>blk_flags := (blk_flags k AND NOT 0xFF) OR ucast v\<rparr>" after_flags for env
proof unfold_locales
  fix p :: bundle6_parser and byte
  let ?r = "read_field sdnv_read_u8 (\<lambda>p. ucast (blk_flags (the (cur_block p))))
      (\<lambda>v. set_block (\<lambda>k. k\<lparr>blk_flags := (blk_flags k AND NOT 0xFF) OR ucast v\<rparr>)) PARSER_STAGE_BLOCK_DATA_LENGTH byte p"
  assume a: "p6_current_stage p = PARSER_STAGE_BLOCK_FLAGS" "cur_block p \<noteq> None"
  then obtain k where k: "cur_block p = Some k" by auto
  obtain dn q where r: "?r = (dn, q)" by (cases ?r)
  have "cur_block q \<noteq> None"
    using r k by (auto simp: read_field_def bundle6_parser_wait_for_sdnv_def split: prod.splits sdnv_status.splits)
      (auto simp: cur_block_def set_block_def set_bundle_def split: option.splits if_splits)
  then show "stage_byte env p byte = Inr (case ?r of (done, q) \<Rightarrow> if done then after_flags q else q)"
    using a k r by (auto simp: stage_byte_def block_flags_byte_def after_flags_def Let_def split: bool.split)
qed (simp_all add: low_byte_minus, simp_all add: after_flags_def Let_def)

interpretation data_length_stage: block_stage sdnv_read_u32 serialize_u32 env PARSER_STAGE_BLOCK_DATA_LENGTH PARSER_STAGE_BLOCK_DATA
    blk_length "\<lambda>v k. k\<lparr>blk_length := v\<rparr>" "\<lambda>p. p" for env
  by unfold_locales (auto simp: stage_byte_def case_prod_beta)

text \<open>A block as the receiver rebuilds it.\<close>

definition received_block :: "v6_env \<Rightarrow> bundle_block \<Rightarrow> bundle_block" where
  "received_block env k = (v6_block_junk env)\<lparr>blk_type := blk_type k,
     blk_number := (if blk_type k = BUNDLE_BLOCK_TYPE_PAYLOAD then 1 else 0), blk_flags := blk_flags k, blk_eid_refs := [],
     blk_crc_type := BUNDLE_CRC_TYPE_NONE, blk_length := blk_length k, blk_data := blk_data k\<rparr>"

definition add_block :: "v6_env \<Rightarrow> bundle_block \<Rightarrow> bundle_t \<Rightarrow> bundle_t" where
  "add_block env k b = b\<lparr>blocks := blocks b @ [received_block env k],
     payload_block := (if blk_type k = BUNDLE_BLOCK_TYPE_PAYLOAD then Some (length (blocks b)) else payload_block b)\<rparr>"

text \<open>Blocks version 6 can carry without loss: type and flags in one byte, no references, data as long as the length says.\<close>

definition plain_block :: "bundle_block \<Rightarrow> bool" where
  "plain_block k \<longleftrightarrow> blk_type k < 256 \<and> blk_flags k < 256 \<and> \<not> HAS_FLAG (blk_flags k) BUNDLE_V6_BLOCK_FLAG_HAS_EID_REF_FIELD
     \<and> blk_eid_refs k = [] \<and> map_option length (blk_data k) = Some (unat (blk_length k))"

text \<open>Inside a block: the fields read so far are those of \<open>k\<close>.\<close>

definition in_block :: "bundle6_parser \<Rightarrow> bundle6_parser_stage \<Rightarrow> bundle_t \<Rightarrow> bundle_block \<Rightarrow> bool" where
  "in_block p st b k \<longleftrightarrow> p6_status p = PARSER_STATUS_GOOD \<and> \<not> p6_bulk_read p \<and> p6_current_stage p = st \<and> p6_next_stage p = st
     \<and> p6_sdnv p = sdnv_reset \<and> p6_current_block p \<noteq> PARSER_BLOCK_PRIMARY \<and> p6_bundle p = Some (b\<lparr>blocks := blocks b @ [k]\<rparr>)
     \<and> p6_entry p = length (blocks b) \<and> p6_allocs p = []"

lemma ucast_small: "w < 256 \<Longrightarrow> ucast (ucast (w :: u32) :: u8) = w"
proof -
  assume "w < 256"
  then have "unat w < 256" by (simp add: word_less_nat_alt)
  then show ?thesis by (simp add: word_unat_eq_iff unsigned_ucast_eq unsigned_take_bit_eq take_bit_nat_eq_self)
qed

lemma reach_block_type:
  fixes env :: v6_env and b :: bundle_t and t :: u32
  assumes "at_blocks p b" "t < 256"
  defines "b1 \<equiv> b\<lparr>payload_block := (if t = BUNDLE_BLOCK_TYPE_PAYLOAD then Some (length (blocks b)) else payload_block b)\<rparr>"
    and "k \<equiv> (v6_block_junk env)\<lparr>blk_type := t, blk_number := (if t = BUNDLE_BLOCK_TYPE_PAYLOAD then 1 else 0),
       blk_flags := BUNDLE_BLOCK_FLAG_NONE, blk_eid_refs := [], blk_crc_type := BUNDLE_CRC_TYPE_NONE, blk_length := 0, blk_data := None\<rparr>"
  shows "\<exists>q. reaches env p [ucast t] q \<and> in_block q PARSER_STAGE_BLOCK_FLAGS b1 k \<and> p6_size q = p6_size p \<and> p6_sent q = p6_sent p"
proof -
  note a = assms(1)[unfolded at_blocks_def]
  define q where "q = p\<lparr>p6_current_stage := PARSER_STAGE_BLOCK_FLAGS, p6_next_stage := PARSER_STAGE_BLOCK_FLAGS, p6_sdnv := sdnv_reset,
     p6_current_block := (if t = BUNDLE_BLOCK_TYPE_PAYLOAD then PARSER_BLOCK_PAYLOAD else PARSER_BLOCK_EXTENSION),
     p6_bundle := Some (b1\<lparr>blocks := blocks b @ [k]\<rparr>)\<rparr>"
  have "bundle6_parser_read_byte env p (ucast t) = Inr q"
    using a ucast_small[OF assms(2)]
    by (simp add: bundle6_parser_read_byte_def stage_byte_def bundle6_parser_begin_block_def bundle_block_create_def
        bundle_block_entry_create_def bundle6_parser_next_def prepare_stage_def q_def b1_def k_def Let_def)
  then have "reaches env p [ucast t] q" using a by (intro reaches_byte) simp_all
  moreover have "in_block q PARSER_STAGE_BLOCK_FLAGS b1 k \<and> p6_size q = p6_size p \<and> p6_sent q = p6_sent p"
    using a by (simp add: in_block_def q_def b1_def)
  ultimately show ?thesis by blast
qed

lemma in_block_cur: "in_block p st b k \<Longrightarrow> cur_block p = Some k"
  by (simp add: in_block_def cur_block_def)

lemma in_block_room: "in_block p st b k \<Longrightarrow> primary_room p n \<and> use_primary m p = p"
  by (simp add: in_block_def primary_room_def use_primary_def)

lemma reach_block_flags:
  assumes "in_block p PARSER_STAGE_BLOCK_FLAGS b k" "f < 256" "blk_flags k = 0" "\<not> HAS_FLAG f BUNDLE_V6_BLOCK_FLAG_HAS_EID_REF_FIELD"
  shows "\<exists>q. reaches env p (serialize_u32 f) q \<and> in_block q PARSER_STAGE_BLOCK_DATA_LENGTH b (k\<lparr>blk_flags := f\<rparr>)
     \<and> p6_last_block q = HAS_FLAG f BUNDLE_V6_BLOCK_FLAG_LAST_BLOCK \<and> p6_size q = p6_size p \<and> p6_sent q = p6_sent p"
proof -
  note a = assms(1)[unfolded in_block_def]
  define q where "q = p\<lparr>p6_current_stage := PARSER_STAGE_BLOCK_DATA_LENGTH, p6_next_stage := PARSER_STAGE_BLOCK_DATA_LENGTH,
     p6_last_block := HAS_FLAG f BUNDLE_V6_BLOCK_FLAG_LAST_BLOCK, p6_bundle := Some (b\<lparr>blocks := blocks b @ [k\<lparr>blk_flags := f\<rparr>]\<rparr>)\<rparr>"
  have "reaches env p (serialize_u32 (ucast (ucast f :: u8))) q"
  proof (rule flags_stage.field.field_reaches_any)
    fix s
    let ?p = "set_block (\<lambda>k. k\<lparr>blk_flags := (blk_flags k AND NOT 0xFF) OR ucast (ucast f :: u8)\<rparr>) (p\<lparr>p6_sdnv := s\<rparr>)"
    have sb: "?p = p\<lparr>p6_sdnv := s, p6_bundle := Some (b\<lparr>blocks := blocks b @ [k\<lparr>blk_flags := f\<rparr>]\<rparr>)\<rparr>"
      using a assms(3) ucast_small[OF assms(2)] by (simp add: set_block_def set_bundle_def list_update_append)
    have up: "use_primary n (p\<lparr>p6_sdnv := s, p6_bundle := bo\<rparr>) = p\<lparr>p6_sdnv := s, p6_bundle := bo\<rparr>" for n bo
      using a by (simp add: use_primary_def)
    show "bundle6_parser_next env (after_flags ((use_primary (length (serialize_u32 (ucast (ucast f :: u8)))) ?p)\<lparr>p6_next_stage := PARSER_STAGE_BLOCK_DATA_LENGTH\<rparr>)) = Inr q"
      unfolding sb up using a assms(4)
      by (simp add: after_flags_def cur_block_def Let_def bundle6_parser_next_def prepare_stage_def q_def)
  qed (use a in_block_cur[OF assms(1)] in_block_room[OF assms(1)] in auto)
  then have "reaches env p (serialize_u32 f) q" by (simp only: ucast_small[OF assms(2)])
  moreover have "in_block q PARSER_STAGE_BLOCK_DATA_LENGTH b (k\<lparr>blk_flags := f\<rparr>)
     \<and> p6_last_block q = HAS_FLAG f BUNDLE_V6_BLOCK_FLAG_LAST_BLOCK \<and> p6_size q = p6_size p \<and> p6_sent q = p6_sent p"
    using a by (simp add: in_block_def q_def)
  ultimately show ?thesis by blast
qed

text \<open>After the length, the region for the data exists and the bulk mode is on.\<close>

definition at_data :: "bundle6_parser \<Rightarrow> bundle_t \<Rightarrow> bundle_block \<Rightarrow> u8 list \<Rightarrow> bool" where
  "at_data p b k region \<longleftrightarrow> p6_status p = PARSER_STATUS_GOOD \<and> p6_bulk_read p \<and> p6_current_stage p = PARSER_STAGE_BLOCK_DATA
     \<and> p6_next_stage p = PARSER_STAGE_BLOCK_DATA \<and> p6_current_block p \<noteq> PARSER_BLOCK_PRIMARY
     \<and> p6_bundle p = Some (b\<lparr>blocks := blocks b @ [k\<lparr>blk_data := Some region\<rparr>]\<rparr>) \<and> p6_entry p = length (blocks b) \<and> p6_allocs p = []
     \<and> p6_cur_remaining p = 0 \<and> p6_next_bytes p = length region"

lemma reach_data_length:
  assumes "in_block p PARSER_STAGE_BLOCK_DATA_LENGTH b k" "p6_size p + n \<le> v6_quota env"
  shows "\<exists>q. reaches env p (serialize_u32 n) q \<and> at_data q b (k\<lparr>blk_length := n\<rparr>) (map (v6_region_junk env) [0..<unat n])
     \<and> p6_last_block q = p6_last_block p \<and> p6_size q = p6_size p + n \<and> p6_sent q = p6_sent p"
proof -
  note a = assms(1)[unfolded in_block_def]
  let ?region = "map (v6_region_junk env) [0..<unat n]"
  let ?b = "b\<lparr>blocks := blocks b @ [k\<lparr>blk_length := n\<rparr>]\<rparr>"
  obtain s u where su: "sdnv_run sdnv_read_u32 (blk_length k) (serialize_u32 n) = (s, u)"
    by (cases "sdnv_run sdnv_read_u32 (blk_length k) (serialize_u32 n)")
  have "u = n" using su bytes32.bytes_done(2)[of "blk_length k" n] by simp
  have sb: "set_block (\<lambda>k. k\<lparr>blk_length := n\<rparr>) (p\<lparr>p6_sdnv := s\<rparr>) = p\<lparr>p6_sdnv := s, p6_bundle := Some ?b\<rparr>"
    using a by (simp add: set_block_def set_bundle_def list_update_append)
  have c: "data_length_stage.field.complete p n = p\<lparr>p6_sdnv := s, p6_bundle := Some ?b, p6_next_stage := PARSER_STAGE_BLOCK_DATA\<rparr>"
    unfolding data_length_stage.field.complete_def data_length_stage.field.partial_def
    using su \<open>u = n\<close> in_block_cur[OF assms(1)] a by (simp add: sb use_primary_def)
  define q where "q = p\<lparr>p6_sdnv := s, p6_bundle := Some (b\<lparr>blocks := blocks b @ [k\<lparr>blk_length := n, blk_data := Some ?region\<rparr>]\<rparr>),
     p6_next_stage := PARSER_STAGE_BLOCK_DATA, p6_current_stage := PARSER_STAGE_BLOCK_DATA, p6_index := 0, p6_cur_remaining := 0,
     p6_next_bytes := unat n, p6_size := p6_size p + n, p6_bulk_read := True\<rparr>"
  have "bundle6_parser_next env (data_length_stage.field.complete p n) = Inr q"
    unfolding c using a assms(2)
    by (simp add: bundle6_parser_next_def prepare_stage_def begin_block_data_def cur_block_def set_block_def set_bundle_def Let_def not_less
        list_update_append q_def)
  then have "reaches env p (serialize_u32 n) q"
    using a in_block_cur[OF assms(1)] in_block_room[OF assms(1)] by (intro data_length_stage.field.field_reaches) auto
  moreover have "at_data q b (k\<lparr>blk_length := n\<rparr>) ?region \<and> p6_last_block q = p6_last_block p \<and> p6_size q = p6_size p + n \<and> p6_sent q = p6_sent p"
    using a by (simp add: at_data_def q_def)
  ultimately show ?thesis by blast
qed


lemma reach_data:
  assumes "at_data p b k region" "length d = length region" "d @ rest \<noteq> []"
  shows "\<exists>q. read_loop env p (pre @ d @ rest) (length pre) = bindE (bundle6_parser_read_byte env q 0) (\<lambda>r.
       read_loop env r (pre @ d @ rest) (length pre + p6_next_bytes r))
     \<and> q = p\<lparr>p6_bulk_read := False, p6_bundle := Some (b\<lparr>blocks := blocks b @ [k\<lparr>blk_data := Some d\<rparr>]\<rparr>)\<rparr>"
proof -
  note a = assms(1)[unfolded at_data_def]
  let ?q = "p\<lparr>p6_bulk_read := False, p6_bundle := Some (b\<lparr>blocks := blocks b @ [k\<lparr>blk_data := Some d\<rparr>]\<rparr>)\<rparr>"
  have "bulk_copy p d = Inr ?q"
    using a assms(2) by (simp add: bulk_copy_def cur_block_def memcpy_at_def set_block_def set_bundle_def list_update_append)
  then have "read_loop env p (pre @ d @ rest) (length pre) = bindE (bundle6_parser_read_byte env ?q 0) (\<lambda>r.
       read_loop env r (pre @ d @ rest) (length pre + p6_next_bytes r))"
    using a assms(2,3) by (subst read_loop.simps) auto
  then show ?thesis by blast
qed

lemma reach_data_more:
  assumes "at_data p b k region" "length d = length region" "\<not> p6_last_block p"
  shows "\<exists>q. reaches_more env p d q \<and> at_blocks q (b\<lparr>blocks := blocks b @ [k\<lparr>blk_data := Some d\<rparr>]\<rparr>)
     \<and> p6_size q = p6_size p \<and> p6_sent q = p6_sent p"
proof -
  note a = assms(1)[unfolded at_data_def]
  let ?p = "p\<lparr>p6_bulk_read := False, p6_bundle := Some (b\<lparr>blocks := blocks b @ [k\<lparr>blk_data := Some d\<rparr>]\<rparr>)\<rparr>"
  define q where "q = ?p\<lparr>p6_entry := p6_entry p + 1, p6_next_stage := PARSER_STAGE_BLOCK_TYPE, p6_current_stage := PARSER_STAGE_BLOCK_TYPE,
     p6_current_block := PARSER_BLOCK_GENERIC\<rparr>"
  have r: "bundle6_parser_read_byte env ?p 0 = Inr q"
    using a assms(3) by (simp add: bundle6_parser_read_byte_def stage_byte_def block_data_byte_def bundle6_parser_end_block_def
        bundle6_parser_next_def prepare_stage_def q_def Let_def)
  have "reaches_more env p d q"
    unfolding reaches_more_def
  proof (intro allI impI)
    fix pre rest :: "u8 list" assume "rest \<noteq> []"
    then show "read_loop env p (pre @ d @ rest) (length pre) = read_loop env q (pre @ d @ rest) (length pre + length d)"
      using reach_data[OF assms(1,2), of rest env pre] r a assms(2) by (auto simp: q_def)
  qed
  moreover have "at_blocks q (b\<lparr>blocks := blocks b @ [k\<lparr>blk_data := Some d\<rparr>]\<rparr>) \<and> p6_size q = p6_size p \<and> p6_sent q = p6_sent p"
    using a by (simp add: at_blocks_def q_def)
  ultimately show ?thesis by blast
qed

lemma reach_data_last:
  assumes "at_data p b k region" "length d = length region" "p6_last_block p" "d \<noteq> []" "v6_callback env" "payload_block b \<noteq> None"
  shows "\<exists>q. reaches env p d q \<and> p6_status q = PARSER_STATUS_DONE \<and> p6_bundle q = None
     \<and> p6_sent q = p6_sent p @ [b\<lparr>blocks := blocks b @ [k\<lparr>blk_data := Some d\<rparr>]\<rparr>]"
proof -
  note a = assms(1)[unfolded at_data_def]
  let ?b = "b\<lparr>blocks := blocks b @ [k\<lparr>blk_data := Some d\<rparr>]\<rparr>"
  let ?p = "p\<lparr>p6_bulk_read := False, p6_bundle := Some ?b\<rparr>"
  define q where "q = ?p\<lparr>p6_entry := p6_entry p + 1, p6_next_stage := PARSER_STAGE_DONE, p6_current_stage := PARSER_STAGE_DONE,
     p6_status := PARSER_STATUS_DONE, p6_bundle := None, p6_sent := p6_sent p @ [?b]\<rparr>"
  have r: "bundle6_parser_read_byte env ?p 0 = Inr q"
    using a assms(3,5,6) by (simp add: bundle6_parser_read_byte_def stage_byte_def block_data_byte_def bundle6_parser_end_block_def
        bundle6_parser_next_def prepare_stage_def bundle6_parser_send_bundle_def bundle_is_valid_def q_def Let_def)
  have "reaches env p d q"
    unfolding reaches_def
  proof (intro allI)
    fix pre rest :: "u8 list"
    show "read_loop env p (pre @ d @ rest) (length pre) = read_loop env q (pre @ d @ rest) (length pre + length d)"
      using reach_data[OF assms(1,2), of rest env pre] assms(4) r a assms(2) by (auto simp: q_def)
  qed
  then show ?thesis by (auto simp: q_def)
qed

text \<open>A whole block.\<close>

definition block_bytes :: "bundle_block \<Rightarrow> u8 list" where
  "block_bytes k = [ucast (blk_type k)] @ serialize_u32 (blk_flags k) @ serialize_u32 (blk_length k) @ the (blk_data k)"

lemma reach_block_header:
  assumes "at_blocks p b" "plain_block k" "p6_size p + blk_length k \<le> v6_quota env"
  shows "\<exists>q. reaches env p ([ucast (blk_type k)] @ serialize_u32 (blk_flags k) @ serialize_u32 (blk_length k)) q
     \<and> at_data q (b\<lparr>payload_block := (if blk_type k = BUNDLE_BLOCK_TYPE_PAYLOAD then Some (length (blocks b)) else payload_block b)\<rparr>)
         ((received_block env k)\<lparr>blk_data := None\<rparr>) (map (v6_region_junk env) [0..<unat (blk_length k)])
     \<and> p6_last_block q = HAS_FLAG (blk_flags k) BUNDLE_V6_BLOCK_FLAG_LAST_BLOCK \<and> p6_size q = p6_size p + blk_length k \<and> p6_sent q = p6_sent p"
proof -
  let ?b = "b\<lparr>payload_block := (if blk_type k = BUNDLE_BLOCK_TYPE_PAYLOAD then Some (length (blocks b)) else payload_block b)\<rparr>"
  let ?k = "(v6_block_junk env)\<lparr>blk_type := blk_type k, blk_number := (if blk_type k = BUNDLE_BLOCK_TYPE_PAYLOAD then 1 else 0),
       blk_flags := BUNDLE_BLOCK_FLAG_NONE, blk_eid_refs := [], blk_crc_type := BUNDLE_CRC_TYPE_NONE, blk_length := 0, blk_data := None\<rparr>"
  note pb = assms(2)[unfolded plain_block_def]
  obtain q1 where q1: "reaches env p [ucast (blk_type k)] q1" "in_block q1 PARSER_STAGE_BLOCK_FLAGS ?b ?k" "p6_size q1 = p6_size p" "p6_sent q1 = p6_sent p"
    using reach_block_type[OF assms(1), of "blk_type k" env] pb by auto
  obtain q2 where q2: "reaches env q1 (serialize_u32 (blk_flags k)) q2" "in_block q2 PARSER_STAGE_BLOCK_DATA_LENGTH ?b (?k\<lparr>blk_flags := blk_flags k\<rparr>)"
      "p6_last_block q2 = HAS_FLAG (blk_flags k) BUNDLE_V6_BLOCK_FLAG_LAST_BLOCK" "p6_size q2 = p6_size q1" "p6_sent q2 = p6_sent q1"
    using reach_block_flags[OF q1(2), of "blk_flags k" env] pb by (auto simp: BUNDLE_BLOCK_FLAG_NONE_def)
  obtain q3 where q3: "reaches env q2 (serialize_u32 (blk_length k)) q3"
      "at_data q3 ?b (?k\<lparr>blk_flags := blk_flags k, blk_length := blk_length k\<rparr>) (map (v6_region_junk env) [0..<unat (blk_length k)])"
      "p6_last_block q3 = p6_last_block q2" "p6_size q3 = p6_size q2 + blk_length k" "p6_sent q3 = p6_sent q2"
    using reach_data_length[OF q2(2), of "blk_length k" env] assms(3) q1(3) q2(4) by auto
  have "?k\<lparr>blk_flags := blk_flags k, blk_length := blk_length k\<rparr> = (received_block env k)\<lparr>blk_data := None\<rparr>"
    by (simp add: received_block_def)
  then show ?thesis using reaches_trans[OF q1(1) reaches_trans[OF q2(1) q3(1)]] q1 q2 q3 by auto
qed

lemma received_block_data: "((received_block env k)\<lparr>blk_data := None\<rparr>)\<lparr>blk_data := blk_data k\<rparr> = received_block env k"
  by (simp add: received_block_def)

lemma reach_block_more:
  assumes "at_blocks p b" "plain_block k" "p6_size p + blk_length k \<le> v6_quota env" "\<not> HAS_FLAG (blk_flags k) BUNDLE_V6_BLOCK_FLAG_LAST_BLOCK"
  shows "\<exists>q. reaches_more env p (block_bytes k) q \<and> at_blocks q (add_block env k b) \<and> p6_size q = p6_size p + blk_length k \<and> p6_sent q = p6_sent p"
proof -
  let ?b = "b\<lparr>payload_block := (if blk_type k = BUNDLE_BLOCK_TYPE_PAYLOAD then Some (length (blocks b)) else payload_block b)\<rparr>"
  obtain d where d: "blk_data k = Some d" "length d = unat (blk_length k)" using assms(2) by (auto simp: plain_block_def)
  obtain q where q: "reaches env p ([ucast (blk_type k)] @ serialize_u32 (blk_flags k) @ serialize_u32 (blk_length k)) q"
     "at_data q ?b ((received_block env k)\<lparr>blk_data := None\<rparr>) (map (v6_region_junk env) [0..<unat (blk_length k)])"
     "p6_last_block q = HAS_FLAG (blk_flags k) BUNDLE_V6_BLOCK_FLAG_LAST_BLOCK" "p6_size q = p6_size p + blk_length k" "p6_sent q = p6_sent p"
    using reach_block_header[OF assms(1-3)] by auto
  obtain r where r: "reaches_more env q d r" "at_blocks r (?b\<lparr>blocks := blocks ?b @ [(received_block env k)\<lparr>blk_data := Some d\<rparr>]\<rparr>)"
      "p6_size r = p6_size q" "p6_sent r = p6_sent q"
    using reach_data_more[OF q(2), of d env] d q(3) assms(4) by auto
  have "?b\<lparr>blocks := blocks ?b @ [(received_block env k)\<lparr>blk_data := Some d\<rparr>]\<rparr> = add_block env k b"
    using received_block_data[of k env] d(1) by (simp add: add_block_def)
  then have "at_blocks r (add_block env k b)" using r(2) by (simp only:)
  then show ?thesis using reaches_more_trans[OF q(1) r(1)] q r d(1) by (auto simp: block_bytes_def)
qed

lemma reach_block_last:
  assumes "at_blocks p b" "plain_block k" "p6_size p + blk_length k \<le> v6_quota env" "HAS_FLAG (blk_flags k) BUNDLE_V6_BLOCK_FLAG_LAST_BLOCK"
    and "blk_length k \<noteq> 0" "v6_callback env" "payload_block (add_block env k b) \<noteq> None"
  shows "\<exists>q. reaches env p (block_bytes k) q \<and> p6_status q = PARSER_STATUS_DONE \<and> p6_bundle q = None \<and> p6_sent q = p6_sent p @ [add_block env k b]"
proof -
  let ?b = "b\<lparr>payload_block := (if blk_type k = BUNDLE_BLOCK_TYPE_PAYLOAD then Some (length (blocks b)) else payload_block b)\<rparr>"
  obtain d where d: "blk_data k = Some d" "length d = unat (blk_length k)" using assms(2) by (auto simp: plain_block_def)
  then have "d \<noteq> []" using assms(5) by (auto simp: unat_eq_zero)
  obtain q where q: "reaches env p ([ucast (blk_type k)] @ serialize_u32 (blk_flags k) @ serialize_u32 (blk_length k)) q"
     "at_data q ?b ((received_block env k)\<lparr>blk_data := None\<rparr>) (map (v6_region_junk env) [0..<unat (blk_length k)])"
     "p6_last_block q = HAS_FLAG (blk_flags k) BUNDLE_V6_BLOCK_FLAG_LAST_BLOCK" "p6_sent q = p6_sent p"
    using reach_block_header[OF assms(1-3)] by auto
  have b': "?b\<lparr>blocks := blocks ?b @ [(received_block env k)\<lparr>blk_data := Some d\<rparr>]\<rparr> = add_block env k b"
    using received_block_data[of k env] d(1) by (simp add: add_block_def)
  have pb: "payload_block ?b \<noteq> None" using assms(7) by (simp add: add_block_def split: if_splits)
  obtain r where r: "reaches env q d r" "p6_status r = PARSER_STATUS_DONE" "p6_bundle r = None" "p6_sent r = p6_sent q @ [add_block env k b]"
    using reach_data_last[OF q(2), of d env] d q(3) assms(4,6) pb \<open>d \<noteq> []\<close> b' by auto
  show ?thesis using reaches_trans[OF q(1) r(1)] q r d(1) by (auto simp: block_bytes_def)
qed

text \<open>All blocks, one after the other.\<close>

definition add_blocks :: "v6_env \<Rightarrow> bundle_block list \<Rightarrow> bundle_t \<Rightarrow> bundle_t" where
  "add_blocks env bs b = foldl (\<lambda>b k. add_block env k b) b bs"

definition blocks_bytes :: "bundle_block list \<Rightarrow> u8 list" where
  "blocks_bytes bs = concat (map block_bytes bs)"

definition data_size :: "bundle_block list \<Rightarrow> nat" where
  "data_size bs = sum_list (map (\<lambda>k. unat (blk_length k)) bs)"

definition last_marked :: "bundle_block list \<Rightarrow> bool" where
  "last_marked bs \<longleftrightarrow> bs \<noteq> [] \<and> list_all (\<lambda>k. \<not> HAS_FLAG (blk_flags k) BUNDLE_V6_BLOCK_FLAG_LAST_BLOCK) (butlast bs)
     \<and> HAS_FLAG (blk_flags (last bs)) BUNDLE_V6_BLOCK_FLAG_LAST_BLOCK"

lemma size_no_wrap:
  assumes "unat (s :: u32) + unat n + m \<le> unat q"
  shows "s + n \<le> q" "unat (s + n) = unat s + unat n"
proof -
  have "unat s + unat n < 2 ^ 32" using assms unat_max(3)[of q] by linarith
  then show u: "unat (s + n) = unat s + unat n" by (simp add: unat_word_ariths)
  then show "s + n \<le> q" using assms by (simp add: word_le_nat_alt)
qed

lemma reach_blocks:
  assumes "at_blocks p b" "list_all plain_block bs" "last_marked bs" "blk_length (last bs) \<noteq> 0" "v6_callback env"
    and "unat (p6_size p) + data_size bs \<le> unat (v6_quota env)" "payload_block (add_blocks env bs b) \<noteq> None"
  shows "\<exists>q. reaches env p (blocks_bytes bs) q \<and> p6_status q = PARSER_STATUS_DONE \<and> p6_sent q = p6_sent p @ [add_blocks env bs b]"
  using assms
proof (induction bs arbitrary: p b)
  case Nil
  then show ?case by (simp add: last_marked_def)
next
  case (Cons k bs)
  have n: "p6_size p + blk_length k \<le> v6_quota env" "unat (p6_size p + blk_length k) = unat (p6_size p) + unat (blk_length k)"
    using size_no_wrap[of "p6_size p" "blk_length k" "data_size bs" "v6_quota env"] Cons.prems(6) by (simp_all add: data_size_def)
  show ?case
  proof (cases "bs = []")
    case True
    then show ?thesis
      using reach_block_last[OF Cons.prems(1) _ n(1)] Cons.prems by (auto simp: blocks_bytes_def add_blocks_def last_marked_def)
  next
    case False
    obtain q where q: "reaches_more env p (block_bytes k) q" "at_blocks q (add_block env k b)" "p6_size q = p6_size p + blk_length k" "p6_sent q = p6_sent p"
      using reach_block_more[OF Cons.prems(1) _ n(1)] Cons.prems(2,3) False by (auto simp: last_marked_def)
    have "unat (p6_size q) + data_size bs \<le> unat (v6_quota env)" using Cons.prems(6) n(2) q(3) by (simp add: data_size_def)
    moreover have "payload_block (add_blocks env bs (add_block env k b)) \<noteq> None" using Cons.prems(7) by (simp add: add_blocks_def)
    ultimately obtain r where r: "reaches env q (blocks_bytes bs) r" "p6_status r = PARSER_STATUS_DONE"
        "p6_sent r = p6_sent q @ [add_blocks env bs (add_block env k b)]"
      using Cons.IH[OF q(2)] Cons.prems(2-5) False by (auto simp: last_marked_def)
    have "blocks_bytes bs \<noteq> []" using False by (cases bs) (simp_all add: blocks_bytes_def block_bytes_def)
    from reaches_more_reaches[OF q(1) r(1) this] r q show ?thesis by (auto simp: blocks_bytes_def add_blocks_def)
  qed
qed

lemma add_blocks_fields:
  "blocks (add_blocks env bs b) = blocks b @ map (received_block env) bs"
  "add_blocks env bs b = b\<lparr>blocks := blocks b @ map (received_block env) bs, payload_block := payload_block (add_blocks env bs b)\<rparr>"
proof (induction bs arbitrary: b)
  case Nil
  {
    case 1
    then show ?case by (simp add: add_blocks_def)
  next
    case 2
    then show ?case by (simp add: add_blocks_def)
  }
next
  case (Cons k bs)
  {
    case 1
    then show ?case using Cons.IH(1)[of "add_block env k b"] by (simp add: add_blocks_def add_block_def)
  next
    case 2
    then show ?case using Cons.IH(2)[of "add_block env k b"] by (simp add: add_blocks_def add_block_def)
  }
qed

lemma add_blocks_append: "add_blocks env (xs @ ys) b = add_blocks env ys (add_blocks env xs b)"
  by (simp add: add_blocks_def)

lemma add_blocks_no_payload:
  "\<forall>k\<in>set bs. blk_type k \<noteq> BUNDLE_BLOCK_TYPE_PAYLOAD \<Longrightarrow> payload_block (add_blocks env bs b) = payload_block b"
  by (induction bs arbitrary: b) (simp_all add: add_blocks_def add_block_def)

text \<open>The payload pointer leads to the only block of the payload type.\<close>

definition one_payload :: "bundle_t \<Rightarrow> bool" where
  "one_payload b \<longleftrightarrow> (case payload_block b of None \<Rightarrow> False | Some i \<Rightarrow> i < length (blocks b) \<and> blk_type (blocks b ! i) = BUNDLE_BLOCK_TYPE_PAYLOAD
     \<and> (\<forall>k\<in>set (take i (blocks b)) \<union> set (drop (Suc i) (blocks b)). blk_type k \<noteq> BUNDLE_BLOCK_TYPE_PAYLOAD))"

lemma add_blocks_payload:
  assumes "one_payload b" "blocks b0 = []"
  shows "payload_block (add_blocks env (blocks b) b0) = payload_block b" "payload_block b \<noteq> None"
proof -
  obtain i where i: "payload_block b = Some i" "i < length (blocks b)" "blk_type (blocks b ! i) = BUNDLE_BLOCK_TYPE_PAYLOAD"
      "\<forall>k\<in>set (take i (blocks b)). blk_type k \<noteq> BUNDLE_BLOCK_TYPE_PAYLOAD" "\<forall>k\<in>set (drop (Suc i) (blocks b)). blk_type k \<noteq> BUNDLE_BLOCK_TYPE_PAYLOAD"
    using assms(1) by (auto simp: one_payload_def split: option.splits)
  let ?b1 = "add_blocks env (take i (blocks b)) b0"
  have "blocks b = take i (blocks b) @ [blocks b ! i] @ drop (Suc i) (blocks b)" using i(2) by (simp add: id_take_nth_drop[symmetric])
  then have "add_blocks env (blocks b) b0 = add_blocks env (drop (Suc i) (blocks b)) (add_block env (blocks b ! i) ?b1)"
    using add_blocks_append[of env "take i (blocks b)" "[blocks b ! i] @ drop (Suc i) (blocks b)" b0]
    by (metis add_blocks_append add_blocks_def foldl_Cons foldl_Nil)
  then have "payload_block (add_blocks env (blocks b) b0) = Some (length (blocks ?b1))"
    using add_blocks_no_payload[OF i(5)] i(3) by (simp add: add_block_def)
  then show "payload_block (add_blocks env (blocks b) b0) = payload_block b" "payload_block b \<noteq> None"
    using i(1,2) assms(2) by (simp_all add: add_blocks_fields(1))
qed

section \<open>What the serializer writes\<close>

lemma serialize_blocks_plain:
  assumes "list_all plain_block bs"
  shows "serialize_blocks stream_write dd out bs = Inr (out @ blocks_bytes bs)"
  using assms
proof (induction bs arbitrary: out)
  case (Cons k bs)
  obtain d where d: "blk_data k = Some d" "length d = unat (blk_length k)" using Cons.prems by (auto simp: plain_block_def)
  then have "memcpy_from (blk_data k) 0 (unat (blk_length k)) = Inr d" by (cases d) (auto simp: memcpy_from_def)
  moreover have "block_header dd k = Inr [[ucast (blk_type k)], serialize_u32 (blk_flags k), serialize_u32 (blk_length k)]"
    using Cons.prems by (simp add: block_header_def plain_block_def)
  ultimately show ?case using Cons d by (simp add: blocks_bytes_def block_bytes_def stream_write_def)
qed (simp add: blocks_bytes_def)

definition primary_bytes :: "bundle_t \<Rightarrow> u8 list" where
  "primary_bytes b = concat (primary_writes b (plain_dict b) (dict_bytes (primary_eids b)))"

lemma plain_no_references: "list_all plain_block (blocks b) \<Longrightarrow> no_references b"
  by (auto simp: no_references_def plain_block_def list_all_iff)

lemma serialize_plain:
  assumes "list_all plain_block (blocks b)"
  shows "bundle6_serialize stream_write [] junk b [] = Inr (UD3TN_OK, primary_bytes b @ blocks_bytes (blocks b), [])"
  using assms plain_no_references[OF assms]
  by (simp add: bundle6_serialize_def calculate_dict_plain serialize_dictionary_plain serialize_blocks_plain
      stream_sink.writes_app primary_bytes_def)

section \<open>The primary block as a whole\<close>

text \<open>The bytes behind the length field, without the dictionary and what follows it.\<close>

definition ref_of :: "bundle6_eid_info \<Rightarrow> bundle6_eid_reference" where
  "ref_of i = \<lparr>ref_scheme = ei_scheme_offset i, ref_ssp = ei_ssp_offset i\<rparr>"

definition info_bytes :: "bundle6_eid_info \<Rightarrow> u8 list" where
  "info_bytes i = serialize_u16 (ei_scheme_offset i) @ serialize_u16 (ei_ssp_offset i)"

definition references_bytes :: "bundle6_dict_descriptor \<Rightarrow> u8 list" where
  "references_bytes dd = info_bytes (dd_destination dd) @ info_bytes (dd_source dd) @ info_bytes (dd_report_to dd) @ info_bytes (dd_custodian dd)"

definition times_bytes :: "bundle_t \<Rightarrow> u8 list" where
  "times_bytes b = serialize_u64 (creation_timestamp_ms b div 1000) @ serialize_u64 (sequence_number b) @ serialize_u64 (lifetime_ms b div 1000)"

lemma room_left: "m + n \<le> unat (r :: u16) \<Longrightarrow> n \<le> unat (r - of_nat m)"
  by (simp add: unat_sub_of_nat)

lemma sub_sub_of_nat: "(r :: 'a::len word) - of_nat m - of_nat n = r - of_nat (m + n)"
  by simp


lemma reach_destination:
  assumes "idle p" "length (info_bytes i) \<le> unat r"
  shows "reaches env (hstate p PARSER_STAGE_DESTINATION_EID_SCHEME b r ds sr rt cu l) (info_bytes i)
     (hstate p PARSER_STAGE_SOURCE_EID_SCHEME b (r - of_nat (length (info_bytes i))) (ref_of i) sr rt cu l)"
proof -
  let ?x = "ei_scheme_offset i" and ?y = "ei_ssp_offset i"
  have l: "length (serialize_u16 ?x) + length (serialize_u16 ?y) \<le> unat r" using assms(2) by (simp add: info_bytes_def)
  have y: "ds\<lparr>ref_scheme := ?x, ref_ssp := ?y\<rparr> = ref_of i" by (simp add: ref_of_def)
  have s1: "length (serialize_u16 ?x) \<le> unat r" using l by simp
  show ?thesis
    using reaches_trans[OF reach_destination_scheme[OF assms(1) s1] reach_destination_ssp[OF assms(1) room_left[OF l], unfolded sub_sub_of_nat], of env b ds sr rt cu l]
    by (simp only: info_bytes_def length_append y)
qed

lemma reach_source:
  assumes "idle p" "length (info_bytes i) \<le> unat r"
  shows "reaches env (hstate p PARSER_STAGE_SOURCE_EID_SCHEME b r ds sr rt cu l) (info_bytes i)
     (hstate p PARSER_STAGE_REPORT_EID_SCHEME b (r - of_nat (length (info_bytes i))) ds (ref_of i) rt cu l)"
proof -
  let ?x = "ei_scheme_offset i" and ?y = "ei_ssp_offset i"
  have l: "length (serialize_u16 ?x) + length (serialize_u16 ?y) \<le> unat r" using assms(2) by (simp add: info_bytes_def)
  have y: "sr\<lparr>ref_scheme := ?x, ref_ssp := ?y\<rparr> = ref_of i" by (simp add: ref_of_def)
  have s1: "length (serialize_u16 ?x) \<le> unat r" using l by simp
  show ?thesis
    using reaches_trans[OF reach_source_scheme[OF assms(1) s1] reach_source_ssp[OF assms(1) room_left[OF l], unfolded sub_sub_of_nat], of env b ds sr rt cu l]
    by (simp only: info_bytes_def length_append y)
qed

lemma reach_report:
  assumes "idle p" "length (info_bytes i) \<le> unat r"
  shows "reaches env (hstate p PARSER_STAGE_REPORT_EID_SCHEME b r ds sr rt cu l) (info_bytes i)
     (hstate p PARSER_STAGE_CUSTODIAN_EID_SCHEME b (r - of_nat (length (info_bytes i))) ds sr (ref_of i) cu l)"
proof -
  let ?x = "ei_scheme_offset i" and ?y = "ei_ssp_offset i"
  have l: "length (serialize_u16 ?x) + length (serialize_u16 ?y) \<le> unat r" using assms(2) by (simp add: info_bytes_def)
  have y: "rt\<lparr>ref_scheme := ?x, ref_ssp := ?y\<rparr> = ref_of i" by (simp add: ref_of_def)
  have s1: "length (serialize_u16 ?x) \<le> unat r" using l by simp
  show ?thesis
    using reaches_trans[OF reach_report_scheme[OF assms(1) s1] reach_report_ssp[OF assms(1) room_left[OF l], unfolded sub_sub_of_nat], of env b ds sr rt cu l]
    by (simp only: info_bytes_def length_append y)
qed

lemma reach_custodian:
  assumes "idle p" "length (info_bytes i) \<le> unat r"
  shows "reaches env (hstate p PARSER_STAGE_CUSTODIAN_EID_SCHEME b r ds sr rt cu l) (info_bytes i)
     (hstate p PARSER_STAGE_TIMESTAMP b (r - of_nat (length (info_bytes i))) ds sr rt (ref_of i) l)"
proof -
  let ?x = "ei_scheme_offset i" and ?y = "ei_ssp_offset i"
  have l: "length (serialize_u16 ?x) + length (serialize_u16 ?y) \<le> unat r" using assms(2) by (simp add: info_bytes_def)
  have y: "cu\<lparr>ref_scheme := ?x, ref_ssp := ?y\<rparr> = ref_of i" by (simp add: ref_of_def)
  have s1: "length (serialize_u16 ?x) \<le> unat r" using l by simp
  show ?thesis
    using reaches_trans[OF reach_custodian_scheme[OF assms(1) s1] reach_custodian_ssp[OF assms(1) room_left[OF l], unfolded sub_sub_of_nat], of env b ds sr rt cu l]
    by (simp only: info_bytes_def length_append y)
qed

lemma reach_references:
  assumes "idle p" "length (references_bytes dd) \<le> unat r"
  shows "reaches env (hstate p PARSER_STAGE_DESTINATION_EID_SCHEME b r ds sr rt cu l) (references_bytes dd)
     (hstate p PARSER_STAGE_TIMESTAMP b (r - of_nat (length (references_bytes dd)))
       (ref_of (dd_destination dd)) (ref_of (dd_source dd)) (ref_of (dd_report_to dd)) (ref_of (dd_custodian dd)) l)"
proof -
  let ?a = "info_bytes (dd_destination dd)" and ?b = "info_bytes (dd_source dd)" and ?c = "info_bytes (dd_report_to dd)" and ?d = "info_bytes (dd_custodian dd)"
  have l: "length ?a + (length ?b + (length ?c + length ?d)) \<le> unat r" using assms(2) by (simp add: references_bytes_def)
  note r1 = reach_destination[OF assms(1), of "dd_destination dd" r env b ds sr rt cu l]
  note r2 = reach_source[OF assms(1), of "dd_source dd" "r - of_nat (length ?a)" env b "ref_of (dd_destination dd)" sr rt cu l]
  note r3 = reach_report[OF assms(1), of "dd_report_to dd" "r - of_nat (length ?a + length ?b)" env b "ref_of (dd_destination dd)" "ref_of (dd_source dd)" rt cu l]
  note r4 = reach_custodian[OF assms(1), of "dd_custodian dd" "r - of_nat (length ?a + length ?b + length ?c)" env b
      "ref_of (dd_destination dd)" "ref_of (dd_source dd)" "ref_of (dd_report_to dd)" cu l]
  have s1: "length ?a \<le> unat r" using l by simp
  have s2: "length ?b \<le> unat (r - of_nat (length ?a))" using l by (intro room_left) simp
  have s3: "length ?c \<le> unat (r - of_nat (length ?a + length ?b))" using l by (intro room_left) simp
  have s4: "length ?d \<le> unat (r - of_nat (length ?a + length ?b + length ?c))" using l by (intro room_left) simp
  show ?thesis
    using reaches_trans[OF r1[OF s1] reaches_trans[OF r2[OF s2, unfolded sub_sub_of_nat] reaches_trans[OF r3[OF s3, unfolded sub_sub_of_nat]
        r4[OF s4, unfolded sub_sub_of_nat]]]]
    by (simp only: references_bytes_def length_append add.assoc)
qed

lemma reach_times:
  assumes "idle p" "length (times_bytes c) \<le> unat r"
  shows "reaches env (hstate p PARSER_STAGE_TIMESTAMP b r ds sr rt cu l) (times_bytes c)
     (hstate p PARSER_STAGE_DICT_LENGTH (b\<lparr>creation_timestamp_ms := creation_timestamp_ms c div 1000 * 1000, sequence_number := sequence_number c,
         lifetime_ms := lifetime_ms c div 1000 * 1000\<rparr>) (r - of_nat (length (times_bytes c))) ds sr rt cu l)"
proof -
  let ?a = "serialize_u64 (creation_timestamp_ms c div 1000)" and ?b = "serialize_u64 (sequence_number c)" and ?c = "serialize_u64 (lifetime_ms c div 1000)"
  have l: "length ?a + (length ?b + length ?c) \<le> unat r" using assms(2) by (simp add: times_bytes_def)
  have s1: "length ?a \<le> unat r" using l by simp
  have s2: "length ?b \<le> unat (r - of_nat (length ?a))" using l by (intro room_left) simp
  have s3: "length ?c \<le> unat (r - of_nat (length ?a + length ?b))" using l by (intro room_left) simp
  show ?thesis
    using reaches_trans[OF reach_timestamp[OF assms(1) s1] reaches_trans[OF reach_sequence[OF assms(1) s2, unfolded sub_sub_of_nat]
        reach_lifetime[OF assms(1) s3, unfolded sub_sub_of_nat]]]
    by (simp only: times_bytes_def length_append add.assoc)
qed

lemma read_dict_entry:
  assumes "i < length es" "\<forall>e\<in>set es. eid_ok e" "length (dict_bytes es) < 65536"
  shows "bundle6_read_eid (Some (dict_bytes es @ [0])) (length (dict_bytes es)) (ref_of (entry_info es i)) [] = Inr (Some (eid_text (es ! i)), [])"
proof -
  have "es = take i es @ es ! i # drop (Suc i) es" using assms(1) by (rule id_take_nth_drop)
  then have d: "dict_bytes es = dict_bytes (take i es) @ dict_entry (es ! i) @ dict_bytes (drop (Suc i) es)"
    by (metis dict_bytes_def concat.simps(2) concat_append list.simps(9) map_append)
  have "eid_ok (es ! i)" using assms(1,2) by simp
  from read_eid_entry[OF this, of "dict_bytes (take i es)" "dict_bytes (drop (Suc i) es)"] assms(3)
  show ?thesis by (simp add: d[symmetric] ref_of_def entry_info_def) (simp add: d)
qed

definition fragment_bytes :: "bundle_t \<Rightarrow> u8 list" where
  "fragment_bytes c = (if HAS_FLAG (proc_flags c) BUNDLE_FLAG_IS_FRAGMENT
     then serialize_u32 (fragment_offset c) @ serialize_u32 (total_adu_length c) else [])"

text \<open>The bytes the length of the primary block has to cover.\<close>

definition primary_rest :: "bundle_t \<Rightarrow> u8 list" where
  "primary_rest c = references_bytes (plain_dict c) @ times_bytes c @ serialize_u16 (of_nat (length (dict_bytes (primary_eids c))))
     @ dict_bytes (primary_eids c) @ fragment_bytes c"

lemma primary_bytes_split:
  "primary_bytes c = [protocol_version c] @ serialize_u32 (proc_flags c AND v6_flag_mask) @ serialize_u32 (ucast (primary_block_length c)) @ primary_rest c"
  by (simp add: primary_bytes_def primary_writes_def primary_rest_def references_bytes_def info_bytes_def serialize_eid_info_def times_bytes_def
      fragment_bytes_def) (simp add: plain_dict_def)

text \<open>The bundle after its primary block.\<close>

definition header_bundle :: "bundle_t \<Rightarrow> bundle_t \<Rightarrow> bundle_t" where
  "header_bundle c b0 =
    (let b = b0\<lparr>protocol_version := protocol_version c, proc_flags := proc_flags c AND v6_flag_mask, primary_block_length := primary_block_length c,
       creation_timestamp_ms := creation_timestamp_ms c div 1000 * 1000, sequence_number := sequence_number c,
       lifetime_ms := lifetime_ms c div 1000 * 1000, source := Some (eid_text (source c)), destination := Some (eid_text (destination c)),
       report_to := Some (eid_text (report_to c)), current_custodian := Some (eid_text (current_custodian c))\<rparr>
     in if HAS_FLAG (proc_flags c) BUNDLE_FLAG_IS_FRAGMENT then b\<lparr>fragment_offset := fragment_offset c, total_adu_length := total_adu_length c\<rparr> else b)"

lemma mask_fragment: "HAS_FLAG (f AND v6_flag_mask) BUNDLE_FLAG_IS_FRAGMENT = HAS_FLAG f BUNDLE_FLAG_IS_FRAGMENT"
proof -
  have "v6_flag_mask AND BUNDLE_FLAG_IS_FRAGMENT = BUNDLE_FLAG_IS_FRAGMENT" by code_simp
  then show ?thesis by (simp add: HAS_FLAG_def and.assoc)
qed

text \<open>Up to the dictionary.\<close>

lemma reach_dictionary_start:
  fixes c b0 :: bundle_t
  assumes i: "idle p" and "p6_allocs p = []" "length (dict_bytes (primary_eids c)) < 65536"
    and "length (primary_rest c) \<le> unat (primary_block_length c)"
    and "unat (p6_size p) + length (dict_bytes (primary_eids c)) + 1 \<le> unat (v6_quota env)"
  defines "n \<equiv> length (dict_bytes (primary_eids c))"
    and "b1 \<equiv> b0\<lparr>protocol_version := protocol_version c, proc_flags := proc_flags c AND v6_flag_mask, primary_block_length := primary_block_length c,
       creation_timestamp_ms := creation_timestamp_ms c div 1000 * 1000, sequence_number := sequence_number c,
       lifetime_ms := lifetime_ms c div 1000 * 1000\<rparr>"
    and "m \<equiv> length (references_bytes (plain_dict c)) + length (times_bytes c) + length (serialize_u16 (of_nat (length (dict_bytes (primary_eids c)))))"
  shows "\<exists>s. reaches env (hstate p PARSER_STAGE_VERSION b0 r ds sr rt cu l)
       ([protocol_version c] @ serialize_u32 (proc_flags c AND v6_flag_mask) @ serialize_u32 (ucast (primary_block_length c))
         @ references_bytes (plain_dict c) @ times_bytes c @ serialize_u16 (of_nat n))
       (dict_state env (hstate p PARSER_STAGE_DICT_LENGTH b1 (primary_block_length c - of_nat m) (ref_of (dd_destination (plain_dict c)))
          (ref_of (dd_source (plain_dict c))) (ref_of (dd_report_to (plain_dict c))) (ref_of (dd_custodian (plain_dict c))) (of_nat n)) s)"
proof -
  let ?rb = "references_bytes (plain_dict c)" and ?tb = "times_bytes c" and ?nb = "serialize_u16 (of_nat n)"
  let ?L = "primary_block_length c"
  have l: "length ?rb + (length ?tb + (length ?nb + n)) \<le> unat ?L" using assms(4) by (simp add: primary_rest_def n_def)
  have s1: "length ?rb \<le> unat ?L" using l by simp
  have s2: "length ?tb \<le> unat (?L - of_nat (length ?rb))" using l by (intro room_left) simp
  have s3: "length ?nb \<le> unat (?L - of_nat (length ?rb + length ?tb))" using l by (intro room_left) simp
  have n0: "n \<noteq> 0" by (simp add: n_def dict_bytes_def primary_eids_def dict_entry_def)
  have un: "unat (of_nat n :: u16) = n" using assms(3) by (simp add: n_def unsigned_of_nat take_bit_nat_eq_self)
  then have nz: "(of_nat n :: u16) \<noteq> 0" using n0 by (metis unsigned_0)
  have uu: "unat (ucast (of_nat n :: u16) + 1 :: u32) = n + 1"
    using assms(3) un by (simp add: unat_word_ariths unat_ucast_up n_def)
  have q: "p6_size p + (ucast (of_nat n :: u16) + 1) \<le> v6_quota env"
    using assms(5) uu by (intro size_no_wrap(1)[where m = 0]) (simp add: n_def)
  obtain s where s: "reaches env (hstate p PARSER_STAGE_DICT_LENGTH b1 (?L - of_nat (length ?rb + length ?tb)) (ref_of (dd_destination (plain_dict c)))
          (ref_of (dd_source (plain_dict c))) (ref_of (dd_report_to (plain_dict c))) (ref_of (dd_custodian (plain_dict c))) l) ?nb
       (dict_state env (hstate p PARSER_STAGE_DICT_LENGTH b1 (?L - of_nat (length ?rb + length ?tb) - of_nat (length ?nb)) (ref_of (dd_destination (plain_dict c)))
          (ref_of (dd_source (plain_dict c))) (ref_of (dd_report_to (plain_dict c))) (ref_of (dd_custodian (plain_dict c))) (of_nat n)) s)"
    using reach_dict_length[OF i s3 nz q assms(2)] by blast
  have "reaches env (hstate p PARSER_STAGE_VERSION b0 r ds sr rt cu l)
       ([protocol_version c] @ serialize_u32 (proc_flags c AND v6_flag_mask) @ serialize_u32 (ucast ?L) @ ?rb @ ?tb)
       (hstate p PARSER_STAGE_DICT_LENGTH b1 (?L - of_nat (length ?rb + length ?tb)) (ref_of (dd_destination (plain_dict c)))
          (ref_of (dd_source (plain_dict c))) (ref_of (dd_report_to (plain_dict c))) (ref_of (dd_custodian (plain_dict c))) l)"
    using reaches_trans[OF reach_version[OF i] reaches_trans[OF reach_proc_flags[OF i] reaches_trans[OF reach_block_length[OF i]
        reaches_trans[OF reach_references[OF i s1] reach_times[OF i s2, unfolded sub_sub_of_nat]]]],
        of env b0 r ds sr rt cu l "protocol_version c" "proc_flags c AND v6_flag_mask"]
    by (simp add: b1_def)
  from reaches_trans[OF this s[unfolded sub_sub_of_nat]] show ?thesis unfolding m_def n_def append_assoc by blast
qed

lemma reach_primary:
  assumes i: "idle p" and "p6_allocs p = []" "length (dict_bytes (primary_eids c)) < 65536"
    and "length (primary_rest c) \<le> unat (primary_block_length c)"
    and "unat (p6_size p) + length (dict_bytes (primary_eids c)) + 1 \<le> unat (v6_quota env)"
    and "\<forall>e\<in>set (primary_eids c). eid_ok e" "blocks b0 = []" "p6_entry p = 0"
  shows "\<exists>q. reaches env (hstate p PARSER_STAGE_VERSION b0 r ds sr rt cu l) (primary_bytes c) q \<and> at_blocks q (header_bundle c b0)
     \<and> unat (p6_size q) = unat (p6_size p) + length (dict_bytes (primary_eids c)) + 1 \<and> p6_sent q = p6_sent p"
proof -
  let ?es = "primary_eids c"
  let ?d = "dict_bytes ?es"
  let ?n = "length ?d"
  define m where "m = length (references_bytes (plain_dict c)) + length (times_bytes c) + length (serialize_u16 (of_nat ?n))"
  define b1 where "b1 = b0\<lparr>protocol_version := protocol_version c, proc_flags := proc_flags c AND v6_flag_mask, primary_block_length := primary_block_length c,
       creation_timestamp_ms := creation_timestamp_ms c div 1000 * 1000, sequence_number := sequence_number c,
       lifetime_ms := lifetime_ms c div 1000 * 1000\<rparr>"
  define b2 where "b2 = b1\<lparr>source := Some (eid_text (source c)), destination := Some (eid_text (destination c)),
       report_to := Some (eid_text (report_to c)), current_custodian := Some (eid_text (current_custodian c))\<rparr>"
  obtain s where s: "reaches env (hstate p PARSER_STAGE_VERSION b0 r ds sr rt cu l)
       ([protocol_version c] @ serialize_u32 (proc_flags c AND v6_flag_mask) @ serialize_u32 (ucast (primary_block_length c))
         @ references_bytes (plain_dict c) @ times_bytes c @ serialize_u16 (of_nat ?n))
       (dict_state env (hstate p PARSER_STAGE_DICT_LENGTH b1 (primary_block_length c - of_nat m) (ref_of (dd_destination (plain_dict c)))
          (ref_of (dd_source (plain_dict c))) (ref_of (dd_report_to (plain_dict c))) (ref_of (dd_custodian (plain_dict c))) (of_nat ?n)) s)"
    using reach_dictionary_start[OF assms(1-5), of b0 r ds sr rt cu l] unfolding m_def b1_def by blast
  define q where "q = dict_state env (hstate p PARSER_STAGE_DICT_LENGTH b1 (primary_block_length c - of_nat m) (ref_of (dd_destination (plain_dict c)))
          (ref_of (dd_source (plain_dict c))) (ref_of (dd_report_to (plain_dict c))) (ref_of (dd_custodian (plain_dict c))) (of_nat ?n)) s"
  have un: "unat (of_nat ?n :: u16) = ?n" using assms(3) by (simp add: unsigned_of_nat take_bit_nat_eq_self)
  have l: "m + (?n + length (fragment_bytes c)) \<le> unat (primary_block_length c)" using assms(4) by (simp add: primary_rest_def m_def)
  have sz: "unat (p6_size q) = unat (p6_size p) + ?n + 1"
  proof -
    have uu: "unat (ucast (of_nat ?n :: u16) + 1 :: u32) = ?n + 1" using assms(3) un by (simp add: unat_word_ariths unat_ucast_up)
    then show ?thesis using size_no_wrap(2)[of "p6_size p" "ucast (of_nat ?n :: u16) + 1" 0 "v6_quota env"] assms(5)
      by (simp add: q_def dict_state_def hstate_def)
  qed
  define region where "region = map (v6_region_junk env) [0..<?n] @ [0]"
  have cn: "ucast (of_nat ?n :: u16) = (of_nat ?n :: u32)"
    using assms(3) by (simp add: word_unat_eq_iff unat_ucast_up un unsigned_of_nat take_bit_nat_eq_self)
  have rdy: "dict_ready q region ?d"
    using i un cn room_left[of m ?n "primary_block_length c"] l assms(3)
    by (simp add: dict_ready_def q_def dict_state_def hstate_def idle_def region_def) (simp add: dict_bytes_def primary_eids_def dict_entry_def)
  have qf: "p6_bundle q = Some b1" "p6_allocs q = []" "unat (p6_dict_length q) = ?n"
    "p6_source_ref q = ref_of (dd_source (plain_dict c))" "p6_destination_ref q = ref_of (dd_destination (plain_dict c))"
    "p6_report_ref q = ref_of (dd_report_to (plain_dict c))" "p6_custodian_ref q = ref_of (dd_custodian (plain_dict c))"
    using assms(2) un by (simp_all add: q_def dict_state_def hstate_def)
  have rd: "bundle6_read_eid (Some (?d @ [0])) ?n (ref_of (dd_destination (plain_dict c))) [] = Inr (Some (eid_text (destination c)), [])"
    "bundle6_read_eid (Some (?d @ [0])) ?n (ref_of (dd_source (plain_dict c))) [] = Inr (Some (eid_text (source c)), [])"
    "bundle6_read_eid (Some (?d @ [0])) ?n (ref_of (dd_report_to (plain_dict c))) [] = Inr (Some (eid_text (report_to c)), [])"
    "bundle6_read_eid (Some (?d @ [0])) ?n (ref_of (dd_custodian (plain_dict c))) [] = Inr (Some (eid_text (current_custodian c)), [])"
    using read_dict_entry[of 0 ?es] read_dict_entry[of 1 ?es] read_dict_entry[of 2 ?es] read_dict_entry[of 3 ?es] assms(3,6)
    by (simp_all add: plain_dict_def primary_eids_def)
  have fr: "bundle_is_fragmented b2 = HAS_FLAG (proc_flags c) BUNDLE_FLAG_IS_FRAGMENT"
    by (simp add: bundle_is_fragmented_def b2_def b1_def mask_fragment)
  note dict = reach_dictionary[OF rdy qf(1-3), unfolded qf(4-7), OF rd(2,1,3,4) b2_def]
  have pb: "primary_bytes c = ([protocol_version c] @ serialize_u32 (proc_flags c AND v6_flag_mask) @ serialize_u32 (ucast (primary_block_length c))
         @ references_bytes (plain_dict c) @ times_bytes c @ serialize_u16 (of_nat ?n)) @ ?d @ fragment_bytes c"
    by (simp add: primary_bytes_split primary_rest_def)
  show ?thesis
  proof (cases "HAS_FLAG (proc_flags c) BUNDLE_FLAG_IS_FRAGMENT")
    case False
    define q' where "q' = (dict_complete q ?d b2)\<lparr>p6_current_block := PARSER_BLOCK_GENERIC, p6_current_stage := PARSER_STAGE_BLOCK_TYPE\<rparr>"
    have "bundle6_parser_next env (dict_complete q ?d b2) = Inr q'"
      using False fr by (simp add: bundle6_parser_next_def prepare_stage_def dict_complete_def q'_def)
    from reaches_trans[OF s[folded q_def] dict[OF this]] have "reaches env (hstate p PARSER_STAGE_VERSION b0 r ds sr rt cu l) (primary_bytes c) q'"
      using False by (simp add: pb fragment_bytes_def)
    moreover have "at_blocks q' (header_bundle c b0)"
      using False fr i assms(2,7,8)
      by (simp add: at_blocks_def q'_def dict_complete_def q_def dict_state_def hstate_def idle_def header_bundle_def b2_def b1_def)
    moreover have "p6_size q' = p6_size q" "p6_sent q' = p6_sent p"
      by (simp_all add: q'_def dict_complete_def q_def dict_state_def hstate_def)
    ultimately show ?thesis using sz by auto
  next
    case True
    have fb: "fragment_bytes c = serialize_u32 (fragment_offset c) @ serialize_u32 (total_adu_length c)" using True by (simp add: fragment_bytes_def)
    define p' where "p' = q\<lparr>p6_index := of_nat ?n + 1, p6_cur_remaining := 0, p6_dict := Some (?d @ [0])\<rparr>"
    let ?r = "primary_block_length c - of_nat (m + ?n)"
    let ?h = "hstate p' PARSER_STAGE_FRAGMENT_OFFSET b2 ?r (ref_of (dd_destination (plain_dict c)))
          (ref_of (dd_source (plain_dict c))) (ref_of (dd_report_to (plain_dict c))) (ref_of (dd_custodian (plain_dict c))) (of_nat ?n)"
    have "bundle6_parser_next env (dict_complete q ?d b2) = Inr ?h"
      using True fr by (simp add: bundle6_parser_next_def prepare_stage_def dict_complete_def p'_def hstate_def q_def dict_state_def diff_diff_eq)
    note h = reaches_trans[OF s[folded q_def] dict[OF this]]
    have i': "idle p'" using i by (simp add: idle_def p'_def q_def dict_state_def hstate_def)
    have s1: "length (serialize_u32 (fragment_offset c)) \<le> unat ?r" using l fb by (intro room_left) simp
    have s2: "length (serialize_u32 (total_adu_length c)) \<le> unat (?r - of_nat (length (serialize_u32 (fragment_offset c))))"
      unfolding sub_sub_of_nat using l fb by (intro room_left) simp
    have "p6_entry p' = length (blocks (b2\<lparr>fragment_offset := fragment_offset c\<rparr>))" "p6_allocs p' = []"
      using assms(2,7,8) by (simp_all add: p'_def q_def dict_state_def hstate_def b2_def b1_def)
    from reach_adu_length[OF i' s2 this] obtain q' where q': "reaches env (hstate p' PARSER_STAGE_ADU_LENGTH (b2\<lparr>fragment_offset := fragment_offset c\<rparr>)
          (?r - of_nat (length (serialize_u32 (fragment_offset c)))) (ref_of (dd_destination (plain_dict c)))
          (ref_of (dd_source (plain_dict c))) (ref_of (dd_report_to (plain_dict c))) (ref_of (dd_custodian (plain_dict c))) (of_nat ?n)) (serialize_u32 (total_adu_length c)) q'"
        "at_blocks q' (b2\<lparr>fragment_offset := fragment_offset c, total_adu_length := total_adu_length c\<rparr>)" "p6_size q' = p6_size p'" "p6_sent q' = p6_sent p'"
      by blast
    have "reaches env (hstate p PARSER_STAGE_VERSION b0 r ds sr rt cu l) (primary_bytes c) q'"
      using reaches_trans[OF h reaches_trans[OF reach_fragment_offset[OF i' s1] q'(1)]] by (simp add: pb fb)
    moreover have "b2\<lparr>fragment_offset := fragment_offset c, total_adu_length := total_adu_length c\<rparr> = header_bundle c b0"
      using True by (simp add: header_bundle_def b2_def b1_def)
    moreover have "p6_size p' = p6_size q" "p6_sent p' = p6_sent p"
      by (simp_all add: p'_def q_def dict_state_def hstate_def)
    ultimately show ?thesis using sz q' by auto
  qed
qed

section \<open>Round trip\<close>

lemma length_serialize [simp]:
  "length (serialize_u16 v16) = sdnv_get_size_u16 v16" "length (serialize_u32 v32) = sdnv_get_size_u32 v32"
  "length (serialize_u64 v64) = sdnv_get_size_u64 v64"
  by (simp_all add: serialize_u16_def serialize_u32_def serialize_u64_def sdnv_write_defs Let_def sdnv_write_generic_def)

lemma size_ucast: "sdnv_get_size_u32 (ucast (v :: u16)) = sdnv_get_size_u16 v"
  using unat_max(2)[of v] by (simp add: sdnv_get_size_unat unat_ucast_up)

lemma size_of_nat: "n < 65536 \<Longrightarrow> sdnv_get_size_u32 (of_nat n) = sdnv_get_size_u16 (of_nat n)"
  by (simp add: sdnv_get_size_unat unsigned_of_nat take_bit_nat_eq_self)

text \<open>The length of the primary block counts the version, the flags and its own field on top of the bytes it has to cover.\<close>

lemma primary_length_rest:
  assumes "length (dict_bytes (primary_eids b)) < 65536"
  shows "primary_length b (plain_dict b) = 1 + sdnv_get_size_u32 (proc_flags b) + sdnv_get_size_u32 (ucast (primary_block_length b)) + length (primary_rest b)"
  using size_of_nat[OF assms]
  by (simp add: primary_length_def primary_rest_def references_bytes_def info_bytes_def times_bytes_def fragment_bytes_def fragment_fields_def size_ucast)
    (simp add: plain_dict_def)

text \<open>A bundle the sender can put into the format without loss of blocks.\<close>

definition v6_sendable :: "bundle_t \<Rightarrow> bool" where
  "v6_sendable b \<longleftrightarrow> list_all eid_ok (primary_eids b) \<and> list_all plain_block (blocks b) \<and> last_marked (blocks b)
     \<and> blk_length (last (blocks b)) \<noteq> 0 \<and> one_payload b \<and> primary_length b (plain_dict b) < 65536"

text \<open>What the receiver gets of it: times in full seconds, the flags of RFC 5050, identifiers without scheme as \<^verbatim>\<open>dtn:none\<close>.\<close>

definition v6_received :: "bundle_t \<Rightarrow> bundle_t \<Rightarrow> bool" where
  "v6_received b r \<longleftrightarrow> protocol_version r = protocol_version b \<and> proc_flags r = proc_flags b AND v6_flag_mask
     \<and> destination r = Some (eid_text (destination b)) \<and> source r = Some (eid_text (source b))
     \<and> report_to r = Some (eid_text (report_to b)) \<and> current_custodian r = Some (eid_text (current_custodian b))
     \<and> creation_timestamp_ms r = creation_timestamp_ms b div 1000 * 1000 \<and> sequence_number r = sequence_number b
     \<and> lifetime_ms r = lifetime_ms b div 1000 * 1000
     \<and> (fragment_offset r, total_adu_length r)
         = (if HAS_FLAG (proc_flags b) BUNDLE_FLAG_IS_FRAGMENT then (fragment_offset b, total_adu_length b) else (0, 0))
     \<and> map (\<lambda>k. (blk_type k, blk_flags k, blk_length k, blk_data k)) (blocks r) = map (\<lambda>k. (blk_type k, blk_flags k, blk_length k, blk_data k)) (blocks b)
     \<and> payload_block r = payload_block b"

text \<open>The memory the parser accounts for: the dictionary with its terminator and the data of the blocks.\<close>

definition v6_memory :: "bundle_t \<Rightarrow> nat" where
  "v6_memory b = length (dict_bytes (primary_eids b)) + 1 + data_size (blocks b)"

lemma sendable_header:
  assumes "v6_sendable b0"
  defines "b \<equiv> b0\<lparr>primary_block_length := of_nat (primary_length b0 (plain_dict b0))\<rparr>"
  shows "bundle6_recalculate_header_length b0 [] = Inr (b, [])" "length (primary_rest b) \<le> unat (primary_block_length b)"
    "length (dict_bytes (primary_eids b)) < 65536"
proof -
  have s: "no_references b0" "primary_length b0 (plain_dict b0) < 65536"
    using assms(1) by (simp_all add: v6_sendable_def plain_no_references)
  then show "bundle6_recalculate_header_length b0 [] = Inr (b, [])"
    by (simp add: bundle6_recalculate_header_length_def bundle6_recalculate_header_length_internal_def calculate_dict_plain b_def)
  have e: "primary_eids b = primary_eids b0" by (simp add: b_def primary_eids_def)
  have "dd_length (plain_dict b0) < 65536" using s(2) by (simp add: primary_length_def)
  then show d: "length (dict_bytes (primary_eids b)) < 65536" by (simp add: plain_dict_def e)
  have unat_length: "unat (primary_block_length b) = primary_length b0 (plain_dict b0)"
    using s(2) by (simp add: b_def unsigned_of_nat take_bit_nat_eq_self)
  have "primary_rest b = primary_rest b0"
    by (simp add: primary_rest_def references_bytes_def times_bytes_def fragment_bytes_def plain_dict_def e) (simp add: b_def)
  then show "length (primary_rest b) \<le> unat (primary_block_length b)"
    using s(2) primary_length_rest[of b0] d e unat_length by simp
qed

lemma one_payload_cong: "payload_block b = payload_block c \<Longrightarrow> blocks b = blocks c \<Longrightarrow> one_payload b = one_payload c"
  by (cases "payload_block c") (simp_all add: one_payload_def)

lemma received_bundle:
  fixes l :: u16
  assumes "v6_sendable b0" "blocks c = []" "fragment_offset c = 0" "total_adu_length c = 0"
  defines "b \<equiv> b0\<lparr>primary_block_length := l\<rparr>"
  shows "v6_received b0 (add_blocks env (blocks b) (header_bundle b c))"
proof -
  have h: "blocks (header_bundle b c) = []" using assms(2) by (simp add: header_bundle_def Let_def)
  have o: "one_payload b" using assms(1) one_payload_cong[of b b0] by (simp add: v6_sendable_def b_def)
  have p: "payload_block (add_blocks env (blocks b) (header_bundle b c)) = payload_block b0"
    using add_blocks_payload(1)[OF o h] by (simp add: b_def)
  have a: "add_blocks env (blocks b) (header_bundle b c) = (header_bundle b c)\<lparr>blocks := map (received_block env) (blocks b0), payload_block := payload_block b0\<rparr>"
    using add_blocks_fields(2)[of env "blocks b" "header_bundle b c"] unfolding p h by (simp add: b_def)
  have k: "map (\<lambda>k. (blk_type k, blk_flags k, blk_length k, blk_data k)) (map (received_block env) bs) = map (\<lambda>k. (blk_type k, blk_flags k, blk_length k, blk_data k)) bs" for bs
    by (simp add: received_block_def)
  show ?thesis
    unfolding a v6_received_def using assms(3,4) k by (simp add: header_bundle_def b_def Let_def)
qed

text \<open>A fresh parser.\<close>

definition v6_fresh :: "v6_env \<Rightarrow> bundle6_parser \<Rightarrow> bundle6_parser" where
  "v6_fresh env p = p\<lparr>p6_status := PARSER_STATUS_GOOD, p6_bulk_read := False, p6_error := PARSER_ERROR_NONE,
     p6_current_stage := PARSER_STAGE_VERSION, p6_next_stage := PARSER_STAGE_VERSION, p6_current_block := PARSER_BLOCK_PRIMARY,
     p6_sdnv := sdnv_reset, p6_primary_remaining := 0, p6_cur_remaining := 0, p6_index := 0,
     p6_size := v6_usage env + v6_sizeof_bundle env, p6_last_block := False, p6_bundle := Some (bundle_reset_internal (v6_bundle_junk env)),
     p6_dict := None, p6_entry := 0\<rparr>"

lemma init_fresh: "p6_allocs p = [] \<Longrightarrow> bundle6_parser_init env p = Some (v6_fresh env p)"
  by (simp add: bundle6_parser_init_def bundle6_parser_reset_def bundle_init_def v6_fresh_def Let_def)

lemma parse_serialized:
  assumes "list_all eid_ok (primary_eids b)" "list_all plain_block (blocks b)" "last_marked (blocks b)" "blk_length (last (blocks b)) \<noteq> 0"
    "one_payload b" "length (primary_rest b) \<le> unat (primary_block_length b)" "length (dict_bytes (primary_eids b)) < 65536"
    and "v6_callback env" "p6_allocs p0 = []" "unat (v6_usage env) + unat (v6_sizeof_bundle env) + v6_memory b \<le> unat (v6_quota env)"
  shows "\<exists>q. reaches env (v6_fresh env p0) (primary_bytes b @ blocks_bytes (blocks b)) q \<and> p6_status q = PARSER_STATUS_DONE
     \<and> p6_sent q = p6_sent p0 @ [add_blocks env (blocks b) (header_bundle b (bundle_reset_internal (v6_bundle_junk env)))]"
proof -
  let ?c = "bundle_reset_internal (v6_bundle_junk env)"
  define p where "p = v6_fresh env p0"
  have h: "p = hstate p PARSER_STAGE_VERSION ?c 0 (p6_destination_ref p) (p6_source_ref p) (p6_report_ref p) (p6_custodian_ref p) (p6_dict_length p)"
    by (simp add: hstate_def p_def v6_fresh_def)
  have sz: "unat (p6_size p) = unat (v6_usage env) + unat (v6_sizeof_bundle env)"
    using size_no_wrap(2)[of "v6_usage env" "v6_sizeof_bundle env" "v6_memory b" "v6_quota env"] assms(10) by (simp add: p_def v6_fresh_def)
  have f: "idle p" "p6_allocs p = []" "p6_entry p = 0" "p6_sent p = p6_sent p0" using assms(9) by (simp_all add: idle_def p_def v6_fresh_def)
  have c: "blocks ?c = []" by (simp add: bundle_reset_internal_def)
  have room: "unat (p6_size p) + length (dict_bytes (primary_eids b)) + 1 \<le> unat (v6_quota env)"
    using sz assms(10) by (simp add: v6_memory_def)
  obtain q where q: "reaches env p (primary_bytes b) q" "at_blocks q (header_bundle b ?c)"
      "unat (p6_size q) = unat (p6_size p) + length (dict_bytes (primary_eids b)) + 1" "p6_sent q = p6_sent p"
    using reach_primary[OF f(1,2) assms(7,6) room, of ?c 0 "p6_destination_ref p" "p6_source_ref p" "p6_report_ref p" "p6_custodian_ref p" "p6_dict_length p"]
      assms(1) c f(3) h by (auto simp: list_all_iff)
  have "blocks (header_bundle b ?c) = []" using c by (simp add: header_bundle_def Let_def)
  then have pl: "payload_block (add_blocks env (blocks b) (header_bundle b ?c)) \<noteq> None" using add_blocks_payload[OF assms(5)] by simp
  have "unat (p6_size q) + data_size (blocks b) \<le> unat (v6_quota env)" using q(3) sz assms(10) by (simp add: v6_memory_def)
  from reach_blocks[OF q(2) assms(2,3,4,8) this pl] obtain r where r: "reaches env q (blocks_bytes (blocks b)) r" "p6_status r = PARSER_STATUS_DONE"
      "p6_sent r = p6_sent q @ [add_blocks env (blocks b) (header_bundle b ?c)]" by blast
  from reaches_trans[OF q(1) r(1)] r q(4) f(4) show ?thesis by (auto simp: p_def)
qed

lemma reaches_done: "reaches env p bs q \<Longrightarrow> p6_status q = PARSER_STATUS_DONE \<Longrightarrow> bundle6_parser_read env p (Some (bs @ rest)) = Inr (q, length bs)"
proof -
  assume r: "reaches env p bs q" and d: "p6_status q = PARSER_STATUS_DONE"
  have "read_loop env p (bs @ rest) 0 = read_loop env q (bs @ rest) (length bs)"
    using r[unfolded reaches_def, THEN spec, of "[]"] by simp
  then show ?thesis using d by (simp add: bundle6_parser_read_def read_loop.simps[of env q])
qed

text \<open>
  C3. Version 6 on the wire: a bundle with the header length recalculated, serialized, and fed to a fresh parser comes out as one bundle
  with the same header, blocks and payload. The parser stops exactly at the end of the bundle, whatever bytes follow.
\<close>

theorem bundle6_roundtrip:
  assumes "v6_sendable b0" "v6_callback env" "p6_allocs p0 = []"
    "unat (v6_usage env) + unat (v6_sizeof_bundle env) + v6_memory b0 \<le> unat (v6_quota env)"
  shows "\<exists>b bytes p q r. bundle6_recalculate_header_length b0 [] = Inr (b, [])
    \<and> bundle6_serialize stream_write [] junk b [] = Inr (UD3TN_OK, bytes, []) \<and> bundle6_parser_init env p0 = Some p
    \<and> bundle6_parser_read env p (Some (bytes @ rest)) = Inr (q, length bytes) \<and> p6_status q = PARSER_STATUS_DONE
    \<and> p6_sent q = p6_sent p0 @ [r] \<and> v6_received b0 r"
proof -
  define b where "b = b0\<lparr>primary_block_length := of_nat (primary_length b0 (plain_dict b0))\<rparr>"
  note head = sendable_header[OF assms(1), folded b_def]
  let ?c = "bundle_reset_internal (v6_bundle_junk env)"
  have e: "primary_eids b = primary_eids b0" "blocks b = blocks b0" "v6_memory b = v6_memory b0" "one_payload b = one_payload b0"
    using one_payload_cong[of b b0] by (simp_all add: b_def primary_eids_def v6_memory_def)
  note s = assms(1)[unfolded v6_sendable_def]
  obtain q where q: "reaches env (v6_fresh env p0) (primary_bytes b @ blocks_bytes (blocks b)) q" "p6_status q = PARSER_STATUS_DONE"
      "p6_sent q = p6_sent p0 @ [add_blocks env (blocks b) (header_bundle b ?c)]"
    using parse_serialized[of b env p0] s head(2,3) assms(2-4) e by auto
  have "v6_received b0 (add_blocks env (blocks b) (header_bundle b ?c))"
    unfolding b_def by (rule received_bundle[OF assms(1)]) (simp_all add: bundle_reset_internal_def)
  moreover have "bundle6_parser_read env (v6_fresh env p0) (Some ((primary_bytes b @ blocks_bytes (blocks b)) @ rest))
      = Inr (q, length (primary_bytes b @ blocks_bytes (blocks b)))" by (rule reaches_done[OF q(1,2)])
  moreover have "bundle6_serialize stream_write [] junk b [] = Inr (UD3TN_OK, primary_bytes b @ blocks_bytes (blocks b), [])"
    using s e(2) by (intro serialize_plain) simp
  ultimately show ?thesis using head(1) init_fresh[OF assms(3), of env] q(2,3) by blast
qed

section \<open>Computed and real size\<close>

lemma block_sizes_plain:
  "list_all plain_block bs \<Longrightarrow> block_sizes False True True dd reached off bs n = Inr (n + length (blocks_bytes bs))"
proof (induction bs arbitrary: reached off n)
  case (Cons k bs)
  obtain d where d: "blk_data k = Some d" "length d = unat (blk_length k)" using Cons.prems by (auto simp: plain_block_def)
  have k: "\<not> HAS_FLAG (blk_flags k) BUNDLE_V6_BLOCK_FLAG_HAS_EID_REF_FIELD" "list_all plain_block bs" using Cons.prems by (simp_all, simp add: plain_block_def)
  then have "eid_ref_field_size dd off k = Inr 0" by (simp add: eid_ref_field_size_def)
  then show ?case using Cons.IH[OF k(2)] d k(1) by (simp add: blocks_bytes_def block_bytes_def)
qed (simp add: blocks_bytes_def)

lemma length_primary_bytes:
  "length (primary_bytes b) = 1 + sdnv_get_size_u32 (proc_flags b AND v6_flag_mask) + sdnv_get_size_u16 (primary_block_length b) + length (primary_rest b)"
  by (simp add: primary_bytes_split size_ucast)

text \<open>
  The size the sender plans with: \<^verbatim>\<open>bundle6_get_serialized_size\<close> is the number of bytes the serializer writes, except that the length
  field of the primary block enters with the width it had before, and that the two fields of a fragment are counted twice.
\<close>

theorem bundle6_serialized_size:
  assumes "v6_sendable b0" "proc_flags b0 AND v6_flag_mask = proc_flags b0"
  shows "\<exists>n b bytes. bundle6_get_serialized_size b0 [] = Inr (n, b, []) \<and> bundle6_serialize stream_write [] junk b [] = Inr (UD3TN_OK, bytes, [])
    \<and> n + sdnv_get_size_u16 (primary_block_length b) = length bytes + sdnv_get_size_u16 (primary_block_length b0) + fragment_fields b0"
proof -
  define b where "b = b0\<lparr>primary_block_length := of_nat (primary_length b0 (plain_dict b0))\<rparr>"
  note head = sendable_header[OF assms(1), folded b_def]
  note s = assms(1)[unfolded v6_sendable_def]
  have e: "blocks b = blocks b0" "proc_flags b = proc_flags b0" "payload_block b = payload_block b0" "fragment_offset b = fragment_offset b0"
     "total_adu_length b = total_adu_length b0" "primary_rest b = primary_rest b0" "primary_eids b = primary_eids b0"
    by (simp_all add: b_def primary_eids_def primary_rest_def references_bytes_def times_bytes_def fragment_bytes_def plain_dict_def)
  have "no_references b0" using s by (simp add: plain_no_references)
  then have i: "bundle6_recalculate_header_length_internal b0 [] = Inr (b, plain_dict b0, [])"
    by (simp add: bundle6_recalculate_header_length_internal_def calculate_dict_plain b_def)
  have u: "unat (primary_block_length b) = primary_length b0 (plain_dict b0)"
    using s by (simp add: b_def unsigned_of_nat take_bit_nat_eq_self)
  have p: "payload_block b0 \<noteq> None" using s add_blocks_payload(2)[of b0 "bundle_reset_internal b0"] by (simp add: bundle_reset_internal_def)
  let ?n = "primary_length b0 (plain_dict b0) + length (blocks_bytes (blocks b0)) + fragment_fields b0"
  have "bundle6_get_serialized_size b0 [] = Inr (?n, b, [])"
    using s p by (simp add: bundle6_get_serialized_size_def get_serialized_size_def i block_sizes_plain e u fragment_fields_def)
  moreover have "bundle6_serialize stream_write [] junk b [] = Inr (UD3TN_OK, primary_bytes b @ blocks_bytes (blocks b), [])"
    using s e by (intro serialize_plain) simp
  moreover have "?n + sdnv_get_size_u16 (primary_block_length b)
      = length (primary_bytes b @ blocks_bytes (blocks b)) + sdnv_get_size_u16 (primary_block_length b0) + fragment_fields b0"
    using head(3) by (simp add: length_primary_bytes primary_length_rest e size_ucast assms(2))
  ultimately show ?thesis by blast
qed

section \<open>An example\<close>

definition v6_sample :: bundle_t where
  "v6_sample = sample_bundle\<lparr>protocol_version := 6, proc_flags := BUNDLE_FLAG_IS_FRAGMENT, source := Some ''dtn:a'', destination := Some ''dtn:b'',
     report_to := None, current_custodian := None, fragment_offset := 200, total_adu_length := 900, creation_timestamp_ms := 5500,
     primary_block_length := 0,
     blocks := [sample_block\<lparr>blk_type := BUNDLE_BLOCK_TYPE_PAYLOAD, blk_flags := BUNDLE_V6_BLOCK_FLAG_LAST_BLOCK, blk_eid_refs := [],
        blk_length := 2, blk_data := Some [1, 2]\<rparr>], payload_block := Some 0\<rparr>"

definition v6_sample_env :: v6_env where
  "v6_sample_env = \<lparr>v6_usage = 100, v6_sizeof_bundle = 128, v6_quota = 1000, v6_callback = True, v6_bundle_junk = sample_bundle,
     v6_block_junk = sample_block, v6_region_junk = (\<lambda>_. 0xAA)\<rparr>"

definition v6_sample_parser :: bundle6_parser where
  "v6_sample_parser = \<lparr>p6_status = PARSER_STATUS_ERROR, p6_bulk_read = False, p6_next_bytes = 0, p6_error = PARSER_ERROR_NONE,
     p6_current_stage = PARSER_STAGE_VERSION, p6_next_stage = PARSER_STAGE_VERSION, p6_current_block = PARSER_BLOCK_PRIMARY,
     p6_sdnv = sdnv_reset, p6_bundle = None, p6_primary_remaining = 0, p6_cur_remaining = 0, p6_index = 0, p6_size = 0,
     p6_destination_ref = \<lparr>ref_scheme = 0, ref_ssp = 0\<rparr>, p6_source_ref = \<lparr>ref_scheme = 0, ref_ssp = 0\<rparr>,
     p6_report_ref = \<lparr>ref_scheme = 0, ref_ssp = 0\<rparr>, p6_custodian_ref = \<lparr>ref_scheme = 0, ref_ssp = 0\<rparr>,
     p6_cur_ref = \<lparr>ref_scheme = 0, ref_ssp = 0\<rparr>, p6_dict_length = 0, p6_dict = None, p6_entry = 0, p6_last_block = False,
     p6_allocs = [], p6_sent = []\<rparr>"

lemma v6_sample_parts:
  "primary_eids v6_sample = [Some ''dtn:b'', Some ''dtn:a'', None, None]" "list_all eid_ok (primary_eids v6_sample)"
  "list_all plain_block (blocks v6_sample)" "last_marked (blocks v6_sample)" "blk_length (last (blocks v6_sample)) \<noteq> 0"
  "one_payload v6_sample" "primary_length v6_sample (plain_dict v6_sample) = 49"
  by code_simp+

lemma v6_sample_sendable: "v6_sendable v6_sample"
  using v6_sample_parts by (simp add: v6_sendable_def)

lemma v6_sample_memory: "v6_memory v6_sample = 33"
  by code_simp

theorem bundle6_roundtrip_witness:
  "\<exists>b bytes p q r. bundle6_recalculate_header_length v6_sample [] = Inr (b, [])
    \<and> bundle6_serialize stream_write [] (\<lambda>_. 0) b [] = Inr (UD3TN_OK, bytes, []) \<and> bundle6_parser_init v6_sample_env v6_sample_parser = Some p
    \<and> bundle6_parser_read v6_sample_env p (Some (bytes @ [7, 7])) = Inr (q, length bytes) \<and> p6_status q = PARSER_STATUS_DONE
    \<and> p6_sent q = [r] \<and> v6_received v6_sample r"
proof -
  have "v6_callback v6_sample_env" "p6_allocs v6_sample_parser = []" "p6_sent v6_sample_parser = []"
    "unat (v6_usage v6_sample_env) + unat (v6_sizeof_bundle v6_sample_env) + v6_memory v6_sample \<le> unat (v6_quota v6_sample_env)"
    by (simp_all add: v6_sample_env_def v6_sample_parser_def v6_sample_memory)
  then show ?thesis
    using bundle6_roundtrip[OF v6_sample_sendable, of v6_sample_env v6_sample_parser "\<lambda>_. 0" "[7, 7]"] by simp
qed

theorem bundle6_serialized_size_witness:
  "\<exists>n b bytes. bundle6_get_serialized_size v6_sample [] = Inr (n, b, []) \<and> bundle6_serialize stream_write [] (\<lambda>_. 0) b [] = Inr (UD3TN_OK, bytes, [])
    \<and> n = length bytes + 4"
proof -
  obtain n b bytes where r: "bundle6_get_serialized_size v6_sample [] = Inr (n, b, [])" "bundle6_serialize stream_write [] (\<lambda>_. 0) b [] = Inr (UD3TN_OK, bytes, [])"
      "n + sdnv_get_size_u16 (primary_block_length b) = length bytes + sdnv_get_size_u16 (primary_block_length v6_sample) + fragment_fields v6_sample"
    using bundle6_serialized_size[OF v6_sample_sendable, of "\<lambda>_. 0"] by (auto simp: v6_sample_def v6_flag_mask_def BUNDLE_FLAG_IS_FRAGMENT_def)
  moreover have "projr (map_sum id (\<lambda>(n, b, as). sdnv_get_size_u16 (primary_block_length b)) (bundle6_get_serialized_size v6_sample [])) = 1"
    "sdnv_get_size_u16 (primary_block_length v6_sample) = 1" "fragment_fields v6_sample = 4"
    by code_simp+
  ultimately show ?thesis by auto
qed

end
