(* ===== verification/Bundle6_Safety.thy ===== *)
theory Bundle6_Safety
  imports Bundle6_Roundtrip
begin

unbundle bit_operations_syntax

text \<open>
  Memory safety of the version 6 parser on arbitrary input: an invariant of its state under which no byte makes it follow a null pointer or
  leave a buffer, whatever allocations fail.
\<close>

section \<open>Invariant\<close>

definition late_stage :: "bundle6_parser_stage \<Rightarrow> bool" where
  "late_stage st \<longleftrightarrow> st \<in> {PARSER_STAGE_FRAGMENT_OFFSET, PARSER_STAGE_ADU_LENGTH, PARSER_STAGE_BLOCK_TYPE, PARSER_STAGE_BLOCK_FLAGS,
     PARSER_STAGE_BLOCK_EID_REF_CNT, PARSER_STAGE_BLOCK_EID_REF_SCH, PARSER_STAGE_BLOCK_EID_REF_SSP, PARSER_STAGE_BLOCK_DATA_LENGTH,
     PARSER_STAGE_BLOCK_DATA, PARSER_STAGE_DONE}"

definition block_stage_p :: "bundle6_parser_stage \<Rightarrow> bool" where
  "block_stage_p st \<longleftrightarrow> st \<in> {PARSER_STAGE_BLOCK_FLAGS, PARSER_STAGE_BLOCK_EID_REF_CNT, PARSER_STAGE_BLOCK_EID_REF_SCH,
     PARSER_STAGE_BLOCK_EID_REF_SSP, PARSER_STAGE_BLOCK_DATA_LENGTH, PARSER_STAGE_BLOCK_DATA}"

lemmas stage_kinds = late_stage_def block_stage_p_def

text \<open>The bundle exists and the current entry is one of its blocks or the place behind them.\<close>

definition p6_core :: "bundle6_parser \<Rightarrow> bool" where
  "p6_core p \<longleftrightarrow> p6_bundle p \<noteq> None \<and> p6_entry p \<le> length (blocks (the (p6_bundle p)))"

text \<open>A complete dictionary is terminated.\<close>

definition dict_complete_p :: "bundle6_parser \<Rightarrow> bool" where
  "dict_complete_p p \<longleftrightarrow> p6_dict p \<noteq> None \<and> length (the (p6_dict p)) = unat (p6_dict_length p) + 1
     \<and> the (p6_dict p) ! unat (p6_dict_length p) = 0"

text \<open>A dictionary on its way: position and remaining bytes add up to its length.\<close>

definition dict_filling :: "bundle6_parser \<Rightarrow> bool" where
  "dict_filling p \<longleftrightarrow> p6_cur_remaining p \<noteq> 0 \<and> unat (p6_index p) + unat (p6_cur_remaining p) = unat (p6_dict_length p)
     \<and> map_option length (p6_dict p) = Some (unat (p6_dict_length p) + 1)"

definition stage_needs :: "bundle6_parser_stage \<Rightarrow> bundle6_parser \<Rightarrow> bool" where
  "stage_needs st p \<longleftrightarrow> (late_stage st \<longrightarrow> dict_complete_p p) \<and> (block_stage_p st \<longrightarrow> cur_block p \<noteq> None)"

definition p6_inv :: "bundle6_parser \<Rightarrow> bool" where
  "p6_inv p \<longleftrightarrow> (p6_status p = PARSER_STATUS_GOOD \<longrightarrow>
     p6_core p \<and> p6_next_stage p = p6_current_stage p \<and> stage_needs (p6_current_stage p) p
     \<and> (p6_current_stage p = PARSER_STAGE_DICTIONARY \<longrightarrow> dict_filling p)
     \<and> (p6_bulk_read p \<longrightarrow> p6_current_stage p = PARSER_STAGE_BLOCK_DATA
         \<and> map_option length (blk_data (the (cur_block p))) = Some (p6_next_bytes p)))"

section \<open>Change of the stage\<close>

lemma cur_block_None: "cur_block p = None \<longleftrightarrow> p6_bundle p = None \<or> length (blocks (the (p6_bundle p))) \<le> p6_entry p"
  by (cases "p6_bundle p") (auto simp: cur_block_def)

lemmas safe_defs = p6_core_def stage_needs_def stage_kinds dict_complete_p_def cur_block_None

lemma core_cur_block: "cur_block p \<noteq> None \<Longrightarrow> \<exists>b. p6_bundle p = Some b \<and> p6_entry p < length (blocks b)"
  by (auto simp: cur_block_def split: option.splits if_splits)

lemma next_inv:
  assumes "p6_core p" "stage_needs (p6_next_stage p) p" "p6_status p = PARSER_STATUS_GOOD" "\<not> p6_bulk_read p"
  shows "\<exists>q. bundle6_parser_next env p = Inr q \<and> p6_inv q"
proof (cases "p6_next_stage p")
  case PARSER_STAGE_BLOCK_DATA
  then have "cur_block p \<noteq> None" using assms(2) by (simp add: stage_needs_def stage_kinds)
  then obtain b where b: "p6_bundle p = Some b" "p6_entry p < length (blocks b)" using core_cur_block by blast
  then show ?thesis using PARSER_STAGE_BLOCK_DATA assms
    by (simp add: bundle6_parser_next_def prepare_stage_def begin_block_data_def cur_block_def Let_def set_block_def set_bundle_def p6_inv_def
        p6_core_def stage_needs_def stage_kinds dict_complete_p_def)
next
  case PARSER_STAGE_DONE
  then show ?thesis using assms
    by (cases "p6_bundle p") (simp_all add: bundle6_parser_next_def prepare_stage_def bundle6_parser_send_bundle_def p6_core_def p6_inv_def Let_def)
next
  case PARSER_STAGE_DICTIONARY
  have "unat (ucast (p6_dict_length p) :: u32) = unat (p6_dict_length p)" by (simp add: unat_ucast_up)
  moreover have "p6_dict_length p \<noteq> 0 \<Longrightarrow> (ucast (p6_dict_length p) :: u32) \<noteq> 0" using calculation by (metis unat_eq_zero unsigned_0)
  ultimately show ?thesis using PARSER_STAGE_DICTIONARY assms
    by (auto simp: bundle6_parser_next_def prepare_stage_def begin_dictionary_def Let_def p6_inv_def dict_filling_def
        p6_core_def stage_needs_def stage_kinds split: option.splits)
qed ((use assms in \<open>cases "p6_bundle p"; simp add: bundle6_parser_next_def prepare_stage_def p6_inv_def safe_defs set_bundle_def Let_def\<close>)+)


section \<open>One byte\<close>

text \<open>What holds between the handling of a byte and the change of the stage.\<close>

definition after_byte :: "bundle6_parser_stage \<Rightarrow> bundle6_parser \<Rightarrow> bool" where
  "after_byte st p \<longleftrightarrow> p6_status p = PARSER_STATUS_ERROR \<or>
     p6_status p = PARSER_STATUS_GOOD \<and> p6_core p \<and> \<not> p6_bulk_read p \<and> p6_current_stage p = st \<and> stage_needs (p6_next_stage p) p
     \<and> (st = PARSER_STAGE_DICTIONARY \<and> p6_next_stage p = st \<longrightarrow> dict_filling p)"

text \<open>The part of the state a field stage does not touch.\<close>

definition kept :: "bundle6_parser \<Rightarrow> bundle6_parser \<Rightarrow> bool" where
  "kept p q \<longleftrightarrow> p6_status q = p6_status p \<and> p6_bulk_read q = p6_bulk_read p \<and> p6_current_stage q = p6_current_stage p
     \<and> p6_next_stage q = p6_next_stage p \<and> p6_entry q = p6_entry p
     \<and> (p6_bundle q = None) = (p6_bundle p = None) \<and> length (blocks (the (p6_bundle q))) = length (blocks (the (p6_bundle p)))
     \<and> (late_stage (p6_current_stage p) \<longrightarrow> p6_dict q = p6_dict p \<and> p6_dict_length q = p6_dict_length p)"

lemma kept_core: "kept p q \<Longrightarrow> p6_core q = p6_core p"
  by (auto simp: kept_def p6_core_def)

lemma kept_block: "kept p q \<Longrightarrow> cur_block q = None \<longleftrightarrow> cur_block p = None"
  by (simp add: kept_def cur_block_None)

lemma kept_dict: "kept p q \<Longrightarrow> late_stage (p6_current_stage p) \<Longrightarrow> dict_complete_p q = dict_complete_p p"
  by (auto simp: kept_def dict_complete_p_def)

lemma kept_needs:
  assumes "kept p q" "stage_needs (p6_current_stage p) p" "late_stage st \<longrightarrow> late_stage (p6_current_stage p)"
    "block_stage_p st \<longrightarrow> block_stage_p (p6_current_stage p)"
  shows "stage_needs st q"
  using assms kept_block[OF assms(1)] kept_dict[OF assms(1)] by (auto simp: stage_needs_def)

lemma block_late: "block_stage_p st \<Longrightarrow> late_stage st"
  by (auto simp: stage_kinds)

lemma read_field_after:
  assumes "p6_inv p" "p6_status p = PARSER_STATUS_GOOD" "\<not> p6_bulk_read p" "p6_current_stage p \<noteq> PARSER_STAGE_DICTIONARY"
    and "\<And>v s. kept p (put v (p\<lparr>p6_sdnv := s\<rparr>))"
    and "late_stage st \<longrightarrow> late_stage (p6_current_stage p)" "block_stage_p st \<longrightarrow> block_stage_p (p6_current_stage p)"
  shows "after_byte (p6_current_stage p) (snd (read_field rd get put st byte p))"
    "fst (read_field rd get put st byte p) \<Longrightarrow> kept (p\<lparr>p6_next_stage := st\<rparr>) (snd (read_field rd get put st byte p))"
proof -
  obtain s v where sv: "rd (p6_sdnv p) (get p) byte = (s, v)" by (cases "rd (p6_sdnv p) (get p) byte")
  let ?q = "put v (p\<lparr>p6_sdnv := s\<rparr>)"
  have k: "kept p ?q" by (rule assms(5))
  have i: "p6_core p" "p6_next_stage p = p6_current_stage p" "stage_needs (p6_current_stage p) p" using assms(1,2) by (simp_all add: p6_inv_def)
  have q: "p6_core ?q" "stage_needs (p6_current_stage p) ?q" "stage_needs st ?q" "p6_status ?q = PARSER_STATUS_GOOD" "\<not> p6_bulk_read ?q"
      "p6_current_stage ?q = p6_current_stage p" "p6_next_stage ?q = p6_current_stage p"
    using kept_core[OF k] kept_needs[OF k i(3)] i assms(2,3,6,7) k by (auto simp: kept_def)
  have cong: "p6_core (?q\<lparr>p6_next_stage := st\<rparr>) = p6_core ?q" "stage_needs x (?q\<lparr>p6_next_stage := st\<rparr>) = stage_needs x ?q" for x
    by (simp_all add: p6_core_def stage_needs_def dict_complete_p_def cur_block_None)
  show "after_byte (p6_current_stage p) (snd (read_field rd get put st byte p))"
    using q cong assms(4) by (simp add: read_field_def sv bundle6_parser_wait_for_sdnv_def after_byte_def split: sdnv_status.split)
  show "fst (read_field rd get put st byte p) \<Longrightarrow> kept (p\<lparr>p6_next_stage := st\<rparr>) (snd (read_field rd get put st byte p))"
    using k by (simp add: read_field_def sv bundle6_parser_wait_for_sdnv_def kept_def split: sdnv_status.splits)
qed

lemma kept_put:
  "kept p (set_bundle f p) \<longleftrightarrow> (p6_bundle p = None \<or> length (blocks (f (the (p6_bundle p)))) = length (blocks (the (p6_bundle p))))"
  "kept p (set_block g p)"
  by (cases "p6_bundle p"; auto simp: kept_def set_bundle_def set_block_def)+

lemma read_eid_safe:
  assumes "length d = n + 1" "d ! n = 0"
  shows "\<exists>e as'. bundle6_read_eid (Some d) n ref as = Inr (e, as')"
proof (cases "unat (ref_scheme ref) \<ge> n \<or> unat (ref_ssp ref) \<ge> n")
  case False
  have z: "0 \<in> set (drop k d)" if k: "k < n" for k
  proof -
    have "drop k d ! (n - k) = 0" "n - k < length (drop k d)" using assms k by simp_all
    then show ?thesis by (metis nth_mem)
  qed
  then have "\<exists>l. c_strlen (drop (unat (ref_scheme ref)) d) = Inr l" "\<exists>l. c_strlen (drop (unat (ref_ssp ref)) d) = Inr l"
    using False by (simp_all add: c_strlen_def)
  then show ?thesis using False by (auto simp: bundle6_read_eid_def Let_def)
qed (simp add: bundle6_read_eid_def Let_def)

lemma complete_dict: "dict_complete_p p \<Longrightarrow> \<exists>e as'. bundle6_read_eid (p6_dict p) (unat (p6_dict_length p)) ref as = Inr (e, as')"
  using read_eid_safe[of "the (p6_dict p)" "unat (p6_dict_length p)" ref as] by (auto simp: dict_complete_p_def)

lemma end_dictionary_after:
  assumes "dict_complete_p p" "p6_core p" "p6_status p = PARSER_STATUS_GOOD" "\<not> p6_bulk_read p" "p6_current_stage p = PARSER_STAGE_DICTIONARY"
  shows "\<exists>q. end_dictionary p = Inr q \<and> after_byte PARSER_STAGE_DICTIONARY q"
proof -
  obtain b where b: "p6_bundle p = Some b" using assms(2) by (auto simp: p6_core_def)
  obtain e1 as1 where r1: "bundle6_read_eid (p6_dict p) (unat (p6_dict_length p)) (p6_source_ref p) (p6_allocs p) = Inr (e1, as1)"
    using complete_dict[OF assms(1)] by blast
  obtain e2 as2 where r2: "bundle6_read_eid (p6_dict p) (unat (p6_dict_length p)) (p6_destination_ref p) as1 = Inr (e2, as2)"
    using complete_dict[OF assms(1)] by blast
  obtain e3 as3 where r3: "bundle6_read_eid (p6_dict p) (unat (p6_dict_length p)) (p6_report_ref p) as2 = Inr (e3, as3)"
    using complete_dict[OF assms(1)] by blast
  obtain e4 as4 where r4: "bundle6_read_eid (p6_dict p) (unat (p6_dict_length p)) (p6_custodian_ref p) as3 = Inr (e4, as4)"
    using complete_dict[OF assms(1)] by blast
  show ?thesis
    using assms b unfolding end_dictionary_def Let_def r1 r2 r3 r4 by (simp add: r1 r2 r3 r4 after_byte_def safe_defs)
qed

lemma dictionary_byte_after:
  assumes "dict_filling p" "p6_core p" "p6_status p = PARSER_STATUS_GOOD" "\<not> p6_bulk_read p" "p6_current_stage p = PARSER_STAGE_DICTIONARY"
    "p6_next_stage p = PARSER_STAGE_DICTIONARY"
  shows "\<exists>q. dictionary_byte byte p = Inr q \<and> after_byte PARSER_STAGE_DICTIONARY q"
proof -
  let ?n = "unat (p6_dict_length p)" and ?i = "unat (p6_index p)"
  obtain d where d: "p6_dict p = Some d" "length d = ?n + 1" using assms(1) by (auto simp: dict_filling_def)
  have r: "p6_cur_remaining p \<noteq> 0" "?i + unat (p6_cur_remaining p) = ?n" using assms(1) by (simp_all add: dict_filling_def)
  then have "unat (p6_cur_remaining p) \<noteq> 0" by (metis unat_eq_zero unsigned_0)
  then have r': "unat (p6_cur_remaining p - 1) = unat (p6_cur_remaining p) - 1" "?i < ?n" using r by (simp_all add: unat_minus_one)
  have n: "?n < 65536" using unat_max(2)[of "p6_dict_length p"] by simp
  have i: "unat (p6_index p + 1) = ?i + 1" using r' n by (simp add: unat_word_ariths)
  let ?d = "take ?i d @ [byte] @ drop (?i + 1) d"
  define p1 where "p1 = p\<lparr>p6_cur_remaining := p6_cur_remaining p - 1, p6_dict := Some ?d, p6_index := p6_index p + 1\<rparr>"
  have f: "p6_cur_remaining p1 = p6_cur_remaining p - 1" "p6_dict p1 = Some ?d" "p6_index p1 = p6_index p + 1" "p6_dict_length p1 = p6_dict_length p"
      "p6_status p1 = PARSER_STATUS_GOOD" "\<not> p6_bulk_read p1" "p6_current_stage p1 = PARSER_STAGE_DICTIONARY" "p6_next_stage p1 = PARSER_STAGE_DICTIONARY"
      "p6_core p1"
    using assms by (simp_all add: p1_def p6_core_def)
  have ld: "length ?d = ?n + 1" using r' d by simp
  have m: "memcpy_at (p6_dict p) ?i [byte] = Inr ?d" using d r' by (simp add: memcpy_at_Some)
  show ?thesis
  proof (cases "p6_cur_remaining p - 1 = 0")
    case False
    have "unat (p6_index p + 1) + unat (p6_cur_remaining p - 1) = ?n" unfolding i r'(1) using r(2) \<open>unat (p6_cur_remaining p) \<noteq> 0\<close> by linarith
    then have "dict_filling p1" using False ld unfolding dict_filling_def f by simp
    then have "after_byte PARSER_STAGE_DICTIONARY p1"
      unfolding after_byte_def stage_needs_def stage_kinds f using f(5-9) by simp
    moreover have "dictionary_byte byte p = Inr p1"
      unfolding dictionary_byte_def m bindE_simps Let_def p1_def[symmetric] f using False by simp
    ultimately show ?thesis by blast
  next
    case True
    have l: "?i + 1 = ?n" using r(2) r'(1)[unfolded True] \<open>unat (p6_cur_remaining p) \<noteq> 0\<close> by simp
    let ?e = "take (?i + 1) ?d @ [0] @ drop (?i + 1 + 1) ?d"
    have m2: "memcpy_at (Some ?d) (?i + 1) [0] = Inr ?e" using ld l by (subst memcpy_at_Some) simp_all
    have e: "length ?e = ?n + 1" "?e ! ?n = 0" using ld l by (simp_all add: nth_append del: append_Cons)
    define q where "q = p1\<lparr>p6_dict := Some ?e, p6_index := p6_index p1 + 1\<rparr>"
    have dc: "dict_complete_p q" using e f(4) by (simp add: dict_complete_p_def q_def)
    have "\<exists>r. end_dictionary q = Inr r \<and> after_byte PARSER_STAGE_DICTIONARY r"
      using f by (intro end_dictionary_after[OF dc]) (simp_all add: p6_core_def q_def)
    moreover have "dictionary_byte byte p = end_dictionary q"
      unfolding dictionary_byte_def m bindE_simps Let_def p1_def[symmetric] f using True m2 i by (simp add: q_def f)
    ultimately show ?thesis by simp
  qed
qed

text \<open>A state inside a byte with everything the invariant gives for a stage other than the dictionary.\<close>

definition at_stage :: "bundle6_parser_stage \<Rightarrow> bundle6_parser \<Rightarrow> bool" where
  "at_stage st p \<longleftrightarrow> p6_status p = PARSER_STATUS_GOOD \<and> p6_core p \<and> \<not> p6_bulk_read p \<and> p6_current_stage p = st \<and> p6_next_stage p = st \<and> stage_needs st p"

lemma at_stage_inv: "at_stage st p \<Longrightarrow> st \<noteq> PARSER_STAGE_DICTIONARY \<Longrightarrow> p6_inv p"
  by (auto simp: at_stage_def p6_inv_def)

lemma after_byte_error: "p6_status p = PARSER_STATUS_ERROR \<Longrightarrow> after_byte st p"
  by (simp add: after_byte_def)

lemma after_byte_kept:
  assumes "at_stage st p" "kept (p\<lparr>p6_next_stage := nx\<rparr>) q" "st \<noteq> PARSER_STAGE_DICTIONARY" "late_stage nx \<longrightarrow> late_stage st" "block_stage_p nx \<longrightarrow> block_stage_p st"
  shows "after_byte st q"
proof -
  have "kept p (q\<lparr>p6_next_stage := st\<rparr>)" using assms(1,2) by (simp add: kept_def at_stage_def)
  from kept_needs[OF this, of nx] kept_core[OF this] have "p6_core q" "stage_needs nx q"
    using assms by (simp_all add: at_stage_def p6_core_def stage_needs_def dict_complete_p_def cur_block_None)
  then show ?thesis using assms by (auto simp: after_byte_def kept_def at_stage_def)
qed

lemma field_after:
  assumes "at_stage st p" "st \<noteq> PARSER_STAGE_DICTIONARY" "\<And>v s. kept p (put v (p\<lparr>p6_sdnv := s\<rparr>))"
    "late_stage nx \<longrightarrow> late_stage st" "block_stage_p nx \<longrightarrow> block_stage_p st"
  shows "after_byte st (snd (read_field rd get put nx byte p))"
    "fst (read_field rd get put nx byte p) \<Longrightarrow> kept (p\<lparr>p6_next_stage := nx\<rparr>) (snd (read_field rd get put nx byte p))"
  using read_field_after[of p put nx rd get byte] at_stage_inv[OF assms(1,2)] assms unfolding at_stage_def by auto

lemma kept_sdnv: "kept p (f (p\<lparr>p6_sdnv := s\<rparr>)) \<longleftrightarrow> kept (p\<lparr>p6_sdnv := s\<rparr>) (f (p\<lparr>p6_sdnv := s\<rparr>))"
  by (simp add: kept_def)

lemma kept_set_block [simp]: "kept p (set_block g (p\<lparr>p6_sdnv := s\<rparr>))"
  using kept_sdnv[of p "set_block g" s] kept_put(2) by simp

lemma kept_set_bundle: "(\<And>b. length (blocks (f b)) = length (blocks b)) \<Longrightarrow> kept p (set_bundle f (p\<lparr>p6_sdnv := s\<rparr>))"
  using kept_sdnv[of p "set_bundle f" s] kept_put(1) by simp

text \<open>The stages that do more than read a number.\<close>

lemma block_flags_after:
  assumes "at_stage PARSER_STAGE_BLOCK_FLAGS p"
  shows "\<exists>q. block_flags_byte byte p = Inr q \<and> after_byte PARSER_STAGE_BLOCK_FLAGS q"
proof -
  let ?f = "read_field sdnv_read_u8 (\<lambda>p. ucast (blk_flags (the (cur_block p))))
            (\<lambda>v. set_block (\<lambda>blk. blk\<lparr>blk_flags := (blk_flags blk AND NOT 0xFF) OR ucast v\<rparr>)) PARSER_STAGE_BLOCK_DATA_LENGTH byte p"
  obtain d p1 where f: "?f = (d, p1)" by (cases ?f)
  obtain k where k: "cur_block p = Some k" using assms by (auto simp: at_stage_def stage_needs_def stage_kinds)
  have a: "after_byte PARSER_STAGE_BLOCK_FLAGS p1" "d \<Longrightarrow> kept (p\<lparr>p6_next_stage := PARSER_STAGE_BLOCK_DATA_LENGTH\<rparr>) p1"
    using field_after[OF assms, of "\<lambda>v. set_block (\<lambda>blk. blk\<lparr>blk_flags := (blk_flags blk AND NOT 0xFF) OR ucast v\<rparr>)" PARSER_STAGE_BLOCK_DATA_LENGTH
      sdnv_read_u8 "\<lambda>p. ucast (blk_flags (the (cur_block p)))" byte] f by (simp_all add: stage_kinds)
  show ?thesis
  proof (cases d)
    case False
    then show ?thesis using f k a by (simp add: block_flags_byte_def)
  next
    case True
    note kp = a(2)[OF True]
    have "cur_block (p\<lparr>p6_next_stage := PARSER_STAGE_BLOCK_DATA_LENGTH\<rparr>) \<noteq> None" using k cur_block_None[of p] by (simp add: cur_block_None)
    then obtain k1 where k1: "cur_block p1 = Some k1" using kept_block[OF kp] by auto
    let ?q = "p1\<lparr>p6_last_block := HAS_FLAG (blk_flags k1) BUNDLE_V6_BLOCK_FLAG_LAST_BLOCK\<rparr>"
    have q: "kept (p\<lparr>p6_next_stage := PARSER_STAGE_BLOCK_DATA_LENGTH\<rparr>) ?q"
      "kept (p\<lparr>p6_next_stage := PARSER_STAGE_BLOCK_EID_REF_CNT\<rparr>) (?q\<lparr>p6_next_stage := PARSER_STAGE_BLOCK_EID_REF_CNT\<rparr>)"
      using kp by (simp_all add: kept_def)
    have "after_byte PARSER_STAGE_BLOCK_FLAGS ?q" "after_byte PARSER_STAGE_BLOCK_FLAGS (?q\<lparr>p6_next_stage := PARSER_STAGE_BLOCK_EID_REF_CNT\<rparr>)"
      using after_byte_kept[OF assms q(1)] after_byte_kept[OF assms q(2)] by (simp_all add: stage_kinds)
    then show ?thesis using f k k1 True by (simp add: block_flags_byte_def Let_def)
  qed
qed

lemma eid_ref_cnt_after:
  assumes "at_stage PARSER_STAGE_BLOCK_EID_REF_CNT p"
  shows "\<exists>q. eid_ref_cnt_byte byte p = Inr q \<and> after_byte PARSER_STAGE_BLOCK_EID_REF_CNT q"
proof -
  let ?f = "read_field sdnv_read_u32 p6_size (\<lambda>v p. p\<lparr>p6_size := v\<rparr>) PARSER_STAGE_BLOCK_EID_REF_SCH byte p"
  obtain d p1 where f: "?f = (d, p1)" by (cases ?f)
  have a: "after_byte PARSER_STAGE_BLOCK_EID_REF_CNT p1" "d \<Longrightarrow> kept (p\<lparr>p6_next_stage := PARSER_STAGE_BLOCK_EID_REF_SCH\<rparr>) p1"
    using field_after[OF assms, of "\<lambda>v p. p\<lparr>p6_size := v\<rparr>" PARSER_STAGE_BLOCK_EID_REF_SCH sdnv_read_u32 p6_size byte] f
    by (simp_all add: stage_kinds kept_def)
  show ?thesis
  proof (cases d)
    case False
    then show ?thesis using f a by (simp add: eid_ref_cnt_byte_def)
  next
    case True
    note kp = a(2)[OF True]
    let ?q = "p1\<lparr>p6_index := 0\<rparr>"
    have q: "kept (p\<lparr>p6_next_stage := PARSER_STAGE_BLOCK_EID_REF_SCH\<rparr>) ?q"
      "kept (p\<lparr>p6_next_stage := PARSER_STAGE_BLOCK_DATA_LENGTH\<rparr>) (?q\<lparr>p6_next_stage := PARSER_STAGE_BLOCK_DATA_LENGTH\<rparr>)"
      using kp by (simp_all add: kept_def)
    have "after_byte PARSER_STAGE_BLOCK_EID_REF_CNT ?q" "after_byte PARSER_STAGE_BLOCK_EID_REF_CNT (?q\<lparr>p6_next_stage := PARSER_STAGE_BLOCK_DATA_LENGTH\<rparr>)"
      using after_byte_kept[OF assms q(1)] after_byte_kept[OF assms q(2)] by (simp_all add: stage_kinds)
    then show ?thesis using f True by (simp add: eid_ref_cnt_byte_def Let_def)
  qed
qed

lemma eid_ref_ssp_after:
  assumes "at_stage PARSER_STAGE_BLOCK_EID_REF_SSP p"
  shows "\<exists>q. eid_ref_ssp_byte byte p = Inr q \<and> after_byte PARSER_STAGE_BLOCK_EID_REF_SSP q"
proof -
  let ?put = "\<lambda>v p. p\<lparr>p6_cur_ref := (p6_cur_ref p)\<lparr>ref_ssp := v\<rparr>\<rparr>"
  let ?f = "read_field sdnv_read_u16 (\<lambda>p. ref_ssp (p6_cur_ref p)) ?put PARSER_STAGE_BLOCK_EID_REF_SCH byte p"
  obtain d p1 where f: "?f = (d, p1)" by (cases ?f)
  have a: "after_byte PARSER_STAGE_BLOCK_EID_REF_SSP p1" "d \<Longrightarrow> kept (p\<lparr>p6_next_stage := PARSER_STAGE_BLOCK_EID_REF_SCH\<rparr>) p1"
    using field_after[OF assms, of ?put PARSER_STAGE_BLOCK_EID_REF_SCH sdnv_read_u16 "\<lambda>p. ref_ssp (p6_cur_ref p)" byte] f
    by (simp_all add: stage_kinds kept_def)
  show ?thesis
  proof (cases "d \<and> malloc_ok (p6_allocs p1)")
    case False
    then show ?thesis using f a by (cases d) (simp_all add: eid_ref_ssp_byte_def after_byte_error)
  next
    case True
    note kp = a(2)[OF True[THEN conjunct1]]
    have "late_stage PARSER_STAGE_BLOCK_EID_REF_SSP" "block_stage_p PARSER_STAGE_BLOCK_EID_REF_SSP" by (simp_all add: stage_kinds)
    then have p: "dict_complete_p (p\<lparr>p6_next_stage := PARSER_STAGE_BLOCK_EID_REF_SCH\<rparr>)" "cur_block (p\<lparr>p6_next_stage := PARSER_STAGE_BLOCK_EID_REF_SCH\<rparr>) \<noteq> None"
      "late_stage (p6_current_stage (p\<lparr>p6_next_stage := PARSER_STAGE_BLOCK_EID_REF_SCH\<rparr>))"
      using assms by (simp_all add: at_stage_def stage_needs_def dict_complete_p_def cur_block_None)
    then obtain k1 where k1: "cur_block p1 = Some k1" using kept_block[OF kp] by auto
    have "dict_complete_p p1" using kept_dict[OF kp p(3)] p(1) by simp
    from complete_dict[OF this] obtain e as where e: "bundle6_read_eid (p6_dict p1) (unat (p6_dict_length p1)) (p6_cur_ref p1) (malloc_rest (p6_allocs p1)) = Inr (e, as)"
      by blast
    define q where "q = (set_block (\<lambda>blk. blk\<lparr>blk_eid_refs := e # blk_eid_refs blk\<rparr>) p1)\<lparr>p6_allocs := as, p6_index := p6_index p1 + 1\<rparr>"
    have "kept p1 (set_block (\<lambda>blk. blk\<lparr>blk_eid_refs := e # blk_eid_refs blk\<rparr>) p1)" by (rule kept_put)
    then have q: "kept (p\<lparr>p6_next_stage := PARSER_STAGE_BLOCK_EID_REF_SCH\<rparr>) q"
      "kept (p\<lparr>p6_next_stage := PARSER_STAGE_BLOCK_DATA_LENGTH\<rparr>) (q\<lparr>p6_next_stage := PARSER_STAGE_BLOCK_DATA_LENGTH\<rparr>)"
      using kp by (simp_all add: kept_def q_def)
    have "after_byte PARSER_STAGE_BLOCK_EID_REF_SSP q" "after_byte PARSER_STAGE_BLOCK_EID_REF_SSP (q\<lparr>p6_next_stage := PARSER_STAGE_BLOCK_DATA_LENGTH\<rparr>)"
      "after_byte PARSER_STAGE_BLOCK_EID_REF_SSP (q\<lparr>p6_status := PARSER_STATUS_ERROR\<rparr>)"
      using after_byte_kept[OF assms q(1)] after_byte_kept[OF assms q(2)] by (simp_all add: stage_kinds after_byte_error)
    moreover have "eid_ref_ssp_byte byte p = Inr (if e = None then q\<lparr>p6_status := PARSER_STATUS_ERROR\<rparr>
        else if p6_index q = p6_size q then q\<lparr>p6_next_stage := PARSER_STAGE_BLOCK_DATA_LENGTH\<rparr> else q)"
      unfolding eid_ref_ssp_byte_def f q_def Let_def using k1 e True by simp
    ultimately show ?thesis by simp
  qed
qed

lemma begin_block_after:
  assumes "at_stage PARSER_STAGE_BLOCK_TYPE p"
  shows "\<exists>q. bundle6_parser_begin_block env (p\<lparr>p6_next_stage := PARSER_STAGE_BLOCK_FLAGS\<rparr>) byte = Inr q \<and> after_byte PARSER_STAGE_BLOCK_TYPE q"
proof -
  obtain b where b: "p6_bundle p = Some b" "p6_entry p \<le> length (blocks b)" using assms by (auto simp: at_stage_def p6_core_def)
  have d: "dict_complete_p p" using assms by (simp add: at_stage_def stage_needs_def stage_kinds)
  obtain ko as1 where k: "bundle_block_create (v6_block_junk env) (ucast byte) (p6_allocs p) = (ko, as1)"
    by (cases "bundle_block_create (v6_block_junk env) (ucast byte) (p6_allocs p)")
  show ?thesis
  proof (cases ko)
    case None
    then show ?thesis using k by (simp add: bundle6_parser_begin_block_def after_byte_error)
  next
    case (Some k')
    obtain eo as2 where e: "bundle_block_entry_create (Some k') as1 = (eo, as2)" by (cases "bundle_block_entry_create (Some k') as1")
    show ?thesis
      using k Some e b d assms
      by (cases eo) (simp_all add: bundle6_parser_begin_block_def after_byte_def safe_defs at_stage_def Let_def)
  qed
qed

lemma block_data_after:
  assumes "at_stage PARSER_STAGE_BLOCK_DATA p"
  shows "\<exists>q. block_data_byte p = Inr q \<and> after_byte PARSER_STAGE_BLOCK_DATA q \<and> p6_next_bytes q = p6_next_bytes p
    \<and> (p6_status q \<noteq> PARSER_STATUS_ERROR \<longrightarrow> p6_next_stage q \<in> {PARSER_STAGE_DONE, PARSER_STAGE_BLOCK_TYPE})"
  using assms by (auto simp: block_data_byte_def bundle6_parser_end_block_def after_byte_def safe_defs at_stage_def Let_def)

text \<open>The stages that only read a number.\<close>

lemma bundle_field_after:
  assumes "at_stage st p" "st \<noteq> PARSER_STAGE_DICTIONARY" "\<And>v b. length (blocks (put v b)) = length (blocks b)"
    "late_stage nx \<longrightarrow> late_stage st" "\<not> block_stage_p nx"
  shows "\<exists>q. bundle_field rd get put nx byte p = Inr q \<and> after_byte st q"
proof -
  obtain b where "p6_bundle p = Some b" using assms(1) by (auto simp: at_stage_def p6_core_def)
  then show ?thesis
    using field_after(1)[OF assms(1,2), of "\<lambda>v. set_bundle (put v)" nx rd "\<lambda>p. get (the (p6_bundle p))" byte] kept_set_bundle assms(3-5)
    by (simp add: bundle_field_def)
qed

lemma parser_field_after:
  assumes "at_stage st p" "st \<noteq> PARSER_STAGE_DICTIONARY" "\<And>v s. kept p (put v (p\<lparr>p6_sdnv := s\<rparr>))"
    "late_stage nx \<longrightarrow> late_stage st" "block_stage_p nx \<longrightarrow> block_stage_p st"
  shows "\<exists>q. parser_field rd get put nx byte p = Inr q \<and> after_byte st q"
  using field_after(1)[OF assms(1,2), of put nx rd get byte] assms(3-5) by (simp add: parser_field_def)

lemma data_length_after:
  assumes "at_stage PARSER_STAGE_BLOCK_DATA_LENGTH p"
  shows "\<exists>q. stage_byte env p byte = Inr q \<and> after_byte PARSER_STAGE_BLOCK_DATA_LENGTH q"
proof -
  obtain k where k: "cur_block p = Some k" using assms by (auto simp: at_stage_def stage_needs_def stage_kinds)
  have "p6_current_stage p = PARSER_STAGE_BLOCK_DATA_LENGTH" using assms by (simp add: at_stage_def)
  then show ?thesis
    using field_after(1)[OF assms, of "\<lambda>v. set_block (\<lambda>blk. blk\<lparr>blk_length := v\<rparr>)" PARSER_STAGE_BLOCK_DATA sdnv_read_u32
        "\<lambda>p. blk_length (the (cur_block p))" byte] k
    by (simp add: stage_byte_def stage_kinds)
qed

lemma stage_byte_after:
  assumes "p6_inv p" "p6_status p = PARSER_STATUS_GOOD" "\<not> p6_bulk_read p"
  shows "\<exists>q. stage_byte env p byte = Inr q \<and> after_byte (p6_current_stage p) q"
proof -
  have a: "at_stage (p6_current_stage p) p" "p6_current_stage p = PARSER_STAGE_DICTIONARY \<Longrightarrow> dict_filling p"
    using assms by (simp_all add: p6_inv_def at_stage_def)
  show ?thesis
  proof (cases "p6_current_stage p")
    case PARSER_STAGE_VERSION
    then obtain b where b: "p6_bundle p = Some b" using a(1) by (auto simp: at_stage_def p6_core_def)
    show ?thesis using PARSER_STAGE_VERSION b a(1) by (simp add: stage_byte_def set_bundle_def after_byte_def safe_defs at_stage_def)
  next
    case PARSER_STAGE_DICTIONARY
    then show ?thesis using a dictionary_byte_after[of p byte] by (simp add: stage_byte_def at_stage_def)
  next
    case PARSER_STAGE_BLOCK_TYPE
    then show ?thesis using a(1) begin_block_after[of p env byte] by (simp add: stage_byte_def)
  next
    case PARSER_STAGE_BLOCK_DATA
    then show ?thesis using a(1) block_data_after[of p] by (auto simp: stage_byte_def)
  next
    case PARSER_STAGE_BLOCK_DATA_LENGTH
    then show ?thesis using a(1) data_length_after[of p env byte] by simp
  next
    case PARSER_STAGE_BLOCK_FLAGS
    then show ?thesis using a(1) block_flags_after[of p byte] by (simp add: stage_byte_def)
  next
    case PARSER_STAGE_BLOCK_EID_REF_CNT
    then show ?thesis using a(1) eid_ref_cnt_after[of p byte] by (simp add: stage_byte_def)
  next
    case PARSER_STAGE_BLOCK_EID_REF_SSP
    then show ?thesis using a(1) eid_ref_ssp_after[of p byte] by (simp add: stage_byte_def)
  next
    case PARSER_STAGE_DONE
    then show ?thesis by (simp add: stage_byte_def after_byte_error)
  qed (use a(1) in \<open>simp_all add: stage_byte_def bundle_field_after parser_field_after stage_kinds kept_def\<close>)
qed

section \<open>Buffers of bytes\<close>

lemma inv_primary [simp]: "p6_inv (p\<lparr>p6_primary_remaining := r\<rparr>) = p6_inv p"
  by (simp add: p6_inv_def safe_defs dict_filling_def) (cases "p6_bundle p"; simp add: cur_block_def)

lemma after_byte_inv: "after_byte st p \<Longrightarrow> p6_next_stage p = st \<Longrightarrow> p6_inv p"
  by (auto simp: after_byte_def p6_inv_def)

lemma read_byte_inv:
  assumes "p6_inv p" "p6_status p = PARSER_STATUS_GOOD" "\<not> p6_bulk_read p"
  shows "\<exists>q. bundle6_parser_read_byte env p byte = Inr q \<and> p6_inv q"
proof (cases "p6_current_block p = PARSER_BLOCK_PRIMARY \<and> bundle6_parser_length_known p \<and> p6_primary_remaining p = 0")
  case True
  then show ?thesis by (simp add: bundle6_parser_read_byte_def p6_inv_def)
next
  case False
  define p1 where "p1 = (if p6_current_block p = PARSER_BLOCK_PRIMARY then p\<lparr>p6_primary_remaining := p6_primary_remaining p - 1\<rparr> else p)"
  have "p6_inv p1" "p6_status p1 = PARSER_STATUS_GOOD" "\<not> p6_bulk_read p1" "p6_current_stage p1 = p6_current_stage p" using assms by (simp_all add: p1_def)
  then obtain p2 where p2: "stage_byte env p1 byte = Inr p2" "after_byte (p6_current_stage p) p2" using stage_byte_after[of p1 env byte] by auto
  have r: "bundle6_parser_read_byte env p byte = (if p6_current_stage p2 \<noteq> p6_next_stage p2 \<and> p6_status p2 \<noteq> PARSER_STATUS_ERROR
      then bundle6_parser_next env p2 else Inr p2)"
    using False p2(1) unfolding bundle6_parser_read_byte_def p1_def by (simp only: if_False Let_def bindE_simps)
  show ?thesis
  proof (cases "p6_current_stage p2 \<noteq> p6_next_stage p2 \<and> p6_status p2 \<noteq> PARSER_STATUS_ERROR")
    case True
    then have "p6_core p2" "stage_needs (p6_next_stage p2) p2" "p6_status p2 = PARSER_STATUS_GOOD" "\<not> p6_bulk_read p2"
      using p2(2) by (auto simp: after_byte_def)
    from next_inv[OF this] show ?thesis using r True by simp
  next
    case f: False
    then have "p6_inv p2" using p2(2) by (auto simp: after_byte_def p6_inv_def)
    then show ?thesis using r f by auto
  qed
qed

lemma next_bytes_kept:
  assumes "p6_next_stage p \<in> {PARSER_STAGE_DONE, PARSER_STAGE_BLOCK_TYPE}" "p6_bundle p \<noteq> None"
  shows "\<exists>q. bundle6_parser_next env p = Inr q \<and> p6_next_bytes q = p6_next_bytes p"
  using assms by (cases "p6_bundle p") (auto simp: bundle6_parser_next_def prepare_stage_def bundle6_parser_send_bundle_def Let_def)

lemma data_end:
  assumes "at_stage PARSER_STAGE_BLOCK_DATA p"
  shows "\<exists>q. bundle6_parser_read_byte env p 0 = Inr q \<and> p6_inv q \<and> p6_next_bytes q = p6_next_bytes p"
proof -
  have i: "p6_inv p" "p6_status p = PARSER_STATUS_GOOD" "\<not> p6_bulk_read p" "p6_current_stage p = PARSER_STAGE_BLOCK_DATA"
    using assms at_stage_inv[OF assms] by (simp_all add: at_stage_def)
  obtain q where q: "bundle6_parser_read_byte env p 0 = Inr q" "p6_inv q" using read_byte_inv[OF i(1-3)] by blast
  have "p6_next_bytes q = p6_next_bytes p"
  proof (cases "p6_current_block p = PARSER_BLOCK_PRIMARY \<and> bundle6_parser_length_known p \<and> p6_primary_remaining p = 0")
    case True
    then show ?thesis using q(1) by (auto simp: bundle6_parser_read_byte_def)
  next
    case False
    define p1 where "p1 = (if p6_current_block p = PARSER_BLOCK_PRIMARY then p\<lparr>p6_primary_remaining := p6_primary_remaining p - 1\<rparr> else p)"
    have "p6_inv p1" "p6_status p1 = PARSER_STATUS_GOOD" "\<not> p6_bulk_read p1" and s: "p6_current_stage p1 = PARSER_STAGE_BLOCK_DATA"
      using i by (simp_all add: p1_def)
    then have "at_stage PARSER_STAGE_BLOCK_DATA p1" by (simp add: p6_inv_def at_stage_def)
    from block_data_after[OF this] obtain p2 where p2: "block_data_byte p1 = Inr p2" "after_byte PARSER_STAGE_BLOCK_DATA p2"
        "p6_next_bytes p2 = p6_next_bytes p1" "p6_status p2 \<noteq> PARSER_STATUS_ERROR \<longrightarrow> p6_next_stage p2 \<in> {PARSER_STAGE_DONE, PARSER_STAGE_BLOCK_TYPE}" by blast
    have "stage_byte env p1 0 = Inr p2" using p2(1) s by (simp add: stage_byte_def)
    then have r: "bundle6_parser_read_byte env p 0 = (if p6_current_stage p2 \<noteq> p6_next_stage p2 \<and> p6_status p2 \<noteq> PARSER_STATUS_ERROR
        then bundle6_parser_next env p2 else Inr p2)"
      using False unfolding bundle6_parser_read_byte_def p1_def by (simp only: if_False Let_def bindE_simps)
    have n: "p6_next_bytes p2 = p6_next_bytes p" using p2(3) by (simp add: p1_def)
    show ?thesis
    proof (cases "p6_current_stage p2 \<noteq> p6_next_stage p2 \<and> p6_status p2 \<noteq> PARSER_STATUS_ERROR")
      case True
      then have "p6_bundle p2 \<noteq> None" "p6_next_stage p2 \<in> {PARSER_STAGE_DONE, PARSER_STAGE_BLOCK_TYPE}"
        using p2(2,4) by (auto simp: after_byte_def p6_core_def)
      from next_bytes_kept[OF this(2,1), of env] show ?thesis using r True q(1) n by auto
    next
      case f: False
      then show ?thesis using r q(1) n by auto
    qed
  qed
  then show ?thesis using q by blast
qed

lemma bulk_copy_stage:
  assumes "p6_inv p" "p6_status p = PARSER_STATUS_GOOD" "p6_bulk_read p" "length data = p6_next_bytes p"
  shows "\<exists>q. bulk_copy p data = Inr q \<and> at_stage PARSER_STAGE_BLOCK_DATA q \<and> p6_next_bytes q = p6_next_bytes p"
proof -
  have i: "p6_core p" "p6_current_stage p = PARSER_STAGE_BLOCK_DATA" "p6_next_stage p = PARSER_STAGE_BLOCK_DATA" "stage_needs PARSER_STAGE_BLOCK_DATA p"
    "map_option length (blk_data (the (cur_block p))) = Some (p6_next_bytes p)"
    using assms by (auto simp: p6_inv_def)
  then obtain k where k: "cur_block p = Some k" by (auto simp: stage_needs_def stage_kinds)
  then obtain r where r: "blk_data k = Some r" "length r = p6_next_bytes p" using i(5) by auto
  let ?s = "set_block (\<lambda>blk. blk\<lparr>blk_data := Some data\<rparr>) p"
  have "bulk_copy p data = Inr (?s\<lparr>p6_bulk_read := False\<rparr>)"
    using k r assms(4) by (simp add: bulk_copy_def memcpy_at_Some)
  moreover have "at_stage PARSER_STAGE_BLOCK_DATA (?s\<lparr>p6_bulk_read := False\<rparr>)"
    using i assms(2) unfolding at_stage_def by (auto simp: safe_defs set_block_def set_bundle_def)
  moreover have "p6_next_bytes (?s\<lparr>p6_bulk_read := False\<rparr>) = p6_next_bytes p" by (simp add: set_block_def set_bundle_def)
  ultimately show ?thesis by blast
qed

lemma read_loop_inv:
  "p6_inv p \<Longrightarrow> i \<le> length buf \<Longrightarrow> \<exists>q n. read_loop env p buf i = Inr (q, n) \<and> i \<le> n \<and> n \<le> length buf \<and> p6_inv q
     \<and> (p6_status q = PARSER_STATUS_GOOD \<longrightarrow> n = length buf \<or> p6_bulk_read q \<and> length buf < n + p6_next_bytes q)"
proof (induction env p buf i rule: read_loop.induct)
  case (1 env p buf i)
  note simps = read_loop.simps[of env p buf i]
  consider (stop) "\<not> (i < length buf \<and> p6_status p = PARSER_STATUS_GOOD)"
    | (more) "i < length buf" "p6_status p = PARSER_STATUS_GOOD" "p6_bulk_read p" "i + p6_next_bytes p > length buf"
    | (bulk) "i < length buf" "p6_status p = PARSER_STATUS_GOOD" "p6_bulk_read p" "i + p6_next_bytes p \<le> length buf"
    | (byte) "i < length buf" "p6_status p = PARSER_STATUS_GOOD" "\<not> p6_bulk_read p" by linarith
  then show ?case
  proof cases
    case stop
    then show ?thesis using "1.prems" simps by auto
  next
    case more
    then show ?thesis using "1.prems" simps by auto
  next
    case bulk
    have l: "length (take (p6_next_bytes p) (drop i buf)) = p6_next_bytes p" using bulk by simp
    obtain p1 where p1: "bulk_copy p (take (p6_next_bytes p) (drop i buf)) = Inr p1" "at_stage PARSER_STAGE_BLOCK_DATA p1" "p6_next_bytes p1 = p6_next_bytes p"
      using bulk_copy_stage[OF "1.prems"(1) bulk(2,3) l] by blast
    obtain p2 where p2: "bundle6_parser_read_byte env p1 0 = Inr p2" "p6_inv p2" "p6_next_bytes p2 = p6_next_bytes p1"
      using data_end[OF p1(2)] by blast
    have "read_loop env p buf i = read_loop env p2 buf (i + p6_next_bytes p2)" using simps bulk p1(1) p2(1) by simp
    then show ?thesis using "1.IH"(1)[of p1 p2] bulk p1 p2 by fastforce
  next
    case byte
    obtain p1 where p1: "bundle6_parser_read_byte env p (buf ! i) = Inr p1" "p6_inv p1" using read_byte_inv[OF "1.prems"(1) byte(2,3)] by blast
    have "read_loop env p buf i = read_loop env p1 buf (i + 1)" using simps byte p1(1) by simp
    then show ?thesis using "1.IH"(2)[of p1] byte p1 by fastforce
  qed
qed

lemma version_inv:
  "p6_current_stage p = PARSER_STAGE_VERSION \<Longrightarrow> p6_next_stage p = PARSER_STAGE_VERSION \<Longrightarrow> \<not> p6_bulk_read p \<Longrightarrow> p6_core p \<Longrightarrow> p6_inv p"
  by (simp add: p6_inv_def stage_needs_def stage_kinds)

lemma reset_inv:
  assumes "p6_inv p"
  shows "case bundle6_parser_reset env p of (UD3TN_OK, q) \<Rightarrow> p6_inv q | (UD3TN_FAIL, q) \<Rightarrow> True"
proof (cases "p6_status p = PARSER_STATUS_GOOD \<and> p6_current_stage p = PARSER_STAGE_VERSION")
  case True
  then show ?thesis using assms by (simp add: bundle6_parser_reset_def)
next
  case False
  show ?thesis
    unfolding bundle6_parser_reset_def if_not_P[OF False] Let_def
    by (cases "p6_bundle p"; cases "malloc_ok (p6_allocs p)")
      (simp_all add: bundle_init_def bundle_reset_def bundle_reset_internal_def version_inv p6_core_def)
qed

lemma init_inv: "bundle6_parser_init env p0 = Some p \<Longrightarrow> p6_inv p"
  using reset_inv[of "p0\<lparr>p6_bundle := None, p6_dict := None, p6_status := PARSER_STATUS_ERROR, p6_allocs := malloc_rest (p6_allocs p0)\<rparr>" env]
  by (auto simp: bundle6_parser_init_def p6_inv_def split: if_splits prod.splits ud3tn_result.splits)


definition v6_bulk_sample :: bundle6_parser where
  "v6_bulk_sample = (v6_fresh v6_sample_env v6_sample_parser)\<lparr>p6_current_stage := PARSER_STAGE_BLOCK_DATA, p6_next_stage := PARSER_STAGE_BLOCK_DATA,
     p6_current_block := PARSER_BLOCK_PAYLOAD, p6_bulk_read := True, p6_next_bytes := 2, p6_bundle := Some v6_sample, p6_dict := Some [0], p6_dict_length := 0\<rparr>"


end
