(* ===== verification/Aap.thy ===== *)
theory Aap
  imports Bundle
begin

unbundle bit_operations_syntax

text \<open>
  The application agent protocol, \<^verbatim>\<open>components/aap/\<close>: its messages, the serializer and the
  incremental parser. A \<^verbatim>\<open>size_t\<close> is a natural number; the only place where its width matters is the
  comparison of a received length with \<^verbatim>\<open>SIZE_MAX\<close>, a parameter of the platform. Allocated regions are
  byte lists of their allocated length, with arbitrary initial contents, so every copy of the parser is
  checked against the region it writes to.
\<close>

section \<open>Messages\<close>

text \<open>The enumeration is its number: a received nibble is cast to it without a check.\<close>

definition AAP_MESSAGE_ACK :: u8 where "AAP_MESSAGE_ACK = 0x0"
definition AAP_MESSAGE_NACK :: u8 where "AAP_MESSAGE_NACK = 0x1"
definition AAP_MESSAGE_REGISTER :: u8 where "AAP_MESSAGE_REGISTER = 0x2"
definition AAP_MESSAGE_SENDBUNDLE :: u8 where "AAP_MESSAGE_SENDBUNDLE = 0x3"
definition AAP_MESSAGE_RECVBUNDLE :: u8 where "AAP_MESSAGE_RECVBUNDLE = 0x4"
definition AAP_MESSAGE_SENDCONFIRM :: u8 where "AAP_MESSAGE_SENDCONFIRM = 0x5"
definition AAP_MESSAGE_CANCELBUNDLE :: u8 where "AAP_MESSAGE_CANCELBUNDLE = 0x6"
definition AAP_MESSAGE_WELCOME :: u8 where "AAP_MESSAGE_WELCOME = 0x7"
definition AAP_MESSAGE_PING :: u8 where "AAP_MESSAGE_PING = 0x8"
definition AAP_MESSAGE_INVALID :: u8 where "AAP_MESSAGE_INVALID = 0xFF"

lemmas aap_type_defs = AAP_MESSAGE_ACK_def AAP_MESSAGE_NACK_def AAP_MESSAGE_REGISTER_def AAP_MESSAGE_SENDBUNDLE_def
  AAP_MESSAGE_RECVBUNDLE_def AAP_MESSAGE_SENDCONFIRM_def AAP_MESSAGE_CANCELBUNDLE_def AAP_MESSAGE_WELCOME_def
  AAP_MESSAGE_PING_def AAP_MESSAGE_INVALID_def

record aap_message =
  msg_type :: u8
  msg_eid :: "u8 list option"
  msg_eid_length :: nat
  msg_payload :: "u8 list option"
  msg_payload_length :: nat
  msg_bundle_id :: u16

definition zero_message :: aap_message where
  "zero_message = \<lparr>msg_type = 0, msg_eid = None, msg_eid_length = 0, msg_payload = None, msg_payload_length = 0, msg_bundle_id = 0\<rparr>"

text \<open>The conditions on the type that validation, size and serializer share.\<close>

definition has_eid :: "u8 \<Rightarrow> bool" where
  "has_eid t \<longleftrightarrow> t = AAP_MESSAGE_REGISTER \<or> t = AAP_MESSAGE_SENDBUNDLE \<or> t = AAP_MESSAGE_RECVBUNDLE \<or> t = AAP_MESSAGE_WELCOME"

definition has_payload :: "u8 \<Rightarrow> bool" where
  "has_payload t \<longleftrightarrow> t = AAP_MESSAGE_SENDBUNDLE \<or> t = AAP_MESSAGE_RECVBUNDLE"

definition has_bundle_id :: "u8 \<Rightarrow> bool" where
  "has_bundle_id t \<longleftrightarrow> t = AAP_MESSAGE_SENDCONFIRM \<or> t = AAP_MESSAGE_CANCELBUNDLE"

definition aap_message_is_valid :: "aap_message \<Rightarrow> fault + bool" where
  "aap_message_is_valid m =
    (if msg_type m < AAP_MESSAGE_ACK \<or> msg_type m > AAP_MESSAGE_PING then Inr False else
     bindE (if has_eid (msg_type m)
            then (case msg_eid m of
                    None \<Rightarrow> Inr False
                  | Some buf \<Rightarrow> if msg_eid_length m > 65535 then Inr False
                      else bindE (c_strlen buf) (\<lambda>n. Inr (n = msg_eid_length m)))
            else Inr (msg_eid m = None)) (\<lambda>eid_ok.
     Inr (if \<not> eid_ok then False
          else if has_payload (msg_type m) \<and> msg_payload m = None \<and> msg_payload_length m \<noteq> 0 then False
          else if \<not> has_payload (msg_type m) \<and> msg_payload m \<noteq> None then False
          else if has_bundle_id (msg_type m) \<and> msg_bundle_id m = BUNDLE_INVALID_ID then False
          else True)))"

definition aap_message_clear :: "aap_message \<Rightarrow> aap_message" where
  "aap_message_clear m = zero_message\<lparr>msg_type := AAP_MESSAGE_INVALID\<rparr>"

section \<open>Serializer\<close>

definition put_uint64 :: "u64 \<Rightarrow> u8 list" where
  "put_uint64 v = [ucast (0xFF AND drop_bit 56 v), ucast (0xFF AND drop_bit 48 v),
     ucast (0xFF AND drop_bit 40 v), ucast (0xFF AND drop_bit 32 v),
     ucast (0xFF AND drop_bit 24 v), ucast (0xFF AND drop_bit 16 v),
     ucast (0xFF AND drop_bit 8 v), ucast (0xFF AND v)]"

definition aap_get_serialized_size :: "aap_message \<Rightarrow> nat" where
  "aap_get_serialized_size m =
     1 + (if has_eid (msg_type m) then 2 + msg_eid_length m else 0)
       + (if has_payload (msg_type m) then 8 + msg_payload_length m else 0)
       + (if has_bundle_id (msg_type m) then 8 else 0)"

text \<open>
  The \<^verbatim>\<open>write\<close> callback is a function from its parameter's state and the data to the new state; it may
  fault. The length fields are shifted as \<^verbatim>\<open>size_t\<close> values, which the conversion to a word of 64 bits
  represents.
\<close>

definition eid_length_bytes :: "nat \<Rightarrow> u8 list" where
  "eid_length_bytes n = [ucast (0xFF AND drop_bit 8 (of_nat n :: u64)), ucast (0xFF AND (of_nat n :: u64))]"

definition aap_serialize :: "('p \<Rightarrow> u8 list \<Rightarrow> fault + 'p) \<Rightarrow> 'p \<Rightarrow> aap_message \<Rightarrow> fault + 'p" where
  "aap_serialize write param m =
     bindE (write param [push_bit 4 0x1 OR (msg_type m AND 0xF)]) (\<lambda>p1.
     bindE (if has_eid (msg_type m)
            then bindE (write p1 (eid_length_bytes (msg_eid_length m))) (\<lambda>p.
              if msg_eid_length m \<noteq> 0
              then bindE (read_mem (msg_eid m) (msg_eid_length m)) (write p)
              else Inr p)
            else Inr p1) (\<lambda>p2.
     bindE (if has_payload (msg_type m)
            then bindE (write p2 (put_uint64 (of_nat (msg_payload_length m)))) (\<lambda>p.
              if msg_payload_length m \<noteq> 0
              then bindE (read_mem (msg_payload m) (msg_payload_length m)) (write p)
              else Inr p)
            else Inr p2) (\<lambda>p3.
     if has_bundle_id (msg_type m)
     then write p3 (put_uint64 (ucast (msg_bundle_id m)))
     else Inr p3)))"

record write_context =
  wc_buffer :: "u8 list"
  wc_position :: nat

definition write_to_buffer :: "write_context \<Rightarrow> u8 list \<Rightarrow> fault + write_context" where
  "write_to_buffer ctx data = bindE (memcpy_at (Some (wc_buffer ctx)) (wc_position ctx) data) (\<lambda>buf.
     Inr \<lparr>wc_buffer = buf, wc_position = wc_position ctx + length data\<rparr>)"

definition aap_serialize_into :: "u8 list \<Rightarrow> aap_message \<Rightarrow> fault + u8 list" where
  "aap_serialize_into buffer m =
     bindE (aap_serialize write_to_buffer \<lparr>wc_buffer = buffer, wc_position = 0\<rparr> m) (\<lambda>ctx. Inr (wc_buffer ctx))"

section \<open>Parser\<close>

text \<open>The \<^verbatim>\<open>parse\<close> function pointer is one of six functions; \<open>NULL\<close> occurs during initialization only.\<close>

datatype aap_stage = ParseNull | ParseType | ParseEidLength | ParseEid | ParsePayloadLength | ParsePayload | ParseBundleId

record aap_parser =
  ap_status :: parser_status
  ap_max_payload_length :: nat
  ap_parse :: aap_stage
  ap_message :: aap_message
  ap_consumed :: nat
  ap_remaining :: nat

text \<open>
  What the platform supplies to a parser step: \<^verbatim>\<open>SIZE_MAX\<close> and the initial contents of a fresh
  region of a given size.
\<close>

record aap_platform =
  plat_size_max :: nat
  plat_junk :: "nat \<Rightarrow> u8"

definition fresh_region :: "aap_platform \<Rightarrow> nat \<Rightarrow> u8 list" where
  "fresh_region pl n = map (plat_junk pl) [0..<n]"

definition read_uint64 :: "u8 list \<Rightarrow> u64" where
  "read_uint64 b = push_bit 56 (ucast (b ! 0)) OR push_bit 48 (ucast (b ! 1))
     OR push_bit 40 (ucast (b ! 2)) OR push_bit 32 (ucast (b ! 3))
     OR push_bit 24 (ucast (b ! 4)) OR push_bit 16 (ucast (b ! 5))
     OR push_bit 8 (ucast (b ! 6)) OR ucast (b ! 7)"

definition aap_parse_type :: "aap_parser \<Rightarrow> u8 list \<Rightarrow> aap_parser \<times> nat" where
  "aap_parse_type p b =
    (if length b = 0 then (p, 0)
     else if drop_bit 4 (b ! 0 AND 0xF0) \<noteq> 0x1 then (p\<lparr>ap_status := PARSER_STATUS_ERROR\<rparr>, 1)
     else
       let t = b ! 0 AND 0x0F; p1 = p\<lparr>ap_message := (ap_message p)\<lparr>msg_type := t\<rparr>\<rparr> in
       (if t = AAP_MESSAGE_ACK \<or> t = AAP_MESSAGE_NACK \<or> t = AAP_MESSAGE_PING then p1\<lparr>ap_status := PARSER_STATUS_DONE\<rparr>
        else if t = AAP_MESSAGE_REGISTER \<or> t = AAP_MESSAGE_SENDBUNDLE \<or> t = AAP_MESSAGE_RECVBUNDLE \<or> t = AAP_MESSAGE_WELCOME
        then p1\<lparr>ap_parse := ParseEidLength\<rparr>
        else if t = AAP_MESSAGE_SENDCONFIRM \<or> t = AAP_MESSAGE_CANCELBUNDLE then p1\<lparr>ap_parse := ParseBundleId\<rparr>
        else p1\<lparr>ap_status := PARSER_STATUS_ERROR\<rparr>, 1))"

text \<open>The terminator is written before the result of \<^verbatim>\<open>malloc\<close> is looked at.\<close>

definition aap_parse_eid_length :: "aap_platform \<Rightarrow> aap_parser \<Rightarrow> alloc_script \<Rightarrow> u8 list \<Rightarrow> fault + aap_parser \<times> alloc_script \<times> nat" where
  "aap_parse_eid_length pl p as b =
    (if length b < 2 then Inr (p, as, 0)
     else
       let n = unat (push_bit 8 (ucast (b ! 0) :: u16) OR ucast (b ! 1));
           region = (if malloc_ok as then Some (fresh_region pl (n + 1)) else None)
       in bindE (memcpy_at region n [0]) (\<lambda>eid.
         let p1 = p\<lparr>ap_message := (ap_message p)\<lparr>msg_eid_length := n, msg_eid := Some eid\<rparr>, ap_consumed := 0, ap_remaining := n\<rparr>
         in Inr (if n = 0 then p1\<lparr>ap_status := PARSER_STATUS_DONE, ap_parse := ParseEid\<rparr> else p1\<lparr>ap_parse := ParseEid\<rparr>,
                 malloc_rest as, 2)))"

definition aap_parse_eid :: "aap_parser \<Rightarrow> u8 list \<Rightarrow> fault + aap_parser \<times> nat" where
  "aap_parse_eid p b =
    (let consumed = min (length b) (ap_remaining p) in
     bindE (memcpy_at (msg_eid (ap_message p)) (ap_consumed p) (take consumed b)) (\<lambda>eid.
     let p1 = p\<lparr>ap_message := (ap_message p)\<lparr>msg_eid := Some eid\<rparr>, ap_consumed := ap_consumed p + consumed,
               ap_remaining := ap_remaining p - consumed\<rparr> in
     if ap_remaining p1 \<noteq> 0 then Inr (p1, consumed)
     else bindE (memcpy_at (Some eid) (msg_eid_length (ap_message p1)) [0]) (\<lambda>eid2.
       let p2 = p1\<lparr>ap_message := (ap_message p1)\<lparr>msg_eid := Some eid2\<rparr>\<rparr>; t = msg_type (ap_message p2) in
       if t = AAP_MESSAGE_REGISTER \<or> t = AAP_MESSAGE_WELCOME then Inr (p2\<lparr>ap_status := PARSER_STATUS_DONE\<rparr>, consumed)
       else if t = AAP_MESSAGE_SENDBUNDLE \<or> t = AAP_MESSAGE_RECVBUNDLE then Inr (p2\<lparr>ap_parse := ParsePayloadLength\<rparr>, consumed)
       else Inl Aborted)))"

definition aap_parse_payload_length :: "aap_platform \<Rightarrow> aap_parser \<Rightarrow> alloc_script \<Rightarrow> u8 list \<Rightarrow> aap_parser \<times> alloc_script \<times> nat" where
  "aap_parse_payload_length pl p as b =
    (if length b < 8 then (p, as, 0)
     else
       let n = unat (read_uint64 b) in
       if n > plat_size_max pl then (p\<lparr>ap_status := PARSER_STATUS_ERROR\<rparr>, as, 8)
       else
         let p1 = p\<lparr>ap_message := (ap_message p)\<lparr>msg_payload_length := n\<rparr>, ap_consumed := 0, ap_remaining := n\<rparr> in
         if ap_max_payload_length p \<noteq> 0 \<and> n > ap_max_payload_length p then (p1\<lparr>ap_status := PARSER_STATUS_ERROR\<rparr>, as, 8)
         else if malloc_ok as
         then let p2 = p1\<lparr>ap_message := (ap_message p1)\<lparr>msg_payload := Some (fresh_region pl n)\<rparr>, ap_parse := ParsePayload\<rparr>
              in (if n = 0 then p2\<lparr>ap_status := PARSER_STATUS_DONE\<rparr> else p2, malloc_rest as, 8)
         else (p1\<lparr>ap_message := (ap_message p1)\<lparr>msg_payload := None\<rparr>, ap_status := PARSER_STATUS_ERROR\<rparr>, malloc_rest as, 8))"

definition aap_parse_payload :: "aap_parser \<Rightarrow> u8 list \<Rightarrow> fault + aap_parser \<times> nat" where
  "aap_parse_payload p b =
    (let consumed = min (length b) (ap_remaining p) in
     bindE (memcpy_at (msg_payload (ap_message p)) (ap_consumed p) (take consumed b)) (\<lambda>d.
     let p1 = p\<lparr>ap_message := (ap_message p)\<lparr>msg_payload := Some d\<rparr>, ap_consumed := ap_consumed p + consumed,
               ap_remaining := ap_remaining p - consumed\<rparr> in
     Inr (if ap_remaining p1 = 0 then p1\<lparr>ap_status := PARSER_STATUS_DONE\<rparr> else p1, consumed)))"

definition aap_parse_bundle_id :: "aap_parser \<Rightarrow> u8 list \<Rightarrow> aap_parser \<times> nat" where
  "aap_parse_bundle_id p b =
    (if length b < 8 then (p, 0)
     else (p\<lparr>ap_message := (ap_message p)\<lparr>msg_bundle_id := ucast (read_uint64 b)\<rparr>, ap_status := PARSER_STATUS_DONE\<rparr>, 8))"

text \<open>The call through the function pointer.\<close>

definition aap_parse :: "aap_platform \<Rightarrow> aap_parser \<Rightarrow> alloc_script \<Rightarrow> u8 list \<Rightarrow> fault + aap_parser \<times> alloc_script \<times> nat" where
  "aap_parse pl p as b = (case ap_parse p of
     ParseNull \<Rightarrow> Inl NullDeref
   | ParseType \<Rightarrow> (case aap_parse_type p b of (p', n) \<Rightarrow> Inr (p', as, n))
   | ParseEidLength \<Rightarrow> aap_parse_eid_length pl p as b
   | ParseEid \<Rightarrow> bindE (aap_parse_eid p b) (\<lambda>(p', n). Inr (p', as, n))
   | ParsePayloadLength \<Rightarrow> Inr (aap_parse_payload_length pl p as b)
   | ParsePayload \<Rightarrow> bindE (aap_parse_payload p b) (\<lambda>(p', n). Inr (p', as, n))
   | ParseBundleId \<Rightarrow> (case aap_parse_bundle_id p b of (p', n) \<Rightarrow> Inr (p', as, n)))"

definition aap_parser_reset :: "aap_parser \<Rightarrow> aap_parser" where
  "aap_parser_reset p = p\<lparr>ap_parse := ParseType, ap_status := PARSER_STATUS_GOOD, ap_message := aap_message_clear (ap_message p)\<rparr>"

definition aap_parser_init :: "aap_parser \<Rightarrow> aap_parser" where
  "aap_parser_init p = aap_parser_reset (p\<lparr>ap_max_payload_length := 0, ap_parse := ParseNull, ap_message := zero_message\<rparr>)"

definition aap_parser_extract_message :: "aap_parser \<Rightarrow> aap_message \<times> aap_parser" where
  "aap_parser_extract_message p =
    (if ap_status p \<noteq> PARSER_STATUS_DONE then (ap_message p)\<lparr>msg_type := AAP_MESSAGE_INVALID\<rparr> else ap_message p,
     p\<lparr>ap_message := aap_message_clear zero_message\<rparr>)"

text \<open>
  \<^verbatim>\<open>parse_aap\<close> of the application agent: the stages run until the message is complete, the input is
  used up, or a stage asks for more input by consuming nothing.
\<close>

function parse_aap :: "aap_platform \<Rightarrow> aap_parser \<Rightarrow> alloc_script \<Rightarrow> u8 list \<Rightarrow> nat \<Rightarrow> fault + aap_parser \<times> alloc_script \<times> nat" where
  "parse_aap pl p as input consumed =
    (if ap_status p = PARSER_STATUS_GOOD \<and> consumed < length input
     then bindE (aap_parse pl p as (drop consumed input)) (\<lambda>(p', as', delta).
       if delta = 0 then Inr (p', as', consumed) else parse_aap pl p' as' input (consumed + delta))
     else Inr (p, as, consumed))"
  by pat_completeness auto

termination
  by (relation "measure (\<lambda>(pl, p, as, input, consumed). length input - consumed)") auto

declare parse_aap.simps [simp del]

section \<open>Length fields\<close>

lemma join_byte:
  "push_bit (k + 8) (drop_bit (k + 8) v) OR push_bit k (ucast (ucast (0xFF AND drop_bit k v) :: u8)) = push_bit k (drop_bit k (v :: u64))"
proof (rule bit_word_eqI)
  fix n assume "n < LENGTH(64)"
  then show "bit (push_bit (k + 8) (drop_bit (k + 8) v) OR push_bit k (ucast (ucast (0xFF AND drop_bit k v) :: u8))) n
      = bit (push_bit k (drop_bit k v)) n"
    by (cases "k + 8 \<le> n") (auto simp: byte_masks bit_simps)
qed

lemma top_byte: "push_bit 56 (ucast (ucast (0xFF AND drop_bit 56 v) :: u8)) = push_bit 56 (drop_bit 56 (v :: u64))"
  by (rule bit_word_eqI) (auto simp: byte_masks bit_simps)

lemma read_put_uint64: "read_uint64 (put_uint64 v @ rest) = v"
  using join_byte[of 48 v] join_byte[of 40 v] join_byte[of 32 v] join_byte[of 24 v] join_byte[of 16 v] join_byte[of 8 v] join_byte[of 0 v]
  by (simp add: read_uint64_def put_uint64_def top_byte or.assoc[symmetric])

lemma length_put_uint64: "length (put_uint64 v) = 8"
  by (simp add: put_uint64_def)

lemma eid_length_bytes_value:
  assumes "n < 65536"
  shows "unat (push_bit 8 (ucast (eid_length_bytes n ! 0) :: u16) OR ucast (eid_length_bytes n ! 1)) = n"
proof -
  have "push_bit 8 (ucast (eid_length_bytes n ! 0) :: u16) OR ucast (eid_length_bytes n ! 1) = ucast (of_nat n :: u64)"
    by (rule bit_word_eqI) (auto simp: eid_length_bytes_def byte_masks bit_simps)
  then show ?thesis using assms by (simp add: unsigned_ucast_eq unsigned_of_nat take_bit_nat_eq_self)
qed

lemma read_uint64_append: "8 \<le> length b \<Longrightarrow> read_uint64 (b @ c) = read_uint64 b"
proof -
  assume "8 \<le> length b"
  then have "\<And>i. i < 8 \<Longrightarrow> (b @ c) ! i = b ! i" by (simp add: nth_append)
  then show ?thesis by (simp add: read_uint64_def)
qed

section \<open>Parser invariant\<close>

text \<open>
  The shape of a message the parser has assembled: which fields are allocated, how large the regions are,
  and that the identifier is terminated.
\<close>

definition eid_region_ok :: "aap_message \<Rightarrow> bool" where
  "eid_region_ok m \<longleftrightarrow> (case msg_eid m of None \<Rightarrow> False
     | Some buf \<Rightarrow> length buf = msg_eid_length m + 1 \<and> buf ! msg_eid_length m = 0 \<and> msg_eid_length m \<le> 65535)"

definition payload_region_ok :: "aap_message \<Rightarrow> bool" where
  "payload_region_ok m \<longleftrightarrow> (case msg_payload m of None \<Rightarrow> msg_payload_length m = 0 | Some buf \<Rightarrow> length buf = msg_payload_length m)"

definition message_shape :: "aap_message \<Rightarrow> bool" where
  "message_shape m \<longleftrightarrow> msg_type m \<le> AAP_MESSAGE_PING
     \<and> (if has_eid (msg_type m) then eid_region_ok m else msg_eid m = None)
     \<and> (if has_payload (msg_type m) then payload_region_ok m else msg_payload m = None)"

definition empty_payload :: "aap_message \<Rightarrow> bool" where
  "empty_payload m \<longleftrightarrow> msg_payload m = None \<and> msg_payload_length m = 0"

fun stage_ok :: "aap_stage \<Rightarrow> aap_parser \<Rightarrow> bool" where
  "stage_ok ParseNull p = False"
| "stage_ok ParseType p = (ap_message p = aap_message_clear zero_message)"
| "stage_ok ParseEidLength p = (has_eid (msg_type (ap_message p)) \<and> msg_eid (ap_message p) = None \<and> empty_payload (ap_message p))"
| "stage_ok ParseEid p = (has_eid (msg_type (ap_message p)) \<and> eid_region_ok (ap_message p) \<and> empty_payload (ap_message p)
     \<and> ap_consumed p + ap_remaining p = msg_eid_length (ap_message p) \<and> 0 < ap_remaining p)"
| "stage_ok ParsePayloadLength p = (has_payload (msg_type (ap_message p)) \<and> eid_region_ok (ap_message p) \<and> empty_payload (ap_message p))"
| "stage_ok ParsePayload p = (has_payload (msg_type (ap_message p)) \<and> eid_region_ok (ap_message p)
     \<and> msg_payload (ap_message p) \<noteq> None \<and> payload_region_ok (ap_message p)
     \<and> ap_consumed p + ap_remaining p = msg_payload_length (ap_message p) \<and> 0 < ap_remaining p)"
| "stage_ok ParseBundleId p = (has_bundle_id (msg_type (ap_message p)) \<and> msg_eid (ap_message p) = None \<and> empty_payload (ap_message p))"

definition aap_parser_inv :: "aap_parser \<Rightarrow> bool" where
  "aap_parser_inv p \<longleftrightarrow> (case ap_status p of
     PARSER_STATUS_GOOD \<Rightarrow> stage_ok (ap_parse p) p
   | PARSER_STATUS_DONE \<Rightarrow> message_shape (ap_message p)
   | PARSER_STATUS_ERROR \<Rightarrow> True)"

lemmas aap_shape_defs = message_shape_def eid_region_ok_def payload_region_ok_def empty_payload_def
lemmas aap_kind_defs = has_eid_def has_payload_def has_bundle_id_def aap_type_defs

lemma length_fresh_region [simp]: "length (fresh_region pl n) = n"
  by (simp add: fresh_region_def)

lemma has_payload_eid: "has_payload t \<Longrightarrow> has_eid t"
  by (auto simp: has_payload_def has_eid_def)

lemma has_eid_type: "has_eid t \<Longrightarrow> t \<le> AAP_MESSAGE_PING"
  by (auto simp: aap_kind_defs word_le_nat_alt)

lemma has_bundle_id_type: "has_bundle_id t \<Longrightarrow> t \<le> AAP_MESSAGE_PING \<and> \<not> has_eid t \<and> \<not> has_payload t"
  by (auto simp: aap_kind_defs word_le_nat_alt)

lemma aap_parser_init_inv: "aap_parser_inv (aap_parser_init p)" "ap_status (aap_parser_init p) = PARSER_STATUS_GOOD"
  by (simp_all add: aap_parser_init_def aap_parser_reset_def aap_parser_inv_def aap_message_clear_def)

lemma aap_parser_reset_inv: "aap_parser_inv (aap_parser_reset p)" "ap_status (aap_parser_reset p) = PARSER_STATUS_GOOD"
  by (simp_all add: aap_parser_reset_def aap_parser_inv_def aap_message_clear_def)

text \<open>What every stage guarantees of a step that returns.\<close>

definition step_ok :: "aap_parser \<Rightarrow> alloc_script \<Rightarrow> u8 list \<Rightarrow> fault + aap_parser \<times> alloc_script \<times> nat \<Rightarrow> bool" where
  "step_ok p as b r \<longleftrightarrow> (case r of
     Inl f \<Rightarrow> f = NullDeref \<and> ap_parse p = ParseEidLength \<and> \<not> malloc_ok as
   | Inr (p', as', n) \<Rightarrow> aap_parser_inv p' \<and> n \<le> length b \<and> (n = 0 \<longrightarrow> p' = p \<and> as' = as \<and> length b < 8)
       \<and> (as' = as \<or> as' = malloc_rest as))"

lemma step_type:
  assumes "stage_ok ParseType p" "ap_parse p = ParseType" "ap_status p = PARSER_STATUS_GOOD" "b \<noteq> []"
  shows "step_ok p as b (aap_parse pl p as b)"
  using assms
  by (auto simp: step_ok_def aap_parse_def aap_parse_type_def aap_parser_inv_def Let_def aap_message_clear_def zero_message_def
      aap_shape_defs aap_kind_defs word_le_nat_alt Suc_le_eq)

lemma step_eid_length:
  assumes "stage_ok ParseEidLength p" "ap_parse p = ParseEidLength" "ap_status p = PARSER_STATUS_GOOD" "b \<noteq> []"
  shows "step_ok p as b (aap_parse pl p as b)"
proof (cases "length b < 2")
  case True
  then show ?thesis using assms by (simp add: step_ok_def aap_parse_def aap_parse_eid_length_def aap_parser_inv_def)
next
  case False
  define n where "n = unat (push_bit 8 (ucast (b ! 0) :: u16) OR ucast (b ! 1))"
  have n: "n \<le> 65535" unfolding n_def using unsigned_less[of "push_bit 8 (ucast (b ! 0) :: u16) OR ucast (b ! 1)", where 'a = nat] by simp
  show ?thesis
  proof (cases "malloc_ok as")
    case True
    then show ?thesis using assms False n
      by (auto simp: step_ok_def aap_parse_def aap_parse_eid_length_def n_def[symmetric] Let_def memcpy_at_def
          aap_parser_inv_def aap_shape_defs nth_append has_eid_type n[unfolded n_def One_nat_def])
  next
    case False2: False
    then show ?thesis using assms False
      by (simp add: step_ok_def aap_parse_def aap_parse_eid_length_def memcpy_at_def)
  qed
qed

text \<open>The two outcomes of a data stage: the input ends inside the field, or completes it.\<close>

lemma aap_parse_eid_partial:
  assumes "msg_eid (ap_message p) = Some buf" "length buf = ap_consumed p + ap_remaining p + 1" "length b < ap_remaining p"
  shows "aap_parse_eid p b = Inr (p\<lparr>ap_message := (ap_message p)\<lparr>msg_eid := Some (take (ap_consumed p) buf @ b @ drop (ap_consumed p + length b) buf)\<rparr>,
     ap_consumed := ap_consumed p + length b, ap_remaining := ap_remaining p - length b\<rparr>, length b)"
  using assms by (simp add: aap_parse_eid_def memcpy_at_def Let_def)

definition eid_complete :: "aap_parser \<Rightarrow> u8 list \<Rightarrow> aap_parser" where
  "eid_complete p eid = (let p1 = p\<lparr>ap_message := (ap_message p)\<lparr>msg_eid := Some eid\<rparr>, ap_consumed := ap_consumed p + ap_remaining p, ap_remaining := 0\<rparr>
     in if has_payload (msg_type (ap_message p)) then p1\<lparr>ap_parse := ParsePayloadLength\<rparr> else p1\<lparr>ap_status := PARSER_STATUS_DONE\<rparr>)"

lemma aap_parse_eid_full:
  assumes "msg_eid (ap_message p) = Some buf" "length buf = ap_consumed p + ap_remaining p + 1" "ap_remaining p \<le> length b"
    and "msg_eid_length (ap_message p) = ap_consumed p + ap_remaining p" "has_eid (msg_type (ap_message p))"
  shows "aap_parse_eid p b = Inr (eid_complete p (take (ap_consumed p) buf @ take (ap_remaining p) b @ [0]), ap_remaining p)"
proof -
  let ?t = "msg_type (ap_message p)"
  have m: "min (length b) (ap_remaining p) = ap_remaining p" using assms(3) by simp
  have 1: "memcpy_at (Some buf) (ap_consumed p) (take (ap_remaining p) b)
      = Inr (take (ap_consumed p) buf @ take (ap_remaining p) b @ drop (ap_consumed p + ap_remaining p) buf)"
    using assms(2,3) by (simp add: memcpy_at_def)
  have 2: "memcpy_at (Some (take (ap_consumed p) buf @ take (ap_remaining p) b @ drop (ap_consumed p + ap_remaining p) buf))
      (ap_consumed p + ap_remaining p) [0] = Inr (take (ap_consumed p) buf @ take (ap_remaining p) b @ [0])"
    using assms(2,3) by (simp add: memcpy_at_def)
  have "(?t = AAP_MESSAGE_REGISTER \<or> ?t = AAP_MESSAGE_WELCOME) \<and> \<not> has_payload ?t \<or>
      \<not> (?t = AAP_MESSAGE_REGISTER \<or> ?t = AAP_MESSAGE_WELCOME) \<and> has_payload ?t"
    using assms(5) by (auto simp: aap_kind_defs)
  then show ?thesis
    by (elim disjE) (simp_all add: aap_parse_eid_def Let_def m assms(1,4) 1 2 eid_complete_def has_payload_def[symmetric])
qed

lemma step_eid:
  assumes "stage_ok ParseEid p" "ap_parse p = ParseEid" "ap_status p = PARSER_STATUS_GOOD" "b \<noteq> []"
  shows "step_ok p as b (aap_parse pl p as b)"
proof -
  have l: "msg_eid_length (ap_message p) = ap_consumed p + ap_remaining p" "has_eid (msg_type (ap_message p))" "0 < ap_remaining p"
    and e: "empty_payload (ap_message p)" "eid_region_ok (ap_message p)"
    using assms(1) by simp_all
  from e(2) obtain buf where buf: "msg_eid (ap_message p) = Some buf" "length buf = ap_consumed p + ap_remaining p + 1"
      "buf ! (ap_consumed p + ap_remaining p) = 0" "ap_consumed p + ap_remaining p \<le> 65535"
    unfolding eid_region_ok_def l(1) by (cases "msg_eid (ap_message p)") simp_all
  show ?thesis
  proof (cases "length b < ap_remaining p")
    case True
    have "(take (ap_consumed p) buf @ b @ drop (ap_consumed p + length b) buf) ! (ap_consumed p + ap_remaining p) = 0"
      using True buf by (simp add: nth_append)
    then show ?thesis using True assms(2-) buf l e(1)
      by (simp add: step_ok_def aap_parse_def aap_parse_eid_partial aap_parser_inv_def aap_shape_defs)
  next
    case False
    then show ?thesis using assms(2-) buf l e(1) has_eid_type[of "msg_type (ap_message p)"]
      by (simp add: step_ok_def aap_parse_def aap_parse_eid_full eid_complete_def Let_def aap_parser_inv_def aap_shape_defs nth_append)
  qed
qed

lemma step_payload_length:
  assumes "stage_ok ParsePayloadLength p" "ap_parse p = ParsePayloadLength" "ap_status p = PARSER_STATUS_GOOD" "b \<noteq> []"
  shows "step_ok p as b (aap_parse pl p as b)"
  using assms has_payload_eid[of "msg_type (ap_message p)"] has_eid_type[of "msg_type (ap_message p)"]
  by (auto simp: step_ok_def aap_parse_def aap_parse_payload_length_def Let_def aap_parser_inv_def aap_shape_defs split: option.splits)

lemma aap_parse_payload_partial:
  assumes "msg_payload (ap_message p) = Some buf" "length buf = ap_consumed p + ap_remaining p" "length b < ap_remaining p"
  shows "aap_parse_payload p b = Inr (p\<lparr>ap_message := (ap_message p)\<lparr>msg_payload := Some (take (ap_consumed p) buf @ b @ drop (ap_consumed p + length b) buf)\<rparr>,
     ap_consumed := ap_consumed p + length b, ap_remaining := ap_remaining p - length b\<rparr>, length b)"
  using assms by (simp add: aap_parse_payload_def memcpy_at_def Let_def)

lemma aap_parse_payload_full:
  assumes "msg_payload (ap_message p) = Some buf" "length buf = ap_consumed p + ap_remaining p" "ap_remaining p \<le> length b"
  shows "aap_parse_payload p b = Inr (p\<lparr>ap_message := (ap_message p)\<lparr>msg_payload := Some (take (ap_consumed p) buf @ take (ap_remaining p) b)\<rparr>,
     ap_consumed := ap_consumed p + ap_remaining p, ap_remaining := 0, ap_status := PARSER_STATUS_DONE\<rparr>, ap_remaining p)"
  using assms by (simp add: aap_parse_payload_def memcpy_at_def Let_def)

lemma step_payload:
  assumes "stage_ok ParsePayload p" "ap_parse p = ParsePayload" "ap_status p = PARSER_STATUS_GOOD" "b \<noteq> []"
  shows "step_ok p as b (aap_parse pl p as b)"
proof -
  have l: "msg_payload_length (ap_message p) = ap_consumed p + ap_remaining p" "has_payload (msg_type (ap_message p))" "0 < ap_remaining p"
    and e: "eid_region_ok (ap_message p)" and r: "msg_payload (ap_message p) \<noteq> None" "payload_region_ok (ap_message p)"
    using assms(1) by simp_all
  from r obtain buf where buf: "msg_payload (ap_message p) = Some buf" "length buf = ap_consumed p + ap_remaining p"
    unfolding payload_region_ok_def l(1) by (cases "msg_payload (ap_message p)") simp_all
  have t: "has_eid (msg_type (ap_message p))" "msg_type (ap_message p) \<le> AAP_MESSAGE_PING"
    using has_payload_eid[OF l(2)] has_eid_type by auto
  obtain ebuf where eb: "msg_eid (ap_message p) = Some ebuf" "length ebuf = msg_eid_length (ap_message p) + 1"
      "ebuf ! msg_eid_length (ap_message p) = 0" "msg_eid_length (ap_message p) \<le> 65535"
    using e by (auto simp: eid_region_ok_def split: option.splits)
  show ?thesis
  proof (cases "length b < ap_remaining p")
    case True
    then show ?thesis using assms(2-) buf l eb
      by (simp add: step_ok_def aap_parse_def aap_parse_payload_partial aap_parser_inv_def aap_shape_defs)
  next
    case False
    then show ?thesis using assms(2-) buf l eb t
      by (simp add: step_ok_def aap_parse_def aap_parse_payload_full aap_parser_inv_def aap_shape_defs)
  qed
qed

lemma step_bundle_id:
  assumes "stage_ok ParseBundleId p" "ap_parse p = ParseBundleId" "ap_status p = PARSER_STATUS_GOOD" "b \<noteq> []"
  shows "step_ok p as b (aap_parse pl p as b)"
  using assms has_bundle_id_type[of "msg_type (ap_message p)"]
  by (auto simp: step_ok_def aap_parse_def aap_parse_bundle_id_def aap_parser_inv_def aap_shape_defs)

lemma aap_parse_step_ok:
  assumes "aap_parser_inv p" "ap_status p = PARSER_STATUS_GOOD" "b \<noteq> []"
  shows "step_ok p as b (aap_parse pl p as b)"
  using assms
  by (cases "ap_parse p") (auto simp: aap_parser_inv_def simp del: stage_ok.simps(2-)
      intro: step_type step_eid_length step_eid step_payload_length step_payload step_bundle_id)

section \<open>Runs of the parser\<close>

text \<open>A run started after \<open>k\<close> consumed bytes reports them too.\<close>

definition count_from :: "nat \<Rightarrow> fault + 'p \<times> 'a \<times> nat \<Rightarrow> fault + 'p \<times> 'a \<times> nat" where
  "count_from k r = bindE r (\<lambda>(p, as, n). Inr (p, as, k + n))"

lemma count_from_simps [simp]:
  "count_from k (Inl f) = Inl f" "count_from k (Inr (p, as, n)) = Inr (p, as, k + n)"
  "count_from 0 r = r" "count_from j (count_from k r) = count_from (j + k) r"
  by (simp_all add: count_from_def) (cases r; auto)+

lemma bindE_count_from: "bindE (count_from k r) g = bindE r (\<lambda>(p, as, n). g (p, as, k + n))"
  by (cases r) (auto simp: count_from_def)

lemma parse_aap_shift:
  "parse_aap pl p as (pre @ b) (length pre + c) = count_from (length pre) (parse_aap pl p as b c)"
proof (induction pl p as b c rule: parse_aap.induct)
  case (1 pl p as b c)
  show ?case
  proof (cases "ap_status p = PARSER_STATUS_GOOD \<and> c < length b")
    case True
    then show ?thesis
    proof (cases "aap_parse pl p as (drop c b)")
      case (Inr r)
      obtain p' as' d where r: "r = (p', as', d)" by (cases r) auto
      show ?thesis using True Inr r 1[OF True] by (simp add: parse_aap.simps[of pl p] add.assoc)
    qed (simp add: parse_aap.simps[of pl p])
  next
    case False
    then show ?thesis by (auto simp: parse_aap.simps[of pl p])
  qed
qed

lemma parse_aap_run:
  "parse_aap pl p as b 0 =
    (if ap_status p = PARSER_STATUS_GOOD \<and> b \<noteq> []
     then bindE (aap_parse pl p as b) (\<lambda>(p', as', d). if d = 0 then Inr (p', as', 0) else count_from d (parse_aap pl p' as' (drop d b) 0))
     else Inr (p, as, 0))"
proof -
  have s: "parse_aap pl p' as' b d = count_from d (parse_aap pl p' as' (drop d b) 0)" for p' as' d
  proof (cases "d \<le> length b")
    case True
    then show ?thesis using parse_aap_shift[of pl p' as' "take d b" "drop d b" 0] by simp
  next
    case False
    then show ?thesis by (simp add: parse_aap.simps[of pl p'])
  qed
  show ?thesis
  proof (cases "aap_parse pl p as b")
    case (Inr r)
    then show ?thesis by (cases r) (auto simp: parse_aap.simps[of pl p as b 0] s[symmetric])
  qed (simp add: parse_aap.simps[of pl p as b 0])
qed

lemma parse_aap_stop [simp]:
  "ap_status p \<noteq> PARSER_STATUS_GOOD \<Longrightarrow> parse_aap pl p as b 0 = Inr (p, as, 0)"
  "parse_aap pl p as [] 0 = Inr (p, as, 0)"
  by (simp_all add: parse_aap_run[of pl p as])

lemma parse_aap_step:
  assumes "ap_status p = PARSER_STATUS_GOOD" "b \<noteq> []" "aap_parse pl p as b = Inr (p', as', d)" "0 < d"
  shows "parse_aap pl p as b 0 = count_from d (parse_aap pl p' as' (drop d b) 0)"
  using assms by (simp add: parse_aap_run[of pl p as])

lemma parse_aap_inv:
  assumes "aap_parser_inv p"
  shows "case parse_aap pl p as b 0 of Inl f \<Rightarrow> f = NullDeref \<and> False \<in> set as
     | Inr (p', as', n) \<Rightarrow> aap_parser_inv p' \<and> n \<le> length b \<and> (ap_status p' = PARSER_STATUS_GOOD \<longrightarrow> length b - n < 8)"
  using assms
proof (induction b arbitrary: p as rule: length_induct)
  case (1 b)
  show ?case
  proof (cases "ap_status p = PARSER_STATUS_GOOD \<and> b \<noteq> []")
    case True
    have s: "step_ok p as b (aap_parse pl p as b)" using aap_parse_step_ok 1(2) True by blast
    show ?thesis
    proof (cases "aap_parse pl p as b")
      case (Inl f)
      then show ?thesis using s True by (cases as) (auto simp: step_ok_def parse_aap_run)
    next
      case (Inr r)
      obtain p' as' d where r: "r = (p', as', d)" by (cases r) auto
      have d: "aap_parser_inv p'" "d \<le> length b" "d = 0 \<longrightarrow> p' = p \<and> as' = as \<and> length b < 8"
        "as' = as \<or> as' = malloc_rest as" using s Inr r by (auto simp: step_ok_def)
      have m: "set as' \<subseteq> set as" using d(4) by (cases as) auto
      show ?thesis
      proof (cases "d = 0")
        case True2: True
        then show ?thesis using True Inr r d 1(2) by (simp add: parse_aap_run[of pl p as b])
      next
        case False
        have b': "length (drop d b) < length b" using False True by simp
        have "parse_aap pl p as b 0 = count_from d (parse_aap pl p' as' (drop d b) 0)"
          using parse_aap_step True Inr r False by blast
        then show ?thesis using 1(1)[rule_format, OF b' d(1), of as'] d(2) m
          by (cases "parse_aap pl p' as' (drop d b) 0") auto
      qed
    qed
  next
    case False
    then show ?thesis using 1(2) by auto
  qed
qed

section \<open>Input in pieces\<close>

text \<open>A stage that has enough input does not look further; a data stage can be interrupted anywhere.\<close>

lemma aap_parse_append:
  assumes "aap_parse pl p as xs = Inr (p', as', d)" "0 < d" "xs \<noteq> []"
    and "ap_parse p \<in> {ParseEid, ParsePayload} \<Longrightarrow> ap_remaining p \<le> length xs"
  shows "aap_parse pl p as (xs @ ys) = Inr (p', as', d)"
proof (cases "ap_parse p")
  case ParsePayloadLength
  then have "8 \<le> length xs" using assms(1,2) by (auto simp: aap_parse_def aap_parse_payload_length_def split: if_splits)
  then show ?thesis using assms(1) ParsePayloadLength
    by (simp add: aap_parse_def aap_parse_payload_length_def read_uint64_append)
next
  case ParseBundleId
  then have "8 \<le> length xs" using assms(1,2) by (auto simp: aap_parse_def aap_parse_bundle_id_def split: if_splits)
  then show ?thesis using assms(1) ParseBundleId
    by (simp add: aap_parse_def aap_parse_bundle_id_def read_uint64_append)
next
  case ParseEidLength
  then have "2 \<le> length xs" using assms(1,2) by (auto simp: aap_parse_def aap_parse_eid_length_def split: if_splits)
  then have "(xs @ ys) ! 0 = xs ! 0" "(xs @ ys) ! 1 = xs ! 1" "\<not> length (xs @ ys) < 2" "\<not> length xs < 2" by (auto simp: nth_append)
  then show ?thesis using assms(1) ParseEidLength by (simp only: aap_parse_def aap_parse_eid_length_def aap_stage.case if_False)
next
  case ParseType
  have "(xs @ ys) ! 0 = xs ! 0" "(length (xs @ ys) = 0) = False" "(length xs = 0) = False" using assms(3) by (auto simp: nth_append)
  then show ?thesis using assms(1) ParseType by (simp only: aap_parse_def aap_parse_type_def aap_stage.case if_False)
next
  case ParseEid
  have "min (length (xs @ ys)) (ap_remaining p) = ap_remaining p" "min (length xs) (ap_remaining p) = ap_remaining p"
    "take (ap_remaining p) (xs @ ys) = take (ap_remaining p) xs" using assms(4) ParseEid by auto
  then show ?thesis using assms(1) ParseEid by (simp only: aap_parse_def aap_parse_eid_def aap_stage.case Let_def)
next
  case ParsePayload
  have "min (length (xs @ ys)) (ap_remaining p) = ap_remaining p" "min (length xs) (ap_remaining p) = ap_remaining p"
    "take (ap_remaining p) (xs @ ys) = take (ap_remaining p) xs" using assms(4) ParsePayload by auto
  then show ?thesis using assms(1) ParsePayload by (simp only: aap_parse_def aap_parse_payload_def aap_stage.case Let_def)
qed (use assms(1) in \<open>simp add: aap_parse_def\<close>)

lemma aap_parse_append_fault:
  assumes "aap_parse pl p as xs = Inl f" "ap_parse p = ParseEidLength"
  shows "aap_parse pl p as (xs @ ys) = Inl f"
proof -
  have "2 \<le> length xs" using assms by (auto simp: aap_parse_def aap_parse_eid_length_def split: if_splits)
  then have "(xs @ ys) ! 0 = xs ! 0" "(xs @ ys) ! 1 = xs ! 1" "\<not> length (xs @ ys) < 2" "\<not> length xs < 2" by (auto simp: nth_append)
  then show ?thesis using assms by (simp only: aap_parse_def aap_parse_eid_length_def aap_stage.case if_False)
qed

lemma parse_aap_split_eid:
  assumes "stage_ok ParseEid p" "ap_parse p = ParseEid" "ap_status p = PARSER_STATUS_GOOD" "length xs < ap_remaining p"
  shows "\<exists>p1. aap_parse pl p as xs = Inr (p1, as, length xs) \<and> ap_status p1 = PARSER_STATUS_GOOD \<and>
     (\<forall>ys. aap_parse pl p as (xs @ ys) = count_from (length xs) (aap_parse pl p1 as ys))
     \<and> (\<forall>ys q bs e. ys \<noteq> [] \<longrightarrow> aap_parse pl p1 as ys = Inr (q, bs, e) \<longrightarrow> 0 < e)"
proof -
  have l: "msg_eid_length (ap_message p) = ap_consumed p + ap_remaining p" "has_eid (msg_type (ap_message p))"
    and e: "eid_region_ok (ap_message p)"
    using assms(1) by simp_all
  from e obtain buf where buf: "msg_eid (ap_message p) = Some buf" "length buf = ap_consumed p + ap_remaining p + 1"
    unfolding eid_region_ok_def l(1) by (cases "msg_eid (ap_message p)") simp_all
  let ?buf = "take (ap_consumed p) buf @ xs @ drop (ap_consumed p + length xs) buf"
  define p1 where "p1 = p\<lparr>ap_message := (ap_message p)\<lparr>msg_eid := Some ?buf\<rparr>,
     ap_consumed := ap_consumed p + length xs, ap_remaining := ap_remaining p - length xs\<rparr>"
  have p1: "msg_eid (ap_message p1) = Some ?buf" "ap_consumed p1 = ap_consumed p + length xs" "ap_remaining p1 = ap_remaining p - length xs"
    "ap_parse p1 = ParseEid" "msg_eid_length (ap_message p1) = ap_consumed p + ap_remaining p" "msg_type (ap_message p1) = msg_type (ap_message p)"
    using assms(2) l by (simp_all add: p1_def)
  have "aap_parse_eid p (xs @ ys) = bindE (aap_parse_eid p1 ys) (\<lambda>(q, n). Inr (q, length xs + n))" for ys
  proof (cases "length ys < ap_remaining p1")
    case True
    then show ?thesis using assms(4) buf p1
      by (simp add: aap_parse_eid_partial[OF buf] aap_parse_eid_partial[OF p1(1)]) (simp add: p1_def ac_simps)
  next
    case False
    then show ?thesis using assms(4) buf p1 l
      by (simp add: aap_parse_eid_full[OF buf] aap_parse_eid_full[OF p1(1)]) (simp add: p1_def eid_complete_def Let_def)
  qed
  moreover have "0 < n" if "ys \<noteq> []" "aap_parse_eid p1 ys = Inr (q, n)" for ys q n
    using that assms(4) p1 by (auto simp: aap_parse_eid_def Let_def bindE_Inr_iff split: if_splits)
  moreover have "aap_parse_eid p xs = Inr (p1, length xs)" "ap_status p1 = PARSER_STATUS_GOOD"
    using aap_parse_eid_partial[OF buf assms(4)] assms(3) by (simp_all add: p1_def)
  ultimately show ?thesis using assms(2) p1(4)
    by (intro exI[of _ p1]) (auto simp: aap_parse_def count_from_def bindE_Inr_iff bindE_assoc case_prod_beta)
qed


lemma parse_aap_split_payload:
  assumes "stage_ok ParsePayload p" "ap_parse p = ParsePayload" "ap_status p = PARSER_STATUS_GOOD" "length xs < ap_remaining p"
  shows "\<exists>p1. aap_parse pl p as xs = Inr (p1, as, length xs) \<and> ap_status p1 = PARSER_STATUS_GOOD \<and>
     (\<forall>ys. aap_parse pl p as (xs @ ys) = count_from (length xs) (aap_parse pl p1 as ys))
     \<and> (\<forall>ys q bs e. ys \<noteq> [] \<longrightarrow> aap_parse pl p1 as ys = Inr (q, bs, e) \<longrightarrow> 0 < e)"
proof -
  have l: "msg_payload_length (ap_message p) = ap_consumed p + ap_remaining p"
    and r: "msg_payload (ap_message p) \<noteq> None" "payload_region_ok (ap_message p)"
    using assms(1) by simp_all
  from r obtain buf where buf: "msg_payload (ap_message p) = Some buf" "length buf = ap_consumed p + ap_remaining p"
    unfolding payload_region_ok_def l by (cases "msg_payload (ap_message p)") simp_all
  let ?buf = "take (ap_consumed p) buf @ xs @ drop (ap_consumed p + length xs) buf"
  define p1 where "p1 = p\<lparr>ap_message := (ap_message p)\<lparr>msg_payload := Some ?buf\<rparr>,
     ap_consumed := ap_consumed p + length xs, ap_remaining := ap_remaining p - length xs\<rparr>"
  have p1: "msg_payload (ap_message p1) = Some ?buf" "ap_consumed p1 = ap_consumed p + length xs" "ap_remaining p1 = ap_remaining p - length xs"
    "ap_parse p1 = ParsePayload"
    using assms(2) l by (simp_all add: p1_def)
  have "aap_parse_payload p (xs @ ys) = bindE (aap_parse_payload p1 ys) (\<lambda>(q, n). Inr (q, length xs + n))" for ys
  proof (cases "length ys < ap_remaining p1")
    case True
    then show ?thesis using assms(4) buf p1
      by (simp add: aap_parse_payload_partial[OF buf] aap_parse_payload_partial[OF p1(1)]) (simp add: p1_def ac_simps)
  next
    case False
    then show ?thesis using assms(4) buf p1 l
      by (simp add: aap_parse_payload_full[OF buf] aap_parse_payload_full[OF p1(1)]) (simp add: p1_def)
  qed
  moreover have "0 < n" if "ys \<noteq> []" "aap_parse_payload p1 ys = Inr (q, n)" for ys q n
    using that assms(4) p1 by (auto simp: aap_parse_payload_def Let_def bindE_Inr_iff split: if_splits)
  moreover have "aap_parse_payload p xs = Inr (p1, length xs)" "ap_status p1 = PARSER_STATUS_GOOD"
    using aap_parse_payload_partial[OF buf assms(4)] assms(3) by (simp_all add: p1_def)
  ultimately show ?thesis using assms(2) p1(4)
    by (intro exI[of _ p1]) (auto simp: aap_parse_def count_from_def bindE_Inr_iff bindE_assoc case_prod_beta)
qed

lemma parse_aap_interrupted:
  assumes "aap_parser_inv p" "ap_status p = PARSER_STATUS_GOOD" "ap_parse p \<in> {ParseEid, ParsePayload}" "length xs < ap_remaining p" "xs \<noteq> []"
  shows "\<exists>p1. parse_aap pl p as xs 0 = Inr (p1, as, length xs) \<and> ap_status p1 = PARSER_STATUS_GOOD \<and>
     parse_aap pl p as (xs @ ys) 0 = count_from (length xs) (parse_aap pl p1 as ys 0)"
proof -
  have "stage_ok (ap_parse p) p" using assms(1,2) by (simp add: aap_parser_inv_def)
  then obtain p1 where p1: "aap_parse pl p as xs = Inr (p1, as, length xs)" "ap_status p1 = PARSER_STATUS_GOOD"
      "\<And>ys. aap_parse pl p as (xs @ ys) = count_from (length xs) (aap_parse pl p1 as ys)"
      "\<And>ys q bs e. ys \<noteq> [] \<Longrightarrow> aap_parse pl p1 as ys = Inr (q, bs, e) \<Longrightarrow> 0 < e"
    using assms(3) parse_aap_split_eid[OF _ _ assms(2,4)] parse_aap_split_payload[OF _ _ assms(2,4)] by (metis insertE singletonD)
  have xs: "parse_aap pl p as xs 0 = Inr (p1, as, length xs)"
    using parse_aap_step[OF assms(2,5) p1(1)] assms(5) by simp
  have "parse_aap pl p as (xs @ ys) 0 = count_from (length xs) (parse_aap pl p1 as ys 0)"
  proof (cases "ys = []")
    case False
    show ?thesis
    proof (cases "aap_parse pl p1 as ys")
      case (Inl f)
      then show ?thesis using False assms(2,5) p1(2,3) by (simp add: parse_aap_run[of pl p as "xs @ ys"] parse_aap_run[of pl p1 as ys])
    next
      case (Inr r)
    then   obtain q bs e where q: "aap_parse pl p1 as ys = Inr (q, bs, e)" by (cases r) auto
      then have "0 < e" using p1(4) False by blast
      then show ?thesis using False assms(2,5) p1(2,3) q
        by (simp add: parse_aap_run[of pl p as "xs @ ys"] parse_aap_run[of pl p1 as ys])
    qed
  qed (use xs in simp)
  then show ?thesis using xs p1(2) by blast
qed

lemma parse_aap_append:
  assumes "aap_parser_inv p"
  shows "parse_aap pl p as (xs @ ys) 0 = bindE (parse_aap pl p as xs 0) (\<lambda>(p', as', n).
     if ap_status p' = PARSER_STATUS_GOOD then count_from n (parse_aap pl p' as' (drop n xs @ ys) 0) else Inr (p', as', n))"
  using assms
proof (induction xs arbitrary: p as rule: length_induct)
  case (1 xs)
  show ?case
  proof (cases "ap_status p = PARSER_STATUS_GOOD \<and> xs \<noteq> []")
    case True
    have s: "step_ok p as xs (aap_parse pl p as xs)" using aap_parse_step_ok 1(2) True by blast
    show ?thesis
    proof (cases "ap_parse p \<in> {ParseEid, ParsePayload} \<and> length xs < ap_remaining p")
      case split: True
      then show ?thesis using parse_aap_interrupted[OF 1(2), of xs pl as ys] True by auto
    next
      case nosplit: False
      show ?thesis
      proof (cases "aap_parse pl p as xs")
        case (Inl f)
        then have "aap_parse pl p as (xs @ ys) = Inl f" using s by (intro aap_parse_append_fault) (auto simp: step_ok_def)
        then show ?thesis using Inl True by (simp add: parse_aap_run[of pl p as])
      next
        case (Inr r)
        obtain p' as' d where r: "r = (p', as', d)" by (cases r) auto
        have d: "aap_parser_inv p'" "d \<le> length xs" "d = 0 \<longrightarrow> p' = p \<and> as' = as" using s Inr r by (auto simp: step_ok_def)
        show ?thesis
        proof (cases "d = 0")
          case True2: True
          then show ?thesis using True Inr r d by (simp add: parse_aap_run[of pl p as xs])
        next
          case False
          have xs': "length (drop d xs) < length xs" using False True by simp
          have "aap_parse pl p as (xs @ ys) = Inr (p', as', d)"
            using aap_parse_append[of pl p as xs p' as' d ys] Inr r False True nosplit by auto
          then have "parse_aap pl p as (xs @ ys) 0 = count_from d (parse_aap pl p' as' (drop d xs @ ys) 0)"
            using parse_aap_step[of p "xs @ ys" pl as p' as' d] True False d(2) by simp
          moreover have "parse_aap pl p as xs 0 = count_from d (parse_aap pl p' as' (drop d xs) 0)"
            using parse_aap_step[of p xs pl as p' as' d] True False Inr r by simp
          ultimately show ?thesis using 1(1)[rule_format, OF xs' d(1), of as']
            by (cases "parse_aap pl p' as' (drop d xs) 0") (auto simp: bindE_count_from add.commute)
        qed
      qed
    qed
  next
    case False
    then show ?thesis by (cases "ap_status p = PARSER_STATUS_GOOD") auto
  qed
qed

section \<open>What is sent\<close>

definition region_prefix :: "u8 list option \<Rightarrow> nat \<Rightarrow> u8 list" where
  "region_prefix r n = (case r of None \<Rightarrow> [] | Some buf \<Rightarrow> take n buf)"

definition aap_bytes :: "aap_message \<Rightarrow> u8 list" where
  "aap_bytes m = [push_bit 4 0x1 OR (msg_type m AND 0xF)]
     @ (if has_eid (msg_type m) then eid_length_bytes (msg_eid_length m) @ region_prefix (msg_eid m) (msg_eid_length m) else [])
     @ (if has_payload (msg_type m) then put_uint64 (of_nat (msg_payload_length m)) @ region_prefix (msg_payload m) (msg_payload_length m) else [])
     @ (if has_bundle_id (msg_type m) then put_uint64 (ucast (msg_bundle_id m)) else [])"

text \<open>The pointers of the message lead to at least as many bytes as its length fields say.\<close>

definition region_covers :: "u8 list option \<Rightarrow> nat \<Rightarrow> bool" where
  "region_covers r n \<longleftrightarrow> n = 0 \<or> (case r of None \<Rightarrow> False | Some buf \<Rightarrow> n \<le> length buf)"

definition regions_ok :: "aap_message \<Rightarrow> bool" where
  "regions_ok m \<longleftrightarrow> (has_eid (msg_type m) \<longrightarrow> region_covers (msg_eid m) (msg_eid_length m))
     \<and> (has_payload (msg_type m) \<longrightarrow> region_covers (msg_payload m) (msg_payload_length m))"

lemma region_covers_prefix:
  assumes "region_covers r n"
  shows "length (region_prefix r n) = n" "n \<noteq> 0 \<Longrightarrow> read_mem r n = Inr (region_prefix r n)"
  using assms by (auto simp: region_covers_def region_prefix_def read_mem_def split: option.splits)

lemma length_eid_length_bytes: "length (eid_length_bytes n) = 2"
  by (simp add: eid_length_bytes_def)

lemma length_fields_nonempty [simp]: "eid_length_bytes n \<noteq> []" "put_uint64 v \<noteq> []"
  by (simp_all add: eid_length_bytes_def put_uint64_def)

lemma length_aap_bytes: "regions_ok m \<Longrightarrow> length (aap_bytes m) = aap_get_serialized_size m"
  by (simp add: aap_bytes_def aap_get_serialized_size_def regions_ok_def region_covers_prefix(1) length_put_uint64 length_eid_length_bytes)

context byte_sink
begin

lemma write_field:
  assumes "region_covers r n" "room p (length hdr + n)"
  shows "bindE (sink p hdr) (\<lambda>q. if n \<noteq> 0 then bindE (read_mem r n) (sink q) else Inr q) = Inr (app p (hdr @ region_prefix r n))"
proof (cases "n = 0")
  case True
  then show ?thesis using assms(2) region_covers_prefix(1)[OF assms(1)] by (simp add: write_app)
next
  case False
  have "sink p hdr = Inr (app p hdr)" using assms(2) room_mono[of p "length hdr + n" "length hdr"] by (simp add: write_app)
  moreover have "sink (app p hdr) (region_prefix r n) = Inr (app (app p hdr) (region_prefix r n))"
    using assms by (intro write_app) (simp add: room_app region_covers_prefix)
  ultimately show ?thesis using False region_covers_prefix(2)[OF assms(1)] by (simp add: app_app assms region_covers_prefix)
qed

lemma serialize_appends:
  assumes "regions_ok m" "room p (aap_get_serialized_size m)"
  shows "aap_serialize sink p m = Inr (app p (aap_bytes m))"
proof -
  let ?t = "[push_bit 4 0x1 OR (msg_type m AND 0xF)]"
  let ?e = "if has_eid (msg_type m) then eid_length_bytes (msg_eid_length m) @ region_prefix (msg_eid m) (msg_eid_length m) else []"
  let ?d = "if has_payload (msg_type m) then put_uint64 (of_nat (msg_payload_length m)) @ region_prefix (msg_payload m) (msg_payload_length m) else []"
  let ?i = "if has_bundle_id (msg_type m) then put_uint64 (ucast (msg_bundle_id m)) else []"
  have sz: "length ?t + length ?e + length ?d + length ?i = aap_get_serialized_size m"
    using length_aap_bytes[OF assms(1)] by (simp add: aap_bytes_def)
  have room: "room p n" if "n \<le> aap_get_serialized_size m" for n using room_mono[OF assms(2) that] .
  have 1: "sink p ?t = Inr (app p ?t)" using room sz by (intro write_app) simp
  have 2: "(if has_eid (msg_type m)
            then bindE (sink (app p ?t) (eid_length_bytes (msg_eid_length m))) (\<lambda>q.
              if msg_eid_length m \<noteq> 0 then bindE (read_mem (msg_eid m) (msg_eid_length m)) (sink q) else Inr q)
            else Inr (app p ?t)) = Inr (app p (?t @ ?e))"
    using write_field[of "msg_eid m" "msg_eid_length m" "app p ?t" "eid_length_bytes (msg_eid_length m)"] assms(1) sz
    by (auto simp: regions_ok_def app_app room_app room length_eid_length_bytes region_covers_prefix(1) room)
  have 3: "(if has_payload (msg_type m)
            then bindE (sink (app p (?t @ ?e)) (put_uint64 (of_nat (msg_payload_length m)))) (\<lambda>q.
              if msg_payload_length m \<noteq> 0 then bindE (read_mem (msg_payload m) (msg_payload_length m)) (sink q) else Inr q)
            else Inr (app p (?t @ ?e))) = Inr (app p (?t @ ?e @ ?d))"
    using write_field[of "msg_payload m" "msg_payload_length m" "app p (?t @ ?e)" "put_uint64 (of_nat (msg_payload_length m))"] assms(1) sz
    by (auto simp: regions_ok_def app_app room_app length_put_uint64 region_covers_prefix(1) room)
  have 4: "(if has_bundle_id (msg_type m) then sink (app p (?t @ ?e @ ?d)) (put_uint64 (ucast (msg_bundle_id m)))
            else Inr (app p (?t @ ?e @ ?d))) = Inr (app p (?t @ ?e @ ?d @ ?i))"
    using sz room by (auto simp: write_app app_app room_app)
  show ?thesis unfolding aap_serialize_def 1 bindE_simps 2 3 4 by (simp add: aap_bytes_def)
qed

end

definition buffer_append :: "write_context \<Rightarrow> u8 list \<Rightarrow> write_context" where
  "buffer_append ctx d = \<lparr>wc_buffer = take (wc_position ctx) (wc_buffer ctx) @ d @ drop (wc_position ctx + length d) (wc_buffer ctx),
     wc_position = wc_position ctx + length d\<rparr>"

definition buffer_room :: "write_context \<Rightarrow> nat \<Rightarrow> bool" where
  "buffer_room ctx n \<longleftrightarrow> wc_position ctx + n \<le> length (wc_buffer ctx)"

interpretation buffer_sink: byte_sink write_to_buffer buffer_append buffer_room
  by unfold_locales
    (auto simp: write_to_buffer_def memcpy_at_def buffer_append_def buffer_room_def ac_simps)

lemma aap_serialize_into_exact:
  assumes "regions_ok m" "aap_get_serialized_size m \<le> length buffer"
  shows "aap_serialize_into buffer m = Inr (aap_bytes m @ drop (aap_get_serialized_size m) buffer)"
  using buffer_sink.serialize_appends[OF assms(1), of "\<lparr>wc_buffer = buffer, wc_position = 0\<rparr>"] assms(2) length_aap_bytes[OF assms(1)]
  by (simp add: aap_serialize_into_def buffer_room_def buffer_append_def)

lemma valid_message:
  assumes "aap_message_is_valid m = Inr True"
  shows "msg_type m \<le> AAP_MESSAGE_PING"
    and "has_eid (msg_type m) \<Longrightarrow> \<exists>cs rest. msg_eid m = Some (cs @ 0 # rest) \<and> 0 \<notin> set cs \<and> length cs = msg_eid_length m \<and> msg_eid_length m \<le> 65535"
    and "\<not> has_eid (msg_type m) \<Longrightarrow> msg_eid m = None"
    and "has_payload (msg_type m) \<Longrightarrow> msg_payload m = None \<Longrightarrow> msg_payload_length m = 0"
    and "\<not> has_payload (msg_type m) \<Longrightarrow> msg_payload m = None"
    and "has_bundle_id (msg_type m) \<Longrightarrow> msg_bundle_id m \<noteq> 0"
proof -
  show "msg_type m \<le> AAP_MESSAGE_PING"
    using assms by (auto simp: aap_message_is_valid_def not_less split: if_splits)
  show "\<exists>cs rest. msg_eid m = Some (cs @ 0 # rest) \<and> 0 \<notin> set cs \<and> length cs = msg_eid_length m \<and> msg_eid_length m \<le> 65535" if e: "has_eid (msg_type m)"
  proof -
    obtain buf where buf: "msg_eid m = Some buf" "c_strlen buf = Inr (msg_eid_length m)" "msg_eid_length m \<le> 65535"
      using assms e by (auto simp: aap_message_is_valid_def bindE_Inr_iff split: if_splits option.splits)
    have z: "0 \<in> set buf" and l: "length (takeWhile (\<lambda>c. c \<noteq> 0) buf) = msg_eid_length m"
      using buf(2) by (auto simp: c_strlen_def split: if_splits)
    let ?d = "dropWhile (\<lambda>c. c \<noteq> 0) buf"
    have "?d \<noteq> []" using z by (simp add: dropWhile_eq_Nil_conv)
    then have "?d = 0 # tl ?d" using hd_dropWhile[of "\<lambda>c. c \<noteq> 0" buf] by (metis list.collapse)
    then have "buf = takeWhile (\<lambda>c. c \<noteq> 0) buf @ 0 # tl ?d" by (metis takeWhile_dropWhile_id)
    moreover have "0 \<notin> set (takeWhile (\<lambda>c. c \<noteq> 0) buf)" by (auto dest: set_takeWhileD)
    ultimately show ?thesis using buf l by metis
  qed
qed (use assms in \<open>auto simp: aap_message_is_valid_def bindE_Inr_iff BUNDLE_INVALID_ID_def split: if_splits\<close>)


section \<open>Round trip\<close>

text \<open>
  The message as the receiver sees it: the regions have exactly the length of the fields, the identifier
  is terminated, an absent payload has become an empty one, and fields the type does not use are zero.
\<close>

definition received_message :: "aap_message \<Rightarrow> aap_message" where
  "received_message m = \<lparr>msg_type = msg_type m,
     msg_eid = (if has_eid (msg_type m) then Some (region_prefix (msg_eid m) (msg_eid_length m) @ [0]) else None),
     msg_eid_length = (if has_eid (msg_type m) then msg_eid_length m else 0),
     msg_payload = (if has_payload (msg_type m) then Some (region_prefix (msg_payload m) (msg_payload_length m)) else None),
     msg_payload_length = (if has_payload (msg_type m) then msg_payload_length m else 0),
     msg_bundle_id = (if has_bundle_id (msg_type m) then msg_bundle_id m else 0)\<rparr>"

lemma wire_type:
  assumes "t \<le> AAP_MESSAGE_PING"
  shows "t \<in> {0, 1, 2, 3, 4, 5, 6, 7, 8}"
proof -
  have "unat t \<le> 8" using assms by (simp add: AAP_MESSAGE_PING_def word_le_nat_alt)
  then have "unat t = 0 \<or> unat t = 1 \<or> unat t = 2 \<or> unat t = 3 \<or> unat t = 4 \<or> unat t = 5 \<or> unat t = 6 \<or> unat t = 7 \<or> unat t = 8" by arith
  then show ?thesis by (simp only: insert_iff word_unat_eq_iff) simp
qed

lemma type_byte:
  assumes "t \<le> AAP_MESSAGE_PING"
  shows "drop_bit 4 ((push_bit 4 0x1 OR (t AND 0xF)) AND 0xF0) = (0x1 :: u8)" "(push_bit 4 0x1 OR (t AND 0xF)) AND 0x0F = (t :: u8)"
  using wire_type[OF assms] by auto

definition eid_done :: "aap_parser \<Rightarrow> u8 list \<Rightarrow> aap_parser" where
  "eid_done p e = p\<lparr>ap_message := (ap_message p)\<lparr>msg_eid_length := length e, msg_eid := Some (e @ [0])\<rparr>,
     ap_consumed := length e, ap_remaining := 0,
     ap_parse := (if has_payload (msg_type (ap_message p)) \<and> e \<noteq> [] then ParsePayloadLength else ParseEid),
     ap_status := (if has_payload (msg_type (ap_message p)) \<and> e \<noteq> [] then PARSER_STATUS_GOOD else PARSER_STATUS_DONE)\<rparr>"

definition payload_done :: "aap_parser \<Rightarrow> u8 list \<Rightarrow> aap_parser" where
  "payload_done p d = p\<lparr>ap_message := (ap_message p)\<lparr>msg_payload_length := length d, msg_payload := Some d\<rparr>,
     ap_consumed := length d, ap_remaining := 0, ap_parse := ParsePayload, ap_status := PARSER_STATUS_DONE\<rparr>"

lemma run_eid:
  assumes "ap_parse p = ParseEidLength" "ap_status p = PARSER_STATUS_GOOD" "has_eid (msg_type (ap_message p))" "length e \<le> 65535"
  shows "parse_aap pl p [] (eid_length_bytes (length e) @ e @ r) 0 = count_from (2 + length e) (parse_aap pl (eid_done p e) [] r 0)"
proof -
  let ?n = "length e"
  define buf where "buf = take ?n (fresh_region pl (?n + 1)) @ [0]"
  define p1 where "p1 = p\<lparr>ap_message := (ap_message p)\<lparr>msg_eid_length := ?n, msg_eid := Some buf\<rparr>, ap_consumed := 0, ap_remaining := ?n,
     ap_status := (if e = [] then PARSER_STATUS_DONE else PARSER_STATUS_GOOD), ap_parse := ParseEid\<rparr>"
  have v: "unat (push_bit 8 (ucast ((eid_length_bytes ?n @ e @ r) ! 0) :: u16) OR ucast ((eid_length_bytes ?n @ e @ r) ! 1)) = ?n"
    using eid_length_bytes_value[of ?n] assms(4) length_eid_length_bytes[of ?n] by (simp add: nth_append)
  have "aap_parse_eid_length pl p [] (eid_length_bytes ?n @ e @ r) = Inr (p1, [], 2)"
    unfolding aap_parse_eid_length_def v using assms(2) length_eid_length_bytes[of ?n]
    by (simp add: memcpy_at_def Let_def p1_def buf_def)
  then have 1: "parse_aap pl p [] (eid_length_bytes ?n @ e @ r) 0 = count_from 2 (parse_aap pl p1 [] (e @ r) 0)"
    using parse_aap_step[of p "eid_length_bytes ?n @ e @ r" pl "[]" p1 "[]" 2] assms(1,2) length_eid_length_bytes[of ?n]
    by (auto simp: aap_parse_def)
  show ?thesis
  proof (cases "e = []")
    case True
    then have "p1 = eid_done p e" by (simp add: p1_def eid_done_def buf_def)
    then show ?thesis using 1 True by simp
  next
    case False
    have "aap_parse_eid p1 (e @ r) = Inr (eid_complete p1 (take 0 buf @ take ?n (e @ r) @ [0]), ?n)"
      using aap_parse_eid_full[of p1 buf "e @ r"] assms(3) by (simp add: p1_def buf_def)
    moreover have "eid_complete p1 (e @ [0]) = eid_done p e"
      using False assms(2) by (simp add: eid_complete_def eid_done_def p1_def Let_def)
    ultimately have "parse_aap pl p1 [] (e @ r) 0 = count_from ?n (parse_aap pl (eid_done p e) [] r 0)"
      using parse_aap_step[of p1 "e @ r" pl "[]" "eid_done p e" "[]" ?n] False by (simp add: aap_parse_def p1_def)
    then show ?thesis using 1 by simp
  qed
qed

lemma run_payload:
  assumes "ap_parse p = ParsePayloadLength" "ap_status p = PARSER_STATUS_GOOD" "ap_max_payload_length p = 0"
    and "length d \<le> plat_size_max pl" "length d < 2 ^ 64"
  shows "parse_aap pl p [] (put_uint64 (of_nat (length d)) @ d @ r) 0 = Inr (payload_done p d, [], 8 + length d)"
proof -
  let ?n = "length d"
  define p1 where "p1 = p\<lparr>ap_message := (ap_message p)\<lparr>msg_payload_length := ?n, msg_payload := Some (fresh_region pl ?n)\<rparr>,
     ap_consumed := 0, ap_remaining := ?n, ap_status := (if d = [] then PARSER_STATUS_DONE else PARSER_STATUS_GOOD), ap_parse := ParsePayload\<rparr>"
  have v: "unat (read_uint64 (put_uint64 (of_nat ?n) @ d @ r)) = ?n"
    using assms(5) by (simp add: read_put_uint64 unsigned_of_nat take_bit_nat_eq_self)
  have "aap_parse_payload_length pl p [] (put_uint64 (of_nat ?n) @ d @ r) = (p1, [], 8)"
    unfolding aap_parse_payload_length_def v using assms(2-4) length_put_uint64[of "of_nat ?n"]
    by (simp add: Let_def p1_def)
  then have 1: "parse_aap pl p [] (put_uint64 (of_nat ?n) @ d @ r) 0 = count_from 8 (parse_aap pl p1 [] (d @ r) 0)"
    using parse_aap_step[of p "put_uint64 (of_nat ?n) @ d @ r" pl "[]" p1 "[]" 8] assms(1,2) length_put_uint64[of "of_nat ?n"]
    by (auto simp: aap_parse_def)
  show ?thesis
  proof (cases "d = []")
    case True
    then have "p1 = payload_done p d" by (simp add: p1_def payload_done_def fresh_region_def)
    then show ?thesis using 1 True by (simp add: payload_done_def)
  next
    case False
    have "aap_parse_payload p1 (d @ r) = Inr (payload_done p d, ?n)"
      using aap_parse_payload_full[of p1 "fresh_region pl ?n" "d @ r"] by (simp add: p1_def payload_done_def)
    then have "parse_aap pl p1 [] (d @ r) 0 = count_from ?n (parse_aap pl (payload_done p d) [] r 0)"
      using parse_aap_step[of p1 "d @ r" pl "[]" "payload_done p d" "[]" ?n] False by (simp add: aap_parse_def p1_def)
    then show ?thesis using 1 by (simp add: payload_done_def)
  qed
qed


lemma run_bundle_id:
  assumes "ap_parse p = ParseBundleId" "ap_status p = PARSER_STATUS_GOOD"
  shows "parse_aap pl p [] (put_uint64 (ucast i) @ r) 0
     = Inr (p\<lparr>ap_message := (ap_message p)\<lparr>msg_bundle_id := i\<rparr>, ap_status := PARSER_STATUS_DONE\<rparr>, [], 8)"
  using assms length_put_uint64[of "ucast i"] by (simp add: parse_aap_run[of pl p] aap_parse_def aap_parse_bundle_id_def read_put_uint64 ucast_ucast_up)

definition typed_parser :: "aap_parser \<Rightarrow> u8 \<Rightarrow> aap_parser" where
  "typed_parser p t = (aap_parser_init p)\<lparr>ap_message := (aap_message_clear zero_message)\<lparr>msg_type := t\<rparr>\<rparr>"

lemma run_type:
  assumes "t \<le> AAP_MESSAGE_PING"
  shows "parse_aap pl (aap_parser_init p) [] ((push_bit 4 0x1 OR (t AND 0xF)) # r) 0 = count_from 1 (parse_aap pl
     (if has_eid t then (typed_parser p t)\<lparr>ap_parse := ParseEidLength\<rparr> else if has_bundle_id t then (typed_parser p t)\<lparr>ap_parse := ParseBundleId\<rparr>
      else (typed_parser p t)\<lparr>ap_status := PARSER_STATUS_DONE\<rparr>) [] r 0)" (is "_ = count_from 1 (parse_aap pl ?q [] r 0)")
proof -
  have k: "t = AAP_MESSAGE_ACK \<or> t = AAP_MESSAGE_NACK \<or> t = AAP_MESSAGE_PING \<or> has_eid t \<or> has_bundle_id t"
    using wire_type[OF assms] by (auto simp: aap_kind_defs)
  have "aap_parse_type (aap_parser_init p) ((push_bit 4 0x1 OR (t AND 0xF)) # r) = (?q, 1)"
    unfolding aap_parse_type_def nth_Cons_0 type_byte[OF assms(1)] using k
    by (auto simp: Let_def typed_parser_def has_eid_def has_bundle_id_def aap_parser_init_def aap_parser_reset_def aap_message_clear_def aap_type_defs)
  then show ?thesis
    using parse_aap_step[of "aap_parser_init p" "(push_bit 4 0x1 OR (t AND 0xF)) # r" pl "[]" ?q "[]" 1] aap_parser_init_inv(2)[of p]
    by (simp add: aap_parse_def) (simp add: aap_parser_init_def aap_parser_reset_def)
qed

lemma run_message:
  assumes "aap_message_is_valid m = Inr True" "regions_ok m"
    and "has_payload (msg_type m) \<Longrightarrow> msg_eid_length m \<noteq> 0 \<and> msg_payload_length m \<le> plat_size_max pl \<and> msg_payload_length m < 2 ^ 64"
  shows "\<exists>q. parse_aap pl (aap_parser_init p) [] (aap_bytes m @ rest) 0 = Inr (q, [], aap_get_serialized_size m)
     \<and> ap_status q = PARSER_STATUS_DONE \<and> fst (aap_parser_extract_message q) = received_message m"
proof -
  note v = valid_message[OF assms(1)]
  let ?t = "msg_type m"
  let ?e = "region_prefix (msg_eid m) (msg_eid_length m)"
  let ?d = "region_prefix (msg_payload m) (msg_payload_length m)"
  define p1 where "p1 = typed_parser p ?t"
  note t = run_type[OF v(1), of pl p, folded p1_def]
  have ms: "ap_status p1 = PARSER_STATUS_GOOD" "ap_max_payload_length p1 = 0" "msg_type (ap_message p1) = ?t"
    by (simp_all add: p1_def typed_parser_def aap_parser_init_def aap_parser_reset_def)
  consider (eid) "has_eid ?t" "\<not> has_payload ?t" "\<not> has_bundle_id ?t" | (payload) "has_eid ?t" "has_payload ?t" "\<not> has_bundle_id ?t"
    | (bid) "has_bundle_id ?t" "\<not> has_eid ?t" "\<not> has_payload ?t" | (none) "\<not> has_bundle_id ?t" "\<not> has_eid ?t" "\<not> has_payload ?t"
    using has_bundle_id_type has_payload_eid by blast
  then show ?thesis
  proof cases
    case eid
    have e: "length ?e = msg_eid_length m" "msg_eid_length m \<le> 65535"
      using assms(2) eid(1) region_covers_prefix(1) v(2) by (auto simp: regions_ok_def)
    show ?thesis
      using t[of "eid_length_bytes (msg_eid_length m) @ ?e @ rest"] run_eid[of "p1\<lparr>ap_parse := ParseEidLength\<rparr>" ?e pl rest] eid e ms
      by (simp add: aap_bytes_def aap_get_serialized_size_def eid_done_def aap_parser_extract_message_def received_message_def)
        (simp add: p1_def typed_parser_def aap_message_clear_def zero_message_def)
  next
    case payload
    have e: "length ?e = msg_eid_length m" "msg_eid_length m \<le> 65535" and d: "length ?d = msg_payload_length m"
      using assms(2) payload region_covers_prefix(1) v(2) by (auto simp: regions_ok_def)
    have ne: "?e \<noteq> []" using e(1) assms(3) payload(2) by auto
    let ?p2 = "eid_done (p1\<lparr>ap_parse := ParseEidLength\<rparr>) ?e"
    have p2: "ap_parse ?p2 = ParsePayloadLength" "ap_status ?p2 = PARSER_STATUS_GOOD" "ap_max_payload_length ?p2 = 0"
      using payload e ne ms by (simp_all add: eid_done_def)
    show ?thesis
      using t[of "eid_length_bytes (msg_eid_length m) @ ?e @ put_uint64 (of_nat (msg_payload_length m)) @ ?d @ rest"]
        run_eid[of "p1\<lparr>ap_parse := ParseEidLength\<rparr>" ?e pl "put_uint64 (of_nat (msg_payload_length m)) @ ?d @ rest"]
        run_payload[OF p2, of ?d pl rest] payload e ne d ms assms(3)
      by (simp add: aap_bytes_def aap_get_serialized_size_def payload_done_def aap_parser_extract_message_def received_message_def)
        (simp add: p1_def typed_parser_def eid_done_def aap_message_clear_def zero_message_def)
  next
    case bid
    then show ?thesis
      using t[of "put_uint64 (ucast (msg_bundle_id m)) @ rest"] run_bundle_id[of "p1\<lparr>ap_parse := ParseBundleId\<rparr>" pl "msg_bundle_id m" rest] ms
      by (simp add: aap_bytes_def aap_get_serialized_size_def aap_parser_extract_message_def received_message_def)
        (simp add: p1_def typed_parser_def aap_message_clear_def zero_message_def)
  next
    case none
    then show ?thesis using t[of rest]
      by (simp add: aap_bytes_def aap_get_serialized_size_def aap_parser_extract_message_def received_message_def)
        (simp add: p1_def typed_parser_def aap_message_clear_def zero_message_def)
  qed
qed


section \<open>Property\<close>

text \<open>
  C13. The parser of the application protocol is total and yields well-formed messages: on any input, in any state it can be in, it uses at
  most the bytes it was given and faults only if an allocation fails. A complete message has exactly the fields of its type, with an
  identifier that is terminated at its announced length and a payload region of the announced size; a parser that waits for more input
  leaves less than eight bytes.
\<close>

theorem aap_parser_well_formed:
  assumes "aap_parser_inv p"
  shows "case parse_aap pl p as b 0 of Inl f \<Rightarrow> f = NullDeref \<and> False \<in> set as
     | Inr (q, as', n) \<Rightarrow> n \<le> length b \<and> aap_parser_inv q \<and> (ap_status q = PARSER_STATUS_GOOD \<longrightarrow> length b - n < 8)
         \<and> (ap_status q = PARSER_STATUS_DONE \<longrightarrow> message_shape (fst (aap_parser_extract_message q)))"
  using parse_aap_inv[OF assms, of as b pl]
  by (auto simp: aap_parser_inv_def aap_parser_extract_message_def split: sum.splits)

theorem aap_parser_well_formed_witness:
  "case parse_aap \<lparr>plat_size_max = 1000, plat_junk = (\<lambda>_. 0)\<rparr> (aap_parser_init \<lparr>ap_status = PARSER_STATUS_ERROR, ap_max_payload_length = 0,
      ap_parse = ParseNull, ap_message = zero_message, ap_consumed = 0, ap_remaining = 0\<rparr>) [] [0x12, 0, 2, 97] 0 of
     Inl f \<Rightarrow> False | Inr (q, as', n) \<Rightarrow> n \<le> 4 \<and> aap_parser_inv q"
  using aap_parser_well_formed[OF aap_parser_init_inv(1), of "[]" "[0x12, 0, 2, 97]" "\<lparr>plat_size_max = 1000, plat_junk = (\<lambda>_. 0)\<rparr>"
      "\<lparr>ap_status = PARSER_STATUS_ERROR, ap_max_payload_length = 0, ap_parse = ParseNull, ap_message = zero_message, ap_consumed = 0, ap_remaining = 0\<rparr>"]
  by (auto split: sum.splits)

end
