(* ===== verification/Application_Agent.thy ===== *)
theory Application_Agent
  imports Aap Bundle6 Delivery
begin

unbundle bit_operations_syntax

text \<open>
  The application agent of the POSIX platform, \<^verbatim>\<open>components/agents/posix/application_agent.c\<close>: one connection, its receive buffer, the
  AAP messages and what they do to the bundle storage and to the queue of the bundle processor. With it come \<^verbatim>\<open>tcp_send_all\<close> of
  \<^verbatim>\<open>cla_tcp_util.c\<close> and \<^verbatim>\<open>bundle7_create_local\<close>.

  The operating system is a list of answers: what \<^verbatim>\<open>send\<close> accepts, what \<^verbatim>\<open>recv\<close> delivers, and the events of \<^verbatim>\<open>poll\<close>. The bundle
  processor answers a request to (de)register an agent through a feedback queue; these answers are a list too. The storage is
  shared with the bundle processor. A call that does not return is \<^term>\<open>None\<close>.
\<close>

section \<open>Sending\<close>

datatype send_result = Sent nat | SendRetry | SendFailed int

text \<open>
  The loop passes the start of the buffer in every round; \<open>sent\<close> only shortens the length. An exhausted list of answers stands for a socket
  that takes everything. \<^verbatim>\<open>SendRetry\<close> is one of \<^verbatim>\<open>EAGAIN\<close>, \<^verbatim>\<open>EWOULDBLOCK\<close> and \<^verbatim>\<open>EINTR\<close>. The results are the return value, \<^verbatim>\<open>errno\<close>, the
  bytes the socket has taken, and the remaining answers.
\<close>

fun tcp_send_all :: "u8 list \<Rightarrow> nat \<Rightarrow> send_result list \<Rightarrow> u8 list \<Rightarrow> int \<times> int \<times> u8 list \<times> send_result list" where
  "tcp_send_all buffer sent answers out =
    (if sent < length buffer then
       (case answers of
          [] \<Rightarrow> (int (length buffer), 0, out @ take (length buffer - sent) buffer, [])
        | SendRetry # rest \<Rightarrow> tcp_send_all buffer sent rest out
        | SendFailed e # rest \<Rightarrow> (-1, e, out, rest)
        | Sent n # rest \<Rightarrow>
            let r = min n (length buffer - sent) in
            if r = 0 then (0, 0, out, rest) else tcp_send_all buffer (sent + r) rest (out @ take r buffer))
     else (int sent, 0, out, answers))"

declare tcp_send_all.simps [simp del]

record write_socket_param =
  wsp_out :: "u8 list"
  wsp_answers :: "send_result list"
  wsp_errno :: int

definition write_to_socket :: "write_socket_param \<Rightarrow> u8 list \<Rightarrow> fault + write_socket_param" where
  "write_to_socket wsp buffer =
    (if wsp_errno wsp \<noteq> 0 then Inr wsp
     else case tcp_send_all buffer 0 (wsp_answers wsp) (wsp_out wsp) of
       (result, e, out, rest) \<Rightarrow>
         Inr (wsp\<lparr>wsp_out := out, wsp_answers := rest, wsp_errno := (if result = -1 then e else wsp_errno wsp)\<rparr>))"

section \<open>State\<close>

text \<open>
  \<open>aa_local_eid\<close>, \<open>aa_bp_version\<close> and \<open>aa_lifetime\<close> come from the configuration; \<open>aa_config\<close> and \<open>aa_callback\<close> are the addresses of the
  connection's configuration and of \<^verbatim>\<open>agent_msg_recv\<close>, the rest is fresh memory.
\<close>

record aa_env =
  aa_local_eid :: string
  aa_bp_version :: u8
  aa_lifetime :: u64
  aa_config :: nat
  aa_callback :: nat
  aa_platform :: aap_platform
  aa_bundle_junk :: bundle_t
  aa_block_junk :: bundle_block
  aa_fresh :: "bundle_heap \<Rightarrow> bptr"

record aa_state =
  aa_registered :: "string option"
  aa_out :: "u8 list"
  aa_answers :: "send_result list"
  aa_now :: u64
  aa_heap :: bundle_heap
  aa_store :: storage
  aa_allocs :: alloc_script
  aa_signals :: "bundle_processor_signal list"
  aa_feedback :: "(nat option \<times> int option) list"

definition bindR :: "(fault + 'a) option \<Rightarrow> ('a \<Rightarrow> (fault + 'b) option) \<Rightarrow> (fault + 'b) option" where
  "bindR m f = (case m of None \<Rightarrow> None | Some (Inl e) \<Rightarrow> Some (Inl e) | Some (Inr x) \<Rightarrow> f x)"

lemma bindR_simps [simp]: "bindR None f = None" "bindR (Some (Inl e)) f = Some (Inl e)" "bindR (Some (Inr x)) f = f x"
  by (simp_all add: bindR_def)

definition send_message :: "aap_message \<Rightarrow> aa_state \<Rightarrow> fault + int \<times> aa_state" where
  "send_message msg s = bindE (aap_serialize write_to_socket \<lparr>wsp_out = aa_out s, wsp_answers = aa_answers s, wsp_errno = 0\<rparr> msg) (\<lambda>wsp.
     Inr (- wsp_errno wsp, s\<lparr>aa_out := wsp_out wsp, aa_answers := wsp_answers wsp\<rparr>))"

section \<open>Bundles\<close>

definition bundle7_create_local ::
  "bundle_t \<Rightarrow> bundle_block \<Rightarrow> u8 list option \<Rightarrow> nat \<Rightarrow> eid \<Rightarrow> eid \<Rightarrow> u64 \<Rightarrow> u64 \<Rightarrow> u32 \<Rightarrow> alloc_script \<Rightarrow> bundle_t option \<times> alloc_script" where
  "bundle7_create_local junk bjunk payload payload_length src dst creation_time_s lifetime_s flags as =
    (case bundle_init junk as of
       (None, as1) \<Rightarrow> (None, as1)
     | (Some b0, as1) \<Rightarrow>
       let b1 = b0\<lparr>protocol_version := 7, proc_flags := flags, creation_timestamp_ms := creation_time_s * 1000, sequence_number := 1,
                  lifetime_ms := lifetime_s * 1000, crc_type := DEFAULT_CRC_TYPE\<rparr>;
           (k, as2) = bundle_block_create bjunk BUNDLE_BLOCK_TYPE_PAYLOAD as1;
           (e, as3) = bundle_block_entry_create k as2
       in (case e of
            None \<Rightarrow> (None, as3)
          | Some blk \<Rightarrow>
            (case strdup src as3 of (source', as4) \<Rightarrow>
             if source' = None then (None, as4)
             else (case strdup dst as4 of (destination', as5) \<Rightarrow>
               if destination' = None then (None, as5)
               else (case strdup ''dtn:none'' as5 of (report_to', as6) \<Rightarrow>
                 if report_to' = None then (None, as6)
                 else (Some (bundle7_recalculate_primary_block_length
                        (b1\<lparr>blocks := [blk\<lparr>blk_data := payload, blk_length := of_nat payload_length\<rparr>], payload_block := Some 0,
                            source := source', destination := destination', report_to := report_to'\<rparr>)), as6))))))"

definition create_bundle ::
  "aa_env \<Rightarrow> string \<Rightarrow> string \<Rightarrow> u64 \<Rightarrow> u8 list option \<Rightarrow> nat \<Rightarrow> alloc_script \<Rightarrow> fault + bundle_t option \<times> alloc_script" where
  "create_bundle env sink_id dst now payload payload_length as =
    (if \<not> malloc_ok as then Inr (None, malloc_rest as)
     else let source_eid = aa_local_eid env @ ''/'' @ sink_id in
       if aa_bp_version env = 6
       then bundle6_create_local (aa_bundle_junk env) (aa_block_junk env) payload payload_length source_eid dst now (aa_lifetime env) 0 (malloc_rest as)
       else Inr (bundle7_create_local (aa_bundle_junk env) (aa_block_junk env) payload payload_length source_eid dst now (aa_lifetime env) 0
         (malloc_rest as)))"

definition create_forward_bundle :: "aa_env \<Rightarrow> string \<Rightarrow> string \<Rightarrow> u8 list option \<Rightarrow> nat \<Rightarrow> aa_state \<Rightarrow> (fault + bundleid_t \<times> aa_state) option" where
  "create_forward_bundle env sink_id dst payload payload_length s =
     bindR (Some (create_bundle env sink_id dst (aa_now s) payload payload_length (aa_allocs s))) (\<lambda>(bo, as).
     case bo of None \<Rightarrow> Some (Inr (BUNDLE_INVALID_ID, s\<lparr>aa_allocs := as\<rparr>))
     | Some b \<Rightarrow>
       let p = aa_fresh env (aa_heap s) in
       bindR (bundle_storage_add p ((aa_heap s)(p \<mapsto> b)) (aa_store s) as) (\<lambda>(i, hp, st, as1).
         let s1 = s\<lparr>aa_heap := hp, aa_store := st, aa_allocs := as1\<rparr> in
         if i \<noteq> BUNDLE_INVALID_ID
         then bindR (Some (bundle_processor_inform i BP_SIGNAL_BUNDLE_LOCAL_DISPATCH BUNDLE_SR_REASON_NO_INFO)) (\<lambda>sig.
           Some (Inr (i, s1\<lparr>aa_signals := aa_signals s1 @ [sig]\<rparr>)))
         else Some (Inr (i, s1\<lparr>aa_heap := (aa_heap s1)(p := None)\<rparr>))))"

section \<open>Registration\<close>

text \<open>One request to the bundle processor uses one pair of answers: the feedback queue and the feedback.\<close>

definition agent_action :: "bundle_processor_signal_type \<Rightarrow> string \<Rightarrow> nat option \<Rightarrow> nat \<Rightarrow> aa_state \<Rightarrow> fault + int \<times> aa_state" where
  "agent_action type sink_id cb param s =
    (let (queue, feedback) = (case aa_feedback s of [] \<Rightarrow> (None, None) | x # _ \<Rightarrow> x) in
     bindE (bundle_processor_perform_agent_action type (Some sink_id) cb param True (malloc_ok (aa_allocs s)) queue feedback) (\<lambda>(r, sig).
       Inr (r, s\<lparr>aa_allocs := malloc_rest (aa_allocs s), aa_feedback := tl (aa_feedback s),
                aa_signals := aa_signals s @ (case sig of None \<Rightarrow> [] | Some x \<Rightarrow> [x])\<rparr>)))"

definition register_sink :: "aa_env \<Rightarrow> string \<Rightarrow> aa_state \<Rightarrow> fault + int \<times> aa_state" where
  "register_sink env sink_id = agent_action BP_SIGNAL_AGENT_REGISTER sink_id (Some (aa_callback env)) (aa_config env)"

definition deregister_sink :: "aa_state \<Rightarrow> fault + aa_state" where
  "deregister_sink s = (case aa_registered s of
     None \<Rightarrow> Inr s
   | Some sink_id \<Rightarrow> bindE (agent_action BP_SIGNAL_AGENT_DEREGISTER sink_id None 0 s) (\<lambda>(_, s1). Inr (s1\<lparr>aa_registered := None\<rparr>)))"

section \<open>Messages\<close>

text \<open>The text a region holds up to its terminator.\<close>

definition region_text :: "u8 list \<Rightarrow> string" where
  "region_text buf = bytes_string (takeWhile (\<lambda>c. c \<noteq> 0) buf)"

definition to_int16 :: "int \<Rightarrow> int" where
  "to_int16 r = sint (word_of_int r :: 16 word)"

text \<open>The response, if any, that a valid message causes.\<close>

definition handle_message :: "aa_env \<Rightarrow> aap_message \<Rightarrow> aa_state \<Rightarrow> (fault + aap_message \<times> aa_state) option" where
  "handle_message env msg s =
    (let invalid = zero_message\<lparr>msg_type := AAP_MESSAGE_INVALID\<rparr> in
     if msg_type msg = AAP_MESSAGE_REGISTER then
       bindR (Some (deref (msg_eid msg))) (\<lambda>buf.
       bindR (Some (deregister_sink s)) (\<lambda>s1.
       bindR (Some (register_sink env (region_text buf) s1)) (\<lambda>(r, s2).
         Some (Inr (if r \<noteq> 0 then (invalid\<lparr>msg_type := AAP_MESSAGE_NACK\<rparr>, s2)
                    else (invalid\<lparr>msg_type := AAP_MESSAGE_ACK\<rparr>, s2\<lparr>aa_registered := Some (region_text buf)\<rparr>))))))
     else if msg_type msg = AAP_MESSAGE_SENDBUNDLE then
       (case aa_registered s of
          None \<Rightarrow> Some (Inr (invalid, s))
        | Some sink_id \<Rightarrow>
          bindR (Some (deref (msg_eid msg))) (\<lambda>buf.
          bindR (create_forward_bundle env sink_id (region_text buf) (msg_payload msg) (msg_payload_length msg) s) (\<lambda>(i, s1).
            Some (Inr (if i = BUNDLE_INVALID_ID then (invalid\<lparr>msg_type := AAP_MESSAGE_NACK\<rparr>, s1)
                       else (invalid\<lparr>msg_type := AAP_MESSAGE_SENDCONFIRM, msg_bundle_id := i\<rparr>, s1))))))
     else if msg_type msg = AAP_MESSAGE_CANCELBUNDLE then Some (Inr (invalid\<lparr>msg_type := AAP_MESSAGE_NACK\<rparr>, s))
     else if msg_type msg = AAP_MESSAGE_PING then Some (Inr (zero_message\<lparr>msg_type := AAP_MESSAGE_ACK\<rparr>, s))
     else Some (Inr (invalid, s)))"

definition process_aap_message :: "aa_env \<Rightarrow> aap_message \<Rightarrow> aa_state \<Rightarrow> (fault + int \<times> aa_state) option" where
  "process_aap_message env msg s = bindR (Some (aap_message_is_valid msg)) (\<lambda>valid.
     if \<not> valid then Some (Inr (-1, s))
     else bindR (handle_message env msg s) (\<lambda>(response, s1).
       if msg_type response \<noteq> AAP_MESSAGE_INVALID
       then bindR (Some (send_message response s1)) (\<lambda>(r, s2). Some (Inr (to_int16 r, s2)))
       else Some (Inr (-1, s1))))"

section \<open>The connection\<close>

definition APPLICATION_AGENT_RX_BUFFER_SIZE :: nat where "APPLICATION_AGENT_RX_BUFFER_SIZE = 512"

text \<open>
  The buffer is the list of its available bytes. \<open>incoming\<close> is what \<^verbatim>\<open>recv\<close> finds: \<^term>\<open>None\<close> an error, an empty list the end of the stream;
  it delivers at most as many bytes as the buffer has room for. The result is \<^term>\<open>None\<close> for -1.
\<close>

definition receive_from_socket ::
  "aa_env \<Rightarrow> u8 list option \<Rightarrow> u8 list \<Rightarrow> aap_parser \<Rightarrow> aa_state \<Rightarrow> (fault + u8 list option \<times> aap_parser \<times> aa_state) option" where
  "receive_from_socket env incoming rx_buffer parser s =
    (let data = (case incoming of None \<Rightarrow> [] | Some bs \<Rightarrow> take (APPLICATION_AGENT_RX_BUFFER_SIZE - length rx_buffer) bs) in
     if data = [] then Some (Inr (None, parser, s))
     else
       let avail = rx_buffer @ data in
       bindR (Some (parse_aap (aa_platform env) parser (aa_allocs s) avail 0)) (\<lambda>(parser1, as, bytes_parsed).
       if bytes_parsed > length avail then Some (Inl AssertFailed)
       else
         let s1 = s\<lparr>aa_allocs := as\<rparr> in
         bindR (if ap_status parser1 = PARSER_STATUS_GOOD then Some (Inr (parser1, s1))
                else if ap_status parser1 = PARSER_STATUS_DONE
                then (case aap_parser_extract_message parser1 of (msg, parser2) \<Rightarrow>
                  bindR (process_aap_message env msg s1) (\<lambda>(_, s2). Some (Inr (aap_parser_reset parser2, s2))))
                else Some (Inr (aap_parser_reset parser1, s1))) (\<lambda>(parser3, s3).
         Some (Inr (Some (drop bytes_parsed avail), parser3, s3)))))"

definition send_adu :: "bundle_adu \<Rightarrow> aa_state \<Rightarrow> fault + int \<times> aa_state" where
  "send_adu data s = bindE (deref (adu_source data)) (\<lambda>src.
     send_message (zero_message\<lparr>msg_type := AAP_MESSAGE_RECVBUNDLE, msg_eid := Some (string_bytes src @ [0]), msg_eid_length := length src,
       msg_payload := adu_payload data, msg_payload_length := unat (adu_length data)\<rparr>) s)"

text \<open>
  What \<^verbatim>\<open>poll\<close> reports: an interruption, another failure, or the events of the socket and of the pipe: an error on one of them, the answer
  of \<^verbatim>\<open>recv\<close> when the socket is readable, the answer of \<^verbatim>\<open>pipeq_read_all\<close> when the pipe is. Each report has its time.
\<close>

datatype aa_event = PollInterrupted | PollFailed | Polled bool "u8 list option option" "bundle_adu option option"

text \<open>The body of the loop; the result is \<^term>\<open>None\<close> when the loop is left.\<close>

definition comm_step :: "aa_env \<Rightarrow> aa_event \<Rightarrow> u8 list \<Rightarrow> aap_parser \<Rightarrow> aa_state \<Rightarrow> (fault + (u8 list \<times> aap_parser) option \<times> aa_state) option" where
  "comm_step env ev rx_buffer parser s = (case ev of
     PollInterrupted \<Rightarrow> Some (Inr (Some (rx_buffer, parser), s))
   | PollFailed \<Rightarrow> Some (Inr (None, s))
   | Polled err sock pipe \<Rightarrow>
     if err then Some (Inr (None, s))
     else bindR (case sock of
         None \<Rightarrow> Some (Inr (Some rx_buffer, parser, s))
       | Some incoming \<Rightarrow> receive_from_socket env incoming rx_buffer parser s) (\<lambda>(bo, parser1, s1).
       case bo of None \<Rightarrow> Some (Inr (None, s1))
       | Some rx \<Rightarrow> (case pipe of
           None \<Rightarrow> Some (Inr (Some (rx, parser1), s1))
         | Some None \<Rightarrow> Some (Inr (None, s1))
         | Some (Some data) \<Rightarrow> bindR (Some (send_adu data s1)) (\<lambda>(r, s2).
             Some (Inr (if r < 0 then None else Some (rx, parser1), s2))))))"

text \<open>The loop over the reports of \<^verbatim>\<open>poll\<close>; the flag tells whether it has been left.\<close>

fun comm_loop :: "aa_env \<Rightarrow> (u64 \<times> aa_event) list \<Rightarrow> u8 list \<Rightarrow> aap_parser \<Rightarrow> aa_state \<Rightarrow> (fault + bool \<times> aa_state) option" where
  "comm_loop env [] rx_buffer parser s = Some (Inr (False, s))"
| "comm_loop env ((now, ev) # evs) rx_buffer parser s =
     bindR (comm_step env ev rx_buffer parser (s\<lparr>aa_now := now\<rparr>)) (\<lambda>(r, s1).
       case r of None \<Rightarrow> Some (Inr (True, s1)) | Some (rx, parser1) \<Rightarrow> comm_loop env evs rx parser1 s1)"

text \<open>The task: \<open>pipe\<close> tells whether the pipe could be created, \<open>junk\<close> is the parser's memory. At the end of the events it still waits.\<close>

definition application_agent_comm_task :: "aa_env \<Rightarrow> bool \<Rightarrow> aap_parser \<Rightarrow> (u64 \<times> aa_event) list \<Rightarrow> aa_state \<Rightarrow> (fault + bool \<times> aa_state) option" where
  "application_agent_comm_task env pipe junk evs s0 =
    (let s = s0\<lparr>aa_registered := None\<rparr>;
         finish = (\<lambda>s. bindR (Some (deregister_sink s)) (\<lambda>s1. Some (Inr (True, s1))))
     in if \<not> pipe then finish s
        else bindR (Some (send_message (zero_message\<lparr>msg_type := AAP_MESSAGE_WELCOME, msg_eid := Some (string_bytes (aa_local_eid env) @ [0]),
               msg_eid_length := length (aa_local_eid env)\<rparr>) s)) (\<lambda>(r, s1).
          if r \<noteq> 0 then finish s1
          else bindR (comm_loop env evs [] (aap_parser_init junk) s1) (\<lambda>(left, s2).
            if left then finish s2 else Some (Inr (False, s2)))))"

end
