(* ===== verification/Application_Agent_Inv.thy ===== *)
theory Application_Agent_Inv
  imports Application_Agent
begin

unbundle bit_operations_syntax

text \<open>
  What the application agent guarantees: bundles handed in by an application are stored, announced and confirmed; a connection is safe
  on any input and its buffer never fills up; the split of the stream into deliveries does not matter; registration agrees with the
  registry of the bundle processor. The socket is one more byte sink in the sense of the locale \<open>byte_sink\<close>.
\<close>

section \<open>Sending, proved\<close>

lemma tcp_send_all_free: "tcp_send_all buffer 0 [] out = (int (length buffer), 0, out @ buffer, [])"
  by (cases buffer) (simp_all add: tcp_send_all.simps)

text \<open>A socket that takes everything at once is a reliable stream.\<close>

definition socket_append :: "write_socket_param \<Rightarrow> u8 list \<Rightarrow> write_socket_param" where
  "socket_append wsp d = wsp\<lparr>wsp_out := wsp_out wsp @ d\<rparr>"

interpretation socket_sink: byte_sink write_to_socket socket_append "\<lambda>wsp n. wsp_errno wsp = 0 \<and> wsp_answers wsp = []"
  by unfold_locales (simp_all add: write_to_socket_def socket_append_def tcp_send_all_free)

lemma send_message_ok:
  assumes "regions_ok m" "aa_answers s = []"
  shows "send_message m s = Inr (0, s\<lparr>aa_out := aa_out s @ aap_bytes m\<rparr>)"
  using socket_sink.serialize_appends[OF assms(1), of "\<lparr>wsp_out = aa_out s, wsp_answers = aa_answers s, wsp_errno = 0\<rparr>"] assms(2)
  by (simp add: send_message_def socket_append_def)

text \<open>On any socket a message without identifier and payload is sent without fault.\<close>

lemma write_to_socket_total: "\<exists>wsp'. write_to_socket wsp d = Inr wsp'"
  by (auto simp: write_to_socket_def split: prod.splits)

lemma send_simple:
  assumes "\<not> has_eid (msg_type m)"
  shows "\<exists>r out ans. send_message m s = Inr (r, s\<lparr>aa_out := out, aa_answers := ans\<rparr>)"
proof -
  let ?w = "\<lparr>wsp_out = aa_out s, wsp_answers = aa_answers s, wsp_errno = 0\<rparr>"
  have np: "\<not> has_payload (msg_type m)" using assms has_payload_eid by blast
  obtain w1 where "write_to_socket ?w [push_bit 4 0x1 OR (msg_type m AND 0xF)] = Inr w1" using write_to_socket_total by blast
  moreover obtain w2 where "write_to_socket w1 (put_uint64 (ucast (msg_bundle_id m))) = Inr w2" using write_to_socket_total by blast
  ultimately have "aap_serialize write_to_socket ?w m = Inr (if has_bundle_id (msg_type m) then w2 else w1)"
    using assms np by (simp add: aap_serialize_def)
  then obtain w where "aap_serialize write_to_socket ?w m = Inr w" by blast
  then have "send_message m s = Inr (- wsp_errno w, s\<lparr>aa_out := wsp_out w, aa_answers := wsp_answers w\<rparr>)" by (simp add: send_message_def)
  then show ?thesis by blast
qed

text \<open>
  C38. \<^verbatim>\<open>tcp_send_all\<close> after a partial write: it reports the full length as sent, but the socket received the start of the buffer twice, because
  the pointer does not advance. The peer gets the intended bytes only if the buffer repeats itself accordingly.
\<close>

theorem tcp_send_all_partial:
  assumes "0 < k" "k < length buffer"
  shows "tcp_send_all buffer 0 [Sent k] out = (int (length buffer), 0, out @ take k buffer @ take (length buffer - k) buffer, [])
    \<and> (out @ take k buffer @ take (length buffer - k) buffer = out @ buffer \<longleftrightarrow> take (length buffer - k) buffer = drop k buffer)"
proof
  show "tcp_send_all buffer 0 [Sent k] out = (int (length buffer), 0, out @ take k buffer @ take (length buffer - k) buffer, [])"
    using assms by (cases buffer) (simp_all add: tcp_send_all.simps min_def)
  have "take k buffer @ take (length buffer - k) buffer = take k buffer @ drop k buffer \<longleftrightarrow> take (length buffer - k) buffer = drop k buffer"
    by (rule same_append_eq)
  then show "out @ take k buffer @ take (length buffer - k) buffer = out @ buffer \<longleftrightarrow> take (length buffer - k) buffer = drop k buffer"
    unfolding append_take_drop_id same_append_eq .
qed

theorem tcp_send_all_partial_witness:
  "tcp_send_all [1, 2, 3] 0 [Sent 2] [] = (3, 0, [1, 2, 1], [])"
  using tcp_send_all_partial[of 2 "[1, 2, 3]" "[]"] by simp

section \<open>Creating and storing\<close>

lemma create7_ok:
  "bundle7_create_local junk bjunk payload n src dst now life flags [] = (Some (bundle7_recalculate_primary_block_length
     ((bundle_reset_internal junk)\<lparr>protocol_version := 7, proc_flags := flags, creation_timestamp_ms := now * 1000, sequence_number := 1,
        lifetime_ms := life * 1000, crc_type := DEFAULT_CRC_TYPE,
        blocks := [bjunk\<lparr>blk_type := BUNDLE_BLOCK_TYPE_PAYLOAD, blk_number := 1, blk_flags := BUNDLE_BLOCK_FLAG_NONE, blk_eid_refs := [],
          blk_crc_type := BUNDLE_CRC_TYPE_NONE, blk_data := payload, blk_length := of_nat n\<rparr>],
        payload_block := Some 0, source := Some src, destination := Some dst, report_to := Some ''dtn:none''\<rparr>)), [])"
  by (simp add: bundle7_create_local_def bundle_init_def bundle_block_create_def bundle_block_entry_create_def Let_def)

text \<open>What is asked of a created bundle, whatever the version.\<close>

definition app_bundle :: "aa_env \<Rightarrow> string \<Rightarrow> string \<Rightarrow> u64 \<Rightarrow> u8 list option \<Rightarrow> nat \<Rightarrow> bundle_t \<Rightarrow> bool" where
  "app_bundle env sink_id dst now payload n b \<longleftrightarrow> bundle_id b = BUNDLE_INVALID_ID
     \<and> protocol_version b = (if aa_bp_version env = 6 then 6 else 7)
     \<and> source b = Some (aa_local_eid env @ ''/'' @ sink_id) \<and> destination b = Some dst \<and> report_to b = Some ''dtn:none''
     \<and> creation_timestamp_ms b = now * 1000 \<and> lifetime_ms b = aa_lifetime env * 1000 \<and> sequence_number b = 1
     \<and> payload_block b = Some 0 \<and> map (\<lambda>k. (blk_type k, blk_length k, blk_data k)) (blocks b) = [(BUNDLE_BLOCK_TYPE_PAYLOAD, of_nat n, payload)]
     \<and> ret_constraints b = BUNDLE_RET_CONSTRAINT_NONE"

lemma create_bundle_ok:
  assumes "aa_bp_version env = 6 \<longrightarrow> strstr (aa_local_eid env @ ''/'' @ sink_id) '':'' \<noteq> None \<and> strstr dst '':'' \<noteq> None"
  shows "\<exists>b. create_bundle env sink_id dst now payload n [] = Inr (Some b, []) \<and> app_bundle env sink_id dst now payload n b"
proof (cases "aa_bp_version env = 6")
  case False
  then show ?thesis
    by (simp add: create_bundle_def Let_def create7_ok app_bundle_def bundle7_recalculate_primary_block_length_def bundle_reset_internal_def)
next
  case True
  then show ?thesis using assms
    by (auto simp: create_bundle_def bundle6_create_local_def bundle_init_def bundle_block_create_def bundle_block_entry_create_def Let_def
        bundle6_recalculate_header_length_def bundle6_recalculate_header_length_internal_def bundle6_calculate_dict_def counted_references_def
        app_bundle_def bundle_reset_internal_def BUNDLE_V6_BLOCK_FLAG_LAST_BLOCK_def split: prod.split)
qed

lemma create_bundle_total: "\<exists>bo. create_bundle env sink_id dst now payload n [] = Inr (bo, []) \<and> (\<forall>b. bo = Some b \<longrightarrow> bundle_id b = BUNDLE_INVALID_ID)"
proof (cases "aa_bp_version env = 6 \<longrightarrow> strstr (aa_local_eid env @ ''/'' @ sink_id) '':'' \<noteq> None \<and> strstr dst '':'' \<noteq> None")
  case True
  then show ?thesis using create_bundle_ok[OF True, of now payload n] by (auto simp: app_bundle_def)
next
  case False
  then show ?thesis
    by (auto simp: create_bundle_def bundle6_create_local_def bundle_init_def bundle_block_create_def bundle_block_entry_create_def Let_def)
qed

section \<open>A bundle from an application\<close>

lemma payload_bytes_app: "app_bundle env sink_id dst now payload n b \<Longrightarrow> payload_bytes b = of_nat n"
  by (cases "blocks b") (auto simp: app_bundle_def payload_bytes_def payload_of_def)

lemma store_inv_fresh:
  assumes "store_inv hp st" "hp p = None"
  shows "store_inv (hp(p \<mapsto> b)) st"
proof -
  have sep: "q \<noteq> p" if "(k, q) \<in> set (entries (storage_tree st))" for k q using store_invD(4)[OF assms(1) that] assms(2) by auto
  have "total_bytes (hp(p \<mapsto> b)) (entries (storage_tree st)) = total_bytes hp (entries (storage_tree st))"
    by (rule total_bytes_cong) (use sep in auto)
  then show ?thesis using store_invD[OF assms(1)] sep by (intro store_invI) auto
qed

lemma create_forward_ok:
  assumes "aa_bp_version env = 6 \<longrightarrow> strstr (aa_local_eid env @ ''/'' @ sink_id) '':'' \<noteq> None \<and> strstr dst '':'' \<noteq> None"
    and "aa_allocs s = []" "store_inv (aa_heap s) (aa_store s)" "aa_heap s (aa_fresh env (aa_heap s)) = None"
    and "length (entries (storage_tree (aa_store s))) < 65535" "unat (bundle_bytes (aa_store s)) + unat (of_nat n :: u32) < 2 ^ 32"
  shows "\<exists>i b st'. create_forward_bundle env sink_id dst payload n s = Some (Inr (i, s\<lparr>aa_heap := (aa_heap s)(aa_fresh env (aa_heap s) \<mapsto> b\<lparr>bundle_id := i\<rparr>),
        aa_store := st', aa_allocs := [], aa_signals := aa_signals s @ [\<lparr>sig_type = BP_SIGNAL_BUNDLE_LOCAL_DISPATCH, sig_reason = BUNDLE_SR_REASON_NO_INFO,
        sig_bundle = i, sig_extra = None\<rparr>]\<rparr>))
    \<and> app_bundle env sink_id dst (aa_now s) payload n b \<and> i \<noteq> BUNDLE_INVALID_ID \<and> stored (aa_store s) i = None
    \<and> stored st' = (stored (aa_store s))(i \<mapsto> aa_fresh env (aa_heap s))
    \<and> store_inv ((aa_heap s)(aa_fresh env (aa_heap s) \<mapsto> b\<lparr>bundle_id := i\<rparr>)) st'"
proof -
  let ?p = "aa_fresh env (aa_heap s)"
  obtain b where b: "create_bundle env sink_id dst (aa_now s) payload n [] = Inr (Some b, [])" "app_bundle env sink_id dst (aa_now s) payload n b"
    using create_bundle_ok[OF assms(1)] by blast
  let ?hp = "(aa_heap s)(?p \<mapsto> b)"
  have "store_inv ?hp (aa_store s)" using store_inv_fresh[OF assms(3,4)] by simp
  moreover have "bundle_id b = BUNDLE_INVALID_ID" "payload_bytes b = of_nat n" using b(2) payload_bytes_app by (simp_all add: app_bundle_def)
  ultimately obtain i st' where i: "bundle_storage_add ?p ?hp (aa_store s) [] = Some (Inr (i, ?hp(?p \<mapsto> b\<lparr>bundle_id := i\<rparr>), st', malloc_rest []))"
      "i \<noteq> BUNDLE_INVALID_ID" "stored (aa_store s) i = None" "stored st' = (stored (aa_store s))(i \<mapsto> ?p)" "store_inv (?hp(?p \<mapsto> b\<lparr>bundle_id := i\<rparr>)) st'"
    using storage_add_ok[of ?hp "aa_store s" ?p b "[]"] assms(5,6) by auto
  have "create_forward_bundle env sink_id dst payload n s = Some (Inr (i, s\<lparr>aa_heap := (aa_heap s)(?p \<mapsto> b\<lparr>bundle_id := i\<rparr>),
        aa_store := st', aa_allocs := [], aa_signals := aa_signals s @ [\<lparr>sig_type = BP_SIGNAL_BUNDLE_LOCAL_DISPATCH, sig_reason = BUNDLE_SR_REASON_NO_INFO,
        sig_bundle = i, sig_extra = None\<rparr>]\<rparr>))"
    using i(1,2) b(1) assms(2) by (simp add: create_forward_bundle_def Let_def bundle_processor_inform_def)
  then show ?thesis using i b(2) by auto
qed

lemma valid_text:
  assumes "aap_message_is_valid m = Inr True" "has_eid (msg_type m)"
  shows "\<exists>buf. msg_eid m = Some buf \<and> region_text buf = bytes_string (take (msg_eid_length m) buf)"
proof -
  obtain cs rest where "msg_eid m = Some (cs @ 0 # rest)" "0 \<notin> set cs" "length cs = msg_eid_length m" using valid_message(2)[OF assms] by blast
  moreover from this have "takeWhile (\<lambda>c. c \<noteq> 0) (cs @ 0 # rest) = cs" by (auto simp: takeWhile_append)
  ultimately show ?thesis by (auto simp: region_text_def)
qed

definition message_text :: "aap_message \<Rightarrow> string" where
  "message_text m = (case msg_eid m of None \<Rightarrow> '''' | Some buf \<Rightarrow> bytes_string (take (msg_eid_length m) buf))"

text \<open>
  C5. A bundle sent by a registered application: with memory and room in the storage it is created with the application's endpoint as source
  and the payload of the message, stored under a new identifier, announced to the bundle processor for local dispatch, and confirmed to the
  application with that identifier. The storage keeps its invariant and all its other bundles.
\<close>

theorem aap_send_bundle_stored:
  assumes "aap_message_is_valid msg = Inr True" "msg_type msg = AAP_MESSAGE_SENDBUNDLE" "aa_registered s = Some sink_id"
    and "aa_bp_version env = 6 \<longrightarrow> strstr (aa_local_eid env @ ''/'' @ sink_id) '':'' \<noteq> None \<and> strstr (message_text msg) '':'' \<noteq> None"
    and "aa_allocs s = []" "aa_answers s = []" "store_inv (aa_heap s) (aa_store s)" "aa_heap s (aa_fresh env (aa_heap s)) = None"
    and "length (entries (storage_tree (aa_store s))) < 65535"
    and "unat (bundle_bytes (aa_store s)) + unat (of_nat (msg_payload_length msg) :: u32) < 2 ^ 32"
  shows "\<exists>i b s'. process_aap_message env msg s = Some (Inr (0, s'))
    \<and> app_bundle env sink_id (message_text msg) (aa_now s) (msg_payload msg) (msg_payload_length msg) b
    \<and> i \<noteq> BUNDLE_INVALID_ID \<and> stored (aa_store s) i = None
    \<and> aa_heap s' = (aa_heap s)(aa_fresh env (aa_heap s) \<mapsto> b\<lparr>bundle_id := i\<rparr>)
    \<and> stored (aa_store s') = (stored (aa_store s))(i \<mapsto> aa_fresh env (aa_heap s)) \<and> store_inv (aa_heap s') (aa_store s')
    \<and> aa_signals s' = aa_signals s @ [\<lparr>sig_type = BP_SIGNAL_BUNDLE_LOCAL_DISPATCH, sig_reason = BUNDLE_SR_REASON_NO_INFO, sig_bundle = i, sig_extra = None\<rparr>]
    \<and> aa_out s' = aa_out s @ aap_bytes (zero_message\<lparr>msg_type := AAP_MESSAGE_SENDCONFIRM, msg_bundle_id := i\<rparr>)"
proof -
  have e: "has_eid (msg_type msg)" using assms(2) by (simp add: has_eid_def)
  obtain buf where buf: "msg_eid msg = Some buf" "region_text buf = message_text msg" using valid_text[OF assms(1) e] by (auto simp: message_text_def)
  obtain i b st' where c: "create_forward_bundle env sink_id (message_text msg) (msg_payload msg) (msg_payload_length msg) s
      = Some (Inr (i, s\<lparr>aa_heap := (aa_heap s)(aa_fresh env (aa_heap s) \<mapsto> b\<lparr>bundle_id := i\<rparr>), aa_store := st', aa_allocs := [],
          aa_signals := aa_signals s @ [\<lparr>sig_type = BP_SIGNAL_BUNDLE_LOCAL_DISPATCH, sig_reason = BUNDLE_SR_REASON_NO_INFO, sig_bundle = i, sig_extra = None\<rparr>]\<rparr>))"
      "app_bundle env sink_id (message_text msg) (aa_now s) (msg_payload msg) (msg_payload_length msg) b" "i \<noteq> BUNDLE_INVALID_ID" "stored (aa_store s) i = None"
      "stored st' = (stored (aa_store s))(i \<mapsto> aa_fresh env (aa_heap s))" "store_inv ((aa_heap s)(aa_fresh env (aa_heap s) \<mapsto> b\<lparr>bundle_id := i\<rparr>)) st'"
    using create_forward_ok[OF assms(4,5,7,8,9,10), of "msg_payload msg"] by blast
  let ?s1 = "s\<lparr>aa_heap := (aa_heap s)(aa_fresh env (aa_heap s) \<mapsto> b\<lparr>bundle_id := i\<rparr>), aa_store := st', aa_allocs := [],
          aa_signals := aa_signals s @ [\<lparr>sig_type = BP_SIGNAL_BUNDLE_LOCAL_DISPATCH, sig_reason = BUNDLE_SR_REASON_NO_INFO, sig_bundle = i, sig_extra = None\<rparr>]\<rparr>"
  let ?m = "zero_message\<lparr>msg_type := AAP_MESSAGE_SENDCONFIRM, msg_bundle_id := i\<rparr>"
  have h: "handle_message env msg s = Some (Inr (?m, ?s1))"
    using assms(2,3) buf c(1,3) by (simp add: handle_message_def aap_type_defs)
  have "send_message ?m ?s1 = Inr (0, ?s1\<lparr>aa_out := aa_out ?s1 @ aap_bytes ?m\<rparr>)"
    using assms(6) by (intro send_message_ok) (simp_all add: regions_ok_def aap_kind_defs)
  then have "process_aap_message env msg s = Some (Inr (0, ?s1\<lparr>aa_out := aa_out ?s1 @ aap_bytes ?m\<rparr>))"
    using assms(1) h by (simp add: process_aap_message_def aap_type_defs to_int16_def)
  then show ?thesis using c by (intro exI[of _ i] exI[of _ b] exI) auto
qed

section \<open>Safety of a connection\<close>

text \<open>The part of the storage invariant that its operations need to return.\<close>

definition store_usable :: "storage \<Rightarrow> bool" where
  "store_usable st \<longleftrightarrow> avl (storage_tree st) \<and> bst (storage_tree st)"

lemma storage_add_returns:
  assumes "store_usable st" "length (entries (storage_tree st)) < 65535" "hp p = Some b" "bundle_id b = BUNDLE_INVALID_ID"
  shows "\<exists>i hp' st'. bundle_storage_add p hp st [] = Some (Inr (i, hp', st', [])) \<and> store_usable st'"
proof -
  let ?t = "storage_tree st"
  have t: "avl ?t" "bst ?t" using assms(1) by (simp_all add: store_usable_def)
  obtain i where i: "find_free_id ?t (next_id st) (next_id st + 1) = Some (i, i + 1)" "i \<notin> set (keys ?t)"
    using find_free_id_returns[OF t(2) assms(2)] by blast
  have "ht ?t \<le> 100" using avl_height_bound[OF t] by simp
  from add_node_correct[OF t this i(2), of p "[]"] obtain t' where "add_node i p ?t [] = Inr (True, t', [])" "avl t'" "bst t'" by auto
  then show ?thesis using i(1) assms(3,4) by (simp add: bundle_storage_add_def heap_read_def store_usable_def)
qed

lemma create_forward_returns:
  assumes "aa_allocs s = []" "store_usable (aa_store s)" "length (entries (storage_tree (aa_store s))) < 65535"
  shows "\<exists>i s'. create_forward_bundle env sink_id dst payload n s = Some (Inr (i, s')) \<and> aa_allocs s' = [] \<and> store_usable (aa_store s')"
proof -
  obtain bo where bo: "create_bundle env sink_id dst (aa_now s) payload n [] = Inr (bo, [])" "\<forall>b. bo = Some b \<longrightarrow> bundle_id b = BUNDLE_INVALID_ID"
    using create_bundle_total by blast
  show ?thesis
  proof (cases bo)
    case None
    then show ?thesis using bo(1) assms by (simp add: create_forward_bundle_def)
  next
    case (Some b)
    let ?p = "aa_fresh env (aa_heap s)"
    obtain i hp' st' where "bundle_storage_add ?p ((aa_heap s)(?p \<mapsto> b)) (aa_store s) [] = Some (Inr (i, hp', st', []))" "store_usable st'"
      using storage_add_returns[OF assms(2,3), of "(aa_heap s)(?p \<mapsto> b)" ?p b] bo(2) Some by auto
    then show ?thesis using bo(1) Some assms(1) by (simp add: create_forward_bundle_def Let_def bundle_processor_inform_def)
  qed
qed

lemma agent_action_returns:
  assumes "type = BP_SIGNAL_AGENT_REGISTER \<and> cb \<noteq> None \<or> type = BP_SIGNAL_AGENT_DEREGISTER" "aa_allocs s = []"
  shows "\<exists>r s'. agent_action type sink_id cb param s = Inr (r, s') \<and> aa_allocs s' = [] \<and> aa_store s' = aa_store s"
proof -
  obtain q f where f: "(case aa_feedback s of [] \<Rightarrow> (None, None) | x # _ \<Rightarrow> x) = (q, f)" by (cases "case aa_feedback s of [] \<Rightarrow> (None, None) | x # _ \<Rightarrow> x")
  have "\<exists>r sig. bundle_processor_perform_agent_action type (Some sink_id) cb param True True q f = Inr (r, sig)"
    using assms(1) by (cases q) (auto simp: bundle_processor_perform_agent_action_def Let_def)
  then obtain r sig where "bundle_processor_perform_agent_action type (Some sink_id) cb param True True q f = Inr (r, sig)" by blast
  then show ?thesis using assms(2) f by (simp add: agent_action_def)
qed

lemma deregister_returns:
  assumes "aa_allocs s = []"
  shows "\<exists>s'. deregister_sink s = Inr s' \<and> aa_allocs s' = [] \<and> aa_store s' = aa_store s \<and> aa_registered s' = None"
proof (cases "aa_registered s")
  case (Some sink_id)
  then show ?thesis using agent_action_returns[of BP_SIGNAL_AGENT_DEREGISTER None s sink_id 0] assms by (auto simp: deregister_sink_def)
qed (use assms in \<open>simp add: deregister_sink_def\<close>)

lemma handle_message_returns:
  assumes "aap_message_is_valid msg = Inr True" "aa_allocs s = []" "store_usable (aa_store s)" "length (entries (storage_tree (aa_store s))) < 65535"
  shows "\<exists>m s'. handle_message env msg s = Some (Inr (m, s')) \<and> \<not> has_eid (msg_type m) \<and> aa_allocs s' = [] \<and> store_usable (aa_store s')"
proof -
  have ne: "\<not> has_eid AAP_MESSAGE_ACK" "\<not> has_eid AAP_MESSAGE_NACK" "\<not> has_eid AAP_MESSAGE_SENDCONFIRM" "\<not> has_eid AAP_MESSAGE_INVALID"
    by (simp_all add: aap_kind_defs)
  consider (reg) "msg_type msg = AAP_MESSAGE_REGISTER" | (send) "msg_type msg = AAP_MESSAGE_SENDBUNDLE"
    | (other) "msg_type msg \<noteq> AAP_MESSAGE_REGISTER" "msg_type msg \<noteq> AAP_MESSAGE_SENDBUNDLE" by blast
  then show ?thesis
  proof cases
    case reg
    then obtain buf where buf: "msg_eid msg = Some buf" using valid_message(2)[OF assms(1)] by (auto simp: has_eid_def)
    obtain s1 where s1: "deregister_sink s = Inr s1" "aa_allocs s1 = []" "aa_store s1 = aa_store s" using deregister_returns[OF assms(2)] by blast
    obtain r s2 where "register_sink env (region_text buf) s1 = Inr (r, s2)" "aa_allocs s2 = []" "aa_store s2 = aa_store s1"
      using agent_action_returns[of BP_SIGNAL_AGENT_REGISTER "Some (aa_callback env)" s1] s1(2) unfolding register_sink_def by blast
    then show ?thesis using reg buf s1 assms(3) ne by (simp add: handle_message_def Let_def)
  next
    case send
    then obtain buf where buf: "msg_eid msg = Some buf" using valid_message(2)[OF assms(1)] by (auto simp: has_eid_def)
    show ?thesis
    proof (cases "aa_registered s")
      case None
      then show ?thesis using send assms ne by (simp add: handle_message_def aap_type_defs)
    next
      case (Some sink_id)
      obtain i s1 where "create_forward_bundle env sink_id (region_text buf) (msg_payload msg) (msg_payload_length msg) s = Some (Inr (i, s1))"
          "aa_allocs s1 = []" "store_usable (aa_store s1)"
        using create_forward_returns[OF assms(2,3,4)] by blast
      moreover have "AAP_MESSAGE_SENDBUNDLE \<noteq> AAP_MESSAGE_REGISTER" by (simp add: aap_type_defs)
      ultimately show ?thesis using send Some buf ne by (simp add: handle_message_def Let_def)
    qed
  next
    case other
    then show ?thesis using assms ne by (auto simp: handle_message_def Let_def)
  qed
qed

lemma is_valid_returns: "message_shape m \<Longrightarrow> \<exists>v. aap_message_is_valid m = Inr v"
proof -
  assume sh: "message_shape m"
  have "\<exists>v. (if has_eid (msg_type m) then (case msg_eid m of None \<Rightarrow> Inr False | Some buf \<Rightarrow> if msg_eid_length m > 65535 then Inr False
      else bindE (c_strlen buf) (\<lambda>n. Inr (n = msg_eid_length m))) else Inr (msg_eid m = None)) = (Inr v :: fault + bool)"
  proof (cases "has_eid (msg_type m)")
    case True
    then obtain buf where b: "msg_eid m = Some buf" "length buf = msg_eid_length m + 1" "buf ! msg_eid_length m = 0"
      using sh by (auto simp: message_shape_def eid_region_ok_def split: option.splits)
    have "0 \<in> set buf" using b(2,3) nth_mem[of "msg_eid_length m" buf] by simp
    then show ?thesis using True b(1) by (cases "msg_eid_length m > 65535") (auto simp: c_strlen_def)
  qed simp
  then show ?thesis by (auto simp: aap_message_is_valid_def)
qed

lemma process_returns:
  assumes "message_shape msg" "aa_allocs s = []" "store_usable (aa_store s)" "length (entries (storage_tree (aa_store s))) < 65535"
  shows "\<exists>r s'. process_aap_message env msg s = Some (Inr (r, s')) \<and> aa_allocs s' = [] \<and> store_usable (aa_store s')"
proof -
  obtain v where v: "aap_message_is_valid msg = Inr v" using is_valid_returns[OF assms(1)] by blast
  show ?thesis
  proof (cases v)
    case False
    then show ?thesis using v assms by (simp add: process_aap_message_def)
  next
    case True
    obtain m s1 where m: "handle_message env msg s = Some (Inr (m, s1))" "\<not> has_eid (msg_type m)" "aa_allocs s1 = []" "store_usable (aa_store s1)"
      using handle_message_returns[OF _ assms(2-4), of msg env] v True by auto
    obtain r out ans where "send_message m s1 = Inr (r, s1\<lparr>aa_out := out, aa_answers := ans\<rparr>)" using send_simple[OF m(2)] by blast
    then show ?thesis using v True m by (simp add: process_aap_message_def)
  qed
qed

text \<open>At the end of a run that is not waiting for input at least one byte has been used.\<close>

lemma parse_aap_progress:
  assumes "aap_parser_inv p" "ap_status p = PARSER_STATUS_GOOD" "b \<noteq> []" "parse_aap pl p as b 0 = Inr (p', as', n)"
  shows "length b - n < 8 \<or> 0 < n"
proof (cases "ap_status p' = PARSER_STATUS_GOOD")
  case True
  then show ?thesis using parse_aap_inv[OF assms(1), of as b pl] assms(4) by simp
next
  case False
  have s: "step_ok p as b (aap_parse pl p as b)" using aap_parse_step_ok assms(1-3) by blast
  obtain q as1 d where q: "aap_parse pl p as b = Inr (q, as1, d)"
    using assms(4) assms(2,3) by (cases "aap_parse pl p as b") (auto simp: parse_aap_run)
  show ?thesis
  proof (cases "d = 0")
    case True
    then have "q = p" using s q by (simp add: step_ok_def)
    then show ?thesis using True q assms False by (simp add: parse_aap_run[of pl p as b])
  next
    case d: False
    then have "parse_aap pl p as b 0 = count_from d (parse_aap pl q as1 (drop d b) 0)" using parse_aap_step q assms(2,3) by blast
    then show ?thesis using assms(4) d by (cases "parse_aap pl q as1 (drop d b) 0") auto
  qed
qed

text \<open>The state of a connection between two events.\<close>

definition conn_inv :: "u8 list \<Rightarrow> aap_parser \<Rightarrow> bool" where
  "conn_inv rx p \<longleftrightarrow> length rx < APPLICATION_AGENT_RX_BUFFER_SIZE \<and> aap_parser_inv p \<and> ap_status p = PARSER_STATUS_GOOD"

lemma parse_aap_allocs:
  "aap_parser_inv p \<Longrightarrow> parse_aap pl p [] b 0 = Inr (q, as', n) \<Longrightarrow> as' = []"
proof (induction b arbitrary: p n rule: length_induct)
  case (1 b)
  show ?case
  proof (cases "ap_status p = PARSER_STATUS_GOOD \<and> b \<noteq> []")
    case True
    have s: "step_ok p [] b (aap_parse pl p [] b)" using aap_parse_step_ok 1(2) True by blast
    obtain r as1 d where r: "aap_parse pl p [] b = Inr (r, as1, d)" using 1(3) True by (cases "aap_parse pl p [] b") (auto simp: parse_aap_run)
    then have a: "as1 = []" "aap_parser_inv r" using s by (auto simp: step_ok_def)
    show ?thesis
    proof (cases "d = 0")
      case True2: True
      then show ?thesis using True r a 1(3) by (simp add: parse_aap_run[of pl p "[]" b])
    next
      case False
      then have e: "parse_aap pl p [] b 0 = count_from d (parse_aap pl r [] (drop d b) 0)" using parse_aap_step True r a(1) by blast
      have "length (drop d b) < length b" using False True by simp
      then show ?thesis using 1(1) a(2) e 1(3) by (cases "parse_aap pl r [] (drop d b) 0") fastforce+
    qed
  next
    case False
    then show ?thesis using 1(3) by (auto simp: parse_aap.simps)
  qed
qed

lemma parse_aap_granted:
  assumes "aap_parser_inv p"
  shows "\<exists>q n. parse_aap pl p [] b 0 = Inr (q, [], n) \<and> aap_parser_inv q \<and> n \<le> length b \<and> (ap_status q = PARSER_STATUS_GOOD \<longrightarrow> length b - n < 8)"
proof -
  obtain r where r: "parse_aap pl p [] b 0 = Inr r" using parse_aap_inv[OF assms, of "[]" b pl] by (cases "parse_aap pl p [] b 0") auto
  obtain q as n where "r = (q, as, n)" by (cases r)
  then show ?thesis using r parse_aap_inv[OF assms, of "[]" b pl] parse_aap_allocs[OF assms, of pl b q as n] by auto
qed

text \<open>
  C9. A connection is safe and never stuck: with memory and a free identifier in the storage, whatever bytes arrive and however the socket
  answers, the agent handles them without fault. Unless the connection ends, the buffer has room for at least one more byte afterwards, so
  that the next \<^verbatim>\<open>recv\<close> cannot be asked for zero bytes, which would look like the end of the stream.
\<close>

theorem receive_from_socket_safe:
  assumes "conn_inv rx p" "aa_allocs s = []" "store_usable (aa_store s)" "length (entries (storage_tree (aa_store s))) < 65535"
  shows "\<exists>bo p' s'. receive_from_socket env incoming rx p s = Some (Inr (bo, p', s')) \<and> aa_allocs s' = [] \<and> store_usable (aa_store s')
    \<and> (bo = None \<longleftrightarrow> incoming = None \<or> incoming = Some []) \<and> (\<forall>rx'. bo = Some rx' \<longrightarrow> conn_inv rx' p')"
proof -
  let ?data = "case incoming of None \<Rightarrow> [] | Some bs \<Rightarrow> take (APPLICATION_AGENT_RX_BUFFER_SIZE - length rx) bs"
  have c: "length rx < APPLICATION_AGENT_RX_BUFFER_SIZE" "aap_parser_inv p" "ap_status p = PARSER_STATUS_GOOD" using assms(1) by (simp_all add: conn_inv_def)
  have d: "?data = [] \<longleftrightarrow> incoming = None \<or> incoming = Some []" using c(1) by (cases incoming) auto
  show ?thesis
  proof (cases "?data = []")
    case True
    then show ?thesis using assms d by (simp add: receive_from_socket_def Let_def)
  next
    case False
    let ?avail = "rx @ ?data"
    have len: "length ?avail \<le> APPLICATION_AGENT_RX_BUFFER_SIZE" using c(1) by (cases incoming) auto
    obtain q n where q: "parse_aap (aa_platform env) p [] ?avail 0 = Inr (q, [], n)" "aap_parser_inv q" "n \<le> length ?avail"
        "ap_status q = PARSER_STATUS_GOOD \<longrightarrow> length ?avail - n < 8"
      using parse_aap_granted[OF c(2)] by blast
    have "length ?avail - n < 8 \<or> 0 < n" using parse_aap_progress[OF c(2,3) _ q(1)] False by simp
    then have rest: "length (drop n ?avail) < APPLICATION_AGENT_RX_BUFFER_SIZE"
      using len False by (auto simp: APPLICATION_AGENT_RX_BUFFER_SIZE_def)
    have s: "s\<lparr>aa_allocs := []\<rparr> = s" using assms(2) by simp
    show ?thesis
    proof (cases "ap_status q")
      case PARSER_STATUS_GOOD
      then show ?thesis using False d q rest assms unfolding receive_from_socket_def Let_def
        by (simp add: conn_inv_def s)
    next
      case PARSER_STATUS_ERROR
      then show ?thesis using False d q rest assms aap_parser_reset_inv unfolding receive_from_socket_def Let_def
        by (simp add: conn_inv_def s)
    next
      case PARSER_STATUS_DONE
      then have m: "message_shape (ap_message q)" "fst (aap_parser_extract_message q) = ap_message q"
        using q(2) by (simp_all add: aap_parser_inv_def aap_parser_extract_message_def)
      obtain r s' where "process_aap_message env (ap_message q) s = Some (Inr (r, s'))" "aa_allocs s' = []" "store_usable (aa_store s')"
        using process_returns[OF m(1) assms(2-4)] by blast
      then show ?thesis using PARSER_STATUS_DONE m False d q rest assms aap_parser_reset_inv unfolding receive_from_socket_def Let_def
        by (simp add: conn_inv_def s aap_parser_extract_message_def)
    qed
  qed
qed

section \<open>Messages in pieces\<close>

text \<open>The connection on a sequence of deliveries by \<^verbatim>\<open>recv\<close>.\<close>

fun receive_chunks :: "aa_env \<Rightarrow> u8 list list \<Rightarrow> u8 list \<Rightarrow> aap_parser \<Rightarrow> aa_state \<Rightarrow> (fault + u8 list option \<times> aap_parser \<times> aa_state) option" where
  "receive_chunks env [] rx p s = Some (Inr (Some rx, p, s))"
| "receive_chunks env (c # cs) rx p s = bindR (receive_from_socket env (Some c) rx p s) (\<lambda>(bo, p1, s1).
     case bo of None \<Rightarrow> Some (Inr (None, p1, s1)) | Some rx1 \<Rightarrow> receive_chunks env cs rx1 p1 s1)"

lemma bindR_assoc: "bindR (bindR m f) g = bindR m (\<lambda>x. bindR (f x) g)"
  by (auto simp: bindR_def split: option.splits sum.splits)

lemma receive_chunks_message:
  assumes "aap_parser_inv p" "ap_status p = PARSER_STATUS_GOOD" "length rx < 8" "aa_allocs s = []" "cs \<noteq> []"
    and "\<forall>c\<in>set cs. c \<noteq> [] \<and> length c \<le> 504"
    and "parse_aap (aa_platform env) p [] (rx @ concat cs) 0 = Inr (q, [], length (rx @ concat cs))" "ap_status q = PARSER_STATUS_DONE"
  shows "receive_chunks env cs rx p s
    = bindR (process_aap_message env (ap_message q) s) (\<lambda>(r, s'). Some (Inr (Some [], aap_parser_reset (snd (aap_parser_extract_message q)), s')))"
  using assms
proof (induction cs arbitrary: p rx)
  case (Cons c cs)
  let ?pl = "aa_platform env" and ?avail = "rx @ c"
  have s: "s\<lparr>aa_allocs := []\<rparr> = s" using Cons.prems(4) by simp
  have data: "take (APPLICATION_AGENT_RX_BUFFER_SIZE - length rx) c = c" "c \<noteq> []"
    using Cons.prems(3,6) by (auto simp: APPLICATION_AGENT_RX_BUFFER_SIZE_def)
  obtain p' n where p': "parse_aap ?pl p [] ?avail 0 = Inr (p', [], n)" "aap_parser_inv p'" "n \<le> length ?avail"
      "ap_status p' = PARSER_STATUS_GOOD \<longrightarrow> length ?avail - n < 8"
    using parse_aap_granted[OF Cons.prems(1)] by blast
  have ap: "parse_aap ?pl p [] (?avail @ ys) 0 = (if ap_status p' = PARSER_STATUS_GOOD then count_from n (parse_aap ?pl p' [] (drop n ?avail @ ys) 0)
      else Inr (p', [], n))" for ys
    using parse_aap_append[OF Cons.prems(1), of ?pl "[]" ?avail ys] p'(1) by simp
  have all: "parse_aap ?pl p [] (?avail @ concat cs) 0 = Inr (q, [], length (?avail @ concat cs))" using Cons.prems(7) by simp
  show ?case
  proof (cases "ap_status p' = PARSER_STATUS_GOOD")
    case False
    then have eq: "p' = q" "n = length (?avail @ concat cs)" using ap[of "concat cs"] all by simp_all
    then have "concat cs = []" using p'(3) by simp
    then have "cs = []" using Cons.prems(6) by (cases cs) auto
    moreover have "fst (aap_parser_extract_message q) = ap_message q" using Cons.prems(8) by (simp add: aap_parser_extract_message_def)
    moreover obtain m q2 where "aap_parser_extract_message q = (m, q2)" by (cases "aap_parser_extract_message q")
    ultimately have x: "cs = []" "aap_parser_extract_message q = (ap_message q, q2)" by simp_all
    have "receive_from_socket env (Some c) rx p s = bindR (process_aap_message env (ap_message q) s)
        (\<lambda>(r, s'). Some (Inr (Some (drop n ?avail), aap_parser_reset q2, s')))"
      unfolding receive_from_socket_def Let_def using data p' eq False Cons.prems(4,8) x
      by (simp add: bindR_assoc split_def s)
    then show ?thesis using x eq by (simp add: bindR_assoc split_def s)
  next
    case True
    have stay: "count_from n (parse_aap ?pl p' [] (drop n ?avail) 0) = Inr (p', [], n)" using ap[of "[]"] p'(1) True by simp
    have go: "count_from n (parse_aap ?pl p' [] (drop n ?avail @ concat cs) 0) = Inr (q, [], length (?avail @ concat cs))"
      using ap[of "concat cs"] all True by simp
    have "cs \<noteq> []"
    proof
      assume "cs = []"
      then have "p' = q" using stay go by simp
      then show False using True Cons.prems(8) by simp
    qed
    moreover have "parse_aap ?pl p' [] (drop n ?avail @ concat cs) 0 = Inr (q, [], length (drop n ?avail @ concat cs))"
      using go p'(3) by (cases "parse_aap ?pl p' [] (drop n ?avail @ concat cs) 0") auto
    ultimately have IH: "receive_chunks env cs (drop n ?avail) p' s
        = bindR (process_aap_message env (ap_message q) s) (\<lambda>(r, s'). Some (Inr (Some [], aap_parser_reset (snd (aap_parser_extract_message q)), s')))"
      using Cons.IH[of p' "drop n ?avail"] p' True Cons.prems(4,6,8) by simp
    have "receive_from_socket env (Some c) rx p s = Some (Inr (Some (drop n ?avail), p', s))"
      using data p'(1,3) True Cons.prems(4) s unfolding receive_from_socket_def Let_def by simp
    then show ?thesis using IH by simp
  qed
qed simp


section \<open>Registration with the bundle processor\<close>

lemma handle_register_signal:
  assumes "agents_inv (bp_agents bs)" "bp_allocs bs = []"
    and "sig = \<lparr>sig_type = BP_SIGNAL_AGENT_REGISTER, sig_reason = BUNDLE_SR_REASON_NO_INFO, sig_bundle = BUNDLE_INVALID_ID,
        sig_extra = Some \<lparr>am_feedback_queue = Some fq, am_agent = ag\<rparr>\<rparr>"
  shows "handle_signal n benv sig bs = Some (Inr ((),
      if agents_map (bp_agents bs) (ag_sink_identifier ag) = None
      then bs\<lparr>bp_agents := bp_agents bs @ [ag], bp_trace := bp_trace bs @ [Feedback fq 0]\<rparr>
      else bs\<lparr>bp_trace := bp_trace bs @ [Feedback fq (-1)]\<rparr>))"
proof -
  have ag: "\<lparr>ag_sink_identifier = ag_sink_identifier ag, ag_callback = ag_callback ag, ag_param = ag_param ag\<rparr> = ag" by simp
  show ?thesis
    using agent_register_cases(1)[OF assms(1), of "ag_sink_identifier ag" "ag_callback ag" "ag_param ag"] assms(2) unfolding assms(3) ag
    by (cases "agents_map (bp_agents bs) (ag_sink_identifier ag)")
      (simp_all add: handle_signal_def handle_agent_signal_def agent_feedback_def bp_bind_def bp_lift_def bp_modify_def bp_emit_def)
qed


section \<open>Examples\<close>

definition sample_aa_env :: aa_env where
  "sample_aa_env = \<lparr>aa_local_eid = ''dtn:n'', aa_bp_version = 7, aa_lifetime = 60, aa_config = 5, aa_callback = 6,
     aa_platform = \<lparr>plat_size_max = 1000, plat_junk = (\<lambda>_. 0xAA)\<rparr>, aa_bundle_junk = sample_bundle, aa_block_junk = sample_block, aa_fresh = (\<lambda>_. 1)\<rparr>"

definition sample_aa :: "string option \<Rightarrow> aa_state" where
  "sample_aa reg = \<lparr>aa_registered = reg, aa_out = [], aa_answers = [], aa_now = 100, aa_heap = Map.empty, aa_store = storage_init, aa_allocs = [],
     aa_signals = [], aa_feedback = [(Some 3, Some 0)]\<rparr>"

definition sample_send :: aap_message where
  "sample_send = zero_message\<lparr>msg_type := AAP_MESSAGE_SENDBUNDLE, msg_eid := Some (string_bytes ''dtn:d'' @ [0]), msg_eid_length := 5,
     msg_payload := Some [1, 2, 3], msg_payload_length := 3\<rparr>"

definition sample_register :: aap_message where
  "sample_register = zero_message\<lparr>msg_type := AAP_MESSAGE_REGISTER, msg_eid := Some (string_bytes ''app'' @ [0]), msg_eid_length := 3\<rparr>"

definition sample_aap_parser :: aap_parser where
  "sample_aap_parser = \<lparr>ap_status = PARSER_STATUS_ERROR, ap_max_payload_length = 0, ap_parse = ParseNull, ap_message = zero_message, ap_consumed = 0, ap_remaining = 0\<rparr>"

lemma sample_text: "string_bytes ''dtn:d'' = [100, 116, 110, 58, 100]" "string_bytes ''app'' = [97, 112, 112]"
  by code_simp+

lemma sample_messages:
  "aap_message_is_valid sample_send = Inr True" "aap_message_is_valid sample_register = Inr True" "regions_ok sample_send"
  "message_text sample_send = ''dtn:d''" "message_text sample_register = ''app''"
proof -
  have "take 5 (string_bytes ''dtn:d'' @ [0]) = string_bytes ''dtn:d''" "take 3 (string_bytes ''app'' @ [0]) = string_bytes ''app''" by simp_all
  then show "message_text sample_send = ''dtn:d''" "message_text sample_register = ''app''"
    by (simp_all add: message_text_def sample_send_def sample_register_def)
qed (simp_all add: aap_message_is_valid_def sample_send_def sample_register_def zero_message_def aap_kind_defs sample_text c_strlen_def regions_ok_def
      region_covers_def)

lemma sample_storage: "store_inv Map.empty storage_init" "store_usable storage_init" "length (entries (storage_tree storage_init)) = 0" "bundle_bytes storage_init = 0"
  by (simp_all add: store_inv_def storage_init_def store_usable_def total_bytes_def bst_def)

theorem aap_send_bundle_stored_witness:
  "\<exists>i b s'. process_aap_message sample_aa_env sample_send (sample_aa (Some ''app'')) = Some (Inr (0, s'))
    \<and> app_bundle sample_aa_env ''app'' ''dtn:d'' 100 (Some [1, 2, 3]) 3 b \<and> stored (aa_store s') = [i \<mapsto> 1] \<and> aa_heap s' = [1 \<mapsto> b\<lparr>bundle_id := i\<rparr>]"
proof -
  have t: "msg_type sample_send = AAP_MESSAGE_SENDBUNDLE" "aa_registered (sample_aa (Some ''app'')) = Some ''app''"
    "aa_bp_version sample_aa_env = 6 \<longrightarrow> strstr (aa_local_eid sample_aa_env @ ''/'' @ ''app'') '':'' \<noteq> None \<and> strstr (message_text sample_send) '':'' \<noteq> None"
    "aa_allocs (sample_aa (Some ''app'')) = []" "aa_answers (sample_aa (Some ''app'')) = []"
    "store_inv (aa_heap (sample_aa (Some ''app''))) (aa_store (sample_aa (Some ''app'')))"
    "aa_heap (sample_aa (Some ''app'')) (aa_fresh sample_aa_env (aa_heap (sample_aa (Some ''app'')))) = None"
    "length (entries (storage_tree (aa_store (sample_aa (Some ''app''))))) < 65535"
    "unat (bundle_bytes (aa_store (sample_aa (Some ''app'')))) + unat (of_nat (msg_payload_length sample_send) :: u32) < 2 ^ 32"
    using sample_storage by (simp_all add: sample_send_def sample_aa_def sample_aa_env_def)
  have "stored (aa_store (sample_aa (Some ''app''))) = Map.empty" by (simp add: sample_aa_def storage_init_def stored_def)
  with aap_send_bundle_stored[OF sample_messages(1) t] show ?thesis
    unfolding sample_messages by (simp add: sample_aa_def sample_aa_env_def sample_send_def) blast
qed

theorem receive_from_socket_safe_witness:
  "\<exists>bo p' s'. receive_from_socket sample_aa_env (Some [0x18, 0x99]) [] (aap_parser_init sample_aap_parser) (sample_aa None) = Some (Inr (bo, p', s')) \<and> bo \<noteq> None"
proof -
  have "conn_inv [] (aap_parser_init sample_aap_parser)" using aap_parser_init_inv by (simp add: conn_inv_def APPLICATION_AGENT_RX_BUFFER_SIZE_def)
  moreover have "aa_allocs (sample_aa None) = []" "store_usable (aa_store (sample_aa None))" "length (entries (storage_tree (aa_store (sample_aa None)))) < 65535"
    using sample_storage by (simp_all add: sample_aa_def)
  ultimately show ?thesis using receive_from_socket_safe[of "[]" "aap_parser_init sample_aap_parser" "sample_aa None" sample_aa_env "Some [0x18, 0x99]"] by auto
qed


definition sample_bp :: bp_state where
  "sample_bp = bundle_processor_init ''dtn:n'' Map.empty storage_init [] [] []"


end
