(* ===== verification/Reports.thy ===== *)
theory Reports
  imports Bundle6 Bundle_Processor
begin

unbundle bit_operations_syntax

text \<open>
  Administrative records of version 6, \<^verbatim>\<open>components/bundle6/reports.c\<close>, and the dispatch by version of
  \<^verbatim>\<open>components/ud3tn/report_manager.c\<close>. The generators of version 7 are parameters, they rest on the CBOR library. A region of memory is a
  list of bytes; \<open>junk\<close> is the contents of fresh memory, \<open>clock\<close> the time in milliseconds.
\<close>

section \<open>Generator\<close>

definition ADMINISTRATVE_RECORD_MAX_SIZE :: nat where
  "ADMINISTRATVE_RECORD_MAX_SIZE = 1 + 2 + (4 * 2) + (9 * 2) + 4 + 2 + 40"

record report_env =
  re_clock_ms :: u64
  re_region_junk :: "nat \<Rightarrow> u8"
  re_bundle_junk :: bundle_t
  re_block_junk :: bundle_block

text \<open>
  \<^verbatim>\<open>encapsulate_record\<close>. The difference of the two times is taken as signed 64-bit numbers. \<^term>\<open>None\<close> without the flag is the early return,
  with which the payload is still allocated; with the flag \<^verbatim>\<open>bundle6_create_local\<close> has freed it.
\<close>

definition encapsulate_record ::
  "report_env \<Rightarrow> bundle_t \<Rightarrow> eid \<Rightarrow> eid option \<Rightarrow> u8 list option \<Rightarrow> nat \<Rightarrow> alloc_script \<Rightarrow> fault + (bundle_t option \<times> bool) \<times> alloc_script" where
  "encapsulate_record env b source_eid dest_eid payload payload_len as =
    (let now = re_clock_ms env div 1000;
         lifetime_seconds = bundle_get_expiration_time_s now b - now
     in if sint lifetime_seconds < 0 then Inr ((None, False), as)
        else bindE (deref dest_eid) (\<lambda>dst.
          bindE (bundle6_create_local (re_bundle_junk env) (re_block_junk env) payload payload_len source_eid dst now lifetime_seconds
                   BUNDLE_FLAG_ADMINISTRATIVE_RECORD as) (\<lambda>(r, as1).
          case r of None \<Rightarrow> Inr ((None, True), as1)
          | Some b' \<Rightarrow> Inr ((Some (b'\<lparr>ret_constraints := BUNDLE_RET_CONSTRAINT_FLAG_OWN\<rparr>), False), as1))))"

text \<open>What is written before the source identifier, in the order of the writes.\<close>

definition record_header :: "report_env \<Rightarrow> bundle_t \<Rightarrow> bool \<Rightarrow> u8 \<Rightarrow> u8 \<Rightarrow> u16 \<Rightarrow> fault + u8 list" where
  "record_header env b is_custody_signal prefix_1 prefix_2 eid_length =
    (let fragment = bundle_is_fragmented b; millitime = re_clock_ms env in
     bindE (if fragment
            then bindE (deref (payload_of b)) (\<lambda>pl. Inr (serialize_u32 (fragment_offset b) @ serialize_u32 (blk_length pl)))
            else Inr []) (\<lambda>frag.
     Inr ([(if is_custody_signal then 0x20 else 0x10) OR (if fragment then 0x01 else 0x00), prefix_1]
       @ (if is_custody_signal then [prefix_2] else []) @ frag
       @ serialize_u64 (millitime div 1000) @ serialize_u32 (ucast ((millitime mod 1000) * 1000))
       @ serialize_u64 (creation_timestamp_ms b div 1000) @ serialize_u64 (sequence_number b) @ serialize_u32 (ucast eid_length))))"

text \<open>
  \<^verbatim>\<open>generate_record\<close>. The second answer of the allocator is that of \<^verbatim>\<open>realloc\<close>, which is not checked. A payload that \<^verbatim>\<open>bundle6_create_local\<close>
  has freed is freed again.
\<close>

definition generate_record ::
  "report_env \<Rightarrow> bundle_t \<Rightarrow> eid \<Rightarrow> eid option \<Rightarrow> bool \<Rightarrow> u8 \<Rightarrow> u8 \<Rightarrow> alloc_script \<Rightarrow> fault + bundle_t option \<times> alloc_script" where
  "generate_record env b source_eid dest_eid is_custody_signal prefix_1 prefix_2 as =
    (if \<not> malloc_ok as then Inr (None, malloc_rest as)
     else bindE (deref (source b)) (\<lambda>src.
       let eid_length = of_nat (length src) :: u16; as1 = malloc_rest as in
       bindE (record_header env b is_custody_signal prefix_1 prefix_2 eid_length) (\<lambda>hdr.
       bindE (memcpy_at (Some (map (re_region_junk env) [0..<ADMINISTRATVE_RECORD_MAX_SIZE])) 0 hdr) (\<lambda>_.
       let cur_length = of_nat (length hdr) :: u16;
           buffer = (if malloc_ok as1 then Some (hdr @ map (re_region_junk env) [0..<unat eid_length]) else None) in
       bindE (memcpy_at buffer (unat cur_length) (take (unat eid_length) (string_bytes src))) (\<lambda>payload.
       bindE (encapsulate_record env b source_eid dest_eid (Some payload) (unat cur_length + unat eid_length) (malloc_rest as1)) (\<lambda>((ret, freed), as2).
         if ret = None \<and> freed then Inl UseAfterFree else Inr (ret, as2)))))))"

text \<open>The fields of the report that version 6 uses.\<close>

definition bundle6_generate_status_report ::
  "report_env \<Rightarrow> bundle_t \<Rightarrow> u8 \<Rightarrow> bundle_status_report_reason \<Rightarrow> eid \<Rightarrow> alloc_script \<Rightarrow> fault + bundle_t option \<times> alloc_script" where
  "bundle6_generate_status_report env b flags reason local_eid =
     generate_record env b local_eid (report_to b) True flags (reason_number reason)"

definition bundle6_generate_custody_signal ::
  "report_env \<Rightarrow> bundle_t \<Rightarrow> bundle_custody_signal \<Rightarrow> eid \<Rightarrow> alloc_script \<Rightarrow> fault + bundle_t option \<times> alloc_script" where
  "bundle6_generate_custody_signal env b signal local_eid =
     generate_record env b local_eid (current_custodian b) False
       ((cs_reason signal AND 0x7F) OR (if cs_type signal = BUNDLE_CS_TYPE_ACCEPTANCE then 0x80 else 0x00)) 0"

section \<open>Parser\<close>

definition BUNDLE_AR_STATUS_REPORT :: u8 where "BUNDLE_AR_STATUS_REPORT = 1"
definition BUNDLE_AR_CUSTODY_SIGNAL :: u8 where "BUNDLE_AR_CUSTODY_SIGNAL = 2"
definition BUNDLE_AR_FLAG_FRAGMENT :: u8 where "BUNDLE_AR_FLAG_FRAGMENT = 1"

datatype record_parser_stage =
  RP_EXPECT_TYPE | RP_EXPECT_REPORT_FLAGS | RP_EXPECT_REPORT_REASON | RP_EXPECT_CUSTODY_STATUS
| RP_EXPECT_FRAGMENT_OFFSET | RP_EXPECT_FRAGMENT_LENGTH
| RP_EXPECT_RECORD_DTN_SECONDS | RP_EXPECT_RECORD_DTN_NANOSECONDS
| RP_EXPECT_BUNDLE_CREATION_TIMESTAMP | RP_EXPECT_BUNDLE_CREATION_SEQUENCE
| RP_EXPECT_BUNDLE_SOURCE_LENGTH | RP_EXPECT_BUNDLE_SOURCE_EID

record bundle_status_report =
  sr_status :: u8
  sr_reason :: u8

text \<open>The parser with the fields of its record, which exists from the initialisation on; \<open>rp_junk\<close> is the contents of fresh memory.\<close>

record record_parser =
  rp_status :: parser_status
  rp_stage :: record_parser_stage
  rp_sdnv :: sdnv_state
  rp_type :: u8
  rp_flags :: u8
  rp_status_report :: "bundle_status_report option"
  rp_custody_signal :: "bundle_custody_signal option"
  rp_fragment_offset :: u32
  rp_fragment_length :: u32
  rp_event_timestamp :: u64
  rp_event_nanoseconds :: u32
  rp_creation_timestamp_ms :: u64
  rp_sequence_number :: u64
  rp_eid_length :: u16
  rp_eid :: "u8 list option"
  rp_index :: u16
  rp_remaining :: u16
  rp_allocs :: alloc_script
  rp_junk :: "nat \<Rightarrow> u8"

text \<open>The argument is the uninitialised parser.\<close>

definition record_parser_init :: "record_parser \<Rightarrow> ud3tn_result \<times> record_parser" where
  "record_parser_init p =
    (let p1 = p\<lparr>rp_status := PARSER_STATUS_GOOD, rp_stage := RP_EXPECT_TYPE, rp_allocs := malloc_rest (rp_allocs p)\<rparr> in
     if \<not> malloc_ok (rp_allocs p) then (UD3TN_FAIL, p1)
     else (UD3TN_OK, p1\<lparr>rp_status_report := None, rp_custody_signal := None, rp_fragment_offset := 0, rp_fragment_length := 0,
            rp_event_timestamp := 0, rp_event_nanoseconds := 0, rp_creation_timestamp_ms := 0, rp_sequence_number := 0,
            rp_eid_length := 0, rp_eid := None\<rparr>))"

definition record_parser_next :: "record_parser_stage \<Rightarrow> record_parser \<Rightarrow> record_parser" where
  "record_parser_next st p = p\<lparr>rp_stage := st, rp_sdnv := sdnv_reset\<rparr>"

definition record_parser_wait_for_sdnv :: "record_parser_stage \<Rightarrow> record_parser \<Rightarrow> bool \<times> record_parser" where
  "record_parser_wait_for_sdnv st p = (case status (rp_sdnv p) of
     SDNV_IN_PROGRESS \<Rightarrow> (False, p)
   | SDNV_DONE \<Rightarrow> (True, record_parser_next st p)
   | SDNV_ERROR \<Rightarrow> (False, p\<lparr>rp_status := PARSER_STATUS_ERROR\<rparr>))"

text \<open>One byte of a number into the field that \<open>get\<close> and \<open>put\<close> access.\<close>

definition record_field ::
  "(sdnv_state \<Rightarrow> 'v \<Rightarrow> u8 \<Rightarrow> sdnv_state \<times> 'v) \<Rightarrow> (record_parser \<Rightarrow> 'v) \<Rightarrow> ('v \<Rightarrow> record_parser \<Rightarrow> record_parser)
    \<Rightarrow> record_parser_stage \<Rightarrow> u8 \<Rightarrow> record_parser \<Rightarrow> bool \<times> record_parser" where
  "record_field rd get put st byte p = (case rd (rp_sdnv p) (get p) byte of
     (s, v) \<Rightarrow> record_parser_wait_for_sdnv st (put v (p\<lparr>rp_sdnv := s\<rparr>)))"

definition fragment_or_time :: "record_parser \<Rightarrow> record_parser" where
  "fragment_or_time p = record_parser_next
     (if rp_flags p AND BUNDLE_AR_FLAG_FRAGMENT \<noteq> 0 then RP_EXPECT_FRAGMENT_OFFSET else RP_EXPECT_RECORD_DTN_SECONDS) p"

text \<open>Fresh memory for the report and the signal; its contents are overwritten field by field.\<close>

definition rp_malloc :: "'a \<Rightarrow> record_parser \<Rightarrow> 'a option \<times> record_parser" where
  "rp_malloc x p = (if malloc_ok (rp_allocs p) then Some x else None, p\<lparr>rp_allocs := malloc_rest (rp_allocs p)\<rparr>)"

definition record_parser_read_byte :: "record_parser \<Rightarrow> u8 \<Rightarrow> fault + record_parser" where
  "record_parser_read_byte p byte = (case rp_stage p of
     RP_EXPECT_TYPE \<Rightarrow>
       let p1 = p\<lparr>rp_type := drop_bit 4 byte AND 0x0F, rp_flags := byte AND 0x0F\<rparr> in
       Inr (if rp_type p1 = BUNDLE_AR_STATUS_REPORT
            then (case rp_malloc \<lparr>sr_status = 0, sr_reason = 0\<rparr> p1 of (r, p2) \<Rightarrow> record_parser_next RP_EXPECT_REPORT_FLAGS (p2\<lparr>rp_status_report := r\<rparr>))
            else if rp_type p1 = BUNDLE_AR_CUSTODY_SIGNAL
            then (case rp_malloc \<lparr>cs_type = BUNDLE_CS_TYPE_ACCEPTANCE, cs_reason = 0\<rparr> p1 of (r, p2) \<Rightarrow>
                    record_parser_next RP_EXPECT_CUSTODY_STATUS (p2\<lparr>rp_custody_signal := r\<rparr>))
            else p1\<lparr>rp_status := PARSER_STATUS_ERROR\<rparr>)
   | RP_EXPECT_REPORT_FLAGS \<Rightarrow> bindE (deref (rp_status_report p)) (\<lambda>r.
       Inr (record_parser_next RP_EXPECT_REPORT_REASON (p\<lparr>rp_status_report := Some (r\<lparr>sr_status := byte\<rparr>)\<rparr>)))
   | RP_EXPECT_REPORT_REASON \<Rightarrow> bindE (deref (rp_status_report p)) (\<lambda>r.
       Inr (fragment_or_time (p\<lparr>rp_status_report := Some (r\<lparr>sr_reason := byte\<rparr>)\<rparr>)))
   | RP_EXPECT_CUSTODY_STATUS \<Rightarrow> bindE (deref (rp_custody_signal p)) (\<lambda>_.
       Inr (fragment_or_time (p\<lparr>rp_custody_signal := Some \<lparr>cs_type = (if drop_bit 7 byte \<noteq> 0 then BUNDLE_CS_TYPE_ACCEPTANCE else BUNDLE_CS_TYPE_REFUSAL),
         cs_reason = byte AND 0x7F\<rparr>\<rparr>)))
   | RP_EXPECT_FRAGMENT_OFFSET \<Rightarrow> Inr (snd (record_field sdnv_read_u32 rp_fragment_offset (\<lambda>v p. p\<lparr>rp_fragment_offset := v\<rparr>) RP_EXPECT_FRAGMENT_LENGTH byte p))
   | RP_EXPECT_FRAGMENT_LENGTH \<Rightarrow> Inr (snd (record_field sdnv_read_u32 rp_fragment_length (\<lambda>v p. p\<lparr>rp_fragment_length := v\<rparr>) RP_EXPECT_RECORD_DTN_SECONDS byte p))
   | RP_EXPECT_RECORD_DTN_SECONDS \<Rightarrow>
       Inr (snd (record_field sdnv_read_u64 rp_event_timestamp (\<lambda>v p. p\<lparr>rp_event_timestamp := v\<rparr>) RP_EXPECT_RECORD_DTN_NANOSECONDS byte p))
   | RP_EXPECT_RECORD_DTN_NANOSECONDS \<Rightarrow>
       Inr (snd (record_field sdnv_read_u32 rp_event_nanoseconds (\<lambda>v p. p\<lparr>rp_event_nanoseconds := v\<rparr>) RP_EXPECT_BUNDLE_CREATION_TIMESTAMP byte p))
   | RP_EXPECT_BUNDLE_CREATION_TIMESTAMP \<Rightarrow>
       Inr (case record_field sdnv_read_u64 rp_creation_timestamp_ms (\<lambda>v p. p\<lparr>rp_creation_timestamp_ms := v\<rparr>) RP_EXPECT_BUNDLE_CREATION_SEQUENCE byte p of
         (d, p1) \<Rightarrow> if d then p1\<lparr>rp_creation_timestamp_ms := rp_creation_timestamp_ms p1 * 1000\<rparr> else p1)
   | RP_EXPECT_BUNDLE_CREATION_SEQUENCE \<Rightarrow>
       Inr (snd (record_field sdnv_read_u64 rp_sequence_number (\<lambda>v p. p\<lparr>rp_sequence_number := v\<rparr>) RP_EXPECT_BUNDLE_SOURCE_LENGTH byte p))
   | RP_EXPECT_BUNDLE_SOURCE_LENGTH \<Rightarrow>
       Inr (case record_field sdnv_read_u16 rp_eid_length (\<lambda>v p. p\<lparr>rp_eid_length := v\<rparr>) RP_EXPECT_BUNDLE_SOURCE_EID byte p of
         (d, p1) \<Rightarrow> if \<not> d then p1
           else case rp_malloc (map (rp_junk p1) [0..<unat (rp_eid_length p1) + 1]) p1 of (r, p2) \<Rightarrow>
             p2\<lparr>rp_eid := r, rp_status := (if r = None then PARSER_STATUS_ERROR else rp_status p2), rp_index := 0, rp_remaining := rp_eid_length p2\<rparr>)
   | RP_EXPECT_BUNDLE_SOURCE_EID \<Rightarrow>
       let p1 = p\<lparr>rp_remaining := rp_remaining p - 1\<rparr> in
       bindE (memcpy_at (rp_eid p1) (unat (rp_index p1)) [byte]) (\<lambda>eid.
         let p2 = p1\<lparr>rp_eid := Some eid, rp_index := rp_index p1 + 1\<rparr> in
         bindE (if rp_remaining p2 = 0
                then bindE (memcpy_at (rp_eid p2) (unat (rp_index p2)) [0]) (\<lambda>eid2. Inr (p2\<lparr>rp_eid := Some eid2, rp_status := PARSER_STATUS_DONE\<rparr>))
                else Inr p2) (\<lambda>p3.
         Inr (p3\<lparr>rp_status := PARSER_STATUS_ERROR\<rparr>))))"

fun record_parser_loop :: "record_parser \<Rightarrow> u8 list \<Rightarrow> fault + record_parser" where
  "record_parser_loop p [] = Inr p"
| "record_parser_loop p (b # bs) = (if rp_status p = PARSER_STATUS_GOOD then bindE (record_parser_read_byte p b) (\<lambda>p1. record_parser_loop p1 bs) else Inr p)"

text \<open>The record as the custody manager sees it.\<close>

definition rp_record :: "record_parser \<Rightarrow> bundle_administrative_record" where
  "rp_record p = \<lparr>ar_custody_signal = rp_custody_signal p, ar_fragment_offset = rp_fragment_offset p, ar_fragment_length = rp_fragment_length p,
     ar_bundle_creation_timestamp_ms = rp_creation_timestamp_ms p, ar_bundle_sequence_number = rp_sequence_number p,
     ar_bundle_source_eid = map_option (\<lambda>r. bytes_string (takeWhile (\<lambda>c. c \<noteq> 0) r)) (rp_eid p)\<rparr>"

definition bundle6_parse_administrative_record ::
  "record_parser \<Rightarrow> u8 list option \<Rightarrow> alloc_script \<Rightarrow> fault + bundle_administrative_record option \<times> alloc_script" where
  "bundle6_parse_administrative_record junk data as = (case data of
     None \<Rightarrow> Inl AssertFailed
   | Some bytes \<Rightarrow>
     (case record_parser_init (junk\<lparr>rp_allocs := as\<rparr>) of
        (UD3TN_FAIL, p) \<Rightarrow> Inr (None, rp_allocs p)
      | (UD3TN_OK, p) \<Rightarrow> bindE (record_parser_loop p bytes) (\<lambda>q.
          Inr (if rp_status q = PARSER_STATUS_DONE then Some (rp_record q) else None, rp_allocs q))))"

section \<open>Dispatch by version\<close>

text \<open>The functions for version 7 are the first argument.\<close>

definition generate_status_report ::
  "(bundle_t \<Rightarrow> u8 \<Rightarrow> bundle_status_report_reason \<Rightarrow> eid \<Rightarrow> alloc_script \<Rightarrow> fault + bundle_t option \<times> alloc_script)
    \<Rightarrow> report_env \<Rightarrow> bundle_t \<Rightarrow> u8 \<Rightarrow> bundle_status_report_reason \<Rightarrow> eid \<Rightarrow> alloc_script \<Rightarrow> fault + bundle_t option \<times> alloc_script" where
  "generate_status_report generate7 env b flags reason local_eid as =
    (if protocol_version b = 6 then bundle6_generate_status_report env b flags reason local_eid as
     else if protocol_version b = 7 then generate7 b flags reason local_eid as
     else Inr (None, as))"

text \<open>A list of at most one bundle.\<close>

definition bundle_list_entry_create :: "bundle_t option \<Rightarrow> alloc_script \<Rightarrow> bundle_t list \<times> alloc_script" where
  "bundle_list_entry_create b as = (case b of
     None \<Rightarrow> ([], as)
   | Some x \<Rightarrow> (if malloc_ok as then [x] else [], malloc_rest as))"

definition generate_custody_signal ::
  "report_env \<Rightarrow> bundle_t \<Rightarrow> bundle_custody_signal \<Rightarrow> eid \<Rightarrow> alloc_script \<Rightarrow> fault + bundle_t list \<times> alloc_script" where
  "generate_custody_signal env b signal local_eid as =
    (if protocol_version b = 6
     then bindE (bundle6_generate_custody_signal env b signal local_eid as) (\<lambda>(s, as1). Inr (bundle_list_entry_create s as1))
     else Inr ([], as))"

definition parse_administrative_record ::
  "(u8 list option \<Rightarrow> alloc_script \<Rightarrow> fault + bundle_administrative_record option \<times> alloc_script)
    \<Rightarrow> record_parser \<Rightarrow> u8 \<Rightarrow> u8 list option \<Rightarrow> alloc_script \<Rightarrow> fault + bundle_administrative_record option \<times> alloc_script" where
  "parse_administrative_record parse7 junk version data as =
    (if version = 6 then bundle6_parse_administrative_record junk data as
     else if version = 7 then parse7 data as
     else Inr (None, as))"

section \<open>No record is ever accepted\<close>

text \<open>The state of the parser: allocations that were refused are the only source of null pointers.\<close>

definition rp_inv :: "alloc_script \<Rightarrow> record_parser \<Rightarrow> bool" where
  "rp_inv as p \<longleftrightarrow> set (rp_allocs p) \<subseteq> set as \<and> rp_status p \<noteq> PARSER_STATUS_DONE
     \<and> (rp_stage p \<in> {RP_EXPECT_REPORT_FLAGS, RP_EXPECT_REPORT_REASON} \<longrightarrow> rp_status_report p \<noteq> None \<or> False \<in> set as)
     \<and> (rp_stage p = RP_EXPECT_CUSTODY_STATUS \<longrightarrow> rp_custody_signal p \<noteq> None \<or> False \<in> set as)
     \<and> (rp_stage p = RP_EXPECT_BUNDLE_SOURCE_EID \<and> rp_status p = PARSER_STATUS_GOOD \<longrightarrow>
          rp_index p = 0 \<and> rp_remaining p = rp_eid_length p \<and> map_option length (rp_eid p) = Some (unat (rp_eid_length p) + 1))"

definition rp_step_ok :: "alloc_script \<Rightarrow> fault + record_parser \<Rightarrow> bool" where
  "rp_step_ok as r \<longleftrightarrow> (case r of Inl f \<Rightarrow> f = NullDeref \<and> False \<in> set as | Inr q \<Rightarrow> rp_inv as q)"

definition number_stage :: "record_parser_stage \<Rightarrow> bool" where
  "number_stage st \<longleftrightarrow> st \<in> {RP_EXPECT_FRAGMENT_OFFSET, RP_EXPECT_FRAGMENT_LENGTH, RP_EXPECT_RECORD_DTN_SECONDS, RP_EXPECT_RECORD_DTN_NANOSECONDS,
     RP_EXPECT_BUNDLE_CREATION_TIMESTAMP, RP_EXPECT_BUNDLE_CREATION_SEQUENCE, RP_EXPECT_BUNDLE_SOURCE_LENGTH}"

lemma record_field_frame:
  assumes "\<And>v q. rp_stage (put v q) = rp_stage q \<and> rp_status (put v q) = rp_status q \<and> rp_allocs (put v q) = rp_allocs q"
    "record_field rd get put st byte p = (d, q)"
  shows "rp_allocs q = rp_allocs p" "rp_status q = rp_status p \<or> rp_status q = PARSER_STATUS_ERROR"
    "if d then rp_stage q = st \<and> rp_status q = rp_status p else rp_stage q = rp_stage p"
  using assms by (auto simp: record_field_def record_parser_wait_for_sdnv_def record_parser_next_def split: prod.splits sdnv_status.splits)

lemma record_field_inv:
  assumes "rp_inv as p" "number_stage (rp_stage p)" "number_stage st"
    "\<And>v q. rp_stage (put v q) = rp_stage q \<and> rp_status (put v q) = rp_status q \<and> rp_allocs (put v q) = rp_allocs q"
  shows "rp_inv as (snd (record_field rd get put st byte p))"
proof -
  obtain d q where f: "record_field rd get put st byte p = (d, q)" by (cases "record_field rd get put st byte p")
  note fr = record_field_frame[OF assms(4) f]
  have g: "rp_status p \<noteq> PARSER_STATUS_DONE" "set (rp_allocs p) \<subseteq> set as" using assms(1) by (simp_all add: rp_inv_def)
  have "number_stage (rp_stage q)" using fr(3) assms(2,3) by (cases d) simp_all
  moreover have "rp_status q \<noteq> PARSER_STATUS_DONE" using fr(2) g(1) by (elim disjE) simp_all
  ultimately show ?thesis using g(2) fr(1) f by (cases "rp_stage q") (simp_all add: rp_inv_def number_stage_def)
qed

lemma rp_malloc_set: "set (malloc_rest as) \<subseteq> set as" "malloc_ok as \<or> False \<in> set as"
  by (cases as; auto)+

lemma read_byte_step:
  assumes "rp_inv as p" "rp_status p = PARSER_STATUS_GOOD"
  shows "rp_step_ok as (record_parser_read_byte p byte)"
proof (cases "rp_stage p")
  case RP_EXPECT_TYPE
  then show ?thesis using assms rp_malloc_set[of "rp_allocs p"]
    by (auto simp: record_parser_read_byte_def rp_step_ok_def rp_malloc_def record_parser_next_def rp_inv_def Let_def)
next
  case RP_EXPECT_REPORT_FLAGS
  then show ?thesis using assms
    by (cases "rp_status_report p") (auto simp: record_parser_read_byte_def rp_step_ok_def record_parser_next_def rp_inv_def)
next
  case RP_EXPECT_REPORT_REASON
  then show ?thesis using assms
    by (cases "rp_status_report p") (auto simp: record_parser_read_byte_def rp_step_ok_def fragment_or_time_def record_parser_next_def rp_inv_def)
next
  case RP_EXPECT_CUSTODY_STATUS
  then show ?thesis using assms
    by (cases "rp_custody_signal p") (auto simp: record_parser_read_byte_def rp_step_ok_def fragment_or_time_def record_parser_next_def rp_inv_def)
next
  case RP_EXPECT_BUNDLE_CREATION_TIMESTAMP
  let ?f = "record_field sdnv_read_u64 rp_creation_timestamp_ms (\<lambda>v p. p\<lparr>rp_creation_timestamp_ms := v\<rparr>) RP_EXPECT_BUNDLE_CREATION_SEQUENCE byte p"
  obtain d q where f: "?f = (d, q)" by (cases ?f)
  have "rp_inv as q" using record_field_inv[OF assms(1), of RP_EXPECT_BUNDLE_CREATION_SEQUENCE "\<lambda>v p. p\<lparr>rp_creation_timestamp_ms := v\<rparr>"
      sdnv_read_u64 rp_creation_timestamp_ms byte] f RP_EXPECT_BUNDLE_CREATION_TIMESTAMP by (simp add: number_stage_def)
  then show ?thesis using RP_EXPECT_BUNDLE_CREATION_TIMESTAMP f by (simp add: record_parser_read_byte_def rp_step_ok_def rp_inv_def)
next
  case RP_EXPECT_BUNDLE_SOURCE_LENGTH
  let ?f = "record_field sdnv_read_u16 rp_eid_length (\<lambda>v p. p\<lparr>rp_eid_length := v\<rparr>) RP_EXPECT_BUNDLE_SOURCE_EID byte p"
  obtain d q where f: "?f = (d, q)" by (cases ?f)
  note fr = record_field_frame[OF _ f]
  show ?thesis using RP_EXPECT_BUNDLE_SOURCE_LENGTH f fr assms rp_malloc_set[of "rp_allocs p"]
    by (cases d) (auto simp: record_parser_read_byte_def rp_step_ok_def rp_inv_def rp_malloc_def)
next
  case RP_EXPECT_BUNDLE_SOURCE_EID
  then obtain r where r: "rp_eid p = Some r" "length r = unat (rp_eid_length p) + 1" "rp_index p = 0" "rp_remaining p = rp_eid_length p"
    using assms by (auto simp: rp_inv_def)
  have "rp_remaining p - 1 = 0 \<Longrightarrow> unat (rp_eid_length p) = 1" using r(4) by (metis eq_iff_diff_eq_0 unsigned_1)
  then show ?thesis using RP_EXPECT_BUNDLE_SOURCE_EID r assms
    by (auto simp: record_parser_read_byte_def rp_step_ok_def memcpy_at_def rp_inv_def Let_def)
qed (use assms in \<open>auto simp: record_parser_read_byte_def rp_step_ok_def number_stage_def intro!: record_field_inv\<close>)

lemma record_parser_loop_ok:
  "rp_inv as p \<Longrightarrow> rp_step_ok as (record_parser_loop p bs)"
proof (induction bs arbitrary: p)
  case (Cons b bs)
  show ?case
  proof (cases "rp_status p = PARSER_STATUS_GOOD")
    case True
    then show ?thesis using read_byte_step[OF Cons.prems True, of b] Cons.IH
      by (cases "record_parser_read_byte p b") (auto simp: rp_step_ok_def)
  qed (use Cons.prems in \<open>simp add: rp_step_ok_def\<close>)
qed (simp add: rp_step_ok_def)

lemma parse_record_none:
  "case bundle6_parse_administrative_record junk (Some data) as of Inl f \<Rightarrow> f = NullDeref \<and> False \<in> set as | Inr (r, as') \<Rightarrow> r = None"
proof (cases "malloc_ok as")
  case True
  obtain p where i: "record_parser_init (junk\<lparr>rp_allocs := as\<rparr>) = (UD3TN_OK, p)" "rp_inv as p"
    using True rp_malloc_set[of as] by (simp add: record_parser_init_def Let_def rp_inv_def)
  from record_parser_loop_ok[OF i(2), of data] i(1) show ?thesis
    by (cases "record_parser_loop p data") (simp_all add: bundle6_parse_administrative_record_def rp_step_ok_def rp_inv_def)
qed (simp add: bundle6_parse_administrative_record_def record_parser_init_def Let_def)


section \<open>Generated records\<close>

lemma sdnv_sizes: "sdnv_get_size_u32 v32 \<le> 5" "sdnv_get_size_u64 v64 \<le> 10"
  by (simp_all add: sdnv_get_size_unat)

lemma length_numbers: "length (serialize_u32 v32) \<le> 5" "length (serialize_u64 v64) \<le> 10"
  using sdnv_sizes by (simp_all add: serialize_u32_def serialize_u64_def sdnv_write_defs Let_def sdnv_write_generic_def)

text \<open>A bundle a record can be made for, and the two endpoints of the record.\<close>

definition reportable :: "report_env \<Rightarrow> bundle_t \<Rightarrow> eid \<Rightarrow> eid option \<Rightarrow> bool" where
  "reportable env b local_eid dst \<longleftrightarrow> source b \<noteq> None \<and> length (the (source b)) < 65536 \<and> dst \<noteq> None
     \<and> strstr local_eid '':'' \<noteq> None \<and> strstr (the dst) '':'' \<noteq> None \<and> (bundle_is_fragmented b \<longrightarrow> payload_of b \<noteq> None)
     \<and> 0 \<le> sint (bundle_get_expiration_time_s (re_clock_ms env div 1000) b - re_clock_ms env div 1000)"

lemma record_header_ok:
  assumes "bundle_is_fragmented b \<longrightarrow> payload_of b \<noteq> None"
  shows "\<exists>rest. record_header env b c p1 p2 n = Inr (((if c then 0x20 else 0x10) OR (if bundle_is_fragmented b then 0x01 else 0x00)) # rest) \<and> length rest < 60"
proof -
  let ?num = "serialize_u64 (re_clock_ms env div 1000) @ serialize_u32 (ucast ((re_clock_ms env mod 1000) * 1000))
       @ serialize_u64 (creation_timestamp_ms b div 1000) @ serialize_u64 (sequence_number b) @ serialize_u32 (ucast n)"
  have l: "length ?num \<le> 40"
    using length_numbers(2)[of "re_clock_ms env div 1000"] length_numbers(1)[of "ucast ((re_clock_ms env mod 1000) * 1000)"]
      length_numbers(2)[of "creation_timestamp_ms b div 1000"] length_numbers(2)[of "sequence_number b"] length_numbers(1)[of "ucast n"]
    by (simp only: length_append)
  show ?thesis
  proof (cases "bundle_is_fragmented b")
    case True
    then obtain pl where pl: "payload_of b = Some pl" using assms by auto
    have "length (serialize_u32 (fragment_offset b)) \<le> 5" "length (serialize_u32 (blk_length pl)) \<le> 5" by (rule length_numbers)+
    then show ?thesis using True pl l by (cases c) (simp_all add: record_header_def Let_def)
  next
    case False
    then show ?thesis using l by (cases c) (simp_all add: record_header_def Let_def)
  qed
qed

lemma create6_ok:
  assumes "strstr src '':'' \<noteq> None" "strstr dst '':'' \<noteq> None"
  shows "\<exists>b. bundle6_create_local junk bjunk payload n src dst now life flags [] = Inr (Some b, []) \<and> map blk_data (blocks b) = [payload]
    \<and> payload_block b = Some 0 \<and> proc_flags b = flags OR BUNDLE_V6_FLAG_SINGLETON_ENDPOINT \<and> source b = Some src \<and> destination b = Some dst"
  using assms
  by (auto simp: bundle6_create_local_def bundle_init_def bundle_block_create_def bundle_block_entry_create_def Let_def
        bundle6_recalculate_header_length_def bundle6_recalculate_header_length_internal_def bundle6_calculate_dict_def counted_references_def
        BUNDLE_V6_BLOCK_FLAG_LAST_BLOCK_def split: prod.split)

lemma generate_record_ok:
  assumes "reportable env b local_eid dst"
  shows "\<exists>r hdr. generate_record env b local_eid dst c p1 p2 [] = Inr (Some r, [])
    \<and> record_header env b c p1 p2 (of_nat (length (the (source b)))) = Inr hdr
    \<and> map blk_data (blocks r) = [Some (hdr @ string_bytes (the (source b)))] \<and> payload_block r = Some 0
    \<and> HAS_FLAG (proc_flags r) BUNDLE_FLAG_ADMINISTRATIVE_RECORD \<and> source r = Some local_eid \<and> destination r = dst
    \<and> ret_constraints r = BUNDLE_RET_CONSTRAINT_FLAG_OWN"
proof -
  obtain src d where s: "source b = Some src" "dst = Some d" "length src < 65536" using assms by (auto simp: reportable_def)
  let ?n = "of_nat (length src) :: u16"
  have n: "unat ?n = length src" using s(3) by (simp add: unsigned_of_nat take_bit_nat_eq_self)
  obtain rest where h: "record_header env b c p1 p2 ?n = Inr (((if c then 0x20 else 0x10) OR (if bundle_is_fragmented b then 0x01 else 0x00)) # rest)" "length rest < 60"
    using record_header_ok[of b env c p1 p2 ?n] assms by (auto simp: reportable_def)
  define hdr where "hdr = ((if c then 0x20 else 0x10) OR (if bundle_is_fragmented b then 0x01 else 0x00)) # rest"
  have hd: "record_header env b c p1 p2 ?n = Inr hdr" "length hdr \<le> 60" using h by (simp_all add: hdr_def)
  have u: "unat (of_nat (length hdr) :: u16) = length hdr" using hd(2) by (simp add: unsigned_of_nat take_bit_nat_eq_self)
  have w: "memcpy_at (Some (map (re_region_junk env) [0..<ADMINISTRATVE_RECORD_MAX_SIZE])) 0 hdr
      = Inr (hdr @ drop (length hdr) (map (re_region_junk env) [0..<ADMINISTRATVE_RECORD_MAX_SIZE]))"
    using hd(2) by (subst memcpy_at_Some) (simp_all add: ADMINISTRATVE_RECORD_MAX_SIZE_def)
  have w2: "memcpy_at (Some (hdr @ map (re_region_junk env) [0..<length src])) (length hdr) (string_bytes src) = Inr (hdr @ string_bytes src)"
    by (subst memcpy_at_Some) simp_all
  obtain r where r: "encapsulate_record env b local_eid dst (Some (hdr @ string_bytes src)) (length hdr + length src) [] = Inr ((Some r, False), [])"
      "map blk_data (blocks r) = [Some (hdr @ string_bytes src)]" "payload_block r = Some 0" "HAS_FLAG (proc_flags r) BUNDLE_FLAG_ADMINISTRATIVE_RECORD"
      "source r = Some local_eid" "destination r = Some d" "ret_constraints r = BUNDLE_RET_CONSTRAINT_FLAG_OWN"
  proof -
    let ?now = "re_clock_ms env div 1000"
    let ?life = "bundle_get_expiration_time_s ?now b - ?now"
    have c: "strstr local_eid '':'' \<noteq> None" "strstr d '':'' \<noteq> None" "\<not> sint ?life < 0" using assms s(2) by (simp_all add: reportable_def)
    obtain r0 where r0: "bundle6_create_local (re_bundle_junk env) (re_block_junk env) (Some (hdr @ string_bytes src)) (length hdr + length src) local_eid d ?now ?life
          BUNDLE_FLAG_ADMINISTRATIVE_RECORD [] = Inr (Some r0, [])" "map blk_data (blocks r0) = [Some (hdr @ string_bytes src)]" "payload_block r0 = Some 0"
        "proc_flags r0 = BUNDLE_FLAG_ADMINISTRATIVE_RECORD OR BUNDLE_V6_FLAG_SINGLETON_ENDPOINT" "source r0 = Some local_eid" "destination r0 = Some d"
      using create6_ok[OF c(1,2), of "re_bundle_junk env" "re_block_junk env" "Some (hdr @ string_bytes src)" "length hdr + length src" ?now ?life
        BUNDLE_FLAG_ADMINISTRATIVE_RECORD] by (elim exE conjE) (rule that)
    have fl: "HAS_FLAG (BUNDLE_FLAG_ADMINISTRATIVE_RECORD OR BUNDLE_V6_FLAG_SINGLETON_ENDPOINT) BUNDLE_FLAG_ADMINISTRATIVE_RECORD"
      by (simp add: HAS_FLAG_def bundle_proc_flags_defs)
    define r where "r = r0\<lparr>ret_constraints := BUNDLE_RET_CONSTRAINT_FLAG_OWN\<rparr>"
    have e: "encapsulate_record env b local_eid dst (Some (hdr @ string_bytes src)) (length hdr + length src) [] = Inr ((Some r, False), [])"
      unfolding encapsulate_record_def Let_def if_not_P[OF c(3)] s(2) r_def by (simp add: r0(1))
    have f: "blocks r = blocks r0" "payload_block r = payload_block r0" "proc_flags r = proc_flags r0" "source r = source r0"
      "destination r = destination r0" "ret_constraints r = BUNDLE_RET_CONSTRAINT_FLAG_OWN" by (simp_all add: r_def)
    show ?thesis using r0(2-6) fl by (intro that[OF e]) (simp_all only: f)
  qed
  have "generate_record env b local_eid dst c p1 p2 [] = Inr (Some r, [])"
    unfolding generate_record_def using s(1) hd(1) w w2 r(1) n u by simp
  then show ?thesis using hd(1) r s by auto
qed

text \<open>
  The two kinds of administrative records of version 6 are mixed up: for every bundle a report can be made for, a status report is
  labelled as a custody signal and a custody signal as a status report. Apart from that the record has the layout of its label, fits into the
  buffer before the buffer is enlarged for the source identifier, and is wrapped into a bundle from the node to the intended endpoint.
\<close>

theorem bundle6_record_types_swapped:
  assumes "reportable env b local_eid (report_to b)" "reportable env b local_eid (current_custodian b)"
  shows "\<exists>r d c e. bundle6_generate_status_report env b flags reason local_eid [] = Inr (Some r, []) \<and> map blk_data (blocks r) = [Some d]
      \<and> destination r = report_to b \<and> drop_bit 4 (hd d) AND 0x0F = BUNDLE_AR_CUSTODY_SIGNAL
    \<and> bundle6_generate_custody_signal env b signal local_eid [] = Inr (Some c, []) \<and> map blk_data (blocks c) = [Some e]
      \<and> destination c = current_custodian b \<and> drop_bit 4 (hd e) AND 0x0F = BUNDLE_AR_STATUS_REPORT"
proof -
  have type: "drop_bit 4 (((if c then 0x20 else 0x10) OR (if f then 0x01 else 0x00)) :: u8) AND 0x0F = (if c then BUNDLE_AR_CUSTODY_SIGNAL else BUNDLE_AR_STATUS_REPORT)" for c f
    by (cases c; cases f) (simp_all add: BUNDLE_AR_CUSTODY_SIGNAL_def BUNDLE_AR_STATUS_REPORT_def drop_bit_eq_div)
  have first: "drop_bit 4 (hd (hdr @ x)) AND 0x0F = (if c then BUNDLE_AR_CUSTODY_SIGNAL else BUNDLE_AR_STATUS_REPORT)"
    if "record_header env b c p1 p2 n = Inr hdr" for hdr x c p1 p2 n
  proof -
    have "bundle_is_fragmented b \<longrightarrow> payload_of b \<noteq> None" using assms(1) by (simp add: reportable_def)
    from record_header_ok[OF this, of env c p1 p2 n] obtain rest
      where "record_header env b c p1 p2 n = Inr (((if c then 0x20 else 0x10) OR (if bundle_is_fragmented b then 0x01 else 0x00)) # rest)" by blast
    from trans[OF that[symmetric] this] have "hdr = ((if c then 0x20 else 0x10) OR (if bundle_is_fragmented b then 0x01 else 0x00)) # rest" by (rule sum.inject(2)[THEN iffD1])
    then show ?thesis by (simp only: append_Cons list.sel type)
  qed
  let ?p = "(cs_reason signal AND 0x7F) OR (if cs_type signal = BUNDLE_CS_TYPE_ACCEPTANCE then 0x80 else 0x00)"
  obtain r h1 where r: "generate_record env b local_eid (report_to b) True flags (reason_number reason) [] = Inr (Some r, [])"
      "record_header env b True flags (reason_number reason) (of_nat (length (the (source b)))) = Inr h1"
      "map blk_data (blocks r) = [Some (h1 @ string_bytes (the (source b)))]" "destination r = report_to b"
    using generate_record_ok[OF assms(1), of True flags "reason_number reason"] by (elim exE conjE) (rule that)
  obtain c h2 where c: "generate_record env b local_eid (current_custodian b) False ?p 0 [] = Inr (Some c, [])"
      "record_header env b False ?p 0 (of_nat (length (the (source b)))) = Inr h2"
      "map blk_data (blocks c) = [Some (h2 @ string_bytes (the (source b)))]" "destination c = current_custodian b"
    using generate_record_ok[OF assms(2), of False ?p 0] by (elim exE conjE) (rule that)
  show ?thesis
    unfolding bundle6_generate_status_report_def bundle6_generate_custody_signal_def
    using r c first[OF r(2), of "string_bytes (the (source b))"] first[OF c(2), of "string_bytes (the (source b))"]
    by (intro exI[of _ r] exI[of _ "h1 @ string_bytes (the (source b))"] exI[of _ c] exI[of _ "h2 @ string_bytes (the (source b))"]) simp
qed

definition sample_report_env :: report_env where
  "sample_report_env = \<lparr>re_clock_ms = 6000, re_region_junk = (\<lambda>_. 0), re_bundle_junk = sample_bundle, re_block_junk = sample_block\<rparr>"

definition sample_custody_bundle :: bundle_t where
  "sample_custody_bundle = sample_bundle\<lparr>protocol_version := 6, report_to := Some ''dtn:r'', current_custodian := Some ''dtn:c''\<rparr>"

lemma sample_custody_eids: "report_to sample_custody_bundle = Some ''dtn:r''" "current_custodian sample_custody_bundle = Some ''dtn:c''"
  by (simp_all add: sample_custody_bundle_def)

theorem bundle6_record_types_swapped_witness:
  "\<exists>r d. bundle6_generate_status_report sample_report_env sample_custody_bundle BUNDLE_SR_FLAG_BUNDLE_DELETED BUNDLE_SR_REASON_NO_INFO ''dtn:n'' [] = Inr (Some r, [])
     \<and> map blk_data (blocks r) = [Some d] \<and> drop_bit 4 (hd d) AND 0x0F = BUNDLE_AR_CUSTODY_SIGNAL"
proof -
  have e: "bundle_get_expiration_time_s (re_clock_ms sample_report_env div 1000) sample_custody_bundle - re_clock_ms sample_report_env div 1000 = 59"
    by code_simp
  have "reportable sample_report_env sample_custody_bundle ''dtn:n'' (Some ''dtn:r'')" "reportable sample_report_env sample_custody_bundle ''dtn:n'' (Some ''dtn:c'')"
    unfolding reportable_def e by (simp_all add: sample_custody_bundle_def sample_bundle_def bundle_is_fragmented_def HAS_FLAG_def)
  then show ?thesis
    using bundle6_record_types_swapped[of sample_report_env sample_custody_bundle "''dtn:n''" BUNDLE_SR_FLAG_BUNDLE_DELETED BUNDLE_SR_REASON_NO_INFO
        "\<lparr>cs_type = BUNDLE_CS_TYPE_ACCEPTANCE, cs_reason = 0\<rparr>"] sample_custody_eids by auto
qed

definition sample_record_parser :: record_parser where
  "sample_record_parser = \<lparr>rp_status = PARSER_STATUS_ERROR, rp_stage = RP_EXPECT_TYPE, rp_sdnv = sdnv_reset, rp_type = 0, rp_flags = 0,
     rp_status_report = None, rp_custody_signal = None, rp_fragment_offset = 0, rp_fragment_length = 0, rp_event_timestamp = 0, rp_event_nanoseconds = 0,
     rp_creation_timestamp_ms = 0, rp_sequence_number = 0, rp_eid_length = 0, rp_eid = None, rp_index = 0, rp_remaining = 0, rp_allocs = [], rp_junk = (\<lambda>_. 0)\<rparr>"

definition sample_record_env :: bp_env where
  "sample_record_env = \<lparr>bp_local_eid = ''dtn:n'', bp_status_reporting = True, bp_now = 10, bp_hop_count_parse = (\<lambda>d l. None), bp_hop_count_serialize = (\<lambda>h. []),
     bp_status_report = (\<lambda>b st r. None), bp_custody_signal = (\<lambda>b c. None),
     bp_parse_admin = (\<lambda>v d. case parse_administrative_record (\<lambda>d as. Inr (None, as)) sample_record_parser v (Some d) [] of Inl f \<Rightarrow> None | Inr (r, as') \<Rightarrow> r),
     bp_serialized_size = (\<lambda>b. 0), bp_fresh = (\<lambda>h. 7), bp_memory = (\<lambda>n. replicate n 0)\<rparr>"

definition sample_signal_adu :: bundle_adu where
  "sample_signal_adu = \<lparr>adu_protocol_version = 6, adu_proc_flags = BUNDLE_FLAG_ADMINISTRATIVE_RECORD, adu_source = None, adu_destination = None,
     adu_payload = Some [0x20, 0x80, 5, 0, 5, 1, 1, 97], adu_length = 8\<rparr>"


end
