(* ===== verification/Routing_Agent.thy ===== *)
theory Routing_Agent
  imports Application_Agent Epidemic_Router Htab Known_Bundle_List
begin

text \<open>
  The routing agent, \<^verbatim>\<open>components/routing/epidemic/routing_agent.c\<close>, which carries the offers and requests of the epidemic router as bundles, and
  the filter of characteristics, \<^verbatim>\<open>components/cla/zephyr/nb_sv_ch_filter.c\<close>, by which neighbours that offer nothing new are ignored.

  The agent runs beside the router, the bundle processor and the storage, whose states it reads and changes; they are fields of its state. The
  allocator is the script of the router. The size of the filter, the generator of test bundles and the width of \<^verbatim>\<open>size_t\<close> are configuration.
\<close>

section \<open>Filter of characteristics\<close>

record nb_sv_filter =
  nf_characteristics :: "u8 list list"
  nf_next_index :: u32

definition nb_sv_ch_filter_init :: "nat \<Rightarrow> nb_sv_filter" where
  "nb_sv_ch_filter_init n = \<lparr>nf_characteristics = replicate n summary_vector_characteristic_init, nf_next_index = 0\<rparr>"

definition filter_add :: "u8 list \<Rightarrow> nb_sv_filter \<Rightarrow> fault + nb_sv_filter" where
  "filter_add ch f =
    (if unat (nf_next_index f) < length (nf_characteristics f)
     then Inr \<lparr>nf_characteristics = (nf_characteristics f)[unat (nf_next_index f) := ch],
               nf_next_index = (nf_next_index f + 1) mod of_nat (length (nf_characteristics f))\<rparr>
     else Inl OutOfBounds)"

definition filter_contains :: "u8 list \<Rightarrow> nb_sv_filter \<Rightarrow> bool" where
  "filter_contains ch f \<longleftrightarrow> list_ex (summary_vector_characteristic_equals ch) (nf_characteristics f)"

text \<open>With a filter of size 0 the functions do nothing; the characteristic is not read then.\<close>

definition nb_sv_ch_filter_add :: "fault + u8 list \<Rightarrow> nb_sv_filter \<Rightarrow> fault + nb_sv_filter" where
  "nb_sv_ch_filter_add ch f =
    (if nf_characteristics f = [] then Inr f
     else bindE ch (\<lambda>c. if filter_contains c f then Inr f else filter_add c f))"

definition nb_sv_ch_filter_contains :: "u8 list \<Rightarrow> nb_sv_filter \<Rightarrow> bool" where
  "nb_sv_ch_filter_contains ch f \<longleftrightarrow> nf_characteristics f \<noteq> [] \<and> filter_contains ch f"

section \<open>State\<close>

definition CONFIG_ROUTING_AGENT_BUNDLE_LIFETIME_S :: u64 where "CONFIG_ROUTING_AGENT_BUNDLE_LIFETIME_S = 5"

record fake_config =
  fake_interval :: u64
  fake_multiplier :: u64
  fake_size_min :: u32
  fake_size_max :: u32
  fake_lifetime :: u64

record ra_env =
  ra_local_eid :: eid
  ra_now_s :: u64
  ra_now_ms :: u64
  ra_random :: u32
  ra_router_env :: router_env
  ra_hashlittle :: "string \<Rightarrow> u32"
  ra_size_bits :: nat
  ra_fake :: fake_config
  ra_bundle_junk :: bundle_t
  ra_block_junk :: bundle_block
  ra_fresh :: "bundle_heap \<Rightarrow> bptr"
  ra_on_offer :: nat
  ra_on_request :: nat
  ra_config :: nat

text \<open>An entry of the table of contacts holds only the address of the contact, which is the value here.\<close>

record routing_agent =
  ra_source_eid :: eid
  ra_contact_htab :: "nat htab"
  ra_sequence_number :: u32
  ra_num_generated :: u32
  ra_last_sv_update_ms :: u64
  ra_filter :: nb_sv_filter
  ra_own_sv_characteristic :: "u8 list"
  ra_router :: router
  ra_known :: known_bundle_list
  ra_heap :: bundle_heap
  ra_store :: storage
  ra_signals :: "bundle_processor_signal list"

abbreviation ra_allocs :: "routing_agent \<Rightarrow> alloc_script" where
  "ra_allocs s \<equiv> r_allocs (ra_router s)"

definition ra_set_allocs :: "alloc_script \<Rightarrow> routing_agent \<Rightarrow> routing_agent" where
  "ra_set_allocs as s = s\<lparr>ra_router := (ra_router s)\<lparr>r_allocs := as\<rparr>\<rparr>"

section \<open>Bundles of the agent\<close>

text \<open>
  The time and the sequence number of a created bundle are set, the sequence number counts on, and the bundle is stored and
  announced; a bundle that cannot be stored is freed.
\<close>

definition agent_store :: "ra_env \<Rightarrow> bundle_t \<Rightarrow> routing_agent \<Rightarrow> (fault + bundleid_t \<times> routing_agent) option" where
  "agent_store env b s =
    (let b1 = bundle7_recalculate_primary_block_length
           (b\<lparr>creation_timestamp_ms := max 1 (ra_now_ms env), sequence_number := ucast (ra_sequence_number s)\<rparr>);
         p = ra_fresh env (ra_heap s) in
     bindR (bundle_storage_add p ((ra_heap s)(p \<mapsto> b1)) (ra_store s) (ra_allocs s)) (\<lambda>(i, hp, st, as).
       let s1 = ra_set_allocs as (s\<lparr>ra_sequence_number := ra_sequence_number s + 1, ra_heap := hp, ra_store := st\<rparr>) in
       if i = BUNDLE_INVALID_ID then Some (Inr (i, s1\<lparr>ra_heap := (ra_heap s1)(p := None)\<rparr>))
       else bindR (Some (bundle_processor_inform i BP_SIGNAL_BUNDLE_LOCAL_DISPATCH BUNDLE_SR_REASON_NO_INFO)) (\<lambda>sig.
         Some (Inr (i, s1\<lparr>ra_signals := ra_signals s1 @ [sig]\<rparr>)))))"

text \<open>
  \<^verbatim>\<open>send_sv\<close>. The payload is written before the result of its allocation is checked; it always has at least the characteristic.
\<close>

definition send_sv :: "ra_env \<Rightarrow> string \<Rightarrow> eid \<Rightarrow> summary_vector \<Rightarrow> u8 list option \<Rightarrow> routing_agent
    \<Rightarrow> (fault + ud3tn_result \<times> routing_agent) option" where
  "send_sv env sink dst sv original_ch s = (case create_endpoint dst sink (ra_allocs s) of
     (None, as1) \<Rightarrow> Some (Inr (UD3TN_FAIL, ra_set_allocs as1 s))
   | (Some dest_with_sink, as1) \<Rightarrow>
     if \<not> malloc_ok as1 then Some (Inl NullDeref)
     else
       let payload = summary_vector_copy_to_memory sv
             @ (case original_ch of None \<Rightarrow> replicate SUMMARY_VECTOR_CHARACTERISTIC_HASH_LENGTH 0 | Some ch \<Rightarrow> ch);
           payload_size = summary_vector_memory_size sv + SUMMARY_VECTOR_CHARACTERISTIC_HASH_LENGTH in
       (case bundle7_create_local (ra_bundle_junk env) (ra_block_junk env) (Some payload) payload_size (ra_source_eid s) dest_with_sink
               (ra_now_s env) CONFIG_ROUTING_AGENT_BUNDLE_LIFETIME_S 0 (malloc_rest as1) of
          (None, as2) \<Rightarrow> Some (Inr (UD3TN_FAIL, ra_set_allocs as2 s))
        | (Some b, as2) \<Rightarrow> bindR (agent_store env b (ra_set_allocs as2 s)) (\<lambda>(i, s1).
            Some (Inr (if i = BUNDLE_INVALID_ID then UD3TN_FAIL else UD3TN_OK, s1)))))"

definition routing_agent_send_offer_sv :: "ra_env \<Rightarrow> eid \<Rightarrow> summary_vector \<Rightarrow> u8 list \<Rightarrow> routing_agent \<Rightarrow> (fault + routing_agent) option" where
  "routing_agent_send_offer_sv env eid offer_sv original_ch s =
     bindR (send_sv env ROUTING_AGENT_SINK_OFFER eid offer_sv (Some original_ch) s) (\<lambda>(_, s1). Some (Inr s1))"

section \<open>Offers and requests\<close>

text \<open>
  \<^verbatim>\<open>create_known_sv\<close> of the agent: the bundles of the router and the known bundles. A dangling vector of the router is written to for the first known
  bundle; without known bundles it is handed on.
\<close>

definition agent_create_known_sv :: "ra_env \<Rightarrow> routing_agent \<Rightarrow> fault + summary_vector cptr \<times> routing_agent" where
  "agent_create_known_sv env s = bindE (router_create_known_sv (ra_router s)) (\<lambda>(known, r).
     let s1 = s\<lparr>ra_router := r\<rparr> in
     case known of
       CNull \<Rightarrow> Inr (CNull, s1)
     | Dangling \<Rightarrow> if ra_known s = [] then Inr (Dangling, s1) else Inl UseAfterFree
     | Ptr sv \<Rightarrow> bindE (add_entries (map (\<lambda>e. summary_vector_entry_from_bundle_unique_identifier (env_hal_hash (ra_router_env env))
           (kb_unique_identifier e)) (ra_known s)) sv (ra_allocs s1)) (\<lambda>(res, sv', as).
         Inr (case res of UD3TN_OK \<Rightarrow> Ptr sv' | UD3TN_FAIL \<Rightarrow> CNull, ra_set_allocs as s1)))"

text \<open>The subtraction of \<^verbatim>\<open>size_t\<close> values.\<close>

definition size_minus :: "nat \<Rightarrow> nat \<Rightarrow> nat \<Rightarrow> nat" where
  "size_minus bits a b = (a + 2 ^ bits - b) mod 2 ^ bits"

definition adu_bytes :: "bundle_adu \<Rightarrow> u8 list" where
  "adu_bytes data = (case adu_payload data of None \<Rightarrow> [] | Some p \<Rightarrow> p)"

definition adu_sv_length :: "ra_env \<Rightarrow> bundle_adu \<Rightarrow> nat" where
  "adu_sv_length env data = size_minus (ra_size_bits env) (unat (adu_length data)) SUMMARY_VECTOR_CHARACTERISTIC_HASH_LENGTH"

text \<open>The characteristic behind the vector, read through its pointer.\<close>

definition offered_characteristic :: "ra_env \<Rightarrow> bundle_adu \<Rightarrow> fault + u8 list" where
  "offered_characteristic env data =
    (let off = adu_sv_length env data; n = SUMMARY_VECTOR_CHARACTERISTIC_HASH_LENGTH in
     if off + n \<le> length (adu_bytes data) then Inr (take n (drop off (adu_bytes data))) else Inl OutOfBounds)"

text \<open>
  \<^verbatim>\<open>on_offer_msg\<close>. A dangling vector of known bundles is read or at the latest destroyed.
\<close>

definition on_offer_msg :: "ra_env \<Rightarrow> bundle_adu \<Rightarrow> routing_agent \<Rightarrow> (fault + routing_agent) option" where
  "on_offer_msg env data s =
     bindR (Some (deref (adu_source data))) (\<lambda>src.
     bindR (Some (routing_agent_create_eid_from_info_bundle_eid src (ra_allocs s))) (\<lambda>(source, as1).
     bindR (Some (summary_vector_create_from_memory (adu_bytes data) (adu_sv_length env data) as1)) (\<lambda>(offer, as2).
       let s2 = ra_set_allocs as2 s in
       case offer of
         None \<Rightarrow> Some (Inr s2)
       | Some offer_sv \<Rightarrow> bindR (Some (agent_create_known_sv env s2)) (\<lambda>(known, s3). case known of
           CNull \<Rightarrow> Some (Inr s3)
         | Dangling \<Rightarrow> Some (Inl UseAfterFree)
         | Ptr known_sv \<Rightarrow> bindR (Some (summary_vector_create_diff offer_sv known_sv (ra_allocs s3))) (\<lambda>(request, as4).
             let s4 = ra_set_allocs as4 s3 in
             case request of
               None \<Rightarrow> Some (Inr s4)
             | Some request_sv \<Rightarrow>
               bindR (Some (if sv_length request_sv = 0 then nb_sv_ch_filter_add (offered_characteristic env data) (ra_filter s4)
                            else Inr (ra_filter s4))) (\<lambda>f.
               bindR (send_sv env ROUTING_AGENT_SINK_REQUEST source request_sv None (s4\<lparr>ra_filter := f\<rparr>)) (\<lambda>(_, s5). Some (Inr s5))))))))"

definition on_request_msg :: "ra_env \<Rightarrow> bundle_adu \<Rightarrow> routing_agent \<Rightarrow> fault + routing_agent" where
  "on_request_msg env data s =
     bindE (deref (adu_source data)) (\<lambda>src.
     bindE (routing_agent_create_eid_from_info_bundle_eid src (ra_allocs s)) (\<lambda>(source, as1).
     bindE (summary_vector_create_from_memory (adu_bytes data) (adu_sv_length env data) as1) (\<lambda>(request, as2).
       let s2 = ra_set_allocs as2 s in
       case request of
         None \<Rightarrow> Inr s2
       | Some request_sv \<Rightarrow> bindE (router_update_request_sv (ra_router_env env) source request_sv (ra_router s2)) (\<lambda>r.
           Inr (s2\<lparr>ra_router := r\<rparr>)))))"

section \<open>Contacts\<close>

text \<open>
  \<open>kp\<close> is the address of the contact's endpoint identifier, \<open>new\<close> that of the key in a new table entry.
\<close>

definition routing_agent_handle_contact_event ::
  "ra_env \<Rightarrow> nat \<Rightarrow> nat \<Rightarrow> eid option \<Rightarrow> bool \<Rightarrow> nat \<Rightarrow> routing_agent \<Rightarrow> fault + routing_agent" where
  "routing_agent_handle_contact_event env contact kp node_eid active new s = bindE (deref node_eid) (\<lambda>eid.
     if eid = EID_NONE then Inr s
     else bindE (htab_get (ra_hashlittle env) (ra_contact_htab s) kp eid) (\<lambda>rc.
       if active \<and> rc = None then
         (if \<not> malloc_ok (ra_allocs s) then Inr (ra_set_allocs (malloc_rest (ra_allocs s)) s)
          else bindE (htab_add (ra_hashlittle env) (ra_contact_htab s) kp eid contact new (malloc_rest (ra_allocs s))) (\<lambda>(e, tab, as).
            Inr (ra_set_allocs as (s\<lparr>ra_contact_htab := tab\<rparr>))))
       else if \<not> active \<and> rc \<noteq> None then
         bindE (htab_remove (ra_hashlittle env) (ra_contact_htab s) kp eid) (\<lambda>(_, tab). Inr (s\<lparr>ra_contact_htab := tab\<rparr>))
       else Inr s))"

section \<open>Periodic update\<close>

text \<open>
  \<^verbatim>\<open>generate_fake_bundles\<close>, the load generator of the experiments. The bundle gets the lifetime of the configuration.
\<close>

definition fake_payload_length :: "ra_env \<Rightarrow> u32" where
  "fake_payload_length env = (let c = ra_fake env in
     if fake_size_max c > fake_size_min c then ra_random env mod (fake_size_max c - fake_size_min c) + fake_size_min c else fake_size_min c)"

definition generate_fake_bundles :: "ra_env \<Rightarrow> routing_agent \<Rightarrow> (fault + routing_agent) option" where
  "generate_fake_bundles env s =
    (let c = ra_fake env; planned = ucast ((ra_now_s env div fake_interval c + 1) * fake_multiplier c) :: u32; n = unat (fake_payload_length env) in
     if \<not> ra_num_generated s < planned then Some (Inr s)
     else if \<not> malloc_ok (ra_allocs s) then Some (Inr (ra_set_allocs (malloc_rest (ra_allocs s)) s))
     else
       let is_source = strstr (ra_local_eid env) DIRECT_TRANSMISSION_DESTINATION \<noteq> None;
           dst = (if is_source then EPIDEMIC_DESTINATION else DIRECT_TRANSMISSION_DESTINATION) in
       (case bundle7_create_local (ra_bundle_junk env) (ra_block_junk env) (Some (replicate n 0)) n (ra_local_eid env) dst
               0 (fake_lifetime c) 0 (malloc_rest (ra_allocs s)) of
          (None, as) \<Rightarrow> Some (Inr (ra_set_allocs as s))
        | (Some b, as) \<Rightarrow> bindR (agent_store env b (ra_set_allocs as s)) (\<lambda>(i, s1).
            Some (Inr (if i = BUNDLE_INVALID_ID then s1 else s1\<lparr>ra_num_generated := ra_num_generated s1 + 1\<rparr>)))))"

text \<open>\<^verbatim>\<open>nb_ble_set_own_sv_characteristic\<close> of \<^verbatim>\<open>nb_ble.c\<close>, without the update of the advertisement.\<close>

definition nb_ble_set_own_sv_characteristic :: "u8 list \<Rightarrow> routing_agent \<Rightarrow> routing_agent" where
  "nb_ble_set_own_sv_characteristic ch s =
    (if \<not> summary_vector_characteristic_equals ch (ra_own_sv_characteristic s) then s\<lparr>ra_own_sv_characteristic := ch\<rparr> else s)"

definition routing_agent_update :: "ra_env \<Rightarrow> routing_agent \<Rightarrow> (fault + routing_agent) option" where
  "routing_agent_update env s =
     bindR (if fake_interval (ra_fake env) > 0 then generate_fake_bundles env s else Some (Inr s)) (\<lambda>s1.
     if \<not> ra_last_sv_update_ms s1 + 1000 < ra_now_ms env then Some (Inr s1)
     else bindR (Some (router_create_known_sv (ra_router s1))) (\<lambda>(own, r).
       let s2 = s1\<lparr>ra_router := r\<rparr> in
       case own of
         CNull \<Rightarrow> Some (Inr s2)
       | Dangling \<Rightarrow> Some (Inl UseAfterFree)
       | Ptr own_sv \<Rightarrow>
         let ch = summary_vector_characteristic_calculate own_sv; s3 = nb_ble_set_own_sv_characteristic ch s2 in
         bindR (Some (nb_sv_ch_filter_add (Inr ch) (ra_filter s3))) (\<lambda>f.
           Some (Inr (s3\<lparr>ra_filter := f, ra_last_sv_update_ms := ra_now_ms env\<rparr>)))))"

section \<open>Initialisation\<close>

text \<open>
  \<open>sem\<close> tells whether the semaphore was created, the two pairs are the answers of the bundle processor to the registrations. The wait for the
  list of known bundles ends when the bundle processor has created it. \<open>slots\<close> is \<^verbatim>\<open>CONFIG_BT_MAX_CONN - 1\<close>.
\<close>

definition register_agent_sink :: "string \<Rightarrow> nat \<Rightarrow> nat \<Rightarrow> nat option \<times> int option \<Rightarrow> routing_agent \<Rightarrow> fault + int \<times> routing_agent" where
  "register_agent_sink sink cb param answer s =
     bindE (bundle_processor_perform_agent_action BP_SIGNAL_AGENT_REGISTER (Some sink) (Some cb) param True (malloc_ok (ra_allocs s))
              (fst answer) (snd answer)) (\<lambda>(ret, sig).
       Inr (ret, ra_set_allocs (malloc_rest (ra_allocs s)) (s\<lparr>ra_signals := ra_signals s @ (case sig of None \<Rightarrow> [] | Some x \<Rightarrow> [x])\<rparr>)))"

definition routing_agent_init :: "ra_env \<Rightarrow> u16 \<Rightarrow> bool \<Rightarrow> nat option \<times> int option \<Rightarrow> nat option \<times> int option \<Rightarrow> routing_agent
    \<Rightarrow> fault + ud3tn_result \<times> routing_agent" where
  "routing_agent_init env slots sem offer_answer request_answer s =
    (case create_endpoint (ra_local_eid env) ROUTING_AGENT_SINK_PREFIX (ra_allocs s) of
       (None, as) \<Rightarrow> Inr (UD3TN_FAIL, ra_set_allocs as s)
     | (Some eid, as) \<Rightarrow>
       let s1 = ra_set_allocs as (s\<lparr>ra_source_eid := eid, ra_contact_htab := htab_init slots\<rparr>) in
       if \<not> sem then Inr (UD3TN_FAIL, s1)
       else bindE (register_agent_sink ROUTING_AGENT_SINK_OFFER (ra_on_offer env) (ra_config env) offer_answer s1) (\<lambda>(ret1, s2).
         if ret1 \<noteq> 0 then Inr (UD3TN_FAIL, s2)
         else bindE (register_agent_sink ROUTING_AGENT_SINK_REQUEST (ra_on_request env) (ra_config env) request_answer s2) (\<lambda>(ret2, s3).
           Inr (if ret2 \<noteq> 0 then UD3TN_FAIL else UD3TN_OK, s3))))"

end
