(* ===== verification/Routing_Agent_Inv.thy ===== *)
theory Routing_Agent_Inv
  imports Routing_Agent Application_Agent_Inv Epidemic_Router_Inv
begin

unbundle bit_operations_syntax

text \<open>
  Proofs about the routing agent: the filter of characteristics, the bundles the agent stores, what it answers to offers and
  requests, one round of the exchange between two nodes, the periodic update and the contact events.
\<close>

section \<open>The filter\<close>

definition filter_ok :: "nb_sv_filter \<Rightarrow> bool" where
  "filter_ok f \<longleftrightarrow> length (nf_characteristics f) < 2 ^ 32 \<and> (nf_characteristics f \<noteq> [] \<longrightarrow> unat (nf_next_index f) < length (nf_characteristics f))"

lemma filter_init_ok: "n < 2 ^ 32 \<Longrightarrow> filter_ok (nb_sv_ch_filter_init n)"
  by (simp add: filter_ok_def nb_sv_ch_filter_init_def)

lemma filter_add_ok:
  assumes "filter_ok f" "length c = 8"
  shows "\<exists>f'. nb_sv_ch_filter_add (Inr c) f = Inr f' \<and> filter_ok f' \<and> (nf_characteristics f \<noteq> [] \<longrightarrow> nb_sv_ch_filter_contains c f')"
proof -
  let ?n = "length (nf_characteristics f)"
  have "unat (x mod (of_nat ?n :: u32)) < ?n" if "nf_characteristics f \<noteq> []" for x
    using that assms(1) by (simp add: filter_ok_def unat_mod unsigned_of_nat take_bit_nat_eq_self)
  then show ?thesis using assms
    by (auto simp: nb_sv_ch_filter_add_def nb_sv_ch_filter_contains_def filter_add_def filter_contains_def list_ex_iff filter_ok_def
        summary_vector_characteristic_equals_def set_update_memI intro!: bexI[of _ c])
qed

section \<open>States in which the agent can work\<close>

text \<open>
  The router and the storage are intact, memory is granted, the address for a new bundle is free, and the storage has room for one more bundle with
  \<open>n\<close> bytes of payload.
\<close>

definition agent_ok :: "ra_env \<Rightarrow> nat \<Rightarrow> nat \<Rightarrow> routing_agent \<Rightarrow> bool" where
  "agent_ok env m n s \<longleftrightarrow> router_inv m (ra_router s) \<and> env_ok (ra_router_env env) \<and> store_inv (ra_heap s) (ra_store s)
     \<and> ra_heap s (ra_fresh env (ra_heap s)) = None \<and> length (entries (storage_tree (ra_store s))) < 65535
     \<and> unat (bundle_bytes (ra_store s)) + n < 2 ^ 32 \<and> length (bundle_info_list (ra_router s)) + length (ra_known s) < 2 ^ 31 \<and> filter_ok (ra_filter s)"

lemma agent_okD:
  assumes "agent_ok env m n s"
  shows "router_inv m (ra_router s)" "env_ok (ra_router_env env)" "store_inv (ra_heap s) (ra_store s)" "ra_allocs s = []"
  using assms router_invD(3) by (auto simp: agent_ok_def)

lemma ra_set_allocs_id: "ra_allocs s = [] \<Longrightarrow> ra_set_allocs [] s = s"
  by (simp add: ra_set_allocs_def r_allocs_id)

section \<open>Sending a vector\<close>

definition info_bundle :: "eid \<Rightarrow> eid \<Rightarrow> u8 list \<Rightarrow> bundle_t \<Rightarrow> bool" where
  "info_bundle src dst payload b \<longleftrightarrow> protocol_version b = 7 \<and> proc_flags b = 0 \<and> source b = Some src \<and> destination b = Some dst
     \<and> payload_block b = Some 0 \<and> map blk_data (blocks b) = [Some payload] \<and> map (unat \<circ> blk_length) (blocks b) = [length payload]"

abbreviation dispatch_signal :: "bundleid_t \<Rightarrow> bundle_processor_signal" where
  "dispatch_signal i \<equiv> \<lparr>sig_type = BP_SIGNAL_BUNDLE_LOCAL_DISPATCH, sig_reason = BUNDLE_SR_REASON_NO_INFO, sig_bundle = i, sig_extra = None\<rparr>"

text \<open>One more bundle in the storage, announced to the bundle processor.\<close>

definition one_more :: "bundleid_t \<Rightarrow> bundle_t \<Rightarrow> routing_agent \<Rightarrow> routing_agent \<Rightarrow> bool" where
  "one_more i b s s' \<longleftrightarrow> i \<noteq> BUNDLE_INVALID_ID \<and> bundle_storage_get i (ra_store s) = None
     \<and> (\<exists>q. bundle_storage_get i (ra_store s') = Some q \<and> ra_heap s' q = Some b)
     \<and> (\<forall>j. j \<noteq> i \<longrightarrow> bundle_storage_get j (ra_store s') = bundle_storage_get j (ra_store s))
     \<and> (\<forall>q b. ra_heap s q = Some b \<longrightarrow> ra_heap s' q = Some b)
     \<and> store_inv (ra_heap s') (ra_store s') \<and> ra_signals s' = ra_signals s @ [dispatch_signal i]"

lemma agent_store_ok:
  assumes "agent_ok env m n s" "bundle_id b = BUNDLE_INVALID_ID" "payload_block b = Some 0" "map (unat \<circ> blk_length) (blocks b) = [n]"
  shows "\<exists>i b' s'. agent_store env b s = Some (Inr (i, s')) \<and> i \<noteq> BUNDLE_INVALID_ID \<and> one_more i b' s s'
    \<and> b' = b\<lparr>bundle_id := i, creation_timestamp_ms := max 1 (ra_now_ms env), sequence_number := ucast (ra_sequence_number s),
         primary_block_length := primary_block_length b'\<rparr>
    \<and> ra_router s' = ra_router s \<and> ra_filter s' = ra_filter s \<and> ra_known s' = ra_known s \<and> ra_source_eid s' = ra_source_eid s
    \<and> ra_sequence_number s' = ra_sequence_number s + 1"
proof -
  let ?p = "ra_fresh env (ra_heap s)"
  define b1 where "b1 = bundle7_recalculate_primary_block_length
      (b\<lparr>creation_timestamp_ms := max 1 (ra_now_ms env), sequence_number := ucast (ra_sequence_number s)\<rparr>)"
  let ?hp = "(ra_heap s)(?p \<mapsto> b1)"
  note d = agent_okD[OF assms(1)]
  have fresh: "ra_heap s ?p = None" and room: "length (entries (storage_tree (ra_store s))) < 65535" "unat (bundle_bytes (ra_store s)) + n < 2 ^ 32"
    using assms(1) by (simp_all add: agent_ok_def)
  have id: "bundle_id b1 = BUNDLE_INVALID_ID" using assms(2) by (simp add: b1_def bundle7_recalculate_primary_block_length_def)
  have pb: "unat (payload_bytes b1) = n" using assms(3,4)
    by (cases "blocks b") (auto simp: b1_def bundle7_recalculate_primary_block_length_def payload_bytes_def payload_of_def)
  have inv: "store_inv ?hp (ra_store s)" by (rule store_inv_fresh[OF d(3) fresh])
  obtain i st' where i: "bundle_storage_add ?p ?hp (ra_store s) [] = Some (Inr (i, ?hp(?p \<mapsto> b1\<lparr>bundle_id := i\<rparr>), st', malloc_rest []))"
      "i \<noteq> BUNDLE_INVALID_ID" "stored (ra_store s) i = None" "stored st' = (stored (ra_store s))(i \<mapsto> ?p)"
      "store_inv (?hp(?p \<mapsto> b1\<lparr>bundle_id := i\<rparr>)) st'"
    using storage_add_ok[OF inv, of ?p b1 "[]"] id room pb by auto
  define s' where "s' = s\<lparr>ra_sequence_number := ra_sequence_number s + 1, ra_heap := (ra_heap s)(?p \<mapsto> b1\<lparr>bundle_id := i\<rparr>), ra_store := st',
      ra_signals := ra_signals s @ [dispatch_signal i]\<rparr>"
  have e: "agent_store env b s = Some (Inr (i, s'))"
    unfolding agent_store_def Let_def b1_def[symmetric] d(4) i(1)
    using i(2) d(4) by (simp add: bundle_processor_inform_def ra_set_allocs_def r_allocs_id s'_def)
  have g: "bundle_storage_get j (ra_store s) = stored (ra_store s) j" "bundle_storage_get j st' = stored st' j" for j
    using bundle_storage_get_stored[OF d(3)] bundle_storage_get_stored[OF i(5)] by simp_all
  have "one_more i (b1\<lparr>bundle_id := i\<rparr>) s s'" unfolding one_more_def s'_def
    using i g fresh by auto
  moreover have "b1\<lparr>bundle_id := i\<rparr> = b\<lparr>bundle_id := i, creation_timestamp_ms := max 1 (ra_now_ms env), sequence_number := ucast (ra_sequence_number s),
         primary_block_length := primary_block_length (b1\<lparr>bundle_id := i\<rparr>)\<rparr>"
    by (simp add: b1_def bundle7_recalculate_primary_block_length_def)
  ultimately show ?thesis using e i(2) by (intro exI[of _ i] exI[of _ "b1\<lparr>bundle_id := i\<rparr>"] exI[of _ s']) (simp add: s'_def)
qed

definition sv_payload :: "summary_vector \<Rightarrow> u8 list option \<Rightarrow> u8 list" where
  "sv_payload sv ch = summary_vector_copy_to_memory sv
     @ (case ch of None \<Rightarrow> replicate SUMMARY_VECTOR_CHARACTERISTIC_HASH_LENGTH 0 | Some c \<Rightarrow> c)"

lemma length_sv_payload:
  "sv_inv sv \<Longrightarrow> \<forall>c. ch = Some c \<longrightarrow> length c = 8 \<Longrightarrow> length (sv_payload sv ch) = summary_vector_memory_size sv + 8"
  using memory_image(1)[of sv] by (auto simp: sv_payload_def sv_const_defs split: option.splits)

lemma send_sv_ok:
  assumes "agent_ok env m n s" "sv_inv sv" "\<forall>c. ch = Some c \<longrightarrow> length c = 8" "summary_vector_memory_size sv + 8 \<le> n"
  shows "\<exists>i b s'. send_sv env sink dst sv ch s = Some (Inr (UD3TN_OK, s')) \<and> one_more i b s s'
    \<and> info_bundle (ra_source_eid s) (dst @ ''/'' @ sink) (sv_payload sv ch) b
    \<and> ra_router s' = ra_router s \<and> ra_filter s' = ra_filter s \<and> ra_known s' = ra_known s \<and> ra_source_eid s' = ra_source_eid s"
proof -
  let ?n = "summary_vector_memory_size sv + 8"
  note d = agent_okD[OF assms(1)]
  have ok: "agent_ok env m ?n s" and small: "?n < 2 ^ 32" using assms(1,4) by (auto simp: agent_ok_def)
  have u: "unat (of_nat ?n :: u32) = ?n" using small by (simp add: unsigned_of_nat take_bit_nat_eq_self del: of_nat_add)
  obtain b where b: "bundle7_create_local (ra_bundle_junk env) (ra_block_junk env) (Some (sv_payload sv ch)) ?n (ra_source_eid s) (dst @ ''/'' @ sink)
        (ra_now_s env) CONFIG_ROUTING_AGENT_BUNDLE_LIFETIME_S 0 [] = (Some b, [])"
      "bundle_id b = BUNDLE_INVALID_ID" "protocol_version b = 7" "proc_flags b = 0" "source b = Some (ra_source_eid s)"
      "destination b = Some (dst @ ''/'' @ sink)" "payload_block b = Some 0" "map blk_data (blocks b) = [Some (sv_payload sv ch)]"
      "map (unat \<circ> blk_length) (blocks b) = [?n]"
    by (rule that[OF create7_ok]) (simp_all add: bundle7_recalculate_primary_block_length_def bundle_reset_internal_def u del: of_nat_add)
  obtain i b' s' where i: "agent_store env b s = Some (Inr (i, s'))" "i \<noteq> BUNDLE_INVALID_ID" "one_more i b' s s'"
      "b' = b\<lparr>bundle_id := i, creation_timestamp_ms := max 1 (ra_now_ms env), sequence_number := ucast (ra_sequence_number s),
         primary_block_length := primary_block_length b'\<rparr>"
      "ra_router s' = ra_router s" "ra_filter s' = ra_filter s" "ra_known s' = ra_known s" "ra_source_eid s' = ra_source_eid s"
    using agent_store_ok[OF ok b(2,7,9)] by blast
  have e: "send_sv env sink dst sv ch s = Some (Inr (UD3TN_OK, s'))"
    unfolding send_sv_def Let_def d(4) sv_payload_def[symmetric]
    using b(1) i(1,2) d(4) by (simp add: create_endpoint_def ra_set_allocs_id sv_const_defs)
  have "info_bundle (ra_source_eid s) (dst @ ''/'' @ sink) (sv_payload sv ch) b'"
    unfolding info_bundle_def using b length_sv_payload[OF assms(2,3)] by (subst (1 2 3 4 5 6 7) i(4)) simp
  then show ?thesis using e i by blast
qed

section \<open>Receiving a vector\<close>

text \<open>The application data of a bundle of the agent.\<close>

definition info_adu :: "eid \<Rightarrow> u8 list \<Rightarrow> bundle_adu \<Rightarrow> bool" where
  "info_adu src payload adu \<longleftrightarrow> adu_source adu = Some src \<and> adu_payload adu = Some payload \<and> unat (adu_length adu) = length payload"

lemma info_bundle_adu:
  assumes "info_bundle src dst payload b"
  shows "\<exists>adu b'. bundle_to_adu b [] = Inr (adu, b', []) \<and> info_adu src payload adu"
  using assms by (cases "blocks b")
    (auto simp: info_bundle_def bundle_to_adu_def bundle_adu_init_def payload_of_def info_adu_def unat_ucast_up)

lemma received_vector:
  assumes "info_adu src (sv_payload sv ch) adu" "sv_inv sv" "\<forall>c. ch = Some c \<longrightarrow> length c = 8"
    "summary_vector_memory_size sv + 8 < 2 ^ ra_size_bits env"
  shows "adu_sv_length env adu = summary_vector_memory_size sv"
    "\<exists>sv'. summary_vector_create_from_memory (adu_bytes adu) (adu_sv_length env adu) [] = Inr (Some sv', [])
       \<and> sv_inv sv' \<and> sv_entries sv' = sv_entries sv \<and> sv_length sv' = sv_length sv"
    "\<And>c. ch = Some c \<Longrightarrow> offered_characteristic env adu = Inr c"
proof -
  have n: "unat (adu_length adu) = summary_vector_memory_size sv + 8" and p: "adu_bytes adu = sv_payload sv ch"
    using assms(1) length_sv_payload[OF assms(2,3)] by (auto simp: info_adu_def adu_bytes_def)
  show l: "adu_sv_length env adu = summary_vector_memory_size sv"
    using n assms(4) by (simp add: adu_sv_length_def size_minus_def sv_const_defs)
  show "\<exists>sv'. summary_vector_create_from_memory (adu_bytes adu) (adu_sv_length env adu) [] = Inr (Some sv', [])
       \<and> sv_inv sv' \<and> sv_entries sv' = sv_entries sv \<and> sv_length sv' = sv_length sv"
    unfolding l p sv_payload_def by (rule memory_image(2)[OF assms(2)])
  show "offered_characteristic env adu = Inr c" if "ch = Some c" for c
    using that assms(3) memory_image(1)[OF assms(2)] by (simp add: offered_characteristic_def l p sv_payload_def sv_const_defs)
qed

lemma create_diff_granted:
  assumes "sv_inv a" "sv_inv b" "unat (sv_length a) < 2 ^ 31"
  shows "\<exists>d. summary_vector_create_diff a b [] = Inr (Some d, []) \<and> sv_inv d
    \<and> sv_entries d = filter (\<lambda>e. e \<notin> set (sv_entries b)) (sv_entries a)"
  using diff_loop_correct[OF assms(2), of "sv_entries a" "\<lparr>sv_length = 0, sv_capacity = 8, sv_entries = []\<rparr>" "[]"] assms(1,3) new_sv_inv
  by (auto simp: summary_vector_create_diff_def summary_vector_create_granted sv_inv_length) (auto simp: sv_inv_def)

definition known_entries :: "ra_env \<Rightarrow> routing_agent \<Rightarrow> summary_vector_entry list" where
  "known_entries env s = map bi_sv_entry (bundle_info_list (ra_router s))
     @ map (\<lambda>e. summary_vector_entry_from_bundle_unique_identifier (env_hal_hash (ra_router_env env)) (kb_unique_identifier e)) (ra_known s)"

lemma add_entries_append:
  "add_entries (es @ es') sv as = bindE (add_entries es sv as) (\<lambda>(res, sv', as').
     case res of UD3TN_OK \<Rightarrow> add_entries es' sv' as' | UD3TN_FAIL \<Rightarrow> Inr (UD3TN_FAIL, sv', as'))"
  by (induction es arbitrary: sv as) (auto simp: bindE_def split: sum.splits ud3tn_result.splits)

lemma agent_known_granted:
  assumes "agent_ok env m n s"
  shows "\<exists>sv. agent_create_known_sv env s = Inr (Ptr sv, s) \<and> sv_inv sv \<and> sv_entries sv = known_entries env s"
proof -
  note d = agent_okD[OF assms]
  let ?new = "\<lparr>sv_length = 0, sv_capacity = 8, sv_entries = []\<rparr> :: summary_vector"
  let ?bs = "map bi_sv_entry (bundle_info_list (ra_router s))"
  let ?ks = "map (\<lambda>e. summary_vector_entry_from_bundle_unique_identifier (env_hal_hash (ra_router_env env)) (kb_unique_identifier e)) (ra_known s)"
  have l: "\<forall>e \<in> set (?bs @ ?ks). length e = SUMMARY_VECTOR_ENTRY_HASH_LENGTH"
    using d(2) router_invD(1)[OF d(1)]
    by (auto simp: env_ok_def list_ok_def summary_vector_entry_from_bundle_unique_identifier_def sv_const_defs)
  obtain sv where sv: "add_entries (?bs @ ?ks) ?new [] = Inr (UD3TN_OK, sv, [])" "sv_inv sv" "sv_entries sv = ?bs @ ?ks"
    using add_entries_granted[OF new_sv_inv _ l] assms by (auto simp: agent_ok_def)
  obtain sv1 where sv1: "add_entries ?bs ?new [] = Inr (UD3TN_OK, sv1, [])"
    using collect_granted[OF router_invD(1)[OF d(1)], of "bundle_info_list (ra_router s)"] by auto
  have c: "create_known_sv (ra_router s) = Inr (Ptr sv1, ra_router s)"
    using sv1 d(4) by (simp add: create_known_sv_def summary_vector_create_granted r_allocs_id)
  have "add_entries ?ks sv1 [] = Inr (UD3TN_OK, sv, [])" using sv(1) sv1 by (simp add: add_entries_append)
  then show ?thesis using c d(4) sv(2,3) by (auto simp: agent_create_known_sv_def router_create_known_sv_def known_entries_def ra_set_allocs_id)
qed

lemma stripped_source:
  assumes "plain_eid eid" "src = eid @ ''/'' @ ROUTING_AGENT_SINK_PREFIX"
  shows "routing_agent_create_eid_from_info_bundle_eid src [] = Inr (eid, [])"
proof -
  have "strstr (eid @ (''/'' @ ROUTING_AGENT_SINK_PREFIX) @ '''') (''/'' @ ROUTING_AGENT_SINK_PREFIX) = Some (length eid)"
    by (rule strstr_at_end) (use assms(1) in \<open>simp only: plain_eid_def Let_def\<close>)
  then show ?thesis by (simp add: routing_agent_create_eid_from_info_bundle_eid_def assms(2))
qed

lemma agent_ok_less: "agent_ok env m n s \<Longrightarrow> k \<le> n \<Longrightarrow> agent_ok env m k s"
  by (auto simp: agent_ok_def)

lemma on_offer_ok:
  assumes "agent_ok env m n s" "info_adu src (sv_payload offer (Some ch)) adu" "sv_inv offer" "length ch = 8" "plain_eid eid"
    "src = eid @ ''/'' @ ROUTING_AGENT_SINK_PREFIX" "summary_vector_memory_size offer + 8 \<le> n" "n < 2 ^ ra_size_bits env"
  shows "\<exists>request i b s'. on_offer_msg env adu s = Some (Inr s') \<and> one_more i b s s' \<and> sv_inv request
    \<and> sv_entries request = filter (\<lambda>e. e \<notin> set (known_entries env s)) (sv_entries offer)
    \<and> info_bundle (ra_source_eid s) (eid @ ''/'' @ ROUTING_AGENT_SINK_REQUEST) (sv_payload request None) b
    \<and> (sv_entries request = [] \<and> nf_characteristics (ra_filter s) \<noteq> [] \<longrightarrow> nb_sv_ch_filter_contains ch (ra_filter s'))
    \<and> ra_router s' = ra_router s"
proof -
  note d = agent_okD[OF assms(1)]
  have ch: "\<forall>c. Some ch = Some c \<longrightarrow> length c = 8" using assms(4) by simp
  have sz: "summary_vector_memory_size offer + 8 < 2 ^ ra_size_bits env" using assms(7,8) by simp
  note rv = received_vector[OF assms(2,3) ch sz]
  obtain sv where sv: "summary_vector_create_from_memory (adu_bytes adu) (adu_sv_length env adu) [] = Inr (Some sv, [])"
    "sv_inv sv" "sv_entries sv = sv_entries offer" "sv_length sv = sv_length offer" using rv(2) by blast
  obtain known where kn: "agent_create_known_sv env s = Inr (Ptr known, s)" "sv_inv known" "sv_entries known = known_entries env s"
    using agent_known_granted[OF assms(1)] by blast
  have "n < 2 ^ 32" using assms(1) by (simp add: agent_ok_def)
  then have len: "unat (sv_length sv) < 2 ^ 31" using assms(7) sv(4) by (simp add: summary_vector_memory_size_def sv_const_defs)
  obtain rq where rq: "summary_vector_create_diff sv known [] = Inr (Some rq, [])" "sv_inv rq"
      "sv_entries rq = filter (\<lambda>e. e \<notin> set (known_entries env s)) (sv_entries offer)"
    using create_diff_granted[OF sv(2) kn(2) len] kn(3) sv(3) by auto
  have empty: "sv_length rq = 0 \<longleftrightarrow> sv_entries rq = []" using rq(2) by (auto simp: sv_inv_def unat_eq_0)
  obtain f where f: "(if sv_length rq = 0 then nb_sv_ch_filter_add (Inr ch) (ra_filter s) else Inr (ra_filter s)) = Inr f" "filter_ok f"
      "sv_entries rq = [] \<and> nf_characteristics (ra_filter s) \<noteq> [] \<longrightarrow> nb_sv_ch_filter_contains ch f"
  proof (cases "sv_length rq = 0")
    case True
    then show ?thesis using filter_add_ok[of "ra_filter s" ch] assms(1,4) that by (auto simp: agent_ok_def)
  qed (use empty that assms(1) in \<open>auto simp: agent_ok_def\<close>)
  have le: "summary_vector_memory_size rq + 8 \<le> n" (is "?k \<le> n")
  proof -
    have "length (sv_entries rq) \<le> length (sv_entries offer)" unfolding rq(3) by (rule length_filter_le)
    then have "summary_vector_memory_size rq \<le> summary_vector_memory_size offer"
      using rq(2) assms(3) by (simp add: summary_vector_memory_size_def sv_inv_def)
    then show ?thesis using assms(7) by simp
  qed
  define s1 where "s1 = s\<lparr>ra_filter := f\<rparr>"
  have ok: "agent_ok env m ?k s1" using agent_ok_less[OF assms(1) le] f(2) by (simp add: agent_ok_def s1_def)
  obtain i b s' where i: "send_sv env ROUTING_AGENT_SINK_REQUEST eid rq None s1 = Some (Inr (UD3TN_OK, s'))" "one_more i b s1 s'"
      "info_bundle (ra_source_eid s1) (eid @ ''/'' @ ROUTING_AGENT_SINK_REQUEST) (sv_payload rq None) b" "ra_router s' = ra_router s1" "ra_filter s' = ra_filter s1"
    using send_sv_ok[OF ok rq(2), of None ROUTING_AGENT_SINK_REQUEST eid] by auto
  have src: "adu_source adu = Some src" using assms(2) by (simp add: info_adu_def)
  have e: "on_offer_msg env adu s = Some (Inr s')"
    unfolding on_offer_msg_def src deref_simps bindR_simps d(4) stripped_source[OF assms(5,6)] prod.case sv(1) Let_def option.case
      ra_set_allocs_id[OF d(4)] kn(1) cptr.case rq(1) rv(3)[OF refl] f(1) s1_def[symmetric] i(1) ..
  have "one_more i b s s'" using i(2) by (simp add: one_more_def s1_def)
  then show ?thesis using e rq i f(3) by (intro exI[of _ rq] exI[of _ i] exI[of _ b] exI[of _ s']) (simp add: s1_def)
qed

lemma request_recorded:
  assumes "router_inv m r" "env_ok env" "router_contact_htab r eid = Some p" "sv_inv sv"
  shows "\<exists>r'. router_update_request_sv env eid sv r = Inr r' \<and> router_inv m r' \<and> map_option rc_request_sv (rc_store r' p) = Some (Some sv)"
  using router_update_request_sv_inv[OF assms(1,2,4), of eid] assms(3) by blast

lemma on_request_ok:
  assumes "router_inv m (ra_router s)" "ra_allocs s = []" "env_ok (ra_router_env env)" "info_adu src (sv_payload request None) adu" "sv_inv request" "plain_eid eid"
    "src = eid @ ''/'' @ ROUTING_AGENT_SINK_PREFIX" "summary_vector_memory_size request + 8 < 2 ^ ra_size_bits env"
    "router_contact_htab (ra_router s) eid = Some p"
  shows "\<exists>s' sv. on_request_msg env adu s = Inr s' \<and> router_inv m (ra_router s')
    \<and> map_option rc_request_sv (rc_store (ra_router s') p) = Some (Some sv) \<and> sv_inv sv \<and> sv_entries sv = sv_entries request"
proof -
  note rv = received_vector[OF assms(4,5) _ assms(8), simplified]
  obtain sv where sv: "summary_vector_create_from_memory (adu_bytes adu) (adu_sv_length env adu) [] = Inr (Some sv, [])"
    "sv_inv sv" "sv_entries sv = sv_entries request" using rv(2) by blast
  obtain r' where r: "router_update_request_sv (ra_router_env env) eid sv (ra_router s) = Inr r'" "router_inv m r'"
      "map_option rc_request_sv (rc_store r' p) = Some (Some sv)"
    using request_recorded[OF assms(1,3,9) sv(2)] by blast
  have src: "adu_source adu = Some src" using assms(4) by (simp add: info_adu_def)
  have "on_request_msg env adu s = Inr (s\<lparr>ra_router := r'\<rparr>)"
    unfolding on_request_msg_def src deref_simps bindE_simps assms(2) stripped_source[OF assms(6,7)] prod.case sv(1) Let_def option.case
      ra_set_allocs_id[OF assms(2)] r(1) ..
  then show ?thesis using r sv by auto
qed

section \<open>One round of the exchange\<close>


definition sample_ra_env :: ra_env where
  "sample_ra_env = \<lparr>ra_local_eid = ''dtn:a'', ra_now_s = 50, ra_now_ms = 50000, ra_random = 0, ra_router_env = sample_router_env,
     ra_hashlittle = (\<lambda>_. 0), ra_size_bits = 32, ra_fake = \<lparr>fake_interval = 0, fake_multiplier = 0, fake_size_min = 0, fake_size_max = 0, fake_lifetime = 0\<rparr>,
     ra_bundle_junk = sample_bundle, ra_block_junk = sample_block, ra_fresh = (\<lambda>_. 7), ra_on_offer = 1, ra_on_request = 2, ra_config = 3\<rparr>"

definition sample_agent :: "eid \<Rightarrow> routing_agent" where
  "sample_agent eid = \<lparr>ra_source_eid = eid @ ''/'' @ ROUTING_AGENT_SINK_PREFIX, ra_contact_htab = htab_init 2, ra_sequence_number = 1, ra_num_generated = 0,
     ra_last_sv_update_ms = 0, ra_filter = nb_sv_ch_filter_init 2, ra_own_sv_characteristic = summary_vector_characteristic_init,
     ra_router = sample_router, ra_known = [], ra_heap = Map.empty, ra_store = storage_init, ra_signals = []\<rparr>"

lemma sample_agent_ok: "agent_ok sample_ra_env 3 24 (sample_agent eid)"
  using filter_init_ok[of 2] store_inv_init
  by (simp add: agent_ok_def sample_agent_def sample_ra_env_def storage_init_def sample_router_def[THEN arg_cong[of _ _ bundle_info_list]])


section \<open>Periodic update and contacts\<close>

text \<open>
  The periodic update publishes the characteristic of exactly the bundles the router holds, and the node ignores neighbours with the same one.
\<close>

lemma routing_agent_update_publishes:
  assumes "agent_ok env m n s" "fake_interval (ra_fake env) = 0" "ra_last_sv_update_ms s + 1000 < ra_now_ms env"
    "length (ra_own_sv_characteristic s) = 8"
  shows "\<exists>sv s'. sv_inv sv \<and> sv_entries sv = map bi_sv_entry (bundle_info_list (ra_router s)) \<and> routing_agent_update env s = Some (Inr s')
    \<and> ra_own_sv_characteristic s' = summary_vector_characteristic_calculate sv \<and> ra_last_sv_update_ms s' = ra_now_ms env
    \<and> (nf_characteristics (ra_filter s) \<noteq> [] \<longrightarrow> nb_sv_ch_filter_contains (summary_vector_characteristic_calculate sv) (ra_filter s'))
    \<and> agent_ok env m n s'"
proof -
  note d = agent_okD[OF assms(1)]
  obtain sv where sv: "create_known_sv (ra_router s) = Inr (Ptr sv, ra_router s)" "sv_inv sv"
      "sv_entries sv = map bi_sv_entry (bundle_info_list (ra_router s))" using create_known_sv_granted[OF d(1)] by blast
  have len: "length (summary_vector_characteristic_calculate sv) = 8"
    using sv(2) by (simp add: characteristic_xor_all sv_inv_def length_xor_all summary_vector_characteristic_init_def sv_const_defs)
  have fo: "filter_ok (ra_filter s)" using assms(1) by (simp add: agent_ok_def)
  obtain f where f: "nb_sv_ch_filter_add (Inr (summary_vector_characteristic_calculate sv)) (ra_filter s) = Inr f" "filter_ok f"
      "nf_characteristics (ra_filter s) \<noteq> [] \<longrightarrow> nb_sv_ch_filter_contains (summary_vector_characteristic_calculate sv) f"
    using filter_add_ok[OF fo len] by blast
  have own: "ra_own_sv_characteristic (nb_ble_set_own_sv_characteristic c s) = c" if "length c = 8" for c
    using that assms(4) by (simp add: nb_ble_set_own_sv_characteristic_def summary_vector_characteristic_equals_def sv_const_defs)
  let ?c = "summary_vector_characteristic_calculate sv" and ?o = "s\<lparr>ra_router := ra_router s\<rparr>"
  have o: "?o = s" by simp
  have fl: "ra_filter (nb_ble_set_own_sv_characteristic ?c s) = ra_filter s" by (simp add: nb_ble_set_own_sv_characteristic_def)
  have e: "routing_agent_update env s = Some (Inr ((nb_ble_set_own_sv_characteristic ?c s)\<lparr>ra_filter := f, ra_last_sv_update_ms := ra_now_ms env\<rparr>))"
    using assms(2,3) by (simp add: routing_agent_update_def router_create_known_sv_def sv(1) o fl f(1) Let_def)
  have "agent_ok env m n (nb_ble_set_own_sv_characteristic ?c s)" using assms(1) by (simp add: agent_ok_def nb_ble_set_own_sv_characteristic_def)
  then have "agent_ok env m n ((nb_ble_set_own_sv_characteristic ?c s)\<lparr>ra_filter := f, ra_last_sv_update_ms := ra_now_ms env\<rparr>)"
    using f(2) by (simp add: agent_ok_def)
  then show ?thesis using sv(2,3) e f(3) own[OF len] by (intro exI[of _ sv]) simp
qed

text \<open>
  The agent's table has an entry for a neighbour exactly while its last event had it active. Events of neighbours without an
  endpoint identifier change nothing.
\<close>

lemma contact_event_table:
  assumes "htab_inv (ra_hashlittle env) (ra_contact_htab s)" "ptr_ok (ra_contact_htab s) kp eid" "ra_allocs s = []" "eid \<noteq> EID_NONE"
  shows "\<exists>tab. routing_agent_handle_contact_event env contact kp (Some eid) active new s = Inr (s\<lparr>ra_contact_htab := tab\<rparr>)
    \<and> htab_inv (ra_hashlittle env) tab
    \<and> htab_map (ra_hashlittle env) tab = (htab_map (ra_hashlittle env) (ra_contact_htab s))(eid :=
        if \<not> active then None else if htab_map (ra_hashlittle env) (ra_contact_htab s) eid = None then Some contact
        else htab_map (ra_hashlittle env) (ra_contact_htab s) eid)"
proof -
  let ?m = "htab_map (ra_hashlittle env) (ra_contact_htab s)"
  note g = htab_get_map[OF assms(1,2)]
  have same: "s\<lparr>ra_contact_htab := ra_contact_htab s\<rparr> = s" by simp
  consider (add) "active" "?m eid = None" | (drop) "\<not> active" "?m eid \<noteq> None" | (keep) "active \<longleftrightarrow> ?m eid \<noteq> None" by blast
  then show ?thesis
  proof cases
    case add
    obtain e tab where t: "htab_add (ra_hashlittle env) (ra_contact_htab s) kp eid contact new [] = Inr (Some e, tab, [])"
        "htab_inv (ra_hashlittle env) tab" "\<forall>j. htab_map (ra_hashlittle env) tab j = (if j = eid then Some contact else ?m j)"
      using htab_add_new[OF assms(1,2) add(2)] by blast
    have "routing_agent_handle_contact_event env contact kp (Some eid) active new s = Inr (s\<lparr>ra_contact_htab := tab\<rparr>)"
      using add assms(3,4) g t(1) by (simp add: routing_agent_handle_contact_event_def ra_set_allocs_id)
    then show ?thesis using add t(2,3) by (intro exI[of _ tab]) (auto simp: fun_eq_iff)
  next
    case drop
    obtain tab where t: "htab_remove (ra_hashlittle env) (ra_contact_htab s) kp eid = Inr (?m eid, tab)"
        "htab_inv (ra_hashlittle env) tab" "\<forall>j. htab_map (ra_hashlittle env) tab j = (if j = eid then None else ?m j)"
      using htab_remove_map[OF assms(1,2)] by blast
    have "routing_agent_handle_contact_event env contact kp (Some eid) active new s = Inr (s\<lparr>ra_contact_htab := tab\<rparr>)"
      using drop assms(4) g t(1) by (simp add: routing_agent_handle_contact_event_def)
    then show ?thesis using drop t(2,3) by (intro exI[of _ tab]) (auto simp: fun_eq_iff)
  next
    case keep
    then have "routing_agent_handle_contact_event env contact kp (Some eid) active new s = Inr s"
      using assms(4) g by (cases "?m eid") (simp_all add: routing_agent_handle_contact_event_def)
    then show ?thesis using keep assms(1) by (intro exI[of _ "ra_contact_htab s"]) (auto simp: same fun_eq_iff)
  qed
qed

end
