(* ===== verification/Node_Inv.thy ===== *)
theory Node_Inv
  imports Node
begin

text \<open>
  Proofs about nodes and contacts: the list sort, endpoint lists as sets, union and difference of contact lists, the verification of a node, ordered lists,
  capacities and the coding of lists of endpoint identifiers.
\<close>

section \<open>The sort\<close>

lemma mset_llsort_merge [simp]: "mset (llsort_merge key p q) = mset p + mset q"
  by (induction key p q rule: llsort_merge.induct) auto

lemma set_llsort_merge [simp]: "set (llsort_merge key p q) = set p \<union> set q"
  by (induction key p q rule: llsort_merge.induct) auto

lemma sorted_llsort_merge: "sorted (map key p) \<Longrightarrow> sorted (map key q) \<Longrightarrow> sorted (map key (llsort_merge key p q))"
  by (induction key p q rule: llsort_merge.induct) (auto simp: not_le intro: order_trans less_imp_le)

lemma stable_llsort_merge: "sorted (map key p) \<Longrightarrow> sorted (map key q) \<Longrightarrow>
    filter (\<lambda>z. c = key z) (llsort_merge key p q) = filter (\<lambda>z. c = key z) p @ filter (\<lambda>z. c = key z) q"
proof (induction key p q rule: llsort_merge.induct)
  case (3 key x p y q)
  have "filter (\<lambda>z. key y = key z) (x # p) = []" if "key y < key x" using that 3(3) by (auto simp: filter_empty_conv)
  then show ?case using 3 by (cases "c = key y"; cases "key x \<le> key y") (auto simp: not_le)
qed auto

text \<open>Runs of \<open>n\<close> entries are sorted.\<close>

definition runs :: "('a \<Rightarrow> 'k::linorder) \<Rightarrow> nat \<Rightarrow> 'a list \<Rightarrow> bool" where
  "runs key n xs \<longleftrightarrow> (\<forall>i. sorted (map key (take n (drop (i * n) xs))))"

lemma runs_drop: "runs key n xs \<Longrightarrow> runs key n (drop (j * n) xs)"
  unfolding runs_def drop_drop by (metis add_mult_distrib)

lemma runs_append:
  assumes "sorted (map key xs)" "length xs \<le> n" "ys = [] \<or> length xs = n" "runs key n ys"
  shows "runs key n (xs @ ys)"
  unfolding runs_def
proof
  fix i
  show "sorted (map key (take n (drop (i * n) (xs @ ys))))"
  proof (cases i)
    case 0
    then show ?thesis using assms(1-3) by auto
  next
    case (Suc j)
    then show ?thesis using assms(2-4) by (auto simp: runs_def)
  qed
qed

lemma llsort_pass_correct:
  assumes "runs key (2 ^ k) xs"
  shows "mset (fst (llsort_pass key k xs)) = mset xs" "runs key (2 ^ Suc k) (fst (llsort_pass key k xs))"
    "filter (\<lambda>z. c = key z) (fst (llsort_pass key k xs)) = filter (\<lambda>z. c = key z) xs"
  using assms
proof (induction key k xs rule: llsort_pass.induct)
  case (1 key k xs)
  let ?n = "2 ^ k :: nat" and ?q = "drop (2 ^ k) xs"
  let ?rest = "drop ?n ?q" and ?m = "llsort_merge key (take ?n xs) (take ?n ?q)"
  have r: "runs key ?n ?rest" if "runs key ?n xs" using runs_drop[OF that, of 2] by (simp add: mult_2)
  have s: "sorted (map key (take ?n xs))" "sorted (map key (take ?n ?q))" if "runs key ?n xs"
    using that[unfolded runs_def, rule_format, of 0] that[unfolded runs_def, rule_format, of 1] by simp_all
  have step: "xs \<noteq> [] \<Longrightarrow> fst (llsort_pass key k xs) = ?m @ fst (llsort_pass key k ?rest)"
    by (subst llsort_pass.simps) (simp add: Let_def split: prod.split)
  have parts: "xs = take ?n xs @ take ?n ?q @ ?rest" by (metis append_take_drop_id)
  note IH = "1.IH"[OF _ refl r]
  { case 1
    then show ?case using IH(1) step arg_cong[OF parts, of mset] by (cases "xs = []") (auto simp: add.assoc)
  next
    case 2
    show ?case
    proof (cases "xs = []")
      case True
      then show ?thesis by (simp add: runs_def)
    next
      case False
      have "length ?m \<le> 2 ^ Suc k" by simp
      moreover have "fst (llsort_pass key k ?rest) = [] \<or> length ?m = 2 ^ Suc k"
        using length_llsort_pass[of key k ?rest] by (cases "?rest = []") (auto simp: min_def)
      ultimately show ?thesis unfolding step[OF False]
        using runs_append[OF sorted_llsort_merge[OF s[OF 2]]] IH(2)[OF False 2] by simp
    qed
  next
    case 3
    then show ?case using IH(3) step stable_llsort_merge[OF s[OF 3], of c] arg_cong[OF parts, of "filter (\<lambda>z. c = key z)"]
      by (cases "xs = []") auto
  }
qed

lemma llsort_pass_once: "snd (llsort_pass key k xs) \<le> 1 \<Longrightarrow> length xs \<le> 2 ^ Suc k"
proof (rule ccontr)
  assume a: "snd (llsort_pass key k xs) \<le> 1" "\<not> length xs \<le> 2 ^ Suc k"
  let ?rest = "drop (2 ^ k) (drop (2 ^ k) xs)"
  have n: "snd (llsort_pass key k ys) = Suc (snd (llsort_pass key k (drop (2 ^ k) (drop (2 ^ k) ys))))" if "ys \<noteq> []" for ys
    using that by (subst llsort_pass.simps) (simp add: Let_def split: prod.split)
  have "?rest \<noteq> []" "xs \<noteq> []" using a(2) by auto
  then show False using n[of xs] n[of ?rest] a(1) by simp
qed

lemma llsort_loop_correct:
  assumes "runs key (2 ^ k) xs"
  shows "mset (llsort_loop key k xs) = mset xs \<and> sorted (map key (llsort_loop key k xs))
    \<and> filter (\<lambda>z. c = key z) (llsort_loop key k xs) = filter (\<lambda>z. c = key z) xs"
  using assms
proof (induction key k xs rule: llsort_loop.induct)
  case (1 key k xs)
  note p = llsort_pass_correct[OF 1(2)]
  obtain ys n where yn: "llsort_pass key k xs = (ys, n)" by fastforce
  show ?case
  proof (cases "n \<le> 1")
    case True
    then have "length ys \<le> 2 ^ Suc k" using llsort_pass_once[of key k xs] length_llsort_pass[of key k xs] yn by simp
    then have "sorted (map key ys)" using p(2)[unfolded runs_def, rule_format, of 0] yn by simp
    then show ?thesis using True p(1,3) yn by (subst (1 2 3) llsort_loop.simps) simp
  next
    case False
    then have "llsort_loop key k xs = llsort_loop key (Suc k) ys" using yn by (subst llsort_loop.simps) simp
    then show ?thesis using 1(1)[OF yn[symmetric] refl False] p yn by simp
  qed
qed

lemma llsort_sort_key: "llsort key xs = sort_key key xs"
proof (cases "xs = []")
  case False
  have r: "runs key (2 ^ 0) xs" unfolding runs_def
  proof
    fix i
    show "sorted (map key (take (2 ^ 0) (drop (i * 2 ^ 0) xs)))" by (cases "drop i xs") auto
  qed
  note l = llsort_loop_correct[OF r]
  show ?thesis using False l by (simp add: llsort_def) (rule sym, rule properties_for_sort_key, auto)
qed (simp add: llsort_def)

text \<open>
  The list sort is the stable sort: it ends, its result is a permutation in ascending order, and entries with equal keys keep their order.
\<close>

theorem llsort_is_stable_sort:
  "mset (llsort key xs) = mset xs \<and> sorted (map key (llsort key xs))
    \<and> (\<forall>c. filter (\<lambda>x. key x = c) (llsort key xs) = filter (\<lambda>x. key x = c) xs)"
  by (simp add: llsort_sort_key sort_key_stable)

section \<open>Endpoint lists are sets\<close>

text \<open>The entries are ordered by address and their identifiers differ.\<close>

definition endpoints_ok :: "endpoint_list \<Rightarrow> bool" where
  "endpoints_ok l \<longleftrightarrow> sorted_wrt (<) (map ep_ptr l) \<and> distinct (map ep_eid l)"

abbreviation eids :: "endpoint_list \<Rightarrow> eid set" where
  "eids l \<equiv> ep_eid ` set l"

lemma endpoint_list_sorted_iff: "endpoint_list_sorted l \<longleftrightarrow> sorted (map ep_ptr l)"
proof -
  have "endpoints_sorted_from n l \<longleftrightarrow> (\<forall>x \<in> set l. n \<le> ep_ptr x) \<and> sorted (map ep_ptr l)" for n
    by (induction n l rule: endpoints_sorted_from.induct) auto
  then show ?thesis by (simp add: endpoint_list_sorted_def)
qed

lemma endpoint_slot_None: "endpoint_slot l e i t = None \<longleftrightarrow> (\<exists>x \<in> set l. ep_ptr x = ep_ptr e \<or> ep_eid x = ep_eid e)"
  by (induction l e i t rule: endpoint_slot.induct) auto

lemma endpoint_slot_target: "endpoint_slot l e i (Some t) = Some j \<Longrightarrow> j = t"
  by (induction l arbitrary: i) (auto split: if_splits)

lemma endpoint_slot_Some:
  "endpoint_slot l e i None = Some j \<Longrightarrow> i \<le> j \<and> j - i \<le> length l \<and> (\<forall>x \<in> set (take (j - i) l). \<not> ep_ptr x > ep_ptr e)
     \<and> (drop (j - i) l \<noteq> [] \<longrightarrow> ep_ptr (hd (drop (j - i) l)) > ep_ptr e)"
proof (induction l arbitrary: i)
  case (Cons x l)
  show ?case
  proof (cases "ep_ptr x > ep_ptr e")
    case True
    then show ?thesis using Cons.prems endpoint_slot_target[of l e "Suc i" i j] by (auto split: if_splits)
  next
    case False
    then have s: "endpoint_slot l e (Suc i) None = Some j" using Cons.prems by (auto split: if_splits)
    have "j - i = Suc (j - Suc i)" using Cons.IH[OF s] by (simp add: Suc_diff_Suc)
    then show ?thesis using Cons.IH[OF s] False by auto
  qed
qed auto

lemma endpoint_list_add_correct:
  assumes "endpoints_ok l" "\<forall>x \<in> set l. ep_ptr x \<noteq> ep_ptr e"
  shows "\<exists>r l'. endpoint_list_add l e [] = (r, l', []) \<and> endpoints_ok l' \<and> eids l' = insert (ep_eid e) (eids l) \<and> set l' \<subseteq> insert e (set l)
    \<and> (r = UD3TN_OK \<longleftrightarrow> ep_eid e \<notin> eids l)"
proof (cases "endpoint_slot l e 0 None")
  case None
  then have "ep_eid e \<in> eids l" using assms(2) unfolding endpoint_slot_None by (metis imageI)
  moreover have "endpoint_list_add l e [] = (UD3TN_FAIL, l, [])" using None by (simp add: endpoint_list_add_def)
  ultimately show ?thesis using assms(1) by auto
next
  case (Some i)
  note s = endpoint_slot_Some[OF Some, simplified]
  have d: "ep_eid e \<notin> eids l" using endpoint_slot_None[of l e 0 None] Some by auto
  have st: "set (take i l @ e # drop i l) = insert e (set l)" by (metis append_take_drop_id list.simps(15) set_append Un_insert_right)
  have sp: "sorted_wrt (<) (map ep_ptr (take i l @ drop i l))" using assms(1) by (simp only: append_take_drop_id endpoints_ok_def)
  have so: "sorted_wrt (<) (map ep_ptr (take i l))" "sorted_wrt (<) (map ep_ptr (drop i l))" "\<forall>x \<in> set (take i l). \<forall>y \<in> set (drop i l). ep_ptr x < ep_ptr y"
    using sp unfolding map_append sorted_wrt_append by auto
  have hd: "\<forall>y \<in> set (drop i l). ep_ptr e < ep_ptr y" using s so(2) by (cases "drop i l") auto
  have tk: "\<forall>x \<in> set (take i l). ep_ptr x < ep_ptr e" using s assms(2) set_take_subset[of i l] by (metis in_mono linorder_neqE_nat)
  have "sorted_wrt (<) (map ep_ptr (take i l @ e # drop i l))" using so hd tk by (simp add: sorted_wrt_append)
  moreover have dd: "distinct (map ep_eid (take i l @ drop i l))" using assms(1) by (simp only: append_take_drop_id endpoints_ok_def)
  have "ep_eid e \<notin> eids (take i l)" "ep_eid e \<notin> eids (drop i l)" using d set_take_subset[of i l] set_drop_subset[of i l] by blast+
  then have "distinct (map ep_eid (take i l @ e # drop i l))" using dd unfolding map_append distinct_append by auto
  ultimately have ok: "endpoints_ok (take i l @ e # drop i l)" by (simp add: endpoints_ok_def)
  have "endpoint_list_add l e [] = (UD3TN_OK, take i l @ e # drop i l, [])" using Some by (simp add: endpoint_list_add_def)
  then show ?thesis using ok st d by (metis image_insert subset_refl)
qed

lemma endpoint_list_union_correct:
  assumes "endpoints_ok a" "distinct (map ep_ptr b)" "\<forall>x \<in> set a. ep_ptr x \<notin> ep_ptr ` set b"
  shows "\<exists>l. endpoint_list_union a b [] = (l, []) \<and> endpoints_ok l \<and> eids l = eids a \<union> eids b \<and> set l \<subseteq> set a \<union> set b"
  using assms
proof (induction b arbitrary: a)
  case (Cons e b)
  have "\<forall>x \<in> set a. ep_ptr x \<noteq> ep_ptr e" using Cons.prems(3) by simp
  from endpoint_list_add_correct[OF Cons.prems(1) this] obtain r a' where a: "endpoint_list_add a e [] = (r, a', [])" "endpoints_ok a'"
      "eids a' = insert (ep_eid e) (eids a)" "set a' \<subseteq> insert e (set a)"
    by (elim exE conjE) (rule that)
  have "\<forall>x \<in> set a'. ep_ptr x \<notin> ep_ptr ` set b"
  proof
    fix x assume "x \<in> set a'"
    then have "x = e \<or> x \<in> set a" using a(4) by blast
    then show "ep_ptr x \<notin> ep_ptr ` set b" using Cons.prems(2,3) by auto
  qed
  then obtain l where l: "endpoint_list_union a' b [] = (l, [])" "endpoints_ok l" "eids l = eids a' \<union> eids b" "set l \<subseteq> set a' \<union> set b"
    using Cons.IH[OF a(2)] Cons.prems(2) by auto
  then show ?case using a by (intro exI[of _ l]) auto
qed auto

lemma endpoint_list_remove_filter:
  "distinct (map ep_eid a) \<Longrightarrow> endpoint_list_remove a s = (if s \<in> eids a then UD3TN_OK else UD3TN_FAIL, filter (\<lambda>x. ep_eid x \<noteq> s) a)"
proof (induction a s rule: endpoint_list_remove.induct)
  case (2 x xs eid)
  have "filter (\<lambda>y. ep_eid y \<noteq> ep_eid x) xs = xs" using 2(2) by (auto simp: filter_id_conv image_iff)
  then show ?case using 2 by auto
qed auto

lemma endpoint_list_difference_filter:
  "distinct (map ep_eid a) \<Longrightarrow> endpoint_list_difference a b = filter (\<lambda>x. ep_eid x \<notin> eids b) a"
proof (induction a b rule: endpoint_list_difference.induct)
  case (2 a e es)
  have "distinct (map ep_eid (filter P a))" for P using 2(2) by (rule distinct_map_filter)
  then show ?case using 2 by (simp add: endpoint_list_remove_filter conj_commute)
qed simp

lemma endpoints_ok_filter: "endpoints_ok l \<Longrightarrow> endpoints_ok (filter P l)"
  by (simp add: endpoints_ok_def distinct_map_filter sorted_wrt_map sorted_wrt_filter)

lemma endpoint_list_strip_props:
  "eids (endpoint_list_strip l) = eids l \<and> set (endpoint_list_strip l) \<subseteq> set l \<and> distinct (map ep_eid (endpoint_list_strip l))
   \<and> (distinct (map ep_ptr l) \<longrightarrow> distinct (map ep_ptr (endpoint_list_strip l)))"
proof (induction l rule: endpoint_list_strip.induct)
  case (2 e es)
  let ?f = "filter (\<lambda>x. ep_eid x \<noteq> ep_eid e) es"
  have "eids (endpoint_list_strip (e # es)) = eids (e # es)" using 2 by auto
  moreover have "distinct (map ep_ptr es) \<longrightarrow> distinct (map ep_ptr ?f)" by (simp add: distinct_map_filter)
  moreover have "ep_eid e \<notin> eids ?f" by auto
  moreover have "ep_ptr ` set (endpoint_list_strip ?f) \<subseteq> ep_ptr ` set es" using 2 by auto
  ultimately show ?case using 2 by (simp only: endpoint_list_strip.simps) (simp, blast)
qed simp

lemma endpoint_list_strip_and_sort_ok:
  assumes "distinct (map ep_ptr l)"
  shows "endpoints_ok (endpoint_list_strip_and_sort l)" "eids (endpoint_list_strip_and_sort l) = eids l"
proof -
  note s = endpoint_list_strip_props[of l]
  have d: "distinct (map ep_ptr (endpoint_list_strip_and_sort l))" "distinct (map ep_eid (endpoint_list_strip_and_sort l))"
    using s assms unfolding endpoint_list_strip_and_sort_def llsort_sort_key by (simp_all add: distinct_map)
  moreover have "sorted (map ep_ptr (endpoint_list_strip_and_sort l))"
    unfolding endpoint_list_strip_and_sort_def llsort_sort_key by simp
  ultimately show "endpoints_ok (endpoint_list_strip_and_sort l)" by (simp add: endpoints_ok_def strict_sorted_iff)
  show "eids (endpoint_list_strip_and_sort l) = eids l"
    using s unfolding endpoint_list_strip_and_sort_def llsort_sort_key by simp
qed

section \<open>Union of contact lists\<close>

text \<open>
  The contacts of the lists, with \<open>g\<close> what the heap holds at their addresses: each list is in strictly ascending order of the start times, as for lists that
  \<open>node_prepare_and_verify\<close> has accepted.
\<close>

abbreviation from_of :: "(nat \<Rightarrow> contact) \<Rightarrow> nat \<Rightarrow> u64" where
  "from_of g p \<equiv> c_from (g p)"

definition holds :: "(nat \<Rightarrow> contact) \<Rightarrow> contact_list \<Rightarrow> contact_heap \<Rightarrow> bool" where
  "holds g l h \<longleftrightarrow> (\<forall>p \<in> set l. h p = Some (g p))"

definition ascending :: "(nat \<Rightarrow> contact) \<Rightarrow> contact_list \<Rightarrow> bool" where
  "ascending g l \<longleftrightarrow> sorted_wrt (\<lambda>p q. from_of g p < from_of g q) l"

text \<open>The contact of the other list with the same start and end.\<close>

definition same_window :: "(nat \<Rightarrow> contact) \<Rightarrow> contact_list \<Rightarrow> nat \<Rightarrow> nat option" where
  "same_window g b p = find (\<lambda>q. c_from (g q) = c_from (g p) \<and> c_to (g q) = c_to (g p)) b"

definition merged :: "contact \<Rightarrow> contact \<Rightarrow> contact" where
  "merged old new = fst (snd (merge_contacts old new []))"

definition union_contact :: "(nat \<Rightarrow> contact) \<Rightarrow> contact_list \<Rightarrow> nat \<Rightarrow> contact" where
  "union_contact g b p = (case same_window g b p of None \<Rightarrow> g p | Some q \<Rightarrow> merged (g p) (g q))"

definition rate_changes :: "(nat \<Rightarrow> contact) \<Rightarrow> contact_list \<Rightarrow> nat \<Rightarrow> bool" where
  "rate_changes g b p \<longleftrightarrow> (case same_window g b p of None \<Rightarrow> False | Some q \<Rightarrow> c_bitrate (g p) \<noteq> c_bitrate (g q))"

lemma contact_list_sorted_holds:
  "holds g l h \<Longrightarrow> ascending g l \<Longrightarrow> contact_list_sorted h l True = Inr True"
proof -
  have "contacts_sorted_from h True n l = Inr True" if "holds g l h" "ascending g l" "\<forall>p \<in> set l. n \<le> from_of g p" for n
    using that
  proof (induction l arbitrary: n)
    case (Cons p l)
    then show ?case by (auto simp: holds_def ascending_def heap_contact_def contact_key_def not_less intro: less_imp_le)
  qed simp
  then show "holds g l h \<Longrightarrow> ascending g l \<Longrightarrow> contact_list_sorted h l True = Inr True"
    by (simp add: contact_list_sorted_def)
qed

lemma endpoint_list_union_granted: "snd (endpoint_list_union a b []) = []"
  by (induction b arbitrary: a) (auto simp: endpoint_list_add_def split: option.splits)

lemma merge_contacts_granted: "merge_contacts old new [] = (c_bitrate old \<noteq> c_bitrate new, merged old new, [])"
  using endpoint_list_union_granted[of "c_contact_endpoints old" "c_contact_endpoints new"]
  by (auto simp: merged_def merge_contacts_def Let_def split: prod.splits)

lemma merged_window [simp]: "c_from (merged old new) = c_from old" "c_to (merged old new) = c_to old" "c_active (merged old new) = c_active old"
  by (auto simp: merged_def merge_contacts_def recalculate_contact_capacity_def Let_def split: prod.splits)

lemma ls_free_simp: "ls_heap s p = Some c \<Longrightarrow> \<not> c_active c \<Longrightarrow> ls_free p s = Inr (s\<lparr>ls_heap := (ls_heap s)(p := None)\<rparr>)"
  by (simp add: ls_free_def free_contact_internal_def heap_contact_def)

definition ls_modify :: "contact_list \<Rightarrow> list_state \<Rightarrow> list_state" where
  "ls_modify ps s = s\<lparr>ls_modified := map_option (\<lambda>l. ps @ l) (ls_modified s)\<rparr>"

lemma map_option_append_Nil [simp]: "map_option ((@) []) x = x" "map_option (\<lambda>l. l) x = x"
  by (cases x; auto)+

lemma ls_modify_Nil [simp]: "ls_modify [] s = s"
  by (cases s) (simp add: ls_modify_def)

lemma ls_allocs_put [simp]: "ls_allocs (ls_put p c s) = ls_allocs s"
  by (simp add: ls_put_def)

lemma add_to_modified_granted: "ls_allocs s = [] \<Longrightarrow> add_to_modified_list p s = ls_modify [p] s"
  by (cases s) (auto simp: add_to_modified_list_def ls_modify_def split: option.split)

lemma union_before_later:
  assumes "holds g can (ls_heap s)" "\<forall>d \<in> set can. n < from_of g d"
  shows "union_before x n can s = Inr ([], can, s)"
  using assms by (cases can) (auto simp: holds_def heap_contact_def)

lemma filter_later:
  assumes "\<forall>d \<in> set can. n < from_of g d"
  shows "filter (\<lambda>c. from_of g c < n) can = []" "filter (\<lambda>c. n < from_of g c) can = can" "\<And>q. q \<in> set can \<Longrightarrow> from_of g q \<noteq> n"
  using assms by (auto simp: filter_empty_conv filter_id_conv)

lemma union_before_correct:
  assumes "holds g can (ls_heap s)" "ascending g can" "distinct can" "x \<notin> set can" "ls_heap s x = Some (g x)" "ls_allocs s = []"
    "\<forall>c \<in> set can. \<not> c_active (g c)"
  shows "union_before x (from_of g x) can s = Inr (filter (\<lambda>c. from_of g c < from_of g x) can, filter (\<lambda>c. from_of g x < from_of g c) can,
     ls_modify (filter (rate_changes g can) [x]) (s\<lparr>ls_heap := (\<lambda>q. if q = x then Some (union_contact g can x)
        else if q \<in> set can \<and> from_of g q = from_of g x then None else ls_heap s q)\<rparr>))"
  using assms
proof (induction can arbitrary: s)
  case Nil
  have w: "same_window g [] x = None" by (simp add: same_window_def)
  have h: "(\<lambda>q. if q = x then Some (g x) else if q \<in> set [] \<and> from_of g q = from_of g x then None else ls_heap s q) = ls_heap s"
    using Nil.prems(5) by auto
  show ?case unfolding union_contact_def rate_changes_def w option.case h by (simp add: w)
next
  case (Cons c can)
  have hc: "heap_contact (ls_heap s) c = Inr (g c)" using Cons.prems(1) by (simp add: holds_def heap_contact_def)
  have hx: "heap_contact (ls_heap s) x = Inr (g x)" using Cons.prems(5) by (simp add: heap_contact_def)
  have later: "\<forall>d \<in> set can. from_of g c < from_of g d" using Cons.prems(2) by (simp add: ascending_def)
  consider (gt) "from_of g c > from_of g x" | (lt) "from_of g c < from_of g x" | (eq) "from_of g c = from_of g x" by force
  then show ?case
  proof cases
    case gt
    then have l: "\<forall>d \<in> set (c # can). from_of g x < from_of g d" using later by auto
    then have w: "same_window g (c # can) x = None" by (auto simp: same_window_def find_None_iff)
    have h: "(\<lambda>q. if q = x then Some (g x) else if q \<in> set (c # can) \<and> from_of g q = from_of g x then None else ls_heap s q) = ls_heap s"
      using Cons.prems(5) filter_later(3)[OF l] by (intro ext) auto
    show ?thesis unfolding union_before_later[OF Cons.prems(1) l] filter_later(1,2)[OF l] union_contact_def rate_changes_def w option.case h
      by (simp add: w)
  next
    case lt
    then have ne: "from_of g c \<noteq> from_of g x" by simp
    then have w: "same_window g (c # can) x = same_window g can x" by (simp add: same_window_def)
    have h: "(\<lambda>q. if q = x then Some u else if q \<in> set (c # can) \<and> from_of g q = from_of g x then None else ls_heap s q)
        = (\<lambda>q. if q = x then Some u else if q \<in> set can \<and> from_of g q = from_of g x then None else ls_heap s q)" for u
      using ne by (intro ext) auto
    have uc: "union_contact g (c # can) x = union_contact g can x" by (simp only: union_contact_def w)
    have rc: "filter (rate_changes g (c # can)) [x] = filter (rate_changes g can) [x]" by (simp only: rate_changes_def w filter.simps)
    have nl: "\<not> from_of g x < from_of g c" using lt by simp
    have p: "holds g can (ls_heap s)" "ascending g can" "distinct can" "x \<notin> set can" "\<forall>c \<in> set can. \<not> c_active (g c)"
      using Cons.prems by (auto simp: holds_def ascending_def)
    have step: "union_before x (from_of g x) (c # can) s = bindE (union_before x (from_of g x) can s) (\<lambda>(pre, rest, s'). Inr (c # pre, rest, s'))"
      using lt nl hc by simp
    show ?thesis unfolding step uc rc h Cons.IH[OF p(1-4) Cons.prems(5,6) p(5)] using lt nl by simp
  next
    case eq
    define s2 where "s2 = (if c_to (g c) = c_to (g x)
        then ls_modify (if c_bitrate (g x) \<noteq> c_bitrate (g c) then [x] else []) (ls_put x (merged (g x) (g c)) s) else s)"
    define s3 where "s3 = s2\<lparr>ls_heap := (ls_heap s2)(c := None)\<rparr>"
    have l: "\<forall>d \<in> set can. from_of g x < from_of g d" using later eq by simp
    have sa: "s\<lparr>ls_allocs := []\<rparr> = s" using Cons.prems(6) by (cases s) simp
    have m: "(if c_to (g c) = c_to (g x) then let (modified, old', as) = merge_contacts (g x) (g c) (ls_allocs s); s1 = ls_put x old' (s\<lparr>ls_allocs := as\<rparr>) in
          Inr (if modified then add_to_modified_list x s1 else s1) else Inr s) = (Inr s2 :: fault + list_state)"
      unfolding Cons.prems(6) merge_contacts_granted Let_def prod.case sa s2_def using Cons.prems(6) by (simp add: add_to_modified_granted)
    have ne: "c \<noteq> x" using Cons.prems(4) by auto
    have "ls_heap s2 c = Some (g c)" using Cons.prems(1) ne by (simp add: s2_def holds_def ls_modify_def ls_put_def)
    then have fr: "ls_free c s2 = Inr s3" using Cons.prems(7) by (simp add: ls_free_simp s3_def)
    have "holds g can (ls_heap s3)" using Cons.prems(1,3,4) by (auto simp: s3_def s2_def holds_def ls_modify_def ls_put_def)
    note rec = union_before_later[OF this l]
    have e: "union_before x (from_of g x) (c # can) s = Inr ([], can, s3)"
      unfolding union_before.simps hc bindE_simps hx m fr rec using eq by simp
    have w: "same_window g (c # can) x = (if c_to (g c) = c_to (g x) then Some c else None)"
      using eq filter_later(3)[OF l] by (auto simp: same_window_def find_None_iff)
    have "ls_modify (filter (rate_changes g (c # can)) [x]) (s\<lparr>ls_heap := (\<lambda>q. if q = x then Some (union_contact g (c # can) x)
        else if q \<in> set (c # can) \<and> from_of g q = from_of g x then None else ls_heap s q)\<rparr>) = s3"
      using eq ne filter_later(3)[OF l] Cons.prems(5)
      by (cases s) (auto simp: s3_def s2_def union_contact_def rate_changes_def w ls_modify_def ls_put_def fun_eq_iff)
    then show ?thesis using e eq filter_later(1,2)[OF l] by simp
  qed
qed

lemma find_later: "(\<And>q. q \<in> set xs \<Longrightarrow> \<not> P q \<longrightarrow> \<not> Q q) \<Longrightarrow> find Q (filter P xs) = find Q xs"
  by (induction xs) auto

lemma union_loop_correct:
  assumes "holds g (a @ can) (ls_heap s)" "ascending g a" "ascending g can" "distinct (a @ can)" "ls_allocs s = []" "\<forall>c \<in> set can. \<not> c_active (g c)"
  shows "\<exists>res. union_loop a can s = Inr (res, ls_modify (rev (filter (rate_changes g can) a)) (s\<lparr>ls_heap := (\<lambda>q.
        if q \<in> set a then Some (union_contact g can q) else if q \<in> set can \<and> from_of g q \<in> from_of g ` set a then None else ls_heap s q)\<rparr>))
     \<and> ascending g res \<and> set res = set a \<union> {q \<in> set can. from_of g q \<notin> from_of g ` set a}"
  using assms
proof (induction a arbitrary: can s)
  case Nil
  then show ?case by simp
next
  case (Cons x xs)
  let ?lo = "filter (\<lambda>c. from_of g c < from_of g x) can" and ?hi = "filter (\<lambda>c. from_of g x < from_of g c) can"
  let ?h1 = "\<lambda>q. if q = x then Some (union_contact g can x) else if q \<in> set can \<and> from_of g q = from_of g x then None else ls_heap s q"
  define s1 where "s1 = ls_modify (filter (rate_changes g can) [x]) (s\<lparr>ls_heap := ?h1\<rparr>)"
  have p: "holds g can (ls_heap s)" "distinct can" "x \<notin> set can" "ls_heap s x = Some (g x)" "heap_contact (ls_heap s) x = Inr (g x)"
    using Cons.prems by (auto simp: holds_def heap_contact_def)
  have b: "union_before x (from_of g x) can s = Inr (?lo, ?hi, s1)"
    unfolding s1_def by (rule union_before_correct[OF p(1) Cons.prems(3) p(2-4) Cons.prems(5,6)])
  have later: "\<forall>q \<in> set xs. from_of g x < from_of g q" "ascending g xs" using Cons.prems(2) by (auto simp: ascending_def)
  have s1: "ls_heap s1 = ?h1" "ls_allocs s1 = []" using Cons.prems(5) by (simp_all add: s1_def ls_modify_def)
  have q: "holds g (xs @ ?hi) (ls_heap s1)" "ascending g ?hi" "distinct (xs @ ?hi)" "\<forall>c \<in> set ?hi. \<not> c_active (g c)"
    using Cons.prems(1,3,4,6) unfolding s1 by (auto simp: holds_def ascending_def sorted_wrt_filter)
  obtain res where r: "union_loop xs ?hi s1 = Inr (res, ls_modify (rev (filter (rate_changes g ?hi) xs)) (s1\<lparr>ls_heap := (\<lambda>q.
        if q \<in> set xs then Some (union_contact g ?hi q) else if q \<in> set ?hi \<and> from_of g q \<in> from_of g ` set xs then None else ls_heap s1 q)\<rparr>))"
      "ascending g res" "set res = set xs \<union> {q \<in> set ?hi. from_of g q \<notin> from_of g ` set xs}"
    using Cons.IH[OF q(1) later(2) q(2,3) s1(2) q(4)] by blast
  have w: "same_window g ?hi q = same_window g can q" if "q \<in> set xs" for q
    unfolding same_window_def by (rule find_later) (use that later(1) in auto)
  have e: "union_loop (x # xs) can s = Inr (?lo @ x # res, ls_modify (rev (filter (rate_changes g ?hi) xs)) (s1\<lparr>ls_heap := (\<lambda>q.
        if q \<in> set xs then Some (union_contact g ?hi q) else if q \<in> set ?hi \<and> from_of g q \<in> from_of g ` set xs then None else ls_heap s1 q)\<rparr>))"
    unfolding union_loop.simps p(5) bindE_simps b prod.case r(1) ..
  have h: "(\<lambda>q. if q \<in> set xs then Some (union_contact g ?hi q) else if q \<in> set ?hi \<and> from_of g q \<in> from_of g ` set xs then None else ls_heap s1 q)
      = (\<lambda>q. if q \<in> set (x # xs) then Some (union_contact g can q) else if q \<in> set can \<and> from_of g q \<in> from_of g ` set (x # xs) then None else ls_heap s q)"
    (is "?l = ?r")
  proof
    fix q
    have "x \<notin> set xs" using Cons.prems(4) by simp
    moreover have "from_of g q \<in> from_of g ` set xs \<Longrightarrow> from_of g x < from_of g q" using later(1) by auto
    ultimately show "?l q = ?r q" using w[of q] unfolding s1 by (auto simp: union_contact_def)
  qed
  have f: "filter (rate_changes g ?hi) xs = filter (rate_changes g can) xs" using w by (auto simp: rate_changes_def intro: filter_cong)
  have m: "ls_modify (rev (filter (rate_changes g can) xs)) (s1\<lparr>ls_heap := h\<rparr>)
      = ls_modify (rev (filter (rate_changes g can) (x # xs))) (s\<lparr>ls_heap := h\<rparr>)" for h
    by (cases "ls_modified s") (auto simp: s1_def ls_modify_def)
  have "ascending g (?lo @ x # res)"
    using r(2,3) later(1) Cons.prems(3) by (auto simp: ascending_def sorted_wrt_append sorted_wrt_filter intro: less_trans)
  moreover have "set (?lo @ x # res) = set (x # xs) \<union> {q \<in> set can. from_of g q \<notin> from_of g ` set (x # xs)}"
  proof (intro set_eqI)
    fix q
    have "q \<in> set can \<and> (from_of g q < from_of g x \<or> from_of g x < from_of g q \<and> from_of g q \<notin> from_of g ` set xs)
        \<longleftrightarrow> q \<in> set can \<and> from_of g q \<notin> from_of g ` set (x # xs)"
      using later(1) by (cases "from_of g q" "from_of g x" rule: linorder_cases) (auto dest: less_asym)
    then show "q \<in> set (?lo @ x # res) \<longleftrightarrow> q \<in> set (x # xs) \<union> {q \<in> set can. from_of g q \<notin> from_of g ` set (x # xs)}"
      unfolding set_append list.set(2) r(3) by auto
  qed
  ultimately show ?case unfolding e h f m by blast
qed

section \<open>Difference of contact lists\<close>

definition gone :: "(nat \<Rightarrow> contact) \<Rightarrow> contact_list \<Rightarrow> nat \<Rightarrow> bool" where
  "gone g b p \<longleftrightarrow> (case same_window g b p of None \<Rightarrow> False | Some q \<Rightarrow> c_contact_endpoints (g q) = [])"

definition narrowed :: "(nat \<Rightarrow> contact) \<Rightarrow> contact_list \<Rightarrow> nat \<Rightarrow> bool" where
  "narrowed g b p \<longleftrightarrow> (case same_window g b p of None \<Rightarrow> False | Some q \<Rightarrow> c_contact_endpoints (g q) \<noteq> [])"

definition difference_contact :: "(nat \<Rightarrow> contact) \<Rightarrow> contact_list \<Rightarrow> nat \<Rightarrow> contact" where
  "difference_contact g b p = (case same_window g b p of None \<Rightarrow> g p
   | Some q \<Rightarrow> (g p)\<lparr>c_contact_endpoints := endpoint_list_difference (c_contact_endpoints (g p)) (c_contact_endpoints (g q))\<rparr>)"

text \<open>
  What the difference leaves behind. Of the second list only the entries that start no later than some entry of the first are freed.
\<close>

definition difference_heap :: "(nat \<Rightarrow> contact) \<Rightarrow> bool \<Rightarrow> bool \<Rightarrow> contact_list \<Rightarrow> contact_list \<Rightarrow> contact_heap \<Rightarrow> contact_heap" where
  "difference_heap g keep free_b a b h = (\<lambda>q.
     if q \<in> set a then (if gone g b q then (if keep \<or> c_active (g q) then h q else None) else Some (difference_contact g b q))
     else if free_b \<and> q \<in> set b \<and> (\<exists>p \<in> set a. from_of g q \<le> from_of g p) then None else h q)"

definition difference_state :: "(nat \<Rightarrow> contact) \<Rightarrow> bool \<Rightarrow> contact_list \<Rightarrow> contact_list \<Rightarrow> list_state \<Rightarrow> list_state" where
  "difference_state g free_b a b s = s\<lparr>ls_heap := difference_heap g (ls_deleted s \<noteq> None) free_b a b (ls_heap s),
     ls_modified := map_option (\<lambda>l. rev (filter (narrowed g b) a) @ l) (ls_modified s),
     ls_deleted := map_option (\<lambda>l. rev (filter (gone g b) a) @ l) (ls_deleted s)\<rparr>"

lemma window_cong:
  assumes "same_window g b p = same_window g b' p"
  shows "gone g b p = gone g b' p" "narrowed g b p = narrowed g b' p" "difference_contact g b p = difference_contact g b' p"
  using assms by (simp_all add: gone_def narrowed_def difference_contact_def)

lemma same_window_skip: "\<not> (from_of g c = from_of g p \<and> c_to (g c) = c_to (g p)) \<Longrightarrow> same_window g (c # cs) p = same_window g cs p"
  by (auto simp: same_window_def)

lemma same_window_Nil [simp]: "same_window g [] p = None"
  by (simp add: same_window_def)

lemma no_window [simp]: "same_window g b p = None \<Longrightarrow> \<not> gone g b p" "same_window g b p = None \<Longrightarrow> \<not> narrowed g b p"
    "same_window g b p = None \<Longrightarrow> difference_contact g b p = g p"
  by (simp_all add: gone_def narrowed_def difference_contact_def)

definition free_if :: "bool \<Rightarrow> nat \<Rightarrow> list_state \<Rightarrow> list_state" where
  "free_if free_b c s = (if free_b then s\<lparr>ls_heap := (ls_heap s)(c := None)\<rparr> else s)"

lemma free_if_correct: "ls_heap s c = Some d \<Longrightarrow> \<not> c_active d \<Longrightarrow> (if free_b then ls_free c s else Inr s) = Inr (free_if free_b c s)"
  by (simp add: free_if_def ls_free_simp)

lemma difference_skip:
  assumes "from_of g c \<le> from_of g x" "\<not> (from_of g c = from_of g x \<and> c_to (g c) = c_to (g x))" "\<forall>q \<in> set xs. from_of g x < from_of g q"
    "c \<notin> set (x # xs)" "c \<notin> set cs"
  shows "filter (\<lambda>p. \<not> gone g cs p) (x # xs) = filter (\<lambda>p. \<not> gone g (c # cs) p) (x # xs)"
    "difference_state g free_b (x # xs) cs (free_if free_b c s) = difference_state g free_b (x # xs) (c # cs) s"
proof -
  have w: "same_window g (c # cs) p = same_window g cs p" if "p \<in> set (x # xs)" for p
    by (rule same_window_skip) (use that assms(1-3) in auto)
  note wc = window_cong[OF w]
  show "filter (\<lambda>p. \<not> gone g cs p) (x # xs) = filter (\<lambda>p. \<not> gone g (c # cs) p) (x # xs)" by (rule filter_cong) (use wc(1) in auto)
  have f: "filter (narrowed g cs) (x # xs) = filter (narrowed g (c # cs)) (x # xs)" "filter (gone g cs) (x # xs) = filter (gone g (c # cs)) (x # xs)"
    using wc by (auto intro!: filter_cong simp del: filter.simps)
  have h: "difference_heap g k free_b (x # xs) cs (ls_heap (free_if free_b c s)) = difference_heap g k free_b (x # xs) (c # cs) (ls_heap s)" for k
  proof
    fix q
    show "difference_heap g k free_b (x # xs) cs (ls_heap (free_if free_b c s)) q = difference_heap g k free_b (x # xs) (c # cs) (ls_heap s) q"
    proof (cases "q \<in> set (x # xs)")
      case True
      then have "q \<noteq> c" using assms(4) by auto
      then show ?thesis using True wc(1,3)[OF True] by (simp only: difference_heap_def free_if_def) simp
    next
      case False
      then show ?thesis using assms(1) by (auto simp: difference_heap_def free_if_def)
    qed
  qed
  show "difference_state g free_b (x # xs) cs (free_if free_b c s) = difference_state g free_b (x # xs) (c # cs) s"
    unfolding difference_state_def f h[unfolded free_if_def] by (auto simp: free_if_def h[unfolded free_if_def])
qed

lemma map_option_snoc: "map_option (\<lambda>l. ys @ x # l) z = map_option ((@) (ys @ [x])) z"
  by (cases z) auto

lemma difference_pass:
  assumes "\<forall>c \<in> set can. from_of g x < from_of g c" "ls_heap s x = Some (g x)" "x \<notin> set xs"
  shows "x # filter (\<lambda>p. \<not> gone g can p) xs = filter (\<lambda>p. \<not> gone g can p) (x # xs)"
    "difference_state g free_b xs can s = difference_state g free_b (x # xs) can s"
proof -
  have w: "same_window g can x = None" using assms(1) by (auto simp: same_window_def find_None_iff)
  then show "x # filter (\<lambda>p. \<not> gone g can p) xs = filter (\<lambda>p. \<not> gone g can p) (x # xs)" by simp
  have "difference_heap g k free_b xs can (ls_heap s) = difference_heap g k free_b (x # xs) can (ls_heap s)" for k
    using w assms by (intro ext) (auto simp: difference_heap_def)
  then show "difference_state g free_b xs can s = difference_state g free_b (x # xs) can s" using w by (simp add: difference_state_def)
qed

lemma difference_hit:
  assumes "from_of g c = from_of g x" "c_to (g c) = c_to (g x)" "\<forall>q \<in> set xs. from_of g x < from_of g q"
    "c \<notin> set (x # xs)" "c \<notin> set cs" "x \<notin> set xs" "x \<notin> set cs" "ls_heap s x = Some (g x)"
    "\<forall>q \<in> set cs. from_of g x < from_of g q"
  shows "(if c_contact_endpoints (g c) = [] then [] else [x]) @ filter (\<lambda>p. \<not> gone g cs p) xs = filter (\<lambda>p. \<not> gone g (c # cs) p) (x # xs)" (is ?f)
    "c_contact_endpoints (g c) = [] \<Longrightarrow> \<exists>s1. remove_contact_entry x (g x) s = Inr s1 \<and> ls_heap s1 = (ls_heap s)(x := ls_heap s1 x) \<and> ls_allocs s1 = ls_allocs s
       \<and> difference_state g free_b xs cs (free_if free_b c s1) = difference_state g free_b (x # xs) (c # cs) s"
    "c_contact_endpoints (g c) \<noteq> [] \<Longrightarrow> difference_state g free_b xs cs (free_if free_b c (ls_modify [x] (ls_put x (difference_contact g (c # cs) x) s)))
       = difference_state g free_b (x # xs) (c # cs) s"
proof -
  have w: "same_window g (c # cs) p = same_window g cs p" if "p \<in> set xs" for p
    by (rule same_window_skip) (use that assms(1,3) in auto)
  note wc = window_cong[OF w]
  have wx: "same_window g (c # cs) x = Some c" using assms(1,2) by (simp add: same_window_def)
  then have gx: "gone g (c # cs) x \<longleftrightarrow> c_contact_endpoints (g c) = []" "narrowed g (c # cs) x \<longleftrightarrow> c_contact_endpoints (g c) \<noteq> []"
    by (simp_all add: gone_def narrowed_def)
  have f: "filter (narrowed g cs) xs = filter (narrowed g (c # cs)) xs" "filter (gone g cs) xs = filter (gone g (c # cs)) xs"
      "filter (\<lambda>p. \<not> gone g cs p) xs = filter (\<lambda>p. \<not> gone g (c # cs) p) xs"
    using wc by (auto intro!: filter_cong)
  show ?f using gx f(3) by simp
  have h: "difference_heap g k free_b xs cs (\<lambda>q. if free_b \<and> q = c then None else if q = x then y else ls_heap s q) = difference_heap g k free_b (x # xs) (c # cs) (ls_heap s)"
    if "y = (if gone g (c # cs) x then if k \<or> c_active (g x) then ls_heap s x else None else Some (difference_contact g (c # cs) x))" for k y
  proof
    fix q
    consider "q = x" | "q \<in> set xs" | "q = c" | "q \<notin> set (x # xs)" "q \<noteq> c" by auto
    then show "difference_heap g k free_b xs cs (\<lambda>q. if free_b \<and> q = c then None else if q = x then y else ls_heap s q) q
        = difference_heap g k free_b (x # xs) (c # cs) (ls_heap s) q"
    proof cases
      case 1
      then show ?thesis using assms(4,6,7) that by (simp add: difference_heap_def)
    next
      case 2
      then have "q \<noteq> c" "q \<noteq> x" using assms(4,6) by auto
      then show ?thesis using 2 wc(1,3)[OF 2] by (simp add: difference_heap_def)
    next
      case 3
      then show ?thesis using assms(1,4,5) by (auto simp: difference_heap_def)
    next
      case 4
      then have "q \<in> set cs \<Longrightarrow> \<not> from_of g q \<le> from_of g x" using assms(9) by auto
      then show ?thesis using 4 by (auto simp: difference_heap_def)
    qed
  qed
  show "\<exists>s1. remove_contact_entry x (g x) s = Inr s1 \<and> ls_heap s1 = (ls_heap s)(x := ls_heap s1 x) \<and> ls_allocs s1 = ls_allocs s
       \<and> difference_state g free_b xs cs (free_if free_b c s1) = difference_state g free_b (x # xs) (c # cs) s" if "c_contact_endpoints (g c) = []"
  proof -
    define y where "y = (if ls_deleted s \<noteq> None \<or> c_active (g x) then ls_heap s x else None)"
    define s1 where "s1 = s\<lparr>ls_heap := (ls_heap s)(x := y), ls_deleted := map_option (\<lambda>l. x # l) (ls_deleted s)\<rparr>"
    have r: "remove_contact_entry x (g x) s = Inr s1"
      using assms(8) by (cases s) (auto simp: remove_contact_entry_def s1_def y_def ls_free_simp split: option.splits)
    have "ls_heap (free_if free_b c s1) = (\<lambda>q. if free_b \<and> q = c then None else if q = x then y else ls_heap s q)"
      by (auto simp: free_if_def s1_def)
    note hh = h[of y "ls_deleted s \<noteq> None", folded this]
    have "difference_state g free_b xs cs (free_if free_b c s1) = difference_state g free_b (x # xs) (c # cs) s"
      unfolding difference_state_def f using hh gx that by (cases s) (auto simp: y_def s1_def free_if_def option.map_comp comp_def map_option_snoc)
    then show ?thesis using r by (intro exI[of _ s1]) (simp add: s1_def)
  qed
  show "difference_state g free_b xs cs (free_if free_b c (ls_modify [x] (ls_put x (difference_contact g (c # cs) x) s)))
       = difference_state g free_b (x # xs) (c # cs) s" if "c_contact_endpoints (g c) \<noteq> []"
  proof -
    let ?s1 = "ls_modify [x] (ls_put x (difference_contact g (c # cs) x) s)" and ?y = "Some (difference_contact g (c # cs) x)"
    have "ls_heap (free_if free_b c ?s1) = (\<lambda>q. if free_b \<and> q = c then None else if q = x then ?y else ls_heap s q)"
      by (auto simp: free_if_def ls_modify_def ls_put_def)
    note hh = h[of ?y "ls_deleted s \<noteq> None", folded this]
    show ?thesis unfolding difference_state_def f using hh gx that
      by (cases s) (auto simp: free_if_def ls_modify_def ls_put_def option.map_comp comp_def map_option_snoc)
  qed
qed

lemma difference_loop_correct:
  assumes "holds g (a @ can) (ls_heap s)" "ascending g a" "ascending g can" "distinct (a @ can)" "ls_allocs s = []" "\<forall>c \<in> set can. \<not> c_active (g c)"
  shows "difference_loop free_b a can s = Inr (filter (\<lambda>p. \<not> gone g can p) a, difference_state g free_b a can s)"
  using assms
proof (induction "length a + length can" arbitrary: a can s rule: less_induct)
  case less
  consider (nil) "a = []" | (rest) x xs where "a = x # xs" "can = []" | (both) x xs c cs where "a = x # xs" "can = c # cs"
    by (cases a; cases can) auto
  then show ?case
  proof cases
    case nil
    then show ?thesis by (cases s) (simp add: difference_state_def difference_heap_def)
  next
    case rest
    have p: "holds g (xs @ []) (ls_heap s)" "ascending g xs" "ascending g []" "distinct (xs @ [])" "ls_heap s x = Some (g x)" "x \<notin> set xs"
      using less.prems rest by (auto simp: holds_def ascending_def)
    have r: "difference_loop free_b xs [] s = Inr (filter (\<lambda>p. \<not> gone g [] p) xs, difference_state g free_b xs [] s)"
      using less.hyps[OF _ p(1-4) less.prems(5)] rest by simp
    have d: "\<forall>c \<in> set []. from_of g x < from_of g c" by simp
    note dp = difference_pass[OF d p(5,6)]
    show ?thesis unfolding rest difference_loop.simps r bindE_simps prod.case dp(1) dp(2)[of free_b] ..
  next
    case both
    have hc: "heap_contact (ls_heap s) c = Inr (g c)" "ls_heap s c = Some (g c)" "\<not> c_active (g c)"
      and hx: "heap_contact (ls_heap s) x = Inr (g x)" "ls_heap s x = Some (g x)"
      using less.prems(1,6) both by (simp_all add: holds_def heap_contact_def)
    have lx: "\<forall>q \<in> set xs. from_of g x < from_of g q" and lc: "\<forall>q \<in> set cs. from_of g c < from_of g q"
      and as: "ascending g xs" "ascending g cs" using less.prems(2,3) both by (simp_all add: ascending_def)
    have ni: "c \<notin> set (x # xs)" "c \<notin> set cs" "x \<notin> set xs" "x \<notin> set cs" "c \<noteq> x" using less.prems(4) both by auto
    have di: "distinct (xs @ cs)" "distinct (xs @ c # cs)" "distinct ((x # xs) @ cs)" using less.prems(4) both by auto
    have ia: "\<forall>c \<in> set cs. \<not> c_active (g c)" using less.prems(6) both by simp
    consider (gt) "from_of g c > from_of g x" | (hit) "from_of g c = from_of g x" "c_to (g c) = c_to (g x)"
      | (skip) "from_of g c \<le> from_of g x" "\<not> (from_of g c = from_of g x \<and> c_to (g c) = c_to (g x))" by fastforce
    then show ?thesis
    proof cases
      case gt
      have l: "\<forall>q \<in> set (c # cs). from_of g x < from_of g q" using gt lc by auto
      have "holds g (xs @ c # cs) (ls_heap s)" using less.prems(1) both by (simp add: holds_def)
      then have r: "difference_loop free_b xs (c # cs) s = Inr (filter (\<lambda>p. \<not> gone g (c # cs) p) xs, difference_state g free_b xs (c # cs) s)"
        using less.hyps[OF _ _ as(1) _ di(2) less.prems(5)] less.prems(3,6) both by simp
      note dp = difference_pass[OF l hx(2) ni(3)]
      have "difference_loop free_b (x # xs) (c # cs) s = bindE (difference_loop free_b xs (c # cs) s) (\<lambda>(ys, s'). Inr (x # ys, s'))"
        using gt hc(1) hx(1) by simp
      then show ?thesis unfolding both r bindE_simps prod.case dp(1) dp(2)[of free_b] .
    next
      case skip
      note ds = difference_skip[OF skip lx ni(1,2)]
      have "holds g ((x # xs) @ cs) (ls_heap (free_if free_b c s))" using less.prems(1) ni both by (auto simp: holds_def free_if_def)
      then have r: "difference_loop free_b (x # xs) cs (free_if free_b c s)
          = Inr (filter (\<lambda>p. \<not> gone g cs p) (x # xs), difference_state g free_b (x # xs) cs (free_if free_b c s))"
        using less.hyps[OF _ _ _ as(2) di(3) _ ia] less.prems(2,5) both by (simp add: free_if_def)
      have n: "\<not> from_of g c > from_of g x" using skip(1) by simp
      have "difference_loop free_b (x # xs) (c # cs) s = bindE (if free_b then ls_free c s else Inr s) (difference_loop free_b (x # xs) cs)"
        unfolding difference_loop.simps(3) hc(1) hx(1) bindE_simps if_not_P[OF n] if_not_P[OF skip(2)] ..
      then show ?thesis unfolding both free_if_correct[OF hc(2,3)] bindE_simps r ds .
    next
      case hit
      have l: "\<forall>q \<in> set cs. from_of g x < from_of g q" using lc hit(1) by simp
      note dh = difference_hit[OF hit lx ni(1-4) hx(2) l]
      have ho: "holds g (xs @ cs) (ls_heap (free_if free_b c s1))" if "ls_heap s1 = (ls_heap s)(x := ls_heap s1 x)" for s1
      proof -
        have "ls_heap s1 q = Some (g q)" if "q \<in> set (xs @ cs)" for q
          using that less.prems(1) ni both fun_cong[OF \<open>ls_heap s1 = _\<close>, of q] by (auto simp: holds_def)
        then show ?thesis using ni by (auto simp: holds_def free_if_def)
      qed
      have r: "difference_loop free_b xs cs (free_if free_b c s1) = Inr (filter (\<lambda>p. \<not> gone g cs p) xs, difference_state g free_b xs cs (free_if free_b c s1))"
        if "ls_heap s1 = (ls_heap s)(x := ls_heap s1 x)" "ls_allocs s1 = []" for s1
        using less.hyps[OF _ ho[OF that(1)] as di(1) _ ia] that(2) both by (simp add: free_if_def)
      have fr: "(if free_b then ls_free c s1 else Inr s1) = Inr (free_if free_b c s1)" if "ls_heap s1 = (ls_heap s)(x := ls_heap s1 x)" for s1
      proof (rule free_if_correct)
        show "ls_heap s1 c = Some (g c)" using fun_cong[OF that, of c] ni(5) hc(2) by simp
      qed (rule hc(3))
      show ?thesis
      proof (cases "c_contact_endpoints (g c) = []")
        case True
        obtain s1 where s1: "remove_contact_entry x (g x) s = Inr s1" "ls_heap s1 = (ls_heap s)(x := ls_heap s1 x)" "ls_allocs s1 = ls_allocs s"
            "difference_state g free_b xs cs (free_if free_b c s1) = difference_state g free_b (x # xs) (c # cs) s"
          using dh(2)[OF True, of free_b] by blast
        have al: "ls_allocs s1 = []" using s1(3) less.prems(5) by simp
        have "difference_loop free_b (x # xs) (c # cs) s = bindE (remove_contact_entry x (g x) s) (\<lambda>s1.
            bindE (if free_b then ls_free c s1 else Inr s1) (difference_loop free_b xs cs))"
          using hit True hc(1) hx(1) by simp
        then show ?thesis unfolding both s1(1) bindE_simps fr[OF s1(2)] r[OF s1(2) al] s1(4) using dh(1) True by simp
      next
        case False
        let ?s1 = "ls_modify [x] (ls_put x (difference_contact g (c # cs) x) s)"
        have h1: "ls_heap ?s1 = (ls_heap s)(x := ls_heap ?s1 x)" "ls_allocs ?s1 = []" using less.prems(5) by (simp_all add: ls_modify_def ls_put_def)
        have dc: "difference_contact g (c # cs) x = (g x)\<lparr>c_contact_endpoints := endpoint_list_difference (c_contact_endpoints (g x)) (c_contact_endpoints (g c))\<rparr>"
          using hit by (simp add: difference_contact_def same_window_def)
        have am: "add_to_modified_list x (ls_put x d s) = ls_modify [x] (ls_put x d s)" for d using less.prems(5) by (simp add: add_to_modified_granted)
        have "difference_loop free_b (x # xs) (c # cs) s = bindE (if free_b then ls_free c ?s1 else Inr ?s1) (\<lambda>s2.
            bindE (difference_loop free_b xs cs s2) (\<lambda>(ys, s'). Inr (x # ys, s')))"
          using hit False hc(1) hx(1) by (simp add: dc am Let_def)
        then show ?thesis unfolding both fr[OF h1(1)] bindE_simps r[OF h1] prod.case dh(3)[OF False] using dh(1) False by simp
      qed
    qed
  qed
qed

section \<open>The list operations\<close>

text \<open>The addresses of the identifiers in the two lists differ.\<close>

definition endpoints_apart :: "(nat \<Rightarrow> contact) \<Rightarrow> contact_list \<Rightarrow> contact_list \<Rightarrow> bool" where
  "endpoints_apart g a b \<longleftrightarrow> (\<forall>p \<in> set a. endpoints_ok (c_contact_endpoints (g p))) \<and> (\<forall>q \<in> set b. endpoints_ok (c_contact_endpoints (g q)))
     \<and> (\<forall>p \<in> set a. \<forall>q \<in> set b. \<forall>x \<in> set (c_contact_endpoints (g p)). ep_ptr x \<notin> ep_ptr ` set (c_contact_endpoints (g q)))"

lemma merged_contents:
  assumes "endpoints_ok (c_contact_endpoints old)" "endpoints_ok (c_contact_endpoints new)"
    "\<forall>x \<in> set (c_contact_endpoints old). ep_ptr x \<notin> ep_ptr ` set (c_contact_endpoints new)"
  shows "c_bitrate (merged old new) = c_bitrate new" "endpoints_ok (c_contact_endpoints (merged old new))"
    "eids (c_contact_endpoints (merged old new)) = eids (c_contact_endpoints old) \<union> eids (c_contact_endpoints new)"
proof -
  have d: "distinct (map ep_ptr (c_contact_endpoints new))" using assms(2) by (simp add: endpoints_ok_def strict_sorted_iff)
  obtain l where l: "endpoint_list_union (c_contact_endpoints old) (c_contact_endpoints new) [] = (l, [])" "endpoints_ok l"
      "eids l = eids (c_contact_endpoints old) \<union> eids (c_contact_endpoints new)"
    using endpoint_list_union_correct[OF assms(1) d assms(3)] by blast
  have "c_contact_endpoints (merged old new) = l" "c_bitrate (merged old new) = c_bitrate new"
    using l(1) by (auto simp: merged_def merge_contacts_def Let_def recalculate_contact_capacity_def)
  then show "c_bitrate (merged old new) = c_bitrate new" "endpoints_ok (c_contact_endpoints (merged old new))"
    "eids (c_contact_endpoints (merged old new)) = eids (c_contact_endpoints old) \<union> eids (c_contact_endpoints new)" using l by simp_all
qed

lemma same_window_Some: "same_window g b p = Some q \<Longrightarrow> q \<in> set b \<and> c_from (g q) = c_from (g p) \<and> c_to (g q) = c_to (g p)"
  by (auto simp: same_window_def find_Some_iff)

text \<open>
  C10. Adding the contacts of one list to another. The result is again in order. It has the contacts of the first list and those of the second that start at a time
  at which no contact of the first starts. A contact of the first list for which the second has one with the same start and end has the endpoints of both and the
  new bitrate; it is reported as modified exactly if the bitrate changed. The other contacts of the second list that start together with one of the first are freed,
  no others, and all remaining contacts are as before.
\<close>

theorem contact_list_union_correct:
  assumes "holds g (a @ b) (ls_heap s)" "ascending g a" "ascending g b" "distinct (a @ b)" "endpoints_apart g a b"
    "ls_allocs s = []" "\<forall>q \<in> set b. \<not> c_active (g q)"
  shows "\<exists>res s'. contact_list_union a b s = Inr (res, s') \<and> contact_list_sorted (ls_heap s') res True = Inr True
    \<and> set res = set a \<union> {q \<in> set b. from_of g q \<notin> from_of g ` set a}
    \<and> (\<forall>p \<in> set a. \<exists>c. ls_heap s' p = Some c \<and> (case same_window g b p of None \<Rightarrow> c = g p
        | Some q \<Rightarrow> c_from c = c_from (g p) \<and> c_to c = c_to (g p) \<and> c_bitrate c = c_bitrate (g q) \<and> endpoints_ok (c_contact_endpoints c)
            \<and> eids (c_contact_endpoints c) = eids (c_contact_endpoints (g p)) \<union> eids (c_contact_endpoints (g q))))
    \<and> (\<forall>q. q \<notin> set a \<longrightarrow> ls_heap s' q = (if q \<in> set b \<and> from_of g q \<in> from_of g ` set a then None else ls_heap s q))
    \<and> ls_modified s' = map_option (\<lambda>l. rev (filter (rate_changes g b) a) @ l) (ls_modified s)"
proof -
  have ho: "holds g a (ls_heap s)" "holds g b (ls_heap s)" using assms(1) by (auto simp: holds_def)
  let ?h = "\<lambda>q. if q \<in> set a then Some (union_contact g b q) else if q \<in> set b \<and> from_of g q \<in> from_of g ` set a then None else ls_heap s q"
  obtain res where r: "union_loop a b s = Inr (res, ls_modify (rev (filter (rate_changes g b) a)) (s\<lparr>ls_heap := ?h\<rparr>))" "ascending g res"
      "set res = set a \<union> {q \<in> set b. from_of g q \<notin> from_of g ` set a}"
    using union_loop_correct[OF assms(1-4,6,7)] by blast
  define s' where "s' = ls_modify (rev (filter (rate_changes g b) a)) (s\<lparr>ls_heap := ?h\<rparr>)"
  have h': "ls_heap s' = ?h" by (simp add: s'_def ls_modify_def)
  have nb: "union_loop a [] s = Inr (a, s)" using ho(1) by (induction a) (auto simp: holds_def heap_contact_def)
  have "contact_list_union a b s = union_loop a b s"
    using contact_list_sorted_holds[OF ho(1) assms(2)] contact_list_sorted_holds[OF ho(2) assms(3)] nb by (auto simp: contact_list_union_def)
  then have u: "contact_list_union a b s = Inr (res, s')" using r(1) by (simp add: s'_def)
  define g' where "g' q = (if q \<in> set a then union_contact g b q else g q)" for q
  have fg: "from_of g' q = from_of g q" for q by (auto simp: g'_def union_contact_def split: option.split)
  have "holds g' res (ls_heap s')" using ho r(3) unfolding h' by (auto simp: holds_def g'_def)
  moreover have "ascending g' res" using r(2) by (simp add: ascending_def fg)
  ultimately have so: "contact_list_sorted (ls_heap s') res True = Inr True" by (rule contact_list_sorted_holds)
  have c: "case same_window g b p of None \<Rightarrow> union_contact g b p = g p
        | Some q \<Rightarrow> c_from (union_contact g b p) = c_from (g p) \<and> c_to (union_contact g b p) = c_to (g p) \<and> c_bitrate (union_contact g b p) = c_bitrate (g q)
            \<and> endpoints_ok (c_contact_endpoints (union_contact g b p))
            \<and> eids (c_contact_endpoints (union_contact g b p)) = eids (c_contact_endpoints (g p)) \<union> eids (c_contact_endpoints (g q))" if p: "p \<in> set a" for p
  proof (cases "same_window g b p")
    case (Some q)
    have "q \<in> set b" using same_window_Some[OF Some] by simp
    then have "endpoints_ok (c_contact_endpoints (g p))" "endpoints_ok (c_contact_endpoints (g q))"
        "\<forall>x \<in> set (c_contact_endpoints (g p)). ep_ptr x \<notin> ep_ptr ` set (c_contact_endpoints (g q))"
      using p assms(5) unfolding endpoints_apart_def by blast+
    from merged_contents[OF this] show ?thesis using Some by (simp add: union_contact_def)
  qed (simp add: union_contact_def)
  have m: "ls_modified s' = map_option (\<lambda>l. rev (filter (rate_changes g b) a) @ l) (ls_modified s)" by (simp add: s'_def ls_modify_def)
  have hb: "\<forall>q. q \<notin> set a \<longrightarrow> ls_heap s' q = (if q \<in> set b \<and> from_of g q \<in> from_of g ` set a then None else ls_heap s q)" unfolding h' by simp
  have ha: "\<forall>p \<in> set a. ls_heap s' p = Some (union_contact g b p)" unfolding h' by simp
  show ?thesis using u so r(3) m hb ha c by (intro exI[of _ res] exI[of _ s'] conjI) blast+
qed

text \<open>
  C26. Removing the contacts of one list from another. A contact of the first list is removed if the second has one with the same start and end that names no endpoints; if
  that one names endpoints, exactly these are removed from it and it is reported as modified. A removed contact is handed to the caller who asked for deleted contacts;
  otherwise it is freed, unless it is active. Of the second list only the contacts that start no later than some contact of the first are freed.
\<close>

theorem contact_list_difference_correct:
  assumes "holds g (a @ b) (ls_heap s)" "ascending g a" "ascending g b" "distinct (a @ b)" "endpoints_apart g a b"
    "ls_allocs s = []" "\<forall>q \<in> set b. \<not> c_active (g q)"
  shows "\<exists>s'. contact_list_difference a b free_b s = Inr (filter (\<lambda>p. \<not> gone g b p) a, s')
    \<and> (\<forall>p \<in> set a. if gone g b p then ls_heap s' p = (if ls_deleted s = None \<and> \<not> c_active (g p) then None else ls_heap s p)
        else ls_heap s' p = Some (case same_window g b p of None \<Rightarrow> g p
          | Some q \<Rightarrow> (g p)\<lparr>c_contact_endpoints := filter (\<lambda>x. ep_eid x \<notin> eids (c_contact_endpoints (g q))) (c_contact_endpoints (g p))\<rparr>))
    \<and> (\<forall>q. q \<notin> set a \<longrightarrow> ls_heap s' q = (if free_b \<and> q \<in> set b \<and> (\<exists>p \<in> set a. from_of g q \<le> from_of g p) then None else ls_heap s q))
    \<and> ls_modified s' = map_option (\<lambda>l. rev (filter (narrowed g b) a) @ l) (ls_modified s)
    \<and> ls_deleted s' = map_option (\<lambda>l. rev (filter (gone g b) a) @ l) (ls_deleted s)"
proof -
  have ho: "holds g a (ls_heap s)" "holds g b (ls_heap s)" using assms(1) by (auto simp: holds_def)
  have nb: "difference_loop free_b a [] s = Inr (a, s)" by (induction a) auto
  have "contact_list_difference a b free_b s = difference_loop free_b a b s"
    using contact_list_sorted_holds[OF ho(1) assms(2)] contact_list_sorted_holds[OF ho(2) assms(3)] nb by (auto simp: contact_list_difference_def)
  then have e: "contact_list_difference a b free_b s = Inr (filter (\<lambda>p. \<not> gone g b p) a, difference_state g free_b a b s)"
    using difference_loop_correct[OF assms(1-4,6,7)] by simp
  have dc: "difference_contact g b p = (case same_window g b p of None \<Rightarrow> g p
      | Some q \<Rightarrow> (g p)\<lparr>c_contact_endpoints := filter (\<lambda>x. ep_eid x \<notin> eids (c_contact_endpoints (g q))) (c_contact_endpoints (g p))\<rparr>)" if "p \<in> set a" for p
  proof -
    have "distinct (map ep_eid (c_contact_endpoints (g p)))" using that assms(5) by (simp add: endpoints_apart_def endpoints_ok_def)
    then show ?thesis by (auto simp: difference_contact_def endpoint_list_difference_filter split: option.split)
  qed
  show ?thesis by (intro exI[of _ "difference_state g free_b a b s"]) (simp add: e dc difference_state_def difference_heap_def)
qed

section \<open>Verifying a node\<close>

lemma map_insort_key: "insort_key f (h x) (map h xs) = map h (insort_key (\<lambda>a. f (h a)) x xs)"
  by (induction xs) auto

lemma map_sort_key: "sort_key f (map h xs) = map h (sort_key (\<lambda>a. f (h a)) xs)"
  by (induction xs) (auto simp: map_insort_key)

lemma sorted_wrt_iff_on:
  "sorted_wrt R l \<Longrightarrow> (\<And>p q. p \<in> set l \<Longrightarrow> q \<in> set l \<Longrightarrow> R p q \<Longrightarrow> P p q \<longleftrightarrow> Q p q) \<Longrightarrow> sorted_wrt P l \<longleftrightarrow> sorted_wrt Q l"
  by (induction l) auto

lemma heap_contacts_holds: "holds g l h \<Longrightarrow> heap_contacts h l = Inr (map (\<lambda>p. (p, g p)) l)"
  by (induction l) (auto simp: holds_def heap_contact_def)

lemma overlaps_later_holds: "holds g l h \<Longrightarrow> overlaps_later h c l = Inr (\<exists>q \<in> set l. contacts_overlap c (g q))"
  by (induction l) (auto simp: holds_def heap_contact_def)

definition sorted_endpoints :: "contact \<Rightarrow> contact" where
  "sorted_endpoints c = c\<lparr>c_contact_endpoints := endpoint_list_strip_and_sort (c_contact_endpoints c)\<rparr>"

lemma verify_contacts_correct:
  assumes "holds g l h" "distinct l"
  shows "\<exists>h'. verify_contacts l h = Inr (sorted_wrt (\<lambda>p q. \<not> contacts_overlap (g p) (g q)) l, h') \<and> (\<forall>q. q \<notin> set l \<longrightarrow> h' q = h q)
    \<and> (\<forall>p \<in> set l. h' p \<in> {Some (g p), Some (sorted_endpoints (g p))})
    \<and> (sorted_wrt (\<lambda>p q. \<not> contacts_overlap (g p) (g q)) l \<longrightarrow> (\<forall>p \<in> set l. h' p = Some (sorted_endpoints (g p))))"
  using assms
proof (induction l arbitrary: h)
  case (Cons p l)
  let ?h = "h(p \<mapsto> sorted_endpoints (g p))"
  have ho: "holds g l ?h" "distinct l" "heap_contact h p = Inr (g p)" using Cons.prems by (auto simp: holds_def heap_contact_def)
  have co: "contacts_overlap (sorted_endpoints c) d = contacts_overlap c d" for c d by (simp add: contacts_overlap_def sorted_endpoints_def)
  have v: "verify_contacts (p # l) h = (if \<exists>q \<in> set l. contacts_overlap (g p) (g q) then Inr (False, ?h) else verify_contacts l ?h)"
    using ho(3) overlaps_later_holds[OF ho(1), of "sorted_endpoints (g p)"]
    by (simp add: co Let_def sorted_endpoints_def[symmetric])
  show ?case
  proof (cases "\<exists>q \<in> set l. contacts_overlap (g p) (g q)")
    case True
    then show ?thesis using v Cons.prems by (intro exI[of _ ?h]) (auto simp: holds_def)
  next
    case False
    obtain h' where h': "verify_contacts l ?h = Inr (sorted_wrt (\<lambda>p q. \<not> contacts_overlap (g p) (g q)) l, h')" "\<forall>q. q \<notin> set l \<longrightarrow> h' q = ?h q"
      "\<forall>p \<in> set l. h' p \<in> {Some (g p), Some (sorted_endpoints (g p))}"
      "sorted_wrt (\<lambda>p q. \<not> contacts_overlap (g p) (g q)) l \<longrightarrow> (\<forall>p \<in> set l. h' p = Some (sorted_endpoints (g p)))"
      using Cons.IH[OF ho(1,2)] by blast
    have "sorted_wrt (\<lambda>p q. \<not> contacts_overlap (g p) (g q)) (p # l) = sorted_wrt (\<lambda>p q. \<not> contacts_overlap (g p) (g q)) l" using False by simp
    moreover have "h' p = Some (sorted_endpoints (g p))" using h'(2) Cons.prems(2) by simp
    ultimately show ?thesis using v False h' by (intro exI[of _ h']) (auto simp del: sorted_wrt.simps)
  qed
qed simp

lemma not_overlap_sorted:
  assumes "c_from c \<le> c_from d" "c_from c \<le> c_to c" "c_from d \<le> c_to d"
  shows "\<not> contacts_overlap c d \<longleftrightarrow> c_from c < c_from d \<and> (c_to c < c_from d \<or> c_to d < c_to c)"
  using assms by (auto simp: contacts_overlap_def not_le le_less)

text \<open>
  C25. Verifying a node sorts its contacts by start time, and removes duplicate endpoints and orders the rest. The node is accepted exactly if every
  contact starts strictly before each later one and either ends before that one starts or ends after it: a contact that lies within another one is
  accepted, although the two overlap.
\<close>

theorem node_verify_accepts:
  assumes "n_eid nd = Some e" "holds g (n_contacts nd) h" "distinct (n_contacts nd)" "\<forall>p \<in> set (n_contacts nd). c_from (g p) \<le> c_to (g p)"
    "distinct (map ep_ptr (n_endpoints nd))"
  shows "\<exists>ok nd' h'. node_prepare_and_verify nd h = Inr (ok, nd', h') \<and> n_contacts nd' = sort_key (from_of g) (n_contacts nd)
    \<and> (ok \<longleftrightarrow> sorted_wrt (\<lambda>p q. c_from (g p) < c_from (g q) \<and> (c_to (g p) < c_from (g q) \<or> c_to (g q) < c_to (g p))) (n_contacts nd'))
    \<and> endpoints_ok (n_endpoints nd') \<and> eids (n_endpoints nd') = eids (n_endpoints nd)
    \<and> (ok \<longrightarrow> ascending g (n_contacts nd') \<and> (\<forall>p \<in> set (n_contacts nd). h' p = Some (sorted_endpoints (g p))))"
proof -
  let ?l = "sort_key (from_of g) (n_contacts nd)"
  have l: "map fst (llsort (\<lambda>(_, c). c_from c) (map (\<lambda>p. (p, g p)) (n_contacts nd))) = ?l"
    unfolding llsort_sort_key map_sort_key by (simp add: comp_def)
  have ho: "holds g ?l h" "distinct ?l" using assms(2,3) by (simp_all add: holds_def)
  obtain h' where v: "verify_contacts ?l h = Inr (sorted_wrt (\<lambda>p q. \<not> contacts_overlap (g p) (g q)) ?l, h')"
      "sorted_wrt (\<lambda>p q. \<not> contacts_overlap (g p) (g q)) ?l \<longrightarrow> (\<forall>p \<in> set ?l. h' p = Some (sorted_endpoints (g p)))"
    using verify_contacts_correct[OF ho] by blast
  let ?nd = "nd\<lparr>n_contacts := ?l, n_endpoints := endpoint_list_strip_and_sort (n_endpoints nd)\<rparr>"
  have e: "node_prepare_and_verify nd h = Inr (sorted_wrt (\<lambda>p q. \<not> contacts_overlap (g p) (g q)) ?l, ?nd, h')"
    unfolding node_prepare_and_verify_def heap_contacts_holds[OF assms(2)] bindE_simps Let_def l v(1) using assms(1) by simp
  let ?P = "\<lambda>p q. c_from (g p) < c_from (g q) \<and> (c_to (g p) < c_from (g q) \<or> c_to (g q) < c_to (g p))"
  have "sorted_wrt (\<lambda>p q. c_from (g p) \<le> c_from (g q)) ?l" using sorted_sort_key[of "from_of g" "n_contacts nd"] by (simp add: sorted_wrt_map)
  then have w: "sorted_wrt (\<lambda>p q. \<not> contacts_overlap (g p) (g q)) ?l \<longleftrightarrow> sorted_wrt ?P ?l"
    by (rule sorted_wrt_iff_on) (use assms(4) not_overlap_sorted in auto)
  have "sorted_wrt ?P ?l \<Longrightarrow> ascending g ?l" unfolding ascending_def by (rule sorted_wrt_mono_rel[of _ ?P]) auto
  then show ?thesis using e w v(2) endpoint_list_strip_and_sort_ok[OF assms(5)]
    by (intro exI[of _ "sorted_wrt (\<lambda>p q. \<not> contacts_overlap (g p) (g q)) ?l"] exI[of _ ?nd] exI[of _ h']) simp
qed

section \<open>Ordered lists\<close>

lemma ordered_slot_correct:
  assumes "holds g l h" "p \<notin> set l"
  shows "\<exists>k \<le> length l. ordered_slot h by_from p c i l = Inr (Some (i + k)) \<and> (\<forall>x \<in> set (take k l). contact_key by_from (g x) \<le> contact_key by_from c)
    \<and> (drop k l \<noteq> [] \<longrightarrow> contact_key by_from c < contact_key by_from (g (hd (drop k l))))"
  using assms
proof (induction l arbitrary: i)
  case (Cons x l)
  have x: "heap_contact h x = Inr (g x)" "x \<noteq> p" using Cons.prems by (auto simp: holds_def heap_contact_def)
  show ?case
  proof (cases "contact_key by_from c < contact_key by_from (g x)")
    case True
    then show ?thesis using x by (intro exI[of _ 0]) simp
  next
    case False
    have "holds g l h" "p \<notin> set l" using Cons.prems by (auto simp: holds_def)
    from Cons.IH[OF this, of "Suc i"] obtain k where "k \<le> length l" "ordered_slot h by_from p c (Suc i) l = Inr (Some (Suc i + k))"
      "\<forall>x \<in> set (take k l). contact_key by_from (g x) \<le> contact_key by_from c"
      "drop k l \<noteq> [] \<longrightarrow> contact_key by_from c < contact_key by_from (g (hd (drop k l)))" by blast
    then show ?thesis using x False by (intro exI[of _ "Suc k"]) (auto simp: not_less)
  qed
qed simp

text \<open>Adding a new contact keeps the order and puts it behind the contacts with an equal key.\<close>

lemma add_contact_to_ordered_list_correct:
  assumes "holds g (p # l) h" "p \<notin> set l" "sorted (map (\<lambda>q. contact_key by_from (g q)) l)"
  shows "\<exists>k. add_contact_to_ordered_list l p by_from h [] = Inr (True, take k l @ p # drop k l, [])
    \<and> sorted (map (\<lambda>q. contact_key by_from (g q)) (take k l @ p # drop k l))"
proof -
  let ?f = "\<lambda>q. contact_key by_from (g q)"
  have p: "heap_contact h p = Inr (g p)" "holds g l h" using assms(1) by (auto simp: holds_def heap_contact_def)
  obtain k where k: "k \<le> length l" "ordered_slot h by_from p (g p) 0 l = Inr (Some k)" "\<forall>x \<in> set (take k l). ?f x \<le> ?f p"
      "drop k l \<noteq> [] \<longrightarrow> ?f p < ?f (hd (drop k l))"
    using ordered_slot_correct[OF p(2) assms(2), of by_from "g p" 0] by auto
  have "sorted (map ?f (take k l @ drop k l))" using assms(3) by (simp only: append_take_drop_id)
  then have so: "sorted (map ?f (take k l))" "sorted (map ?f (drop k l))" "\<forall>x \<in> set (take k l). \<forall>y \<in> set (drop k l). ?f x \<le> ?f y"
    unfolding map_append sorted_append by auto
  have hd: "\<forall>y \<in> set (drop k l). ?f p \<le> ?f y"
  proof (cases "drop k l")
    case (Cons y ys)
    then show ?thesis using k(4) so(2) by auto
  qed simp
  have "sorted (map ?f (take k l @ p # drop k l))" unfolding map_append sorted_append using so k(3) hd by auto
  then show ?thesis using p(1) k(2) by (intro exI[of _ k]) (simp add: add_contact_to_ordered_list_def)
qed

lemma remove_contact_from_list_correct: "remove_contact_from_list l p = (p \<in> set l, remove1 p l)"
  by (induction l p rule: remove_contact_from_list.induct) auto

section \<open>Capacities\<close>

lemma ucast_scast_u32: "ucast (scast t :: u64) = (t :: u32)"
  by (rule bit_word_eqI) (simp add: bit_ucast_iff bit_signed_iff)

lemma take_bit_32_diff: "take_bit 32 (take_bit 64 n - take_bit 64 m) = take_bit 32 (n - (m :: int))"
proof -
  have "take_bit 32 (take_bit 64 n - take_bit 64 m) = take_bit 32 (take_bit 32 (take_bit 64 n) - take_bit 32 (take_bit 64 m))"
    by (rule take_bit_diff[symmetric])
  also have "\<dots> = take_bit 32 (take_bit 32 n - take_bit 32 m)" unfolding take_bit_take_bit by (simp add: min_def)
  finally show ?thesis unfolding take_bit_diff .
qed

lemma ucast_diff_u32: "ucast (n - m) = (ucast n :: u32) - ucast (m :: u64)"
  by (transfer fixing: ) (simp only: take_bit_diff take_bit_take_bit min.idem, simp add: min_def take_bit_32_diff)

text \<open>
  The total capacity is the product of duration and bitrate, cut to the signed 32-bit range, and what is reserved of each capacity stays reserved.
\<close>

lemma recalculate_contact_capacity_correct:
  shows "unat (c_total_capacity (recalculate_contact_capacity c)) = min (min (unat (c_to c - c_from c)) (2 ^ 32 - 1) * unat (c_bitrate c)) (2 ^ 31 - 1)"
    "c_total_capacity (recalculate_contact_capacity c) - c_remaining_capacity_p0 (recalculate_contact_capacity c) = c_total_capacity c - c_remaining_capacity_p0 c"
proof -
  let ?d = "min (c_to c - c_from c) UINT32_MAX" and ?n = "min (min (c_to c - c_from c) UINT32_MAX * ucast (c_bitrate c)) INT32_MAX"
  have d: "unat ?d = min (unat (c_to c - c_from c)) (2 ^ 32 - 1)"
    by (auto simp: min_def word_le_nat_alt UINT32_MAX_def)
  have b: "unat (c_bitrate c) < 2 ^ 32" using unsigned_less[of "c_bitrate c"] by simp
  have "unat ?d * unat (c_bitrate c) < 2 ^ 64"
  proof -
    have "unat ?d * unat (c_bitrate c) \<le> (2 ^ 32 - 1) * 2 ^ 32" unfolding d using b by (intro mult_le_mono) auto
    then show ?thesis by simp
  qed
  then have pr: "unat (?d * ucast (c_bitrate c)) = unat ?d * unat (c_bitrate c)"
    using unat_mult_lem[of ?d "ucast (c_bitrate c)"] by (simp add: unat_ucast_up)
  then have n: "unat ?n = min (unat ?d * unat (c_bitrate c)) (2 ^ 31 - 1)" by (auto simp: min_def word_le_nat_alt INT32_MAX_def)
  then have lt: "unat ?n < 2 ^ 31" by simp
  have t: "c_total_capacity (recalculate_contact_capacity c) = ucast ?n" by (simp add: recalculate_contact_capacity_def Let_def)
  show "unat (c_total_capacity (recalculate_contact_capacity c)) = min (min (unat (c_to c - c_from c)) (2 ^ 32 - 1) * unat (c_bitrate c)) (2 ^ 31 - 1)"
    unfolding t using lt n d by (simp add: unsigned_ucast_eq take_bit_nat_eq_self)
  have "ucast (?n - scast (c_total_capacity c)) = (ucast ?n :: u32) - c_total_capacity c" by (simp only: ucast_diff_u32 ucast_scast_u32)
  then show "c_total_capacity (recalculate_contact_capacity c) - c_remaining_capacity_p0 (recalculate_contact_capacity c) = c_total_capacity c - c_remaining_capacity_p0 c"
    by (simp add: recalculate_contact_capacity_def Let_def)
qed

section \<open>Coded lists of endpoint identifiers\<close>

lemma takeWhile_nonzero: "0 \<notin> set e \<Longrightarrow> takeWhile (\<lambda>b. b \<noteq> 0) (e @ 0 # r) = (e :: u8 list)"
  by (induction e) auto

lemma eidlist_decode_loop_strings:
  assumes "\<forall>e \<in> set es. 0 \<notin> set e" "unat k + length es < 256"
  shows "eidlist_decode_loop n (concat (map (\<lambda>e. e @ [0]) es)) k res [] =
    (if unat k + length es \<le> unat n then Inr (if unat k + length es = unat n then Some (res @ es) else None, []) else if es = [] then Inr (None, []) else Inl OutOfBounds)"
  using assms
proof (induction es arbitrary: k res)
  case Nil
  then show ?case by (subst eidlist_decode_loop.simps) (auto simp: word_unat_eq_iff)
next
  case (Cons e es)
  let ?r = "concat (map (\<lambda>e. e @ [0]) es)"
  have c: "concat (map (\<lambda>e. e @ [0]) (e # es)) = e @ 0 # ?r" by simp
  have t: "takeWhile (\<lambda>b. b \<noteq> 0) (e @ 0 # ?r) = e" using Cons.prems(1) takeWhile_nonzero by simp
  have k: "unat (k + 1) = unat k + 1" using Cons.prems(2) unat_add_lem[of k 1] by simp
  show ?case
  proof (cases "unat k < unat n")
    case True
    have "eidlist_decode_loop n (e @ 0 # ?r) k res [] = eidlist_decode_loop n ?r (k + 1) (res @ [e]) []"
      using True by (subst eidlist_decode_loop.simps) (simp add: t)
    then show ?thesis unfolding c using Cons.IH[of "k + 1" "res @ [e]"] Cons.prems k True by simp
  next
    case False
    then show ?thesis unfolding c by (subst eidlist_decode_loop.simps) simp
  qed
qed


section \<open>Concrete lists\<close>

definition sample_contact :: "u64 \<Rightarrow> u64 \<Rightarrow> u32 \<Rightarrow> endpoint_list \<Rightarrow> contact" where
  "sample_contact f t r eps = \<lparr>c_node = \<lparr>n_eid = Some ''dtn:a'', n_cla_addr = None, n_flags = NODE_FLAG_NONE, n_endpoints = [], n_contacts = []\<rparr>, c_from = f, c_to = t,
     c_bitrate = r, c_total_capacity = 0, c_remaining_capacity_p0 = 0, c_remaining_capacity_p1 = 0, c_remaining_capacity_p2 = 0, c_contact_endpoints = eps,
     c_contact_bundles = [], c_bundle_count = 0, c_active = False\<rparr>"

lemma sample_contact_fields [simp]: "c_from (sample_contact f t r eps) = f" "c_to (sample_contact f t r eps) = t" "c_bitrate (sample_contact f t r eps) = r"
  "c_contact_endpoints (sample_contact f t r eps) = eps" "\<not> c_active (sample_contact f t r eps)"
  by (simp_all add: sample_contact_def)

text \<open>Two contacts with the same window and different bitrates, and a later one.\<close>

definition sample_contacts :: "nat \<Rightarrow> contact" where
  "sample_contacts p = (if p = 4 then sample_contact 10 20 5 [\<lparr>ep_ptr = 1, ep_eid = ''x''\<rparr>, \<lparr>ep_ptr = 3, ep_eid = ''y''\<rparr>]
     else if p = 2 then sample_contact 10 20 7 [\<lparr>ep_ptr = 2, ep_eid = ''y''\<rparr>] else sample_contact 30 40 5 [])"

definition sample_lists :: list_state where
  "sample_lists = \<lparr>ls_heap = (\<lambda>p. if p \<in> {4, 2, 3} then Some (sample_contacts p) else None), ls_modified = Some [], ls_deleted = Some [], ls_allocs = []\<rparr>"

lemma sample_lists_ok:
  "holds sample_contacts ([4] @ [2, 3]) (ls_heap sample_lists)" "ascending sample_contacts [4]" "ascending sample_contacts [2, 3]" "distinct ([4] @ [2, 3 :: nat])"
  "endpoints_apart sample_contacts [4] [2, 3]" "ls_allocs sample_lists = []" "\<forall>q \<in> set [2, 3]. \<not> c_active (sample_contacts q)"
  by (simp_all add: holds_def sample_lists_def ascending_def sample_contacts_def endpoints_apart_def endpoints_ok_def)

lemma sample_window: "same_window sample_contacts [2, 3] 4 = Some 2"
  by (simp add: same_window_def sample_contacts_def)

theorem contact_list_union_correct_witness:
  "\<exists>res s'. contact_list_union [4] [2, 3] sample_lists = Inr (res, s') \<and> set res = {4, 3} \<and> ls_heap s' 2 = None \<and> ls_modified s' = Some [4]
     \<and> (\<exists>c. ls_heap s' 4 = Some c \<and> c_bitrate c = 7 \<and> eids (c_contact_endpoints c) = {''x'', ''y''})"
proof -
  from contact_list_union_correct[OF sample_lists_ok] obtain res s' where u: "contact_list_union [4] [2, 3] sample_lists = Inr (res, s')"
    "set res = set [4] \<union> {q \<in> set [2, 3]. from_of sample_contacts q \<notin> from_of sample_contacts ` set [4]}"
    "\<forall>p \<in> set [4]. \<exists>c. ls_heap s' p = Some c \<and> (case same_window sample_contacts [2, 3] p of None \<Rightarrow> c = sample_contacts p
        | Some q \<Rightarrow> c_from c = c_from (sample_contacts p) \<and> c_to c = c_to (sample_contacts p) \<and> c_bitrate c = c_bitrate (sample_contacts q)
            \<and> endpoints_ok (c_contact_endpoints c)
            \<and> eids (c_contact_endpoints c) = eids (c_contact_endpoints (sample_contacts p)) \<union> eids (c_contact_endpoints (sample_contacts q)))"
    "\<forall>q. q \<notin> set [4] \<longrightarrow> ls_heap s' q = (if q \<in> set [2, 3] \<and> from_of sample_contacts q \<in> from_of sample_contacts ` set [4] then None else ls_heap sample_lists q)"
    "ls_modified s' = map_option (\<lambda>l. rev (filter (rate_changes sample_contacts [2, 3]) [4]) @ l) (ls_modified sample_lists)"
    by (elim exE conjE) (rule that)
  have 1: "set res = {4, 3}" using u(2) by (auto simp: sample_contacts_def)
  have 2: "ls_heap s' 2 = None" using u(4) by (simp add: sample_contacts_def)
  have 3: "ls_modified s' = Some [4]" using u(5) by (simp add: rate_changes_def sample_window sample_lists_def) (simp add: sample_contacts_def)
  have 4: "\<exists>c. ls_heap s' 4 = Some c \<and> c_bitrate c = 7 \<and> eids (c_contact_endpoints c) = {''x'', ''y''}"
  proof -
    from u(3) obtain c where "ls_heap s' 4 = Some c" "c_bitrate c = c_bitrate (sample_contacts 2)"
        "eids (c_contact_endpoints c) = eids (c_contact_endpoints (sample_contacts 4)) \<union> eids (c_contact_endpoints (sample_contacts 2))"
      by (simp add: sample_window) (elim exE conjE, rule that)
    then show ?thesis by (intro exI[of _ c]) (simp add: sample_contacts_def, blast)
  qed
  show ?thesis by (intro exI[of _ res] exI[of _ s'] conjI u(1) 1 2 3 4)
qed

theorem contact_list_difference_correct_witness:
  "\<exists>s'. contact_list_difference [4] [2, 3] True sample_lists = Inr ([4], s') \<and> ls_heap s' 2 = None \<and> ls_heap s' 3 = Some (sample_contacts 3)
     \<and> ls_heap s' 4 = Some (sample_contact 10 20 5 [\<lparr>ep_ptr = 1, ep_eid = ''x''\<rparr>]) \<and> ls_modified s' = Some [4] \<and> ls_deleted s' = Some []"
proof -
  have g: "\<not> gone sample_contacts [2, 3] 4" "narrowed sample_contacts [2, 3] 4" by (simp_all add: gone_def narrowed_def sample_window sample_contacts_def)
  show ?thesis using contact_list_difference_correct[OF sample_lists_ok, of True]
    by (simp add: g sample_window) (auto simp: sample_contacts_def sample_lists_def sample_contact_def)
qed

definition sample_nested :: "nat \<Rightarrow> contact" where
  "sample_nested p = (if p = 3 then sample_contact 12 15 5 [] else sample_contact 10 20 5 [])"

text \<open>The second contact lies within the first.\<close>

theorem node_verify_accepts_witness:
  "\<exists>nd' h'. node_prepare_and_verify \<lparr>n_eid = Some ''dtn:a'', n_cla_addr = None, n_flags = NODE_FLAG_NONE, n_endpoints = [], n_contacts = [3, 2]\<rparr>
     (\<lambda>p. Some (sample_nested p)) = Inr (True, nd', h') \<and> n_contacts nd' = [2, 3]"
proof -
  let ?nd = "\<lparr>n_eid = Some ''dtn:a'', n_cla_addr = None, n_flags = NODE_FLAG_NONE, n_endpoints = [], n_contacts = [3, 2]\<rparr>"
  have h: "holds sample_nested (n_contacts ?nd) (\<lambda>p. Some (sample_nested p))" "distinct (n_contacts ?nd)"
    "\<forall>p \<in> set (n_contacts ?nd). c_from (sample_nested p) \<le> c_to (sample_nested p)" "distinct (map ep_ptr (n_endpoints ?nd))" "n_eid ?nd = Some ''dtn:a''"
    by (simp_all add: holds_def sample_nested_def)
  have s: "sort_key (from_of sample_nested) [3, 2] = [2, 3]" by (simp add: sample_nested_def)
  from node_verify_accepts[OF h(5,1-4)] show ?thesis by (auto simp: s) (simp_all add: sample_nested_def)
qed


end
