(* ===== verification/Config_Parser.thy ===== *)
theory Config_Parser
  imports Bundle
begin

unbundle bit_operations_syntax

text \<open>
  The parser of configuration commands, \<^verbatim>\<open>components/agents/config_parser.c\<close>, with its client \<^verbatim>\<open>components/agents/config_agent.c\<close>, and the
  agent for management commands, \<^verbatim>\<open>components/agents/management_agent.c\<close>.

  A text under construction is a buffer: the bytes below \<^verbatim>\<open>current_index\<close> and the size of the region, so that \<^verbatim>\<open>current_index\<close> is their number; a write at or
  behind the size is a fault. The pointer to a buffer may be null. The lists of endpoints and contacts only grow at their ends, where \<^verbatim>\<open>current_eid\<close> and
  \<^verbatim>\<open>current_contact\<close> point: the first is the list it points into, the second is null or not. The reliability is kept in units of 1/1000.
\<close>

section \<open>State\<close>

datatype config_parser_stage =
  RP_EXPECT_COMMAND_TYPE | RP_EXPECT_NODE_CONF_START_DELIMITER | RP_EXPECT_NODE_CONF_EID | RP_EXPECT_NODE_CONF_RELIABILITY_SEPARATOR
| RP_EXPECT_NODE_CONF_RELIABILITY | RP_EXPECT_NODE_CONF_CLA_ADDR_SEPARATOR | RP_EXPECT_CLA_ADDR_START_DELIMITER | RP_EXPECT_CLA_ADDR
| RP_EXPECT_CLA_ADDR_NODES_SEPARATOR | RP_EXPECT_NODE_LIST_START_DELIMITER | RP_EXPECT_NODE_START_DELIMITER | RP_EXPECT_NODE_EID
| RP_EXPECT_NODE_SEPARATOR | RP_EXPECT_NODES_CONTACTS_SEPARATOR | RP_EXPECT_CONTACT_LIST_START_DELIMITER | RP_EXPECT_CONTACT_START_DELIMITER
| RP_EXPECT_CONTACT_START_TIME | RP_EXPECT_CONTACT_END_TIME | RP_EXPECT_CONTACT_BITRATE | RP_EXPECT_CONTACT_NODE_LIST_START_DELIMITER
| RP_EXPECT_CONTACT_NODE_START_DELIMITER | RP_EXPECT_CONTACT_NODE_EID | RP_EXPECT_CONTACT_NODE_SEPARATOR | RP_EXPECT_CONTACT_END_DELIMITER
| RP_EXPECT_CONTACT_SEPARATOR | RP_EXPECT_COMMAND_END_MARKER

datatype router_command_type = ROUTER_COMMAND_UNDEFINED | ROUTER_COMMAND_ADD | ROUTER_COMMAND_UPDATE | ROUTER_COMMAND_DELETE | ROUTER_COMMAND_QUERY

record text_buffer =
  tb_chars :: "u8 list"
  tb_size :: nat

record config_contact =
  cc_from :: u64
  cc_to :: u64
  cc_bitrate :: u32
  cc_endpoints :: "text_buffer option list"

record config_node =
  cn_eid :: "text_buffer option"
  cn_cla_addr :: "text_buffer option"
  cn_reliability :: u16
  cn_endpoints :: "text_buffer option list"
  cn_contacts :: "config_contact option list"

record router_command =
  rcmd_type :: router_command_type
  rcmd_data :: "config_node option"

datatype endpoint_target = NodeEndpoints | ContactEndpoints

record config_parser =
  cp_status :: parser_status
  cp_stage :: config_parser_stage
  cp_command :: "router_command option"
  cp_int_data :: "text_buffer option"
  cp_current_eid :: "endpoint_target option"
  cp_current_contact :: bool
  cp_allocs :: alloc_script
  cp_sent :: "router_command list"

record config_env =
  ce_now :: u64
  ce_long_bits :: nat

definition EID_START_DELIMITER :: u8 where "EID_START_DELIMITER = 40"
definition EID_END_DELIMITER :: u8 where "EID_END_DELIMITER = 41"
definition CLA_ADDR_START_DELIMITER :: u8 where "CLA_ADDR_START_DELIMITER = 40"
definition CLA_ADDR_END_DELIMITER :: u8 where "CLA_ADDR_END_DELIMITER = 41"
definition NODE_CONF_RELIABILITY_SEPARATOR :: u8 where "NODE_CONF_RELIABILITY_SEPARATOR = 44"
definition NODE_CONF_CLA_ADDR_SEPARATOR :: u8 where "NODE_CONF_CLA_ADDR_SEPARATOR = 58"
definition CLA_ADDR_NODES_SEPARATOR :: u8 where "CLA_ADDR_NODES_SEPARATOR = 58"
definition LIST_START_DELIMITER :: u8 where "LIST_START_DELIMITER = 91"
definition LIST_END_DELIMITER :: u8 where "LIST_END_DELIMITER = 93"
definition LIST_ELEMENT_SEPARATOR :: u8 where "LIST_ELEMENT_SEPARATOR = 44"
definition OBJECT_START_DELIMITER :: u8 where "OBJECT_START_DELIMITER = 123"
definition OBJECT_END_DELIMITER :: u8 where "OBJECT_END_DELIMITER = 125"
definition OBJECT_ELEMENT_SEPARATOR :: u8 where "OBJECT_ELEMENT_SEPARATOR = 44"
definition NODES_CONTACTS_SEPARATOR :: u8 where "NODES_CONTACTS_SEPARATOR = 58"
definition COMMAND_END_MARKER :: u8 where "COMMAND_END_MARKER = 59"
definition DEFAULT_EID_BUFFER_SIZE :: nat where "DEFAULT_EID_BUFFER_SIZE = 16"
definition DEFAULT_CLA_ADDR_BUFFER_SIZE :: nat where "DEFAULT_CLA_ADDR_BUFFER_SIZE = 21"
definition DEFAULT_INT_BUFFER_SIZE :: nat where "DEFAULT_INT_BUFFER_SIZE = 16"

lemmas config_chars = EID_START_DELIMITER_def EID_END_DELIMITER_def CLA_ADDR_START_DELIMITER_def CLA_ADDR_END_DELIMITER_def
  NODE_CONF_RELIABILITY_SEPARATOR_def NODE_CONF_CLA_ADDR_SEPARATOR_def CLA_ADDR_NODES_SEPARATOR_def LIST_START_DELIMITER_def
  LIST_END_DELIMITER_def LIST_ELEMENT_SEPARATOR_def OBJECT_START_DELIMITER_def OBJECT_END_DELIMITER_def OBJECT_ELEMENT_SEPARATOR_def
  NODES_CONTACTS_SEPARATOR_def COMMAND_END_MARKER_def

lemmas config_sizes = DEFAULT_EID_BUFFER_SIZE_def DEFAULT_CLA_ADDR_BUFFER_SIZE_def DEFAULT_INT_BUFFER_SIZE_def

section \<open>Access to the command\<close>

definition cp_malloc :: "config_parser \<Rightarrow> bool \<times> config_parser" where
  "cp_malloc p = (malloc_ok (cp_allocs p), p\<lparr>cp_allocs := malloc_rest (cp_allocs p)\<rparr>)"

definition cp_node :: "config_parser \<Rightarrow> fault + config_node" where
  "cp_node p = bindE (deref (cp_command p)) (\<lambda>c. deref (rcmd_data c))"

definition cp_set_node :: "config_node \<Rightarrow> config_parser \<Rightarrow> config_parser" where
  "cp_set_node n p = p\<lparr>cp_command := map_option (rcmd_data_update (\<lambda>_. Some n)) (cp_command p)\<rparr>"

definition cp_contact :: "config_parser \<Rightarrow> fault + config_contact" where
  "cp_contact p = bindE (cp_node p) (\<lambda>n. if \<not> cp_current_contact p \<or> cn_contacts n = [] then Inl NullDeref else deref (last (cn_contacts n)))"

definition cp_set_contact :: "config_contact \<Rightarrow> config_parser \<Rightarrow> fault + config_parser" where
  "cp_set_contact c p = bindE (cp_node p) (\<lambda>n. Inr (cp_set_node (n\<lparr>cn_contacts := butlast (cn_contacts n) @ [Some c]\<rparr>) p))"

definition cp_endpoints :: "endpoint_target \<Rightarrow> config_parser \<Rightarrow> fault + text_buffer option list" where
  "cp_endpoints t p = (case t of NodeEndpoints \<Rightarrow> bindE (cp_node p) (\<lambda>n. Inr (cn_endpoints n)) | ContactEndpoints \<Rightarrow> bindE (cp_contact p) (\<lambda>c. Inr (cc_endpoints c)))"

definition cp_set_endpoints :: "endpoint_target \<Rightarrow> text_buffer option list \<Rightarrow> config_parser \<Rightarrow> fault + config_parser" where
  "cp_set_endpoints t es p = (case t of
     NodeEndpoints \<Rightarrow> bindE (cp_node p) (\<lambda>n. Inr (cp_set_node (n\<lparr>cn_endpoints := es\<rparr>) p))
   | ContactEndpoints \<Rightarrow> bindE (cp_contact p) (\<lambda>c. cp_set_contact (c\<lparr>cc_endpoints := es\<rparr>) p))"

definition cp_error :: "config_parser \<Rightarrow> fault + config_parser" where
  "cp_error p = Inr (p\<lparr>cp_status := PARSER_STATUS_ERROR\<rparr>)"

definition cp_goto :: "config_parser_stage \<Rightarrow> config_parser \<Rightarrow> fault + config_parser" where
  "cp_goto st p = Inr (p\<lparr>cp_stage := st\<rparr>)"

definition cp_done :: "config_parser \<Rightarrow> fault + config_parser" where
  "cp_done p = Inr (p\<lparr>cp_status := PARSER_STATUS_DONE\<rparr>)"

section \<open>Texts\<close>

text \<open>
  \<open>store_byte\<close> writes a byte at the current index and grows the region when the index reaches the initial size; a failed \<^verbatim>\<open>realloc\<close> leaves the pointer null.
  \<open>end_text\<close> writes the terminator.
\<close>

definition store_byte :: "nat \<Rightarrow> u8 \<Rightarrow> text_buffer option \<Rightarrow> alloc_script \<Rightarrow> fault + text_buffer option \<times> alloc_script" where
  "store_byte dflt b tb as = bindE (deref tb) (\<lambda>t.
     if \<not> length (tb_chars t) < tb_size t then Inl OutOfBounds
     else let cs = tb_chars t @ [b] in
       Inr (if length cs \<ge> dflt then (if malloc_ok as then Some \<lparr>tb_chars = cs, tb_size = length cs + 1\<rparr> else None, malloc_rest as)
            else (Some (t\<lparr>tb_chars := cs\<rparr>), as)))"

definition end_text :: "text_buffer option \<Rightarrow> fault + text_buffer" where
  "end_text tb = bindE (deref tb) (\<lambda>t. if length (tb_chars t) < tb_size t then Inr t else Inl OutOfBounds)"

definition eid_char :: "u8 \<Rightarrow> bool" where
  "eid_char b \<longleftrightarrow> (0x21 \<le> b \<and> b \<le> 0x5F) \<or> (0x61 \<le> b \<and> b \<le> 0x7A) \<or> b = 0x7E"

definition cla_addr_char :: "u8 \<Rightarrow> bool" where
  "cla_addr_char b \<longleftrightarrow> (48 \<le> b \<and> b \<le> 57) \<or> (65 \<le> b \<and> b \<le> 90) \<or> (97 \<le> b \<and> b \<le> 122) \<or> b = 58 \<or> b = 46 \<or> b = 91 \<or> b = 93"

definition digit_char :: "u8 \<Rightarrow> bool" where
  "digit_char b \<longleftrightarrow> 0x30 \<le> b \<and> b \<le> 0x39"

definition begin_read_data_eid :: "endpoint_target \<Rightarrow> config_parser \<Rightarrow> fault + config_parser" where
  "begin_read_data_eid target p =
    (let (ok1, p1) = cp_malloc p; (ok2, p2) = cp_malloc p1; e = Some \<lparr>tb_chars = [], tb_size = DEFAULT_EID_BUFFER_SIZE\<rparr> in
     if \<not> ok1 \<or> \<not> ok2 then Inl NullDeref
     else case cp_current_eid p2 of
       None \<Rightarrow> bindE (cp_set_endpoints target [e] p2) (\<lambda>p3. Inr (p3\<lparr>cp_current_eid := Some target\<rparr>))
     | Some t \<Rightarrow> bindE (cp_endpoints t p2) (\<lambda>es. cp_set_endpoints t (es @ [e]) p2))"

definition begin_read_node_conf_eid :: "config_parser \<Rightarrow> fault + config_parser" where
  "begin_read_node_conf_eid p = bindE (cp_node p) (\<lambda>n. let (ok, p1) = cp_malloc p in
     if \<not> ok then Inl NullDeref else Inr (cp_set_node (n\<lparr>cn_eid := Some \<lparr>tb_chars = [], tb_size = DEFAULT_EID_BUFFER_SIZE\<rparr>\<rparr>) p1))"

definition begin_read_cla_addr :: "config_parser \<Rightarrow> fault + config_parser" where
  "begin_read_cla_addr p = bindE (cp_node p) (\<lambda>n. let (ok, p1) = cp_malloc p in
     if \<not> ok then Inl NullDeref else Inr (cp_set_node (n\<lparr>cn_cla_addr := Some \<lparr>tb_chars = [], tb_size = DEFAULT_CLA_ADDR_BUFFER_SIZE\<rparr>\<rparr>) p1))"

text \<open>\<^verbatim>\<open>read_eid\<close> also writes the terminator.\<close>

definition read_eid :: "u8 \<Rightarrow> text_buffer option \<Rightarrow> alloc_script \<Rightarrow> fault + bool \<times> text_buffer option \<times> alloc_script" where
  "read_eid b tb as =
    (if eid_char b then bindE (store_byte DEFAULT_EID_BUFFER_SIZE b tb as) (\<lambda>(tb', as'). bindE (end_text tb') (\<lambda>_. Inr (True, tb', as')))
     else Inr (False, tb, as))"

definition read_cla_addr :: "u8 \<Rightarrow> text_buffer option \<Rightarrow> alloc_script \<Rightarrow> fault + bool \<times> text_buffer option \<times> alloc_script" where
  "read_cla_addr b tb as =
    (if cla_addr_char b then bindE (store_byte DEFAULT_CLA_ADDR_BUFFER_SIZE b tb as) (\<lambda>(tb', as'). Inr (True, tb', as'))
     else Inr (False, tb, as))"

definition begin_read_contact :: "config_parser \<Rightarrow> fault + config_parser" where
  "begin_read_contact p = (let (ok1, p1) = cp_malloc p; (ok2, p2) = cp_malloc p1 in
     if \<not> ok1 then Inl NullDeref
     else bindE (cp_node p2) (\<lambda>n.
       let c = (if ok2 then Some \<lparr>cc_from = 0, cc_to = 0, cc_bitrate = 0, cc_endpoints = []\<rparr> else None);
           cs = (if cp_current_contact p2 then cn_contacts n @ [c] else [c]) in
       Inr ((cp_set_node (n\<lparr>cn_contacts := cs\<rparr>) p2)\<lparr>cp_current_contact := True, cp_current_eid := None\<rparr>)))"

definition begin_read_integer :: "config_parser \<Rightarrow> config_parser" where
  "begin_read_integer p = (let (ok, p1) = cp_malloc p in
     p1\<lparr>cp_int_data := (if ok then Some \<lparr>tb_chars = [], tb_size = DEFAULT_INT_BUFFER_SIZE\<rparr> else None)\<rparr>)"

definition read_integer :: "u8 \<Rightarrow> config_parser \<Rightarrow> fault + bool \<times> config_parser" where
  "read_integer b p =
    (if digit_char b then bindE (store_byte DEFAULT_INT_BUFFER_SIZE b (cp_int_data p) (cp_allocs p)) (\<lambda>(tb, as).
       Inr (True, p\<lparr>cp_int_data := tb, cp_allocs := as\<rparr>))
     else Inr (False, p))"

text \<open>
  The decimal value, which \<^verbatim>\<open>strtoull\<close> and \<^verbatim>\<open>strtoul\<close> cut to the range of their results and \<^verbatim>\<open>atoi\<close>, by way of \<^verbatim>\<open>strtol\<close>, to the range of a signed long.
\<close>

definition decimal :: "u8 list \<Rightarrow> nat" where
  "decimal ds = foldl (\<lambda>n d. 10 * n + (unat d - 48)) 0 ds"

definition end_integer :: "config_parser \<Rightarrow> fault + nat \<times> config_parser" where
  "end_integer p = bindE (end_text (cp_int_data p)) (\<lambda>t. Inr (decimal (tb_chars t), p\<lparr>cp_int_data := None\<rparr>))"

definition end_read_uint64 :: "config_parser \<Rightarrow> fault + u64 \<times> config_parser" where
  "end_read_uint64 p = bindE (end_integer p) (\<lambda>(n, p'). Inr (of_nat (min n (2 ^ 64 - 1)), p'))"

definition end_read_uint32 :: "config_env \<Rightarrow> config_parser \<Rightarrow> fault + u32 \<times> config_parser" where
  "end_read_uint32 env p = bindE (end_integer p) (\<lambda>(n, p'). Inr (of_nat (min n (2 ^ ce_long_bits env - 1)), p'))"

definition end_read_uint16 :: "config_env \<Rightarrow> config_parser \<Rightarrow> fault + u16 \<times> config_parser" where
  "end_read_uint16 env p = bindE (end_integer p) (\<lambda>(n, p'). Inr (of_nat (min n (2 ^ (ce_long_bits env - 1) - 1)), p'))"

section \<open>The state machine\<close>

text \<open>A byte of a text: an endpoint of the list that \<^verbatim>\<open>current_eid\<close> points into, or one of the integers.\<close>

definition read_list_eid :: "u8 \<Rightarrow> config_parser \<Rightarrow> fault + bool \<times> config_parser" where
  "read_list_eid b p = bindE (deref (cp_current_eid p)) (\<lambda>t. bindE (cp_endpoints t p) (\<lambda>es.
     if es = [] then Inl NullDeref
     else bindE (read_eid b (last es) (cp_allocs p)) (\<lambda>(ok, tb, as).
       bindE (cp_set_endpoints t (butlast es @ [tb]) (p\<lparr>cp_allocs := as\<rparr>)) (\<lambda>p'. Inr (ok, p')))))"

definition end_list_eid :: "config_parser \<Rightarrow> fault + unit" where
  "end_list_eid p = bindE (deref (cp_current_eid p)) (\<lambda>t. bindE (cp_endpoints t p) (\<lambda>es.
     if es = [] then Inl NullDeref else bindE (end_text (last es)) (\<lambda>_. Inr ())))"

definition or_error :: "fault + bool \<times> config_parser \<Rightarrow> fault + config_parser" where
  "or_error r = bindE r (\<lambda>(ok, p). if ok then Inr p else cp_error p)"

fun read_command :: "config_env \<Rightarrow> u8 \<Rightarrow> config_parser_stage \<Rightarrow> config_parser \<Rightarrow> fault + config_parser" where
  "read_command env b RP_EXPECT_COMMAND_TYPE p = cp_error p"
| "read_command env b RP_EXPECT_NODE_CONF_START_DELIMITER p =
    (if b = EID_START_DELIMITER then bindE (begin_read_node_conf_eid p) (cp_goto RP_EXPECT_NODE_CONF_EID) else cp_error p)"
| "read_command env b RP_EXPECT_NODE_CONF_EID p = bindE (cp_node p) (\<lambda>n.
     if b = EID_END_DELIMITER then bindE (end_text (cn_eid n)) (\<lambda>_. cp_goto RP_EXPECT_NODE_CONF_RELIABILITY_SEPARATOR p)
     else or_error (bindE (read_eid b (cn_eid n) (cp_allocs p)) (\<lambda>(ok, tb, as). Inr (ok, cp_set_node (n\<lparr>cn_eid := tb\<rparr>) (p\<lparr>cp_allocs := as\<rparr>)))))"
| "read_command env b RP_EXPECT_NODE_CONF_RELIABILITY_SEPARATOR p =
    (if b = NODE_CONF_RELIABILITY_SEPARATOR then cp_goto RP_EXPECT_NODE_CONF_RELIABILITY (begin_read_integer p)
     else if b = NODE_CONF_CLA_ADDR_SEPARATOR then cp_goto RP_EXPECT_CLA_ADDR_START_DELIMITER p
     else if b = COMMAND_END_MARKER then cp_done p else cp_error p)"
| "read_command env b RP_EXPECT_NODE_CONF_RELIABILITY p =
    (if b = NODE_CONF_CLA_ADDR_SEPARATOR \<or> b = COMMAND_END_MARKER then
       bindE (end_read_uint16 env p) (\<lambda>(tmp, p1).
         if tmp < 100 \<or> tmp > 1000 then cp_error p1
         else bindE (cp_node p1) (\<lambda>n. bindE (cp_goto RP_EXPECT_CLA_ADDR_START_DELIMITER (cp_set_node (n\<lparr>cn_reliability := tmp\<rparr>) p1)) (\<lambda>p2.
           if b = COMMAND_END_MARKER then cp_done p2 else Inr p2)))
     else or_error (read_integer b p))"
| "read_command env b RP_EXPECT_NODE_CONF_CLA_ADDR_SEPARATOR p =
    (if b = NODE_CONF_CLA_ADDR_SEPARATOR then cp_goto RP_EXPECT_CLA_ADDR_START_DELIMITER p else if b = COMMAND_END_MARKER then cp_done p else cp_error p)"
| "read_command env b RP_EXPECT_CLA_ADDR_START_DELIMITER p =
    (if b = CLA_ADDR_START_DELIMITER then bindE (begin_read_cla_addr p) (cp_goto RP_EXPECT_CLA_ADDR)
     else if b = CLA_ADDR_NODES_SEPARATOR then cp_goto RP_EXPECT_NODE_LIST_START_DELIMITER p
     else if b = COMMAND_END_MARKER then cp_done p else cp_error p)"
| "read_command env b RP_EXPECT_CLA_ADDR p = bindE (cp_node p) (\<lambda>n.
     if b = CLA_ADDR_END_DELIMITER then bindE (end_text (cn_cla_addr n)) (\<lambda>_. cp_goto RP_EXPECT_CLA_ADDR_NODES_SEPARATOR p)
     else or_error (bindE (read_cla_addr b (cn_cla_addr n) (cp_allocs p)) (\<lambda>(ok, tb, as). Inr (ok, cp_set_node (n\<lparr>cn_cla_addr := tb\<rparr>) (p\<lparr>cp_allocs := as\<rparr>)))))"
| "read_command env b RP_EXPECT_CLA_ADDR_NODES_SEPARATOR p =
    (if b = CLA_ADDR_NODES_SEPARATOR then cp_goto RP_EXPECT_NODE_LIST_START_DELIMITER p else if b = COMMAND_END_MARKER then cp_done p else cp_error p)"
| "read_command env b RP_EXPECT_NODE_LIST_START_DELIMITER p =
    (if b = LIST_START_DELIMITER then cp_goto RP_EXPECT_NODE_START_DELIMITER p
     else if b = NODES_CONTACTS_SEPARATOR then cp_goto RP_EXPECT_CONTACT_LIST_START_DELIMITER p
     else if b = COMMAND_END_MARKER then cp_done p else cp_error p)"
| "read_command env b RP_EXPECT_NODE_START_DELIMITER p =
    (if b = EID_START_DELIMITER then bindE (begin_read_data_eid NodeEndpoints p) (cp_goto RP_EXPECT_NODE_EID)
     else if b = LIST_END_DELIMITER then cp_goto RP_EXPECT_NODES_CONTACTS_SEPARATOR p else cp_error p)"
| "read_command env b RP_EXPECT_NODE_EID p =
    (if b = EID_END_DELIMITER then bindE (end_list_eid p) (\<lambda>_. cp_goto RP_EXPECT_NODE_SEPARATOR p) else or_error (read_list_eid b p))"
| "read_command env b RP_EXPECT_NODE_SEPARATOR p =
    (if b = LIST_ELEMENT_SEPARATOR then cp_goto RP_EXPECT_NODE_START_DELIMITER p
     else if b = LIST_END_DELIMITER then cp_goto RP_EXPECT_NODES_CONTACTS_SEPARATOR p else cp_error p)"
| "read_command env b RP_EXPECT_NODES_CONTACTS_SEPARATOR p =
    (if b = NODES_CONTACTS_SEPARATOR then cp_goto RP_EXPECT_CONTACT_LIST_START_DELIMITER p else if b = COMMAND_END_MARKER then cp_done p else cp_error p)"
| "read_command env b RP_EXPECT_CONTACT_LIST_START_DELIMITER p =
    (if b = LIST_START_DELIMITER then cp_goto RP_EXPECT_CONTACT_START_DELIMITER p else if b = COMMAND_END_MARKER then cp_done p else cp_error p)"
| "read_command env b RP_EXPECT_CONTACT_START_DELIMITER p =
    (if b = OBJECT_START_DELIMITER then bindE (begin_read_contact p) (\<lambda>p1. cp_goto RP_EXPECT_CONTACT_START_TIME (begin_read_integer p1))
     else if b = LIST_END_DELIMITER then cp_goto RP_EXPECT_COMMAND_END_MARKER p else cp_error p)"
| "read_command env b RP_EXPECT_CONTACT_START_TIME p =
    (if b = OBJECT_ELEMENT_SEPARATOR then
       bindE (end_read_uint64 p) (\<lambda>(v, p1). bindE (cp_contact p1) (\<lambda>c. bindE (cp_set_contact (c\<lparr>cc_from := v\<rparr>) p1) (\<lambda>p2.
         cp_goto RP_EXPECT_CONTACT_END_TIME (begin_read_integer p2))))
     else or_error (read_integer b p))"
| "read_command env b RP_EXPECT_CONTACT_END_TIME p =
    (if b = OBJECT_ELEMENT_SEPARATOR then
       bindE (end_read_uint64 p) (\<lambda>(v, p1). bindE (cp_contact p1) (\<lambda>c. bindE (cp_set_contact (c\<lparr>cc_to := v\<rparr>) p1) (\<lambda>p2.
         if v > cc_from c \<and> v > ce_now env then cp_goto RP_EXPECT_CONTACT_BITRATE (begin_read_integer p2) else cp_error p2)))
     else or_error (read_integer b p))"
| "read_command env b RP_EXPECT_CONTACT_BITRATE p =
    (if b = OBJECT_ELEMENT_SEPARATOR \<or> b = OBJECT_END_DELIMITER then
       bindE (end_read_uint32 env p) (\<lambda>(v, p1). bindE (cp_contact p1) (\<lambda>c. bindE (cp_set_contact (c\<lparr>cc_bitrate := v\<rparr>) p1)
         (cp_goto (if b = OBJECT_ELEMENT_SEPARATOR then RP_EXPECT_CONTACT_NODE_LIST_START_DELIMITER else RP_EXPECT_CONTACT_SEPARATOR))))
     else or_error (read_integer b p))"
| "read_command env b RP_EXPECT_CONTACT_NODE_LIST_START_DELIMITER p =
    (if b = LIST_START_DELIMITER then cp_goto RP_EXPECT_CONTACT_NODE_START_DELIMITER p else cp_error p)"
| "read_command env b RP_EXPECT_CONTACT_NODE_START_DELIMITER p =
    (if b = EID_START_DELIMITER then bindE (begin_read_data_eid ContactEndpoints p) (cp_goto RP_EXPECT_CONTACT_NODE_EID)
     else if b = LIST_END_DELIMITER then cp_goto RP_EXPECT_CONTACT_END_DELIMITER p else cp_error p)"
| "read_command env b RP_EXPECT_CONTACT_NODE_EID p =
    (if b = EID_END_DELIMITER then bindE (end_list_eid p) (\<lambda>_. cp_goto RP_EXPECT_CONTACT_NODE_SEPARATOR p) else or_error (read_list_eid b p))"
| "read_command env b RP_EXPECT_CONTACT_NODE_SEPARATOR p =
    (if b = LIST_ELEMENT_SEPARATOR then cp_goto RP_EXPECT_CONTACT_NODE_START_DELIMITER p
     else if b = LIST_END_DELIMITER then cp_goto RP_EXPECT_CONTACT_END_DELIMITER p else cp_error p)"
| "read_command env b RP_EXPECT_CONTACT_END_DELIMITER p =
    (if b = OBJECT_END_DELIMITER then cp_goto RP_EXPECT_CONTACT_SEPARATOR p else cp_error p)"
| "read_command env b RP_EXPECT_CONTACT_SEPARATOR p =
    (if b = LIST_ELEMENT_SEPARATOR then cp_goto RP_EXPECT_CONTACT_START_DELIMITER p
     else if b = LIST_END_DELIMITER then cp_goto RP_EXPECT_COMMAND_END_MARKER p else cp_error p)"
| "read_command env b RP_EXPECT_COMMAND_END_MARKER p = (if b = COMMAND_END_MARKER then cp_done p else cp_error p)"

text \<open>The callback is set; the command passes to its recipient.\<close>

definition send_router_command :: "config_parser \<Rightarrow> config_parser" where
  "send_router_command p = p\<lparr>cp_command := None, cp_sent := cp_sent p @ (case cp_command p of None \<Rightarrow> [] | Some c \<Rightarrow> [c])\<rparr>"

definition command_type :: "u8 \<Rightarrow> router_command_type option" where
  "command_type b = (if b = 0x31 then Some ROUTER_COMMAND_ADD else if b = 0x32 then Some ROUTER_COMMAND_UPDATE
     else if b = 0x33 then Some ROUTER_COMMAND_DELETE else if b = 0x34 then Some ROUTER_COMMAND_QUERY else None)"

definition config_parser_read_byte :: "config_env \<Rightarrow> u8 \<Rightarrow> config_parser \<Rightarrow> fault + config_parser" where
  "config_parser_read_byte env b p =
    (if cp_status p \<noteq> PARSER_STATUS_GOOD then Inr p
     else bindE (if cp_stage p = RP_EXPECT_COMMAND_TYPE then
         (let p1 = p\<lparr>cp_stage := RP_EXPECT_NODE_CONF_START_DELIMITER\<rparr> in
          case command_type b of
            Some t \<Rightarrow> bindE (deref (cp_command p1)) (\<lambda>c. Inr (p1\<lparr>cp_command := Some (c\<lparr>rcmd_type := t\<rparr>)\<rparr>))
          | None \<Rightarrow> cp_error p1)
       else bindE (deref (cp_command p)) (\<lambda>_. read_command env b (cp_stage p) p)) (\<lambda>p2.
       Inr (if cp_status p2 = PARSER_STATUS_DONE then send_router_command p2 else p2)))"

definition config_parser_reset :: "config_parser \<Rightarrow> ud3tn_result \<times> config_parser" where
  "config_parser_reset p =
    (if cp_status p = PARSER_STATUS_GOOD \<and> cp_stage p = RP_EXPECT_COMMAND_TYPE then (UD3TN_OK, p)
     else let p1 = p\<lparr>cp_status := PARSER_STATUS_GOOD, cp_stage := RP_EXPECT_COMMAND_TYPE, cp_current_eid := None, cp_current_contact := False,
                     cp_command := None, cp_int_data := None\<rparr>;
              (ok1, p2) = cp_malloc p1 in
       if \<not> ok1 then (UD3TN_FAIL, p2)
       else let (ok2, p3) = cp_malloc p2;
                n = \<lparr>cn_eid = None, cn_cla_addr = None, cn_reliability = 1000, cn_endpoints = [], cn_contacts = []\<rparr>;
                p4 = p3\<lparr>cp_command := Some \<lparr>rcmd_type = ROUTER_COMMAND_UNDEFINED, rcmd_data = (if ok2 then Some n else None)\<rparr>\<rparr> in
         (if ok2 then UD3TN_OK else UD3TN_FAIL, p4))"

fun config_parser_read_loop :: "config_env \<Rightarrow> u8 list \<Rightarrow> nat \<Rightarrow> nat \<Rightarrow> config_parser \<Rightarrow> fault + nat \<times> config_parser" where
  "config_parser_read_loop env [] i len p = Inr (i, p)"
| "config_parser_read_loop env (b # bs) i len p = bindE (config_parser_read_byte env b p) (\<lambda>p1.
     if cp_status p1 = PARSER_STATUS_ERROR then Inr (len, snd (config_parser_reset p1))
     else config_parser_read_loop env bs (Suc i) len p1)"

definition config_parser_read :: "config_env \<Rightarrow> u8 list \<Rightarrow> config_parser \<Rightarrow> fault + nat \<times> config_parser" where
  "config_parser_read env buffer p = config_parser_read_loop env buffer 0 (length buffer) p"

definition config_parser_init :: "alloc_script \<Rightarrow> config_parser option" where
  "config_parser_init as =
    (if \<not> malloc_ok as then None
     else case config_parser_reset \<lparr>cp_status = PARSER_STATUS_ERROR, cp_stage = RP_EXPECT_COMMAND_TYPE, cp_command = None, cp_int_data = None,
            cp_current_eid = None, cp_current_contact = False, cp_allocs = malloc_rest as, cp_sent = []\<rparr> of
       (UD3TN_OK, p) \<Rightarrow> Some p | (UD3TN_FAIL, _) \<Rightarrow> None)"

section \<open>The agents\<close>

text \<open>
  The callback of the configuration agent: without \<^verbatim>\<open>ALLOW_REMOTE_CONFIGURATION\<close> the source must begin with the local endpoint identifier.
\<close>

definition config_agent_callback :: "config_env \<Rightarrow> bool \<Rightarrow> string \<Rightarrow> bundle_adu \<Rightarrow> config_parser \<Rightarrow> fault + config_parser" where
  "config_agent_callback env allow_remote local_eid data p = bindE (deref (adu_source data)) (\<lambda>src.
     if \<not> allow_remote \<and> take (length local_eid) src \<noteq> local_eid then Inr p
     else bindE (read_mem (adu_payload data) (unat (adu_length data))) (\<lambda>buf.
       bindE (config_parser_read env buf (snd (config_parser_reset p))) (\<lambda>(_, p'). Inr p')))"

text \<open>The management agent: the new time, if the payload is a command to set it.\<close>

definition MGMT_CMD_SET_TIME :: u8 where "MGMT_CMD_SET_TIME = 0"

definition management_agent_callback :: "bundle_adu \<Rightarrow> fault + u64 option" where
  "management_agent_callback data =
    (if adu_length data < 1 then Inr None
     else bindE (read_mem (adu_payload data) (unat (adu_length data))) (\<lambda>buf.
       Inr (if buf ! 0 = MGMT_CMD_SET_TIME \<and> adu_length data = 9
            then Some (push_bit 56 (ucast (buf ! 1)) OR push_bit 48 (ucast (buf ! 2)) OR push_bit 40 (ucast (buf ! 3)) OR push_bit 32 (ucast (buf ! 4))
              OR push_bit 24 (ucast (buf ! 5)) OR push_bit 16 (ucast (buf ! 6)) OR push_bit 8 (ucast (buf ! 7)) OR ucast (buf ! 8)) else None)))"

end
