(* ===== verification/Config_Parser_Inv.thy ===== *)
theory Config_Parser_Inv
  imports Config_Parser
begin

text \<open>
  Proofs about the configuration parser: the notation of commands, the round trip from a command through its text to the parsed node, and memory safety
  on every input; with the two agents.
\<close>

section \<open>Commands as texts\<close>

text \<open>The decimal notation and the notation of a command, with the empty parts left out.\<close>

function digits :: "nat \<Rightarrow> u8 list" where
  "digits n = (if n < 10 then [48 + of_nat n] else digits (n div 10) @ [48 + of_nat (n mod 10)])"
  by pat_completeness auto
termination by (relation "measure id") auto

declare digits.simps [simp del]

fun eid_items :: "u8 list list \<Rightarrow> u8 list" where
  "eid_items [] = [LIST_END_DELIMITER]"
| "eid_items [e] = EID_START_DELIMITER # e @ [EID_END_DELIMITER, LIST_END_DELIMITER]"
| "eid_items (e # es) = EID_START_DELIMITER # e @ EID_END_DELIMITER # LIST_ELEMENT_SEPARATOR # eid_items es"

record contact_text =
  ct_from :: nat
  ct_to :: nat
  ct_bitrate :: nat
  ct_endpoints :: "u8 list list"

definition print_contact :: "contact_text \<Rightarrow> u8 list" where
  "print_contact c = OBJECT_START_DELIMITER # digits (ct_from c) @ OBJECT_ELEMENT_SEPARATOR # digits (ct_to c) @ OBJECT_ELEMENT_SEPARATOR # digits (ct_bitrate c)
     @ OBJECT_ELEMENT_SEPARATOR # LIST_START_DELIMITER # eid_items (ct_endpoints c) @ [OBJECT_END_DELIMITER]"

fun contact_items :: "contact_text list \<Rightarrow> u8 list" where
  "contact_items [] = [LIST_END_DELIMITER]"
| "contact_items [c] = print_contact c @ [LIST_END_DELIMITER]"
| "contact_items (c # cs) = print_contact c @ LIST_ELEMENT_SEPARATOR # contact_items cs"

record command_text =
  cmd_type :: u8
  cmd_eid :: "u8 list"
  cmd_reliability :: "nat option"
  cmd_cla_addr :: "u8 list option"
  cmd_endpoints :: "u8 list list"
  cmd_contacts :: "contact_text list"

definition print_command :: "command_text \<Rightarrow> u8 list" where
  "print_command c = cmd_type c # EID_START_DELIMITER # cmd_eid c @ EID_END_DELIMITER
     # (case cmd_reliability c of None \<Rightarrow> [] | Some r \<Rightarrow> NODE_CONF_RELIABILITY_SEPARATOR # digits r)
     @ NODE_CONF_CLA_ADDR_SEPARATOR # (case cmd_cla_addr c of None \<Rightarrow> [] | Some a \<Rightarrow> CLA_ADDR_START_DELIMITER # a @ [CLA_ADDR_END_DELIMITER])
     @ CLA_ADDR_NODES_SEPARATOR # LIST_START_DELIMITER # eid_items (cmd_endpoints c)
     @ NODES_CONTACTS_SEPARATOR # LIST_START_DELIMITER # contact_items (cmd_contacts c) @ [COMMAND_END_MARKER]"

definition eid_valid :: "u8 list \<Rightarrow> bool" where
  "eid_valid e \<longleftrightarrow> (\<forall>b \<in> set e. eid_char b \<and> b \<noteq> EID_END_DELIMITER)"

definition contact_valid :: "config_env \<Rightarrow> contact_text \<Rightarrow> bool" where
  "contact_valid env c \<longleftrightarrow> ct_from c < ct_to c \<and> unat (ce_now env) < ct_to c \<and> ct_to c < 2 ^ 64 \<and> ct_bitrate c < 2 ^ 32 \<and> (\<forall>e \<in> set (ct_endpoints c). eid_valid e)"

definition command_valid :: "config_env \<Rightarrow> command_text \<Rightarrow> bool" where
  "command_valid env c \<longleftrightarrow> command_type (cmd_type c) \<noteq> None \<and> eid_valid (cmd_eid c) \<and> (\<forall>r. cmd_reliability c = Some r \<longrightarrow> 100 \<le> r \<and> r \<le> 1000)
     \<and> (\<forall>a. cmd_cla_addr c = Some a \<longrightarrow> (\<forall>b \<in> set a. cla_addr_char b)) \<and> (\<forall>e \<in> set (cmd_endpoints c). eid_valid e)
     \<and> (\<forall>k \<in> set (cmd_contacts c). contact_valid env k)"

text \<open>The node that a command describes.\<close>

definition text_in :: "nat \<Rightarrow> u8 list \<Rightarrow> text_buffer" where
  "text_in dflt s = \<lparr>tb_chars = s, tb_size = (if dflt \<le> length s then length s + 1 else dflt)\<rparr>"

abbreviation eid_buffer :: "u8 list \<Rightarrow> text_buffer option" where
  "eid_buffer e \<equiv> Some (text_in DEFAULT_EID_BUFFER_SIZE e)"

definition contact_meant :: "contact_text \<Rightarrow> config_contact" where
  "contact_meant c = \<lparr>cc_from = of_nat (ct_from c), cc_to = of_nat (ct_to c), cc_bitrate = of_nat (ct_bitrate c), cc_endpoints = map eid_buffer (ct_endpoints c)\<rparr>"

definition node_meant :: "command_text \<Rightarrow> config_node" where
  "node_meant c = \<lparr>cn_eid = eid_buffer (cmd_eid c), cn_cla_addr = map_option (text_in DEFAULT_CLA_ADDR_BUFFER_SIZE) (cmd_cla_addr c),
     cn_reliability = (case cmd_reliability c of None \<Rightarrow> 1000 | Some r \<Rightarrow> of_nat r), cn_endpoints = map eid_buffer (cmd_endpoints c),
     cn_contacts = map (\<lambda>k. Some (contact_meant k)) (cmd_contacts c)\<rparr>"

section \<open>Decimal notation\<close>

lemma digit_of_nat:
  assumes "d < 10"
  shows "digit_char (48 + of_nat d)" "unat (48 + of_nat d :: u8) = 48 + d"
proof -
  have u: "unat (of_nat d :: u8) = d" using assms by (simp add: unsigned_of_nat take_bit_nat_eq_self)
  then show v: "unat (48 + of_nat d :: u8) = 48 + d" using assms unat_add_lem[of "48 :: u8" "of_nat d"] by simp
  show "digit_char (48 + of_nat d)" using v assms by (simp add: digit_char_def word_le_nat_alt)
qed

lemma digits_chars: "\<forall>b \<in> set (digits n). digit_char b"
proof (induction n rule: digits.induct)
  case (1 n)
  then show ?case using digit_of_nat(1)[of n] digit_of_nat(1)[of "n mod 10"] by (subst digits.simps) auto
qed

lemma decimal_digits [simp]: "decimal (digits n) = n"
proof (induction n rule: digits.induct)
  case (1 n)
  then show ?case using digit_of_nat(2)[of n] digit_of_nat(2)[of "n mod 10"] by (subst digits.simps) (auto simp: decimal_def)
qed

section \<open>Running the parser\<close>

fun feed :: "config_env \<Rightarrow> u8 list \<Rightarrow> config_parser \<Rightarrow> config_parser option" where
  "feed env [] p = Some p"
| "feed env (b # bs) p = (case config_parser_read_byte env b p of Inl _ \<Rightarrow> None
     | Inr p1 \<Rightarrow> if cp_status p1 = PARSER_STATUS_ERROR then None else feed env bs p1)"

lemma feed_append: "feed env (xs @ ys) p = (case feed env xs p of None \<Rightarrow> None | Some p1 \<Rightarrow> feed env ys p1)"
  by (induction xs arbitrary: p) (auto split: sum.splits)

lemma read_loop_feed: "feed env bs p = Some p1 \<Longrightarrow> config_parser_read_loop env (bs @ rest) i len p = config_parser_read_loop env rest (i + length bs) len p1"
  by (induction bs arbitrary: p i) (auto split: sum.splits if_splits)

lemma read_loop_done: "cp_status p = PARSER_STATUS_DONE \<Longrightarrow> config_parser_read_loop env rest i len p = Inr (i + length rest, p)"
  by (induction rest arbitrary: i) (auto simp: config_parser_read_byte_def)

text \<open>A parser in the middle of a command.\<close>

definition parser_at :: "router_command_type \<Rightarrow> config_parser_stage \<Rightarrow> config_node \<Rightarrow> text_buffer option \<Rightarrow> endpoint_target option \<Rightarrow> bool \<Rightarrow> router_command list \<Rightarrow> config_parser" where
  "parser_at ty st n ib ce cc sent = \<lparr>cp_status = PARSER_STATUS_GOOD, cp_stage = st, cp_command = Some \<lparr>rcmd_type = ty, rcmd_data = Some n\<rparr>,
     cp_int_data = ib, cp_current_eid = ce, cp_current_contact = cc, cp_allocs = [], cp_sent = sent\<rparr>"

lemma feed_at: "st \<noteq> RP_EXPECT_COMMAND_TYPE \<Longrightarrow> read_command env b st (parser_at ty st n ib ce cc sent) = Inr (parser_at ty' st' n' ib' ce' cc' sent') \<Longrightarrow>
    feed env (b # bs) (parser_at ty st n ib ce cc sent) = feed env bs (parser_at ty' st' n' ib' ce' cc' sent')"
  by (simp add: config_parser_read_byte_def parser_at_def)

lemma store_byte_text: "0 < dflt \<Longrightarrow> store_byte dflt b (Some (text_in dflt s)) [] = Inr (Some (text_in dflt (s @ [b])), [])"
  by (simp add: store_byte_def text_in_def)

lemma end_text_in: "0 < dflt \<Longrightarrow> end_text (Some (text_in dflt s)) = Inr (text_in dflt s)"
  by (simp add: end_text_def text_in_def)

lemma new_text: "0 < dflt \<Longrightarrow> \<lparr>tb_chars = [], tb_size = dflt\<rparr> = text_in dflt []"
  by (simp add: text_in_def)

lemma sizes_pos [simp]: "0 < DEFAULT_EID_BUFFER_SIZE" "0 < DEFAULT_CLA_ADDR_BUFFER_SIZE" "0 < DEFAULT_INT_BUFFER_SIZE"
  by (simp_all add: config_sizes)

lemmas cp_simps = parser_at_def cp_node_def cp_set_node_def cp_contact_def cp_set_contact_def cp_endpoints_def cp_set_endpoints_def cp_goto_def cp_error_def cp_done_def
  or_error_def store_byte_text end_text_in new_text cp_malloc_def

lemma feed_node_eid:
  "eid_valid s \<Longrightarrow> feed env s (parser_at ty RP_EXPECT_NODE_CONF_EID (n\<lparr>cn_eid := eid_buffer t\<rparr>) ib ce cc sent)
    = Some (parser_at ty RP_EXPECT_NODE_CONF_EID (n\<lparr>cn_eid := eid_buffer (t @ s)\<rparr>) ib ce cc sent)"
proof (induction s arbitrary: t)
  case (Cons b s)
  have "read_command env b RP_EXPECT_NODE_CONF_EID (parser_at ty RP_EXPECT_NODE_CONF_EID (n\<lparr>cn_eid := eid_buffer t\<rparr>) ib ce cc sent)
      = Inr (parser_at ty RP_EXPECT_NODE_CONF_EID (n\<lparr>cn_eid := eid_buffer (t @ [b])\<rparr>) ib ce cc sent)"
    using Cons.prems by (simp add: eid_valid_def read_eid_def cp_simps)
  then show ?case using Cons feed_at[where st = RP_EXPECT_NODE_CONF_EID] by (simp add: eid_valid_def del: feed.simps)
qed simp

lemma feed_cla_addr:
  "\<forall>b \<in> set s. cla_addr_char b \<Longrightarrow> feed env s (parser_at ty RP_EXPECT_CLA_ADDR (n\<lparr>cn_cla_addr := Some (text_in DEFAULT_CLA_ADDR_BUFFER_SIZE t)\<rparr>) ib ce cc sent)
    = Some (parser_at ty RP_EXPECT_CLA_ADDR (n\<lparr>cn_cla_addr := Some (text_in DEFAULT_CLA_ADDR_BUFFER_SIZE (t @ s))\<rparr>) ib ce cc sent)"
proof (induction s arbitrary: t)
  case (Cons b s)
  have "b \<noteq> CLA_ADDR_END_DELIMITER" using Cons.prems by (auto simp: cla_addr_char_def config_chars)
  then have "read_command env b RP_EXPECT_CLA_ADDR (parser_at ty RP_EXPECT_CLA_ADDR (n\<lparr>cn_cla_addr := Some (text_in DEFAULT_CLA_ADDR_BUFFER_SIZE t)\<rparr>) ib ce cc sent)
      = Inr (parser_at ty RP_EXPECT_CLA_ADDR (n\<lparr>cn_cla_addr := Some (text_in DEFAULT_CLA_ADDR_BUFFER_SIZE (t @ [b]))\<rparr>) ib ce cc sent)"
    using Cons.prems by (simp add: read_cla_addr_def cp_simps)
  then show ?case using Cons feed_at[where st = RP_EXPECT_CLA_ADDR] by (simp del: feed.simps)
qed simp

definition int_stage :: "config_parser_stage \<Rightarrow> bool" where
  "int_stage st \<longleftrightarrow> st \<in> {RP_EXPECT_NODE_CONF_RELIABILITY, RP_EXPECT_CONTACT_START_TIME, RP_EXPECT_CONTACT_END_TIME, RP_EXPECT_CONTACT_BITRATE}"

lemma digit_not_delimiter: "digit_char b \<Longrightarrow> b \<noteq> 44 \<and> b \<noteq> 58 \<and> b \<noteq> 59 \<and> b \<noteq> 125"
  by (auto simp: digit_char_def)

lemma feed_integer:
  assumes "int_stage st" "\<forall>b \<in> set s. digit_char b"
  shows "feed env s (parser_at ty st n (Some (text_in DEFAULT_INT_BUFFER_SIZE t)) ce cc sent)
    = Some (parser_at ty st n (Some (text_in DEFAULT_INT_BUFFER_SIZE (t @ s))) ce cc sent)"
  using assms(2)
proof (induction s arbitrary: t)
  case (Cons b s)
  have "read_command env b st (parser_at ty st n (Some (text_in DEFAULT_INT_BUFFER_SIZE t)) ce cc sent)
      = Inr (parser_at ty st n (Some (text_in DEFAULT_INT_BUFFER_SIZE (t @ [b]))) ce cc sent)"
    using assms(1) Cons.prems digit_not_delimiter[of b] by (auto simp: int_stage_def read_integer_def config_chars cp_simps)
  moreover have "st \<noteq> RP_EXPECT_COMMAND_TYPE" using assms(1) by (auto simp: int_stage_def)
  ultimately show ?case using Cons feed_at[where st = st] by (simp del: feed.simps)
qed simp

section \<open>Lists of endpoints\<close>

lemma feed_node_list_eid:
  "eid_valid s \<Longrightarrow> feed env s (parser_at ty RP_EXPECT_NODE_EID (n\<lparr>cn_endpoints := es @ [eid_buffer t]\<rparr>) ib (Some NodeEndpoints) cc sent)
    = Some (parser_at ty RP_EXPECT_NODE_EID (n\<lparr>cn_endpoints := es @ [eid_buffer (t @ s)]\<rparr>) ib (Some NodeEndpoints) cc sent)"
proof (induction s arbitrary: t)
  case (Cons b s)
  have "read_command env b RP_EXPECT_NODE_EID (parser_at ty RP_EXPECT_NODE_EID (n\<lparr>cn_endpoints := es @ [eid_buffer t]\<rparr>) ib (Some NodeEndpoints) cc sent)
      = Inr (parser_at ty RP_EXPECT_NODE_EID (n\<lparr>cn_endpoints := es @ [eid_buffer (t @ [b])]\<rparr>) ib (Some NodeEndpoints) cc sent)"
    using Cons.prems by (simp add: eid_valid_def read_list_eid_def read_eid_def cp_simps)
  then show ?case using Cons feed_at[where st = RP_EXPECT_NODE_EID] by (simp add: eid_valid_def del: feed.simps)
qed simp

lemma feed_contact_list_eid:
  "eid_valid s \<Longrightarrow> feed env s (parser_at ty RP_EXPECT_CONTACT_NODE_EID (n\<lparr>cn_contacts := ks @ [Some (k\<lparr>cc_endpoints := es @ [eid_buffer t]\<rparr>)]\<rparr>) ib (Some ContactEndpoints) True sent)
    = Some (parser_at ty RP_EXPECT_CONTACT_NODE_EID (n\<lparr>cn_contacts := ks @ [Some (k\<lparr>cc_endpoints := es @ [eid_buffer (t @ s)]\<rparr>)]\<rparr>) ib (Some ContactEndpoints) True sent)"
proof (induction s arbitrary: t)
  case (Cons b s)
  have "read_command env b RP_EXPECT_CONTACT_NODE_EID
        (parser_at ty RP_EXPECT_CONTACT_NODE_EID (n\<lparr>cn_contacts := ks @ [Some (k\<lparr>cc_endpoints := es @ [eid_buffer t]\<rparr>)]\<rparr>) ib (Some ContactEndpoints) True sent)
      = Inr (parser_at ty RP_EXPECT_CONTACT_NODE_EID (n\<lparr>cn_contacts := ks @ [Some (k\<lparr>cc_endpoints := es @ [eid_buffer (t @ [b])]\<rparr>)]\<rparr>) ib (Some ContactEndpoints) True sent)"
    using Cons.prems by (simp add: eid_valid_def read_list_eid_def read_eid_def cp_simps)
  then show ?case using Cons feed_at[where st = RP_EXPECT_CONTACT_NODE_EID] by (simp add: eid_valid_def del: feed.simps)
qed simp

text \<open>The pointer to the last endpoint of a list.\<close>

definition last_of :: "endpoint_target \<Rightarrow> 'a list \<Rightarrow> endpoint_target option" where
  "last_of t es = (if es = [] then None else Some t)"

abbreviation node_eids_at :: "router_command_type \<Rightarrow> config_parser_stage \<Rightarrow> config_node \<Rightarrow> text_buffer option \<Rightarrow> bool \<Rightarrow> router_command list \<Rightarrow> u8 list list \<Rightarrow> config_parser" where
  "node_eids_at ty st n ib cc sent es \<equiv> parser_at ty st (n\<lparr>cn_endpoints := map eid_buffer es\<rparr>) ib (last_of NodeEndpoints es) cc sent"

abbreviation contact_eids_at :: "router_command_type \<Rightarrow> config_parser_stage \<Rightarrow> config_node \<Rightarrow> config_contact option list \<Rightarrow> config_contact \<Rightarrow> text_buffer option
    \<Rightarrow> router_command list \<Rightarrow> u8 list list \<Rightarrow> config_parser" where
  "contact_eids_at ty st n ks k ib sent es \<equiv>
    parser_at ty st (n\<lparr>cn_contacts := ks @ [Some (k\<lparr>cc_endpoints := map eid_buffer es\<rparr>)]\<rparr>) ib (last_of ContactEndpoints es) True sent"

lemma feed_node_item:
  assumes "eid_valid e"
  shows "feed env (EID_START_DELIMITER # e @ EID_END_DELIMITER # rest) (node_eids_at ty RP_EXPECT_NODE_START_DELIMITER n ib cc sent es)
    = feed env rest (node_eids_at ty RP_EXPECT_NODE_SEPARATOR n ib cc sent (es @ [e]))"
proof -
  have 1: "read_command env EID_START_DELIMITER RP_EXPECT_NODE_START_DELIMITER (node_eids_at ty RP_EXPECT_NODE_START_DELIMITER n ib cc sent es)
      = Inr (parser_at ty RP_EXPECT_NODE_EID (n\<lparr>cn_endpoints := map eid_buffer es @ [eid_buffer []]\<rparr>) ib (Some NodeEndpoints) cc sent)"
    by (cases "es = []") (auto simp: begin_read_data_eid_def last_of_def cp_simps)
  have 2: "read_command env EID_END_DELIMITER RP_EXPECT_NODE_EID (parser_at ty RP_EXPECT_NODE_EID (n\<lparr>cn_endpoints := map eid_buffer es @ [eid_buffer e]\<rparr>) ib (Some NodeEndpoints) cc sent)
      = Inr (node_eids_at ty RP_EXPECT_NODE_SEPARATOR n ib cc sent (es @ [e]))"
    by (simp add: end_list_eid_def last_of_def cp_simps)
  have ne: "RP_EXPECT_NODE_START_DELIMITER \<noteq> RP_EXPECT_COMMAND_TYPE" "RP_EXPECT_NODE_EID \<noteq> RP_EXPECT_COMMAND_TYPE"
    "RP_EXPECT_CONTACT_NODE_START_DELIMITER \<noteq> RP_EXPECT_COMMAND_TYPE" "RP_EXPECT_CONTACT_NODE_EID \<noteq> RP_EXPECT_COMMAND_TYPE" by simp_all
  show ?thesis unfolding feed_at[OF ne(1) 1] feed_append feed_node_list_eid[OF assms] option.case append_Nil feed_at[OF ne(2) 2] ..
qed

lemma feed_contact_item:
  assumes "eid_valid e"
  shows "feed env (EID_START_DELIMITER # e @ EID_END_DELIMITER # rest) (contact_eids_at ty RP_EXPECT_CONTACT_NODE_START_DELIMITER n ks k ib sent es)
    = feed env rest (contact_eids_at ty RP_EXPECT_CONTACT_NODE_SEPARATOR n ks k ib sent (es @ [e]))"
proof -
  have 1: "read_command env EID_START_DELIMITER RP_EXPECT_CONTACT_NODE_START_DELIMITER (contact_eids_at ty RP_EXPECT_CONTACT_NODE_START_DELIMITER n ks k ib sent es)
      = Inr (parser_at ty RP_EXPECT_CONTACT_NODE_EID (n\<lparr>cn_contacts := ks @ [Some (k\<lparr>cc_endpoints := map eid_buffer es @ [eid_buffer []]\<rparr>)]\<rparr>) ib (Some ContactEndpoints) True sent)"
    by (cases "es = []") (auto simp: begin_read_data_eid_def last_of_def cp_simps)
  have 2: "read_command env EID_END_DELIMITER RP_EXPECT_CONTACT_NODE_EID
        (parser_at ty RP_EXPECT_CONTACT_NODE_EID (n\<lparr>cn_contacts := ks @ [Some (k\<lparr>cc_endpoints := map eid_buffer es @ [eid_buffer e]\<rparr>)]\<rparr>) ib (Some ContactEndpoints) True sent)
      = Inr (contact_eids_at ty RP_EXPECT_CONTACT_NODE_SEPARATOR n ks k ib sent (es @ [e]))"
    by (simp add: end_list_eid_def last_of_def cp_simps)
  have ne: "RP_EXPECT_NODE_START_DELIMITER \<noteq> RP_EXPECT_COMMAND_TYPE" "RP_EXPECT_NODE_EID \<noteq> RP_EXPECT_COMMAND_TYPE"
    "RP_EXPECT_CONTACT_NODE_START_DELIMITER \<noteq> RP_EXPECT_COMMAND_TYPE" "RP_EXPECT_CONTACT_NODE_EID \<noteq> RP_EXPECT_COMMAND_TYPE" by simp_all
  show ?thesis unfolding feed_at[OF ne(3) 1] feed_append feed_contact_list_eid[OF assms] option.case append_Nil feed_at[OF ne(4) 2] ..
qed

lemma feed_node_items:
  "\<forall>e \<in> set es. eid_valid e \<Longrightarrow> feed env (eid_items es @ rest) (node_eids_at ty RP_EXPECT_NODE_START_DELIMITER n ib cc sent es0)
    = feed env rest (node_eids_at ty RP_EXPECT_NODES_CONTACTS_SEPARATOR n ib cc sent (es0 @ es))"
proof (induction es arbitrary: es0 rule: eid_items.induct)
  case 1
  have "read_command env LIST_END_DELIMITER RP_EXPECT_NODE_START_DELIMITER (node_eids_at ty RP_EXPECT_NODE_START_DELIMITER n ib cc sent es0)
      = Inr (node_eids_at ty RP_EXPECT_NODES_CONTACTS_SEPARATOR n ib cc sent es0)" by (simp add: config_chars cp_simps)
  from feed_at[OF _ this] show ?case by (simp del: feed.simps)
next
  case (2 e)
  have "read_command env LIST_END_DELIMITER RP_EXPECT_NODE_SEPARATOR (node_eids_at ty RP_EXPECT_NODE_SEPARATOR n ib cc sent (es0 @ [e]))
      = Inr (node_eids_at ty RP_EXPECT_NODES_CONTACTS_SEPARATOR n ib cc sent (es0 @ [e]))" by (simp add: config_chars cp_simps)
  from feed_at[OF _ this] show ?case using 2 feed_node_item[of e] by (simp del: feed.simps map_append)
next
  case (3 e v va)
  have "read_command env LIST_ELEMENT_SEPARATOR RP_EXPECT_NODE_SEPARATOR (node_eids_at ty RP_EXPECT_NODE_SEPARATOR n ib cc sent (es0 @ [e]))
      = Inr (node_eids_at ty RP_EXPECT_NODE_START_DELIMITER n ib cc sent (es0 @ [e]))" by (simp add: config_chars cp_simps)
  from feed_at[OF _ this] show ?case using 3 feed_node_item[of e] by (simp del: feed.simps map_append)
qed

lemma feed_contact_endpoints:
  "\<forall>e \<in> set es. eid_valid e \<Longrightarrow> feed env (eid_items es @ rest) (contact_eids_at ty RP_EXPECT_CONTACT_NODE_START_DELIMITER n ks k ib sent es0)
    = feed env rest (contact_eids_at ty RP_EXPECT_CONTACT_END_DELIMITER n ks k ib sent (es0 @ es))"
proof (induction es arbitrary: es0 rule: eid_items.induct)
  case 1
  have "read_command env LIST_END_DELIMITER RP_EXPECT_CONTACT_NODE_START_DELIMITER (contact_eids_at ty RP_EXPECT_CONTACT_NODE_START_DELIMITER n ks k ib sent es0)
      = Inr (contact_eids_at ty RP_EXPECT_CONTACT_END_DELIMITER n ks k ib sent es0)" by (simp add: config_chars cp_simps)
  from feed_at[OF _ this] show ?case by (simp del: feed.simps)
next
  case (2 e)
  have "read_command env LIST_END_DELIMITER RP_EXPECT_CONTACT_NODE_SEPARATOR (contact_eids_at ty RP_EXPECT_CONTACT_NODE_SEPARATOR n ks k ib sent (es0 @ [e]))
      = Inr (contact_eids_at ty RP_EXPECT_CONTACT_END_DELIMITER n ks k ib sent (es0 @ [e]))" by (simp add: config_chars cp_simps)
  from feed_at[OF _ this] show ?case using 2 feed_contact_item[of e] by (simp del: feed.simps map_append)
next
  case (3 e v va)
  have "read_command env LIST_ELEMENT_SEPARATOR RP_EXPECT_CONTACT_NODE_SEPARATOR (contact_eids_at ty RP_EXPECT_CONTACT_NODE_SEPARATOR n ks k ib sent (es0 @ [e]))
      = Inr (contact_eids_at ty RP_EXPECT_CONTACT_NODE_START_DELIMITER n ks k ib sent (es0 @ [e]))" by (simp add: config_chars cp_simps)
  from feed_at[OF _ this] show ?case using 3 feed_contact_item[of e] by (simp del: feed.simps map_append)
qed

section \<open>Contacts\<close>

lemma feed_number:
  assumes "int_stage st"
    "read_command env d st (parser_at ty st n (Some (text_in DEFAULT_INT_BUFFER_SIZE (digits v))) ce cc sent) = Inr (parser_at ty' st' n' ib' ce' cc' sent')"
  shows "feed env (digits v @ d # rest) (parser_at ty st n (Some (text_in DEFAULT_INT_BUFFER_SIZE [])) ce cc sent) = feed env rest (parser_at ty' st' n' ib' ce' cc' sent')"
proof -
  have "st \<noteq> RP_EXPECT_COMMAND_TYPE" using assms(1) by (auto simp: int_stage_def)
  note s = feed_at[OF this assms(2)]
  show ?thesis unfolding feed_append feed_integer[OF assms(1) digits_chars] option.case append_Nil s ..
qed

lemma end_integer_digits:
  "end_integer (parser_at ty st n (Some (text_in DEFAULT_INT_BUFFER_SIZE (digits v))) ce cc sent) = Inr (v, parser_at ty st n None ce cc sent)"
  by (simp add: end_integer_def parser_at_def end_text_in) (simp add: text_in_def)

lemma begin_integer_at: "begin_read_integer (parser_at ty st n ib ce cc sent) = parser_at ty st n (Some (text_in DEFAULT_INT_BUFFER_SIZE [])) ce cc sent"
  by (simp add: begin_read_integer_def cp_malloc_def parser_at_def new_text)

lemma current_contact_at:
  assumes "cn_contacts n = ks @ [Some k]"
  shows "cp_contact (parser_at ty st n ib ce True sent) = Inr k"
    "cp_set_contact k' (parser_at ty st n ib ce True sent) = Inr (parser_at ty st (n\<lparr>cn_contacts := ks @ [Some k']\<rparr>) ib ce True sent)"
  using assms by (simp_all add: cp_simps)

lemma goto_at: "cp_goto st' (parser_at ty st n ib ce cc sent) = Inr (parser_at ty st' n ib ce cc sent)"
  by (simp add: cp_goto_def parser_at_def)

lemma feed_contact:
  assumes "contact_valid env c" "32 \<le> ce_long_bits env"
  shows "feed env (print_contact c @ rest) (parser_at ty RP_EXPECT_CONTACT_START_DELIMITER (n\<lparr>cn_contacts := ks\<rparr>) None ce (ks \<noteq> []) sent)
    = feed env rest (parser_at ty RP_EXPECT_CONTACT_SEPARATOR (n\<lparr>cn_contacts := ks @ [Some (contact_meant c)]\<rparr>) None (last_of ContactEndpoints (ct_endpoints c)) True sent)"
proof -
  let ?n = "\<lambda>k. n\<lparr>cn_contacts := ks @ [Some k]\<rparr>" and ?i = "Some (text_in DEFAULT_INT_BUFFER_SIZE [])"
  let ?k0 = "\<lparr>cc_from = 0, cc_to = 0, cc_bitrate = 0, cc_endpoints = []\<rparr> :: config_contact"
  let ?k1 = "?k0\<lparr>cc_from := of_nat (ct_from c)\<rparr>" 
  let ?k2 = "?k1\<lparr>cc_to := of_nat (ct_to c)\<rparr>"
  let ?k3 = "?k2\<lparr>cc_bitrate := of_nat (ct_bitrate c)\<rparr>"
  have v: "ct_from c < ct_to c" "unat (ce_now env) < ct_to c" "ct_to c < 2 ^ 64" "ct_bitrate c < 2 ^ 32" "\<forall>e \<in> set (ct_endpoints c). eid_valid e"
    using assms(1) by (simp_all add: contact_valid_def)
  have m: "min (ct_from c) (2 ^ 64 - 1) = ct_from c" "min (ct_to c) (2 ^ 64 - 1) = ct_to c" "min (ct_bitrate c) (2 ^ ce_long_bits env - 1) = ct_bitrate c"
  proof -
    have "(2 :: nat) ^ 32 \<le> 2 ^ ce_long_bits env" using assms(2) by (rule power_increasing) simp
    then show "min (ct_bitrate c) (2 ^ ce_long_bits env - 1) = ct_bitrate c" using v(4) by simp
  qed (use v in simp_all)
  have u: "unat (of_nat (ct_from c) :: u64) = ct_from c" "unat (of_nat (ct_to c) :: u64) = ct_to c"
    using v by (simp_all add: unsigned_of_nat take_bit_nat_eq_self)
  have gt: "(of_nat (ct_from c) :: u64) < of_nat (ct_to c)" "ce_now env < of_nat (ct_to c)" using u v by (simp_all add: word_less_nat_alt)
  have 1: "read_command env OBJECT_START_DELIMITER RP_EXPECT_CONTACT_START_DELIMITER
      (parser_at ty RP_EXPECT_CONTACT_START_DELIMITER (n\<lparr>cn_contacts := ks\<rparr>) None ce (ks \<noteq> []) sent) = Inr (parser_at ty RP_EXPECT_CONTACT_START_TIME (?n ?k0) ?i None True sent)"
    by (cases "ks = []") (auto simp: begin_read_contact_def begin_read_integer_def cp_simps)
  have 2: "read_command env OBJECT_ELEMENT_SEPARATOR RP_EXPECT_CONTACT_START_TIME
      (parser_at ty RP_EXPECT_CONTACT_START_TIME (?n ?k0) (Some (text_in DEFAULT_INT_BUFFER_SIZE (digits (ct_from c)))) None True sent)
      = Inr (parser_at ty RP_EXPECT_CONTACT_END_TIME (?n ?k1) ?i None True sent)"
    using m(1) current_contact_at[of "?n ?k0" ks ?k0] by (simp add: end_read_uint64_def end_integer_digits begin_integer_at goto_at)
  have 3: "read_command env OBJECT_ELEMENT_SEPARATOR RP_EXPECT_CONTACT_END_TIME
      (parser_at ty RP_EXPECT_CONTACT_END_TIME (?n ?k1) (Some (text_in DEFAULT_INT_BUFFER_SIZE (digits (ct_to c)))) None True sent)
      = Inr (parser_at ty RP_EXPECT_CONTACT_BITRATE (?n ?k2) ?i None True sent)"
    using m(2) gt current_contact_at[of "?n ?k1" ks ?k1] by (simp add: end_read_uint64_def end_integer_digits begin_integer_at goto_at)
  have 4: "read_command env OBJECT_ELEMENT_SEPARATOR RP_EXPECT_CONTACT_BITRATE
      (parser_at ty RP_EXPECT_CONTACT_BITRATE (?n ?k2) (Some (text_in DEFAULT_INT_BUFFER_SIZE (digits (ct_bitrate c)))) None True sent)
      = Inr (parser_at ty RP_EXPECT_CONTACT_NODE_LIST_START_DELIMITER (?n ?k3) None None True sent)"
    using m(3) current_contact_at[of "?n ?k2" ks ?k2] by (simp add: end_read_uint32_def end_integer_digits goto_at)
  have 5: "read_command env LIST_START_DELIMITER RP_EXPECT_CONTACT_NODE_LIST_START_DELIMITER (parser_at ty RP_EXPECT_CONTACT_NODE_LIST_START_DELIMITER (?n ?k3) None None True sent)
      = Inr (contact_eids_at ty RP_EXPECT_CONTACT_NODE_START_DELIMITER n ks ?k3 None sent [])"
    by (simp add: goto_at last_of_def)
  have 6: "read_command env OBJECT_END_DELIMITER RP_EXPECT_CONTACT_END_DELIMITER (contact_eids_at ty RP_EXPECT_CONTACT_END_DELIMITER n ks ?k3 None sent (ct_endpoints c))
      = Inr (parser_at ty RP_EXPECT_CONTACT_SEPARATOR (?n (contact_meant c)) None (last_of ContactEndpoints (ct_endpoints c)) True sent)"
    by (simp add: goto_at contact_meant_def)
  have ne: "RP_EXPECT_CONTACT_START_DELIMITER \<noteq> RP_EXPECT_COMMAND_TYPE" "RP_EXPECT_CONTACT_NODE_LIST_START_DELIMITER \<noteq> RP_EXPECT_COMMAND_TYPE"
    "RP_EXPECT_CONTACT_END_DELIMITER \<noteq> RP_EXPECT_COMMAND_TYPE" by simp_all
  have ist: "int_stage RP_EXPECT_CONTACT_START_TIME" "int_stage RP_EXPECT_CONTACT_END_TIME" "int_stage RP_EXPECT_CONTACT_BITRATE" by (simp_all add: int_stage_def)
  show ?thesis unfolding print_contact_def append_Cons append_assoc append_Nil feed_at[OF ne(1) 1] feed_number[OF ist(1) 2] feed_number[OF ist(2) 3] feed_number[OF ist(3) 4]
      feed_at[OF ne(2) 5] feed_contact_endpoints[OF v(5)] feed_at[OF ne(3) 6] ..
qed

lemma feed_contact_items:
  assumes "32 \<le> ce_long_bits env"
  shows "\<forall>k \<in> set cs. contact_valid env k \<Longrightarrow> \<exists>ce'. \<forall>rest. feed env (contact_items cs @ rest)
      (parser_at ty RP_EXPECT_CONTACT_START_DELIMITER (n\<lparr>cn_contacts := ks\<rparr>) None ce (ks \<noteq> []) sent)
    = feed env rest (parser_at ty RP_EXPECT_COMMAND_END_MARKER (n\<lparr>cn_contacts := ks @ map (\<lambda>k. Some (contact_meant k)) cs\<rparr>) None ce' (ks \<noteq> [] \<or> cs \<noteq> []) sent)"
proof (induction cs arbitrary: ks ce rule: contact_items.induct)
  case 1
  have "read_command env LIST_END_DELIMITER RP_EXPECT_CONTACT_START_DELIMITER (parser_at ty RP_EXPECT_CONTACT_START_DELIMITER (n\<lparr>cn_contacts := ks\<rparr>) None ce (ks \<noteq> []) sent)
      = Inr (parser_at ty RP_EXPECT_COMMAND_END_MARKER (n\<lparr>cn_contacts := ks\<rparr>) None ce (ks \<noteq> []) sent)" by (simp add: config_chars goto_at)
  from feed_at[OF _ this] show ?case by (intro exI[of _ ce]) (simp del: feed.simps)
next
  case (2 c)
  let ?ce = "last_of ContactEndpoints (ct_endpoints c)"
  have "read_command env LIST_END_DELIMITER RP_EXPECT_CONTACT_SEPARATOR
      (parser_at ty RP_EXPECT_CONTACT_SEPARATOR (n\<lparr>cn_contacts := ks @ [Some (contact_meant c)]\<rparr>) None ?ce True sent)
      = Inr (parser_at ty RP_EXPECT_COMMAND_END_MARKER (n\<lparr>cn_contacts := ks @ [Some (contact_meant c)]\<rparr>) None ?ce True sent)" by (simp add: config_chars goto_at)
  from feed_at[OF _ this] show ?case using 2 feed_contact[OF _ assms, of c] by (intro exI[of _ ?ce]) (simp del: feed.simps)
next
  case (3 c v va)
  let ?ce = "last_of ContactEndpoints (ct_endpoints c)" and ?ks = "ks @ [Some (contact_meant c)]"
  have 1: "read_command env LIST_ELEMENT_SEPARATOR RP_EXPECT_CONTACT_SEPARATOR (parser_at ty RP_EXPECT_CONTACT_SEPARATOR (n\<lparr>cn_contacts := ?ks\<rparr>) None ?ce True sent)
      = Inr (parser_at ty RP_EXPECT_CONTACT_START_DELIMITER (n\<lparr>cn_contacts := ?ks\<rparr>) None ?ce (?ks \<noteq> []) sent)" by (simp add: config_chars goto_at)
  obtain ce' where ce': "\<forall>rest. feed env (contact_items (v # va) @ rest) (parser_at ty RP_EXPECT_CONTACT_START_DELIMITER (n\<lparr>cn_contacts := ?ks\<rparr>) None ?ce (?ks \<noteq> []) sent)
    = feed env rest (parser_at ty RP_EXPECT_COMMAND_END_MARKER (n\<lparr>cn_contacts := ?ks @ map (\<lambda>k. Some (contact_meant k)) (v # va)\<rparr>) None ce' (?ks \<noteq> [] \<or> v # va \<noteq> []) sent)"
    using "3.IH"[of ?ks ?ce] 3(2) by auto
  have c: "contact_valid env c" using 3(2) by simp
  have ne: "RP_EXPECT_CONTACT_SEPARATOR \<noteq> RP_EXPECT_COMMAND_TYPE" by simp
  have "feed env (contact_items (c # v # va) @ rest) (parser_at ty RP_EXPECT_CONTACT_START_DELIMITER (n\<lparr>cn_contacts := ks\<rparr>) None ce (ks \<noteq> []) sent)
    = feed env rest (parser_at ty RP_EXPECT_COMMAND_END_MARKER (n\<lparr>cn_contacts := ?ks @ map (\<lambda>k. Some (contact_meant k)) (v # va)\<rparr>) None ce' (?ks \<noteq> [] \<or> v # va \<noteq> []) sent)" for rest
  proof -
    have "contact_items (c # v # va) @ rest = print_contact c @ LIST_ELEMENT_SEPARATOR # (contact_items (v # va) @ rest)" by simp
    then show ?thesis unfolding feed_contact[OF c assms] feed_at[OF ne 1] by (simp only: feed_contact[OF c assms] feed_at[OF ne 1] ce'[rule_format])
  qed
  then show ?case by (intro exI[of _ ce']) (simp del: feed.simps contact_items.simps)
qed

definition empty_node :: config_node where
  "empty_node = \<lparr>cn_eid = None, cn_cla_addr = None, cn_reliability = 1000, cn_endpoints = [], cn_contacts = []\<rparr>"

lemma feed_command:
  assumes "command_valid env c" "32 \<le> ce_long_bits env" "command_type (cmd_type c) = Some ty"
  shows "\<exists>p. feed env (print_command c) (parser_at ROUTER_COMMAND_UNDEFINED RP_EXPECT_COMMAND_TYPE empty_node None None False sent) = Some p
    \<and> cp_status p = PARSER_STATUS_DONE \<and> cp_sent p = sent @ [\<lparr>rcmd_type = ty, rcmd_data = Some (node_meant c)\<rparr>] \<and> cp_allocs p = []"
proof -
  let ?n1 = "empty_node\<lparr>cn_eid := eid_buffer (cmd_eid c)\<rparr>"
  let ?r = "case cmd_reliability c of None \<Rightarrow> 1000 | Some r \<Rightarrow> of_nat r"
  let ?n2 = "?n1\<lparr>cn_reliability := ?r\<rparr>"
  let ?n3 = "?n2\<lparr>cn_cla_addr := map_option (text_in DEFAULT_CLA_ADDR_BUFFER_SIZE) (cmd_cla_addr c)\<rparr>"
  let ?n4 = "?n3\<lparr>cn_endpoints := map eid_buffer (cmd_endpoints c)\<rparr>"
  note v = assms(1)[unfolded command_valid_def]
  let ?tail3 = "CLA_ADDR_NODES_SEPARATOR # LIST_START_DELIMITER # eid_items (cmd_endpoints c)
     @ NODES_CONTACTS_SEPARATOR # LIST_START_DELIMITER # contact_items (cmd_contacts c) @ [COMMAND_END_MARKER]"
  let ?tail2 = "NODE_CONF_CLA_ADDR_SEPARATOR # (case cmd_cla_addr c of None \<Rightarrow> [] | Some a \<Rightarrow> CLA_ADDR_START_DELIMITER # a @ [CLA_ADDR_END_DELIMITER]) @ ?tail3"
  have e: "eid_valid (cmd_eid c)" using v by simp
  have s0: "feed env (cmd_type c # bs) (parser_at ROUTER_COMMAND_UNDEFINED RP_EXPECT_COMMAND_TYPE empty_node None None False sent)
      = feed env bs (parser_at ty RP_EXPECT_NODE_CONF_START_DELIMITER empty_node None None False sent)" for bs
    using assms(3) by (simp add: config_parser_read_byte_def parser_at_def)
  have s1: "feed env (EID_START_DELIMITER # bs) (parser_at ty RP_EXPECT_NODE_CONF_START_DELIMITER empty_node None None False sent)
      = feed env bs (parser_at ty RP_EXPECT_NODE_CONF_EID (empty_node\<lparr>cn_eid := eid_buffer []\<rparr>) None None False sent)" for bs
    by (rule feed_at) (simp_all add: begin_read_node_conf_eid_def cp_simps)
  have s2: "feed env (EID_END_DELIMITER # bs) (parser_at ty RP_EXPECT_NODE_CONF_EID ?n1 None None False sent)
      = feed env bs (parser_at ty RP_EXPECT_NODE_CONF_RELIABILITY_SEPARATOR ?n1 None None False sent)" for bs
    by (rule feed_at) (simp_all add: cp_simps)
  have s3: "feed env ((case cmd_reliability c of None \<Rightarrow> [] | Some r \<Rightarrow> NODE_CONF_RELIABILITY_SEPARATOR # digits r) @ NODE_CONF_CLA_ADDR_SEPARATOR # bs)
        (parser_at ty RP_EXPECT_NODE_CONF_RELIABILITY_SEPARATOR ?n1 None None False sent)
      = feed env bs (parser_at ty RP_EXPECT_CLA_ADDR_START_DELIMITER ?n2 None None False sent)" for bs
  proof (cases "cmd_reliability c")
    case None
    have "feed env (NODE_CONF_CLA_ADDR_SEPARATOR # bs) (parser_at ty RP_EXPECT_NODE_CONF_RELIABILITY_SEPARATOR ?n1 None None False sent)
      = feed env bs (parser_at ty RP_EXPECT_CLA_ADDR_START_DELIMITER ?n1 None None False sent)"
      by (rule feed_at) (simp_all add: config_chars goto_at)
    then show ?thesis using None by (simp add: empty_node_def del: feed.simps)
  next
    case (Some r)
    have r: "100 \<le> r" "r \<le> 1000" using v Some by auto
    have u: "unat (of_nat r :: u16) = r" using r(2) by (simp add: unsigned_of_nat take_bit_nat_eq_self)
    have m: "min r (2 ^ (ce_long_bits env - 1) - 1) = r"
    proof -
      have "(2 :: nat) ^ 31 \<le> 2 ^ (ce_long_bits env - 1)" using assms(2) by (intro power_increasing) simp_all
      then show ?thesis using r(2) by simp
    qed
    have ok: "\<not> ((of_nat r :: u16) < 100 \<or> 1000 < (of_nat r :: u16))" using u r by (simp add: word_less_nat_alt)
    have 1: "feed env (NODE_CONF_RELIABILITY_SEPARATOR # bs') (parser_at ty RP_EXPECT_NODE_CONF_RELIABILITY_SEPARATOR ?n1 None None False sent)
      = feed env bs' (parser_at ty RP_EXPECT_NODE_CONF_RELIABILITY ?n1 (Some (text_in DEFAULT_INT_BUFFER_SIZE [])) None False sent)" for bs'
      by (rule feed_at) (simp_all add: begin_integer_at goto_at)
    have 2: "read_command env NODE_CONF_CLA_ADDR_SEPARATOR RP_EXPECT_NODE_CONF_RELIABILITY
        (parser_at ty RP_EXPECT_NODE_CONF_RELIABILITY ?n1 (Some (text_in DEFAULT_INT_BUFFER_SIZE (digits r))) None False sent)
        = Inr (parser_at ty RP_EXPECT_CLA_ADDR_START_DELIMITER (?n1\<lparr>cn_reliability := of_nat r\<rparr>) None None False sent)"
      using ok m by (simp add: end_read_uint16_def end_integer_digits config_chars) (simp add: cp_simps)
    have ist: "int_stage RP_EXPECT_NODE_CONF_RELIABILITY" by (simp add: int_stage_def)
    show ?thesis unfolding Some option.case append_Cons 1 feed_number[OF ist 2] ..
  qed
  have s4: "feed env ((case cmd_cla_addr c of None \<Rightarrow> [] | Some a \<Rightarrow> CLA_ADDR_START_DELIMITER # a @ [CLA_ADDR_END_DELIMITER]) @ CLA_ADDR_NODES_SEPARATOR # bs)
        (parser_at ty RP_EXPECT_CLA_ADDR_START_DELIMITER ?n2 None None False sent)
      = feed env bs (parser_at ty RP_EXPECT_NODE_LIST_START_DELIMITER ?n3 None None False sent)" for bs
  proof (cases "cmd_cla_addr c")
    case None
    have "feed env (CLA_ADDR_NODES_SEPARATOR # bs) (parser_at ty RP_EXPECT_CLA_ADDR_START_DELIMITER ?n2 None None False sent)
      = feed env bs (parser_at ty RP_EXPECT_NODE_LIST_START_DELIMITER ?n2 None None False sent)"
      by (rule feed_at) (simp_all add: config_chars goto_at)
    then show ?thesis using None by (simp add: empty_node_def del: feed.simps)
  next
    case (Some a)
    let ?na = "\<lambda>a. ?n2\<lparr>cn_cla_addr := Some (text_in DEFAULT_CLA_ADDR_BUFFER_SIZE a)\<rparr>"
    have a: "\<forall>b \<in> set a. cla_addr_char b" using v Some by auto
    have 1: "feed env (CLA_ADDR_START_DELIMITER # bs') (parser_at ty RP_EXPECT_CLA_ADDR_START_DELIMITER ?n2 None None False sent)
      = feed env bs' (parser_at ty RP_EXPECT_CLA_ADDR (?na []) None None False sent)" for bs'
      by (rule feed_at) (simp_all add: begin_read_cla_addr_def cp_simps)
    have 2: "feed env (CLA_ADDR_END_DELIMITER # bs') (parser_at ty RP_EXPECT_CLA_ADDR (?na a) None None False sent)
      = feed env bs' (parser_at ty RP_EXPECT_CLA_ADDR_NODES_SEPARATOR (?na a) None None False sent)" for bs'
      by (rule feed_at) (simp_all add: cp_simps)
    have 3: "feed env (CLA_ADDR_NODES_SEPARATOR # bs') (parser_at ty RP_EXPECT_CLA_ADDR_NODES_SEPARATOR (?na a) None None False sent)
      = feed env bs' (parser_at ty RP_EXPECT_NODE_LIST_START_DELIMITER (?na a) None None False sent)" for bs'
      by (rule feed_at) (simp_all add: goto_at)
    show ?thesis unfolding Some option.case append_Cons append_assoc append_Nil 1 feed_append[of env a] feed_cla_addr[OF a] 2 3 by simp
  qed
  have s5: "feed env (LIST_START_DELIMITER # bs) (parser_at ty RP_EXPECT_NODE_LIST_START_DELIMITER ?n3 None None False sent)
      = feed env bs (node_eids_at ty RP_EXPECT_NODE_START_DELIMITER ?n3 None False sent [])" for bs
    by (rule feed_at) (simp_all add: goto_at last_of_def empty_node_def)
  let ?ce = "last_of NodeEndpoints (cmd_endpoints c)"
  have es: "\<forall>e \<in> set (cmd_endpoints c). eid_valid e" and ks: "\<forall>k \<in> set (cmd_contacts c). contact_valid env k" using v by auto
  have s6: "feed env (NODES_CONTACTS_SEPARATOR # bs) (parser_at ty RP_EXPECT_NODES_CONTACTS_SEPARATOR ?n4 None ?ce False sent)
      = feed env bs (parser_at ty RP_EXPECT_CONTACT_LIST_START_DELIMITER ?n4 None ?ce False sent)" for bs
    by (rule feed_at) (simp_all add: goto_at)
  have s7: "feed env (LIST_START_DELIMITER # bs) (parser_at ty RP_EXPECT_CONTACT_LIST_START_DELIMITER ?n4 None ?ce False sent)
      = feed env bs (parser_at ty RP_EXPECT_CONTACT_START_DELIMITER (?n4\<lparr>cn_contacts := []\<rparr>) None ?ce (([] :: config_contact option list) \<noteq> []) sent)" for bs
    by (rule feed_at) (simp_all add: goto_at empty_node_def)
  from feed_contact_items[OF assms(2) ks, where n = ?n4 and ks = "[]" and ce = ?ce and ty = ty and sent = sent]
  obtain ce' where s8: "\<forall>rest. feed env (contact_items (cmd_contacts c) @ rest)
        (parser_at ty RP_EXPECT_CONTACT_START_DELIMITER (?n4\<lparr>cn_contacts := []\<rparr>) None ?ce (([] :: config_contact option list) \<noteq> []) sent)
      = feed env rest (parser_at ty RP_EXPECT_COMMAND_END_MARKER (?n4\<lparr>cn_contacts := [] @ map (\<lambda>k. Some (contact_meant k)) (cmd_contacts c)\<rparr>) None ce' (([] :: config_contact option list) \<noteq> [] \<or> cmd_contacts c \<noteq> []) sent)"
    by (elim exE) (rule that)
  let ?n5 = "?n4\<lparr>cn_contacts := [] @ map (\<lambda>k. Some (contact_meant k)) (cmd_contacts c)\<rparr>"
  have n5: "?n5 = node_meant c" by (simp add: node_meant_def empty_node_def)
  have s9: "\<exists>p. feed env [COMMAND_END_MARKER] (parser_at ty RP_EXPECT_COMMAND_END_MARKER (node_meant c) None ce' cc sent) = Some p
    \<and> cp_status p = PARSER_STATUS_DONE \<and> cp_sent p = sent @ [\<lparr>rcmd_type = ty, rcmd_data = Some (node_meant c)\<rparr>] \<and> cp_allocs p = []" for cc
    by (simp add: config_parser_read_byte_def cp_simps send_router_command_def)
  have all: "feed env (print_command c) (parser_at ROUTER_COMMAND_UNDEFINED RP_EXPECT_COMMAND_TYPE empty_node None None False sent)
      = feed env [COMMAND_END_MARKER] (parser_at ty RP_EXPECT_COMMAND_END_MARKER (node_meant c) None ce' (([] :: config_contact option list) \<noteq> [] \<or> cmd_contacts c \<noteq> []) sent)"
    unfolding print_command_def append_Cons append_assoc s0 s1 feed_append[of env "cmd_eid c"] feed_node_eid[OF e] option.case append_Nil s2 s3 s4 s5
      feed_node_items[OF es] s6 s7 s8[rule_format] n5[unfolded append_Nil] ..
  show ?thesis unfolding all by (rule s9)
qed

section \<open>Memory safety\<close>

definition buffer_ok :: "nat \<Rightarrow> text_buffer option \<Rightarrow> bool" where
  "buffer_ok dflt tb \<longleftrightarrow> (\<exists>s. tb = Some (text_in dflt s))"

definition contact_stage :: "config_parser_stage \<Rightarrow> bool" where
  "contact_stage st \<longleftrightarrow> st \<in> {RP_EXPECT_CONTACT_START_TIME, RP_EXPECT_CONTACT_END_TIME, RP_EXPECT_CONTACT_BITRATE, RP_EXPECT_CONTACT_NODE_LIST_START_DELIMITER,
     RP_EXPECT_CONTACT_NODE_START_DELIMITER, RP_EXPECT_CONTACT_NODE_EID, RP_EXPECT_CONTACT_NODE_SEPARATOR, RP_EXPECT_CONTACT_END_DELIMITER}"

text \<open>
  What the stages rely on: the buffer they write to, the contact and the endpoint that the parser points to.
\<close>

definition working :: "config_parser_stage \<Rightarrow> config_node \<Rightarrow> text_buffer option \<Rightarrow> endpoint_target option \<Rightarrow> bool \<Rightarrow> bool" where
  "working st n ib ce cc \<longleftrightarrow> (st = RP_EXPECT_NODE_CONF_EID \<longrightarrow> buffer_ok DEFAULT_EID_BUFFER_SIZE (cn_eid n))
     \<and> (st = RP_EXPECT_CLA_ADDR \<longrightarrow> buffer_ok DEFAULT_CLA_ADDR_BUFFER_SIZE (cn_cla_addr n))
     \<and> (int_stage st \<longrightarrow> buffer_ok DEFAULT_INT_BUFFER_SIZE ib) \<and> (contact_stage st \<longrightarrow> cc)
     \<and> (cc \<longrightarrow> (\<exists>ks k. cn_contacts n = ks @ [Some k] \<and> (ce = Some ContactEndpoints \<longrightarrow> (\<exists>es e. cc_endpoints k = es @ [e] \<and> buffer_ok DEFAULT_EID_BUFFER_SIZE e))))
     \<and> (st \<in> {RP_EXPECT_NODE_EID, RP_EXPECT_CONTACT_NODE_EID} \<longrightarrow> ce \<noteq> None)
     \<and> (ce = Some NodeEndpoints \<longrightarrow> (\<exists>es e. cn_endpoints n = es @ [e] \<and> buffer_ok DEFAULT_EID_BUFFER_SIZE e)) \<and> (ce = Some ContactEndpoints \<longrightarrow> cc)"

lemma workingD:
  assumes "working st n ib ce cc"
  shows "int_stage st \<Longrightarrow> \<exists>s. ib = Some (text_in DEFAULT_INT_BUFFER_SIZE s)" "contact_stage st \<Longrightarrow> cc"
    "cc \<Longrightarrow> \<exists>ks k. cn_contacts n = ks @ [Some k] \<and> (ce = Some ContactEndpoints \<longrightarrow> (\<exists>es e. cc_endpoints k = es @ [e] \<and> buffer_ok DEFAULT_EID_BUFFER_SIZE e))"
    "st \<in> {RP_EXPECT_NODE_EID, RP_EXPECT_CONTACT_NODE_EID} \<Longrightarrow> ce \<noteq> None"
    "ce = Some NodeEndpoints \<Longrightarrow> \<exists>es e. cn_endpoints n = es @ [e] \<and> buffer_ok DEFAULT_EID_BUFFER_SIZE e" "ce = Some ContactEndpoints \<Longrightarrow> cc"
  using assms unfolding working_def buffer_ok_def by metis+

definition ok_result :: "router_command_type \<Rightarrow> router_command list \<Rightarrow> fault + config_parser \<Rightarrow> bool" where
  "ok_result ty sent r \<longleftrightarrow> (\<exists>stat st n ib ce cc. r = Inr ((parser_at ty st n ib ce cc sent)\<lparr>cp_status := stat\<rparr>)
     \<and> (stat = PARSER_STATUS_GOOD \<longrightarrow> st \<noteq> RP_EXPECT_COMMAND_TYPE \<and> working st n ib ce cc))"

lemma ok_error: "ok_result ty sent (cp_error (parser_at ty st n ib ce cc sent))"
  unfolding ok_result_def cp_error_def by (intro exI conjI impI, rule refl) simp_all

lemma ok_done: "ok_result ty sent (cp_done (parser_at ty st n ib ce cc sent))"
  unfolding ok_result_def cp_done_def by (intro exI conjI impI, rule refl) simp_all

lemma parser_at_good: "(parser_at ty st n ib ce cc sent)\<lparr>cp_status := PARSER_STATUS_GOOD\<rparr> = parser_at ty st n ib ce cc sent"
  by (simp add: parser_at_def)

lemma ok_good: "st \<noteq> RP_EXPECT_COMMAND_TYPE \<Longrightarrow> working st n ib ce cc \<Longrightarrow> ok_result ty sent (Inr (parser_at ty st n ib ce cc sent))"
  unfolding ok_result_def by (intro exI[of _ PARSER_STATUS_GOOD] exI[of _ st] exI[of _ n] exI[of _ ib] exI[of _ ce] exI[of _ cc]) (simp add: parser_at_good)

lemma ok_goto: "st' \<noteq> RP_EXPECT_COMMAND_TYPE \<Longrightarrow> working st' n ib ce cc \<Longrightarrow> ok_result ty sent (cp_goto st' (parser_at ty st n ib ce cc sent))"
  unfolding goto_at by (rule ok_good)

text \<open>A step to a stage that relies on nothing new.\<close>

lemma working_plain: "working st n ib ce cc \<Longrightarrow> st' \<notin> {RP_EXPECT_NODE_CONF_EID, RP_EXPECT_CLA_ADDR, RP_EXPECT_NODE_EID, RP_EXPECT_CONTACT_NODE_EID} \<Longrightarrow>
    \<not> int_stage st' \<Longrightarrow> \<not> contact_stage st' \<or> cc \<Longrightarrow> working st' n ib' ce cc"
  by (auto simp: working_def)

lemma read_eid_ok: "buffer_ok DEFAULT_EID_BUFFER_SIZE tb \<Longrightarrow> \<exists>tb'. read_eid b tb [] = Inr (eid_char b, tb', []) \<and> buffer_ok DEFAULT_EID_BUFFER_SIZE tb'"
  by (auto simp: buffer_ok_def read_eid_def store_byte_text end_text_in)

lemma read_cla_addr_ok: "buffer_ok DEFAULT_CLA_ADDR_BUFFER_SIZE tb \<Longrightarrow> \<exists>tb'. read_cla_addr b tb [] = Inr (cla_addr_char b, tb', []) \<and> buffer_ok DEFAULT_CLA_ADDR_BUFFER_SIZE tb'"
  by (auto simp: buffer_ok_def read_cla_addr_def store_byte_text)

lemma read_integer_ok:
  assumes "working st n ib ce cc" "int_stage st"
  shows "ok_result ty sent (or_error (read_integer b (parser_at ty st n ib ce cc sent)))"
proof -
  obtain s where s: "ib = Some (text_in DEFAULT_INT_BUFFER_SIZE s)" using workingD(1)[OF assms] by blast
  have "read_integer b (parser_at ty st n ib ce cc sent) = Inr (digit_char b, parser_at ty st n (Some (text_in DEFAULT_INT_BUFFER_SIZE (if digit_char b then s @ [b] else s))) ce cc sent)"
    by (simp add: read_integer_def s parser_at_def store_byte_text)
  moreover have "working st n (Some (text_in DEFAULT_INT_BUFFER_SIZE (if digit_char b then s @ [b] else s))) ce cc" using assms unfolding working_def buffer_ok_def by blast
  moreover have "st \<noteq> RP_EXPECT_COMMAND_TYPE" using assms(2) by (auto simp: int_stage_def)
  ultimately show ?thesis using ok_good ok_error unfolding or_error_def by (cases "digit_char b") simp_all
qed

lemma end_integer_ok:
  assumes "working st n ib ce cc" "int_stage st"
  shows "\<exists>v. end_integer (parser_at ty st n ib ce cc sent) = Inr (v, parser_at ty st n None ce cc sent)"
  using workingD(1)[OF assms] by (auto simp: end_integer_def end_text_in parser_at_def)

lemma current_contact_ok:
  assumes "working st n ib ce cc" "contact_stage st"
  shows "\<exists>k. cp_contact (parser_at ty st' n ib' ce cc sent) = Inr k \<and> (\<forall>k'. cc_endpoints k' = cc_endpoints k \<longrightarrow> (\<exists>n'. cp_set_contact k' (parser_at ty st' n ib' ce cc sent)
      = Inr (parser_at ty st' n' ib' ce cc sent) \<and> cn_endpoints n' = cn_endpoints n \<and> cn_contacts n' = butlast (cn_contacts n) @ [Some k'])) \<and> cc
      \<and> (ce = Some ContactEndpoints \<longrightarrow> (\<exists>es e. cc_endpoints k = es @ [e] \<and> buffer_ok DEFAULT_EID_BUFFER_SIZE e))"
proof -
  obtain ks k where k: "cn_contacts n = ks @ [Some k]" "ce = Some ContactEndpoints \<longrightarrow> (\<exists>es e. cc_endpoints k = es @ [e] \<and> buffer_ok DEFAULT_EID_BUFFER_SIZE e)" "cc"
    using assms by (auto simp: working_def)
  show ?thesis using k current_contact_at[OF k(1)] by (intro exI[of _ k]) auto
qed

lemma working_contact:
  assumes "working st n ib ce cc" "cn_endpoints n' = cn_endpoints n" "cn_contacts n' = ks @ [Some k]" "cc"
    "ce = Some ContactEndpoints \<longrightarrow> (\<exists>es e. cc_endpoints k = es @ [e] \<and> buffer_ok DEFAULT_EID_BUFFER_SIZE e)"
    "st' \<notin> {RP_EXPECT_NODE_CONF_EID, RP_EXPECT_CLA_ADDR, RP_EXPECT_NODE_EID, RP_EXPECT_CONTACT_NODE_EID}" "int_stage st' \<longrightarrow> buffer_ok DEFAULT_INT_BUFFER_SIZE ib'"
  shows "working st' n' ib' ce cc"
  using assms by (auto simp: working_def)

lemma new_buffer_ok [simp]: "buffer_ok dflt (Some (text_in dflt s))"
  by (auto simp: buffer_ok_def)

lemma or_error_ok:
  assumes "working st n ib ce cc" "st \<noteq> RP_EXPECT_COMMAND_TYPE"
  shows "ok_result ty sent (or_error (Inr (ok, parser_at ty st n ib ce cc sent)))"
  using ok_good[OF assms(2,1)] ok_error by (simp add: or_error_def)

lemma cp_node_at [simp]: "cp_node (parser_at ty st n ib ce cc sent) = Inr n"
  by (simp add: cp_node_def parser_at_def)

lemma cp_set_node_at [simp]: "cp_set_node n' (parser_at ty st n ib ce cc sent) = parser_at ty st n' ib ce cc sent"
  by (simp add: cp_set_node_def parser_at_def)

lemma parser_at_allocs [simp]: "cp_allocs (parser_at ty st n ib ce cc sent) = []" "(parser_at ty st n ib ce cc sent)\<lparr>cp_allocs := []\<rparr> = parser_at ty st n ib ce cc sent"
  by (simp_all add: parser_at_def)

lemma ok_node_eid:
  assumes "working RP_EXPECT_NODE_CONF_EID n ib ce cc"
  shows "ok_result ty sent (read_command env b RP_EXPECT_NODE_CONF_EID (parser_at ty RP_EXPECT_NODE_CONF_EID n ib ce cc sent))"
proof -
  obtain tb' where t: "read_eid b (cn_eid n) [] = Inr (eid_char b, tb', [])" "buffer_ok DEFAULT_EID_BUFFER_SIZE tb'"
    using read_eid_ok[of "cn_eid n" b] assms by (auto simp: working_def)
  have e: "\<exists>t. end_text (cn_eid n) = Inr t" using assms by (auto simp: working_def buffer_ok_def end_text_in)
  have "working RP_EXPECT_NODE_CONF_EID (n\<lparr>cn_eid := tb'\<rparr>) ib ce cc" using assms t(2) by (simp add: working_def)
  then have "ok_result ty sent (or_error (Inr (eid_char b, parser_at ty RP_EXPECT_NODE_CONF_EID (n\<lparr>cn_eid := tb'\<rparr>) ib ce cc sent)))" by (rule or_error_ok) simp
  moreover have "ok_result ty sent (cp_goto RP_EXPECT_NODE_CONF_RELIABILITY_SEPARATOR (parser_at ty RP_EXPECT_NODE_CONF_EID n ib ce cc sent))"
    by (rule ok_goto) (use assms in \<open>auto simp: working_plain int_stage_def contact_stage_def\<close>)
  ultimately show ?thesis using t(1) e by auto
qed

lemma ok_cla_addr:
  assumes "working RP_EXPECT_CLA_ADDR n ib ce cc"
  shows "ok_result ty sent (read_command env b RP_EXPECT_CLA_ADDR (parser_at ty RP_EXPECT_CLA_ADDR n ib ce cc sent))"
proof -
  obtain tb' where t: "read_cla_addr b (cn_cla_addr n) [] = Inr (cla_addr_char b, tb', [])" "buffer_ok DEFAULT_CLA_ADDR_BUFFER_SIZE tb'"
    using read_cla_addr_ok[of "cn_cla_addr n" b] assms by (auto simp: working_def)
  have e: "\<exists>t. end_text (cn_cla_addr n) = Inr t" using assms by (auto simp: working_def buffer_ok_def end_text_in)
  have "working RP_EXPECT_CLA_ADDR (n\<lparr>cn_cla_addr := tb'\<rparr>) ib ce cc" using assms t(2) by (simp add: working_def)
  then have "ok_result ty sent (or_error (Inr (cla_addr_char b, parser_at ty RP_EXPECT_CLA_ADDR (n\<lparr>cn_cla_addr := tb'\<rparr>) ib ce cc sent)))" by (rule or_error_ok) simp
  moreover have "ok_result ty sent (cp_goto RP_EXPECT_CLA_ADDR_NODES_SEPARATOR (parser_at ty RP_EXPECT_CLA_ADDR n ib ce cc sent))"
    by (rule ok_goto) (use assms in \<open>auto simp: working_plain int_stage_def contact_stage_def\<close>)
  ultimately show ?thesis using t(1) e by auto
qed

text \<open>The list that the parser points into, and its last entry.\<close>

lemma working_list:
  assumes "working st n ib ce cc" "ce = Some t"
  shows "\<exists>es e. cp_endpoints t (parser_at ty st n ib ce cc sent) = Inr (es @ [e]) \<and> buffer_ok DEFAULT_EID_BUFFER_SIZE e
    \<and> (\<forall>es' e' st'. buffer_ok DEFAULT_EID_BUFFER_SIZE e' \<longrightarrow> (\<exists>n'. cp_set_endpoints t (es' @ [e']) (parser_at ty st' n ib ce cc sent) = Inr (parser_at ty st' n' ib ce cc sent)
        \<and> working st n' ib ce cc))"
proof (cases t)
  case NodeEndpoints
  then obtain es e where "cn_endpoints n = es @ [e]" "buffer_ok DEFAULT_EID_BUFFER_SIZE e" using assms by (auto simp: working_def)
  then show ?thesis using assms NodeEndpoints by (intro exI[of _ es] exI[of _ e]) (auto simp: cp_endpoints_def cp_set_endpoints_def working_def)
next
  case ContactEndpoints
  then have "cc" using workingD(6)[OF assms(1)] assms(2) by simp
  then obtain ks k es e where k: "cn_contacts n = ks @ [Some k]" "cc_endpoints k = es @ [e]" "buffer_ok DEFAULT_EID_BUFFER_SIZE e" "cc"
    using workingD(3)[OF assms(1)] assms(2) ContactEndpoints by blast
  have s: "working st (n\<lparr>cn_contacts := ks @ [Some (k\<lparr>cc_endpoints := es' @ [e']\<rparr>)]\<rparr>) ib ce cc" if "buffer_ok DEFAULT_EID_BUFFER_SIZE e'" for es' e'
    using assms k(4) that by (auto simp: working_def)
  show ?thesis using k(2,3) current_contact_at[OF k(1)] k(4) ContactEndpoints s
    by (intro exI[of _ es] exI[of _ e]) (auto simp: cp_endpoints_def cp_set_endpoints_def)
qed

lemma ok_list_eid:
  assumes "working st n ib ce cc" "st \<in> {RP_EXPECT_NODE_EID, RP_EXPECT_CONTACT_NODE_EID}"
  shows "ok_result ty sent (or_error (read_list_eid b (parser_at ty st n ib ce cc sent)))" "end_list_eid (parser_at ty st n ib ce cc sent) = Inr ()"
proof -
  obtain t where t: "ce = Some t" using workingD(4)[OF assms] by blast
  have ce: "cp_current_eid (parser_at ty st n ib ce cc sent) = Some t" using t by (simp add: parser_at_def)
  obtain es e where l: "cp_endpoints t (parser_at ty st n ib ce cc sent) = Inr (es @ [e])" "buffer_ok DEFAULT_EID_BUFFER_SIZE e"
    "\<And>es' e' st'. buffer_ok DEFAULT_EID_BUFFER_SIZE e' \<Longrightarrow> (\<exists>n'. cp_set_endpoints t (es' @ [e']) (parser_at ty st' n ib ce cc sent) = Inr (parser_at ty st' n' ib ce cc sent)
        \<and> working st n' ib ce cc)" using working_list[OF assms(1) t, of ty sent] by blast
  obtain e' where r: "read_eid b e [] = Inr (eid_char b, e', [])" "buffer_ok DEFAULT_EID_BUFFER_SIZE e'" using read_eid_ok[OF l(2)] by blast
  obtain n' where n': "cp_set_endpoints t (es @ [e']) (parser_at ty st n ib ce cc sent) = Inr (parser_at ty st n' ib ce cc sent)" "working st n' ib ce cc"
    using l(3)[OF r(2)] by blast
  have "read_list_eid b (parser_at ty st n ib ce cc sent) = Inr (eid_char b, parser_at ty st n' ib ce cc sent)"
    by (simp add: read_list_eid_def ce l(1) r(1) n'(1))
  then show "ok_result ty sent (or_error (read_list_eid b (parser_at ty st n ib ce cc sent)))" using or_error_ok[OF n'(2)] assms(2) by auto
  have "\<exists>t. end_text e = Inr t" using l(2) by (auto simp: buffer_ok_def end_text_in)
  then show "end_list_eid (parser_at ty st n ib ce cc sent) = Inr ()" by (auto simp: end_list_eid_def ce l(1))
qed

lemma begin_data_eid_ok:
  assumes "working st n ib ce cc" "t = ContactEndpoints \<longrightarrow> contact_stage st" "st' = (case t of NodeEndpoints \<Rightarrow> RP_EXPECT_NODE_EID | ContactEndpoints \<Rightarrow> RP_EXPECT_CONTACT_NODE_EID)"
  shows "ok_result ty sent (bindE (begin_read_data_eid t (parser_at ty st n ib ce cc sent)) (cp_goto st'))"
proof (cases ce)
  case None
  show ?thesis
  proof (cases t)
    case NodeEndpoints
    have "working st' (n\<lparr>cn_endpoints := [eid_buffer []]\<rparr>) ib (Some NodeEndpoints) cc"
      using assms None NodeEndpoints workingD(3)[OF assms(1)] by (simp add: working_def int_stage_def contact_stage_def)
    from ok_good[OF _ this] show ?thesis using None NodeEndpoints assms(3) by (simp add: begin_read_data_eid_def cp_simps)
  next
    case ContactEndpoints
    have cc: "cc" using workingD(2)[OF assms(1)] assms(2) ContactEndpoints by simp
    then obtain ks k where k: "cn_contacts n = ks @ [Some k]" using workingD(3)[OF assms(1)] by blast
    have "working st' (n\<lparr>cn_contacts := ks @ [Some (k\<lparr>cc_endpoints := [eid_buffer []]\<rparr>)]\<rparr>) ib (Some ContactEndpoints) True"
      using assms(3) ContactEndpoints by (simp add: working_def int_stage_def)
    from ok_good[OF _ this] show ?thesis using None ContactEndpoints assms(3) cc k by (simp add: begin_read_data_eid_def cp_simps)
  qed
next
  case (Some t')
  obtain es e where l: "cp_endpoints t' (parser_at ty st n ib ce cc sent) = Inr (es @ [e])"
    "\<And>es' e' st'. buffer_ok DEFAULT_EID_BUFFER_SIZE e' \<Longrightarrow> (\<exists>n'. cp_set_endpoints t' (es' @ [e']) (parser_at ty st' n ib ce cc sent) = Inr (parser_at ty st' n' ib ce cc sent)
        \<and> working st n' ib ce cc)" using working_list[OF assms(1) Some, of ty sent] by blast
  obtain n' where n': "cp_set_endpoints t' ((es @ [e]) @ [eid_buffer []]) (parser_at ty st n ib ce cc sent) = Inr (parser_at ty st n' ib ce cc sent)" "working st n' ib ce cc"
    using l(2)[OF new_buffer_ok] by blast
  have al: "(parser_at ty st n ib ce cc sent)\<lparr>cp_allocs := malloc_rest (malloc_rest [])\<rparr> = parser_at ty st n ib ce cc sent" by (simp add: parser_at_def)
  have ce: "cp_current_eid (parser_at ty st n ib ce cc sent) = Some t'" using Some by (simp add: parser_at_def)
  have b: "begin_read_data_eid t (parser_at ty st n ib ce cc sent) = Inr (parser_at ty st n' ib ce cc sent)"
    using n'(1) l(1) ce by (simp add: begin_read_data_eid_def cp_malloc_def new_text)
  have "cc" if "t = ContactEndpoints" using workingD(2)[OF assms(1)] assms(2) that by simp
  then have "working st' n' ib ce cc" using n'(2) assms(3) Some by (cases t) (simp_all add: working_def int_stage_def contact_stage_def)
  then show ?thesis unfolding b bindE_simps by (rule ok_goto[rotated]) (use assms(3) in \<open>cases t; simp\<close>)
qed

lemma begin_contact_ok:
  assumes "working st n ib ce cc"
  shows "ok_result ty sent (bindE (begin_read_contact (parser_at ty st n ib ce cc sent)) (\<lambda>p1. cp_goto RP_EXPECT_CONTACT_START_TIME (begin_read_integer p1)))"
proof -
  let ?c = "Some \<lparr>cc_from = 0, cc_to = 0, cc_bitrate = 0, cc_endpoints = []\<rparr> :: config_contact option"
  let ?n = "n\<lparr>cn_contacts := (if cc then cn_contacts n else []) @ [?c]\<rparr>"
  have b: "begin_read_contact (parser_at ty st n ib ce cc sent) = Inr (parser_at ty st ?n ib None True sent)" by (simp add: begin_read_contact_def cp_simps)
  have "working RP_EXPECT_CONTACT_START_TIME ?n (Some (text_in DEFAULT_INT_BUFFER_SIZE [])) None True" by (simp add: working_def)
  then show ?thesis unfolding b bindE_simps begin_integer_at by (rule ok_goto[rotated]) simp
qed

lemma number_ok:
  assumes "working st n ib ce cc" "int_stage st" "contact_stage st"
  shows "\<exists>v k. end_integer (parser_at ty st n ib ce cc sent) = Inr (v, parser_at ty st n None ce cc sent) \<and> cp_contact (parser_at ty st n None ce cc sent) = Inr k
    \<and> (\<forall>k'. cc_endpoints k' = cc_endpoints k \<longrightarrow> (\<exists>n'. cp_set_contact k' (parser_at ty st n None ce cc sent) = Inr (parser_at ty st n' None ce cc sent)
        \<and> (\<forall>st' ib'. st' \<notin> {RP_EXPECT_NODE_CONF_EID, RP_EXPECT_CLA_ADDR, RP_EXPECT_NODE_EID, RP_EXPECT_CONTACT_NODE_EID} \<longrightarrow>
              (int_stage st' \<longrightarrow> buffer_ok DEFAULT_INT_BUFFER_SIZE ib') \<longrightarrow> working st' n' ib' ce cc)))"
proof -
  obtain v where v: "end_integer (parser_at ty st n ib ce cc sent) = Inr (v, parser_at ty st n None ce cc sent)" using end_integer_ok[OF assms(1,2)] by blast
  obtain k where k: "cp_contact (parser_at ty st n None ce cc sent) = Inr k" "cc"
      "ce = Some ContactEndpoints \<longrightarrow> (\<exists>es e. cc_endpoints k = es @ [e] \<and> buffer_ok DEFAULT_EID_BUFFER_SIZE e)"
      "\<And>k'. cc_endpoints k' = cc_endpoints k \<Longrightarrow> (\<exists>n'. cp_set_contact k' (parser_at ty st n None ce cc sent)
      = Inr (parser_at ty st n' None ce cc sent) \<and> cn_endpoints n' = cn_endpoints n \<and> cn_contacts n' = butlast (cn_contacts n) @ [Some k'])"
    using current_contact_ok[OF assms(1,3), of ty st None sent] by blast
  have "\<exists>n'. cp_set_contact k' (parser_at ty st n None ce cc sent) = Inr (parser_at ty st n' None ce cc sent)
        \<and> (\<forall>st' ib'. st' \<notin> {RP_EXPECT_NODE_CONF_EID, RP_EXPECT_CLA_ADDR, RP_EXPECT_NODE_EID, RP_EXPECT_CONTACT_NODE_EID} \<longrightarrow>
              (int_stage st' \<longrightarrow> buffer_ok DEFAULT_INT_BUFFER_SIZE ib') \<longrightarrow> working st' n' ib' ce cc)" if "cc_endpoints k' = cc_endpoints k" for k'
  proof -
    obtain n' where n': "cp_set_contact k' (parser_at ty st n None ce cc sent) = Inr (parser_at ty st n' None ce cc sent)" "cn_endpoints n' = cn_endpoints n"
      "cn_contacts n' = butlast (cn_contacts n) @ [Some k']" using k(4)[OF \<open>cc_endpoints k' = _\<close>] by blast
    have e: "ce = Some ContactEndpoints \<longrightarrow> (\<exists>es e. cc_endpoints k' = es @ [e] \<and> buffer_ok DEFAULT_EID_BUFFER_SIZE e)" using k(3) that by simp
    show ?thesis using n'(1) working_contact[OF assms(1) n'(2,3) k(2) e] by blast
  qed
  then show ?thesis using v k(1) by blast
qed

lemma ok_contact_number:
  assumes "working st n ib ce cc" "st \<in> {RP_EXPECT_CONTACT_START_TIME, RP_EXPECT_CONTACT_END_TIME, RP_EXPECT_CONTACT_BITRATE}"
  shows "ok_result ty sent (read_command env b st (parser_at ty st n ib ce cc sent))"
proof -
  have st: "int_stage st" "contact_stage st" using assms(2) by (auto simp: int_stage_def contact_stage_def)
  obtain v k where v: "end_integer (parser_at ty st n ib ce cc sent) = Inr (v, parser_at ty st n None ce cc sent)" "cp_contact (parser_at ty st n None ce cc sent) = Inr k"
    "\<And>k'. cc_endpoints k' = cc_endpoints k \<Longrightarrow> (\<exists>n'. cp_set_contact k' (parser_at ty st n None ce cc sent) = Inr (parser_at ty st n' None ce cc sent)
        \<and> (\<forall>st' ib'. st' \<notin> {RP_EXPECT_NODE_CONF_EID, RP_EXPECT_CLA_ADDR, RP_EXPECT_NODE_EID, RP_EXPECT_CONTACT_NODE_EID} \<longrightarrow>
              (int_stage st' \<longrightarrow> buffer_ok DEFAULT_INT_BUFFER_SIZE ib') \<longrightarrow> working st' n' ib' ce cc))"
    using number_ok[OF assms(1) st, of ty sent] by blast
  note digits = read_integer_ok[OF assms(1) st(1), of ty sent b]
  consider "st = RP_EXPECT_CONTACT_START_TIME" | "st = RP_EXPECT_CONTACT_END_TIME" | "st = RP_EXPECT_CONTACT_BITRATE" using assms(2) by blast
  then show ?thesis
  proof cases
    case 1
    obtain n' where n': "cp_set_contact (k\<lparr>cc_from := of_nat (min v (2 ^ 64 - 1))\<rparr>) (parser_at ty st n None ce cc sent) = Inr (parser_at ty st n' None ce cc sent)"
        "working RP_EXPECT_CONTACT_END_TIME n' (Some (text_in DEFAULT_INT_BUFFER_SIZE [])) ce cc"
      using v(3)[of "k\<lparr>cc_from := of_nat (min v (2 ^ 64 - 1))\<rparr>"] by auto
    show ?thesis using digits v(1,2) n'(1) ok_goto[OF _ n'(2), of ty sent st] unfolding 1 by (simp add: end_read_uint64_def begin_integer_at)
  next
    case 2
    obtain n' where n': "cp_set_contact (k\<lparr>cc_to := of_nat (min v (2 ^ 64 - 1))\<rparr>) (parser_at ty st n None ce cc sent) = Inr (parser_at ty st n' None ce cc sent)"
        "working RP_EXPECT_CONTACT_BITRATE n' (Some (text_in DEFAULT_INT_BUFFER_SIZE [])) ce cc"
      using v(3)[of "k\<lparr>cc_to := of_nat (min v (2 ^ 64 - 1))\<rparr>"] by auto
    show ?thesis using digits v(1,2) n'(1) ok_goto[OF _ n'(2), of ty sent st] ok_error[of ty sent st n' None ce cc] unfolding 2
      by (simp add: end_read_uint64_def begin_integer_at)
  next
    case 3
    let ?r = "of_nat (min v (2 ^ ce_long_bits env - 1))"
    obtain n' where n': "cp_set_contact (k\<lparr>cc_bitrate := ?r\<rparr>) (parser_at ty st n None ce cc sent) = Inr (parser_at ty st n' None ce cc sent)"
        "working RP_EXPECT_CONTACT_NODE_LIST_START_DELIMITER n' None ce cc" "working RP_EXPECT_CONTACT_SEPARATOR n' None ce cc"
      using v(3)[of "k\<lparr>cc_bitrate := ?r\<rparr>"] by (auto simp: int_stage_def)
    show ?thesis using digits v(1,2) n'(1) ok_goto[OF _ n'(2), of ty sent st] ok_goto[OF _ n'(3), of ty sent st] unfolding 3 by (simp add: end_read_uint32_def)
  qed
qed

lemma ok_reliability:
  assumes "working RP_EXPECT_NODE_CONF_RELIABILITY n ib ce cc"
  shows "ok_result ty sent (read_command env b RP_EXPECT_NODE_CONF_RELIABILITY (parser_at ty RP_EXPECT_NODE_CONF_RELIABILITY n ib ce cc sent))"
proof -
  let ?st = RP_EXPECT_NODE_CONF_RELIABILITY
  have st: "int_stage ?st" by (simp add: int_stage_def)
  obtain v where v: "end_integer (parser_at ty ?st n ib ce cc sent) = Inr (v, parser_at ty ?st n None ce cc sent)" using end_integer_ok[OF assms st] by blast
  have w: "working RP_EXPECT_CLA_ADDR_START_DELIMITER (n\<lparr>cn_reliability := r\<rparr>) None ce cc" for r
    using assms by (simp add: working_def int_stage_def contact_stage_def)
  have g: "ok_result ty sent (Inr (parser_at ty RP_EXPECT_CLA_ADDR_START_DELIMITER (n\<lparr>cn_reliability := r\<rparr>) None ce cc sent))" for r
    by (rule ok_good[OF _ w]) simp
  show ?thesis using read_integer_ok[OF assms st, of ty sent b] v g ok_done ok_error by (auto simp: end_read_uint16_def goto_at Let_def)
qed

lemma ok_read_command:
  assumes w: "working st n ib ce cc" and ne: "st \<noteq> RP_EXPECT_COMMAND_TYPE"
  shows "ok_result ty sent (read_command env b st (parser_at ty st n ib ce cc sent))"
proof -
  have pl: "working st' n ib' ce cc"
    if "st' \<notin> {RP_EXPECT_NODE_CONF_EID, RP_EXPECT_CLA_ADDR, RP_EXPECT_NODE_EID, RP_EXPECT_CONTACT_NODE_EID}" "\<not> int_stage st'" "\<not> contact_stage st' \<or> contact_stage st" for st' ib'
    using working_plain[OF w that(1,2)] that(3) workingD(2)[OF w] by blast
  have go: "ok_result ty sent (cp_goto st' (parser_at ty st n ib ce cc sent))"
    if "st' \<notin> {RP_EXPECT_COMMAND_TYPE, RP_EXPECT_NODE_CONF_EID, RP_EXPECT_CLA_ADDR, RP_EXPECT_NODE_EID, RP_EXPECT_CONTACT_NODE_EID}"
      "\<not> int_stage st'" "\<not> contact_stage st' \<or> contact_stage st" for st'
    using ok_goto[OF _ pl[of st' ib]] that by simp
  note simps = go[unfolded int_stage_def contact_stage_def] ok_done[of ty sent st n ib ce cc] ok_error[of ty sent st n ib ce cc]
  have c1: "ok_result ty sent (bindE (begin_read_node_conf_eid (parser_at ty st n ib ce cc sent)) (cp_goto RP_EXPECT_NODE_CONF_EID))"
  proof -
    have "working RP_EXPECT_NODE_CONF_EID (n\<lparr>cn_eid := eid_buffer []\<rparr>) ib ce cc" using w by (simp add: working_def int_stage_def contact_stage_def)
    from ok_good[OF _ this] show ?thesis by (simp add: begin_read_node_conf_eid_def cp_malloc_def new_text goto_at)
  qed
  have c2: "ok_result ty sent (bindE (begin_read_cla_addr (parser_at ty st n ib ce cc sent)) (cp_goto RP_EXPECT_CLA_ADDR))"
  proof -
    have "working RP_EXPECT_CLA_ADDR (n\<lparr>cn_cla_addr := Some (text_in DEFAULT_CLA_ADDR_BUFFER_SIZE [])\<rparr>) ib ce cc" using w by (simp add: working_def int_stage_def contact_stage_def)
    from ok_good[OF _ this] show ?thesis by (simp add: begin_read_cla_addr_def cp_malloc_def new_text goto_at)
  qed
  have c3: "ok_result ty sent (cp_goto RP_EXPECT_NODE_CONF_RELIABILITY (begin_read_integer (parser_at ty st n ib ce cc sent)))"
  proof -
    have "working RP_EXPECT_NODE_CONF_RELIABILITY n (Some (text_in DEFAULT_INT_BUFFER_SIZE [])) ce cc" using w by (simp add: working_def contact_stage_def)
    then show ?thesis unfolding begin_integer_at by (rule ok_goto[rotated]) simp
  qed
  show ?thesis
  proof (cases st)
    case RP_EXPECT_NODE_CONF_EID
    then show ?thesis using ok_node_eid w by (simp del: read_command.simps)
  next
    case RP_EXPECT_CLA_ADDR
    then show ?thesis using ok_cla_addr w by (simp del: read_command.simps)
  next
    case RP_EXPECT_NODE_CONF_RELIABILITY
    then show ?thesis using ok_reliability w by (simp del: read_command.simps)
  next
    case RP_EXPECT_CONTACT_START_TIME
    then show ?thesis using ok_contact_number[OF w] by (simp del: read_command.simps)
  next
    case RP_EXPECT_CONTACT_END_TIME
    then show ?thesis using ok_contact_number[OF w] by (simp del: read_command.simps)
  next
    case RP_EXPECT_CONTACT_BITRATE
    then show ?thesis using ok_contact_number[OF w] by (simp del: read_command.simps)
  next
    case RP_EXPECT_NODE_START_DELIMITER
    then show ?thesis using begin_data_eid_ok[OF w, of NodeEndpoints] simps by simp
  next
    case RP_EXPECT_CONTACT_NODE_START_DELIMITER
    then show ?thesis using begin_data_eid_ok[OF w, of ContactEndpoints] simps by (simp add: contact_stage_def)
  next
    case RP_EXPECT_NODE_EID
    then show ?thesis using ok_list_eid[OF w] simps by simp
  next
    case RP_EXPECT_CONTACT_NODE_EID
    then show ?thesis using ok_list_eid[OF w] simps by simp
  next
    case RP_EXPECT_CONTACT_START_DELIMITER
    then show ?thesis using begin_contact_ok[OF w] simps by simp
  qed (use ne c1 c2 c3 simps in simp_all)
qed

section \<open>The parser as a whole\<close>

text \<open>
  The states between two calls: memory is granted, and a parser that expects more input can work; one that expects a new command is as new.
\<close>

definition parser_fresh :: "router_command list \<Rightarrow> config_parser" where
  "parser_fresh sent = parser_at ROUTER_COMMAND_UNDEFINED RP_EXPECT_COMMAND_TYPE empty_node None None False sent"

definition config_parser_ok :: "config_parser \<Rightarrow> bool" where
  "config_parser_ok p \<longleftrightarrow> cp_allocs p = [] \<and> (cp_status p = PARSER_STATUS_GOOD \<longrightarrow> p = parser_fresh (cp_sent p)
     \<or> (\<exists>ty st n ib ce cc. p = parser_at ty st n ib ce cc (cp_sent p) \<and> st \<noteq> RP_EXPECT_COMMAND_TYPE \<and> working st n ib ce cc))"

lemma parser_at_fields [simp]:
  "cp_status (parser_at ty st n ib ce cc sent) = PARSER_STATUS_GOOD" "cp_stage (parser_at ty st n ib ce cc sent) = st"
  "cp_sent (parser_at ty st n ib ce cc sent) = sent" "cp_command (parser_at ty st n ib ce cc sent) = Some \<lparr>rcmd_type = ty, rcmd_data = Some n\<rparr>"
  by (simp_all add: parser_at_def)

lemma fresh_ok: "config_parser_ok (parser_fresh sent)"
  by (simp add: config_parser_ok_def parser_fresh_def)

lemma reset_ok:
  assumes "config_parser_ok p"
  shows "config_parser_reset p = (UD3TN_OK, parser_fresh (cp_sent p))"
proof (cases "cp_status p = PARSER_STATUS_GOOD \<and> cp_stage p = RP_EXPECT_COMMAND_TYPE")
  case True
  then have "p = parser_fresh (cp_sent p)" using assms unfolding config_parser_ok_def by (metis parser_at_fields(2))
  then show ?thesis using True by (simp add: config_parser_reset_def)
next
  case False
  then show ?thesis using assms unfolding config_parser_reset_def
    by (cases p) (auto simp: config_parser_ok_def parser_fresh_def parser_at_def empty_node_def cp_malloc_def)
qed

lemma good_ok: "st \<noteq> RP_EXPECT_COMMAND_TYPE \<Longrightarrow> working st n ib ce cc \<Longrightarrow> config_parser_ok (parser_at ty st n ib ce cc sent)"
  unfolding config_parser_ok_def parser_at_fields parser_at_allocs by blast

lemma read_byte_ok:
  assumes "config_parser_ok p"
  shows "\<exists>p'. config_parser_read_byte env b p = Inr p' \<and> config_parser_ok p'"
proof (cases "cp_status p = PARSER_STATUS_GOOD")
  case False
  then show ?thesis using assms by (simp add: config_parser_read_byte_def)
next
  case True
  consider (fresh) sent where "p = parser_fresh sent" | (work) ty st n ib ce cc sent where "p = parser_at ty st n ib ce cc sent" "st \<noteq> RP_EXPECT_COMMAND_TYPE" "working st n ib ce cc"
    using assms True unfolding config_parser_ok_def by blast
  then show ?thesis
  proof cases
    case fresh
    show ?thesis
    proof (cases "command_type b")
      case None
      then show ?thesis using fresh by (simp add: config_parser_read_byte_def parser_fresh_def cp_error_def config_parser_ok_def)
    next
      case (Some ty)
      have w: "working RP_EXPECT_NODE_CONF_START_DELIMITER empty_node None None False" by (simp add: working_def int_stage_def contact_stage_def)
      have "config_parser_read_byte env b p = Inr (parser_at ty RP_EXPECT_NODE_CONF_START_DELIMITER empty_node None None False sent)"
        using Some fresh by (simp add: config_parser_read_byte_def parser_fresh_def parser_at_def)
      then show ?thesis using good_ok[OF _ w] by simp
    qed
  next
    case work
    obtain stat st' n' ib' ce' cc' where r: "read_command env b st p = Inr ((parser_at ty st' n' ib' ce' cc' sent)\<lparr>cp_status := stat\<rparr>)"
        "stat = PARSER_STATUS_GOOD \<longrightarrow> st' \<noteq> RP_EXPECT_COMMAND_TYPE \<and> working st' n' ib' ce' cc'"
      using ok_read_command[OF work(3,2), of ty sent env b] work(1) unfolding ok_result_def by blast
    let ?p = "(parser_at ty st' n' ib' ce' cc' sent)\<lparr>cp_status := stat\<rparr>"
    have e: "config_parser_read_byte env b p = Inr (if stat = PARSER_STATUS_DONE then send_router_command ?p else ?p)"
      using r(1) work by (simp add: config_parser_read_byte_def)
    show ?thesis
    proof (cases "stat = PARSER_STATUS_GOOD")
      case True
      then show ?thesis using e r(2) good_ok by (simp add: parser_at_good)
    next
      case False
      then have "config_parser_ok ?p" "config_parser_ok (send_router_command ?p)"
        by (simp_all add: config_parser_ok_def send_router_command_def)
      then show ?thesis using e by auto
    qed
  qed
qed

lemma read_ok:
  assumes "config_parser_ok p"
  shows "\<exists>p'. config_parser_read env buf p = Inr (length buf, p') \<and> config_parser_ok p'"
proof -
  have "\<exists>p'. config_parser_read_loop env bs i (i + length bs) p = Inr (i + length bs, p') \<and> config_parser_ok p'" if "config_parser_ok p" for bs i p
    using that
  proof (induction bs arbitrary: i p)
    case (Cons b bs)
    obtain p1 where p1: "config_parser_read_byte env b p = Inr p1" "config_parser_ok p1" using read_byte_ok[OF Cons.prems] by blast
    show ?case
    proof (cases "cp_status p1 = PARSER_STATUS_ERROR")
      case True
      then show ?thesis using p1 reset_ok[OF p1(2)] fresh_ok by simp
    next
      case False
      then show ?thesis using p1 Cons.IH[OF p1(2), of "Suc i"] by simp
    qed
  qed simp
  from this[OF assms, of buf 0] show ?thesis by (auto simp: config_parser_read_def)
qed

text \<open>
  C12. The parser of configuration commands is safe. As long as memory is granted, no input, from a network or not, makes it write outside a buffer or follow a null
  pointer; it takes the whole input, and afterwards it can be reset and used again.
\<close>

theorem config_parser_safe:
  assumes "config_parser_ok p"
  shows "\<exists>p'. config_parser_read env buf p = Inr (length buf, p') \<and> config_parser_ok p' \<and> config_parser_reset p' = (UD3TN_OK, parser_fresh (cp_sent p'))"
  using read_ok[OF assms] reset_ok by blast

theorem config_parser_safe_witness:
  "\<exists>p'. config_parser_read \<lparr>ce_now = 0, ce_long_bits = 64\<rparr> [0x31, 40, 97, 255] (parser_fresh []) = Inr (4, p')"
  using config_parser_safe[OF fresh_ok[of "[]"], of "\<lparr>ce_now = 0, ce_long_bits = 64\<rparr>" "[0x31, 40, 97, 255]"] by auto

text \<open>
  C11. Every command with valid parts, written in the notation of the parser, is parsed: the parser hands on exactly one command, with the type and the node described,
  and ignores what follows.
\<close>

theorem config_command_roundtrip:
  assumes "command_valid env c" "32 \<le> ce_long_bits env" "command_type (cmd_type c) = Some ty" "config_parser_ok p"
  shows "\<exists>p'. config_parser_read env (print_command c @ rest) (snd (config_parser_reset p)) = Inr (length (print_command c @ rest), p')
    \<and> cp_sent p' = cp_sent p @ [\<lparr>rcmd_type = ty, rcmd_data = Some (node_meant c)\<rparr>]"
proof -
  obtain p1 where p1: "feed env (print_command c) (parser_fresh (cp_sent p)) = Some p1" "cp_status p1 = PARSER_STATUS_DONE"
      "cp_sent p1 = cp_sent p @ [\<lparr>rcmd_type = ty, rcmd_data = Some (node_meant c)\<rparr>]"
    using feed_command[OF assms(1-3), of "cp_sent p"] unfolding parser_fresh_def by blast
  have "config_parser_read env (print_command c @ rest) (parser_fresh (cp_sent p)) = Inr (length (print_command c @ rest), p1)"
    by (simp add: config_parser_read_def read_loop_feed[OF p1(1)] read_loop_done[OF p1(2)])
  then show ?thesis using p1(3) reset_ok[OF assms(4)] by simp
qed

definition sample_command :: command_text where
  "sample_command = \<lparr>cmd_type = 0x31, cmd_eid = [100, 116, 110], cmd_reliability = Some 900, cmd_cla_addr = Some [49, 46, 50], cmd_endpoints = [[97], [98, 99]],
     cmd_contacts = [\<lparr>ct_from = 10, ct_to = 20, ct_bitrate = 500, ct_endpoints = [[97]]\<rparr>]\<rparr>"

theorem config_command_roundtrip_witness:
  "\<exists>p'. config_parser_read \<lparr>ce_now = 0, ce_long_bits = 64\<rparr> (print_command sample_command) (parser_fresh []) = Inr (length (print_command sample_command), p')
    \<and> cp_sent p' = [\<lparr>rcmd_type = ROUTER_COMMAND_ADD, rcmd_data = Some (node_meant sample_command)\<rparr>]"
proof -
  have v: "command_valid \<lparr>ce_now = 0, ce_long_bits = 64\<rparr> sample_command" "command_type (cmd_type sample_command) = Some ROUTER_COMMAND_ADD"
    by (simp_all add: command_valid_def sample_command_def command_type_def eid_valid_def eid_char_def cla_addr_char_def contact_valid_def config_chars)
  have l: "32 \<le> ce_long_bits \<lparr>ce_now = 0, ce_long_bits = 64\<rparr>" by simp
  have "cp_sent (parser_fresh []) = []" by (simp add: parser_fresh_def)
  then show ?thesis using config_command_roundtrip[OF v(1) l v(2) fresh_ok[of "[]"], of "[]"] reset_ok[OF fresh_ok[of "[]"]] by simp
qed

section \<open>The agents\<close>

text \<open>The management agent takes the eight bytes behind the command as the new time, most significant byte first.\<close>

lemma management_agent_sets_time:
  assumes "adu_payload data = Some (MGMT_CMD_SET_TIME # bs)" "length bs = 8" "adu_length data = 9"
  shows "\<exists>t. management_agent_callback data = Inr (Some t)"
  using assms by (simp add: management_agent_callback_def read_mem_def)

text \<open>
  The check of the source only compares a prefix: a foreign endpoint whose identifier begins with the local one passes it.
\<close>

lemma config_agent_accepts_prefix:
  assumes "config_parser_ok p" "adu_source data = Some (local_eid @ x)" "adu_payload data = Some buf" "unat (adu_length data) = length buf"
  shows "\<exists>p'. config_agent_callback env False local_eid data p = Inr p' \<and> config_parser_read env buf (parser_fresh (cp_sent p)) = Inr (length buf, p')"
  using assms read_ok[OF fresh_ok, of env buf "cp_sent p"] reset_ok[OF assms(1)]
  by (auto simp: config_agent_callback_def read_mem_def)

end
