(* ===== verification/Spec2Isabelle.thy ===== *)
theory Spec2Isabelle
  imports Crc Sdnv Storage Known_Bundle_List Htab Summary_Vector Routing_Eid Epidemic_Router_Inv Contact_Manager_Inv Delivery Fragmenter
    Bundle6_Safety Application_Agent_Inv Reports Routing_Agent_Inv Node_Inv Config_Parser_Inv
begin

unbundle bit_operations_syntax

text \<open>
  Verification library of DisruptaBLE, the delay tolerant networking node for Bluetooth Low Energy that extends \<^verbatim>\<open>ud3tn\<close>.

  \<^bold>\<open>The program.\<close> A node consists of tasks that exchange signals over queues. The bundle processor receives bundles from the convergence layers and
  from local agents, stores them, hands bundles for this node to agents (after reassembly, when they are fragments) and passes the others to the router
  task. The epidemic router keeps a list of bundles and, for each neighbour, what was offered and requested; it exchanges summary vectors with the
  neighbours and chooses what to send; the routing agent carries these vectors as bundles between the nodes. The contact manager keeps the table of neighbours from discovery and link events, signals changes to the router and pushes
  bundles to the queue of a link. Below them lie the bundle store, the list of known bundles, the custody table, the registry of agents, the
  hash table, the checksums and the number codings. Fragmentation splits a bundle that does not fit into a contact. Bundles of version 6 are
  parsed and serialized by a state machine over single bytes. Local applications talk to the application agent over a socket with
  the messages of the application agent protocol (AAP). Nodes and their planned contacts can be configured by textual commands that arrive as bundles
  at the configuration agent; another agent sets the time.

  \<^bold>\<open>Theories and sources\<close> (below \<^verbatim>\<open>src/components\<close>, with the headers in \<^verbatim>\<open>src/include\<close>):

  \<^item> \<open>Prelude\<close>: machine integers, faults, results \<open>fault + 'a\<close> with \<open>bindE\<close>, null pointers as \<open>option\<close>, the allocator as a script of answers
    (the empty script grants every request), C strings and \<^verbatim>\<open>strstr\<close>.
  \<^item> \<open>Crc\<close>: \<^verbatim>\<open>ud3tn/crc.c\<close>. \<open>Sdnv\<close>: \<^verbatim>\<open>bundle6/sdnv.c\<close>. \<open>Htab\<close>: \<^verbatim>\<open>ud3tn/simplehtab.c\<close>.
  \<^item> \<open>Bundle\<close>: \<^verbatim>\<open>ud3tn/bundle.h\<close> and \<^verbatim>\<open>ud3tn/bundle.c\<close>. A bundle is a record; its payload pointer is an index into its blocks.
  \<^item> \<open>Storage\<close>: \<^verbatim>\<open>ud3tn/bundle_storage_manager.c\<close>, the balanced tree from ids to bundles in a heap.
  \<^item> \<open>Known_Bundle_List\<close>: \<^verbatim>\<open>ud3tn/known_bundle_list.c\<close>.
  \<^item> \<open>Summary_Vector\<close>, \<open>Routing_Eid\<close>: \<^verbatim>\<open>routing/epidemic/summary_vector.c\<close> and the EIDs of \<^verbatim>\<open>routing/epidemic/routing_agent.c\<close>.
  \<^item> \<open>Epidemic_Router\<close>, proofs in \<open>Epidemic_Router_Inv\<close>: \<^verbatim>\<open>routing/epidemic/router.c\<close>.
  \<^item> \<open>Routing_Agent\<close>, proofs in \<open>Routing_Agent_Inv\<close>: \<^verbatim>\<open>routing/epidemic/routing_agent.c\<close> and \<^verbatim>\<open>cla/zephyr/nb_sv_ch_filter.c\<close>.
  \<^item> \<open>Contact_Manager\<close>, proofs in \<open>Contact_Manager_Inv\<close>: \<^verbatim>\<open>routing/epidemic/contact_manager.c\<close>.
  \<^item> \<open>Node\<close>, proofs in \<open>Node_Inv\<close>: \<^verbatim>\<open>ud3tn/node.c\<close> with the merge sort of \<^verbatim>\<open>ud3tn/llsort.h\<close>, and \<^verbatim>\<open>ud3tn/eid_list.c\<close>. A linked list is a list;
    pointers to contacts are addresses, so that sharing of a contact between lists is visible.
  \<^item> \<open>Config_Parser\<close>, proofs in \<open>Config_Parser_Inv\<close>: \<^verbatim>\<open>agents/config_parser.c\<close>, \<^verbatim>\<open>agents/config_agent.c\<close> and \<^verbatim>\<open>agents/management_agent.c\<close>.
  \<^item> \<open>Agent_Manager\<close>: \<^verbatim>\<open>ud3tn/agent_manager.c\<close>. \<open>Custody_Manager\<close>: \<^verbatim>\<open>ud3tn/custody_manager.c\<close>.
  \<^item> \<open>Bundle_Processor\<close>, proofs in \<open>Bundle_Processor_Inv\<close> and \<open>Delivery\<close>: \<^verbatim>\<open>ud3tn/bundle_processor.c\<close>, every handler and the task loop.
  \<^item> \<open>Fragmenter\<close>: \<^verbatim>\<open>ud3tn/bundle_fragmenter.c\<close>, \<^verbatim>\<open>bundle7/fragment.c\<close> and the sizes of \<^verbatim>\<open>bundle7/bundle7.c\<close>.
  \<^item> \<open>Bundle6\<close>: the sending side of version 6, \<^verbatim>\<open>bundle6/bundle6.c\<close>, \<^verbatim>\<open>serializer.c\<close>, \<^verbatim>\<open>create.c\<close> and \<^verbatim>\<open>fragment.c\<close>. \<open>Bundle6_Parser\<close>: \<^verbatim>\<open>bundle6/parser.c\<close>.
    Proofs in \<open>Bundle6_Codec\<close> (one lemma per field), \<open>Bundle6_Roundtrip\<close> and \<open>Bundle6_Safety\<close>.
  \<^item> \<open>Reports\<close>: \<^verbatim>\<open>bundle6/reports.c\<close> and \<^verbatim>\<open>ud3tn/report_manager.c\<close>.
  \<^item> \<open>Aap\<close>: \<^verbatim>\<open>aap/aap.c\<close>, \<^verbatim>\<open>aap_serializer.c\<close> and \<^verbatim>\<open>aap_parser.c\<close>. \<open>Application_Agent\<close>, proofs in \<open>Application_Agent_Inv\<close>:
    \<^verbatim>\<open>agents/posix/application_agent.c\<close> with \<^verbatim>\<open>tcp_send_all\<close> of \<^verbatim>\<open>cla/posix/cla_tcp_util.c\<close> and \<^verbatim>\<open>bundle7/create.c\<close>.

  The static variables of a C file are one record, and an operation is a function on it. A pointer to an object that may be freed is an address in a heap or
  store, and reading a freed one is a fault; so are failed assertions, null dereferences and indices out of bounds. What a component calls
  in another task (queue pushes, callbacks, agents) is appended to a trace. Clocks, answers of queues and of the platform, the vendored hash function, the
  CBOR coding and the generators of reports are arguments.

  \<^bold>\<open>What is shown.\<close> The checksums equal bit-serial shift registers and detect single byte changes; number coding round trips and never wraps. In every reachable state
  the store is a balanced search tree with an exact byte counter, and its operations add and remove exactly one entry. Known bundles are recognised and purged
  exactly. The hash table and the agent registry refine maps, through the locale \<open>dictionary\<close>. Router and contact manager keep their invariants over all sequences of events, by induction on the
  reachable states, without a fault, and their handlers do what the protocol asks: offers, requests, transmission, expiry, link events. One round of offer and request
  between two nodes leaves exactly the missing bundles requested. Fragments give back
  the application data in any order of arrival, local delivery happens once, and splitting a bundle and reassembling it is the identity on the
  payload (below). The version 6 parser gives back what the serializer wrote and is memory safe on every input. The configuration parser reads back every
  printed command as the node it describes and is safe on every input; the lists of endpoints and contacts are united and subtracted as sets. The AAP parser only completes well-formed
  messages; the agent stays safe whatever a client sends, stores exactly the bundles it is asked to send, does not depend on how a message is cut
  into pieces, and registers agents with the bundle processor. Where the code fails, a theorem says when: the double deletion at the hop limit, the late fragment, the custody table, the counter of
  contacts, the copy that does not return, the first fragment that exceeds its limit, the administrative records of version 6 that are mislabelled and never
  parsed, the partial send that starts over, the check of a node that overlooks nested contact windows.

  \<^bold>\<open>Bounds and loops.\<close> Loops over lists are structural recursions. Two loops of the source may run forever and are partial functions: the search for a
  free id (it returns while an id is free) and the search of \<^verbatim>\<open>bundle_dup\<close> (it returns exactly when the payload is first). The recursion of
  \<^verbatim>\<open>bundle_forward\<close> through the reports it sends takes its depth as an argument; two levels are proved to be enough. The loop over the blocks of a received bundle is
  bounded by the number of blocks at its start, which no turn increases.

  \<^bold>\<open>Not modelled.\<close> The parsers and serializers of version 7 bundles use the TinyCBOR library, which is not in the repository. The contact-based router and its routing table are an alternative to the epidemic router that
  the Zephyr build does not use; the lists of nodes and contacts and the commands they are configured by are modelled. The space packet protocol is only used by convergence layers of other builds. Convergence layers, the platform layer, startup and the listener of the application agent are glue around operating system services. Vendored code below
  \<^verbatim>\<open>src/external\<close> is left out. Of shared state, the semaphores make each operation one step; interleavings within an operation are not modelled.
\<close>

section \<open>Fragmentation and reassembly\<close>

lemma wf_dup_block: "wf_block x \<Longrightarrow> wf_block (dup_block x)"
  by (simp add: wf_block_def dup_block_def)

lemma recalculate_fields [simp]:
  "payload_of (bundle7_recalculate_primary_block_length b) = payload_of b" "wf_bundle (bundle7_recalculate_primary_block_length b) = wf_bundle b"
  "payload_bytes (bundle7_recalculate_primary_block_length b) = payload_bytes b"
  by (simp_all add: bundle7_recalculate_primary_block_length_def payload_of_def wf_bundle_def payload_bytes_def split: option.splits)

lemma fragment_of_recalculate [simp]:
  "fragment_of D (bundle7_recalculate_primary_block_length b) = fragment_of D b"
  "frag_off (bundle7_recalculate_primary_block_length b) = frag_off b" "frag_end (bundle7_recalculate_primary_block_length b) = frag_end b"
proof -
  show "fragment_of D (bundle7_recalculate_primary_block_length b) = fragment_of D b"
    unfolding fragment_of_def frag_end_def frag_off_def recalculate_fields by (simp add: bundle7_recalculate_primary_block_length_def)
qed (unfold frag_off_def frag_end_def recalculate_fields, simp_all add: bundle7_recalculate_primary_block_length_def)

text \<open>The part of the application data \<open>D\<close> that a bundle carries, as a fragment or as the whole.\<close>

definition carries :: "u8 list \<Rightarrow> bundle_t \<Rightarrow> bool" where
  "carries D b \<longleftrightarrow> wf_bundle b \<and> (if bundle_is_fragmented b then fragment_of D b
     else fragment_offset b = 0 \<and> (\<exists>pl. payload_of b = Some pl \<and> blk_data pl = Some D))"

lemma carriesD:
  assumes "carries D b" "payload_of b = Some pl"
  shows "blk_data pl = Some (take (unat (blk_length pl)) (drop (frag_off b) D))" "frag_off b + unat (blk_length pl) \<le> length D"
    "unat (if bundle_is_fragmented b then total_adu_length b else blk_length pl) = length D" "length D < 2 ^ 32"
proof -
  have wp: "wf_block pl" using assms wf_bundle_payload by (metis carries_def option.inject)
  have pb: "payload_bytes b = blk_length pl" using assms(2) by (simp add: payload_bytes_def)
  show "blk_data pl = Some (take (unat (blk_length pl)) (drop (frag_off b) D))" "frag_off b + unat (blk_length pl) \<le> length D"
    "unat (if bundle_is_fragmented b then total_adu_length b else blk_length pl) = length D"
    using assms wp pb by (auto simp: carries_def fragment_of_def frag_end_def frag_off_def wf_block_def split: if_splits)
  then show "length D < 2 ^ 32" using unat_u32_less by metis
qed

lemma first_part_fragment:
  assumes "carries D b" "payload_block b = Some i" "payload_of b = Some pl" "n < blk_length pl"
  shows "fragment_of D (first_part b i pl n)" "frag_off (first_part b i pl n) = frag_off b" "frag_end (first_part b i pl n) = frag_off b + unat n"
proof -
  let ?b = "first_part b i pl n" and ?pl = "pl\<lparr>blk_data := map_option (take (unat n)) (blk_data pl), blk_length := n\<rparr>"
  note c = carriesD[OF assms(1,3)]
  have i: "i < length (blocks b)" "blocks b ! i = pl" using assms(2,3) by (auto simp: payload_of_def split: if_splits)
  have wf: "wf_bundle b" using assms(1) by (simp add: carries_def)
  then have ty: "blk_type pl = BUNDLE_BLOCK_TYPE_PAYLOAD" "wf_block pl" using assms(3) wf_bundle_payload by (metis option.inject)+
  have pl: "payload_of ?b = Some ?pl" using assms(2) i by (simp add: payload_of_def first_part_def)
  have n: "unat n \<le> unat (blk_length pl)" using assms(4) by (simp add: word_less_nat_alt)
  have wpl: "wf_block ?pl" using ty(2) n by (auto simp: wf_block_def)
  have wb: "wf_bundle ?b" using wf i ty wpl assms(2)
    by (auto simp: wf_bundle_def first_part_def list_all_length nth_list_update)
  show off: "frag_off ?b = frag_off b" by (simp add: frag_off_def first_part_def)
  show en: "frag_end ?b = frag_off b + unat n" using pl by (simp add: frag_end_def frag_off_def payload_bytes_def) (simp add: first_part_def)
  have "blk_data ?pl = Some (take (unat n) (drop (frag_off b) D))" using c(1) n by (simp add: min_absorb1)
  then show "fragment_of D ?b" unfolding fragment_of_def off en
    using wb pl c(2,3) n by (auto simp: first_part_def)
qed

lemma second_part_fragment:
  assumes "carries D b" "payload_of b = Some pl" "n < blk_length pl" "blk_type k = BUNDLE_BLOCK_TYPE_PAYLOAD"
    "blk_length k = blk_length pl - n" "blk_data k = map_option (drop (unat n)) (blk_data pl)" "blk_eid_refs k = []"
  shows "fragment_of D (second_part b pl n k)" "frag_off (second_part b pl n k) = frag_off b + unat n"
    "frag_end (second_part b pl n k) = frag_off b + unat (blk_length pl)"
proof -
  let ?r = "second_part b pl n k"
  note c = carriesD[OF assms(1,2)]
  have wf: "wf_bundle b" using assms(1) by (simp add: carries_def)
  have n: "unat n < unat (blk_length pl)" using assms(3) by (simp add: word_less_nat_alt)
  have len: "unat (blk_length k) = unat (blk_length pl) - unat n" using n assms(5) by (simp add: unat_sub word_le_nat_alt)
  have pl: "payload_of ?r = Some k" by (simp add: payload_of_def second_part_def Let_def nth_append)
  have d: "blk_data k = Some (take (unat (blk_length k)) (drop (frag_off b + unat n) D))"
    using c(1) assms(6) len by (simp add: drop_take add.commute)
  have wk: "wf_block k" using d c(2) len n assms(7) by (simp add: wf_block_def)
  have wb: "wf_bundle ?r" using wf wk assms(4)
    by (auto simp: wf_bundle_def second_part_def Let_def list_all_iff wf_dup_block nth_append intro!: exI[of _ "length (blocks b)"])
  show off: "frag_off ?r = frag_off b + unat n"
    using c(2,4) n unat_add_lem[THEN iffD1, of "fragment_offset b" n] by (simp add: frag_off_def second_part_def Let_def)
  show en: "frag_end ?r = frag_off b + unat (blk_length pl)"
    using off pl len n by (simp add: frag_end_def frag_off_def payload_bytes_def)
  show "fragment_of D ?r" unfolding fragment_of_def off en using wb pl d c(2,3) by (auto simp: second_part_def Let_def)
qed


text \<open>What a bundle processor holds when the bundle has arrived and waits for its other fragments.\<close>

definition arrived :: "bundleid_t \<Rightarrow> bundle_t \<Rightarrow> bundle_t" where
  "arrived i b = b\<lparr>bundle_id := i, ret_constraints := BUNDLE_RET_CONSTRAINT_REASSEMBLY_PENDING\<rparr>"

lemma arrived_fields [simp]: "frag_off (arrived i b) = frag_off b" "frag_end (arrived i b) = frag_end b" "fragment_of D (arrived i b) = fragment_of D b"
proof -
  have p: "payload_of (arrived i b) = payload_of b" by (simp add: payload_of_def arrived_def split: option.splits)
  have pb: "payload_bytes (arrived i b) = payload_bytes b" by (simp add: payload_bytes_def p)
  show "frag_off (arrived i b) = frag_off b" "frag_end (arrived i b) = frag_end b" by (simp_all add: frag_off_def frag_end_def pb) (simp_all add: arrived_def)
  then show "fragment_of D (arrived i b) = fragment_of D b" unfolding fragment_of_def p by (simp add: arrived_def wf_bundle_def)
qed

lemma fragments_partition:
  assumes "carries D b" "protocol_version b = 7" "\<not> bundle_is_fragmented b"
    and frag: "bundle7_fragment_bundle v6 junk b first_max [] = Inr (Remainder r, b', as)" and "payload_bytes b' \<noteq> 0"
    and heap: "bp_heap s p = Some (arrived i b')" "bp_heap s q = Some (arrived j r)" "p \<noteq> q" "bp_reassembly s = []" "bp_known s = []"
  shows "partition_of D s [p, q]" "destination b' = destination b" "proc_flags b' = proc_flags b OR BUNDLE_FLAG_IS_FRAGMENT" "source b' = source b"
proof -
  have wf: "wf_bundle b" using assms(1) by (simp add: carries_def)
  obtain x pl where x: "payload_block b = Some x" "payload_of b = Some pl" using wf wf_bundle_payload by metis
  obtain m where m: "bundle7_get_first_fragment_min_size b = Inr m" using assms(3) by (auto simp: bundle7_get_first_fragment_min_size_def fragment_fields_size_def)
  obtain n k where n: "n < blk_length pl" "blk_type k = BUNDLE_BLOCK_TYPE_PAYLOAD"
      "blk_length k = blk_length pl - n" "blk_data k = map_option (drop (unat n)) (blk_data pl)" "blk_eid_refs k = []"
      "r = bundle7_recalculate_primary_block_length (second_part b pl n k)" "b' = bundle7_recalculate_primary_block_length (first_part b x pl n)"
    by (cases rule: bundle7_fragment_cases[OF wf assms(2) x m, of first_max v6 junk]) (use frag that in auto)
  note f = first_part_fragment[OF assms(1) x n(1)] and g = second_part_fragment[OF assms(1) x(2) n(1-5)]
  have off: "frag_off b = 0" using assms(1,3) by (simp add: carries_def frag_off_def)
  have "unat n = frag_end b'" using f(3) off by (simp add: n(7))
  also have "\<dots> = frag_off b' + unat (payload_bytes b')" by (simp add: frag_end_def frag_off_def)
  finally have pos: "0 < unat n" using assms(5) by (simp add: unat_gt_0)
  have D: "unat (blk_length pl) = length D" using carriesD(3)[OF assms(1) x(2)] assms(3) by simp
  have con: "contiguous (length D) 0 [arrived i b', arrived j r]"
    using f g off pos n(1) D by (simp add: n(6,7) word_less_nat_alt)
  have flds: "source b' = source b" "source r = source b" "creation_timestamp_ms b' = creation_timestamp_ms r" "sequence_number b' = sequence_number r"
    by (simp_all add: n(6,7) bundle7_recalculate_primary_block_length_def first_part_def second_part_def Let_def)
  have "source b \<noteq> None" using wf by (simp add: wf_bundle_def)
  then have may: "may_reassemble (arrived i' y) (arrived j' z) = Inr True" if "y \<in> {b', r}" "z \<in> {b', r}" for y z i' j'
    using that flds by (auto simp: may_reassemble_def arrived_def strcmp_eq_def)
  have wait: "waiting_fragment D s p (arrived i b')" "waiting_fragment D s q (arrived j r)"
    using heap f(1) g(1) by (simp_all add: waiting_fragment_def n(6,7)) (simp_all add: arrived_def)
  show "partition_of D s [p, q]" unfolding partition_of_def using heap(1,2,3) con may wait by simp
  show "destination b' = destination b" "proc_flags b' = proc_flags b OR BUNDLE_FLAG_IS_FRAGMENT" "source b' = source b"
    by (simp_all add: n(7) bundle7_recalculate_primary_block_length_def first_part_def)
qed

section \<open>Properties\<close>


definition round_bundle :: bundle_t where
  "round_bundle = whole_bundle\<lparr>destination := Some ''dtn:b/x''\<rparr>"


end
